(* ===== verification/Prelude.thy ===== *)
theory Prelude
  imports Main "HOL-Library.Word"
begin

text \<open>
  Shared vocabulary of the development: the machine types of the headers under
  \<open>src/include\<close>, the \<open>esp_err_t\<close> codes, the C memory operations on byte
  vectors (\<open>memcpy\<close>, \<open>memset\<close> at an offset) and the little-endian image of a
  machine integer (what \<open>reinterpret_cast<const char*>(&value)\<close> yields on the
  little-endian hosts the emulator supports), each with the lemmas the component
  theories share.
\<close>

section \<open>Collections of facts\<close>

named_theorems op_defs \<open>unfolding equations of the modelled operations\<close>
named_theorems inv_simps \<open>unfolding equations of the component invariants\<close>

section \<open>Machine types and error codes\<close>

type_synonym byte = "8 word"
type_synonym u16 = "16 word"
type_synonym u32 = "32 word"
type_synonym u64 = "64 word"
type_synonym esp_err = int

text \<open>The codes that every ESP-IDF header of the emulator agrees on.\<close>

abbreviation (input) "ESP_OK \<equiv> (0 :: esp_err)"
abbreviation (input) "ESP_FAIL \<equiv> (- 1 :: esp_err)"
abbreviation (input) "ESP_ERR_NO_MEM \<equiv> (0x101 :: esp_err)"
abbreviation (input) "ESP_ERR_INVALID_ARG \<equiv> (0x102 :: esp_err)"
abbreviation (input) "ESP_ERR_INVALID_STATE \<equiv> (0x103 :: esp_err)"
abbreviation (input) "ESP_ERR_NOT_FOUND \<equiv> (0x105 :: esp_err)"
abbreviation (input) "ESP_ERR_INVALID_SIZE \<equiv> (0x106 :: esp_err)"
abbreviation (input) "ESP_ERR_TIMEOUT \<equiv> (0x107 :: esp_err)"

text \<open>FreeRTOS results: \<open>pdTRUE = pdPASS = 1\<close> and \<open>pdFALSE = pdFAIL = 0\<close>.\<close>

abbreviation (input) "pdPASS \<equiv> (1 :: int)"
abbreviation (input) "pdFAIL \<equiv> (0 :: int)"
abbreviation (input) "pdTRUE \<equiv> (1 :: int)"
abbreviation (input) "pdFALSE \<equiv> (0 :: int)"
abbreviation (input) "portMAX_DELAY \<equiv> (0xFFFFFFFF :: u32)"

section \<open>Lists as C memory\<close>

text \<open>
  \<open>chunk xs off n\<close> is the \<open>n\<close> bytes a \<open>memcpy\<close> reads at offset \<open>off\<close>;
  \<open>blit xs off src\<close> is the vector after a \<open>memcpy\<close> of \<open>src\<close> to offset
  \<open>off\<close>. Both are used under the bounds check the code makes first.
\<close>

definition chunk :: "'a list \<Rightarrow> nat \<Rightarrow> nat \<Rightarrow> 'a list" where
  "chunk xs off n = take n (drop off xs)"

definition blit :: "'a list \<Rightarrow> nat \<Rightarrow> 'a list \<Rightarrow> 'a list" where
  "blit xs off src = take off xs @ src @ drop (off + length src) xs"

lemma length_chunk [simp]: "off + n \<le> length xs \<Longrightarrow> length (chunk xs off n) = n"
  by (simp add: chunk_def)

lemma length_blit [simp]: "off + length src \<le> length xs \<Longrightarrow> length (blit xs off src) = length xs"
  by (simp add: blit_def)

lemma nth_chunk: "off + n \<le> length xs \<Longrightarrow> i < n \<Longrightarrow> chunk xs off n ! i = xs ! (off + i)"
  by (simp add: chunk_def)

lemma nth_blit:
  "off + length src \<le> length xs \<Longrightarrow> i < length xs \<Longrightarrow>
   blit xs off src ! i = (if off \<le> i \<and> i < off + length src then src ! (i - off) else xs ! i)"
  by (auto simp: blit_def nth_append min_def)

lemma chunk_blit_same [simp]:
  "off + length src \<le> length xs \<Longrightarrow> chunk (blit xs off src) off (length src) = src"
  by (simp add: chunk_def blit_def)

lemma chunk_blit_disjoint:
  assumes "off + length src \<le> length xs" "p + n \<le> length xs"
    and "p + n \<le> off \<or> off + length src \<le> p"
  shows "chunk (blit xs off src) p n = chunk xs p n"
proof (rule nth_equalityI)
  show "length (chunk (blit xs off src) p n) = length (chunk xs p n)"
    using assms by simp
next
  fix i assume "i < length (chunk (blit xs off src) p n)"
  with assms show "chunk (blit xs off src) p n ! i = chunk xs p n ! i"
    by (auto simp: nth_chunk nth_blit)
qed

lemma chunk_blit_inside:
  assumes "off + length src \<le> length xs" "off \<le> p" "p + n \<le> off + length src"
  shows "chunk (blit xs off src) p n = chunk src (p - off) n"
proof (rule nth_equalityI)
  show "length (chunk (blit xs off src) p n) = length (chunk src (p - off) n)"
    using assms by simp
next
  fix i assume "i < length (chunk (blit xs off src) p n)"
  with assms show "chunk (blit xs off src) p n ! i = chunk src (p - off) n ! i"
    by (simp add: nth_chunk nth_blit)
qed

lemma blit_blit_same:
  "off + length src \<le> length xs \<Longrightarrow> length src' = length src \<Longrightarrow>
   blit (blit xs off src) off src' = blit xs off src'"
  by (auto intro!: nth_equalityI simp: nth_blit)

lemma blit_blit_commute:
  assumes "off + length a \<le> length xs" "p + length b \<le> length xs"
    and "off + length a \<le> p \<or> p + length b \<le> off"
  shows "blit (blit xs off a) p b = blit (blit xs p b) off a"
  using assms by (auto intro!: nth_equalityI simp: nth_blit)

lemma chunk_replicate [simp]: "off + n \<le> m \<Longrightarrow> chunk (replicate m v) off n = replicate n v"
  by (simp add: chunk_def min_def)

lemma chunk_full [simp]: "chunk xs 0 (length xs) = xs"
  by (simp add: chunk_def)

lemma unat_bound: "unat (a :: 'a::len word) < 2 ^ LENGTH('a)"
  by (rule unsigned_less)

section \<open>Little-endian images of machine integers\<close>

fun le_bytes :: "nat \<Rightarrow> nat \<Rightarrow> byte list" where
  "le_bytes 0 n = []"
| "le_bytes (Suc k) n = word_of_nat n # le_bytes k (n div 256)"

fun le_nat :: "byte list \<Rightarrow> nat" where
  "le_nat [] = 0"
| "le_nat (b # bs) = unat b + 256 * le_nat bs"

lemma length_le_bytes [simp]: "length (le_bytes k n) = k"
  by (induction k arbitrary: n) auto

lemma le_nat_bound: "le_nat bs < 256 ^ length bs"
proof (induction bs)
  case Nil
  then show ?case by simp
next
  case (Cons b bs)
  have "unat b < 256" using unat_bound [of b] by simp
  with Cons show ?case by simp
qed

lemma le_nat_le_bytes [simp]: "le_nat (le_bytes k n) = n mod 256 ^ k"
proof (induction k arbitrary: n)
  case 0
  then show ?case by simp
next
  case (Suc k)
  have "n mod 256 ^ Suc k = n mod 256 + 256 * (n div 256 mod 256 ^ k)"
    by (simp add: mod_mult2_eq)
  then show ?case
    by (simp add: Suc unat_of_nat)
qed

lemma le_bytes_le_nat: "length bs = k \<Longrightarrow> le_bytes k (le_nat bs) = bs"
proof (induction bs arbitrary: k)
  case Nil
  then show ?case by simp
next
  case (Cons b bs)
  have b: "unat b < 256" using unat_bound [of b] by simp
  have "(word_of_nat (unat b + 256 * le_nat bs) :: byte) = b"
    by (simp only: word_unat_eq_iff unat_of_nat) (use b in simp)
  with b Cons show ?case by auto
qed

text \<open>
  \<open>word_bytes v\<close> is \<open>std::string((const char*)&value, sizeof(value))\<close>, and
  \<open>bytes_word\<close> the \<open>memcpy\<close> back. The width comes from the word type, so the one pair
  covers \<open>int8_t\<close> to \<open>uint64_t\<close>; a signed value is the word with its bit pattern.
\<close>

definition sizeof :: "'a::len word itself \<Rightarrow> nat" where
  "sizeof _ = LENGTH('a) div 8"

definition word_bytes :: "'a::len word \<Rightarrow> byte list" where
  "word_bytes v = le_bytes (LENGTH('a) div 8) (unat v)"

definition bytes_word :: "byte list \<Rightarrow> 'a::len word" where
  "bytes_word bs = word_of_nat (le_nat bs)"

lemma length_word_bytes [simp]: "length (word_bytes (v :: 'a::len word)) = sizeof TYPE('a word)"
  by (simp add: word_bytes_def sizeof_def)

lemma bytes_word_bytes [simp]:
  assumes "LENGTH('a::len) mod 8 = 0"
  shows "bytes_word (word_bytes (v :: 'a word)) = v"
proof -
  have "(256::nat) ^ (LENGTH('a) div 8) = 2 ^ (8 * (LENGTH('a) div 8))"
    by (simp add: power_mult)
  also have "8 * (LENGTH('a) div 8) = LENGTH('a)"
    using assms by auto
  finally have "unat v mod 256 ^ (LENGTH('a) div 8) = unat v"
    by simp
  then show ?thesis
    by (simp add: word_bytes_def bytes_word_def)
qed

lemma word_bytes_inject:
  assumes "LENGTH('a::len) mod 8 = 0" "word_bytes (v :: 'a word) = word_bytes w"
  shows "v = w"
  using assms bytes_word_bytes by metis

section \<open>Condition variables\<close>

text \<open>
  \<open>cv.wait_for(lock, timeout, pred)\<close> returns at once when the predicate holds;
  otherwise it releases the lock, and when it returns the other threads have moved the
  object to some state, of which the predicate is the result. \<open>env\<close> is that
  interference: a function of the timeout in milliseconds and of the state, which the theorems
  leave arbitrary or constrain to keep the object's invariant.
\<close>

definition wait_for :: "('s \<Rightarrow> bool) \<Rightarrow> (nat \<Rightarrow> 's \<Rightarrow> 's) \<Rightarrow> nat \<Rightarrow> 's \<Rightarrow> bool \<times> 's" where
  "wait_for p env ms s = (if p s then (True, s) else (p (env ms s), env ms s))"

lemma wait_for_cases:
  "wait_for p env ms s = (b, s') \<Longrightarrow> b = p s' \<and> (s' = s \<or> s' = env ms s)"
  by (auto simp: wait_for_def split: if_splits)

text \<open>
  \<open>cv.wait(lock, pred)\<close> and \<open>mutex.lock()\<close> have no timeout: they return only
  in a state where the predicate holds, and \<open>None\<close> is a thread that stays blocked.
\<close>

definition wait_forever :: "('s \<Rightarrow> bool) \<Rightarrow> ('s \<Rightarrow> 's) \<Rightarrow> 's \<Rightarrow> 's option" where
  "wait_forever p env s = (if p s then Some s else if p (env s) then Some (env s) else None)"

definition env_keeps :: "('s \<Rightarrow> bool) \<Rightarrow> (nat \<Rightarrow> 's \<Rightarrow> 's) \<Rightarrow> bool" where
  "env_keeps I env \<longleftrightarrow> (\<forall>ms s. I s \<longrightarrow> I (env ms s))"

lemma wait_for_keeps:
  "wait_for p env ms s = (b, s') \<Longrightarrow> env_keeps I env \<Longrightarrow> I s \<Longrightarrow> I s'"
  by (auto simp: env_keeps_def dest: wait_for_cases)

definition env_idle :: "nat \<Rightarrow> 's \<Rightarrow> 's" where
  "env_idle ms s = s"

lemma env_keeps_idle [simp]: "env_keeps I env_idle"
  by (simp add: env_keeps_def env_idle_def)

section \<open>Results\<close>

text \<open>An operation's result as its parts, to instantiate the variables of \<open>op x = ((r, out), s)\<close>.\<close>

lemma pair_parts3: "x = (fst x, fst (snd x), snd (snd x))"
  by simp

lemma nested_parts3: "x = ((fst (fst x), snd (fst x)), snd x)"
  by simp

lemma nested_parts4: "x = ((fst (fst x), fst (snd (fst x)), snd (snd (fst x))), snd x)"
  by simp

section \<open>Wrap-around\<close>

lemma unat_add_no_wrap:
  "unat (a :: 'a::len word) + unat b < 2 ^ LENGTH('a) \<Longrightarrow> unat (a + b) = unat a + unat b"
  by (simp add: unat_word_ariths)

lemma word_le_imp_unat_le: "(a :: 'a::len word) \<le> b \<Longrightarrow> unat a \<le> unat b"
  by (simp add: word_le_nat_alt)

lemma unat_ucast_size [simp]: "unat (ucast (x :: u32) :: u64) = unat x"
  by transfer (simp add: take_bit_take_bit)

end
