(* ===== verification/Interfaces.thy ===== *)
theory Interfaces
  imports Prelude
begin

text \<open>
  The contracts between components, each a locale: what a component promises
  (\<open>assumes\<close>) and what its clients conclude from the promise alone. The
  theories of the providers interpret them on the models of the code.
\<close>

section \<open>Operations that keep an invariant\<close>

text \<open>
  A component as a state machine: any sequence of admissible operations, run from an
  initial state, stays within the invariant.
\<close>

locale step_system =
  fixes init :: "'s \<Rightarrow> bool"
    and ok :: "'op \<Rightarrow> bool"
    and step :: "'op \<Rightarrow> 's \<Rightarrow> 's"
    and inv :: "'s \<Rightarrow> bool"
  assumes inv_init: "init s \<Longrightarrow> inv s"
    and inv_step: "inv s \<Longrightarrow> ok op \<Longrightarrow> inv (step op s)"
begin

lemma inv_fold: "inv s \<Longrightarrow> list_all ok ops \<Longrightarrow> inv (fold step ops s)"
  by (induction ops arbitrary: s) (auto simp: inv_step)

lemma inv_run: "init s \<Longrightarrow> list_all ok ops \<Longrightarrow> inv (fold step ops s)"
  by (simp add: inv_init inv_fold)

inductive reach :: "'s \<Rightarrow> bool" where
  start: "init s \<Longrightarrow> reach s"
| move: "reach s \<Longrightarrow> ok op \<Longrightarrow> reach (step op s)"

lemma reach_inv: "reach s \<Longrightarrow> inv s"
  by (induction rule: reach.induct) (auto simp: inv_init inv_step)

end

section \<open>A bounded byte stream\<close>

text \<open>
  \<open>xmit q d\<close> writes a prefix of \<open>d\<close> and returns how much; \<open>recv q n\<close> takes up
  to \<open>n\<close> bytes off the front. Both are \<open>None\<close> where the code traps, which the
  contract excludes under the invariant. The client is the message buffer of
  \<open>freertos/stream_buffer.h\<close>, which frames every message with a four byte length.
\<close>

definition msg_frame :: "byte list \<Rightarrow> byte list" where
  "msg_frame m = word_bytes (word_of_nat (length m) :: u32) @ m"

definition msg_frames :: "byte list list \<Rightarrow> byte list" where
  "msg_frames ms = concat (map msg_frame ms)"

lemma msg_frames_simps [simp]:
  "msg_frames [] = []" "msg_frames (m # ms) = msg_frame m @ msg_frames ms"
  "msg_frames (ms @ ns) = msg_frames ms @ msg_frames ns"
  by (simp_all add: msg_frames_def)

lemma length_msg_frame [simp]: "length (msg_frame m) = 4 + length m"
  by (simp add: msg_frame_def sizeof_def)

locale byte_stream =
  fixes inv :: "'q \<Rightarrow> bool"
    and contents :: "'q \<Rightarrow> byte list"
    and cap :: "'q \<Rightarrow> nat"
    and xmit :: "'q \<Rightarrow> byte list \<Rightarrow> (nat \<times> 'q) option"
    and recv :: "'q \<Rightarrow> nat \<Rightarrow> (byte list \<times> 'q) option"
  assumes contents_bound: "inv q \<Longrightarrow> length (contents q) \<le> cap q"
    and xmit_spec: "inv q \<Longrightarrow> \<exists>n q'. xmit q d = Some (n, q') \<and>
      n = min (length d) (cap q - length (contents q)) \<and>
      contents q' = contents q @ take n d \<and> cap q' = cap q \<and> inv q'"
    and recv_spec: "inv q \<Longrightarrow> \<exists>q'. recv q n = Some (take n (contents q), q') \<and>
      contents q' = drop n (contents q) \<and> cap q' = cap q \<and> inv q'"
begin

lemma xmit_all:
  assumes "inv q" "length (contents q) + length d \<le> cap q"
  shows "\<exists>q'. xmit q d = Some (length d, q') \<and> contents q' = contents q @ d \<and>
    cap q' = cap q \<and> inv q'"
  using xmit_spec [OF assms(1), of d] assms(2) by auto

lemma recv_prefix:
  assumes "inv q" "contents q = d @ rest"
  shows "\<exists>q'. recv q (length d) = Some (d, q') \<and> contents q' = rest \<and> cap q' = cap q \<and> inv q'"
  using recv_spec [OF assms(1), of "length d"] assms(2) by auto

lemma xmit_frame:
  assumes "inv q" "contents q = msg_frames ms" "length (msg_frames ms) + length m + 4 \<le> cap q"
  shows "\<exists>q1 q2. xmit q (word_bytes (word_of_nat (length m) :: u32)) = Some (4, q1) \<and>
    xmit q1 m = Some (length m, q2) \<and> contents q2 = msg_frames (ms @ [m]) \<and>
    cap q2 = cap q \<and> inv q2"
proof -
  have four: "length (word_bytes (word_of_nat (length m) :: u32)) = 4"
    by (simp add: sizeof_def)
  obtain q1 where q1: "xmit q (word_bytes (word_of_nat (length m) :: u32)) = Some (4, q1)"
      "contents q1 = msg_frames ms @ word_bytes (word_of_nat (length m) :: u32)"
      "cap q1 = cap q" "inv q1"
    using xmit_all [OF assms(1), of "word_bytes (word_of_nat (length m) :: u32)"] assms(2,3) four
    by auto
  then show ?thesis
    using xmit_all [OF q1(4), of m] assms(3) four by (auto simp: msg_frame_def)
qed

lemma recv_frame:
  assumes "inv q" "contents q = msg_frame m @ rest" "length m < 2 ^ 32"
  shows "\<exists>hdr q1 q2. recv q 4 = Some (hdr, q1) \<and> unat (bytes_word hdr :: u32) = length m \<and>
    contents q1 = m @ rest \<and> inv q1 \<and> recv q1 (length m) = Some (m, q2) \<and>
    contents q2 = rest \<and> cap q2 = cap q \<and> inv q2"
proof -
  let ?hdr = "word_bytes (word_of_nat (length m) :: u32)"
  have four: "length ?hdr = 4"
    by (simp add: sizeof_def)
  obtain q1 where q1: "recv q 4 = Some (?hdr, q1)" "contents q1 = m @ rest" "cap q1 = cap q" "inv q1"
    using recv_prefix [OF assms(1), of ?hdr "m @ rest"] assms(2) four by (auto simp: msg_frame_def)
  moreover have "unat (bytes_word ?hdr :: u32) = length m"
    using assms(3) by (simp add: unat_of_nat take_bit_nat_eq_self)
  ultimately show ?thesis
    using recv_prefix [OF q1(4,2)] by auto
qed

end

section \<open>A key/value store of byte strings\<close>

text \<open>
  The clients are the typed getters and setters of \<open>nvs_flash.h\<close> and
  \<open>Preferences.h\<close>: an integer is stored as its memory image, and a read checks the
  size before it copies back.
\<close>

locale blob_store =
  fixes ok :: "'s \<Rightarrow> bool"
    and put :: "'s \<Rightarrow> 'k \<Rightarrow> byte list \<Rightarrow> 's"
    and get :: "'s \<Rightarrow> 'k \<Rightarrow> byte list option"
  assumes ok_put: "ok s \<Longrightarrow> ok (put s k v)"
    and get_put: "ok s \<Longrightarrow> get (put s k v) k' = (if k' = k then Some v else get s k')"
begin

lemma get_put_same: "ok s \<Longrightarrow> get (put s k v) k = Some v"
  by (simp add: get_put)

lemma get_put_other: "ok s \<Longrightarrow> k' \<noteq> k \<Longrightarrow> get (put s k v) k' = get s k'"
  by (simp add: get_put)

lemma get_put_typed:
  assumes "ok s" "LENGTH('a::len) mod 8 = 0"
  shows "\<exists>b. get (put s k (word_bytes (v :: 'a word))) k = Some b \<and>
    length b = sizeof TYPE('a word) \<and> bytes_word b = v"
  using assms by (simp add: get_put_same)

lemma put_put_same: "ok s \<Longrightarrow> get (put (put s k v) k w) k' = get (put s k w) k'"
  by (simp add: get_put ok_put)

end

section \<open>Cells that can be set\<close>

text \<open>
  The contract of frame buffers, strips of lights, register files and channel tables: a write to a
  cell inside changes that cell only, a write to one outside changes nothing, and what is read back
  is the stored form of what was written. Filling and sequences of writes are its clients.
\<close>

locale cell_store =
  fixes ok :: "'s \<Rightarrow> bool"
    and inside :: "'s \<Rightarrow> 'k \<Rightarrow> bool"
    and put :: "'k \<Rightarrow> 'v \<Rightarrow> 's \<Rightarrow> 's"
    and get :: "'s \<Rightarrow> 'k \<Rightarrow> 'w"
    and stored :: "'v \<Rightarrow> 'w"
  assumes put_ok: "ok s \<Longrightarrow> ok (put k v s)"
    and put_inside: "ok s \<Longrightarrow> inside (put k v s) k' \<longleftrightarrow> inside s k'"
    and get_put: "ok s \<Longrightarrow> get (put k v s) k' = (if k' = k \<and> inside s k then stored v else get s k')"
begin

lemma writes_ok: "ok s \<Longrightarrow> ok (fold (\<lambda>(k, v). put k v) kvs s) \<and> inside (fold (\<lambda>(k, v). put k v) kvs s) k' = inside s k'"
  by (induction kvs arbitrary: s) (auto simp: put_ok put_inside)

text \<open>After a sequence of writes a cell inside holds what was written to it last.\<close>

lemma writes_get:
  assumes "ok s"
  shows "get (fold (\<lambda>(k, v). put k v) kvs s) k' =
    (case map_of (rev kvs) k' of Some v \<Rightarrow> if inside s k' then stored v else get s k' | None \<Rightarrow> get s k')"
proof (induction kvs rule: rev_induct)
  case (snoc kv kvs)
  then show ?case
    using writes_ok [OF assms, of kvs] by (cases kv) (auto simp: get_put split: option.splits)
qed simp

text \<open>Writing one value to many cells.\<close>

lemma fill_get:
  assumes "ok s"
  shows "get (fold (\<lambda>k. put k v) ks s) k' = (if k' \<in> set ks \<and> inside s k' then stored v else get s k')"
    "ok (fold (\<lambda>k. put k v) ks s)"
proof -
  have e: "fold (\<lambda>k. put k v) ks s = fold (\<lambda>(k, v). put k v) (map (\<lambda>k. (k, v)) ks) s"
    by (simp add: fold_map comp_def)
  have "map_of (rev (map (\<lambda>k. (k, v)) ks)) k' = (if k' \<in> set ks then Some v else None)"
    by (induction ks) (auto simp: map_add_Some_iff map_of_eq_None_iff split: option.splits)
  then show "get (fold (\<lambda>k. put k v) ks s) k' = (if k' \<in> set ks \<and> inside s k' then stored v else get s k')"
    unfolding e writes_get [OF assms] by simp
  show "ok (fold (\<lambda>k. put k v) ks s)"
    unfolding e using writes_ok [OF assms] by blast
qed

lemma put_put_get: "ok s \<Longrightarrow> get (put k w (put k v s)) k' = get (put k w s) k'"
  by (simp add: get_put put_ok put_inside)

lemma put_commute_get: "ok s \<Longrightarrow> k \<noteq> j \<Longrightarrow> get (put k w (put j v s)) k' = get (put j v (put k w s)) k'"
  by (simp add: get_put put_ok put_inside)

end

section \<open>An addressable byte region\<close>

text \<open>
  The contract of emulated flash: \<open>wr\<close> and \<open>rd\<close> succeed exactly inside the
  region, a write changes only its own range.
\<close>

locale byte_region =
  fixes inv :: "'s \<Rightarrow> bool"
    and bytes :: "'s \<Rightarrow> byte list"
    and wr :: "'s \<Rightarrow> nat \<Rightarrow> byte list \<Rightarrow> 's option"
    and rd :: "'s \<Rightarrow> nat \<Rightarrow> nat \<Rightarrow> byte list option"
  assumes wr_spec: "inv s \<Longrightarrow> off + length d \<le> length (bytes s) \<Longrightarrow>
      \<exists>s'. wr s off d = Some s' \<and> bytes s' = blit (bytes s) off d \<and> inv s'"
    and rd_spec: "inv s \<Longrightarrow> off + n \<le> length (bytes s) \<Longrightarrow>
      rd s off n = Some (chunk (bytes s) off n)"
begin

lemma rd_wr_same:
  assumes "inv s" "off + length d \<le> length (bytes s)"
  shows "\<exists>s'. wr s off d = Some s' \<and> rd s' off (length d) = Some d"
  using wr_spec [OF assms] assms by (auto simp: rd_spec)

lemma rd_wr_disjoint:
  assumes "inv s" "off + length d \<le> length (bytes s)" "p + n \<le> length (bytes s)"
    and "p + n \<le> off \<or> off + length d \<le> p"
  shows "\<exists>s'. wr s off d = Some s' \<and> rd s' p n = rd s p n"
  using wr_spec [OF assms(1,2)] assms by (auto simp: rd_spec chunk_blit_disjoint)

lemma wr_wr_commute:
  assumes "inv s" "off + length a \<le> length (bytes s)" "p + length b \<le> length (bytes s)"
    and "off + length a \<le> p \<or> p + length b \<le> off"
  shows "\<exists>s1 s2 t1 t2. wr s off a = Some s1 \<and> wr s1 p b = Some s2 \<and>
    wr s p b = Some t1 \<and> wr t1 off a = Some t2 \<and> bytes s2 = bytes t2"
proof -
  obtain s1 where s1: "wr s off a = Some s1" "bytes s1 = blit (bytes s) off a" "inv s1"
    using wr_spec [OF assms(1,2)] by blast
  obtain t1 where t1: "wr s p b = Some t1" "bytes t1 = blit (bytes s) p b" "inv t1"
    using wr_spec [OF assms(1,3)] by blast
  obtain s2 where s2: "wr s1 p b = Some s2" "bytes s2 = blit (bytes s1) p b"
    using wr_spec [of s1 p b] s1 assms by auto
  obtain t2 where t2: "wr t1 off a = Some t2" "bytes t2 = blit (bytes t1) off a"
    using wr_spec [of t1 off a] t1 assms by auto
  show ?thesis
    using s1 s2 t1 t2 blit_blit_commute [OF assms(2,3,4)] by auto
qed

end

end
