(* ===== verification/Aes.thy ===== *)
theory Aes
  imports Interfaces
begin

text \<open>
  The cipher of \<open>src/include/mbedtls/aes.h\<close>: key set-up, the block operation (an exclusive-or with
  the key that stands in for AES) and cipher block chaining. The chaining reads and writes
  caller memory through two pointers, so the model has one memory and two offsets, and overlapping
  buffers are covered. The lemmas give the round trip and what decrypting in place computes.
\<close>

unbundle bit_operations_syntax

section \<open>State\<close>

abbreviation (input) "MBEDTLS_AES_ENCRYPT \<equiv> (1 :: int)"
abbreviation (input) "MBEDTLS_AES_DECRYPT \<equiv> (0 :: int)"
abbreviation (input) "AES_INVALID_KEY_LENGTH \<equiv> (- 0x20 :: int)"
abbreviation (input) "AES_INVALID_INPUT_LENGTH \<equiv> (- 0x22 :: int)"

record aes_context =
  aesKey :: "byte list"
  keyBits :: nat
  aesMode :: int

definition mbedtls_aes_init :: aes_context where
  "mbedtls_aes_init = \<lparr>aesKey = replicate 32 0, keyBits = 0, aesMode = 0\<rparr>"

definition mbedtls_aes_free :: aes_context where
  "mbedtls_aes_free = \<lparr>aesKey = replicate 32 0, keyBits = 0, aesMode = 0\<rparr>"

section \<open>Operations\<close>

text \<open>\<open>key\<close> has at least \<open>keybits / 8\<close> bytes, as the interface asks.\<close>

definition mbedtls_aes_setkey_enc :: "aes_context \<Rightarrow> byte list \<Rightarrow> nat \<Rightarrow> int \<times> aes_context" where
  "mbedtls_aes_setkey_enc ctx key keybits =
    (if keybits \<noteq> 128 \<and> keybits \<noteq> 192 \<and> keybits \<noteq> 256 then (AES_INVALID_KEY_LENGTH, ctx)
     else (0, ctx\<lparr>keyBits := keybits, aesMode := MBEDTLS_AES_ENCRYPT,
            aesKey := blit (aesKey ctx) 0 (take (keybits div 8) key)\<rparr>))"

definition mbedtls_aes_setkey_dec :: "aes_context \<Rightarrow> byte list \<Rightarrow> nat \<Rightarrow> int \<times> aes_context" where
  "mbedtls_aes_setkey_dec ctx key keybits =
    (if keybits \<noteq> 128 \<and> keybits \<noteq> 192 \<and> keybits \<noteq> 256 then (AES_INVALID_KEY_LENGTH, ctx)
     else (0, ctx\<lparr>keyBits := keybits, aesMode := MBEDTLS_AES_DECRYPT,
            aesKey := blit (aesKey ctx) 0 (take (keybits div 8) key)\<rparr>))"

definition key_block :: "aes_context \<Rightarrow> byte list" where
  "key_block ctx = map (\<lambda>i. aesKey ctx ! (i mod (keyBits ctx div 8))) [0..<16]"

definition xor16 :: "byte list \<Rightarrow> byte list \<Rightarrow> byte list" where
  "xor16 a b = map2 (XOR) a b"

text \<open>Without a key set, \<open>i % (ctx->key_bits / 8)\<close> divides by zero: \<open>None\<close>.\<close>

definition mbedtls_aes_crypt_ecb :: "aes_context \<Rightarrow> byte list \<Rightarrow> byte list option" where
  "mbedtls_aes_crypt_ecb ctx input =
    (if keyBits ctx div 8 = 0 then None else Some (xor16 input (key_block ctx)))"

text \<open>
  The loop over blocks; \<open>inp\<close> and \<open>outp\<close> are the addresses of the current input and output
  block. After the block is written, \<open>iv\<close> is copied from the output when encrypting and from the
  input when decrypting.
\<close>

fun cbc_loop ::
  "aes_context \<Rightarrow> int \<Rightarrow> nat \<Rightarrow> byte list \<Rightarrow> byte list \<Rightarrow> nat \<Rightarrow> nat \<Rightarrow> (byte list \<times> byte list) option" where
  "cbc_loop ctx mode 0 iv mem inp outp = Some (iv, mem)"
| "cbc_loop ctx mode (Suc m) iv mem inp outp =
    (if mode = MBEDTLS_AES_ENCRYPT then
       case mbedtls_aes_crypt_ecb ctx (xor16 (chunk mem inp 16) iv) of
         None \<Rightarrow> None
       | Some c \<Rightarrow>
           let mem' = blit mem outp c
           in cbc_loop ctx mode m (chunk mem' outp 16) mem' (inp + 16) (outp + 16)
     else
       case mbedtls_aes_crypt_ecb ctx (chunk mem inp 16) of
         None \<Rightarrow> None
       | Some tmp \<Rightarrow>
           let mem' = blit mem outp (xor16 tmp iv)
           in cbc_loop ctx mode m (chunk mem' inp 16) mem' (inp + 16) (outp + 16))"

text \<open>The code, the final \<open>iv\<close> and the memory; a copy outside the memory is \<open>None\<close>.\<close>

definition mbedtls_aes_crypt_cbc ::
  "aes_context \<Rightarrow> int \<Rightarrow> nat \<Rightarrow> byte list \<Rightarrow> byte list \<Rightarrow> nat \<Rightarrow> nat \<Rightarrow> (int \<times> byte list \<times> byte list) option" where
  "mbedtls_aes_crypt_cbc ctx mode len iv mem inp outp =
    (if len mod 16 \<noteq> 0 then Some (AES_INVALID_INPUT_LENGTH, iv, mem)
     else if length mem < inp + len \<or> length mem < outp + len then None
     else map_option (Pair 0) (cbc_loop ctx mode (len div 16) iv mem inp outp))"

section \<open>Chaining on lists of blocks\<close>

fun enc_blocks :: "byte list \<Rightarrow> byte list \<Rightarrow> byte list list \<Rightarrow> byte list list" where
  "enc_blocks k iv [] = []"
| "enc_blocks k iv (b # bs) = (let c = xor16 (xor16 b iv) k in c # enc_blocks k c bs)"

fun dec_blocks :: "byte list \<Rightarrow> byte list \<Rightarrow> byte list list \<Rightarrow> byte list list" where
  "dec_blocks k iv [] = []"
| "dec_blocks k iv (c # cs) = xor16 (xor16 c k) iv # dec_blocks k c cs"

lemma length_xor16 [simp]: "length (xor16 a b) = min (length a) (length b)"
  by (simp add: xor16_def)

lemma length_key_block [simp]: "length (key_block ctx) = 16"
  by (simp add: key_block_def)

lemma xor16_cancel: "length a = 16 \<Longrightarrow> length b = 16 \<Longrightarrow> xor16 (xor16 a b) b = a"
  by (rule nth_equalityI) (simp_all add: xor16_def xor.assoc)

lemma xor_shuffle:
  fixes b2 :: byte
  shows "(((b2 XOR ((b1 XOR iv) XOR k)) XOR k) XOR k) XOR b1 = (b2 XOR k) XOR iv"
  by (rule bit_word_eqI) (auto simp: bit_simps)

lemma dec_enc_blocks:
  "length k = 16 \<Longrightarrow> length iv = 16 \<Longrightarrow> list_all (\<lambda>b. length b = 16) bs \<Longrightarrow>
   dec_blocks k iv (enc_blocks k iv bs) = bs"
  by (induction bs arbitrary: iv) (simp_all add: Let_def xor16_cancel)

lemma length_enc_blocks [simp]: "length (enc_blocks k iv bs) = length bs"
  by (induction bs arbitrary: iv) (simp_all add: Let_def)

lemma length_dec_blocks [simp]: "length (dec_blocks k iv bs) = length bs"
  by (induction bs arbitrary: iv) simp_all

lemma enc_blocks_16:
  "length k = 16 \<Longrightarrow> length iv = 16 \<Longrightarrow> list_all (\<lambda>b. length b = 16) bs \<Longrightarrow>
   list_all (\<lambda>b. length b = 16) (enc_blocks k iv bs)"
  by (induction bs arbitrary: iv) (simp_all add: Let_def)

lemma dec_blocks_16:
  "length k = 16 \<Longrightarrow> length iv = 16 \<Longrightarrow> list_all (\<lambda>b. length b = 16) bs \<Longrightarrow>
   list_all (\<lambda>b. length b = 16) (dec_blocks k iv bs)"
  by (induction bs arbitrary: iv) simp_all

lemma length_concat_16: "list_all (\<lambda>b. length b = 16) bs \<Longrightarrow> length (concat bs) = 16 * length bs"
  by (induction bs) simp_all

section \<open>Blocks of the memory\<close>

fun blocks :: "byte list \<Rightarrow> nat \<Rightarrow> nat \<Rightarrow> byte list list" where
  "blocks mem off 0 = []"
| "blocks mem off (Suc m) = chunk mem off 16 # blocks mem (off + 16) m"

lemma length_blocks [simp]: "length (blocks mem off m) = m"
  by (induction m arbitrary: off) simp_all

lemma blocks_16: "off + 16 * m \<le> length mem \<Longrightarrow> list_all (\<lambda>b. length b = 16) (blocks mem off m)"
  by (induction m arbitrary: off) simp_all

lemma concat_blocks: "off + 16 * m \<le> length mem \<Longrightarrow> concat (blocks mem off m) = chunk mem off (16 * m)"
proof (induction m arbitrary: off)
  case 0
  then show ?case by (simp add: chunk_def)
next
  case (Suc m)
  then show ?case
    by (simp add: chunk_def take_add add.commute)
qed

lemma blocks_blit_disjoint:
  "off + 16 * m \<le> length mem \<Longrightarrow> p + length d \<le> length mem \<Longrightarrow>
   p + length d \<le> off \<or> off + 16 * m \<le> p \<Longrightarrow> blocks (blit mem p d) off m = blocks mem off m"
proof (induction m arbitrary: off)
  case (Suc m)
  then show ?case by (auto simp: chunk_blit_disjoint)
qed simp

lemma blocks_blit_same:
  "p + 16 * length bs \<le> length mem \<Longrightarrow> list_all (\<lambda>b. length b = 16) bs \<Longrightarrow>
   blocks (blit mem p (concat bs)) p (length bs) = bs"
proof (induction bs arbitrary: p mem)
  case (Cons b bs)
  have len: "length (concat bs) = 16 * length bs"
    using Cons.prems(2) by (simp add: length_concat_16)
  have split: "blit mem p (b @ concat bs) = blit (blit mem p b) (p + 16) (concat bs)"
    using Cons.prems by (simp add: blit_def ac_simps)
  have "chunk (blit mem p (b @ concat bs)) p 16 = b"
    using chunk_blit_inside [of p "b @ concat bs" mem p 16] Cons.prems len by (simp add: chunk_def)
  moreover have "blocks (blit (blit mem p b) (p + 16) (concat bs)) (p + 16) (length bs) = bs"
    using Cons.IH [of "p + 16" "blit mem p b"] Cons.prems by simp
  ultimately show ?case
    by (simp add: split)
qed simp

lemma blit_append:
  "p + length a + length b \<le> length mem \<Longrightarrow> blit mem p (a @ b) = blit (blit mem p a) (p + length a) b"
  by (simp add: blit_def ac_simps)

text \<open>The loop implements the chaining on lists when the two buffers do not overlap.\<close>

lemma cbc_encrypt_refines:
  assumes "keyBits ctx div 8 \<noteq> 0" "length iv = 16"
    and "inp + 16 * m \<le> length mem" "outp + 16 * m \<le> length mem"
    and "inp + 16 * m \<le> outp \<or> outp + 16 * m \<le> inp"
  shows "\<exists>iv'. cbc_loop ctx MBEDTLS_AES_ENCRYPT m iv mem inp outp =
    Some (iv', blit mem outp (concat (enc_blocks (key_block ctx) iv (blocks mem inp m))))"
  using assms(2-)
proof (induction m arbitrary: iv mem inp outp)
  case 0
  then show ?case by (simp add: blit_def)
next
  case (Suc m)
  define c where "c = xor16 (xor16 (chunk mem inp 16) iv) (key_block ctx)"
  have c: "length c = 16"
    using Suc.prems by (simp add: c_def)
  have iv: "chunk (blit mem outp c) outp 16 = c"
    using chunk_blit_same [of outp c mem] Suc.prems c by simp
  have same: "blocks (blit mem outp c) (inp + 16) m = blocks mem (inp + 16) m"
    using Suc.prems c by (intro blocks_blit_disjoint) auto
  have len: "length (concat (enc_blocks (key_block ctx) c (blocks mem (inp + 16) m))) = 16 * m"
    using Suc.prems c enc_blocks_16 [OF length_key_block c blocks_16 [of "inp + 16" m mem]]
    by (simp add: length_concat_16)
  obtain iv' where "cbc_loop ctx MBEDTLS_AES_ENCRYPT m c (blit mem outp c) (inp + 16) (outp + 16) =
      Some (iv', blit (blit mem outp c) (outp + 16)
        (concat (enc_blocks (key_block ctx) c (blocks mem (inp + 16) m))))"
    using Suc.IH [of c "inp + 16" "blit mem outp c" "outp + 16"] Suc.prems c same by auto
  then show ?case
    using assms(1) Suc.prems c len
    by (simp add: mbedtls_aes_crypt_ecb_def c_def [symmetric] iv Let_def blit_append)
qed

lemma cbc_decrypt_refines:
  assumes "keyBits ctx div 8 \<noteq> 0" "length iv = 16"
    and "inp + 16 * m \<le> length mem" "outp + 16 * m \<le> length mem"
    and "inp + 16 * m \<le> outp \<or> outp + 16 * m \<le> inp"
  shows "\<exists>iv'. cbc_loop ctx MBEDTLS_AES_DECRYPT m iv mem inp outp =
    Some (iv', blit mem outp (concat (dec_blocks (key_block ctx) iv (blocks mem inp m))))"
  using assms(2-)
proof (induction m arbitrary: iv mem inp outp)
  case 0
  then show ?case by (simp add: blit_def)
next
  case (Suc m)
  define c where "c = chunk mem inp 16"
  define b where "b = xor16 (xor16 c (key_block ctx)) iv"
  have c: "length c = 16" and b: "length b = 16"
    using Suc.prems by (simp_all add: c_def b_def)
  have iv: "chunk (blit mem outp b) inp 16 = c"
    unfolding c_def using Suc.prems b by (intro chunk_blit_disjoint) auto
  have same: "blocks (blit mem outp b) (inp + 16) m = blocks mem (inp + 16) m"
    using Suc.prems b by (intro blocks_blit_disjoint) auto
  have len: "length (concat (dec_blocks (key_block ctx) c (blocks mem (inp + 16) m))) = 16 * m"
    using Suc.prems c dec_blocks_16 [OF length_key_block c blocks_16 [of "inp + 16" m mem]]
    by (simp add: length_concat_16)
  obtain iv' where "cbc_loop ctx MBEDTLS_AES_DECRYPT m c (blit mem outp b) (inp + 16) (outp + 16) =
      Some (iv', blit (blit mem outp b) (outp + 16)
        (concat (dec_blocks (key_block ctx) c (blocks mem (inp + 16) m))))"
    using Suc.IH [of c "inp + 16" "blit mem outp b" "outp + 16"] Suc.prems c b same by auto
  then show ?case
    using assms(1) Suc.prems b len
    by (simp add: mbedtls_aes_crypt_ecb_def c_def [symmetric] b_def [symmetric] iv Let_def blit_append)
qed

section \<open>Properties\<close>

text \<open>
  C28: the round trip. With a key set, encrypting whole blocks from one buffer to a disjoint one and
  decrypting that into a third, disjoint from the second, with the same \<open>iv\<close>, both succeed and
  reproduce the plaintext.
\<close>

theorem aes_cbc_roundtrip:
  assumes "keyBits ctx div 8 \<noteq> 0" "length iv = 16" "len mod 16 = 0"
    and "p + len \<le> length mem" "c + len \<le> length mem" "q + len \<le> length mem"
    and "p + len \<le> c \<or> c + len \<le> p" "c + len \<le> q \<or> q + len \<le> c"
  shows "\<exists>iv1 mem1 iv2 mem2.
    mbedtls_aes_crypt_cbc ctx MBEDTLS_AES_ENCRYPT len iv mem p c = Some (0, iv1, mem1) \<and>
    mbedtls_aes_crypt_cbc ctx MBEDTLS_AES_DECRYPT len iv mem1 c q = Some (0, iv2, mem2) \<and>
    chunk mem2 q len = chunk mem p len"
proof -
  define m where "m = len div 16"
  have len: "len = 16 * m"
    using assms(3) by (auto simp: m_def)
  define plain where "plain = blocks mem p m"
  define enc where "enc = enc_blocks (key_block ctx) iv plain"
  have plain: "list_all (\<lambda>b. length b = 16) plain"
    using assms(4) blocks_16 by (simp add: plain_def len)
  then have enc: "list_all (\<lambda>b. length b = 16) enc" "length enc = m"
    using assms(2) by (simp_all add: enc_def enc_blocks_16 plain_def)
  then have enc_len: "length (concat enc) = len"
    by (simp add: length_concat_16 len)
  define mem1 where "mem1 = blit mem c (concat enc)"
  have len1: "length mem1 = length mem"
    using enc_len assms(5) by (simp add: mem1_def)
  obtain iv1 where 1: "cbc_loop ctx MBEDTLS_AES_ENCRYPT m iv mem p c = Some (iv1, mem1)"
    using cbc_encrypt_refines [of ctx iv p m mem c] assms
    by (auto simp: len mem1_def enc_def plain_def)
  have "blocks mem1 c m = enc"
    using blocks_blit_same [of c enc mem] enc assms(5) by (simp add: mem1_def len)
  then have "dec_blocks (key_block ctx) iv (blocks mem1 c m) = plain"
    using plain assms(2) by (simp add: enc_def dec_enc_blocks)
  then obtain iv2 where 2: "cbc_loop ctx MBEDTLS_AES_DECRYPT m iv mem1 c q =
      Some (iv2, blit mem1 q (concat plain))"
    using cbc_decrypt_refines [of ctx iv c m mem1 q] assms len1 by (auto simp: len)
  have "concat plain = chunk mem p len"
    using assms(4) by (simp add: plain_def len concat_blocks)
  then have "chunk (blit mem1 q (concat plain)) q len = chunk mem p len"
    using chunk_blit_same [of q "concat plain" mem1] assms(4,6) len1 by simp
  with 1 2 show ?thesis
    using assms(3-6) len1 by (auto simp: mbedtls_aes_crypt_cbc_def m_def [symmetric])
qed

theorem aes_cbc_roundtrip_witness:
  "\<exists>iv1 mem1 iv2 mem2.
    mbedtls_aes_crypt_cbc (snd (mbedtls_aes_setkey_enc mbedtls_aes_init (replicate 16 7) 128))
      MBEDTLS_AES_ENCRYPT 32 (replicate 16 1) (replicate 64 5) 0 32 = Some (0, iv1, mem1) \<and>
    mbedtls_aes_crypt_cbc (snd (mbedtls_aes_setkey_enc mbedtls_aes_init (replicate 16 7) 128))
      MBEDTLS_AES_DECRYPT 32 (replicate 16 1) mem1 32 0 = Some (0, iv2, mem2) \<and>
    chunk mem2 0 32 = chunk (replicate 64 5) 0 32"
  by (rule aes_cbc_roundtrip) (simp_all add: mbedtls_aes_setkey_enc_def)

text \<open>
  Decrypting in place does not chain. With input and output the same buffer, the block is
  overwritten before \<open>iv\<close> is copied from it, so decrypting the encryption of two blocks yields the
  first one and the second one masked by key and \<open>iv\<close>.
\<close>

theorem aes_cbc_in_place_decrypt_wrong:
  assumes "keyBits ctx div 8 \<noteq> 0" "length iv = 16" "length b1 = 16" "length b2 = 16"
  defines "k \<equiv> key_block ctx"
  shows "\<exists>iv'. mbedtls_aes_crypt_cbc ctx MBEDTLS_AES_DECRYPT 32 iv
      (concat (enc_blocks k iv [b1, b2])) 0 0 = Some (0, iv', b1 @ xor16 (xor16 b2 k) iv)"
proof -
  define c1 where "c1 = xor16 (xor16 b1 iv) k"
  define c2 where "c2 = xor16 (xor16 b2 c1) k"
  have len: "length k = 16" "length c1 = 16" "length c2 = 16"
    using assms(2,3,4) by (simp_all add: k_def c1_def c2_def)
  have one: "xor16 (xor16 c1 k) iv = b1"
    using assms(2,3) len(1) by (simp add: c1_def xor16_cancel)
  have two: "xor16 (xor16 c2 k) b1 = xor16 (xor16 b2 k) iv"
    using assms(2,3,4) len(1)
    by (intro nth_equalityI) (simp_all add: c2_def c1_def xor16_def xor_shuffle)
  have mem1: "blit (c1 @ c2) 0 b1 = b1 @ c2"
    using assms(3) len by (simp add: blit_def)
  have mem2: "blit (b1 @ c2) 16 (xor16 (xor16 b2 k) iv) = b1 @ xor16 (xor16 b2 k) iv"
    using assms(2,3,4) len by (simp add: blit_def)
  have "cbc_loop ctx MBEDTLS_AES_DECRYPT (Suc (Suc 0)) iv (c1 @ c2) 0 0 =
      Some (xor16 (xor16 b2 k) iv, b1 @ xor16 (xor16 b2 k) iv)"
    using assms(1-4) len one two mem1 mem2
    by (simp add: mbedtls_aes_crypt_ecb_def k_def [symmetric] Let_def chunk_def)
  then show ?thesis
    using len by (simp add: mbedtls_aes_crypt_cbc_def c1_def [symmetric] c2_def [symmetric] Let_def
        numeral_2_eq_2)
qed

theorem aes_cbc_in_place_decrypt_wrong_witness:
  "\<exists>iv'. mbedtls_aes_crypt_cbc (snd (mbedtls_aes_setkey_dec mbedtls_aes_init (replicate 16 7) 128))
      MBEDTLS_AES_DECRYPT 32 (replicate 16 1)
      (concat (enc_blocks (key_block (snd (mbedtls_aes_setkey_dec mbedtls_aes_init (replicate 16 7) 128)))
        (replicate 16 1) [replicate 16 2, replicate 16 3])) 0 0 =
    Some (0, iv', replicate 16 2 @ xor16 (xor16 (replicate 16 3)
      (key_block (snd (mbedtls_aes_setkey_dec mbedtls_aes_init (replicate 16 7) 128)))) (replicate 16 1))"
  by (rule aes_cbc_in_place_decrypt_wrong) (simp_all add: mbedtls_aes_setkey_dec_def)

end
