(* ===== verification/Analog_Io.thy ===== *)
theory Analog_Io
  imports Interfaces
begin

unbundle bit_operations_syntax

text \<open>
  Drivers of analog and low-power pins: \<open>src/include/driver/rtc_io.h\<close>, \<open>sigmadelta.h\<close>, \<open>mcpwm.h\<close>, \<open>dac_cosine.h\<close>,
  the converters \<open>adc.h\<close>, \<open>driver/adc_oneshot.h\<close> and \<open>esp_adc_oneshot.h\<close>, and \<open>temperature_sensor.h\<close>. The lemmas show that the
  channels of a driver do not disturb each other, which pins an operation accepts, and what a reading is after what was injected and
  configured.
\<close>

section \<open>Channels that exist from their first use\<close>

text \<open>\<open>std::map\<close> with \<open>operator[]\<close>: a channel that is named is entered with its default.\<close>

definition slot :: "'v \<Rightarrow> ('k \<rightharpoonup> 'v) \<Rightarrow> 'k \<Rightarrow> 'v" where
  "slot d m k = (case m k of Some v \<Rightarrow> v | None \<Rightarrow> d)"

definition on_slot :: "'v \<Rightarrow> 'k \<Rightarrow> ('v \<Rightarrow> 'v) \<Rightarrow> ('k \<rightharpoonup> 'v) \<Rightarrow> ('k \<rightharpoonup> 'v)" where
  "on_slot d k f m = m(k \<mapsto> f (slot d m k))"

lemma slot_on_slot [simp]: "slot d (on_slot d k f m) k' = (if k' = k then f (slot d m k) else slot d m k')"
  by (simp add: slot_def on_slot_def)

section \<open>\<open>driver/rtc_io.h\<close>\<close>

datatype rtc_mode = RTC_INPUT_ONLY | RTC_OUTPUT_ONLY | RTC_INPUT_OUTPUT | RTC_DISABLED

record rtc_pin =
  rpInit :: bool
  rpMode :: rtc_mode
  rpLevel :: int
  rpUp :: bool
  rpDown :: bool
  rpHold :: bool

definition rtc_pin_new :: rtc_pin where
  "rtc_pin_new = \<lparr>rpInit = False, rpMode = RTC_DISABLED, rpLevel = 0, rpUp = False, rpDown = False, rpHold = False\<rparr>"

type_synonym rtc_pins = "int \<rightharpoonup> rtc_pin"

definition RTC_GPIO_PINS :: "int list" where
  "RTC_GPIO_PINS = [0, 2, 4, 12, 13, 14, 15, 25, 26, 27, 32, 33, 34, 35, 36, 37, 38, 39]"

definition isRtcPin :: "int \<Rightarrow> bool" where
  "isRtcPin gpio = list_ex (\<lambda>p. p = gpio) RTC_GPIO_PINS"

definition rtc_update :: "int \<Rightarrow> (rtc_pin \<Rightarrow> rtc_pin) \<Rightarrow> rtc_pins \<Rightarrow> esp_err \<times> rtc_pins" where
  "rtc_update gpio f s = (if \<not> isRtcPin gpio then (ESP_ERR_INVALID_ARG, s) else (ESP_OK, on_slot rtc_pin_new gpio f s))"

definition rtc_gpio_init :: "int \<Rightarrow> rtc_pins \<Rightarrow> esp_err \<times> rtc_pins" where
  "rtc_gpio_init gpio s = rtc_update gpio (\<lambda>p. p\<lparr>rpInit := True\<rparr>) s"

definition rtc_gpio_deinit :: "int \<Rightarrow> rtc_pins \<Rightarrow> esp_err \<times> rtc_pins" where
  "rtc_gpio_deinit gpio s = (ESP_OK, s(gpio := None))"

definition rtc_gpio_set_direction :: "int \<Rightarrow> rtc_mode \<Rightarrow> rtc_pins \<Rightarrow> esp_err \<times> rtc_pins" where
  "rtc_gpio_set_direction gpio m s = rtc_update gpio (\<lambda>p. p\<lparr>rpMode := m\<rparr>) s"

definition rtc_gpio_set_level :: "int \<Rightarrow> u32 \<Rightarrow> rtc_pins \<Rightarrow> esp_err \<times> rtc_pins" where
  "rtc_gpio_set_level gpio l s = rtc_update gpio (\<lambda>p. p\<lparr>rpLevel := (if l \<noteq> 0 then 1 else 0)\<rparr>) s"

definition rtc_gpio_get_level :: "int \<Rightarrow> rtc_pins \<Rightarrow> int" where
  "rtc_gpio_get_level gpio s = (case s gpio of Some p \<Rightarrow> rpLevel p | None \<Rightarrow> 0)"

definition rtc_gpio_pullup :: "bool \<Rightarrow> int \<Rightarrow> rtc_pins \<Rightarrow> esp_err \<times> rtc_pins" where
  "rtc_gpio_pullup b gpio s = rtc_update gpio (\<lambda>p. p\<lparr>rpUp := b\<rparr>) s"

definition rtc_gpio_pulldown :: "bool \<Rightarrow> int \<Rightarrow> rtc_pins \<Rightarrow> esp_err \<times> rtc_pins" where
  "rtc_gpio_pulldown b gpio s = rtc_update gpio (\<lambda>p. p\<lparr>rpDown := b\<rparr>) s"

definition rtc_gpio_hold :: "bool \<Rightarrow> int \<Rightarrow> rtc_pins \<Rightarrow> esp_err \<times> rtc_pins" where
  "rtc_gpio_hold b gpio s = rtc_update gpio (\<lambda>p. p\<lparr>rpHold := b\<rparr>) s"

definition rtc_gpio_isolate :: "int \<Rightarrow> rtc_pins \<Rightarrow> esp_err \<times> rtc_pins" where
  "rtc_gpio_isolate gpio s = rtc_gpio_deinit gpio s"

interpretation rtc_levels: cell_store "\<lambda>_. True" "\<lambda>_. isRtcPin" "\<lambda>gpio l s. snd (rtc_gpio_set_level gpio l s)"
  "\<lambda>s gpio. rtc_gpio_get_level gpio s" "\<lambda>l. if l \<noteq> 0 then 1 else 0"
  by unfold_locales (auto simp: rtc_gpio_set_level_def rtc_update_def rtc_gpio_get_level_def on_slot_def)

text \<open>
  Every pin has the level set last, if it is one of the 18 pins of the low-power domain; setting another fails and changes nothing. Neither
  the direction of the pin nor the hold is asked, and the pin need not be initialised.
\<close>

theorem rtc_level_last:
  "rtc_gpio_get_level gpio (fold (\<lambda>(g, l) s. snd (rtc_gpio_set_level g l s)) ls s) =
    (if isRtcPin gpio then (case map_of (rev ls) gpio of Some l \<Rightarrow> if l \<noteq> 0 then 1 else 0 | None \<Rightarrow> rtc_gpio_get_level gpio s)
     else rtc_gpio_get_level gpio s)"
  "isRtcPin gpio \<Longrightarrow> rtc_gpio_get_level gpio (snd (rtc_gpio_set_level gpio 1
    (snd (rtc_gpio_hold True gpio (snd (rtc_gpio_set_direction gpio RTC_INPUT_ONLY s)))))) = 1"
  "rtc_gpio_get_level gpio (snd (rtc_gpio_isolate gpio s)) = 0"
proof -
  show "rtc_gpio_get_level gpio (fold (\<lambda>(g, l) s. snd (rtc_gpio_set_level g l s)) ls s) =
    (if isRtcPin gpio then (case map_of (rev ls) gpio of Some l \<Rightarrow> if l \<noteq> 0 then 1 else 0 | None \<Rightarrow> rtc_gpio_get_level gpio s)
     else rtc_gpio_get_level gpio s)"
    using rtc_levels.writes_get [OF TrueI, where kvs = ls and k' = gpio and s = s] by (auto split: option.splits)
qed (simp_all add: rtc_gpio_set_level_def rtc_gpio_hold_def rtc_gpio_set_direction_def rtc_update_def rtc_gpio_get_level_def
    on_slot_def rtc_gpio_isolate_def rtc_gpio_deinit_def)

section \<open>\<open>driver/sigmadelta.h\<close>\<close>

record sd_channel =
  sdDuty :: "8 word"
  sdPrescale :: byte
  sdGpio :: int
  sdConfigured :: bool

definition sd_new :: sd_channel where
  "sd_new = \<lparr>sdDuty = 0, sdPrescale = 0, sdGpio = - 1, sdConfigured = False\<rparr>"

type_synonym sd_channels = "int \<rightharpoonup> sd_channel"

definition sigmadelta_config :: "(int \<times> 8 word \<times> byte \<times> int) option \<Rightarrow> sd_channels \<Rightarrow> esp_err \<times> sd_channels" where
  "sigmadelta_config c s =
    (case c of
       None \<Rightarrow> (- 1, s)
     | Some (ch, duty, prescale, gpio) \<Rightarrow>
         (ESP_OK, on_slot sd_new ch (\<lambda>st. st\<lparr>sdDuty := duty, sdPrescale := prescale, sdGpio := gpio, sdConfigured := True\<rparr>) s))"

definition sigmadelta_set_duty :: "int \<Rightarrow> 8 word \<Rightarrow> sd_channels \<Rightarrow> esp_err \<times> sd_channels" where
  "sigmadelta_set_duty ch d s = (ESP_OK, on_slot sd_new ch (\<lambda>st. st\<lparr>sdDuty := d\<rparr>) s)"

definition sigmadelta_set_prescale :: "int \<Rightarrow> byte \<Rightarrow> sd_channels \<Rightarrow> esp_err \<times> sd_channels" where
  "sigmadelta_set_prescale ch p s = (ESP_OK, on_slot sd_new ch (\<lambda>st. st\<lparr>sdPrescale := p\<rparr>) s)"

definition sigmadelta_set_pin :: "int \<Rightarrow> int \<Rightarrow> sd_channels \<Rightarrow> esp_err \<times> sd_channels" where
  "sigmadelta_set_pin ch g s = (ESP_OK, on_slot sd_new ch (\<lambda>st. st\<lparr>sdGpio := g\<rparr>) s)"

definition sigmadelta_getState :: "int \<Rightarrow> sd_channels \<Rightarrow> sd_channel \<times> sd_channels" where
  "sigmadelta_getState ch s = (slot sd_new s ch, on_slot sd_new ch id s)"

text \<open>A setting changes one field of one channel, which need not be configured and may be any number.\<close>

theorem sigmadelta_settings:
  "slot sd_new (snd (sigmadelta_set_duty ch d s)) ch' = (if ch' = ch then (slot sd_new s ch)\<lparr>sdDuty := d\<rparr> else slot sd_new s ch') \<and>
   slot sd_new (snd (sigmadelta_set_prescale ch p s)) ch' = (if ch' = ch then (slot sd_new s ch)\<lparr>sdPrescale := p\<rparr> else slot sd_new s ch') \<and>
   slot sd_new (snd (sigmadelta_set_pin ch g s)) ch' = (if ch' = ch then (slot sd_new s ch)\<lparr>sdGpio := g\<rparr> else slot sd_new s ch') \<and>
   slot sd_new (snd (sigmadelta_getState ch s)) ch' = slot sd_new s ch' \<and>
   (sdConfigured (slot sd_new (snd (sigmadelta_config (Some (ch, d, p, g)) s)) ch') \<longleftrightarrow> ch' = ch \<or> sdConfigured (slot sd_new s ch'))"
  by (simp add: sigmadelta_set_duty_def sigmadelta_set_prescale_def sigmadelta_set_pin_def sigmadelta_getState_def sigmadelta_config_def)

section \<open>\<open>driver/mcpwm.h\<close>\<close>

text \<open>Duties are numbers of any type \<open>'f\<close>: the driver keeps them.\<close>

record 'f mcpwm_timer =
  mtFreq :: u32
  mtDutyA :: 'f
  mtDutyB :: 'f
  mtStarted :: bool
  mtGpioA :: int
  mtGpioB :: int

definition mcpwm_new :: "'f::zero mcpwm_timer" where
  "mcpwm_new = \<lparr>mtFreq = 0, mtDutyA = 0, mtDutyB = 0, mtStarted = False, mtGpioA = - 1, mtGpioB = - 1\<rparr>"

type_synonym 'f mcpwm = "u32 \<rightharpoonup> 'f mcpwm_timer"

definition mcpwm_key :: "u32 \<Rightarrow> u32 \<Rightarrow> u32" where
  "mcpwm_key unit timer = unit * 3 + timer"

definition mcpwm_at :: "u32 \<Rightarrow> u32 \<Rightarrow> ('f::zero mcpwm_timer \<Rightarrow> 'f mcpwm_timer) \<Rightarrow> 'f mcpwm \<Rightarrow> 'f mcpwm" where
  "mcpwm_at unit timer f s = on_slot mcpwm_new (mcpwm_key unit timer) f s"

definition mcpwm_gpio_init :: "u32 \<Rightarrow> u32 \<Rightarrow> int \<Rightarrow> int \<Rightarrow> 'f::zero mcpwm \<Rightarrow> esp_err \<times> 'f mcpwm" where
  "mcpwm_gpio_init unit timer a b s = (ESP_OK, mcpwm_at unit timer (\<lambda>t. t\<lparr>mtGpioA := a, mtGpioB := b\<rparr>) s)"

definition mcpwm_init :: "u32 \<Rightarrow> u32 \<Rightarrow> u32 \<Rightarrow> 'f \<Rightarrow> 'f \<Rightarrow> 'f::zero mcpwm \<Rightarrow> esp_err \<times> 'f mcpwm" where
  "mcpwm_init unit timer freq a b s =
    (ESP_OK, mcpwm_at unit timer (\<lambda>t. t\<lparr>mtFreq := freq, mtDutyA := a, mtDutyB := b, mtStarted := True\<rparr>) s)"

text \<open>The operator is A or another.\<close>

definition mcpwm_set_duty :: "u32 \<Rightarrow> u32 \<Rightarrow> bool \<Rightarrow> 'f \<Rightarrow> 'f::zero mcpwm \<Rightarrow> esp_err \<times> 'f mcpwm" where
  "mcpwm_set_duty unit timer opA duty s =
    (ESP_OK, mcpwm_at unit timer (\<lambda>t. if opA then t\<lparr>mtDutyA := duty\<rparr> else t\<lparr>mtDutyB := duty\<rparr>) s)"

definition mcpwm_get_duty :: "u32 \<Rightarrow> u32 \<Rightarrow> bool \<Rightarrow> 'f::zero mcpwm \<Rightarrow> 'f" where
  "mcpwm_get_duty unit timer opA s =
    (let t = slot mcpwm_new s (mcpwm_key unit timer) in if opA then mtDutyA t else mtDutyB t)"

definition mcpwm_set_frequency :: "u32 \<Rightarrow> u32 \<Rightarrow> u32 \<Rightarrow> 'f::zero mcpwm \<Rightarrow> esp_err \<times> 'f mcpwm" where
  "mcpwm_set_frequency unit timer f s = (ESP_OK, mcpwm_at unit timer (\<lambda>t. t\<lparr>mtFreq := f\<rparr>) s)"

definition mcpwm_get_frequency :: "u32 \<Rightarrow> u32 \<Rightarrow> 'f::zero mcpwm \<Rightarrow> u32" where
  "mcpwm_get_frequency unit timer s = mtFreq (slot mcpwm_new s (mcpwm_key unit timer))"

definition mcpwm_run :: "bool \<Rightarrow> u32 \<Rightarrow> u32 \<Rightarrow> 'f::zero mcpwm \<Rightarrow> esp_err \<times> 'f mcpwm" where
  "mcpwm_run b unit timer s = (ESP_OK, mcpwm_at unit timer (\<lambda>t. t\<lparr>mtStarted := b\<rparr>) s)"

lemma unat_mcpwm_key:
  assumes "unat v < 2" "unat w < 3"
  shows "unat (mcpwm_key v w) = unat v * 3 + unat w"
proof -
  have "v = 0 \<or> v = 1"
    using assms(1) by (auto simp: word_unat_eq_iff)
  moreover have "w = 0 \<or> w = 1 \<or> w = 2"
    using assms(2) by (auto simp: word_unat_eq_iff)
  ultimately show ?thesis
    by (auto simp: mcpwm_key_def)
qed

lemma thirds_inject: "(b :: nat) < 3 \<Longrightarrow> b' < 3 \<Longrightarrow> a * 3 + b = a' * 3 + b' \<longleftrightarrow> a = a' \<and> b = b'"
  by presburger

lemma mcpwm_key_inject:
  assumes "u < 2" "u' < 2" "t < 3" "t' < 3"
  shows "mcpwm_key u t = mcpwm_key u' t' \<longleftrightarrow> u = u' \<and> t = t'"
proof -
  have n: "unat (2 :: u32) = 2" "unat (3 :: u32) = 3"
    by simp_all
  note b = assms [THEN word_less_nat_alt [THEN iffD1], unfolded n]
  have "mcpwm_key u t = mcpwm_key u' t' \<longleftrightarrow> unat u * 3 + unat t = unat u' * 3 + unat t'"
    using b by (simp only: word_unat_eq_iff unat_mcpwm_key)
  also have "\<dots> \<longleftrightarrow> unat u = unat u' \<and> unat t = unat t'"
    by (rule thirds_inject [OF b(3,4)])
  finally show ?thesis
    by (simp only: word_unat_eq_iff)
qed

definition mcpwm_inside :: "u32 \<times> u32 \<times> bool \<Rightarrow> bool" where
  "mcpwm_inside k = (case k of (u, t, _) \<Rightarrow> u < 2 \<and> t < 3)"

text \<open>The six timers with their two operators are twelve cells: each has the duty set last, and no setting reaches another.\<close>

theorem mcpwm_duties:
  fixes ds :: "((u32 \<times> u32 \<times> bool) \<times> 'f::zero) list"
  assumes "\<forall>k\<in>fst ` set ds. mcpwm_inside k" "mcpwm_inside (u, t, a)"
  shows "mcpwm_get_duty u t a (fold (\<lambda>((u, t, a), d) s. snd (mcpwm_set_duty u t a d s)) ds s) =
    (case map_of (rev ds) (u, t, a) of Some d \<Rightarrow> d | None \<Rightarrow> mcpwm_get_duty u t a s)"
  using assms(1)
proof (induction ds arbitrary: s)
  case (Cons x ds)
  obtain u' t' a' d where x: "x = ((u', t', a'), d)"
    by (metis prod.exhaust)
  have "mcpwm_inside (u', t', a')"
    using Cons.prems by (simp add: x)
  then have "mcpwm_key u t = mcpwm_key u' t' \<longleftrightarrow> u = u' \<and> t = t'"
    using assms(2) mcpwm_key_inject [of u u' t t'] by (simp add: mcpwm_inside_def)
  then have "mcpwm_get_duty u t a (snd (mcpwm_set_duty u' t' a' d s)) = (if (u, t, a) = (u', t', a') then d else mcpwm_get_duty u t a s)"
    by (auto simp: mcpwm_get_duty_def mcpwm_set_duty_def mcpwm_at_def Let_def)
  then show ?case
    using Cons.IH [of "snd (mcpwm_set_duty u' t' a' d s)"] Cons.prems
    by (simp add: x map_add_def split: option.splits)
qed simp

text \<open>A fourth timer of the first unit is the first timer of the second.\<close>

lemma mcpwm_key_overlap: "mcpwm_key 0 3 = mcpwm_key 1 0"
  by (simp add: mcpwm_key_def)

section \<open>\<open>driver/dac_cosine.h\<close>\<close>

text \<open>The voltage at a time is computed in floating point and left out. There is one channel object; a handle is there or not.\<close>

record dac_config =
  dcChan :: int
  dcFreq :: u32
  dcAtten :: nat
  dcPhase :: nat
  dcOffset :: "8 word"

record dac_cosine =
  dcAllocated :: bool
  dcStarted :: bool
  dcConfig :: dac_config

definition dac_new :: dac_cosine where
  "dac_new =
    \<lparr>dcAllocated = False, dcStarted = False, dcConfig = \<lparr>dcChan = 0, dcFreq = 0, dcAtten = 0, dcPhase = 0, dcOffset = 0\<rparr>\<rparr>"

text \<open>A handle is written only where the caller has room for it.\<close>

definition dac_cosine_new_channel :: "dac_config option \<Rightarrow> bool \<Rightarrow> dac_cosine \<Rightarrow> esp_err \<times> bool \<times> dac_cosine" where
  "dac_cosine_new_channel cfg room s =
    (case cfg of
       None \<Rightarrow> (ESP_ERR_INVALID_ARG, False, s)
     | Some c \<Rightarrow> if \<not> room then (ESP_ERR_INVALID_ARG, False, s) else (ESP_OK, True, s\<lparr>dcConfig := c, dcAllocated := True\<rparr>))"

definition dac_cosine_start :: "bool \<Rightarrow> dac_cosine \<Rightarrow> esp_err \<times> dac_cosine" where
  "dac_cosine_start h s = (if \<not> h then (ESP_ERR_INVALID_ARG, s) else (ESP_OK, s\<lparr>dcStarted := True\<rparr>))"

definition dac_cosine_stop :: "bool \<Rightarrow> dac_cosine \<Rightarrow> esp_err \<times> dac_cosine" where
  "dac_cosine_stop h s = (if \<not> h then (ESP_ERR_INVALID_ARG, s) else (ESP_OK, s\<lparr>dcStarted := False\<rparr>))"

definition dac_cosine_del_channel :: "bool \<Rightarrow> dac_cosine \<Rightarrow> esp_err \<times> dac_cosine" where
  "dac_cosine_del_channel h s = (if \<not> h then (ESP_ERR_INVALID_ARG, s) else (ESP_OK, s\<lparr>dcStarted := False, dcAllocated := False\<rparr>))"

text \<open>
  The two channels of the chip are one object: a channel that runs takes the configuration of one created later. A channel that was deleted can be
  started.
\<close>

theorem dac_one_channel:
  "let (_, h, s) = dac_cosine_new_channel (Some c0) True dac_new; (_, s) = dac_cosine_start h s;
       (r, k, t) = dac_cosine_new_channel (Some c1) True s
   in r = ESP_OK \<and> dcStarted t \<and> dcConfig t = c1"
  "let (r, t) = dac_cosine_start True (snd (dac_cosine_del_channel True s)) in r = ESP_OK \<and> dcStarted t \<and> \<not> dcAllocated t"
  by (simp_all add: dac_cosine_new_channel_def dac_cosine_start_def dac_cosine_del_channel_def)

section \<open>Converters: \<open>driver/adc.h\<close>\<close>

text \<open>A random number of the C library is an argument.\<close>

record adc =
  adWidth :: nat
  adInjected1 :: "int \<rightharpoonup> int"
  adInjected2 :: "int \<rightharpoonup> int"

definition adc_new :: adc where
  "adc_new = \<lparr>adWidth = 3, adInjected1 = Map.empty, adInjected2 = Map.empty\<rparr>"

definition adc_maxValue :: "adc \<Rightarrow> int" where
  "adc_maxValue s = (if adWidth s = 0 then 511 else if adWidth s = 1 then 1023 else if adWidth s = 2 then 2047 else 4095)"

definition adc1_config_width :: "nat \<Rightarrow> adc \<Rightarrow> esp_err \<times> adc" where
  "adc1_config_width w s = (ESP_OK, s\<lparr>adWidth := w\<rparr>)"

definition adc1_get_raw :: "nat \<Rightarrow> int \<Rightarrow> adc \<Rightarrow> int" where
  "adc1_get_raw r ch s = (case adInjected1 s ch of Some v \<Rightarrow> v | None \<Rightarrow> int r mod (adc_maxValue s + 1))"

definition adc2_get_raw :: "nat \<Rightarrow> int \<Rightarrow> adc \<Rightarrow> esp_err \<times> int" where
  "adc2_get_raw r ch s = (ESP_OK, case adInjected2 s ch of Some v \<Rightarrow> v | None \<Rightarrow> int r mod (adc_maxValue s + 1))"

definition injectADC1 :: "int \<Rightarrow> int \<Rightarrow> adc \<Rightarrow> adc" where
  "injectADC1 ch v s = s\<lparr>adInjected1 := (adInjected1 s)(ch \<mapsto> v)\<rparr>"

definition injectADC2 :: "int \<Rightarrow> int \<Rightarrow> adc \<Rightarrow> adc" where
  "injectADC2 ch v s = s\<lparr>adInjected2 := (adInjected2 s)(ch \<mapsto> v)\<rparr>"

definition clearInjections :: "adc \<Rightarrow> adc" where
  "clearInjections s = s\<lparr>adInjected1 := Map.empty, adInjected2 := Map.empty\<rparr>"

interpretation adc1_injected: cell_store "\<lambda>_. True" "\<lambda>_ _. True" injectADC1 "adInjected1" Some
  by unfold_locales (simp_all add: injectADC1_def)

text \<open>
  A channel reads what was injected last, of any size; a channel without one reads a number of the width configured. The width of the
  second converter is that configured for the first.
\<close>

theorem adc_readings:
  "adc1_get_raw r ch (fold (\<lambda>(c, v). injectADC1 c v) vs (clearInjections s)) =
    (case map_of (rev vs) ch of Some v \<Rightarrow> v | None \<Rightarrow> int r mod (adc_maxValue s + 1))"
  "0 \<le> adc1_get_raw r ch (clearInjections s) \<and> adc1_get_raw r ch (clearInjections s) \<le> adc_maxValue s"
  "w < 4 \<Longrightarrow> adc_maxValue (snd (adc1_config_width w s)) = 2 ^ (w + 9) - 1"
  "snd (adc2_get_raw r ch (clearInjections s)) = adc1_get_raw r ch (clearInjections s)"
proof -
  have w: "adc_maxValue (fold (\<lambda>(c, v). injectADC1 c v) vs s) = adc_maxValue s" for s
    by (induction vs arbitrary: s) (auto simp: injectADC1_def adc_maxValue_def)
  have none: "adInjected1 (clearInjections s) ch = None" and m: "adc_maxValue (clearInjections s) = adc_maxValue s"
    by (simp_all add: clearInjections_def adc_maxValue_def)
  show "adc1_get_raw r ch (fold (\<lambda>(c, v). injectADC1 c v) vs (clearInjections s)) =
    (case map_of (rev vs) ch of Some v \<Rightarrow> v | None \<Rightarrow> int r mod (adc_maxValue s + 1))"
    using adc1_injected.writes_get [OF TrueI, where kvs = vs and k' = ch and s = "clearInjections s"] none m
    by (simp add: adc1_get_raw_def w split: option.splits)
  have "adc_maxValue s + 1 > 0"
    by (simp add: adc_maxValue_def)
  then show "0 \<le> adc1_get_raw r ch (clearInjections s) \<and> adc1_get_raw r ch (clearInjections s) \<le> adc_maxValue s"
    using pos_mod_bound [of "adc_maxValue s + 1" "int r"]
    using Euclidean_Rings.pos_mod_sign [of "adc_maxValue s + 1" "int r"] m by (simp add: adc1_get_raw_def none)
  show "adc_maxValue (snd (adc1_config_width w s)) = 2 ^ (w + 9) - 1" if "w < 4"
  proof -
    have "w = 0 \<or> w = 1 \<or> w = 2 \<or> w = 3"
      using that by auto
    then show ?thesis
      by (auto simp: adc_maxValue_def adc1_config_width_def)
  qed
  show "snd (adc2_get_raw r ch (clearInjections s)) = adc1_get_raw r ch (clearInjections s)"
    by (simp add: adc1_get_raw_def adc2_get_raw_def clearInjections_def adc_maxValue_def)
qed

section \<open>Converters: \<open>driver/adc_oneshot.h\<close>\<close>

text \<open>Units in memory by their address; the table of the driver has the one made last for each of the two numbers.\<close>

record ao_unit =
  auUnit :: nat
  auConfigured :: "bool list"
  auValues :: "int list"
  auAtten :: "int list"
  auWidth :: "int list"

record ao_driver =
  adHeap :: "nat \<rightharpoonup> ao_unit"
  adUnits :: "nat option \<times> nat option"

definition ao_unit_new :: "nat \<Rightarrow> ao_unit" where
  "ao_unit_new u =
    \<lparr>auUnit = u, auConfigured = replicate 10 False, auValues = replicate 10 2048, auAtten = replicate 10 0, auWidth = replicate 10 0\<rparr>"

definition unit_of :: "nat \<Rightarrow> ao_driver \<Rightarrow> nat option" where
  "unit_of u s = (if u = 0 then fst (adUnits s) else snd (adUnits s))"

definition set_unit :: "nat \<Rightarrow> nat option \<Rightarrow> ao_driver \<Rightarrow> ao_driver" where
  "set_unit u h s = s\<lparr>adUnits := (if u = 0 then (h, snd (adUnits s)) else (fst (adUnits s), h))\<rparr>"

text \<open>\<open>h\<close> is the address \<open>new\<close> gives, of no other unit. \<open>None\<close> stands for the use of a unit that was deleted or an index out of range.\<close>

definition adc_oneshot_new_unit :: "nat \<Rightarrow> nat \<Rightarrow> ao_driver \<Rightarrow> esp_err \<times> nat \<times> ao_driver" where
  "adc_oneshot_new_unit h u s = (let s = s\<lparr>adHeap := (adHeap s)(h \<mapsto> ao_unit_new u)\<rparr> in (ESP_OK, h, set_unit u (Some h) s))"

definition setRawValue :: "nat \<Rightarrow> int \<Rightarrow> int \<Rightarrow> ao_driver \<Rightarrow> ao_driver option" where
  "setRawValue u ch v s =
    (case unit_of u s of
       None \<Rightarrow> Some s
     | Some h \<Rightarrow>
         if ch < 10 then
           if ch < 0 then None
           else case adHeap s h of
                  None \<Rightarrow> None
                | Some c \<Rightarrow> Some (s\<lparr>adHeap := (adHeap s)(h \<mapsto> c\<lparr>auValues := (auValues c)[nat ch := v]\<rparr>)\<rparr>)
         else Some s)"

definition adc_oneshot_config_channel :: "nat option \<Rightarrow> int \<Rightarrow> int \<Rightarrow> int \<Rightarrow> ao_driver \<Rightarrow> (esp_err \<times> ao_driver) option" where
  "adc_oneshot_config_channel h ch atten width s =
    (case h of
       None \<Rightarrow> Some (ESP_ERR_INVALID_ARG, s)
     | Some h \<Rightarrow>
         if ch < 0 \<or> ch \<ge> 10 then Some (ESP_ERR_INVALID_ARG, s)
         else case adHeap s h of
                None \<Rightarrow> None
              | Some c \<Rightarrow>
                  Some (ESP_OK, s\<lparr>adHeap := (adHeap s)(h \<mapsto> c\<lparr>auConfigured := (auConfigured c)[nat ch := True],
                    auAtten := (auAtten c)[nat ch := atten], auWidth := (auWidth c)[nat ch := width]\<rparr>)\<rparr>))"

definition adc_oneshot_read :: "nat option \<Rightarrow> int \<Rightarrow> ao_driver \<Rightarrow> (esp_err \<times> int option) option" where
  "adc_oneshot_read h ch s =
    (case h of
       None \<Rightarrow> Some (ESP_ERR_INVALID_ARG, None)
     | Some h \<Rightarrow>
         if ch < 0 \<or> ch \<ge> 10 then Some (ESP_ERR_INVALID_ARG, None)
         else case adHeap s h of None \<Rightarrow> None | Some c \<Rightarrow> Some (ESP_OK, Some (auValues c ! nat ch)))"

definition adc_oneshot_del_unit :: "nat option \<Rightarrow> ao_driver \<Rightarrow> (esp_err \<times> ao_driver) option" where
  "adc_oneshot_del_unit h s =
    (case h of
       None \<Rightarrow> Some (ESP_ERR_INVALID_ARG, s)
     | Some h \<Rightarrow>
         (case adHeap s h of
            None \<Rightarrow> None
          | Some c \<Rightarrow> (let s = set_unit (auUnit c) None s in Some (ESP_OK, s\<lparr>adHeap := (adHeap s)(h := None)\<rparr>))))"

definition oneshot_ok :: "ao_driver \<Rightarrow> bool" where
  "oneshot_ok s \<longleftrightarrow>
    (\<forall>u h. unit_of u s = Some h \<longrightarrow> (\<exists>c. adHeap s h = Some c \<and> (auUnit c = 0 \<longleftrightarrow> u = 0))) \<and>
    (\<forall>h c. adHeap s h = Some c \<longrightarrow> length (auValues c) = 10)"

datatype oneshot_op = OneshotNew nat nat | OneshotRaw nat int int | OneshotConfig "nat option" int int int | OneshotDel "nat option"

definition oneshot_step :: "oneshot_op \<Rightarrow> ao_driver \<Rightarrow> ao_driver option" where
  "oneshot_step op s =
    (case op of
       OneshotNew h u \<Rightarrow> Some (snd (snd (adc_oneshot_new_unit h u s)))
     | OneshotRaw u ch v \<Rightarrow> setRawValue u ch v s
     | OneshotConfig h ch a w \<Rightarrow> map_option snd (adc_oneshot_config_channel h ch a w s)
     | OneshotDel h \<Rightarrow> map_option snd (adc_oneshot_del_unit h s))"

lemma unit_of_simps [simp]:
  "unit_of u (s\<lparr>adHeap := h\<rparr>) = unit_of u s" "adHeap (set_unit v a s) = adHeap s"
  "unit_of u (set_unit v a s) = (if (u = 0) = (v = 0) then a else unit_of u s)"
  by (auto simp: unit_of_def set_unit_def)

lemma oneshot_ok_change:
  assumes "oneshot_ok s" "adHeap s h = Some c" "auUnit d = auUnit c" "length (auValues d) = 10"
  shows "oneshot_ok (s\<lparr>adHeap := (adHeap s)(h \<mapsto> d)\<rparr>)"
  using assms by (fastforce simp: oneshot_ok_def)

lemma oneshot_step_ok:
  assumes "oneshot_ok s" "oneshot_step op s = Some t" "\<forall>h u. op = OneshotNew h u \<longrightarrow> h \<notin> dom (adHeap s)"
  shows "oneshot_ok t"
proof -
  have ten: "length (auValues c) = 10" if "adHeap s h = Some c" for h c
    using assms(1) that by (simp add: oneshot_ok_def)
  show ?thesis
  proof (cases op)
    case (OneshotNew h u)
    then have "h \<notin> dom (adHeap s)"
      using assms(3) by blast
    moreover have "t = set_unit u (Some h) (s\<lparr>adHeap := (adHeap s)(h \<mapsto> ao_unit_new u)\<rparr>)"
      using assms(2) OneshotNew by (simp add: oneshot_step_def adc_oneshot_new_unit_def Let_def)
    ultimately show ?thesis
      using assms(1) by (fastforce simp: oneshot_ok_def ao_unit_new_def split: if_splits)
  next
    case (OneshotRaw u ch v)
    then have e: "setRawValue u ch v s = Some t"
      using assms(2) by (simp add: oneshot_step_def)
    show ?thesis
    proof (cases "unit_of u s")
      case (Some h)
      show ?thesis
      proof (cases "ch < 10")
        case True
        then obtain c where "adHeap s h = Some c" "t = s\<lparr>adHeap := (adHeap s)(h \<mapsto> c\<lparr>auValues := (auValues c)[nat ch := v]\<rparr>)\<rparr>"
          using e Some by (auto simp: setRawValue_def split: if_splits option.splits)
        then show ?thesis
          using oneshot_ok_change [OF assms(1)] ten by simp
      qed (use e Some assms(1) in \<open>simp add: setRawValue_def\<close>)
    qed (use e assms(1) in \<open>simp add: setRawValue_def\<close>)
  next
    case (OneshotConfig h ch a w)
    then obtain r where e: "adc_oneshot_config_channel h ch a w s = Some (r, t)"
      using assms(2) by (auto simp: oneshot_step_def)
    show ?thesis
    proof (cases "r = ESP_OK")
      case True
      then obtain k c where "adHeap s k = Some c" "t = s\<lparr>adHeap := (adHeap s)(k \<mapsto> c\<lparr>auConfigured := (auConfigured c)[nat ch := True],
          auAtten := (auAtten c)[nat ch := a], auWidth := (auWidth c)[nat ch := w]\<rparr>)\<rparr>"
        using e by (auto simp: adc_oneshot_config_channel_def split: if_splits option.splits)
      then show ?thesis
        using oneshot_ok_change [OF assms(1)] ten by simp
    qed (use e assms(1) in \<open>auto simp: adc_oneshot_config_channel_def split: if_splits option.splits\<close>)
  next
    case (OneshotDel h)
    then obtain r where e: "adc_oneshot_del_unit h s = Some (r, t)"
      using assms(2) by (auto simp: oneshot_step_def)
    show ?thesis
    proof (cases h)
      case (Some k)
      then obtain c where c: "adHeap s k = Some c" "t = (set_unit (auUnit c) None s)\<lparr>adHeap := (adHeap s)(k := None)\<rparr>"
        using e by (auto simp: adc_oneshot_del_unit_def Let_def split: option.splits)
      show ?thesis
        unfolding oneshot_ok_def
      proof (intro conjI allI impI)
        fix u l
        assume l: "unit_of u t = Some l"
        then have "unit_of u s = Some l" and u: "u = 0 \<longleftrightarrow> auUnit c \<noteq> 0"
          using c(2) by (auto split: if_splits)
        then obtain d where "adHeap s l = Some d" "auUnit d = 0 \<longleftrightarrow> u = 0"
          using assms(1) by (fastforce simp: oneshot_ok_def)
        then show "\<exists>d. adHeap t l = Some d \<and> (auUnit d = 0 \<longleftrightarrow> u = 0)"
          using c u by auto
      next
        fix l d
        assume "adHeap t l = Some d"
        then show "length (auValues d) = 10"
          using c ten by (auto split: if_splits)
      qed
    qed (use e assms(1) in \<open>simp add: adc_oneshot_del_unit_def\<close>)
  qed
qed

text \<open>
  The table never has a unit that was deleted, so that a value can be injected at any time; it is read back through the handle made last. Of two
  handles of one unit, deleting the older takes the newer out of the table: what is injected afterwards is lost.
\<close>

theorem oneshot_values:
  assumes "oneshot_ok s" "0 \<le> ch" "ch < 10"
  shows "\<exists>t. setRawValue u ch v s = Some t \<and> (unit_of u s = None \<longrightarrow> t = s) \<and>
    (unit_of u s = Some h \<longrightarrow> adc_oneshot_read (Some h) ch t = Some (ESP_OK, Some v))"
proof (cases "unit_of u s")
  case (Some k)
  then obtain c where c: "adHeap s k = Some c" "length (auValues c) = 10"
    using assms(1) by (force simp: oneshot_ok_def)
  have "nat ch < 10"
    using assms by (simp add: nat_less_iff)
  then show ?thesis
    using assms Some c by (simp add: setRawValue_def adc_oneshot_read_def)
qed (simp add: setRawValue_def)

theorem oneshot_deletes_newer:
  assumes "a \<noteq> b" "unit_of u s = None" "adHeap s = Map.empty"
  shows "let s1 = snd (snd (adc_oneshot_new_unit a u s)); s2 = snd (snd (adc_oneshot_new_unit b u s1));
             s3 = snd (the (adc_oneshot_del_unit (Some a) s2))
         in unit_of u s3 = None \<and> setRawValue u 0 v s3 = Some s3 \<and> adc_oneshot_read (Some b) 0 s3 = Some (ESP_OK, Some 2048)"
proof -
  have "replicate 10 (2048 :: int) ! 0 = 2048"
    by (rule nth_replicate) simp
  then show ?thesis
    using assms
    by (auto simp: adc_oneshot_new_unit_def adc_oneshot_del_unit_def adc_oneshot_read_def setRawValue_def set_unit_def unit_of_def
        ao_unit_new_def Let_def)
qed

section \<open>Converters: \<open>esp_adc_oneshot.h\<close>\<close>

text \<open>The other driver of that name: its handles are numbers, its two units always there. A handle of 0 is the null pointer.\<close>

record ao_mock =
  amValues :: "int list list"
  amConfigured :: "bool list list"
  amUnit :: int

definition adc_oneshot_reset :: "ao_mock \<Rightarrow> ao_mock" where
  "adc_oneshot_reset s = s\<lparr>amValues := replicate 2 (replicate 10 2048), amConfigured := replicate 2 (replicate 10 False)\<rparr>"

definition mock_new_unit :: "int option \<Rightarrow> bool \<Rightarrow> ao_mock \<Rightarrow> esp_err \<times> int option \<times> ao_mock" where
  "mock_new_unit cfg room s =
    (case cfg of
       None \<Rightarrow> (ESP_ERR_INVALID_ARG, None, s)
     | Some u \<Rightarrow> if \<not> room then (ESP_ERR_INVALID_ARG, None, s) else (ESP_OK, Some (u + 1), s\<lparr>amUnit := u\<rparr>))"

definition mock_config_channel :: "int \<Rightarrow> int \<Rightarrow> bool \<Rightarrow> ao_mock \<Rightarrow> esp_err \<times> ao_mock" where
  "mock_config_channel h ch cfg s =
    (if h = 0 \<or> \<not> cfg \<or> ch < 0 \<or> ch \<ge> 10 then (ESP_ERR_INVALID_ARG, s)
     else let u = h - 1 in
       if u < 0 \<or> u > 1 then (ESP_ERR_INVALID_ARG, s)
       else (ESP_OK, s\<lparr>amConfigured := (amConfigured s)[nat u := (amConfigured s ! nat u)[nat ch := True]]\<rparr>))"

definition mock_read :: "int \<Rightarrow> int \<Rightarrow> bool \<Rightarrow> ao_mock \<Rightarrow> esp_err \<times> int option" where
  "mock_read h ch room s =
    (if h = 0 \<or> \<not> room \<or> ch < 0 \<or> ch \<ge> 10 then (ESP_ERR_INVALID_ARG, None)
     else let u = h - 1 in
       if u < 0 \<or> u > 1 then (ESP_ERR_INVALID_ARG, None) else (ESP_OK, Some (amValues s ! nat u ! nat ch)))"

definition mock_set_value :: "int \<Rightarrow> int \<Rightarrow> int \<Rightarrow> ao_mock \<Rightarrow> ao_mock" where
  "mock_set_value u ch v s =
    (if u \<ge> 0 \<and> u < 2 \<and> ch \<ge> 0 \<and> ch < 10 then s\<lparr>amValues := (amValues s)[nat u := (amValues s ! nat u)[nat ch := v]]\<rparr> else s)"

definition mock_ok :: "ao_mock \<Rightarrow> bool" where
  "mock_ok s \<longleftrightarrow> length (amValues s) = 2 \<and> (\<forall>row\<in>set (amValues s). length row = 10)"

definition mock_inside :: "int \<times> int \<Rightarrow> bool" where
  "mock_inside k = (case k of (u, ch) \<Rightarrow> 0 \<le> u \<and> u < 2 \<and> 0 \<le> ch \<and> ch < 10)"

interpretation mock_cells: cell_store mock_ok "\<lambda>_. mock_inside" "\<lambda>(u, ch) v s. mock_set_value u ch v s"
  "\<lambda>s (u, ch). if mock_inside (u, ch) then amValues s ! nat u ! nat ch else 0" "\<lambda>v. v"
proof unfold_locales
  fix s :: ao_mock and k k' :: "int \<times> int" and v :: int
  assume ok: "mock_ok s"
  obtain u ch where k: "k = (u, ch)"
    by fastforce
  obtain u' ch' where k': "k' = (u', ch')"
    by fastforce
  show "mock_ok ((\<lambda>(u, ch) v s. mock_set_value u ch v s) k v s)"
    using ok by (auto simp: mock_ok_def mock_set_value_def k dest!: subsetD [OF set_update_subset_insert])
  show "(\<lambda>(u, ch). if mock_inside (u, ch) then amValues ((\<lambda>(u, ch) v s. mock_set_value u ch v s) k v s) ! nat u ! nat ch else 0) k' =
    (if k' = k \<and> mock_inside k then v else (\<lambda>(u, ch). if mock_inside (u, ch) then amValues s ! nat u ! nat ch else 0) k')"
  proof (cases "mock_inside k \<and> mock_inside k'")
    case True
    then have i: "nat u < 2" "nat ch < 10" "nat u' = nat u \<longleftrightarrow> u' = u" "nat ch' = nat ch \<longleftrightarrow> ch' = ch"
      by (auto simp: mock_inside_def k k' nat_less_iff)
    have "length (amValues s ! nat u) = 10"
      using ok i(1) by (simp add: mock_ok_def)
    then show ?thesis
      using True ok i by (auto simp: mock_inside_def k k' mock_set_value_def mock_ok_def nth_list_update)
  next
    case False
    then show ?thesis
      by (auto simp: k k' mock_set_value_def mock_inside_def)
  qed
qed simp

text \<open>A read through the handle of a unit gives the value set last for the channel, or the middle of the range; the channel need not be configured.\<close>

theorem mock_readings:
  assumes "0 \<le> u" "u < 2" "0 \<le> ch" "ch < 10"
  shows "let (r, h, s) = mock_new_unit (Some u) True (adc_oneshot_reset s0); s = fold (\<lambda>((u, ch), v). mock_set_value u ch v) vs s
    in mock_read (the h) ch True s = (ESP_OK, Some (case map_of (rev vs) (u, ch) of Some v \<Rightarrow> v | None \<Rightarrow> 2048))"
proof -
  define s where "s = (adc_oneshot_reset s0)\<lparr>amUnit := u\<rparr>"
  have ok: "mock_ok s"
    by (auto simp: mock_ok_def s_def adc_oneshot_reset_def)
  have i: "mock_inside (u, ch)" "nat u < 2" "nat ch < 10"
    using assms by (simp_all add: mock_inside_def nat_less_iff)
  have "amValues (fold (\<lambda>((u, ch), v). mock_set_value u ch v) vs s) ! nat u ! nat ch =
    (case map_of (rev vs) (u, ch) of Some v \<Rightarrow> v | None \<Rightarrow> amValues s ! nat u ! nat ch)"
    using mock_cells.writes_get [OF ok, where kvs = vs and k' = "(u, ch)"] i by (auto split: option.splits)
  moreover have "amValues s ! nat u ! nat ch = 2048"
    using i by (simp add: s_def adc_oneshot_reset_def)
  ultimately show ?thesis
    using assms by (simp add: mock_new_unit_def mock_read_def s_def [symmetric] Let_def split: option.splits)
qed

section \<open>\<open>driver/temperature_sensor.h\<close>\<close>

record 'f temp_sensor =
  tmInstalled :: bool
  tmEnabled :: bool
  tmInjected :: 'f
  tmConfig :: "int \<times> int \<times> int"

definition temp_new :: "'f \<Rightarrow> 'f temp_sensor" where
  "temp_new t25 = \<lparr>tmInstalled = False, tmEnabled = False, tmInjected = t25, tmConfig = (0, 0, 0)\<rparr>"

definition temp_inject :: "'f \<Rightarrow> 'f temp_sensor \<Rightarrow> 'f temp_sensor" where
  "temp_inject c s = s\<lparr>tmInjected := c\<rparr>"

definition temperature_sensor_install :: "(int \<times> int \<times> int) option \<Rightarrow> bool \<Rightarrow> 'f temp_sensor \<Rightarrow> esp_err \<times> bool \<times> 'f temp_sensor" where
  "temperature_sensor_install cfg room s =
    (case cfg of
       None \<Rightarrow> (ESP_ERR_INVALID_ARG, False, s)
     | Some c \<Rightarrow> if \<not> room then (ESP_ERR_INVALID_ARG, False, s) else (ESP_OK, True, s\<lparr>tmConfig := c, tmInstalled := True\<rparr>))"

definition temperature_sensor_uninstall :: "bool \<Rightarrow> 'f temp_sensor \<Rightarrow> esp_err \<times> 'f temp_sensor" where
  "temperature_sensor_uninstall h s = (if \<not> h then (ESP_ERR_INVALID_ARG, s) else (ESP_OK, s\<lparr>tmInstalled := False, tmEnabled := False\<rparr>))"

definition temperature_sensor_enable :: "bool \<Rightarrow> 'f temp_sensor \<Rightarrow> esp_err \<times> 'f temp_sensor" where
  "temperature_sensor_enable h s = (if \<not> h then (ESP_ERR_INVALID_ARG, s) else (ESP_OK, s\<lparr>tmEnabled := True\<rparr>))"

definition temperature_sensor_disable :: "bool \<Rightarrow> 'f temp_sensor \<Rightarrow> esp_err \<times> 'f temp_sensor" where
  "temperature_sensor_disable h s = (if \<not> h then (ESP_ERR_INVALID_ARG, s) else (ESP_OK, s\<lparr>tmEnabled := False\<rparr>))"

definition temperature_sensor_get_celsius :: "bool \<Rightarrow> bool \<Rightarrow> 'f temp_sensor \<Rightarrow> esp_err \<times> 'f option" where
  "temperature_sensor_get_celsius h room s =
    (if \<not> h \<or> \<not> room then (ESP_ERR_INVALID_ARG, None)
     else if \<not> tmEnabled s then (ESP_ERR_INVALID_STATE, None)
     else (ESP_OK, Some (tmInjected s)))"

text \<open>
  The sensor reads exactly while it is enabled, and then what was injected, in the range it was installed for or not. Through a handle kept over
  \<open>uninstall\<close> it can be enabled again.
\<close>

theorem temperature_reads:
  "temperature_sensor_get_celsius True True (temp_inject c (snd (temperature_sensor_enable True s))) = (ESP_OK, Some c)"
  "temperature_sensor_get_celsius True True (snd (temperature_sensor_disable True s)) = (ESP_ERR_INVALID_STATE, None)"
  "let t = snd (temperature_sensor_uninstall True s)
   in temperature_sensor_get_celsius True True t = (ESP_ERR_INVALID_STATE, None) \<and>
      temperature_sensor_get_celsius True True (snd (temperature_sensor_enable True t)) = (ESP_OK, Some (tmInjected s)) \<and>
      \<not> tmInstalled (snd (temperature_sensor_enable True t))"
  by (simp_all add: temperature_sensor_get_celsius_def temperature_sensor_enable_def temperature_sensor_disable_def
      temperature_sensor_uninstall_def temp_inject_def Let_def)

end
