(* ===== verification/Http_Text.thy ===== *)
theory Http_Text
  imports Interfaces "HOL-Library.Sublist"
begin

text \<open>
  The text functions the HTTP server and client share: searching and splitting as
  \<open>std::string::find\<close> and \<open>std::getline\<close> do it, the case folding and number conversions of the C
  library in the "C" locale with a 64 bit \<open>long\<close>, \<open>url_decode\<close> of
  \<open>src/include/esp32emu_socket.h\<close>, and the loop that sends a text over a socket which may take
  part of it at a time. A \<open>std::string\<close> is its list of characters, zeros included.
\<close>

section \<open>Characters\<close>

definition ord :: "char \<Rightarrow> nat" where
  "ord c = of_char c"

lemma ord_less [simp]: "ord c < 256"
  by (simp add: ord_def)

lemma ord_inject [simp]: "ord c = ord d \<longleftrightarrow> c = d"
  by (simp add: ord_def)

definition is_space :: "char \<Rightarrow> bool" where
  "is_space c \<longleftrightarrow> ord c = 32 \<or> 9 \<le> ord c \<and> ord c \<le> 13"

definition lower :: "char \<Rightarrow> char" where
  "lower c = (if 65 \<le> ord c \<and> ord c \<le> 90 then char_of (ord c + 32) else c)"

definition cr :: char where "cr = CHR 0x0D"
definition nl :: char where "nl = CHR 0x0A"
definition crlf :: string where "crlf = [cr, nl]"
definition crlf2 :: string where "crlf2 = [cr, nl, cr, nl]"

lemma ord_cr_nl [simp]: "ord cr = 13" "ord nl = 10"
  by (simp_all add: ord_def cr_def nl_def)

lemma cr_nl [simp]: "cr \<noteq> nl" "nl \<noteq> cr"
  by (simp_all add: cr_def nl_def)

text \<open>What is left of a string that passes through a C string: \<open>String(s.c_str())\<close>.\<close>

definition c_str :: "string \<Rightarrow> string" where
  "c_str s = takeWhile (\<lambda>c. c \<noteq> CHR 0x00) s"

lemma c_str_id: "CHR 0x00 \<notin> set s \<Longrightarrow> c_str s = s"
  by (simp add: c_str_def takeWhile_eq_all_conv) blast

section \<open>Searching and splitting\<close>

fun find_sub :: "string \<Rightarrow> string \<Rightarrow> nat option" where
  "find_sub pat [] = (if pat = [] then Some 0 else None)"
| "find_sub pat (c # cs) = (if prefix pat (c # cs) then Some 0 else map_option Suc (find_sub pat cs))"

lemma find_sub_Some:
  "find_sub pat s = Some n \<Longrightarrow> n + length pat \<le> length s \<and> prefix pat (drop n s)"
proof (induction s arbitrary: n)
  case Nil
  then show ?case by (simp split: if_splits)
next
  case (Cons c cs)
  show ?case
  proof (cases "prefix pat (c # cs)")
    case True
    with Cons.prems show ?thesis
      using prefix_length_le by fastforce
  next
    case False
    with Cons.prems obtain m where "n = Suc m" "find_sub pat cs = Some m"
      by auto
    then show ?thesis
      using Cons.IH by simp
  qed
qed

lemma find_sub_append:
  "find_sub pat s = Some n \<Longrightarrow> find_sub pat (s @ t) = Some n"
proof (induction s arbitrary: n)
  case Nil
  then show ?case by (cases t) (auto split: if_splits)
next
  case (Cons c cs)
  show ?case
  proof (cases "prefix pat (c # cs)")
    case True
    then have "prefix pat (c # cs @ t)"
      by (metis append_Cons prefix_prefix)
    with True Cons.prems show ?thesis by simp
  next
    case False
    with Cons.prems obtain m where m: "n = Suc m" "find_sub pat cs = Some m"
      by auto
    have "length pat \<le> length (c # cs)"
      using find_sub_Some [OF m(2)] by simp
    then have "\<not> prefix pat (c # cs @ t)"
      using False by (metis append_Cons prefix_append prefix_length_prefix prefixI)
    then show ?thesis
      using m Cons.IH by simp
  qed
qed

lemma find_sub_take_None:
  "find_sub pat s = Some n \<Longrightarrow> k < n + length pat \<Longrightarrow> find_sub pat (take k s) = None"
proof (rule ccontr)
  assume a: "find_sub pat s = Some n" "k < n + length pat" "find_sub pat (take k s) \<noteq> None"
  then obtain m where m: "find_sub pat (take k s) = Some m"
    by blast
  have "find_sub pat s = Some m"
    using find_sub_append [OF m, of "drop k s"] by simp
  with a(1) have "m = n" by simp
  with find_sub_Some [OF m] a(2) show False
    by simp
qed

lemma find_sub_take_Some:
  assumes "find_sub pat s = Some n" "n + length pat \<le> k"
  shows "find_sub pat (take k s) = Some n"
proof (cases "find_sub pat (take k s)")
  case None
  have "prefix pat (drop n (take k s))"
  proof -
    obtain t where t: "drop n s = pat @ t"
      using find_sub_Some [OF assms(1)] by (auto elim: prefixE)
    then have "drop n (take k s) = pat @ take (k - n - length pat) t"
      using assms(2) by (simp add: drop_take)
    then show ?thesis by simp
  qed
  moreover have "find_sub pat u \<noteq> None" if "prefix pat (drop j u)" for u j
    using that
  proof (induction u arbitrary: j)
    case Nil
    then show ?case by simp
  next
    case (Cons c cs)
    then show ?case by (cases j) auto
  qed
  ultimately show ?thesis
    using None by blast
next
  case (Some m)
  then show ?thesis
    using find_sub_append [OF Some, of "drop k s"] assms(1) by simp
qed

text \<open>A character that does not occur before: \<open>find\<close> of one character.\<close>

lemma find_sub_char: "c \<notin> set s \<Longrightarrow> find_sub [c] (s @ c # t) = Some (length s)"
  by (induction s) auto

lemma find_sub_char_None: "c \<notin> set s \<Longrightarrow> find_sub [c] s = None"
  by (induction s) auto

lemma find_sub_crlf: "cr \<notin> set s \<Longrightarrow> find_sub crlf (s @ crlf @ t) = Some (length s)"
  by (induction s) (auto simp: crlf_def)

text \<open>
  The pieces of a string between separators, as \<open>getline\<close> yields them and as the loops over
  \<open>'\n'\<close> do: no empty piece after a final separator.
\<close>

function pieces :: "char \<Rightarrow> string \<Rightarrow> string list" where
  "pieces d s =
    (if s = [] then []
     else takeWhile (\<lambda>c. c \<noteq> d) s # pieces d (drop 1 (dropWhile (\<lambda>c. c \<noteq> d) s)))"
  by auto
termination
proof (relation "measure (\<lambda>(d, s). length s)", simp)
  fix d :: char and s :: string assume "s \<noteq> []"
  then have "length (drop 1 (dropWhile (\<lambda>c. c \<noteq> d) s)) < length s"
    using length_dropWhile_le [of "\<lambda>c. c \<noteq> d" s] by (cases s) (auto simp: less_Suc_eq_le)
  then show "((d, drop 1 (dropWhile (\<lambda>c. c \<noteq> d) s)), d, s) \<in> measure (\<lambda>(d, s). length s)"
    by simp
qed

declare pieces.simps [simp del]

lemma pieces_Nil [simp]: "pieces d [] = []"
  by (simp add: pieces.simps)

lemma pieces_sep: "d \<notin> set s \<Longrightarrow> pieces d (s @ d # t) = s # pieces d t"
proof -
  assume d: "d \<notin> set s"
  then have "takeWhile (\<lambda>c. c \<noteq> d) (s @ d # t) = s" "dropWhile (\<lambda>c. c \<noteq> d) (s @ d # t) = d # t"
    by (auto simp: takeWhile_append dropWhile_append)
  then show ?thesis
    by (subst pieces.simps) simp
qed

lemma pieces_last: "d \<notin> set s \<Longrightarrow> s \<noteq> [] \<Longrightarrow> pieces d s = [s]"
proof -
  assume d: "d \<notin> set s" and s: "s \<noteq> []"
  have tw: "takeWhile (\<lambda>c. c \<noteq> d) s = s" and dw: "dropWhile (\<lambda>c. c \<noteq> d) s = []"
    using d by (auto simp: takeWhile_eq_all_conv dropWhile_eq_Nil_conv)
  show ?thesis
    using s by (subst pieces.simps) (simp add: tw dw)
qed

text \<open>\<open>if (!line.empty() && line.back() == '\r') line.pop_back();\<close>\<close>

definition chomp :: "string \<Rightarrow> string" where
  "chomp s = (if s \<noteq> [] \<and> last s = cr then butlast s else s)"

lemma chomp_cr [simp]: "chomp (s @ [cr]) = s"
  by (simp add: chomp_def)

section \<open>Lines\<close>

text \<open>The lines of a head, each ended by \<open>"\r\n"\<close>, as the two sides write them.\<close>

definition text_lines :: "string list \<Rightarrow> string" where
  "text_lines ls = concat (map (\<lambda>l. l @ crlf) ls)"

lemma text_lines_simps [simp]:
  "text_lines [] = []" "text_lines (l # ls) = l @ crlf @ text_lines ls"
  "text_lines (ls @ ms) = text_lines ls @ text_lines ms"
  by (simp_all add: text_lines_def)

definition good_line :: "string \<Rightarrow> bool" where
  "good_line l \<longleftrightarrow> l \<noteq> [] \<and> cr \<notin> set l \<and> nl \<notin> set l"

lemma find_blank_skip:
  "cr \<notin> set l \<Longrightarrow> c \<noteq> cr \<Longrightarrow>
   find_sub crlf2 (l @ crlf @ c # t) = map_option (\<lambda>n. length l + 2 + n) (find_sub crlf2 (c # t))"
  by (induction l) (auto simp: crlf_def crlf2_def option.map_comp o_def)

lemma find_blank_here: "cr \<notin> set l \<Longrightarrow> find_sub crlf2 (l @ crlf2 @ t) = Some (length l)"
  by (induction l) (auto simp: crlf2_def)

lemma find_blank_lines:
  "list_all good_line ls \<Longrightarrow> ls \<noteq> [] \<Longrightarrow>
   find_sub crlf2 (text_lines ls @ crlf @ body) = Some (length (text_lines ls) - 2)"
proof (induction ls)
  case Nil
  then show ?case by simp
next
  case (Cons l ls)
  show ?case
  proof (cases ls)
    case Nil
    have "find_sub crlf2 (l @ crlf2 @ body) = Some (length l)"
      using Cons.prems by (intro find_blank_here) (simp add: good_line_def)
    then show ?thesis
      using Nil by (simp add: crlf_def crlf2_def)
  next
    case (Cons m ms)
    then obtain c m' where m: "m = c # m'" "c \<noteq> cr"
      using Cons.prems by (cases m) (auto simp: good_line_def)
    have "find_sub crlf2 (l @ crlf @ c # (m' @ crlf @ text_lines ms @ crlf @ body)) =
        map_option (\<lambda>n. length l + 2 + n) (find_sub crlf2 (c # (m' @ crlf @ text_lines ms @ crlf @ body)))"
      using Cons.prems m by (intro find_blank_skip) (simp_all add: good_line_def)
    moreover have "find_sub crlf2 (c # (m' @ crlf @ text_lines ms @ crlf @ body)) =
        Some (length (text_lines ls) - 2)"
      using Cons.IH Cons.prems Cons m by simp
    moreover have "length (text_lines ls) \<ge> 2"
      using Cons by (simp add: crlf_def)
    ultimately show ?thesis
      using Cons m by (simp add: crlf_def)
  qed
qed

lemma pieces_lines:
  "list_all good_line ls \<Longrightarrow> pieces nl (text_lines ls @ t) = map (\<lambda>l. l @ [cr]) ls @ pieces nl t"
proof (induction ls)
  case Nil
  then show ?case by simp
next
  case (Cons l ls)
  then have "nl \<notin> set (l @ [cr])"
    by (auto simp: good_line_def)
  from pieces_sep [OF this, of "text_lines ls @ t"] Cons show ?case
    by (simp add: crlf_def)
qed

text \<open>The head without the \<open>"\r\n"\<close> of its last line.\<close>

lemma head_lines:
  assumes "list_all good_line (ls @ [l])"
  shows "find_sub crlf2 (text_lines (ls @ [l]) @ crlf @ body) = Some (length (text_lines ls @ l)) \<and>
    pieces nl (text_lines ls @ l) = map (\<lambda>l. l @ [cr]) ls @ [l]"
proof
  show "find_sub crlf2 (text_lines (ls @ [l]) @ crlf @ body) = Some (length (text_lines ls @ l))"
    using find_blank_lines [OF assms, of body] by (simp add: crlf_def)
  have "pieces nl l = [l]"
    using assms by (intro pieces_last) (auto simp: good_line_def)
  then show "pieces nl (text_lines ls @ l) = map (\<lambda>l. l @ [cr]) ls @ [l]"
    using pieces_lines [of ls l] assms by simp
qed

section \<open>Numbers\<close>

definition hex_value :: "char \<Rightarrow> int" where
  "hex_value c =
    (if 48 \<le> ord c \<and> ord c \<le> 57 then int (ord c) - 48
     else if 97 \<le> ord c \<and> ord c \<le> 102 then int (ord c) - 97 + 10
     else if 65 \<le> ord c \<and> ord c \<le> 70 then int (ord c) - 65 + 10
     else - 1)"

definition is_digit_in :: "int \<Rightarrow> char \<Rightarrow> bool" where
  "is_digit_in base c \<longleftrightarrow> 0 \<le> hex_value c \<and> hex_value c < base"

definition digits_value :: "int \<Rightarrow> string \<Rightarrow> int" where
  "digits_value base ds = foldl (\<lambda>a c. a * base + hex_value c) 0 ds"

definition sign_of :: "string \<Rightarrow> bool \<times> string" where
  "sign_of s =
    (if s \<noteq> [] \<and> hd s = CHR ''-'' then (True, drop 1 s)
     else if s \<noteq> [] \<and> hd s = CHR ''+'' then (False, drop 1 s) else (False, s))"

text \<open>
  \<open>strtol(s, &end, 10)\<close>: the value and what follows it, or \<open>None\<close> when nothing was converted
  (\<open>end == s\<close>). Values that do not fit are clamped.
\<close>

definition strtol10 :: "string \<Rightarrow> (int \<times> string) option" where
  "strtol10 s =
    (let (neg, s2) = sign_of (dropWhile is_space s);
         ds = takeWhile (is_digit_in 10) s2;
         v = digits_value 10 ds
     in if ds = [] then None
        else Some (max (- (2 ^ 63)) (min (2 ^ 63 - 1) (if neg then - v else v)), drop (length ds) s2))"

text \<open>\<open>strtoul(s, &end, 16)\<close>: a prefix \<open>0x\<close> is skipped when a digit follows it, a minus negates in
  the unsigned type.\<close>

definition strtoul16 :: "string \<Rightarrow> (nat \<times> string) option" where
  "strtoul16 s =
    (let (neg, s1) = sign_of (dropWhile is_space s);
         s2 = (if 3 \<le> length s1 \<and> hd s1 = CHR ''0'' \<and> lower (s1 ! 1) = CHR ''x'' \<and> is_digit_in 16 (s1 ! 2)
               then drop 2 s1 else s1);
         ds = takeWhile (is_digit_in 16) s2;
         v = digits_value 16 ds
     in if ds = [] then None
        else Some (if v \<ge> 2 ^ 64 then 2 ^ 64 - 1 else nat ((if neg then - v else v) mod 2 ^ 64),
                   drop (length ds) s2))"

definition digit_char :: "nat \<Rightarrow> char" where
  "digit_char n = char_of (if n < 10 then 48 + n else 87 + n)"

text \<open>The digits of a number: \<open>std::to_string\<close> in base 10.\<close>

function digits_of :: "nat \<Rightarrow> nat \<Rightarrow> string" where
  "digits_of base n =
    (if base < 2 \<or> n < base then [digit_char n]
     else digits_of base (n div base) @ [digit_char (n mod base)])"
  by auto
termination
  by (relation "measure snd") (auto intro!: div_less_dividend)

declare digits_of.simps [simp del]

definition to_string :: "int \<Rightarrow> string" where
  "to_string i = (if i < 0 then CHR ''-'' # digits_of 10 (nat (- i)) else digits_of 10 (nat i))"

lemma digit_facts:
  assumes "n < 16"
  shows "hex_value (digit_char n) = int n" "\<not> is_space (digit_char n)" "ord (digit_char n) \<ge> 48"
    "ord (digit_char n) \<noteq> 58"
  using assms by (auto simp: hex_value_def digit_char_def ord_def is_space_def)

lemma digits_value_snoc: "digits_value b (ds @ [d]) = digits_value b ds * b + hex_value d"
  by (simp add: digits_value_def)

lemma digits_of_facts:
  assumes "2 \<le> base" "base \<le> 16"
  shows "digits_value (int base) (digits_of base n) = int n \<and> digits_of base n \<noteq> [] \<and>
    (\<forall>c \<in> set (digits_of base n). \<exists>k < base. c = digit_char k)"
proof (induction n rule: less_induct)
  case (less n)
  show ?case
  proof (cases "n < base")
    case True
    then have "digits_of base n = [digit_char n]"
      by (simp add: digits_of.simps)
    moreover have "hex_value (digit_char n) = int n"
      using True assms by (intro digit_facts(1)) simp
    ultimately show ?thesis
      using True by (auto simp: digits_value_def)
  next
    case False
    then have eq: "digits_of base n = digits_of base (n div base) @ [digit_char (n mod base)]"
      using assms by (subst digits_of.simps) simp
    have "n div base < n"
      using False assms by (intro div_less_dividend) auto
    note IH = less [OF this]
    have m: "n mod base < base" "n mod base < 16"
      using assms by (auto intro: less_le_trans [OF mod_less_divisor])
    have "int (n div base) * int base + int (n mod base) = int n"
      by (metis div_mult_mod_eq of_nat_add of_nat_mult)
    then show ?thesis
      unfolding eq digits_value_snoc using IH m by (auto simp: digit_facts(1))
  qed
qed

lemma is_digit_in_char: "k < n \<Longrightarrow> n \<le> 16 \<Longrightarrow> is_digit_in (int n) (digit_char k)"
  by (simp add: is_digit_in_def digit_facts)

lemma digits_of_digits:
  assumes "2 \<le> base" "base \<le> 16" "c \<in> set (digits_of base n)"
  shows "is_digit_in (int base) c"
proof -
  obtain k where "k < base" "c = digit_char k"
    using digits_of_facts [OF assms(1,2), of n] assms(3) by blast
  then show ?thesis
    using is_digit_in_char [of k base] assms(2) by simp
qed

lemma digits_of_head:
  assumes "2 \<le> base" "base \<le> 16"
  shows "\<exists>k cs. digits_of base n = digit_char k # cs \<and> k < base"
  using digits_of_facts [OF assms, of n] by (cases "digits_of base n") auto

lemma sign_of_digit: "k < 16 \<Longrightarrow> sign_of (digit_char k # cs) = (False, digit_char k # cs)"
proof -
  assume "k < 16"
  then have "48 \<le> ord (digit_char k)"
    by (rule digit_facts)
  moreover have "ord CHR ''-'' = 45" "ord CHR ''+'' = 43"
    by (simp_all add: ord_def)
  ultimately have "digit_char k \<noteq> CHR ''-''" "digit_char k \<noteq> CHR ''+''"
    by auto
  then show ?thesis
    by (simp add: sign_of_def)
qed

text \<open>A number below 100 as two digits, as \<open>%02d\<close> prints it.\<close>

definition two :: "nat \<Rightarrow> string" where
  "two n = [digit_char (n div 10), digit_char (n mod 10)]"

lemma digit_char_10:
  assumes "k < 10"
  shows "\<not> is_space (digit_char k)" "sign_of (digit_char k # s) = (False, digit_char k # s)"
    "is_digit_in 10 (digit_char k)" "hex_value (digit_char k) = int k"
  using assms is_digit_in_char [of k 10] sign_of_digit [of k s] digit_facts [of k] by simp_all

lemma digits_value_two:
  assumes "n < 100"
  shows "digits_value 10 (two n) = int n"
proof -
  have k: "n div 10 < 10" "n mod 10 < 10"
    using assms by auto
  show ?thesis
    by (simp add: two_def digits_value_def digit_char_10(4) [OF k(1)] digit_char_10(4) [OF k(2)])
      (metis div_mult_mod_eq of_nat_add of_nat_mult of_nat_numeral)
qed

lemma strtol10_two:
  assumes "n < 100" "r = [] \<or> \<not> is_digit_in 10 (hd r)"
  shows "strtol10 (two n @ r) = Some (int n, r)"
proof -
  have k: "n div 10 < 10" "n mod 10 < 10"
    using assms by auto
  have "takeWhile (is_digit_in 10) r = []"
    using assms(2) by (cases r) auto
  moreover have "int n < 2 ^ 63"
    using assms(1) by simp
  ultimately show ?thesis
    using digits_value_two [OF assms(1)] digit_char_10 [OF k(1)] digit_char_10 [OF k(2)]
    by (simp add: strtol10_def two_def Let_def)
qed

lemma takeWhile_numeral:
  assumes "2 \<le> base" "base \<le> 16" "r = [] \<or> \<not> is_digit_in (int base) (hd r)"
  shows "takeWhile (is_digit_in (int base)) (digits_of base n @ r) = digits_of base n"
  using assms digits_of_digits [OF assms(1,2), of _ n]
  by (cases r) (auto simp: takeWhile_append takeWhile_eq_all_conv)

text \<open>What \<open>to_string\<close> writes, \<open>strtol\<close> reads, also behind a space and before other text.\<close>

lemma strtol10_numeral:
  assumes "r = [] \<or> \<not> is_digit_in 10 (hd r)" "n < 2 ^ 63"
  shows "strtol10 (digits_of 10 n @ r) = Some (int n, r)"
    "strtol10 (CHR '' '' # digits_of 10 n @ r) = Some (int n, r)"
proof -
  obtain k cs where k: "digits_of 10 n = digit_char k # cs" "k < 10"
    using digits_of_head [of 10 n] by auto
  have "\<not> is_space (digit_char k)" "sign_of (digit_char k # cs @ r) = (False, digit_char k # cs @ r)"
    using k(2) by (simp_all add: digit_facts sign_of_digit)
  moreover have "is_digit_in 10 (digit_char k)" "takeWhile (is_digit_in 10) (cs @ r) = cs"
    using takeWhile_numeral [of 10 r n] assms(1) by (auto simp: k(1) split: if_splits)
  moreover have "digits_value 10 (digit_char k # cs) = int n"
    using digits_of_facts [of 10 n] k(1) by simp
  moreover have "int n < int (2 ^ 63)"
    using assms(2) by (simp only: of_nat_less_iff)
  ultimately show "strtol10 (digits_of 10 n @ r) = Some (int n, r)"
    by (simp add: strtol10_def k(1) Let_def)
  then show "strtol10 (CHR '' '' # digits_of 10 n @ r) = Some (int n, r)"
    by (simp add: strtol10_def is_space_def ord_def)
qed

lemma strtoul16_numeral:
  assumes "r = [] \<or> \<not> is_digit_in 16 (hd r) \<and> lower (hd r) \<noteq> CHR ''x''" "n < 2 ^ 64"
  shows "strtoul16 (digits_of 16 n @ r) = Some (n, r)"
proof -
  obtain k cs where k: "digits_of 16 n = digit_char k # cs" "k < 16"
    using digits_of_head [of 16 n] by auto
  have no_x: "lower c \<noteq> CHR ''x''" if "is_digit_in 16 c" for c
  proof
    assume "lower c = CHR ''x''"
    then have "ord (lower c) = 120"
      by (simp add: ord_def)
    then have "ord c = 120 \<or> ord c = 88"
      by (auto simp: lower_def ord_def split: if_splits)
    with that show False
      by (auto simp: is_digit_in_def hex_value_def)
  qed
  have "\<not> (2 \<le> length (cs @ r) \<and> lower ((cs @ r) ! 0) = CHR ''x'')"
  proof (cases cs)
    case Nil
    then show ?thesis
      using assms(1) by (cases r) auto
  next
    case (Cons c cs')
    then show ?thesis
      using digits_of_digits [of 16 c n] k(1) no_x by simp
  qed
  moreover have "\<not> is_space (digit_char k)" "sign_of (digit_char k # cs @ r) = (False, digit_char k # cs @ r)"
    using k(2) by (simp_all add: digit_facts sign_of_digit)
  moreover have "is_digit_in 16 (digit_char k)" "takeWhile (is_digit_in 16) (cs @ r) = cs"
    using takeWhile_numeral [of 16 r n] assms(1) by (auto simp: k(1) split: if_splits)
  moreover have "digits_value 16 (digit_char k # cs) = int n"
    using digits_of_facts [of 16 n] k(1) by simp
  moreover have "int n < int (2 ^ 64)"
    using assms(2) by (simp only: of_nat_less_iff)
  ultimately show ?thesis
    by (auto simp: strtoul16_def k(1) Let_def)
qed

section \<open>URL decoding\<close>

fun url_decode :: "string \<Rightarrow> string" where
  "url_decode [] = []"
| "url_decode (c # s) =
    (if c = CHR ''+'' then CHR '' '' # url_decode s
     else if c = CHR ''%'' \<and> 2 \<le> length s \<and> hex_value (s ! 0) \<ge> 0 \<and> hex_value (s ! 1) \<ge> 0
     then char_of (nat (hex_value (s ! 0) * 16 + hex_value (s ! 1))) # url_decode (drop 2 s)
     else c # url_decode s)"

lemma url_decode_plain:
  "CHR ''+'' \<notin> set s \<Longrightarrow> CHR ''%'' \<notin> set s \<Longrightarrow> url_decode s = s"
  by (induction s) auto

text \<open>What a client has to send for a character that is not to be taken literally.\<close>

definition url_escape :: "char \<Rightarrow> string" where
  "url_escape c = [CHR ''%'', digit_char (ord c div 16), digit_char (ord c mod 16)]"

lemma url_decode_escape: "url_decode (url_escape c @ s) = c # url_decode s"
proof -
  have "ord c div 16 < 16" "ord c mod 16 < 16"
    using ord_less [of c] by linarith+
  then have hv: "hex_value (digit_char (ord c div 16)) = int (ord c div 16)"
    "hex_value (digit_char (ord c mod 16)) = int (ord c mod 16)"
    by (simp_all add: digit_facts)
  have "nat (int (ord c div 16) * 16 + int (ord c mod 16)) = ord c"
    by (metis div_mult_mod_eq nat_int of_nat_add of_nat_mult of_nat_numeral)
  then show ?thesis
    by (simp add: url_escape_def hv) (simp add: ord_def)
qed

lemma url_decode_escapes: "url_decode (concat (map url_escape s)) = s"
proof (induction s)
  case Nil
  then show ?case by simp
next
  case (Cons c s)
  then show ?case
    using url_decode_escape [of c "concat (map url_escape s)"] by simp
qed

section \<open>Sending over a socket\<close>

text \<open>What one call of \<open>send\<close> on a socket does: take some bytes, be interrupted, or fail.\<close>

datatype send_result = Took nat | Interrupted | Broken

text \<open>
  \<open>while (off < size) { n = safe_send(...); if (n < 0 && errno == EINTR) continue; if (n <= 0) break;
  off += n; }\<close> over the list of what the socket answers: what was taken and what the socket has not
  answered yet. \<open>None\<close> when there are no more answers: the call blocks.
\<close>

fun send_loop :: "send_result list \<Rightarrow> string \<Rightarrow> (string \<times> send_result list) option" where
  "send_loop rs [] = Some ([], rs)"
| "send_loop [] (c # cs) = None"
| "send_loop (Interrupted # rs) (c # cs) = send_loop rs (c # cs)"
| "send_loop (Broken # rs) (c # cs) = Some ([], rs)"
| "send_loop (Took n # rs) (c # cs) =
    (if n = 0 then Some ([], rs)
     else map_option (\<lambda>(t, rs'). (take n (c # cs) @ t, rs')) (send_loop rs (drop n (c # cs))))"

lemma send_loop_prefix: "send_loop rs d = Some (t, rs') \<Longrightarrow> prefix t d"
proof (induction rs d arbitrary: t rule: send_loop.induct)
  case (5 n rs c cs)
  show ?case
  proof (cases "n = 0")
    case True
    with "5.prems" show ?thesis by simp
  next
    case False
    with "5.prems" obtain u where u: "t = take n (c # cs) @ u" "send_loop rs (drop n (c # cs)) = Some (u, rs')"
      by (auto split: prod.splits)
    have "prefix u (drop n (c # cs))"
      using "5.IH" [OF False u(2)] .
    then show ?thesis
      unfolding u(1) by (metis append_take_drop_id same_prefix_prefix)
  qed
qed auto

text \<open>A socket that neither fails nor stops answering takes everything, however it cuts it up.\<close>

definition healthy :: "send_result list \<Rightarrow> bool" where
  "healthy rs \<longleftrightarrow> (\<forall>r \<in> set rs. r \<noteq> Broken \<and> r \<noteq> Took 0)"

definition capacity_of :: "send_result list \<Rightarrow> nat" where
  "capacity_of rs = sum_list (map (\<lambda>r. case r of Took n \<Rightarrow> n | _ \<Rightarrow> 0) rs)"

lemma send_loop_complete:
  "healthy rs \<Longrightarrow> length d \<le> capacity_of rs \<Longrightarrow> \<exists>rs'. send_loop rs d = Some (d, rs') \<and> suffix rs' rs"
proof (induction rs d rule: send_loop.induct)
  case (2 c cs)
  then show ?case by (simp add: capacity_of_def)
next
  case (3 rs c cs)
  then show ?case
    by (auto simp: healthy_def capacity_of_def suffix_ConsI)
next
  case (5 n rs c cs)
  then have n: "n \<noteq> 0" "healthy rs" "length (drop n (c # cs)) \<le> capacity_of rs"
    by (auto simp: healthy_def capacity_of_def)
  then obtain rs' where "send_loop rs (drop n (c # cs)) = Some (drop n (c # cs), rs')" "suffix rs' rs"
    using "5.IH" by blast
  then show ?case
    using n(1) by (simp add: suffix_ConsI)
qed (auto simp: healthy_def)

end
