(* ===== verification/Arduino_String.thy ===== *)
theory Arduino_String
  imports Http_Text
begin

text \<open>
  The Arduino \<open>String\<close> of \<open>src/include/esp32emu_string.h\<close>: searching, cutting, trimming, replacing,
  comparing and reading a number. A \<open>String\<close> is its list of characters; its indices are \<open>unsigned int\<close>,
  with the wrap-around of \<open>to - from\<close>. An exception of \<open>std::string\<close> is \<open>None\<close>, and so is a loop that
  does not end. The conversions to and from floating point are not modelled, nor a \<open>String\<close> that is
  replaced in itself (\<open>s.replace(s, t)\<close>), where the pattern is the buffer being changed.
\<close>

section \<open>Operations\<close>

text \<open>The constructors from a C string (a null pointer gives the empty string), a character and a number.\<close>

definition String_c :: "string option \<Rightarrow> string" where
  "String_c p = (case p of Some s \<Rightarrow> c_str s | None \<Rightarrow> [])"

definition String_char :: "char \<Rightarrow> string" where
  "String_char c = [c]"

definition String_int :: "int \<Rightarrow> string" where
  "String_int n = to_string n"

definition str_length :: "string \<Rightarrow> u32" where
  "str_length s = word_of_nat (length s)"

definition concat_c :: "string \<Rightarrow> string option \<Rightarrow> string" where
  "concat_c s p = s @ (case p of Some t \<Rightarrow> c_str t | None \<Rightarrow> [])"

definition equals_c :: "string \<Rightarrow> string option \<Rightarrow> bool" where
  "equals_c s p \<longleftrightarrow> s = (case p of Some t \<Rightarrow> c_str t | None \<Rightarrow> [])"

text \<open>\<open>operator<\<close> compares the characters as unsigned bytes, then the lengths.\<close>

fun str_less :: "string \<Rightarrow> string \<Rightarrow> bool" where
  "str_less _ [] \<longleftrightarrow> False"
| "str_less [] (_ # _) \<longleftrightarrow> True"
| "str_less (c # cs) (d # ds) \<longleftrightarrow> ord c < ord d \<or> c = d \<and> str_less cs ds"

text \<open>The buffer ends with a zero that can be read; beyond it the access is undefined.\<close>

definition charAt :: "string \<Rightarrow> u32 \<Rightarrow> char option" where
  "charAt s i =
    (if unat i < length s then Some (s ! unat i) else if unat i = length s then Some (CHR 0x00) else None)"

definition setCharAt :: "u32 \<Rightarrow> char \<Rightarrow> string \<Rightarrow> string option" where
  "setCharAt i c s =
    (if unat i < length s then Some (s[unat i := c])
     else if unat i = length s \<and> c = CHR 0x00 then Some s else None)"

text \<open>\<open>std::string::find\<close> from a position, and the cast of its result to \<open>int\<close>.\<close>

definition str_find :: "string \<Rightarrow> string \<Rightarrow> nat \<Rightarrow> nat option" where
  "str_find pat s pos = (if pos \<le> length s then map_option ((+) pos) (find_sub pat (drop pos s)) else None)"

definition index_int :: "nat option \<Rightarrow> int" where
  "index_int p = (case p of Some n \<Rightarrow> sint (word_of_nat n :: u32) | None \<Rightarrow> - 1)"

definition indexOf_char :: "string \<Rightarrow> char \<Rightarrow> u32 \<Rightarrow> int" where
  "indexOf_char s c from = index_int (str_find [c] s (unat from))"

definition indexOf :: "string \<Rightarrow> string \<Rightarrow> u32 \<Rightarrow> int" where
  "indexOf s pat from = index_int (str_find pat s (unat from))"

definition lastIndexOf :: "string \<Rightarrow> char \<Rightarrow> int" where
  "lastIndexOf s c = index_int (map_option (\<lambda>i. length s - 1 - i) (find_sub [c] (rev s)))"

definition substring_from :: "string \<Rightarrow> u32 \<Rightarrow> string option" where
  "substring_from s from = (if unat from \<le> length s then Some (drop (unat from) s) else None)"

definition substring :: "string \<Rightarrow> u32 \<Rightarrow> u32 \<Rightarrow> string option" where
  "substring s from to =
    (if unat from \<le> length s then Some (take (unat (to - from)) (drop (unat from) s)) else None)"

definition startsWith :: "string \<Rightarrow> string \<Rightarrow> bool" where
  "startsWith s p \<longleftrightarrow> take (length p) s = p"

definition endsWith :: "string \<Rightarrow> string \<Rightarrow> bool" where
  "endsWith s p \<longleftrightarrow> (if length p > length s then False else drop (length s - length p) s = p)"

definition blank :: "char \<Rightarrow> bool" where
  "blank c \<longleftrightarrow> c = CHR '' '' \<or> c = CHR 0x09 \<or> c = CHR 0x0D \<or> c = CHR 0x0A"

definition str_trim :: "string \<Rightarrow> string" where
  "str_trim s =
    (let a = length (takeWhile blank s); b = length s - 1 - length (takeWhile blank (rev s))
     in if a = length s then [] else take (b - a + 1) (drop a s))"

definition upper :: "char \<Rightarrow> char" where
  "upper c = (if 97 \<le> ord c \<and> ord c \<le> 122 then char_of (ord c - 32) else c)"

definition toLowerCase :: "string \<Rightarrow> string" where
  "toLowerCase s = map lower s"

definition toUpperCase :: "string \<Rightarrow> string" where
  "toUpperCase s = map upper s"

definition toInt :: "string \<Rightarrow> int" where
  "toInt s = (case strtol10 (c_str s) of Some (v, _) \<Rightarrow> v | None \<Rightarrow> 0)"

partial_function (option) replace_loop :: "string \<Rightarrow> string \<Rightarrow> string \<Rightarrow> nat \<Rightarrow> string option" where
  "replace_loop from to buf pos =
    (case str_find from buf pos of
      None \<Rightarrow> Some buf
    | Some p \<Rightarrow> replace_loop from to (take p buf @ to @ drop (p + length from) buf) (p + length to))"

definition str_replace :: "string \<Rightarrow> string \<Rightarrow> string \<Rightarrow> string option" where
  "str_replace from to s = replace_loop from to s 0"

definition str_remove :: "u32 \<Rightarrow> u32 \<Rightarrow> string \<Rightarrow> string option" where
  "str_remove idx cnt s =
    (if unat idx \<le> length s then Some (take (unat idx) s @ drop (unat idx + unat cnt) s) else None)"

fun equal_folded :: "string \<Rightarrow> string \<Rightarrow> bool" where
  "equal_folded (c # cs) (d # ds) \<longleftrightarrow> (if lower c \<noteq> lower d then False else equal_folded cs ds)"
| "equal_folded _ _ \<longleftrightarrow> True"

definition equalsIgnoreCase :: "string \<Rightarrow> string \<Rightarrow> bool" where
  "equalsIgnoreCase s t \<longleftrightarrow> (if length s \<noteq> length t then False else equal_folded s t)"

section \<open>Searching\<close>

lemma find_sub_least: "find_sub pat s = Some n \<Longrightarrow> i < n \<Longrightarrow> \<not> prefix pat (drop i s)"
proof (induction s arbitrary: n i)
  case (Cons c cs)
  then obtain m where m: "n = Suc m" "find_sub pat cs = Some m" "\<not> prefix pat (c # cs)"
    by (auto split: if_splits)
  with Cons show ?case
    by (cases i) auto
qed (auto split: if_splits)

lemma find_sub_None: "find_sub pat s = None \<longleftrightarrow> (\<forall>i \<le> length s. \<not> prefix pat (drop i s))"
proof (induction s)
  case (Cons c cs)
  have "(\<forall>i \<le> Suc (length cs). \<not> prefix pat (drop i (c # cs))) \<longleftrightarrow>
      \<not> prefix pat (c # cs) \<and> (\<forall>i \<le> length cs. \<not> prefix pat (drop i cs))"
    by (auto simp: All_less_Suc2 simp flip: less_Suc_eq_le)
  with Cons show ?case
    by auto
qed auto

lemma str_find_Some:
  assumes "str_find pat s pos = Some n"
  shows "pos \<le> n" "n + length pat \<le> length s" "prefix pat (drop n s)" "\<And>i. pos \<le> i \<Longrightarrow> i < n \<Longrightarrow> \<not> prefix pat (drop i s)"
proof -
  obtain m where m: "n = pos + m" "find_sub pat (drop pos s) = Some m" "pos \<le> length s"
    using assms by (auto simp: str_find_def split: if_splits)
  show "pos \<le> n" "n + length pat \<le> length s" "prefix pat (drop n s)"
    using find_sub_Some [OF m(2)] m(1,3) by (auto simp: add.commute)
  fix i
  assume "pos \<le> i" "i < n"
  then show "\<not> prefix pat (drop i s)"
    using find_sub_least [OF m(2), of "i - pos"] m(1) by auto
qed

lemma str_find_None:
  "str_find pat s pos = None \<longleftrightarrow> (\<forall>i. pos \<le> i \<and> i \<le> length s \<longrightarrow> \<not> prefix pat (drop i s))"
proof (cases "pos \<le> length s")
  case True
  have "(\<forall>i \<le> length s - pos. \<not> prefix pat (drop (i + pos) s)) \<longleftrightarrow> (\<forall>i. pos \<le> i \<and> i \<le> length s \<longrightarrow> \<not> prefix pat (drop i s))"
    (is "?l \<longleftrightarrow> ?r")
  proof
    assume l: ?l
    show ?r
    proof (intro allI impI)
      fix i
      assume "pos \<le> i \<and> i \<le> length s"
      then show "\<not> prefix pat (drop i s)"
        using l [rule_format, of "i - pos"] by (auto simp: diff_le_mono)
    qed
  qed (use True in auto)
  then show ?thesis
    using True by (simp add: str_find_def find_sub_None)
qed (auto simp: str_find_def)

lemma index_int_small:
  assumes "n < 2 ^ 31"
  shows "index_int (Some n) = int n"
proof -
  have "int n < 2 ^ 31"
    using assms by simp
  then show ?thesis
    by (simp add: index_int_def sint_uint signed_take_bit_int_eq_self unsigned_of_nat take_bit_nat_eq_self)
qed

section \<open>Replacing\<close>

text \<open>The text with every occurrence replaced, from the left and without overlaps.\<close>

function replace_all :: "string \<Rightarrow> string \<Rightarrow> string \<Rightarrow> string" where
  "replace_all from to s =
    (if s = [] then []
     else if prefix from s \<and> from \<noteq> [] then to @ replace_all from to (drop (length from) s)
     else hd s # replace_all from to (tl s))"
  by auto
termination
  by (relation "measure (\<lambda>(_, _, s). length s)") (auto simp: length_greater_0_conv)

declare replace_all.simps [simp del]

lemma replace_all_Nil [simp]: "replace_all from to [] = []"
  by (simp add: replace_all.simps)

lemma replace_all_here: "from \<noteq> [] \<Longrightarrow> replace_all from to (from @ s) = to @ replace_all from to s"
  by (subst replace_all.simps) simp

lemma replace_all_skip: "\<not> prefix from (c # s) \<Longrightarrow> replace_all from to (c # s) = c # replace_all from to s"
  by (subst replace_all.simps) simp

lemma replace_all_find:
  assumes "from \<noteq> []"
  shows "find_sub from s = Some m \<Longrightarrow> replace_all from to s = take m s @ to @ replace_all from to (drop (m + length from) s)"
proof (induction s arbitrary: m)
  case Nil
  then show ?case
    using assms by simp
next
  case (Cons c cs)
  show ?case
  proof (cases "prefix from (c # cs)")
    case True
    then obtain t where t: "c # cs = from @ t"
      by (auto elim: prefixE)
    have "m = 0"
      using Cons.prems True by simp
    then show ?thesis
      unfolding t by (simp add: replace_all_here [OF assms])
  next
    case False
    with Cons show ?thesis
      by (auto simp: replace_all_skip)
  qed
qed

lemma replace_all_absent: "from \<noteq> [] \<Longrightarrow> find_sub from s = None \<Longrightarrow> replace_all from to s = s"
  by (induction s) (auto simp: replace_all_skip split: if_splits)

lemma replace_loop_all:
  assumes "from \<noteq> []" "pos \<le> length buf"
  shows "replace_loop from to buf pos = Some (take pos buf @ replace_all from to (drop pos buf))"
  using assms(2)
proof (induction "length buf - pos" arbitrary: buf pos rule: less_induct)
  case less
  show ?case
  proof (cases "find_sub from (drop pos buf)")
    case None
    then show ?thesis
      using less.prems by (subst replace_loop.simps) (simp add: str_find_def replace_all_absent [OF assms(1)])
  next
    case (Some m)
    let ?p = "pos + m"
    let ?buf = "take ?p buf @ to @ drop (?p + length from) buf"
    have m: "?p + length from \<le> length buf"
      using find_sub_Some [OF Some] less.prems by auto
    then have d: "take (?p + length to) ?buf = take ?p buf @ to" "drop (?p + length to) ?buf = drop (?p + length from) buf"
      by simp_all
    have l: "length from > 0" "?p + length to \<le> length ?buf" "length ?buf - (?p + length to) < length buf - pos"
      using assms(1) m by (simp_all add: less_diff_conv2)
    have "replace_loop from to buf pos = replace_loop from to ?buf (?p + length to)"
      using less.prems Some by (subst replace_loop.simps) (simp add: str_find_def)
    also have "\<dots> = Some ((take ?p buf @ to) @ replace_all from to (drop (?p + length from) buf))"
      unfolding less.hyps [OF l(3,2)] d ..
    finally show ?thesis
      unfolding replace_all_find [OF assms(1) Some, of to] take_add by (simp add: add_ac)
  qed
qed

lemma str_find_empty: "str_find [] buf pos = (if pos \<le> length buf then Some pos else None)"
  by (cases "drop pos buf") (simp_all add: str_find_def)

lemma replace_loop_empty: "replace_loop from to buf pos = Some r \<Longrightarrow> from = [] \<longrightarrow> length buf < pos"
proof (erule replace_loop.raw_induct [where P = "\<lambda>from _ buf pos _. from = [] \<longrightarrow> length buf < pos", rotated])
  fix loop pat to buf pos r
  assume IH: "\<And>pat to buf pos r. loop pat to buf pos = Some r \<Longrightarrow> pat = [] \<longrightarrow> length buf < pos"
    and step: "(case str_find pat buf pos of None \<Rightarrow> Some buf
      | Some p \<Rightarrow> loop pat to (take p buf @ to @ drop (p + length pat) buf) (p + length to)) = Some r"
  show "pat = [] \<longrightarrow> length buf < pos"
  proof (rule impI, rule ccontr)
    assume e: "pat = []" "\<not> length buf < pos"
    with step have "loop [] to (take pos buf @ to @ drop pos buf) (pos + length to) = Some r"
      by (simp add: str_find_empty)
    from IH [OF this] e(2) show False
      by simp
  qed
qed

section \<open>Trimming\<close>

lemma trim_ends:
  "str_trim s = rev (dropWhile blank (rev (dropWhile blank s)))"
proof (cases "\<forall>c \<in> set s. blank c")
  case True
  then have e: "takeWhile blank s = s" "dropWhile blank s = []"
    by (simp_all add: takeWhile_eq_all_conv)
  show ?thesis
    unfolding str_trim_def Let_def e by simp
next
  case False
  let ?a = "length (takeWhile blank s)" and ?z = "length (takeWhile blank (rev s))"
  obtain pre c post where s: "s = pre @ c # post" "\<not> blank c" "\<forall>d \<in> set pre. blank d"
    using False split_list_first_prop [of s "\<lambda>c. \<not> blank c"] by auto
  have a: "takeWhile blank s = pre" "dropWhile blank s = c # post"
    using s by (simp_all add: takeWhile_append dropWhile_append)
  have z: "takeWhile blank (rev s) = takeWhile blank (rev (c # post))"
    using s(2) by (simp add: s(1) takeWhile_append)
  have "?z \<le> length post"
    using s(2) length_takeWhile_le [of blank "rev post"] unfolding z by (auto simp: takeWhile_append)
  moreover have "rev (dropWhile blank (rev (c # post))) = take (length (c # post) - ?z) (c # post)"
    by (simp only: dropWhile_eq_drop rev_drop rev_rev_ident length_rev z)
  ultimately show ?thesis
    unfolding str_trim_def a Let_def by (simp add: s(1) Suc_diff_le)
qed

section \<open>Properties\<close>

text \<open>
  C36: replacing ends for every pattern but the empty one, and gives the text with the occurrences replaced
  from the left; with the empty pattern it never ends, whatever the text.
\<close>

theorem string_replace_ends:
  "str_replace from to s = (if from = [] then None else Some (replace_all from to s))"
proof (cases "from = []")
  case True
  then show ?thesis
    using replace_loop_empty [of "[]" to s 0] by (cases "str_replace [] to s") (auto simp: str_replace_def)
qed (simp add: str_replace_def replace_loop_all)

text \<open>
  Searching. \<open>indexOf\<close> gives the first place at or after the start where the text is, or -1 when there
  is none.
\<close>

theorem string_index_of:
  assumes "length s < 2 ^ 31"
  shows "indexOf s pat from =
    (case find (\<lambda>i. prefix pat (drop i s)) [unat from..<length s + 1] of Some n \<Rightarrow> int n | None \<Rightarrow> - 1)"
proof (cases "str_find pat s (unat from)")
  case None
  then have "find (\<lambda>i. prefix pat (drop i s)) [unat from..<length s + 1] = None"
    using str_find_None [of pat s "unat from"] by (auto simp: find_None_iff)
  then show ?thesis
    using None by (simp add: indexOf_def index_int_def)
next
  case (Some n)
  note f = str_find_Some [OF Some]
  have "find (\<lambda>i. prefix pat (drop i s)) [unat from..<length s + 1] = Some n"
    using f unfolding find_Some_iff
    by (intro exI [of _ "n - unat from"]) (auto simp del: upt_Suc)
  then show ?thesis
    using f(2) assms Some index_int_small [of n] by (simp add: indexOf_def)
qed

theorem string_index_of_witness: "indexOf ''abcabc'' ''ca'' 1 = 2 \<and> indexOf ''abcabc'' ''ca'' 3 = - 1"
proof -
  have "[1..<length ''abcabc'' + 1] = [1, 2, 3, 4, 5, 6]" "[3..<length ''abcabc'' + 1] = [3, 4, 5, 6]"
    by (simp_all add: upt_rec)
  then show ?thesis
    using string_index_of [of "''abcabc''" "''ca''" 1] string_index_of [of "''abcabc''" "''ca''" 3] by (simp del: upt_Suc)
qed

text \<open>
  Cutting at a separator. When \<open>indexOf\<close> finds a character, the parts before it and behind it put
  together with it give the text, and the part before does not contain it.
\<close>

theorem string_cut:
  assumes "length s < 2 ^ 31" "indexOf_char s c 0 = int n"
  shows "\<exists>a b. substring s 0 (word_of_nat n) = Some a \<and> substring_from s (word_of_nat n + 1) = Some b \<and>
    s = a @ [c] @ b \<and> c \<notin> set a"
proof -
  have "str_find [c] s 0 \<noteq> None"
  proof
    assume "str_find [c] s 0 = None"
    then show False
      using assms(2) by (simp add: indexOf_char_def index_int_def)
  qed
  then obtain m where m: "str_find [c] s 0 = Some m"
    by blast
  note f = str_find_Some [OF m]
  have mn: "m = n"
    using assms f(2) index_int_small [of m] by (simp add: indexOf_char_def m)
  have n: "n < length s" "n < 2 ^ 32" "n + 1 < 2 ^ 32"
    using f(2) assms(1) mn by simp_all
  have u: "unat (word_of_nat n :: u32) = n"
    using n(2) by (simp add: unat_of_nat take_bit_nat_eq_self)
  have u1: "unat (word_of_nat n + 1 :: u32) = n + 1"
    using n(3) u by (simp add: unat_word_ariths)
  have "drop n s = c # drop (n + 1) s"
    using f(3) n(1) mn by (metis Suc_eq_plus1 Cons_nth_drop_Suc Cons_prefix_Cons)
  then have split: "s = take n s @ [c] @ drop (n + 1) s"
    by (metis append_Cons append_Nil append_take_drop_id)
  have "c \<notin> set (take n s)"
  proof
    assume "c \<in> set (take n s)"
    then obtain i where i: "i < n" "s ! i = c"
      using n(1) by (auto simp: in_set_conv_nth)
    then have "prefix [c] (drop i s)"
      using n(1) by (metis Cons_nth_drop_Suc Cons_prefix_Cons Nil_prefix order_less_trans)
    then show False
      using f(4) [of i] i(1) mn by simp
  qed
  then show ?thesis
    using n split by (intro exI [of _ "take n s"] exI [of _ "drop (n + 1) s"]) (simp add: substring_def substring_from_def u u1)
qed

theorem string_cut_witness:
  "\<exists>a b. substring ''k=v'' 0 1 = Some a \<and> substring_from ''k=v'' 2 = Some b \<and> ''k=v'' = a @ ''='' @ b \<and> CHR ''='' \<notin> set a"
  using string_cut [of "''k=v''" "CHR ''=''" 1] by (simp add: indexOf_char_def str_find_def index_int_def)

text \<open>
  The borders of \<open>substring\<close>. With its bounds in order the text between them; with the bounds
  exchanged everything from the first, since the length wraps around; with a start behind the end an
  exception.
\<close>

theorem string_substring_borders:
  assumes "length s < 2 ^ 31" "unat to < 2 ^ 31"
  shows "substring s from to =
    (if length s < unat from then None
     else if unat from \<le> unat to then Some (take (unat to - unat from) (drop (unat from) s))
     else substring_from s from)"
proof (cases "unat from \<le> unat to")
  case True
  then have "unat (to - from) = unat to - unat from"
    by (simp add: unat_sub word_le_nat_alt)
  then show ?thesis
    using True by (simp add: substring_def)
next
  case False
  have "unat (to - from) = unat to + 2 ^ 32 - unat from"
    using False by (simp add: unat_sub_if_size word_size word_le_nat_alt)
  moreover have "length s - unat from \<le> unat to + 2 ^ 32 - unat from"
    using assms(1) by simp
  ultimately show ?thesis
    using False by (simp add: substring_def substring_from_def)
qed

theorem string_substring_borders_witness:
  "substring ''hello'' 3 1 = Some ''lo'' \<and> substring ''hello'' 1 3 = Some ''el'' \<and> substring ''hello'' 6 7 = None"
  using string_substring_borders [of "''hello''" 1 3] string_substring_borders [of "''hello''" 3 1]
    string_substring_borders [of "''hello''" 7 6]
  by (simp add: substring_from_def)

text \<open>
  Trimming. The result is the text without its blanks at both ends: what is cut off is blank, what is
  left neither begins nor ends with a blank, and trimming again changes nothing.
\<close>

theorem string_trim:
  "(\<exists>a b. s = a @ str_trim s @ b \<and> list_all blank (a @ b)) \<and>
   (str_trim s = [] \<or> \<not> blank (hd (str_trim s)) \<and> \<not> blank (last (str_trim s))) \<and> str_trim (str_trim s) = str_trim s"
proof -
  let ?d = "dropWhile blank s"
  have t: "str_trim s = rev (dropWhile blank (rev ?d))"
    by (rule trim_ends)
  have d: "?d = str_trim s @ rev (takeWhile blank (rev ?d))"
    unfolding t by (metis rev_append rev_rev_ident takeWhile_dropWhile_id)
  have "s = takeWhile blank s @ ?d"
    by simp
  with d have "s = takeWhile blank s @ str_trim s @ rev (takeWhile blank (rev ?d))"
    by metis
  moreover have "list_all blank (takeWhile blank s @ rev (takeWhile blank (rev ?d)))"
    by (auto simp: list_all_iff dest: set_takeWhileD)
  ultimately have split: "\<exists>a b. s = a @ str_trim s @ b \<and> list_all blank (a @ b)"
    by blast
  have ends: "\<not> blank (hd (str_trim s)) \<and> \<not> blank (last (str_trim s))" if "str_trim s \<noteq> []"
  proof -
    have l: "\<not> blank (last (str_trim s))"
      using that hd_dropWhile [of blank "rev ?d"] unfolding t by (simp add: last_rev)
    have "?d \<noteq> []" "hd (str_trim s) = hd ?d"
      using that d by (metis append_is_Nil_conv, metis hd_append2)
    then show ?thesis
      using l hd_dropWhile [of blank s] by simp
  qed
  then have "str_trim (str_trim s) = str_trim s"
    unfolding trim_ends [of "str_trim s"]
    by (cases "str_trim s = []") (simp_all add: dropWhile_eq_self_iff [THEN iffD2] hd_rev)
  with split ends show ?thesis
    by blast
qed

text \<open>A number is read back from the text it was made into, for every value of the 64 bit \<open>long\<close>.\<close>

theorem string_int_roundtrip:
  assumes "- (2 ^ 63) \<le> n" "n < 2 ^ 63"
  shows "toInt (String_int n) = n"
proof -
  have nul: "CHR 0x00 \<notin> set (digits_of 10 k)" for k
  proof
    assume "CHR 0x00 \<in> set (digits_of 10 k)"
    then have "is_digit_in 10 (CHR 0x00)"
      using digits_of_digits [of 10 _ k] by simp
    then show False
      by (simp add: is_digit_in_def hex_value_def ord_def)
  qed
  show ?thesis
  proof (cases "n < 0")
    case False
    then have "strtol10 (digits_of 10 (nat n)) = Some (n, [])"
      using strtol10_numeral(1) [of "[]" "nat n"] assms(2) by (simp add: nat_less_iff)
    then show ?thesis
      using False by (simp add: toInt_def String_int_def to_string_def c_str_id nul)
  next
    case True
    have "takeWhile (is_digit_in 10) (digits_of 10 (nat (- n))) = digits_of 10 (nat (- n))"
      using takeWhile_numeral [of 10 "[]" "nat (- n)"] by simp
    moreover have "digits_value 10 (digits_of 10 (nat (- n))) = - n" "digits_of 10 (nat (- n)) \<noteq> []"
      using digits_of_facts [of 10 "nat (- n)"] True by simp_all
    moreover have "\<not> is_space (CHR ''-'')" "max (- (2 ^ 63)) (min (2 ^ 63 - 1) n) = n"
      using assms by (simp_all add: is_space_def ord_def)
    ultimately have "strtol10 (CHR ''-'' # digits_of 10 (nat (- n))) = Some (n, [])"
      by (simp add: strtol10_def sign_of_def Let_def del: takeWhile_eq_all_conv)
    then show ?thesis
      using True nul by (simp add: toInt_def String_int_def to_string_def c_str_id)
  qed
qed

theorem string_int_roundtrip_witness: "toInt (String_int (- 9223372036854775808)) = - 9223372036854775808"
  by (rule string_int_roundtrip) simp_all

text \<open>Comparing without case is comparing the texts in lower case.\<close>

theorem string_equals_ignore_case:
  "equalsIgnoreCase s t \<longleftrightarrow> toLowerCase s = toLowerCase t"
proof -
  have "length s = length t \<Longrightarrow> equal_folded s t \<longleftrightarrow> map lower s = map lower t"
    by (induction s t rule: list_induct2) auto
  then show ?thesis
    unfolding equalsIgnoreCase_def toLowerCase_def by (metis length_map)
qed

text \<open>\<open>operator<\<close> is a strict order, total on texts.\<close>

theorem string_order:
  "\<not> str_less s s \<and> (str_less s t \<and> str_less t u \<longrightarrow> str_less s u) \<and> (s \<noteq> t \<longrightarrow> str_less s t \<or> str_less t s)"
proof (intro conjI impI)
  show "\<not> str_less s s"
    by (induction s) auto
  show "str_less s u" if "str_less s t \<and> str_less t u"
    using that
  proof (induction s t arbitrary: u rule: str_less.induct)
    case (3 c cs d ds)
    then show ?case
      by (cases u) auto
  next
    case (2 c cs)
    then show ?case
      by (cases u) auto
  qed simp
  show "str_less s t \<or> str_less t s" if "s \<noteq> t"
    using that
  proof (induction s t rule: str_less.induct)
    case (1 s)
    then show ?case
      by (cases s) auto
  next
    case (3 c cs d ds)
    then show ?case
      by (cases "ord c" "ord d" rule: linorder_cases) auto
  qed simp
qed

end
