(* ===== verification/Async_Web.thy ===== *)
theory Async_Web
  imports Http_Text
begin

unbundle bit_operations_syntax

text \<open>
  The event driven web server of \<open>src/include/ESPAsyncWebServer.h\<close>: requests and their answers, the
  routes in the order they were added, and the choice of a handler for a request. The lemmas show
  that the first route that fits answers, what a wildcard fits, and that later routes never take a
  request from earlier ones.
\<close>

section \<open>Requests and responses\<close>

record async_response =
  rsCode :: int
  rsType :: string
  rsBody :: string
  rsHeaders :: "string \<rightharpoonup> string"

definition AsyncWebServerResponse :: "int \<Rightarrow> string \<Rightarrow> string \<Rightarrow> async_response" where
  "AsyncWebServerResponse code type body = \<lparr>rsCode = code, rsType = type, rsBody = body, rsHeaders = Map.empty\<rparr>"

definition rs_addHeader :: "string \<Rightarrow> string \<Rightarrow> async_response \<Rightarrow> async_response" where
  "rs_addHeader name v r = r\<lparr>rsHeaders := (rsHeaders r)(name \<mapsto> v)\<rparr>"

record async_request =
  rqMethod :: string
  rqUrl :: string
  rqBody :: string
  rqParams :: "string \<rightharpoonup> string"
  rqHeaders :: "string \<rightharpoonup> string"
  rqLast :: async_response
  rqResponded :: bool

definition AsyncWebServerRequest :: async_request where
  "AsyncWebServerRequest =
    \<lparr>rqMethod = ''GET'', rqUrl = ''/'', rqBody = [], rqParams = Map.empty, rqHeaders = Map.empty,
     rqLast = AsyncWebServerResponse 0 [] [], rqResponded = False\<rparr>"

definition rq_set :: "string \<Rightarrow> string \<Rightarrow> async_request \<Rightarrow> async_request" where
  "rq_set m u r = r\<lparr>rqMethod := m, rqUrl := u\<rparr>"

definition rq_setParam :: "string \<Rightarrow> string \<Rightarrow> async_request \<Rightarrow> async_request" where
  "rq_setParam name v r = r\<lparr>rqParams := (rqParams r)(name \<mapsto> v)\<rparr>"

definition rq_setHeader :: "string \<Rightarrow> string \<Rightarrow> async_request \<Rightarrow> async_request" where
  "rq_setHeader name v r = r\<lparr>rqHeaders := (rqHeaders r)(name \<mapsto> v)\<rparr>"

definition rq_hasParam :: "async_request \<Rightarrow> string \<Rightarrow> bool" where
  "rq_hasParam r name \<longleftrightarrow> rqParams r name \<noteq> None"

definition rq_getParam :: "async_request \<Rightarrow> string \<Rightarrow> string" where
  "rq_getParam r name = (case rqParams r name of Some v \<Rightarrow> v | None \<Rightarrow> [])"

definition rq_hasHeader :: "async_request \<Rightarrow> string \<Rightarrow> bool" where
  "rq_hasHeader r name \<longleftrightarrow> rqHeaders r name \<noteq> None"

definition rq_header :: "async_request \<Rightarrow> string \<Rightarrow> string" where
  "rq_header r name = (case rqHeaders r name of Some v \<Rightarrow> v | None \<Rightarrow> [])"

definition rq_send :: "int \<Rightarrow> string \<Rightarrow> string \<Rightarrow> async_request \<Rightarrow> async_request" where
  "rq_send code type body r = r\<lparr>rqLast := AsyncWebServerResponse code type body, rqResponded := True\<rparr>"

definition rq_send_response :: "async_response option \<Rightarrow> async_request \<Rightarrow> async_request" where
  "rq_send_response response r =
    (case response of
      Some a \<Rightarrow> r\<lparr>rqLast := AsyncWebServerResponse (rsCode a) (rsType a) (rsBody a), rqResponded := True\<rparr>
    | None \<Rightarrow> r)"

definition rq_redirect :: "string \<Rightarrow> async_request \<Rightarrow> async_request" where
  "rq_redirect url r =
    r\<lparr>rqLast := rs_addHeader ''Location'' url (AsyncWebServerResponse 302 ''text/html'' []), rqResponded := True\<rparr>"

section \<open>The server\<close>

text \<open>
  A handler changes the request and whatever else it can reach, here a state of any type; it may be empty
  (calling an empty \<open>std::function\<close> throws). That a handler adds routes while the routes are searched
  is not modelled. The body handlers are stored and never called.
\<close>

type_synonym 'u async_handler = "('u \<times> async_request \<Rightarrow> 'u \<times> async_request) option"

record 'u async_route =
  rtUri :: string
  rtMethod :: u32
  rtHandler :: "'u async_handler"

record 'u async_server =
  awPort :: u16
  awRunning :: bool
  awRoutes :: "'u async_route list"
  awNotFound :: "'u async_handler"

definition AsyncWebServer :: "u16 \<Rightarrow> 'u async_server" where
  "AsyncWebServer port = \<lparr>awPort = port, awRunning = False, awRoutes = [], awNotFound = None\<rparr>"

definition aw_begin :: "'u async_server \<Rightarrow> 'u async_server" where
  "aw_begin s = s\<lparr>awRunning := True\<rparr>"

definition aw_end :: "'u async_server \<Rightarrow> 'u async_server" where
  "aw_end s = s\<lparr>awRunning := False\<rparr>"

definition aw_on :: "string \<Rightarrow> u32 \<Rightarrow> 'u async_handler \<Rightarrow> 'u async_server \<Rightarrow> 'u async_server" where
  "aw_on uri m h s = s\<lparr>awRoutes := awRoutes s @ [\<lparr>rtUri = uri, rtMethod = m, rtHandler = h\<rparr>]\<rparr>"

definition aw_on_get :: "string \<Rightarrow> 'u async_handler \<Rightarrow> 'u async_server \<Rightarrow> 'u async_server" where
  "aw_on_get uri h s = aw_on uri 0x01 h s"

definition aw_onNotFound :: "'u async_handler \<Rightarrow> 'u async_server \<Rightarrow> 'u async_server" where
  "aw_onNotFound h s = s\<lparr>awNotFound := h\<rparr>"

definition methodStringToBit :: "string \<Rightarrow> u32" where
  "methodStringToBit m =
    (if m = ''GET'' then 0x01
     else if m = ''POST'' then 0x02
     else if m = ''PUT'' then 0x08
     else if m = ''DELETE'' then 0x04
     else if m = ''PATCH'' then 0x10
     else if m = ''HEAD'' then 0x20
     else if m = ''OPTIONS'' then 0x40
     else 0x7F)"

definition matchUri :: "string \<Rightarrow> string \<Rightarrow> bool" where
  "matchUri pattern uri \<longleftrightarrow>
    (if pattern = uri then True
     else if length pattern > 1 \<and> last pattern = CHR ''*''
     then take (length pattern - 1) uri = take (length pattern - 1) pattern
     else False)"

text \<open>The loop over the routes; \<open>None\<close> when none fits.\<close>

fun find_route :: "u32 \<Rightarrow> string \<Rightarrow> 'u async_route list \<Rightarrow> 'u async_route option" where
  "find_route mb url [] = None"
| "find_route mb url (rt # rts) =
    (if matchUri (rtUri rt) url \<and> rtMethod rt AND mb \<noteq> 0 then Some rt else find_route mb url rts)"

text \<open>The result, with the states a handler left; \<open>None\<close> is the exception of an empty handler.\<close>

definition simulateRequest :: "'u async_server \<Rightarrow> 'u \<times> async_request \<Rightarrow> (bool \<times> 'u \<times> async_request) option" where
  "simulateRequest s w =
    (let mb = methodStringToBit (rqMethod (snd w))
     in case find_route mb (rqUrl (snd w)) (awRoutes s) of
       Some rt \<Rightarrow> map_option (\<lambda>h. (True, h w)) (rtHandler rt)
     | None \<Rightarrow> (case awNotFound s of Some h \<Rightarrow> Some (True, h w) | None \<Rightarrow> Some (False, w)))"

section \<open>Properties\<close>

definition route_fits :: "async_request \<Rightarrow> 'u async_route \<Rightarrow> bool" where
  "route_fits r rt \<longleftrightarrow> matchUri (rtUri rt) (rqUrl r) \<and> rtMethod rt AND methodStringToBit (rqMethod r) \<noteq> 0"

lemma find_route_find: "find_route (methodStringToBit (rqMethod r)) (rqUrl r) rts = find (route_fits r) rts"
  by (induction rts) (simp_all add: route_fits_def)

text \<open>
  The choice of a route. Of the routes that fit a request the one added first handles it, and routes
  added later, whatever they are, do not change that.
\<close>

theorem async_first_route:
  assumes "awRoutes s = pre @ rt # post" "route_fits (snd w) rt" "\<forall>p \<in> set pre. \<not> route_fits (snd w) p"
    and "rtHandler rt = Some h"
  shows "simulateRequest s w = Some (True, h w) \<and> simulateRequest (aw_on uri m h' s) w = Some (True, h w)"
proof -
  have "find (route_fits (snd w)) (pre @ rt # rest) = Some rt" for rest
    using assms(2,3) by (induction pre) auto
  then show ?thesis
    using assms(1,4) by (simp add: simulateRequest_def find_route_find aw_on_def)
qed

theorem async_first_route_witness:
  "simulateRequest (aw_on ''/a'' 1 None (aw_on ''/*'' 1 (Some (\<lambda>(u, r). (u + 1, rq_send 200 [] [] r))) (AsyncWebServer 80)))
     (0 :: nat, rq_set ''GET'' ''/a'' AsyncWebServerRequest) =
   Some (True, 1, rq_send 200 [] [] (rq_set ''GET'' ''/a'' AsyncWebServerRequest))"
  using async_first_route [of "aw_on ''/*'' 1 (Some (\<lambda>(u, r). (u + 1, rq_send 200 [] [] r))) (AsyncWebServer 80)" "[]"
      "\<lparr>rtUri = ''/*'', rtMethod = 1, rtHandler = Some (\<lambda>(u, r). (u + 1, rq_send 200 [] [] r))\<rparr>" "[]"
      "(0 :: nat, rq_set ''GET'' ''/a'' AsyncWebServerRequest)" "\<lambda>(u, r). (u + 1, rq_send 200 [] [] r)" "''/a''" 1 None]
  by (simp add: aw_on_def AsyncWebServer_def route_fits_def rq_set_def matchUri_def methodStringToBit_def)

text \<open>
  No route. A request that no route fits goes to the handler for it, and without one is not answered:
  the request is as it was.
\<close>

theorem async_not_found:
  assumes "\<forall>rt \<in> set (awRoutes s). \<not> route_fits (snd w) rt"
  shows "simulateRequest (aw_onNotFound (Some h) s) w = Some (True, h w) \<and>
    simulateRequest (aw_onNotFound None s) w = Some (False, w)"
proof -
  have "find (route_fits (snd w)) (awRoutes s) = None"
    using assms by (simp add: find_None_iff)
  then show ?thesis
    by (simp add: simulateRequest_def find_route_find aw_onNotFound_def)
qed

theorem async_not_found_witness:
  "simulateRequest (aw_onNotFound None (aw_on ''/a'' 2 None (AsyncWebServer 80))) (0 :: nat, rq_set ''GET'' ''/a'' AsyncWebServerRequest) =
    Some (False, 0, rq_set ''GET'' ''/a'' AsyncWebServerRequest)"
  using async_not_found [of "aw_on ''/a'' 2 None (AsyncWebServer 80)" "(0 :: nat, rq_set ''GET'' ''/a'' AsyncWebServerRequest)"]
  by (simp add: aw_on_def AsyncWebServer_def route_fits_def rq_set_def methodStringToBit_def)

text \<open>
  What a pattern fits. A pattern with a star at its end fits the addresses that begin with what stands
  before the star, except that the star alone fits only itself; any other pattern fits itself only.
\<close>

theorem async_wildcard:
  "(matchUri (p @ ''*'') uri \<longleftrightarrow> (if p = [] then uri = ''*'' else prefix p uri)) \<and>
   (last pattern \<noteq> CHR ''*'' \<longrightarrow> (matchUri pattern uri \<longleftrightarrow> uri = pattern))"
proof -
  have "take (length p) uri = p \<longleftrightarrow> prefix p uri"
    by (metis append_eq_conv_conj prefix_def take_is_prefix)
  then show ?thesis
    by (auto simp: matchUri_def)
qed

theorem async_wildcard_witness:
  "matchUri ''/api/*'' ''/api/v1'' \<and> \<not> matchUri ''/api/*'' ''/ap'' \<and> \<not> matchUri ''/api'' ''/api/v1''"
  using async_wildcard [of "''/api/''" "''/api/v1''" "''/api''"] async_wildcard [of "''/api/''" "''/ap''" "''/api''"] by simp

text \<open>
  A method the server does not know. Its bits are those of every method, so the request is handled by
  the first route of its address that names any method at all, whichever it is.
\<close>

theorem async_unknown_method:
  assumes "rqMethod (snd w) \<notin> {''GET'', ''POST'', ''PUT'', ''DELETE'', ''PATCH'', ''HEAD'', ''OPTIONS''}"
    and "m \<in> {0x01, 0x02, 0x04, 0x08, 0x10, 0x20, 0x40}" "awRoutes s = []"
  shows "simulateRequest (aw_on (rqUrl (snd w)) m (Some h) s) w = Some (True, h w)"
proof -
  have "methodStringToBit (rqMethod (snd w)) = 0x7F"
    using assms(1) by (simp add: methodStringToBit_def)
  moreover have "m AND 0x7F \<noteq> 0"
    using assms(2) by auto
  ultimately show ?thesis
    using assms(3) by (simp add: simulateRequest_def aw_on_def matchUri_def)
qed

theorem async_unknown_method_witness:
  "simulateRequest (aw_on ''/x'' 0x04 (Some (\<lambda>(u, r). (u + 1, r))) (AsyncWebServer 80)) (0 :: nat, rq_set ''TRACE'' ''/x'' AsyncWebServerRequest) =
    Some (True, 1, rq_set ''TRACE'' ''/x'' AsyncWebServerRequest)"
  using async_unknown_method [of "(0 :: nat, rq_set ''TRACE'' ''/x'' AsyncWebServerRequest)" "0x04" "AsyncWebServer 80" "\<lambda>(u, r). (u + 1, r)"]
  by (simp add: rq_set_def AsyncWebServer_def)

text \<open>
  Answering with a prepared response gives its code, type and body but none of the headers added to it;
  a redirect keeps its \<open>Location\<close>. Either way the last answer is the one that counts.
\<close>

theorem async_response_headers:
  "rqLast (rq_send_response (Some (rs_addHeader name v (AsyncWebServerResponse code type body))) r) =
     AsyncWebServerResponse code type body \<and>
   rsHeaders (rqLast (rq_redirect url r)) = [''Location'' \<mapsto> url] \<and>
   rqResponded (rq_send_response response r) = (response \<noteq> None \<or> rqResponded r)"
  by (auto simp: rq_send_response_def rs_addHeader_def AsyncWebServerResponse_def rq_redirect_def split: option.split)

end
