(* ===== verification/Base64.thy ===== *)
theory Base64
  imports Interfaces "HOL-Library.Char_ord"
begin

text \<open>
  Base64 as in \<open>src/include/mbedtls/base64.h\<close>: the encoder works on groups of three bytes, the
  decoder on groups of four characters, both into a buffer of a given size. The lemmas give the
  round trip and the bounds on what is written.
\<close>

unbundle bit_operations_syntax

section \<open>Characters\<close>

abbreviation (input) "BASE64_BUFFER_TOO_SMALL \<equiv> (- 0x2A :: int)"
abbreviation (input) "BASE64_INVALID_CHARACTER \<equiv> (- 0x2C :: int)"

definition chr :: "char \<Rightarrow> byte" where
  "chr c = of_char c"

definition b64_table :: "byte list" where
  "b64_table = map chr ''ABCDEFGHIJKLMNOPQRSTUVWXYZabcdefghijklmnopqrstuvwxyz0123456789+/''"

definition decode_char :: "byte \<Rightarrow> int" where
  "decode_char c =
    (if chr CHR ''A'' \<le> c \<and> c \<le> chr CHR ''Z'' then uint c - uint (chr CHR ''A'')
     else if chr CHR ''a'' \<le> c \<and> c \<le> chr CHR ''z'' then uint c - uint (chr CHR ''a'') + 26
     else if chr CHR ''0'' \<le> c \<and> c \<le> chr CHR ''9'' then uint c - uint (chr CHR ''0'') + 52
     else if c = chr CHR ''+'' then 62
     else if c = chr CHR ''/'' then 63
     else - 1)"

section \<open>Encoding\<close>

text \<open>One turn of the loop: \<open>v\<close> from up to three bytes, and the four characters it gives.\<close>

definition b64_pack :: "byte \<Rightarrow> byte option \<Rightarrow> byte option \<Rightarrow> u32" where
  "b64_pack a b c =
    push_bit 16 (ucast a)
    OR (case b of None \<Rightarrow> 0 | Some b \<Rightarrow> push_bit 8 (ucast b))
    OR (case c of None \<Rightarrow> 0 | Some c \<Rightarrow> ucast c)"

definition b64_sextet :: "u32 \<Rightarrow> nat \<Rightarrow> byte" where
  "b64_sextet v k = b64_table ! unat (drop_bit k v AND 0x3F)"

definition b64_group :: "byte \<Rightarrow> byte option \<Rightarrow> byte option \<Rightarrow> byte list" where
  "b64_group a b c =
    (let v = b64_pack a b c
     in [b64_sextet v 18, b64_sextet v 12,
         if b \<noteq> None then b64_sextet v 6 else chr CHR ''='',
         if c \<noteq> None then b64_sextet v 0 else chr CHR ''=''])"

fun b64_chars :: "byte list \<Rightarrow> byte list" where
  "b64_chars [] = []"
| "b64_chars [a] = b64_group a None None"
| "b64_chars [a, b] = b64_group a (Some b) None"
| "b64_chars (a # b # c # src) = b64_group a (Some b) (Some c) @ b64_chars src"

text \<open>The code, \<open>*olen\<close> and what was written to \<open>dst\<close>.\<close>

definition mbedtls_base64_encode :: "nat \<Rightarrow> byte list \<Rightarrow> int \<times> nat \<times> byte list" where
  "mbedtls_base64_encode dlen src =
    (let olen = (length src + 2) div 3 * 4
     in if dlen < olen + 1 then (BASE64_BUFFER_TOO_SMALL, olen, [])
        else (0, olen, b64_chars src @ [0]))"

section \<open>Decoding\<close>

text \<open>
  \<open>b64_char_at src k\<close> is the value of the \<open>k\<close>-th character of a group: the first two count
  padding as a bad character, the last two as zero; a missing one is zero.
\<close>

definition b64_char_at :: "byte list \<Rightarrow> nat \<Rightarrow> int" where
  "b64_char_at src k =
    (if k < length src \<and> (k < 2 \<or> src ! k \<noteq> chr CHR ''='') then decode_char (src ! k) else 0)"

definition b64_unpack :: "int \<Rightarrow> int \<Rightarrow> int \<Rightarrow> int \<Rightarrow> byte list" where
  "b64_unpack a b c d =
    (let v = push_bit 18 (word_of_int a) OR push_bit 12 (word_of_int b)
             OR push_bit 6 (word_of_int c) OR word_of_int d :: u32
     in [ucast (drop_bit 16 v), ucast (drop_bit 8 v), ucast v])"

text \<open>Every byte of a group is stored only while \<open>j < *olen\<close>.\<close>

function b64_decode_loop :: "nat \<Rightarrow> byte list \<Rightarrow> byte list \<Rightarrow> int \<times> byte list" where
  "b64_decode_loop olen dst src =
    (if src = [] then (0, dst)
     else let a = b64_char_at src 0; b = b64_char_at src 1;
              c = b64_char_at src 2; d = b64_char_at src 3
          in if a < 0 \<or> b < 0 \<or> c < 0 \<or> d < 0 then (BASE64_INVALID_CHARACTER, dst)
             else b64_decode_loop olen (dst @ take (olen - length dst) (b64_unpack a b c d)) (drop 4 src))"
  by pat_completeness auto
termination
  by (relation "measure (\<lambda>(_, _, src). length src)") auto

declare b64_decode_loop.simps [simp del]

definition b64_pad :: "byte list \<Rightarrow> nat" where
  "b64_pad src =
    (if 0 < length src \<and> src ! (length src - 1) = chr CHR ''='' then 1 else 0) +
    (if 1 < length src \<and> src ! (length src - 2) = chr CHR ''='' then 1 else 0)"

text \<open>The length is computed in \<open>size_t\<close>, where a lone padding character wraps below zero.\<close>

definition mbedtls_base64_decode :: "nat \<Rightarrow> byte list \<Rightarrow> int \<times> u64 \<times> byte list" where
  "mbedtls_base64_decode dlen src =
    (let olen = word_of_nat (length src div 4 * 3) - word_of_nat (b64_pad src) :: u64
     in if dlen < unat olen then (BASE64_BUFFER_TOO_SMALL, olen, [])
        else let (r, dst) = b64_decode_loop (unat olen) [] src in (r, olen, dst))"

section \<open>One group there and back\<close>

lemma chr_eqs:
  "chr CHR ''A'' = 65" "chr CHR ''Z'' = 90" "chr CHR ''a'' = 97" "chr CHR ''z'' = 122"
  "chr CHR ''0'' = 48" "chr CHR ''9'' = 57" "chr CHR ''+'' = 43" "chr CHR ''/'' = 47" "chr CHR ''='' = 61"
  by (simp_all add: chr_def)

lemma b64_table_eq: "b64_table = [
  65, 66, 67, 68, 69, 70, 71, 72, 73, 74, 75, 76, 77, 78, 79, 80, 81, 82, 83, 84, 85, 86, 87, 88, 89, 90,
   97, 98, 99, 100, 101, 102, 103, 104, 105, 106, 107, 108, 109, 110, 111, 112, 113, 114, 115, 116, 117, 118, 119, 120, 121, 122,
   48, 49, 50, 51, 52, 53, 54, 55, 56, 57, 43, 47]"
  by (simp add: b64_table_def chr_def)

lemma decode_char_eqs:
  "decode_char c =
    (if 65 \<le> c \<and> c \<le> 90 then uint c - 65
     else if 97 \<le> c \<and> c \<le> 122 then uint c - 71
     else if 48 \<le> c \<and> c \<le> 57 then uint c + 4
     else if c = 43 then 62 else if c = 47 then 63 else - 1)"
  by (simp add: decode_char_def chr_eqs)

lemma decode_table: "i < 64 \<Longrightarrow> decode_char (b64_table ! i) = int i \<and> b64_table ! i \<noteq> chr CHR ''=''"
proof -
  assume i: "i < 64"
  have "map decode_char b64_table = map int [0..<64]"
    by (simp add: b64_table_eq decode_char_eqs upt_conv_Cons)
  moreover have "length b64_table = 64" "chr CHR ''='' \<notin> set b64_table"
    by (simp_all add: b64_table_eq chr_eqs)
  ultimately show ?thesis
    using i by (metis add_0 length_map length_upt minus_nat.diff_0 nth_map nth_mem nth_upt)
qed

lemma and_0x3F: "w AND 0x3F = take_bit 6 (w :: u32)"
  by (simp add: take_bit_eq_mask mask_eq_exp_minus_1)

lemma decode_sextet:
  "decode_char (b64_sextet v k) = uint (take_bit 6 (drop_bit k v)) \<and> b64_sextet v k \<noteq> chr CHR ''=''"
proof -
  have "unat (take_bit 6 (drop_bit k v)) < 64"
    using take_bit_nat_less_exp [of 6 "unat (drop_bit k v)"] by (simp add: unsigned_take_bit_eq)
  from decode_table [OF this] show ?thesis
    by (simp add: b64_sextet_def and_0x3F)
qed

lemma unpack_sextets:
  fixes v :: u32
  shows "b64_unpack (uint (take_bit 6 (drop_bit 18 v))) (uint (take_bit 6 (drop_bit 12 v)))
     (uint (take_bit 6 (drop_bit 6 v))) (uint (take_bit 6 v)) =
   [ucast (drop_bit 16 v), ucast (drop_bit 8 v), ucast v]"
proof -
  have "push_bit 18 (take_bit 6 (drop_bit 18 v)) OR push_bit 12 (take_bit 6 (drop_bit 12 v))
      OR push_bit 6 (take_bit 6 (drop_bit 6 v)) OR take_bit 6 v = take_bit 24 v"
  proof (rule bit_word_eqI)
    fix n
    assume "n < LENGTH(32)"
    consider "n < 6" | "6 \<le> n" "n < 12" | "12 \<le> n" "n < 18" | "18 \<le> n" "n < 24" | "24 \<le> n"
      by linarith
    then show "bit (push_bit 18 (take_bit 6 (drop_bit 18 v)) OR push_bit 12 (take_bit 6 (drop_bit 12 v))
        OR push_bit 6 (take_bit 6 (drop_bit 6 v)) OR take_bit 6 v) n = bit (take_bit 24 v) n"
      using \<open>n < LENGTH(32)\<close> by cases (auto simp: bit_simps)
  qed
  then show ?thesis
    by (simp add: b64_unpack_def Let_def) (auto intro!: bit_eqI simp: bit_simps)
qed

lemma pack_bytes:
  "ucast (drop_bit 16 (b64_pack a b c)) = a"
  "ucast (drop_bit 8 (b64_pack a b c)) = (case b of None \<Rightarrow> 0 | Some b \<Rightarrow> b)"
  "ucast (b64_pack a b c) = (case c of None \<Rightarrow> 0 | Some c \<Rightarrow> c)"
  by (rule bit_word_eqI; auto simp: b64_pack_def bit_simps split: option.splits dest: bit_imp_le_length)+

lemma pack_missing:
  "take_bit 6 (b64_pack a b None) = 0" "take_bit 6 (drop_bit 6 (b64_pack a None None)) = 0"
  by (rule bit_word_eqI; auto simp: b64_pack_def bit_simps split: option.splits dest: bit_imp_le_length)+

lemma char_at_simps:
  "b64_char_at (c # src) 0 = decode_char c"
  "b64_char_at (c # d # src) 1 = decode_char d"
  "b64_char_at (c # d # src) (Suc 0) = decode_char d"
  "b64_char_at (c # d # e # src) 2 = (if e = chr CHR ''='' then 0 else decode_char e)"
  "b64_char_at (c # d # e # f # src) 3 = (if f = chr CHR ''='' then 0 else decode_char f)"
  by (simp_all add: b64_char_at_def numeral_2_eq_2 numeral_3_eq_3)

lemma decode_group:
  assumes "b = None \<longrightarrow> c = None"
  shows "b64_decode_loop olen dst (b64_group x b c @ src) =
    b64_decode_loop olen (dst @ take (olen - length dst)
      [x, case b of None \<Rightarrow> 0 | Some y \<Rightarrow> y, case c of None \<Rightarrow> 0 | Some z \<Rightarrow> z]) src"
proof -
  define v where "v = b64_pack x b c"
  define g where "g = b64_group x b c @ src"
  have "g \<noteq> []" "drop 4 g = src"
    by (simp_all add: g_def b64_group_def Let_def numeral_eq_Suc)
  moreover have "b64_char_at g 0 = uint (take_bit 6 (drop_bit 18 v))"
    "b64_char_at g 1 = uint (take_bit 6 (drop_bit 12 v))"
    "b64_char_at g 2 = uint (take_bit 6 (drop_bit 6 v))"
    "b64_char_at g 3 = uint (take_bit 6 v)"
    using assms decode_sextet [of v 0]
    by (auto simp: g_def b64_group_def Let_def char_at_simps decode_sextet v_def [symmetric])
      (simp_all add: v_def pack_missing)
  ultimately show ?thesis
    unfolding g_def [symmetric]
    by (subst b64_decode_loop.simps) (simp add: unpack_sextets v_def pack_bytes Let_def)
qed

lemma decode_chars:
  "olen = length dst + length src \<Longrightarrow> b64_decode_loop olen dst (b64_chars src) = (0, dst @ src)"
proof (induction src arbitrary: dst rule: b64_chars.induct)
  case 1
  then show ?case by (simp add: b64_decode_loop.simps)
next
  case (2 a)
  then show ?case
    using decode_group [of None None olen dst a "[]"] by (simp add: b64_decode_loop.simps)
next
  case (3 a b)
  then show ?case
    using decode_group [of "Some b" None olen dst a "[]"] by (simp add: b64_decode_loop.simps numeral_2_eq_2)
next
  case (4 a b c src)
  then show ?case
    using decode_group [of "Some b" "Some c" olen dst a "b64_chars src"] by simp
qed

section \<open>Lengths and padding\<close>

lemma length_b64_chars: "length (b64_chars src) = (length src + 2) div 3 * 4"
proof (induction src rule: b64_chars.induct)
  case (4 a b c src)
  then have "length (b64_chars (a # b # c # src)) = 4 + (length src + 2) div 3 * 4"
    by (simp add: b64_group_def Let_def)
  also have "\<dots> = (length (a # b # c # src) + 2) div 3 * 4"
  proof -
    have "length (a # b # c # src) + 2 = (length src + 2) + 3"
      by simp
    then show ?thesis
      by (simp only: div_add_self2) simp
  qed
  finally show ?case .
qed (simp_all add: b64_group_def Let_def)

lemma b64_pad_append: "2 \<le> length ys \<Longrightarrow> b64_pad (xs @ ys) = b64_pad ys"
proof -
  assume ys: "2 \<le> length ys"
  have "(xs @ ys) ! (length xs + length ys - k) = ys ! (length ys - k)" if "k \<le> length ys" for k
    using that nth_append_length_plus [of xs ys "length ys - k"] by (simp add: Nat.add_diff_assoc)
  with this [of 1] this [of 2] ys show ?thesis
    by (auto simp: b64_pad_def)
qed

lemma thirds:
  fixes n :: nat
  shows "(n + 2) div 3 * 3 = n + (3 - n mod 3) mod 3"
proof -
  obtain q r where n: "n = 3 * q + r" "r < 3"
    by (metis mod_less_divisor mult_div_mod_eq zero_less_numeral)
  then have "n mod 3 = r"
    by simp
  moreover consider "r = 0" | "r = 1" | "r = 2"
    using n(2) by linarith
  then have "(n + 2) div 3 * 3 = n + (3 - r) mod 3"
    by cases (simp_all add: n)
  ultimately show ?thesis
    by simp
qed

lemma b64_pad_snoc: "b64_pad (src @ [c, d]) = (if d = chr CHR ''='' then 1 else 0) + (if c = chr CHR ''='' then 1 else 0)"
  by (simp add: b64_pad_def nth_append)

lemma b64_pad_chars: "b64_pad (b64_chars src) = (3 - length src mod 3) mod 3"
proof (induction src rule: b64_chars.induct)
  case 1
  then show ?case by (simp add: b64_pad_def)
next
  case (2 a)
  then show ?case
    using b64_pad_snoc [of "[_, _]"] decode_sextet by (simp add: b64_group_def Let_def)
next
  case (3 a b)
  then show ?case
    using b64_pad_snoc [of "[_, _]"] decode_sextet by (simp add: b64_group_def Let_def)
next
  case (4 a b c src)
  show ?case
  proof (cases "src = []")
    case True
    then show ?thesis
      using b64_pad_snoc [of "[_, _]"] decode_sextet by (simp add: b64_group_def Let_def)
  next
    case False
    then have "0 < length src"
      by simp
    then have "2 \<le> length (b64_chars src)"
      unfolding length_b64_chars by presburger
    with 4 have "b64_pad (b64_chars (a # b # c # src)) = (3 - length src mod 3) mod 3"
      by (simp add: b64_pad_append)
    also have "\<dots> = (3 - length (a # b # c # src) mod 3) mod 3"
    proof -
      have "length (a # b # c # src) = length src + 3"
        by simp
      then show ?thesis
        by (metis mod_add_self2)
    qed
    finally show ?thesis .
  qed
qed

lemma decode_loop_bound:
  "length dst \<le> olen \<Longrightarrow> length (snd (b64_decode_loop olen dst src)) \<le> olen"
proof (induction olen dst src rule: b64_decode_loop.induct)
  case (1 olen dst src)
  show ?case
  proof (cases "src = [] \<or> b64_char_at src 0 < 0 \<or> b64_char_at src 1 < 0 \<or> b64_char_at src 2 < 0 \<or> b64_char_at src 3 < 0")
    case True
    with "1.prems" show ?thesis
      by (subst b64_decode_loop.simps) (auto simp: Let_def)
  next
    case False
    with 1 show ?thesis
      by (subst b64_decode_loop.simps) (simp add: Let_def)
  qed
qed

section \<open>Properties\<close>

text \<open>
  C24: the round trip. Encoding into a buffer with room for the text and its terminator succeeds
  with the length of the text, and decoding the text into a buffer of at least the original size
  gives back the original bytes and their number, whatever the bytes are.
\<close>

theorem base64_roundtrip:
  assumes "length src < 2 ^ 60" "length src \<le> dlen'" "(length src + 2) div 3 * 4 < dlen"
  shows "\<exists>enc. mbedtls_base64_encode dlen src = (0, length enc, enc @ [0]) \<and>
    mbedtls_base64_decode dlen' enc = (0, word_of_nat (length src), src)"
proof -
  let ?n = "length src"
  have "length (b64_chars src) div 4 * 3 = ?n + b64_pad (b64_chars src)"
    unfolding length_b64_chars b64_pad_chars using thirds [of ?n] by simp
  then have olen: "word_of_nat (length (b64_chars src) div 4 * 3) - word_of_nat (b64_pad (b64_chars src)) =
      (word_of_nat ?n :: u64)"
    by simp
  have "unat (word_of_nat ?n :: u64) = ?n"
    using assms(1) by (simp add: unat_of_nat take_bit_nat_eq_self)
  then have "mbedtls_base64_decode dlen' (b64_chars src) = (0, word_of_nat ?n, src)"
    using assms(2) decode_chars [of ?n "[]" src]
    unfolding mbedtls_base64_decode_def Let_def olen by simp
  moreover have "mbedtls_base64_encode dlen src = (0, length (b64_chars src), b64_chars src @ [0])"
    using assms(3) by (simp add: mbedtls_base64_encode_def length_b64_chars Let_def)
  ultimately show ?thesis
    by blast
qed

theorem base64_roundtrip_witness:
  "\<exists>enc. mbedtls_base64_encode 9 [72, 105, 0, 255] = (0, length enc, enc @ [0]) \<and>
     mbedtls_base64_decode 4 enc = (0, 4, [72, 105, 0, 255])"
  using base64_roundtrip [of "[72, 105, 0, 255]" 4 9] by simp

text \<open>
  No buffer overrun. Whatever the input, valid or not, the encoder and the decoder write
  at most the bytes the caller's buffer has.
\<close>

theorem base64_no_overrun:
  "length (snd (snd (mbedtls_base64_encode dlen src))) \<le> dlen \<and>
   length (snd (snd (mbedtls_base64_decode dlen enc))) \<le> dlen"
proof -
  have "length (snd (b64_decode_loop n [] enc)) \<le> dlen" if "n \<le> dlen" for n
    using decode_loop_bound [of "[]" n enc] that by simp
  then show ?thesis
    by (auto simp: mbedtls_base64_encode_def mbedtls_base64_decode_def Let_def split_beta length_b64_chars)
qed

end
