(* ===== verification/Ble_Gatt.thy ===== *)
theory Ble_Gatt
  imports Interfaces "HOL-Library.AList"
begin

unbundle bit_operations_syntax

text \<open>
  The Bluetooth low energy server of \<open>src/include/BLEDevice.h\<close>: a server owns its services and these their
  characteristics, through maps from UUID texts to objects made with \<open>new\<close>. The lemmas show that nothing is freed twice,
  which objects are still there when the device is shut down, and what a lookup finds.
\<close>

section \<open>UUIDs\<close>

definition hex_digit :: "u16 \<Rightarrow> char" where
  "hex_digit d = ''0123456789abcdef'' ! unat d"

definition hex4 :: "u16 \<Rightarrow> string" where
  "hex4 v = map (\<lambda>k. hex_digit (take_bit 4 (drop_bit k v))) [12, 8, 4, 0]"

definition uuid16 :: "u16 \<Rightarrow> string" where
  "uuid16 v = ''0000'' @ hex4 v @ ''-0000-1000-8000-00805f9b34fb''"

section \<open>Objects\<close>

text \<open>
  Addresses are numbers and are not used again; an object that was deleted is absent. A map of the program is an association list, in any order: the order in
  which objects are deleted does not matter. Callbacks and descriptors of the sketch are code numbers.
\<close>

record gatt_char =
  gcUuid :: string
  gcProps :: u32
  gcValue :: "byte list"
  gcCallbacks :: "nat option"
  gcDescs :: "nat list"
  gcNotify :: nat
  gcIndicate :: nat

record gatt_service =
  gsUuid :: string
  gsChars :: "(string \<times> nat) list"
  gsStarted :: bool

record gatt_server =
  gvServices :: "(string \<times> nat) list"
  gvCallbacks :: "nat option"
  gvConnected :: nat

record gatt_adv =
  gaUuids :: "string list"
  gaOn :: bool
  gaScan :: bool
  gaMin :: u16
  gaMax :: u16

record ble =
  blName :: string
  blInited :: bool
  blMtu :: u16
  blServer :: "(nat \<times> gatt_server) option"
  blNext :: nat
  blServices :: "nat \<rightharpoonup> gatt_service"
  blChars :: "nat \<rightharpoonup> gatt_char"
  blAdv :: gatt_adv
  blFallback :: gatt_adv

definition adv_new :: gatt_adv where
  "adv_new = \<lparr>gaUuids = [], gaOn = False, gaScan = False, gaMin = 0, gaMax = 0\<rparr>"

definition ble_new :: ble where
  "ble_new =
    \<lparr>blName = [], blInited = False, blMtu = 517, blServer = None, blNext = 0, blServices = Map.empty, blChars = Map.empty,
     blAdv = adv_new, blFallback = adv_new\<rparr>"

section \<open>Characteristics\<close>

text \<open>An operation on an object that is gone is undefined (\<open>None\<close>).\<close>

definition on_char :: "(gatt_char \<Rightarrow> gatt_char) \<Rightarrow> nat \<Rightarrow> ble \<Rightarrow> ble option" where
  "on_char f a b = (case blChars b a of None \<Rightarrow> None | Some c \<Rightarrow> Some (b\<lparr>blChars := (blChars b)(a \<mapsto> f c)\<rparr>))"

definition gatt_setValue :: "byte list \<Rightarrow> nat \<Rightarrow> ble \<Rightarrow> ble option" where
  "gatt_setValue v = on_char (\<lambda>c. c\<lparr>gcValue := v\<rparr>)"

definition gatt_setValue32 :: "u32 \<Rightarrow> nat \<Rightarrow> ble \<Rightarrow> ble option" where
  "gatt_setValue32 v = on_char (\<lambda>c. c\<lparr>gcValue := word_bytes v\<rparr>)"

definition gatt_getValue :: "nat \<Rightarrow> ble \<Rightarrow> byte list option" where
  "gatt_getValue a b = map_option gcValue (blChars b a)"

definition gatt_notify :: "nat \<Rightarrow> ble \<Rightarrow> ble option" where
  "gatt_notify = on_char (\<lambda>c. c\<lparr>gcNotify := gcNotify c + 1\<rparr>)"

definition gatt_indicate :: "nat \<Rightarrow> ble \<Rightarrow> ble option" where
  "gatt_indicate = on_char (\<lambda>c. c\<lparr>gcIndicate := gcIndicate c + 1\<rparr>)"

definition gatt_setCallbacks :: "nat option \<Rightarrow> nat \<Rightarrow> ble \<Rightarrow> ble option" where
  "gatt_setCallbacks cb = on_char (\<lambda>c. c\<lparr>gcCallbacks := cb\<rparr>)"

definition gatt_addDescriptor :: "nat \<Rightarrow> nat \<Rightarrow> ble \<Rightarrow> ble option" where
  "gatt_addDescriptor d = on_char (\<lambda>c. c\<lparr>gcDescs := gcDescs c @ [d]\<rparr>)"

text \<open>A write by the peer: the callback that is called, with the characteristic that has the new value already.\<close>

definition gatt_simulateWrite :: "byte list \<Rightarrow> nat \<Rightarrow> ble \<Rightarrow> (nat option \<times> ble) option" where
  "gatt_simulateWrite data a b =
    (case on_char (\<lambda>c. c\<lparr>gcValue := data\<rparr>) a b of
       None \<Rightarrow> None
     | Some b \<Rightarrow> Some (case blChars b a of Some c \<Rightarrow> gcCallbacks c | None \<Rightarrow> None, b))"

section \<open>Services and the server\<close>

definition createCharacteristic :: "string \<Rightarrow> u32 \<Rightarrow> nat \<Rightarrow> ble \<Rightarrow> (nat \<times> ble) option" where
  "createCharacteristic uuid props svc b =
    (case blServices b svc of
       None \<Rightarrow> None
     | Some s \<Rightarrow>
         let a = blNext b;
             c = \<lparr>gcUuid = uuid, gcProps = props, gcValue = [], gcCallbacks = None, gcDescs = [], gcNotify = 0, gcIndicate = 0\<rparr>
         in Some (a, b\<lparr>blNext := a + 1, blChars := (blChars b)(a \<mapsto> c),
              blServices := (blServices b)(svc \<mapsto> s\<lparr>gsChars := AList.update uuid a (gsChars s)\<rparr>)\<rparr>))"

definition getCharacteristic :: "string \<Rightarrow> nat \<Rightarrow> ble \<Rightarrow> nat option option" where
  "getCharacteristic uuid svc b = map_option (\<lambda>s. map_of (gsChars s) uuid) (blServices b svc)"

definition service_start :: "nat \<Rightarrow> ble \<Rightarrow> ble option" where
  "service_start svc b =
    (case blServices b svc of None \<Rightarrow> None | Some s \<Rightarrow> Some (b\<lparr>blServices := (blServices b)(svc \<mapsto> s\<lparr>gsStarted := True\<rparr>)\<rparr>))"

definition createService :: "string \<Rightarrow> nat \<Rightarrow> ble \<Rightarrow> (nat \<times> ble) option" where
  "createService uuid srv b =
    (case blServer b of
       None \<Rightarrow> None
     | Some (v, sv) \<Rightarrow>
         if v \<noteq> srv then None
         else
           let a = blNext b
           in Some (a, b\<lparr>blNext := a + 1, blServices := (blServices b)(a \<mapsto> \<lparr>gsUuid = uuid, gsChars = [], gsStarted = False\<rparr>),
                blServer := Some (v, sv\<lparr>gvServices := AList.update uuid a (gvServices sv)\<rparr>)\<rparr>))"

definition getServiceByUUID :: "string \<Rightarrow> nat \<Rightarrow> ble \<Rightarrow> nat option option" where
  "getServiceByUUID uuid srv b =
    (case blServer b of None \<Rightarrow> None | Some (v, sv) \<Rightarrow> if v \<noteq> srv then None else Some (map_of (gvServices sv) uuid))"

definition on_server :: "(gatt_server \<Rightarrow> gatt_server) \<Rightarrow> nat \<Rightarrow> ble \<Rightarrow> ble option" where
  "on_server f srv b =
    (case blServer b of None \<Rightarrow> None | Some (v, sv) \<Rightarrow> if v \<noteq> srv then None else Some (b\<lparr>blServer := Some (v, f sv)\<rparr>))"

definition server_setCallbacks :: "nat option \<Rightarrow> nat \<Rightarrow> ble \<Rightarrow> ble option" where
  "server_setCallbacks cb = on_server (\<lambda>sv. sv\<lparr>gvCallbacks := cb\<rparr>)"

definition simulateConnect :: "nat \<Rightarrow> ble \<Rightarrow> (nat option \<times> ble) option" where
  "simulateConnect srv b =
    (case on_server (\<lambda>sv. sv\<lparr>gvConnected := gvConnected sv + 1\<rparr>) srv b of
       None \<Rightarrow> None | Some b \<Rightarrow> Some (case blServer b of Some (_, sv) \<Rightarrow> gvCallbacks sv | None \<Rightarrow> None, b))"

definition simulateDisconnect :: "nat \<Rightarrow> ble \<Rightarrow> (nat option \<times> ble) option" where
  "simulateDisconnect srv b =
    (case on_server (\<lambda>sv. if gvConnected sv > 0 then sv\<lparr>gvConnected := gvConnected sv - 1\<rparr> else sv) srv b of
       None \<Rightarrow> None | Some b \<Rightarrow> Some (case blServer b of Some (_, sv) \<Rightarrow> gvCallbacks sv | None \<Rightarrow> None, b))"

section \<open>Deletion\<close>

text \<open>Deleting an object that is gone is undefined.\<close>

fun free_all :: "nat list \<Rightarrow> (nat \<rightharpoonup> 'a) \<Rightarrow> (nat \<rightharpoonup> 'a) option" where
  "free_all [] h = Some h"
| "free_all (a # as) h = (case h a of None \<Rightarrow> None | Some _ \<Rightarrow> free_all as (h(a := None)))"

definition delete_service :: "nat \<Rightarrow> ble \<Rightarrow> ble option" where
  "delete_service a b =
    (case blServices b a of
       None \<Rightarrow> None
     | Some s \<Rightarrow>
         (case free_all (map snd (gsChars s)) (blChars b) of
            None \<Rightarrow> None | Some cs \<Rightarrow> Some (b\<lparr>blChars := cs, blServices := (blServices b)(a := None)\<rparr>)))"

fun delete_services :: "nat list \<Rightarrow> ble \<Rightarrow> ble option" where
  "delete_services [] b = Some b"
| "delete_services (a # as) b = (case delete_service a b of None \<Rightarrow> None | Some b \<Rightarrow> delete_services as b)"

definition delete_server :: "ble \<Rightarrow> ble option" where
  "delete_server b =
    (case blServer b of
       None \<Rightarrow> Some b
     | Some (_, sv) \<Rightarrow>
         (case delete_services (map snd (gvServices sv)) b of None \<Rightarrow> None | Some b \<Rightarrow> Some (b\<lparr>blServer := None\<rparr>)))"

section \<open>The device\<close>

definition ble_init :: "string \<Rightarrow> ble \<Rightarrow> ble" where
  "ble_init name b = b\<lparr>blName := name, blInited := True\<rparr>"

definition createServer :: "ble \<Rightarrow> (nat \<times> ble) option" where
  "createServer b =
    (case delete_server b of
       None \<Rightarrow> None
     | Some b \<Rightarrow> Some (blNext b, b\<lparr>blNext := blNext b + 1,
         blServer := Some (blNext b, \<lparr>gvServices = [], gvCallbacks = None, gvConnected = 0\<rparr>)\<rparr>))"

definition ble_deinit :: "ble \<Rightarrow> ble option" where
  "ble_deinit b = (case delete_server b of None \<Rightarrow> None | Some b \<Rightarrow> Some (b\<lparr>blInited := False, blName := []\<rparr>))"

definition ble_setMTU :: "u16 \<Rightarrow> ble \<Rightarrow> ble" where
  "ble_setMTU mtu b = b\<lparr>blMtu := mtu\<rparr>"

text \<open>The advertising object is one for all servers, and another one without a server.\<close>

definition on_adv :: "(gatt_adv \<Rightarrow> gatt_adv) \<Rightarrow> ble \<Rightarrow> ble" where
  "on_adv f b = (if blServer b \<noteq> None then b\<lparr>blAdv := f (blAdv b)\<rparr> else b\<lparr>blFallback := f (blFallback b)\<rparr>)"

definition addServiceUUID :: "string \<Rightarrow> gatt_adv \<Rightarrow> gatt_adv" where
  "addServiceUUID uuid a = a\<lparr>gaUuids := gaUuids a @ [uuid]\<rparr>"

definition adv_start :: "gatt_adv \<Rightarrow> gatt_adv" where
  "adv_start a = a\<lparr>gaOn := True\<rparr>"

definition adv_stop :: "gatt_adv \<Rightarrow> gatt_adv" where
  "adv_stop a = a\<lparr>gaOn := False\<rparr>"

section \<open>UUID texts\<close>

lemma hex_digit_inject:
  assumes "hex_digit a = hex_digit b" "unat a < 16" "unat b < 16"
  shows "a = b"
proof -
  have "distinct ''0123456789abcdef''"
    by simp
  then have "unat a = unat b"
    using assms nth_eq_iff_index_eq [of "''0123456789abcdef''" "unat a" "unat b"] by (simp add: hex_digit_def)
  then show ?thesis
    by (simp add: word_unat_eq_iff)
qed

lemma nibble_less: "unat (take_bit 4 (v :: u16)) < 16"
  using take_bit_nat_less_exp [of 4 "unat v"] by (simp add: unsigned_take_bit_eq)

text \<open>The texts of two 16-bit UUIDs have the length of a full UUID and are equal only if the numbers are.\<close>

theorem uuid16_inject: "length (uuid16 v) = 36 \<and> (uuid16 v = uuid16 w \<longleftrightarrow> v = w)"
proof
  show "length (uuid16 v) = 36"
    by (simp add: uuid16_def hex4_def)
  show "uuid16 v = uuid16 w \<longleftrightarrow> v = w"
  proof
    assume "uuid16 v = uuid16 w"
    then have "hex_digit (take_bit 4 (drop_bit k v)) = hex_digit (take_bit 4 (drop_bit k w))" if "k \<in> {0, 4, 8, 12}" for k
      using that by (auto simp: uuid16_def hex4_def)
    then have e: "take_bit 4 (drop_bit k v) = take_bit 4 (drop_bit k w)" if "k \<in> {0, 4, 8, 12}" for k
      using that hex_digit_inject nibble_less by blast
    show "v = w"
    proof (rule bit_word_eqI)
      fix n
      assume n: "n < LENGTH(16)"
      define k where "k = n div 4 * 4"
      have "k \<in> {0, 4, 8, 12}"
        using n by (simp add: k_def) presburger
      then have "bit (take_bit 4 (drop_bit k v)) (n - k) \<longleftrightarrow> bit (take_bit 4 (drop_bit k w)) (n - k)"
        using e by simp
      moreover have "n - k < 4" "k + (n - k) = n"
        unfolding k_def by presburger+
      ultimately show "bit v n \<longleftrightarrow> bit w n"
        by (simp add: bit_take_bit_iff bit_drop_bit_eq)
    qed
  qed simp
qed

section \<open>Ownership\<close>

lemma update_snd_sub: "snd ` set (AList.update k v al) \<subseteq> insert v (snd ` set al)"
  by (induction al) auto

lemma update_snd_distinct:
  "distinct (map snd al) \<Longrightarrow> v \<notin> snd ` set al \<Longrightarrow> distinct (map snd (AList.update k v al))"
proof (induction al)
  case (Cons p al)
  then show ?case
    using update_snd_sub [of k v al] by (cases p) auto
qed simp

lemma update_snd_fresh:
  "k \<notin> fst ` set al \<Longrightarrow> snd ` set (AList.update k v al) = insert v (snd ` set al)"
  by (induction al) auto

abbreviation owned_chars :: "gatt_service \<Rightarrow> nat set" where
  "owned_chars s \<equiv> snd ` set (gsChars s)"

definition heap_inv :: "ble \<Rightarrow> bool" where
  "heap_inv b \<longleftrightarrow>
    (\<forall>a s. blServices b a = Some s \<longrightarrow> a < blNext b \<and> distinct (map fst (gsChars s)) \<and> distinct (map snd (gsChars s)) \<and>
      owned_chars s \<subseteq> dom (blChars b)) \<and>
    (\<forall>a. a \<in> dom (blChars b) \<longrightarrow> a < blNext b) \<and>
    (\<forall>a a' s s'. blServices b a = Some s \<longrightarrow> blServices b a' = Some s' \<longrightarrow> a \<noteq> a' \<longrightarrow> owned_chars s \<inter> owned_chars s' = {})"

definition server_inv :: "ble \<Rightarrow> bool" where
  "server_inv b \<longleftrightarrow>
    (case blServer b of
       None \<Rightarrow> True
     | Some (v, sv) \<Rightarrow> distinct (map fst (gvServices sv)) \<and> distinct (map snd (gvServices sv)) \<and>
         snd ` set (gvServices sv) \<subseteq> dom (blServices b))"

definition ble_inv :: "ble \<Rightarrow> bool" where
  "ble_inv b \<longleftrightarrow> heap_inv b \<and> server_inv b"

lemma free_all_ok: "distinct as \<Longrightarrow> set as \<subseteq> dom h \<Longrightarrow> free_all as h = Some (h |` (- set as))"
proof (induction as arbitrary: h)
  case (Cons a as)
  then obtain x where "h a = Some x"
    by auto
  moreover have "(h(a := None)) |` (- set as) = h |` (- set (a # as))"
    by (auto simp: restrict_map_def fun_eq_iff)
  moreover have "set as \<subseteq> dom (h(a := None))"
    using Cons.prems by auto
  ultimately show ?case
    using Cons.IH [of "h(a := None)"] Cons.prems(1) by (simp del: fun_upd_apply)
qed (simp add: restrict_map_def)

lemma delete_service_ok:
  assumes "heap_inv b" "blServices b a = Some s"
  shows "delete_service a b = Some (b\<lparr>blChars := blChars b |` (- owned_chars s), blServices := (blServices b)(a := None)\<rparr>)"
    "heap_inv (b\<lparr>blChars := blChars b |` (- owned_chars s), blServices := (blServices b)(a := None)\<rparr>)"
proof -
  have s: "distinct (map snd (gsChars s))" "owned_chars s \<subseteq> dom (blChars b)"
    using assms unfolding heap_inv_def by blast+
  then show "delete_service a b = Some (b\<lparr>blChars := blChars b |` (- owned_chars s), blServices := (blServices b)(a := None)\<rparr>)"
    using assms(2) free_all_ok [of "map snd (gsChars s)" "blChars b"] by (simp add: delete_service_def)
  have "owned_chars s' \<subseteq> dom (blChars b |` (- owned_chars s))" if "blServices b a' = Some s'" "a' \<noteq> a" for a' s'
  proof -
    have "owned_chars s' \<subseteq> dom (blChars b)" "owned_chars s' \<inter> owned_chars s = {}"
      using assms that unfolding heap_inv_def by blast+
    then show ?thesis
      by auto
  qed
  then show "heap_inv (b\<lparr>blChars := blChars b |` (- owned_chars s), blServices := (blServices b)(a := None)\<rparr>)"
    using assms(1) unfolding heap_inv_def by (auto split: if_splits)
qed

text \<open>What is left of the characteristics when some services are deleted.\<close>

definition without :: "nat set \<Rightarrow> ble \<Rightarrow> nat \<Rightarrow> gatt_char option" where
  "without as b c = (if \<exists>a\<in>as. \<exists>s. blServices b a = Some s \<and> c \<in> owned_chars s then None else blChars b c)"

lemma delete_services_ok:
  assumes "heap_inv b" "distinct as" "set as \<subseteq> dom (blServices b)"
  shows "\<exists>b'. delete_services as b = Some b' \<and> heap_inv b' \<and> blServices b' = blServices b |` (- set as) \<and>
      blChars b' = without (set as) b \<and> blServer b' = blServer b \<and> blNext b' = blNext b"
  using assms
proof (induction as arbitrary: b)
  case (Cons a as)
  then obtain s where s: "blServices b a = Some s"
    by auto
  define c where "c = b\<lparr>blChars := blChars b |` (- owned_chars s), blServices := (blServices b)(a := None)\<rparr>"
  have c: "delete_service a b = Some c" "heap_inv c"
    using delete_service_ok [OF Cons.prems(1) s] by (simp_all add: c_def)
  have "set as \<subseteq> dom (blServices c)"
    using Cons.prems(2,3) by (auto simp: c_def)
  from Cons.IH [OF c(2) _ this] obtain b' where b': "delete_services as c = Some b'" "heap_inv b'"
    "blServices b' = blServices c |` (- set as)" "blChars b' = without (set as) c" "blServer b' = blServer c" "blNext b' = blNext c"
    using Cons.prems(2) by auto
  have "blServices c |` (- set as) = blServices b |` (- set (a # as))"
    by (auto simp: c_def restrict_map_def fun_eq_iff)
  moreover have "without (set as) c = without (set (a # as)) b"
  proof
    fix k
    have "(\<exists>x\<in>set as. \<exists>t. blServices c x = Some t \<and> k \<in> owned_chars t) \<longleftrightarrow> (\<exists>x\<in>set as. \<exists>t. blServices b x = Some t \<and> k \<in> owned_chars t)"
    proof (intro bex_cong)
      fix x
      assume "x \<in> set as"
      then have "blServices c x = blServices b x"
        using Cons.prems(2) by (auto simp: c_def)
      then show "(\<exists>t. blServices c x = Some t \<and> k \<in> owned_chars t) \<longleftrightarrow> (\<exists>t. blServices b x = Some t \<and> k \<in> owned_chars t)"
        by simp
    qed simp
    then show "without (set as) c k = without (set (a # as)) b k"
      using s by (auto simp: without_def c_def restrict_map_def)
  qed
  ultimately show ?case
    using b' c(1) by (auto simp: c_def)
qed (simp add: without_def fun_eq_iff restrict_map_def)

lemma delete_server_ok:
  assumes "ble_inv b"
  defines "gone \<equiv> (case blServer b of None \<Rightarrow> {} | Some (_, sv) \<Rightarrow> snd ` set (gvServices sv))"
  shows "\<exists>b'. delete_server b = Some b' \<and> heap_inv b' \<and> blServer b' = None \<and> blServices b' = blServices b |` (- gone) \<and>
      blChars b' = without gone b \<and> blNext b' = blNext b"
proof (cases "blServer b")
  case None
  then show ?thesis
    using assms by (auto simp: delete_server_def ble_inv_def without_def fun_eq_iff restrict_map_def)
next
  case (Some x)
  obtain v sv where x: "x = (v, sv)"
    by fastforce
  have "distinct (map snd (gvServices sv))" "set (map snd (gvServices sv)) \<subseteq> dom (blServices b)"
    using assms(1) Some x by (simp_all add: ble_inv_def server_inv_def)
  from delete_services_ok [OF _ this] obtain b' where b': "delete_services (map snd (gvServices sv)) b = Some b'" "heap_inv b'"
    "blServices b' = blServices b |` (- set (map snd (gvServices sv)))" "blChars b' = without (set (map snd (gvServices sv))) b"
    "blNext b' = blNext b"
    using assms(1) by (auto simp: ble_inv_def)
  have "heap_inv (b'\<lparr>blServer := None\<rparr>)"
    using b'(2) by (simp add: heap_inv_def)
  then show ?thesis
    using b' Some x by (simp add: delete_server_def gone_def)
qed

section \<open>Runs\<close>

datatype ble_op = BInit string | BServer | BDeinit | BMtu u16 | BService string nat | BChar string u32 nat | BStart nat
  | BConnect nat | BDisconnect nat | BValue "byte list" nat | BWrite "byte list" nat | BNotify nat | BCallbacks "nat option" nat

fun ble_step :: "ble_op \<Rightarrow> ble \<Rightarrow> ble option" where
  "ble_step (BInit name) b = Some (ble_init name b)"
| "ble_step BServer b = map_option snd (createServer b)"
| "ble_step BDeinit b = ble_deinit b"
| "ble_step (BMtu m) b = Some (ble_setMTU m b)"
| "ble_step (BService uuid srv) b = map_option snd (createService uuid srv b)"
| "ble_step (BChar uuid props svc) b = map_option snd (createCharacteristic uuid props svc b)"
| "ble_step (BStart svc) b = service_start svc b"
| "ble_step (BConnect srv) b = map_option snd (simulateConnect srv b)"
| "ble_step (BDisconnect srv) b = map_option snd (simulateDisconnect srv b)"
| "ble_step (BValue v a) b = gatt_setValue v a b"
| "ble_step (BWrite v a) b = map_option snd (gatt_simulateWrite v a b)"
| "ble_step (BNotify a) b = gatt_notify a b"
| "ble_step (BCallbacks cb a) b = gatt_setCallbacks cb a b"

fun ble_run :: "ble_op list \<Rightarrow> ble \<Rightarrow> ble option" where
  "ble_run [] b = Some b"
| "ble_run (op # ops) b = (case ble_step op b of None \<Rightarrow> None | Some b \<Rightarrow> ble_run ops b)"

definition server_alive :: "nat \<Rightarrow> ble \<Rightarrow> bool" where
  "server_alive srv b \<longleftrightarrow> (case blServer b of None \<Rightarrow> False | Some (v, _) \<Rightarrow> v = srv)"

text \<open>The object an operation works on is there.\<close>

fun handle_alive :: "ble_op \<Rightarrow> ble \<Rightarrow> bool" where
  "handle_alive (BService uuid srv) b = server_alive srv b"
| "handle_alive (BChar uuid props svc) b = (svc \<in> dom (blServices b))"
| "handle_alive (BStart svc) b = (svc \<in> dom (blServices b))"
| "handle_alive (BConnect srv) b = server_alive srv b"
| "handle_alive (BDisconnect srv) b = server_alive srv b"
| "handle_alive (BValue v a) b = (a \<in> dom (blChars b))"
| "handle_alive (BWrite v a) b = (a \<in> dom (blChars b))"
| "handle_alive (BNotify a) b = (a \<in> dom (blChars b))"
| "handle_alive (BCallbacks cb a) b = (a \<in> dom (blChars b))"
| "handle_alive _ b = True"

text \<open>A UUID is used once below its owner.\<close>

fun uuid_unused :: "ble_op \<Rightarrow> ble \<Rightarrow> bool" where
  "uuid_unused (BService uuid srv) b = (case blServer b of None \<Rightarrow> True | Some (_, sv) \<Rightarrow> uuid \<notin> fst ` set (gvServices sv))"
| "uuid_unused (BChar uuid props svc) b = (case blServices b svc of None \<Rightarrow> True | Some s \<Rightarrow> uuid \<notin> fst ` set (gsChars s))"
| "uuid_unused _ b = True"

fun uuids_unused :: "ble_op list \<Rightarrow> ble \<Rightarrow> bool" where
  "uuids_unused [] b = True"
| "uuids_unused (op # ops) b = (uuid_unused op b \<and> (case ble_step op b of None \<Rightarrow> True | Some b \<Rightarrow> uuids_unused ops b))"

text \<open>Everything that is there belongs to the server.\<close>

definition all_owned :: "ble \<Rightarrow> bool" where
  "all_owned b \<longleftrightarrow>
    dom (blServices b) = (case blServer b of None \<Rightarrow> {} | Some (_, sv) \<Rightarrow> snd ` set (gvServices sv)) \<and>
    (\<forall>c\<in>dom (blChars b). \<exists>a s. blServices b a = Some s \<and> c \<in> owned_chars s)"

lemma same_owners:
  assumes "\<And>a. map_option gsChars (blServices b' a) = map_option gsChars (blServices b a)" "dom (blChars b') = dom (blChars b)"
    "blNext b' = blNext b" "map_option (\<lambda>(v, sv). (v, gvServices sv)) (blServer b') = map_option (\<lambda>(v, sv). (v, gvServices sv)) (blServer b)"
  shows "ble_inv b \<Longrightarrow> ble_inv b'" "all_owned b \<Longrightarrow> all_owned b'"
proof -
  have to: "\<exists>t. blServices b a = Some t \<and> gsChars t = gsChars s" if "blServices b' a = Some s" for a s
    using assms(1) [of a] that by (cases "blServices b a"; cases "blServices b' a") auto
  have fro: "\<exists>t. blServices b' a = Some t \<and> gsChars t = gsChars s" if "blServices b a = Some s" for a s
    using assms(1) [of a] that by (cases "blServices b a"; cases "blServices b' a") auto
  have d: "dom (blServices b') = dom (blServices b)"
    using to fro by blast
  have heap: "heap_inv b'" if "heap_inv b"
    unfolding heap_inv_def assms(2,3)
  proof (intro conjI allI impI)
    fix a s
    assume "blServices b' a = Some s"
    then obtain t where t: "blServices b a = Some t" "gsChars t = gsChars s"
      using to by blast
    then show "a < blNext b" "distinct (map fst (gsChars s))" "distinct (map snd (gsChars s))" "owned_chars s \<subseteq> dom (blChars b)"
      using that unfolding heap_inv_def by (metis, metis, metis, metis)
    fix a' s'
    assume "blServices b' a' = Some s'" "a \<noteq> a'"
    moreover obtain t' where "blServices b a' = Some t'" "gsChars t' = gsChars s'"
      using to \<open>blServices b' a' = Some s'\<close> by blast
    ultimately show "owned_chars s \<inter> owned_chars s' = {}"
      using that t unfolding heap_inv_def by metis
  qed (use that in \<open>auto simp: heap_inv_def\<close>)
  have srv: "(case blServer b' of None \<Rightarrow> None | Some (v, sv) \<Rightarrow> Some (gvServices sv)) =
      (case blServer b of None \<Rightarrow> None | Some (v, sv) \<Rightarrow> Some (gvServices sv))"
    using assms(4) by (cases "blServer b"; cases "blServer b'") auto
  then show "ble_inv b \<Longrightarrow> ble_inv b'"
    using heap d by (auto simp: ble_inv_def server_inv_def split: option.splits prod.splits)
  show "all_owned b \<Longrightarrow> all_owned b'"
  proof -
    assume o: "all_owned b"
    have "(\<exists>a s. blServices b' a = Some s \<and> c \<in> owned_chars s)" if m: "c \<in> dom (blChars b')" for c
    proof -
      obtain a s where "blServices b a = Some s" "c \<in> owned_chars s"
        using o m assms(2) unfolding all_owned_def by blast
      then show ?thesis
        using fro by metis
    qed
    moreover have "(case blServer b' of None \<Rightarrow> {} | Some (_, sv) \<Rightarrow> snd ` set (gvServices sv)) =
        (case blServer b of None \<Rightarrow> {} | Some (_, sv) \<Rightarrow> snd ` set (gvServices sv))"
      using assms(4) by (cases "blServer b"; cases "blServer b'") auto
    ultimately show ?thesis
      using o d unfolding all_owned_def by simp
  qed
qed

lemma on_char_step:
  "on_char f a b = None \<longleftrightarrow> a \<notin> dom (blChars b)"
  "on_char f a b = Some b' \<Longrightarrow> (ble_inv b \<longrightarrow> ble_inv b') \<and> (all_owned b \<longrightarrow> all_owned b')"
proof -
  show "on_char f a b = None \<longleftrightarrow> a \<notin> dom (blChars b)"
    by (auto simp: on_char_def split: option.splits)
  assume "on_char f a b = Some b'"
  then obtain c where c: "blChars b a = Some c" "b' = b\<lparr>blChars := (blChars b)(a \<mapsto> f c)\<rparr>"
    by (auto simp: on_char_def split: option.splits)
  then have "dom (blChars b') = dom (blChars b)"
    by auto
  with same_owners [of b' b] c(2) show "(ble_inv b \<longrightarrow> ble_inv b') \<and> (all_owned b \<longrightarrow> all_owned b')"
    by auto
qed

lemma on_server_step:
  assumes "\<And>sv. gvServices (f sv) = gvServices sv"
  shows "on_server f srv b = None \<longleftrightarrow> \<not> server_alive srv b"
    "on_server f srv b = Some b' \<Longrightarrow> (ble_inv b \<longrightarrow> ble_inv b') \<and> (all_owned b \<longrightarrow> all_owned b')"
proof -
  show "on_server f srv b = None \<longleftrightarrow> \<not> server_alive srv b"
    by (auto simp: on_server_def server_alive_def split: option.splits)
  assume "on_server f srv b = Some b'"
  then obtain sv where "blServer b = Some (srv, sv)" "b' = b\<lparr>blServer := Some (srv, f sv)\<rparr>"
    by (auto simp: on_server_def split: option.splits if_splits)
  with same_owners [of b' b] assms show "(ble_inv b \<longrightarrow> ble_inv b') \<and> (all_owned b \<longrightarrow> all_owned b')"
    by auto
qed

lemma createCharacteristic_step:
  assumes "ble_inv b" "blServices b svc = Some s"
  shows "\<exists>a b'. createCharacteristic uuid props svc b = Some (a, b') \<and> ble_inv b' \<and>
    (all_owned b \<longrightarrow> uuid \<notin> fst ` set (gsChars s) \<longrightarrow> all_owned b')"
proof -
  define a where "a = blNext b"
  define c where "c = \<lparr>gcUuid = uuid, gcProps = props, gcValue = [], gcCallbacks = None, gcDescs = [], gcNotify = 0, gcIndicate = 0\<rparr>"
  define t where "t = s\<lparr>gsChars := AList.update uuid a (gsChars s)\<rparr>"
  define b' where "b' = b\<lparr>blNext := a + 1, blChars := (blChars b)(a \<mapsto> c), blServices := (blServices b)(svc \<mapsto> t)\<rparr>"
  have r: "createCharacteristic uuid props svc b = Some (a, b')"
    using assms(2) by (simp add: createCharacteristic_def a_def b'_def c_def t_def Let_def)
  have heap: "heap_inv b"
    using assms(1) by (simp add: ble_inv_def)
  have fresh: "a \<notin> owned_chars u" if "blServices b k = Some u" for k u
    using heap that unfolding heap_inv_def a_def by blast
  have s: "svc < blNext b" "distinct (map fst (gsChars s))" "distinct (map snd (gsChars s))" "owned_chars s \<subseteq> dom (blChars b)"
    using heap assms(2) unfolding heap_inv_def by blast+
  have t: "distinct (map fst (gsChars t))" "distinct (map snd (gsChars t))" "owned_chars t \<subseteq> insert a (owned_chars s)"
    using s(2) update_snd_distinct [OF s(3) fresh [OF assms(2)], of uuid] update_snd_sub [of uuid a "gsChars s"]
    by (simp_all add: t_def distinct_update)
  have "heap_inv b'"
    unfolding heap_inv_def
  proof (intro conjI allI impI)
    fix k u
    assume k: "blServices b' k = Some u"
    show "k < blNext b'" "distinct (map fst (gsChars u))" "distinct (map snd (gsChars u))" "owned_chars u \<subseteq> dom (blChars b')"
    proof -
      show "k < blNext b'"
      proof (cases "k = svc")
        case False
        then have "blServices b k = Some u"
          using k by (simp add: b'_def)
        then have "k < blNext b"
          using heap unfolding heap_inv_def by blast
        then show ?thesis
          by (simp add: b'_def a_def)
      qed (use s(1) in \<open>simp add: b'_def a_def\<close>)
      have "distinct (map fst (gsChars u)) \<and> distinct (map snd (gsChars u)) \<and> owned_chars u \<subseteq> insert a (dom (blChars b))"
      proof (cases "k = svc")
        case True
        then show ?thesis
          using k t s(4) by (auto simp: b'_def)
      next
        case False
        then have "blServices b k = Some u"
          using k by (simp add: b'_def)
        then show ?thesis
          using heap unfolding heap_inv_def by blast
      qed
      then show "distinct (map fst (gsChars u))" "distinct (map snd (gsChars u))" "owned_chars u \<subseteq> dom (blChars b')"
        by (simp_all add: b'_def)
    qed
    fix k' u'
    assume k': "blServices b' k' = Some u'" "k \<noteq> k'"
    have old: "owned_chars x \<inter> owned_chars y = {}" if "blServices b i = Some x" "blServices b j = Some y" "i \<noteq> j" for i j x y
      using heap that unfolding heap_inv_def by blast
    have mixed: "owned_chars t \<inter> owned_chars y = {}" if "blServices b j = Some y" "j \<noteq> svc" for j y
      using t(3) old [OF assms(2) that(1)] that(2) fresh [OF that(1)] by auto
    show "owned_chars u \<inter> owned_chars u' = {}"
    proof (cases "k = svc")
      case True
      then show ?thesis
        using k k' mixed [of k' u'] by (simp add: b'_def)
    next
      case False
      show ?thesis
      proof (cases "k' = svc")
        case True
        then show ?thesis
          using k k' False mixed [of k u] by (simp add: b'_def Int_commute)
      next
        case k'': False
        then show ?thesis
          using k k' False old [of k u k' u'] by (simp add: b'_def)
      qed
    qed
  next
    fix k
    assume "k \<in> dom (blChars b')"
    then show "k < blNext b'"
      using heap unfolding heap_inv_def by (auto simp: b'_def a_def intro: less_SucI split: if_splits)
  qed
  moreover have "server_inv b'"
    using assms by (auto simp: ble_inv_def server_inv_def b'_def split: option.splits prod.splits)
  moreover have "all_owned b'" if o: "all_owned b" and u: "uuid \<notin> fst ` set (gsChars s)"
  proof -
    have ot: "owned_chars t = insert a (owned_chars s)"
      using update_snd_fresh [OF u] by (simp add: t_def)
    have "\<exists>k u. blServices b' k = Some u \<and> x \<in> owned_chars u" if "x \<in> dom (blChars b')" for x
    proof (cases "x = a")
      case True
      then show ?thesis
        using ot by (intro exI [of _ svc] exI [of _ t]) (simp add: b'_def)
    next
      case False
      then have "x \<in> dom (blChars b)"
        using that by (simp add: b'_def)
      then obtain k u where k: "blServices b k = Some u" "x \<in> owned_chars u"
        using o unfolding all_owned_def by blast
      show ?thesis
      proof (cases "k = svc")
        case True
        then show ?thesis
          using k assms(2) ot by (intro exI [of _ svc] exI [of _ t]) (simp add: b'_def)
      next
        case False
        then show ?thesis
          using k by (intro exI [of _ k] exI [of _ u]) (simp add: b'_def)
      qed
    qed
    moreover have "dom (blServices b') = dom (blServices b)"
      using assms(2) by (auto simp: b'_def)
    ultimately show ?thesis
      using o by (simp add: all_owned_def b'_def)
  qed
  ultimately show ?thesis
    using r by (auto simp: ble_inv_def)
qed

lemma createService_step:
  assumes "ble_inv b" "blServer b = Some (srv, sv)"
  shows "\<exists>a b'. createService uuid srv b = Some (a, b') \<and> ble_inv b' \<and>
    (all_owned b \<longrightarrow> uuid \<notin> fst ` set (gvServices sv) \<longrightarrow> all_owned b')"
proof -
  define a where "a = blNext b"
  define s where "s = \<lparr>gsUuid = uuid, gsChars = [], gsStarted = False\<rparr>"
  define b' where "b' = b\<lparr>blNext := a + 1, blServices := (blServices b)(a \<mapsto> s),
      blServer := Some (srv, sv\<lparr>gvServices := AList.update uuid a (gvServices sv)\<rparr>)\<rparr>"
  have r: "createService uuid srv b = Some (a, b')"
    using assms(2) by (simp add: createService_def a_def b'_def s_def Let_def)
  have heap: "heap_inv b"
    using assms(1) by (simp add: ble_inv_def)
  have fresh: "blServices b a = None"
  proof (rule ccontr)
    assume "blServices b a \<noteq> None"
    then obtain u where "blServices b a = Some u"
      by blast
    then have "a < blNext b"
      using heap unfolding heap_inv_def by blast
    then show False
      by (simp add: a_def)
  qed
  have sv: "distinct (map fst (gvServices sv))" "distinct (map snd (gvServices sv))" "snd ` set (gvServices sv) \<subseteq> dom (blServices b)"
    using assms by (simp_all add: ble_inv_def server_inv_def)
  have "heap_inv b'"
    unfolding heap_inv_def
  proof (intro conjI allI impI)
    fix k u
    assume k: "blServices b' k = Some u"
    have "k \<le> a \<and> distinct (map fst (gsChars u)) \<and> distinct (map snd (gsChars u)) \<and> owned_chars u \<subseteq> dom (blChars b)"
    proof (cases "k = a")
      case True
      then show ?thesis
        using k by (auto simp: b'_def s_def)
    next
      case False
      then have "blServices b k = Some u"
        using k by (simp add: b'_def)
      then show ?thesis
        using heap unfolding heap_inv_def a_def by (meson less_imp_le)
    qed
    then show "k < blNext b'" "distinct (map fst (gsChars u))" "distinct (map snd (gsChars u))" "owned_chars u \<subseteq> dom (blChars b')"
      by (simp_all add: b'_def)
    fix k' u'
    assume k': "blServices b' k' = Some u'" "k \<noteq> k'"
    show "owned_chars u \<inter> owned_chars u' = {}"
    proof (cases "k = a \<or> k' = a")
      case True
      then show ?thesis
        using k k' by (auto simp: b'_def s_def split: if_splits)
    next
      case False
      then have "blServices b k = Some u" "blServices b k' = Some u'"
        using k k' by (simp_all add: b'_def)
      then show ?thesis
        using heap k'(2) unfolding heap_inv_def by blast
    qed
  next
    fix k
    assume "k \<in> dom (blChars b')"
    then have "k \<in> dom (blChars b)"
      by (simp add: b'_def)
    then have "k < blNext b"
      using heap unfolding heap_inv_def by blast
    then show "k < blNext b'"
      by (simp add: b'_def a_def)
  qed
  moreover have "server_inv b'"
  proof -
    have "a \<notin> snd ` set (gvServices sv)"
      using sv(3) fresh by blast
    then have "distinct (map snd (AList.update uuid a (gvServices sv)))"
      using update_snd_distinct [OF sv(2)] by blast
    moreover have "snd ` set (AList.update uuid a (gvServices sv)) \<subseteq> insert a (dom (blServices b))"
      using update_snd_sub [of uuid a "gvServices sv"] sv(3) by blast
    ultimately show ?thesis
      using sv(1) by (simp add: server_inv_def b'_def distinct_update)
  qed
  moreover have "all_owned b'" if o: "all_owned b" and u: "uuid \<notin> fst ` set (gvServices sv)"
  proof -
    have "\<exists>k u. blServices b' k = Some u \<and> x \<in> owned_chars u" if "x \<in> dom (blChars b')" for x
    proof -
      have "x \<in> dom (blChars b)"
        using that by (simp add: b'_def)
      then obtain k u where k: "blServices b k = Some u" "x \<in> owned_chars u"
        using o unfolding all_owned_def by blast
      then have "k \<noteq> a"
        using fresh by auto
      then show ?thesis
        using k by (intro exI [of _ k] exI [of _ u]) (simp add: b'_def)
    qed
    moreover have "dom (blServices b') = insert a (dom (blServices b))"
      by (simp add: b'_def)
    ultimately show ?thesis
      using o assms(2) update_snd_fresh [OF u] by (simp add: all_owned_def b'_def)
  qed
  ultimately show ?thesis
    using r by (auto simp: ble_inv_def)
qed

lemma deleted_step:
  assumes "ble_inv b"
  shows "\<exists>b'. delete_server b = Some b' \<and> ble_inv b' \<and> blServer b' = None \<and>
    (all_owned b \<longrightarrow> blServices b' = Map.empty \<and> blChars b' = Map.empty)"
proof -
  define gone where "gone = (case blServer b of None \<Rightarrow> {} | Some (_, sv) \<Rightarrow> snd ` set (gvServices sv))"
  obtain b' where b': "delete_server b = Some b'" "heap_inv b'" "blServer b' = None" "blServices b' = blServices b |` (- gone)"
    "blChars b' = without gone b"
    using delete_server_ok [OF assms] unfolding gone_def by blast
  have "blServices b' = Map.empty \<and> blChars b' = Map.empty" if o: "all_owned b"
  proof
    have g: "gone = dom (blServices b)"
      using o by (simp add: all_owned_def gone_def)
    then show "blServices b' = Map.empty"
      unfolding b'(4) by (auto simp: restrict_map_def fun_eq_iff)
    have "without gone b c = None" for c
    proof (cases "c \<in> dom (blChars b)")
      case True
      then obtain a s where "blServices b a = Some s" "c \<in> owned_chars s"
        using o unfolding all_owned_def by blast
      then show ?thesis
        using g by (auto simp: without_def)
    qed (auto simp: without_def)
    then show "blChars b' = Map.empty"
      unfolding b'(5) by blast
  qed
  then show ?thesis
    using b' by (auto simp: ble_inv_def server_inv_def)
qed

lemma ble_step_spec:
  assumes "ble_inv b"
  shows "ble_step op b = None \<longleftrightarrow> \<not> handle_alive op b"
    "ble_step op b = Some b' \<Longrightarrow> ble_inv b' \<and> (all_owned b \<longrightarrow> uuid_unused op b \<longrightarrow> all_owned b')"
proof -
  have "(ble_step op b = None \<longleftrightarrow> \<not> handle_alive op b) \<and>
      (ble_step op b = Some b' \<longrightarrow> ble_inv b' \<and> (all_owned b \<longrightarrow> uuid_unused op b \<longrightarrow> all_owned b'))" for b'
  proof (cases op)
    case (BInit name)
    then show ?thesis
      using same_owners [of "ble_init name b" b] assms by (auto simp: ble_init_def)
  next
    case (BMtu m)
    then show ?thesis
      using same_owners [of "ble_setMTU m b" b] assms by (auto simp: ble_setMTU_def)
  next
    case BServer
    from deleted_step [OF assms] obtain c where c: "delete_server b = Some c" "ble_inv c" "blServer c = None"
      "all_owned b \<longrightarrow> blServices c = Map.empty \<and> blChars c = Map.empty"
      by blast
    define d where "d = c\<lparr>blNext := blNext c + 1, blServer := Some (blNext c, \<lparr>gvServices = [], gvCallbacks = None, gvConnected = 0\<rparr>)\<rparr>"
    have "heap_inv c"
      using c(2) by (simp add: ble_inv_def)
    then have "heap_inv d"
      unfolding heap_inv_def d_def by (auto intro: less_SucI)
    then have "ble_inv d" "all_owned b \<longrightarrow> all_owned d"
      using c(4) by (auto simp: ble_inv_def server_inv_def d_def all_owned_def)
    then show ?thesis
      using BServer c(1) by (auto simp: createServer_def d_def)
  next
    case BDeinit
    from deleted_step [OF assms] obtain c where c: "delete_server b = Some c" "ble_inv c" "blServer c = None"
      "all_owned b \<longrightarrow> blServices c = Map.empty \<and> blChars c = Map.empty"
      by blast
    define d where "d = c\<lparr>blInited := False, blName := []\<rparr>"
    have "ble_inv d"
      using same_owners(1) [of d c] c(2) by (simp add: d_def)
    moreover have "all_owned b \<longrightarrow> all_owned d"
      using c(3,4) by (simp add: all_owned_def d_def)
    ultimately show ?thesis
      using BDeinit c(1) by (auto simp: ble_deinit_def d_def)
  next
    case (BService uuid srv)
    show ?thesis
    proof (cases "server_alive srv b")
      case True
      then obtain sv where sv: "blServer b = Some (srv, sv)"
        by (auto simp: server_alive_def split: option.splits)
      show ?thesis
        using createService_step [OF assms sv, of uuid] BService True sv by auto
    next
      case False
      then show ?thesis
        using BService by (auto simp: createService_def server_alive_def split: option.splits)
    qed
  next
    case (BChar uuid props svc)
    show ?thesis
    proof (cases "blServices b svc")
      case None
      then show ?thesis
        using BChar by (auto simp: createCharacteristic_def)
    next
      case (Some s)
      then show ?thesis
        using createCharacteristic_step [OF assms Some, of uuid props] BChar by auto
    qed
  next
    case (BStart svc)
    show ?thesis
    proof (cases "blServices b svc")
      case None
      then show ?thesis
        using BStart by (auto simp: service_start_def)
    next
      case (Some s)
      then show ?thesis
        using same_owners [of "b\<lparr>blServices := (blServices b)(svc \<mapsto> s\<lparr>gsStarted := True\<rparr>)\<rparr>" b] assms BStart
        by (auto simp: service_start_def)
    qed
  next
    case (BConnect srv)
    let ?f = "\<lambda>sv. sv\<lparr>gvConnected := gvConnected sv + 1\<rparr>"
    show ?thesis
      using on_server_step(1) [of ?f srv b] on_server_step(2) [of ?f srv b] assms BConnect
      by (auto simp: simulateConnect_def split: option.splits)
  next
    case (BDisconnect srv)
    let ?f = "\<lambda>sv. if gvConnected sv > 0 then sv\<lparr>gvConnected := gvConnected sv - 1\<rparr> else sv"
    have f: "gvServices (?f sv) = gvServices sv" for sv
      by simp
    show ?thesis
      using on_server_step(1) [of ?f srv b] on_server_step(2) [of ?f srv b] assms BDisconnect
      by (auto simp: simulateDisconnect_def split: option.splits)
  next
    case (BWrite v a)
    then show ?thesis
      using on_char_step(1) [of "\<lambda>c. c\<lparr>gcValue := v\<rparr>" a b] on_char_step(2) [of "\<lambda>c. c\<lparr>gcValue := v\<rparr>" a b] assms by (auto simp: gatt_simulateWrite_def split: option.splits)
  next
    case (BValue v a)
    then show ?thesis
      using on_char_step(1) [of "\<lambda>c. c\<lparr>gcValue := v\<rparr>" a b] on_char_step(2) [of "\<lambda>c. c\<lparr>gcValue := v\<rparr>" a b b'] assms by (auto simp: gatt_setValue_def)
  next
    case (BNotify a)
    then show ?thesis
      using on_char_step(1) [of "\<lambda>c. c\<lparr>gcNotify := gcNotify c + 1\<rparr>" a b] on_char_step(2) [of "\<lambda>c. c\<lparr>gcNotify := gcNotify c + 1\<rparr>" a b b'] assms by (auto simp: gatt_notify_def)
  next
    case (BCallbacks cb a)
    then show ?thesis
      using on_char_step(1) [of "\<lambda>c. c\<lparr>gcCallbacks := cb\<rparr>" a b] on_char_step(2) [of "\<lambda>c. c\<lparr>gcCallbacks := cb\<rparr>" a b b'] assms by (auto simp: gatt_setCallbacks_def)
  qed
  then show "ble_step op b = None \<longleftrightarrow> \<not> handle_alive op b"
    "ble_step op b = Some b' \<Longrightarrow> ble_inv b' \<and> (all_owned b \<longrightarrow> uuid_unused op b \<longrightarrow> all_owned b')"
    by blast+
qed

lemma ble_run_inv: "ble_inv b \<Longrightarrow> ble_run ops b = Some c \<Longrightarrow> ble_inv c"
  by (induction ops arbitrary: b) (use ble_step_spec(2) in \<open>auto split: option.splits\<close>)

lemma ble_run_owned:
  "ble_inv b \<Longrightarrow> all_owned b \<Longrightarrow> uuids_unused ops b \<Longrightarrow> ble_run ops b = Some c \<Longrightarrow> all_owned c"
proof (induction ops arbitrary: b)
  case (Cons op ops)
  then obtain d where d: "ble_step op b = Some d"
    by (auto split: option.splits)
  have "ble_inv d" "all_owned d"
    using ble_step_spec(2) [OF Cons.prems(1) d] Cons.prems(2,3) by simp_all
  then show ?case
    using Cons.IH [of d] Cons.prems(3,4) d by simp
qed simp

lemma ble_new_inv: "ble_inv ble_new" "all_owned ble_new"
  by (simp_all add: ble_inv_def heap_inv_def server_inv_def ble_new_def all_owned_def)

section \<open>Properties\<close>

text \<open>
  From the start of the program an operation is defined exactly when the object it is given is still there: whatever was created before,
  under equal UUIDs or not, and however often the server was replaced, deleting never frees an object twice.
\<close>

theorem ble_no_double_free:
  assumes "ble_run ops ble_new = Some b"
  shows "(ble_step op b = None \<longleftrightarrow> \<not> handle_alive op b) \<and> ble_step BServer b \<noteq> None \<and> ble_step BDeinit b \<noteq> None"
  using ble_step_spec(1) [OF ble_run_inv [OF ble_new_inv(1) assms], of op]
    ble_step_spec(1) [OF ble_run_inv [OF ble_new_inv(1) assms], of BServer]
    ble_step_spec(1) [OF ble_run_inv [OF ble_new_inv(1) assms], of BDeinit] by (simp del: ble_step.simps)

text \<open>
  C26: When every UUID is used once below its owner nothing is left after the device is shut down: every service and every
  characteristic has been freed.
\<close>

theorem ble_all_freed:
  assumes "ble_run ops ble_new = Some b" "uuids_unused ops ble_new"
  shows "\<exists>c. ble_deinit b = Some c \<and> blServices c = Map.empty \<and> blChars c = Map.empty \<and> blServer c = None"
proof -
  have "ble_inv b" "all_owned b"
    using ble_run_inv [OF ble_new_inv(1) assms(1)] ble_run_owned [OF ble_new_inv assms(2,1)] by simp_all
  then show ?thesis
    using deleted_step [of b] by (auto simp: ble_deinit_def)
qed

text \<open>
  A characteristic created under a UUID its service has already is the one found from then on; the earlier one is reachable through its
  pointer only and is still there after the device is shut down.
\<close>

theorem ble_same_uuid_leaks:
  assumes "ble_inv b" "svc \<in> dom (blServices b)"
  shows "\<exists>a1 b1 a2 b2 c. createCharacteristic uuid p1 svc b = Some (a1, b1) \<and> createCharacteristic uuid p2 svc b1 = Some (a2, b2) \<and>
    getCharacteristic uuid svc b1 = Some (Some a1) \<and> getCharacteristic uuid svc b2 = Some (Some a2) \<and> a1 \<noteq> a2 \<and>
    ble_deinit b2 = Some c \<and> a1 \<in> dom (blChars c)"
proof -
  obtain s where s: "blServices b svc = Some s"
    using assms(2) by auto
  obtain a1 b1 where 1: "createCharacteristic uuid p1 svc b = Some (a1, b1)" "ble_inv b1"
    using createCharacteristic_step [OF assms(1) s] by blast
  define s1 where "s1 = s\<lparr>gsChars := AList.update uuid a1 (gsChars s)\<rparr>"
  have b1: "a1 = blNext b" "blServices b1 = (blServices b)(svc \<mapsto> s1)" "a1 \<in> dom (blChars b1)" "blNext b1 = a1 + 1"
    using 1(1) s by (auto simp: createCharacteristic_def s1_def Let_def)
  then have s1: "blServices b1 svc = Some s1"
    by simp
  obtain a2 b2 where 2: "createCharacteristic uuid p2 svc b1 = Some (a2, b2)" "ble_inv b2"
    using createCharacteristic_step [OF 1(2) s1] by blast
  define s2 where "s2 = s\<lparr>gsChars := AList.update uuid a2 (gsChars s)\<rparr>"
  have b2: "a2 = a1 + 1" "blServices b2 = (blServices b)(svc \<mapsto> s2)" "a1 \<in> dom (blChars b2)"
    using 2(1) s1 b1 by (auto simp: createCharacteristic_def s1_def s2_def Let_def)
  have fresh: "a1 \<notin> owned_chars u" if "blServices b k = Some u" for k u
    using assms(1) that unfolding ble_inv_def heap_inv_def b1(1) by blast
  have unowned: "a1 \<notin> owned_chars u" if "blServices b2 k = Some u" for k u
  proof (cases "k = svc")
    case True
    then have "u = s2"
      using that b2(2) by simp
    then show ?thesis
      using update_snd_sub [of uuid a2 "gsChars s"] fresh [OF s] b2(1) by (auto simp: s2_def)
  next
    case False
    then show ?thesis
      using that b2(2) fresh [of k u] by simp
  qed
  obtain c where c: "delete_server b2 = Some c" "blChars c = without (case blServer b2 of None \<Rightarrow> {} | Some (_, sv) \<Rightarrow> snd ` set (gvServices sv)) b2"
    using delete_server_ok [OF 2(2)] by blast
  have "a1 \<in> dom (blChars c)"
    unfolding c(2) using b2(3) unowned by (auto simp: without_def split: if_splits)
  moreover have "ble_deinit b2 = Some (c\<lparr>blInited := False, blName := []\<rparr>)"
    using c(1) by (simp add: ble_deinit_def)
  moreover have "getCharacteristic uuid svc b1 = Some (Some a1)" "getCharacteristic uuid svc b2 = Some (Some a2)"
    using s1 b2(2) by (simp_all add: getCharacteristic_def s1_def s2_def update_conv')
  moreover have "a1 \<noteq> a2"
    using b2(1) by simp
  moreover have "a1 \<in> dom (blChars (c\<lparr>blInited := False, blName := []\<rparr>))"
    using calculation(1) by simp
  ultimately show ?thesis
    using 1(1) 2(1) by blast
qed

text \<open>
  Values. What is stored in a characteristic, by the sketch or by a peer, is read back, a number as its four bytes; the callback of
  a write sees the new value; and every other characteristic keeps its value.
\<close>

theorem gatt_values:
  assumes "a \<in> dom (blChars b)"
  shows "(\<exists>c. gatt_setValue32 v a b = Some c \<and> gatt_getValue a c = Some (word_bytes v) \<and>
      (\<forall>k. k \<noteq> a \<longrightarrow> gatt_getValue k c = gatt_getValue k b)) \<and>
    (\<exists>cb c. gatt_simulateWrite d a b = Some (cb, c) \<and> gatt_getValue a c = Some d \<and> cb = gcCallbacks (the (blChars b a)) \<and>
      (\<forall>k. k \<noteq> a \<longrightarrow> gatt_getValue k c = gatt_getValue k b))"
  using assms by (auto simp: gatt_setValue32_def gatt_simulateWrite_def on_char_def gatt_getValue_def)

text \<open>Demonstration: a server with a service of two characteristics, and the same with one UUID for both.\<close>

definition demo_ble :: "string \<Rightarrow> string \<Rightarrow> ble_op list" where
  "demo_ble u v = [BInit ''dev'', BServer, BService ''svc'' 0, BChar u 2 1, BChar v 2 1, BValue [7] 3, BServer]"

theorem ble_all_freed_witness:
  "\<exists>b c. ble_run (demo_ble ''a'' ''b'') ble_new = Some b \<and> ble_deinit b = Some c \<and> blServices c = Map.empty \<and> blChars c = Map.empty \<and>
    blServer c = None"
proof -
  let ?ops = "demo_ble ''a'' ''b''"
  note evals = demo_ble_def ble_init_def ble_new_def createServer_def delete_server_def createService_def createCharacteristic_def
    gatt_setValue_def on_char_def delete_service_def Let_def
  have "ble_run ?ops ble_new \<noteq> None"
    by (simp add: evals)
  then obtain b where b: "ble_run ?ops ble_new = Some b"
    by blast
  have u: "uuids_unused ?ops ble_new"
    by (simp add: evals)
  show ?thesis
    using ble_all_freed [OF b u] b by blast
qed

theorem ble_no_double_free_witness:
  "ble_run (demo_ble ''a'' ''a'') ble_new \<noteq> None \<and>
    (\<forall>b. ble_run (demo_ble ''a'' ''a'') ble_new = Some b \<longrightarrow> ble_step BDeinit b \<noteq> None \<and> ble_step (BNotify 3) b = None)"
proof -
  let ?ops = "demo_ble ''a'' ''a''"
  note evals = demo_ble_def ble_init_def ble_new_def createServer_def delete_server_def createService_def createCharacteristic_def
    gatt_setValue_def on_char_def delete_service_def Let_def
  have r: "\<exists>b. ble_run ?ops ble_new = Some b \<and> blChars b 3 = None"
    by (simp add: evals)
  then obtain b where b: "ble_run ?ops ble_new = Some b" "blChars b 3 = None"
    by blast
  show ?thesis
    using ble_no_double_free [OF b(1), of "BNotify 3"] b by (simp add: domIff)
qed

end
