(* ===== verification/Board_Config.thy ===== *)
theory Board_Config
  imports Prelude
begin

text \<open>
  The boards of \<open>src/include/esp32emu_board.h\<close> and the command line of \<open>src/src/esp32emu_main.cpp\<close>:
  the table of boards, the names the command line takes, the checks of a pin and of the radio. The drawings
  of the boards are output only. The sketch (\<open>setup\<close>, \<open>loop\<close>) is not part of the repository's program;
  what is modelled of \<open>main\<close> is everything up to it.
\<close>

section \<open>The table\<close>

text \<open>The enumeration, and one row for each board.\<close>

datatype board_type =
    ESP32 | ESP32_S3 | ESP32_C3 | ESP32_S2 | ESP32_C6 | ESP32_H2 | ARDUINO_UNO | ARDUINO_MEGA | ARDUINO_NANO
    | RP2040 | TEENSY40 | STM32_BLUEPILL | ESP32_C2 | ESP32_P4 | ESP32_C5 | XIAO_ESP32S3 | FEATHER_ESP32S3
    | M5STACK_CORE2 | LILYGO_TDISPLAY_S3 | QTPY_ESP32S2 | THINGPLUS_ESP32S3 | MATRIXPORTAL_S3 | XIAO_ESP32C3
    | FEATHER_ESP32S2 | OLIMEX_ESP32_POE | WAVESHARE_ESP32S3_ZERO | FEATHER_ESP32C6 | M5ATOM_LITE
    | FIREBEETLE_ESP32 | LOLIN_S3 | M5STICKC_PLUS | TTGO_TDISPLAY | SEEED_XIAO_ESP32C6 | QTPY_ESP32C3
    | TINYPICO | ESP32_DEVKIT_V1 | UM_TINYS3 | SPARKFUN_THINGPLUS_C | ESP32S3_DEVKITC_1 | UM_FEATHERS3
    | FEATHER_ESP32S3_TFT | M5STAMP_S3 | LILYGO_T_BEAM | HELTEC_WIFI_LORA_32_V3 | ESP32S3_BOX_3
    | ESP32C3_SUPERMINI | LOLIN_D32_PRO

record board_config =
  bcType :: board_type
  bcName :: string
  bcChip :: string
  bcDigital :: int
  bcAnalog :: int
  bcRam :: int
  bcFlash :: int
  bcFreq :: int
  bcWifi :: bool
  bcBluetooth :: bool
  bcLed :: int

definition board_row ::
  "board_type \<Rightarrow> string \<Rightarrow> string \<Rightarrow> int \<Rightarrow> int \<Rightarrow> int \<Rightarrow> int \<Rightarrow> int \<Rightarrow> bool \<Rightarrow> bool \<Rightarrow> int \<Rightarrow> board_config" where
  "board_row t name chip digital analog ram flash freq wifi bt led =
    \<lparr>bcType = t, bcName = name, bcChip = chip, bcDigital = digital, bcAnalog = analog, bcRam = ram, bcFlash = flash,
     bcFreq = freq, bcWifi = wifi, bcBluetooth = bt, bcLed = led\<rparr>"

definition configs :: "board_config list" where
  "configs =
   [board_row ESP32 ''ESP32'' ''ESP32'' 40 8 327680 4194304 240 True True 2,
    board_row ESP32_S3 ''ESP32-S3'' ''ESP32-S3'' 48 10 524288 8388608 240 True True 2,
    board_row ESP32_C3 ''ESP32-C3'' ''ESP32-C3'' 22 6 409600 4194304 160 True False 8,
    board_row ESP32_S2 ''ESP32-S2'' ''ESP32-S2'' 46 10 327680 4194304 240 True False 2,
    board_row ESP32_C6 ''ESP32-C6'' ''ESP32-C6'' 31 7 524288 4194304 160 True True 8,
    board_row ESP32_H2 ''ESP32-H2'' ''ESP32-H2'' 22 5 327680 4194304 96 False True 8,
    board_row ARDUINO_UNO ''Arduino Uno'' ''ATmega328P'' 14 6 2048 32768 16 False False 13,
    board_row ARDUINO_MEGA ''Arduino Mega'' ''ATmega2560'' 54 16 8192 262144 16 False False 13,
    board_row ARDUINO_NANO ''Arduino Nano'' ''ATmega328P'' 14 8 2048 32768 16 False False 13,
    board_row RP2040 ''RP2040 Pico'' ''RP2040'' 30 4 264000 2097152 133 False False 25,
    board_row TEENSY40 ''Teensy 4.0'' ''IMXRT1062'' 40 14 1048576 2097152 600 False False 13,
    board_row STM32_BLUEPILL ''STM32 Blue Pill'' ''STM32F103C8'' 37 10 20480 65536 72 False False 13,
    board_row ESP32_C2 ''ESP32-C2'' ''ESP32-C2'' 20 5 272384 4194304 120 True True 8,
    board_row ESP32_P4 ''ESP32-P4'' ''ESP32-P4'' 55 12 786432 16777216 400 True True 2,
    board_row ESP32_C5 ''ESP32-C5'' ''ESP32-C5'' 29 6 524288 4194304 240 True True 8,
    board_row XIAO_ESP32S3 ''XIAO ESP32-S3'' ''ESP32-S3'' 11 9 524288 8388608 240 True True 21,
    board_row FEATHER_ESP32S3 ''Feather ESP32-S3'' ''ESP32-S3'' 21 6 524288 8388608 240 True True 13,
    board_row M5STACK_CORE2 ''M5Stack Core2'' ''ESP32-D0WDQ6'' 40 8 524288 16777216 240 True True (- 1),
    board_row LILYGO_TDISPLAY_S3 ''LilyGO T-Display S3'' ''ESP32-S3'' 46 10 524288 16777216 240 True True (- 1),
    board_row QTPY_ESP32S2 ''QT Py ESP32-S2'' ''ESP32-S2'' 19 4 327680 4194304 240 True False 39,
    board_row THINGPLUS_ESP32S3 ''Thing Plus ESP32-S3'' ''ESP32-S3'' 21 6 524288 16777216 240 True True 13,
    board_row MATRIXPORTAL_S3 ''MatrixPortal S3'' ''ESP32-S3'' 21 6 524288 8388608 240 True True 13,
    board_row XIAO_ESP32C3 ''XIAO ESP32-C3'' ''ESP32-C3'' 11 4 409600 4194304 160 True False 10,
    board_row FEATHER_ESP32S2 ''Feather ESP32-S2'' ''ESP32-S2'' 21 6 327680 4194304 240 True False 13,
    board_row OLIMEX_ESP32_POE ''Olimex ESP32-PoE'' ''ESP32-D0WDQ6'' 40 8 524288 4194304 240 True True (- 1),
    board_row WAVESHARE_ESP32S3_ZERO ''Waveshare ESP32-S3-Zero'' ''ESP32-S3'' 18 7 524288 16777216 240 True True (- 1),
    board_row FEATHER_ESP32C6 ''Feather ESP32-C6'' ''ESP32-C6'' 22 6 524288 8388608 160 True True 13,
    board_row M5ATOM_LITE ''M5Atom Lite'' ''ESP32-PICO-D4'' 26 8 524288 4194304 240 True True (- 1),
    board_row FIREBEETLE_ESP32 ''FireBeetle ESP32'' ''ESP32-WROOM-32E'' 28 8 524288 16777216 240 True True 2,
    board_row LOLIN_S3 ''LOLIN S3'' ''ESP32-S3'' 46 10 524288 16777216 240 True True (- 1),
    board_row M5STICKC_PLUS ''M5StickC Plus'' ''ESP32-PICO-D4'' 26 8 524288 4194304 240 True True 10,
    board_row TTGO_TDISPLAY ''TTGO T-Display'' ''ESP32-D0WDQ6'' 40 8 524288 4194304 240 True True (- 1),
    board_row SEEED_XIAO_ESP32C6 ''XIAO ESP32-C6'' ''ESP32-C6'' 22 6 524288 4194304 160 True True 15,
    board_row QTPY_ESP32C3 ''QT Py ESP32-C3'' ''ESP32-C3'' 11 4 409600 4194304 160 True False (- 1),
    board_row TINYPICO ''TinyPICO'' ''ESP32-PICO-D4'' 22 8 524288 4194304 240 True True 18,
    board_row ESP32_DEVKIT_V1 ''ESP32 DevKit V1'' ''ESP32-WROOM-32'' 38 8 327680 4194304 240 True True 2,
    board_row UM_TINYS3 ''TinyS3'' ''ESP32-S3'' 22 8 524288 8388608 240 True True 18,
    board_row SPARKFUN_THINGPLUS_C ''SparkFun Thing Plus C'' ''ESP32-WROOM-32E'' 28 8 524288 16777216 240 True True 13,
    board_row ESP32S3_DEVKITC_1 ''ESP32-S3-DevKitC-1'' ''ESP32-S3-WROOM-1'' 48 10 524288 16777216 240 True True 48,
    board_row UM_FEATHERS3 ''UM FeatherS3'' ''ESP32-S3'' 21 6 524288 8388608 240 True True 13,
    board_row FEATHER_ESP32S3_TFT ''Feather ESP32-S3 TFT'' ''ESP32-S3'' 21 6 524288 4194304 240 True True 13,
    board_row M5STAMP_S3 ''M5Stamp S3'' ''ESP32-S3'' 10 4 524288 8388608 240 True True 21,
    board_row LILYGO_T_BEAM ''LilyGO T-Beam'' ''ESP32-D0WDQ6'' 40 8 524288 4194304 240 True True (- 1),
    board_row HELTEC_WIFI_LORA_32_V3 ''Heltec WiFi LoRa 32 V3'' ''ESP32-S3FN8'' 36 8 524288 8388608 240 True True 35,
    board_row ESP32S3_BOX_3 ''ESP32-S3-BOX-3'' ''ESP32-S3'' 46 6 524288 16777216 240 True True 47,
    board_row ESP32C3_SUPERMINI ''ESP32-C3 SuperMini'' ''ESP32-C3'' 22 6 409600 4194304 160 True False 8,
    board_row LOLIN_D32_PRO ''LOLIN D32 Pro'' ''ESP32'' 40 18 520000 16777216 240 True True 2]"

definition board_types :: "board_type list" where
  "board_types =
    [ESP32, ESP32_S3, ESP32_C3, ESP32_S2, ESP32_C6, ESP32_H2, ARDUINO_UNO, ARDUINO_MEGA, ARDUINO_NANO,
     RP2040, TEENSY40, STM32_BLUEPILL, ESP32_C2, ESP32_P4, ESP32_C5, XIAO_ESP32S3, FEATHER_ESP32S3,
     M5STACK_CORE2, LILYGO_TDISPLAY_S3, QTPY_ESP32S2, THINGPLUS_ESP32S3, MATRIXPORTAL_S3, XIAO_ESP32C3,
     FEATHER_ESP32S2, OLIMEX_ESP32_POE, WAVESHARE_ESP32S3_ZERO, FEATHER_ESP32C6, M5ATOM_LITE,
     FIREBEETLE_ESP32, LOLIN_S3, M5STICKC_PLUS, TTGO_TDISPLAY, SEEED_XIAO_ESP32C6, QTPY_ESP32C3, TINYPICO,
     ESP32_DEVKIT_V1, UM_TINYS3, SPARKFUN_THINGPLUS_C, ESP32S3_DEVKITC_1, UM_FEATHERS3, FEATHER_ESP32S3_TFT,
     M5STAMP_S3, LILYGO_T_BEAM, HELTEC_WIFI_LORA_32_V3, ESP32S3_BOX_3, ESP32C3_SUPERMINI, LOLIN_D32_PRO]"

definition board_names :: "(string list \<times> board_type) list" where
  "board_names =
   [([''uno''], ARDUINO_UNO),
    ([''mega''], ARDUINO_MEGA),
    ([''nano''], ARDUINO_NANO),
    ([''esp32s3'', ''esp32-s3''], ESP32_S3),
    ([''esp32c3'', ''esp32-c3''], ESP32_C3),
    ([''esp32s2'', ''esp32-s2''], ESP32_S2),
    ([''esp32c6'', ''esp32-c6''], ESP32_C6),
    ([''esp32h2'', ''esp32-h2''], ESP32_H2),
    ([''pico'', ''rp2040''], RP2040),
    ([''teensy'', ''teensy40'', ''teensy4.0''], TEENSY40),
    ([''bluepill'', ''stm32'', ''stm32f103''], STM32_BLUEPILL),
    ([''esp32c2'', ''esp32-c2''], ESP32_C2),
    ([''esp32p4'', ''esp32-p4''], ESP32_P4),
    ([''esp32c5'', ''esp32-c5''], ESP32_C5),
    ([''xiao'', ''xiao-s3'', ''xiao-esp32s3''], XIAO_ESP32S3),
    ([''m5core2'', ''m5stack-core2'', ''m5stack''], M5STACK_CORE2),
    ([''tdisplay-s3'', ''lilygo-tdisplay'', ''t-display-s3''], LILYGO_TDISPLAY_S3),
    ([''qtpy'', ''qtpy-s2'', ''qtpy-esp32s2''], QTPY_ESP32S2),
    ([''thingplus'', ''thingplus-s3'', ''sparkfun-thingplus''], THINGPLUS_ESP32S3),
    ([''matrixportal'', ''matrixportal-s3''], MATRIXPORTAL_S3),
    ([''xiao-c3'', ''xiao-esp32c3''], XIAO_ESP32C3),
    ([''feather-s2'', ''feather-esp32s2''], FEATHER_ESP32S2),
    ([''olimex-poe'', ''esp32-poe'', ''olimex-esp32-poe''], OLIMEX_ESP32_POE),
    ([''waveshare-s3-zero'', ''esp32-s3-zero'', ''waveshare-esp32-s3-zero''], WAVESHARE_ESP32S3_ZERO),
    ([''feather-c6'', ''feather-esp32c6'', ''feather-esp32-c6''], FEATHER_ESP32C6),
    ([''m5atom'', ''m5atom-lite'', ''m5atomlite''], M5ATOM_LITE),
    ([''firebeetle'', ''firebeetle-esp32'', ''dfrobot-firebeetle''], FIREBEETLE_ESP32),
    ([''lolin-s3'', ''wemos-s3'', ''lolin-s3-esp32''], LOLIN_S3),
    ([''m5stickc-plus'', ''m5stickc'', ''m5stick''], M5STICKC_PLUS),
    ([''ttgo-tdisplay'', ''t-display'', ''tdisplay''], TTGO_TDISPLAY),
    ([''xiao-c6'', ''xiao-esp32c6'', ''xiao-esp32-c6''], SEEED_XIAO_ESP32C6),
    ([''qtpy-c3'', ''qtpy-esp32c3'', ''qtpy-esp32-c3''], QTPY_ESP32C3),
    ([''tinypico'', ''tiny-pico''], TINYPICO),
    ([''devkit'', ''devkit-v1'', ''esp32-devkit'', ''esp32-devkit-v1''], ESP32_DEVKIT_V1),
    ([''tinys3'', ''um-tinys3'', ''tiny-s3''], UM_TINYS3),
    ([''thingplus-c'', ''sparkfun-thingplus-c'', ''thing-plus-c''], SPARKFUN_THINGPLUS_C),
    ([''devkitc-1'', ''esp32s3-devkitc-1'', ''esp32-s3-devkitc'', ''devkitc1''], ESP32S3_DEVKITC_1),
    ([''feathers3'', ''um-feathers3'', ''feather-s3-um''], UM_FEATHERS3),
    ([''feather-esp32s3-tft'', ''feather-s3-tft''], FEATHER_ESP32S3_TFT),
    ([''m5stamp'', ''m5stamp-s3'', ''m5stamps3''], M5STAMP_S3),
    ([''t-beam'', ''tbeam'', ''lilygo-tbeam'', ''lilygo-t-beam''], LILYGO_T_BEAM),
    ([''heltec-lora'', ''heltec-lora-v3'', ''heltec-wifi-lora-32-v3'', ''wifi-lora-32-v3''], HELTEC_WIFI_LORA_32_V3),
    ([''esp32-s3-box-3'', ''s3-box-3'', ''box3'', ''esp32s3box3''], ESP32S3_BOX_3),
    ([''esp32-c3-supermini'', ''c3-supermini'', ''supermini'', ''esp32c3supermini''], ESP32C3_SUPERMINI),
    ([''lolin-d32-pro'', ''d32pro'', ''lolind32pro'', ''lolin-d32''], LOLIN_D32_PRO)]"

text \<open>The position of a board in its enumeration, which \<open>static_cast<int>\<close> gives, selects the row.\<close>

definition board_index :: "board_type \<Rightarrow> nat" where
  "board_index t = length (takeWhile (\<lambda>b. b \<noteq> t) board_types)"

definition getBoardConfig :: "board_type \<Rightarrow> board_config" where
  "getBoardConfig t = configs ! board_index t"

definition parseBoardName :: "string \<Rightarrow> board_type" where
  "parseBoardName name =
    (case find (\<lambda>(ns, _). name \<in> set ns) board_names of Some (_, b) \<Rightarrow> b | None \<Rightarrow> ESP32)"

section \<open>The selected board\<close>

text \<open>The board is selected before it is used; the selected row stands for the pointer to it.\<close>

definition A0_base :: "board_config \<Rightarrow> int" where
  "A0_base c =
    (case bcType c of
      ARDUINO_UNO \<Rightarrow> 14
    | ARDUINO_NANO \<Rightarrow> 14
    | ARDUINO_MEGA \<Rightarrow> 54
    | RP2040 \<Rightarrow> 26
    | TEENSY40 \<Rightarrow> 14
    | STM32_BLUEPILL \<Rightarrow> 15
    | _ \<Rightarrow> 36)"

definition validatePin :: "board_config \<Rightarrow> byte \<Rightarrow> bool" where
  "validatePin c pin \<longleftrightarrow> (if uint pin \<ge> bcDigital c \<and> uint pin < A0_base c then False else True)"

definition checkWiFi :: "board_config \<Rightarrow> bool" where
  "checkWiFi c \<longleftrightarrow> (if \<not> bcWifi c then False else True)"

section \<open>The command line\<close>

text \<open>The names \<open>--list-boards\<close> prints, each beside the board of its number.\<close>

definition listed_names :: "string list" where
  "listed_names =
    [''esp32'', ''esp32-s3'', ''esp32-c3'', ''esp32-s2'', ''esp32-c6'', ''esp32-h2'', ''uno'', ''mega'', ''nano'',
     ''pico'', ''teensy'', ''bluepill'', ''esp32-c2'', ''esp32-p4'', ''esp32-c5'', ''xiao-s3'', ''feather-s3'',
     ''m5core2'', ''tdisplay-s3'', ''qtpy-s2'', ''thingplus-s3'', ''matrixportal-s3'']"

definition list_boards :: "(string \<times> board_config) list" where
  "list_boards = map (\<lambda>j. (listed_names ! j, configs ! j)) [0..<22]"

text \<open>The arguments behind the program's name: the board to run, or one of the two texts and the end.\<close>

datatype cli = Run board_type | List_Boards | Help

fun parse_args :: "board_type \<Rightarrow> string list \<Rightarrow> cli" where
  "parse_args board [] = Run board"
| "parse_args board (a # as) =
    (if (a = ''--board'' \<or> a = ''-b'') \<and> as \<noteq> [] then parse_args (parseBoardName (hd as)) (tl as)
     else if a = ''--list-boards'' then List_Boards
     else if a = ''--help'' \<or> a = ''-h'' then Help
     else parse_args board as)"

text \<open>What \<open>main\<close> has set up when the sketch starts: the row, and whether Wi-Fi calls are refused.\<close>

definition main_start :: "string list \<Rightarrow> (board_config \<times> bool) option" where
  "main_start args =
    (case parse_args ESP32 args of Run b \<Rightarrow> let c = getBoardConfig b in Some (c, \<not> bcWifi c) | _ \<Rightarrow> None)"

section \<open>Properties\<close>

lemma board_types_all: "t \<in> set board_types"
  by (cases t) (simp_all add: board_types_def)

text \<open>The names are different, so the order of their lines does not matter.\<close>

lemma board_names_distinct: "distinct (concat (map fst board_names))"
  by code_simp

lemma find_names:
  "distinct (concat (map fst xs)) \<Longrightarrow> (ns, b) \<in> set xs \<Longrightarrow> n \<in> set ns \<Longrightarrow>
    find (\<lambda>(ns, _). n \<in> set ns) xs = Some (ns, b)"
  by (induction xs) fastforce+

lemma parse_listed: "(ns, b) \<in> set board_names \<Longrightarrow> n \<in> set ns \<Longrightarrow> parseBoardName n = b"
  using find_names [OF board_names_distinct] by (simp add: parseBoardName_def)

lemma parse_unlisted: "n \<notin> \<Union> (set ` fst ` set board_names) \<Longrightarrow> parseBoardName n = ESP32"
proof -
  assume "n \<notin> \<Union> (set ` fst ` set board_names)"
  then have "find (\<lambda>(ns, _). n \<in> set ns) board_names = None"
    by (fastforce simp: find_None_iff)
  then show ?thesis
    by (simp add: parseBoardName_def)
qed

lemma parse_values: "parseBoardName n \<in> insert ESP32 (snd ` set board_names)"
proof (cases "find (\<lambda>(ns, _). n \<in> set ns) board_names")
  case None
  then show ?thesis
    by (simp add: parseBoardName_def)
next
  case (Some p)
  then have "p \<in> set board_names"
    by (metis find_Some_iff nth_mem)
  then show ?thesis
    using Some by (auto simp: parseBoardName_def split: prod.split intro: rev_image_eqI)
qed

text \<open>The row of a board is one of the table.\<close>

lemma table_types: "map bcType configs = board_types"
  by (simp add: configs_def board_types_def board_row_def)

lemma board_index_less: "board_index t < length configs"
proof -
  obtain pre post where s: "board_types = pre @ t # post" "t \<notin> set pre"
    using split_list_first [OF board_types_all] by blast
  then have "takeWhile (\<lambda>b. b \<noteq> t) board_types = pre"
    unfolding s(1) by (subst takeWhile_append2) auto
  then have "board_index t < length board_types"
    unfolding board_index_def by (simp add: s(1))
  then show ?thesis
    unfolding table_types [symmetric] by simp
qed

lemma board_row_type: "bcType (getBoardConfig t) = t"
proof -
  have "board_types ! board_index t = t"
    using nth_length_takeWhile [of "\<lambda>b. b \<noteq> t" board_types] board_index_less [of t]
    unfolding board_index_def table_types [symmetric] length_map by simp
  then show ?thesis
    unfolding getBoardConfig_def table_types [symmetric] using board_index_less [of t] by simp
qed

lemma board_row_in: "getBoardConfig t \<in> set configs"
  unfolding getBoardConfig_def using board_index_less by simp

lemma parse_args_skip:
  "list_all (\<lambda>a. a \<notin> {''--board'', ''-b'', ''--list-boards'', ''--help'', ''-h''}) as \<Longrightarrow>
    parse_args b (as @ rest) = parse_args b rest"
  by (induction as) auto

text \<open>
  The table. The row selected for a board is the row of that board: the rows stand in the order of the
  enumeration, and none is missing.
\<close>

theorem board_table_order:
  "bcType (getBoardConfig t) = t \<and> board_index t < length configs"
  using board_row_type board_index_less by blast

text \<open>
  The names. Every name of the table of names selects the board of its line, whatever precedes it; any
  other name selects the ESP32. All boards but one can be selected: no name selects the Feather ESP32-S3.
\<close>

theorem board_names_reach:
  "(\<forall>(ns, b) \<in> set board_names. \<forall>n \<in> set ns. parseBoardName n = b) \<and>
   (\<forall>n. n \<notin> \<Union> (set ` fst ` set board_names) \<longrightarrow> parseBoardName n = ESP32) \<and>
   range parseBoardName = UNIV - {FEATHER_ESP32S3}"
proof (intro conjI)
  show "\<forall>(ns, b) \<in> set board_names. \<forall>n \<in> set ns. parseBoardName n = b"
    using parse_listed by fast
  show "\<forall>n. n \<notin> \<Union> (set ` fst ` set board_names) \<longrightarrow> parseBoardName n = ESP32"
    using parse_unlisted by blast
  have types: "set board_types \<subseteq> {ESP32, FEATHER_ESP32S3} \<union> snd ` set board_names" "FEATHER_ESP32S3 \<notin> snd ` set board_names"
    by (simp_all add: board_types_def board_names_def)
  have some: "\<exists>ns. (ns, b) \<in> set board_names \<and> ns \<noteq> []" if "b \<in> snd ` set board_names" for b
  proof -
    have "list_all (\<lambda>(ns, _). ns \<noteq> []) board_names"
      by (simp add: board_names_def)
    with that show ?thesis
      by (force simp: list_all_iff)
  qed
  show "range parseBoardName = UNIV - {FEATHER_ESP32S3}"
  proof
    show "range parseBoardName \<subseteq> UNIV - {FEATHER_ESP32S3}"
      using parse_values types(2) by (metis (no_types, lifting) Diff_iff UNIV_I board_type.distinct image_subsetI insertE singletonD)
    show "UNIV - {FEATHER_ESP32S3} \<subseteq> range parseBoardName"
    proof
      fix b
      assume "b \<in> UNIV - {FEATHER_ESP32S3}"
      then consider "b = ESP32" | "b \<in> snd ` set board_names"
        using types(1) board_types_all [of b] by blast
      then show "b \<in> range parseBoardName"
      proof cases
        case 1
        have "parseBoardName [] = ESP32"
          by (rule parse_unlisted) (simp add: board_names_def)
        then show ?thesis
          unfolding 1 by (metis rangeI)
      next
        case 2
        then obtain ns where "(ns, b) \<in> set board_names" "ns \<noteq> []"
          using some by blast
        then have "parseBoardName (hd ns) = b"
          using parse_listed hd_in_set by metis
        then show ?thesis
          by (metis rangeI)
      qed
    qed
  qed
qed

theorem board_names_reach_witness: "parseBoardName ''nano'' = ARDUINO_NANO \<and> parseBoardName ''feather-s3'' = ESP32"
proof -
  have "([''nano''], ARDUINO_NANO) \<in> set board_names" "''feather-s3'' \<notin> \<Union> (set ` fst ` set board_names)"
    by (simp_all add: board_names_def)
  then show ?thesis
    using board_names_reach by fastforce
qed

text \<open>
  The list of boards. Every name printed by \<open>--list-boards\<close> selects the board it is printed beside, except
  \<open>feather-s3\<close>, which selects the ESP32.
\<close>

theorem board_list_names:
  "(n, c) \<in> set list_boards \<Longrightarrow> getBoardConfig (parseBoardName n) = (if n = ''feather-s3'' then getBoardConfig ESP32 else c)"
proof -
  assume "(n, c) \<in> set list_boards"
  moreover have "list_all (\<lambda>(n, c). getBoardConfig (parseBoardName n) = (if n = ''feather-s3'' then getBoardConfig ESP32 else c)) list_boards"
    by code_simp
  ultimately show ?thesis
    by (auto simp: list_all_iff)
qed

theorem board_list_names_witness: "getBoardConfig (parseBoardName ''feather-s3'') = getBoardConfig ESP32"
proof -
  have "(''feather-s3'', configs ! 16) \<in> set list_boards"
    unfolding list_boards_def set_map by (rule image_eqI [of _ _ 16]) (simp_all add: listed_names_def)
  then show ?thesis
    using board_list_names by fastforce
qed

text \<open>
  The LED of a board. With the board's own LED pin \<open>validatePin\<close> warns exactly on two of the boards that
  have one, whose numbers of pins count the connectors; and it accepts any pin from the first analog one on.
\<close>

theorem board_led_pins:
  "(0 \<le> bcLed (getBoardConfig t) \<longrightarrow>
     (validatePin (getBoardConfig t) (word_of_int (bcLed (getBoardConfig t))) \<longleftrightarrow> t \<notin> {XIAO_ESP32S3, M5STAMP_S3})) \<and>
   (A0_base (getBoardConfig t) \<le> uint pin \<longrightarrow> validatePin (getBoardConfig t) pin)"
proof -
  have "list_all (\<lambda>c. 0 \<le> bcLed c \<longrightarrow>
      (validatePin c (word_of_int (bcLed c)) \<longleftrightarrow> bcType c \<notin> {XIAO_ESP32S3, M5STAMP_S3})) configs"
    by code_simp
  then have "0 \<le> bcLed (getBoardConfig t) \<longrightarrow>
      (validatePin (getBoardConfig t) (word_of_int (bcLed (getBoardConfig t))) \<longleftrightarrow> t \<notin> {XIAO_ESP32S3, M5STAMP_S3})"
    using board_row_in [of t] board_row_type [of t] by (auto simp: list_all_iff)
  then show ?thesis
    by (simp add: validatePin_def)
qed

theorem board_led_pins_witness: "\<not> validatePin (getBoardConfig M5STAMP_S3) 21 \<and> validatePin (getBoardConfig ESP32_C3) 200"
proof -
  have "bcLed (getBoardConfig M5STAMP_S3) = 21" "A0_base (getBoardConfig ESP32_C3) = 36"
    by code_simp+
  then show ?thesis
    using board_led_pins [of M5STAMP_S3 200] board_led_pins [of ESP32_C3 200] by simp
qed

text \<open>
  The command line. Arguments that are no options are skipped, a later board replaces an earlier one, and
  the board of the last \<open>--board\<close> is the one that runs; a \<open>--board\<close> without a name is skipped as well.
\<close>

theorem cli_last_board:
  assumes "list_all (\<lambda>a. a \<notin> {''--board'', ''-b'', ''--list-boards'', ''--help'', ''-h''}) (pre @ post)"
  shows "main_start (pre @ [''--board'', n] @ post @ [''-b'']) =
    Some (getBoardConfig (parseBoardName n), \<not> bcWifi (getBoardConfig (parseBoardName n)))"
proof -
  have "list_all (\<lambda>a. a \<notin> {''--board'', ''-b'', ''--list-boards'', ''--help'', ''-h''}) pre"
    "list_all (\<lambda>a. a \<notin> {''--board'', ''-b'', ''--list-boards'', ''--help'', ''-h''}) post"
    using assms by simp_all
  note skip = this [THEN parse_args_skip]
  have "parse_args ESP32 (pre @ [''--board'', n] @ post @ [''-b'']) = Run (parseBoardName n)"
    unfolding skip(1) using skip(2) by simp
  then show ?thesis
    by (simp add: main_start_def Let_def)
qed

theorem cli_last_board_witness:
  "main_start [''run'', ''--board'', ''uno'', ''-v'', ''-b''] = Some (getBoardConfig ARDUINO_UNO, True)"
proof -
  have "parseBoardName ''uno'' = ARDUINO_UNO" "bcWifi (getBoardConfig ARDUINO_UNO) = False"
    by code_simp+
  then show ?thesis
    using cli_last_board [of "[''run'']" "[''-v'']" "''uno''"] by simp
qed

end
