(* ===== verification/Board_Services.thy ===== *)
theory Board_Services
  imports Interfaces
begin

unbundle bit_operations_syntax

text \<open>
  Services of the system the emulator keeps as one object each: the watchdog (\<open>src/include/esp_task_wdt.h\<close>), sleep
  (\<open>esp_sleep.h\<close>), memory statistics (\<open>esp_heap_caps.h\<close>), chip and restart (\<open>esp_system.h\<close>), fuses (\<open>esp_efuse.h\<close>), the
  camera (\<open>esp_camera.h\<close>) and secured connections (\<open>esp_tls.h\<close>). The lemmas show when the watchdog is fed, where sizes wrap, that
  the fuses are a byte memory with a checked range, which frame the camera gives, and what a connection takes.
\<close>

section \<open>\<open>esp_task_wdt.h\<close>\<close>

record wdt =
  wdInit :: bool
  wdSubscribed :: bool
  wdFed :: bool
  wdTriggered :: bool
  wdFeeds :: int
  wdTimeout :: u32

definition wdt_reset :: wdt where
  "wdt_reset = \<lparr>wdInit = False, wdSubscribed = False, wdFed = False, wdTriggered = False, wdFeeds = 0, wdTimeout = 0\<rparr>"

definition wdt_init :: "u32 \<Rightarrow> wdt \<Rightarrow> esp_err \<times> wdt" where
  "wdt_init ms s = (ESP_OK, s\<lparr>wdTimeout := ms, wdInit := True, wdFed := True, wdTriggered := False, wdFeeds := 0\<rparr>)"

definition wdt_deinit :: "wdt \<Rightarrow> esp_err \<times> wdt" where
  "wdt_deinit s = (ESP_OK, s\<lparr>wdInit := False\<rparr>)"

definition wdt_add :: "wdt \<Rightarrow> esp_err \<times> wdt" where
  "wdt_add s = (let s = s\<lparr>wdSubscribed := True\<rparr> in (if wdInit s then ESP_OK else - 1, s))"

definition wdt_delete :: "wdt \<Rightarrow> esp_err \<times> wdt" where
  "wdt_delete s = (ESP_OK, s\<lparr>wdSubscribed := False\<rparr>)"

definition wdt_feed :: "wdt \<Rightarrow> esp_err \<times> wdt" where
  "wdt_feed s = (if \<not> wdInit s \<or> \<not> wdSubscribed s then (- 1, s) else (ESP_OK, s\<lparr>wdFed := True, wdFeeds := wdFeeds s + 1\<rparr>))"

definition wdt_simulateTimeout :: "wdt \<Rightarrow> wdt" where
  "wdt_simulateTimeout s = s\<lparr>wdTriggered := True, wdFed := False\<rparr>"

datatype wdt_op = WdtInit u32 | WdtDeinit | WdtAdd | WdtDelete | WdtFeed | WdtTimeout

fun wdt_step :: "wdt_op \<Rightarrow> wdt \<Rightarrow> wdt" where
  "wdt_step (WdtInit ms) s = snd (wdt_init ms s)"
| "wdt_step WdtDeinit s = snd (wdt_deinit s)"
| "wdt_step WdtAdd s = snd (wdt_add s)"
| "wdt_step WdtDelete s = snd (wdt_delete s)"
| "wdt_step WdtFeed s = snd (wdt_feed s)"
| "wdt_step WdtTimeout s = wdt_simulateTimeout s"

text \<open>What the history says of the state: whether a watchdog runs, whether the task is in it, how often it was fed.\<close>

fun wdt_runs :: "wdt_op list \<Rightarrow> bool" where
  "wdt_runs [] = False"
| "wdt_runs (op # older) = (case op of WdtInit _ \<Rightarrow> True | WdtDeinit \<Rightarrow> False | _ \<Rightarrow> wdt_runs older)"

fun wdt_in :: "wdt_op list \<Rightarrow> bool" where
  "wdt_in [] = False"
| "wdt_in (op # older) = (case op of WdtAdd \<Rightarrow> True | WdtDelete \<Rightarrow> False | _ \<Rightarrow> wdt_in older)"

fun wdt_count :: "wdt_op list \<Rightarrow> int" where
  "wdt_count [] = 0"
| "wdt_count (op # older) =
    (case op of
       WdtInit _ \<Rightarrow> 0
     | WdtFeed \<Rightarrow> (if wdt_runs older \<and> wdt_in older then wdt_count older + 1 else wdt_count older)
     | _ \<Rightarrow> wdt_count older)"

lemma wdt_history:
  "wdInit (foldr wdt_step ops wdt_reset) = wdt_runs ops \<and> wdSubscribed (foldr wdt_step ops wdt_reset) = wdt_in ops \<and>
   wdFeeds (foldr wdt_step ops wdt_reset) = wdt_count ops"
proof (induction ops)
  case (Cons op ops)
  then show ?case
    by (cases op) (auto simp: wdt_init_def wdt_deinit_def wdt_add_def wdt_delete_def wdt_feed_def wdt_simulateTimeout_def)
qed (simp add: wdt_reset_def)

text \<open>
  Feeding succeeds exactly when a watchdog was set up and not torn down since and the task added and not removed since, in either order: \<open>add\<close>
  without a watchdog reports an error and still adds. The count is that of the successful feeds since the set-up. Feeding does not undo a timeout.
\<close>

theorem watchdog_feeds:
  "let s = foldr wdt_step ops wdt_reset
   in (fst (wdt_feed s) = ESP_OK \<longleftrightarrow> wdt_runs ops \<and> wdt_in ops) \<and> wdFeeds s = wdt_count ops \<and>
      wdTriggered (snd (wdt_feed s)) = wdTriggered s"
  "fst (wdt_add wdt_reset) = - 1 \<and> fst (wdt_feed (snd (wdt_init ms (snd (wdt_add wdt_reset))))) = ESP_OK"
  using wdt_history [of ops] by (simp_all add: Let_def wdt_feed_def wdt_add_def wdt_init_def wdt_reset_def)

section \<open>\<open>esp_sleep.h\<close>\<close>

record sleep_ctl =
  slTimer :: "u64 \<times> bool"
  slExt0 :: "int \<times> int \<times> bool"
  slExt1 :: "u64 \<times> int \<times> bool"
  slDeep :: "bool \<times> int"
  slLight :: "bool \<times> int"
  slCause :: int
  slCallback :: bool

definition sleep_reset :: sleep_ctl where
  "sleep_reset =
    \<lparr>slTimer = (0, False), slExt0 = (- 1, 0, False), slExt1 = (0, 0, False), slDeep = (False, 0), slLight = (False, 0), slCause = 0,
     slCallback = False\<rparr>"

definition enableTimerWakeup :: "u64 \<Rightarrow> sleep_ctl \<Rightarrow> sleep_ctl" where
  "enableTimerWakeup us s = s\<lparr>slTimer := (us, True)\<rparr>"

definition enableExt0Wakeup :: "int \<Rightarrow> int \<Rightarrow> sleep_ctl \<Rightarrow> sleep_ctl" where
  "enableExt0Wakeup pin level s = s\<lparr>slExt0 := (pin, level, True)\<rparr>"

definition enableExt1Wakeup :: "u64 \<Rightarrow> int \<Rightarrow> sleep_ctl \<Rightarrow> sleep_ctl" where
  "enableExt1Wakeup pins mode s = s\<lparr>slExt1 := (pins, mode, True)\<rparr>"

text \<open>Whether the callback is called.\<close>

definition startDeepSleep :: "sleep_ctl \<Rightarrow> bool \<times> sleep_ctl" where
  "startDeepSleep s = (let s = s\<lparr>slDeep := (True, snd (slDeep s) + 1)\<rparr> in (slCallback s, s))"

definition startLightSleep :: "sleep_ctl \<Rightarrow> bool \<times> sleep_ctl" where
  "startLightSleep s = (let s = s\<lparr>slLight := (True, snd (slLight s) + 1)\<rparr> in (slCallback s, s))"

definition setWakeupCause :: "int \<Rightarrow> sleep_ctl \<Rightarrow> sleep_ctl" where
  "setWakeupCause c s = s\<lparr>slCause := c\<rparr>"

definition onSleep :: "bool \<Rightarrow> sleep_ctl \<Rightarrow> sleep_ctl" where
  "onSleep b s = s\<lparr>slCallback := b\<rparr>"

text \<open>A deep sleep returns; no source of a wake-up is its cause.\<close>

theorem sleep_counts:
  "let t = ((snd \<circ> startDeepSleep) ^^ n) s
   in snd (slDeep t) = snd (slDeep s) + int n \<and> (fst (slDeep t) \<longleftrightarrow> fst (slDeep s) \<or> n > 0) \<and> slLight t = slLight s \<and> slCause t = slCause s"
  "slCause (snd (startDeepSleep (enableTimerWakeup us sleep_reset))) = 0"
  by (induction n) (auto simp: startDeepSleep_def Let_def enableTimerWakeup_def sleep_reset_def)

section \<open>\<open>esp_heap_caps.h\<close>\<close>

record heap_stats =
  hsAllocated :: u64
  hsFree :: u64
  hsSpiram :: u64

definition heap_new :: heap_stats where
  "heap_new = \<lparr>hsAllocated = 0, hsFree = 320 * 1024, hsSpiram = 4 * 1024 * 1024\<rparr>"

text \<open>\<open>got\<close> is whether the host's \<open>malloc\<close> gave the memory; \<open>realloc\<close> and \<open>free\<close> go to the host and change nothing here.\<close>

definition heap_caps_malloc :: "bool \<Rightarrow> u64 \<Rightarrow> heap_stats \<Rightarrow> u64 option \<times> heap_stats" where
  "heap_caps_malloc got n s = (if got then (Some n, s\<lparr>hsAllocated := hsAllocated s + n\<rparr>) else (None, s))"

definition heap_caps_calloc :: "bool \<Rightarrow> u64 \<Rightarrow> u64 \<Rightarrow> heap_stats \<Rightarrow> u64 option \<times> heap_stats" where
  "heap_caps_calloc got n sz s = heap_caps_malloc got (n * sz) s"

definition heap_get_free_size :: "u32 \<Rightarrow> heap_stats \<Rightarrow> u64" where
  "heap_get_free_size caps s = (if caps AND push_bit 10 1 \<noteq> 0 then hsSpiram s else hsFree s)"

definition heap_get_largest_free_block :: "u32 \<Rightarrow> heap_stats \<Rightarrow> u64" where
  "heap_get_largest_free_block caps s = heap_get_free_size caps s div 2"

definition heap_get_minimum_free_size :: "u32 \<Rightarrow> heap_stats \<Rightarrow> u64" where
  "heap_get_minimum_free_size caps s = heap_get_free_size caps s - 10240"

definition heap_get_total_size :: "u32 \<Rightarrow> u64" where
  "heap_get_total_size caps = (if caps AND push_bit 10 1 \<noteq> 0 then 4 * 1024 * 1024 else 512 * 1024)"

definition heap_get_info :: "u32 \<Rightarrow> heap_stats \<Rightarrow> u64 list" where
  "heap_get_info caps s =
    [heap_get_free_size caps s, hsAllocated s, heap_get_largest_free_block caps s, heap_get_minimum_free_size caps s, 10, 5, 15]"

definition setFreeSize :: "u64 \<Rightarrow> u64 \<Rightarrow> heap_stats \<Rightarrow> heap_stats" where
  "setFreeSize internal spiram s = s\<lparr>hsFree := internal, hsSpiram := spiram\<rparr>"

text \<open>
  Memory for \<open>n\<close> elements is what was asked for only if the product fits: else less is allocated and reported as a success. The free size does
  not depend on what was allocated; the minimum is more than the free size when less than 10240 bytes are free.
\<close>

theorem heap_sizes:
  "fst (heap_caps_calloc True n sz s) = Some m \<Longrightarrow>
    unat m = unat n * unat sz mod 2 ^ 64 \<and> (unat m = unat n * unat sz \<longleftrightarrow> unat n * unat sz < 2 ^ 64)"
  "heap_get_free_size caps (snd (heap_caps_malloc got n s)) = heap_get_free_size caps s"
  "heap_get_minimum_free_size caps s \<le> heap_get_free_size caps s \<longleftrightarrow> 10240 \<le> heap_get_free_size caps s"
proof -
  show "unat m = unat n * unat sz mod 2 ^ 64 \<and> (unat m = unat n * unat sz \<longleftrightarrow> unat n * unat sz < 2 ^ 64)"
    if "fst (heap_caps_calloc True n sz s) = Some m"
  proof -
    have m: "unat m = unat n * unat sz mod 2 ^ 64"
      using that by (auto simp: heap_caps_calloc_def heap_caps_malloc_def unat_word_ariths)
    moreover have "unat n * unat sz mod 2 ^ 64 = unat n * unat sz \<longleftrightarrow> unat n * unat sz < 2 ^ 64"
      using mod_less_divisor [of "2 ^ 64" "unat n * unat sz"] by (metis mod_less zero_less_numeral zero_less_power)
    ultimately show ?thesis
      by simp
  qed
  show "heap_get_free_size caps (snd (heap_caps_malloc got n s)) = heap_get_free_size caps s"
    by (simp add: heap_get_free_size_def heap_caps_malloc_def)
  show "heap_get_minimum_free_size caps s \<le> heap_get_free_size caps s \<longleftrightarrow> 10240 \<le> heap_get_free_size caps s"
    using word_sub_le_iff [of "heap_get_free_size caps s" 10240] by (simp add: heap_get_minimum_free_size_def)
qed

section \<open>\<open>esp_system.h\<close>\<close>

record chip_info =
  ciModel :: int
  ciFeatures :: u32
  ciRevision :: u16
  ciCores :: byte

record system =
  syReason :: int
  syChip :: chip_info
  syFree :: u32
  syMinFree :: u32
  syRestarted :: bool

definition system_reset :: system where
  "system_reset =
    \<lparr>syReason = 1, syChip = \<lparr>ciModel = 1, ciFeatures = push_bit 1 1 OR push_bit 4 1 OR push_bit 5 1, ciRevision = 300, ciCores = 2\<rparr>,
     syFree = 256000, syMinFree = 200000, syRestarted = False\<rparr>"

definition system_restart :: "system \<Rightarrow> system" where
  "system_restart s = s\<lparr>syRestarted := True\<rparr>"

definition system_chip_info :: "bool \<Rightarrow> system \<Rightarrow> chip_info option" where
  "system_chip_info room s = (if room then Some (syChip s) else None)"

text \<open>Random numbers of the C library are an argument, one for each byte.\<close>

definition system_fill_random :: "nat list \<Rightarrow> byte list" where
  "system_fill_random rs = map (\<lambda>r. of_nat r AND 0xFF) rs"

text \<open>A restart returns to its caller and leaves the reason of the last reset as it was.\<close>

theorem restart_returns:
  "syRestarted (system_restart s) \<and> syReason (system_restart s) = syReason s \<and> length (system_fill_random rs) = length rs \<and>
   (i < length rs \<longrightarrow> uint (system_fill_random rs ! i) = int (rs ! i mod 256))"
proof -
  have "uint (of_nat r AND 0xFF :: byte) = int (r mod 256)" for r
  proof -
    have "(0xFF :: byte) = - 1"
      by simp
    then have "(of_nat r AND 0xFF :: byte) = of_nat r"
      by (simp only: bit.conj_one_right)
    then show ?thesis
      by (simp add: uint_nat unat_of_nat take_bit_eq_mod)
  qed
  then show ?thesis
    by (simp add: system_restart_def system_fill_random_def)
qed

section \<open>\<open>esp_efuse.h\<close>\<close>

record efuse =
  efRevision :: byte
  efMinor :: byte
  efSize :: u32
  efBlocks :: "byte list list"

definition efuse_reset :: efuse where
  "efuse_reset = \<lparr>efRevision = 3, efMinor = 0, efSize = 4, efBlocks = replicate 4 (replicate 32 0)\<rparr>"

definition efuse_len :: "u64 \<Rightarrow> nat" where
  "efuse_len size_bits = unat ((size_bits + 7) div 8)"

text \<open>\<open>room\<close> is whether the caller gave an address; the bytes read are what is written there.\<close>

definition efuse_read_block :: "int \<Rightarrow> bool \<Rightarrow> u64 \<Rightarrow> u64 \<Rightarrow> efuse \<Rightarrow> esp_err \<times> byte list" where
  "efuse_read_block blk room offset_bits size_bits s =
    (if \<not> room \<or> blk < 0 \<or> blk > 3 then (ESP_FAIL, [])
     else let byte_off = unat (offset_bits div 8); byte_len = efuse_len size_bits
       in if byte_off + byte_len > 32 then (ESP_FAIL, []) else (ESP_OK, chunk (efBlocks s ! nat blk) byte_off byte_len))"

text \<open>The source is the caller's memory from its address on; \<open>None\<close> stands for a read behind it.\<close>

definition efuse_write_block :: "int \<Rightarrow> byte list option \<Rightarrow> u64 \<Rightarrow> u64 \<Rightarrow> efuse \<Rightarrow> (esp_err \<times> efuse) option" where
  "efuse_write_block blk src offset_bits size_bits s =
    (case src of
       None \<Rightarrow> Some (ESP_FAIL, s)
     | Some d \<Rightarrow>
         if blk < 0 \<or> blk > 3 then Some (ESP_FAIL, s)
         else let byte_off = unat (offset_bits div 8); byte_len = efuse_len size_bits
           in if byte_off + byte_len > 32 then Some (ESP_FAIL, s)
              else if length d < byte_len then None
              else Some (ESP_OK, s\<lparr>efBlocks := (efBlocks s)[nat blk := blit (efBlocks s ! nat blk) byte_off (take byte_len d)]\<rparr>))"

definition efuse_ok :: "efuse \<Rightarrow> bool" where
  "efuse_ok s \<longleftrightarrow> length (efBlocks s) = 4 \<and> (\<forall>b\<in>set (efBlocks s). length b = 32)"

text \<open>
  What was written to a range of bits is read from it, rounded to whole bytes: the bits that share a byte with the range are overwritten, and burnt
  bits are cleared again. The other blocks and the bytes outside are as before; a range outside the 32 bytes of a block is refused, for every
  offset and every size but those that wrap when rounded up, of which nothing is written.
\<close>

theorem efuse_roundtrip:
  assumes "efuse_ok s" "efuse_write_block blk (Some d) off bits s = Some (ESP_OK, t)"
  shows "efuse_ok t" "efuse_read_block blk True off bits t = (ESP_OK, take (efuse_len bits) d)"
    "\<forall>b. 0 \<le> b \<and> b \<noteq> blk \<longrightarrow> efBlocks t ! nat b = efBlocks s ! nat b"
    "efuse_len 0xFFFFFFFFFFFFFFFF = 0"
proof -
  define o' where "o' = unat (off div 8)"
  define n where "n = efuse_len bits"
  have r: "0 \<le> blk" "blk \<le> 3" "o' + n \<le> 32" "n \<le> length d"
    and t: "t = s\<lparr>efBlocks := (efBlocks s)[nat blk := blit (efBlocks s ! nat blk) o' (take n d)]\<rparr>"
    using assms(2) by (auto simp: efuse_write_block_def o'_def n_def Let_def split: if_splits)
  have b: "nat blk < 4"
    using r(2) by linarith
  have l: "length (efBlocks s) = 4" "length (efBlocks s ! nat blk) = 32"
    using assms(1) b by (simp_all add: efuse_ok_def)
  have w: "length (blit (efBlocks s ! nat blk) o' (take n d)) = 32"
    using l(2) r(3,4) by simp
  show "efuse_ok t"
    using assms(1) w by (auto simp: efuse_ok_def t dest!: subsetD [OF set_update_subset_insert])
  have "chunk (blit (efBlocks s ! nat blk) o' (take n d)) o' n = take n d"
    using chunk_blit_same [of o' "take n d" "efBlocks s ! nat blk"] l(2) r(3,4) by simp
  then show "efuse_read_block blk True off bits t = (ESP_OK, take (efuse_len bits) d)"
    using r b l(1) by (simp add: efuse_read_block_def t o'_def [symmetric] n_def [symmetric] Let_def)
  show "\<forall>b. 0 \<le> b \<and> b \<noteq> blk \<longrightarrow> efBlocks t ! nat b = efBlocks s ! nat b"
    using r(1) by (auto simp: t nth_list_update nat_eq_iff2)
  show "efuse_len 0xFFFFFFFFFFFFFFFF = 0"
    by (simp add: efuse_len_def)
qed

section \<open>\<open>esp_camera.h\<close>\<close>

datatype pixformat = RGB565 | YUV422 | GRAYSCALE | JPEG | RGB888 | RAW | RGB444 | RGB555

text \<open>A frame as the sketch sees it; its bytes are the only copy the driver has, or nothing.\<close>

record camera_fb =
  fbBuf :: "byte list option"
  fbLen :: nat
  fbWidth :: nat
  fbHeight :: nat
  fbFormat :: pixformat

text \<open>Of the configuration the frame size and the pixel format are used.\<close>

record camera =
  caInit :: bool
  caConfig :: "(nat \<times> pixformat) option"
  caSensor :: "nat \<times> pixformat"
  caData :: "byte list"
  caFb :: camera_fb
  caGenerator :: "(camera_fb \<Rightarrow> camera_fb) option"

definition camera_reset :: camera where
  "camera_reset =
    \<lparr>caInit = False, caConfig = None, caSensor = (0, RGB565), caData = [],
     caFb = \<lparr>fbBuf = None, fbLen = 0, fbWidth = 0, fbHeight = 0, fbFormat = RGB565\<rparr>, caGenerator = None\<rparr>"

definition inject_frame :: "byte list \<Rightarrow> nat \<Rightarrow> nat \<Rightarrow> pixformat \<Rightarrow> camera \<Rightarrow> camera" where
  "inject_frame d w h fmt s =
    s\<lparr>caData := d, caFb := \<lparr>fbBuf = Some d, fbLen = length d, fbWidth = w, fbHeight = h, fbFormat = fmt\<rparr>\<rparr>"

definition jpeg_stub :: "byte list" where
  "jpeg_stub = [0xFF, 0xD8, 0xFF, 0xE0, 0x00, 0x10] @ replicate 122 0 @ [0xFF, 0xD9]"

definition inject_jpeg :: "nat \<Rightarrow> nat \<Rightarrow> camera \<Rightarrow> camera" where
  "inject_jpeg w h s = inject_frame jpeg_stub w h JPEG s"

definition camera_init :: "(nat \<times> pixformat) option \<Rightarrow> camera \<Rightarrow> esp_err \<times> camera" where
  "camera_init cfg s =
    (let s = (case cfg of Some c \<Rightarrow> s\<lparr>caConfig := Some c\<rparr> | None \<Rightarrow> s);
         s = s\<lparr>caInit := True, caSensor := (case cfg of Some c \<Rightarrow> c | None \<Rightarrow> (8, JPEG))\<rparr>;
         s = (if caData s = [] then inject_jpeg 640 480 s else s)
     in (ESP_OK, s))"

definition camera_deinit :: "camera \<Rightarrow> esp_err \<times> camera" where
  "camera_deinit s = (ESP_OK, camera_reset)"

definition camera_fb_get :: "camera \<Rightarrow> camera_fb option \<times> camera" where
  "camera_fb_get s =
    (if \<not> caInit s then (None, s)
     else let s = (case caGenerator s of Some g \<Rightarrow> s\<lparr>caFb := g (caFb s)\<rparr> | None \<Rightarrow> s) in (Some (caFb s), s))"

definition camera_sensor_get :: "camera \<Rightarrow> (nat \<times> pixformat) option" where
  "camera_sensor_get s = (if \<not> caInit s then None else Some (caSensor s))"

text \<open>
  The camera gives the frame injected last, before or after it was started, and none when it is not started. Without one it gives a stub of 130
  bytes that is a JPEG of 640 by 480, whatever format and size were configured; the sensor says what was configured.
\<close>

theorem camera_frames:
  assumes "caGenerator s = None"
  shows "d \<noteq> [] \<Longrightarrow> fst (camera_fb_get (snd (camera_init cfg (inject_frame d w h fmt s)))) =
      Some \<lparr>fbBuf = Some d, fbLen = length d, fbWidth = w, fbHeight = h, fbFormat = fmt\<rparr>"
    "caInit s \<Longrightarrow> fst (camera_fb_get (inject_frame d w h fmt s)) =
      Some \<lparr>fbBuf = Some d, fbLen = length d, fbWidth = w, fbHeight = h, fbFormat = fmt\<rparr>"
    "fst (camera_fb_get (snd (camera_deinit s))) = None"
    "let t = snd (camera_init (Some (fs, fmt)) camera_reset)
     in fst (camera_fb_get t) = Some \<lparr>fbBuf = Some jpeg_stub, fbLen = 130, fbWidth = 640, fbHeight = 480, fbFormat = JPEG\<rparr> \<and>
        camera_sensor_get t = Some (fs, fmt)"
  using assms
  by (simp_all add: camera_fb_get_def camera_init_def inject_frame_def inject_jpeg_def camera_deinit_def camera_reset_def camera_sensor_get_def
      jpeg_stub_def Let_def split: option.splits)

section \<open>\<open>esp_tls.h\<close>\<close>

record tls =
  tlFd :: int
  tlConnected :: bool
  tlWritten :: u64
  tlRead :: u64

definition tls_init :: tls where
  "tls_init = \<lparr>tlFd = - 1, tlConnected = False, tlWritten = 0, tlRead = 0\<rparr>"

definition tls_conn_new_sync :: "tls option \<Rightarrow> int \<times> tls option" where
  "tls_conn_new_sync t = (case t of None \<Rightarrow> (- 1, None) | Some c \<Rightarrow> (1, Some (c\<lparr>tlConnected := True, tlFd := 999\<rparr>)))"

definition tls_conn_new :: "tls option" where
  "tls_conn_new = (let (r, t) = tls_conn_new_sync (Some tls_init) in if r < 0 then None else t)"

definition tls_conn_http_new :: "tls option" where
  "tls_conn_http_new = Some (tls_init\<lparr>tlConnected := True, tlFd := 999\<rparr>)"

definition tls_conn_write :: "u64 \<Rightarrow> tls option \<Rightarrow> int \<times> tls option" where
  "tls_conn_write n t =
    (case t of
       None \<Rightarrow> (- 1, None)
     | Some c \<Rightarrow> if \<not> tlConnected c then (- 1, t) else (sint n, Some (c\<lparr>tlWritten := tlWritten c + n\<rparr>)))"

text \<open>What is in the caller's buffer afterwards.\<close>

definition tls_conn_read :: "byte list \<Rightarrow> tls option \<Rightarrow> int \<times> byte list" where
  "tls_conn_read buf t =
    (case t of None \<Rightarrow> (- 1, buf) | Some c \<Rightarrow> if \<not> tlConnected c then (- 1, buf) else (0, replicate (length buf) 0))"

text \<open>A connection takes all that is written and counts it; a read wipes the buffer and says that the peer has closed.\<close>

theorem tls_connection:
  "tls_conn_new = tls_conn_http_new"
  "t = Some c \<and> tlConnected c \<Longrightarrow>
    snd (fold (\<lambda>n (_, t). tls_conn_write n t) ns (r, t)) = Some (c\<lparr>tlWritten := tlWritten c + sum_list ns\<rparr>)"
  "tls_conn_read buf tls_conn_new = (0, replicate (length buf) 0)" "tls_conn_write n (Some tls_init) = (- 1, Some tls_init)"
proof -
  show "snd (fold (\<lambda>n (_, t). tls_conn_write n t) ns (r, t)) = Some (c\<lparr>tlWritten := tlWritten c + sum_list ns\<rparr>)"
    if "t = Some c \<and> tlConnected c"
    using that by (induction ns arbitrary: r t c) (simp_all add: tls_conn_write_def add.assoc)
qed (simp_all add: tls_conn_new_def tls_conn_http_new_def tls_conn_new_sync_def tls_init_def tls_conn_read_def tls_conn_write_def)

end
