(* ===== verification/CJson.thy ===== *)
theory CJson
  imports Interfaces "HOL-Library.Sublist"
begin

text \<open>
  JSON as in \<open>src/include/cJSON.h\<close>: values, the printer, the parser and what is built on the two.
  A text is a list of characters, its end the terminating zero. Numbers are of any type \<open>'n\<close>: how a
  double is formatted (\<open>snprintf\<close> with \<open>%d\<close> or \<open>%g\<close>) and read (\<open>strtod\<close>) are arguments. The
  lemmas give the round trip of the printer and the parser, the termination of the parser and the
  one way it reads past the end of its text.
\<close>

section \<open>Values\<close>

text \<open>A string item made from a null pointer has no characters: \<open>CString None\<close>.\<close>

datatype 'n cjson =
    CNull
  | CFalse
  | CTrue
  | CNumber 'n
  | CString "string option"
  | CArray "'n cjson list"
  | CObject "(string \<times> 'n cjson) list"

definition cJSON_CreateNull :: "'n cjson" where
  "cJSON_CreateNull = CNull"

definition cJSON_CreateBool :: "int \<Rightarrow> 'n cjson" where
  "cJSON_CreateBool b = (if b \<noteq> 0 then CTrue else CFalse)"

definition cJSON_CreateNumber :: "'n \<Rightarrow> 'n cjson" where
  "cJSON_CreateNumber n = CNumber n"

definition cJSON_CreateString :: "string option \<Rightarrow> 'n cjson" where
  "cJSON_CreateString s = CString s"

definition cJSON_CreateArray :: "'n cjson" where
  "cJSON_CreateArray = CArray []"

definition cJSON_CreateObject :: "'n cjson" where
  "cJSON_CreateObject = CObject []"

definition cJSON_CreateArrayOf :: "('a \<Rightarrow> 'n cjson) \<Rightarrow> 'a list \<Rightarrow> 'n cjson" where
  "cJSON_CreateArrayOf mk xs = CArray (map mk xs)"

fun cjson_children :: "'n cjson \<Rightarrow> 'n cjson list" where
  "cjson_children (CArray cs) = cs"
| "cjson_children (CObject ms) = map snd ms"
| "cjson_children _ = []"

definition cJSON_GetArraySize :: "'n cjson option \<Rightarrow> nat" where
  "cJSON_GetArraySize a = (case a of None \<Rightarrow> 0 | Some j \<Rightarrow> length (cjson_children j))"

text \<open>A negative index stops the loop at once, at the first child.\<close>

definition cJSON_GetArrayItem :: "'n cjson option \<Rightarrow> int \<Rightarrow> 'n cjson option" where
  "cJSON_GetArrayItem a index =
    (case a of
       None \<Rightarrow> None
     | Some j \<Rightarrow> let cs = cjson_children j
                in if nat index < length cs then Some (cs ! nat index) else None)"

definition cJSON_GetObjectItem :: "'n cjson option \<Rightarrow> string option \<Rightarrow> 'n cjson option" where
  "cJSON_GetObjectItem ob key =
    (case (ob, key) of
       (Some (CObject ms), Some k) \<Rightarrow> map_of ms k
     | _ \<Rightarrow> None)"

definition cJSON_HasObjectItem :: "'n cjson option \<Rightarrow> string option \<Rightarrow> bool" where
  "cJSON_HasObjectItem ob key \<longleftrightarrow> cJSON_GetObjectItem ob key \<noteq> None"

fun cJSON_GetStringValue :: "'n cjson option \<Rightarrow> string option" where
  "cJSON_GetStringValue (Some (CString s)) = s"
| "cJSON_GetStringValue _ = None"

section \<open>Printing\<close>

definition spaces :: "bool \<Rightarrow> nat \<Rightarrow> string" where
  "spaces fmt depth = (if fmt then replicate (depth * 2) CHR '' '' else '''')"

definition newline :: "bool \<Rightarrow> nat \<Rightarrow> string" where
  "newline fmt depth = (if fmt then CHR 0x0A # spaces fmt depth else '''')"

fun print_item :: "('n \<Rightarrow> string) \<Rightarrow> nat \<Rightarrow> bool \<Rightarrow> 'n cjson \<Rightarrow> string"
  and print_elems :: "('n \<Rightarrow> string) \<Rightarrow> nat \<Rightarrow> bool \<Rightarrow> bool \<Rightarrow> 'n cjson list \<Rightarrow> string"
  and print_members :: "('n \<Rightarrow> string) \<Rightarrow> nat \<Rightarrow> bool \<Rightarrow> bool \<Rightarrow> (string \<times> 'n cjson) list \<Rightarrow> string" where
  "print_item nf depth fmt CNull = ''null''"
| "print_item nf depth fmt CFalse = ''false''"
| "print_item nf depth fmt CTrue = ''true''"
| "print_item nf depth fmt (CNumber n) = nf n"
| "print_item nf depth fmt (CString s) =
    CHR 0x22 # (case s of None \<Rightarrow> '''' | Some v \<Rightarrow> v) @ [CHR 0x22]"
| "print_item nf depth fmt (CArray cs) =
    CHR ''['' # print_elems nf depth fmt True cs @ (if cs \<noteq> [] then newline fmt depth else '''') @ '']''"
| "print_item nf depth fmt (CObject ms) =
    CHR ''{'' # print_members nf depth fmt True ms @ (if ms \<noteq> [] then newline fmt depth else '''') @ ''}''"
| "print_elems nf depth fmt first [] = ''''"
| "print_elems nf depth fmt first (c # cs) =
    (if first then '''' else '','') @ newline fmt (depth + 1) @
    print_item nf (depth + 1) fmt c @ print_elems nf depth fmt False cs"
| "print_members nf depth fmt first [] = ''''"
| "print_members nf depth fmt first ((k, v) # ms) =
    (if first then '''' else '','') @ newline fmt (depth + 1) @
    CHR 0x22 # k @ CHR 0x22 # CHR '':'' # (if fmt then '' '' else '''') @
    print_item nf (depth + 1) fmt v @ print_members nf depth fmt False ms"

definition cJSON_Print :: "('n \<Rightarrow> string) \<Rightarrow> 'n cjson \<Rightarrow> string" where
  "cJSON_Print nf j = print_item nf 0 True j"

definition cJSON_PrintUnformatted :: "('n \<Rightarrow> string) \<Rightarrow> 'n cjson \<Rightarrow> string" where
  "cJSON_PrintUnformatted nf j = print_item nf 0 False j"

section \<open>Parsing\<close>

text \<open>
  The outcome of a parsing function: a result, a read past the terminating zero of the text, or,
  for the bounded recursion of the model, running out of fuel.
\<close>

datatype 'a outcome = Done 'a | Overread | NoFuel

fun obind :: "'a outcome \<Rightarrow> ('a \<Rightarrow> 'b outcome) \<Rightarrow> 'b outcome" where
  "obind (Done x) f = f x"
| "obind Overread f = Overread"
| "obind NoFuel f = NoFuel"

definition is_ws :: "char \<Rightarrow> bool" where
  "is_ws c \<longleftrightarrow> c = CHR '' '' \<or> c = CHR 0x09 \<or> c = CHR 0x0A \<or> c = CHR 0x0D"

definition skip_ws :: "string \<Rightarrow> string" where
  "skip_ws p = dropWhile is_ws p"

definition unescape :: "char \<Rightarrow> char" where
  "unescape c =
    (if c = CHR ''n'' then CHR 0x0A else if c = CHR ''t'' then CHR 0x09
     else if c = CHR ''r'' then CHR 0x0D else c)"

text \<open>
  The loop of \<open>parse_string\<close> after the opening quote. After a backslash the next character is
  taken whatever it is; when that is the terminating zero, the following \<open>p++\<close> leaves the text.
\<close>

fun string_body :: "string \<Rightarrow> string \<Rightarrow> (string \<times> string) outcome" where
  "string_body val [] = Done (val, [])"
| "string_body val (c # p) =
    (if c = CHR 0x22 then Done (val, p)
     else if c = CHR 0x5C then
       (case p of [] \<Rightarrow> Overread | e # p' \<Rightarrow> string_body (val @ [unescape e]) p')
     else string_body (val @ [c]) p)"

definition is_digit :: "char \<Rightarrow> bool" where
  "is_digit c \<longleftrightarrow> c \<in> set ''0123456789''"

text \<open>\<open>strtod p\<close> is the number and how many characters it took, \<open>None\<close> when it took none.\<close>

type_synonym 'n strtod = "string \<Rightarrow> ('n \<times> nat) option"

definition parse_number :: "'n strtod \<Rightarrow> string \<Rightarrow> 'n cjson option \<times> string" where
  "parse_number strtod p =
    (case strtod p of None \<Rightarrow> (None, p) | Some (n, k) \<Rightarrow> (Some (CNumber n), drop k p))"

definition parse_literal :: "string \<Rightarrow> 'n cjson option \<times> string" where
  "parse_literal p =
    (if take 4 p = ''true'' then (Some CTrue, drop 4 p)
     else if take 5 p = ''false'' then (Some CFalse, drop 5 p)
     else if take 4 p = ''null'' then (Some CNull, drop 4 p)
     else (None, p))"

text \<open>\<open>next_is c p\<close> is the text after \<open>p\<close>'s first character if that is \<open>c\<close>.\<close>

definition next_is :: "char \<Rightarrow> string \<Rightarrow> string option" where
  "next_is c p = (case p of [] \<Rightarrow> None | x # p' \<Rightarrow> if x = c then Some p' else None)"

function (sequential) parse_value :: "'n strtod \<Rightarrow> nat \<Rightarrow> string \<Rightarrow> ('n cjson option \<times> string) outcome"
  and parse_elems :: "'n strtod \<Rightarrow> nat \<Rightarrow> 'n cjson list \<Rightarrow> string \<Rightarrow> ('n cjson option \<times> string) outcome"
  and parse_members ::
    "'n strtod \<Rightarrow> nat \<Rightarrow> (string \<times> 'n cjson) list \<Rightarrow> string \<Rightarrow> ('n cjson option \<times> string) outcome" where
  "parse_value sd 0 p = NoFuel"
| "parse_value sd (Suc f) p =
    (case skip_ws p of
       [] \<Rightarrow> Done (None, [])
     | c # cs \<Rightarrow>
         if c = CHR 0x22 then
           obind (string_body [] cs) (\<lambda>(v, p'). Done (Some (CString (Some v)), p'))
         else if c = CHR ''{'' then
           (case next_is (CHR ''}'') (skip_ws cs) of
              Some p' \<Rightarrow> Done (Some (CObject []), p')
            | None \<Rightarrow> parse_members sd f [] (skip_ws cs))
         else if c = CHR ''['' then
           (case next_is (CHR '']'') (skip_ws cs) of
              Some p' \<Rightarrow> Done (Some (CArray []), p')
            | None \<Rightarrow> parse_elems sd f [] (skip_ws cs))
         else if c = CHR ''-'' \<or> is_digit c then Done (parse_number sd (c # cs))
         else Done (parse_literal (c # cs)))"
| "parse_elems sd 0 arr p = NoFuel"
| "parse_elems sd (Suc f) arr p =
    (if p = [] then Done (Some (CArray arr), [])
     else obind (parse_value sd f (skip_ws p)) (\<lambda>(item, p1).
       let arr' = (case item of None \<Rightarrow> arr | Some v \<Rightarrow> arr @ [v]); p2 = skip_ws p1
       in case next_is (CHR '','') p2 of
            Some p3 \<Rightarrow> parse_elems sd f arr' p3
          | None \<Rightarrow>
              (case next_is (CHR '']'') p2 of
                 Some p3 \<Rightarrow> Done (Some (CArray arr'), p3)
               | None \<Rightarrow> Done (Some (CArray arr'), p2))))"
| "parse_members sd 0 ob p = NoFuel"
| "parse_members sd (Suc f) ob p =
    (case next_is (CHR 0x22) (skip_ws p) of
       None \<Rightarrow> Done (Some (CObject ob), skip_ws p)
     | Some cs \<Rightarrow>
         obind (string_body [] cs) (\<lambda>(key, p1).
           let p2 = skip_ws p1;
               p3 = (case next_is (CHR '':'') p2 of Some p' \<Rightarrow> p' | None \<Rightarrow> p2)
           in obind (parse_value sd f (skip_ws p3)) (\<lambda>(v, p4).
             let ob' = (case v of None \<Rightarrow> ob | Some j \<Rightarrow> ob @ [(key, j)]); p5 = skip_ws p4
             in case next_is (CHR '','') p5 of
                  Some p6 \<Rightarrow> parse_members sd f ob' p6
                | None \<Rightarrow>
                    (case next_is (CHR ''}'') p5 of
                       Some p6 \<Rightarrow> Done (Some (CObject ob'), p6)
                     | None \<Rightarrow> Done (Some (CObject ob'), p5)))))"
  by pat_completeness auto
termination
  by (relation "measure (case_sum (\<lambda>x. fst (snd x)) (case_sum (\<lambda>x. fst (snd x)) (\<lambda>x. fst (snd x))))") auto

declare parse_value.simps [simp del] parse_elems.simps [simp del] parse_members.simps [simp del]

text \<open>The fuel that is always enough: every nested value starts at least one character further on.\<close>

definition parse_text :: "'n strtod \<Rightarrow> string \<Rightarrow> ('n cjson option \<times> string) outcome" where
  "parse_text sd p = parse_value sd (2 * length p + 1) p"

definition cJSON_Parse :: "'n strtod \<Rightarrow> string option \<Rightarrow> 'n cjson option outcome" where
  "cJSON_Parse sd text =
    (case text of None \<Rightarrow> Done None | Some p \<Rightarrow> obind (parse_text sd p) (\<lambda>(v, _). Done v))"

text \<open>A deep copy is the parse of the print; a shallow one drops the children.\<close>

definition cJSON_Duplicate ::
  "('n \<Rightarrow> string) \<Rightarrow> 'n strtod \<Rightarrow> 'n cjson option \<Rightarrow> bool \<Rightarrow> 'n cjson option outcome" where
  "cJSON_Duplicate nf sd item recurse =
    (case item of
       None \<Rightarrow> Done None
     | Some j \<Rightarrow>
         if recurse then cJSON_Parse sd (Some (cJSON_PrintUnformatted nf j))
         else Done (Some (case j of CArray _ \<Rightarrow> CArray [] | CObject _ \<Rightarrow> CObject [] | _ \<Rightarrow> j)))"

section \<open>The parser ends\<close>

lemma length_skip_ws: "length (skip_ws p) \<le> length p"
  by (simp add: skip_ws_def length_dropWhile_le)

lemma string_body_length:
  "string_body val p = Done (v, p') \<Longrightarrow> length p' \<le> length p"
  by (induction val p rule: string_body.induct) (auto split: if_splits list.splits)

lemma string_body_fuel [simp]: "string_body val p \<noteq> NoFuel"
  by (induction val p rule: string_body.induct) (auto split: list.splits)

lemma string_body_overread:
  "string_body val p = Overread \<Longrightarrow> p \<noteq> [] \<and> last p = CHR 0x5C"
  by (induction val p rule: string_body.induct) (auto split: if_splits list.splits)

text \<open>\<open>parse_value\<close> by the first character.\<close>

lemma parse_value_at:
  "skip_ws p = [] \<Longrightarrow> parse_value sd (Suc f) p = Done (None, [])"
  "skip_ws p = CHR 0x22 # cs \<Longrightarrow> parse_value sd (Suc f) p =
     obind (string_body [] cs) (\<lambda>(v, p'). Done (Some (CString (Some v)), p'))"
  "skip_ws p = CHR ''{'' # cs \<Longrightarrow> parse_value sd (Suc f) p =
     (case next_is (CHR ''}'') (skip_ws cs) of
        Some p' \<Rightarrow> Done (Some (CObject []), p')
      | None \<Rightarrow> parse_members sd f [] (skip_ws cs))"
  "skip_ws p = CHR ''['' # cs \<Longrightarrow> parse_value sd (Suc f) p =
     (case next_is (CHR '']'') (skip_ws cs) of
        Some p' \<Rightarrow> Done (Some (CArray []), p')
      | None \<Rightarrow> parse_elems sd f [] (skip_ws cs))"
  by (simp_all add: parse_value.simps)

lemma parse_value_number:
  assumes "skip_ws p = c # cs" "c = CHR ''-'' \<or> is_digit c"
  shows "parse_value sd (Suc f) p = Done (parse_number sd (c # cs))"
proof -
  have "c \<noteq> CHR 0x22 \<and> c \<noteq> CHR ''{'' \<and> c \<noteq> CHR ''[''"
    using assms(2) by (auto simp: is_digit_def)
  with assms show ?thesis
    by (simp add: parse_value.simps)
qed

lemma parse_value_literal:
  assumes "skip_ws p = c # cs" "c \<noteq> CHR ''-''" "\<not> is_digit c"
    and "c \<noteq> CHR 0x22" "c \<noteq> CHR ''{''" "c \<noteq> CHR ''[''"
  shows "parse_value sd (Suc f) p = Done (parse_literal (c # cs))"
  using assms by (simp add: parse_value.simps)

lemma next_is_length: "next_is c p = Some p' \<Longrightarrow> length p = Suc (length p')"
  by (auto simp: next_is_def split: list.splits if_splits)

text \<open>
  \<open>ends p r\<close>: the outcome \<open>r\<close> of reading \<open>p\<close> is not a lack of fuel, what is left is a suffix of
  \<open>p\<close>, and reading past its end happens only when it ends in a backslash.
\<close>

definition ends :: "string \<Rightarrow> ('a \<times> string) outcome \<Rightarrow> bool" where
  "ends p r \<longleftrightarrow> r \<noteq> NoFuel \<and> (\<forall>v q. r = Done (v, q) \<longrightarrow> suffix q p) \<and>
    (r = Overread \<longrightarrow> p \<noteq> [] \<and> last p = CHR 0x5C)"

lemma ends_Done [simp]: "ends p (Done x) \<longleftrightarrow> suffix (snd x) p"
  by (cases x) (simp add: ends_def)

lemma ends_mono: "ends q r \<Longrightarrow> suffix q p \<Longrightarrow> ends p r"
  by (auto simp: ends_def suffix_def)

lemma ends_obind:
  "ends p r \<Longrightarrow> (\<And>v q. suffix q p \<Longrightarrow> ends p (f (v, q))) \<Longrightarrow> ends p (obind r f)"
  by (cases r) (auto simp: ends_def)

lemma ends_string_body: "ends p (string_body val p)"
proof -
  have "suffix q p" if "string_body val p = Done (v, q)" for v q
    using that
    by (induction val p rule: string_body.induct)
      (auto split: if_splits list.splits intro: suffix_ConsI)
  then show ?thesis
    using string_body_overread [of val p] by (auto simp: ends_def)
qed

lemma skip_ws_suffix [intro]: "suffix q p \<Longrightarrow> suffix (skip_ws q) p"
  by (metis skip_ws_def suffix_dropWhile suffix_order.trans)

lemma next_is_suffix:
  assumes "next_is c (skip_ws q) = Some q'" "suffix q p"
  shows "suffix q' p \<and> length q' < length p"
proof -
  have s: "suffix (c # q') p"
    using assms skip_ws_suffix [OF assms(2)] by (auto simp: next_is_def split: list.splits if_splits)
  then show ?thesis
    using suffix_length_le [OF s] by (auto dest: suffix_ConsD)
qed

lemma parse_literal_suffix: "suffix (snd (parse_literal p)) p"
  by (simp add: parse_literal_def suffix_drop)

lemma parse_number_suffix: "suffix (snd (parse_number sd p)) p"
  by (simp add: parse_number_def suffix_drop split: option.split)

lemma parse_ends:
  fixes sd :: "'n strtod"
  shows "(2 * length p + 1 \<le> f \<longrightarrow> ends p (parse_value sd f p)) \<and>
   (2 * length p + 2 \<le> f \<longrightarrow> ends p (parse_elems sd f arr p)) \<and>
   (2 * length p + 2 \<le> f \<longrightarrow> ends p (parse_members sd f ob p))"
proof (induction f arbitrary: p arr ob)
  case 0
  then show ?case by simp
next
  case (Suc f)
  have value_ends: "ends p (parse_value sd f q)" if "suffix q p" "2 * length p + 1 \<le> f" for q p
    by (rule ends_mono [OF _ that(1)]) (use Suc.IH [of q] that suffix_length_le [OF that(1)] in auto)
  have elems_ends: "ends p (parse_elems sd f a q)"
    if "suffix q p \<and> length q < length p" "2 * length p \<le> f" for a q p
    by (rule ends_mono [of q]) (use Suc.IH [of q a] that in auto)
  have members_ends: "ends p (parse_members sd f b q)"
    if "suffix q p \<and> length q < length p" "2 * length p \<le> f" for b q p
    by (rule ends_mono [of q]) (use Suc.IH [of q _ b] that in auto)
  have "ends p (parse_value sd (Suc f) p)" if fuel: "2 * length p + 1 \<le> Suc f"
  proof (cases "skip_ws p")
    case Nil
    then show ?thesis by (simp add: parse_value_at)
  next
    case (Cons c cs)
    then have all: "suffix (c # cs) p"
      using skip_ws_suffix [of p p] by simp
    then have cs: "suffix cs p" "length cs < length p"
      using suffix_length_le [OF all] by (auto dest: suffix_ConsD)
    have inner: "suffix (skip_ws cs) p \<and> length (skip_ws cs) < length p"
      using cs length_skip_ws [of cs] by auto
    have str: "ends p (obind (string_body [] cs) (\<lambda>(v, p'). Done (Some (CString (Some v)), p')))"
      by (rule ends_obind [OF ends_mono [OF ends_string_body cs(1)]]) simp
    have fuel': "2 * length p \<le> f"
      using fuel by simp
    have lit: "suffix (snd (parse_literal (c # cs) :: 'n cjson option \<times> string)) p"
      by (rule suffix_order.trans [OF parse_literal_suffix all])
    have num: "suffix (snd (parse_number sd (c # cs))) p"
      by (rule suffix_order.trans [OF parse_number_suffix all])
    have brk: "suffix q p" if "next_is d (skip_ws cs) = Some q" for d q
      using next_is_suffix [OF that cs(1)] by simp
    consider "c = CHR 0x22" | "c = CHR ''{''" | "c = CHR ''[''" | "c = CHR ''-'' \<or> is_digit c"
      | "c \<noteq> CHR 0x22" "c \<noteq> CHR ''{''" "c \<noteq> CHR ''[''" "c \<noteq> CHR ''-''" "\<not> is_digit c"
      by blast
    then show ?thesis
      using Cons str lit num brk elems_ends [OF inner fuel'] members_ends [OF inner fuel']
      by cases (simp_all add: parse_value_at parse_value_number parse_value_literal split: option.split)
  qed
  moreover have "ends p (parse_elems sd (Suc f) arr p)" if fuel: "2 * length p + 2 \<le> Suc f"
  proof (cases "p = []")
    case True
    then show ?thesis by (simp add: parse_elems.simps)
  next
    case False
    have step: "ends p (let arr' = (case item of None \<Rightarrow> arr | Some v \<Rightarrow> arr @ [v]); p2 = skip_ws p1
       in case next_is (CHR '','') p2 of
            Some p3 \<Rightarrow> parse_elems sd f arr' p3
          | None \<Rightarrow>
              (case next_is (CHR '']'') p2 of
                 Some p3 \<Rightarrow> Done (Some (CArray arr'), p3)
               | None \<Rightarrow> Done (Some (CArray arr'), p2)))" if "suffix p1 p" for item p1
      using that fuel next_is_suffix [OF _ that]
      by (auto simp: Let_def split: option.splits intro!: elems_ends)
    show ?thesis
      unfolding parse_elems.simps if_not_P [OF False]
    proof (rule ends_obind)
      show "ends p (parse_value sd f (skip_ws p))"
        using fuel by (intro value_ends) auto
    qed (simp only: prod.case, rule step)
  qed
  moreover have "ends p (parse_members sd (Suc f) ob p)" if fuel: "2 * length p + 2 \<le> Suc f"
  proof (cases "next_is (CHR 0x22) (skip_ws p)")
    case None
    then show ?thesis
      by (auto simp: parse_members.simps)
  next
    case (Some cs)
    have cs: "suffix cs p"
      using next_is_suffix [OF Some, of p] by simp
    have tail: "ends p (let ob' = (case v of None \<Rightarrow> ob | Some j \<Rightarrow> ob @ [(key, j)]); p5 = skip_ws p4
             in case next_is (CHR '','') p5 of
                  Some p6 \<Rightarrow> parse_members sd f ob' p6
                | None \<Rightarrow>
                    (case next_is (CHR ''}'') p5 of
                       Some p6 \<Rightarrow> Done (Some (CObject ob'), p6)
                     | None \<Rightarrow> Done (Some (CObject ob'), p5)))" if "suffix p4 p" for key v p4
      using that fuel next_is_suffix [OF _ that]
      by (auto simp: Let_def split: option.splits intro!: members_ends)
    have colon: "suffix (case next_is (CHR '':'') (skip_ws p1) of Some p' \<Rightarrow> p' | None \<Rightarrow> skip_ws p1) p"
      if "suffix p1 p" for p1
      using next_is_suffix [OF _ that] that by (auto split: option.split)
    have val: "ends p (parse_value sd f (skip_ws q))" if "suffix q p" for q
      using fuel that by (intro value_ends) auto
    show ?thesis
      unfolding parse_members.simps Some option.case
    proof (rule ends_obind [OF ends_mono [OF ends_string_body cs]], unfold prod.case Let_def)
      fix key p1
      assume p1: "suffix p1 p"
      show "ends p (obind
          (parse_value sd f (skip_ws (case next_is (CHR '':'') (skip_ws p1) of Some p' \<Rightarrow> p' | None \<Rightarrow> skip_ws p1)))
          (\<lambda>(v, p4). case next_is (CHR '','') (skip_ws p4) of
              Some p6 \<Rightarrow> parse_members sd f (case v of None \<Rightarrow> ob | Some j \<Rightarrow> ob @ [(key, j)]) p6
            | None \<Rightarrow>
                (case next_is (CHR ''}'') (skip_ws p4) of
                   Some p6 \<Rightarrow> Done (Some (CObject (case v of None \<Rightarrow> ob | Some j \<Rightarrow> ob @ [(key, j)])), p6)
                 | None \<Rightarrow> Done (Some (CObject (case v of None \<Rightarrow> ob | Some j \<Rightarrow> ob @ [(key, j)])), skip_ws p4))))"
        by (rule ends_obind [OF val [OF colon [OF p1]]], unfold prod.case) (rule tail [unfolded Let_def])
    qed
  qed
  ultimately show ?case by blast
qed

section \<open>What is printed is read back\<close>

lemma skip_ws_simps [simp]:
  "skip_ws [] = []" "\<not> is_ws c \<Longrightarrow> skip_ws (c # p) = c # p" "is_ws c \<Longrightarrow> skip_ws (c # p) = skip_ws p"
  by (simp_all add: skip_ws_def)

lemma skip_ws_spaces [simp]: "skip_ws (spaces fmt d @ p) = skip_ws p"
proof -
  have "skip_ws (replicate n CHR '' '' @ p) = skip_ws p" for n
    by (induction n) (simp_all add: is_ws_def)
  then show ?thesis by (simp add: spaces_def)
qed

lemma skip_ws_newline [simp]: "skip_ws (newline fmt d @ p) = skip_ws p"
  by (simp add: newline_def is_ws_def)

lemma next_is_simps [simp]: "next_is c [] = None" "next_is c (x # p) = (if x = c then Some p else None)"
  by (simp_all add: next_is_def)

text \<open>Texts without a quote or a backslash.\<close>

definition plain :: "string \<Rightarrow> bool" where
  "plain s \<longleftrightarrow> CHR 0x22 \<notin> set s \<and> CHR 0x5C \<notin> set s"

lemma string_body_plain: "plain s \<Longrightarrow> string_body val (s @ CHR 0x22 # p) = Done (val @ s, p)"
  by (induction s arbitrary: val) (auto simp: plain_def)

text \<open>
  A number is read back when its text starts like a number and \<open>strtod\<close> takes all of it and
  nothing of what can follow it in a text.
\<close>

definition delimited :: "string \<Rightarrow> bool" where
  "delimited rest \<longleftrightarrow> rest = [] \<or> hd rest \<in> {CHR '','', CHR '']'', CHR ''}'', CHR 0x0A}"

definition readable :: "('n \<Rightarrow> string) \<Rightarrow> 'n strtod \<Rightarrow> 'n \<Rightarrow> bool" where
  "readable nf sd n \<longleftrightarrow> nf n \<noteq> [] \<and> (hd (nf n) = CHR ''-'' \<or> is_digit (hd (nf n))) \<and>
    (\<forall>rest. delimited rest \<longrightarrow> sd (nf n @ rest) = Some (n, length (nf n)))"

fun printable :: "('n \<Rightarrow> bool) \<Rightarrow> 'n cjson \<Rightarrow> bool" where
  "printable ok (CNumber n) \<longleftrightarrow> ok n"
| "printable ok (CString s) \<longleftrightarrow> (case s of None \<Rightarrow> False | Some v \<Rightarrow> plain v)"
| "printable ok (CArray cs) \<longleftrightarrow> (\<forall>c\<in>set cs. printable ok c)"
| "printable ok (CObject ms) \<longleftrightarrow> (\<forall>(k, v)\<in>set ms. plain k \<and> printable ok v)"
| "printable ok _ \<longleftrightarrow> True"

lemma no_ws_start:
  "\<not> is_ws CHR 0x22" "\<not> is_ws CHR ''{''" "\<not> is_ws CHR ''[''" "\<not> is_ws CHR '',''" "\<not> is_ws CHR '']''"
  "\<not> is_ws CHR ''}''" "\<not> is_ws CHR '':''" "\<not> is_ws CHR ''n''" "\<not> is_ws CHR ''t''" "\<not> is_ws CHR ''f''"
  "\<not> is_ws CHR ''-''" "is_digit c \<Longrightarrow> \<not> is_ws c"
  by (auto simp: is_ws_def is_digit_def)

text \<open>The closing part of an array or object, and its beginning.\<close>

lemma delimited_simps [simp]:
  "delimited []" "delimited (newline fmt d @ CHR '']'' # p)" "delimited (newline fmt d @ CHR ''}'' # p)"
  "delimited (CHR '','' # p)" "delimited (CHR '']'' # p)" "delimited (CHR ''}'' # p)"
  by (simp_all add: delimited_def newline_def)

lemma print_start:
  "printable (readable nf sd) j \<Longrightarrow>
   \<exists>c cs. print_item nf d fmt j = c # cs \<and> \<not> is_ws c \<and> c \<noteq> CHR '']'' \<and> c \<noteq> CHR ''}''"
proof (cases j)
  case (CNumber n)
  assume "printable (readable nf sd) j"
  with CNumber obtain c cs where "nf n = c # cs" "c = CHR ''-'' \<or> is_digit c"
    by (cases "nf n") (auto simp: readable_def)
  with CNumber show ?thesis
    using no_ws_start(12) by (auto simp: no_ws_start is_digit_def)
qed (auto simp: no_ws_start)

lemma skip_ws_print:
  "printable (readable nf sd) j \<Longrightarrow> skip_ws (print_item nf d fmt j @ p) = print_item nf d fmt j @ p"
  using print_start [of nf sd j d fmt] by auto

definition reads_back :: "('n \<Rightarrow> string) \<Rightarrow> 'n strtod \<Rightarrow> 'n cjson \<Rightarrow> bool" where
  "reads_back nf sd j \<longleftrightarrow> (\<forall>d fmt rest f. delimited rest \<longrightarrow>
    2 * length (print_item nf d fmt j @ rest) + 1 \<le> f \<longrightarrow>
    parse_value sd f (print_item nf d fmt j @ rest) = Done (Some j, rest))"

lemma reads_backD:
  "reads_back nf sd j \<Longrightarrow> delimited rest \<Longrightarrow> 2 * length (print_item nf d fmt j @ rest) + 1 \<le> f \<Longrightarrow>
   parse_value sd f (print_item nf d fmt j @ rest) = Done (Some j, rest)"
  unfolding reads_back_def by blast

lemma elems_back:
  assumes "\<forall>j\<in>set (c # cs). reads_back nf sd j \<and> printable (readable nf sd) j"
    and "q \<noteq> []"
    and "skip_ws q = print_item nf (d + 1) fmt c @ print_elems nf d fmt False cs @ newline fmt d @ CHR '']'' # rest"
    and "2 * length (skip_ws q) + 2 \<le> f"
  shows "parse_elems sd f arr q = Done (Some (CArray (arr @ c # cs)), rest)"
  using assms
proof (induction cs arbitrary: c q f arr)
  case Nil
  from Nil.prems(4) obtain f' where f: "f = Suc f'" and "2 * length (skip_ws q) + 1 \<le> f'"
    by (cases f) auto
  then have "parse_value sd f' (skip_ws q) = Done (Some c, newline fmt d @ CHR '']'' # rest)"
    unfolding Nil.prems(3) using Nil.prems(1) by (simp only: append_Nil print_elems.simps) (intro reads_backD; simp)
  then show ?case
    using Nil.prems(2) by (simp add: f parse_elems.simps no_ws_start Let_def)
next
  case (Cons c1 cs)
  let ?q = "newline fmt (d + 1) @ print_item nf (d + 1) fmt c1 @ print_elems nf d fmt False cs @
    newline fmt d @ CHR '']'' # rest"
  have q: "skip_ws q = print_item nf (d + 1) fmt c @ CHR '','' # ?q"
    using Cons.prems(3) by simp
  from Cons.prems(4) obtain f' where f: "f = Suc f'" and f': "2 * length (skip_ws q) + 1 \<le> f'"
    by (cases f) auto
  have "parse_value sd f' (skip_ws q) = Done (Some c, CHR '','' # ?q)"
    unfolding q by (rule reads_backD) (use Cons.prems(1) f' q in auto)
  then have step: "parse_elems sd f arr q = parse_elems sd f' (arr @ [c]) ?q"
    using Cons.prems(2) by (simp add: f parse_elems.simps no_ws_start Let_def)
  have c1: "printable (readable nf sd) c1"
    using Cons.prems(1) by simp
  then have "?q \<noteq> []" "skip_ws ?q = print_item nf (d + 1) fmt c1 @ print_elems nf d fmt False cs @
    newline fmt d @ CHR '']'' # rest"
    using print_start [OF c1, of "d + 1" fmt] by (auto simp: skip_ws_print [OF c1])
  moreover from this have "2 * length (skip_ws ?q) + 2 \<le> f'"
    using f' q by simp
  ultimately have "parse_elems sd f' (arr @ [c]) ?q = Done (Some (CArray ((arr @ [c]) @ c1 # cs)), rest)"
    using Cons.prems(1) by (intro Cons.IH) auto
  with step show ?case by simp
qed

abbreviation (input) member_text :: "('n \<Rightarrow> string) \<Rightarrow> nat \<Rightarrow> bool \<Rightarrow> string \<Rightarrow> 'n cjson \<Rightarrow> string" where
  "member_text nf d fmt k v \<equiv>
    CHR 0x22 # k @ CHR 0x22 # CHR '':'' # (if fmt then [CHR '' ''] else []) @ print_item nf (d + 1) fmt v"

lemma member_value:
  assumes "reads_back nf sd v" "printable (readable nf sd) v" "plain k" "delimited tt"
    and "skip_ws q = member_text nf d fmt k v @ tt" "2 * length (skip_ws q) + 1 \<le> f"
  shows "parse_members sd (Suc f) ob q =
    (case next_is (CHR '','') (skip_ws tt) of
       Some p6 \<Rightarrow> parse_members sd f (ob @ [(k, v)]) p6
     | None \<Rightarrow>
         (case next_is (CHR ''}'') (skip_ws tt) of
            Some p6 \<Rightarrow> Done (Some (CObject (ob @ [(k, v)])), p6)
          | None \<Rightarrow> Done (Some (CObject (ob @ [(k, v)])), skip_ws tt)))"
proof -
  let ?v = "print_item nf (d + 1) fmt v @ tt"
  have v: "parse_value sd f ?v = Done (Some v, tt)"
    by (rule reads_backD [OF assms(1,4)]) (use assms(5,6) in auto)
  have key: "string_body [] (k @ CHR 0x22 # p) = Done (k, p)" for p
    using string_body_plain [OF assms(3), of "[]"] by simp
  have ws: "skip_ws ((if fmt then [CHR '' ''] else []) @ ?v) = ?v"
    using skip_ws_print [OF assms(2)] by (simp add: is_ws_def)
  show ?thesis
    using assms(5) key v ws
    by (simp add: parse_members.simps no_ws_start Let_def del: skip_ws_simps(3) split: option.split)
qed

lemma members_back:
  assumes "\<forall>(k, v)\<in>set ((k, v) # ms). reads_back nf sd v \<and> printable (readable nf sd) v \<and> plain k"
    and "skip_ws q = member_text nf d fmt k v @ print_members nf d fmt False ms @ newline fmt d @ CHR ''}'' # rest"
    and "2 * length (skip_ws q) + 2 \<le> f"
  shows "parse_members sd f ob q = Done (Some (CObject (ob @ (k, v) # ms)), rest)"
  using assms
proof (induction ms arbitrary: k v q f ob)
  case Nil
  from Nil.prems(3) obtain f' where f: "f = Suc f'" and f': "2 * length (skip_ws q) + 1 \<le> f'"
    by (cases f) auto
  have q: "skip_ws q = member_text nf d fmt k v @ newline fmt d @ CHR ''}'' # rest"
    using Nil.prems(2) by simp
  show ?case
    unfolding f using Nil.prems(1)
    by (subst member_value [OF _ _ _ _ q f']) (simp_all add: no_ws_start)
next
  case (Cons m ms)
  obtain k1 v1 where m: "m = (k1, v1)" by fastforce
  let ?q = "newline fmt (d + 1) @ member_text nf d fmt k1 v1 @ print_members nf d fmt False ms @
    newline fmt d @ CHR ''}'' # rest"
  have q: "skip_ws q = member_text nf d fmt k v @ CHR '','' # ?q"
    using Cons.prems(2) by (simp add: m)
  from Cons.prems(3) obtain f' where f: "f = Suc f'" and f': "2 * length (skip_ws q) + 1 \<le> f'"
    by (cases f) auto
  have step: "parse_members sd f ob q = parse_members sd f' (ob @ [(k, v)]) ?q"
    unfolding f using Cons.prems(1)
    by (subst member_value [OF _ _ _ _ q f']) (simp_all add: no_ws_start)
  have q1: "skip_ws ?q = member_text nf d fmt k1 v1 @ print_members nf d fmt False ms @ newline fmt d @ CHR ''}'' # rest"
    by (simp add: no_ws_start)
  then have "2 * length (skip_ws ?q) + 2 \<le> f'"
    using f' q by simp
  with q1 have "parse_members sd f' (ob @ [(k, v)]) ?q = Done (Some (CObject ((ob @ [(k, v)]) @ (k1, v1) # ms)), rest)"
    using Cons.prems(1) by (intro Cons.IH) (auto simp: m)
  with step show ?case by (simp add: m)
qed

lemma printable_reads_back: "printable (readable nf sd) j \<Longrightarrow> reads_back nf sd j"
proof (induction j)
  case (CNumber n)
  show ?case
    unfolding reads_back_def
  proof (intro allI impI)
    fix d fmt rest f
    assume rest: "delimited rest" and f: "2 * length (print_item nf d fmt (CNumber n) @ rest) + 1 \<le> f"
    obtain c cs where c: "nf n = c # cs" "c = CHR ''-'' \<or> is_digit c"
      using CNumber by (cases "nf n") (auto simp: readable_def)
    have "\<not> is_ws c"
      using c(2) no_ws_start by auto
    then have ws: "skip_ws (nf n @ rest) = c # cs @ rest"
      by (simp add: c(1))
    obtain f' where f': "f = Suc f'"
      using f by (cases f) auto
    have "sd (c # cs @ rest) = Some (n, length (nf n))"
      using CNumber rest c(1) by (auto simp: readable_def)
    then show "parse_value sd f (print_item nf d fmt (CNumber n) @ rest) = Done (Some (CNumber n), rest)"
      using parse_value_number [OF ws c(2), of sd f'] by (simp add: f' parse_number_def c(1))
  qed
next
  case (CString s)
  then obtain v where s: "s = Some v" "plain v"
    by (auto split: option.splits)
  show ?case
    unfolding reads_back_def
  proof (intro allI impI)
    fix d fmt rest f
    assume "2 * length (print_item nf d fmt (CString s) @ rest) + 1 \<le> f"
    then obtain f' where f': "f = Suc f'"
      by (cases f) auto
    have "skip_ws (print_item nf d fmt (CString s) @ rest) = CHR 0x22 # v @ CHR 0x22 # rest"
      by (simp add: s(1) no_ws_start)
    from parse_value_at(2) [OF this, of sd f'] show
      "parse_value sd f (print_item nf d fmt (CString s) @ rest) = Done (Some (CString s), rest)"
      using string_body_plain [OF s(2), of "[]" rest] by (simp add: f' s(1))
  qed
next
  case (CArray cs)
  then have each: "\<forall>j\<in>set cs. reads_back nf sd j \<and> printable (readable nf sd) j"
    by simp
  show ?case
    unfolding reads_back_def
  proof (intro allI impI)
    fix d fmt rest f
    assume fuel: "2 * length (print_item nf d fmt (CArray cs) @ rest) + 1 \<le> f"
    then obtain f' where f': "f = Suc f'"
      by (cases f) auto
    show "parse_value sd f (print_item nf d fmt (CArray cs) @ rest) = Done (Some (CArray cs), rest)"
    proof (cases cs)
      case Nil
      have "skip_ws (print_item nf d fmt (CArray cs) @ rest) = CHR ''['' # CHR '']'' # rest"
        by (simp add: Nil no_ws_start)
      from parse_value_at(4) [OF this, of sd f'] show ?thesis
        by (simp add: f' Nil no_ws_start)
    next
      case (Cons c cs')
      let ?body = "print_item nf (d + 1) fmt c @ print_elems nf d fmt False cs' @ newline fmt d @ CHR '']'' # rest"
      have printed: "print_item nf d fmt (CArray cs) @ rest = CHR ''['' # newline fmt (d + 1) @ ?body"
        by (simp add: Cons)
      have c: "printable (readable nf sd) c"
        using each Cons by simp
      have body: "skip_ws (newline fmt (d + 1) @ ?body) = ?body" "skip_ws ?body = ?body" "?body \<noteq> []"
        "next_is (CHR '']'') ?body = None"
        using print_start [OF c, of "d + 1" fmt] by (auto simp: skip_ws_print [OF c])
      have "parse_elems sd f' [] ?body = Done (Some (CArray ([] @ c # cs')), rest)"
        by (rule elems_back) (use each Cons body fuel f' printed in auto)
      moreover have "skip_ws (print_item nf d fmt (CArray cs) @ rest) = CHR ''['' # newline fmt (d + 1) @ ?body"
        unfolding printed by (simp add: no_ws_start)
      ultimately show ?thesis
        using parse_value_at(4) [of "print_item nf d fmt (CArray cs) @ rest" _ sd f'] body
        by (simp add: f' Cons)
    qed
  qed
next
  case (CObject ms)
  then have each: "\<forall>(k, v)\<in>set ms. reads_back nf sd v \<and> printable (readable nf sd) v \<and> plain k"
    by fastforce
  show ?case
    unfolding reads_back_def
  proof (intro allI impI)
    fix d fmt rest f
    assume fuel: "2 * length (print_item nf d fmt (CObject ms) @ rest) + 1 \<le> f"
    then obtain f' where f': "f = Suc f'"
      by (cases f) auto
    show "parse_value sd f (print_item nf d fmt (CObject ms) @ rest) = Done (Some (CObject ms), rest)"
    proof (cases ms)
      case Nil
      have "skip_ws (print_item nf d fmt (CObject ms) @ rest) = CHR ''{'' # CHR ''}'' # rest"
        by (simp add: Nil no_ws_start)
      from parse_value_at(3) [OF this, of sd f'] show ?thesis
        by (simp add: f' Nil no_ws_start)
    next
      case (Cons m ms')
      obtain k v where m: "m = (k, v)" by fastforce
      let ?body = "member_text nf d fmt k v @ print_members nf d fmt False ms' @ newline fmt d @ CHR ''}'' # rest"
      have printed: "print_item nf d fmt (CObject ms) @ rest = CHR ''{'' # newline fmt (d + 1) @ ?body"
        by (simp add: Cons m)
      have body: "skip_ws (newline fmt (d + 1) @ ?body) = ?body" "skip_ws ?body = ?body"
        by (simp_all add: no_ws_start)
      have "parse_members sd f' [] ?body = Done (Some (CObject ([] @ (k, v) # ms')), rest)"
        by (rule members_back [where d = d and fmt = fmt]) (use each Cons m body fuel f' printed in auto)
      moreover have "skip_ws (print_item nf d fmt (CObject ms) @ rest) = CHR ''{'' # newline fmt (d + 1) @ ?body"
        unfolding printed by (simp add: no_ws_start)
      ultimately show ?thesis
        using parse_value_at(3) [of "print_item nf d fmt (CObject ms) @ rest" _ sd f'] body
        by (simp add: f' Cons m)
    qed
  qed
qed (auto simp: reads_back_def parse_value.simps no_ws_start is_digit_def parse_literal_def
    dest: Suc_le_D)

lemma parse_text_printed:
  "printable (readable nf sd) j \<Longrightarrow> parse_text sd (print_item nf d fmt j) = Done (Some j, [])"
  using reads_backD [OF printable_reads_back, of nf sd j "[]" d fmt] by (simp add: parse_text_def)

lemma cjson_parse_string:
  "string_body [] cs = r \<Longrightarrow>
   cJSON_Parse sd (Some (CHR 0x22 # cs)) = obind r (\<lambda>(v, _). Done (Some (CString (Some v))))"
  using parse_value_at(2) [of "CHR 0x22 # cs" cs sd "2 * length cs + 2"]
  by (cases r) (auto simp: cJSON_Parse_def parse_text_def no_ws_start)

section \<open>Properties\<close>

text \<open>
  C6: what is printed is read back. For a value whose strings and keys have neither quotes nor
  backslashes and whose numbers \<open>strtod\<close> reads back from their text, parsing the formatted and the
  unformatted print gives the value, and so does the deep copy, which goes through the print.
\<close>

theorem cjson_print_parse:
  assumes "printable (readable nf sd) j"
  shows "cJSON_Parse sd (Some (cJSON_Print nf j)) = Done (Some j) \<and>
    cJSON_Parse sd (Some (cJSON_PrintUnformatted nf j)) = Done (Some j) \<and>
    cJSON_Duplicate nf sd (Some j) True = Done (Some j)"
  using parse_text_printed [OF assms]
  by (simp add: cJSON_Parse_def cJSON_Print_def cJSON_PrintUnformatted_def cJSON_Duplicate_def)

theorem cjson_print_parse_witness:
  "cJSON_Parse (\<lambda>p. if take 1 p = ''1'' then Some (True, 1) else if take 1 p = ''0'' then Some (False, 1) else None)
     (Some (cJSON_Print (\<lambda>b. if b then ''1'' else ''0'')
       (CObject [(''a'', CArray [CNumber True, CNull, CObject []]), (''b'', CString (Some ''x''))]))) =
   Done (Some (CObject [(''a'', CArray [CNumber True, CNull, CObject []]), (''b'', CString (Some ''x''))]))"
  by (rule cjson_print_parse [THEN conjunct1]) (simp add: readable_def is_digit_def plain_def)

text \<open>
  C7: the parser ends, and where it stays within its text. On every text whatever the
  recursion, which the model bounds by the length of the text, never runs out, and the call
  returns; the one exception is a text that ends in a backslash, where the only other outcome is
  the read past the terminating zero.
\<close>

theorem cjson_parse_returns:
  "case cJSON_Parse sd (Some p) of
     Done v \<Rightarrow> True
   | Overread \<Rightarrow> p \<noteq> [] \<and> last p = CHR 0x5C
   | NoFuel \<Rightarrow> False"
proof -
  have "ends p (parse_text sd p)"
    using parse_ends [of p "2 * length p + 1" sd] by (simp add: parse_text_def)
  then show ?thesis
    by (cases "parse_text sd p") (auto simp: ends_def cJSON_Parse_def)
qed

text \<open>
  A string cut off after a backslash is read past its end: the escape takes the terminating
  zero as its character and steps over it.
\<close>

theorem cjson_truncated_escape_overreads:
  assumes "plain s"
  shows "cJSON_Parse sd (Some (CHR 0x22 # s @ [CHR 0x5C])) = Overread"
proof -
  have "string_body val (s @ [CHR 0x5C]) = Overread" for val
    using assms by (induction s arbitrary: val) (auto simp: plain_def)
  then show ?thesis
    by (subst cjson_parse_string) (auto intro: refl)
qed

theorem cjson_truncated_escape_overreads_witness:
  "cJSON_Parse (\<lambda>_. None :: (nat \<times> nat) option) (Some (CHR 0x22 # ''path'' @ [CHR 0x5C])) = Overread"
  by (rule cjson_truncated_escape_overreads) (simp add: plain_def)

text \<open>
  The printer does not escape. A string with a quote in it prints as a text that parses, as
  does its deep copy, to the part before the quote.
\<close>

theorem cjson_quote_not_escaped:
  assumes "plain a"
  shows "cJSON_Parse sd (Some (cJSON_Print nf (CString (Some (a @ CHR 0x22 # b))))) =
      Done (Some (CString (Some a))) \<and>
    cJSON_Duplicate nf sd (Some (CString (Some (a @ CHR 0x22 # b)))) True = Done (Some (CString (Some a)))"
proof -
  have "string_body [] (a @ CHR 0x22 # b @ [CHR 0x22]) = Done (a, b @ [CHR 0x22])"
    using string_body_plain [OF assms, of "[]"] by simp
  from cjson_parse_string [OF this] show ?thesis
    by (simp add: cJSON_Print_def cJSON_PrintUnformatted_def cJSON_Duplicate_def)
qed

theorem cjson_quote_not_escaped_witness:
  "cJSON_Duplicate (\<lambda>_. ''0'') (\<lambda>_. None :: (nat \<times> nat) option)
     (Some (CString (Some (''say '' @ CHR 0x22 # ''hi'')))) True = Done (Some (CString (Some ''say '')))"
  by (rule cjson_quote_not_escaped [THEN conjunct2]) (simp add: plain_def)

end
