(* ===== verification/CJson_Heap.thy ===== *)
theory CJson_Heap
  imports CJson "HOL-Library.Monad_Syntax"
begin

text \<open>
  The objects of \<open>src/include/cJSON.h\<close> in memory: a node per item, children in a list that is
  linked by \<open>next\<close> and, backwards, by \<open>prev\<close>, where the \<open>prev\<close> of the first child is the last one. A
  heap maps addresses to nodes; \<open>None\<close> is a read or write through a pointer to nothing, or, for the
  loops, not returning. The lemmas show that the operations on pointers are the operations of
  \<open>CJson\<close> on values, and that \<open>cJSON_Delete\<close> frees a tree, once.
\<close>

section \<open>Nodes and the heap\<close>

abbreviation (input) "cJSON_Invalid \<equiv> (0 :: int)"
abbreviation (input) "cJSON_False \<equiv> (1 :: int)"
abbreviation (input) "cJSON_True \<equiv> (2 :: int)"
abbreviation (input) "cJSON_NULL \<equiv> (4 :: int)"
abbreviation (input) "cJSON_Number \<equiv> (8 :: int)"
abbreviation (input) "cJSON_String \<equiv> (16 :: int)"
abbreviation (input) "cJSON_Array \<equiv> (32 :: int)"
abbreviation (input) "cJSON_Object \<equiv> (64 :: int)"

type_synonym ptr = nat

record 'n jnode =
  jnNext :: "ptr option"
  jnPrev :: "ptr option"
  jnChild :: "ptr option"
  jnType :: int
  jnValuestring :: "string option"
  jnInt :: int
  jnDouble :: 'n
  jnString :: "string option"

type_synonym 'n jheap = "ptr \<rightharpoonup> 'n jnode"

definition upd :: "'n jheap \<Rightarrow> ptr \<Rightarrow> ('n jnode \<Rightarrow> 'n jnode) \<Rightarrow> 'n jheap option" where
  "upd h p f = (case h p of None \<Rightarrow> None | Some n \<Rightarrow> Some (h(p \<mapsto> f n)))"

text \<open>
  \<open>calloc\<close> is a function of the heap that chooses the address. \<open>zero\<close> is the number
  whose representation is all zeros, \<open>toint\<close> the conversion of a double to \<open>int\<close>.
\<close>

type_synonym 'n allocator = "'n jheap \<Rightarrow> ptr"

definition new_item :: "'n allocator \<Rightarrow> 'n \<Rightarrow> 'n jheap \<Rightarrow> ptr \<times> 'n jheap" where
  "new_item calloc zero h =
    (let p = calloc h
     in (p, h(p \<mapsto> \<lparr>jnNext = None, jnPrev = None, jnChild = None, jnType = 0, jnValuestring = None,
                     jnInt = 0, jnDouble = zero, jnString = None\<rparr>)))"

definition create :: "('n jnode \<Rightarrow> 'n jnode) \<Rightarrow> 'n allocator \<Rightarrow> 'n \<Rightarrow> 'n jheap \<Rightarrow> ptr \<times> 'n jheap" where
  "create f calloc zero h =
    (case new_item calloc zero h of (p, h1) \<Rightarrow> (p, h1(p \<mapsto> f (the (h1 p)))))"

definition create_null :: "'n allocator \<Rightarrow> 'n \<Rightarrow> 'n jheap \<Rightarrow> ptr \<times> 'n jheap" where
  "create_null = create (\<lambda>i. i\<lparr>jnType := cJSON_NULL\<rparr>)"

definition create_bool :: "int \<Rightarrow> 'n allocator \<Rightarrow> 'n \<Rightarrow> 'n jheap \<Rightarrow> ptr \<times> 'n jheap" where
  "create_bool b =
    (if b \<noteq> 0 then create (\<lambda>i. i\<lparr>jnType := cJSON_True\<rparr>) else create (\<lambda>i. i\<lparr>jnType := cJSON_False\<rparr>))"

definition create_number ::
  "('n \<Rightarrow> int) \<Rightarrow> 'n \<Rightarrow> 'n allocator \<Rightarrow> 'n \<Rightarrow> 'n jheap \<Rightarrow> ptr \<times> 'n jheap" where
  "create_number toint num =
    create (\<lambda>i. i\<lparr>jnType := cJSON_Number, jnDouble := num, jnInt := toint num\<rparr>)"

definition create_string ::
  "string option \<Rightarrow> 'n allocator \<Rightarrow> 'n \<Rightarrow> 'n jheap \<Rightarrow> ptr \<times> 'n jheap" where
  "create_string s = create (\<lambda>i. i\<lparr>jnType := cJSON_String, jnValuestring := s\<rparr>)"

definition create_array :: "'n allocator \<Rightarrow> 'n \<Rightarrow> 'n jheap \<Rightarrow> ptr \<times> 'n jheap" where
  "create_array = create (\<lambda>i. i\<lparr>jnType := cJSON_Array\<rparr>)"

definition create_object :: "'n allocator \<Rightarrow> 'n \<Rightarrow> 'n jheap \<Rightarrow> ptr \<times> 'n jheap" where
  "create_object = create (\<lambda>i. i\<lparr>jnType := cJSON_Object\<rparr>)"

section \<open>Operations\<close>

text \<open>
  \<open>cJSON_Delete\<close> calls itself for every child; \<open>delete_children\<close> is its loop with that call written
  out. The children's \<open>next\<close> is read before they are freed; a node is read once more, for its
  strings, before it is freed itself.
\<close>

partial_function (option) delete_children :: "'n jheap \<Rightarrow> ptr option \<Rightarrow> 'n jheap option" where
  "delete_children h child =
    (case child of
       None \<Rightarrow> Some h
     | Some c \<Rightarrow>
         do {
           n \<leftarrow> h c;
           h1 \<leftarrow> delete_children h (jnChild n);
           _ \<leftarrow> h1 c;
           delete_children (h1(c := None)) (jnNext n)
         })"

definition cJSON_Delete :: "'n jheap \<Rightarrow> ptr option \<Rightarrow> 'n jheap option" where
  "cJSON_Delete h item =
    (case item of
       None \<Rightarrow> Some h
     | Some p \<Rightarrow>
         do {
           n \<leftarrow> h p;
           h1 \<leftarrow> delete_children h (jnChild n);
           _ \<leftarrow> h1 p;
           Some (h1(p := None))
         })"

definition cJSON_AddItemToArray ::
  "'n jheap \<Rightarrow> ptr option \<Rightarrow> ptr option \<Rightarrow> 'n jheap option" where
  "cJSON_AddItemToArray h array item =
    (case (array, item) of
       (Some a, Some i) \<Rightarrow>
         do {
           an \<leftarrow> h a;
           case jnChild an of
             None \<Rightarrow>
               do {
                 h \<leftarrow> upd h a (\<lambda>n. n\<lparr>jnChild := Some i\<rparr>);
                 upd h i (\<lambda>n. n\<lparr>jnPrev := Some i, jnNext := None\<rparr>)
               }
           | Some c \<Rightarrow>
               do {
                 cn \<leftarrow> h c;
                 last \<leftarrow> jnPrev cn;
                 h \<leftarrow> upd h last (\<lambda>n. n\<lparr>jnNext := Some i\<rparr>);
                 h \<leftarrow> upd h i (\<lambda>n. n\<lparr>jnPrev := Some last, jnNext := None\<rparr>);
                 upd h c (\<lambda>n. n\<lparr>jnPrev := Some i\<rparr>)
               }
         }
     | _ \<Rightarrow> Some h)"

definition cJSON_AddItemToObject ::
  "'n jheap \<Rightarrow> ptr option \<Rightarrow> string option \<Rightarrow> ptr option \<Rightarrow> 'n jheap option" where
  "cJSON_AddItemToObject h object key item =
    (case (object, item) of
       (Some ob, Some i) \<Rightarrow>
         do {
           h \<leftarrow> upd h i (\<lambda>n. n\<lparr>jnString := key\<rparr>);
           cJSON_AddItemToArray h (Some ob) (Some i)
         }
     | _ \<Rightarrow> Some h)"

text \<open>\<open>cJSON_AddNumberToObject\<close> and its three siblings create an item and add it.\<close>

definition add_created ::
  "('n jheap \<Rightarrow> ptr \<times> 'n jheap) \<Rightarrow> 'n jheap \<Rightarrow> ptr option \<Rightarrow> string option \<Rightarrow> (ptr \<times> 'n jheap) option" where
  "add_created mk h ob key =
    (case mk h of (p, h1) \<Rightarrow> map_option (\<lambda>h2. (p, h2)) (cJSON_AddItemToObject h1 ob key (Some p)))"

partial_function (option) count_children :: "'n jheap \<Rightarrow> ptr option \<Rightarrow> nat \<Rightarrow> nat option" where
  "count_children h child count =
    (case child of
       None \<Rightarrow> Some count
     | Some c \<Rightarrow> do { n \<leftarrow> h c; count_children h (jnNext n) (Suc count) })"

definition heap_GetArraySize :: "'n jheap \<Rightarrow> ptr option \<Rightarrow> nat option" where
  "heap_GetArraySize h array =
    (case array of
       None \<Rightarrow> Some 0
     | Some a \<Rightarrow> do { n \<leftarrow> h a; count_children h (jnChild n) 0 })"

fun skip_children :: "'n jheap \<Rightarrow> nat \<Rightarrow> ptr option \<Rightarrow> ptr option option" where
  "skip_children h 0 child = Some child"
| "skip_children h (Suc k) child =
    (case child of
       None \<Rightarrow> Some None
     | Some c \<Rightarrow> do { n \<leftarrow> h c; skip_children h k (jnNext n) })"

definition heap_GetArrayItem :: "'n jheap \<Rightarrow> ptr option \<Rightarrow> int \<Rightarrow> ptr option option" where
  "heap_GetArrayItem h array index =
    (case array of
       None \<Rightarrow> Some None
     | Some a \<Rightarrow> do { n \<leftarrow> h a; skip_children h (nat index) (jnChild n) })"

text \<open>The loop that looks for a key, which four functions share.\<close>

partial_function (option) find_child :: "'n jheap \<Rightarrow> string \<Rightarrow> ptr option \<Rightarrow> ptr option option" where
  "find_child h key child =
    (case child of
       None \<Rightarrow> Some None
     | Some c \<Rightarrow>
         do {
           n \<leftarrow> h c;
           if jnString n = Some key then Some (Some c) else find_child h key (jnNext n)
         })"

definition heap_GetObjectItem ::
  "'n jheap \<Rightarrow> ptr option \<Rightarrow> string option \<Rightarrow> ptr option option" where
  "heap_GetObjectItem h object key =
    (case (object, key) of
       (Some ob, Some k) \<Rightarrow> do { n \<leftarrow> h ob; find_child h k (jnChild n) }
     | _ \<Rightarrow> Some None)"

definition relink_child ::
  "'n jheap \<Rightarrow> ptr \<Rightarrow> string \<Rightarrow> ptr \<Rightarrow> ptr \<Rightarrow> 'n jheap option" where
  "relink_child h ob key child newitem =
    do {
      c \<leftarrow> h child;
      h \<leftarrow> upd h newitem (\<lambda>n. n\<lparr>jnString := Some key, jnNext := jnNext c, jnPrev := jnPrev c\<rparr>);
      h \<leftarrow> (case jnPrev c of
             None \<Rightarrow> Some h
           | Some p \<Rightarrow>
               do {
                 pn \<leftarrow> h p;
                 if jnNext pn = Some child then upd h p (\<lambda>n. n\<lparr>jnNext := Some newitem\<rparr>) else Some h
               });
      c \<leftarrow> h child;
      h \<leftarrow> (case jnNext c of
             None \<Rightarrow> Some h
           | Some q \<Rightarrow> upd h q (\<lambda>n. n\<lparr>jnPrev := Some newitem\<rparr>));
      h \<leftarrow> upd h ob (\<lambda>n. if jnChild n = Some child then n\<lparr>jnChild := Some newitem\<rparr> else n);
      on \<leftarrow> h ob;
      f \<leftarrow> jnChild on;
      h \<leftarrow> upd h f (\<lambda>n. if jnPrev n = Some child then n\<lparr>jnPrev := Some newitem\<rparr> else n);
      upd h child (\<lambda>n. n\<lparr>jnNext := None, jnPrev := None\<rparr>)
    }"

definition cJSON_ReplaceItemInObject ::
  "'n jheap \<Rightarrow> ptr option \<Rightarrow> string option \<Rightarrow> ptr option \<Rightarrow> (int \<times> 'n jheap) option" where
  "cJSON_ReplaceItemInObject h object key newitem =
    (case (object, key, newitem) of
       (Some ob, Some k, Some i) \<Rightarrow>
         do {
           n \<leftarrow> h ob;
           found \<leftarrow> find_child h k (jnChild n);
           case found of
             None \<Rightarrow> Some (0, h)
           | Some child \<Rightarrow>
               do {
                 h \<leftarrow> relink_child h ob k child i;
                 h \<leftarrow> cJSON_Delete h (Some child);
                 Some (1, h)
               }
         }
     | _ \<Rightarrow> Some (0, h))"

partial_function (option) last_sibling :: "'n jheap \<Rightarrow> ptr \<Rightarrow> ptr option" where
  "last_sibling h p =
    do {
      n \<leftarrow> h p;
      case jnNext n of None \<Rightarrow> Some p | Some q \<Rightarrow> last_sibling h q
    }"

definition detach_child :: "'n jheap \<Rightarrow> ptr \<Rightarrow> ptr \<Rightarrow> 'n jheap option" where
  "detach_child h ob child =
    do {
      c \<leftarrow> h child;
      h \<leftarrow> (case jnPrev c of
             None \<Rightarrow> Some h
           | Some p \<Rightarrow>
               do {
                 pn \<leftarrow> h p;
                 if jnNext pn = Some child then upd h p (\<lambda>n. n\<lparr>jnNext := jnNext c\<rparr>) else Some h
               });
      c \<leftarrow> h child;
      h \<leftarrow> (case jnNext c of
             None \<Rightarrow> Some h
           | Some q \<Rightarrow> upd h q (\<lambda>n. n\<lparr>jnPrev := jnPrev c\<rparr>));
      c \<leftarrow> h child;
      h \<leftarrow> upd h ob (\<lambda>n. if jnChild n = Some child then n\<lparr>jnChild := jnNext c\<rparr> else n);
      on \<leftarrow> h ob;
      h \<leftarrow> (case jnChild on of
             None \<Rightarrow> Some h
           | Some f \<Rightarrow>
               do {
                 fn \<leftarrow> h f;
                 if jnPrev fn = Some child
                 then do { l \<leftarrow> last_sibling h f; upd h f (\<lambda>n. n\<lparr>jnPrev := Some l\<rparr>) }
                 else Some h
               });
      upd h child (\<lambda>n. n\<lparr>jnNext := None, jnPrev := None\<rparr>)
    }"

definition cJSON_DeleteItemFromObject ::
  "'n jheap \<Rightarrow> ptr option \<Rightarrow> string option \<Rightarrow> 'n jheap option" where
  "cJSON_DeleteItemFromObject h object key =
    (case (object, key) of
       (Some ob, Some k) \<Rightarrow>
         do {
           n \<leftarrow> h ob;
           found \<leftarrow> find_child h k (jnChild n);
           case found of
             None \<Rightarrow> Some h
           | Some child \<Rightarrow> do { h \<leftarrow> detach_child h ob child; cJSON_Delete h (Some child) }
         }
     | _ \<Rightarrow> Some h)"

text \<open>The type tests, on the low eight bits of \<open>type\<close>.\<close>

definition has_type :: "'n jheap \<Rightarrow> int \<Rightarrow> ptr option \<Rightarrow> bool option" where
  "has_type h ty item =
    (case item of
       None \<Rightarrow> Some (ty = cJSON_Invalid)
     | Some p \<Rightarrow> do { n \<leftarrow> h p; Some (jnType n mod 256 = ty) })"

section \<open>Lists of children\<close>

text \<open>
  \<open>seg h q xs e\<close>: the nodes \<open>xs\<close> are linked forwards, ending in \<open>e\<close>, and backwards, starting
  from \<open>q\<close>.
\<close>

fun first_or :: "ptr list \<Rightarrow> ptr option \<Rightarrow> ptr option" where
  "first_or [] e = e"
| "first_or (x # xs) e = Some x"

fun seg :: "'n jheap \<Rightarrow> ptr \<Rightarrow> ptr list \<Rightarrow> ptr option \<Rightarrow> bool" where
  "seg h q [] e \<longleftrightarrow> True"
| "seg h q (x # xs) e \<longleftrightarrow>
    (\<exists>n. h x = Some n \<and> jnPrev n = Some q \<and> jnNext n = first_or xs e) \<and> seg h x xs e"

definition kids :: "'n jheap \<Rightarrow> ptr \<Rightarrow> ptr list \<Rightarrow> bool" where
  "kids h a xs \<longleftrightarrow>
    distinct (a # xs) \<and> (\<exists>n. h a = Some n \<and> jnChild n = first_or xs None) \<and> seg h (last (a # xs)) xs None"

lemma first_or_append [simp]: "first_or (xs @ ys) e = first_or xs (first_or ys e)"
  by (cases xs) simp_all

lemma seg_append [simp]:
  "seg h q (xs @ ys) e \<longleftrightarrow> seg h q xs (first_or ys e) \<and> seg h (last (q # xs)) ys e"
  by (induction xs arbitrary: q) auto

lemma seg_frame [simp]: "p \<notin> set xs \<Longrightarrow> seg (h(p := v)) q xs e = seg h q xs e"
  by (induction xs arbitrary: q) auto

lemma seg_cong: "(\<And>p. p \<in> set xs \<Longrightarrow> h p = h' p) \<Longrightarrow> seg h q xs e = seg h' q xs e"
  by (induction xs arbitrary: q) auto

lemma seg_dom: "seg h q xs e \<Longrightarrow> x \<in> set xs \<Longrightarrow> \<exists>n. h x = Some n"
  by (induction xs arbitrary: q) auto

lemma kids_distinct: "kids h a xs \<Longrightarrow> distinct (a # xs)"
  by (simp add: kids_def)

lemma kids_dom: "kids h a xs \<Longrightarrow> x = a \<or> x \<in> set xs \<Longrightarrow> \<exists>n. h x = Some n"
  using seg_dom by (fastforce simp: kids_def)

subsection \<open>Reading\<close>

lemma count_children_seg:
  "seg h q xs None \<Longrightarrow> count_children h (first_or xs None) k = Some (k + length xs)"
proof (induction xs arbitrary: q k)
  case Nil
  then show ?case by (subst count_children.simps) simp
next
  case (Cons x xs)
  then show ?case by (subst count_children.simps) auto
qed

lemma skip_children_seg:
  "seg h q xs None \<Longrightarrow>
   skip_children h k (first_or xs None) = Some (if k < length xs then Some (xs ! k) else None)"
proof (induction xs arbitrary: q k)
  case Nil
  then show ?case by (cases k) simp_all
next
  case (Cons x xs)
  then show ?case by (cases k) auto
qed

definition key_of :: "'n jheap \<Rightarrow> ptr \<Rightarrow> string option" where
  "key_of h p = (case h p of None \<Rightarrow> None | Some n \<Rightarrow> jnString n)"

lemma find_child_seg:
  "seg h q xs None \<Longrightarrow>
   find_child h k (first_or xs None) = Some (find (\<lambda>x. key_of h x = Some k) xs)"
proof (induction xs arbitrary: q)
  case Nil
  then show ?case by (subst find_child.simps) simp
next
  case (Cons x xs)
  then show ?case by (subst find_child.simps) (auto simp: key_of_def)
qed

lemma last_sibling_seg:
  "seg h q (x # xs) None \<Longrightarrow> last_sibling h x = Some (last (x # xs))"
proof (induction xs arbitrary: q x)
  case Nil
  then show ?case by (subst last_sibling.simps) auto
next
  case (Cons y xs)
  then show ?case by (subst last_sibling.simps) auto
qed

subsection \<open>Writing\<close>

text \<open>What a node holds besides its links; the operations on lists leave it alone.\<close>

definition payload :: "'n jnode \<Rightarrow> int \<times> string option \<times> int \<times> 'n" where
  "payload n = (jnType n, jnValuestring n, jnInt n, jnDouble n)"

lemma payload_simps [simp]:
  "payload (n\<lparr>jnNext := x\<rparr>) = payload n" "payload (n\<lparr>jnPrev := x\<rparr>) = payload n"
  "payload (n\<lparr>jnChild := x\<rparr>) = payload n" "payload (n\<lparr>jnString := s\<rparr>) = payload n"
  by (simp_all add: payload_def)

lemma upd_Some [simp]: "h p = Some n \<Longrightarrow> upd h p f = Some (h(p \<mapsto> f n))"
  by (simp add: upd_def)

text \<open>
  \<open>touched h h' A\<close>: the heap changes in \<open>A\<close> only, and there in links and not in what the nodes hold.
\<close>

definition touched :: "'n jheap \<Rightarrow> 'n jheap \<Rightarrow> ptr set \<Rightarrow> bool" where
  "touched h h' A \<longleftrightarrow>
    (\<forall>p. p \<notin> A \<longrightarrow> h' p = h p) \<and>
    (\<forall>p n. h p = Some n \<longrightarrow> (\<exists>n'. h' p = Some n' \<and> payload n' = payload n))"

lemma AddItemToArray_kids:
  assumes "kids h a xs" "h i = Some m" "i \<notin> set (a # xs)"
  shows "\<exists>h'. cJSON_AddItemToArray h (Some a) (Some i) = Some h' \<and> kids h' a (xs @ [i]) \<and>
    touched h h' (insert a (insert i (set xs))) \<and> (\<forall>p. key_of h' p = key_of h p) \<and>
    (\<forall>p. p \<noteq> a \<longrightarrow> map_option jnChild (h' p) = map_option jnChild (h p))"
proof (cases xs rule: rev_cases)
  case Nil
  then show ?thesis
    using assms by (auto simp: kids_def cJSON_AddItemToArray_def touched_def key_of_def)
next
  case (snoc ys l)
  show ?thesis
  proof (cases ys)
    case Nil
    then show ?thesis
      using assms snoc by (auto simp: kids_def cJSON_AddItemToArray_def touched_def key_of_def)
  next
    case (Cons c zs)
    then show ?thesis
      using assms snoc by (auto simp: kids_def cJSON_AddItemToArray_def touched_def key_of_def)
  qed
qed

lemma detach_child_kids:
  assumes "kids h a (xs @ c # ys)"
  shows "\<exists>h'. detach_child h a c = Some h' \<and> kids h' a (xs @ ys) \<and>
    touched h h' (insert a (set (xs @ c # ys))) \<and> (\<forall>p. key_of h' p = key_of h p) \<and>
    (\<forall>p. p \<noteq> a \<longrightarrow> map_option jnChild (h' p) = map_option jnChild (h p))"
proof -
  note defs = kids_def detach_child_def touched_def key_of_def last_sibling.simps
  consider (only) "xs = []" "ys = []" | (first) y zs where "xs = []" "ys = y # zs"
    | (last) ws l where "xs = ws @ [l]" "ys = []"
    | (mid) ws l y zs where "xs = ws @ [l]" "ys = y # zs"
    by (metis rev_exhaust list.exhaust)
  then show ?thesis
  proof cases
    case only
    then show ?thesis using assms by (auto simp: defs)
  next
    case first
    then show ?thesis using assms by (cases zs rule: rev_cases) (auto simp: defs)
  next
    case last
    then obtain na nl nc where n: "h a = Some na" "h l = Some nl" "jnNext nl = Some c" "h c = Some nc"
        "jnPrev nc = Some l" "jnNext nc = None"
      using assms by (auto simp: kids_def)
    show ?thesis
    proof (cases ws)
      case Nil
      then show ?thesis using assms last by (auto simp: defs)
    next
      case (Cons f zs)
      have "seg (h(l \<mapsto> nl\<lparr>jnNext := None\<rparr>, a \<mapsto> na)) c (f # zs @ [l]) None"
        using assms last Cons n by (auto simp: kids_def)
      from last_sibling_seg [OF this] show ?thesis
        using assms last Cons n by (auto simp: defs)
    qed
  next
    case mid
    then show ?thesis using assms by (cases ws; cases zs) (auto simp: defs)
  qed
qed

lemma relink_child_kids:
  assumes "kids h a (xs @ c # ys)" "h i = Some m" "i \<notin> set (a # xs @ c # ys)"
  shows "\<exists>h'. relink_child h a k c i = Some h' \<and> kids h' a (xs @ i # ys) \<and>
    touched h h' (insert a (insert i (set (xs @ c # ys)))) \<and>
    key_of h' i = Some k \<and> (\<forall>p. p \<noteq> i \<longrightarrow> key_of h' p = key_of h p) \<and>
    (\<forall>p. p \<noteq> a \<longrightarrow> map_option jnChild (h' p) = map_option jnChild (h p))"
proof -
  note defs = kids_def relink_child_def touched_def key_of_def
  consider (only) "xs = []" "ys = []" | (first) y zs where "xs = []" "ys = y # zs"
    | (last) ws l where "xs = ws @ [l]" "ys = []"
    | (mid) ws l y zs where "xs = ws @ [l]" "ys = y # zs"
    by (metis rev_exhaust list.exhaust)
  then show ?thesis
  proof cases
    case only
    then show ?thesis using assms by (auto simp: defs)
  next
    case first
    then show ?thesis using assms by (cases zs rule: rev_cases) (auto simp: defs)
  next
    case last
    then show ?thesis using assms by (cases ws) (auto simp: defs)
  next
    case mid
    then show ?thesis using assms by (cases ws; cases zs rule: rev_cases) (auto simp: defs)
  qed
qed

section \<open>Trees and values\<close>

text \<open>
  \<open>jtree\<close> is the shape of an item in memory: its address and the shapes of its children.
  \<open>tree_ok\<close> says that the heap has that shape and that the children of objects have keys, \<open>jvalue\<close>
  is the value it holds.
\<close>

datatype jtree = JT (jroot: ptr) (jkids: "jtree list")

fun addrs :: "jtree \<Rightarrow> ptr list" where
  "addrs (JT p ts) = p # concat (map addrs ts)"

definition type_at :: "'n jheap \<Rightarrow> ptr \<Rightarrow> int" where
  "type_at h p = (case h p of None \<Rightarrow> 0 | Some n \<Rightarrow> jnType n mod 256)"

fun tree_ok :: "'n jheap \<Rightarrow> jtree \<Rightarrow> bool" where
  "tree_ok h (JT p ts) \<longleftrightarrow>
    kids h p (map jroot ts) \<and>
    (type_at h p = cJSON_Object \<longrightarrow> (\<forall>t \<in> set ts. key_of h (jroot t) \<noteq> None)) \<and>
    (\<forall>t \<in> set ts. tree_ok h t)"

fun jvalue :: "'n jheap \<Rightarrow> jtree \<Rightarrow> 'n cjson" where
  "jvalue h (JT p ts) =
    (case h p of
       None \<Rightarrow> CNull
     | Some n \<Rightarrow>
         if jnType n mod 256 = cJSON_False then CFalse
         else if jnType n mod 256 = cJSON_True then CTrue
         else if jnType n mod 256 = cJSON_Number then CNumber (jnDouble n)
         else if jnType n mod 256 = cJSON_String then CString (jnValuestring n)
         else if jnType n mod 256 = cJSON_Array then CArray (map (jvalue h) ts)
         else if jnType n mod 256 = cJSON_Object
         then CObject (map (\<lambda>t. (the (key_of h (jroot t)), jvalue h t)) ts)
         else CNull)"

definition represents :: "'n jheap \<Rightarrow> jtree \<Rightarrow> 'n cjson \<Rightarrow> bool" where
  "represents h t v \<longleftrightarrow> tree_ok h t \<and> distinct (addrs t) \<and> jvalue h t = v"

lemma jroot_addrs [simp]: "jroot t \<in> set (addrs t)"
  by (cases t) simp

lemma jroot_inner: "t \<in> set ts \<Longrightarrow> jroot t \<in> set (concat (map addrs ts))"
  by (simp, blast intro: jroot_addrs)

lemma jroots_addrs: "set (map jroot ts) \<subseteq> set (concat (map addrs ts))"
  using jroot_inner by fastforce

lemma fresh_root:
  assumes "set (addrs (JT ob ts)) \<inter> set (addrs t) = {}"
  shows "jroot t \<notin> insert ob (set (map jroot ts))"
proof -
  have "jroot t \<notin> set (addrs (JT ob ts))"
    using assms jroot_addrs [of t] by blast
  then show ?thesis
    using jroots_addrs [of ts] by (simp del: set_map set_concat) blast
qed

lemma kids_cong:
  assumes "\<And>p. p \<in> set (a # xs) \<Longrightarrow> h p = h' p"
  shows "kids h a xs = kids h' a xs"
  using assms seg_cong [of xs h h' "last (a # xs)" None] by (simp add: kids_def)

lemma tree_ok_cong: "(\<And>p. p \<in> set (addrs t) \<Longrightarrow> h p = h' p) \<Longrightarrow> tree_ok h t = tree_ok h' t"
proof (induction t)
  case (JT p ts)
  have eq: "h (jroot t) = h' (jroot t)" if "t \<in> set ts" for t
    using JT.prems jroot_inner [OF that] by simp
  have "kids h p (map jroot ts) = kids h' p (map jroot ts)"
    using JT.prems eq by (intro kids_cong) auto
  moreover have "\<forall>t \<in> set ts. key_of h (jroot t) = key_of h' (jroot t)"
    using eq by (simp add: key_of_def)
  moreover have "\<forall>t \<in> set ts. tree_ok h t = tree_ok h' t"
    using JT by auto
  ultimately show ?case
    using JT.prems by (auto simp: type_at_def)
qed

lemma tree_ok_dom: "tree_ok h t \<Longrightarrow> p \<in> set (addrs t) \<Longrightarrow> \<exists>n. h p = Some n"
proof (induction t)
  case (JT q ts)
  then show ?case using kids_dom [of h q "map jroot ts"] by auto
qed

lemma touched_type:
  assumes "touched h h' A" "h p = Some n"
  shows "type_at h' p = type_at h p"
proof -
  obtain n' where "h' p = Some n'" "payload n' = payload n"
    using assms unfolding touched_def by blast
  then show ?thesis
    using assms(2) by (simp add: type_at_def payload_def)
qed

lemma touched_tree_ok:
  assumes "touched h h' A" "tree_ok h t" "distinct (addrs t)" "A \<inter> set (addrs t) \<subseteq> {jroot t}"
    "map_option jnChild (h' (jroot t)) = map_option jnChild (h (jroot t))"
  shows "tree_ok h' t"
proof (cases t)
  case (JT p ts)
  have same: "h' q = h q" if "q \<in> set (addrs t)" "q \<noteq> p" for q
    using assms(1,4) that JT by (auto simp: touched_def)
  have inner: "h q = h' q" if "q \<in> set (concat (map addrs ts))" for q
    using same [of q] that assms(3) JT by (cases "q = p") auto
  have roots: "h q = h' q" if "q \<in> set (map jroot ts)" for q
    using inner that jroots_addrs by blast
  have "\<forall>u \<in> set ts. tree_ok h' u"
    using assms(2) JT tree_ok_cong [of _ h h'] inner by auto
  moreover have "\<forall>u \<in> set ts. key_of h' (jroot u) = key_of h (jroot u)"
    using roots by (auto simp: key_of_def)
  moreover have "type_at h' p = type_at h p"
    using assms(2) kids_dom [of h p "map jroot ts" p] JT touched_type [OF assms(1)] by auto
  moreover have "seg h' q (map jroot ts) None = seg h q (map jroot ts) None" for q
    using seg_cong [of "map jroot ts" h h'] roots by simp
  then have "kids h' p (map jroot ts)"
    using assms(2,5) JT by (auto simp: kids_def)
  ultimately show ?thesis
    using assms(2) JT by simp
qed

lemma touched_value:
  assumes "touched h h' A" "tree_ok h t" "distinct (addrs t)"
    "\<forall>p \<in> set (addrs t) - {jroot t}. key_of h' p = key_of h p"
  shows "jvalue h' t = jvalue h t"
  using assms(2-4)
proof (induction t)
  case (JT p ts)
  obtain n n' where n: "h p = Some n" "h' p = Some n'" "payload n' = payload n"
    using JT.prems(1) assms(1) kids_dom [of h p "map jroot ts" p] by (fastforce simp: touched_def)
  have key: "key_of h' (jroot u) = key_of h (jroot u)" if "u \<in> set ts" for u
    using JT.prems that jroots_addrs by fastforce
  have "jvalue h' u = jvalue h u" if "u \<in> set ts" for u
  proof (rule JT.IH [OF that])
    show "tree_ok h u" "distinct (addrs u)"
      using JT.prems(1,2) that by (auto simp: distinct_concat_iff)
    show "\<forall>q \<in> set (addrs u) - {jroot u}. key_of h' q = key_of h q"
      using JT.prems(2,3) that by fastforce
  qed
  with n key show ?case
    by (simp add: payload_def cong: map_cong)
qed

section \<open>Freeing\<close>

lemma restrict_insert: "(h |` (- A))(p := None) = h |` (- insert p A)"
  by (rule ext) (simp add: restrict_map_def)

lemma delete_children_forest:
  "seg h q (map jroot ts) None \<Longrightarrow> \<forall>t \<in> set ts. tree_ok h t \<Longrightarrow> distinct (concat (map addrs ts)) \<Longrightarrow>
   delete_children h (first_or (map jroot ts) None) = Some (h |` (- set (concat (map addrs ts))))"
proof (induction "length (concat (map addrs ts))" arbitrary: h q ts rule: less_induct)
  case less
  show ?case
  proof (cases ts)
    case Nil
    then show ?thesis
      by (subst delete_children.simps) (simp add: restrict_map_def)
  next
    case (Cons t ts')
    obtain c us where t: "t = JT c us" by (cases t)
    obtain n where n: "h c = Some n" "jnNext n = first_or (map jroot ts') None"
      "jnChild n = first_or (map jroot us) None"
      using less.prems(1,2) Cons t by (auto simp: kids_def)
    have "seg h (last (c # map jroot us)) (map jroot us) None" "\<forall>u \<in> set us. tree_ok h u"
      "distinct (concat (map addrs us))"
      using less.prems Cons t by (auto simp: kids_def)
    then have 1: "delete_children h (jnChild n) = Some (h |` (- set (concat (map addrs us))))"
      using less.hyps [of us h] Cons t n(3) by auto
    let ?h = "h |` (- set (addrs t))"
    have same: "h p = ?h p" if "p \<in> set (concat (map addrs ts'))" for p
      using that less.prems(3) Cons by (auto simp: restrict_map_def)
    have "seg h c (map jroot ts') None = seg ?h c (map jroot ts') None"
      by (rule seg_cong) (use same jroots_addrs [of ts'] in blast)
    then have "seg ?h c (map jroot ts') None"
      using less.prems(1) Cons t by simp
    moreover have "tree_ok ?h u" if "u \<in> set ts'" for u
      using less.prems(2) Cons that tree_ok_cong [of u h ?h] same by auto
    moreover have "distinct (concat (map addrs ts'))"
      using less.prems(3) Cons by simp
    ultimately have 2: "delete_children ?h (jnNext n) = Some (?h |` (- set (concat (map addrs ts'))))"
      using less.hyps [of ts' ?h c] Cons t n(2) by auto
    have "c \<notin> set (concat (map addrs us))"
      using less.prems(3) Cons t by simp
    then have "delete_children h (Some c) =
        delete_children ((h |` (- set (concat (map addrs us))))(c := None)) (jnNext n)"
      using 1 n(1) by (subst delete_children.simps) simp
    also have "(h |` (- set (concat (map addrs us))))(c := None) = ?h"
      unfolding t addrs.simps list.set(2) by (rule restrict_insert)
    finally show ?thesis
      using 2 Cons t by (simp add: restrict_map_def) (auto simp: fun_eq_iff)
  qed
qed

lemma cJSON_Delete_tree:
  assumes "tree_ok h t" "distinct (addrs t)"
  shows "cJSON_Delete h (Some (jroot t)) = Some (h |` (- set (addrs t)))"
proof (cases t)
  case (JT p ts)
  obtain n where n: "h p = Some n" "jnChild n = first_or (map jroot ts) None"
    using assms(1) JT by (auto simp: kids_def)
  define A where "A = set (concat (map addrs ts))"
  have "delete_children h (jnChild n) = Some (h |` (- A))"
    unfolding A_def n(2) by (rule delete_children_forest) (use assms JT in \<open>auto simp: kids_def\<close>)
  moreover have "p \<notin> A" "set (addrs t) = insert p A"
    using assms(2) JT by (auto simp: A_def)
  ultimately show ?thesis
    using JT n(1) by (simp add: cJSON_Delete_def restrict_insert del: fun_upd_None_restrict)
qed

section \<open>Objects\<close>

text \<open>The operations on values that the operations on pointers implement.\<close>

fun delete_member :: "string \<Rightarrow> (string \<times> 'n cjson) list \<Rightarrow> (string \<times> 'n cjson) list" where
  "delete_member k [] = []"
| "delete_member k (m # ms) = (if fst m = k then ms else m # delete_member k ms)"

fun replace_member ::
  "string \<Rightarrow> 'n cjson \<Rightarrow> (string \<times> 'n cjson) list \<Rightarrow> (string \<times> 'n cjson) list" where
  "replace_member k v [] = []"
| "replace_member k v (m # ms) = (if fst m = k then (k, v) # ms else m # replace_member k v ms)"

definition members :: "'n jheap \<Rightarrow> jtree list \<Rightarrow> (string \<times> 'n cjson) list" where
  "members h ts = map (\<lambda>t. (the (key_of h (jroot t)), jvalue h t)) ts"

lemma member_absent: "k \<notin> fst ` set ms \<Longrightarrow> delete_member k ms = ms \<and> replace_member k v ms = ms"
  by (induction ms) auto

lemma member_split:
  "k \<notin> fst ` set us \<Longrightarrow> delete_member k (us @ (k, w) # ws) = us @ ws \<and>
   replace_member k v (us @ (k, w) # ws) = us @ (k, v) # ws \<and> map_of (us @ (k, w) # ws) k = Some w"
  by (induction us) auto

lemma represents_object:
  assumes "represents h (JT ob ts) (CObject ms)"
  shows "kids h ob (map jroot ts)" "distinct (addrs (JT ob ts))" "type_at h ob = cJSON_Object"
    "members h ts = ms" "\<forall>t \<in> set ts. tree_ok h t \<and> distinct (addrs t)"
    "\<forall>t \<in> set ts. key_of h (jroot t) \<noteq> None"
proof -
  obtain n where "h ob = Some n"
    using assms kids_dom [of h ob "map jroot ts" ob] by (auto simp: represents_def)
  then have ty: "type_at h ob = cJSON_Object" and "members h ts = ms"
    using assms by (auto simp: represents_def type_at_def members_def split: if_splits)
  with assms show "kids h ob (map jroot ts)" "distinct (addrs (JT ob ts))"
    "type_at h ob = cJSON_Object" "members h ts = ms" "\<forall>t \<in> set ts. tree_ok h t \<and> distinct (addrs t)"
    "\<forall>t \<in> set ts. key_of h (jroot t) \<noteq> None"
    by (auto simp: represents_def distinct_concat_iff)
qed

lemma jvalue_object:
  "type_at h ob = cJSON_Object \<Longrightarrow> jvalue h (JT ob ts) = CObject (members h ts)"
  by (auto simp: type_at_def members_def split: option.splits)

lemma represents_cong:
  assumes "\<And>p. p \<in> set (addrs t) \<Longrightarrow> h p = h' p"
  shows "represents h t v = represents h' t v"
proof -
  have "tree_ok h t = tree_ok h' t"
    by (rule tree_ok_cong) (rule assms)
  moreover have "jvalue h u = jvalue h' u" if "set (addrs u) \<subseteq> set (addrs t)" for u
    using that
  proof (induction u)
    case (JT p us)
    have "key_of h (jroot w) = key_of h' (jroot w)" if "w \<in> set us" for w
      using jroot_inner [OF that] JT.prems assms [of "jroot w"] by (auto simp: key_of_def)
    moreover have "jvalue h w = jvalue h' w" if "w \<in> set us" for w
      using JT that by auto
    ultimately have eqs: "map (jvalue h) us = map (jvalue h') us"
      "map (\<lambda>t. (the (key_of h (jroot t)), jvalue h t)) us =
       map (\<lambda>t. (the (key_of h' (jroot t)), jvalue h' t)) us"
      by simp_all
    have "h p = h' p"
      using assms [of p] JT.prems by simp
    then show ?case
      unfolding jvalue.simps eqs by (simp only:)
  qed
  ultimately show ?thesis by (simp add: represents_def)
qed

lemma roots_inter:
  "distinct (concat (map addrs ts)) \<Longrightarrow> u \<in> set ts \<Longrightarrow> set (map jroot ts) \<inter> set (addrs u) = {jroot u}"
proof (induction ts)
  case (Cons a ts)
  then have "set (addrs a) \<inter> set (concat (map addrs ts)) = {}" by simp
  moreover from this have "jroot a \<notin> set (concat (map addrs ts))"
    using jroot_addrs by blast
  ultimately have disj: "set (addrs a) \<inter> set (map jroot ts) = {}"
      "u \<in> set ts \<Longrightarrow> jroot a \<notin> set (addrs u)"
    using jroots_addrs [of ts] by (blast, auto)
  show ?case
  proof (cases "u \<in> set ts")
    case True
    then show ?thesis using Cons disj(2) by simp
  next
    case False
    then have "u = a" using Cons.prems(2) by simp
    then show ?thesis using disj(1) jroot_addrs [of a] by auto
  qed
qed simp

text \<open>
  An object whose list of children was relinked: \<open>all\<close> are the items involved, \<open>ts'\<close> the
  children afterwards.
\<close>

lemma relinked:
  assumes t: "touched h h' (insert ob (set (map jroot all)))"
    and all: "\<forall>t \<in> set all. tree_ok h t" "distinct (addrs (JT ob all))"
    and ts': "set ts' \<subseteq> set all" "distinct (addrs (JT ob ts'))" "kids h' ob (map jroot ts')"
    and ob: "type_at h ob = cJSON_Object" "h ob = Some n"
    and child: "\<forall>p. p \<noteq> ob \<longrightarrow> map_option jnChild (h' p) = map_option jnChild (h p)"
    and key: "\<And>p. p \<notin> set (map jroot all) \<Longrightarrow> key_of h' p = key_of h p"
      "\<forall>t \<in> set ts'. key_of h' (jroot t) \<noteq> None"
  shows "represents h' (JT ob ts')
    (CObject (map (\<lambda>t. (the (key_of h' (jroot t)), jvalue h t)) ts'))"
proof -
  have sub: "tree_ok h' u \<and> jvalue h' u = jvalue h u" if u: "u \<in> set ts'" for u
  proof -
    have u': "u \<in> set all"
      using u ts'(1) by blast
    have dist: "distinct (concat (map addrs all))" "ob \<notin> set (addrs u)" "jroot u \<noteq> ob"
      using all(2) u' jroot_inner [OF u'] by auto
    have inter: "set (map jroot all) \<inter> set (addrs u) = {jroot u}"
      by (rule roots_inter [OF dist(1) u'])
    have "distinct (addrs u)" "tree_ok h u"
      using dist(1) u' all(1) by (auto simp: distinct_concat_iff)
    moreover have "insert ob (set (map jroot all)) \<inter> set (addrs u) \<subseteq> {jroot u}"
      using inter dist(2) by blast
    moreover have "\<forall>p \<in> set (addrs u) - {jroot u}. key_of h' p = key_of h p"
      using inter key(1) by blast
    ultimately show ?thesis
      using touched_tree_ok [OF t] touched_value [OF t] child dist(3) by blast
  qed
  have "type_at h' ob = cJSON_Object"
    using touched_type [OF t ob(2)] ob(1) by simp
  then show ?thesis
    using sub ts' key(2) jvalue_object [of h' ob ts'] by (auto simp: represents_def members_def)
qed

lemma touched_upd:
  "h i = Some m \<Longrightarrow> payload m' = payload m \<Longrightarrow> touched h (h(i \<mapsto> m')) {i}"
  by (auto simp: touched_def)

lemma touched_trans: "touched h1 h2 A \<Longrightarrow> touched h2 h3 B \<Longrightarrow> touched h1 h3 (A \<union> B)"
  unfolding touched_def by (metis UnCI)

lemma touched_outside:
  assumes "touched h h' (insert ob (set (map jroot ts)))" "p \<notin> set (addrs (JT ob ts))"
  shows "h' p = h p"
proof -
  have "p \<notin> insert ob (set (map jroot ts))"
    using assms(2) jroots_addrs [of ts] by (simp del: set_map set_concat) blast
  then show ?thesis
    using assms(1) unfolding touched_def by blast
qed

lemma touched_dom:
  assumes "touched h h' A" "A \<subseteq> dom h"
  shows "dom h' = dom h"
proof (rule set_eqI)
  fix p
  show "p \<in> dom h' \<longleftrightarrow> p \<in> dom h"
  proof (cases "p \<in> A")
    case True
    then obtain n n' where "h p = Some n" "h' p = Some n'"
      using assms unfolding touched_def by blast
    then show ?thesis by (simp add: dom_def)
  next
    case False
    then show ?thesis
      using assms(1) unfolding touched_def by (simp add: dom_def)
  qed
qed

lemma roots_dom:
  assumes "kids h ob (map jroot ts)"
  shows "insert ob (set (map jroot ts)) \<subseteq> dom h"
proof
  fix p assume "p \<in> insert ob (set (map jroot ts))"
  then show "p \<in> dom h" using kids_dom [OF assms, of p] by auto
qed

lemma object_append:
  assumes "represents h (JT ob ts) (CObject ms)" "represents h t v"
    and "set (addrs (JT ob ts)) \<inter> set (addrs t) = {}"
  shows "\<exists>h'. cJSON_AddItemToObject h (Some ob) (Some k) (Some (jroot t)) = Some h' \<and>
    represents h' (JT ob (ts @ [t])) (CObject (ms @ [(k, v)])) \<and>
    (\<forall>p. p \<notin> set (addrs (JT ob (ts @ [t]))) \<longrightarrow> h' p = h p)"
proof -
  note o = represents_object [OF assms(1)]
  have t: "tree_ok h t" "distinct (addrs t)" "jvalue h t = v"
    using assms(2) by (simp_all add: represents_def)
  obtain m where m: "h (jroot t) = Some m"
    using tree_ok_dom [OF t(1)] jroot_addrs by blast
  obtain n where n: "h ob = Some n"
    using kids_dom [OF o(1), of ob] by blast
  have fresh: "jroot t \<notin> set (ob # map jroot ts)"
    using fresh_root [OF assms(3)] by simp
  define h0 where "h0 = h(jroot t \<mapsto> m\<lparr>jnString := Some k\<rparr>)"
  have "kids h ob (map jroot ts) = kids h0 ob (map jroot ts)"
    by (rule kids_cong) (use fresh in \<open>auto simp: h0_def\<close>)
  then obtain h' where h': "cJSON_AddItemToArray h0 (Some ob) (Some (jroot t)) = Some h'"
      "kids h' ob (map jroot ts @ [jroot t])" "touched h0 h' (insert ob (insert (jroot t) (set (map jroot ts))))"
      "\<forall>p. key_of h' p = key_of h0 p" "\<forall>p. p \<noteq> ob \<longrightarrow> map_option jnChild (h' p) = map_option jnChild (h0 p)"
    using AddItemToArray_kids [of h0 ob "map jroot ts" "jroot t"] o(1) fresh by (auto simp: h0_def)
  have run: "cJSON_AddItemToObject h (Some ob) (Some k) (Some (jroot t)) = Some h'"
    using h'(1) m by (simp add: cJSON_AddItemToObject_def h0_def)
  let ?A = "insert ob (insert (jroot t) (set (map jroot ts)))"
  have "touched h h0 {jroot t}"
    unfolding h0_def by (rule touched_upd) (use m in simp_all)
  with touched_trans [OF this h'(3)] have tch: "touched h h' ?A"
    by simp
  have keys: "key_of h' (jroot t) = Some k" "p \<noteq> jroot t \<Longrightarrow> key_of h' p = key_of h p" for p
    using h'(4) m by (auto simp: h0_def key_of_def)
  have old: "jroot u \<noteq> jroot t" if "u \<in> set ts" for u
    using that fresh by (metis imageI list.set_intros(2) set_map)
  have "represents h' (JT ob (ts @ [t]))
      (CObject (map (\<lambda>t. (the (key_of h' (jroot t)), jvalue h t)) (ts @ [t])))"
  proof (rule relinked)
    show "touched h h' (insert ob (set (map jroot (ts @ [t]))))"
      using tch by (simp add: insert_commute)
  qed (use h'(2,5) o t n m keys old assms(3) in \<open>auto simp: h0_def\<close>)
  also have "map (\<lambda>t. (the (key_of h' (jroot t)), jvalue h t)) (ts @ [t]) = ms @ [(k, v)]"
    using keys old o(4) t(3) by (auto simp: members_def)
  finally have "represents h' (JT ob (ts @ [t])) (CObject (ms @ [(k, v)]))" .
  moreover have "h' p = h p" if "p \<notin> set (addrs (JT ob (ts @ [t])))" for p
    using touched_outside [of h h' ob "ts @ [t]" p] tch that by (simp add: insert_commute)
  ultimately show ?thesis
    using run by blast
qed

text \<open>
  C27: adding a member appends it. On a heap where \<open>ob\<close> is an object and \<open>t\<close> a separate item, the
  pointer updates of \<open>cJSON_AddItemToObject\<close> succeed, the object then holds its old members and
  the new one under its key, in this order, and nothing outside the two trees changes.
\<close>

theorem cjson_object_append:
  assumes "represents h (JT ob ts) (CObject ms)" "represents h t v"
    and "set (addrs (JT ob ts)) \<inter> set (addrs t) = {}"
  shows "\<exists>h'. cJSON_AddItemToObject h (Some ob) (Some k) (Some (jroot t)) = Some h' \<and>
    represents h' (JT ob (ts @ [t])) (CObject (ms @ [(k, v)])) \<and>
    (\<forall>p. p \<notin> set (addrs (JT ob (ts @ [t]))) \<longrightarrow> h' p = h p)"
  by (rule object_append [OF assms])

lemma find_member:
  assumes "\<forall>t \<in> set ts. key_of h (jroot t) \<noteq> None"
  shows "(find (\<lambda>x. key_of h x = Some k) (map jroot ts) = None \<and> k \<notin> fst ` set (members h ts)) \<or>
    (\<exists>us t ws. ts = us @ t # ws \<and> find (\<lambda>x. key_of h x = Some k) (map jroot ts) = Some (jroot t) \<and>
      key_of h (jroot t) = Some k \<and> k \<notin> fst ` set (members h us))"
  using assms
proof (induction ts)
  case Nil
  then show ?case by (simp add: members_def)
next
  case (Cons t ts)
  show ?case
  proof (cases "key_of h (jroot t) = Some k")
    case True
    then show ?thesis by (intro disjI2 exI [of _ "[]"]) (simp add: members_def)
  next
    case False
    with Cons.prems have k: "the (key_of h (jroot t)) \<noteq> k" by auto
    from Cons show ?thesis
    proof (elim disjE meta_impE)
      assume "\<exists>us u ws. ts = us @ u # ws \<and> find (\<lambda>x. key_of h x = Some k) (map jroot ts) = Some (jroot u) \<and>
        key_of h (jroot u) = Some k \<and> k \<notin> fst ` set (members h us)"
      then obtain us u ws where "ts = us @ u # ws" "find (\<lambda>x. key_of h x = Some k) (map jroot ts) = Some (jroot u)"
        "key_of h (jroot u) = Some k" "k \<notin> fst ` set (members h us)" by blast
      then show ?thesis
        using False k by (intro disjI2 exI [of _ "t # us"] exI [of _ u] exI [of _ ws]) (auto simp: members_def)
    qed (use False k in \<open>auto simp: members_def\<close>)
  qed
qed

lemma object_find:
  assumes "represents h (JT ob ts) (CObject ms)"
  shows "\<exists>n. h ob = Some n \<and> find_child h k (jnChild n) = Some (find (\<lambda>x. key_of h x = Some k) (map jroot ts))"
  using represents_object(1) [OF assms] find_child_seg [of h _ "map jroot ts" k] by (auto simp: kids_def)

text \<open>
  Looking up a key in memory is looking it up in the value. \<open>cJSON_GetObjectItem\<close> on the pointer
  returns null exactly when the object has no such member, and else the address of an item that
  holds the value of the first such member.
\<close>

theorem cjson_object_lookup:
  assumes "represents h (JT ob ts) (CObject ms)"
  shows "\<exists>r. heap_GetObjectItem h (Some ob) (Some k) = Some r \<and>
    (case cJSON_GetObjectItem (Some (CObject ms)) (Some k) of
       None \<Rightarrow> r = None
     | Some v \<Rightarrow> \<exists>t \<in> set ts. r = Some (jroot t) \<and> represents h t v)"
proof -
  note o = represents_object [OF assms]
  from object_find [OF assms] obtain n where n: "h ob = Some n"
    "find_child h k (jnChild n) = Some (find (\<lambda>x. key_of h x = Some k) (map jroot ts))" by blast
  from find_member [OF o(6), of k] show ?thesis
  proof (elim disjE exE conjE)
    assume "k \<notin> fst ` set (members h ts)" "find (\<lambda>x. key_of h x = Some k) (map jroot ts) = None"
    then have "map_of ms k = None" "heap_GetObjectItem h (Some ob) (Some k) = Some None"
      using n o(4) by (simp_all add: heap_GetObjectItem_def map_of_eq_None_iff)
    then show ?thesis by (simp add: CJson.cJSON_GetObjectItem_def)
  next
    fix us t ws
    assume t: "ts = us @ t # ws" "find (\<lambda>x. key_of h x = Some k) (map jroot ts) = Some (jroot t)"
      "key_of h (jroot t) = Some k" "k \<notin> fst ` set (members h us)"
    then have "ms = members h us @ (k, jvalue h t) # members h ws"
      using o(4) by (simp add: members_def)
    then have "map_of ms k = Some (jvalue h t)"
      using member_split t(4) by blast
    moreover have "represents h t (jvalue h t)"
      using o(5) t(1) by (simp add: represents_def)
    moreover have "heap_GetObjectItem h (Some ob) (Some k) = Some (Some (jroot t))"
      using n t(2) by (simp add: heap_GetObjectItem_def)
    ultimately show ?thesis
      using t(1) by (simp add: CJson.cJSON_GetObjectItem_def)
  qed
qed

text \<open>What deleting and replacing share: the member is unlinked, then its tree is freed.\<close>

lemma unlinked_child:
  assumes rep: "represents h1 (JT ob ts') v"
    and t: "tree_ok h t" "distinct (addrs t)"
    and tch: "touched h h1 A" "A \<inter> set (addrs t) \<subseteq> {jroot t}"
      "map_option jnChild (h1 (jroot t)) = map_option jnChild (h (jroot t))"
    and disj: "set (addrs (JT ob ts')) \<inter> set (addrs t) = {}"
  shows "\<exists>h'. cJSON_Delete h1 (Some (jroot t)) = Some h' \<and> represents h' (JT ob ts') v \<and>
    h' = h1 |` (- set (addrs t))"
proof -
  have "cJSON_Delete h1 (Some (jroot t)) = Some (h1 |` (- set (addrs t)))"
    by (rule cJSON_Delete_tree [OF touched_tree_ok [OF tch(1) t tch(2,3)] t(2)])
  moreover have "represents (h1 |` (- set (addrs t))) (JT ob ts') v = represents h1 (JT ob ts') v"
    by (rule represents_cong) (use disj in \<open>auto simp: restrict_map_def\<close>)
  ultimately show ?thesis using rep by simp
qed

text \<open>
  Deleting a member removes it and frees it. \<open>cJSON_DeleteItemFromObject\<close> leaves an object
  without the first member of that name; exactly the nodes of that member are freed, and nothing
  outside the object changes. When there is no such member, nothing changes.
\<close>

theorem cjson_object_delete:
  assumes "represents h (JT ob ts) (CObject ms)"
  shows "\<exists>h' ts'. cJSON_DeleteItemFromObject h (Some ob) (Some k) = Some h' \<and>
    represents h' (JT ob ts') (CObject (delete_member k ms)) \<and> set ts' \<subseteq> set ts \<and>
    dom h' = dom h - (set (addrs (JT ob ts)) - set (addrs (JT ob ts'))) \<and>
    (\<forall>p. p \<notin> set (addrs (JT ob ts)) \<longrightarrow> h' p = h p)"
proof -
  note o = represents_object [OF assms]
  from object_find [OF assms] obtain n where n: "h ob = Some n"
    "find_child h k (jnChild n) = Some (find (\<lambda>x. key_of h x = Some k) (map jroot ts))" by blast
  from find_member [OF o(6), of k] show ?thesis
  proof (elim disjE exE conjE)
    assume "k \<notin> fst ` set (members h ts)" "find (\<lambda>x. key_of h x = Some k) (map jroot ts) = None"
    then show ?thesis
      using n o(4) member_absent [of k ms undefined] assms
      by (intro exI [of _ h] exI [of _ ts]) (auto simp: cJSON_DeleteItemFromObject_def)
  next
    fix us t ws
    assume t: "ts = us @ t # ws" "find (\<lambda>x. key_of h x = Some k) (map jroot ts) = Some (jroot t)"
      "key_of h (jroot t) = Some k" "k \<notin> fst ` set (members h us)"
    obtain h1 where h1: "detach_child h ob (jroot t) = Some h1" "kids h1 ob (map jroot (us @ ws))"
        "touched h h1 (insert ob (set (map jroot ts)))" "\<forall>p. key_of h1 p = key_of h p"
        "\<forall>p. p \<noteq> ob \<longrightarrow> map_option jnChild (h1 p) = map_option jnChild (h p)"
      using detach_child_kids [of h ob "map jroot us" "jroot t" "map jroot ws"] o(1) t(1) by auto
    have "represents h1 (JT ob (us @ ws))
        (CObject (map (\<lambda>t. (the (key_of h1 (jroot t)), jvalue h t)) (us @ ws)))"
      by (rule relinked [OF h1(3)]) (use h1 o t(1) n in auto)
    moreover have "map (\<lambda>t. (the (key_of h1 (jroot t)), jvalue h t)) (us @ ws) = delete_member k ms"
      using member_split [OF t(4), of "jvalue h t" "members h ws"] o(4) t(1,3) h1(4)
      by (simp add: members_def)
    ultimately have rep: "represents h1 (JT ob (us @ ws)) (CObject (delete_member k ms))" by simp
    have tin: "t \<in> set ts" using t(1) by simp
    have disj: "set (addrs (JT ob (us @ ws))) \<inter> set (addrs t) = {}" "jroot t \<noteq> ob"
      "insert ob (set (map jroot ts)) \<inter> set (addrs t) \<subseteq> {jroot t}"
      using o(2) t(1) roots_inter [OF _ tin] jroot_inner [OF tin] by auto
    obtain h' where h': "cJSON_Delete h1 (Some (jroot t)) = Some h'"
        "represents h' (JT ob (us @ ws)) (CObject (delete_member k ms))" "h' = h1 |` (- set (addrs t))"
      using unlinked_child [OF rep _ _ h1(3) disj(3) _ disj(1)] o(5) tin h1(5) disj(2) by blast
    have "dom h1 = dom h"
      by (rule touched_dom [OF h1(3) roots_dom [OF o(1)]])
    then have "dom h' = dom h - (set (addrs (JT ob ts)) - set (addrs (JT ob (us @ ws))))"
      using h'(3) disj(1) t(1) by auto
    moreover have "h' p = h p" if "p \<notin> set (addrs (JT ob ts))" for p
      using that h'(3) touched_outside [OF h1(3) that] t(1) by (simp add: restrict_map_def)
    moreover have "cJSON_DeleteItemFromObject h (Some ob) (Some k) = Some h'"
      using n t(2) h1(1) h'(1) by (simp add: cJSON_DeleteItemFromObject_def)
    moreover have "set (us @ ws) \<subseteq> set ts"
      using t(1) by auto
    ultimately show ?thesis
      using h'(2) by blast
  qed
qed

lemma relinked_member:
  assumes rep: "represents h (JT ob ts) (CObject ms)" "represents h t' v"
    and disj: "set (addrs (JT ob ts)) \<inter> set (addrs t') = {}"
    and t: "ts = us @ t # ws" "key_of h (jroot t) = Some k" "k \<notin> fst ` set (members h us)"
  shows "\<exists>h1. relink_child h ob k (jroot t) (jroot t') = Some h1 \<and>
    represents h1 (JT ob (us @ t' # ws)) (CObject (replace_member k v ms)) \<and>
    touched h h1 (insert ob (set (map jroot (ts @ [t'])))) \<and>
    map_option jnChild (h1 (jroot t)) = map_option jnChild (h (jroot t)) \<and> dom h1 = dom h"
proof -
  note o = represents_object [OF rep(1)]
  have t': "tree_ok h t'" "distinct (addrs t')" "jvalue h t' = v"
    using rep(2) by (simp_all add: represents_def)
  obtain n m where n: "h ob = Some n" and m: "h (jroot t') = Some m"
    using tree_ok_dom [OF t'(1) jroot_addrs] kids_dom [OF o(1), of ob] by blast
  have new: "jroot t' \<notin> insert ob (set (map jroot ts))"
    by (rule fresh_root [OF disj])
  have pre: "kids h ob (map jroot us @ jroot t # map jroot ws)"
    "jroot t' \<notin> set (ob # map jroot us @ jroot t # map jroot ws)"
    using o(1) t(1) new by simp_all
  have "insert ob (insert (jroot t') (set (map jroot us @ jroot t # map jroot ws))) =
      insert ob (set (map jroot (ts @ [t'])))"
    using t(1) by auto
  then obtain h1 where h1: "relink_child h ob k (jroot t) (jroot t') = Some h1"
      "kids h1 ob (map jroot us @ jroot t' # map jroot ws)"
      "touched h h1 (insert ob (set (map jroot (ts @ [t']))))"
      "key_of h1 (jroot t') = Some k" "\<And>p. p \<noteq> jroot t' \<Longrightarrow> key_of h1 p = key_of h p"
      "\<forall>p. p \<noteq> ob \<longrightarrow> map_option jnChild (h1 p) = map_option jnChild (h p)"
    using relink_child_kids [OF pre(1) m pre(2), of k] by metis
  have dist: "distinct (addrs (JT ob (ts @ [t'])))"
    using o(2) t'(2) disj by auto
  have old: "jroot u \<noteq> jroot t'" if "u \<in> set ts" for u
    using that new by (metis imageI insert_iff set_map)
  have "represents h1 (JT ob (us @ t' # ws))
      (CObject (map (\<lambda>t. (the (key_of h1 (jroot t)), jvalue h t)) (us @ t' # ws)))"
    by (rule relinked [OF h1(3)]) (use h1 o t' t(1) n dist old in auto)
  moreover have "map (\<lambda>t. (the (key_of h1 (jroot t)), jvalue h t)) (us @ t' # ws) = replace_member k v ms"
    using member_split [OF t(3), of "jvalue h t" "members h ws" v] o(4) t(1,2) h1(4,5) t'(3) old
    by (auto simp: members_def)
  moreover have "dom h1 = dom h"
    using touched_dom [OF h1(3)] roots_dom [OF o(1)] m by auto
  moreover have "jroot t \<noteq> ob"
    using pre(1) by (simp add: kids_def)
  ultimately show ?thesis
    using h1(1,3,6) by auto
qed

text \<open>
  Replacing a member. \<open>cJSON_ReplaceItemInObject\<close> with a separate item answers 1 when the object
  has a member of that name: the item takes the place of the first one, under the same name, and
  exactly the nodes of the old member are freed. Else it answers 0 and changes nothing.
\<close>

theorem cjson_object_replace:
  assumes "represents h (JT ob ts) (CObject ms)" "represents h t' v"
    and "set (addrs (JT ob ts)) \<inter> set (addrs t') = {}"
  shows "if k \<in> fst ` set ms
    then \<exists>h' us t ws. cJSON_ReplaceItemInObject h (Some ob) (Some k) (Some (jroot t')) = Some (1, h') \<and>
      ts = us @ t # ws \<and> represents h' (JT ob (us @ t' # ws)) (CObject (replace_member k v ms)) \<and>
      dom h' = dom h - set (addrs t)
    else cJSON_ReplaceItemInObject h (Some ob) (Some k) (Some (jroot t')) = Some (0, h)"
proof -
  note o = represents_object [OF assms(1)]
  have t': "tree_ok h t'" "distinct (addrs t')" "jvalue h t' = v"
    using assms(2) by (simp_all add: represents_def)
  from object_find [OF assms(1)] obtain n where n: "h ob = Some n"
    "find_child h k (jnChild n) = Some (find (\<lambda>x. key_of h x = Some k) (map jroot ts))" by blast
  from find_member [OF o(6), of k] show ?thesis
  proof (elim disjE exE conjE)
    assume "k \<notin> fst ` set (members h ts)" "find (\<lambda>x. key_of h x = Some k) (map jroot ts) = None"
    then show ?thesis
      using n o(4) by (auto simp: cJSON_ReplaceItemInObject_def)
  next
    fix us t ws
    assume t: "ts = us @ t # ws" "find (\<lambda>x. key_of h x = Some k) (map jroot ts) = Some (jroot t)"
      "key_of h (jroot t) = Some k" "k \<notin> fst ` set (members h us)"
    from relinked_member [OF assms t(1,3,4)]
    obtain h1 where h1: "relink_child h ob k (jroot t) (jroot t') = Some h1"
      "represents h1 (JT ob (us @ t' # ws)) (CObject (replace_member k v ms))"
      "touched h h1 (insert ob (set (map jroot (ts @ [t']))))"
      "map_option jnChild (h1 (jroot t)) = map_option jnChild (h (jroot t))" "dom h1 = dom h" by blast
    have dist: "distinct (addrs (JT ob (ts @ [t'])))"
      using o(2) t'(2) assms(3) by auto
    have tin: "t \<in> set (ts @ [t'])" using t(1) by simp
    have disj: "set (addrs (JT ob (us @ t' # ws))) \<inter> set (addrs t) = {}"
      "insert ob (set (map jroot (ts @ [t']))) \<inter> set (addrs t) \<subseteq> {jroot t}"
      using dist t(1) roots_inter [OF _ tin] by auto
    obtain h' where h': "cJSON_Delete h1 (Some (jroot t)) = Some h'"
        "represents h' (JT ob (us @ t' # ws)) (CObject (replace_member k v ms))"
        "h' = h1 |` (- set (addrs t))"
      using unlinked_child [OF h1(2) _ _ h1(3) disj(2) h1(4) disj(1)] o(5) t(1) by auto
    have "dom h' = dom h - set (addrs t)"
      using h'(3) h1(5) by auto
    moreover have "cJSON_ReplaceItemInObject h (Some ob) (Some k) (Some (jroot t')) = Some (1, h')"
      using n t(2) h1(1) h'(1) by (simp add: cJSON_ReplaceItemInObject_def)
    moreover have "k \<in> fst ` set ms"
      using o(4) t(1,3) by (force simp: members_def)
    ultimately show ?thesis
      using h'(2) t(1) by auto
  qed
qed

text \<open>
  C20: deleting an item frees its tree and nothing else. Every node of the tree is freed, none
  twice and none before its last use, and the rest of the heap is as before.
\<close>

theorem cjson_delete_frees_tree:
  assumes "represents h t v"
  shows "cJSON_Delete h (Some (jroot t)) = Some (h |` (- set (addrs t)))"
  using assms unfolding represents_def by (intro cJSON_Delete_tree) simp_all

text \<open>A new item is separate from what the heap holds.\<close>

lemma create_add:
  assumes "represents h (JT ob ts) (CObject ms)" "calloc h \<notin> dom h"
    and f: "\<And>n. jnChild (f n) = jnChild n"
      "\<And>n. v = jvalue (h(calloc h \<mapsto> f n)) (JT (calloc h) [])"
  shows "\<exists>p h'. add_created (create f calloc zero) h (Some ob) (Some k) = Some (p, h') \<and>
    represents h' (JT ob (ts @ [JT p []])) (CObject (ms @ [(k, v)]))"
proof -
  let ?p = "calloc h"
  let ?z = "\<lparr>jnNext = None, jnPrev = None, jnChild = None, jnType = 0, jnValuestring = None,
    jnInt = 0, jnDouble = zero, jnString = None\<rparr>"
  let ?h = "h(?p \<mapsto> f ?z)"
  have mk: "create f calloc zero h = (?p, ?h)"
    by (simp add: create_def new_item_def Let_def)
  have new: "represents ?h (JT ?p []) v"
    using f by (simp add: represents_def kids_def)
  have p: "?p \<notin> set (addrs (JT ob ts))"
    using assms(1,2) tree_ok_dom [of h "JT ob ts" ?p] by (auto simp: represents_def simp del: addrs.simps)
  have "represents ?h (JT ob ts) (CObject ms) = represents h (JT ob ts) (CObject ms)"
    by (rule represents_cong) (use p in auto)
  then show ?thesis
    using object_append [OF _ new, of ob ts ms k] assms(1) p mk
    by (auto simp: add_created_def)
qed

text \<open>
  Creating and adding in one step. With an allocator that returns an unused address, each of
  the four \<open>cJSON_Add...ToObject\<close> functions extends the object by a member with the value given,
  and returns its address.
\<close>

theorem cjson_add_to_object:
  assumes "represents h (JT ob ts) (CObject ms)" "calloc h \<notin> dom h"
  shows "(\<exists>p h'. add_created (create_number toint x calloc zero) h (Some ob) (Some k) = Some (p, h') \<and>
      represents h' (JT ob (ts @ [JT p []])) (CObject (ms @ [(k, cJSON_CreateNumber x)]))) \<and>
    (\<exists>p h'. add_created (create_string s calloc zero) h (Some ob) (Some k) = Some (p, h') \<and>
      represents h' (JT ob (ts @ [JT p []])) (CObject (ms @ [(k, cJSON_CreateString s)]))) \<and>
    (\<exists>p h'. add_created (create_bool b calloc zero) h (Some ob) (Some k) = Some (p, h') \<and>
      represents h' (JT ob (ts @ [JT p []])) (CObject (ms @ [(k, cJSON_CreateBool b)]))) \<and>
    (\<exists>p h'. add_created (create_null calloc zero) h (Some ob) (Some k) = Some (p, h') \<and>
      represents h' (JT ob (ts @ [JT p []])) (CObject (ms @ [(k, cJSON_CreateNull)])))"
proof (intro conjI)
  show "\<exists>p h'. add_created (create_bool b calloc zero) h (Some ob) (Some k) = Some (p, h') \<and>
      represents h' (JT ob (ts @ [JT p []])) (CObject (ms @ [(k, cJSON_CreateBool b)]))"
    unfolding create_bool_def by (cases "b \<noteq> 0")
      (auto simp: cJSON_CreateBool_def intro!: create_add [where calloc = calloc and h = h, OF assms])
qed (auto simp: create_number_def create_string_def create_null_def cJSON_CreateNumber_def
      cJSON_CreateString_def cJSON_CreateNull_def intro!: create_add [where calloc = calloc and h = h, OF assms])

section \<open>Instances\<close>

definition demo_node :: "ptr option \<Rightarrow> ptr option \<Rightarrow> ptr option \<Rightarrow> int \<Rightarrow> int \<Rightarrow> string option \<Rightarrow> int jnode" where
  "demo_node nx pv ch ty num key =
    \<lparr>jnNext = nx, jnPrev = pv, jnChild = ch, jnType = ty, jnValuestring = None, jnInt = num,
     jnDouble = num, jnString = key\<rparr>"

text \<open>An object at 0 with the members \<open>a\<close>, \<open>b\<close> at 1 and 2, and a separate item at 3.\<close>

definition demo_heap :: "int jheap" where
  "demo_heap =
    [0 \<mapsto> demo_node None None (Some 1) cJSON_Object 0 None,
     1 \<mapsto> demo_node (Some 2) (Some 2) None cJSON_Number 7 (Some ''a''),
     2 \<mapsto> demo_node None (Some 1) None cJSON_True 0 (Some ''b''),
     3 \<mapsto> demo_node None None None cJSON_Number 9 None]"

lemma demo_represents:
  "represents demo_heap (JT 0 [JT 1 [], JT 2 []]) (CObject [(''a'', CNumber 7), (''b'', CTrue)])"
  "represents demo_heap (JT 3 []) (CNumber 9)"
  "set (addrs (JT 0 [JT 1 [], JT 2 []])) \<inter> set (addrs (JT 3 [])) = {}"
  by (simp_all add: represents_def kids_def demo_heap_def demo_node_def type_at_def key_of_def)

theorem cjson_object_append_witness:
  "\<exists>h'. cJSON_AddItemToObject demo_heap (Some 0) (Some ''c'') (Some 3) = Some h' \<and>
    represents h' (JT 0 [JT 1 [], JT 2 [], JT 3 []])
      (CObject [(''a'', CNumber 7), (''b'', CTrue), (''c'', CNumber 9)])"
  using cjson_object_append [OF demo_represents, of "''c''"] by auto

theorem cjson_object_lookup_witness:
  "\<exists>r. heap_GetObjectItem demo_heap (Some 0) (Some ''b'') = Some (Some r) \<and> (r = 1 \<or> r = 2)"
  using cjson_object_lookup [OF demo_represents(1), of "''b''"]
  by (auto simp: CJson.cJSON_GetObjectItem_def)

theorem cjson_object_delete_witness:
  "\<exists>h' ts'. cJSON_DeleteItemFromObject demo_heap (Some 0) (Some ''b'') = Some h' \<and>
    represents h' (JT 0 ts') (CObject [(''a'', CNumber 7)])"
proof -
  have "delete_member ''b'' [(''a'', CNumber (7 :: int)), (''b'', CTrue)] = [(''a'', CNumber 7)]"
    by simp
  then show ?thesis
    using cjson_object_delete [OF demo_represents(1), of "''b''"] by (auto simp del: delete_member.simps)
qed

theorem cjson_object_replace_witness:
  "\<exists>h' ts. cJSON_ReplaceItemInObject demo_heap (Some 0) (Some ''a'') (Some 3) = Some (1, h') \<and>
    represents h' (JT 0 ts) (CObject [(''a'', CNumber 9), (''b'', CTrue)])"
proof -
  have "''a'' \<in> fst ` set [(''a'', CNumber (7 :: int)), (''b'', CTrue)]"
    "replace_member ''a'' (CNumber 9) [(''a'', CNumber (7 :: int)), (''b'', CTrue)] =
     [(''a'', CNumber 9), (''b'', CTrue)]"
    by simp_all
  then show ?thesis
    using cjson_object_replace [OF demo_represents, of "''a''"]
    by (auto simp del: replace_member.simps)
qed

theorem cjson_delete_frees_tree_witness:
  "\<exists>h'. cJSON_Delete demo_heap (Some 0) = Some h' \<and> dom h' = {3}"
proof -
  have "cJSON_Delete demo_heap (Some (jroot (JT 0 [JT 1 [], JT 2 []]))) =
      Some (demo_heap |` (- set (addrs (JT 0 [JT 1 [], JT 2 []]))))"
    by (rule cjson_delete_frees_tree [OF demo_represents(1)])
  then show ?thesis
    by (auto simp: demo_heap_def restrict_map_def dom_def split: if_splits)
qed

theorem cjson_add_to_object_witness:
  "\<exists>p h'. add_created (create_number id 5 (\<lambda>_. 8) 0) demo_heap (Some 0) (Some ''n'') = Some (p, h') \<and>
    represents h' (JT 0 [JT 1 [], JT 2 [], JT p []])
      (CObject [(''a'', CNumber 7), (''b'', CTrue), (''n'', CNumber 5)])"
proof -
  have "(8 :: nat) \<notin> dom demo_heap"
    by (simp add: demo_heap_def)
  with cjson_add_to_object [OF demo_represents(1), of "\<lambda>_. 8" id 5 0 "''n''" None 0] show ?thesis
    by (simp add: cJSON_CreateNumber_def)
qed

end
