(* ===== verification/Char_Displays.thy ===== *)
theory Char_Displays
  imports Interfaces
begin

unbundle bit_operations_syntax

text \<open>
  Displays of digits, segments and characters, \<open>src/include/MAX7219.h\<close>, \<open>TM1637Display.h\<close>,
  \<open>LiquidCrystal.h\<close> and \<open>LiquidCrystal_I2C.h\<close>. The lemmas show that the lights of the matrix are cells of a
  store, that rows and columns are two ways to write the same picture, that both digit displays show the same
  segments, and that the two character displays show the same text.
\<close>

section \<open>\<open>MAX7219.h\<close>\<close>

record max7219 =
  mxDevices :: nat
  mxIntensity :: byte
  mxBegun :: bool
  mxShutdown :: "bool list"
  mxDisplay :: "byte list list"

definition mx_new :: "byte \<Rightarrow> max7219" where
  "mx_new numDevices =
    \<lparr>mxDevices = unat numDevices, mxIntensity = 7, mxBegun = False, mxShutdown = replicate 8 False,
     mxDisplay = replicate 8 (replicate 8 0)\<rparr>"

definition mx_begin :: "max7219 \<Rightarrow> max7219" where
  "mx_begin s = s\<lparr>mxBegun := True\<rparr>"

text \<open>The arrays have room for eight devices; a device number that is accepted and larger is undefined.\<close>

definition mx_shutdown :: "nat \<Rightarrow> bool \<Rightarrow> max7219 \<Rightarrow> max7219 option" where
  "mx_shutdown device status s =
    (if device < mxDevices s then if device < 8 then Some (s\<lparr>mxShutdown := (mxShutdown s)[device := status]\<rparr>) else None
     else Some s)"

definition mx_setIntensity :: "byte \<Rightarrow> max7219 \<Rightarrow> max7219" where
  "mx_setIntensity intensity s = s\<lparr>mxIntensity := intensity AND 0x0F\<rparr>"

definition mx_update :: "nat \<Rightarrow> (byte list \<Rightarrow> byte list) \<Rightarrow> max7219 \<Rightarrow> max7219 option" where
  "mx_update device f s =
    (if device < 8 then Some (s\<lparr>mxDisplay := (mxDisplay s)[device := f (mxDisplay s ! device)]\<rparr>) else None)"

definition mx_clearDisplay :: "nat \<Rightarrow> max7219 \<Rightarrow> max7219 option" where
  "mx_clearDisplay device s = (if device < mxDevices s then mx_update device (\<lambda>_. replicate 8 0) s else Some s)"

definition mx_setRow :: "nat \<Rightarrow> nat \<Rightarrow> byte \<Rightarrow> max7219 \<Rightarrow> max7219 option" where
  "mx_setRow device row v s = (if device < mxDevices s \<and> row < 8 then mx_update device (\<lambda>d. d[row := v]) s else Some s)"

definition set_led :: "nat \<Rightarrow> nat \<Rightarrow> bool \<Rightarrow> byte list \<Rightarrow> byte list" where
  "set_led row col state d = d[row := (if state then d ! row OR push_bit col 1 else d ! row AND NOT (push_bit col 1))]"

definition mx_setColumn :: "nat \<Rightarrow> nat \<Rightarrow> byte \<Rightarrow> max7219 \<Rightarrow> max7219 option" where
  "mx_setColumn device col v s =
    (if device < mxDevices s \<and> col < 8 then mx_update device (fold (\<lambda>row. set_led row col (bit v row)) [0..<8]) s else Some s)"

definition mx_setLed :: "nat \<Rightarrow> nat \<Rightarrow> nat \<Rightarrow> bool \<Rightarrow> max7219 \<Rightarrow> max7219 option" where
  "mx_setLed device row col state s =
    (if device < mxDevices s \<and> row < 8 \<and> col < 8 then mx_update device (set_led row col state) s else Some s)"

definition mx_table :: "byte list" where
  "mx_table = [0x7E, 0x30, 0x6D, 0x79, 0x33, 0x5B, 0x5F, 0x70, 0x7F, 0x7B, 0x77, 0x1F, 0x4E, 0x3D, 0x4F, 0x47]"

definition mx_digit :: "byte \<Rightarrow> bool \<Rightarrow> byte" where
  "mx_digit v dp = (let w = (if v < 16 then mx_table ! unat v else 0) in if dp then w OR 0x80 else w)"

definition mx_setDigit :: "nat \<Rightarrow> nat \<Rightarrow> byte \<Rightarrow> bool \<Rightarrow> max7219 \<Rightarrow> max7219 option" where
  "mx_setDigit device digit v dp s =
    (if device < mxDevices s \<and> digit < 8 then mx_update device (\<lambda>d. d[digit := mx_digit v dp]) s else Some s)"

definition mx_setChar :: "nat \<Rightarrow> nat \<Rightarrow> byte \<Rightarrow> max7219 \<Rightarrow> max7219 option" where
  "mx_setChar device digit c s =
    (if device < mxDevices s \<and> digit < 8 then mx_update device (\<lambda>d. d[digit := c]) s else Some s)"

definition mx_getRow :: "nat \<Rightarrow> nat \<Rightarrow> max7219 \<Rightarrow> byte option" where
  "mx_getRow device row s =
    (if device < mxDevices s \<and> row < 8 then if device < 8 then Some (mxDisplay s ! device ! row) else None else Some 0)"

definition mx_getLed :: "nat \<Rightarrow> nat \<Rightarrow> nat \<Rightarrow> max7219 \<Rightarrow> bool option" where
  "mx_getLed device row col s =
    (if device < mxDevices s \<and> row < 8 \<and> col < 8
     then if device < 8 then Some (bit (mxDisplay s ! device ! row) col) else None else Some False)"

section \<open>\<open>TM1637Display.h\<close>\<close>

record tm1637 =
  tmBrightness :: byte
  tmOn :: bool
  tmColon :: bool
  tmLeadingZero :: bool
  tmLastNumber :: int
  tmSegments :: "byte list"

definition tm_new :: tm1637 where
  "tm_new = \<lparr>tmBrightness = 7, tmOn = True, tmColon = False, tmLeadingZero = False, tmLastNumber = 0, tmSegments = replicate 4 0\<rparr>"

definition tm_setBrightness :: "byte \<Rightarrow> bool \<Rightarrow> tm1637 \<Rightarrow> tm1637" where
  "tm_setBrightness brightness on s = s\<lparr>tmBrightness := brightness AND 0x07, tmOn := on\<rparr>"

text \<open>The caller's array has at least the declared length.\<close>

fun tm_segments_loop :: "byte list \<Rightarrow> nat \<Rightarrow> byte list \<Rightarrow> byte list" where
  "tm_segments_loop [] i segs = segs"
| "tm_segments_loop (x # xs) i segs = (if i < 4 then tm_segments_loop xs (i + 1) (segs[i := x]) else segs)"

definition tm_setSegments :: "byte list \<Rightarrow> byte \<Rightarrow> tm1637 \<Rightarrow> tm1637" where
  "tm_setSegments xs pos s = s\<lparr>tmSegments := tm_segments_loop xs (unat pos) (tmSegments s)\<rparr>"

definition tm_showNumberDec :: "int \<Rightarrow> bool \<Rightarrow> tm1637 \<Rightarrow> tm1637" where
  "tm_showNumberDec num leading_zero s = s\<lparr>tmLastNumber := num, tmLeadingZero := leading_zero\<rparr>"

definition tm_showNumberDecEx :: "int \<Rightarrow> byte \<Rightarrow> bool \<Rightarrow> tm1637 \<Rightarrow> tm1637" where
  "tm_showNumberDecEx num dots leading_zero s =
    s\<lparr>tmLastNumber := num, tmColon := (dots AND 0x40 \<noteq> 0), tmLeadingZero := leading_zero\<rparr>"

definition tm_clear :: "tm1637 \<Rightarrow> tm1637" where
  "tm_clear s = s\<lparr>tmSegments := replicate 4 0\<rparr>"

definition tm_table :: "byte list" where
  "tm_table = [0x3F, 0x06, 0x5B, 0x4F, 0x66, 0x6D, 0x7D, 0x07, 0x7F, 0x6F, 0x77, 0x7C, 0x39, 0x5E, 0x79, 0x71]"

definition tm_encodeDigit :: "byte \<Rightarrow> byte" where
  "tm_encodeDigit digit = (if digit < 16 then tm_table ! unat digit else 0)"

section \<open>\<open>LiquidCrystal_I2C.h\<close>\<close>

text \<open>Columns and rows are bytes; the cursor stays below 256 since it only grows below the number of columns.\<close>

record lcd_i2c =
  liCols :: nat
  liRows :: nat
  liInitialized :: bool
  liBacklight :: bool
  liDisplay :: bool
  liBlink :: bool
  liCursorOn :: bool
  liAutoscroll :: bool
  liScroll :: int
  liCol :: nat
  liRow :: nat
  liBuf :: "string list"
  liCustom :: "byte list list"

definition li_clear :: "lcd_i2c \<Rightarrow> lcd_i2c" where
  "li_clear s = s\<lparr>liBuf := replicate 4 (replicate 40 CHR '' ''), liCol := 0, liRow := 0\<rparr>"

definition li_new :: "byte \<Rightarrow> byte \<Rightarrow> lcd_i2c" where
  "li_new cols rows = li_clear
    \<lparr>liCols = unat cols, liRows = unat rows, liInitialized = False, liBacklight = True, liDisplay = True, liBlink = False,
     liCursorOn = False, liAutoscroll = False, liScroll = 0, liCol = 0, liRow = 0, liBuf = [], liCustom = replicate 8 (replicate 8 0)\<rparr>"

definition li_begin :: "lcd_i2c \<Rightarrow> lcd_i2c" where
  "li_begin s = li_clear (s\<lparr>liInitialized := True\<rparr>)"

definition li_home :: "lcd_i2c \<Rightarrow> lcd_i2c" where
  "li_home s = s\<lparr>liCol := 0, liRow := 0\<rparr>"

definition li_setCursor :: "byte \<Rightarrow> byte \<Rightarrow> lcd_i2c \<Rightarrow> lcd_i2c" where
  "li_setCursor col row s =
    s\<lparr>liCol := (if unat col < liCols s then unat col else 0), liRow := (if unat row < liRows s then unat row else 0)\<rparr>"

text \<open>The buffer has four rows of forty characters whatever size was declared.\<close>

fun li_print :: "string \<Rightarrow> lcd_i2c \<Rightarrow> (nat \<times> lcd_i2c) option" where
  "li_print [] s = Some (0, s)"
| "li_print (c # cs) s =
    (if liCol s < liCols s then
       if liRow s < 4 \<and> liCol s < 40 then
         map_option (\<lambda>(n, s). (n + 1, s))
           (li_print cs (s\<lparr>liBuf := (liBuf s)[liRow s := (liBuf s ! liRow s)[liCol s := c]], liCol := liCol s + 1\<rparr>))
       else None
     else Some (0, s))"

definition li_println :: "string \<Rightarrow> lcd_i2c \<Rightarrow> (nat \<times> lcd_i2c) option" where
  "li_println str s =
    map_option (\<lambda>(n, s). (n, s\<lparr>liCol := 0, liRow := (if liRow s + 1 < liRows s then liRow s + 1 else liRow s)\<rparr>)) (li_print str s)"

definition li_backlight :: "bool \<Rightarrow> lcd_i2c \<Rightarrow> lcd_i2c" where
  "li_backlight b s = s\<lparr>liBacklight := b\<rparr>"

definition li_display :: "bool \<Rightarrow> lcd_i2c \<Rightarrow> lcd_i2c" where
  "li_display b s = s\<lparr>liDisplay := b\<rparr>"

definition li_blink :: "bool \<Rightarrow> lcd_i2c \<Rightarrow> lcd_i2c" where
  "li_blink b s = s\<lparr>liBlink := b\<rparr>"

definition li_cursor :: "bool \<Rightarrow> lcd_i2c \<Rightarrow> lcd_i2c" where
  "li_cursor b s = s\<lparr>liCursorOn := b\<rparr>"

definition li_scroll :: "int \<Rightarrow> lcd_i2c \<Rightarrow> lcd_i2c" where
  "li_scroll d s = s\<lparr>liScroll := liScroll s + d\<rparr>"

definition li_autoscroll :: "bool \<Rightarrow> lcd_i2c \<Rightarrow> lcd_i2c" where
  "li_autoscroll b s = s\<lparr>liAutoscroll := b\<rparr>"

definition li_createChar :: "byte \<Rightarrow> byte list \<Rightarrow> lcd_i2c \<Rightarrow> lcd_i2c" where
  "li_createChar location charmap s =
    (if location < 8 then s\<lparr>liCustom := (liCustom s)[unat location := take 8 charmap]\<rparr> else s)"

text \<open>\<open>getRow\<close> copies into the caller's buffer \<open>out\<close> of \<open>len\<close> bytes, or leaves it as it is.\<close>

definition li_getRow :: "byte \<Rightarrow> string \<Rightarrow> lcd_i2c \<Rightarrow> string option" where
  "li_getRow row out s =
    (let len = length out
     in if unat row < liRows s \<and> len > 0 then
          let n = (if liCols s < len - 1 then liCols s else len - 1)
          in if unat row < 4 \<and> n \<le> 40 then Some (blit out 0 (take n (liBuf s ! unat row) @ [CHR 0x00])) else None
        else Some out)"

definition li_getChar :: "byte \<Rightarrow> byte \<Rightarrow> lcd_i2c \<Rightarrow> char option" where
  "li_getChar col row s =
    (if unat col < liCols s \<and> unat row < liRows s then
       if unat row < 4 \<and> unat col < 40 then Some (liBuf s ! unat row ! unat col) else None
     else Some CHR '' '')"

section \<open>\<open>LiquidCrystal.h\<close>\<close>

record lcd =
  lcCols :: nat
  lcRows :: nat
  lcCol :: nat
  lcRow :: nat
  lcLines :: "string list option"

definition lc_new :: lcd where
  "lc_new = \<lparr>lcCols = 16, lcRows = 2, lcCol = 0, lcRow = 0, lcLines = None\<rparr>"

definition lc_begin :: "byte \<Rightarrow> byte \<Rightarrow> lcd \<Rightarrow> lcd" where
  "lc_begin cols rows s = s\<lparr>lcCols := unat cols, lcRows := unat rows, lcLines := Some (replicate (unat rows) [])\<rparr>"

definition lc_clear :: "lcd \<Rightarrow> lcd option" where
  "lc_clear s =
    (case lcLines s of
       None \<Rightarrow> if 0 < lcRows s then None else Some (s\<lparr>lcCol := 0, lcRow := 0\<rparr>)
     | Some ls \<Rightarrow> Some (s\<lparr>lcLines := Some (replicate (lcRows s) []), lcCol := 0, lcRow := 0\<rparr>))"

definition lc_home :: "lcd \<Rightarrow> lcd" where
  "lc_home s = s\<lparr>lcCol := 0, lcRow := 0\<rparr>"

definition lc_setCursor :: "byte \<Rightarrow> byte \<Rightarrow> lcd \<Rightarrow> lcd" where
  "lc_setCursor col row s = s\<lparr>lcCol := unat col, lcRow := unat row\<rparr>"

definition resize_line :: "string \<Rightarrow> nat \<Rightarrow> string" where
  "resize_line l n = take n l @ replicate (n - length l) CHR '' ''"

definition lc_put :: "char \<Rightarrow> lcd \<Rightarrow> lcd option" where
  "lc_put c s =
    (if lcCol s < lcCols s then
       case lcLines s of
         None \<Rightarrow> None
       | Some ls \<Rightarrow>
           let l = ls ! lcRow s; l = (if length l \<le> lcCol s then resize_line l (lcCol s + 1) else l)
           in Some (s\<lparr>lcLines := Some (ls[lcRow s := l[lcCol s := c]]), lcCol := lcCol s + 1\<rparr>)
     else Some s)"

fun lc_put_all :: "string \<Rightarrow> lcd \<Rightarrow> lcd option" where
  "lc_put_all [] s = Some s"
| "lc_put_all (c # cs) s = Option.bind (lc_put c s) (lc_put_all cs)"

definition lc_print :: "string \<Rightarrow> lcd \<Rightarrow> (nat \<times> lcd) option" where
  "lc_print str s = (if lcRow s \<ge> lcRows s then Some (0, s) else map_option (\<lambda>s. (length str, s)) (lc_put_all str s))"

text \<open>What is seen in a cell: a line that ends before it leaves the cell blank.\<close>

definition lc_cell :: "nat \<Rightarrow> nat \<Rightarrow> lcd \<Rightarrow> char" where
  "lc_cell c r s =
    (case lcLines s of None \<Rightarrow> CHR '' '' | Some ls \<Rightarrow> if c < length (ls ! r) then ls ! r ! c else CHR '' '')"

section \<open>Lights\<close>

lemma set_led_bit:
  assumes "row < length d" "col < 8"
  shows "bit (set_led row col state d ! r) c = (if r = row \<and> c = col then state else bit (d ! r) c)"
  using assms by (auto simp: set_led_def nth_list_update bit_simps dest: bit_imp_le_length)

lemma length_set_led [simp]: "length (set_led row col state d) = length d"
  by (simp add: set_led_def)

lemma set_column_bit:
  assumes "col < 8" "\<forall>r \<in> set rows. r < length d"
  shows "bit (fold (\<lambda>row. set_led row col (bit v row)) rows d ! r) c =
      (if r \<in> set rows \<and> c = col then bit v r else bit (d ! r) c) \<and>
    length (fold (\<lambda>row. set_led row col (bit v row)) rows d) = length d"
  using assms(2)
proof (induction rows arbitrary: d)
  case (Cons a rows)
  then have "\<forall>r \<in> set rows. r < length (set_led a col (bit v a) d)"
    by simp
  from Cons.IH [OF this] show ?case
    using Cons.prems assms(1) by (auto simp: set_led_bit)
qed simp

definition mx_ok :: "max7219 \<Rightarrow> bool" where
  "mx_ok s \<longleftrightarrow> mxDevices s \<le> 8 \<and> length (mxDisplay s) = 8 \<and> (\<forall>d < 8. length (mxDisplay s ! d) = 8)"

definition on_mx :: "max7219 \<Rightarrow> nat \<times> nat \<times> nat \<Rightarrow> bool" where
  "on_mx s = (\<lambda>(d, r, c). d < mxDevices s \<and> r < 8 \<and> c < 8)"

definition mx_light :: "max7219 \<Rightarrow> nat \<times> nat \<times> nat \<Rightarrow> bool" where
  "mx_light s = (\<lambda>(d, r, c). on_mx s (d, r, c) \<and> bit (mxDisplay s ! d ! r) c)"

lemma mx_getLed_light: "mx_ok s \<Longrightarrow> mx_getLed d r c s = Some (mx_light s (d, r, c))"
  by (auto simp: mx_getLed_def mx_light_def on_mx_def mx_ok_def)

lemma mx_update_light:
  assumes "mx_ok s" "d < mxDevices s" "length (f (mxDisplay s ! d)) = 8"
  shows "\<exists>t. mx_update d f s = Some t \<and> mx_ok t \<and> mxDevices t = mxDevices s \<and>
    (\<forall>d' r c. mx_light t (d', r, c) =
      (if d' = d \<and> r < 8 \<and> c < 8 then bit (f (mxDisplay s ! d) ! r) c else mx_light s (d', r, c)))"
  using assms by (auto simp: mx_update_def mx_ok_def mx_light_def on_mx_def nth_list_update)

lemma mx_setRow_light:
  assumes "mx_ok s"
  shows "\<exists>t. mx_setRow d r v s = Some t \<and> mx_ok t \<and> mxDevices t = mxDevices s \<and>
    (\<forall>d' r' c. mx_light t (d', r', c) =
      (if d' = d \<and> r' = r \<and> on_mx s (d, r, c) then bit v c else mx_light s (d', r', c)))"
proof (cases "d < mxDevices s \<and> r < 8")
  case True
  then have "length (mxDisplay s ! d) = 8"
    using assms by (simp add: mx_ok_def)
  then show ?thesis
    using mx_update_light [OF assms, of d "\<lambda>x. x[r := v]"] True
    by (fastforce simp: mx_setRow_def mx_light_def on_mx_def nth_list_update)
qed (use assms in \<open>auto simp: mx_setRow_def on_mx_def\<close>)

lemma mx_setColumn_light:
  assumes "mx_ok s"
  shows "\<exists>t. mx_setColumn d c v s = Some t \<and> mx_ok t \<and> mxDevices t = mxDevices s \<and>
    (\<forall>d' r c'. mx_light t (d', r, c') =
      (if d' = d \<and> c' = c \<and> on_mx s (d, r, c) then bit v r else mx_light s (d', r, c')))"
proof (cases "d < mxDevices s \<and> c < 8")
  case True
  then have l: "length (mxDisplay s ! d) = 8"
    using assms by (simp add: mx_ok_def)
  let ?f = "fold (\<lambda>row. set_led row c (bit v row)) [0..<8]"
  have f: "bit (?f (mxDisplay s ! d) ! r) c' = (if r < 8 \<and> c' = c then bit v r else bit (mxDisplay s ! d ! r) c')"
    "length (?f (mxDisplay s ! d)) = 8" for r c'
    using set_column_bit [of c "[0..<8]" "mxDisplay s ! d" v r c'] True l by simp_all
  show ?thesis
    using mx_update_light [OF assms, of d ?f] True f by (fastforce simp: mx_setColumn_def mx_light_def on_mx_def)
qed (use assms in \<open>auto simp: mx_setColumn_def on_mx_def\<close>)

lemma mx_setLed_light:
  assumes "mx_ok s"
  shows "\<exists>t. mx_setLed d r c b s = Some t \<and> mx_ok t \<and> mxDevices t = mxDevices s \<and>
    (\<forall>k. mx_light t k = (if k = (d, r, c) \<and> on_mx s k then b else mx_light s k))"
proof (cases "d < mxDevices s \<and> r < 8 \<and> c < 8")
  case True
  then have l: "length (mxDisplay s ! d) = 8"
    using assms by (simp add: mx_ok_def)
  show ?thesis
    using mx_update_light [OF assms, of d "set_led r c b"] True l
    by (fastforce simp: mx_setLed_def mx_light_def on_mx_def set_led_bit)
qed (use assms in \<open>auto simp: mx_setLed_def on_mx_def\<close>)

interpretation mx: cell_store mx_ok on_mx "\<lambda>k b s. the (mx_setLed (fst k) (fst (snd k)) (snd (snd k)) b s)"
  mx_light "\<lambda>b. b"
proof
  fix s k b k'
  assume "mx_ok s"
  from mx_setLed_light [OF this, of "fst k" "fst (snd k)" "snd (snd k)" b] obtain t
    where t: "mx_setLed (fst k) (fst (snd k)) (snd (snd k)) b s = Some t" "mx_ok t" "mxDevices t = mxDevices s"
      "\<And>k'. mx_light t k' = (if k' = k \<and> on_mx s k' then b else mx_light s k')"
    by auto
  show "mx_ok (the (mx_setLed (fst k) (fst (snd k)) (snd (snd k)) b s))"
    "on_mx (the (mx_setLed (fst k) (fst (snd k)) (snd (snd k)) b s)) k' \<longleftrightarrow> on_mx s k'"
    "mx_light (the (mx_setLed (fst k) (fst (snd k)) (snd (snd k)) b s)) k' = (if k' = k \<and> on_mx s k then b else mx_light s k')"
    using t by (auto simp: on_mx_def)
qed

text \<open>Writing all rows, or all columns, of a device one after the other.\<close>

definition mx_all :: "(nat \<Rightarrow> max7219 \<Rightarrow> max7219 option) \<Rightarrow> nat list \<Rightarrow> max7219 \<Rightarrow> max7219 option" where
  "mx_all f js s = fold (\<lambda>i a. Option.bind a (f i)) js (Some s)"

lemma mx_all_light:
  assumes "mx_ok s"
    and "\<And>i s. mx_ok s \<Longrightarrow> \<exists>t. f i s = Some t \<and> mx_ok t \<and> mxDevices t = mxDevices s \<and>
      (\<forall>k. mx_light t k = (if at k = i \<and> on_mx s k \<and> fst k = d then v k else mx_light s k))"
  shows "\<exists>t. mx_all f js s = Some t \<and> mx_ok t \<and> mxDevices t = mxDevices s \<and>
    (\<forall>k. mx_light t k = (if at k \<in> set js \<and> on_mx s k \<and> fst k = d then v k else mx_light s k))"
proof (induction js rule: rev_induct)
  case (snoc i js)
  then obtain t where t: "mx_all f js s = Some t" "mx_ok t" "mxDevices t = mxDevices s"
    "\<forall>k. mx_light t k = (if at k \<in> set js \<and> on_mx s k \<and> fst k = d then v k else mx_light s k)"
    by blast
  have "on_mx t k = on_mx s k" for k
    using t(3) by (simp add: on_mx_def)
  then show ?case
    using assms(2) [OF t(2), of i] t by (auto simp: mx_all_def)
qed (simp add: mx_all_def assms(1))

section \<open>Text\<close>

definition li_ok :: "lcd_i2c \<Rightarrow> bool" where
  "li_ok s \<longleftrightarrow> liCols s \<le> 40 \<and> liRows s \<le> 4 \<and> length (liBuf s) = 4 \<and> (\<forall>r < 4. length (liBuf s ! r) = 40) \<and>
    liCol s \<le> liCols s \<and> liRow s < max 1 (liRows s)"

lemma li_print_eq:
  assumes "li_ok s" "n = min (length str) (liCols s - liCol s)"
  shows "li_print str s = Some (n, s\<lparr>liBuf := (liBuf s)[liRow s := blit (liBuf s ! liRow s) (liCol s) (take n str)],
    liCol := liCol s + n\<rparr>)"
  using assms
proof (induction str arbitrary: s n)
  case Nil
  then show ?case
    by (simp add: blit_def)
next
  case (Cons c str)
  show ?case
  proof (cases "liCol s < liCols s")
    case False
    then show ?thesis
      using Cons.prems by (simp add: li_ok_def blit_def)
  next
    case True
    have r: "liRow s < 4" "liCol s < 40" "length (liBuf s) = 4" "length (liBuf s ! liRow s) = 40"
      using Cons.prems(1) True by (auto simp: li_ok_def)
    let ?t = "s\<lparr>liBuf := (liBuf s)[liRow s := (liBuf s ! liRow s)[liCol s := c]], liCol := liCol s + 1\<rparr>"
    have "li_ok ?t"
      using Cons.prems(1) True by (auto simp: li_ok_def nth_list_update)
    moreover define m where "m = min (length str) (liCols s - (liCol s + 1))"
    moreover have n: "n = m + 1"
      using True Cons.prems(2) by (simp add: m_def)
    moreover have "blit ((liBuf s ! liRow s)[liCol s := c]) (liCol s + 1) (take m str) =
        blit (liBuf s ! liRow s) (liCol s) (take (m + 1) (c # str))"
      using r(2,4) by (simp add: blit_def take_Suc_conv_app_nth take_update_cancel upd_conv_take_nth_drop add.commute)
    ultimately show ?thesis
      using Cons.IH [of ?t m] True r by simp
  qed
qed

definition blank_cell :: "string \<Rightarrow> nat \<Rightarrow> char" where
  "blank_cell l c = (if c < length l then l ! c else CHR '' '')"

definition put_line :: "nat \<Rightarrow> char \<Rightarrow> string \<Rightarrow> string" where
  "put_line col c l = (if length l \<le> col then resize_line l (col + 1) else l)[col := c]"

lemma put_line_cell:
  "blank_cell (put_line col c l) x = (if x = col then c else blank_cell l x)" "length (put_line col c l) = max (length l) (col + 1)"
  by (auto simp: put_line_def blank_cell_def resize_line_def nth_list_update nth_append)

text \<open>The two character displays show the same.\<close>

definition lcd_sim :: "lcd \<Rightarrow> lcd_i2c \<Rightarrow> bool" where
  "lcd_sim a b \<longleftrightarrow> li_ok b \<and> lcCols a = liCols b \<and> lcRows a = liRows b \<and> lcCol a = liCol b \<and> lcRow a = liRow b \<and>
    lcRow a < lcRows a \<and>
    (\<exists>ls. lcLines a = Some ls \<and> length ls = lcRows a \<and>
      (\<forall>r < lcRows a. length (ls ! r) \<le> lcCols a \<and> (\<forall>c < lcCols a. blank_cell (ls ! r) c = liBuf b ! r ! c)))"

lemma lc_put_all_full: "lcCols a \<le> lcCol a \<Longrightarrow> lc_put_all str a = Some a"
  by (induction str) (simp_all add: lc_put_def)

lemma lcd_sim_print:
  assumes "lcd_sim a b"
  shows "\<exists>a' n b'. lc_put_all str a = Some a' \<and> li_print str b = Some (n, b') \<and> lcd_sim a' b' \<and>
    n = min (length str) (liCols b - liCol b)"
  using assms
proof (induction str arbitrary: a b)
  case (Cons c str)
  show ?case
  proof (cases "liCol b < liCols b")
    case False
    then show ?thesis
      using Cons.prems lc_put_all_full [of a "c # str"] by (auto simp: lcd_sim_def)
  next
    case True
    from Cons.prems obtain ls where ls: "lcLines a = Some ls" "length ls = lcRows a"
      "\<And>r. r < lcRows a \<Longrightarrow> length (ls ! r) \<le> lcCols a"
      "\<And>r x. r < lcRows a \<Longrightarrow> x < lcCols a \<Longrightarrow> blank_cell (ls ! r) x = liBuf b ! r ! x"
      by (auto simp: lcd_sim_def)
    have e: "li_ok b" "lcCols a = liCols b" "lcRows a = liRows b" "lcCol a = liCol b" "lcRow a = liRow b" "liRow b < liRows b"
      using Cons.prems by (auto simp: lcd_sim_def)
    have r: "liRow b < 4" "liCol b < 40" "length (liBuf b) = 4" "length (liBuf b ! liRow b) = 40"
      using e True by (auto simp: li_ok_def)
    let ?a = "a\<lparr>lcLines := Some (ls[lcRow a := put_line (lcCol a) c (ls ! lcRow a)]), lcCol := lcCol a + 1\<rparr>"
    let ?b = "b\<lparr>liBuf := (liBuf b)[liRow b := (liBuf b ! liRow b)[liCol b := c]], liCol := liCol b + 1\<rparr>"
    have "li_ok ?b"
      using e(1) True by (auto simp: li_ok_def nth_list_update)
    then have "lcd_sim ?a ?b"
      using e True ls r by (auto simp: lcd_sim_def nth_list_update put_line_cell)
    moreover have "lc_put c a = Some ?a"
      using True e ls(1) by (simp add: lc_put_def put_line_def Let_def)
    moreover have "li_print (c # str) b = map_option (\<lambda>(n, s). (n + 1, s)) (li_print str ?b)"
      using True r by simp
    ultimately show ?thesis
      using Cons.IH [of ?a ?b] True by auto
  qed
qed auto

datatype lcd_op = LPrint string | LSetCursor byte byte | LClear | LHome

fun lc_exec :: "lcd_op \<Rightarrow> lcd \<Rightarrow> lcd option" where
  "lc_exec (LPrint str) s = map_option snd (lc_print str s)"
| "lc_exec (LSetCursor c r) s = Some (lc_setCursor c r s)"
| "lc_exec LClear s = lc_clear s"
| "lc_exec LHome s = Some (lc_home s)"

fun li_exec :: "lcd_op \<Rightarrow> lcd_i2c \<Rightarrow> lcd_i2c option" where
  "li_exec (LPrint str) s = map_option snd (li_print str s)"
| "li_exec (LSetCursor c r) s = Some (li_setCursor c r s)"
| "li_exec LClear s = Some (li_clear s)"
| "li_exec LHome s = Some (li_home s)"

fun run_ops :: "('op \<Rightarrow> 's \<Rightarrow> 's option) \<Rightarrow> 'op list \<Rightarrow> 's \<Rightarrow> 's option" where
  "run_ops f [] s = Some s"
| "run_ops f (op # ops) s = Option.bind (f op s) (run_ops f ops)"

fun cursor_inside :: "byte \<Rightarrow> byte \<Rightarrow> lcd_op \<Rightarrow> bool" where
  "cursor_inside cols rows (LSetCursor c r) = (c < cols \<and> r < rows)"
| "cursor_inside cols rows _ = True"

lemma lcd_sim_step:
  assumes "lcd_sim a b" "cursor_inside cols rows op" "lcCols a = unat cols" "lcRows a = unat rows"
  shows "\<exists>a' b'. lc_exec op a = Some a' \<and> li_exec op b = Some b' \<and> lcd_sim a' b' \<and> lcCols a' = lcCols a \<and> lcRows a' = lcRows a"
proof (cases op)
  case (LPrint str)
  obtain a' n b' where p: "lc_put_all str a = Some a'" "li_print str b = Some (n, b')" "lcd_sim a' b'"
    "n = min (length str) (liCols b - liCol b)"
    using lcd_sim_print [OF assms(1), of str] by blast
  have "li_ok b"
    using assms(1) by (simp add: lcd_sim_def)
  from li_print_eq [OF this p(4)] have "liCols b' = liCols b" "liRows b' = liRows b"
    using p(2) by auto
  then show ?thesis
    using p assms(1) by (auto simp: LPrint lc_print_def lcd_sim_def)
next
  case (LSetCursor c r)
  then show ?thesis
    using assms by (auto simp: lc_setCursor_def li_setCursor_def lcd_sim_def li_ok_def word_less_nat_alt)
next
  case LClear
  then show ?thesis
    using assms(1) by (auto simp: lc_clear_def li_clear_def lcd_sim_def li_ok_def blank_cell_def split: option.splits)
next
  case LHome
  then show ?thesis
    using assms(1) by (auto simp: lc_home_def li_home_def lcd_sim_def li_ok_def)
qed

lemma run_ops_append: "run_ops f (xs @ ys) s = Option.bind (run_ops f xs s) (run_ops f ys)"
proof (induction xs arbitrary: s)
  case (Cons x xs)
  then show ?case
    by (cases "f x s") auto
qed simp

lemma run_ops_inv:
  assumes "good s" "\<And>op s. good s \<Longrightarrow> P op \<Longrightarrow> \<exists>t. f op s = Some t \<and> good t" "list_all P ops"
  shows "\<exists>t. run_ops f ops s = Some t \<and> good t"
  using assms(1,3)
proof (induction ops arbitrary: s)
  case (Cons op ops)
  then obtain t where "f op s = Some t" "good t"
    using assms(2) by fastforce
  then show ?case
    using Cons by simp
qed simp

lemma li_new_ok: "unat cols \<le> 40 \<Longrightarrow> unat rows \<le> 4 \<Longrightarrow> li_ok (li_new cols rows)"
  by (simp add: li_ok_def li_new_def li_clear_def)

lemma lcd_sim_new:
  assumes "unat cols \<le> 40" "unat rows \<le> 4" "0 < unat rows"
  shows "lcd_sim (lc_begin cols rows lc_new) (li_new cols rows)"
  using li_new_ok [OF assms(1,2)] assms by (auto simp: lcd_sim_def lc_begin_def lc_new_def li_new_def li_clear_def blank_cell_def)

text \<open>A display without columns never writes; otherwise a size beyond the buffer can be left.\<close>

lemma li_print_outside:
  assumes "40 < liCols s" "liCol s \<le> 40" "40 < length str + liCol s"
  shows "li_print str s = None"
  using assms
proof (induction str arbitrary: s)
  case (Cons c str)
  show ?case
  proof (cases "liCol s = 40")
    case False
    then show ?thesis
      using Cons.prems Cons.IH [of "s\<lparr>liBuf := (liBuf s)[liRow s := (liBuf s ! liRow s)[liCol s := c]], liCol := liCol s + 1\<rparr>"]
      by simp
  qed (use Cons.prems in simp)
qed simp

lemma li_exec_ok:
  assumes "li_ok s"
  shows "\<exists>t. li_exec op s = Some t \<and> li_ok t"
proof (cases op)
  case (LPrint str)
  have "liCol s < liCols s \<Longrightarrow> liRow s < 4"
    using assms by (auto simp: li_ok_def)
  moreover have "length (liBuf s ! liRow s) = 40" "liRow s < 4"
    using assms by (auto simp: li_ok_def)
  ultimately show ?thesis
    using assms li_print_eq [OF assms refl, of str]
    by (auto simp: LPrint li_ok_def nth_list_update length_blit)
qed (use assms in \<open>auto simp: li_setCursor_def li_clear_def li_home_def li_ok_def\<close>)

section \<open>Properties\<close>

text \<open>
  C31: Two character displays. For a size of at most 40 by 4 a sequence of texts, cursor positions inside the
  display, clears and homes leaves the same character in each cell of a \<open>LiquidCrystal\<close> and of a
  \<open>LiquidCrystal_I2C\<close>, although the first keeps lines that grow and the second a fixed buffer.
\<close>

theorem lcd_same_text:
  assumes "cols \<le> 40" "0 < rows" "rows \<le> 4" "list_all (cursor_inside cols rows) ops"
  shows "\<exists>a b. run_ops lc_exec ops (lc_begin cols rows lc_new) = Some a \<and> run_ops li_exec ops (li_new cols rows) = Some b \<and>
    (\<forall>c r. c < cols \<longrightarrow> r < rows \<longrightarrow> li_getChar c r b = Some (lc_cell (unat c) (unat r) a))"
proof -
  have u: "unat cols \<le> 40" "unat rows \<le> 4" "0 < unat rows"
    using assms(1-3) by (simp_all add: word_le_nat_alt word_less_nat_alt)
  have "\<exists>a' b'. run_ops lc_exec ops a = Some a' \<and> run_ops li_exec ops b = Some b' \<and> lcd_sim a' b' \<and>
      lcCols a' = unat cols \<and> lcRows a' = unat rows"
    if "lcd_sim a b" "lcCols a = unat cols" "lcRows a = unat rows" for a b
    using assms(4) that
  proof (induction ops arbitrary: a b)
    case (Cons op ops)
    from lcd_sim_step [OF Cons.prems(2) _ Cons.prems(3,4), of op] obtain a' b'
      where "lc_exec op a = Some a'" "li_exec op b = Some b'" "lcd_sim a' b'" "lcCols a' = unat cols" "lcRows a' = unat rows"
      using Cons.prems by auto
    then show ?case
      using Cons.IH [of a' b'] Cons.prems(1) by simp
  qed simp
  from this [OF lcd_sim_new [OF u]] obtain a b where
    ab: "run_ops lc_exec ops (lc_begin cols rows lc_new) = Some a" "run_ops li_exec ops (li_new cols rows) = Some b"
      "lcd_sim a b" "lcCols a = unat cols" "lcRows a = unat rows"
    by (auto simp: lc_begin_def)
  have "li_getChar c r b = Some (lc_cell (unat c) (unat r) a)" if "c < cols" "r < rows" for c r
    using ab(3-5) u that
    by (auto simp: li_getChar_def lc_cell_def lcd_sim_def li_ok_def blank_cell_def [symmetric] word_less_nat_alt split: option.splits)
  then show ?thesis
    using ab(1,2) by blast
qed

theorem lcd_same_text_witness:
  "\<exists>a b. run_ops lc_exec [LPrint ''Hello'', LSetCursor 14 1, LPrint ''world''] (lc_begin 16 2 lc_new) = Some a \<and>
    run_ops li_exec [LPrint ''Hello'', LSetCursor 14 1, LPrint ''world''] (li_new 16 2) = Some b \<and>
    li_getChar 15 1 b = Some (lc_cell 15 1 a)"
  using lcd_same_text [of 16 2 "[LPrint ''Hello'', LSetCursor 14 1, LPrint ''world'']"] by (auto simp del: lc_exec.simps li_exec.simps)

text \<open>
  Sizes of the I2C display. No sequence of calls, cursor positions outside the display included, touches
  memory outside the buffer exactly when the declared size fits into 40 by 4 (or has no columns).
\<close>

theorem lcd_i2c_fits:
  "(\<forall>ops. run_ops li_exec ops (li_new cols rows) \<noteq> None) \<longleftrightarrow> cols = 0 \<or> cols \<le> 40 \<and> rows \<le> 4"
proof
  assume run: "\<forall>ops. run_ops li_exec ops (li_new cols rows) \<noteq> None"
  have "unat cols \<le> 40"
    using run [rule_format, of "[LPrint (replicate 41 CHR ''x'')]"]
    by (cases "40 < unat cols") (simp_all add: li_print_outside li_new_def li_clear_def)
  moreover have "unat rows \<le> 4" if "cols \<noteq> 0"
    using run [rule_format, of "[LSetCursor 0 4, LPrint ''x'']"] that
    by (cases "4 < unat rows") (simp_all add: li_setCursor_def li_new_def li_clear_def unat_gt_0)
  ultimately show "cols = 0 \<or> cols \<le> 40 \<and> rows \<le> 4"
    by (auto simp: word_le_nat_alt)
next
  assume fits: "cols = 0 \<or> cols \<le> 40 \<and> rows \<le> 4"
  show "\<forall>ops. run_ops li_exec ops (li_new cols rows) \<noteq> None"
  proof (cases "cols = 0")
    case True
    have "\<exists>t. li_exec op s = Some t \<and> liCols t = 0" if "liCols s = 0" for op s
    proof (cases op)
      case (LPrint str)
      then show ?thesis
        using that by (cases str) simp_all
    qed (use that in \<open>auto simp: li_setCursor_def li_clear_def li_home_def\<close>)
    then show ?thesis
      using run_ops_inv [where good = "\<lambda>s. liCols s = 0" and f = li_exec and P = "\<lambda>_. True" and s = "li_new cols rows"] True
      by (fastforce simp: li_new_def li_clear_def list_all_iff)
  next
    case False
    then have "li_ok (li_new cols rows)"
      using fits by (intro li_new_ok) (simp_all add: word_le_nat_alt)
    then show ?thesis
      using run_ops_inv [where good = li_ok and f = li_exec and P = "\<lambda>_. True"] li_exec_ok by (fastforce simp: list_all_iff)
  qed
qed

text \<open>
  Lines. The lines printed one after the other with \<open>println\<close> on a new I2C display stand in rows from the
  top, cut at the width; there is no scrolling: from the last row on every line is written over the one before,
  whose rest stays visible when it was longer.
\<close>

theorem lcd_lines:
  assumes "cols \<le> 40" "0 < rows" "rows \<le> 4"
  shows "\<exists>t. run_ops (\<lambda>l s. map_option snd (li_println l s)) ls (li_new cols rows) = Some t \<and>
    (\<forall>i < unat rows. liBuf t ! i =
      fold (\<lambda>l row. blit row 0 (take (unat cols) l)) (if i + 1 < unat rows then take 1 (drop i ls) else drop i ls)
        (replicate 40 CHR '' ''))"
proof -
  have u: "unat cols \<le> 40" "unat rows \<le> 4" "0 < unat rows"
    using assms by (simp_all add: word_le_nat_alt word_less_nat_alt)
  let ?at = "\<lambda>i ls. if i + 1 < unat rows then take 1 (drop i ls) else drop i ls"
  have "\<exists>t. run_ops (\<lambda>l s. map_option snd (li_println l s)) ls (li_new cols rows) = Some t \<and> li_ok t \<and>
      liCols t = unat cols \<and> liRows t = unat rows \<and> liCol t = 0 \<and> liRow t = min (length ls) (unat rows - 1) \<and>
      (\<forall>i < unat rows. liBuf t ! i = fold (\<lambda>l row. blit row 0 (take (unat cols) l)) (?at i ls) (replicate 40 CHR '' ''))"
  proof (induction ls rule: rev_induct)
    case Nil
    then show ?case
      using li_new_ok [OF u(1,2)] u by (simp add: li_new_def li_clear_def)
  next
    case (snoc l ls)
    then obtain t where t: "run_ops (\<lambda>l s. map_option snd (li_println l s)) ls (li_new cols rows) = Some t" "li_ok t"
      "liCols t = unat cols" "liRows t = unat rows" "liCol t = 0" "liRow t = min (length ls) (unat rows - 1)"
      "\<And>i. i < unat rows \<Longrightarrow> liBuf t ! i = fold (\<lambda>l row. blit row 0 (take (unat cols) l)) (?at i ls) (replicate 40 CHR '' '')"
      by blast
    define r where "r = min (length ls) (unat rows - 1)"
    define t' where "t' = t\<lparr>liBuf := (liBuf t)[r := blit (liBuf t ! r) 0 (take (unat cols) l)],
      liCol := 0, liRow := (if r + 1 < unat rows then r + 1 else r)\<rparr>"
    have r: "r < unat rows" "r < 4" "length (liBuf t) = 4"
      using t(2,4,6) u by (auto simp: r_def li_ok_def)
    have "li_println l t = Some (min (length l) (unat cols), t')"
      using li_print_eq [OF t(2) refl, of l] t(3-6) by (simp add: li_println_def t'_def r_def min_def)
    moreover have "li_ok t'"
      using t(2-4) r u by (auto simp: t'_def li_ok_def nth_list_update length_blit)
    moreover have "?at i (ls @ [l]) = (if i = r then ?at i ls @ [l] else ?at i ls)" if "i < unat rows" for i
    proof (cases "i + 1 < unat rows")
      case True
      then show ?thesis
        using that by (cases "i < length ls") (auto simp: r_def)
    next
      case False
      then show ?thesis
        using that by (cases "i < length ls") (auto simp: r_def)
    qed
    then have "\<forall>i < unat rows. liBuf t' ! i =
        fold (\<lambda>l row. blit row 0 (take (unat cols) l)) (?at i (ls @ [l])) (replicate 40 CHR '' '')"
      using t(7) r by (simp add: t'_def nth_list_update del: drop_append take_append)
    ultimately show ?case
      using t(1,3,4) u by (auto simp: run_ops_append t'_def r_def)
  qed
  then show ?thesis
    by blast
qed

theorem lcd_lines_witness:
  "\<exists>t. run_ops (\<lambda>l s. map_option snd (li_println l s)) [''ab'', ''cdef'', ''gh''] (li_new 3 2) = Some t \<and>
    take 3 (liBuf t ! 0) = ''ab '' \<and> take 3 (liBuf t ! 1) = ''ghe''"
  using lcd_lines [of 3 2 "[''ab'', ''cdef'', ''gh'']"] by (auto simp: blit_def)

text \<open>
  Rows and columns. Writing a picture into a device of a MAX7219 chain by its eight rows or by its eight
  columns lights the same LEDs; the other devices do not change.
\<close>

theorem max_rows_columns:
  assumes "mx_ok s" "\<forall>r < 8. \<forall>c < 8. bit (row r :: byte) c = bit (col c :: byte) r"
  shows "\<exists>t u. mx_all (\<lambda>r. mx_setRow d r (row r)) [0..<8] s = Some t \<and> mx_all (\<lambda>c. mx_setColumn d c (col c)) [0..<8] s = Some u \<and>
    (\<forall>d' r c. mx_getLed d' r c t = mx_getLed d' r c u \<and>
      mx_getLed d' r c t = (if d' = d \<and> on_mx s (d, r, c) then Some (bit (row r) c) else mx_getLed d' r c s))"
proof -
  have r: "\<exists>t. mx_setRow d i (row i) s = Some t \<and> mx_ok t \<and> mxDevices t = mxDevices s \<and>
      (\<forall>k. mx_light t k = (if fst (snd k) = i \<and> on_mx s k \<and> fst k = d then bit (row (fst (snd k))) (snd (snd k)) else mx_light s k))"
    if "mx_ok s" for i s
    using mx_setRow_light [OF that, of d i "row i"] by (fastforce simp: on_mx_def)
  have c: "\<exists>t. mx_setColumn d i (col i) s = Some t \<and> mx_ok t \<and> mxDevices t = mxDevices s \<and>
      (\<forall>k. mx_light t k = (if snd (snd k) = i \<and> on_mx s k \<and> fst k = d then bit (col (snd (snd k))) (fst (snd k)) else mx_light s k))"
    if "mx_ok s" for i s
    using mx_setColumn_light [OF that, of d i "col i"] by (fastforce simp: on_mx_def)
  obtain t where t: "mx_all (\<lambda>r. mx_setRow d r (row r)) [0..<8] s = Some t" "mx_ok t"
    "\<And>k. mx_light t k = (if fst (snd k) \<in> set [0..<8] \<and> on_mx s k \<and> fst k = d then bit (row (fst (snd k))) (snd (snd k)) else mx_light s k)"
    using mx_all_light [where f = "\<lambda>r. mx_setRow d r (row r)" and at = "\<lambda>k. fst (snd k)" and d = d and js = "[0..<8]"
      and v = "\<lambda>k. bit (row (fst (snd k))) (snd (snd k))", OF assms(1) r] by blast
  obtain u where u: "mx_all (\<lambda>c. mx_setColumn d c (col c)) [0..<8] s = Some u" "mx_ok u"
    "\<And>k. mx_light u k = (if snd (snd k) \<in> set [0..<8] \<and> on_mx s k \<and> fst k = d then bit (col (snd (snd k))) (fst (snd k)) else mx_light s k)"
    using mx_all_light [where f = "\<lambda>c. mx_setColumn d c (col c)" and at = "\<lambda>k. snd (snd k)" and d = d and js = "[0..<8]"
      and v = "\<lambda>k. bit (col (snd (snd k))) (fst (snd k))", OF assms(1) c] by blast
  have light: "mx_light t (d', r, c) = (if d' = d \<and> on_mx s (d, r, c) then bit (row r) c else mx_light s (d', r, c)) \<and>
      mx_light t (d', r, c) = mx_light u (d', r, c)" for d' r c
    using t(3) u(3) assms(2) by (auto simp: on_mx_def)
  have "mx_getLed d' r c t = mx_getLed d' r c u \<and>
      mx_getLed d' r c t = (if d' = d \<and> on_mx s (d, r, c) then Some (bit (row r) c) else mx_getLed d' r c s)" for d' r c
    unfolding mx_getLed_light [OF t(2)] mx_getLed_light [OF u(2)] mx_getLed_light [OF assms(1)]
    using light [of d' r c] by (cases "d' = d \<and> on_mx s (d, r, c)") auto
  then show ?thesis
    using t(1) u(1) by blast
qed

theorem max_rows_columns_witness:
  "\<exists>t u. mx_all (\<lambda>r. mx_setRow 1 r (if r = 2 then 8 else 0)) [0..<8] (mx_new 2) = Some t \<and>
    mx_all (\<lambda>c. mx_setColumn 1 c (if c = 3 then 4 else 0)) [0..<8] (mx_new 2) = Some u \<and>
    mx_getLed 1 2 3 t = Some True \<and> mx_getLed 1 2 3 u = Some True"
proof -
  have ok: "mx_ok (mx_new 2)"
    by (simp add: mx_ok_def mx_new_def)
  have "\<forall>r \<in> set [0..<8]. \<forall>c \<in> set [0..<8]. bit (if r = 2 then 8 else 0 :: byte) c = bit (if c = 3 then 4 else 0 :: byte) r"
    by (simp add: upt_rec bit_numeral_rec)
  then have b: "\<forall>r < 8. \<forall>c < 8. bit (if r = 2 then 8 else 0 :: byte) c = bit (if c = 3 then 4 else 0 :: byte) r"
    by simp
  obtain t u where "mx_all (\<lambda>r. mx_setRow 1 r (if r = 2 then 8 else 0)) [0..<8] (mx_new 2) = Some t"
    "mx_all (\<lambda>c. mx_setColumn 1 c (if c = 3 then 4 else 0)) [0..<8] (mx_new 2) = Some u"
    and l: "\<forall>d' r c. mx_getLed d' r c t = mx_getLed d' r c u \<and>
      mx_getLed d' r c t = (if d' = 1 \<and> on_mx (mx_new 2) (1, r, c) then Some (bit (if r = 2 then 8 else 0 :: byte) c) else mx_getLed d' r c (mx_new 2))"
    using max_rows_columns [where row = "\<lambda>r. if r = 2 then 8 else 0" and col = "\<lambda>c. if c = 3 then 4 else 0" and d = 1, OF ok b] by blast
  moreover have e: "mx_getLed 1 2 3 t = mx_getLed 1 2 3 u"
    using l by blast
  moreover have "mx_getLed 1 2 3 t = Some True"
    using l [rule_format, of 1 2 3, THEN conjunct2] by (simp add: on_mx_def mx_new_def bit_numeral_rec)
  ultimately show ?thesis
    by metis
qed

text \<open>
  Lights. After any sequence of \<open>setLed\<close> on at most eight devices a light shows what was set last; positions
  outside are ignored and read as off.
\<close>

theorem max_lights:
  assumes "n \<le> 8"
  shows "mx_getLed d r c (fold (\<lambda>((d, r, c), b) s. the (mx_setLed d r c b s)) ps (mx_new n)) =
    Some (case map_of (rev ps) (d, r, c) of Some b \<Rightarrow> d < unat n \<and> r < 8 \<and> c < 8 \<and> b | None \<Rightarrow> False)"
proof -
  have ok: "mx_ok (mx_new n)"
    using assms by (simp add: mx_ok_def mx_new_def word_le_nat_alt)
  have e: "(\<lambda>((d, r, c), b) s. the (mx_setLed d r c b s)) =
      (\<lambda>(k, b) s. the (mx_setLed (fst k) (fst (snd k)) (snd (snd k)) b s))"
    by (auto simp: fun_eq_iff)
  have zero: "\<not> mx_light (mx_new n) k" for k
    using assms by (auto simp: mx_light_def on_mx_def mx_new_def word_le_nat_alt split: prod.splits)
  show ?thesis
    unfolding e using mx.writes_get [OF ok, of ps "(d, r, c)"] mx.writes_ok [OF ok, of ps "(d, r, c)"] zero
    by (auto simp: mx_getLed_light on_mx_def mx_new_def split: option.splits)
qed

theorem max_lights_witness:
  "mx_getLed 1 2 3 (fold (\<lambda>((d, r, c), b) s. the (mx_setLed d r c b s)) [((1, 2, 3), True), ((1, 2, 4), False)] (mx_new 2)) = Some True"
  using max_lights [of 2 1 2 3 "[((1, 2, 3), True), ((1, 2, 4), False)]"] by simp

text \<open>
  Digits. The sixteen digits have the same segments on a MAX7219 and on a TM1637, whose bytes name the
  segments in opposite order, and no two digits look the same. \<open>showNumberDec\<close> lights no segment.
\<close>

theorem digits_agree:
  assumes "v < 16" "w < 16"
  shows "(\<forall>k < 7. bit (mx_digit v dp) k = bit (tm_encodeDigit v) (6 - k)) \<and>
    (tm_encodeDigit v = tm_encodeDigit w \<longleftrightarrow> v = w) \<and>
    tmSegments (tm_showNumberDec num z s) = tmSegments s"
proof -
  have bits: "bit (mx_table ! i) k = bit (tm_table ! i) (6 - k)" if "k < 7" "i < 16" for k i
  proof -
    have "\<forall>i \<in> set [0..<16]. \<forall>k \<in> set [0..<7]. bit (mx_table ! i) k = bit (tm_table ! i) (6 - k)"
      by (simp add: upt_rec mx_table_def tm_table_def bit_numeral_rec)
    then show ?thesis
      using that by simp
  qed
  have u: "unat v < 16" "unat w < 16"
    using assms by (simp_all add: word_less_nat_alt)
  have "distinct tm_table" "length tm_table = 16"
    by (simp_all add: tm_table_def)
  then have "tm_encodeDigit v = tm_encodeDigit w \<longleftrightarrow> v = w"
    using assms u nth_eq_iff_index_eq [of tm_table "unat v" "unat w"] by (simp add: tm_encodeDigit_def word_unat_eq_iff [of v w])
  moreover have "bit (mx_digit v dp) k = bit (mx_table ! unat v) k" if "k < 7" for k
  proof -
    have "(0x80 :: byte) = push_bit 7 1"
      by simp
    then have "\<not> bit (0x80 :: byte) k"
      using that by (auto simp only: bit_simps)
    then show ?thesis
      using assms(1) that by (auto simp: mx_digit_def Let_def bit_or_iff)
  qed
  ultimately show ?thesis
    using bits u(1) assms(1) by (simp add: tm_encodeDigit_def tm_showNumberDec_def)
qed

theorem digits_agree_witness:
  "bit (mx_digit 6 True) 0 = bit (tm_encodeDigit 6) 6 \<and> tm_encodeDigit 6 \<noteq> tm_encodeDigit 8"
  using digits_agree [of 6 8 True 42 True tm_new] by auto

end
