(* ===== verification/Cloud_Clients.thy ===== *)
theory Cloud_Clients
  imports Interfaces
begin

unbundle bit_operations_syntax

text \<open>
  Clients of services in the network: the firmware download \<open>src/include/esp_https_ota.h\<close>, the message client
  \<open>AsyncMqttClient.h\<close> and the data logger \<open>ThingSpeak.h\<close>. The lemmas show when the download loop ends, how
  packets are numbered, that what is published is kept in order, and what a write to a channel takes with it.
\<close>

section \<open>\<open>esp_https_ota.h\<close>\<close>

abbreviation (input) "ESP_ERR_HTTPS_OTA_IN_PROGRESS \<equiv> (0x1010 :: int)"

record https_ota =
  hoInProgress :: bool
  hoCompleted :: bool
  hoTotal :: int
  hoDownloaded :: int
  hoShouldFail :: bool
  hoUrl :: string

definition hota_reset :: https_ota where
  "hota_reset = \<lparr>hoInProgress = False, hoCompleted = False, hoTotal = 102400, hoDownloaded = 0, hoShouldFail = False, hoUrl = []\<rparr>"

text \<open>A configuration is the URL in it, if there is one.\<close>

definition hota_once :: "string option \<Rightarrow> https_ota \<Rightarrow> esp_err \<times> https_ota" where
  "hota_once url s =
    (let s = (case url of Some u \<Rightarrow> s\<lparr>hoUrl := u\<rparr> | None \<Rightarrow> s)
     in if hoShouldFail s then (ESP_FAIL, s) else (ESP_OK, s\<lparr>hoCompleted := True\<rparr>))"

definition hota_begin :: "string option \<Rightarrow> https_ota \<Rightarrow> esp_err \<times> https_ota" where
  "hota_begin url s =
    (let s = hota_reset\<lparr>hoShouldFail := hoShouldFail s, hoInProgress := True\<rparr>;
         s = (case url of Some u \<Rightarrow> s\<lparr>hoUrl := u\<rparr> | None \<Rightarrow> s)
     in (if hoShouldFail s then ESP_FAIL else ESP_OK, s))"

text \<open>A size is not negative, so that division rounds down.\<close>

definition hota_perform :: "https_ota \<Rightarrow> esp_err \<times> https_ota" where
  "hota_perform s =
    (if \<not> hoInProgress s then (ESP_FAIL, s)
     else if hoShouldFail s then (ESP_FAIL, s)
     else
       let piece = hoTotal s div 4; s = s\<lparr>hoDownloaded := hoDownloaded s + piece\<rparr>
       in if hoDownloaded s \<ge> hoTotal s then (ESP_OK, s\<lparr>hoDownloaded := hoTotal s\<rparr>) else (ESP_ERR_HTTPS_OTA_IN_PROGRESS, s))"

definition hota_complete :: "https_ota \<Rightarrow> bool" where
  "hota_complete s \<longleftrightarrow> hoDownloaded s \<ge> hoTotal s"

definition hota_finish :: "https_ota \<Rightarrow> esp_err \<times> https_ota" where
  "hota_finish s = (ESP_OK, s\<lparr>hoInProgress := False, hoCompleted := True\<rparr>)"

text \<open>The loop of a sketch, \<open>while (perform() == IN_PROGRESS)\<close>; \<open>None\<close> when it does not end.\<close>

partial_function (option) hota_loop :: "https_ota \<Rightarrow> (esp_err \<times> https_ota) option" where
  "hota_loop s = (let (e, t) = hota_perform s in if e = ESP_ERR_HTTPS_OTA_IN_PROGRESS then hota_loop t else Some (e, t))"

text \<open>
  After a successful start the loop ends with the whole image downloaded and reported complete.
\<close>

lemma hota_loop_ends:
  assumes "hoInProgress s" "\<not> hoShouldFail s" "4 \<le> hoTotal s" "hoDownloaded s \<le> hoTotal s"
  shows "hota_loop s = Some (ESP_OK, s\<lparr>hoDownloaded := hoTotal s\<rparr>)"
  using assms
proof (induction "nat (hoTotal s - hoDownloaded s)" arbitrary: s rule: less_induct)
  case less
  define piece where "piece = hoTotal s div 4"
  define t where "t = s\<lparr>hoDownloaded := hoDownloaded s + piece\<rparr>"
  have p: "1 \<le> piece"
    using less.prems(3) zdiv_mono1 [of 4 "hoTotal s" 4] by (simp add: piece_def)
  show ?case
  proof (cases "hoDownloaded t \<ge> hoTotal s")
    case True
    then show ?thesis
      using less.prems by (subst hota_loop.simps) (simp add: hota_perform_def Let_def t_def piece_def)
  next
    case False
    have "nat (hoTotal t - hoDownloaded t) < nat (hoTotal s - hoDownloaded s)"
      using False p less.prems(4) by (simp add: t_def)
    then have "hota_loop t = Some (ESP_OK, t\<lparr>hoDownloaded := hoTotal t\<rparr>)"
      using False less.prems less.hyps [of t] by (simp add: t_def)
    then show ?thesis
      using False less.prems by (subst hota_loop.simps) (simp add: hota_perform_def Let_def t_def piece_def)
  qed
qed

theorem hota_downloads:
  assumes "hota_begin url s = (ESP_OK, t)"
  shows "\<exists>u. hota_loop t = Some (ESP_OK, u) \<and> hota_complete u \<and> hoDownloaded u = hoTotal u \<and>
    hota_loop (t\<lparr>hoTotal := 0\<rparr>) = Some (ESP_OK, t\<lparr>hoTotal := 0\<rparr>)"
proof -
  have t: "hoInProgress t" "\<not> hoShouldFail t" "hoTotal t = 102400" "hoDownloaded t = 0"
    using assms by (auto simp: hota_begin_def hota_reset_def Let_def split: option.splits if_splits)
  have "hota_loop (t\<lparr>hoTotal := 0\<rparr>) = Some (ESP_OK, t\<lparr>hoTotal := 0\<rparr>)"
    using t by (subst hota_loop.simps) (simp add: hota_perform_def Let_def)
  then show ?thesis
    using hota_loop_ends [of t] t by (simp add: hota_complete_def)
qed

theorem hota_downloads_witness:
  "\<exists>u. hota_loop (snd (hota_begin (Some ''u'') hota_reset)) = Some (ESP_OK, u) \<and> hota_complete u"
  using hota_downloads [of "Some ''u''" hota_reset "snd (hota_begin (Some ''u'') hota_reset)"]
  by (auto simp: hota_begin_def hota_reset_def Let_def)

text \<open>An image of one to three bytes is never complete: every call makes no progress and asks for another, and the loop does not end.\<close>

definition hota_stuck :: "https_ota \<Rightarrow> bool" where
  "hota_stuck s \<longleftrightarrow> 0 < hoTotal s \<and> hoTotal s < 4 \<and> hoInProgress s \<and> \<not> hoShouldFail s \<and> hoDownloaded s = 0"

lemma hota_stuck_perform:
  assumes "hota_stuck s"
  shows "hota_perform s = (ESP_ERR_HTTPS_OTA_IN_PROGRESS, s)"
proof -
  have "hoTotal s div 4 = 0"
    using assms by (simp add: hota_stuck_def)
  then show ?thesis
    using assms by (simp add: hota_stuck_def hota_perform_def Let_def)
qed

lemma hota_loop_result:
  assumes "hota_loop s = Some y"
  shows "\<not> hota_stuck s"
proof (rule hota_loop.raw_induct [of "\<lambda>s y. \<not> hota_stuck s", OF _ assms])
  fix f s y
  assume IH: "\<And>s y. f s = Some y \<Longrightarrow> \<not> hota_stuck s"
    and body: "(let (e, t) = hota_perform s in if e = ESP_ERR_HTTPS_OTA_IN_PROGRESS then f t else Some (e, t)) = Some y"
  show "\<not> hota_stuck s"
    using IH [of s y] body hota_stuck_perform [of s] by auto
qed

theorem hota_small_image:
  assumes "hota_stuck s"
  shows "hota_loop s = None"
  using hota_loop_result [of s] assms by (cases "hota_loop s") auto

theorem hota_small_image_witness:
  "hota_loop (hota_reset\<lparr>hoTotal := 3, hoInProgress := True\<rparr>) = None"
  using hota_small_image [of "hota_reset\<lparr>hoTotal := 3, hoInProgress := True\<rparr>"] by (simp add: hota_stuck_def hota_reset_def)

text \<open>\<open>finish\<close> reports a completed update whatever was downloaded, even nothing after a failed start.\<close>

theorem hota_finish_unchecked:
  "\<exists>t. hota_finish (snd (hota_begin url (s\<lparr>hoShouldFail := True\<rparr>))) = (ESP_OK, t) \<and> hoCompleted t \<and> \<not> hota_complete t"
  by (auto simp: hota_finish_def hota_begin_def hota_reset_def hota_complete_def Let_def split: option.splits)

section \<open>\<open>AsyncMqttClient.h\<close>\<close>

text \<open>
  Callbacks are code numbers; a callback is told of what happened after the state changed, and the calls are listed with what they were
  given.
\<close>

record amqtt_publish =
  apTopic :: string
  apPayload :: string
  apQos :: byte
  apRetain :: bool

datatype amqtt_call = CallConnect bool | CallDisconnect int | CallSubscribe u16 byte | CallUnsubscribe u16 | CallPublish u16
  | CallMessage string string byte nat nat nat

record amqtt =
  amHost :: string
  amPort :: u16
  amUser :: string
  amPass :: string
  amClientId :: string
  amKeepAlive :: u16
  amClean :: bool
  amConnected :: bool
  amNext :: u16
  amSubs :: "string \<rightharpoonup> byte"
  amPublished :: "amqtt_publish list"
  amHandlers :: "string set"

definition amqtt_new :: amqtt where
  "amqtt_new =
    \<lparr>amHost = [], amPort = 1883, amUser = [], amPass = [], amClientId = [], amKeepAlive = 60, amClean = True, amConnected = False,
     amNext = 1, amSubs = Map.empty, amPublished = [], amHandlers = {}\<rparr>"

definition am_setServer :: "string \<Rightarrow> u16 \<Rightarrow> amqtt \<Rightarrow> amqtt" where
  "am_setServer host port s = s\<lparr>amHost := host, amPort := port\<rparr>"

definition am_setCredentials :: "string option \<Rightarrow> string option \<Rightarrow> amqtt \<Rightarrow> amqtt" where
  "am_setCredentials user pass s =
    s\<lparr>amUser := (case user of Some u \<Rightarrow> u | None \<Rightarrow> []), amPass := (case pass of Some p \<Rightarrow> p | None \<Rightarrow> [])\<rparr>"

definition am_setClientId :: "string option \<Rightarrow> amqtt \<Rightarrow> amqtt" where
  "am_setClientId i s = s\<lparr>amClientId := (case i of Some c \<Rightarrow> c | None \<Rightarrow> [])\<rparr>"

definition am_setKeepAlive :: "u16 \<Rightarrow> amqtt \<Rightarrow> amqtt" where
  "am_setKeepAlive n s = s\<lparr>amKeepAlive := n\<rparr>"

definition am_setCleanSession :: "bool \<Rightarrow> amqtt \<Rightarrow> amqtt" where
  "am_setCleanSession c s = s\<lparr>amClean := c\<rparr>"

text \<open>A handler is set under the name of its event.\<close>

definition am_on :: "string \<Rightarrow> amqtt \<Rightarrow> amqtt" where
  "am_on event s = s\<lparr>amHandlers := insert event (amHandlers s)\<rparr>"

definition am_call :: "string \<Rightarrow> amqtt_call \<Rightarrow> amqtt \<Rightarrow> amqtt_call list" where
  "am_call event c s = (if event \<in> amHandlers s then [c] else [])"

definition am_connect :: "amqtt \<Rightarrow> amqtt_call list \<times> amqtt" where
  "am_connect s = (let s = s\<lparr>amConnected := True\<rparr> in (am_call ''connect'' (CallConnect False) s, s))"

definition am_disconnect :: "amqtt \<Rightarrow> amqtt_call list \<times> amqtt" where
  "am_disconnect s = (let s = s\<lparr>amConnected := False\<rparr> in (am_call ''disconnect'' (CallDisconnect 0) s, s))"

definition am_subscribe :: "string \<Rightarrow> byte \<Rightarrow> amqtt \<Rightarrow> u16 \<times> amqtt_call list \<times> amqtt" where
  "am_subscribe topic qos s =
    (let n = amNext s; s = s\<lparr>amNext := n + 1, amSubs := (amSubs s)(topic \<mapsto> qos)\<rparr> in (n, am_call ''subscribe'' (CallSubscribe n qos) s, s))"

definition am_unsubscribe :: "string \<Rightarrow> amqtt \<Rightarrow> u16 \<times> amqtt_call list \<times> amqtt" where
  "am_unsubscribe topic s =
    (let n = amNext s; s = s\<lparr>amNext := n + 1, amSubs := (amSubs s)(topic := None)\<rparr> in (n, am_call ''unsubscribe'' (CallUnsubscribe n) s, s))"

text \<open>The payload is the memory of the caller from its address on; a length of 0 stands for the text up to its end.\<close>

definition am_payload :: "string option \<Rightarrow> nat \<Rightarrow> string option" where
  "am_payload payload len =
    (case payload of
       None \<Rightarrow> Some []
     | Some m \<Rightarrow>
         let n = (if len > 0 then len else length (takeWhile (\<lambda>c. c \<noteq> CHR 0x00) m))
         in if n \<le> length m then Some (take n m) else None)"

definition am_publish :: "string \<Rightarrow> byte \<Rightarrow> bool \<Rightarrow> string option \<Rightarrow> nat \<Rightarrow> amqtt \<Rightarrow> (u16 \<times> amqtt_call list \<times> amqtt) option" where
  "am_publish topic qos retain payload len s =
    (let n = amNext s; s = s\<lparr>amNext := n + 1\<rparr>
     in case am_payload payload len of
          None \<Rightarrow> None
        | Some p \<Rightarrow>
            let s = s\<lparr>amPublished := amPublished s @ [\<lparr>apTopic = topic, apPayload = p, apQos = qos, apRetain = retain\<rparr>]\<rparr>
            in Some (n, am_call ''publish'' (CallPublish n) s, s))"

definition am_injectMessage :: "string \<Rightarrow> string \<Rightarrow> byte \<Rightarrow> amqtt \<Rightarrow> amqtt_call list" where
  "am_injectMessage topic payload qos s =
    (let n = length payload in am_call ''message'' (CallMessage topic payload qos n 0 n) s)"

definition am_reset :: "amqtt \<Rightarrow> amqtt" where
  "am_reset s = s\<lparr>amConnected := False, amPublished := [], amSubs := Map.empty, amNext := 1\<rparr>"

text \<open>A run of requests with the numbers of their packets.\<close>

datatype am_ask = Subscribe string byte | Unsubscribe string | Publish string byte bool string

fun am_request :: "am_ask \<Rightarrow> amqtt \<Rightarrow> u16 \<times> amqtt" where
  "am_request (Subscribe t q) s = (let (n, _, s) = am_subscribe t q s in (n, s))"
| "am_request (Unsubscribe t) s = (let (n, _, s) = am_unsubscribe t s in (n, s))"
| "am_request (Publish t q r p) s = (case am_publish t q r (Some p) (length p) s of Some (n, _, s) \<Rightarrow> (n, s) | None \<Rightarrow> (0, s))"

fun am_requests :: "am_ask list \<Rightarrow> amqtt \<Rightarrow> u16 list \<times> amqtt" where
  "am_requests [] s = ([], s)"
| "am_requests (r # rs) s = (let (n, s) = am_request r s; (ns, s) = am_requests rs s in (n # ns, s))"

lemma am_payload_all: "am_payload (Some p) (length p) = Some p"
  by (cases p) (simp_all add: am_payload_def)

lemma am_request_eq:
  "fst (am_request r s) = amNext s" "amNext (snd (am_request r s)) = amNext s + 1"
  "amPublished (snd (am_request r s)) = amPublished s @
    (case r of Publish t q rt p \<Rightarrow> [\<lparr>apTopic = t, apPayload = p, apQos = q, apRetain = rt\<rparr>] | _ \<Rightarrow> [])"
  by (cases r; simp add: am_subscribe_def am_unsubscribe_def am_publish_def am_payload_all Let_def)+

text \<open>
  Packets are numbered one after another from the number the client is at, modulo 65536: fewer than 65536 requests have
  different numbers. What is published is kept in its order, connected or not.
\<close>

theorem mqtt_packet_numbers:
  "fst (am_requests rs s) = map (\<lambda>i. amNext s + of_nat i) [0..<length rs] \<and>
   (length rs < 2 ^ 16 \<longrightarrow> distinct (fst (am_requests rs s))) \<and>
   map apPayload (amPublished (snd (am_requests rs s))) =
     map apPayload (amPublished s) @ concat (map (\<lambda>r. case r of Publish t q rt p \<Rightarrow> [p] | _ \<Rightarrow> []) rs)"
proof -
  have n: "fst (am_requests rs s) = map (\<lambda>i. amNext s + of_nat i) [0..<length rs]" for s
  proof (induction rs arbitrary: s)
    case (Cons r rs)
    obtain k t where r: "am_request r s = (k, t)"
      by fastforce
    have k: "k = amNext s" "amNext t = amNext s + 1"
      using am_request_eq [of r s] r by simp_all
    have "map (\<lambda>i. amNext s + of_nat i) [0..<length (r # rs)] = amNext s # map (\<lambda>i. amNext s + 1 + of_nat i) [0..<length rs]"
      by (simp add: upt_conv_Cons map_Suc_upt [symmetric] comp_def algebra_simps del: upt_Suc)
    then show ?case
      using Cons.IH [of t] r k by (cases "am_requests rs t") (simp del: upt_Suc)
  qed simp
  have "inj_on (\<lambda>i. amNext s + of_nat i) {0..<length rs}" if "length rs < 2 ^ 16"
  proof (rule inj_onI)
    fix i j
    assume ij: "i \<in> {0..<length rs}" "j \<in> {0..<length rs}" "amNext s + of_nat i = amNext s + of_nat j"
    then have "(of_nat i :: u16) = of_nat j"
      by simp
    then have "unat (of_nat i :: u16) = unat (of_nat j :: u16)"
      by simp
    then show "i = j"
      using ij that by (simp add: unat_of_nat take_bit_nat_eq_self)
  qed
  then have d: "length rs < 2 ^ 16 \<longrightarrow> distinct (fst (am_requests rs s))"
    unfolding n by (simp add: distinct_map)
  have p: "map apPayload (amPublished (snd (am_requests rs s))) =
     map apPayload (amPublished s) @ concat (map (\<lambda>r. case r of Publish t q rt p \<Rightarrow> [p] | _ \<Rightarrow> []) rs)"
  proof (induction rs arbitrary: s)
    case (Cons r rs)
    obtain k t where r: "am_request r s = (k, t)"
      by fastforce
    then show ?case
      using Cons.IH [of t] am_request_eq(3) [of r s] by (cases r) (auto split: prod.splits)
  qed simp
  show ?thesis
    using n d p by blast
qed

text \<open>The number 0, which stands for a failure, is given out after 65535 requests.\<close>

theorem mqtt_number_zero:
  assumes "length rs = 65535" "amNext s = 1"
  shows "fst (am_requests (rs @ [r]) s) ! 65535 = 0"
proof -
  have "fst (am_requests (rs @ [r]) s) = map (\<lambda>i. amNext s + of_nat i) [0..<length (rs @ [r])]"
    using mqtt_packet_numbers [of "rs @ [r]" s] by blast
  then show ?thesis
    using assms by (simp del: upt_Suc)
qed

section \<open>\<open>ThingSpeak.h\<close>\<close>

text \<open>Values are their texts; positions are numbers the program only keeps and are left out.\<close>

abbreviation (input) "TS_OK_SUCCESS \<equiv> (200 :: int)"
abbreviation (input) "TS_ERR_INVALID_FIELD_NUM \<equiv> (- 4 :: int)"

record thingspeak =
  tsServer :: string
  tsPort :: u16
  tsBegun :: bool
  tsChannel :: u64
  tsKey :: string
  tsFields :: "u32 \<rightharpoonup> string"
  tsLast :: "u32 \<rightharpoonup> string"
  tsReads :: "u32 \<rightharpoonup> string"
  tsWriteCount :: u32
  tsReadCount :: u32
  tsWriteStatus :: int
  tsReadStatus :: int
  tsStatus :: string

definition ts_new :: thingspeak where
  "ts_new =
    \<lparr>tsServer = [], tsPort = 80, tsBegun = False, tsChannel = 0, tsKey = [], tsFields = Map.empty, tsLast = Map.empty,
     tsReads = Map.empty, tsWriteCount = 0, tsReadCount = 0, tsWriteStatus = TS_OK_SUCCESS, tsReadStatus = TS_OK_SUCCESS, tsStatus = []\<rparr>"

definition ts_begin :: "string \<Rightarrow> u16 \<Rightarrow> thingspeak \<Rightarrow> bool \<times> thingspeak" where
  "ts_begin server port s = (True, s\<lparr>tsServer := server, tsPort := port, tsBegun := True\<rparr>)"

definition ts_setField :: "u32 \<Rightarrow> string \<Rightarrow> thingspeak \<Rightarrow> int \<times> thingspeak" where
  "ts_setField field v s =
    (if field < 1 \<or> field > 8 then (TS_ERR_INVALID_FIELD_NUM, s) else (TS_OK_SUCCESS, s\<lparr>tsFields := (tsFields s)(field \<mapsto> v)\<rparr>))"

definition ts_setStatus :: "string \<Rightarrow> thingspeak \<Rightarrow> int \<times> thingspeak" where
  "ts_setStatus st s = (TS_OK_SUCCESS, s\<lparr>tsStatus := st\<rparr>)"

definition ts_writeFields :: "u64 \<Rightarrow> string \<Rightarrow> thingspeak \<Rightarrow> int \<times> thingspeak" where
  "ts_writeFields channel key s =
    (tsWriteStatus s,
     s\<lparr>tsChannel := channel, tsKey := key, tsWriteCount := tsWriteCount s + 1, tsLast := tsFields s, tsFields := Map.empty, tsStatus := []\<rparr>)"

definition ts_writeField :: "u64 \<Rightarrow> u32 \<Rightarrow> string \<Rightarrow> string \<Rightarrow> thingspeak \<Rightarrow> int \<times> thingspeak" where
  "ts_writeField channel field v key s = ts_writeFields channel key (snd (ts_setField field v s))"

definition ts_readStringField :: "u32 \<Rightarrow> thingspeak \<Rightarrow> string \<times> thingspeak" where
  "ts_readStringField field s =
    (case tsReads s field of Some v \<Rightarrow> v | None \<Rightarrow> [], s\<lparr>tsReadCount := tsReadCount s + 1\<rparr>)"

definition ts_readMultipleFields :: "thingspeak \<Rightarrow> int \<times> thingspeak" where
  "ts_readMultipleFields s = (tsWriteStatus s, s\<lparr>tsReadCount := tsReadCount s + 1\<rparr>)"

definition ts_injectWriteStatus :: "int \<Rightarrow> thingspeak \<Rightarrow> thingspeak" where
  "ts_injectWriteStatus st s = s\<lparr>tsWriteStatus := st\<rparr>"

definition ts_injectReadValue :: "u32 \<Rightarrow> string \<Rightarrow> thingspeak \<Rightarrow> thingspeak" where
  "ts_injectReadValue field v s = s\<lparr>tsReads := (tsReads s)(field \<mapsto> v)\<rparr>"

definition ts_injectReadStatus :: "int \<Rightarrow> thingspeak \<Rightarrow> thingspeak" where
  "ts_injectReadStatus st s = s\<lparr>tsReadStatus := st\<rparr>"

definition ts_reset :: "thingspeak \<Rightarrow> thingspeak" where
  "ts_reset s =
    s\<lparr>tsFields := Map.empty, tsLast := Map.empty, tsReads := Map.empty, tsWriteCount := 0, tsReadCount := 0,
      tsWriteStatus := TS_OK_SUCCESS, tsReadStatus := TS_OK_SUCCESS\<rparr>"

definition ts_range :: "u32 \<Rightarrow> bool" where
  "ts_range f \<longleftrightarrow> 1 \<le> f \<and> f \<le> 8"

interpretation ts_cells: cell_store "\<lambda>s. \<forall>f\<in>dom (tsFields s). ts_range f" "\<lambda>_. ts_range" "\<lambda>f v s. snd (ts_setField f v s)" tsFields Some
proof unfold_locales
  fix s :: thingspeak and k v k'
  assume ok: "\<forall>f\<in>dom (tsFields s). ts_range f"
  have bad: "\<not> ts_range k \<longleftrightarrow> k < 1 \<or> k > 8"
    by (auto simp: ts_range_def not_le)
  show "\<forall>f\<in>dom (tsFields (snd (ts_setField k v s))). ts_range f"
    using ok bad by (auto simp: ts_setField_def split: if_splits)
  show "tsFields (snd (ts_setField k v s)) k' = (if k' = k \<and> ts_range k then Some v else tsFields s k')"
    using bad by (auto simp: ts_setField_def)
qed simp

text \<open>
  A write to a channel takes the last value set for each of the fields 1 to 8 since the write before, and no other field; and starts
  over. A single value for a field out of range is dropped and the write reported as a success.
\<close>

theorem thingspeak_write:
  fixes s :: thingspeak and fvs :: "(u32 \<times> string) list" and ch :: u64 and key :: string
  assumes "tsFields s = Map.empty"
  defines "t \<equiv> snd (ts_writeFields ch key (fold (\<lambda>(f, v) s. snd (ts_setField f v s)) fvs s))"
  shows "tsLast t f = (if ts_range f then map_of (rev fvs) f else None) \<and> tsFields t = Map.empty \<and>
    (\<not> ts_range g \<longrightarrow> ts_writeField ch g v key s = (tsWriteStatus s, snd (ts_writeFields ch key s)))"
proof -
  have ok: "\<forall>f\<in>dom (tsFields s). ts_range f"
    using assms(1) by simp
  have "tsLast t f = tsFields (fold (\<lambda>(f, v) s. snd (ts_setField f v s)) fvs s) f"
    by (simp add: t_def ts_writeFields_def)
  also have "\<dots> = (if ts_range f then map_of (rev fvs) f else None)"
    using ts_cells.writes_get [OF ok, where kvs = fvs and k' = f] assms(1) by (auto split: option.splits)
  finally have "tsLast t f = (if ts_range f then map_of (rev fvs) f else None)" .
  moreover have "tsFields t = Map.empty"
    by (simp add: t_def ts_writeFields_def)
  moreover have "ts_writeField ch g v key s = (tsWriteStatus s, snd (ts_writeFields ch key s))" if "\<not> ts_range g"
    using that by (auto simp: ts_writeField_def ts_setField_def ts_writeFields_def ts_range_def not_le)
  ultimately show ?thesis
    by blast
qed

theorem thingspeak_write_witness:
  "let t = snd (ts_writeFields 7 ''key'' (fold (\<lambda>(f, v) s. snd (ts_setField f v s)) [(1, ''a''), (9, ''b''), (1, ''c'')] ts_new))
   in tsLast t 1 = Some ''c'' \<and> tsLast t 9 = None \<and> tsFields t = Map.empty"
  using thingspeak_write [of ts_new 7 "''key''" "[(1, ''a''), (9, ''b''), (1, ''c'')]" 1 9 "''v''"]
    thingspeak_write [of ts_new 7 "''key''" "[(1, ''a''), (9, ''b''), (1, ''c'')]" 9 9 "''v''"]
  by (simp add: ts_new_def ts_range_def Let_def)

end
