(* ===== verification/Raster.thy ===== *)
theory Raster
  imports Interfaces
begin

unbundle bit_operations_syntax

text \<open>
  Drawing on frame buffers. The drawing loops of \<open>src/include/Adafruit_ILI9341.h\<close> (Bresenham's line, the midpoint
  circle, filled rectangles and discs) with their 16-bit variables, and the pixel stores of
  \<open>Adafruit_ST7735.h\<close>, \<open>Adafruit_ST7789.h\<close>, \<open>Adafruit_SSD1306.h\<close>, \<open>GxEPD2.h\<close> and of the canvas of
  \<open>Adafruit_GFX.h\<close>. The lemmas show that lines and circles end and are within half a pixel of the ideal ones,
  that filling colours just the area, where the loops never end, and for which sizes two pixels share a bit.
\<close>

section \<open>Loops with a 16-bit variable\<close>

text \<open>The conversion to \<open>int16_t\<close> wraps around.\<close>

definition i16 :: "int \<Rightarrow> int" where
  "i16 x = sint (word_of_int x :: 16 word)"

lemma i16_id [simp]: "- 32768 \<le> x \<Longrightarrow> x \<le> 32767 \<Longrightarrow> i16 x = x"
  by (simp add: i16_def signed_of_int signed_take_bit_int_eq_self)

lemma i16_range: "- 32768 \<le> i16 x" "i16 x \<le> 32767"
  unfolding i16_def using sint_greater_eq [of "word_of_int x :: 16 word"] sint_less [of "word_of_int x :: 16 word"] by simp_all

text \<open>\<open>for (int16_t i = i0; i < lim; i++)\<close> with a limit of type \<open>int\<close>.\<close>

partial_function (option) for_i16 :: "(int \<Rightarrow> 's \<Rightarrow> 's option) \<Rightarrow> int \<Rightarrow> int \<Rightarrow> 's \<Rightarrow> 's option" where
  "for_i16 body i lim s =
    (if i < lim then Option.bind (body i s) (for_i16 body (i16 (i + 1)) lim) else Some s)"

lemma for_i16_fold:
  assumes "\<And>i s. i0 \<le> i \<Longrightarrow> i < lim \<Longrightarrow> body i s = Some (f i s)" "- 32768 \<le> i0" "lim \<le> 32767" "i0 \<le> i"
  shows "for_i16 body i lim s = Some (fold f [i..lim - 1] s)"
  using assms(4)
proof (induction "nat (lim - i)" arbitrary: i s)
  case 0
  then show ?case
    by (simp add: for_i16.simps)
next
  case (Suc n)
  then have i: "i < lim"
    by linarith
  have "for_i16 body i lim s = for_i16 body (i + 1) lim (f i s)"
    using assms Suc.prems i by (subst for_i16.simps) simp
  also have "\<dots> = Some (fold f [i + 1..lim - 1] (f i s))"
    using Suc i by simp
  finally show ?case
    using i by (simp add: upto_rec1)
qed

text \<open>With a limit above the largest value of the variable the loop has no end.\<close>

lemma for_i16_endless:
  assumes "32767 < lim" "i \<le> 32767"
  shows "for_i16 body i lim s = None"
proof (cases "for_i16 body i lim s")
  case (Some t)
  have "for_i16 body i lim s = Some t \<Longrightarrow> 32767 < lim \<longrightarrow> i \<le> 32767 \<longrightarrow> False"
  proof (erule for_i16.raw_induct [where P = "\<lambda>body i lim s t. 32767 < lim \<longrightarrow> i \<le> 32767 \<longrightarrow> False", rotated], intro impI)
    fix f :: "(int \<Rightarrow> 'a \<Rightarrow> 'a option) \<Rightarrow> int \<Rightarrow> int \<Rightarrow> 'a \<Rightarrow> 'a option" and body i lim s y
    assume IH: "\<And>body i lim s y. f body i lim s = Some y \<Longrightarrow> 32767 < lim \<longrightarrow> i \<le> 32767 \<longrightarrow> False"
      and step: "(if i < lim then Option.bind (body i s) (f body (i16 (i + 1)) lim) else Some s) = Some y"
      and l: "32767 < lim" "i \<le> 32767"
    then obtain s' where "f body (i16 (i + 1)) lim s' = Some y"
      by (auto split: bind_splits)
    from IH [OF this] l(1) i16_range(2) show False
      by blast
  qed
  then show ?thesis
    using Some assms by blast
qed

section \<open>Bresenham's line\<close>

text \<open>
  The loop of \<open>drawLine\<close> with what \<open>drawPixel\<close> does as an argument: end point, extents (the
  vertical one negative), directions, and the variables \<open>x0\<close>, \<open>y0\<close>, \<open>err\<close>.
\<close>

partial_function (option) line_loop ::
  "(int \<Rightarrow> int \<Rightarrow> 's \<Rightarrow> 's) \<Rightarrow> int \<Rightarrow> int \<Rightarrow> int \<Rightarrow> int \<Rightarrow> int \<Rightarrow> int \<Rightarrow> int \<Rightarrow> int \<Rightarrow> int \<Rightarrow> 's \<Rightarrow> 's option" where
  "line_loop plot x1 y1 dx dy sx sy x0 y0 err s =
    (let s = plot x0 y0 s
     in if x0 = x1 \<and> y0 = y1 then Some s
        else
          let e2 = i16 (2 * err);
              (err, x0) = (if e2 \<ge> dy then (i16 (err + dy), i16 (x0 + sx)) else (err, x0));
              (err, y0) = (if e2 \<le> dx then (i16 (err + dx), i16 (y0 + sy)) else (err, y0))
          in line_loop plot x1 y1 dx dy sx sy x0 y0 err s)"

definition gfx_line :: "(int \<Rightarrow> int \<Rightarrow> 's \<Rightarrow> 's) \<Rightarrow> int \<Rightarrow> int \<Rightarrow> int \<Rightarrow> int \<Rightarrow> 's \<Rightarrow> 's option" where
  "gfx_line plot x0 y0 x1 y1 s =
    (let dx = i16 \<bar>x1 - x0\<bar>; sx = (if x0 < x1 then 1 else - 1);
         dy = i16 (- \<bar>y1 - y0\<bar>); sy = (if y0 < y1 then 1 else - 1);
         err = i16 (dx + dy)
     in line_loop plot x1 y1 dx dy sx sy x0 y0 err s)"

text \<open>The steps in units of the directions: \<open>a\<close> to the side and \<open>b\<close> up, of \<open>D\<close> and \<open>E\<close> in all.\<close>

definition bres_step :: "int \<Rightarrow> int \<Rightarrow> int \<times> int \<Rightarrow> int \<times> int" where
  "bres_step D E p =
    (case p of (a, b) \<Rightarrow>
      (if 2 * (b * D - a * E) \<ge> E - 2 * D then a + 1 else a, if 2 * (b * D - a * E) \<le> 2 * E - D then b + 1 else b))"

definition bres_inv :: "int \<Rightarrow> int \<Rightarrow> int \<Rightarrow> int \<times> int \<Rightarrow> bool" where
  "bres_inv D E k p \<longleftrightarrow>
    (case p of (a, b) \<Rightarrow> \<bar>2 * (b * D - a * E)\<bar> \<le> max D E \<and> 0 \<le> a \<and> a \<le> D \<and> 0 \<le> b \<and> b \<le> E \<and>
      (E \<le> D \<longrightarrow> a = k) \<and> (D \<le> E \<longrightarrow> b = k))"

lemma bres_overshoot:
  fixes D :: int
  assumes "2 * (b * D - a * E) \<le> D" "0 < D" "a \<le> D" "0 \<le> E"
  shows "b \<le> E"
proof (rule ccontr)
  assume "\<not> b \<le> E"
  then have "(E + 1) * D \<le> b * D"
    using assms(2) by (intro mult_right_mono) simp_all
  moreover have "a * E \<le> D * E"
    using assms(3,4) by (rule mult_right_mono)
  ultimately show False
    using assms(1,2) by (simp add: algebra_simps)
qed

lemma bres_inv_step:
  assumes "bres_inv D E k (a, b)" "0 \<le> D" "0 \<le> E" "k < max D E"
  shows "bres_inv D E (k + 1) (bres_step D E (a, b))"
proof (cases "E \<le> D")
  case True
  then have a: "a = k" "k < D" "D > 0" and d: "\<bar>2 * (b * D - a * E)\<bar> \<le> D" "0 \<le> a" "0 \<le> b"
    using assms by (auto simp: bres_inv_def)
  define P Q where "P = b * D" and "Q = a * E"
  have n: "(b + 1) * D = P + D" "(a + 1) * E = Q + E"
    by (simp_all add: P_def Q_def algebra_simps)
  have x: "2 * (P - Q) \<ge> E - 2 * D" and D: "\<bar>2 * (P - Q)\<bar> \<le> D"
    using d(1) True by (simp_all add: P_def Q_def)
  obtain b' where b': "bres_step D E (a, b) = (a + 1, b')" "b' = (if 2 * (P - Q) \<le> 2 * E - D then b + 1 else b)"
    using x by (simp add: bres_step_def P_def Q_def)
  have e: "b' * D = P + (if 2 * (P - Q) \<le> 2 * E - D then D else 0)"
    using n(1) by (simp add: b'(2) P_def)
  have ab: "\<bar>2 * (b' * D - (a + 1) * E)\<bar> \<le> D"
    unfolding e n(2) using D True assms(2,3) by (cases "2 * (P - Q) \<le> 2 * E - D") simp_all
  then have "b' \<le> E"
    using bres_overshoot [of b' D "a + 1" E] a assms(3) by simp
  moreover have "b' = k + 1" if "D = E"
  proof -
    have "b = k"
      using assms(1) that by (simp add: bres_inv_def)
    then show ?thesis
      using a that by (simp add: b'(2) P_def Q_def)
  qed
  moreover have "0 \<le> b'"
    using d(3) by (simp add: b'(2))
  ultimately show ?thesis
    unfolding b'(1) bres_inv_def prod.case using ab a(1,2) d(2) True by simp
next
  case False
  then have a: "b = k" "k < E" "E > 0" and d: "\<bar>2 * (b * D - a * E)\<bar> \<le> E" "0 \<le> a" "0 \<le> b"
    using assms by (auto simp: bres_inv_def)
  define P Q where "P = b * D" and "Q = a * E"
  have n: "(b + 1) * D = P + D" "(a + 1) * E = Q + E"
    by (simp_all add: P_def Q_def algebra_simps)
  have x: "2 * (P - Q) \<le> 2 * E - D" and D: "\<bar>2 * (P - Q)\<bar> \<le> E"
    using d(1) False by (simp_all add: P_def Q_def)
  obtain a' where a': "bres_step D E (a, b) = (a', b + 1)" "a' = (if 2 * (P - Q) \<ge> E - 2 * D then a + 1 else a)"
    using x by (simp add: bres_step_def P_def Q_def)
  have e: "a' * E = Q + (if 2 * (P - Q) \<ge> E - 2 * D then E else 0)"
    using n(2) by (simp add: a'(2) Q_def)
  have ab: "\<bar>2 * ((b + 1) * D - a' * E)\<bar> \<le> E"
    unfolding e n(1) using D False assms(2,3) by (cases "2 * (P - Q) \<ge> E - 2 * D") simp_all
  then have "a' \<le> D"
    using bres_overshoot [of a' E "b + 1" D] a assms(2) by (simp add: abs_minus_commute algebra_simps)
  moreover have "0 \<le> a'"
    using d(2) by (simp add: a'(2))
  ultimately show ?thesis
    unfolding a'(1) bres_inv_def prod.case using ab a(1,2) d(3) False by simp
qed

lemma bres_inv_end:
  assumes "bres_inv D E k (a, b)" "0 \<le> D" "0 \<le> E"
  shows "(a = D \<and> b = E) \<longleftrightarrow> k = max D E"
proof
  assume k: "k = max D E"
  have m: "m = 0" if "\<bar>m * c\<bar> * 2 \<le> c" "0 < c" for m c :: int
  proof (rule ccontr)
    assume "m \<noteq> 0"
    then have "1 * c \<le> \<bar>m\<bar> * c"
      using that(2) by (intro mult_right_mono) simp_all
    then show False
      using that by (simp add: abs_mult)
  qed
  show "a = D \<and> b = E"
  proof (cases "E \<le> D")
    case True
    then have "a = D" "\<bar>(b - E) * D\<bar> * 2 \<le> D" "b \<le> E" "0 \<le> b"
      using assms(1) k by (auto simp: bres_inv_def algebra_simps)
    then show ?thesis
      using m [of "b - E" D] True assms(2,3) by (cases "D = 0") auto
  next
    case False
    then have "b = E" "\<bar>(D - a) * E\<bar> * 2 \<le> E"
      using assms(1) k by (auto simp: bres_inv_def algebra_simps)
    then show ?thesis
      using m [of "D - a" E] False assms(2,3) by auto
  qed
qed (use assms in \<open>auto simp: bres_inv_def max_def split: if_splits\<close>)

fun bres_path :: "int \<Rightarrow> int \<Rightarrow> int \<times> int \<Rightarrow> nat \<Rightarrow> (int \<times> int) list" where
  "bres_path D E p 0 = [p]"
| "bres_path D E p (Suc n) = p # bres_path D E (bres_step D E p) n"

lemma length_bres_path [simp]: "length (bres_path D E p n) = Suc n"
  by (induction n arbitrary: p) simp_all

lemma hd_bres_path [simp]: "hd (bres_path D E p n) = p" "bres_path D E p n \<noteq> []"
  by (cases n; simp)+

text \<open>Neighbours on the path differ by at most one in each direction.\<close>

definition adjacent :: "int \<times> int \<Rightarrow> int \<times> int \<Rightarrow> bool" where
  "adjacent p q \<longleftrightarrow> \<bar>fst p - fst q\<bar> \<le> 1 \<and> \<bar>snd p - snd q\<bar> \<le> 1"

lemma bres_path_adjacent: "successively adjacent (bres_path D E p n)"
proof (induction n arbitrary: p)
  case (Suc n)
  have "adjacent p (bres_step D E p)"
    by (auto simp: adjacent_def bres_step_def split: prod.splits)
  then show ?case
    using Suc.IH [of "bres_step D E p"] by (simp add: successively_Cons)
qed simp

lemma bres_path_inv:
  assumes "bres_inv D E k p" "0 \<le> D" "0 \<le> E" "k \<le> max D E" "n = nat (max D E - k)"
  shows "last (bres_path D E p n) = (D, E) \<and> (\<forall>(a, b) \<in> set (bres_path D E p n). \<bar>2 * (b * D - a * E)\<bar> \<le> max D E)"
  using assms
proof (induction n arbitrary: k p)
  case 0
  then show ?case
    using bres_inv_end [of D E k "fst p" "snd p"] by (auto simp: bres_inv_def split: prod.splits)
next
  case (Suc n)
  then have k: "k < max D E" "n = nat (max D E - (k + 1))"
    by simp_all
  obtain a b where p: "p = (a, b)"
    by fastforce
  have i: "bres_inv D E (k + 1) (bres_step D E p)"
    using bres_inv_step Suc.prems(1-3) k(1) unfolding p by blast
  show ?case
    using Suc.IH [OF i Suc.prems(2,3) _ k(2)] k(1) Suc.prems(1) by (auto simp: bres_inv_def)
qed

lemma between_steps:
  fixes x0 :: int
  assumes "x1 = x0 + sx * D" "sx = 1 \<or> sx = - 1" "0 \<le> a" "a \<le> D" "- 32768 \<le> x0" "x0 \<le> 32767" "- 32768 \<le> x1" "x1 \<le> 32767"
  shows "- 32768 \<le> x0 + sx * a \<and> x0 + sx * a \<le> 32767"
  using assms by auto

lemma line_loop_path:
  assumes D: "0 \<le> D" "D \<le> 10922" "0 \<le> E" "E \<le> 10922"
    and x: "x1 = x0 + sx * D" "sx = 1 \<or> sx = - 1" "- 32768 \<le> x0" "x0 \<le> 32767" "- 32768 \<le> x1" "x1 \<le> 32767"
    and y: "y1 = y0 + sy * E" "sy = 1 \<or> sy = - 1" "- 32768 \<le> y0" "y0 \<le> 32767" "- 32768 \<le> y1" "y1 \<le> 32767"
    and i: "bres_inv D E k (a, b)" "k \<le> max D E" "n = nat (max D E - k)"
  shows "line_loop plot x1 y1 D (- E) sx sy (x0 + sx * a) (y0 + sy * b) ((b + 1) * D - (a + 1) * E) s =
    Some (fold (\<lambda>(a, b). plot (x0 + sx * a) (y0 + sy * b)) (bres_path D E (a, b) n) s)"
  using i
proof (induction n arbitrary: k a b s)
  case 0
  then have "a = D" "b = E"
    using bres_inv_end [of D E k a b] D by auto
  then show ?case
    by (simp add: line_loop.simps x(1) y(1))
next
  case (Suc n)
  then have k: "k < max D E" "n = nat (max D E - (k + 1))"
    by simp_all
  define p q where "p \<longleftrightarrow> 2 * (b * D - a * E) \<ge> E - 2 * D" and "q \<longleftrightarrow> 2 * (b * D - a * E) \<le> 2 * E - D"
  define a' b' where "a' = (if p then a + 1 else a)" and "b' = (if q then b + 1 else b)"
  have step: "bres_step D E (a, b) = (a', b')"
    by (simp add: bres_step_def a'_def b'_def p_def q_def)
  have i': "bres_inv D E (k + 1) (a', b')"
    using bres_inv_step [OF Suc.prems(1) D(1,3) k(1)] by (simp add: step)
  have going: "\<not> (x0 + sx * a = x1 \<and> y0 + sy * b = y1)"
    using bres_inv_end [OF Suc.prems(1) D(1,3)] k(1) x(1,2) y(1,2) by auto
  define P Q where "P = b * D" and "Q = a * E"
  define err where "err = P + D - (Q + E)"
  have e0: "(b + 1) * D - (a + 1) * E = err"
    by (simp add: err_def P_def Q_def algebra_simps)
  have pq: "p \<longleftrightarrow> 2 * err \<ge> - E" "q \<longleftrightarrow> 2 * err \<le> D"
    by (auto simp: p_def q_def err_def P_def Q_def)
  have e: "(b' + 1) * D - (a' + 1) * E = err + (if p then - E else 0) + (if q then D else 0)"
    by (simp add: a'_def b'_def err_def P_def Q_def algebra_simps)
  have "\<bar>2 * (P - Q)\<bar> \<le> max D E"
    using Suc.prems(1) by (simp add: bres_inv_def P_def Q_def)
  then have "- 10922 \<le> 2 * (P - Q)" "2 * (P - Q) \<le> 10922"
    using D by linarith+
  then have "\<bar>2 * err\<bar> \<le> 32767 \<and> \<bar>err + - E\<bar> \<le> 32767 \<and> \<bar>err + D\<bar> \<le> 32767 \<and> \<bar>err + - E + D\<bar> \<le> 32767"
    using D unfolding err_def abs_le_iff by (intro conjI) simp_all
  then have w: "i16 (2 * err) = 2 * err" "i16 (err + - E) = err + - E" "i16 (err + D) = err + D" "i16 (err + - E + D) = err + - E + D"
    by (simp_all only: abs_le_iff) (simp_all add: i16_id)
  have ax: "i16 (x0 + sx * a + sx) = x0 + sx * a'" if p
    using between_steps [OF x(1,2) _ _ x(3-6), of a'] i' that by (auto simp: bres_inv_def a'_def algebra_simps)
  have ay: "i16 (y0 + sy * b + sy) = y0 + sy * b'" if q
    using between_steps [OF y(1,2) _ _ y(3-6), of b'] i' that by (auto simp: bres_inv_def b'_def algebra_simps)
  have na: "\<not> p \<Longrightarrow> a' = a" and nb: "\<not> q \<Longrightarrow> b' = b"
    by (simp_all add: a'_def b'_def)
  have "line_loop plot x1 y1 D (- E) sx sy (x0 + sx * a) (y0 + sy * b) err s =
    line_loop plot x1 y1 D (- E) sx sy (x0 + sx * a') (y0 + sy * b') ((b' + 1) * D - (a' + 1) * E) (plot (x0 + sx * a) (y0 + sy * b) s)"
    unfolding e
    by (subst line_loop.simps, cases p; cases q)
      (simp_all only: going w pq [symmetric] ax ay na nb Let_def if_True if_False prod.case refl simp_thms add_0_right)
  then show ?case
    using Suc.IH [OF i' _ k(2)] k(1) by (simp add: e0 step)
qed

lemma gfx_line_path:
  fixes x0 y0 x1 y1 :: int
  assumes "- 32768 \<le> x0" "x0 \<le> 32767" "- 32768 \<le> x1" "x1 \<le> 32767"
    "- 32768 \<le> y0" "y0 \<le> 32767" "- 32768 \<le> y1" "y1 \<le> 32767" "\<bar>x1 - x0\<bar> \<le> 10922" "\<bar>y1 - y0\<bar> \<le> 10922"
  defines "sx \<equiv> if x0 < x1 then 1 else - 1" and "sy \<equiv> if y0 < y1 then 1 else - 1"
  shows "gfx_line plot x0 y0 x1 y1 s =
    Some (fold (\<lambda>(a, b). plot (x0 + sx * a) (y0 + sy * b))
      (bres_path \<bar>x1 - x0\<bar> \<bar>y1 - y0\<bar> (0, 0) (nat (max \<bar>x1 - x0\<bar> \<bar>y1 - y0\<bar>))) s)"
proof -
  let ?D = "\<bar>x1 - x0\<bar>" and ?E = "\<bar>y1 - y0\<bar>"
  have x: "x1 = x0 + sx * ?D" and y: "y1 = y0 + sy * ?E"
    by (simp_all add: sx_def sy_def)
  have "sx = 1 \<or> sx = - 1" "sy = 1 \<or> sy = - 1"
    by (simp_all add: sx_def sy_def)
  note l = line_loop_path [OF _ assms(9) _ assms(10) x this(1) assms(1-4) y this(2) assms(5-8), of 0 0 0 _ plot s]
  have "bres_inv ?D ?E 0 (0, 0)"
    by (simp add: bres_inv_def)
  moreover have "0 \<le> max ?D ?E"
    by (simp add: le_max_iff_disj)
  moreover have "i16 ?D = ?D" "i16 (- ?E) = - ?E" "i16 (?D + - ?E) = ?D - ?E"
    using assms(9,10) by simp_all
  ultimately show ?thesis
    using l [OF _ _ _ _ refl] by (simp add: gfx_line_def Let_def sx_def [symmetric] sy_def [symmetric])
qed

section \<open>The midpoint circle\<close>

text \<open>The eight points that symmetry gives for one, as offsets from the centre in the order they are drawn.\<close>

definition octants :: "int \<Rightarrow> int \<Rightarrow> (int \<times> int) list" where
  "octants x y = [(x, y), (- x, y), (x, - y), (- x, - y), (y, x), (- y, x), (y, - x), (- y, - x)]"

definition plot_at :: "(int \<Rightarrow> int \<Rightarrow> 's \<Rightarrow> 's) \<Rightarrow> int \<Rightarrow> int \<Rightarrow> int \<times> int \<Rightarrow> 's \<Rightarrow> 's" where
  "plot_at plot x0 y0 p = plot (i16 (x0 + fst p)) (i16 (y0 + snd p))"

partial_function (option) circle_loop ::
  "(int \<Rightarrow> int \<Rightarrow> 's \<Rightarrow> 's) \<Rightarrow> int \<Rightarrow> int \<Rightarrow> int \<Rightarrow> int \<Rightarrow> int \<Rightarrow> int \<Rightarrow> int \<Rightarrow> 's \<Rightarrow> 's option" where
  "circle_loop plot x0 y0 x y f ddF_x ddF_y s =
    (if x < y then
       let (y, ddF_y, f) =
             (if f \<ge> 0 then (i16 (y - 1), i16 (ddF_y + 2), i16 (f + i16 (ddF_y + 2))) else (y, ddF_y, f));
           x = i16 (x + 1); ddF_x = i16 (ddF_x + 2); f = i16 (f + ddF_x)
       in circle_loop plot x0 y0 x y f ddF_x ddF_y (fold (plot_at plot x0 y0) (octants x y) s)
     else Some s)"

definition gfx_circle :: "(int \<Rightarrow> int \<Rightarrow> 's \<Rightarrow> 's) \<Rightarrow> int \<Rightarrow> int \<Rightarrow> int \<Rightarrow> 's \<Rightarrow> 's option" where
  "gfx_circle plot x0 y0 r s =
    circle_loop plot x0 y0 0 r (i16 (1 - r)) 1 (i16 (- 2 * r))
      (fold (plot_at plot x0 y0) [(0, r), (0, - r), (r, 0), (- r, 0)] s)"

text \<open>A set of offsets that the reflections at the axes and at the diagonal map to itself.\<close>

definition symmetric :: "(int \<times> int) set \<Rightarrow> bool" where
  "symmetric P \<longleftrightarrow> (\<forall>(a, b) \<in> P. (- a, b) \<in> P \<and> (a, - b) \<in> P \<and> (b, a) \<in> P)"

lemma symmetric_octants: "symmetric (set (octants x y))"
  by (simp add: symmetric_def octants_def)

lemma symmetric_Un: "symmetric P \<Longrightarrow> symmetric Q \<Longrightarrow> symmetric (P \<union> Q)"
  unfolding symmetric_def by fastforce

definition on_circle :: "int \<Rightarrow> int \<times> int \<Rightarrow> bool" where
  "on_circle r p \<longleftrightarrow> \<bar>(fst p)\<^sup>2 + (snd p)\<^sup>2 - r\<^sup>2\<bar> \<le> r + 1"

lemma on_circle_octants:
  "\<bar>x\<^sup>2 + y\<^sup>2 - r\<^sup>2\<bar> \<le> r + 1 \<Longrightarrow> list_all (on_circle r) (octants x y)"
  by (simp add: octants_def on_circle_def add.commute)

text \<open>The error term is the deviation from the circle at the next midpoint.\<close>

definition circle_inv :: "int \<Rightarrow> int \<Rightarrow> int \<Rightarrow> int \<Rightarrow> bool" where
  "circle_inv r x y f \<longleftrightarrow> f = (x + 1)\<^sup>2 + y\<^sup>2 - y - r\<^sup>2 \<and> - 2 * y + 2 * x + 1 \<le> f \<and> f \<le> 2 * x + 2 \<and>
    (x < y \<longrightarrow> f \<le> 2 * x + 1) \<and> 0 \<le> x \<and> 0 \<le> y \<and> y \<le> r \<and> r \<le> 16000"

lemma circle_inv_step:
  assumes "circle_inv r x y f" "x < y"
  shows "f \<ge> 0 \<Longrightarrow> circle_inv r (x + 1) (y - 1) (f - 2 * y + 2 * x + 5)"
    "f < 0 \<Longrightarrow> circle_inv r (x + 1) y (f + 2 * x + 3)"
proof -
  have s: "(x + 1 + 1)\<^sup>2 = (x + 1)\<^sup>2 + 2 * x + 3" "(y - 1)\<^sup>2 = y\<^sup>2 - 2 * y + 1"
    by (simp_all add: power2_eq_square algebra_simps)
  show "f \<ge> 0 \<Longrightarrow> circle_inv r (x + 1) (y - 1) (f - 2 * y + 2 * x + 5)"
    "f < 0 \<Longrightarrow> circle_inv r (x + 1) y (f + 2 * x + 3)"
    using assms unfolding circle_inv_def s by auto
qed

lemma circle_inv_near:
  assumes "circle_inv r x y f"
  shows "\<bar>x\<^sup>2 + y\<^sup>2 - r\<^sup>2\<bar> \<le> r + 1"
proof -
  have e: "x\<^sup>2 + y\<^sup>2 - r\<^sup>2 = f - 2 * x - 1 + y"
    using assms by (simp add: circle_inv_def power2_eq_square algebra_simps)
  have "- 2 * y + 2 * x + 1 \<le> f" "f \<le> 2 * x + 2" "0 \<le> x" "0 \<le> y" "y \<le> r"
    using assms unfolding circle_inv_def by blast+
  then show ?thesis
    unfolding e by simp
qed

lemma circle_loop_path:
  assumes "circle_inv r x y f"
  shows "\<exists>ps. (\<forall>s. circle_loop plot x0 y0 x y f (2 * x + 1) (- 2 * y) s = Some (fold (plot_at plot x0 y0) ps s)) \<and>
    list_all (on_circle r) ps \<and> symmetric (set ps)"
  using assms
proof (induction "nat (y - x)" arbitrary: x y f rule: less_induct)
  case less
  show ?case
  proof (cases "x < y")
    case False
    then show ?thesis
      by (intro exI [of _ "[]"]) (simp add: circle_loop.simps symmetric_def)
  next
    case True
    define y' f' where "y' = (if f \<ge> 0 then y - 1 else y)" and "f' = (if f \<ge> 0 then f - 2 * y + 2 * x + 5 else f + 2 * x + 3)"
    have i': "circle_inv r (x + 1) y' f'"
      using circle_inv_step [OF less.prems True] by (simp add: y'_def f'_def)
    have b: "0 \<le> x" "y \<le> r" "r \<le> 16000" "- 2 * y + 2 * x + 1 \<le> f" "f \<le> 2 * x + 1"
      using less.prems True by (simp_all add: circle_inv_def)
    then have w: "i16 (y - 1) = y - 1" "i16 (- 2 * y + 2) = - 2 * y + 2" "i16 (f + (- 2 * y + 2)) = f + (- 2 * y + 2)"
      "i16 (x + 1) = x + 1" "i16 (2 * x + 1 + 2) = 2 * x + 1 + 2" "i16 f' = f'" if "f \<ge> 0"
      using True that by (simp_all add: f'_def)
    have v: "i16 (x + 1) = x + 1" "i16 (2 * x + 1 + 2) = 2 * x + 1 + 2" "i16 f' = f'" if "f < 0"
      using b True that by (simp_all add: f'_def)
    have step: "circle_loop plot x0 y0 x y f (2 * x + 1) (- 2 * y) s =
      circle_loop plot x0 y0 (x + 1) y' f' (2 * (x + 1) + 1) (- 2 * y') (fold (plot_at plot x0 y0) (octants (x + 1) y') s)" for s
    proof (cases "f \<ge> 0")
      case F: True
      have "f + (- 2 * y + 2) + (2 * x + 1 + 2) = f'" "2 * x + 1 + 2 = 2 * (x + 1) + 1" "- 2 * y + 2 = - 2 * (y - 1)"
        using F by (simp_all add: f'_def)
      then show ?thesis
        using F True w [OF F] by (subst circle_loop.simps) (simp only: if_True Let_def prod.case y'_def)
    next
      case F: False
      then have "f + (2 * x + 1 + 2) = f'" "2 * x + 1 + 2 = 2 * (x + 1) + 1"
        by (simp_all add: f'_def)
      then show ?thesis
        using F True v by (subst circle_loop.simps) (simp add: Let_def y'_def)
    qed
    have "nat (y' - (x + 1)) < nat (y - x)"
      using True by (simp add: y'_def)
    from less.hyps [OF this i'] obtain ps where ps:
      "\<And>s. circle_loop plot x0 y0 (x + 1) y' f' (2 * (x + 1) + 1) (- 2 * y') s = Some (fold (plot_at plot x0 y0) ps s)"
      "list_all (on_circle r) ps" "symmetric (set ps)"
      by blast
    then show ?thesis
      unfolding step
      using on_circle_octants [OF circle_inv_near [OF i']] symmetric_Un [OF symmetric_octants ps(3), of "x + 1" y']
      by (intro exI [of _ "octants (x + 1) y' @ ps"]) simp
  qed
qed

lemma gfx_circle_path:
  assumes "0 \<le> r" "r \<le> 16000"
  shows "\<exists>ps. (\<forall>s. gfx_circle plot x0 y0 r s = Some (fold (plot_at plot x0 y0) ps s)) \<and>
    list_all (on_circle r) ps \<and> symmetric (set ps) \<and> (r, 0) \<in> set ps"
proof -
  have "circle_inv r 0 r (1 - r)"
    using assms by (simp add: circle_inv_def)
  from circle_loop_path [OF this, of plot x0 y0] obtain ps where ps:
    "\<And>s. circle_loop plot x0 y0 0 r (1 - r) 1 (- 2 * r) s = Some (fold (plot_at plot x0 y0) ps s)"
    "list_all (on_circle r) ps" "symmetric (set ps)"
    by auto
  let ?a = "[(0, r), (0, - r), (r, 0), (- r, 0)]"
  have "list_all (on_circle r) ?a" "symmetric (set ?a)"
    using assms by (simp_all add: on_circle_def symmetric_def)
  moreover have "i16 (1 - r) = 1 - r" "i16 (- 2 * r) = - 2 * r"
    using assms by simp_all
  ultimately show ?thesis
    using ps symmetric_Un [OF _ ps(3), of "set ?a"] by (intro exI [of _ "?a @ ps"]) (simp add: gfx_circle_def)
qed

section \<open>Filled areas\<close>

definition gfx_fill_rect :: "(int \<Rightarrow> int \<Rightarrow> 's \<Rightarrow> 's) \<Rightarrow> int \<Rightarrow> int \<Rightarrow> int \<Rightarrow> int \<Rightarrow> 's \<Rightarrow> 's option" where
  "gfx_fill_rect plot x y w h = for_i16 (\<lambda>j. for_i16 (\<lambda>i s. Some (plot i j s)) x (x + w)) y (y + h)"

definition gfx_fill_circle :: "(int \<Rightarrow> int \<Rightarrow> 's \<Rightarrow> 's) \<Rightarrow> int \<Rightarrow> int \<Rightarrow> int \<Rightarrow> 's \<Rightarrow> 's option" where
  "gfx_fill_circle plot x0 y0 r =
    for_i16 (\<lambda>y. for_i16 (\<lambda>x s. Some (if x * x + y * y \<le> r * r then plot_at plot x0 y0 (x, y) s else s)) (i16 (- r)) (r + 1))
      (i16 (- r)) (r + 1)"

text \<open>The points of a rectangle in the order they are drawn.\<close>

definition rect_points :: "int \<Rightarrow> int \<Rightarrow> int \<Rightarrow> int \<Rightarrow> (int \<times> int) list" where
  "rect_points x y w h = concat (map (\<lambda>j. map (\<lambda>i. (i, j)) [x..x + w - 1]) [y..y + h - 1])"

lemma set_rect_points: "set (rect_points x y w h) = {x..x + w - 1} \<times> {y..y + h - 1}"
  by (auto simp: rect_points_def)

lemma nested_fold:
  "fold (\<lambda>j. fold (\<lambda>i. f (i, j)) xs) ys s = fold f (concat (map (\<lambda>j. map (\<lambda>i. (i, j)) xs) ys)) s"
  by (induction ys arbitrary: s) (simp_all add: fold_map comp_def)

lemma gfx_fill_rect_fold:
  assumes "- 32768 \<le> x" "- 32768 \<le> y" "x + w \<le> 32767" "y + h \<le> 32767" "0 \<le> w" "0 \<le> h"
  shows "gfx_fill_rect plot x y w h s = Some (fold (\<lambda>p. plot (fst p) (snd p)) (rect_points x y w h) s)"
proof -
  have "for_i16 (\<lambda>i s. Some (plot i j s)) x (x + w) s = Some (fold (\<lambda>i. plot i j) [x..x + w - 1] s)" for j s
    using assms by (intro for_i16_fold) simp_all
  then have "gfx_fill_rect plot x y w h s = Some (fold (\<lambda>j. fold (\<lambda>i. plot i j) [x..x + w - 1]) [y..y + h - 1] s)"
    unfolding gfx_fill_rect_def using assms by (intro for_i16_fold) simp_all
  then show ?thesis
    using nested_fold [of "\<lambda>p. plot (fst p) (snd p)"] by (simp add: rect_points_def)
qed

lemma gfx_fill_rect_endless:
  assumes "0 < h" "y \<le> 32767" "x \<le> 32767" "32767 < y + h \<or> 0 < w \<and> 32767 < x + w"
  shows "gfx_fill_rect plot x y w h s = None"
proof (cases "32767 < y + h")
  case True
  then show ?thesis
    unfolding gfx_fill_rect_def using assms(2) by (rule for_i16_endless)
next
  case False
  then have "for_i16 (\<lambda>i s. Some (plot i y s)) x (x + w) s = None"
    using assms by (intro for_i16_endless) simp_all
  then show ?thesis
    unfolding gfx_fill_rect_def using assms(1) by (subst for_i16.simps) simp
qed

lemma gfx_fill_rect_empty: "h \<le> 0 \<Longrightarrow> gfx_fill_rect plot x y w h s = Some s"
  by (simp add: gfx_fill_rect_def for_i16.simps)

lemma gfx_fill_rect_narrow:
  assumes "w \<le> 0" "- 32768 \<le> y" "y + h \<le> 32767" "0 \<le> h"
  shows "gfx_fill_rect plot x y w h s = Some s"
proof -
  have "gfx_fill_rect plot x y w h s = Some (fold (\<lambda>_ s. s) [y..y + h - 1] s)"
    unfolding gfx_fill_rect_def using assms by (intro for_i16_fold) (simp_all add: for_i16.simps)
  moreover have "fold (\<lambda>_ s. s) js s = s" for js :: "int list"
    by (induction js) simp_all
  ultimately show ?thesis
    by simp
qed

section \<open>\<open>Adafruit_ILI9341.h\<close>\<close>

record ili =
  iliInitialized :: bool
  iliInverted :: bool
  iliRotation :: byte
  iliCursorX :: int
  iliCursorY :: int
  iliTextColor :: u16
  iliTextBg :: u16
  iliTextSize :: byte
  iliFb :: "u16 list"
  iliLast :: string

definition ili_new :: ili where
  "ili_new =
    \<lparr>iliInitialized = False, iliInverted = False, iliRotation = 0, iliCursorX = 0, iliCursorY = 0,
     iliTextColor = 0xFFFF, iliTextBg = 0, iliTextSize = 1, iliFb = replicate (240 * 320) 0, iliLast = []\<rparr>"

definition ili_begin :: "ili \<Rightarrow> ili" where
  "ili_begin s = s\<lparr>iliInitialized := True\<rparr>"

definition ili_fillScreen :: "u16 \<Rightarrow> ili \<Rightarrow> ili" where
  "ili_fillScreen color s = s\<lparr>iliFb := replicate (length (iliFb s)) color\<rparr>"

definition ili_drawPixel :: "int \<Rightarrow> int \<Rightarrow> u16 \<Rightarrow> ili \<Rightarrow> ili" where
  "ili_drawPixel x y color s =
    (if x \<ge> 0 \<and> x < 240 \<and> y \<ge> 0 \<and> y < 320 then s\<lparr>iliFb := (iliFb s)[nat (y * 240 + x) := color]\<rparr> else s)"

definition ili_readPixel :: "int \<Rightarrow> int \<Rightarrow> ili \<Rightarrow> u16" where
  "ili_readPixel x y s = (if x \<ge> 0 \<and> x < 240 \<and> y \<ge> 0 \<and> y < 320 then iliFb s ! nat (y * 240 + x) else 0)"

definition ili_drawLine :: "int \<Rightarrow> int \<Rightarrow> int \<Rightarrow> int \<Rightarrow> u16 \<Rightarrow> ili \<Rightarrow> ili option" where
  "ili_drawLine x0 y0 x1 y1 color = gfx_line (\<lambda>x y. ili_drawPixel x y color) x0 y0 x1 y1"

definition ili_drawRect :: "int \<Rightarrow> int \<Rightarrow> int \<Rightarrow> int \<Rightarrow> u16 \<Rightarrow> ili \<Rightarrow> ili option" where
  "ili_drawRect x y w h color s =
    Option.bind (ili_drawLine x y (i16 (x + w - 1)) y color s) (\<lambda>s.
    Option.bind (ili_drawLine x (i16 (y + h - 1)) (i16 (x + w - 1)) (i16 (y + h - 1)) color s) (\<lambda>s.
    Option.bind (ili_drawLine x y x (i16 (y + h - 1)) color s) (\<lambda>s.
    ili_drawLine (i16 (x + w - 1)) y (i16 (x + w - 1)) (i16 (y + h - 1)) color s)))"

definition ili_fillRect :: "int \<Rightarrow> int \<Rightarrow> int \<Rightarrow> int \<Rightarrow> u16 \<Rightarrow> ili \<Rightarrow> ili option" where
  "ili_fillRect x y w h color = gfx_fill_rect (\<lambda>i j. ili_drawPixel i j color) x y w h"

definition ili_drawCircle :: "int \<Rightarrow> int \<Rightarrow> int \<Rightarrow> u16 \<Rightarrow> ili \<Rightarrow> ili option" where
  "ili_drawCircle x0 y0 r color = gfx_circle (\<lambda>x y. ili_drawPixel x y color) x0 y0 r"

definition ili_fillCircle :: "int \<Rightarrow> int \<Rightarrow> int \<Rightarrow> u16 \<Rightarrow> ili \<Rightarrow> ili option" where
  "ili_fillCircle x0 y0 r color = gfx_fill_circle (\<lambda>x y. ili_drawPixel x y color) x0 y0 r"

definition ili_setCursor :: "int \<Rightarrow> int \<Rightarrow> ili \<Rightarrow> ili" where
  "ili_setCursor x y s = s\<lparr>iliCursorX := x, iliCursorY := y\<rparr>"

definition ili_setTextColor :: "u16 \<Rightarrow> ili \<Rightarrow> ili" where
  "ili_setTextColor c s = s\<lparr>iliTextColor := c\<rparr>"

definition ili_setTextColor_bg :: "u16 \<Rightarrow> u16 \<Rightarrow> ili \<Rightarrow> ili" where
  "ili_setTextColor_bg c bg s = s\<lparr>iliTextColor := c, iliTextBg := bg\<rparr>"

definition ili_setTextSize :: "byte \<Rightarrow> ili \<Rightarrow> ili" where
  "ili_setTextSize n s = s\<lparr>iliTextSize := n\<rparr>"

definition ili_print :: "string \<Rightarrow> ili \<Rightarrow> ili" where
  "ili_print str s =
    s\<lparr>iliLast := str, iliCursorX := i16 (iliCursorX s + int (length str) * 6 * uint (iliTextSize s))\<rparr>"

definition ili_println :: "string \<Rightarrow> ili \<Rightarrow> ili" where
  "ili_println str s =
    (let s = ili_print str s in s\<lparr>iliCursorX := 0, iliCursorY := i16 (iliCursorY s + 8 * uint (iliTextSize s))\<rparr>)"

definition ili_setRotation :: "byte \<Rightarrow> ili \<Rightarrow> ili" where
  "ili_setRotation r s = s\<lparr>iliRotation := r AND 3\<rparr>"

definition ili_width :: "ili \<Rightarrow> int" where
  "ili_width s = (if iliRotation s AND 1 \<noteq> 0 then 320 else 240)"

definition ili_height :: "ili \<Rightarrow> int" where
  "ili_height s = (if iliRotation s AND 1 \<noteq> 0 then 240 else 320)"

definition ili_invertDisplay :: "bool \<Rightarrow> ili \<Rightarrow> ili" where
  "ili_invertDisplay i s = s\<lparr>iliInverted := i\<rparr>"

definition ili_ok :: "ili \<Rightarrow> bool" where
  "ili_ok s \<longleftrightarrow> length (iliFb s) = 76800"

definition on_ili :: "int \<times> int \<Rightarrow> bool" where
  "on_ili p \<longleftrightarrow> 0 \<le> fst p \<and> fst p < 240 \<and> 0 \<le> snd p \<and> snd p < 320"

lemma row_major_inject:
  fixes x y x' y' w :: int
  assumes "y * w + x = y' * w + x'" "0 \<le> x" "x < w" "0 \<le> x'" "x' < w"
  shows "x = x' \<and> y = y'"
proof -
  have "(y * w + x) div w = y" "(y' * w + x') div w = y'"
    using assms(2-5) by simp_all
  then show ?thesis
    using assms(1) by auto
qed

lemma row_major_bounds:
  fixes x y w h :: int
  assumes "0 \<le> x" "x < w" "0 \<le> y" "y < h"
  shows "0 \<le> y * w + x \<and> y * w + x < w * h"
proof -
  have "(y + 1) * w \<le> h * w"
    using assms by (intro mult_right_mono) simp_all
  moreover have "0 \<le> y * w"
    using assms by simp
  ultimately show ?thesis
    using assms by (simp add: algebra_simps)
qed

lemma row_major_nth:
  fixes w h x y x' y' :: int
  assumes "int (length fb) \<ge> w * h" "0 \<le> x" "x < w" "0 \<le> y" "y < h" "0 \<le> x'" "x' < w" "0 \<le> y'" "y' < h"
  shows "fb[nat (y * w + x) := c] ! nat (y' * w + x') = (if x' = x \<and> y' = y then c else fb ! nat (y' * w + x'))"
proof -
  have "nat (y * w + x) < length fb"
    using row_major_bounds [OF assms(2-5)] assms(1) by linarith
  moreover have "nat (y * w + x) = nat (y' * w + x') \<longleftrightarrow> x' = x \<and> y' = y"
    using row_major_inject [of y w x y' x'] row_major_bounds [OF assms(2-5)] row_major_bounds [OF assms(6-9)] assms
    by (auto simp: nat_eq_iff)
  ultimately show ?thesis
    by (auto simp: nth_list_update)
qed

interpretation ili: cell_store ili_ok "\<lambda>_. on_ili" "\<lambda>p c. ili_drawPixel (fst p) (snd p) c" "\<lambda>s p. ili_readPixel (fst p) (snd p) s" "\<lambda>c. c"
proof unfold_locales
  fix s k c k'
  assume "ili_ok s"
  then show "ili_ok (ili_drawPixel (fst k) (snd k) c s)"
    by (simp add: ili_ok_def ili_drawPixel_def)
  show "ili_readPixel (fst k') (snd k') (ili_drawPixel (fst k) (snd k) c s) =
      (if k' = k \<and> on_ili k then c else ili_readPixel (fst k') (snd k') s)"
    using \<open>ili_ok s\<close> row_major_nth [of 240 320 "iliFb s" "fst k" "snd k" "fst k'" "snd k'" c]
    by (auto simp: ili_ok_def ili_drawPixel_def ili_readPixel_def on_ili_def prod_eq_iff)
qed simp_all

text \<open>What is on the screen after points of one colour were drawn in any order.\<close>

lemma ili_drawn:
  assumes "ili_ok s"
  shows "ili_readPixel x y (fold (\<lambda>p. ili_drawPixel (fst p) (snd p) c) ps s) =
      (if (x, y) \<in> set ps \<and> on_ili (x, y) then c else ili_readPixel x y s)"
    "ili_ok (fold (\<lambda>p. ili_drawPixel (fst p) (snd p) c) ps s)"
  using ili.fill_get(1) [OF assms, where v = c and ks = ps and k' = "(x, y)"] ili.fill_get(2) [OF assms, where v = c and ks = ps]
  by simp_all

section \<open>TFT controllers: \<open>Adafruit_ST7735.h\<close> and \<open>Adafruit_ST7789.h\<close>\<close>

text \<open>
  Both headers have the same methods; they differ in how the size is chosen. Pixels are rows of the current
  width.
\<close>

record tft =
  tftWidth :: int
  tftHeight :: int
  tftRotation :: byte
  tftTab :: byte
  tftInvert :: bool
  tftSleep :: bool
  tftSpi :: u32
  tftAddr :: "u16 \<times> u16 \<times> u16 \<times> u16"
  tftFb :: "u16 list"

text \<open>\<open>resize(n, 0)\<close>, and the index the code computes.\<close>

definition resize_fb :: "nat \<Rightarrow> u16 list \<Rightarrow> u16 list" where
  "resize_fb n fb = take n fb @ replicate (n - length fb) 0"

definition st7735_new :: tft where
  "st7735_new =
    \<lparr>tftWidth = 128, tftHeight = 160, tftRotation = 0, tftTab = 0, tftInvert = False, tftSleep = False,
     tftSpi = 40000000, tftAddr = (0, 0, 0, 0), tftFb = replicate (128 * 160) 0\<rparr>"

definition tft_size :: "int \<Rightarrow> int \<Rightarrow> tft \<Rightarrow> tft" where
  "tft_size w h s = s\<lparr>tftWidth := w, tftHeight := h, tftFb := resize_fb (nat (w * h)) (tftFb s)\<rparr>"

definition st7735_initB :: "tft \<Rightarrow> tft" where
  "st7735_initB s = tft_size 128 160 (s\<lparr>tftTab := 0xFF\<rparr>)"

definition st7735_initR :: "byte \<Rightarrow> tft \<Rightarrow> tft" where
  "st7735_initR options s =
    (let s = s\<lparr>tftTab := options\<rparr>
     in if options = 4 then tft_size 80 160 s else if options = 1 then tft_size 128 128 s else tft_size 128 160 s)"

text \<open>\<open>init\<close> of the ST7789 converts its unsigned sizes to \<open>int16_t\<close>; the buffer has the product as \<open>int\<close>.\<close>

definition st7789_init :: "u16 \<Rightarrow> u16 \<Rightarrow> tft \<Rightarrow> tft" where
  "st7789_init width height s =
    s\<lparr>tftWidth := i16 (uint width), tftHeight := i16 (uint height),
      tftFb := resize_fb (nat (uint width * uint height)) (tftFb s)\<rparr>"

definition tft_setRotation :: "byte \<Rightarrow> tft \<Rightarrow> tft" where
  "tft_setRotation r s = s\<lparr>tftRotation := r AND 3\<rparr>"

definition tft_invertDisplay :: "bool \<Rightarrow> tft \<Rightarrow> tft" where
  "tft_invertDisplay i s = s\<lparr>tftInvert := i\<rparr>"

definition tft_enableSleep :: "bool \<Rightarrow> tft \<Rightarrow> tft" where
  "tft_enableSleep b s = s\<lparr>tftSleep := b\<rparr>"

definition tft_setAddrWindow :: "u16 \<Rightarrow> u16 \<Rightarrow> u16 \<Rightarrow> u16 \<Rightarrow> tft \<Rightarrow> tft" where
  "tft_setAddrWindow x y w h s = s\<lparr>tftAddr := (x, y, w, h)\<rparr>"

definition tft_setSPISpeed :: "u32 \<Rightarrow> tft \<Rightarrow> tft" where
  "tft_setSPISpeed freq s = s\<lparr>tftSpi := freq\<rparr>"

text \<open>A write outside the vector is undefined.\<close>

definition tft_poke :: "int \<Rightarrow> u16 \<Rightarrow> tft \<Rightarrow> tft option" where
  "tft_poke n color s = (if 0 \<le> n \<and> n < int (length (tftFb s)) then Some (s\<lparr>tftFb := (tftFb s)[nat n := color]\<rparr>) else None)"

definition tft_drawPixel :: "int \<Rightarrow> int \<Rightarrow> u16 \<Rightarrow> tft \<Rightarrow> tft option" where
  "tft_drawPixel x y color s =
    (if x \<ge> 0 \<and> x < tftWidth s \<and> y \<ge> 0 \<and> y < tftHeight s then tft_poke (y * tftWidth s + x) color s else Some s)"

definition tft_fillScreen :: "u16 \<Rightarrow> tft \<Rightarrow> tft" where
  "tft_fillScreen color s = s\<lparr>tftFb := replicate (length (tftFb s)) color\<rparr>"

text \<open>Both conditions of a loop are the one on their minimum.\<close>

definition tft_fillRect :: "int \<Rightarrow> int \<Rightarrow> int \<Rightarrow> int \<Rightarrow> u16 \<Rightarrow> tft \<Rightarrow> tft option" where
  "tft_fillRect x y w h color s =
    for_i16 (\<lambda>j. for_i16 (\<lambda>i t. if i \<ge> 0 \<and> j \<ge> 0 then tft_poke (j * tftWidth s + i) color t else Some t)
        x (min (x + w) (tftWidth s))) y (min (y + h) (tftHeight s)) s"

definition tft_drawFastHLine :: "int \<Rightarrow> int \<Rightarrow> int \<Rightarrow> u16 \<Rightarrow> tft \<Rightarrow> tft option" where
  "tft_drawFastHLine x y w color = tft_fillRect x y w 1 color"

definition tft_drawFastVLine :: "int \<Rightarrow> int \<Rightarrow> int \<Rightarrow> u16 \<Rightarrow> tft \<Rightarrow> tft option" where
  "tft_drawFastVLine x y h color = tft_fillRect x y 1 h color"

definition color565 :: "byte \<Rightarrow> byte \<Rightarrow> byte \<Rightarrow> u16" where
  "color565 r g b = push_bit 8 (ucast (r AND 0xF8)) OR push_bit 3 (ucast (g AND 0xFC)) OR ucast (drop_bit 3 b)"

definition tft_getPixel :: "int \<Rightarrow> int \<Rightarrow> tft \<Rightarrow> u16" where
  "tft_getPixel x y s =
    (if x \<ge> 0 \<and> x < tftWidth s \<and> y \<ge> 0 \<and> y < tftHeight s then tftFb s ! nat (y * tftWidth s + x) else 0)"

definition tft_ok :: "tft \<Rightarrow> bool" where
  "tft_ok s \<longleftrightarrow> tftWidth s \<le> 32767 \<and> tftHeight s \<le> 32767 \<and>
    (0 < tftWidth s \<longrightarrow> 0 < tftHeight s \<longrightarrow> tftWidth s * tftHeight s \<le> int (length (tftFb s)))"

definition on_tft :: "tft \<Rightarrow> int \<times> int \<Rightarrow> bool" where
  "on_tft s p \<longleftrightarrow> 0 \<le> fst p \<and> fst p < tftWidth s \<and> 0 \<le> snd p \<and> snd p < tftHeight s"

text \<open>On a screen whose buffer is large enough no write is undefined.\<close>

definition tft_put :: "int \<times> int \<Rightarrow> u16 \<Rightarrow> tft \<Rightarrow> tft" where
  "tft_put p c s = (if on_tft s p then s\<lparr>tftFb := (tftFb s)[nat (snd p * tftWidth s + fst p) := c]\<rparr> else s)"

lemma tft_poke_put:
  assumes "tft_ok s" "on_tft s (x, y)"
  shows "tft_poke (y * tftWidth s + x) c s = Some (tft_put (x, y) c s)"
  using assms row_major_bounds [of x "tftWidth s" y "tftHeight s"]
  by (simp add: tft_poke_def tft_put_def tft_ok_def on_tft_def)

lemma tft_drawPixel_put: "tft_ok s \<Longrightarrow> tft_drawPixel x y c s = Some (tft_put (x, y) c s)"
  using tft_poke_put [of s x y c] by (auto simp: tft_drawPixel_def on_tft_def tft_put_def)

lemma tft_put_sel [simp]: "tftWidth (tft_put p c s) = tftWidth s" "tftHeight (tft_put p c s) = tftHeight s" "tft_ok (tft_put p c s) = tft_ok s"
  by (simp_all add: tft_put_def tft_ok_def)

interpretation tft: cell_store tft_ok on_tft tft_put "\<lambda>s p. tft_getPixel (fst p) (snd p) s" "\<lambda>c. c"
proof unfold_locales
  fix s k c k'
  assume ok: "tft_ok s"
  show "tft_ok (tft_put k c s)" "on_tft (tft_put k c s) k' = on_tft s k'"
    using ok by (simp_all add: on_tft_def)
  show "tft_getPixel (fst k') (snd k') (tft_put k c s) = (if k' = k \<and> on_tft s k then c else tft_getPixel (fst k') (snd k') s)"
    using ok row_major_nth [of "tftWidth s" "tftHeight s" "tftFb s" "fst k" "snd k" "fst k'" "snd k'" c]
    by (auto simp: tft_ok_def tft_put_def tft_getPixel_def on_tft_def prod_eq_iff)
qed

definition tft_rect_points :: "int \<Rightarrow> int \<Rightarrow> int \<Rightarrow> int \<Rightarrow> tft \<Rightarrow> (int \<times> int) list" where
  "tft_rect_points x y w h s =
    concat (map (\<lambda>j. map (\<lambda>i. (i, j)) [x..min (x + w) (tftWidth s) - 1]) [y..min (y + h) (tftHeight s) - 1])"

lemma tft_fillRect_fold:
  assumes "tft_ok s" "- 32768 \<le> x" "- 32768 \<le> y"
  shows "tft_fillRect x y w h c s = Some (fold (\<lambda>p. tft_put p c) (tft_rect_points x y w h s) s)"
proof -
  define W H where "W = tftWidth s" and "H = tftHeight s"
  let ?ok = "\<lambda>t. tft_ok t \<and> tftWidth t = W \<and> tftHeight t = H"
  define body where "body = (\<lambda>j i t. if i \<ge> 0 \<and> j \<ge> 0 then tft_poke (j * W + i) c t else Some t)"
  have b: "body j i t = Some (tft_put (i, j) c t)" if "?ok t" "i < W" "j < H" for i j t
    using that tft_poke_put [of t i j c] by (auto simp: body_def on_tft_def tft_put_def)
  have l: "W \<le> 32767" "H \<le> 32767"
    using assms(1) by (simp_all add: W_def H_def tft_ok_def)
  have keep: "?ok (fold (\<lambda>i. tft_put (i, j) c) is t)" if "?ok t" for j "is" t
    using that by (induction "is" arbitrary: t) simp_all
  have row: "for_i16 (body j) i (min (x + w) W) t = Some (fold (\<lambda>i. tft_put (i, j) c) [i..min (x + w) W - 1] t)"
    if "?ok t" "j < H" "x \<le> i" for i j t
    using that
  proof (induction "nat (min (x + w) W - i)" arbitrary: i t)
    case 0
    then show ?case
      by (subst for_i16.simps) (auto simp: min_def split: if_splits)
  next
    case (Suc n)
    then have i: "i < min (x + w) W" "i + 1 \<le> 32767" "- 32768 \<le> i + 1"
      using l assms(2) by linarith+
    show ?case
      using Suc.hyps(1) [of "i + 1" "tft_put (i, j) c t"] Suc.hyps(2) Suc.prems b [of t i j] i
      by (subst for_i16.simps) (simp add: upto_rec1)
  qed
  have "for_i16 (\<lambda>j. for_i16 (body j) x (min (x + w) W)) j (min (y + h) H) t =
      Some (fold (\<lambda>j. fold (\<lambda>i. tft_put (i, j) c) [x..min (x + w) W - 1]) [j..min (y + h) H - 1] t)"
    if "?ok t" "y \<le> j" for j t
    using that
  proof (induction "nat (min (y + h) H - j)" arbitrary: j t)
    case 0
    then show ?case
      by (subst for_i16.simps) (auto simp: min_def split: if_splits)
  next
    case (Suc n)
    then have j: "j < min (y + h) H" "j + 1 \<le> 32767" "- 32768 \<le> j + 1"
      using l assms(3) by linarith+
    show ?case
      using Suc.hyps(1) [of "j + 1" "fold (\<lambda>i. tft_put (i, j) c) [x..min (x + w) W - 1] t"] Suc.hyps(2) Suc.prems
        row [of t j x] keep [of t j] j
      by (subst for_i16.simps) (simp add: upto_rec1)
  qed
  from this [of s y] assms(1) show ?thesis
    unfolding tft_fillRect_def tft_rect_points_def body_def W_def H_def nested_fold [of "\<lambda>p. tft_put p c"]
    by simp
qed

section \<open>Properties\<close>

lemma successively_map_shift:
  "successively adjacent ps \<Longrightarrow> \<bar>u\<bar> = 1 \<Longrightarrow> \<bar>v\<bar> = 1 \<Longrightarrow> successively adjacent (map (\<lambda>p. (x + u * fst p, y + v * snd p)) ps)"
  unfolding successively_map
  by (erule successively_mono) (auto simp: adjacent_def right_diff_distrib [symmetric] abs_mult)

text \<open>
  C37: Lines. For end points no further apart than 10922 in either direction the loop of \<open>drawLine\<close> ends without
  a wrap-around of its 16-bit variables; it draws one pixel for each step of the longer side, from the first
  point to the last, each next to the one before, and none further than half a pixel from the line.
\<close>

theorem ili_line:
  assumes "- 32768 \<le> x0" "x0 \<le> 32767" "- 32768 \<le> x1" "x1 \<le> 32767"
    "- 32768 \<le> y0" "y0 \<le> 32767" "- 32768 \<le> y1" "y1 \<le> 32767" "\<bar>x1 - x0\<bar> \<le> 10922" "\<bar>y1 - y0\<bar> \<le> 10922"
  shows "\<exists>ps. ili_drawLine x0 y0 x1 y1 c s = Some (fold (\<lambda>p. ili_drawPixel (fst p) (snd p) c) ps s) \<and>
    hd ps = (x0, y0) \<and> last ps = (x1, y1) \<and> int (length ps) = max \<bar>x1 - x0\<bar> \<bar>y1 - y0\<bar> + 1 \<and> successively adjacent ps \<and>
    (\<forall>(x, y) \<in> set ps. 2 * \<bar>(y - y0) * (x1 - x0) - (x - x0) * (y1 - y0)\<bar> \<le> max \<bar>x1 - x0\<bar> \<bar>y1 - y0\<bar>)"
proof -
  define sx sy :: int where "sx = (if x0 < x1 then 1 else - 1)" and "sy = (if y0 < y1 then 1 else - 1)"
  define D E where "D = \<bar>x1 - x0\<bar>" and "E = \<bar>y1 - y0\<bar>"
  define M where "M = max D E"
  define path where "path = bres_path D E (0, 0) (nat M)"
  define ps where "ps = map (\<lambda>p. (x0 + sx * fst p, y0 + sy * snd p)) path"
  have d: "x1 - x0 = sx * D" "y1 - y0 = sy * E" and s: "\<bar>sx\<bar> = 1" "\<bar>sy\<bar> = 1"
    by (simp_all add: sx_def sy_def D_def E_def)
  have M: "0 \<le> M"
    by (simp add: M_def D_def E_def le_max_iff_disj)
  have "bres_inv D E 0 (0, 0)"
    by (simp add: bres_inv_def D_def E_def)
  from bres_path_inv [OF this, of "nat M"] M
  have p: "last path = (D, E)" "\<And>a b. (a, b) \<in> set path \<Longrightarrow> \<bar>2 * (b * D - a * E)\<bar> \<le> M"
    by (auto simp: path_def M_def D_def E_def)
  have near: "2 * \<bar>(y - y0) * (x1 - x0) - (x - x0) * (y1 - y0)\<bar> \<le> M" if m: "(x, y) \<in> set ps" for x y
  proof -
    obtain a b where ab: "(a, b) \<in> set path" "x = x0 + sx * a" "y = y0 + sy * b"
      using m by (auto simp: ps_def)
    have "(y - y0) * (x1 - x0) - (x - x0) * (y1 - y0) = sx * sy * (b * D - a * E)"
      unfolding d ab(2,3) by (simp add: algebra_simps)
    then show ?thesis
      using p(2) [OF ab(1)] s abs_mult [of 2 "b * D - a * E"] by (simp only: abs_mult)
  qed
  have "ili_drawLine x0 y0 x1 y1 c s = Some (fold (\<lambda>p. ili_drawPixel (fst p) (snd p) c) ps s)"
    unfolding ili_drawLine_def gfx_line_path [OF assms] ps_def path_def M_def D_def E_def fold_map sx_def sy_def
    by (simp add: comp_def case_prod_unfold)
  moreover have "hd ps = (x0, y0)" "last ps = (x1, y1)" "int (length ps) = M + 1"
    using p(1) d M by (simp_all add: ps_def hd_map last_map path_def)
  moreover have "successively adjacent ps"
    unfolding ps_def path_def using s by (intro successively_map_shift bres_path_adjacent)
  moreover have "\<forall>(x, y) \<in> set ps. 2 * \<bar>(y - y0) * (x1 - x0) - (x - x0) * (y1 - y0)\<bar> \<le> M"
    using near by blast
  ultimately show ?thesis
    unfolding M_def D_def E_def by blast
qed

theorem ili_line_witness:
  "\<exists>ps. ili_drawLine 10 20 13 18 7 ili_new = Some (fold (\<lambda>p. ili_drawPixel (fst p) (snd p) 7) ps ili_new) \<and>
    hd ps = (10, 20) \<and> last ps = (13, 18) \<and> length ps = 4"
  using ili_line [of 10 13 20 18 7 ili_new] by auto

lemma on_circle_bound:
  assumes "on_circle r (a, b)" "0 \<le> r"
  shows "\<bar>a\<bar> \<le> r + 1" "\<bar>b\<bar> \<le> r + 1"
proof -
  have e: "(r + 1)\<^sup>2 = r\<^sup>2 + 2 * r + 1" "a\<^sup>2 + b\<^sup>2 \<le> r\<^sup>2 + r + 1"
    using assms(1) by (simp_all add: on_circle_def power2_eq_square algebra_simps)
  moreover have "a\<^sup>2 \<le> a\<^sup>2 + b\<^sup>2" "b\<^sup>2 \<le> a\<^sup>2 + b\<^sup>2"
    by simp_all
  ultimately have "\<bar>a\<bar>\<^sup>2 \<le> (r + 1)\<^sup>2" "\<bar>b\<bar>\<^sup>2 \<le> (r + 1)\<^sup>2"
    unfolding power2_abs using assms(2) by linarith+
  then show "\<bar>a\<bar> \<le> r + 1" "\<bar>b\<bar> \<le> r + 1"
    using assms(2) by (auto intro: power2_le_imp_le)
qed

text \<open>
  Circles. For radii up to 16000 the loop of \<open>drawCircle\<close> ends without a wrap-around; the pixels it draws are
  symmetric to the axes and diagonals through the centre, and the square of their distance from it differs
  from the square of the radius by no more than the radius and one.
\<close>

theorem ili_circle:
  assumes "0 \<le> r" "r \<le> 16000" "\<bar>x0\<bar> \<le> 16000" "\<bar>y0\<bar> \<le> 16000"
  shows "\<exists>ps. ili_drawCircle x0 y0 r c s = Some (fold (\<lambda>p. ili_drawPixel (x0 + fst p) (y0 + snd p) c) ps s) \<and>
    (r, 0) \<in> set ps \<and> symmetric (set ps) \<and> (\<forall>(a, b) \<in> set ps. \<bar>a\<^sup>2 + b\<^sup>2 - r\<^sup>2\<bar> \<le> r + 1)"
proof -
  obtain ps where ps: "ili_drawCircle x0 y0 r c s = Some (fold (plot_at (\<lambda>x y. ili_drawPixel x y c) x0 y0) ps s)"
    "list_all (on_circle r) ps" "symmetric (set ps)" "(r, 0) \<in> set ps"
    using gfx_circle_path [OF assms(1,2), of "\<lambda>x y. ili_drawPixel x y c" x0 y0] unfolding ili_drawCircle_def by blast
  have "plot_at (\<lambda>x y. ili_drawPixel x y c) x0 y0 p = ili_drawPixel (x0 + fst p) (y0 + snd p) c" if m: "p \<in> set ps" for p
  proof -
    have "\<bar>fst p\<bar> \<le> r + 1" "\<bar>snd p\<bar> \<le> r + 1"
      using ps(2) m on_circle_bound [of r "fst p" "snd p"] assms(1) by (auto simp: list_all_iff)
    then have "i16 (x0 + fst p) = x0 + fst p" "i16 (y0 + snd p) = y0 + snd p"
      using assms(2-4) by simp_all
    then show ?thesis
      by (simp add: plot_at_def)
  qed
  then have "fold (plot_at (\<lambda>x y. ili_drawPixel x y c) x0 y0) ps s = fold (\<lambda>p. ili_drawPixel (x0 + fst p) (y0 + snd p) c) ps s"
    by (intro fold_cong) simp_all
  then show ?thesis
    using ps by (intro exI [of _ ps]) (auto simp: list_all_iff on_circle_def)
qed

theorem ili_circle_witness:
  "\<exists>ps. ili_drawCircle 100 90 5 7 ili_new = Some (fold (\<lambda>p. ili_drawPixel (100 + fst p) (90 + snd p) 7) ps ili_new) \<and>
    (5, 0) \<in> set ps"
  using ili_circle [of 5 100 90 7 ili_new] by auto

text \<open>
  C25: Filling. \<open>fillRect\<close> colours the pixels of the rectangle that are on the screen and no others; a
  rectangle with a right or lower border beyond 32767 is never finished, since the 16-bit variable of the loop
  cannot reach the limit.
\<close>

theorem ili_fill_rect:
  assumes "ili_ok s" "- 32768 \<le> x" "x \<le> 32767" "- 32768 \<le> y" "y \<le> 32767" "0 \<le> w" "0 \<le> h"
  shows "if 0 < h \<and> (32767 < y + h \<or> 0 < w \<and> 32767 < x + w) then ili_fillRect x y w h c s = None
    else \<exists>t. ili_fillRect x y w h c s = Some t \<and> ili_ok t \<and>
      (\<forall>p q. ili_readPixel p q t =
        (if x \<le> p \<and> p < x + w \<and> y \<le> q \<and> q < y + h \<and> on_ili (p, q) then c else ili_readPixel p q s))"
proof (cases "0 < h \<and> (32767 < y + h \<or> 0 < w \<and> 32767 < x + w)")
  case True
  then show ?thesis
    using gfx_fill_rect_endless [of h y x w] assms(3,5) by (simp add: ili_fillRect_def)
next
  case False
  show ?thesis
  proof (cases "h = 0 \<or> w = 0")
    case True
    then have "ili_fillRect x y w h c s = Some s"
      using False assms gfx_fill_rect_empty [of h] gfx_fill_rect_narrow [of w y h]
      by (cases "h = 0") (auto simp: ili_fillRect_def)
    then show ?thesis
      using True False assms(1) by auto
  next
    case area: False
    then have "ili_fillRect x y w h c s = Some (fold (\<lambda>p. ili_drawPixel (fst p) (snd p) c) (rect_points x y w h) s)"
      using False assms unfolding ili_fillRect_def by (intro gfx_fill_rect_fold) auto
    then show ?thesis
      using False ili_drawn(1) [OF assms(1), where c = c and ps = "rect_points x y w h"]
        ili_drawn(2) [OF assms(1), where c = c and ps = "rect_points x y w h"] by (auto simp: set_rect_points)
  qed
qed

theorem ili_fill_rect_witness:
  "ili_fillRect 0 1 1 32767 7 ili_new = None \<and> (\<exists>t. ili_fillRect 2 3 2 2 7 ili_new = Some t \<and> ili_readPixel 3 4 t = 7)"
proof -
  have ok: "ili_ok ili_new"
    by (simp add: ili_ok_def ili_new_def)
  then show ?thesis
    using ili_fill_rect [OF ok, of 0 1 1 32767 7] ili_fill_rect [OF ok, of 2 3 2 2 7] by (auto simp: on_ili_def)
qed

lemma square_sum_bound:
  fixes a b r :: int
  assumes "a\<^sup>2 + b\<^sup>2 \<le> r\<^sup>2" "0 \<le> r"
  shows "\<bar>a\<bar> \<le> r" "\<bar>b\<bar> \<le> r"
proof -
  have "\<bar>a\<bar>\<^sup>2 \<le> r\<^sup>2" "\<bar>b\<bar>\<^sup>2 \<le> r\<^sup>2"
    using assms(1) zero_le_power2 [of a] zero_le_power2 [of b] unfolding power2_abs by linarith+
  then show "\<bar>a\<bar> \<le> r" "\<bar>b\<bar> \<le> r"
    using assms(2) by (auto intro: power2_le_imp_le)
qed

text \<open>
  Discs. For radii up to 16000 \<open>fillCircle\<close> colours the pixels of the screen within the radius of the
  centre and no others; a disc of negative radius is empty.
\<close>

theorem ili_fill_circle:
  assumes "ili_ok s" "- 16000 \<le> r" "r \<le> 16000" "\<bar>x0\<bar> \<le> 16000" "\<bar>y0\<bar> \<le> 16000"
  shows "\<exists>t. ili_fillCircle x0 y0 r c s = Some t \<and> ili_ok t \<and>
    (\<forall>p q. ili_readPixel p q t =
      (if 0 \<le> r \<and> (p - x0)\<^sup>2 + (q - y0)\<^sup>2 \<le> r\<^sup>2 \<and> on_ili (p, q) then c else ili_readPixel p q s))"
proof -
  let ?g = "\<lambda>y x t. if x * x + y * y \<le> r * r then plot_at (\<lambda>x y. ili_drawPixel x y c) x0 y0 (x, y) t else t"
  have i: "i16 (- r) = - r"
    using assms(2,3) by simp
  define offs where "offs = filter (\<lambda>(x, y). x * x + y * y \<le> r * r) (concat (map (\<lambda>y. map (\<lambda>x. (x, y)) [- r..r]) [- r..r]))"
  have res: "ili_fillCircle x0 y0 r c s = Some (fold (\<lambda>y. fold (?g y) [- r..r]) [- r..r] s)"
  proof (cases "0 \<le> r")
    case True
    have row: "for_i16 (\<lambda>x t. Some (?g y x t)) (- r) (r + 1) t = Some (fold (?g y) [- r..r] t)" for y t
      using for_i16_fold [of "- r" "r + 1" "\<lambda>x t. Some (?g y x t)" "?g y" "- r" t] True assms(2,3) by simp
    show ?thesis
      unfolding ili_fillCircle_def gfx_fill_circle_def i
      using for_i16_fold [of "- r" "r + 1" "\<lambda>y. for_i16 (\<lambda>x t. Some (?g y x t)) (- r) (r + 1)" "\<lambda>y. fold (?g y) [- r..r]" "- r" s]
        row True assms(2,3) by simp
  next
    case False
    then show ?thesis
      unfolding ili_fillCircle_def gfx_fill_circle_def i by (simp add: for_i16.simps)
  qed
  have "fold (\<lambda>y. fold (?g y) [- r..r]) [- r..r] s =
      fold (\<lambda>p. ?g (snd p) (fst p)) (concat (map (\<lambda>y. map (\<lambda>x. (x, y)) [- r..r]) [- r..r])) s"
    using nested_fold [of "\<lambda>p. ?g (snd p) (fst p)" "[- r..r]" "[- r..r]" s] by (simp only: fst_conv snd_conv)
  also have "\<dots> = fold (plot_at (\<lambda>x y. ili_drawPixel x y c) x0 y0) offs s"
    unfolding offs_def fold_filter by (intro fold_cong) (auto simp: fun_eq_iff)
  also have "\<dots> = fold (\<lambda>p. ili_drawPixel (x0 + fst p) (y0 + snd p) c) offs s"
  proof (intro fold_cong refl)
    fix p
    assume "p \<in> set offs"
    then have "\<bar>fst p\<bar> \<le> 16000" "\<bar>snd p\<bar> \<le> 16000"
      using assms(2,3) by (auto simp: offs_def)
    then show "plot_at (\<lambda>x y. ili_drawPixel x y c) x0 y0 p = ili_drawPixel (x0 + fst p) (y0 + snd p) c"
      using assms(4,5) by (simp add: plot_at_def)
  qed
  also have "\<dots> = fold (\<lambda>p. ili_drawPixel (fst p) (snd p) c) (map (\<lambda>p. (x0 + fst p, y0 + snd p)) offs) s"
    by (simp add: fold_map comp_def)
  finally have t: "ili_fillCircle x0 y0 r c s = Some (fold (\<lambda>p. ili_drawPixel (fst p) (snd p) c) (map (\<lambda>p. (x0 + fst p, y0 + snd p)) offs) s)"
    unfolding res by simp
  have "(p, q) \<in> set (map (\<lambda>p. (x0 + fst p, y0 + snd p)) offs) \<longleftrightarrow> 0 \<le> r \<and> (p - x0)\<^sup>2 + (q - y0)\<^sup>2 \<le> r\<^sup>2" for p q
  proof -
    have "(p, q) \<in> set (map (\<lambda>p. (x0 + fst p, y0 + snd p)) offs) \<longleftrightarrow> (p - x0, q - y0) \<in> set offs"
      by (force simp: image_iff)
    also have "\<dots> \<longleftrightarrow> 0 \<le> r \<and> (p - x0)\<^sup>2 + (q - y0)\<^sup>2 \<le> r\<^sup>2"
      using square_sum_bound [of "p - x0" "q - y0" r] by (auto simp: offs_def power2_eq_square image_iff)
    finally show ?thesis .
  qed
  then show ?thesis
    unfolding t using ili_drawn(1) [OF assms(1), where c = c and ps = "map (\<lambda>p. (x0 + fst p, y0 + snd p)) offs"]
      ili_drawn(2) [OF assms(1), where c = c and ps = "map (\<lambda>p. (x0 + fst p, y0 + snd p)) offs"] by simp
qed

theorem ili_fill_circle_witness:
  "\<exists>t. ili_fillCircle 100 90 5 7 ili_new = Some t \<and> ili_readPixel 103 94 t = 7"
proof -
  have "ili_ok ili_new"
    by (simp add: ili_ok_def ili_new_def)
  then show ?thesis
    using ili_fill_circle [of ili_new 5 100 90 7] by (auto simp: on_ili_def)
qed

text \<open>
  Filled rectangles of the TFT controllers are clipped before they are drawn: whatever the size
  asked for, the loop ends, no write is outside the buffer, and just the pixels of the rectangle that
  are on the screen change.
\<close>

theorem tft_fill_rect:
  assumes "tft_ok s" "- 32768 \<le> x" "- 32768 \<le> y"
  shows "\<exists>t. tft_fillRect x y w h c s = Some t \<and> tft_ok t \<and>
    (\<forall>p q. tft_getPixel p q t =
      (if x \<le> p \<and> p < x + w \<and> y \<le> q \<and> q < y + h \<and> on_tft s (p, q) then c else tft_getPixel p q s))"
proof -
  let ?ps = "tft_rect_points x y w h s"
  have "set ?ps = {x..min (x + w) (tftWidth s) - 1} \<times> {y..min (y + h) (tftHeight s) - 1}"
    by (auto simp: tft_rect_points_def)
  then have "(p, q) \<in> set ?ps \<and> on_tft s (p, q) \<longleftrightarrow> x \<le> p \<and> p < x + w \<and> y \<le> q \<and> q < y + h \<and> on_tft s (p, q)" for p q
    by (auto simp: on_tft_def)
  then have "tft_getPixel p q (fold (\<lambda>p. tft_put p c) ?ps s) =
      (if x \<le> p \<and> p < x + w \<and> y \<le> q \<and> q < y + h \<and> on_tft s (p, q) then c else tft_getPixel p q s)" for p q
    using tft.fill_get(1) [OF assms(1), where v = c and ks = ?ps and k' = "(p, q)"] by simp
  then show ?thesis
    using tft_fillRect_fold [OF assms, of w h c] tft.fill_get(2) [OF assms(1), where v = c and ks = ?ps] by blast
qed

theorem tft_fill_rect_witness:
  "\<exists>t. tft_fillRect (- 5) 0 10 30000 7 (st7735_initR 1 st7735_new) = Some t \<and> tft_getPixel 4 127 t = 7 \<and> tft_getPixel 5 0 t = tft_getPixel 5 0 (st7735_initR 1 st7735_new)"
proof -
  have "tft_ok (st7735_initR 1 st7735_new)" "tftWidth (st7735_initR 1 st7735_new) = 128" "tftHeight (st7735_initR 1 st7735_new) = 128"
    by (simp_all add: tft_ok_def st7735_initR_def st7735_new_def tft_size_def resize_fb_def Let_def)
  then show ?thesis
    using tft_fill_rect [of "st7735_initR 1 st7735_new" "- 5" 0 10 30000 7] by (auto simp: on_tft_def)
qed

datatype tft_op = Init_B | Init_R byte | Init u16 u16 | Rotate byte | Pixel int int u16 | Fill u16 | Rect int int int int u16

fun tft_step :: "tft_op \<Rightarrow> tft \<Rightarrow> tft option" where
  "tft_step Init_B s = Some (st7735_initB s)"
| "tft_step (Init_R n) s = Some (st7735_initR n s)"
| "tft_step (Init w h) s = Some (st7789_init w h s)"
| "tft_step (Rotate r) s = Some (tft_setRotation r s)"
| "tft_step (Pixel x y c) s = tft_drawPixel x y c s"
| "tft_step (Fill c) s = Some (tft_fillScreen c s)"
| "tft_step (Rect x y w h c) s = tft_fillRect (i16 x) (i16 y) (i16 w) (i16 h) c s"

fun tft_run :: "tft_op list \<Rightarrow> tft \<Rightarrow> tft option" where
  "tft_run [] s = Some s"
| "tft_run (a # as) s = Option.bind (tft_step a s) (tft_run as)"

lemma length_resize_fb [simp]: "length (resize_fb n fb) = n"
  by (simp add: resize_fb_def min_def)

lemma tft_ok_sizes: "w \<le> 32767 \<Longrightarrow> h \<le> 32767 \<Longrightarrow> tft_ok (tft_size w h s)"
  by (simp add: tft_ok_def tft_size_def)

lemma i16_at_most: "i16 (uint (v :: u16)) \<le> uint v"
proof (cases "uint v \<le> 32767")
  case False
  then show ?thesis
    using i16_range(2) [of "uint v"] by linarith
next
  case True
  moreover have "0 \<le> uint v"
    by simp
  ultimately show ?thesis
    by (subst i16_id) linarith+
qed

lemma tft_step_ok:
  assumes "tft_ok s"
  shows "\<exists>t. tft_step a s = Some t \<and> tft_ok t"
proof (cases a)
  case Init_B
  then show ?thesis
    by (simp add: st7735_initB_def tft_ok_sizes)
next
  case (Init_R n)
  then show ?thesis
    by (simp add: st7735_initR_def tft_ok_sizes Let_def)
next
  case (Init w h)
  have "i16 (uint w) * i16 (uint h) \<le> uint w * uint h" if "0 < i16 (uint w)" "0 < i16 (uint h)"
    using i16_at_most [of w] i16_at_most [of h] that by (intro mult_mono) simp_all
  then show ?thesis
    using Init i16_range(2) by (simp add: st7789_init_def tft_ok_def)
next
  case (Pixel x y c)
  then show ?thesis
    using assms by (simp add: tft_drawPixel_put)
next
  case (Rect x y w h c)
  then show ?thesis
    using tft_fillRect_fold [OF assms i16_range(1) i16_range(1), of x y "i16 w" "i16 h" c] tft.fill_get(2) [OF assms] by simp
qed (use assms in \<open>simp_all add: tft_setRotation_def tft_fillScreen_def tft_ok_def\<close>)

text \<open>
  Sizes. After any sequence of calls the buffer of a TFT controller is large enough for its width and
  height, so that drawing one pixel is never undefined, and the pixel drawn is the one read back.
\<close>

theorem tft_never_outside:
  "\<exists>s. tft_run ops st7735_new = Some s \<and> tft_ok s \<and>
    (\<exists>t. tft_drawPixel x y c s = Some t \<and> tft_getPixel x y t = (if on_tft s (x, y) then c else 0))"
proof -
  have "\<exists>s'. tft_run ops s = Some s' \<and> tft_ok s'" if "tft_ok s" for s
    using that
  proof (induction ops arbitrary: s)
    case (Cons a ops)
    then show ?case
      using tft_step_ok [of s a] by auto
  qed simp
  moreover have "tft_ok st7735_new"
    by (simp add: tft_ok_def st7735_new_def)
  ultimately obtain s where s: "tft_run ops st7735_new = Some s" "tft_ok s"
    by blast
  then have "tft_getPixel x y (tft_put (x, y) c s) = (if on_tft s (x, y) then c else 0)"
    using tft.get_put [OF s(2), where k = "(x, y)" and k' = "(x, y)" and v = c] by (auto simp: tft_getPixel_def on_tft_def)
  then show ?thesis
    using s tft_drawPixel_put by blast
qed

end
