(* ===== verification/Neo_Pixel.thy ===== *)
theory Neo_Pixel
  imports Interfaces
begin

unbundle bit_operations_syntax

text \<open>
  Addressable lights: the strip of \<open>src/include/Adafruit_NeoPixel.h\<close>, the matrix of
  \<open>src/include/Adafruit_NeoMatrix.h\<close> on a strip, and the bus of \<open>src/include/NeoPixelBus.h\<close>. The
  lemmas show that a strip is a store of colours, that the matrix maps its coordinates one to one to
  the pixels for each of its layouts, and what rotating and shifting do.
\<close>

section \<open>The strip\<close>

text \<open>Three bytes for each pixel. Of the constructor's arguments the pin and the type are only kept.\<close>

record strip =
  stNum :: u16
  stPixels :: "byte list"
  stBrightness :: byte

definition strip_new :: "u16 \<Rightarrow> strip" where
  "strip_new n = \<lparr>stNum = n, stPixels = replicate (unat n * 3) 0, stBrightness = 255\<rparr>"

definition setPixelRGB :: "u16 \<Rightarrow> byte \<Rightarrow> byte \<Rightarrow> byte \<Rightarrow> strip \<Rightarrow> strip" where
  "setPixelRGB n r g b s =
    (if stNum s \<le> n then s
     else s\<lparr>stPixels := (stPixels s)[unat n * 3 := r, unat n * 3 + 1 := g, unat n * 3 + 2 := b]\<rparr>)"

definition setPixelColor :: "u16 \<Rightarrow> u32 \<Rightarrow> strip \<Rightarrow> strip" where
  "setPixelColor n c s = setPixelRGB n (ucast (drop_bit 16 c)) (ucast (drop_bit 8 c)) (ucast c) s"

definition Color :: "byte \<Rightarrow> byte \<Rightarrow> byte \<Rightarrow> u32" where
  "Color r g b = push_bit 16 (ucast r) OR push_bit 8 (ucast g) OR ucast b"

definition getPixelColor :: "strip \<Rightarrow> u16 \<Rightarrow> u32" where
  "getPixelColor s n =
    (if stNum s \<le> n then 0
     else let p = stPixels s; i = unat n * 3
          in push_bit 16 (ucast (p ! i)) OR push_bit 8 (ucast (p ! (i + 1))) OR ucast (p ! (i + 2)))"

text \<open>The numbers are computed in \<open>int\<close> and stored in 8 or 16 bits.\<close>

definition ColorHSV :: "u16 \<Rightarrow> byte \<Rightarrow> byte \<Rightarrow> u32" where
  "ColorHSV hue sat val =
    (let h = uint hue; s = uint sat; v = uint val;
         region = h div 10923 mod 256;
         remainder = (h - region * 10923) * 6 mod 65536;
         p = word_of_int (v * (255 - s) div 256);
         q = word_of_int (v * (255 - s * remainder div 65536) div 256);
         t = word_of_int (v * (255 - s * (65535 - remainder) div 65536) div 256)
     in if region = 0 then Color val t p
        else if region = 1 then Color q val p
        else if region = 2 then Color p val t
        else if region = 3 then Color p q val
        else if region = 4 then Color t p val
        else Color val p q)"

definition setBrightness :: "byte \<Rightarrow> strip \<Rightarrow> strip" where
  "setBrightness b s = s\<lparr>stBrightness := b\<rparr>"

definition strip_clear :: "strip \<Rightarrow> strip" where
  "strip_clear s = s\<lparr>stPixels := replicate (length (stPixels s)) 0\<rparr>"

definition strip_fill :: "u32 \<Rightarrow> u16 \<Rightarrow> u16 \<Rightarrow> strip \<Rightarrow> strip" where
  "strip_fill c first count s =
    (let count = (if count = 0 then stNum s - first else count)
     in fold (\<lambda>i. setPixelColor (word_of_nat i) c)
          [unat first..<min (unat first + unat count) (unat (stNum s))] s)"

definition updateLength :: "u16 \<Rightarrow> strip \<Rightarrow> strip" where
  "updateLength n s =
    s\<lparr>stNum := n, stPixels := take (unat n * 3) (stPixels s) @ replicate (unat n * 3 - length (stPixels s)) 0\<rparr>"

text \<open>What \<open>show\<close> prints for a pixel: each byte scaled by the brightness.\<close>

definition shown :: "strip \<Rightarrow> nat \<Rightarrow> byte" where
  "shown s i = word_of_int (uint (stPixels s ! i) * uint (stBrightness s) div 255)"

definition strip_ok :: "strip \<Rightarrow> bool" where
  "strip_ok s \<longleftrightarrow> length (stPixels s) = unat (stNum s) * 3"

text \<open>The three bytes of a colour.\<close>

definition rgb_word :: "u32 \<Rightarrow> u32" where
  "rgb_word c = c AND 0xFFFFFF"

lemma strip_ok_ops [simp]:
  "strip_ok (strip_new n)" "strip_ok (setPixelRGB n r g b s) = strip_ok s" "strip_ok (setPixelColor n c s) = strip_ok s"
  "strip_ok (setBrightness x s) = strip_ok s" "strip_ok (strip_clear s) = strip_ok s" "strip_ok s \<Longrightarrow> strip_ok (updateLength n s)"
  by (simp_all add: strip_ok_def strip_new_def setPixelRGB_def setPixelColor_def setBrightness_def strip_clear_def
      updateLength_def)

lemma stNum_set [simp]: "stNum (setPixelRGB n r g b s) = stNum s" "stNum (setPixelColor n c s) = stNum s"
  by (simp_all add: setPixelRGB_def setPixelColor_def)

lemma color_bytes:
  "push_bit 16 (ucast (ucast (drop_bit 16 c) :: byte)) OR push_bit 8 (ucast (ucast (drop_bit 8 c) :: byte)) OR
     (ucast (ucast c :: byte) :: u32) = rgb_word c"
proof (rule bit_word_eqI)
  fix n
  assume "n < LENGTH(32)"
  have "rgb_word c = take_bit 24 c"
    by (simp add: rgb_word_def take_bit_eq_mask mask_eq_exp_minus_1)
  then show "bit (push_bit 16 (ucast (ucast (drop_bit 16 c) :: byte)) OR push_bit 8 (ucast (ucast (drop_bit 8 c) :: byte)) OR
      (ucast (ucast c :: byte) :: u32)) n \<longleftrightarrow> bit (rgb_word c) n"
    using \<open>n < LENGTH(32)\<close>
    by (cases "n < 8"; cases "n < 16") (auto simp: bit_simps)
qed

lemma get_setRGB:
  assumes "strip_ok s"
  shows "getPixelColor (setPixelRGB n r g b s) m = (if m = n \<and> n < stNum s then Color r g b else getPixelColor s m)"
proof (cases "n < stNum s \<and> m < stNum s")
  case True
  then have l: "unat n * 3 + 2 < length (stPixels s)" "unat m * 3 + 2 < length (stPixels s)"
    using assms unfolding strip_ok_def by (simp_all add: word_less_nat_alt)
  have "unat m = unat n \<longleftrightarrow> m = n"
    by (simp add: word_unat_eq_iff)
  moreover have "unat m * 3 = unat n * 3 + 1 \<longleftrightarrow> False" "unat m * 3 = unat n * 3 + 2 \<longleftrightarrow> False"
    "unat m * 3 + 1 = unat n * 3 \<longleftrightarrow> False" "unat m * 3 + 1 = unat n * 3 + 2 \<longleftrightarrow> False"
    "unat m * 3 + 2 = unat n * 3 \<longleftrightarrow> False" "unat m * 3 + 2 = unat n * 3 + 1 \<longleftrightarrow> False"
    by presburger+
  ultimately show ?thesis
    using l True by (auto simp: getPixelColor_def setPixelRGB_def Color_def Let_def nth_list_update not_le)
qed (auto simp: getPixelColor_def setPixelRGB_def not_less not_le)

lemma get_setColor:
  assumes "strip_ok s"
  shows "getPixelColor (setPixelColor n c s) m = (if m = n \<and> n < stNum s then rgb_word c else getPixelColor s m)"
  unfolding setPixelColor_def get_setRGB [OF assms] Color_def color_bytes by simp

text \<open>The strip is a store of cells; a colour of 32 bits loses its upper byte.\<close>

interpretation strip_cells: cell_store strip_ok "\<lambda>s n. n < stNum s" setPixelColor getPixelColor rgb_word
  by unfold_locales (simp_all add: get_setColor)

section \<open>The matrix\<close>

text \<open>
  A grid of tiles on one strip. The width and the height are those of \<open>Adafruit_GFX\<close>, which a rotation
  exchanges. The layout bits for the tiles themselves are never consulted.
\<close>

record neo_matrix =
  nmW :: int
  nmH :: int
  nmTilesX :: int
  nmTilesY :: int
  nmType :: byte
  nmRotation :: byte
  nmStrip :: strip

definition matrix_new :: "int \<Rightarrow> int \<Rightarrow> int \<Rightarrow> int \<Rightarrow> byte \<Rightarrow> neo_matrix" where
  "matrix_new w h tx ty type =
    \<lparr>nmW = w, nmH = h, nmTilesX = tx, nmTilesY = ty, nmType = type, nmRotation = 0,
     nmStrip = strip_new (word_of_int (w * h * tx * ty))\<rparr>"

definition nm_setRotation :: "byte \<Rightarrow> neo_matrix \<Rightarrow> neo_matrix" where
  "nm_setRotation r m = m\<lparr>nmRotation := r AND 3\<rparr>"

definition nm_width :: "neo_matrix \<Rightarrow> int" where
  "nm_width m = (if nmRotation m AND 1 \<noteq> 0 then nmH m * nmTilesY m else nmW m * nmTilesX m)"

definition nm_height :: "neo_matrix \<Rightarrow> int" where
  "nm_height m = (if nmRotation m AND 1 \<noteq> 0 then nmW m * nmTilesX m else nmH m * nmTilesY m)"

definition pixelIndex :: "neo_matrix \<Rightarrow> int \<Rightarrow> int \<Rightarrow> int" where
  "pixelIndex m x y =
    (let w = nmW m; h = nmH m; type = nmType m
     in if x < 0 \<or> y < 0 \<or> x \<ge> w * nmTilesX m \<or> y \<ge> h * nmTilesY m then - 1
        else
          let tileX = x div w; tileY = y div h; localX = x mod w; localY = y mod h;
              zigzag = (type AND 0x08 \<noteq> 0); columns = (type AND 0x04 \<noteq> 0);
              localY = (if type AND 0x01 \<noteq> 0 then h - 1 - localY else localY);
              localX = (if type AND 0x02 \<noteq> 0 then w - 1 - localX else localX);
              pixel = (if columns
                then (let localY = (if zigzag \<and> odd localX then h - 1 - localY else localY) in localX * h + localY)
                else (let localX = (if zigzag \<and> odd localY then w - 1 - localX else localX) in localY * w + localX))
          in (tileY * nmTilesX m + tileX) * (w * h) + pixel)"

definition expand565 :: "u16 \<Rightarrow> byte \<times> byte \<times> byte" where
  "expand565 color =
    (push_bit 3 (ucast (drop_bit 11 color AND 0x1F)), push_bit 2 (ucast (drop_bit 5 color AND 0x3F)),
     push_bit 3 (ucast (color AND 0x1F)))"

definition nm_Color :: "byte \<Rightarrow> byte \<Rightarrow> byte \<Rightarrow> u16" where
  "nm_Color r g b = push_bit 8 (ucast (r AND 0xF8)) OR push_bit 3 (ucast (g AND 0xFC)) OR ucast (drop_bit 3 b)"

definition nm_drawPixel :: "int \<Rightarrow> int \<Rightarrow> u16 \<Rightarrow> neo_matrix \<Rightarrow> neo_matrix" where
  "nm_drawPixel x y color m =
    (if x < 0 \<or> y < 0 \<or> x \<ge> nm_width m \<or> y \<ge> nm_height m then m
     else let i = pixelIndex m x y; (r, g, b) = expand565 color
          in if i \<ge> 0 then m\<lparr>nmStrip := setPixelRGB (word_of_int i) r g b (nmStrip m)\<rparr> else m)"

definition nm_fillScreen :: "u16 \<Rightarrow> neo_matrix \<Rightarrow> neo_matrix" where
  "nm_fillScreen color m =
    (let (r, g, b) = expand565 color
     in m\<lparr>nmStrip := fold (\<lambda>i. setPixelRGB (word_of_nat i) r g b) [0..<unat (stNum (nmStrip m))] (nmStrip m)\<rparr>)"

text \<open>
  The place of a pixel in a tile, with the reflections of the layout, is a bijection onto the numbers
  below the size of the tile; so is the place of the tile.
\<close>

definition mirror :: "bool \<Rightarrow> int \<Rightarrow> int \<Rightarrow> int" where
  "mirror b n i = (if b then n - 1 - i else i)"

definition tile_place :: "int \<Rightarrow> int \<Rightarrow> byte \<Rightarrow> int \<Rightarrow> int \<Rightarrow> int" where
  "tile_place w h type lx ly =
    (let ly = mirror (type AND 0x01 \<noteq> 0) h ly; lx = mirror (type AND 0x02 \<noteq> 0) w lx
     in if type AND 0x04 \<noteq> 0 then lx * h + mirror (type AND 0x08 \<noteq> 0 \<and> odd lx) h ly
        else ly * w + mirror (type AND 0x08 \<noteq> 0 \<and> odd ly) w lx)"

lemma mirror_bound [simp]: "0 \<le> i \<and> i < n \<Longrightarrow> 0 \<le> mirror b n i \<and> mirror b n i < n"
  by (simp add: mirror_def)

lemma mirror_inject [simp]: "mirror b n i = mirror b n j \<longleftrightarrow> i = j"
  by (auto simp: mirror_def)

lemma pixelIndex_place:
  assumes "0 \<le> x" "x < nmW m * nmTilesX m" "0 \<le> y" "y < nmH m * nmTilesY m"
  shows "pixelIndex m x y =
    (y div nmH m * nmTilesX m + x div nmW m) * (nmW m * nmH m) + tile_place (nmW m) (nmH m) (nmType m) (x mod nmW m) (y mod nmH m)"
  using assms by (simp add: pixelIndex_def tile_place_def mirror_def Let_def)

text \<open>Two numbers in mixed radix determine each other.\<close>

lemma radix_bound:
  fixes a b n k :: int
  shows "0 \<le> a \<Longrightarrow> a < n \<Longrightarrow> 0 \<le> b \<Longrightarrow> b < k \<Longrightarrow> 0 \<le> a * k + b \<and> a * k + b < n * k"
proof -
  assume a: "0 \<le> a" "a < n" "0 \<le> b" "b < k"
  have "(a + 1) * k \<le> n * k"
    using a by (intro mult_right_mono) simp_all
  then show ?thesis
    using a by (simp add: distrib_right)
qed

lemma radix_inject:
  fixes a b a' b' k :: int
  assumes "0 \<le> b" "b < k" "0 \<le> b'" "b' < k" "a * k + b = a' * k + b'"
  shows "a = a' \<and> b = b'"
proof -
  have "(a * k + b) div k = a" "(a' * k + b') div k = a'"
    using assms(1-4) by simp_all
  with assms(5) show ?thesis
    by simp
qed

lemma tile_place_bound:
  assumes "0 \<le> lx \<and> lx < w" "0 \<le> ly \<and> ly < h"
  shows "0 \<le> tile_place w h t lx ly \<and> tile_place w h t lx ly < w * h"
proof -
  define x y where "x = mirror (t AND 0x02 \<noteq> 0) w lx" and "y = mirror (t AND 0x01 \<noteq> 0) h ly"
  have xy: "0 \<le> x \<and> x < w" "0 \<le> y \<and> y < h"
    using assms by (simp_all add: x_def y_def)
  have "0 \<le> x * h + mirror b h y \<and> x * h + mirror b h y < w * h" "0 \<le> y * w + mirror b w x \<and> y * w + mirror b w x < h * w" for b
    using xy by (simp_all add: radix_bound)
  then show ?thesis
    unfolding tile_place_def Let_def x_def [symmetric] y_def [symmetric] by (simp add: mult.commute [of h w])
qed

lemma tile_place_inject:
  assumes "0 \<le> lx \<and> lx < w" "0 \<le> ly \<and> ly < h" "0 \<le> lx' \<and> lx' < w" "0 \<le> ly' \<and> ly' < h"
    and "tile_place w h t lx ly = tile_place w h t lx' ly'"
  shows "lx = lx' \<and> ly = ly'"
proof -
  let ?X = "mirror (t AND 0x02 \<noteq> 0) w" and ?Y = "mirror (t AND 0x01 \<noteq> 0) h"
  have r: "0 \<le> ?X lx \<and> ?X lx < w" "0 \<le> ?X lx' \<and> ?X lx' < w" "0 \<le> ?Y ly \<and> ?Y ly < h" "0 \<le> ?Y ly' \<and> ?Y ly' < h"
    using assms by simp_all
  show ?thesis
  proof (cases "t AND 0x04 \<noteq> 0")
    case True
    then have e: "?X lx * h + mirror (t AND 0x08 \<noteq> 0 \<and> odd (?X lx)) h (?Y ly) =
        ?X lx' * h + mirror (t AND 0x08 \<noteq> 0 \<and> odd (?X lx')) h (?Y ly')"
      using assms(5) by (simp add: tile_place_def Let_def)
    have "?X lx = ?X lx' \<and> mirror (t AND 0x08 \<noteq> 0 \<and> odd (?X lx)) h (?Y ly) = mirror (t AND 0x08 \<noteq> 0 \<and> odd (?X lx')) h (?Y ly')"
      by (rule radix_inject [OF _ _ _ _ e]) (use r(3,4) in simp_all)
    then show ?thesis
      by auto
  next
    case False
    then have e: "?Y ly * w + mirror (t AND 0x08 \<noteq> 0 \<and> odd (?Y ly)) w (?X lx) =
        ?Y ly' * w + mirror (t AND 0x08 \<noteq> 0 \<and> odd (?Y ly')) w (?X lx')"
      using assms(5) by (simp add: tile_place_def Let_def)
    have "?Y ly = ?Y ly' \<and> mirror (t AND 0x08 \<noteq> 0 \<and> odd (?Y ly)) w (?X lx) = mirror (t AND 0x08 \<noteq> 0 \<and> odd (?Y ly')) w (?X lx')"
      by (rule radix_inject [OF _ _ _ _ e]) (use r(1,2) in simp_all)
    then show ?thesis
      by auto
  qed
qed


definition on_matrix :: "neo_matrix \<Rightarrow> int \<Rightarrow> int \<Rightarrow> bool" where
  "on_matrix m x y \<longleftrightarrow> 0 \<le> x \<and> x < nmW m * nmTilesX m \<and> 0 \<le> y \<and> y < nmH m * nmTilesY m"

definition matrix_size :: "neo_matrix \<Rightarrow> int" where
  "matrix_size m = nmW m * nmH m * nmTilesX m * nmTilesY m"

text \<open>A coordinate splits into tile and place.\<close>

lemma split_coord:
  fixes x w n :: int
  assumes "0 \<le> x" "x < w * n" "0 < w"
  shows "0 \<le> x div w \<and> x div w < n" "0 \<le> x mod w \<and> x mod w < w"
proof -
  have "x div w * w \<le> x"
    using assms div_mult_mod_eq [of x w] pos_mod_sign [OF assms(3), of x] by linarith
  then have "x div w * w < n * w"
    using assms(2) by (simp add: mult.commute)
  then have "x div w < n"
    using assms(3) by simp
  then show "0 \<le> x div w \<and> x div w < n"
    using assms by (simp add: pos_imp_zdiv_nonneg_iff)
  show "0 \<le> x mod w \<and> x mod w < w"
    using assms(3) by simp
qed

lemma pixelIndex_bound:
  assumes "on_matrix m x y" "0 < nmW m" "0 < nmH m"
  shows "0 \<le> pixelIndex m x y \<and> pixelIndex m x y < matrix_size m"
proof -
  have x: "0 \<le> x" "x < nmW m * nmTilesX m" "0 \<le> y" "y < nmH m * nmTilesY m"
    using assms(1) by (simp_all add: on_matrix_def)
  note sx = split_coord [OF x(1,2) assms(2)] and sy = split_coord [OF x(3,4) assms(3)]
  have t: "0 \<le> y div nmH m * nmTilesX m + x div nmW m \<and> y div nmH m * nmTilesX m + x div nmW m < nmTilesY m * nmTilesX m"
    using sx sy by (intro radix_bound) simp_all
  have "0 \<le> pixelIndex m x y \<and> pixelIndex m x y < nmTilesY m * nmTilesX m * (nmW m * nmH m)"
    unfolding pixelIndex_place [OF x] using t tile_place_bound [OF sx(2) sy(2), of "nmType m"] by (intro radix_bound) simp_all
  then show ?thesis
    by (simp add: matrix_size_def mult_ac)
qed

lemma pixelIndex_inject:
  assumes "on_matrix m x y" "on_matrix m x' y'" "0 < nmW m" "0 < nmH m" "pixelIndex m x y = pixelIndex m x' y'"
  shows "x = x' \<and> y = y'"
proof -
  have x: "0 \<le> x" "x < nmW m * nmTilesX m" "0 \<le> y" "y < nmH m * nmTilesY m"
    and x': "0 \<le> x'" "x' < nmW m * nmTilesX m" "0 \<le> y'" "y' < nmH m * nmTilesY m"
    using assms(1,2) by (simp_all add: on_matrix_def)
  note sx = split_coord [OF x(1,2) assms(3)] and sy = split_coord [OF x(3,4) assms(4)]
  note sx' = split_coord [OF x'(1,2) assms(3)] and sy' = split_coord [OF x'(3,4) assms(4)]
  note b = tile_place_bound [OF sx(2) sy(2), of "nmType m"] and b' = tile_place_bound [OF sx'(2) sy'(2), of "nmType m"]
  have "y div nmH m * nmTilesX m + x div nmW m = y' div nmH m * nmTilesX m + x' div nmW m \<and>
      tile_place (nmW m) (nmH m) (nmType m) (x mod nmW m) (y mod nmH m) =
      tile_place (nmW m) (nmH m) (nmType m) (x' mod nmW m) (y' mod nmH m)"
    using assms(5) b b' unfolding pixelIndex_place [OF x] pixelIndex_place [OF x'] by (intro radix_inject) simp_all
  moreover from this have "y div nmH m = y' div nmH m \<and> x div nmW m = x' div nmW m"
    using sx(1) sx'(1) by (intro radix_inject [of _ "nmTilesX m"]) simp_all
  ultimately have "x div nmW m = x' div nmW m" "x mod nmW m = x' mod nmW m" "y div nmH m = y' div nmH m" "y mod nmH m = y' mod nmH m"
    using tile_place_inject [OF sx(2) sy(2) sx'(2) sy'(2)] by blast+
  then show ?thesis
    by (metis div_mult_mod_eq)
qed

text \<open>A colour of 16 bits survives being taken apart and put together.\<close>

lemma expand565_Color:
  assumes "expand565 c = (r, g, b)"
  shows "nm_Color r g b = c"
proof (rule bit_word_eqI)
  fix n
  assume n: "n < LENGTH(16)"
  have masks: "(0x1F :: u16) = mask 5" "(0x3F :: u16) = mask 6" "(0xF8 :: byte) = push_bit 3 (mask 5)" "(0xFC :: byte) = push_bit 2 (mask 6)"
    by (simp_all add: mask_eq_exp_minus_1)
  have e: "r = push_bit 3 (ucast (drop_bit 11 c AND mask 5))" "g = push_bit 2 (ucast (drop_bit 5 c AND mask 6))"
    "b = push_bit 3 (ucast (c AND mask 5))"
    using assms by (simp_all add: expand565_def masks)
  have "bit (nm_Color r g b) n \<longleftrightarrow> (if n < 5 then bit c n else if n < 11 then bit c n else bit c n)"
    unfolding nm_Color_def e masks using n
    by (cases "n < 5"; cases "n < 8"; cases "n < 11") (auto simp: bit_simps)
  then show "bit (nm_Color r g b) n \<longleftrightarrow> bit c n"
    by simp
qed

section \<open>The bus\<close>

text \<open>Pixels of any type with a black one; \<open>dirty\<close> is set by every change and reset by \<open>Show\<close>.\<close>

record 'c pixel_bus =
  pbPixels :: "'c list"
  pbDirty :: bool
  pbShown :: nat

definition bus_new :: "'c \<Rightarrow> u16 \<Rightarrow> 'c pixel_bus" where
  "bus_new black n = \<lparr>pbPixels = replicate (unat n) black, pbDirty = False, pbShown = 0\<rparr>"

definition bus_Show :: "'c pixel_bus \<Rightarrow> 'c pixel_bus" where
  "bus_Show b = b\<lparr>pbDirty := False, pbShown := pbShown b + 1\<rparr>"

definition bus_Set :: "u16 \<Rightarrow> 'c \<Rightarrow> 'c pixel_bus \<Rightarrow> 'c pixel_bus" where
  "bus_Set i c b =
    (if unat i < length (pbPixels b) then b\<lparr>pbPixels := (pbPixels b)[unat i := c], pbDirty := True\<rparr> else b)"

definition bus_Get :: "'c \<Rightarrow> 'c pixel_bus \<Rightarrow> u16 \<Rightarrow> 'c" where
  "bus_Get black b i = (if unat i < length (pbPixels b) then pbPixels b ! unat i else black)"

definition bus_ClearTo :: "'c \<Rightarrow> 'c pixel_bus \<Rightarrow> 'c pixel_bus" where
  "bus_ClearTo c b = b\<lparr>pbPixels := replicate (length (pbPixels b)) c, pbDirty := True\<rparr>"

text \<open>\<open>std::rotate\<close>, forward and over reverse iterators.\<close>

definition bus_RotateLeft :: "u16 \<Rightarrow> 'c pixel_bus \<Rightarrow> 'c pixel_bus" where
  "bus_RotateLeft count b =
    (let xs = pbPixels b
     in if xs = [] then b
        else let k = unat count mod length xs in b\<lparr>pbPixels := drop k xs @ take k xs, pbDirty := True\<rparr>)"

definition bus_RotateRight :: "u16 \<Rightarrow> 'c pixel_bus \<Rightarrow> 'c pixel_bus" where
  "bus_RotateRight count b =
    (let xs = pbPixels b
     in if xs = [] then b
        else let k = unat count mod length xs; ys = rev xs in b\<lparr>pbPixels := rev (drop k ys @ take k ys), pbDirty := True\<rparr>)"

text \<open>The first blackened pixel is computed in 16 bits.\<close>

definition bus_ShiftLeft :: "'c \<Rightarrow> u16 \<Rightarrow> 'c pixel_bus \<Rightarrow> 'c pixel_bus" where
  "bus_ShiftLeft black count b =
    (let b = bus_RotateLeft count b; xs = pbPixels b; first = unat (word_of_int (int (length xs) - uint count) :: u16)
     in b\<lparr>pbPixels := take first xs @ replicate (length xs - first) black\<rparr>)"

definition bus_ShiftRight :: "'c \<Rightarrow> u16 \<Rightarrow> 'c pixel_bus \<Rightarrow> 'c pixel_bus" where
  "bus_ShiftRight black count b =
    (let b = bus_RotateRight count b; xs = pbPixels b; n = min (unat count) (length xs)
     in b\<lparr>pbPixels := replicate n black @ drop n xs\<rparr>)"

lemma sub_mod_2_16:
  fixes n k :: nat
  assumes "n < 2 ^ 16" "k < 2 ^ 16"
  shows "nat ((int n - int k) mod 2 ^ 16) = (if k \<le> n then n - k else 2 ^ 16 + n - k)"
proof (cases "k \<le> n")
  case True
  then have "(int n - int k) mod 2 ^ 16 = int n - int k"
    using assms by (intro mod_pos_pos_trivial) simp_all
  then show ?thesis
    using True by simp
next
  case False
  have "(int n - int k) mod 2 ^ 16 = (int n - int k + 2 ^ 16) mod 2 ^ 16"
    by (rule mod_add_self2 [symmetric])
  also have "\<dots> = int n - int k + 2 ^ 16"
    using False assms by (intro mod_pos_pos_trivial) simp_all
  finally show ?thesis
    using False assms by simp
qed

lemma shift_first:
  fixes n :: nat and k :: u16
  assumes "n < 2 ^ 16"
  shows "unat (word_of_int (int n - uint k) :: u16) = (if unat k \<le> n then n - unat k else 2 ^ 16 + n - unat k)"
proof -
  have "unat (word_of_int (int n - uint k) :: u16) = nat ((int n - uint k) mod 2 ^ 16)"
    unfolding unat_eq_nat_uint uint_word_of_int by simp
  also have "uint k = int (unat k)"
    by (rule uint_nat)
  also have "nat ((int n - int (unat k)) mod 2 ^ 16) = (if unat k \<le> n then n - unat k else 2 ^ 16 + n - unat k)"
    by (rule sub_mod_2_16 [OF assms]) (use unat_bound [of k] in simp)
  finally show ?thesis
    unfolding uint_nat .
qed

section \<open>Properties\<close>

text \<open>
  Filling. \<open>fill\<close> sets the pixels of its range that exist, to the end of the strip with a count of 0,
  and no others.
\<close>

theorem neopixel_fill_range:
  assumes "strip_ok s" "m < stNum s" "first \<le> stNum s"
  shows "getPixelColor (strip_fill c first count s) m =
    (if first \<le> m \<and> (count = 0 \<or> unat m < unat first + unat count) then rgb_word c else getPixelColor s m)"
proof -
  let ?k = "if count = 0 then stNum s - first else count"
  have m: "unat m < unat (stNum s)" "first \<le> m \<longleftrightarrow> unat first \<le> unat m"
    using assms(2) by (simp_all add: word_less_nat_alt word_le_nat_alt)
  have k: "unat first + unat (stNum s - first) = unat (stNum s)"
    using assms(3) by (simp add: unat_sub word_le_nat_alt)
  let ?n = "min (unat first + unat ?k) (unat (stNum s))"
  have fill: "strip_fill c first count s = fold (\<lambda>i. setPixelColor i c) (map word_of_nat [unat first..<?n]) s"
    by (simp add: strip_fill_def fold_map comp_def Let_def)
  have "m \<in> set (map word_of_nat [unat first..<?n]) \<longleftrightarrow> unat first \<le> unat m \<and> unat m < ?n"
  proof
    assume "m \<in> set (map word_of_nat [unat first..<?n])"
    then obtain i where "unat first \<le> i" "i < ?n" "m = word_of_nat i"
      by auto
    then show "unat first \<le> unat m \<and> unat m < ?n"
      using unat_bound [of "stNum s"] by (simp add: unat_of_nat)
  next
    assume "unat first \<le> unat m \<and> unat m < ?n"
    then show "m \<in> set (map word_of_nat [unat first..<?n])"
      by (auto intro!: image_eqI [of _ _ "unat m"])
  qed
  then show ?thesis
    unfolding fill strip_cells.fill_get(1) [OF assms(1)] using m k assms(2) by auto
qed

theorem neopixel_fill_range_witness:
  "getPixelColor (strip_fill 0xFF8040 2 0 (strip_new 5)) 4 = 0xFF8040 \<and> getPixelColor (strip_fill 0xFF8040 2 2 (strip_new 5)) 4 = 0"
proof -
  have "stNum (strip_new 5) = 5" "getPixelColor (strip_new 5) 4 = 0"
    by (simp_all add: strip_new_def getPixelColor_def Let_def)
  then show ?thesis
    using neopixel_fill_range [of "strip_new 5" 4 2 "0xFF8040" 0] neopixel_fill_range [of "strip_new 5" 4 2 "0xFF8040" 2]
    by (simp add: rgb_word_def)
qed

text \<open>
  C34: the matrix layout. For each of the 256 layout bytes and any grid of tiles, the coordinates of the
  matrix correspond one to one to the numbers of the pixels: none is used twice and none is left out.
\<close>

theorem matrix_layout_bijection:
  assumes "0 < nmW m" "0 < nmH m" "0 < nmTilesX m" "0 < nmTilesY m"
  shows "bij_betw (\<lambda>(x, y). pixelIndex m x y) ({0..<nmW m * nmTilesX m} \<times> {0..<nmH m * nmTilesY m}) {0..<matrix_size m}"
proof -
  let ?A = "{0..<nmW m * nmTilesX m} \<times> {0..<nmH m * nmTilesY m}" and ?f = "\<lambda>(x, y). pixelIndex m x y"
  have on: "(x, y) \<in> ?A \<longleftrightarrow> on_matrix m x y" for x y
    by (auto simp: on_matrix_def)
  have inj: "inj_on ?f ?A"
  proof (rule inj_onI)
    fix p q
    assume "p \<in> ?A" "q \<in> ?A" "?f p = ?f q"
    then show "p = q"
      using pixelIndex_inject [OF _ _ assms(1,2), of "fst p" "snd p" "fst q" "snd q"] on [of "fst p" "snd p"] on [of "fst q" "snd q"]
      by (simp add: case_prod_unfold prod_eq_iff)
  qed
  have sub: "?f ` ?A \<subseteq> {0..<matrix_size m}"
  proof
    fix i
    assume "i \<in> ?f ` ?A"
    then obtain x y where "(x, y) \<in> ?A" "i = pixelIndex m x y"
      by (metis (no_types, lifting) case_prod_conv imageE prod.exhaust)
    then show "i \<in> {0..<matrix_size m}"
      using pixelIndex_bound [OF _ assms(1,2)] on by simp
  qed
  have "card (?f ` ?A) = card ?A"
    by (rule card_image [OF inj])
  also have "\<dots> = nat (nmW m * nmTilesX m) * nat (nmH m * nmTilesY m)"
    by (simp add: card_cartesian_product)
  also have "\<dots> = nat (matrix_size m)"
    using assms by (simp add: matrix_size_def nat_mult_distrib [symmetric] mult_ac)
  also have "\<dots> = card {0..<matrix_size m}"
    by simp
  finally have "?f ` ?A = {0..<matrix_size m}"
    by (intro card_subset_eq sub) simp_all
  with inj show ?thesis
    by (simp add: bij_betw_def)
qed

theorem matrix_layout_bijection_witness:
  "bij_betw (\<lambda>(x, y). pixelIndex (matrix_new 8 8 2 1 0x0F) x y) ({0..<16} \<times> {0..<8}) {0..<128}"
  using matrix_layout_bijection [of "matrix_new 8 8 2 1 0x0F"] by (simp add: matrix_new_def matrix_size_def)

text \<open>
  Drawing on a matrix. On an unrotated matrix a drawn pixel has the drawn colour, whose 16 bits can be
  got back, and every other coordinate keeps its colour.
\<close>

theorem matrix_draw_pixel:
  assumes "0 < nmW m" "0 < nmH m" "strip_ok (nmStrip m)" "int (unat (stNum (nmStrip m))) = matrix_size m"
    and "nmRotation m = 0" "on_matrix m x y" "on_matrix m x' y'" "expand565 c = (r, g, b)"
  shows "getPixelColor (nmStrip (nm_drawPixel x y c m)) (word_of_int (pixelIndex m x' y')) =
      (if x' = x \<and> y' = y then Color r g b else getPixelColor (nmStrip m) (word_of_int (pixelIndex m x' y'))) \<and> nm_Color r g b = c"
proof -
  note i = pixelIndex_bound [OF assms(6,1,2)] and i' = pixelIndex_bound [OF assms(7,1,2)]
  have n: "matrix_size m < 2 ^ 16"
    using uint_bounded [of "stNum (nmStrip m)"] assms(4) by simp
  then have u: "uint (word_of_int (pixelIndex m x y) :: u16) = pixelIndex m x y"
    "uint (word_of_int (pixelIndex m x' y') :: u16) = pixelIndex m x' y'"
    using i i' by (simp_all add: uint_word_of_int)
  then have same: "(word_of_int (pixelIndex m x' y') :: u16) = word_of_int (pixelIndex m x y) \<longleftrightarrow> x' = x \<and> y' = y"
    using pixelIndex_inject [OF assms(7,6,1,2)] by metis
  have less: "(word_of_int (pixelIndex m x y) :: u16) < stNum (nmStrip m)"
    unfolding word_less_def u using i assms(4) by simp
  have "nm_drawPixel x y c m = m\<lparr>nmStrip := setPixelRGB (word_of_int (pixelIndex m x y)) r g b (nmStrip m)\<rparr>"
    using assms(5,6,8) i by (simp add: nm_drawPixel_def nm_width_def nm_height_def on_matrix_def Let_def)
  then show ?thesis
    using same less expand565_Color [OF assms(8)] by (simp add: get_setRGB [OF assms(3)])
qed

theorem matrix_draw_pixel_witness:
  "getPixelColor (nmStrip (nm_drawPixel 1 1 0xF81F (matrix_new 2 2 1 1 0x08))) 2 = 0xF800F8"
proof -
  have "pixelIndex (matrix_new 2 2 1 1 0x08) 1 1 = 2" "expand565 0xF81F = (0xF8, 0, 0xF8)"
    by (simp_all add: pixelIndex_def matrix_new_def expand565_def)
  then show ?thesis
    using matrix_draw_pixel [of "matrix_new 2 2 1 1 0x08" 1 1 1 1 "0xF81F" "0xF8" 0 "0xF8"]
    by (simp add: matrix_new_def strip_new_def strip_ok_def matrix_size_def on_matrix_def Color_def)
qed

text \<open>
  What shifting does to a bus: as many black pixels enter as the others move, for counts up to the
  length; a left shift by more only rotates.
\<close>

theorem bus_shift:
  assumes "pbPixels b \<noteq> []" "length (pbPixels b) < 2 ^ 16"
  shows "pbPixels (bus_ShiftRight black k b) =
      (if unat k \<le> length (pbPixels b)
       then replicate (unat k) black @ take (length (pbPixels b) - unat k) (pbPixels b)
       else replicate (length (pbPixels b)) black) \<and>
    pbPixels (bus_ShiftLeft black k b) =
      (if unat k \<le> length (pbPixels b)
       then drop (unat k) (pbPixels b) @ replicate (unat k) black
       else pbPixels (bus_RotateLeft k b))"
proof -
  let ?n = "length (pbPixels b)" and ?k = "unat k" and ?xs = "pbPixels b"
  have rl: "pbPixels (bus_RotateLeft k b) = drop (?k mod ?n) ?xs @ take (?k mod ?n) ?xs"
    and rr: "pbPixels (bus_RotateRight k b) = drop (?n - ?k mod ?n) ?xs @ take (?n - ?k mod ?n) ?xs"
    using assms(1) by (simp_all add: bus_RotateLeft_def bus_RotateRight_def Let_def rev_take rev_drop)
  have len: "length (pbPixels (bus_RotateLeft k b)) = ?n"
    unfolding rl by simp
  have m: "?k mod ?n = (if ?k < ?n then ?k else 0)" if "?k \<le> ?n"
    using that by auto
  define first where "first = unat (word_of_int (int ?n - uint k) :: u16)"
  have first: "first = (if ?k \<le> ?n then ?n - ?k else 2 ^ 16 + ?n - ?k)"
    unfolding first_def using assms(2) by (rule shift_first)
  have sl: "pbPixels (bus_ShiftLeft black k b) =
      take first (pbPixels (bus_RotateLeft k b)) @ replicate (?n - first) black"
    unfolding bus_ShiftLeft_def Let_def first_def len by simp
  have l: "pbPixels (bus_ShiftLeft black k b) =
      (if ?k \<le> ?n then drop ?k ?xs @ replicate ?k black else pbPixels (bus_RotateLeft k b))"
  proof (cases "?k \<le> ?n")
    case True
    then show ?thesis
      by (simp add: sl rl m first)
  next
    case False
    have "?n \<le> first"
      using False unat_bound [of k] by (simp add: first)
    with len have "take first (pbPixels (bus_RotateLeft k b)) = pbPixels (bus_RotateLeft k b)" "?n - first = 0"
      by (simp_all only: take_all_iff diff_is_0_eq)
    then show ?thesis
      unfolding sl using False by simp
  qed
  moreover have "pbPixels (bus_ShiftRight black k b) =
      (if ?k \<le> ?n then replicate ?k black @ take (?n - ?k) ?xs else replicate ?n black)"
  proof (cases "?k \<le> ?n")
    case False
    have "length (pbPixels (bus_RotateRight k b)) = ?n"
      unfolding rr by simp
    with False show ?thesis
      by (simp add: bus_ShiftRight_def Let_def)
  qed (simp add: bus_ShiftRight_def Let_def rr m min_def)
  ultimately show ?thesis
    by blast
qed

lemma replicate_two: "replicate 2 x = [x, x]"
  by (simp add: numeral_2_eq_2)

theorem bus_shift_witness:
  "pbPixels (bus_ShiftRight 0 2 \<lparr>pbPixels = [7, 8, 9 :: nat], pbDirty = False, pbShown = 0\<rparr>) = [0, 0, 7] \<and>
   pbPixels (bus_ShiftLeft 0 4 \<lparr>pbPixels = [7, 8, 9 :: nat], pbDirty = False, pbShown = 0\<rparr>) = [8, 9, 7]"
  using bus_shift [of "\<lparr>pbPixels = [7, 8, 9 :: nat], pbDirty = False, pbShown = 0\<rparr>" 0 2]
    bus_shift [of "\<lparr>pbPixels = [7, 8, 9 :: nat], pbDirty = False, pbShown = 0\<rparr>" 0 4]
  by (simp add: bus_RotateLeft_def replicate_two)

end
