(* ===== verification/Color_Pixels.thy ===== *)
theory Color_Pixels
  imports Raster Neo_Pixel
begin

unbundle bit_operations_syntax

text \<open>
  Colour pixels: the light strips of \<open>src/include/Adafruit_DotStar.h\<close> and \<open>FastLED.h\<close> and the panels of
  \<open>esp_lcd.h\<close>. The lemmas show that the pixels of a strip are cells of a store and what filling a range
  colours, that a hue keeps its brightness, and which bytes of a panel a bitmap reaches.
\<close>

section \<open>\<open>Adafruit_DotStar.h\<close>\<close>

record dotstar =
  dsCount :: u16
  dsPixels :: "byte list"
  dsBrightness :: byte
  dsBegun :: bool
  dsShows :: u32

definition dot_new :: "u16 \<Rightarrow> dotstar" where
  "dot_new n = \<lparr>dsCount = n, dsPixels = replicate (unat n * 3) 0, dsBrightness = 255, dsBegun = False, dsShows = 0\<rparr>"

definition dot_begin :: "dotstar \<Rightarrow> dotstar" where
  "dot_begin s = s\<lparr>dsBegun := True\<rparr>"

definition dot_show :: "dotstar \<Rightarrow> dotstar" where
  "dot_show s = s\<lparr>dsShows := dsShows s + 1\<rparr>"

definition dot_setPixelColor :: "u16 \<Rightarrow> u32 \<Rightarrow> dotstar \<Rightarrow> dotstar" where
  "dot_setPixelColor n c s =
    (if n \<ge> dsCount s then s
     else s\<lparr>dsPixels := (dsPixels s)
       [unat n * 3 := ucast (drop_bit 16 c), unat n * 3 + 1 := ucast (drop_bit 8 c), unat n * 3 + 2 := ucast c]\<rparr>)"

definition dot_Color :: "byte \<Rightarrow> byte \<Rightarrow> byte \<Rightarrow> u32" where
  "dot_Color r g b = push_bit 16 (ucast r) OR push_bit 8 (ucast g) OR ucast b"

definition dot_setPixelRGB :: "u16 \<Rightarrow> byte \<Rightarrow> byte \<Rightarrow> byte \<Rightarrow> dotstar \<Rightarrow> dotstar" where
  "dot_setPixelRGB n r g b s = dot_setPixelColor n (dot_Color r g b) s"

definition dot_getPixelColor :: "u16 \<Rightarrow> dotstar \<Rightarrow> u32" where
  "dot_getPixelColor n s =
    (if n \<ge> dsCount s then 0
     else dot_Color (dsPixels s ! (unat n * 3)) (dsPixels s ! (unat n * 3 + 1)) (dsPixels s ! (unat n * 3 + 2)))"

definition dot_setBrightness :: "byte \<Rightarrow> dotstar \<Rightarrow> dotstar" where
  "dot_setBrightness b s = s\<lparr>dsBrightness := b\<rparr>"

definition dot_clear :: "dotstar \<Rightarrow> dotstar" where
  "dot_clear s = s\<lparr>dsPixels := replicate (length (dsPixels s)) 0\<rparr>"

text \<open>\<open>for (uint16_t i = first; i < end; i++)\<close>\<close>

function dot_fill_loop :: "u32 \<Rightarrow> u16 \<Rightarrow> u16 \<Rightarrow> dotstar \<Rightarrow> dotstar" where
  "dot_fill_loop color i e s = (if i < e then dot_fill_loop color (i + 1) e (dot_setPixelColor i color s) else s)"
  by auto

lemma word_next: "i < e \<Longrightarrow> unat (i + 1) = Suc (unat i)" for i e :: u16
proof -
  assume "i < e"
  then have "unat i + 1 < 2 ^ 16"
    using unat_bound [of e] by (simp add: word_less_nat_alt)
  then have "unat (i + 1) = unat i + unat (1 :: u16)"
    by (intro unat_add_no_wrap) simp
  then show ?thesis
    by simp
qed

termination dot_fill_loop
proof (relation "measure (\<lambda>(c, i, e, s). unat e - unat i)")
  fix c i e s
  assume "(i :: u16) < e"
  then show "((c :: u32, i + 1, e, dot_setPixelColor i c s), c, i, e, s) \<in> measure (\<lambda>(c, i, e, s). unat e - unat i)"
    using word_next [of i e] by (simp add: word_less_nat_alt)
qed simp

declare dot_fill_loop.simps [simp del]

definition dot_fill :: "u32 \<Rightarrow> u16 \<Rightarrow> u16 \<Rightarrow> dotstar \<Rightarrow> dotstar" where
  "dot_fill color first count s =
    (let e = (if count = 0 then dsCount s else min (first + count) (dsCount s)) in dot_fill_loop color first e s)"

text \<open>Arithmetic on the colours is done in \<open>int\<close> and cut to the type it is stored in.\<close>

definition dot_ColorHSV :: "u16 \<Rightarrow> byte \<Rightarrow> byte \<Rightarrow> u32" where
  "dot_ColorHSV hue sat val =
    (let region = uint hue div 10923;
         rest = (uint hue - region * 10923) * 6 mod 65536;
         p = of_int (drop_bit 8 (uint val * (255 - uint sat)));
         q = of_int (drop_bit 8 (uint val * (255 - drop_bit 16 (uint sat * rest))));
         t = of_int (drop_bit 8 (uint val * (255 - drop_bit 16 (uint sat * (65535 - rest)))))
     in if region = 0 then dot_Color val t p else if region = 1 then dot_Color q val p else if region = 2 then dot_Color p val t
        else if region = 3 then dot_Color p q val else if region = 4 then dot_Color t p val else dot_Color val p q)"

section \<open>\<open>FastLED.h\<close>\<close>

type_synonym crgb = "byte \<times> byte \<times> byte"

definition crgb_of :: "u32 \<Rightarrow> crgb" where
  "crgb_of c = (ucast (drop_bit 16 c), ucast (drop_bit 8 c), ucast c)"

definition crgb_or :: "crgb \<Rightarrow> crgb \<Rightarrow> crgb" where
  "crgb_or = (\<lambda>(r, g, b) (r', g', b'). (max r r', max g g', max b b'))"

definition scale8 :: "byte \<Rightarrow> byte \<Rightarrow> byte" where
  "scale8 x sc = of_int (drop_bit 8 (uint x * uint sc))"

definition nscale8 :: "byte \<Rightarrow> crgb \<Rightarrow> crgb" where
  "nscale8 sc = (\<lambda>(r, g, b). (scale8 r sc, scale8 g sc, scale8 b sc))"

definition fadeToBlackBy :: "byte \<Rightarrow> crgb \<Rightarrow> crgb" where
  "fadeToBlackBy amount = nscale8 (255 - amount)"

definition hsv2rgb_rainbow :: "byte \<Rightarrow> byte \<Rightarrow> byte \<Rightarrow> crgb" where
  "hsv2rgb_rainbow h s v =
    (let region = uint h div 43;
         rest = (uint h - region * 43) * 6 mod 256;
         p = of_int (drop_bit 8 (uint v * (255 - uint s)));
         q = of_int (drop_bit 8 (uint v * (255 - drop_bit 8 (uint s * rest))));
         t = of_int (drop_bit 8 (uint v * (255 - drop_bit 8 (uint s * (255 - rest)))))
     in if region = 0 then (v, t, p) else if region = 1 then (q, v, p) else if region = 2 then (p, v, t)
        else if region = 3 then (p, q, v) else if region = 4 then (t, p, v) else (v, p, q))"

text \<open>
  The arrays of the sketch: \<open>fill_solid\<close> and \<open>fill_rainbow\<close> work on the first \<open>num\<close> of them; past the end of the array they
  are undefined. The controller keeps the number of an array of the sketch.
\<close>

definition fill_solid :: "int \<Rightarrow> crgb \<Rightarrow> crgb list \<Rightarrow> crgb list option" where
  "fill_solid num color leds =
    (if num \<le> int (length leds) then Some (replicate (nat num) color @ drop (nat num) leds) else None)"

fun rainbow_from :: "nat \<Rightarrow> byte \<Rightarrow> byte \<Rightarrow> crgb list" where
  "rainbow_from 0 hue delta = []"
| "rainbow_from (Suc n) hue delta = hsv2rgb_rainbow hue 240 255 # rainbow_from n (hue + delta) delta"

definition fill_rainbow :: "int \<Rightarrow> byte \<Rightarrow> byte \<Rightarrow> crgb list \<Rightarrow> crgb list option" where
  "fill_rainbow num hue delta leds =
    (if num \<le> int (length leds) then Some (rainbow_from (nat num) hue delta @ drop (nat num) leds) else None)"

record fastled =
  flLeds :: "nat option"
  flNum :: int
  flBrightness :: byte
  flShows :: int

definition fastled_new :: fastled where
  "fastled_new = \<lparr>flLeds = None, flNum = 0, flBrightness = 255, flShows = 0\<rparr>"

definition fastled_addLeds :: "nat \<Rightarrow> int \<Rightarrow> fastled \<Rightarrow> fastled" where
  "fastled_addLeds a num s = s\<lparr>flLeds := Some a, flNum := num\<rparr>"

definition fastled_setBrightness :: "byte \<Rightarrow> fastled \<Rightarrow> fastled" where
  "fastled_setBrightness b s = s\<lparr>flBrightness := b\<rparr>"

definition fastled_show :: "fastled \<Rightarrow> fastled" where
  "fastled_show s = s\<lparr>flShows := flShows s + 1\<rparr>"

definition fastled_clear :: "fastled \<Rightarrow> (nat \<Rightarrow> crgb list) \<Rightarrow> (nat \<Rightarrow> crgb list) option" where
  "fastled_clear s m =
    (case flLeds s of
       None \<Rightarrow> Some m
     | Some a \<Rightarrow> (case fill_solid (flNum s) (0, 0, 0) (m a) of None \<Rightarrow> None | Some l \<Rightarrow> Some (m(a := l))))"

section \<open>\<open>esp_lcd.h\<close>\<close>

text \<open>
  An I/O handle and a panel. \<open>int\<close> arithmetic is without bounds: sizes and positions are small. A negative size of the
  frame buffer is an exception, an index outside a buffer undefined.
\<close>

record lcd_io =
  ioCs :: int
  ioDc :: int
  ioHz :: int
  ioInited :: bool
  ioTx :: "byte list"

record lcd =
  lpWidth :: int
  lpHeight :: int
  lpReset :: bool
  lpInited :: bool
  lpOn :: bool
  lpMirrorX :: bool
  lpMirrorY :: bool
  lpSwap :: bool
  lpGapX :: int
  lpGapY :: int
  lpBits :: int
  lpInvert :: bool
  lpFrame :: "byte list"

definition lcd_io_spi :: "int \<Rightarrow> int \<Rightarrow> int \<Rightarrow> lcd_io" where
  "lcd_io_spi cs dc hz = \<lparr>ioCs = cs, ioDc = dc, ioHz = hz, ioInited = True, ioTx = []\<rparr>"

definition lcd_io_i2c :: lcd_io where
  "lcd_io_i2c = \<lparr>ioCs = - 1, ioDc = - 1, ioHz = 0, ioInited = True, ioTx = []\<rparr>"

definition lcd_io_tx_param :: "byte list option \<Rightarrow> lcd_io \<Rightarrow> esp_err \<times> lcd_io" where
  "lcd_io_tx_param param io = (ESP_OK, case param of None \<Rightarrow> io | Some p \<Rightarrow> io\<lparr>ioTx := ioTx io @ p\<rparr>)"

definition lcd_io_tx_color :: "byte list option \<Rightarrow> lcd_io \<Rightarrow> esp_err \<times> lcd_io" where
  "lcd_io_tx_color color io = lcd_io_tx_param color io"

definition lcd_panel :: "int \<Rightarrow> int \<Rightarrow> int \<Rightarrow> lcd" where
  "lcd_panel w h bits =
    \<lparr>lpWidth = w, lpHeight = h, lpReset = False, lpInited = False, lpOn = False, lpMirrorX = False, lpMirrorY = False,
     lpSwap = False, lpGapX = 0, lpGapY = 0, lpBits = bits, lpInvert = False, lpFrame = []\<rparr>"

definition lcd_new_st7789 :: "int \<Rightarrow> lcd" where
  "lcd_new_st7789 bits = lcd_panel 240 320 bits"

definition lcd_new_ssd1306 :: "int \<Rightarrow> lcd" where
  "lcd_new_ssd1306 bits = lcd_panel 128 64 bits"

definition lcd_reset :: "lcd \<Rightarrow> esp_err \<times> lcd" where
  "lcd_reset p = (ESP_OK, p\<lparr>lpReset := True\<rparr>)"

definition lcd_bytes :: "lcd \<Rightarrow> int" where
  "lcd_bytes p = (if lpBits p < 0 then - (- lpBits p div 8) else lpBits p div 8)"

definition lcd_init :: "lcd \<Rightarrow> (esp_err \<times> lcd) option" where
  "lcd_init p =
    (let n = lpWidth p * lpHeight p * lcd_bytes p; p = p\<lparr>lpInited := True\<rparr>
     in if n < 0 then None
        else Some (ESP_OK, p\<lparr>lpFrame := take (nat n) (lpFrame p) @ replicate (nat n - length (lpFrame p)) 0\<rparr>))"

text \<open>The bytes copied by the three loops, from place to place, in their order.\<close>

definition lcd_moves :: "lcd \<Rightarrow> int \<Rightarrow> int \<Rightarrow> int \<Rightarrow> int \<Rightarrow> (int \<times> int) list" where
  "lcd_moves p xs ys xe ye =
    (let bpp = lcd_bytes p; w = xe - xs
     in [((y * lpWidth p + x) * bpp + b, ((y - ys) * w + (x - xs)) * bpp + b).
          y \<leftarrow> [ys..min ye (lpHeight p) - 1], x \<leftarrow> [xs..min xe (lpWidth p) - 1], b \<leftarrow> [0..bpp - 1]])"

fun lcd_copy :: "byte list \<Rightarrow> (int \<times> int) list \<Rightarrow> byte list \<Rightarrow> byte list option" where
  "lcd_copy src [] fb = Some fb"
| "lcd_copy src ((d, k) # ms) fb =
    (if 0 \<le> d \<and> d < int (length fb) \<and> 0 \<le> k \<and> k < int (length src) then lcd_copy src ms (fb[nat d := src ! nat k]) else None)"

definition lcd_draw_bitmap :: "int \<Rightarrow> int \<Rightarrow> int \<Rightarrow> int \<Rightarrow> byte list \<Rightarrow> lcd \<Rightarrow> (esp_err \<times> lcd) option" where
  "lcd_draw_bitmap xs ys xe ye src p =
    (if \<not> lpInited p then Some (ESP_FAIL, p)
     else case lcd_copy src (lcd_moves p xs ys xe ye) (lpFrame p) of None \<Rightarrow> None | Some fb \<Rightarrow> Some (ESP_OK, p\<lparr>lpFrame := fb\<rparr>))"

definition lcd_mirror :: "bool \<Rightarrow> bool \<Rightarrow> lcd \<Rightarrow> esp_err \<times> lcd" where
  "lcd_mirror mx my p = (ESP_OK, p\<lparr>lpMirrorX := mx, lpMirrorY := my\<rparr>)"

definition lcd_swap_xy :: "bool \<Rightarrow> lcd \<Rightarrow> esp_err \<times> lcd" where
  "lcd_swap_xy b p = (ESP_OK, p\<lparr>lpSwap := b\<rparr>)"

definition lcd_set_gap :: "int \<Rightarrow> int \<Rightarrow> lcd \<Rightarrow> esp_err \<times> lcd" where
  "lcd_set_gap x y p = (ESP_OK, p\<lparr>lpGapX := x, lpGapY := y\<rparr>)"

definition lcd_invert_color :: "bool \<Rightarrow> lcd \<Rightarrow> esp_err \<times> lcd" where
  "lcd_invert_color b p = (ESP_OK, p\<lparr>lpInvert := b\<rparr>)"

definition lcd_disp_on_off :: "bool \<Rightarrow> lcd \<Rightarrow> esp_err \<times> lcd" where
  "lcd_disp_on_off on p = (ESP_OK, p\<lparr>lpOn := on\<rparr>)"

definition lcd_disp_off :: "bool \<Rightarrow> lcd \<Rightarrow> esp_err \<times> lcd" where
  "lcd_disp_off b p = lcd_disp_on_off (\<not> b) p"

section \<open>The strip\<close>

definition dot_ok :: "dotstar \<Rightarrow> bool" where
  "dot_ok s \<longleftrightarrow> length (dsPixels s) = unat (dsCount s) * 3"

lemma dot_Color_parts: "dot_Color (ucast (drop_bit 16 c)) (ucast (drop_bit 8 c)) (ucast c) = rgb_word c"
  unfolding dot_Color_def by (rule color_bytes)

interpretation dot: cell_store dot_ok "\<lambda>s n. n < dsCount s" dot_setPixelColor "\<lambda>s n. dot_getPixelColor n s" rgb_word
proof unfold_locales
  fix s k v k'
  assume ok: "dot_ok s"
  show "dot_ok (dot_setPixelColor k v s)"
    using ok by (simp add: dot_ok_def dot_setPixelColor_def)
  show "dot_getPixelColor k' (dot_setPixelColor k v s) = (if k' = k \<and> k < dsCount s then rgb_word v else dot_getPixelColor k' s)"
  proof (cases "k < dsCount s")
    case True
    then have k: "unat k < unat (dsCount s)" "\<not> dsCount s \<le> k"
      by (simp_all add: word_less_nat_alt word_le_nat_alt)
    define i where "i = unat k * 3"
    have i: "i + 2 < length (dsPixels s)"
      using ok k(1) by (simp add: dot_ok_def i_def)
    define px where "px = (dsPixels s)[i := ucast (drop_bit 16 v), i + 1 := ucast (drop_bit 8 v), i + 2 := ucast v]"
    have px: "px ! i = ucast (drop_bit 16 v)" "px ! (i + 1) = ucast (drop_bit 8 v)" "px ! (i + 2) = ucast v"
      "\<And>j. j \<noteq> i \<Longrightarrow> j \<noteq> i + 1 \<Longrightarrow> j \<noteq> i + 2 \<Longrightarrow> px ! j = dsPixels s ! j"
      using i by (simp_all add: px_def)
    have set: "dot_setPixelColor k v s = s\<lparr>dsPixels := px\<rparr>"
      using k(2) by (simp add: dot_setPixelColor_def px_def i_def)
    show ?thesis
    proof (cases "k' = k")
      case True
      then show ?thesis
        using k px(1-3) dot_Color_parts \<open>k < dsCount s\<close> by (simp add: set dot_getPixelColor_def i_def [symmetric])
    next
      case False
      then have "unat k' \<noteq> unat k"
        by (simp add: word_unat_eq_iff)
      then have "px ! (unat k' * 3 + j) = dsPixels s ! (unat k' * 3 + j)" if "j < 3" for j
        using that by (intro px(4); unfold i_def; presburger)
      from this [of 0] this [of 1] this [of 2] show ?thesis
        using False by (simp add: set dot_getPixelColor_def)
    qed
  qed (auto simp: dot_setPixelColor_def not_less)
qed (simp add: dot_setPixelColor_def)

lemma dot_count [simp]: "dsCount (dot_setPixelColor n c s) = dsCount s"
  by (simp add: dot_setPixelColor_def)

lemma dot_fill_loop_get:
  assumes "dot_ok s"
  shows "dot_getPixelColor n (dot_fill_loop c i e s) =
      (if i \<le> n \<and> n < e \<and> n < dsCount s then rgb_word c else dot_getPixelColor n s)"
  using assms
proof (induction c i e s rule: dot_fill_loop.induct)
  case (1 c i e s)
  show ?case
  proof (cases "i < e")
    case True
    have ok: "dot_ok (dot_setPixelColor i c s)"
      using 1(2) by (rule dot.put_ok)
    have "i + 1 \<le> n \<longleftrightarrow> i \<le> n \<and> i \<noteq> n"
      using word_next [OF True] by (auto simp: word_le_nat_alt word_unat_eq_iff)
    then show ?thesis
      using True 1(1) [OF True ok] dot.get_put [OF 1(2), of n i c] by (auto simp: dot_fill_loop.simps [of c i e s])
  qed (auto simp: dot_fill_loop.simps [of c i e s])
qed

text \<open>
  \<open>fill\<close> colours the pixels from the first one on, as many as asked for or all when none are, and no others; but when first
  and count add up to 65536 or more it colours nothing.
\<close>

theorem dot_fill_range:
  assumes "dot_ok s" "n < dsCount s"
  shows "dot_getPixelColor n (dot_fill c first count s) =
    (if count = 0 \<and> first \<le> n \<or>
        unat first + unat count < 2 ^ 16 \<and> unat first \<le> unat n \<and> unat n < unat first + unat count
     then rgb_word c else dot_getPixelColor n s)"
proof (cases "count = 0")
  case True
  then show ?thesis
    using assms(2) by (auto simp: dot_fill_def dot_fill_loop_get [OF assms(1)])
next
  case False
  have e: "first \<le> n \<and> n < min (first + count) (dsCount s) \<and> n < dsCount s \<longleftrightarrow>
      unat first \<le> unat n \<and> unat n < unat (first + count)"
    using assms(2) by (auto simp: word_le_nat_alt [symmetric] word_less_nat_alt [symmetric])
  show ?thesis
  proof (cases "unat first + unat count < 2 ^ 16")
    case True
    then have "unat (first + count) = unat first + unat count"
      by (intro unat_add_no_wrap) simp
    then show ?thesis
      using True False e by (simp add: dot_fill_def dot_fill_loop_get [OF assms(1)] Let_def del: min_less_iff_conj)
  next
    case wrap: False
    have "unat first < 2 ^ 16" "unat count < 2 ^ 16"
      using unat_bound [of first] unat_bound [of count] by simp_all
    then have "unat (first + count) = unat first + unat count - 2 ^ 16"
      using wrap by (simp add: unat_word_ariths mod_if)
    then have "unat (first + count) \<le> unat first"
      using \<open>unat count < 2 ^ 16\<close> by simp
    then have "\<not> (first \<le> n \<and> n < min (first + count) (dsCount s) \<and> n < dsCount s)"
      using e by linarith
    then show ?thesis
      using wrap False by (auto simp: dot_fill_def dot_fill_loop_get [OF assms(1)] Let_def simp del: min_less_iff_conj)
  qed
qed

theorem dot_fill_range_witness:
  "dot_getPixelColor 2 (dot_fill 0xFF0000 1 3 (dot_new 5)) = 0xFF0000"
  using dot_fill_range [of "dot_new 5" 2 "0xFF0000" 1 3] by (simp add: dot_ok_def dot_new_def rgb_word_def)

section \<open>Colours\<close>

lemma drop_bit_8_int: "drop_bit 8 (x :: int) = x div 256"
  by (simp add: drop_bit_eq_div)

lemma scaled_le:
  assumes "0 \<le> a" "a \<le> 255"
  shows "of_int (drop_bit 8 (uint v * a)) \<le> (v :: byte)" "uint (of_int (drop_bit 8 (uint v * a)) :: byte) = uint v * a div 256"
proof -
  have v: "0 \<le> uint v" "uint v < 256"
    using uint_lt2p [of v] by simp_all
  have "uint v * a \<le> uint v * 256"
    using assms v by (intro mult_left_mono) simp_all
  then have le: "uint v * a div 256 \<le> uint v"
    using zdiv_mono1 [of "uint v * a" "uint v * 256" 256] by simp
  moreover have "0 \<le> uint v * a div 256"
    using assms v by (simp add: pos_imp_zdiv_nonneg_iff)
  ultimately show u: "uint (of_int (drop_bit 8 (uint v * a)) :: byte) = uint v * a div 256"
    using v by (simp add: uint_word_of_int_eq drop_bit_8_int take_bit_int_eq_self)
  show "of_int (drop_bit 8 (uint v * a)) \<le> (v :: byte)"
    unfolding word_le_def u by (rule le)
qed

lemma scaled_arg:
  assumes "0 \<le> s" "s \<le> 255" "0 \<le> x" "x \<le> 255"
  shows "0 \<le> 255 - drop_bit 8 (s * x)" "255 - drop_bit 8 (s * x) \<le> (255 :: int)"
proof -
  have "s * x \<le> 255 * 255"
    using assms by (intro mult_mono) simp_all
  then have "s * x div 256 \<le> 255 * 255 div 256"
    by (rule zdiv_mono1) simp
  then show "0 \<le> 255 - drop_bit 8 (s * x)"
    by (simp add: drop_bit_8_int)
  show "255 - drop_bit 8 (s * x) \<le> 255"
    using assms by (simp add: drop_bit_8_int pos_imp_zdiv_nonneg_iff)
qed

text \<open>The brightest component of a hue is its value, whatever the hue and its saturation; pure white is never reached.\<close>

theorem hsv_brightness:
  "(case hsv2rgb_rainbow h s v of (r, g, b) \<Rightarrow> max r (max g b) = v) \<and> hsv2rgb_rainbow h s v \<noteq> (255, 255, 255)"
proof -
  define region where "region = uint h div 43"
  define rest where "rest = (uint h - region * 43) * 6 mod 256"
  define p q t :: byte where "p = of_int (drop_bit 8 (uint v * (255 - uint s)))"
    and "q = of_int (drop_bit 8 (uint v * (255 - drop_bit 8 (uint s * rest))))"
    and "t = of_int (drop_bit 8 (uint v * (255 - drop_bit 8 (uint s * (255 - rest)))))"
  have rest: "0 \<le> rest" "rest \<le> 255"
    using pos_mod_sign [of 256 "(uint h - region * 43) * 6"] pos_mod_bound [of 256 "(uint h - region * 43) * 6"]
    unfolding rest_def by linarith+
  have s: "0 \<le> uint s" "uint s \<le> 255"
    using uint_lt2p [of s] by simp_all
  have pqt: "p \<le> v" "q \<le> v" "t \<le> v"
    unfolding p_def q_def t_def
    using s rest by (auto intro!: scaled_le(1) scaled_arg)
  have "p \<noteq> 255"
  proof -
    have "uint v * (255 - uint s) \<le> 255 * 255"
      using s uint_lt2p [of v] by (intro mult_mono) simp_all
    then have "uint p \<le> 254"
      unfolding p_def using scaled_le(2) [of "255 - uint s" v] s zdiv_mono1 [of "uint v * (255 - uint s)" "255 * 255" 256] by simp
    then show ?thesis
      by auto
  qed
  moreover have e: "hsv2rgb_rainbow h s v = (if region = 0 then (v, t, p) else if region = 1 then (q, v, p) else if region = 2 then (p, v, t)
      else if region = 3 then (p, q, v) else if region = 4 then (t, p, v) else (v, p, q))"
    by (simp only: hsv2rgb_rainbow_def Let_def region_def rest_def p_def q_def t_def)
  moreover have "max v (max t p) = v" "max q (max v p) = v" "max p (max v t) = v" "max p (max q v) = v" "max t (max p v) = v"
    "max v (max p q) = v"
    using pqt by (simp_all add: max.absorb1 max.absorb2)
  ultimately show ?thesis
    unfolding e by auto
qed

text \<open>Scaling darkens every component that is not dark, even by 255: after 255 times any colour is black.\<close>

lemma scale8_less: "x \<noteq> 0 \<Longrightarrow> uint (scale8 x sc) < uint x" "scale8 0 sc = 0"
proof -
  have sc: "0 \<le> uint sc" "uint sc \<le> 255"
    using uint_lt2p [of sc] by simp_all
  have u: "uint (scale8 x sc) = uint x * uint sc div 256"
    unfolding scale8_def by (rule scaled_le(2) [OF sc])
  assume "x \<noteq> 0"
  then have "0 < uint x"
    by (simp add: word_neq_0_conv [symmetric] uint_0_iff less_le)
  moreover have "uint x * uint sc \<le> uint x * 255"
    using sc by (intro mult_left_mono) simp_all
  ultimately have "uint x * uint sc < uint x * 256"
    by linarith
  then show "uint (scale8 x sc) < uint x"
    unfolding u by (simp add: div_less_iff_less_mult)
qed (simp add: scale8_def)

lemma scale8_pow: "uint (((\<lambda>x. scale8 x sc) ^^ n) x) \<le> max 0 (uint x - int n)"
proof (induction n)
  case (Suc n)
  define y where "y = ((\<lambda>x. scale8 x sc) ^^ n) x"
  show ?case
  proof (cases "y = 0")
    case True
    then show ?thesis
      using scale8_less(2) [of sc] by (simp add: y_def [symmetric])
  next
    case False
    then show ?thesis
      using scale8_less(1) [of y sc] Suc.IH by (simp add: y_def [symmetric])
  qed
qed simp

theorem fade_ends: "(nscale8 sc ^^ 255) c = (0, 0, 0)"
proof -
  obtain r g b where c: "c = (r, g, b)"
    by (cases c)
  have "(nscale8 sc ^^ n) (r, g, b) = (((\<lambda>x. scale8 x sc) ^^ n) r, ((\<lambda>x. scale8 x sc) ^^ n) g, ((\<lambda>x. scale8 x sc) ^^ n) b)" for n
    by (induction n) (simp_all add: nscale8_def)
  moreover have "((\<lambda>x. scale8 x sc) ^^ 255) x = 0" for x
  proof -
    have "uint (((\<lambda>x. scale8 x sc) ^^ 255) x) \<le> 0"
      using scale8_pow [of 255 sc x] uint_lt2p [of x] by simp
    then show ?thesis
      by (metis uint_0_iff uint_ge_0 order.antisym)
  qed
  ultimately show ?thesis
    by (simp only: c)
qed

text \<open>A rainbow steps its hue by the same amount from light to light, around the circle, and leaves later lights alone.\<close>

theorem rainbow_hues:
  assumes "0 \<le> num" "num \<le> int (length leds)"
  shows "\<exists>l. fill_rainbow num hue delta leds = Some l \<and> length l = length leds \<and>
    (\<forall>i<length leds. l ! i = (if int i < num then hsv2rgb_rainbow (hue + of_nat i * delta) 240 255 else leds ! i))"
proof -
  have len: "length (rainbow_from n hue delta) = n" for n hue
    by (induction n arbitrary: hue) simp_all
  have nth: "i < n \<Longrightarrow> rainbow_from n hue delta ! i = hsv2rgb_rainbow (hue + of_nat i * delta) 240 255" for n i hue
    by (induction n arbitrary: hue i) (auto simp: nth_Cons algebra_simps split: nat.splits)
  show ?thesis
    using assms by (auto simp: fill_rainbow_def len nth nth_append nat_less_iff zless_nat_eq_int_zless)
qed

text \<open>The controller clears the array it was given last; an array given before stays as it is.\<close>

theorem fastled_last_array:
  assumes "b \<noteq> a" "0 \<le> n" "n \<le> int (length (m b))"
  shows "\<exists>m'. fastled_clear (fastled_addLeds b n (fastled_addLeds a k s)) m = Some m' \<and>
    m' b = replicate (nat n) (0, 0, 0) @ drop (nat n) (m b) \<and> m' a = m a"
  using assms by (simp add: fastled_clear_def fastled_addLeds_def fill_solid_def)

section \<open>The panel\<close>

lemma lcd_copy_ok:
  assumes "\<forall>(d, k)\<in>set ms. 0 \<le> d \<and> d < int (length fb) \<and> 0 \<le> k \<and> k < int (length src)"
    and "\<forall>d k k'. (d, k) \<in> set ms \<longrightarrow> (d, k') \<in> set ms \<longrightarrow> k = k'"
  shows "\<exists>fb'. lcd_copy src ms fb = Some fb' \<and> length fb' = length fb \<and>
    (\<forall>(d, k)\<in>set ms. fb' ! nat d = src ! nat k) \<and> (\<forall>i. int i \<notin> fst ` set ms \<longrightarrow> fb' ! i = fb ! i)"
  using assms
proof (induction ms arbitrary: fb)
  case (Cons m ms)
  obtain d k where m: "m = (d, k)"
    by fastforce
  define gb where "gb = fb[nat d := src ! nat k]"
  have dk: "0 \<le> d" "d < int (length fb)" "0 \<le> k" "k < int (length src)"
    using Cons.prems(1) m by auto
  have "\<forall>(d, k)\<in>set ms. 0 \<le> d \<and> d < int (length gb) \<and> 0 \<le> k \<and> k < int (length src)"
    using Cons.prems(1) by (simp add: gb_def)
  moreover have "\<forall>d k k'. (d, k) \<in> set ms \<longrightarrow> (d, k') \<in> set ms \<longrightarrow> k = k'"
    using Cons.prems(2) by (meson list.set_intros(2))
  ultimately obtain fb' where r: "lcd_copy src ms gb = Some fb'" "length fb' = length gb"
    "\<forall>(d, k)\<in>set ms. fb' ! nat d = src ! nat k" "\<forall>i. int i \<notin> fst ` set ms \<longrightarrow> fb' ! i = gb ! i"
    using Cons.IH [of gb] by blast
  have "fb' ! nat d = src ! nat k"
  proof (cases "d \<in> fst ` set ms")
    case True
    then show ?thesis
      using r(3) Cons.prems(2) m by fastforce
  next
    case False
    then have "fb' ! nat d = gb ! nat d"
      using r(4) [rule_format, of "nat d"] dk(1) by simp
    then show ?thesis
      using dk by (simp add: gb_def nat_less_iff)
  qed
  moreover have "fb' ! i = fb ! i" if "int i \<notin> fst ` set (m # ms)" for i
  proof -
    have "fb' ! i = gb ! i" "nat d \<noteq> i"
      using r(4) that m dk(1) by auto
    then show ?thesis
      by (simp add: gb_def)
  qed
  ultimately show ?case
    using r dk m by (auto simp: gb_def)
qed simp

lemma loop_range: "x \<in> {a..min e w - 1} \<longleftrightarrow> a \<le> x \<and> x < e \<and> x < (w :: int)"
  by auto

lemma lcd_moves_set:
  "(d, k) \<in> set (lcd_moves p xs ys xe ye) \<longleftrightarrow>
    (\<exists>y x b. (ys \<le> y \<and> y < ye \<and> y < lpHeight p) \<and> (xs \<le> x \<and> x < xe \<and> x < lpWidth p) \<and> 0 \<le> b \<and> b < lcd_bytes p \<and>
      d = (y * lpWidth p + x) * lcd_bytes p + b \<and> k = ((y - ys) * (xe - xs) + (x - xs)) * lcd_bytes p + b)"
  unfolding loop_range [symmetric] lcd_moves_def Let_def by (simp del: atLeastAtMost_iff) fastforce

lemma lcd_bytes_frame [simp]: "lcd_bytes (p\<lparr>lpFrame := fb\<rparr>) = lcd_bytes p"
  by (simp add: lcd_bytes_def)

definition lcd_ok :: "lcd \<Rightarrow> bool" where
  "lcd_ok p \<longleftrightarrow> lpInited p \<and> int (length (lpFrame p)) = lpWidth p * lpHeight p * lcd_bytes p"

text \<open>The byte \<open>b\<close> of the pixel at column \<open>x\<close> and row \<open>y\<close>.\<close>

definition lcd_pixel :: "lcd \<Rightarrow> int \<Rightarrow> int \<Rightarrow> int \<Rightarrow> byte" where
  "lcd_pixel p x y b = lpFrame p ! nat ((y * lpWidth p + x) * lcd_bytes p + b)"

text \<open>
  A bitmap whose corner is on the panel is copied into the part of its rectangle that is on the panel, pixel by pixel and byte
  by byte, and every other pixel stays as it was.
\<close>

theorem lcd_draws_rectangle:
  assumes "lcd_ok p" "0 \<le> xs" "0 \<le> ys" "xs \<le> xe" "ys \<le> ye" "(xe - xs) * (ye - ys) * lcd_bytes p \<le> int (length src)"
  shows "\<exists>q. lcd_draw_bitmap xs ys xe ye src p = Some (ESP_OK, q) \<and> lcd_ok q \<and>
    (\<forall>x y b. 0 \<le> x \<longrightarrow> x < lpWidth p \<longrightarrow> 0 \<le> y \<longrightarrow> y < lpHeight p \<longrightarrow> 0 \<le> b \<longrightarrow> b < lcd_bytes p \<longrightarrow>
      lcd_pixel q x y b =
        (if xs \<le> x \<and> x < xe \<and> ys \<le> y \<and> y < ye then src ! nat (((y - ys) * (xe - xs) + (x - xs)) * lcd_bytes p + b)
         else lcd_pixel p x y b))"
proof -
  let ?W = "lpWidth p" and ?H = "lpHeight p" and ?n = "lcd_bytes p" and ?ms = "lcd_moves p xs ys xe ye"
  have place: "0 \<le> (y * w + x) * ?n + b \<and> (y * w + x) * ?n + b < w * h * ?n"
    if "0 \<le> x" "x < w" "0 \<le> y" "y < h" "0 \<le> b" "b < ?n" for x y w h b :: int
  proof -
    have "0 \<le> y * w + x" "y * w + x < w * h"
      using row_major_bounds [OF that(1-4)] by simp_all
    then show ?thesis
      using row_major_bounds [OF that(5,6), of "y * w + x" "w * h"] by (simp add: mult.commute)
  qed
  have same: "x = x' \<and> y = y' \<and> b = b'"
    if "(y * ?W + x) * ?n + b = (y' * ?W + x') * ?n + b'" "0 \<le> x" "x < ?W" "0 \<le> x'" "x' < ?W" "0 \<le> b" "b < ?n" "0 \<le> b'" "b' < ?n"
    for x y b x' y' b' :: int
    using row_major_inject [OF that(1) that(6-9)] row_major_inject [of y ?W x y' x'] that(2-5) by blast
  have "0 \<le> d \<and> d < int (length (lpFrame p)) \<and> 0 \<le> k \<and> k < int (length src)" if m: "(d, k) \<in> set ?ms" for d k
  proof -
    obtain y x b where *: "xs \<le> x" "x < xe" "x < ?W" "ys \<le> y" "y < ye" "y < ?H" "0 \<le> b" "b < ?n"
      "d = (y * ?W + x) * ?n + b" "k = ((y - ys) * (xe - xs) + (x - xs)) * ?n + b"
      using m unfolding lcd_moves_set by blast
    have "0 \<le> d \<and> d < ?W * ?H * ?n"
      unfolding *(9) using * assms(2,3) by (intro place) simp_all
    moreover have "0 \<le> k \<and> k < (xe - xs) * (ye - ys) * ?n"
      unfolding *(10) using * by (intro place) simp_all
    ultimately show ?thesis
      using assms(1,6) by (simp add: lcd_ok_def)
  qed
  then have inside: "\<forall>(d, k)\<in>set ?ms. 0 \<le> d \<and> d < int (length (lpFrame p)) \<and> 0 \<le> k \<and> k < int (length src)"
    by blast
  have "k = k'" if m: "(d, k) \<in> set ?ms" "(d, k') \<in> set ?ms" for d k k'
  proof -
    obtain y x b where *: "xs \<le> x" "x < ?W" "0 \<le> b" "b < ?n" "d = (y * ?W + x) * ?n + b"
        "k = ((y - ys) * (xe - xs) + (x - xs)) * ?n + b"
      using m(1) unfolding lcd_moves_set by blast
    obtain y' x' b' where **: "xs \<le> x'" "x' < ?W" "0 \<le> b'" "b' < ?n" "d = (y' * ?W + x') * ?n + b'"
        "k' = ((y' - ys) * (xe - xs) + (x' - xs)) * ?n + b'"
      using m(2) unfolding lcd_moves_set by blast
    have "x = x' \<and> y = y' \<and> b = b'"
      by (rule same) (use * ** assms(2) in simp_all)
    then show ?thesis
      using *(6) **(6) by simp
  qed
  then have one: "\<forall>d k k'. (d, k) \<in> set ?ms \<longrightarrow> (d, k') \<in> set ?ms \<longrightarrow> k = k'"
    by blast
  obtain fb where fb: "lcd_copy src ?ms (lpFrame p) = Some fb" "length fb = length (lpFrame p)"
    "\<forall>(d, k)\<in>set ?ms. fb ! nat d = src ! nat k" "\<forall>i. int i \<notin> fst ` set ?ms \<longrightarrow> fb ! i = lpFrame p ! i"
    using lcd_copy_ok [OF inside one] by blast
  define q where "q = p\<lparr>lpFrame := fb\<rparr>"
  have q: "lpWidth q = ?W" "lpHeight q = ?H" "lcd_bytes q = ?n" "lpFrame q = fb" "lpInited q = lpInited p"
    by (simp_all add: q_def)
  have "lcd_pixel q x y b =
        (if xs \<le> x \<and> x < xe \<and> ys \<le> y \<and> y < ye then src ! nat (((y - ys) * (xe - xs) + (x - xs)) * ?n + b) else lcd_pixel p x y b)"
    if xy: "0 \<le> x" "x < ?W" "0 \<le> y" "y < ?H" "0 \<le> b" "b < ?n" for x y b
  proof (cases "xs \<le> x \<and> x < xe \<and> ys \<le> y \<and> y < ye")
    case True
    then have "((y * ?W + x) * ?n + b, ((y - ys) * (xe - xs) + (x - xs)) * ?n + b) \<in> set ?ms"
      unfolding lcd_moves_set using xy by blast
    then show ?thesis
      using True fb(3) by (auto simp: lcd_pixel_def q)
  next
    case False
    define d where "d = (y * ?W + x) * ?n + b"
    have "d \<notin> fst ` set ?ms"
    proof
      assume "d \<in> fst ` set ?ms"
      then obtain k where "(d, k) \<in> set ?ms"
        by auto
      then obtain x' y' b' where *: "xs \<le> x'" "x' < xe" "x' < ?W" "ys \<le> y'" "y' < ye" "0 \<le> b'" "b' < ?n"
        "d = (y' * ?W + x') * ?n + b'"
        unfolding lcd_moves_set by blast
      then have "x = x' \<and> y = y' \<and> b = b'"
        by (intro same) (use * xy assms(2) d_def in simp_all)
      then show False
        using False * by blast
    qed
    moreover have "0 \<le> d"
      using place [OF xy] by (simp add: d_def)
    ultimately have "fb ! nat d = lpFrame p ! nat d"
      using fb(4) [rule_format, of "nat d"] by simp
    then show ?thesis
      using False by (auto simp: lcd_pixel_def q d_def)
  qed
  moreover have "lcd_ok q"
    using assms(1) fb(2) by (simp add: lcd_ok_def q)
  moreover have "lcd_draw_bitmap xs ys xe ye src p = Some (ESP_OK, q)"
    using assms(1) fb(1) by (simp add: lcd_draw_bitmap_def lcd_ok_def q_def)
  ultimately show ?thesis
    by blast
qed

text \<open>
  A bitmap that starts left of the panel is not clipped there: its column at -1 is stored at the right end of the row above.
\<close>

theorem lcd_left_edge:
  assumes "lcd_ok p" "0 < lpWidth p" "1 < lpHeight p" "lcd_bytes p = 1"
  shows "\<exists>q. lcd_draw_bitmap (- 1) 1 0 2 [c] p = Some (ESP_OK, q) \<and> lcd_pixel q (lpWidth p - 1) 0 0 = c"
proof -
  have m: "lcd_moves p (- 1) 1 0 2 = [(lpWidth p - 1, 0)]"
    using assms(2,3,4) by (simp add: lcd_moves_def Let_def min_def upto.simps)
  have "lpWidth p * 1 \<le> lpWidth p * lpHeight p"
    using assms(2,3) by (intro mult_left_mono) simp_all
  then have "lpWidth p - 1 < int (length (lpFrame p))"
    using assms(1,4) by (simp add: lcd_ok_def)
  moreover define fb where "fb = (lpFrame p)[nat (lpWidth p - 1) := c]"
  ultimately have r: "lcd_draw_bitmap (- 1) 1 0 2 [c] p = Some (ESP_OK, p\<lparr>lpFrame := fb\<rparr>)" "fb ! nat (lpWidth p - 1) = c"
    using assms(1,2) by (simp_all add: lcd_draw_bitmap_def m lcd_ok_def nat_less_iff)
  have "lcd_bytes (p\<lparr>lpFrame := fb\<rparr>) = 1"
    using assms(4) by simp
  then have "lcd_pixel (p\<lparr>lpFrame := fb\<rparr>) (lpWidth p - 1) 0 0 = c"
    using r(2) by (simp add: lcd_pixel_def)
  then show ?thesis
    using r(1) by blast
qed

text \<open>A panel of less than eight bits per pixel has no frame buffer, and drawing on it does nothing.\<close>

theorem lcd_mono_empty:
  assumes "0 \<le> bits" "bits < 8"
  shows "\<exists>p. lcd_init (lcd_new_ssd1306 bits) = Some (ESP_OK, p) \<and> lpFrame p = [] \<and>
    lcd_draw_bitmap xs ys xe ye src p = Some (ESP_OK, p)"
proof -
  define p where "p = (lcd_panel 128 64 bits)\<lparr>lpInited := True\<rparr>"
  have n: "lcd_bytes p = 0" "lcd_bytes (lcd_panel 128 64 bits) = 0"
    using assms by (simp_all add: lcd_bytes_def p_def lcd_panel_def)
  have "m \<notin> set (lcd_moves p xs ys xe ye)" for m
    by (cases m) (simp add: lcd_moves_set n)
  then have "lcd_moves p xs ys xe ye = []"
    by (metis list.set_intros(1) neq_Nil_conv)
  then have "lcd_draw_bitmap xs ys xe ye src p = Some (ESP_OK, p)"
    by (simp add: lcd_draw_bitmap_def p_def lcd_panel_def)
  moreover have "lcd_init (lcd_new_ssd1306 bits) = Some (ESP_OK, p)"
    using n by (simp add: lcd_init_def lcd_new_ssd1306_def p_def lcd_panel_def)
  ultimately show ?thesis
    by (auto simp: p_def lcd_panel_def)
qed

end
