(* ===== verification/Controls.thy ===== *)
theory Controls
  imports Interfaces
begin

unbundle bit_operations_syntax

text \<open>
  Motors, buttons, encoders, pin expanders and a filter: \<open>src/include/AccelStepper.h\<close>, \<open>A4988.h\<close>,
  \<open>ezButton.h\<close>, \<open>ESP32Encoder.h\<close>, \<open>PCF8574.h\<close>, \<open>PCF8575.h\<close> and
  \<open>RunningMedian.h\<close>. The lemmas show that a motor arrives and in how many steps, that a button counts the
  edges of its signal, that the pins of an expander are cells of a store, and that the filter keeps the last
  values and yields their median.
\<close>

section \<open>\<open>AccelStepper.h\<close>\<close>

text \<open>
  Speeds are numbers of any ordered ring instead of \<open>float\<close>. Positions are \<open>long\<close>; the program adds
  to them only in \<open>move\<close>, whose sum must be representable, and one at a time.
\<close>

record 'f accel =
  asPos :: int
  asTarget :: int
  asSpeed :: 'f
  asMaxSpeed :: 'f
  asAccel :: 'f
  asRunning :: bool
  asEnabled :: bool

definition accel_new :: "'f::linordered_idom accel" where
  "accel_new = \<lparr>asPos = 0, asTarget = 0, asSpeed = 0, asMaxSpeed = 1000, asAccel = 100, asRunning = False, asEnabled = True\<rparr>"

definition accel_moveTo :: "int \<Rightarrow> 'f accel \<Rightarrow> 'f accel" where
  "accel_moveTo absolute s = s\<lparr>asTarget := absolute\<rparr>"

definition accel_move :: "int \<Rightarrow> 'f accel \<Rightarrow> 'f accel" where
  "accel_move relative s = s\<lparr>asTarget := asPos s + relative\<rparr>"

definition accel_run :: "'f accel \<Rightarrow> bool \<times> 'f accel" where
  "accel_run s =
    (if asPos s = asTarget s then (False, s)
     else
       let s = (if asPos s < asTarget s then s\<lparr>asPos := asPos s + 1\<rparr> else s\<lparr>asPos := asPos s - 1\<rparr>);
           s = s\<lparr>asRunning := (asPos s \<noteq> asTarget s)\<rparr>
       in (asRunning s, s))"

definition accel_runSpeed :: "'f::linordered_idom accel \<Rightarrow> bool \<times> 'f accel" where
  "accel_runSpeed s =
    (asSpeed s \<noteq> 0,
     if asSpeed s > 0 then s\<lparr>asPos := asPos s + 1\<rparr> else if asSpeed s < 0 then s\<lparr>asPos := asPos s - 1\<rparr> else s)"

partial_function (option) accel_runToPosition :: "'f accel \<Rightarrow> 'f accel option" where
  "accel_runToPosition s = (let (b, t) = accel_run s in if b then accel_runToPosition t else Some t)"

definition accel_runToNewPosition :: "int \<Rightarrow> 'f accel \<Rightarrow> 'f accel option" where
  "accel_runToNewPosition position s = accel_runToPosition (accel_moveTo position s)"

definition accel_stop :: "'f accel \<Rightarrow> 'f accel" where
  "accel_stop s = s\<lparr>asTarget := asPos s, asRunning := False\<rparr>"

definition accel_setMaxSpeed :: "'f::linordered_idom \<Rightarrow> 'f accel \<Rightarrow> 'f accel" where
  "accel_setMaxSpeed v s = s\<lparr>asMaxSpeed := \<bar>v\<bar>\<rparr>"

definition accel_setAcceleration :: "'f::linordered_idom \<Rightarrow> 'f accel \<Rightarrow> 'f accel" where
  "accel_setAcceleration a s = s\<lparr>asAccel := \<bar>a\<bar>\<rparr>"

definition accel_setSpeed :: "'f::linordered_idom \<Rightarrow> 'f accel \<Rightarrow> 'f accel" where
  "accel_setSpeed v s =
    (let s = s\<lparr>asSpeed := v\<rparr>
     in if \<bar>asSpeed s\<bar> > asMaxSpeed s then s\<lparr>asSpeed := (if asSpeed s > 0 then asMaxSpeed s else - asMaxSpeed s)\<rparr> else s)"

definition accel_distanceToGo :: "'f accel \<Rightarrow> int" where
  "accel_distanceToGo s = asTarget s - asPos s"

definition accel_setCurrentPosition :: "int \<Rightarrow> 'f accel \<Rightarrow> 'f accel" where
  "accel_setCurrentPosition position s = s\<lparr>asPos := position, asTarget := position\<rparr>"

definition accel_enableOutputs :: "bool \<Rightarrow> 'f accel \<Rightarrow> 'f accel" where
  "accel_enableOutputs b s = s\<lparr>asEnabled := b\<rparr>"

definition accel_isRunning :: "'f accel \<Rightarrow> bool" where
  "accel_isRunning s \<longleftrightarrow> asPos s \<noteq> asTarget s"

section \<open>\<open>A4988.h\<close>\<close>

record a4988 =
  adStepsPerRev :: int
  adMicrosteps :: int
  adBegun :: bool
  adEnabled :: bool
  adDirection :: int
  adPosition :: int
  adTotal :: u64

definition a4988_new :: "int \<Rightarrow> a4988" where
  "a4988_new steps_per_rev = \<lparr>adStepsPerRev = steps_per_rev, adMicrosteps = 1, adBegun = False, adEnabled = True, adDirection = 0,
    adPosition = 0, adTotal = 0\<rparr>"

definition a4988_begin :: "int \<Rightarrow> a4988 \<Rightarrow> a4988" where
  "a4988_begin microsteps s = s\<lparr>adMicrosteps := microsteps, adBegun := True\<rparr>"

definition a4988_setMicrostep :: "int \<Rightarrow> a4988 \<Rightarrow> a4988" where
  "a4988_setMicrostep microsteps s = s\<lparr>adMicrosteps := microsteps\<rparr>"

definition a4988_enable :: "bool \<Rightarrow> a4988 \<Rightarrow> a4988" where
  "a4988_enable b s = s\<lparr>adEnabled := b\<rparr>"

definition a4988_move :: "int \<Rightarrow> a4988 \<Rightarrow> a4988" where
  "a4988_move steps s =
    (let s = (if steps > 0 then s\<lparr>adDirection := 1\<rparr> else if steps < 0 then s\<lparr>adDirection := - 1\<rparr> else s)
     in s\<lparr>adTotal := adTotal s + word_of_int (if steps > 0 then steps else - steps), adPosition := adPosition s + steps\<rparr>)"

definition a4988_rotate :: "int \<Rightarrow> a4988 \<Rightarrow> a4988" where
  "a4988_rotate revolutions s = a4988_move (revolutions * adStepsPerRev s * adMicrosteps s) s"

definition a4988_stop :: "a4988 \<Rightarrow> a4988" where
  "a4988_stop s = s\<lparr>adDirection := 0\<rparr>"

definition a4988_reset :: "a4988 \<Rightarrow> a4988" where
  "a4988_reset s = s\<lparr>adPosition := 0, adTotal := 0, adDirection := 0\<rparr>"

section \<open>\<open>ezButton.h\<close>\<close>

text \<open>\<open>HIGH\<close> is 1 and \<open>LOW\<close> is 0; the previous state is kept as a \<open>bool\<close>.\<close>

datatype count_mode = COUNT_FALLING | COUNT_RISING | COUNT_BOTH | COUNT_OTHER

record ez =
  ezState :: int
  ezPrev :: bool
  ezPressed :: bool
  ezReleased :: bool
  ezMode :: count_mode
  ezCount :: u64

definition ez_new :: ez where
  "ez_new = \<lparr>ezState = 1, ezPrev = True, ezPressed = False, ezReleased = False, ezMode = COUNT_FALLING, ezCount = 0\<rparr>"

definition ez_setCountMode :: "count_mode \<Rightarrow> ez \<Rightarrow> ez" where
  "ez_setCountMode m s = s\<lparr>ezMode := m\<rparr>"

definition ez_resetCount :: "ez \<Rightarrow> ez" where
  "ez_resetCount s = s\<lparr>ezCount := 0\<rparr>"

definition ez_loop :: "ez \<Rightarrow> ez" where
  "ez_loop s =
    (let prev = ezPrev s;
         s = s\<lparr>ezPrev := (ezState s \<noteq> 0)\<rparr>;
         s = s\<lparr>ezPressed := (prev \<and> ezState s = 0), ezReleased := (\<not> prev \<and> ezState s = 1)\<rparr>;
         s = (if ezMode s = COUNT_FALLING \<and> ezPressed s then s\<lparr>ezCount := ezCount s + 1\<rparr> else s);
         s = (if ezMode s = COUNT_RISING \<and> ezReleased s then s\<lparr>ezCount := ezCount s + 1\<rparr> else s)
     in if ezMode s = COUNT_BOTH \<and> (ezPressed s \<or> ezReleased s) then s\<lparr>ezCount := ezCount s + 1\<rparr> else s)"

definition ez_set_state :: "int \<Rightarrow> ez \<Rightarrow> ez" where
  "ez_set_state v s = s\<lparr>ezState := v\<rparr>"

section \<open>\<open>ESP32Encoder.h\<close>\<close>

record encoder =
  enCount :: "64 word"
  enPinA :: int
  enPinB :: int
  enAttached :: bool
  enFullQuad :: bool
  enPaused :: bool

definition en_new :: encoder where
  "en_new = \<lparr>enCount = 0, enPinA = - 1, enPinB = - 1, enAttached = False, enFullQuad = False, enPaused = False\<rparr>"

definition en_attach :: "bool \<Rightarrow> int \<Rightarrow> int \<Rightarrow> encoder \<Rightarrow> encoder" where
  "en_attach full a b s = s\<lparr>enPinA := a, enPinB := b, enAttached := True, enFullQuad := full\<rparr>"

definition en_attachSingleEdge :: "int \<Rightarrow> int \<Rightarrow> encoder \<Rightarrow> encoder" where
  "en_attachSingleEdge a b s = s\<lparr>enPinA := a, enPinB := b, enAttached := True\<rparr>"

definition en_clearCount :: "encoder \<Rightarrow> 64 word \<times> encoder" where
  "en_clearCount s = (let c = enCount s in (c, s\<lparr>enCount := 0\<rparr>))"

definition en_setCount :: "64 word \<Rightarrow> encoder \<Rightarrow> encoder" where
  "en_setCount v s = s\<lparr>enCount := v\<rparr>"

definition en_pauseCount :: "encoder \<Rightarrow> encoder" where
  "en_pauseCount s = s\<lparr>enPaused := True\<rparr>"

definition en_resumeCount :: "encoder \<Rightarrow> encoder" where
  "en_resumeCount s = s\<lparr>enPaused := False\<rparr>"

definition en_simulateTicks :: "64 word \<Rightarrow> encoder \<Rightarrow> encoder" where
  "en_simulateTicks ticks s = (if \<not> enPaused s then s\<lparr>enCount := enCount s + ticks\<rparr> else s)"

section \<open>\<open>PCF8574.h\<close> and \<open>PCF8575.h\<close>\<close>

record 'w pcf =
  pcPort :: 'w
  pcDdr :: 'w
  pcPolarity :: 'w
  pcInitialized :: bool

text \<open>The two classes have the same code with eight and with sixteen pins.\<close>

definition pcf_new :: "'n::len word pcf" where
  "pcf_new = \<lparr>pcPort = - 1, pcDdr = 0, pcPolarity = 0, pcInitialized = False\<rparr>"

definition pcf_begin :: "'n::len word pcf \<Rightarrow> bool \<times> 'n word pcf" where
  "pcf_begin s = (True, s\<lparr>pcInitialized := True\<rparr>)"

definition pcf_write_port :: "'n::len word \<Rightarrow> 'n word pcf \<Rightarrow> bool \<times> 'n word pcf" where
  "pcf_write_port v s = (True, s\<lparr>pcPort := v\<rparr>)"

definition pcf_write :: "nat \<Rightarrow> bool \<Rightarrow> 'n::len word pcf \<Rightarrow> bool \<times> 'n word pcf" where
  "pcf_write pin v s =
    (if pin > LENGTH('n) - 1 then (False, s)
     else (True, s\<lparr>pcPort := (if v then pcPort s OR push_bit pin 1 else pcPort s AND NOT (push_bit pin 1))\<rparr>))"

definition pcf_read :: "nat \<Rightarrow> 'n::len word pcf \<Rightarrow> bool" where
  "pcf_read pin s = (if pin > LENGTH('n) - 1 then False else bit (pcPort s) pin)"

definition pcf_toggle :: "nat \<Rightarrow> 'n::len word pcf \<Rightarrow> bool \<times> 'n word pcf" where
  "pcf_toggle pin s =
    (if pin > LENGTH('n) - 1 then (False, s) else (True, s\<lparr>pcPort := pcPort s XOR push_bit pin 1\<rparr>))"

definition pcf8575_write :: "nat \<Rightarrow> bool \<Rightarrow> u16 pcf \<Rightarrow> bool \<times> u16 pcf" where
  "pcf8575_write = pcf_write"

definition pcf8575_read :: "nat \<Rightarrow> u16 pcf \<Rightarrow> bool" where
  "pcf8575_read = pcf_read"

definition pcf8575_toggle :: "nat \<Rightarrow> u16 pcf \<Rightarrow> bool \<times> u16 pcf" where
  "pcf8575_toggle = pcf_toggle"

definition pcf8575_write16 :: "u16 \<Rightarrow> u16 pcf \<Rightarrow> bool \<times> u16 pcf" where
  "pcf8575_write16 = pcf_write_port"

section \<open>\<open>RunningMedian.h\<close>\<close>

text \<open>
  The values are of any linear order with a zero instead of \<open>float\<close>; the mean of two of them is an
  argument.
\<close>

record 'a running =
  rmMax :: nat
  rmValues :: "'a list"

definition rm_new :: "byte \<Rightarrow> 'a running" where
  "rm_new sz = \<lparr>rmMax = unat sz, rmValues = []\<rparr>"

text \<open>Erasing the first value of an empty vector is undefined.\<close>

definition rm_add :: "'a \<Rightarrow> 'a running \<Rightarrow> 'a running option" where
  "rm_add v s =
    (if length (rmValues s) \<ge> rmMax s then
       if rmValues s = [] then None else Some (s\<lparr>rmValues := tl (rmValues s) @ [v]\<rparr>)
     else Some (s\<lparr>rmValues := rmValues s @ [v]\<rparr>))"

definition rm_getMedian :: "('a \<Rightarrow> 'a \<Rightarrow> 'a) \<Rightarrow> 'a::{linorder, zero} running \<Rightarrow> 'a" where
  "rm_getMedian mean s =
    (if rmValues s = [] then 0
     else
       let sorted = sort (rmValues s); n = length sorted
       in if n mod 2 = 1 then sorted ! (n div 2) else mean (sorted ! (n div 2 - 1)) (sorted ! (n div 2)))"

definition rm_getHighest :: "'a::{linorder, zero} running \<Rightarrow> 'a" where
  "rm_getHighest s = (if rmValues s = [] then 0 else Max (set (rmValues s)))"

definition rm_getLowest :: "'a::{linorder, zero} running \<Rightarrow> 'a" where
  "rm_getLowest s = (if rmValues s = [] then 0 else Min (set (rmValues s)))"

definition rm_isFull :: "'a running \<Rightarrow> bool" where
  "rm_isFull s \<longleftrightarrow> length (rmValues s) \<ge> rmMax s"

definition rm_clear :: "'a running \<Rightarrow> 'a running" where
  "rm_clear s = s\<lparr>rmValues := []\<rparr>"

definition rm_getElement :: "byte \<Rightarrow> 'a::zero running \<Rightarrow> 'a" where
  "rm_getElement n s = (if unat n \<ge> length (rmValues s) then 0 else rmValues s ! unat n)"

definition rm_getSortedElement :: "byte \<Rightarrow> 'a::{linorder, zero} running \<Rightarrow> 'a" where
  "rm_getSortedElement n s = (if unat n \<ge> length (rmValues s) then 0 else sort (rmValues s) ! unat n)"

section \<open>Motion\<close>

lemma accel_run_step:
  assumes "asPos s \<noteq> asTarget s"
  shows "accel_run s = (asPos s + sgn (asTarget s - asPos s) \<noteq> asTarget s,
    s\<lparr>asPos := asPos s + sgn (asTarget s - asPos s), asRunning := (asPos s + sgn (asTarget s - asPos s) \<noteq> asTarget s)\<rparr>)"
  using assms by (auto simp: accel_run_def Let_def sgn_if)

lemma accel_arrives:
  "accel_runToPosition s = Some (if asPos s = asTarget s then s else s\<lparr>asPos := asTarget s, asRunning := False\<rparr>)"
proof (induction "nat \<bar>asTarget s - asPos s\<bar>" arbitrary: s rule: less_induct)
  case less
  show ?case
  proof (cases "asPos s = asTarget s")
    case True
    then show ?thesis
      by (subst accel_runToPosition.simps) (simp add: accel_run_def)
  next
    case False
    let ?p = "asPos s + sgn (asTarget s - asPos s)"
    let ?t = "s\<lparr>asPos := ?p, asRunning := (?p \<noteq> asTarget s)\<rparr>"
    have "nat \<bar>asTarget ?t - asPos ?t\<bar> < nat \<bar>asTarget s - asPos s\<bar>"
      using False by (auto simp: sgn_if)
    from less.hyps [OF this] show ?thesis
      using False by (subst accel_runToPosition.simps) (auto simp: accel_run_step)
  qed
qed

text \<open>Edges of a signal of which each value is looked at once.\<close>

fun edges :: "bool \<Rightarrow> bool list \<Rightarrow> (bool \<times> bool) list" where
  "edges p [] = []"
| "edges p (b # bs) = (p, b) # edges b bs"

definition counted :: "count_mode \<Rightarrow> bool \<times> bool \<Rightarrow> bool" where
  "counted m e = (case m of COUNT_FALLING \<Rightarrow> fst e \<and> \<not> snd e | COUNT_RISING \<Rightarrow> \<not> fst e \<and> snd e
    | COUNT_BOTH \<Rightarrow> fst e \<noteq> snd e | COUNT_OTHER \<Rightarrow> False)"

lemma ez_loop_count:
  "ezCount (ez_loop (ez_set_state (if b then 1 else 0) s)) = ezCount s + (if counted (ezMode s) (ezPrev s, b) then 1 else 0) \<and>
    ezPrev (ez_loop (ez_set_state (if b then 1 else 0) s)) = b \<and> ezMode (ez_loop (ez_set_state (if b then 1 else 0) s)) = ezMode s"
  by (cases "ezMode s"; cases b; cases "ezPrev s") (simp_all add: ez_loop_def ez_set_state_def counted_def)

section \<open>Pins\<close>

lemma pcf_write_bit:
  fixes s :: "'n::len word pcf"
  shows "bit (pcPort (snd (pcf_write pin v s))) p = (if p = pin \<and> pin < LENGTH('n) then v else bit (pcPort s) p)"
proof (cases "pin < LENGTH('n)")
  case True
  then show ?thesis
    by (auto simp: pcf_write_def bit_simps dest: bit_imp_le_length)
next
  case False
  then have "pin > LENGTH('n) - 1"
    by simp
  then show ?thesis
    using False by (simp add: pcf_write_def)
qed

interpretation pcf8: cell_store "\<lambda>_. True" "\<lambda>_ p. p < 8" "\<lambda>p v s. snd (pcf_write p v s) :: byte pcf" "\<lambda>s p. pcf_read p s" "\<lambda>v. v"
  by unfold_locales (auto simp: pcf_read_def pcf_write_bit)

interpretation pcf16: cell_store "\<lambda>_. True" "\<lambda>_ p. p < 16" "\<lambda>p v s. snd (pcf8575_write p v s)" "\<lambda>s p. pcf8575_read p s" "\<lambda>v. v"
  by unfold_locales (auto simp: pcf_read_def pcf_write_bit pcf8575_write_def pcf8575_read_def)

section \<open>Medians\<close>

lemma sorted_rank:
  fixes xs :: "'a::linorder list"
  assumes "sorted xs" "k < length xs"
  shows "\<And>m. m \<le> xs ! k \<Longrightarrow> length (filter (\<lambda>v. v < m) xs) \<le> k"
    "\<And>m. xs ! k \<le> m \<Longrightarrow> length (filter (\<lambda>v. m < v) xs) \<le> length xs - Suc k"
proof -
  fix m
  assume m: "m \<le> xs ! k"
  have "{i. i < length xs \<and> xs ! i < m} \<subseteq> {..<k}"
  proof
    fix i
    assume "i \<in> {i. i < length xs \<and> xs ! i < m}"
    then have "i < length xs" "xs ! i < xs ! k"
      using m by auto
    then show "i \<in> {..<k}"
      using sorted_nth_mono [OF assms(1), of k i] by (auto simp: not_le [symmetric])
  qed
  then have "card {i. i < length xs \<and> xs ! i < m} \<le> card {..<k}"
    by (intro card_mono) simp_all
  then show "length (filter (\<lambda>v. v < m) xs) \<le> k"
    by (simp add: length_filter_conv_card)
next
  fix m
  assume m: "xs ! k \<le> m"
  have "{i. i < length xs \<and> m < xs ! i} \<subseteq> {Suc k..<length xs}"
  proof
    fix i
    assume "i \<in> {i. i < length xs \<and> m < xs ! i}"
    then have "i < length xs" "xs ! k < xs ! i"
      using m by auto
    then show "i \<in> {Suc k..<length xs}"
      using sorted_nth_mono [OF assms(1), of i k] assms(2) by (auto simp: not_less_eq_eq [symmetric] not_le [symmetric])
  qed
  then have "card {i. i < length xs \<and> m < xs ! i} \<le> card {Suc k..<length xs}"
    by (intro card_mono) simp_all
  then show "length (filter (\<lambda>v. m < v) xs) \<le> length xs - Suc k"
    by (simp add: length_filter_conv_card)
qed

lemma filter_sort_length: "length (filter P (sort xs)) = length (filter P xs)"
  by (simp add: filter_sort)

fun rm_adds :: "'a list \<Rightarrow> 'a running \<Rightarrow> 'a running option" where
  "rm_adds [] s = Some s"
| "rm_adds (x # xs) s = Option.bind (rm_add x s) (rm_adds xs)"

lemma rm_adds_window:
  assumes "0 < rmMax s" "length (rmValues s) \<le> rmMax s"
  shows "rm_adds xs s = Some (s\<lparr>rmValues := drop (length (rmValues s @ xs) - rmMax s) (rmValues s @ xs)\<rparr>)"
  using assms
proof (induction xs arbitrary: s)
  case (Cons x xs)
  show ?case
  proof (cases "length (rmValues s) = rmMax s")
    case True
    then obtain v vs where vs: "rmValues s = v # vs"
      using Cons.prems(1) by (cases "rmValues s") simp_all
    then have "rm_add x s = Some (s\<lparr>rmValues := vs @ [x]\<rparr>)"
      using True by (simp add: rm_add_def)
    then show ?thesis
      using Cons.IH [of "s\<lparr>rmValues := vs @ [x]\<rparr>"] Cons.prems True vs by (simp add: Suc_diff_le)
  next
    case False
    then have "rm_add x s = Some (s\<lparr>rmValues := rmValues s @ [x]\<rparr>)"
      using Cons.prems(2) by (simp add: rm_add_def)
    then show ?thesis
      using Cons.IH [of "s\<lparr>rmValues := rmValues s @ [x]\<rparr>"] Cons.prems False by simp
  qed
qed simp

section \<open>Properties\<close>

text \<open>
  A motor arrives. \<open>runToPosition\<close> ends at the target, from wherever, and after \<open>n\<close> calls of \<open>run\<close>
  the motor has made \<open>n\<close> steps towards it or stands on it; it never overshoots.
\<close>

theorem accel_motion:
  "accel_runToNewPosition p s = Some (if asPos s = p then s\<lparr>asTarget := p\<rparr> else s\<lparr>asTarget := p, asPos := p, asRunning := False\<rparr>) \<and>
    asPos (((\<lambda>s. snd (accel_run s)) ^^ n) s) =
      asPos s + sgn (accel_distanceToGo s) * min (int n) \<bar>accel_distanceToGo s\<bar> \<and>
    asTarget (((\<lambda>s. snd (accel_run s)) ^^ n) s) = asTarget s"
proof (intro conjI)
  show "accel_runToNewPosition p s = Some (if asPos s = p then s\<lparr>asTarget := p\<rparr> else s\<lparr>asTarget := p, asPos := p, asRunning := False\<rparr>)"
    by (simp add: accel_runToNewPosition_def accel_arrives accel_moveTo_def)
  have "asPos (((\<lambda>s. snd (accel_run s)) ^^ n) s) =
      asPos s + sgn (asTarget s - asPos s) * min (int n) \<bar>asTarget s - asPos s\<bar> \<and>
    asTarget (((\<lambda>s. snd (accel_run s)) ^^ n) s) = asTarget s"
  proof (induction n)
    case (Suc n)
    let ?t = "((\<lambda>s. snd (accel_run s)) ^^ n) s"
    have step: "asPos (snd (accel_run t)) = asPos t + sgn (asTarget t - asPos t)" "asTarget (snd (accel_run t)) = asTarget t" for t
      by (cases "asPos t = asTarget t") (simp_all add: accel_run_step, simp_all add: accel_run_def)
    show ?case
      using Suc by (cases rule: linorder_cases [of "asPos s" "asTarget s"]) (auto simp: step min_def sgn_if)
  qed simp
  then show "asPos (((\<lambda>s. snd (accel_run s)) ^^ n) s) =
      asPos s + sgn (accel_distanceToGo s) * min (int n) \<bar>accel_distanceToGo s\<bar>"
    "asTarget (((\<lambda>s. snd (accel_run s)) ^^ n) s) = asTarget s"
    by (simp_all add: accel_distanceToGo_def)
qed

text \<open>
  Moves of an A4988. After any moves of a new driver its position is their sum, the steps counted are the sum of their
  amounts modulo \<open>2 ^ 64\<close>, and the direction is that of the last move that was not zero.
\<close>

theorem a4988_moves:
  "let s = fold a4988_move ms (a4988_new spr)
   in adPosition s = sum_list ms \<and> adTotal s = word_of_int (sum_list (map abs ms)) \<and>
     adDirection s = (case filter (\<lambda>m. m \<noteq> 0) ms of [] \<Rightarrow> 0 | m # ns \<Rightarrow> sgn (last (m # ns)))"
proof -
  have "adPosition (fold a4988_move ms s) = adPosition s + sum_list ms \<and>
      adTotal (fold a4988_move ms s) = adTotal s + word_of_int (sum_list (map abs ms)) \<and>
      adDirection (fold a4988_move ms s) =
        (case filter (\<lambda>m. m \<noteq> 0) ms of [] \<Rightarrow> adDirection s | m # ns \<Rightarrow> sgn (last (m # ns)))" for s
  proof (induction ms arbitrary: s)
    case (Cons m ms)
    have m: "adPosition (a4988_move m s) = adPosition s + m" "adTotal (a4988_move m s) = adTotal s + word_of_int \<bar>m\<bar>"
      "adDirection (a4988_move m s) = (if m = 0 then adDirection s else sgn m)" for m s
      by (auto simp: a4988_move_def Let_def)
    show ?case
      using Cons.IH [of "a4988_move m s"] by (auto simp: m split: list.splits)
  qed simp
  then show ?thesis
    by (simp add: a4988_new_def split: list.split)
qed

text \<open>
  A button counts edges. When each value of the signal is followed by one call of \<open>loop\<close>, the count of a new
  button is the number of edges of the chosen kind in the signal, which begins high.
\<close>

theorem ez_counts_edges:
  "ezCount (fold (\<lambda>b s. ez_loop (ez_set_state (if b then 1 else 0) s)) bs (ez_setCountMode m ez_new)) =
    of_nat (length (filter (counted m) (edges True bs)))"
proof -
  have "ezCount (fold (\<lambda>b s. ez_loop (ez_set_state (if b then 1 else 0) s)) bs s) =
      ezCount s + of_nat (length (filter (counted (ezMode s)) (edges (ezPrev s) bs)))" for s
  proof (induction bs arbitrary: s)
    case (Cons b bs)
    show ?case
      using Cons.IH [of "ez_loop (ez_set_state (if b then 1 else 0) s)"] ez_loop_count [of b s] by simp
  qed simp
  then show ?thesis
    by (simp add: ez_setCountMode_def ez_new_def)
qed

text \<open>
  Pins of the expanders. After any writes to pins of a PCF8574 or PCF8575 a pin reads what was written to it last, or
  its level before; pins that do not exist are refused and read low. Toggling twice changes nothing.
\<close>

theorem pcf_pins:
  "pcf_read p (fold (\<lambda>(p, v) s. snd (pcf_write p v s)) ws (s :: byte pcf)) =
      (case map_of (rev ws) p of Some v \<Rightarrow> if p < 8 then v else pcf_read p s | None \<Rightarrow> pcf_read p s) \<and>
    pcf8575_read p (fold (\<lambda>(p, v) s. snd (pcf8575_write p v s)) ws t) =
      (case map_of (rev ws) p of Some v \<Rightarrow> if p < 16 then v else pcf8575_read p t | None \<Rightarrow> pcf8575_read p t) \<and>
    snd (pcf_toggle p (snd (pcf_toggle p s))) = s \<and> (fst (pcf_write p v s) \<longleftrightarrow> p < 8)"
proof -
  have "snd (pcf_toggle p (snd (pcf_toggle p s))) = s"
    by (simp add: pcf_toggle_def xor.assoc)
  then show ?thesis
    using pcf8.writes_get [OF TrueI, where kvs = ws and k' = p and s = s]
      pcf16.writes_get [OF TrueI, where kvs = ws and k' = p and s = t] by (auto simp: pcf_write_def)
qed

text \<open>
  The window of the filter. A filter of positive size keeps the last values, as many as its size; one of size zero
  leaves defined behaviour with the first value.
\<close>

theorem running_window:
  "rm_adds xs (rm_new sz) =
    (if sz = 0 \<and> xs \<noteq> [] then None else Some \<lparr>rmMax = unat sz, rmValues = drop (length xs - unat sz) xs\<rparr>)"
proof (cases "sz = 0")
  case True
  then show ?thesis
    by (cases xs) (simp_all add: rm_new_def rm_add_def)
next
  case False
  then show ?thesis
    using rm_adds_window [of "rm_new sz" xs] by (simp add: rm_new_def unat_gt_0)
qed

text \<open>
  The median. For a mean that lies between its two arguments the median of a filter that is not empty lies between
  the lowest and the highest value; at most half of the values are below it and at most half are above.
\<close>

theorem running_median:
  fixes mean :: "'a::{linorder, zero} \<Rightarrow> 'a \<Rightarrow> 'a"
  assumes "rmValues s \<noteq> []" "\<And>x y. x \<le> y \<Longrightarrow> x \<le> mean x y \<and> mean x y \<le> y"
  shows "rm_getLowest s \<le> rm_getMedian mean s \<and> rm_getMedian mean s \<le> rm_getHighest s \<and>
    2 * length (filter (\<lambda>v. v < rm_getMedian mean s) (rmValues s)) \<le> length (rmValues s) \<and>
    2 * length (filter (\<lambda>v. rm_getMedian mean s < v) (rmValues s)) \<le> length (rmValues s)"
proof -
  define xs where "xs = sort (rmValues s)"
  define n where "n = length xs"
  define m where "m = rm_getMedian mean s"
  have n: "0 < n" "n = length (rmValues s)" "sorted xs" "set xs = set (rmValues s)"
    using assms(1) by (simp_all add: n_def xs_def)
  have m: "m = (if n mod 2 = 1 then xs ! (n div 2) else mean (xs ! (n div 2 - 1)) (xs ! (n div 2)))"
    using assms(1) by (simp add: m_def rm_getMedian_def xs_def n_def Let_def)
  obtain i j where ij: "i < n" "j < n" "xs ! i \<le> m" "m \<le> xs ! j" "2 * j \<le> n" "2 * (n - Suc i) \<le> n"
  proof (cases "n mod 2 = 1")
    case True
    then have "n = 2 * (n div 2) + 1"
      using div_mult_mod_eq [of n 2] by simp
    then show ?thesis
      using that [of "n div 2" "n div 2"] m True by simp
  next
    case False
    then have e: "n = 2 * (n div 2)" "0 < n div 2"
      using div_mult_mod_eq [of n 2] n(1) by (simp_all add: mod_2_eq_odd)
    have "xs ! (n div 2 - 1) \<le> xs ! (n div 2)"
      using e n(3) by (intro sorted_nth_mono) (simp_all add: n_def [symmetric])
    then show ?thesis
      using that [of "n div 2 - 1" "n div 2"] m False e assms(2) by simp
  qed
  have "length (filter (\<lambda>v. v < m) xs) \<le> j" "length (filter (\<lambda>v. m < v) xs) \<le> n - Suc i"
    using sorted_rank(1) [OF n(3), of j m] sorted_rank(2) [OF n(3), of i m] ij by (simp_all add: n_def [symmetric])
  then have "2 * length (filter (\<lambda>v. v < m) (rmValues s)) \<le> n" "2 * length (filter (\<lambda>v. m < v) (rmValues s)) \<le> n"
    using ij(5,6) filter_sort_length [of "\<lambda>v. v < m" "rmValues s"] filter_sort_length [of "\<lambda>v. m < v" "rmValues s"]
    by (simp_all add: xs_def)
  moreover have "xs ! i \<in> set (rmValues s)" "xs ! j \<in> set (rmValues s)"
    using ij(1,2) n(4) by (simp_all add: n_def [symmetric] flip: n(4))
  then have "Min (set (rmValues s)) \<le> m" "m \<le> Max (set (rmValues s))"
    using ij(3,4) by (meson List.finite_set Min_le Max_ge order_trans)+
  ultimately show ?thesis
    using assms(1) n(2) by (simp add: m_def [symmetric] rm_getLowest_def rm_getHighest_def)
qed

theorem running_median_witness:
  "rm_getLowest (the (rm_adds [3, 1, 2] (rm_new 2))) \<le> rm_getMedian (\<lambda>x y. (x + y) div 2) (the (rm_adds [3, 1, 2 :: int] (rm_new 2)))"
proof -
  have "rmValues (the (rm_adds [3, 1, 2 :: int] (rm_new 2))) \<noteq> []"
    by (simp add: rm_new_def rm_add_def)
  moreover have "x \<le> (x + y) div 2 \<and> (x + y) div 2 \<le> y" if "x \<le> y" for x y :: int
    using that by auto
  ultimately show ?thesis
    using running_median [of "the (rm_adds [3, 1, 2] (rm_new 2))" "\<lambda>x y. (x + y) div 2"] by blast
qed

end
