(* ===== verification/Digest.thy ===== *)
theory Digest
  imports Interfaces
begin

text \<open>
  The message digests of \<open>src/include/mbedtls/md.h\<close> and \<open>src/include/mbedtls/sha256.h\<close>: a
  deterministic stand-in for the hash, a one-shot form, and a streaming form that collects its
  input in a fixed array of 512 bytes. The lemmas relate the streaming forms to the one-shot ones
  and give the sizes written.
\<close>

unbundle bit_operations_syntax

section \<open>The hash\<close>

definition hash_step :: "nat \<Rightarrow> byte \<Rightarrow> u64 \<times> u64 \<Rightarrow> u64 \<times> u64" where
  "hash_step i b h =
    ((fst h XOR ucast b) * 0x01000193,
     (snd h XOR ucast b) * (0x01000193 + (word_of_nat i AND 0xFF)))"

fun hash_loop :: "nat \<Rightarrow> byte list \<Rightarrow> u64 \<times> u64 \<Rightarrow> u64 \<times> u64" where
  "hash_loop i [] h = h"
| "hash_loop i (b # bs) h = hash_loop (i + 1) bs (hash_step i b h)"

definition hash_out :: "u64 \<Rightarrow> byte list" where
  "hash_out h = map (\<lambda>i. ucast (drop_bit (i * 8) h)) [0..<8]"

definition fake_hash :: "byte list \<Rightarrow> byte list" where
  "fake_hash input =
    (let (h1, h2) = hash_loop 0 input (0xcbf29ce484222325, 0x100000001b3)
     in hash_out h1 @ hash_out h2 @ hash_out (h1 XOR h2) @ hash_out (h1 + h2))"

lemma length_fake_hash [simp]: "length (fake_hash input) = 32"
  by (simp add: fake_hash_def hash_out_def split_beta)

section \<open>Contexts\<close>

datatype md_type = MD_NONE | MD_SHA256 | MD_SHA1

record md_context =
  mdInfo :: "md_type option"
  mdBuffer :: "byte list"
  mdLen :: nat

definition mbedtls_md_info_from_type :: "md_type \<Rightarrow> md_type option" where
  "mbedtls_md_info_from_type ty =
    (if ty = MD_SHA256 then Some MD_SHA256 else if ty = MD_SHA1 then Some MD_SHA1 else None)"

definition mbedtls_md_get_size :: "md_type option \<Rightarrow> nat" where
  "mbedtls_md_get_size info =
    (case info of
       None \<Rightarrow> 0
     | Some ty \<Rightarrow> if ty = MD_SHA256 then 32 else if ty = MD_SHA1 then 20 else 0)"

text \<open>The whole structure is cleared, by initialisation and by release.\<close>

definition mbedtls_md_init :: md_context where
  "mbedtls_md_init = \<lparr>mdInfo = None, mdBuffer = replicate 512 0, mdLen = 0\<rparr>"

definition mbedtls_md_free :: md_context where
  "mbedtls_md_free = \<lparr>mdInfo = None, mdBuffer = replicate 512 0, mdLen = 0\<rparr>"

definition mbedtls_md_setup :: "md_context \<Rightarrow> md_type option \<Rightarrow> int \<times> md_context" where
  "mbedtls_md_setup ctx info = (0, ctx\<lparr>mdInfo := info, mdLen := 0\<rparr>)"

definition mbedtls_md_starts :: "md_context \<Rightarrow> int \<times> md_context" where
  "mbedtls_md_starts ctx = (0, ctx\<lparr>mdLen := 0\<rparr>)"

definition mbedtls_md_update :: "md_context \<Rightarrow> byte list \<Rightarrow> int \<times> md_context" where
  "mbedtls_md_update ctx input =
    (let copy = (if length input < 512 - mdLen ctx then length input else 512 - mdLen ctx)
     in (0, ctx\<lparr>mdBuffer := blit (mdBuffer ctx) (mdLen ctx) (take copy input),
                mdLen := mdLen ctx + copy\<rparr>))"

definition mbedtls_md_finish :: "md_context \<Rightarrow> int \<times> byte list" where
  "mbedtls_md_finish ctx = (0, fake_hash (chunk (mdBuffer ctx) 0 (mdLen ctx)))"

definition mbedtls_md :: "md_type option \<Rightarrow> byte list \<Rightarrow> int \<times> byte list" where
  "mbedtls_md info input = (0, fake_hash input)"

text \<open>
  The keyed form hashes the key followed by the input, in an array of 1024 bytes: what does not
  fit is cut off.
\<close>

definition mbedtls_md_hmac :: "md_type option \<Rightarrow> byte list \<Rightarrow> byte list \<Rightarrow> int \<times> byte list" where
  "mbedtls_md_hmac info key input =
    (let total = (if length key + length input < 1024 then length key + length input else 1024);
         kl = (if length key < 1024 then length key else 1024);
         il = (if length input < 1024 - kl then length input else 1024 - kl);
         combined = take kl key @ take il input
     in (0, fake_hash (take total combined)))"

definition mbedtls_md_hmac_starts :: "md_context \<Rightarrow> byte list \<Rightarrow> int \<times> md_context" where
  "mbedtls_md_hmac_starts ctx key =
    (let kl = (if length key < 512 then length key else 512)
     in (0, ctx\<lparr>mdBuffer := blit (mdBuffer ctx) 0 (take kl key), mdLen := kl\<rparr>))"

definition mbedtls_md_hmac_update :: "md_context \<Rightarrow> byte list \<Rightarrow> int \<times> md_context" where
  "mbedtls_md_hmac_update ctx input = mbedtls_md_update ctx input"

definition mbedtls_md_hmac_finish :: "md_context \<Rightarrow> int \<times> byte list" where
  "mbedtls_md_hmac_finish ctx = mbedtls_md_finish ctx"

section \<open>SHA-256\<close>

text \<open>The context of \<open>sha256.h\<close> has the same array and length, and a flag nothing reads.\<close>

record sha256_context =
  shaBuffer :: "byte list"
  shaLen :: nat
  shaIs224 :: int

definition mbedtls_sha256_init :: sha256_context where
  "mbedtls_sha256_init = \<lparr>shaBuffer = replicate 512 0, shaLen = 0, shaIs224 = 0\<rparr>"

definition mbedtls_sha256_free :: sha256_context where
  "mbedtls_sha256_free = \<lparr>shaBuffer = replicate 512 0, shaLen = 0, shaIs224 = 0\<rparr>"

definition mbedtls_sha256_starts :: "sha256_context \<Rightarrow> int \<Rightarrow> int \<times> sha256_context" where
  "mbedtls_sha256_starts ctx is224 = (0, ctx\<lparr>shaIs224 := is224, shaLen := 0\<rparr>)"

definition mbedtls_sha256_update :: "sha256_context \<Rightarrow> byte list \<Rightarrow> int \<times> sha256_context" where
  "mbedtls_sha256_update ctx input =
    (let copy = (if length input < 512 - shaLen ctx then length input else 512 - shaLen ctx)
     in (0, ctx\<lparr>shaBuffer := blit (shaBuffer ctx) (shaLen ctx) (take copy input),
                shaLen := shaLen ctx + copy\<rparr>))"

definition mbedtls_sha256_finish :: "sha256_context \<Rightarrow> int \<times> byte list" where
  "mbedtls_sha256_finish ctx = (0, fake_hash (chunk (shaBuffer ctx) 0 (shaLen ctx)))"

definition mbedtls_sha256 :: "byte list \<Rightarrow> int \<Rightarrow> int \<times> byte list" where
  "mbedtls_sha256 input is224 = (0, fake_hash input)"

section \<open>What a context holds\<close>

text \<open>\<open>holds512 buf n xs\<close>: the first \<open>n\<close> of the 512 bytes are \<open>xs\<close>.\<close>

definition holds512 :: "byte list \<Rightarrow> nat \<Rightarrow> byte list \<Rightarrow> bool" where
  "holds512 buf n xs \<longleftrightarrow> length buf = 512 \<and> n = length xs \<and> length xs \<le> 512 \<and> chunk buf 0 n = xs"

lemma holds512_append:
  fixes ys :: "byte list"
  assumes "holds512 buf n xs"
  defines "k \<equiv> if length ys < 512 - n then length ys else 512 - n"
  shows "holds512 (blit buf n (take k ys)) (n + k) (take 512 (xs @ ys))"
proof -
  have n: "length buf = 512" "n = length xs" "n \<le> 512" "chunk buf 0 n = xs"
    using assms(1) unfolding holds512_def by auto
  then have k: "length (take k ys) = k" "n + k \<le> 512"
    by (auto simp: k_def)
  have pre: "take n buf = xs"
    using n(4) by (simp add: chunk_def)
  have "take 512 (xs @ ys) = xs @ take k ys"
    using n by (auto simp: k_def)
  moreover have "chunk (blit buf n (take k ys)) 0 (n + k) = xs @ take k ys"
    using k n(1,2) pre by (simp add: chunk_def blit_def)
  ultimately show ?thesis
    using n(1,2) k by (simp add: holds512_def)
qed

abbreviation "md_holds ctx xs \<equiv> holds512 (mdBuffer ctx) (mdLen ctx) xs"
abbreviation "sha_holds ctx xs \<equiv> holds512 (shaBuffer ctx) (shaLen ctx) xs"

lemma take_512_append: "take 512 (take 512 xs @ ys) = take 512 (xs @ (ys :: 'a list))"
  by (cases "length xs \<le> 512") simp_all

lemma md_updates:
  "md_holds ctx (take 512 xs) \<Longrightarrow>
   md_holds (fold (\<lambda>d c. snd (mbedtls_md_update c d)) ds ctx) (take 512 (xs @ concat ds))"
proof (induction ds arbitrary: ctx xs)
  case Nil
  then show ?case by simp
next
  case (Cons d ds)
  have "md_holds (snd (mbedtls_md_update ctx d)) (take 512 (take 512 xs @ d))"
    using holds512_append [OF Cons.prems, of d]
    by (simp only: mbedtls_md_update_def Let_def snd_conv) simp
  then have "md_holds (snd (mbedtls_md_update ctx d)) (take 512 (xs @ d))"
    by (simp only: take_512_append)
  from Cons.IH [OF this] show ?case by simp
qed

lemma sha_updates:
  "sha_holds ctx (take 512 xs) \<Longrightarrow>
   sha_holds (fold (\<lambda>d c. snd (mbedtls_sha256_update c d)) ds ctx) (take 512 (xs @ concat ds))"
proof (induction ds arbitrary: ctx xs)
  case Nil
  then show ?case by simp
next
  case (Cons d ds)
  have "sha_holds (snd (mbedtls_sha256_update ctx d)) (take 512 (take 512 xs @ d))"
    using holds512_append [OF Cons.prems, of d]
    by (simp only: mbedtls_sha256_update_def Let_def snd_conv) simp
  then have "sha_holds (snd (mbedtls_sha256_update ctx d)) (take 512 (xs @ d))"
    by (simp only: take_512_append)
  from Cons.IH [OF this] show ?case by simp
qed

lemma md_holds_finish: "md_holds ctx xs \<Longrightarrow> mbedtls_md_finish ctx = (0, fake_hash xs)"
  by (metis holds512_def mbedtls_md_finish_def)

lemma hmac_oneshot: "mbedtls_md_hmac info key input = (0, fake_hash (take 1024 (key @ input)))"
proof (cases "length key < 1024")
  case True
  then have "length input < 1024 - length key \<longleftrightarrow> length key + length input < 1024"
    by linarith
  with True show ?thesis
    by (cases "length key + length input < 1024") (simp_all add: mbedtls_md_hmac_def Let_def)
next
  case False
  then show ?thesis
    by (simp add: mbedtls_md_hmac_def Let_def)
qed

lemma holds512_empty: "length buf = 512 \<Longrightarrow> holds512 buf 0 []"
  by (simp add: holds512_def chunk_def)

section \<open>Properties\<close>

text \<open>
  Streaming and one-shot digests agree up to 512 bytes. However the input is split over
  updates, both streaming interfaces give the one-shot digest of the first 512 bytes of the input,
  so that of the whole input when it is no longer, and ignore every byte after that.
\<close>

theorem digest_streaming_equals_oneshot:
  fixes ds :: "byte list list"
  assumes "length (mdBuffer ctx) = 512" "length (shaBuffer sctx) = 512"
  defines "ctx' \<equiv> fold (\<lambda>d c. snd (mbedtls_md_update c d)) ds (snd (mbedtls_md_starts ctx))"
    and "sctx' \<equiv> fold (\<lambda>d c. snd (mbedtls_sha256_update c d)) ds (snd (mbedtls_sha256_starts sctx 0))"
  shows "mbedtls_md_finish ctx' = mbedtls_md info (take 512 (concat ds)) \<and>
    mbedtls_sha256_finish sctx' = mbedtls_sha256 (take 512 (concat ds)) 0 \<and>
    (length (concat ds) \<le> 512 \<longrightarrow> mbedtls_md_finish ctx' = mbedtls_md info (concat ds))"
proof -
  have "md_holds (snd (mbedtls_md_starts ctx)) (take 512 [])"
    "sha_holds (snd (mbedtls_sha256_starts sctx 0)) (take 512 [])"
    using assms(1,2) by (simp_all add: mbedtls_md_starts_def mbedtls_sha256_starts_def holds512_empty)
  then have "md_holds ctx' (take 512 (concat ds))" "sha_holds sctx' (take 512 (concat ds))"
    unfolding ctx'_def sctx'_def using md_updates [of _ "[]"] sha_updates [of _ "[]"] by auto
  then show ?thesis
    by (auto simp: mbedtls_md_finish_def mbedtls_md_def mbedtls_sha256_finish_def mbedtls_sha256_def
        holds512_def)
qed

theorem digest_streaming_equals_oneshot_witness:
  "mbedtls_md_finish (fold (\<lambda>d c. snd (mbedtls_md_update c d)) [[1, 2], [3]]
     (snd (mbedtls_md_starts mbedtls_md_init))) = mbedtls_md (Some MD_SHA256) [1, 2, 3]"
  using digest_streaming_equals_oneshot [of mbedtls_md_init mbedtls_sha256_init "[[1, 2], [3]]"
      "Some MD_SHA256"]
  by (simp add: mbedtls_md_init_def mbedtls_sha256_init_def)

text \<open>
  The keyed digests. The one-shot form hashes the first 1024 bytes of key and input, the
  streaming form the first 512: they agree while the two together have at most 512 bytes.
\<close>

theorem hmac_streaming_equals_oneshot:
  fixes ds :: "byte list list" and key :: "byte list"
  assumes "length (mdBuffer ctx) = 512"
  defines "ctx' \<equiv> fold (\<lambda>d c. snd (mbedtls_md_hmac_update c d)) ds (snd (mbedtls_md_hmac_starts ctx key))"
  shows "mbedtls_md_hmac info key (concat ds) = (0, fake_hash (take 1024 (key @ concat ds))) \<and>
    mbedtls_md_hmac_finish ctx' = (0, fake_hash (take 512 (key @ concat ds)))"
proof -
  have "md_holds (snd (mbedtls_md_hmac_starts ctx key)) (take 512 key)"
    using holds512_append [OF holds512_empty [OF assms(1)], of key]
    by (auto simp: mbedtls_md_hmac_starts_def Let_def split: if_splits)
  then have "md_holds ctx' (take 512 (key @ concat ds))"
    unfolding ctx'_def mbedtls_md_hmac_update_def by (rule md_updates)
  then show ?thesis
    by (simp add: mbedtls_md_hmac_finish_def md_holds_finish hmac_oneshot)
qed

theorem hmac_streaming_equals_oneshot_witness:
  "mbedtls_md_hmac None [9] [1, 2] = (0, fake_hash [9, 1, 2])"
  using hmac_streaming_equals_oneshot [of mbedtls_md_init None "[9]" "[[1], [2]]"]
  by (simp add: mbedtls_md_init_def)

text \<open>
  Finishing writes 32 bytes whatever the digest: for SHA-1, whose announced size is 20, this is
  12 bytes more than the caller was told to provide.
\<close>

theorem sha1_finish_overruns:
  "length (snd (mbedtls_md_finish ctx)) = 32 \<and>
   mbedtls_md_get_size (mbedtls_md_info_from_type MD_SHA1) = 20 \<and>
   mbedtls_md_get_size (mbedtls_md_info_from_type MD_SHA256) = 32"
  by (simp add: mbedtls_md_finish_def mbedtls_md_get_size_def mbedtls_md_info_from_type_def)

end
