(* ===== verification/Esp_Console.thy ===== *)
theory Esp_Console
  imports Http_Text
begin

text \<open>
  The command console of \<open>src/include/esp_console.h\<close>: registered commands, the splitting of a
  command line into words and the dispatch to the first command of that name. A command's function
  is user code: a number, with what it returns and how it changes the registered commands as an
  argument. The lemmas give the round trip from words to the arguments of the function.
\<close>

section \<open>State\<close>

datatype cmd_func = HelpFunc | UserFunc nat

record console_cmd =
  ccCommand :: string
  ccHelp :: string
  ccFunc :: cmd_func

text \<open>What a caller registers; null pointers are \<open>None\<close>.\<close>

record console_cmd_arg =
  caCommand :: "string option"
  caHelp :: "string option"
  caFunc :: "cmd_func option"

section \<open>Operations\<close>

definition esp_console_init :: "console_cmd list \<Rightarrow> esp_err \<times> console_cmd list" where
  "esp_console_init cmds = (ESP_OK, [])"

definition esp_console_deinit :: "console_cmd list \<Rightarrow> esp_err \<times> console_cmd list" where
  "esp_console_deinit cmds = (ESP_OK, [])"

definition esp_console_cmd_register ::
  "console_cmd list \<Rightarrow> console_cmd_arg option \<Rightarrow> esp_err \<times> console_cmd list" where
  "esp_console_cmd_register cmds cmd =
    (case cmd of
       None \<Rightarrow> (ESP_ERR_INVALID_ARG, cmds)
     | Some a \<Rightarrow>
         (case (caCommand a, caFunc a) of
            (Some c, Some f) \<Rightarrow>
              (ESP_OK, cmds @ [\<lparr>ccCommand = c, ccHelp = (case caHelp a of Some h \<Rightarrow> h | None \<Rightarrow> ''''),
                                ccFunc = f\<rparr>])
          | _ \<Rightarrow> (ESP_ERR_INVALID_ARG, cmds)))"

text \<open>\<open>while (iss >> tok)\<close>: skip white space, take what is not; no word ends the loop.\<close>

function tokenize :: "string \<Rightarrow> string list" where
  "tokenize s =
    (let rest = dropWhile is_space s; tok = takeWhile (\<lambda>c. \<not> is_space c) rest
     in if tok = [] then [] else tok # tokenize (drop (length tok) rest))"
  by auto
termination
proof (relation "measure length", simp)
  fix s rest tok :: string
  assume r: "rest = dropWhile is_space s" and t: "tok = takeWhile (\<lambda>c. \<not> is_space c) rest" "tok \<noteq> []"
  then have "rest \<noteq> []" by (metis takeWhile.simps(1))
  with t(2) have "length (drop (length tok) rest) < length rest"
    by simp
  also have "\<dots> \<le> length s"
    unfolding r by (rule length_dropWhile_le)
  finally show "(drop (length tok) rest, s) \<in> measure length" by simp
qed

text \<open>
  \<open>call\<close> is what the function of a command returns for its arguments and does to the commands. The
  second component is what is stored through \<open>ret_val\<close>, if it is.
\<close>

definition esp_console_run ::
  "(cmd_func \<Rightarrow> string list \<Rightarrow> console_cmd list \<Rightarrow> int \<times> console_cmd list) \<Rightarrow>
   console_cmd list \<Rightarrow> string option \<Rightarrow> bool \<Rightarrow> (esp_err \<times> int option) \<times> console_cmd list" where
  "esp_console_run call cmds cmdline ret_given =
    (case cmdline of
       None \<Rightarrow> ((ESP_ERR_INVALID_ARG, None), cmds)
     | Some line \<Rightarrow>
         if \<not> ret_given then ((ESP_ERR_INVALID_ARG, None), cmds)
         else
           (let tokens = tokenize line
            in if tokens = [] then ((ESP_ERR_INVALID_ARG, Some 0), cmds)
               else (case find (\<lambda>c. ccCommand c = hd tokens) cmds of
                       Some c \<Rightarrow> (case call (ccFunc c) tokens cmds of (r, cmds') \<Rightarrow> ((ESP_OK, Some r), cmds'))
                     | None \<Rightarrow> ((ESP_ERR_NOT_FOUND, Some (- 1)), cmds))))"

definition esp_console_register_help_command :: "console_cmd list \<Rightarrow> esp_err \<times> console_cmd list" where
  "esp_console_register_help_command cmds =
    esp_console_cmd_register cmds
      (Some \<lparr>caCommand = Some ''help'', caHelp = Some ''Print list of registered commands'',
             caFunc = Some HelpFunc\<rparr>)"

definition console_command_count :: "console_cmd list \<Rightarrow> nat" where
  "console_command_count cmds = length cmds"

definition console_reset :: "console_cmd list \<Rightarrow> console_cmd list" where
  "console_reset cmds = []"

section \<open>Words and arguments\<close>

declare tokenize.simps [simp del]

definition is_word :: "string \<Rightarrow> bool" where
  "is_word w \<longleftrightarrow> w \<noteq> [] \<and> (\<forall>c \<in> set w. \<not> is_space c)"

text \<open>A line made of words, each after some white space and the last before some.\<close>

fun spaced :: "(string \<times> string) list \<Rightarrow> string \<Rightarrow> string" where
  "spaced [] trail = trail"
| "spaced ((gap, w) # ws) trail = gap @ w @ spaced ws trail"

definition gaps_ok :: "(string \<times> string) list \<Rightarrow> bool" where
  "gaps_ok ws \<longleftrightarrow> (\<forall>(gap, w) \<in> set ws. is_word w \<and> (\<forall>c \<in> set gap. is_space c)) \<and>
    (\<forall>(gap, w) \<in> set (tl ws). gap \<noteq> [])"

lemma tokenize_blank: "\<forall>c \<in> set s. is_space c \<Longrightarrow> tokenize s = []"
proof -
  assume "\<forall>c \<in> set s. is_space c"
  then have "dropWhile is_space s = []" by simp
  then show ?thesis
    by (subst tokenize.simps) (simp only: Let_def takeWhile.simps simp_thms if_True)
qed

lemma tokenize_word:
  assumes "\<forall>c \<in> set gap. is_space c" "is_word w" "r = [] \<or> is_space (hd r)"
  shows "tokenize (gap @ w @ r) = w # tokenize r"
proof -
  obtain c cs where w: "w = c # cs" "\<not> is_space c"
    using assms(2) by (cases w) (auto simp: is_word_def)
  then have "dropWhile is_space (gap @ w @ r) = w @ r"
    using assms(1) by (simp add: dropWhile_append)
  moreover have "takeWhile (\<lambda>c. \<not> is_space c) (w @ r) = w"
    using assms(2,3) by (cases r) (auto simp: is_word_def takeWhile_append)
  ultimately show ?thesis
    using w(1) by (subst tokenize.simps) (simp add: Let_def)
qed

lemma tokenize_spaced:
  assumes "gaps_ok ws" "\<forall>c \<in> set trail. is_space c"
  shows "tokenize (spaced ws trail) = map snd ws"
  using assms
proof (induction ws)
  case Nil
  then show ?case by (simp add: tokenize_blank)
next
  case (Cons gw ws)
  obtain gap w where gw: "gw = (gap, w)" by (cases gw)
  have ok: "gaps_ok ws"
    using Cons.prems(1) by (cases ws) (auto simp: gaps_ok_def)
  have "spaced ws trail = [] \<or> is_space (hd (spaced ws trail))"
  proof (cases ws)
    case Nil
    then show ?thesis using Cons.prems(2) by (cases trail) auto
  next
    case (Cons gw' ws')
    then obtain g w' where "ws = (g, w') # ws'" by (cases gw') auto
    moreover from this have "g \<noteq> []" "\<forall>c \<in> set g. is_space c"
      using \<open>gaps_ok (gw # ws)\<close> by (auto simp: gaps_ok_def)
    ultimately show ?thesis by (cases g) auto
  qed
  with gw ok Cons show ?case
    using tokenize_word [of gap w "spaced ws trail"] by (auto simp: gaps_ok_def)
qed

text \<open>
  A command line reaches its command with its words. However the words are spaced, a line runs
  the function of the first registered command whose name is the first word, with all the words as
  its arguments, and returns what the function returns; a line whose first word names no command
  changes nothing and answers \<open>ESP_ERR_NOT_FOUND\<close> and -1.
\<close>

theorem console_run_words:
  assumes "gaps_ok ws" "ws \<noteq> []" "\<forall>c \<in> set trail. is_space c"
  shows "(\<forall>pre c post. cmds = pre @ c # post \<longrightarrow> ccCommand c = snd (hd ws) \<longrightarrow>
      snd (hd ws) \<notin> ccCommand ` set pre \<longrightarrow>
      esp_console_run call cmds (Some (spaced ws trail)) True =
        ((ESP_OK, Some (fst (call (ccFunc c) (map snd ws) cmds))), snd (call (ccFunc c) (map snd ws) cmds))) \<and>
    (snd (hd ws) \<notin> ccCommand ` set cmds \<longrightarrow>
      esp_console_run call cmds (Some (spaced ws trail)) True = ((ESP_ERR_NOT_FOUND, Some (- 1)), cmds))"
proof -
  have t: "tokenize (spaced ws trail) = map snd ws" "hd (map snd ws) = snd (hd ws)"
    using tokenize_spaced [OF assms(1,3)] assms(2) by (simp_all add: hd_map)
  have run: "esp_console_run call cmds (Some (spaced ws trail)) True =
      (case find (\<lambda>c. ccCommand c = snd (hd ws)) cmds of
         Some c \<Rightarrow> (case call (ccFunc c) (map snd ws) cmds of (r, cmds') \<Rightarrow> ((ESP_OK, Some r), cmds'))
       | None \<Rightarrow> ((ESP_ERR_NOT_FOUND, Some (- 1)), cmds))"
    using t assms(2) by (simp add: esp_console_run_def Let_def)
  have first: "find (\<lambda>c. ccCommand c = snd (hd ws)) (pre @ c # post) = Some c"
    if "ccCommand c = snd (hd ws)" "snd (hd ws) \<notin> ccCommand ` set pre" for pre c post
    using that by (induction pre) auto
  have none: "find (\<lambda>c. ccCommand c = snd (hd ws)) cmds = None"
    if "snd (hd ws) \<notin> ccCommand ` set cmds"
    using that by (induction cmds) auto
  show ?thesis
  proof (intro conjI allI impI)
    fix pre c post
    assume "cmds = pre @ c # post" "ccCommand c = snd (hd ws)" "snd (hd ws) \<notin> ccCommand ` set pre"
    with first [of c pre post] show "esp_console_run call cmds (Some (spaced ws trail)) True =
        ((ESP_OK, Some (fst (call (ccFunc c) (map snd ws) cmds))), snd (call (ccFunc c) (map snd ws) cmds))"
      unfolding run by (simp add: split_beta)
  qed (simp add: run none)
qed

definition demo_cmd :: console_cmd where
  "demo_cmd = \<lparr>ccCommand = ''led'', ccHelp = '''', ccFunc = UserFunc 1\<rparr>"

theorem console_run_words_witness:
  "esp_console_run (\<lambda>f argv cmds. (int (length argv), cmds)) [demo_cmd] (Some '' led  on '') True =
   ((ESP_OK, Some 2), [demo_cmd])"
proof -
  have "gaps_ok [('' '', ''led''), (''  '', ''on'')]"
    by (auto simp: gaps_ok_def is_word_def is_space_def ord_def)
  from conjunct1 [OF console_run_words [OF this, of "'' ''" "[demo_cmd]" "\<lambda>f argv cmds. (int (length argv), cmds)"],
      rule_format, of "[]" demo_cmd "[]"]
  show ?thesis
    by (simp add: demo_cmd_def is_space_def ord_def)
qed

end
