(* ===== verification/Esp_Http_Client.thy ===== *)
theory Esp_Http_Client
  imports Http_Text "HOL-Library.While_Combinator"
begin

text \<open>
  The HTTP client of ESP-IDF, \<open>src/include/esp_http_client.h\<close>, which does not connect but answers with a
  response kept in the client. A null client is \<open>None\<close>; an undefined access or an exception is \<open>None\<close> as the
  result of a call. The lemmas give the events of a request, what a response set beforehand becomes, and
  that reading in pieces ends with the whole body.
\<close>

section \<open>State\<close>

datatype http_method = GET | POST | PUT | PATCH | DELETE | HEAD | OPTIONS

datatype http_event_id = ON_ERROR | ON_CONNECTED | HEADER_SENT | ON_HEADER | ON_DATA | ON_FINISH | ON_DISCONNECTED

record http_event =
  heId :: http_event_id
  heData :: "string option"
  heLen :: int
  heUser :: nat

record http_client =
  hcUrl :: string
  hcHost :: string
  hcPath :: string
  hcPort :: int
  hcMethod :: http_method
  hcTimeout :: int
  hcHandler :: "nat option"
  hcUser :: nat
  hcHeaders :: "string \<rightharpoonup> string"
  hcPostData :: string
  hcStatus :: int
  hcBody :: string
  hcContentLength :: int
  hcPerformed :: bool

record http_config =
  hfUrl :: "string option"
  hfHost :: "string option"
  hfPath :: "string option"
  hfPort :: int
  hfMethod :: http_method
  hfTimeout :: int
  hfHandler :: "nat option"
  hfUser :: nat

text \<open>A handler may change the client it is called for.\<close>

type_synonym http_run = "nat \<Rightarrow> http_event \<Rightarrow> http_client \<Rightarrow> http_client"

section \<open>The calls\<close>

definition or_empty :: "string option \<Rightarrow> string" where
  "or_empty p = (case p of Some s \<Rightarrow> s | None \<Rightarrow> [])"

definition http_init :: "http_config option \<Rightarrow> http_client option" where
  "http_init config =
    map_option (\<lambda>f.
      \<lparr>hcUrl = or_empty (hfUrl f), hcHost = or_empty (hfHost f), hcPath = or_empty (hfPath f),
       hcPort = (if hfPort f \<noteq> 0 then hfPort f else 80), hcMethod = hfMethod f,
       hcTimeout = (if hfTimeout f \<noteq> 0 then hfTimeout f else 5000), hcHandler = hfHandler f, hcUser = hfUser f,
       hcHeaders = Map.empty, hcPostData = [], hcStatus = 200, hcBody = [], hcContentLength = 0,
       hcPerformed = False\<rparr>) config"

definition http_set_url :: "string option \<Rightarrow> http_client option \<Rightarrow> esp_err \<times> http_client option" where
  "http_set_url url c =
    (case (c, url) of (Some c, Some u) \<Rightarrow> (ESP_OK, Some (c\<lparr>hcUrl := u\<rparr>)) | _ \<Rightarrow> (ESP_ERR_INVALID_ARG, c))"

definition http_set_method :: "http_method \<Rightarrow> http_client option \<Rightarrow> esp_err \<times> http_client option" where
  "http_set_method m c = (case c of Some c \<Rightarrow> (ESP_OK, Some (c\<lparr>hcMethod := m\<rparr>)) | None \<Rightarrow> (ESP_ERR_INVALID_ARG, None))"

definition http_set_header :: "string option \<Rightarrow> string option \<Rightarrow> http_client option \<Rightarrow> esp_err \<times> http_client option" where
  "http_set_header key v c =
    (case (c, key, v) of
      (Some c, Some k, Some v) \<Rightarrow> (ESP_OK, Some (c\<lparr>hcHeaders := (hcHeaders c)(k \<mapsto> v)\<rparr>))
    | _ \<Rightarrow> (ESP_ERR_INVALID_ARG, c))"

text \<open>The data is the characters from its address on. A negative length, as a \<open>size_t\<close>, is refused by an exception.\<close>

definition http_set_post_field :: "string \<Rightarrow> int \<Rightarrow> http_client option \<Rightarrow> (esp_err \<times> http_client option) option" where
  "http_set_post_field d len c =
    (case c of
      None \<Rightarrow> Some (ESP_ERR_INVALID_ARG, None)
    | Some c \<Rightarrow>
        if 0 \<le> len \<and> nat len \<le> length d
        then Some (ESP_OK, Some (c\<lparr>hcPostData := take (nat len) d, hcContentLength := len\<rparr>))
        else None)"

definition default_body :: string where
  "default_body = [CHR 0x7B, CHR 0x22] @ ''status'' @ [CHR 0x22, CHR '':'', CHR 0x22] @ ''ok'' @ [CHR 0x22, CHR 0x7D]"

definition http_perform :: "http_run \<Rightarrow> http_client option \<Rightarrow> esp_err \<times> http_client option" where
  "http_perform run c =
    (case c of
      None \<Rightarrow> (ESP_ERR_INVALID_ARG, None)
    | Some c \<Rightarrow>
        let c = (if \<not> hcPerformed c
                 then let c = (if hcBody c = [] then c\<lparr>hcBody := default_body\<rparr> else c)
                      in c\<lparr>hcContentLength := int (length (hcBody c)), hcStatus := 200\<rparr>
                 else c);
            c = c\<lparr>hcPerformed := True\<rparr>
        in case hcHandler c of
             None \<Rightarrow> (ESP_OK, Some c)
           | Some h \<Rightarrow>
               let user = hcUser c;
                   c = run h \<lparr>heId = ON_CONNECTED, heData = None, heLen = 0, heUser = user\<rparr> c;
                   c = run h \<lparr>heId = ON_DATA, heData = Some (hcBody c), heLen = int (length (hcBody c)), heUser = user\<rparr> c;
                   c = run h \<lparr>heId = ON_FINISH, heData = None, heLen = 0, heUser = user\<rparr> c
               in (ESP_OK, Some c))"

definition http_get_status_code :: "http_client option \<Rightarrow> int" where
  "http_get_status_code c = (case c of Some c \<Rightarrow> hcStatus c | None \<Rightarrow> - 1)"

definition http_get_content_length :: "http_client option \<Rightarrow> int" where
  "http_get_content_length c = (case c of Some c \<Rightarrow> hcContentLength c | None \<Rightarrow> - 1)"

text \<open>The number, the bytes put into the buffer, and the client; a negative length is copied as a \<open>size_t\<close>.\<close>

definition http_read :: "int \<Rightarrow> http_client option \<Rightarrow> ((int \<times> string) \<times> http_client option) option" where
  "http_read len c =
    (case c of
      None \<Rightarrow> Some ((- 1, []), None)
    | Some c \<Rightarrow>
        let n = min len (int (length (hcBody c)))
        in if n < 0 then None
           else Some ((n, take (nat n) (hcBody c)), Some (c\<lparr>hcBody := drop (nat n) (hcBody c)\<rparr>)))"

text \<open>The loop of a sketch, \<open>while ((n = read(buf, k)) > 0)\<close>: the text read so far and the client.\<close>

definition http_read_all :: "int \<Rightarrow> http_client \<Rightarrow> (string \<times> http_client) option" where
  "http_read_all k c =
    while_option (\<lambda>(_, c). case http_read k (Some c) of Some ((n, _), _) \<Rightarrow> n > 0 | None \<Rightarrow> False)
      (\<lambda>(t, c). case http_read k (Some c) of Some ((_, d), Some c) \<Rightarrow> (t @ d, c) | _ \<Rightarrow> (t, c)) ([], c)"

section \<open>Properties\<close>

lemma http_read_some:
  "0 \<le> k \<Longrightarrow> http_read k (Some c) =
    Some ((min k (int (length (hcBody c))), take (nat k) (hcBody c)), Some (c\<lparr>hcBody := drop (nat k) (hcBody c)\<rparr>))"
  by (auto simp: http_read_def Let_def min_def)

lemma read_loop:
  assumes "0 < k"
  shows "while_option (\<lambda>(_, c). case http_read k (Some c) of Some ((n, _), _) \<Rightarrow> n > 0 | None \<Rightarrow> False)
      (\<lambda>(t, c). case http_read k (Some c) of Some ((_, d), Some c) \<Rightarrow> (t @ d, c) | _ \<Rightarrow> (t, c)) (t, c) =
    Some (t @ hcBody c, c\<lparr>hcBody := []\<rparr>)"
proof (induction "length (hcBody c)" arbitrary: t c rule: less_induct)
  case less
  show ?case
  proof (cases "hcBody c = []")
    case True
    then show ?thesis
      using assms by (subst while_option_unfold) (simp add: http_read_some)
  next
    case False
    let ?c = "c\<lparr>hcBody := drop (nat k) (hcBody c)\<rparr>"
    have "length (hcBody ?c) < length (hcBody c)"
      using False assms by (cases "hcBody c") auto
    then show ?thesis
      using less.hyps [of ?c "t @ take (nat k) (hcBody c)"] False assms
      by (subst while_option_unfold) (simp add: http_read_some)
  qed
qed

text \<open>
  Reading in pieces. With any positive size of the pieces the loop ends and gives the whole body, which is
  then empty; the content length stays that of the whole.
\<close>

theorem http_read_pieces:
  assumes "0 < k"
  shows "http_read_all k c = Some (hcBody c, c\<lparr>hcBody := []\<rparr>)"
  using read_loop [OF assms, of "[]" c] by (simp add: http_read_all_def)

definition demo_client :: http_client where
  "demo_client = the (http_init (Some \<lparr>hfUrl = Some ''http://x/'', hfHost = None, hfPath = None, hfPort = 0, hfMethod = GET,
    hfTimeout = 0, hfHandler = Some 1, hfUser = 5\<rparr>))"

theorem http_read_pieces_witness:
  "http_read_all 3 (demo_client\<lparr>hcBody := ''hello''\<rparr>) = Some (''hello'', demo_client\<lparr>hcBody := ''''\<rparr>)"
  using http_read_pieces [of 3 "demo_client\<lparr>hcBody := ''hello''\<rparr>"] by simp

text \<open>
  The first request. A body set before it is kept and its length reported, but a status set before it is
  replaced by 200; a later request changes neither, so a status set between them stays.
\<close>

theorem http_perform_status:
  assumes "hcHandler c = None" "\<not> hcPerformed c"
  shows "\<exists>d. http_perform run (Some c) = (ESP_OK, Some d) \<and> hcStatus d = 200 \<and>
    hcBody d = (if hcBody c = [] then default_body else hcBody c) \<and> hcContentLength d = int (length (hcBody d)) \<and>
    (\<forall>st b. http_perform run (Some (d\<lparr>hcStatus := st, hcBody := b\<rparr>)) = (ESP_OK, Some (d\<lparr>hcStatus := st, hcBody := b\<rparr>)))"
  using assms by (auto simp: http_perform_def Let_def)

theorem http_perform_status_witness:
  "http_get_status_code (snd (http_perform (\<lambda>_ _ c. c) (Some (demo_client\<lparr>hcHandler := None, hcStatus := 404\<rparr>)))) = 200"
  using http_perform_status [of "demo_client\<lparr>hcHandler := None, hcStatus := 404\<rparr>" "\<lambda>_ _ c. c"]
  by (auto simp: demo_client_def http_init_def http_get_status_code_def)

definition note_run :: http_run where
  "note_run h e c = c\<lparr>hcPostData := hcPostData c @ (case heData e of Some d \<Rightarrow> d | None \<Rightarrow> []) @
    (if heId e = ON_CONNECTED then ''<'' else if heId e = ON_FINISH then ''>'' else [])\<rparr>"

text \<open>
  The events. A handler that only takes notes sees the connection, the whole body in one piece and the end,
  in this order, each with the user's data.
\<close>

theorem http_perform_events:
  assumes "hcHandler c = Some h"
  shows "\<exists>d. http_perform note_run (Some c) = (ESP_OK, Some d) \<and>
    hcPostData d = hcPostData c @ ''<'' @ hcBody d @ ''>'' \<and> hcPerformed d"
  using assms by (auto simp: http_perform_def note_run_def Let_def)

theorem http_perform_events_witness:
  "\<exists>d. http_perform note_run (Some (demo_client\<lparr>hcBody := ''hi''\<rparr>)) = (ESP_OK, Some d) \<and> hcPostData d = ''<'' @ hcBody d @ ''>''"
  using http_perform_events [of "demo_client\<lparr>hcBody := ''hi''\<rparr>" 1] by (auto simp: demo_client_def http_init_def)

text \<open>
  Null pointers. Every call on a null client fails without effect, and so do the settings of a null address,
  header or value, which leave the client as it was.
\<close>

theorem http_null_arguments:
  "http_set_url u None = (ESP_ERR_INVALID_ARG, None) \<and> http_set_url None c = (ESP_ERR_INVALID_ARG, c) \<and>
   http_set_header None v c = (ESP_ERR_INVALID_ARG, c) \<and> http_set_header k None c = (ESP_ERR_INVALID_ARG, c) \<and>
   http_set_method m None = (ESP_ERR_INVALID_ARG, None) \<and> http_set_post_field d n None = Some (ESP_ERR_INVALID_ARG, None) \<and>
   http_perform run None = (ESP_ERR_INVALID_ARG, None) \<and> http_read n None = Some ((- 1, []), None) \<and>
   http_get_status_code None = - 1 \<and> http_get_content_length None = - 1"
  by (simp add: http_set_url_def http_set_header_def http_set_method_def http_set_post_field_def http_perform_def
      http_read_def http_get_status_code_def http_get_content_length_def split: option.splits)

end
