(* ===== verification/Esp_Timer.thy ===== *)
theory Esp_Timer
  imports Interfaces
begin

text \<open>
  The high resolution timers of \<open>src/include/esp_timer.h\<close>: every timer has a thread that waits until
  the timer runs, sleeps for its period and then calls the callback under the timer's mutex. The
  model keeps the flags of a timer and where its thread is; the thread's steps take the clock, in
  microseconds, that they meet. The lemmas bound when and how often a timer fires, and say what
  happens when a timer is stopped and started while its thread sleeps.
\<close>

section \<open>State\<close>

text \<open>\<open>AtLoop\<close> is the head of the thread's loop, \<open>Asleep d\<close> the sleep that ends at \<open>d\<close> or later.\<close>

datatype thread_state = AtLoop | Asleep nat | Ended

record esp_timer =
  etCallback :: nat
  etArg :: nat
  etName :: string
  etRunning :: bool
  etAlive :: bool
  etPeriodic :: bool
  etPeriod :: u64
  etThread :: thread_state
  etFireCount :: int

record timer_create_args =
  acCallback :: "nat option"
  acArg :: nat
  acName :: "string option"

text \<open>The timers by address, and the registry.\<close>

record esp_timers =
  etObjs :: "nat \<rightharpoonup> esp_timer"
  etRegistry :: "nat list"

section \<open>The thread\<close>

text \<open>
  One step of the thread. The callback is user code that runs under the timer's mutex: its effect
  on the timer, and \<open>None\<close> when it does not return (it may wait for that mutex or for the thread).
\<close>

definition thread_step ::
  "(esp_timer \<Rightarrow> esp_timer option) \<Rightarrow> nat \<Rightarrow> esp_timer \<Rightarrow> esp_timer option" where
  "thread_step callback now t =
    (case etThread t of
       AtLoop \<Rightarrow>
         if \<not> etAlive t then Some (t\<lparr>etThread := Ended\<rparr>)
         else if \<not> etRunning t then Some t
         else Some (t\<lparr>etThread := Asleep (now + unat (etPeriod t))\<rparr>)
     | Asleep d \<Rightarrow>
         if now < d then Some t
         else if etRunning t \<and> etAlive t
         then map_option (\<lambda>t1.
                let t2 = t1\<lparr>etFireCount := etFireCount t1 + 1\<rparr>
                in (if \<not> etPeriodic t2 then t2\<lparr>etRunning := False\<rparr> else t2)\<lparr>etThread := AtLoop\<rparr>)
              (callback t)
         else Some (t\<lparr>etThread := AtLoop\<rparr>)
     | Ended \<Rightarrow> Some t)"

section \<open>The interface\<close>

text \<open>\<open>alloc\<close> is the address that \<open>new\<close> returns.\<close>

definition esp_timer_create ::
  "nat \<Rightarrow> esp_timers \<Rightarrow> timer_create_args option \<Rightarrow> bool \<Rightarrow> (int \<times> nat option) \<times> esp_timers" where
  "esp_timer_create alloc s args out_given =
    (case args of
       None \<Rightarrow> ((ESP_ERR_INVALID_ARG, None), s)
     | Some a \<Rightarrow>
         (case acCallback a of
            None \<Rightarrow> ((ESP_ERR_INVALID_ARG, None), s)
          | Some cb \<Rightarrow>
              if \<not> out_given then ((ESP_ERR_INVALID_ARG, None), s)
              else ((ESP_OK, Some alloc),
                s\<lparr>etObjs := (etObjs s)(alloc \<mapsto>
                    \<lparr>etCallback = cb, etArg = acArg a,
                     etName = (case acName a of Some n \<Rightarrow> n | None \<Rightarrow> ''timer''),
                     etRunning = False, etAlive = True, etPeriodic = False, etPeriod = 0,
                     etThread = AtLoop, etFireCount = 0\<rparr>),
                  etRegistry := etRegistry s @ [alloc]\<rparr>)))"

definition with_esp_timer ::
  "(esp_timer \<Rightarrow> esp_timer) \<Rightarrow> esp_timers \<Rightarrow> nat option \<Rightarrow> int \<times> esp_timers" where
  "with_esp_timer f s h =
    (case h of
       None \<Rightarrow> (ESP_ERR_INVALID_ARG, s)
     | Some p \<Rightarrow> (ESP_OK, s\<lparr>etObjs := (etObjs s)(p := map_option f (etObjs s p))\<rparr>))"

definition start_periodic :: "u64 \<Rightarrow> esp_timer \<Rightarrow> esp_timer" where
  "start_periodic period_us t = t\<lparr>etPeriod := period_us, etPeriodic := True, etRunning := True\<rparr>"

definition start_once :: "u64 \<Rightarrow> esp_timer \<Rightarrow> esp_timer" where
  "start_once timeout_us t = t\<lparr>etPeriod := timeout_us, etPeriodic := False, etRunning := True\<rparr>"

definition stop_timer :: "esp_timer \<Rightarrow> esp_timer" where
  "stop_timer t = t\<lparr>etRunning := False\<rparr>"

definition esp_timer_start_periodic :: "esp_timers \<Rightarrow> nat option \<Rightarrow> u64 \<Rightarrow> int \<times> esp_timers" where
  "esp_timer_start_periodic s h period_us = with_esp_timer (start_periodic period_us) s h"

definition esp_timer_start_once :: "esp_timers \<Rightarrow> nat option \<Rightarrow> u64 \<Rightarrow> int \<times> esp_timers" where
  "esp_timer_start_once s h timeout_us = with_esp_timer (start_once timeout_us) s h"

definition esp_timer_stop :: "esp_timers \<Rightarrow> nat option \<Rightarrow> int \<times> esp_timers" where
  "esp_timer_stop s h = with_esp_timer stop_timer s h"

text \<open>
  \<open>esp_timer_delete\<close> waits for the thread to end, which it does once it sees \<open>alive\<close> cleared; the
  object is gone when the call returns.
\<close>

definition esp_timer_delete :: "esp_timers \<Rightarrow> nat option \<Rightarrow> int \<times> esp_timers" where
  "esp_timer_delete s h =
    (case h of
       None \<Rightarrow> (ESP_ERR_INVALID_ARG, s)
     | Some p \<Rightarrow> (ESP_OK, s\<lparr>etObjs := (etObjs s)(p := None),
                            etRegistry := filter (\<lambda>q. q \<noteq> p) (etRegistry s)\<rparr>))"

definition esp_timer_get_time :: "nat \<Rightarrow> nat \<Rightarrow> nat" where
  "esp_timer_get_time start now = now - start"

definition esp_timer_is_active :: "esp_timers \<Rightarrow> nat option \<Rightarrow> bool" where
  "esp_timer_is_active s h \<longleftrightarrow>
    (case h of None \<Rightarrow> False | Some p \<Rightarrow> (case etObjs s p of None \<Rightarrow> False | Some t \<Rightarrow> etRunning t))"

definition et_getFireCount :: "esp_timers \<Rightarrow> nat option \<Rightarrow> int" where
  "et_getFireCount s h =
    (case h of None \<Rightarrow> 0 | Some p \<Rightarrow> (case etObjs s p of None \<Rightarrow> 0 | Some t \<Rightarrow> etFireCount t))"

definition et_resetFireCount :: "esp_timers \<Rightarrow> nat option \<Rightarrow> esp_timers" where
  "et_resetFireCount s h =
    (case h of None \<Rightarrow> s | Some _ \<Rightarrow> snd (with_esp_timer (\<lambda>t. t\<lparr>etFireCount := 0\<rparr>) s h))"

section \<open>How often a timer fires\<close>

text \<open>The thread at the clock readings \<open>ns\<close>, with a callback that leaves the timer alone.\<close>

fun thread_run :: "nat list \<Rightarrow> esp_timer \<Rightarrow> esp_timer" where
  "thread_run [] t = t"
| "thread_run (now # ns) t = thread_run ns (the (thread_step Some now t))"

lemma thread_step_Some:
  "thread_step Some now t =
    Some (case etThread t of
       AtLoop \<Rightarrow> if \<not> etAlive t then t\<lparr>etThread := Ended\<rparr>
         else if \<not> etRunning t then t else t\<lparr>etThread := Asleep (now + unat (etPeriod t))\<rparr>
     | Asleep d \<Rightarrow> if now < d then t
         else if etRunning t \<and> etAlive t
         then t\<lparr>etFireCount := etFireCount t + 1, etRunning := etPeriodic t, etThread := AtLoop\<rparr>
         else t\<lparr>etThread := AtLoop\<rparr>
     | Ended \<Rightarrow> t)"
  by (auto simp: thread_step_def Let_def split: thread_state.splits)

lemma thread_run_append [simp]: "thread_run (ms @ ns) t = thread_run ns (thread_run ms t)"
  by (induction ms arbitrary: t) simp_all

text \<open>
  The invariant of a timer that was started at \<open>t0\<close> with the thread at the head of its loop and then
  left alone: after \<open>k\<close> calls of the callback the clock is past \<open>k\<close> periods.
\<close>

definition on_schedule :: "nat \<Rightarrow> nat \<Rightarrow> nat \<Rightarrow> esp_timer \<Rightarrow> bool" where
  "on_schedule t0 p now t \<longleftrightarrow>
    etAlive t \<and> unat (etPeriod t) = p \<and> 0 \<le> etFireCount t \<and>
    t0 + nat (etFireCount t) * p \<le> now \<and>
    (\<not> etPeriodic t \<longrightarrow> etFireCount t = (if etRunning t then 0 else 1)) \<and>
    (etPeriodic t \<longrightarrow> etRunning t) \<and>
    (case etThread t of
       AtLoop \<Rightarrow> True | Ended \<Rightarrow> False
     | Asleep d \<Rightarrow> etRunning t \<and> t0 + (nat (etFireCount t) + 1) * p \<le> d)"

lemma on_schedule_step:
  assumes "on_schedule t0 p now t" "now \<le> now'"
  shows "on_schedule t0 p now' (the (thread_step Some now' t))"
  using assms
  by (auto simp: on_schedule_def thread_step_Some nat_add_distrib split: thread_state.splits if_splits)

lemma on_schedule_run:
  "on_schedule t0 p now t \<Longrightarrow> sorted (now # ns) \<Longrightarrow> on_schedule t0 p (last (now # ns)) (thread_run ns t)"
proof (induction ns arbitrary: now t)
  case (Cons n ns)
  then have "on_schedule t0 p n (the (thread_step Some n t))"
    using on_schedule_step by auto
  with Cons show ?case by auto
qed simp

text \<open>
  A timer is never early. After a start of an idle timer at \<open>t0\<close>, whenever its thread runs, a
  callback count of \<open>k\<close> means that at least \<open>k\<close> periods have passed, and a one-shot timer has
  fired at most once and not at all before its timeout.
\<close>

theorem esp_timer_never_early:
  assumes "etThread t = AtLoop" "etAlive t" "etFireCount t = 0" "sorted (t0 # ns)"
    and "t' = thread_run ns (if periodic then start_periodic p t else start_once p t)"
  shows "0 \<le> etFireCount t' \<and> t0 + nat (etFireCount t') * unat p \<le> last (t0 # ns) \<and>
    (\<not> periodic \<longrightarrow> etFireCount t' \<le> 1)"
proof -
  have "on_schedule t0 (unat p) t0 (if periodic then start_periodic p t else start_once p t)"
    using assms(1-3) by (simp add: on_schedule_def start_periodic_def start_once_def)
  from on_schedule_run [OF this assms(4)] have s: "on_schedule t0 (unat p) (last (t0 # ns)) t'"
    using assms(5) by simp
  have "etPeriodic (thread_run ns t) = etPeriodic t" for t
    by (induction ns arbitrary: t) (simp_all add: thread_step_Some split: thread_state.splits)
  then have "etPeriodic t' = periodic"
    using assms(5) by (simp add: start_periodic_def start_once_def)
  with s show ?thesis
    by (auto simp: on_schedule_def)
qed

definition demo_esp_timer :: "thread_state \<Rightarrow> esp_timer" where
  "demo_esp_timer th = \<lparr>etCallback = 1, etArg = 0, etName = ''t'', etRunning = False, etAlive = True,
    etPeriodic = False, etPeriod = 10, etThread = th, etFireCount = 0\<rparr>"

lemma demo_esp_timer_simps [simp]:
  "etThread (demo_esp_timer th) = th" "etAlive (demo_esp_timer th)" "etFireCount (demo_esp_timer th) = 0"
  by (simp_all add: demo_esp_timer_def)

theorem esp_timer_never_early_witness:
  "100 + nat (etFireCount (thread_run [150, 260, 270, 400] (start_periodic 100 (demo_esp_timer AtLoop)))) * 100
    \<le> (400 :: nat)"
  using esp_timer_never_early [of "demo_esp_timer AtLoop" 100 "[150, 260, 270, 400]"
      "thread_run [150, 260, 270, 400] (start_periodic 100 (demo_esp_timer AtLoop))" True 100]
  by simp

text \<open>A one-shot timer that has fired, and a stopped timer, stay silent.\<close>

lemma stopped_silent:
  "\<not> etRunning t \<Longrightarrow> \<not> etRunning (thread_run ns t) \<and> etFireCount (thread_run ns t) = etFireCount t"
  by (induction ns arbitrary: t) (auto simp: thread_step_Some split: thread_state.splits)

lemma waiting_thread:
  "\<forall>n \<in> set ns. n < d \<Longrightarrow> etThread t = Asleep d \<Longrightarrow> thread_run ns t = t"
  by (induction ns) (simp_all add: thread_step_Some)

text \<open>
  A one-shot timer fires exactly once. When the thread is scheduled at some \<open>n1\<close> after the start,
  then any number of times before the timeout counted from there is over, and then again, the
  callback has run once, and it does not run again however long the thread goes on.
\<close>

theorem esp_timer_once_fires_once:
  assumes "etThread t = AtLoop" "etAlive t" "\<forall>n \<in> set ns. n < n1 + unat p" "n1 + unat p \<le> n2"
  shows "etFireCount (thread_run (n1 # ns @ n2 # ms) (start_once p t)) = etFireCount t + 1 \<and>
    \<not> etRunning (thread_run (n1 # ns @ n2 # ms) (start_once p t))"
proof -
  let ?t1 = "(start_once p t)\<lparr>etThread := Asleep (n1 + unat p)\<rparr>"
  let ?t2 = "?t1\<lparr>etFireCount := etFireCount t + 1, etRunning := False, etThread := AtLoop\<rparr>"
  have "thread_run (n1 # ns @ n2 # ms) (start_once p t) =
      thread_run ms (the (thread_step Some n2 (thread_run ns ?t1)))"
    using assms(1,2) by (simp add: thread_step_Some start_once_def)
  also have "\<dots> = thread_run ms ?t2"
    using assms(2-4) waiting_thread [of ns "n1 + unat p" ?t1]
    by (simp add: thread_step_Some start_once_def)
  finally show ?thesis
    using stopped_silent [of ?t2 ms] by simp
qed

theorem esp_timer_once_fires_once_witness:
  "etFireCount (thread_run [5, 10, 30, 90] (start_once 20 (demo_esp_timer AtLoop))) = 1"
  using esp_timer_once_fires_once [of "demo_esp_timer AtLoop" "[10]" 5 20 30 "[90]"] by simp

text \<open>
  A restarted timer can be early. A timer that is stopped and started again while its thread
  sleeps keeps the old wake-up time: the callback of the new start runs then, whatever the new
  timeout is.
\<close>

theorem esp_timer_restart_early:
  assumes "etThread t = Asleep d" "etAlive t" "d \<le> now"
  shows "etFireCount (the (thread_step Some now (start_once timeout (stop_timer t)))) = etFireCount t + 1"
  using assms by (simp add: thread_step_Some start_once_def stop_timer_def)

theorem esp_timer_restart_early_witness:
  "etFireCount (the (thread_step Some 10 (start_once 1000000 (stop_timer (demo_esp_timer (Asleep 10)))))) = 1"
  using esp_timer_restart_early [of "demo_esp_timer (Asleep 10)" 10 10 1000000] by simp

end
