(* ===== verification/Event_Group.thy ===== *)
theory Event_Group
  imports Interfaces
begin

unbundle bit_operations_syntax

text \<open>
  FreeRTOS event groups, \<open>src/include/freertos/event_groups.h\<close>: 32 flags behind a mutex and
  a condition variable. The lemmas give the exact result of a wait on every path, and analyse
  the rendezvous \<open>xEventGroupSync\<close> as a step relation over the two critical sections
  each task performs: the barrier lets exactly one task through.
\<close>

section \<open>Operations\<close>

type_synonym event_bits = u32

record event_group =
  bits :: event_bits

definition xEventGroupCreate :: event_group where
  "xEventGroupCreate = \<lparr>bits = 0\<rparr>"

definition xEventGroupSetBits :: "event_group \<Rightarrow> event_bits \<Rightarrow> event_bits \<times> event_group" where
  "xEventGroupSetBits eg uxBitsToSet =
    (let eg' = eg\<lparr>bits := bits eg OR uxBitsToSet\<rparr> in (bits eg', eg'))"

definition xEventGroupClearBits :: "event_group \<Rightarrow> event_bits \<Rightarrow> event_bits \<times> event_group" where
  "xEventGroupClearBits eg uxBitsToClear =
    (bits eg, eg\<lparr>bits := bits eg AND NOT uxBitsToClear\<rparr>)"

definition xEventGroupGetBits :: "event_group \<Rightarrow> event_bits" where
  "xEventGroupGetBits eg = bits eg"

definition event_predicate :: "event_bits \<Rightarrow> bool \<Rightarrow> event_group \<Rightarrow> bool" where
  "event_predicate uxBitsToWaitFor xWaitForAllBits eg \<longleftrightarrow>
    (if xWaitForAllBits then bits eg AND uxBitsToWaitFor = uxBitsToWaitFor
     else bits eg AND uxBitsToWaitFor \<noteq> 0)"

text \<open>After the wait, in the same critical section: the result, and the bits cleared on exit.\<close>

definition event_wait_finish ::
  "event_group \<Rightarrow> event_bits \<Rightarrow> bool \<Rightarrow> bool \<Rightarrow> event_bits \<times> event_group" where
  "event_wait_finish eg uxBitsToWaitFor xClearOnExit xWaitForAllBits =
    (bits eg,
     if event_predicate uxBitsToWaitFor xWaitForAllBits eg \<and> xClearOnExit
     then eg\<lparr>bits := bits eg AND NOT uxBitsToWaitFor\<rparr> else eg)"

text \<open>\<open>env\<close> is what the other threads do while the lock is released; \<open>None\<close> is a caller that
  stays blocked.\<close>

definition xEventGroupWaitBits ::
  "(nat \<Rightarrow> event_group \<Rightarrow> event_group) \<Rightarrow> event_group \<Rightarrow> event_bits \<Rightarrow> bool \<Rightarrow> bool \<Rightarrow> u32 \<Rightarrow>
   (event_bits \<times> event_group) option" where
  "xEventGroupWaitBits env eg uxBitsToWaitFor xClearOnExit xWaitForAllBits xTicksToWait =
    (let p = event_predicate uxBitsToWaitFor xWaitForAllBits;
         finish = (\<lambda>e. event_wait_finish e uxBitsToWaitFor xClearOnExit xWaitForAllBits)
     in if xTicksToWait = portMAX_DELAY then map_option finish (wait_forever p (env 0) eg)
        else if xTicksToWait > 0 then Some (finish (snd (wait_for p env (unat xTicksToWait) eg)))
        else Some (finish eg))"

definition vEventGroupDelete :: "nat \<Rightarrow> (nat \<rightharpoonup> event_group) \<Rightarrow> (nat \<rightharpoonup> event_group)" where
  "vEventGroupDelete xEventGroup hp = hp(xEventGroup := None)"

definition xEventGroupSync ::
  "(nat \<Rightarrow> event_group \<Rightarrow> event_group) \<Rightarrow> event_group \<Rightarrow> event_bits \<Rightarrow> event_bits \<Rightarrow> u32 \<Rightarrow>
   (event_bits \<times> event_group) option" where
  "xEventGroupSync env eg uxBitsToSet uxBitsToWaitFor xTicksToWait =
    xEventGroupWaitBits env (snd (xEventGroupSetBits eg uxBitsToSet)) uxBitsToWaitFor True True
      xTicksToWait"

section \<open>Bits\<close>

lemma and_not_self [simp]: "(a AND NOT w) AND w = (0 :: 'a::len word)"
  by (rule bit_word_eqI) (auto simp: bit_simps)

lemma and_or_absorb: "(a OR b) AND b = (b :: 'a::len word)"
  by (rule bit_word_eqI) (auto simp: bit_simps)

lemma or_and_zero: "(a OR b) AND c = (0 :: 'a::len word) \<longleftrightarrow> a AND c = 0 \<and> b AND c = 0"
  by (auto simp: bit_eq_iff bit_simps)

lemma and_or_distrib_word: "a AND (b OR c) = ((a AND b) OR (a AND c) :: 'a::len word)"
  by (rule bit_word_eqI) (auto simp: bit_simps)

section \<open>The rendezvous as a step relation\<close>

text \<open>
  Each task calls \<open>xEventGroupSync\<close> once with its own bit and the common mask \<open>w\<close>. Its
  two critical sections are the steps: \<open>arrive\<close> is \<open>xEventGroupSetBits\<close>, \<open>pass\<close> is
  the exit of the wait, taken only when the predicate holds (a blocked task takes no step).
\<close>

datatype sync_pc = SyncIdle | SyncWaiting | SyncDone

record rendezvous =
  group :: event_group
  pc :: "nat \<Rightarrow> sync_pc"

definition rendezvous_init :: rendezvous where
  "rendezvous_init = \<lparr>group = xEventGroupCreate, pc = (\<lambda>_. SyncIdle)\<rparr>"

inductive sync_step :: "(nat \<Rightarrow> event_bits) \<Rightarrow> nat \<Rightarrow> event_bits \<Rightarrow> rendezvous \<Rightarrow> rendezvous \<Rightarrow> bool"
  for own :: "nat \<Rightarrow> event_bits" and n :: nat and w :: event_bits where
  arrive: "i < n \<Longrightarrow> pc s i = SyncIdle \<Longrightarrow>
    sync_step own n w s
      (s\<lparr>group := snd (xEventGroupSetBits (group s) (own i)), pc := (pc s)(i := SyncWaiting)\<rparr>)"
| pass: "i < n \<Longrightarrow> pc s i = SyncWaiting \<Longrightarrow> event_predicate w True (group s) \<Longrightarrow>
    sync_step own n w s
      (s\<lparr>group := snd (event_wait_finish (group s) w True True), pc := (pc s)(i := SyncDone)\<rparr>)"

inductive_cases sync_stepE: "sync_step own n w s t"

definition sync_masks :: "(nat \<Rightarrow> event_bits) \<Rightarrow> nat \<Rightarrow> event_bits \<Rightarrow> bool" where
  "sync_masks own n w \<longleftrightarrow>
    (\<forall>i<n. own i \<noteq> 0 \<and> own i AND w = own i) \<and>
    (\<forall>i<n. \<forall>j<n. i \<noteq> j \<longrightarrow> own i AND own j = 0)"

definition sync_inv :: "(nat \<Rightarrow> event_bits) \<Rightarrow> nat \<Rightarrow> event_bits \<Rightarrow> rendezvous \<Rightarrow> bool" where
  "sync_inv own n w s \<longleftrightarrow>
    (\<forall>i<n. pc s i = SyncIdle \<longrightarrow> bits (group s) AND own i = 0) \<and>
    ((\<exists>i<n. pc s i = SyncDone) \<longrightarrow>
      bits (group s) AND w = 0 \<and> (\<forall>i<n. pc s i \<noteq> SyncIdle)) \<and>
    (\<forall>i<n. \<forall>j<n. pc s i = SyncDone \<longrightarrow> pc s j = SyncDone \<longrightarrow> i = j)"

lemma sub_mask_nonzero:
  assumes "(b :: event_bits) AND w = w" "own AND w = own" "own \<noteq> 0"
  shows "b AND own \<noteq> 0"
proof -
  have "b AND own = b AND (w AND own)" using assms(2) by (simp add: and.commute)
  also have "\<dots> = (b AND w) AND own" by (simp add: and.assoc)
  also have "\<dots> = own" using assms(1,2) by (simp add: and.commute)
  finally show ?thesis using assms(3) by simp
qed

lemma sync_inv_init: "sync_inv own n w rendezvous_init"
  by (simp add: sync_inv_def rendezvous_init_def xEventGroupCreate_def)

lemma sync_inv_arrive:
  assumes "sync_masks own n w" "sync_inv own n w s" "i < n" "pc s i = SyncIdle"
  shows "sync_inv own n w
    (s\<lparr>group := snd (xEventGroupSetBits (group s) (own i)), pc := (pc s)(i := SyncWaiting)\<rparr>)"
proof -
  have nodone: "\<not> (\<exists>j<n. pc s j = SyncDone)"
    using assms(2-4) by (auto simp: sync_inv_def)
  have "(bits (group s) OR own i) AND own j = 0" if "j < n" "j \<noteq> i" "pc s j = SyncIdle" for j
    using assms that by (auto simp: sync_inv_def sync_masks_def or_and_zero)
  with nodone show ?thesis
    by (auto simp: sync_inv_def xEventGroupSetBits_def Let_def)
qed

lemma sync_predicate_all_arrived:
  assumes "sync_masks own n w" "sync_inv own n w s" "event_predicate w True (group s)"
  shows "\<forall>j<n. pc s j \<noteq> SyncIdle"
  using assms sub_mask_nonzero [of "bits (group s)" w]
  by (auto simp: sync_inv_def sync_masks_def event_predicate_def)

lemma sync_predicate_none_done:
  assumes "sync_masks own n w" "sync_inv own n w s" "event_predicate w True (group s)" "j < n"
  shows "pc s j \<noteq> SyncDone"
proof
  assume "pc s j = SyncDone"
  with assms have "bits (group s) AND w = 0" "bits (group s) AND w = w"
    by (auto simp: sync_inv_def event_predicate_def)
  then have "w = 0" by simp
  with assms(1,4) show False by (auto simp: sync_masks_def)
qed

lemma sync_inv_pass:
  assumes "sync_masks own n w" "sync_inv own n w s" "i < n" "event_predicate w True (group s)"
  shows "sync_inv own n w
    (s\<lparr>group := snd (event_wait_finish (group s) w True True), pc := (pc s)(i := SyncDone)\<rparr>)"
  using sync_predicate_all_arrived [OF assms(1,2,4)] sync_predicate_none_done [OF assms(1,2,4)]
    assms(4)
  by (auto simp: sync_inv_def event_wait_finish_def)

lemma sync_reach_inv:
  assumes "(sync_step own n w)\<^sup>*\<^sup>* rendezvous_init s" "sync_masks own n w"
  shows "sync_inv own n w s"
  using assms(1)
proof (induction rule: rtranclp_induct)
  case base
  show ?case by (rule sync_inv_init)
next
  case (step s t)
  from step.hyps(2) show ?case
    by (rule sync_stepE)
       (auto intro: sync_inv_arrive sync_inv_pass step.IH assms(2))
qed

section \<open>The wait\<close>

lemma event_wait_at:
  assumes "xEventGroupWaitBits env eg w clr all_bits t = Some x"
  obtains e where "e = eg \<or> (\<exists>ms. e = env ms eg)"
    "t = portMAX_DELAY \<longrightarrow> event_predicate w all_bits e"
    "event_wait_finish e w clr all_bits = x"
proof (cases "event_predicate w all_bits eg \<or> t = 0")
  case True
  with assms that [of eg] show ?thesis
    by (auto simp: xEventGroupWaitBits_def wait_forever_def wait_for_def Let_def split: if_splits)
next
  case False
  with assms that [of "env 0 eg"] that [of "env (unat t) eg"] show ?thesis
    by (cases "t = portMAX_DELAY")
       (auto simp: xEventGroupWaitBits_def wait_forever_def wait_for_def Let_def word_gt_0
             split: if_splits)
qed

lemma event_wait_finish_bits:
  assumes "event_wait_finish e w clr all_bits = (r, eg')"
  shows "r = bits e"
    and "bits eg' = (if event_predicate w all_bits e \<and> clr then bits e AND NOT w else bits e)"
    and "bits eg' AND NOT w = bits e AND NOT w"
  using assms by (auto simp: event_wait_finish_def and.assoc)

section \<open>Properties\<close>

text \<open>
  C13: the result of a wait that returns. It is the value of the flags at the end of the wait; the
  waited-for bits are cleared exactly when the condition then holds and clearing was asked for,
  and no other bit changes. A caller that waits without a timeout returns only with the condition
  true.
\<close>

theorem event_wait_result:
  assumes "xEventGroupWaitBits env eg w clr all_bits t = Some (r, eg')"
  shows "\<exists>e. (e = eg \<or> (\<exists>ms. e = env ms eg)) \<and> r = bits e \<and>
    (t = portMAX_DELAY \<longrightarrow> event_predicate w all_bits e) \<and>
    bits eg' = (if event_predicate w all_bits e \<and> clr then bits e AND NOT w else bits e) \<and>
    bits eg' AND NOT w = bits e AND NOT w"
proof -
  obtain e where e: "e = eg \<or> (\<exists>ms. e = env ms eg)"
      "t = portMAX_DELAY \<longrightarrow> event_predicate w all_bits e"
      "event_wait_finish e w clr all_bits = (r, eg')"
    using assms by (rule event_wait_at)
  then show ?thesis
    using event_wait_finish_bits [OF e(3)] by blast
qed

theorem event_wait_result_witness:
  "\<exists>e. (e = \<lparr>bits = 3\<rparr> \<or> (\<exists>ms. e = env_idle ms \<lparr>bits = 3\<rparr>)) \<and> (3 :: event_bits) = bits e \<and>
    ((0 :: u32) = portMAX_DELAY \<longrightarrow> event_predicate 1 True e) \<and>
    bits \<lparr>bits = 2\<rparr> = (if event_predicate 1 True e \<and> True then bits e AND NOT 1 else bits e) \<and>
    bits \<lparr>bits = 2\<rparr> AND NOT 1 = bits e AND NOT 1"
  by (rule event_wait_result)
     (simp add: xEventGroupWaitBits_def event_wait_finish_def event_predicate_def)

text \<open>
  C14: the barrier lets one task through. When tasks with distinct bits rendezvous with
  \<open>xEventGroupSync\<close>, and wait for ever, then in every reachable state where one task has returned, all the others
  are blocked and no task can take another step: the first to wake has cleared the bits the others
  wait for.
\<close>

theorem sync_barrier_releases_one:
  assumes "(sync_step own n w)\<^sup>*\<^sup>* rendezvous_init s" "sync_masks own n w"
    and "i < n" "pc s i = SyncDone"
  shows "(\<forall>j<n. j \<noteq> i \<longrightarrow> pc s j = SyncWaiting) \<and> \<not> sync_step own n w s t"
proof -
  note inv = sync_reach_inv [OF assms(1,2)]
  then have "pc s j = SyncWaiting" if "j < n" "j \<noteq> i" for j
    using assms(3,4) that by (cases "pc s j") (auto simp: sync_inv_def)
  moreover have "\<not> sync_step own n w s t"
  proof
    assume "sync_step own n w s t"
    then show False
      by (rule sync_stepE)
         (use inv assms sync_predicate_none_done [OF assms(2) inv] in \<open>auto simp: sync_inv_def\<close>)
  qed
  ultimately show ?thesis by blast
qed

definition sync_demo_own :: "nat \<Rightarrow> event_bits" where
  "sync_demo_own i = (if i = 0 then 1 else 2)"

definition sync_demo_end :: rendezvous where
  "sync_demo_end = \<lparr>group = \<lparr>bits = 0\<rparr>,
     pc = (\<lambda>i. if i = 0 then SyncDone else if i = 1 then SyncWaiting else SyncIdle)\<rparr>"

lemma sync_demo_masks: "sync_masks sync_demo_own 2 3"
  by (auto simp: sync_masks_def sync_demo_own_def less_2_cases_iff)

lemma sync_demo_reach: "(sync_step sync_demo_own 2 3)\<^sup>*\<^sup>* rendezvous_init sync_demo_end"
proof -
  let ?a = "\<lparr>group = \<lparr>bits = 1\<rparr>, pc = (\<lambda>_. SyncIdle)(0 := SyncWaiting)\<rparr>"
  let ?b = "\<lparr>group = \<lparr>bits = 3\<rparr>, pc = ((\<lambda>_. SyncIdle)(0 := SyncWaiting))(1 := SyncWaiting)\<rparr>"
  have "sync_step sync_demo_own 2 3 rendezvous_init ?a"
    using sync_step.arrive [of 0 2 rendezvous_init sync_demo_own 3]
    by (simp add: rendezvous_init_def xEventGroupCreate_def xEventGroupSetBits_def sync_demo_own_def)
  moreover have "sync_step sync_demo_own 2 3 ?a ?b"
    using sync_step.arrive [of 1 2 ?a sync_demo_own 3]
    by (simp add: xEventGroupSetBits_def sync_demo_own_def)
  moreover have "sync_step sync_demo_own 2 3 ?b sync_demo_end"
  proof -
    have "sync_step sync_demo_own 2 3 ?b
        (?b\<lparr>group := snd (event_wait_finish (group ?b) 3 True True), pc := (pc ?b)(0 := SyncDone)\<rparr>)"
      by (rule sync_step.pass) (simp_all add: event_predicate_def)
    moreover have "(pc ?b)(0 := SyncDone) = pc sync_demo_end"
      by (auto simp: sync_demo_end_def)
    ultimately show ?thesis
      by (simp add: event_predicate_def event_wait_finish_def sync_demo_end_def)
  qed
  ultimately show ?thesis
    by (rule converse_rtranclp_into_rtranclp [OF _ converse_rtranclp_into_rtranclp [OF _ r_into_rtranclp]])
qed

theorem sync_barrier_releases_one_witness:
  "pc sync_demo_end 0 = SyncDone \<and> pc sync_demo_end 1 = SyncWaiting \<and>
   (\<forall>t. \<not> sync_step sync_demo_own 2 3 sync_demo_end t)"
proof -
  have "pc sync_demo_end 0 = SyncDone"
    by (simp add: sync_demo_end_def)
  with sync_barrier_releases_one [OF sync_demo_reach sync_demo_masks, of 0] show ?thesis
    by simp
qed

end
