(* ===== verification/Event_Loop.thy ===== *)
theory Event_Loop
  imports Interfaces
begin

text \<open>
  The event loop of ESP-IDF, \<open>src/include/esp_event.h\<close>: a list of registered handlers and a
  \<open>post\<close> that copies the matching ones under the lock and calls the copies after it. Handlers
  are user code and may register, unregister and post themselves, so the model lets every call
  change the loop. The lemmas show that the dispatch is a snapshot in registration order, and what
  comparing event bases by pointer in one place and by content in another does.
\<close>

section \<open>State\<close>

text \<open>An \<open>esp_event_base_t\<close> is a C string: its address and what is stored there.\<close>

record cstr =
  addr :: nat
  chars :: string

type_synonym event_base = "cstr option"

abbreviation (input) "ESP_EVENT_ANY_BASE \<equiv> (None :: event_base)"
abbreviation (input) "ESP_EVENT_ANY_ID \<equiv> (- 1 :: int)"

record event_handler =
  evBase :: event_base
  evId :: int
  evFun :: nat
  evArg :: nat
  regId :: int

record event_loop =
  evHandlers :: "event_handler list"
  nextId :: int

definition event_loop_init :: event_loop where
  "event_loop_init = \<lparr>evHandlers = [], nextId = 1\<rparr>"

section \<open>Operations\<close>

definition registerHandler ::
  "event_loop \<Rightarrow> event_base \<Rightarrow> int \<Rightarrow> nat \<Rightarrow> nat \<Rightarrow> esp_err \<times> event_loop" where
  "registerHandler l base i handler arg =
    (ESP_OK,
     l\<lparr>evHandlers := evHandlers l @
         [\<lparr>evBase = base, evId = i, evFun = handler, evArg = arg, regId = nextId l\<rparr>],
       nextId := nextId l + 1\<rparr>)"

text \<open>Two pointers are equal when both are null or both have the same address.\<close>

definition unregisterHandler ::
  "event_loop \<Rightarrow> event_base \<Rightarrow> int \<Rightarrow> nat \<Rightarrow> esp_err \<times> event_loop" where
  "unregisterHandler l base i handler =
    (ESP_OK,
     l\<lparr>evHandlers := filter (\<lambda>h. \<not> (map_option addr (evBase h) = map_option addr base \<and>
         evId h = i \<and> evFun h = handler)) (evHandlers l)\<rparr>)"

definition event_matches :: "event_base \<Rightarrow> int \<Rightarrow> event_handler \<Rightarrow> bool" where
  "event_matches base i h \<longleftrightarrow>
    (evBase h = ESP_EVENT_ANY_BASE \<or>
      (case (base, evBase h) of (Some b, Some b') \<Rightarrow> chars b' = chars b | _ \<Rightarrow> False)) \<and>
    (evId h = ESP_EVENT_ANY_ID \<or> evId h = i)"

text \<open>
  \<open>call h base i data l\<close> is the loop after the handler's code ran; the second component is the
  sequence of handler calls made.
\<close>

definition event_post ::
  "(event_handler \<Rightarrow> event_base \<Rightarrow> int \<Rightarrow> 'd \<Rightarrow> event_loop \<Rightarrow> event_loop) \<Rightarrow>
   event_loop \<Rightarrow> event_base \<Rightarrow> int \<Rightarrow> 'd \<Rightarrow> esp_err \<times> event_handler list \<times> event_loop" where
  "event_post call l base i data =
    (let matching = filter (event_matches base i) (evHandlers l)
     in (ESP_OK, fold (\<lambda>h (calls, l). (calls @ [h], call h base i data l)) matching ([], l)))"

definition event_reset :: "event_loop \<Rightarrow> event_loop" where
  "event_reset l = l\<lparr>evHandlers := []\<rparr>"

definition handlerCount :: "event_loop \<Rightarrow> nat" where
  "handlerCount l = length (evHandlers l)"

definition esp_event_loop_create_default :: "event_loop \<Rightarrow> esp_err \<times> event_loop" where
  "esp_event_loop_create_default l = (ESP_OK, l)"

definition esp_event_loop_delete_default :: "event_loop \<Rightarrow> esp_err \<times> event_loop" where
  "esp_event_loop_delete_default l = (ESP_OK, event_reset l)"

section \<open>The loop as a state machine\<close>

datatype event_op =
    EvRegister event_base int nat nat
  | EvUnregister event_base int nat
  | EvPost event_base int
  | EvReset

text \<open>
  One operation; a post runs handlers whose code is, in turn, any list of operations other than
  another post (\<open>script\<close> gives it for each handler).
\<close>

fun event_simple_step :: "event_op \<Rightarrow> event_loop \<Rightarrow> event_loop" where
  "event_simple_step (EvRegister b i f a) l = snd (registerHandler l b i f a)"
| "event_simple_step (EvUnregister b i f) l = snd (unregisterHandler l b i f)"
| "event_simple_step (EvPost b i) l = l"
| "event_simple_step EvReset l = event_reset l"

fun event_step :: "(event_handler \<Rightarrow> event_op list) \<Rightarrow> event_op \<Rightarrow> event_loop \<Rightarrow> event_loop" where
  "event_step script (EvPost b i) l =
    snd (snd (event_post (\<lambda>h _ _ _ l. fold event_simple_step (script h) l) l b i ()))"
| "event_step script op l = event_simple_step op l"

text \<open>Handlers stand in registration order, every one with a number of its own.\<close>

definition event_inv :: "event_loop \<Rightarrow> bool" where
  "event_inv l \<longleftrightarrow> sorted_wrt (<) (map regId (evHandlers l)) \<and>
    (\<forall>h\<in>set (evHandlers l). regId h < nextId l)"

lemma event_post_calls:
  "fst (fold (\<lambda>h (calls, l). (calls @ [h], g h l)) hs (cs, l)) = cs @ hs"
  by (induction hs arbitrary: cs l) auto

lemma event_post_state:
  "snd (fold (\<lambda>h (calls, l). (calls @ [h], g h l)) hs (cs, l)) = fold g hs l"
  by (induction hs arbitrary: cs l) auto

lemma event_post_eq:
  "event_post call l base i data =
    (let hs = filter (event_matches base i) (evHandlers l)
     in (ESP_OK, hs, fold (\<lambda>h. call h base i data) hs l))"
  using event_post_calls [of "\<lambda>h. call h base i data" _ "[]"]
    event_post_state [of "\<lambda>h. call h base i data" _ "[]"]
  by (simp add: event_post_def Let_def prod_eq_iff)

lemma event_inv_init: "event_inv event_loop_init"
  by (simp add: event_inv_def event_loop_init_def)

lemma event_inv_register: "event_inv l \<Longrightarrow> event_inv (snd (registerHandler l b i f a))"
  by (auto simp: event_inv_def registerHandler_def sorted_wrt_append)

lemma event_inv_filter: "event_inv l \<Longrightarrow> event_inv (l\<lparr>evHandlers := filter P (evHandlers l)\<rparr>)"
proof -
  assume l: "event_inv l"
  have "sorted_wrt (<) (map regId (filter P hs))" if "sorted_wrt (<) (map regId hs)" for hs
    using that by (induction hs) auto
  with l show ?thesis
    by (auto simp: event_inv_def)
qed

lemma event_inv_simple_step: "event_inv l \<Longrightarrow> event_inv (event_simple_step op l)"
proof (cases op)
  case (EvUnregister b i f)
  then show "event_inv l \<Longrightarrow> ?thesis"
    by (simp add: unregisterHandler_def event_inv_filter)
next
  case EvReset
  then show ?thesis
    by (simp add: event_reset_def event_inv_def)
qed (simp_all add: event_inv_register)

lemma event_inv_fold: "event_inv l \<Longrightarrow> event_inv (fold event_simple_step ops l)"
  by (induction ops arbitrary: l) (auto simp: event_inv_simple_step)

lemma event_inv_step: "event_inv l \<Longrightarrow> event_inv (event_step script op l)"
proof (cases op)
  case (EvPost b i)
  have "event_inv (fold (\<lambda>h. fold event_simple_step (script h)) hs l)" if "event_inv l" for hs
    using that by (induction hs arbitrary: l) (auto simp: event_inv_fold)
  then show "event_inv l \<Longrightarrow> ?thesis"
    using EvPost by (simp add: event_post_eq Let_def)
qed (simp_all add: event_inv_simple_step event_inv_register del: event_simple_step.simps)

interpretation event_hist: step_system "\<lambda>l. l = event_loop_init" "\<lambda>_. True" "event_step script" event_inv
  for script
  by unfold_locales (auto simp: event_inv_init event_inv_step)

lemma unregister_keeps_others:
  "map_option addr (evBase h) \<noteq> map_option addr base \<Longrightarrow> h \<in> set (evHandlers l) \<Longrightarrow>
   h \<in> set (evHandlers (snd (unregisterHandler l base i f)))"
  by (simp add: unregisterHandler_def)

section \<open>Properties\<close>

text \<open>
  Dispatch is a snapshot in registration order. After any history of registrations,
  unregistrations, resets and posts, a post calls exactly the handlers registered at that moment
  whose base and id match, each once and in the order they were registered, whatever those handlers
  do to the loop while they run.
\<close>

theorem event_dispatch_snapshot:
  assumes "event_post call (fold (event_step script) ops event_loop_init) base i data = (r, calls, l')"
  shows "r = ESP_OK \<and>
    set calls = {h \<in> set (evHandlers (fold (event_step script) ops event_loop_init)).
      event_matches base i h} \<and>
    sorted_wrt (<) (map regId calls) \<and> distinct calls"
proof -
  let ?l = "fold (event_step script) ops event_loop_init"
  have inv: "event_inv (?l\<lparr>evHandlers := filter (event_matches base i) (evHandlers ?l)\<rparr>)"
    by (rule event_inv_filter) (rule event_hist.inv_run; simp add: list_all_iff)
  have calls: "calls = filter (event_matches base i) (evHandlers ?l)" and r: "r = ESP_OK"
    using assms by (simp_all add: event_post_eq Let_def)
  from inv have sorted: "sorted_wrt (<) (map regId calls)"
    by (simp add: event_inv_def calls)
  then have "distinct (map regId calls)"
    by (simp add: strict_sorted_iff)
  with sorted show ?thesis
    by (auto simp: calls r distinct_map)
qed

theorem event_dispatch_snapshot_witness:
  "\<exists>calls l'. event_post (\<lambda>_ _ _ _ _. event_loop_init)
     (fold (event_step (\<lambda>_. [])) [EvRegister None (- 1) 7 0, EvRegister None 3 8 0] event_loop_init)
     None 4 () = (ESP_OK, calls, l') \<and> distinct calls"
proof -
  obtain r calls l' where p: "event_post (\<lambda>_ _ _ _ _. event_loop_init)
     (fold (event_step (\<lambda>_. [])) [EvRegister None (- 1) 7 0, EvRegister None 3 8 0] event_loop_init)
     None 4 () = (r, calls, l')"
    by (metis prod_cases3)
  with event_dispatch_snapshot [OF p] show ?thesis
    by blast
qed

text \<open>
  Unregistering compares the address of the base, posting compares its characters. A handler
  registered for a base stays registered, and is still called for that base, after an
  unregistration with an equal string at another address, which nevertheless returns success.
\<close>

theorem unregister_other_copy_ignored:
  assumes "chars b' = chars b" "addr b' \<noteq> addr b"
  shows "\<exists>l1 l2 h. registerHandler l (Some b) i f a = (ESP_OK, l1) \<and>
    unregisterHandler l1 (Some b') i f = (ESP_OK, l2) \<and>
    evFun h = f \<and> evArg h = a \<and>
    h \<in> set (fst (snd (event_post call l2 (Some b') i data)))"
proof -
  let ?h = "\<lparr>evBase = Some b, evId = i, evFun = f, evArg = a, regId = nextId l\<rparr>"
  let ?l2 = "snd (unregisterHandler (snd (registerHandler l (Some b) i f a)) (Some b') i f)"
  have "?h \<in> set (evHandlers ?l2)"
    by (rule unregister_keeps_others) (use assms(2) in \<open>simp_all add: registerHandler_def\<close>)
  then have "?h \<in> set (fst (snd (event_post call ?l2 (Some b') i data)))"
    using assms(1) by (simp add: event_post_eq Let_def event_matches_def)
  then show ?thesis
    by (force simp: registerHandler_def unregisterHandler_def)
qed

theorem unregister_other_copy_ignored_witness:
  "\<exists>l1 l2 h. registerHandler event_loop_init (Some \<lparr>addr = 16, chars = ''WIFI_EVENT''\<rparr>) 2 5 0 = (ESP_OK, l1) \<and>
    unregisterHandler l1 (Some \<lparr>addr = 64, chars = ''WIFI_EVENT''\<rparr>) 2 5 = (ESP_OK, l2) \<and>
    evFun h = 5 \<and> evArg h = 0 \<and>
    h \<in> set (fst (snd (event_post (\<lambda>_ _ _ _ l. l) l2 (Some \<lparr>addr = 64, chars = ''WIFI_EVENT''\<rparr>) 2 ())))"
  by (rule unregister_other_copy_ignored) simp_all

end
