(* ===== verification/Gpio_Driver.thy ===== *)
theory Gpio_Driver
  imports Interfaces
begin

text \<open>
  The ESP-IDF pin driver of \<open>src/include/driver/gpio.h\<close>: a level, an interrupt type and a handler per
  pin, under one lock. The lemmas say when a handler is called, and show the two places where
  the code does more than it means to: the lock is released twice, and resetting one pin resets all.
\<close>

section \<open>State\<close>

abbreviation (input) "GPIO_INTR_DISABLE \<equiv> (0 :: int)"
abbreviation (input) "GPIO_INTR_POSEDGE \<equiv> (1 :: int)"
abbreviation (input) "GPIO_INTR_NEGEDGE \<equiv> (2 :: int)"
abbreviation (input) "GPIO_INTR_ANYEDGE \<equiv> (3 :: int)"

record gd_pin =
  gdMode :: int
  gdLevel :: int
  gdIntr :: int
  gdHandler :: "nat option"
  gdArg :: nat

definition gd_default :: gd_pin where
  "gd_default = \<lparr>gdMode = 0, gdLevel = 0, gdIntr = GPIO_INTR_DISABLE, gdHandler = None, gdArg = 0\<rparr>"

type_synonym gpio_driver = "int \<rightharpoonup> gd_pin"

text \<open>\<open>pins_[pin]\<close> makes the entry when there is none.\<close>

definition gd_of :: "gpio_driver \<Rightarrow> int \<Rightarrow> gd_pin" where
  "gd_of g pin = (case g pin of None \<Rightarrow> gd_default | Some p \<Rightarrow> p)"

section \<open>Operations\<close>

definition gpio_set_direction :: "gpio_driver \<Rightarrow> int \<Rightarrow> int \<Rightarrow> esp_err \<times> gpio_driver" where
  "gpio_set_direction g pin mode = (ESP_OK, g(pin \<mapsto> gd_of g pin\<lparr>gdMode := mode\<rparr>))"

definition gpio_get_level :: "gpio_driver \<Rightarrow> int \<Rightarrow> int \<times> gpio_driver" where
  "gpio_get_level g pin = (gdLevel (gd_of g pin), g(pin \<mapsto> gd_of g pin))"

definition gpio_set_intr_type :: "gpio_driver \<Rightarrow> int \<Rightarrow> int \<Rightarrow> esp_err \<times> gpio_driver" where
  "gpio_set_intr_type g pin type = (ESP_OK, g(pin \<mapsto> gd_of g pin\<lparr>gdIntr := type\<rparr>))"

definition gpio_isr_handler_add :: "gpio_driver \<Rightarrow> int \<Rightarrow> nat option \<Rightarrow> nat \<Rightarrow> esp_err \<times> gpio_driver" where
  "gpio_isr_handler_add g pin handler arg =
    (ESP_OK, g(pin \<mapsto> gd_of g pin\<lparr>gdHandler := handler, gdArg := arg\<rparr>))"

definition gpio_isr_handler_remove :: "gpio_driver \<Rightarrow> int \<Rightarrow> esp_err \<times> gpio_driver" where
  "gpio_isr_handler_remove g pin = (ESP_OK, g(pin \<mapsto> gd_of g pin\<lparr>gdHandler := None, gdArg := 0\<rparr>))"

definition gpio_set_pull_mode :: "gpio_driver \<Rightarrow> int \<Rightarrow> int \<Rightarrow> esp_err \<times> gpio_driver" where
  "gpio_set_pull_mode g pin mode = (ESP_OK, g)"

definition gpio_reset_pin :: "gpio_driver \<Rightarrow> int \<Rightarrow> esp_err \<times> gpio_driver" where
  "gpio_reset_pin g pin = (ESP_OK, Map.empty)"

text \<open>Whether \<open>setLevel\<close> calls the handler: the entry of the pin after and the level before.\<close>

definition gd_fires :: "gd_pin \<Rightarrow> int \<Rightarrow> bool" where
  "gd_fires s old \<longleftrightarrow> gdHandler s \<noteq> None \<and> gdIntr s \<noteq> GPIO_INTR_DISABLE \<and>
    (gdIntr s = GPIO_INTR_POSEDGE \<and> old = 0 \<and> gdLevel s = 1 \<or>
     gdIntr s = GPIO_INTR_NEGEDGE \<and> old = 1 \<and> gdLevel s = 0 \<or>
     gdIntr s = GPIO_INTR_ANYEDGE \<and> old \<noteq> gdLevel s)"

text \<open>
  A mutex: unlocking one that is not held is undefined and gives \<open>None\<close>. \<open>std::lock_guard\<close> locks
  where it is made and unlocks in its destructor.
\<close>

definition lock :: "bool \<Rightarrow> bool option" where
  "lock held = (if held then None else Some True)"

definition unlock :: "bool \<Rightarrow> bool option" where
  "unlock held = (if held then Some False else None)"

text \<open>
  \<open>setLevel\<close> on a driver whose lock is free: the handler called (with its argument) and the
  outcome. Before it calls the handler the code runs the guard's destructor by hand,
  \<open>lk.~lock_guard()\<close>, and at the end of the function the guard is destroyed again.
\<close>

definition gpio_set_level ::
  "gpio_driver \<Rightarrow> int \<Rightarrow> u32 \<Rightarrow> (nat \<times> nat) option \<times> (esp_err \<times> gpio_driver) option" where
  "gpio_set_level g pin lvl =
    (let s = gd_of g pin;
         old = gdLevel s;
         s' = s\<lparr>gdLevel := (if lvl \<noteq> 0 then 1 else 0)\<rparr>;
         g' = g(pin \<mapsto> s');
         held = lock False
     in if gd_fires s' old
        then (Some (the (gdHandler s'), gdArg s'),
              case Option.bind (Option.bind held unlock) unlock of None \<Rightarrow> None | Some _ \<Rightarrow> Some (ESP_OK, g'))
        else (None, case Option.bind held unlock of None \<Rightarrow> None | Some _ \<Rightarrow> Some (ESP_OK, g')))"

section \<open>Properties\<close>

text \<open>
  An interrupt ends in undefined behaviour. Setting a level returns normally exactly when no
  handler is called; a pin set to a level reads it back. When the edge fits the interrupt type of
  a pin with a handler, the handler is called and the lock is then released a second time.
\<close>

theorem gpio_isr_unlocks_twice:
  "(case gpio_set_level g pin lvl of
      (None, r) \<Rightarrow> \<exists>g'. r = Some (ESP_OK, g') \<and> fst (gpio_get_level g' pin) = (if lvl \<noteq> 0 then 1 else 0)
    | (Some _, r) \<Rightarrow> r = None) \<and>
   (fst (gpio_set_level g pin lvl) \<noteq> None \<longleftrightarrow>
      gd_fires (gd_of g pin\<lparr>gdLevel := (if lvl \<noteq> 0 then 1 else 0)\<rparr>) (gdLevel (gd_of g pin)))"
  by (simp add: gpio_set_level_def lock_def unlock_def gpio_get_level_def gd_of_def Let_def)

text \<open>
  Resetting one pin resets all of them. After a reset of any pin, every pin, the others too,
  has the default mode, level and no handler.
\<close>

theorem gpio_reset_pin_resets_all: "gd_of (snd (gpio_reset_pin g pin)) other = gd_default"
  by (simp add: gpio_reset_pin_def gd_of_def)

end
