(* ===== verification/Gptimer.thy ===== *)
theory Gptimer
  imports Interfaces
begin

text \<open>
  The general purpose timer of \<open>src/include/driver/gptimer.h\<close>: enable/start protocol, the alarm, and
  the simulation of elapsed ticks, which counts and runs the alarm callback under the timer's mutex.
  The lemmas give the count and the number of alarms of a reloading timer.
\<close>

section \<open>State\<close>

datatype count_direction = GPTIMER_COUNT_DOWN | GPTIMER_COUNT_UP

record alarm_config =
  alarmCount :: u64
  reloadCount :: u64
  autoReloadOnAlarm :: bool

record gptimer =
  gtDirection :: count_direction
  gtAlarm :: alarm_config
  alarmEnabled :: bool
  gtRunning :: bool
  gtEnabled :: bool
  gtCount :: u64
  alarmCb :: "nat option"

section \<open>Operations\<close>

text \<open>A null handle is \<open>None\<close>; every call checks it first.\<close>

definition gptimer_new_timer :: "count_direction option \<Rightarrow> bool \<Rightarrow> esp_err \<times> gptimer option" where
  "gptimer_new_timer config ret_given =
    (case config of
       None \<Rightarrow> (ESP_ERR_INVALID_ARG, None)
     | Some d \<Rightarrow>
         if \<not> ret_given then (ESP_ERR_INVALID_ARG, None)
         else (ESP_OK, Some \<lparr>gtDirection = d,
                gtAlarm = \<lparr>alarmCount = 0, reloadCount = 0, autoReloadOnAlarm = False\<rparr>,
                alarmEnabled = False, gtRunning = False, gtEnabled = False, gtCount = 0,
                alarmCb = None\<rparr>))"

definition with_timer :: "gptimer option \<Rightarrow> (gptimer \<Rightarrow> esp_err \<times> gptimer) \<Rightarrow> esp_err \<times> gptimer option" where
  "with_timer t f =
    (case t of None \<Rightarrow> (ESP_ERR_INVALID_ARG, None) | Some t \<Rightarrow> let (e, t') = f t in (e, Some t'))"

definition gptimer_del_timer :: "nat option \<Rightarrow> (nat \<rightharpoonup> gptimer) \<Rightarrow> esp_err \<times> (nat \<rightharpoonup> gptimer)" where
  "gptimer_del_timer h hp =
    (case h of None \<Rightarrow> (ESP_ERR_INVALID_ARG, hp) | Some a \<Rightarrow> (ESP_OK, hp(a := None)))"

definition gptimer_set_alarm_action ::
  "gptimer option \<Rightarrow> alarm_config option \<Rightarrow> esp_err \<times> gptimer option" where
  "gptimer_set_alarm_action t config = with_timer t (\<lambda>t.
    (ESP_OK, case config of
       None \<Rightarrow> t\<lparr>alarmEnabled := False\<rparr>
     | Some c \<Rightarrow> t\<lparr>gtAlarm := c, alarmEnabled := True\<rparr>))"

definition gptimer_register_event_callbacks ::
  "gptimer option \<Rightarrow> nat option option \<Rightarrow> esp_err \<times> gptimer option" where
  "gptimer_register_event_callbacks t cbs =
    (case cbs of
       None \<Rightarrow> (ESP_ERR_INVALID_ARG, t)
     | Some cb \<Rightarrow> with_timer t (\<lambda>t. (ESP_OK, t\<lparr>alarmCb := cb\<rparr>)))"

definition gptimer_enable :: "gptimer option \<Rightarrow> esp_err \<times> gptimer option" where
  "gptimer_enable t = with_timer t (\<lambda>t. (ESP_OK, t\<lparr>gtEnabled := True\<rparr>))"

definition gptimer_disable :: "gptimer option \<Rightarrow> esp_err \<times> gptimer option" where
  "gptimer_disable t = with_timer t (\<lambda>t. (ESP_OK, t\<lparr>gtEnabled := False, gtRunning := False\<rparr>))"

definition gptimer_start :: "gptimer option \<Rightarrow> esp_err \<times> gptimer option" where
  "gptimer_start t = with_timer t (\<lambda>t.
    if \<not> gtEnabled t then (ESP_ERR_INVALID_STATE, t) else (ESP_OK, t\<lparr>gtRunning := True\<rparr>))"

definition gptimer_stop :: "gptimer option \<Rightarrow> esp_err \<times> gptimer option" where
  "gptimer_stop t = with_timer t (\<lambda>t. (ESP_OK, t\<lparr>gtRunning := False\<rparr>))"

definition gptimer_set_raw_count :: "gptimer option \<Rightarrow> u64 \<Rightarrow> esp_err \<times> gptimer option" where
  "gptimer_set_raw_count t v = with_timer t (\<lambda>t. (ESP_OK, t\<lparr>gtCount := v\<rparr>))"

definition gptimer_get_raw_count :: "gptimer option \<Rightarrow> bool \<Rightarrow> esp_err \<times> u64 option" where
  "gptimer_get_raw_count t out_given =
    (case t of
       None \<Rightarrow> (ESP_ERR_INVALID_ARG, None)
     | Some t \<Rightarrow> if \<not> out_given then (ESP_ERR_INVALID_ARG, None) else (ESP_OK, Some (gtCount t)))"

text \<open>
  The alarm at the end of a simulation step: the callback's event data (count and alarm value), and
  the reload. The callback runs under the mutex, so one that calls back into the timer (\<open>locks\<close>)
  never returns: \<open>None\<close>.
\<close>

definition fire_alarm :: "(nat \<Rightarrow> bool) \<Rightarrow> gptimer \<Rightarrow> ((u64 \<times> u64) list \<times> gptimer) option" where
  "fire_alarm locks t =
    (let t' = (if autoReloadOnAlarm (gtAlarm t) then t\<lparr>gtCount := reloadCount (gtAlarm t)\<rparr> else t)
     in case alarmCb t of
          None \<Rightarrow> Some ([], t')
        | Some cb \<Rightarrow> if locks cb then None else Some ([(gtCount t, alarmCount (gtAlarm t))], t'))"

definition simulate_ticks ::
  "(nat \<Rightarrow> bool) \<Rightarrow> gptimer option \<Rightarrow> u64 \<Rightarrow> ((u64 \<times> u64) list \<times> gptimer option) option" where
  "simulate_ticks locks timer ticks =
    (case timer of
       None \<Rightarrow> Some ([], None)
     | Some t \<Rightarrow>
         if \<not> gtRunning t then Some ([], Some t)
         else if gtDirection t = GPTIMER_COUNT_UP then
           let t1 = t\<lparr>gtCount := gtCount t + ticks\<rparr>
           in if alarmEnabled t1 \<and> gtCount t1 \<ge> alarmCount (gtAlarm t1)
              then map_option (map_prod id Some) (fire_alarm locks t1)
              else Some ([], Some t1)
         else
           let t1 = t\<lparr>gtCount := (if ticks > gtCount t then 0 else gtCount t - ticks)\<rparr>
           in if alarmEnabled t1 \<and> gtCount t1 \<le> alarmCount (gtAlarm t1)
              then map_option (map_prod id Some) (fire_alarm locks t1)
              else Some ([], Some t1))"

definition gptimer_is_running :: "gptimer option \<Rightarrow> bool" where
  "gptimer_is_running t \<longleftrightarrow> (case t of None \<Rightarrow> False | Some t \<Rightarrow> gtRunning t)"

definition gptimer_is_enabled :: "gptimer option \<Rightarrow> bool" where
  "gptimer_is_enabled t \<longleftrightarrow> (case t of None \<Rightarrow> False | Some t \<Rightarrow> gtEnabled t)"

section \<open>A reloading timer\<close>

text \<open>Single ticks: the events in order, and the timer.\<close>

fun single_ticks :: "(nat \<Rightarrow> bool) \<Rightarrow> nat \<Rightarrow> gptimer \<Rightarrow> ((u64 \<times> u64) list \<times> gptimer) option" where
  "single_ticks locks 0 t = Some ([], t)"
| "single_ticks locks (Suc n) t =
    (case simulate_ticks locks (Some t) 1 of
       Some (es, Some t') \<Rightarrow> map_option (\<lambda>(es', t''). (es @ es', t'')) (single_ticks locks n t')
     | _ \<Rightarrow> None)"

definition periodic :: "nat \<Rightarrow> u64 \<Rightarrow> gptimer \<Rightarrow> bool" where
  "periodic cb a t \<longleftrightarrow> gtDirection t = GPTIMER_COUNT_UP \<and> gtRunning t \<and> alarmEnabled t \<and>
    alarmCb t = Some cb \<and> gtAlarm t = \<lparr>alarmCount = a, reloadCount = 0, autoReloadOnAlarm = True\<rparr>"

lemma tick_below:
  "periodic cb a t \<Longrightarrow> \<not> locks cb \<Longrightarrow> gtCount t + 1 < a \<Longrightarrow>
   simulate_ticks locks (Some t) 1 = Some ([], Some (t\<lparr>gtCount := gtCount t + 1\<rparr>))"
  by (auto simp: periodic_def simulate_ticks_def Let_def dest: leD)

lemma tick_alarm:
  "periodic cb a t \<Longrightarrow> \<not> locks cb \<Longrightarrow> gtCount t + 1 = a \<Longrightarrow>
   simulate_ticks locks (Some t) 1 = Some ([(a, a)], Some (t\<lparr>gtCount := 0\<rparr>))"
  by (simp add: periodic_def simulate_ticks_def fire_alarm_def Let_def)

lemma single_ticks_periodic:
  assumes "\<not> locks cb" "a \<noteq> 0"
  shows "periodic cb a t \<Longrightarrow> gtCount t < a \<Longrightarrow>
    \<exists>t'. single_ticks locks n t = Some (replicate ((unat (gtCount t) + n) div unat a) (a, a), t') \<and>
      unat (gtCount t') = (unat (gtCount t) + n) mod unat a \<and> periodic cb a t'"
proof (induction n arbitrary: t)
  case 0
  then have "unat (gtCount t) < unat a"
    by (simp add: word_less_nat_alt)
  with 0 show ?case by simp
next
  case (Suc n)
  have lt: "unat (gtCount t) < unat a"
    using Suc.prems(2) by (simp add: word_less_nat_alt)
  moreover have "unat a < 2 ^ 64"
    using unat_bound [of a] by simp
  ultimately have c1: "unat (gtCount t + 1) = unat (gtCount t) + 1"
    by (simp add: unat_add_no_wrap)
  show ?case
  proof (cases "gtCount t + 1 = a")
    case True
    then have a: "unat a = unat (gtCount t) + 1"
      using c1 by simp
    have p: "periodic cb a (t\<lparr>gtCount := 0\<rparr>)" "gtCount (t\<lparr>gtCount := 0\<rparr>) < a"
      using Suc.prems(1) assms(2) by (simp_all add: periodic_def word_gt_0)
    obtain t' where t': "single_ticks locks n (t\<lparr>gtCount := 0\<rparr>) = Some (replicate (n div unat a) (a, a), t')"
        "unat (gtCount t') = n mod unat a" "periodic cb a t'"
      using Suc.IH [OF p] by auto
    have "(unat (gtCount t) + Suc n) div unat a = Suc (n div unat a)"
      "(unat (gtCount t) + Suc n) mod unat a = n mod unat a"
      using a by (simp_all add: div_add_self1 [of "Suc (unat (gtCount t))" n, simplified]
          mod_add_self1 [of "Suc (unat (gtCount t))" n, simplified])
    with t' show ?thesis
      using tick_alarm [of cb a t locks] Suc.prems(1) assms(1) True by simp
  next
    case False
    then have "unat (gtCount t) + 1 \<noteq> unat a"
      using c1 by (metis word_unat_eq_iff)
    then have less: "gtCount t + 1 < a"
      using lt c1 by (simp add: word_less_nat_alt)
    have p: "periodic cb a (t\<lparr>gtCount := gtCount t + 1\<rparr>)"
      using Suc.prems(1) by (simp add: periodic_def)
    show ?thesis
      using Suc.IH [OF p] less c1 tick_below [of cb a t locks] Suc.prems(1) assms(1) by auto
  qed
qed

section \<open>Properties\<close>

text \<open>
  A reloading alarm is periodic. A running timer that counts up from zero with an alarm at
  \<open>a > 0\<close> reloading to zero calls its callback, in \<open>n\<close> single ticks, exactly \<open>n div a\<close> times, each
  at count \<open>a\<close>, and stands at \<open>n mod a\<close>.
\<close>

theorem gptimer_alarm_periodic:
  assumes "gtDirection t = GPTIMER_COUNT_UP" "gtEnabled t" "gtCount t = 0" "a \<noteq> 0" "\<not> locks cb"
    and "alarmCb t = Some cb"
    and "gptimer_set_alarm_action (Some t)
      (Some \<lparr>alarmCount = a, reloadCount = 0, autoReloadOnAlarm = True\<rparr>) = (r1, t1)"
    and "gptimer_start t1 = (r2, Some t2)"
  shows "r1 = ESP_OK \<and> r2 = ESP_OK \<and>
    (\<exists>t'. single_ticks locks n t2 = Some (replicate (n div unat a) (a, a), t') \<and>
      unat (gtCount t') = n mod unat a)"
proof -
  have t2: "periodic cb a t2" "gtCount t2 = 0" "r1 = ESP_OK" "r2 = ESP_OK"
    using assms by (auto simp: gptimer_set_alarm_action_def gptimer_start_def with_timer_def periodic_def)
  moreover have "gtCount t2 < a"
    using assms(4) t2(2) by (simp add: word_gt_0)
  ultimately show ?thesis
    using single_ticks_periodic [of locks cb a t2 n] assms(4,5) by auto
qed

theorem gptimer_alarm_periodic_witness:
  "\<exists>t'. single_ticks (\<lambda>_. False) 25 \<lparr>gtDirection = GPTIMER_COUNT_UP,
      gtAlarm = \<lparr>alarmCount = 10, reloadCount = 0, autoReloadOnAlarm = True\<rparr>, alarmEnabled = True,
      gtRunning = True, gtEnabled = True, gtCount = 0, alarmCb = Some 3\<rparr> =
    Some ([(10, 10), (10, 10)], t') \<and> unat (gtCount t') = 5"
proof -
  let ?t = "\<lparr>gtDirection = GPTIMER_COUNT_UP,
    gtAlarm = \<lparr>alarmCount = 0, reloadCount = 0, autoReloadOnAlarm = False\<rparr>, alarmEnabled = False,
    gtRunning = False, gtEnabled = True, gtCount = 0, alarmCb = Some 3\<rparr>"
  have r: "replicate 2 x = [x, x]" for x :: "u64 \<times> u64"
    by (simp add: numeral_2_eq_2)
  show ?thesis
    using gptimer_alarm_periodic [of ?t 10 "\<lambda>_. False" 3 ESP_OK _ ESP_OK _ 25]
    by (simp add: gptimer_set_alarm_action_def gptimer_start_def with_timer_def r del: single_ticks.simps)
qed

text \<open>
  A coarse step loses alarms. The same timer advanced by several periods at once calls its
  callback once and drops the remainder: the count is back at zero.
\<close>

theorem gptimer_coarse_step_loses_alarms:
  assumes "periodic cb a t" "gtCount t = 0" "\<not> locks cb" "a \<le> ticks"
  shows "simulate_ticks locks (Some t) ticks = Some ([(ticks, a)], Some (t\<lparr>gtCount := 0\<rparr>))"
  using assms by (simp add: periodic_def simulate_ticks_def fire_alarm_def Let_def)

theorem gptimer_coarse_step_loses_alarms_witness:
  "\<exists>t. periodic 3 10 t \<and> simulate_ticks (\<lambda>_. False) (Some t) 25 = Some ([(25, 10)], Some (t\<lparr>gtCount := 0\<rparr>))"
proof -
  let ?t = "\<lparr>gtDirection = GPTIMER_COUNT_UP,
    gtAlarm = \<lparr>alarmCount = 10, reloadCount = 0, autoReloadOnAlarm = True\<rparr>, alarmEnabled = True,
    gtRunning = True, gtEnabled = True, gtCount = 0, alarmCb = Some 3\<rparr>"
  have "periodic 3 10 ?t"
    by (simp add: periodic_def)
  with gptimer_coarse_step_loses_alarms [of 3 10 ?t "\<lambda>_. False" 25] show ?thesis
    by (intro exI [of _ ?t]) simp
qed

end
