(* ===== verification/Web_Server.thy ===== *)
theory Web_Server
  imports Http_Text
begin

text \<open>
  The web server of \<open>src/include/WebServer.h\<close> and \<open>src/src/webserver.cpp\<close>: routes, the loop that
  reads a request off a connection, the parser, the dispatch to a handler and the response. A
  connection is the list of what the calls of \<open>recv\<close> return (the empty string for a result
  \<open>\<le> 0\<close>, which also stands for the one second timeout) and of what the calls of \<open>send\<close> answer. A
  handler is a name whose effect on the server is the argument \<open>run\<close>. The lemmas show that how a
  request was cut into packets does not matter, where the parser goes wrong, and that responses
  are framed.
\<close>

section \<open>State\<close>

record 'h web =
  routes :: "(string \<times> int \<times> 'h) list"
  notFoundHandler :: "'h option"
  serverOpen :: bool
  webRunning :: bool
  curUri :: string
  curMethod :: int
  curParams :: "(string \<times> string) list"
  curHeaders :: "(string \<times> string) list"
  curBody :: string
  clientOpen :: bool
  respHeaders :: "(string \<times> string) list"
  contentLen :: nat
  answers :: "send_result list"
  sentText :: string

definition web_init :: "'h web" where
  "web_init = \<lparr>routes = [], notFoundHandler = None, serverOpen = False, webRunning = False,
     curUri = [], curMethod = 0, curParams = [], curHeaders = [], curBody = [], clientOpen = False,
     respHeaders = [], contentLen = 0, answers = [], sentText = []\<rparr>"

text \<open>\<open>begin\<close>, given whether \<open>socket\<close> and \<open>bind\<close> succeed.\<close>

definition web_begin :: "bool \<Rightarrow> bool \<Rightarrow> 'h web \<Rightarrow> 'h web" where
  "web_begin sock bound w =
    (if \<not> sock \<or> \<not> bound then w\<lparr>serverOpen := False\<rparr> else w\<lparr>serverOpen := True, webRunning := True\<rparr>)"

definition web_close :: "'h web \<Rightarrow> 'h web" where
  "web_close w = w\<lparr>serverOpen := False, webRunning := False\<rparr>"

definition web_on :: "string \<Rightarrow> int \<Rightarrow> 'h \<Rightarrow> 'h web \<Rightarrow> 'h web" where
  "web_on u m h w = w\<lparr>routes := routes w @ [(u, m, h)]\<rparr>"

definition web_onNotFound :: "'h \<Rightarrow> 'h web \<Rightarrow> 'h web" where
  "web_onNotFound h w = w\<lparr>notFoundHandler := Some h\<rparr>"

section \<open>Parsing\<close>

abbreviation (input) "HTTP_GET \<equiv> (1 :: int)"
abbreviation (input) "HTTP_POST \<equiv> (2 :: int)"

definition parseMethod :: "string \<Rightarrow> int" where
  "parseMethod m =
    (if m = ''GET'' then 1 else if m = ''POST'' then 2 else if m = ''PUT'' then 3
     else if m = ''DELETE'' then 4 else if m = ''PATCH'' then 5 else if m = ''OPTIONS'' then 6 else 0)"

definition query_pair :: "string \<Rightarrow> string \<times> string" where
  "query_pair p =
    (case find_sub ''='' p of
       Some e \<Rightarrow> (url_decode (take e p), url_decode (drop (e + 1) p))
     | None \<Rightarrow> (url_decode p, []))"

definition parseQueryString :: "string \<Rightarrow> 'h web \<Rightarrow> 'h web" where
  "parseQueryString qs w = w\<lparr>curParams := curParams w @ map query_pair (pieces CHR ''&'' qs)\<rparr>"

definition content_length_line :: "string \<Rightarrow> nat option" where
  "content_length_line line =
    (let l = chomp line in
     case find_sub '':'' l of
       None \<Rightarrow> None
     | Some k \<Rightarrow>
         if map lower (take k l) = ''content-length''
         then (case strtol10 (drop (k + 1) l) of
                 Some (v, _) \<Rightarrow> if v \<ge> 0 then Some (nat v) else None
               | None \<Rightarrow> None)
         else None)"

text \<open>The last line that gives a length counts; \<open>None\<close> is the code's \<open>(size_t)-1\<close>.\<close>

definition parse_content_length :: "string \<Rightarrow> nat option" where
  "parse_content_length headers =
    foldl (\<lambda>acc line. case content_length_line line of None \<Rightarrow> acc | Some v \<Rightarrow> Some v) None
      (pieces nl headers)"

definition header_line :: "string \<Rightarrow> (string \<times> string) list" where
  "header_line line =
    (let l = chomp line in
     case find_sub '':'' l of
       None \<Rightarrow> []
     | Some k \<Rightarrow>
         let val = drop (k + 1) l
         in [(take k l, if val \<noteq> [] \<and> hd val = CHR '' '' then drop 1 val else val)])"

definition parseHeaders :: "string \<Rightarrow> 'h web \<Rightarrow> 'h web" where
  "parseHeaders raw w = w\<lparr>curHeaders := curHeaders w @ concat (map header_line (pieces nl raw))\<rparr>"

text \<open>\<open>strcasecmp\<close> compares the names as C strings.\<close>

definition web_header :: "string \<Rightarrow> 'h web \<Rightarrow> string" where
  "web_header name w =
    (case find (\<lambda>(n, v). map lower (c_str n) = map lower name) (curHeaders w) of
       Some (n, v) \<Rightarrow> c_str v
     | None \<Rightarrow> [])"

definition web_arg :: "string \<Rightarrow> 'h web \<Rightarrow> string" where
  "web_arg name w =
    (case find (\<lambda>(n, v). n = name) (curParams w) of Some (n, v) \<Rightarrow> c_str v | None \<Rightarrow> [])"

definition web_arg_at :: "int \<Rightarrow> 'h web \<Rightarrow> string" where
  "web_arg_at i w =
    (if i \<ge> 0 \<and> i < int (length (curParams w)) then c_str (snd (curParams w ! nat i)) else [])"

definition web_argName :: "int \<Rightarrow> 'h web \<Rightarrow> string" where
  "web_argName i w =
    (if i \<ge> 0 \<and> i < int (length (curParams w)) then c_str (fst (curParams w ! nat i)) else [])"

definition web_args :: "'h web \<Rightarrow> int" where
  "web_args w = int (length (curParams w))"

definition web_hasArg :: "string \<Rightarrow> 'h web \<Rightarrow> bool" where
  "web_hasArg name w = list_ex (\<lambda>(n, v). n = name) (curParams w)"

definition web_uri :: "'h web \<Rightarrow> string" where
  "web_uri w = c_str (curUri w)"

definition web_plainBody :: "'h web \<Rightarrow> string" where
  "web_plainBody w = c_str (curBody w)"

section \<open>Reading a request\<close>

record recv_state =
  reqText :: string
  headerEnd :: "nat option"
  declared :: "nat option"

definition recv_init :: recv_state where
  "recv_init = \<lparr>reqText = [], headerEnd = None, declared = None\<rparr>"

definition kMaxHeaderBytes :: nat where "kMaxHeaderBytes = 64 * 1024"
definition kMaxBodyBytes :: nat where "kMaxBodyBytes = 16 * 1024 * 1024"

definition recv_stop :: "recv_state \<Rightarrow> bool" where
  "recv_stop st \<longleftrightarrow>
    (case headerEnd st of
       Some h \<Rightarrow> (case declared st of Some n \<Rightarrow> n \<le> length (reqText st) - (h + 4) | None \<Rightarrow> False)
     | None \<Rightarrow> length (reqText st) > kMaxHeaderBytes)"

definition recv_append :: "recv_state \<Rightarrow> string \<Rightarrow> recv_state" where
  "recv_append st c =
    (let r = reqText st @ c
     in if headerEnd st = None
        then (case find_sub crlf2 r of
                None \<Rightarrow> st\<lparr>reqText := r\<rparr>
              | Some h \<Rightarrow> st\<lparr>reqText := r, headerEnd := Some h, declared := parse_content_length (take h r)\<rparr>)
        else st\<lparr>reqText := r\<rparr>)"

fun recv_loop :: "string list \<Rightarrow> recv_state \<Rightarrow> recv_state" where
  "recv_loop [] st = st"
| "recv_loop (c # cs) st = (if recv_stop st \<or> c = [] then st else recv_loop cs (recv_append st c))"

text \<open>\<open>sscanf\<close> with \<open>%ns\<close>: skip space, then at most \<open>n\<close> characters that are not.\<close>

definition scan_word :: "nat \<Rightarrow> string \<Rightarrow> (string \<times> string) option" where
  "scan_word n s =
    (let s1 = dropWhile is_space s;
         w = take n (takeWhile (\<lambda>c. \<not> is_space c) s1)
     in if w = [] then None else Some (w, drop (length w) s1))"

definition request_line :: "recv_state \<Rightarrow> string" where
  "request_line st =
    (case find_sub crlf (reqText st) of None \<Rightarrow> reqText st | Some l \<Rightarrow> take l (reqText st))"

definition header_text :: "recv_state \<Rightarrow> string option" where
  "header_text st =
    (case find_sub crlf (reqText st) of
       None \<Rightarrow> None
     | Some l \<Rightarrow>
         (case headerEnd st of
            None \<Rightarrow> Some (drop (l + 2) (reqText st))
          | Some h \<Rightarrow>
              if h > l + 2 then Some (take (h - (l + 2)) (drop (l + 2) (reqText st)))
              else Some (drop (l + 2) (reqText st))))"

definition body_text :: "recv_state \<Rightarrow> string" where
  "body_text st =
    (case headerEnd st of
       None \<Rightarrow> []
     | Some h \<Rightarrow>
         if length (reqText st) > h + 4
         then (let remaining = length (reqText st) - (h + 4);
                   avail = (case declared st of Some n \<Rightarrow> min n remaining | None \<Rightarrow> remaining)
               in take (min avail kMaxBodyBytes) (drop (h + 4) (reqText st)))
         else [])"

text \<open>The path and the query string.\<close>

definition set_target :: "string \<Rightarrow> 'h web \<Rightarrow> 'h web" where
  "set_target p w =
    (case find_sub ''?'' p of
       Some q \<Rightarrow> parseQueryString (drop (q + 1) p) (w\<lparr>curUri := url_decode (take q p)\<rparr>)
     | None \<Rightarrow> w\<lparr>curUri := url_decode p\<rparr>)"

text \<open>The parser; \<open>False\<close> when it gives up on the request line.\<close>

definition parse_request :: "recv_state \<Rightarrow> 'h web \<Rightarrow> bool \<times> 'h web" where
  "parse_request st w =
    (let w = w\<lparr>curParams := [], curHeaders := [], respHeaders := [], curBody := []\<rparr>;
         line = request_line st
     in if length line \<ge> 2048 then (False, w)
        else
          (case scan_word 15 (c_str line) of
             None \<Rightarrow> (False, w)
           | Some (meth, rest) \<Rightarrow>
               (case scan_word 1023 rest of
                  None \<Rightarrow> (False, w)
                | Some (target, _) \<Rightarrow>
                    let w = set_target target (w\<lparr>curMethod := parseMethod meth\<rparr>);
                        w = (case header_text st of None \<Rightarrow> w | Some h \<Rightarrow> parseHeaders h w);
                        w = w\<lparr>curBody := body_text st\<rparr>
                    in (True,
                        if curMethod w = HTTP_POST \<and> curBody w \<noteq> [] \<and>
                           find_sub ''application/x-www-form-urlencoded'' (web_header ''Content-Type'' w) \<noteq> None
                        then parseQueryString (curBody w) w else w))))"

section \<open>Responding\<close>

definition reason_of :: "int \<Rightarrow> string" where
  "reason_of code =
    (if code = 200 then ''OK'' else if code = 201 then ''Created'' else if code = 204 then ''No Content''
     else if code = 301 then ''Moved Permanently'' else if code = 302 then ''Found''
     else if code = 400 then ''Bad Request'' else if code = 401 then ''Unauthorized''
     else if code = 403 then ''Forbidden'' else if code = 404 then ''Not Found''
     else if code = 500 then ''Internal Server Error'' else ''OK'')"

text \<open>A null pointer for the type or the content is the empty string: both are left out alike.\<close>

definition response_head :: "(string \<times> string) list \<Rightarrow> int \<Rightarrow> string \<Rightarrow> string \<Rightarrow> string list" where
  "response_head hs code ctype content =
    [''HTTP/1.1 '' @ to_string code @ '' '' @ reason_of code] @
    map (\<lambda>(n, v). n @ '': '' @ v) hs @
    (if ctype \<noteq> [] then [''Content-Type: '' @ ctype] else []) @
    [''Content-Length: '' @ to_string (int (length content)), ''Connection: close'']"

definition response_text :: "(string \<times> string) list \<Rightarrow> int \<Rightarrow> string \<Rightarrow> string \<Rightarrow> string" where
  "response_text hs code ctype content = text_lines (response_head hs code ctype content) @ crlf @ content"

definition web_send :: "int \<Rightarrow> string \<Rightarrow> string \<Rightarrow> 'h web \<Rightarrow> 'h web option" where
  "web_send code ctype content w =
    (if \<not> clientOpen w then Some w
     else map_option (\<lambda>(t, rs). w\<lparr>sentText := sentText w @ t, answers := rs, respHeaders := []\<rparr>)
       (send_loop (answers w) (response_text (respHeaders w) code ctype content)))"

definition web_sendHeader :: "string \<Rightarrow> string \<Rightarrow> bool \<Rightarrow> 'h web \<Rightarrow> 'h web" where
  "web_sendHeader name val first w =
    w\<lparr>respHeaders := (if first then (name, val) # respHeaders w else respHeaders w @ [(name, val)])\<rparr>"

definition web_setContentLength :: "nat \<Rightarrow> 'h web \<Rightarrow> 'h web" where
  "web_setContentLength n w = w\<lparr>contentLen := n\<rparr>"

section \<open>Dispatching\<close>

definition web_dispatch :: "('h \<Rightarrow> 'h web \<Rightarrow> 'h web option) \<Rightarrow> 'h web \<Rightarrow> 'h web option" where
  "web_dispatch run w =
    (case find (\<lambda>(u, m, h). u = curUri w \<and> (m = 0 \<or> m = curMethod w)) (routes w) of
       Some (u, m, h) \<Rightarrow> run h w
     | None \<Rightarrow>
         (case notFoundHandler w of
            Some h \<Rightarrow> run h w
          | None \<Rightarrow> web_send 404 ''text/plain'' ''Not Found'' w))"

definition processClient ::
  "('h \<Rightarrow> 'h web \<Rightarrow> 'h web option) \<Rightarrow> string list \<Rightarrow> 'h web \<Rightarrow> 'h web option" where
  "processClient run packets w =
    (let st = recv_loop packets recv_init
     in if reqText st = [] then Some w
        else
          (let (ok, w1) = parse_request st (w\<lparr>clientOpen := True\<rparr>)
           in if ok then map_option (\<lambda>w2. w2\<lparr>clientOpen := False\<rparr>) (web_dispatch run w1)
              else Some (w1\<lparr>clientOpen := False\<rparr>)))"

text \<open>
  \<open>handleClient\<close> takes at most one waiting connection: what it will deliver and how its socket
  will answer.
\<close>

definition handleClient ::
  "('h \<Rightarrow> 'h web \<Rightarrow> 'h web option) \<Rightarrow> (string list \<times> send_result list) option \<Rightarrow> 'h web \<Rightarrow> 'h web option" where
  "handleClient run waiting w =
    (if \<not> serverOpen w then Some w
     else
       (case waiting of
          None \<Rightarrow> Some w
        | Some (packets, socket) \<Rightarrow> processClient run packets (w\<lparr>answers := socket, sentText := []\<rparr>)))"

section \<open>Packets\<close>

text \<open>The reader's state is a function of the characters it has read.\<close>

definition state_of :: "string \<Rightarrow> recv_state" where
  "state_of p =
    \<lparr>reqText = p, headerEnd = find_sub crlf2 p,
     declared = (case find_sub crlf2 p of None \<Rightarrow> None | Some h \<Rightarrow> parse_content_length (take h p))\<rparr>"

lemma state_of_init: "recv_init = state_of []"
  by (simp add: recv_init_def state_of_def crlf2_def)

lemma recv_append_state: "recv_append (state_of p) c = state_of (p @ c)"
proof (cases "find_sub crlf2 p")
  case None
  then show ?thesis
    by (simp add: recv_append_def state_of_def split: option.split)
next
  case (Some h)
  then have "h \<le> length p"
    using find_sub_Some [OF Some] by simp
  with Some find_sub_append [OF Some, of c] show ?thesis
    by (simp add: recv_append_def state_of_def)
qed

lemma recv_loop_state:
  "[] \<notin> set cs \<Longrightarrow>
   \<exists>q. recv_loop cs (state_of p) = state_of q \<and> prefix q (p @ concat cs) \<and>
     (q = p @ concat cs \<or> recv_stop (state_of q))"
proof (induction cs arbitrary: p)
  case Nil
  then show ?case by auto
next
  case (Cons c cs)
  show ?case
  proof (cases "recv_stop (state_of p)")
    case True
    then show ?thesis by auto
  next
    case False
    moreover have "c \<noteq> []" "[] \<notin> set cs"
      using Cons.prems by auto
    ultimately show ?thesis
      using Cons.IH [of "p @ c"] by (simp add: recv_append_state)
  qed
qed

lemma parse_request_cong:
  "request_line st = request_line st' \<Longrightarrow> header_text st = header_text st' \<Longrightarrow>
   body_text st = body_text st' \<Longrightarrow> parse_request st w = parse_request st' w"
  unfolding parse_request_def by (simp only:)

lemma stopped_parse:
  assumes h: "find_sub crlf2 s = Some h" "h + 4 \<le> kMaxHeaderBytes"
    and l: "find_sub crlf s = Some l" "l + 2 < h"
    and q: "prefix q s" "q = s \<or> recv_stop (state_of q)"
  shows "parse_request (state_of q) w = parse_request (state_of s) w"
proof -
  define k where "k = length q"
  have qk: "q = take k s" and ks: "k \<le> length s"
    using q(1) by (auto simp: k_def prefix_def)
  have len: "length crlf2 = 4" "length crlf = 2"
    by (simp_all add: crlf2_def crlf_def)
  have k: "h + 4 \<le> k"
  proof (rule ccontr)
    assume a: "\<not> h + 4 \<le> k"
    then have "find_sub crlf2 q = None"
      using find_sub_take_None [OF h(1), of k] len by (simp add: qk)
    moreover from this h(1) have "q \<noteq> s"
      by auto
    ultimately show False
      using q(2) a h(2) by (simp add: recv_stop_def state_of_def k_def)
  qed
  have he: "find_sub crlf2 q = Some h" and li: "find_sub crlf q = Some l"
    using find_sub_take_Some [OF h(1), of k] find_sub_take_Some [OF l(1), of k] k l(2) len
    by (simp_all add: qk)
  have th: "take h q = take h s"
    using k by (simp add: qk min_def)
  show ?thesis
  proof (cases "q = s")
    case False
    then have "recv_stop (state_of q)"
      using q(2) by simp
    then obtain n where n: "parse_content_length (take h s) = Some n" "n \<le> k - (h + 4)"
      by (auto simp: recv_stop_def state_of_def he th k_def split: option.splits)
    have "take l q = take l s" "take (h - (l + 2)) (drop (l + 2) q) = take (h - (l + 2)) (drop (l + 2) s)"
      using k l(2) by (simp_all add: qk drop_take min_def)
    then have "request_line (state_of q) = request_line (state_of s)"
      "header_text (state_of q) = header_text (state_of s)"
      using l(2) by (simp_all add: request_line_def header_text_def state_of_def he li h(1) l(1))
    moreover have "body_text (state_of q) = body_text (state_of s)"
      using n k ks th
      by (auto simp: body_text_def state_of_def he h(1) k_def [symmetric] min_def Let_def)
        (auto simp: qk drop_take min_def)
    ultimately show ?thesis
      by (rule parse_request_cong)
  qed simp
qed

lemma fragmented_parse:
  assumes "find_sub crlf2 s = Some h" "h + 4 \<le> kMaxHeaderBytes"
    and "find_sub crlf s = Some l" "l + 2 < h"
    and "concat packets = s" "[] \<notin> set packets"
  shows "parse_request (recv_loop packets recv_init) w = parse_request (state_of s) w \<and>
    reqText (recv_loop packets recv_init) \<noteq> []"
proof -
  obtain q where q: "recv_loop packets recv_init = state_of q" "prefix q s" "q = s \<or> recv_stop (state_of q)"
    using recv_loop_state [OF assms(6), of "[]"] assms(5) by (auto simp: state_of_init)
  moreover have "s \<noteq> []"
    using assms(1) by (auto simp: crlf2_def)
  moreover have "\<not> recv_stop (state_of [])"
    by (simp add: recv_stop_def state_of_def crlf2_def)
  ultimately show ?thesis
    using stopped_parse [OF assms(1-4), of q w] by (auto simp: state_of_def)
qed

text \<open>
  C2: how a request was cut into packets does not matter. For every request with at least one
  header line and a head of at most 64 KiB, every way to cut it into packets leads to the same
  parsed request as the whole text at once, whether the reader stops at the declared length or at
  the end of the connection.
\<close>

theorem web_fragmentation_independent:
  assumes "find_sub crlf2 s = Some h" "h + 4 \<le> kMaxHeaderBytes"
    and "find_sub crlf s = Some l" "l + 2 < h"
    and "concat packets = s" "[] \<notin> set packets"
  shows "parse_request (recv_loop packets recv_init) w =
    parse_request \<lparr>reqText = s, headerEnd = Some h, declared = parse_content_length (take h s)\<rparr> w"
  using fragmented_parse [OF assms, of w] assms(1) by (simp add: state_of_def)

theorem web_fragmentation_independent_witness:
  "\<exists>h. find_sub crlf2 (''GET / HTTP/1.1'' @ crlf @ ''Host: a'' @ crlf2) = Some h \<and>
    parse_request (recv_loop [''GET '', ''/ HTTP/1.1'' @ crlf, ''Host: a'' @ crlf2] recv_init) (web_init :: nat web) =
    parse_request \<lparr>reqText = ''GET / HTTP/1.1'' @ crlf @ ''Host: a'' @ crlf2, headerEnd = Some h,
      declared = parse_content_length (take h (''GET / HTTP/1.1'' @ crlf @ ''Host: a'' @ crlf2))\<rparr> (web_init :: nat web)"
proof -
  have "find_sub crlf2 (''GET / HTTP/1.1'' @ crlf @ ''Host: a'' @ crlf2) = Some 23"
    "find_sub crlf (''GET / HTTP/1.1'' @ crlf @ ''Host: a'' @ crlf2) = Some 14"
    by (simp_all add: crlf_def crlf2_def cr_def nl_def)
  then show ?thesis
    using web_fragmentation_independent [of "''GET / HTTP/1.1'' @ crlf @ ''Host: a'' @ crlf2" 23 14
        "[''GET '', ''/ HTTP/1.1'' @ crlf, ''Host: a'' @ crlf2]" "web_init :: nat web"]
    by (simp add: kMaxHeaderBytes_def crlf2_def)
qed

text \<open>
  A request without headers has its body read as headers. The parser then takes everything
  after the request line for header text, so a line of the body becomes a header of the request.
\<close>

theorem web_headerless_body_parsed:
  assumes "CHR '':'' \<notin> set name" "nl \<notin> set name" "nl \<notin> set v" "v = [] \<or> last v \<noteq> cr"
  shows "curHeaders (snd (parse_request
    (recv_loop [''GET / HTTP/1.1'' @ crlf2 @ name @ '': '' @ v] recv_init) w)) = [(name, v)]"
proof -
  let ?l = "''GET / HTTP/1.1''" and ?b = "name @ '': '' @ v"
  let ?x = "?l @ crlf2 @ ?b"
  define st where "st = recv_loop [?x] recv_init"
  have "find_sub crlf2 ?x = Some 14" "find_sub crlf ?x = Some 14"
    using find_blank_here [of ?l ?b] find_sub_crlf [of ?l "crlf @ ?b"]
    by (simp_all add: crlf_def crlf2_def cr_def)
  moreover from this(1) have "st = state_of ?x"
    by (simp add: st_def state_of_init recv_append_state) (simp add: recv_stop_def state_of_def crlf2_def)
  ultimately have st: "request_line st = ?l" "header_text st = Some (crlf @ ?b)"
    by (simp_all add: request_line_def header_text_def state_of_def) (simp add: crlf_def crlf2_def)
  have "pieces nl ?b = [?b]" "chomp ?b = ?b"
    using assms by (auto simp: chomp_def nl_def cr_def intro!: pieces_last)
  then have "pieces nl (crlf @ ?b) = [[cr], ?b]"
    using pieces_sep [of nl "[cr]" ?b] by (simp add: crlf_def)
  moreover have "header_line [cr] = []"
    by (simp add: header_line_def chomp_def)
  moreover have "header_line ?b = [(name, v)]"
    using find_sub_char [OF assms(1), of "'' '' @ v"] \<open>chomp ?b = ?b\<close> by (simp add: header_line_def)
  ultimately have "concat (map header_line (pieces nl (crlf @ ?b))) = [(name, v)]"
    by simp
  moreover have "scan_word 15 (c_str ?l) = Some (''GET'', '' / HTTP/1.1'')"
    "scan_word 1023 '' / HTTP/1.1'' = Some (''/'', '' HTTP/1.1'')"
    by (simp_all add: scan_word_def c_str_def is_space_def ord_def)
  ultimately have "curHeaders (snd (parse_request st w)) = [(name, v)]"
    by (simp add: parse_request_def st Let_def parseHeaders_def set_target_def parseMethod_def)
  then show ?thesis
    by (simp only: st_def)
qed

theorem web_headerless_body_parsed_witness:
  "curHeaders (snd (parse_request
    (recv_loop [''GET / HTTP/1.1'' @ crlf2 @ ''Host'' @ '': '' @ ''b''] recv_init) w)) = [(''Host'', ''b'')]"
  by (rule web_headerless_body_parsed) (simp_all add: nl_def cr_def)

section \<open>Form values\<close>

text \<open>The query string a client sends for pairs of names and values.\<close>

definition encode_text :: "string \<Rightarrow> string" where
  "encode_text s = concat (map url_escape s)"

fun encode_query :: "(string \<times> string) list \<Rightarrow> string" where
  "encode_query [] = []"
| "encode_query [(n, v)] = encode_text n @ ''='' @ encode_text v"
| "encode_query ((n, v) # p # ps) = encode_text n @ ''='' @ encode_text v @ ''&'' @ encode_query (p # ps)"

lemma encode_text_chars:
  assumes "c \<in> set (encode_text s)" shows "c \<noteq> CHR ''='' \<and> c \<noteq> CHR ''&''"
proof -
  have "c = CHR ''%'' \<or> (\<exists>k < 16. c = digit_char k)"
  proof -
    obtain d where d: "c \<in> set (url_escape d)"
      using assms by (auto simp: encode_text_def)
    have "ord d div 16 < 16"
      using ord_less [of d] by linarith
    moreover have "\<exists>k < 16. digit_char (ord d mod 16) = digit_char k"
      by (rule exI [of _ "ord d mod 16"]) simp
    ultimately show ?thesis
      using d by (auto simp: url_escape_def)
  qed
  moreover have "digit_char k \<noteq> CHR ''='' \<and> digit_char k \<noteq> CHR ''&''" if "k < 16" for k
  proof -
    have "0 \<le> hex_value (digit_char k)"
      using digit_facts(1) [OF that] by simp
    moreover have "hex_value CHR ''='' = - 1" "hex_value CHR ''&'' = - 1"
      by (simp_all add: hex_value_def ord_def)
    ultimately show ?thesis
      by (metis neg_0_le_iff_le not_one_le_zero)
  qed
  ultimately show ?thesis
    by auto
qed

lemma query_pair_encode: "query_pair (encode_text n @ ''='' @ encode_text v) = (n, v)"
proof -
  have "find_sub ''='' (encode_text n @ ''='' @ encode_text v) = Some (length (encode_text n))"
    using find_sub_char [of "CHR ''=''" "encode_text n" "encode_text v"]
      encode_text_chars [of "CHR ''=''" n] by auto
  then show ?thesis
    by (simp add: query_pair_def) (simp add: encode_text_def url_decode_escapes)
qed

lemma pieces_query: "map query_pair (pieces CHR ''&'' (encode_query ps)) = ps"
proof (induction ps rule: encode_query.induct)
  case (2 n v)
  have "CHR ''&'' \<notin> set (encode_text n @ ''='' @ encode_text v)"
    using encode_text_chars by auto
  then have "pieces CHR ''&'' (encode_query [(n, v)]) = [encode_text n @ ''='' @ encode_text v]"
    using pieces_last [of "CHR ''&''" "encode_text n @ ''='' @ encode_text v"] by simp
  then show ?case
    using query_pair_encode [of n v] by simp
next
  case (3 n v p ps)
  have "CHR ''&'' \<notin> set (encode_text n @ ''='' @ encode_text v)"
    using encode_text_chars by auto
  from pieces_sep [OF this, of "encode_query (p # ps)"]
  have "pieces CHR ''&'' (encode_query ((n, v) # p # ps)) =
      (encode_text n @ ''='' @ encode_text v) # pieces CHR ''&'' (encode_query (p # ps))"
    by simp
  then show ?case
    using 3 query_pair_encode [of n v] by simp
qed simp

text \<open>
  Form values survive the transport. Names and values of any characters, escaped by the sender
  and joined with \<open>=\<close> and \<open>&\<close>, are appended to the parameters exactly as they were.
\<close>

theorem web_query_roundtrip: "curParams (parseQueryString (encode_query ps) w) = curParams w @ ps"
  by (simp add: parseQueryString_def pieces_query)

section \<open>Responses\<close>

definition clean :: "string \<Rightarrow> bool" where
  "clean s \<longleftrightarrow> cr \<notin> set s \<and> nl \<notin> set s"

lemma digits_of_clean:
  assumes "c \<in> set (digits_of 10 n)" shows "ord c \<ge> 48 \<and> ord c \<le> 57"
proof -
  obtain k where k: "k < 10" "c = digit_char k"
    using digits_of_facts [of 10 n] assms by auto
  have "hex_value (digit_char k) = int k" "48 \<le> ord (digit_char k)"
    using k(1) by (simp_all add: digit_facts)
  then show ?thesis
    using k by (auto simp: hex_value_def split: if_splits)
qed

lemma clean_digits_of: "clean (digits_of 10 n)"
  using digits_of_clean [of cr n] digits_of_clean [of nl n] by (auto simp: clean_def)

lemma clean_to_string: "clean (to_string i)"
  using clean_digits_of [of "nat i"] clean_digits_of [of "nat (- i)"]
  by (auto simp: to_string_def clean_def cr_def nl_def)

lemma clean_reason: "clean (reason_of code)"
  by (simp add: reason_of_def clean_def cr_def nl_def)

lemma response_head_good:
  assumes "\<forall>(n, v) \<in> set hs. clean n \<and> clean v" "clean ctype"
  shows "list_all good_line (response_head hs code ctype content)"
  using assms clean_to_string [of code] clean_reason [of code] clean_to_string [of "int (length content)"]
  by (auto simp: response_head_def good_line_def clean_def list_all_iff cr_def nl_def)

lemma content_length_line_declares:
  assumes "n < 2 ^ 63"
  shows "content_length_line ((''Content-Length: '' @ digits_of 10 n) @ [cr]) = Some n"
proof -
  have "strtol10 (CHR '' '' # digits_of 10 n) = Some (int n, [])"
    using strtol10_numeral(2) [of "[]" n] assms by simp
  moreover have "map lower ''Content-Length'' = ''content-length''"
    by code_simp
  moreover have "find_sub '':'' (''Content-Length: '' @ digits_of 10 n) = Some 14"
    using find_sub_char [of "CHR '':''" "''Content-Length''"] by simp
  ultimately show ?thesis
    unfolding content_length_line_def chomp_cr Let_def by simp
qed

lemma connection_line: "content_length_line ''Connection: close'' = None"
proof -
  have "find_sub '':'' ''Connection: close'' = Some 10" "chomp ''Connection: close'' = ''Connection: close''"
    by (simp_all add: chomp_def cr_def)
  then show ?thesis
    by (simp add: content_length_line_def lower_def ord_def)
qed

lemma declared_length:
  assumes "\<forall>(n, v) \<in> set hs. clean n \<and> clean v" "clean ctype" "length content < 2 ^ 63"
  shows "\<exists>h. find_sub crlf2 (response_text hs code ctype content) = Some h \<and>
    parse_content_length (take h (response_text hs code ctype content)) = Some (length content) \<and>
    drop (h + 4) (response_text hs code ctype content) = content"
proof -
  obtain ls where head: "response_head hs code ctype content =
      (ls @ [''Content-Length: '' @ digits_of 10 (length content)]) @ [''Connection: close'']"
    by (simp add: response_head_def to_string_def)
  let ?ms = "ls @ [''Content-Length: '' @ digits_of 10 (length content)]"
  let ?h = "length (text_lines ?ms @ ''Connection: close'')"
  have good: "list_all good_line (?ms @ [''Connection: close''])"
    using response_head_good [OF assms(1,2), of code content] by (simp only: head)
  have f: "find_sub crlf2 (response_text hs code ctype content) = Some ?h"
    using head_lines [OF good, of content] by (simp only: response_text_def head)
  have whole: "response_text hs code ctype content = (text_lines ?ms @ ''Connection: close'') @ crlf2 @ content"
    by (simp add: response_text_def head crlf_def crlf2_def)
  have "pieces nl (text_lines ?ms @ ''Connection: close'') = map (\<lambda>l. l @ [cr]) ?ms @ [''Connection: close'']"
    using head_lines [OF good, of content] by blast
  then have "parse_content_length (text_lines ?ms @ ''Connection: close'') = Some (length content)"
    using content_length_line_declares [OF assms(3)] connection_line
    by (simp add: parse_content_length_def)
  moreover have "take (length p) (p @ crlf2 @ c) = p \<and> drop (length p + 4) (p @ crlf2 @ c) = c" for p c
    by (simp add: crlf2_def)
  ultimately show ?thesis
    using f unfolding whole by metis
qed

text \<open>
  C29: a response is framed by what it declares. Take a response of any status, and a content below
  \<open>2 ^ 63\<close> bytes, whose content type and added headers (names and values) have neither carriage
  returns nor line feeds; \<open>send\<close> checks none of that, and a type with a blank line in it ends the
  head early (\<open>web_type_injects\<close>). On an open connection whose socket takes as many bytes as the
  response has, however it cuts it up and however often it is interrupted, the response reaches the
  client whole; the first blank line ends its head, the length that its head declares is that of
  the content (a header of the same name that the handler added does not count), and the content
  follows.
\<close>

theorem web_response_framed:
  assumes "clientOpen w" "healthy (answers w)"
    and "length (response_text (respHeaders w) code ctype content) \<le> capacity_of (answers w)"
    and "\<forall>(n, v) \<in> set (respHeaders w). clean n \<and> clean v" "clean ctype" "length content < 2 ^ 63"
  shows "\<exists>w' h resp. web_send code ctype content w = Some w' \<and> sentText w' = sentText w @ resp \<and>
    respHeaders w' = [] \<and> find_sub crlf2 resp = Some h \<and>
    parse_content_length (take h resp) = Some (length content) \<and> drop (h + 4) resp = content"
proof -
  obtain rs where "send_loop (answers w) (response_text (respHeaders w) code ctype content) =
      Some (response_text (respHeaders w) code ctype content, rs)"
    using send_loop_complete [OF assms(2,3)] by blast
  then show ?thesis
    using declared_length [OF assms(4-6), of code] assms(1) by (simp add: web_send_def)
qed

theorem web_response_framed_witness:
  "\<exists>w' h resp. web_send 200 ''text/plain'' ''ok''
      ((web_init :: nat web)\<lparr>clientOpen := True, answers := [Interrupted, Took 7, Took 500],
        respHeaders := [(''Content-Length'', ''99'')]\<rparr>) = Some w' \<and> sentText w' = resp \<and>
    find_sub crlf2 resp = Some h \<and> parse_content_length (take h resp) = Some 2"
proof -
  let ?w = "(web_init :: nat web)\<lparr>clientOpen := True, answers := [Interrupted, Took 7, Took 500],
        respHeaders := [(''Content-Length'', ''99'')]\<rparr>"
  have "length (response_text (respHeaders ?w) 200 ''text/plain'' ''ok'') \<le> capacity_of (answers ?w)"
    by (simp add: web_init_def response_text_def response_head_def to_string_def digits_of.simps reason_of_def
        crlf_def capacity_of_def)
  then show ?thesis
    using web_response_framed [of ?w 200 "''text/plain''" "''ok''"]
    by (auto simp: web_init_def healthy_def clean_def cr_def nl_def)
qed

text \<open>
  What is not checked. When the content type has a blank line in it, the head that a client finds
  ends there, before the declared length, and what follows in the type is the start of the body.
\<close>

theorem web_type_injects:
  assumes "\<forall>(n, v) \<in> set hs. clean n \<and> clean v" "clean a"
  shows "\<exists>h rest. find_sub crlf2 (response_text hs code (a @ crlf2 @ b) content) = Some h \<and>
    drop (h + 4) (response_text hs code (a @ crlf2 @ b) content) = b @ rest"
proof -
  let ?ms = "(''HTTP/1.1 '' @ to_string code @ '' '' @ reason_of code) # map (\<lambda>(n, v). n @ '': '' @ v) hs"
  let ?l = "''Content-Type: '' @ a"
  let ?rest = "crlf @ text_lines [''Content-Length: '' @ to_string (int (length content)), ''Connection: close''] @
      crlf @ content"
  have good: "list_all good_line (?ms @ [?l])"
    using assms clean_to_string [of code] clean_reason [of code]
    by (auto simp: good_line_def clean_def list_all_iff cr_def nl_def)
  have whole: "response_text hs code (a @ crlf2 @ b) content = text_lines (?ms @ [?l]) @ crlf @ b @ ?rest"
    by (simp add: response_text_def response_head_def text_lines_def crlf_def crlf2_def)
  then have split: "response_text hs code (a @ crlf2 @ b) content = (text_lines ?ms @ ?l) @ crlf2 @ b @ ?rest"
    by (simp add: text_lines_def crlf_def crlf2_def)
  have f: "find_sub crlf2 (response_text hs code (a @ crlf2 @ b) content) = Some (length (text_lines ?ms @ ?l))"
    using head_lines [OF good, of "b @ ?rest"] by (simp only: whole)
  have "drop (length p + 4) (p @ crlf2 @ c) = c" for p c
    by (simp add: crlf2_def)
  then have "drop (length (text_lines ?ms @ ?l) + 4) (response_text hs code (a @ crlf2 @ b) content) = b @ ?rest"
    unfolding split .
  with f show ?thesis by blast
qed

theorem web_type_injects_witness:
  "\<exists>h rest. find_sub crlf2 (response_text [] 200 (''text/plain'' @ crlf2 @ ''evil'') ''ok'') = Some h \<and>
    drop (h + 4) (response_text [] 200 (''text/plain'' @ crlf2 @ ''evil'') ''ok'') = ''evil'' @ rest"
  by (rule web_type_injects) (simp_all add: clean_def cr_def nl_def)

end
