(* ===== verification/Http_Client.thy ===== *)
theory Http_Client
  imports Web_Server
begin

text \<open>
  The HTTP client of \<open>src/include/HTTPClient.h\<close> and \<open>src/src/httpclient.cpp\<close>: the URL parser, the
  request it writes, the reader of the response with the chunked transfer coding. The network is
  as for the server: what \<open>send\<close> answers and what \<open>recv\<close> returns. The lemmas join the two ends: the
  server reads what the client wrote, the client reads what the server wrote.
\<close>

section \<open>State\<close>

record http_client =
  hcHost :: string
  hcPort :: int
  hcPath :: string
  hcHeaders :: "(string \<times> string) list"
  hcBody :: string

definition http_init :: http_client where
  "http_init = \<lparr>hcHost = [], hcPort = 80, hcPath = [], hcHeaders = [], hcBody = []\<rparr>"

text \<open>\<open>std::map<std::string, std::string>\<close>: sorted by name, compared as unsigned characters.\<close>

fun text_less :: "string \<Rightarrow> string \<Rightarrow> bool" where
  "text_less [] t = (t \<noteq> [])"
| "text_less (c # s) [] = False"
| "text_less (c # s) (d # t) = (ord c < ord d \<or> c = d \<and> text_less s t)"

fun map_set :: "string \<Rightarrow> string \<Rightarrow> (string \<times> string) list \<Rightarrow> (string \<times> string) list" where
  "map_set k v [] = [(k, v)]"
| "map_set k v ((k', v') # hs) =
    (if k = k' then (k, v) # hs
     else if text_less k k' then (k, v) # (k', v') # hs
     else (k', v') # map_set k v hs)"

definition http_addHeader :: "string \<Rightarrow> string \<Rightarrow> http_client \<Rightarrow> http_client" where
  "http_addHeader name val c = c\<lparr>hcHeaders := map_set name val (hcHeaders c)\<rparr>"

definition http_end :: "http_client \<Rightarrow> http_client" where
  "http_end c = c\<lparr>hcBody := [], hcHeaders := []\<rparr>"

definition http_begin :: "string \<Rightarrow> http_client \<Rightarrow> bool \<times> http_client" where
  "http_begin url c =
    (let c = c\<lparr>hcHeaders := [], hcBody := []\<rparr> in
     case (if prefix ''https://'' url then Some (443, drop 8 url)
           else if prefix ''http://'' url then Some (80, drop 7 url) else None) of
       None \<Rightarrow> (False, c)
     | Some (p, u) \<Rightarrow>
         let (h, pa) = (case find_sub ''/'' u of Some s \<Rightarrow> (take s u, drop s u) | None \<Rightarrow> (u, ''/''));
             c = c\<lparr>hcPort := p, hcHost := h, hcPath := pa\<rparr>
         in case find_sub '':'' h of
              None \<Rightarrow> (h \<noteq> [], c)
            | Some k \<Rightarrow>
                (case strtol10 (drop (k + 1) h) of
                   None \<Rightarrow> (False, c)
                 | Some (v, rest) \<Rightarrow>
                     if rest \<noteq> [] \<and> hd rest \<noteq> CHR 0x00 \<or> v \<le> 0 \<or> v > 65535 then (False, c)
                     else (take k h \<noteq> [], c\<lparr>hcPort := v, hcHost := take k h\<rparr>)))"

section \<open>The request\<close>

text \<open>A null payload is \<open>None\<close>.\<close>

definition request_head :: "http_client \<Rightarrow> string \<Rightarrow> string option \<Rightarrow> string list" where
  "request_head c meth payload =
    [meth @ '' '' @ hcPath c @ '' HTTP/1.1'', ''Host: '' @ hcHost c] @
    map (\<lambda>(n, v). n @ '': '' @ v) (hcHeaders c) @
    (case payload of
       None \<Rightarrow> []
     | Some p \<Rightarrow>
         [''Content-Length: '' @ to_string (int (length p))] @
         (if ''Content-Type'' \<notin> fst ` set (hcHeaders c)
          then [''Content-Type: application/x-www-form-urlencoded''] else [])) @
    [''Connection: close'']"

definition request_text :: "http_client \<Rightarrow> string \<Rightarrow> string option \<Rightarrow> string" where
  "request_text c meth payload =
    text_lines (request_head c meth payload) @ crlf @ (case payload of None \<Rightarrow> [] | Some p \<Rightarrow> p)"

section \<open>The response\<close>

definition chunked_line :: "string \<Rightarrow> bool" where
  "chunked_line line =
    (let l = chomp line in
     case find_sub '':'' l of
       None \<Rightarrow> False
     | Some k \<Rightarrow>
         map lower (take k l) = ''transfer-encoding'' \<and>
         find_sub ''chunked'' (map lower (drop (k + 1) l)) \<noteq> None)"

definition response_is_chunked :: "string \<Rightarrow> bool" where
  "response_is_chunked head = list_ex chunked_line (pieces nl head)"

function decode_chunked_body :: "string \<Rightarrow> string" where
  "decode_chunked_body s =
    (case find_sub crlf s of
       None \<Rightarrow> []
     | Some e \<Rightarrow>
         (case strtoul16 s of
            None \<Rightarrow> []
          | Some (sz, _) \<Rightarrow>
              if sz = 0 then []
              else
                (let rest = drop (e + 2) s
                 in if sz > length rest then rest
                    else take sz rest @ decode_chunked_body (drop (sz + 2) rest))))"
  by auto
termination
proof (relation "measure length", simp)
  fix s e sz and z :: "nat \<times> string" and y rest
  assume "find_sub crlf s = Some e" "rest = drop (e + 2) s"
  then have "e + 2 \<le> length s" "length rest = length s - (e + 2)"
    using find_sub_Some [of crlf s e] by (simp_all add: crlf_def)
  then show "(drop (sz + 2) rest, s) \<in> measure length"
    by simp
qed

declare decode_chunked_body.simps [simp del]

definition parse_status :: "string \<Rightarrow> int" where
  "parse_status resp =
    (if prefix ''HTTP/'' resp
     then (case find_sub '' '' resp of
             None \<Rightarrow> - 1
           | Some sp \<Rightarrow>
               if sp + 1 < length resp
               then (case strtol10 (drop (sp + 1) resp) of
                       Some (v, _) \<Rightarrow> if 100 \<le> v \<and> v \<le> 599 then v else - 1
                     | None \<Rightarrow> - 1)
               else - 1)
     else - 1)"

definition response_body :: "string \<Rightarrow> string" where
  "response_body resp =
    (case find_sub crlf2 resp of
       None \<Rightarrow> []
     | Some h \<Rightarrow>
         if response_is_chunked (take h resp) then decode_chunked_body (drop (h + 4) resp)
         else drop (h + 4) resp)"

text \<open>
  \<open>sendRequest\<close>, given whether the connection is made, how its socket answers and what it delivers.
  The result is the status, what was sent and the client; \<open>None\<close> when a call of \<open>send\<close> blocks.
\<close>

definition http_sendRequest ::
  "bool \<Rightarrow> send_result list \<Rightarrow> string list \<Rightarrow> string \<Rightarrow> string option \<Rightarrow> http_client \<Rightarrow>
   (int \<times> string \<times> http_client) option" where
  "http_sendRequest connected socket packets meth payload c =
    (if \<not> connected then Some (- 1, [], c)
     else
       (case send_loop socket (request_text c meth payload) of
          None \<Rightarrow> None
        | Some (sent, _) \<Rightarrow>
            if length sent \<noteq> length (request_text c meth payload) then Some (- 1, sent, c)
            else
              (let resp = concat (takeWhile (\<lambda>p. p \<noteq> []) packets)
               in Some (parse_status resp, sent, c\<lparr>hcBody := response_body resp\<rparr>))))"

definition http_GET where
  "http_GET connected socket packets c = http_sendRequest connected socket packets ''GET'' None c"

definition http_POST where
  "http_POST connected socket packets payload c =
    http_sendRequest connected socket packets ''POST'' (Some payload) c"

definition http_PUT where
  "http_PUT connected socket packets payload c =
    http_sendRequest connected socket packets ''PUT'' (Some payload) c"

definition http_getString :: "http_client \<Rightarrow> string" where
  "http_getString c = c_str (hcBody c)"

definition http_errorToString :: "int \<Rightarrow> string" where
  "http_errorToString code = (if code = - 1 then ''Connection failed'' else ''HTTP '' @ to_string code)"

section \<open>The chunked coding\<close>

text \<open>A body as a sender codes it: each chunk behind its length in hexadecimal, then the length 0.\<close>

definition encode_chunk :: "string \<Rightarrow> string" where
  "encode_chunk d = digits_of 16 (length d) @ crlf @ d @ crlf"

definition encode_chunked :: "string list \<Rightarrow> string" where
  "encode_chunked ds = concat (map encode_chunk ds) @ ''0'' @ crlf2"

lemma decode_chunk:
  assumes "d \<noteq> []" "length d < 2 ^ 64"
  shows "decode_chunked_body (encode_chunk d @ t) = d @ decode_chunked_body t"
proof -
  let ?s = "encode_chunk d @ t"
  have "cr \<notin> set (digits_of 16 n)" for n
  proof
    assume "cr \<in> set (digits_of 16 n)"
    then have "is_digit_in 16 cr"
      using digits_of_digits [of 16 cr n] by simp
    then show False
      by (simp add: is_digit_in_def hex_value_def)
  qed
  then have "find_sub crlf ?s = Some (length (digits_of 16 (length d)))"
    by (simp add: encode_chunk_def find_sub_crlf)
  moreover have "lower cr \<noteq> CHR ''x'' \<and> \<not> is_digit_in 16 cr"
    by (simp add: lower_def is_digit_in_def hex_value_def) (simp add: cr_def)
  then have "strtoul16 ?s = Some (length d, crlf @ d @ crlf @ t)"
    using strtoul16_numeral [of "crlf @ d @ crlf @ t" "length d"] assms(2)
    by (simp add: encode_chunk_def) (simp add: crlf_def)
  moreover have "drop (length (digits_of 16 (length d)) + 2) ?s = d @ crlf @ t"
    by (simp add: encode_chunk_def crlf_def)
  ultimately show ?thesis
    using assms(1) by (subst decode_chunked_body.simps) (simp add: crlf_def)
qed

lemma decode_last: "decode_chunked_body (''0'' @ crlf2) = []"
proof -
  have "find_sub crlf (''0'' @ crlf2) = Some 1" "strtoul16 (''0'' @ crlf2) = Some (0, crlf2)"
    by (simp_all add: crlf_def crlf2_def cr_def nl_def strtoul16_def sign_of_def is_space_def ord_def
        is_digit_in_def hex_value_def digits_value_def lower_def)
  then show ?thesis
    by (subst decode_chunked_body.simps) simp
qed

lemma decode_chunks:
  "\<forall>d \<in> set ds. d \<noteq> [] \<and> length d < 2 ^ 64 \<Longrightarrow> decode_chunked_body (encode_chunked ds) = concat ds"
proof (induction ds)
  case Nil
  then show ?case
    using decode_last by (simp add: encode_chunked_def)
next
  case (Cons d ds)
  then show ?case
    using decode_chunk [of d "encode_chunked ds"] by (simp add: encode_chunked_def)
qed

text \<open>
  The chunked coding is undone. A body sent in any number of non-empty chunks of any
  characters, line ends included, is put together again.
\<close>

theorem chunked_roundtrip:
  assumes "\<forall>d \<in> set ds. d \<noteq> [] \<and> length d < 2 ^ 64"
  shows "decode_chunked_body (encode_chunked ds) = concat ds"
  by (rule decode_chunks) (rule assms)

theorem chunked_roundtrip_witness:
  "decode_chunked_body (encode_chunked [''ab'' @ crlf, ''0'' @ crlf2]) = ''ab'' @ crlf @ ''0'' @ crlf2"
  using chunked_roundtrip [of "[''ab'' @ crlf, ''0'' @ crlf2]"] by (simp add: crlf_def crlf2_def)

section \<open>The server reads what the client writes\<close>

lemma chomp_good: "good_line l \<Longrightarrow> chomp l = l"
  by (auto simp: good_line_def chomp_def dest: last_in_set)

lemma line_functions_cr:
  assumes "good_line l"
  shows "header_line (l @ [cr]) = header_line l" "content_length_line (l @ [cr]) = content_length_line l"
    "chunked_line (l @ [cr]) = chunked_line l"
  using assms by (simp_all add: header_line_def content_length_line_def chunked_line_def chomp_good)

text \<open>A head of at least two lines, and what the server finds in it.\<close>

lemma head_state:
  fixes l1 z body :: string and ms :: "string list"
  defines "s \<equiv> text_lines (l1 # ms @ [z]) @ crlf @ body"
    and "hd_text \<equiv> text_lines (l1 # ms) @ z"
  assumes "list_all good_line (l1 # ms @ [z])"
  shows "find_sub crlf2 s = Some (length hd_text)" "take (length hd_text) s = hd_text"
    "drop (length hd_text + 4) s = body" "length s = length hd_text + 4 + length body"
    "find_sub crlf s = Some (length l1)" "take (length l1) s = l1"
    "take (length hd_text - (length l1 + 2)) (drop (length l1 + 2) s) = text_lines ms @ z"
proof -
  have whole: "s = hd_text @ crlf2 @ body"
    by (simp add: s_def hd_text_def crlf_def crlf2_def)
  show "find_sub crlf2 s = Some (length hd_text)"
    using head_lines [of "l1 # ms" z body] assms(3) by (simp add: s_def hd_text_def)
  show "take (length hd_text) s = hd_text" "drop (length hd_text + 4) s = body"
    "length s = length hd_text + 4 + length body"
    by (simp_all add: whole crlf2_def)
  have "s = l1 @ crlf @ (text_lines ms @ z @ crlf2 @ body)"
    by (simp add: whole hd_text_def)
  moreover have "cr \<notin> set l1"
    using assms(3) by (simp add: good_line_def)
  ultimately show "find_sub crlf s = Some (length l1)" "take (length l1) s = l1"
    "take (length hd_text - (length l1 + 2)) (drop (length l1 + 2) s) = text_lines ms @ z"
    using find_sub_crlf [of l1] by (simp_all add: hd_text_def crlf_def)
qed

lemma head_longer:
  "list_all good_line (l1 # ms @ [z]) \<Longrightarrow> length l1 + 2 < length (text_lines (l1 # ms) @ z)"
  by (simp add: good_line_def crlf_def)

lemma parsed_lines:
  assumes "list_all good_line (ms @ [z])"
  shows "concat (map header_line (pieces nl (text_lines ms @ z))) = concat (map header_line (ms @ [z]))"
    "parse_content_length (text_lines ms @ z) =
      foldl (\<lambda>acc l. case content_length_line l of None \<Rightarrow> acc | Some v \<Rightarrow> Some v) None (ms @ [z])"
    "response_is_chunked (text_lines ms @ z) = list_ex chunked_line (ms @ [z])"
proof -
  have p: "pieces nl (text_lines ms @ z) = map (\<lambda>l. l @ [cr]) ms @ [z]"
    using head_lines [OF assms, of "[]"] by simp
  have "\<And>l. l \<in> set ms \<Longrightarrow> good_line l"
    using assms by (simp add: list_all_iff)
  note c = line_functions_cr [OF this]
  show "concat (map header_line (pieces nl (text_lines ms @ z))) = concat (map header_line (ms @ [z]))"
    by (simp add: p c(1) cong: map_cong)
  show "parse_content_length (text_lines ms @ z) =
      foldl (\<lambda>acc l. case content_length_line l of None \<Rightarrow> acc | Some v \<Rightarrow> Some v) None (ms @ [z])"
    by (simp add: p parse_content_length_def foldl_map c(2) cong: foldl_cong)
  show "response_is_chunked (text_lines ms @ z) = list_ex chunked_line (ms @ [z])"
    using c(3) by (auto simp: p response_is_chunked_def list_ex_iff)
qed

lemma foldl_keeps:
  "\<forall>l \<in> set ls. content_length_line l = None \<Longrightarrow>
   foldl (\<lambda>acc l. case content_length_line l of None \<Rightarrow> acc | Some v \<Rightarrow> Some v) a ls = a"
  by (induction ls arbitrary: a) auto

lemma scan_word_space:
  assumes "w \<noteq> []" "\<forall>c \<in> set w. \<not> is_space c" "length w \<le> n"
  shows "scan_word n (w @ CHR '' '' # r) = Some (w, CHR '' '' # r)"
    "scan_word n (CHR '' '' # w @ CHR '' '' # r) = Some (w, CHR '' '' # r)"
proof -
  have sp: "is_space CHR '' ''"
    by (simp add: is_space_def ord_def)
  have "dropWhile is_space (w @ CHR '' '' # r) = w @ CHR '' '' # r"
    using assms(1,2) by (cases w) auto
  moreover have "takeWhile (\<lambda>c. \<not> is_space c) (w @ CHR '' '' # r) = w"
    using assms(2) sp by (auto simp: takeWhile_append)
  ultimately show "scan_word n (w @ CHR '' '' # r) = Some (w, CHR '' '' # r)"
    "scan_word n (CHR '' '' # w @ CHR '' '' # r) = Some (w, CHR '' '' # r)"
    using assms(1,3) sp by (cases n; simp add: scan_word_def)+
qed

text \<open>A request target that needs no decoding, and a client whose texts fit on their lines.\<close>

definition plain_target :: "string \<Rightarrow> bool" where
  "plain_target p \<longleftrightarrow> p \<noteq> [] \<and> length p \<le> 1023 \<and>
    (\<forall>c \<in> set p. \<not> is_space c \<and> c \<notin> {CHR ''?'', CHR ''%'', CHR ''+'', CHR 0x00})"

definition clean_client :: "http_client \<Rightarrow> bool" where
  "clean_client c \<longleftrightarrow> plain_target (hcPath c) \<and> clean (hcHost c) \<and>
    (\<forall>(n, v) \<in> set (hcHeaders c). clean n \<and> clean v)"

lemma request_head_good:
  assumes "clean_client c" "meth \<in> {''GET'', ''POST'', ''PUT''}"
  shows "list_all good_line (request_head c meth payload)"
proof -
  have "is_space cr" "is_space nl"
    by (simp_all add: is_space_def)
  then have "clean (hcPath c)"
    using assms(1) unfolding clean_client_def plain_target_def clean_def by metis
  moreover have "clean meth"
    using assms(2) by (auto simp: clean_def cr_def nl_def)
  moreover have "clean (to_string (int n))" for n
    by (rule clean_to_string)
  moreover have "clean (hcHost c)" "\<forall>(n, v) \<in> set (hcHeaders c). clean n \<and> clean v"
    using assms(1) by (simp_all add: clean_client_def)
  ultimately show ?thesis
    by (auto simp: request_head_def good_line_def clean_def list_all_iff cr_def nl_def split: option.split)
qed

lemma form_line: "content_length_line ''Content-Type: application/x-www-form-urlencoded'' = None"
proof -
  have "find_sub '':'' ''Content-Type: application/x-www-form-urlencoded'' = Some 12"
    "chomp ''Content-Type: application/x-www-form-urlencoded'' = ''Content-Type: application/x-www-form-urlencoded''"
    by (simp_all add: chomp_def cr_def)
  then show ?thesis
    by (simp add: content_length_line_def lower_def ord_def)
qed

lemma length_line:
  assumes "n < 2 ^ 63"
  shows "content_length_line (''Content-Length: '' @ to_string (int n)) = Some n"
proof -
  have "good_line (''Content-Length: '' @ to_string (int n))"
    using clean_to_string [of "int n"] by (auto simp: good_line_def clean_def cr_def nl_def)
  from line_functions_cr(2) [OF this] show ?thesis
    using content_length_line_declares [OF assms] by (simp add: to_string_def)
qed

lemma request_shape:
  "\<exists>ms. request_head c meth payload =
      (meth @ '' '' @ hcPath c @ '' HTTP/1.1'') # (''Host: '' @ hcHost c) # ms @ [''Connection: close''] \<and>
    (\<forall>a p. payload = Some p \<longrightarrow> length p < 2 ^ 63 \<longrightarrow>
      foldl (\<lambda>acc l. case content_length_line l of None \<Rightarrow> acc | Some v \<Rightarrow> Some v) a (ms @ [''Connection: close'']) =
      Some (length p))"
proof -
  define hs where "hs = map (\<lambda>(n, v). n @ '': '' @ v) (hcHeaders c)"
  define tail where "tail = (if ''Content-Type'' \<notin> fst ` set (hcHeaders c)
          then [''Content-Type: application/x-www-form-urlencoded''] else [])"
  define ms where "ms = hs @ (case payload of None \<Rightarrow> []
      | Some p \<Rightarrow> (''Content-Length: '' @ to_string (int (length p))) # tail)"
  have "\<forall>l \<in> set (tail @ [''Connection: close'']). content_length_line l = None"
    using form_line connection_line by (simp add: tail_def)
  note keeps = foldl_keeps [OF this]
  show ?thesis
  proof (intro exI [of _ ms] conjI allI impI)
    show "request_head c meth payload =
      (meth @ '' '' @ hcPath c @ '' HTTP/1.1'') # (''Host: '' @ hcHost c) # ms @ [''Connection: close'']"
      by (simp add: request_head_def ms_def hs_def tail_def split: option.split)
  next
    fix a p assume p: "payload = Some p" "length p < 2 ^ 63"
    then have "ms @ [''Connection: close''] =
        hs @ (''Content-Length: '' @ to_string (int (length p))) # (tail @ [''Connection: close''])"
      by (simp add: ms_def)
    then show "foldl (\<lambda>acc l. case content_length_line l of None \<Rightarrow> acc | Some v \<Rightarrow> Some v) a
        (ms @ [''Connection: close'']) = Some (length p)"
      using length_line [OF p(2)] keeps by (simp only: foldl_append foldl_Cons option.case)
  qed
qed

definition payload_of :: "string option \<Rightarrow> string" where
  "payload_of payload = (case payload of None \<Rightarrow> [] | Some p \<Rightarrow> p)"

lemma set_target_plain: "plain_target p \<Longrightarrow> set_target p w = w\<lparr>curUri := p\<rparr>"
proof -
  assume "plain_target p"
  then have "CHR ''?'' \<notin> set p" "CHR ''+'' \<notin> set p" "CHR ''%'' \<notin> set p"
    unfolding plain_target_def by blast+
  then show ?thesis
    by (simp add: set_target_def find_sub_char_None url_decode_plain)
qed

lemma request_line_scan:
  assumes "plain_target p" "meth \<in> {''GET'', ''POST'', ''PUT''}"
  shows "length (meth @ '' '' @ p @ '' HTTP/1.1'') < 2048"
    "\<exists>r. scan_word 15 (c_str (meth @ '' '' @ p @ '' HTTP/1.1'')) = Some (meth, r) \<and>
      scan_word 1023 r = Some (p, '' HTTP/1.1'')"
proof -
  have m: "length meth \<le> 15" "meth \<noteq> []" "\<forall>c \<in> set meth. \<not> is_space c" "CHR 0x00 \<notin> set meth"
    using assms(2) by (auto simp: is_space_def ord_def)
  have p: "p \<noteq> []" "length p \<le> 1023" "\<forall>c \<in> set p. \<not> is_space c" "CHR 0x00 \<notin> set p"
    using assms(1) by (auto simp: plain_target_def)
  then show "length (meth @ '' '' @ p @ '' HTTP/1.1'') < 2048"
    using m by simp
  have "c_str (meth @ '' '' @ p @ '' HTTP/1.1'') = meth @ CHR '' '' # p @ '' HTTP/1.1''"
    using m(4) p(4) by (subst c_str_id) auto
  then show "\<exists>r. scan_word 15 (c_str (meth @ '' '' @ p @ '' HTTP/1.1'')) = Some (meth, r) \<and>
      scan_word 1023 r = Some (p, '' HTTP/1.1'')"
    using scan_word_space(1) [OF m(2,3,1), of "p @ '' HTTP/1.1''"] scan_word_space(2) [OF p(1,3,2), of "''HTTP/1.1''"]
    by simp
qed

lemma body_of_state:
  assumes "find_sub crlf2 s = Some h" "drop (h + 4) s = body" "length s = h + 4 + length body"
    and "length body \<le> kMaxBodyBytes" "body = [] \<or> parse_content_length (take h s) = Some (length body)"
  shows "body_text (state_of s) = body"
  using assms by (auto simp: body_text_def state_of_def Let_def)

lemma request_parsed:
  assumes "clean_client c" "meth \<in> {''GET'', ''POST'', ''PUT''}"
    and "length (payload_of payload) \<le> kMaxBodyBytes"
    and "length (text_lines (request_head c meth payload)) + 2 \<le> kMaxHeaderBytes"
    and "concat packets = request_text c meth payload" "[] \<notin> set packets"
  shows "reqText (recv_loop packets recv_init) \<noteq> [] \<and>
    (\<exists>w'. parse_request (recv_loop packets recv_init) w = (True, w') \<and>
      curUri w' = hcPath c \<and> curMethod w' = parseMethod meth \<and> curBody w' = payload_of payload \<and>
      curHeaders w' = concat (map header_line (drop 1 (request_head c meth payload))) \<and>
      curParams w' = (if parseMethod meth = HTTP_POST \<and> payload_of payload \<noteq> [] \<and>
          find_sub ''application/x-www-form-urlencoded'' (web_header ''Content-Type'' w') \<noteq> None
        then map query_pair (pieces CHR ''&'' (payload_of payload)) else []) \<and>
      routes w' = routes w \<and> notFoundHandler w' = notFoundHandler w \<and> clientOpen w' = clientOpen w \<and>
      answers w' = answers w \<and> sentText w' = sentText w \<and> respHeaders w' = [])"
proof -
  let ?p = "payload_of payload" and ?l1 = "meth @ '' '' @ hcPath c @ '' HTTP/1.1''"
  obtain ms where ms: "request_head c meth payload = ?l1 # (''Host: '' @ hcHost c) # ms @ [''Connection: close'']"
    "\<forall>a p. payload = Some p \<longrightarrow> length p < 2 ^ 63 \<longrightarrow>
      foldl (\<lambda>acc l. case content_length_line l of None \<Rightarrow> acc | Some v \<Rightarrow> Some v) a (ms @ [''Connection: close'']) =
      Some (length p)"
    using request_shape [of c meth payload] by blast
  define ns where "ns = (''Host: '' @ hcHost c) # ms"
  define z where "z = ''Connection: close''"
  define l1 where "l1 = ?l1"
  define s where "s = request_text c meth payload"
  have head: "request_head c meth payload = l1 # ns @ [z]"
    using ms(1) by (simp add: ns_def l1_def z_def)
  have s: "s = text_lines (l1 # ns @ [z]) @ crlf @ ?p"
    by (simp only: s_def request_text_def head payload_of_def)
  have good: "list_all good_line (l1 # ns @ [z])"
    using request_head_good [OF assms(1,2), of payload] by (simp only: head)
  define hd_text where "hd_text = text_lines (l1 # ns) @ z"
  note st = head_state [OF good, of ?p, folded s hd_text_def]
  have "length hd_text + 4 \<le> kMaxHeaderBytes"
    using assms(4) by (simp add: head hd_text_def crlf_def)
  note longer = head_longer [OF good, folded hd_text_def]
  note frag = fragmented_parse [OF st(1) \<open>length hd_text + 4 \<le> kMaxHeaderBytes\<close> st(5) longer _ assms(6)]
  have declared: "?p = [] \<or> parse_content_length hd_text = Some (length ?p)"
  proof (cases payload)
    case (Some p)
    have "length p < 2 ^ 63"
      using Some assms(3) by (simp add: payload_of_def kMaxBodyBytes_def)
    moreover have "parse_content_length hd_text =
        foldl (\<lambda>acc l. case content_length_line l of None \<Rightarrow> acc | Some v \<Rightarrow> Some v) None ((l1 # ns) @ [z])"
      using parsed_lines(2) [of "l1 # ns" z] good by (simp add: hd_text_def)
    ultimately show ?thesis
      using ms(2) Some by (simp add: payload_of_def ns_def z_def l1_def split: option.splits)
  qed (simp add: payload_of_def)
  have line: "request_line (state_of s) = l1"
    by (simp add: request_line_def state_of_def st(5,6))
  have "header_text (state_of s) = Some (text_lines ns @ z)"
    using longer st(7) by (simp add: header_text_def state_of_def st(1,5))
  moreover have "concat (map header_line (pieces nl (text_lines ns @ z))) = concat (map header_line (ns @ [z]))"
    using parsed_lines(1) [of ns z] good by simp
  moreover have "body_text (state_of s) = ?p"
    using body_of_state [OF st(1,3,4) assms(3)] declared st(2) by simp
  moreover obtain r where "scan_word 15 (c_str l1) = Some (meth, r)"
    "scan_word 1023 r = Some (hcPath c, '' HTTP/1.1'')" "length l1 < 2048"
    using request_line_scan [OF _ assms(2), of "hcPath c"] assms(1) by (auto simp: clean_client_def l1_def)
  moreover have "plain_target (hcPath c)"
    using assms(1) by (simp add: clean_client_def)
  ultimately have "\<exists>w'. parse_request (state_of s) w = (True, w') \<and>
      curUri w' = hcPath c \<and> curMethod w' = parseMethod meth \<and> curBody w' = ?p \<and>
      curHeaders w' = concat (map header_line (ns @ [z])) \<and>
      curParams w' = (if parseMethod meth = HTTP_POST \<and> ?p \<noteq> [] \<and>
          find_sub ''application/x-www-form-urlencoded'' (web_header ''Content-Type'' w') \<noteq> None
        then map query_pair (pieces CHR ''&'' ?p) else []) \<and>
      routes w' = routes w \<and> notFoundHandler w' = notFoundHandler w \<and> clientOpen w' = clientOpen w \<and>
      answers w' = answers w \<and> sentText w' = sentText w \<and> respHeaders w' = []"
    by (simp add: parse_request_def line parseHeaders_def parseQueryString_def web_header_def Let_def
        set_target_plain) auto
  then show ?thesis
    using frag [of w] assms(5) head by (simp add: s_def)
qed

lemma header_line_colon:
  "CHR '':'' \<notin> set n \<Longrightarrow> good_line (n @ '': '' @ v) \<Longrightarrow> header_line (n @ '': '' @ v) = [(n, v)]"
  using find_sub_char [of "CHR '':''" n "'' '' @ v"] by (simp add: header_line_def chomp_good)

lemma host_line: "clean h \<Longrightarrow> header_line (''Host: '' @ h) = [(''Host'', h)]"
  using header_line_colon [of "''Host''" h] by (simp add: good_line_def clean_def cr_def nl_def)

lemma first_header: "curHeaders w = (n, v) # hs \<Longrightarrow> c_str n = n \<Longrightarrow> web_header n w = c_str v"
  by (simp add: web_header_def)

text \<open>
  The server receives the request the client made. For a GET, POST or PUT of a client with any
  clean headers, whatever the packets, the handler of the server sees the client's path, method,
  host and payload.
\<close>

theorem http_request_received:
  assumes "clean_client c" "meth \<in> {''GET'', ''POST'', ''PUT''}"
    and "length (payload_of payload) \<le> kMaxBodyBytes"
    and "length (text_lines (request_head c meth payload)) + 2 \<le> kMaxHeaderBytes"
    and "concat packets = request_text c meth payload" "[] \<notin> set packets"
  shows "\<exists>w'. parse_request (recv_loop packets recv_init) w = (True, w') \<and>
    curUri w' = hcPath c \<and> curMethod w' = parseMethod meth \<and> curBody w' = payload_of payload \<and>
    web_header ''Host'' w' = c_str (hcHost c)"
proof -
  obtain w' where w': "parse_request (recv_loop packets recv_init) w = (True, w')"
    "curUri w' = hcPath c" "curMethod w' = parseMethod meth" "curBody w' = payload_of payload"
    "curHeaders w' = concat (map header_line (drop 1 (request_head c meth payload)))"
    using request_parsed [OF assms, of w] by blast
  have "clean (hcHost c)"
    using assms(1) by (simp add: clean_client_def)
  then have "web_header ''Host'' w' = c_str (hcHost c)"
    using w'(5) host_line [of "hcHost c"] by (intro first_header) (simp_all add: request_head_def c_str_def)
  with w' show ?thesis
    by blast
qed

definition demo_client :: http_client where
  "demo_client = http_init\<lparr>hcHost := ''h'', hcPath := ''/a''\<rparr>"

lemma demo_facts:
  "clean_client demo_client" "hcHost demo_client = ''h''" "hcHeaders demo_client = []"
  "length (text_lines (request_head demo_client ''GET'' None)) = 45"
  "length (request_text demo_client ''GET'' None) = 47"
  by (simp_all add: demo_client_def http_init_def clean_client_def plain_target_def clean_def is_space_def
      ord_def cr_def nl_def request_head_def request_text_def crlf_def)

theorem http_request_received_witness:
  "\<exists>w'. parse_request (recv_loop
      [take 3 (request_text demo_client ''GET'' None), drop 3 (request_text demo_client ''GET'' None)]
      recv_init) w = (True, w') \<and> curUri w' = ''/a'' \<and> web_header ''Host'' w' = ''h''"
proof -
  have "[] \<notin> set [take 3 (request_text demo_client ''GET'' None), drop 3 (request_text demo_client ''GET'' None)]"
    using demo_facts(5) by auto
  then show ?thesis
    using http_request_received [of demo_client "''GET''" None
        "[take 3 (request_text demo_client ''GET'' None), drop 3 (request_text demo_client ''GET'' None)]" w]
      demo_facts
    by (auto simp: payload_of_def kMaxHeaderBytes_def c_str_def demo_client_def)
qed



section \<open>The client reads what the server writes\<close>

definition plain_headers :: "(string \<times> string) list \<Rightarrow> bool" where
  "plain_headers hs \<longleftrightarrow> (\<forall>(n, v) \<in> set hs. clean n \<and> clean v \<and> CHR '':'' \<notin> set n \<and>
    map lower n \<noteq> ''transfer-encoding'')"

lemma chunked_line_colon:
  "CHR '':'' \<notin> set n \<Longrightarrow> map lower n \<noteq> ''transfer-encoding'' \<Longrightarrow> good_line (n @ '': '' @ v) \<Longrightarrow>
   \<not> chunked_line (n @ '': '' @ v)"
  using find_sub_char [of "CHR '':''" n "'' '' @ v"] by (simp add: chunked_line_def chomp_good)

lemma no_colon_digits: "CHR '':'' \<notin> set (to_string i)"
proof -
  have "CHR '':'' \<notin> set (digits_of 10 n)" for n
    using digits_of_clean [of "CHR '':''" n] by (auto simp: ord_def)
  then show ?thesis
    by (simp add: to_string_def)
qed

lemma status_line_plain:
  assumes "good_line (''HTTP/1.1 '' @ to_string code @ '' '' @ reason_of code)"
  shows "\<not> chunked_line (''HTTP/1.1 '' @ to_string code @ '' '' @ reason_of code)"
proof -
  have "CHR '':'' \<notin> set (''HTTP/1.1 '' @ to_string code @ '' '' @ reason_of code)"
    using no_colon_digits [of code] by (simp add: reason_of_def)
  from find_sub_char_None [OF this] chomp_good [OF assms] show ?thesis
    by (simp add: chunked_line_def)
qed

lemma names_lower:
  "map lower ''Content-Type'' \<noteq> ''transfer-encoding''" "map lower ''Content-Length'' \<noteq> ''transfer-encoding''"
  "map lower ''Connection'' \<noteq> ''transfer-encoding''"
  by code_simp+

lemma response_not_chunked:
  assumes "plain_headers hs" "clean ctype"
  shows "\<not> list_ex chunked_line (response_head hs code ctype content)"
proof -
  have "\<forall>(n, v) \<in> set hs. clean n \<and> clean v"
    using assms(1) by (auto simp: plain_headers_def)
  note good = response_head_good [OF this assms(2), of code content]
  then have status: "\<not> chunked_line (''HTTP/1.1 '' @ to_string code @ '' '' @ reason_of code)"
    by (intro status_line_plain) (simp add: response_head_def)
  have custom: "\<not> chunked_line (n @ '': '' @ v)" if "(n, v) \<in> set hs" for n v
    using that assms(1) good
    by (intro chunked_line_colon) (auto simp: plain_headers_def response_head_def list_all_iff)
  have ctype: "ctype \<noteq> [] \<Longrightarrow> \<not> chunked_line (''Content-Type: '' @ ctype)"
    using chunked_line_colon [of "''Content-Type''" ctype] names_lower(1) good by (simp add: response_head_def)
  have len: "\<not> chunked_line (''Content-Length: '' @ to_string (int (length content)))"
    using chunked_line_colon [of "''Content-Length''" "to_string (int (length content))"] names_lower(2) good
    by (simp add: response_head_def)
  have conn: "\<not> chunked_line ''Connection: close''"
    using chunked_line_colon [of "''Connection''" "''close''"] names_lower(3) good
    by (simp add: response_head_def)
  show ?thesis
    using status custom ctype len conn unfolding list_ex_iff response_head_def by auto
qed

lemma response_parsed:
  assumes "plain_headers hs" "clean ctype" "100 \<le> code" "code \<le> 599"
  shows "parse_status (response_text hs code ctype content) = code \<and>
    response_body (response_text hs code ctype content) = content"
proof
  let ?s = "response_text hs code ctype content"
  have hs: "\<forall>(n, v) \<in> set hs. clean n \<and> clean v"
    using assms(1) by (auto simp: plain_headers_def)
  note good = response_head_good [OF hs assms(2), of code content]
  obtain l1 ms where shape: "response_head hs code ctype content = l1 # ms @ [''Connection: close'']"
    and l1: "l1 = ''HTTP/1.1 '' @ to_string code @ '' '' @ reason_of code"
    by (simp add: response_head_def)
  have s: "?s = text_lines (l1 # ms @ [''Connection: close'']) @ crlf @ content"
    by (simp only: response_text_def shape)
  note st = head_state [OF good [unfolded shape], of content, folded s]
  have "\<not> response_is_chunked (text_lines (l1 # ms) @ ''Connection: close'')"
    using parsed_lines(3) [of "l1 # ms" "''Connection: close''"] good shape
      response_not_chunked [OF assms(1,2), of code content] by simp
  with st(2) have "\<not> response_is_chunked (take (length (text_lines (l1 # ms) @ ''Connection: close'')) ?s)"
    by (simp only: simp_thms)
  then show "response_body ?s = content"
    unfolding response_body_def st(1) option.case st(3) by (simp only: if_False)
  obtain t where t: "?s = ''HTTP/1.1'' @ CHR '' '' # digits_of 10 (nat code) @ CHR '' '' # t"
    using assms(3) by (simp add: s l1 to_string_def)
  have "find_sub '' '' ?s = Some 8"
    unfolding t using find_sub_char [of "CHR '' ''" "''HTTP/1.1''"] by simp
  moreover have "strtol10 (drop 9 ?s) = Some (code, CHR '' '' # t)"
    unfolding t using strtol10_numeral(1) [of "CHR '' '' # t" "nat code"] assms(3,4)
    by (simp add: is_digit_in_def hex_value_def ord_def)
  ultimately show "parse_status ?s = code"
    unfolding parse_status_def using assms(3,4) by (simp add: t)
qed

lemma no_empty_packets: "[] \<notin> set ps \<Longrightarrow> takeWhile (\<lambda>p. p \<noteq> []) ps = ps"
  by (auto simp: takeWhile_eq_all_conv)

lemma client_receives:
  assumes "healthy socket" "length (request_text c meth payload) \<le> capacity_of socket"
    and "plain_headers hs" "clean ctype" "100 \<le> code" "code \<le> 599"
    and "concat packets = response_text hs code ctype content" "[] \<notin> set packets"
  shows "http_sendRequest True socket packets meth payload c =
    Some (code, request_text c meth payload, c\<lparr>hcBody := content\<rparr>)"
proof -
  obtain rs where "send_loop socket (request_text c meth payload) = Some (request_text c meth payload, rs)"
    using send_loop_complete [OF assms(1,2)] by blast
  then show ?thesis
    using response_parsed [OF assms(3-6), of content]
    unfolding http_sendRequest_def no_empty_packets [OF assms(8)] assms(7) by (simp add: Let_def)
qed

text \<open>
  C1: a whole exchange. A client asks an open server, whose first matching route answers with a function of
  the body. It asks with GET, POST or PUT for a plain path (at most 1023 characters, no white space, query or
  escapes), the headers on both sides have no line breaks, head and payload are within the server's limits, the
  status is 100 to 599, and both sockets take, in whatever pieces, as many bytes as they are given. However the
  request and the response are cut up on the way, the handler is run on the
  client's payload and the client gets the handler's status and content.
\<close>

theorem http_exchange:
  assumes "clean_client c" "meth \<in> {''GET'', ''POST'', ''PUT''}"
    and "length (payload_of payload) \<le> kMaxBodyBytes"
    and "length (text_lines (request_head c meth payload)) + 2 \<le> kMaxHeaderBytes"
    and "healthy csock" "length (request_text c meth payload) \<le> capacity_of csock"
    and "serverOpen w"
    and "find (\<lambda>(u, m, h). u = hcPath c \<and> (m = 0 \<or> m = parseMethod meth)) (routes w) = Some (u, m, h)"
    and "\<And>w1. run h w1 = web_send code ctype (f (curBody w1)) w1"
    and "clean ctype" "100 \<le> code" "code \<le> 599"
    and "healthy ssock" "length (response_text [] code ctype (f (payload_of payload))) \<le> capacity_of ssock"
    and "concat request = request_text c meth payload" "[] \<notin> set request"
    and "concat response = response_text [] code ctype (f (payload_of payload))" "[] \<notin> set response"
  shows "\<exists>w'. handleClient run (Some (request, ssock)) w = Some w' \<and> sentText w' = concat response \<and>
    http_sendRequest True csock response meth payload c =
      Some (code, concat request, c\<lparr>hcBody := f (payload_of payload)\<rparr>)"
proof -
  let ?w = "w\<lparr>answers := ssock, sentText := [], clientOpen := True\<rparr>"
  let ?resp = "response_text [] code ctype (f (payload_of payload))"
  obtain w1 where w1: "parse_request (recv_loop request recv_init) ?w = (True, w1)"
      "reqText (recv_loop request recv_init) \<noteq> []"
      "curUri w1 = hcPath c" "curMethod w1 = parseMethod meth" "curBody w1 = payload_of payload"
      "routes w1 = routes w" "clientOpen w1" "answers w1 = ssock" "sentText w1 = []" "respHeaders w1 = []"
    using request_parsed [OF assms(1-4,15,16), of ?w] by auto
  obtain rs where "send_loop ssock ?resp = Some (?resp, rs)"
    using send_loop_complete [OF assms(13,14)] by blast
  then have "web_dispatch run w1 = Some (w1\<lparr>sentText := ?resp, answers := rs, respHeaders := []\<rparr>)"
    using assms(8,9) w1 by (simp add: web_dispatch_def web_send_def)
  then have "handleClient run (Some (request, ssock)) w =
      Some (w1\<lparr>sentText := ?resp, answers := rs, respHeaders := [], clientOpen := False\<rparr>)"
    using w1(1,2) assms(7) by (simp add: handleClient_def processClient_def Let_def)
  moreover have "plain_headers []"
    by (simp add: plain_headers_def)
  note client_receives [OF assms(5,6) this assms(10-12,17,18)]
  ultimately show ?thesis
    using assms(15,17) by simp
qed

theorem http_exchange_witness:
  "\<exists>w'. handleClient (\<lambda>_ w. web_send 200 ''t'' (rev (curBody w)) w)
      (Some ([request_text demo_client ''GET'' None], [Took 90]))
      (web_on ''/a'' 1 (0 :: nat) (web_begin True True web_init)) = Some w' \<and>
    http_sendRequest True [Took 10, Interrupted, Took 90] [response_text [] 200 ''t'' []] ''GET'' None demo_client =
      Some (200, request_text demo_client ''GET'' None, demo_client\<lparr>hcBody := []\<rparr>)"
proof -
  have "length (response_text [] 200 ''t'' []) = 74"
    by (simp add: response_text_def response_head_def to_string_def digits_of.simps reason_of_def crlf_def)
  moreover from this have "response_text [] 200 ''t'' [] \<noteq> []"
    by auto
  moreover have "request_text demo_client ''GET'' None \<noteq> []" "hcPath demo_client = ''/a''"
    using demo_facts(5) by (auto simp: demo_client_def)
  ultimately show ?thesis
    using http_exchange [of demo_client "''GET''" None "[Took 10, Interrupted, Took 90]"
        "web_on ''/a'' 1 (0 :: nat) (web_begin True True web_init)" "''/a''" 1 0
        "\<lambda>_ w. web_send 200 ''t'' (rev (curBody w)) w" 200 "''t''" rev "[Took 90]"
        "[request_text demo_client ''GET'' None]" "[response_text [] 200 ''t'' []]"] demo_facts
    by (auto simp: payload_of_def kMaxBodyBytes_def kMaxHeaderBytes_def healthy_def capacity_of_def
        web_on_def web_begin_def web_init_def parseMethod_def clean_def cr_def nl_def)
qed

end
