(* ===== verification/Http_Server.thy ===== *)
theory Http_Server
  imports Http_Text
begin

text \<open>
  The ESP-IDF style HTTP server of \<open>src/include/esp_http_server.h\<close>: a table of handlers, the
  dispatch of a request by method and path, and the functions a handler uses on its request. A
  handler is a name whose effect on the request is the argument \<open>run\<close>. The lemmas say which
  handler a request reaches and what the request functions return.
\<close>

section \<open>State\<close>

datatype httpd_method = M_GET | M_POST | M_PUT | M_DELETE | M_PATCH

record httpd_request =
  rqMethod :: httpd_method
  rqUri :: string
  rqBody :: string
  rqResponse :: string
  rqStatus :: int
  rqType :: string

definition request_new :: httpd_request where
  "request_new = \<lparr>rqMethod = M_GET, rqUri = [], rqBody = [], rqResponse = [], rqStatus = 200,
     rqType = ''text/html''\<rparr>"

record httpd_config =
  serverPort :: u16
  ctrlPort :: u16
  maxOpenSockets :: u16
  maxUriHandlers :: u16
  maxRespHeaders :: u16
  backlogConn :: u16
  stackSize :: u64
  taskPriority :: u32

definition HTTPD_DEFAULT_CONFIG :: httpd_config where
  "HTTPD_DEFAULT_CONFIG = \<lparr>serverPort = 80, ctrlPort = 32768, maxOpenSockets = 7, maxUriHandlers = 8,
     maxRespHeaders = 8, backlogConn = 5, stackSize = 4096, taskPriority = 5\<rparr>"

record 'h httpd_server =
  srvRunning :: bool
  srvConfig :: httpd_config
  srvHandlers :: "(string \<times> httpd_method \<times> 'h) list"

definition httpd_init :: "'h httpd_server" where
  "httpd_init = \<lparr>srvRunning = False, srvConfig = HTTPD_DEFAULT_CONFIG, srvHandlers = []\<rparr>"

section \<open>Handlers\<close>

definition httpd_start :: "httpd_config \<Rightarrow> 'h httpd_server \<Rightarrow> esp_err \<times> 'h httpd_server" where
  "httpd_start config s = (ESP_OK, s\<lparr>srvRunning := True, srvConfig := config, srvHandlers := []\<rparr>)"

definition httpd_stop :: "'h httpd_server \<Rightarrow> esp_err \<times> 'h httpd_server" where
  "httpd_stop s = (ESP_OK, s\<lparr>srvRunning := False, srvHandlers := []\<rparr>)"

definition httpd_register_uri_handler ::
  "string \<times> httpd_method \<times> 'h \<Rightarrow> 'h httpd_server \<Rightarrow> esp_err \<times> 'h httpd_server" where
  "httpd_register_uri_handler e s = (ESP_OK, s\<lparr>srvHandlers := srvHandlers s @ [e]\<rparr>)"

fun erase_first :: "('a \<Rightarrow> bool) \<Rightarrow> 'a list \<Rightarrow> 'a list" where
  "erase_first p [] = []"
| "erase_first p (x # xs) = (if p x then xs else x # erase_first p xs)"

definition entry_is :: "string \<Rightarrow> httpd_method \<Rightarrow> string \<times> httpd_method \<times> 'h \<Rightarrow> bool" where
  "entry_is u m e \<longleftrightarrow> fst (snd e) = m \<and> fst e = u"

definition httpd_unregister_uri_handler ::
  "string \<Rightarrow> httpd_method \<Rightarrow> 'h httpd_server \<Rightarrow> esp_err \<times> 'h httpd_server" where
  "httpd_unregister_uri_handler u m s =
    (if list_ex (entry_is u m) (srvHandlers s)
     then (ESP_OK, s\<lparr>srvHandlers := erase_first (entry_is u m) (srvHandlers s)\<rparr>)
     else (ESP_FAIL, s))"

definition path_of :: "string \<Rightarrow> string" where
  "path_of u = (case find_sub ''?'' u of Some q \<Rightarrow> take q u | None \<Rightarrow> u)"

definition httpd_dispatch ::
  "('h \<Rightarrow> httpd_request \<Rightarrow> esp_err \<times> httpd_request) \<Rightarrow> httpd_method \<Rightarrow> string \<Rightarrow> string \<Rightarrow>
   httpd_request \<Rightarrow> 'h httpd_server \<Rightarrow> esp_err \<times> httpd_request" where
  "httpd_dispatch run m u b rq s =
    (let rq = rq\<lparr>rqMethod := m, rqUri := u, rqBody := b\<rparr>
     in case find (entry_is (path_of u) m) (srvHandlers s) of
          Some e \<Rightarrow> run (snd (snd e)) rq
        | None \<Rightarrow> (ESP_FAIL, rq))"

section \<open>Inside a handler\<close>

text \<open>\<open>buf\<close> is the memory behind the pointer; a negative length asks for the C string in it.\<close>

definition httpd_resp_send :: "httpd_request \<Rightarrow> string \<Rightarrow> int \<Rightarrow> esp_err \<times> httpd_request" where
  "httpd_resp_send rq buf len =
    (ESP_OK, rq\<lparr>rqResponse := (if len < 0 then c_str buf else take (nat len) buf)\<rparr>)"

definition httpd_resp_set_type :: "httpd_request \<Rightarrow> string \<Rightarrow> esp_err \<times> httpd_request" where
  "httpd_resp_set_type rq ty = (ESP_OK, rq\<lparr>rqType := ty\<rparr>)"

text \<open>\<open>atoi\<close> is \<open>strtol\<close> cut to an \<open>int\<close>, 0 when there is no number.\<close>

definition httpd_resp_set_status :: "httpd_request \<Rightarrow> string \<Rightarrow> esp_err \<times> httpd_request" where
  "httpd_resp_set_status rq status =
    (ESP_OK, rq\<lparr>rqStatus := (case strtol10 status of None \<Rightarrow> 0 | Some (v, _) \<Rightarrow> sint (word_of_int v :: u32))\<rparr>)"

definition httpd_resp_send_404 :: "httpd_request \<Rightarrow> esp_err \<times> httpd_request" where
  "httpd_resp_send_404 rq = (ESP_OK, rq\<lparr>rqStatus := 404, rqResponse := ''Not Found''\<rparr>)"

definition httpd_req_get_url_query_len :: "httpd_request \<Rightarrow> nat" where
  "httpd_req_get_url_query_len rq =
    (case find_sub ''?'' (rqUri rq) of None \<Rightarrow> 0 | Some q \<Rightarrow> length (rqUri rq) - q - 1)"

text \<open>The query copied to a buffer of \<open>size\<close> bytes, without the terminator that follows it.\<close>

definition httpd_req_get_url_query_str :: "httpd_request \<Rightarrow> nat \<Rightarrow> esp_err \<times> string option" where
  "httpd_req_get_url_query_str rq buf_len =
    (case find_sub ''?'' (rqUri rq) of
       None \<Rightarrow> (ESP_FAIL, None)
     | Some q \<Rightarrow>
         (let query = drop (q + 1) (rqUri rq)
          in if length query \<ge> buf_len then (ESP_FAIL, None) else (ESP_OK, Some query)))"

definition httpd_req_recv :: "httpd_request \<Rightarrow> nat \<Rightarrow> int \<times> string" where
  "httpd_req_recv rq buf_len =
    (let n = min buf_len (length (rqBody rq)) in (sint (word_of_nat n :: u32), take n (rqBody rq)))"

section \<open>Which handler a request reaches\<close>

lemma path_of_query: "CHR ''?'' \<notin> set p \<Longrightarrow> path_of (p @ ''?'' @ q) = p \<and> path_of p = p"
  by (simp add: path_of_def find_sub_char find_sub_char_None)

lemma find_append_None: "find q xs = None \<Longrightarrow> find q (xs @ ys) = find q ys"
  by (induction xs) (auto split: if_splits)

text \<open>
  Registering, shadowing and unregistering. A request, with or without a query, reaches the
  handler registered first for its method and path; a second registration is shadowed by it until
  the first is unregistered, and reached from then on.
\<close>

theorem httpd_first_registered_wins:
  assumes "find (entry_is p m) (srvHandlers s) = None" "CHR ''?'' \<notin> set p"
    and "s1 = snd (httpd_register_uri_handler (p, m, h1) s)"
    and "s2 = snd (httpd_register_uri_handler (p, m, h2) s1)"
    and "s3 = snd (httpd_unregister_uri_handler p m s2)"
  shows "httpd_dispatch run m p b rq s = (ESP_FAIL, rq\<lparr>rqMethod := m, rqUri := p, rqBody := b\<rparr>) \<and>
    httpd_dispatch run m (p @ ''?'' @ q) b rq s2 = run h1 (rq\<lparr>rqMethod := m, rqUri := p @ ''?'' @ q, rqBody := b\<rparr>) \<and>
    httpd_dispatch run m p b rq s3 = run h2 (rq\<lparr>rqMethod := m, rqUri := p, rqBody := b\<rparr>)"
proof -
  have path: "path_of (p @ CHR ''?'' # q) = p" "path_of p = p"
    using path_of_query [OF assms(2)] by simp_all
  have none: "\<forall>e \<in> set (srvHandlers s). \<not> entry_is p m e"
    using assms(1) by (auto simp: find_None_iff)
  have erase: "erase_first (entry_is p m) (xs @ [(p, m, h1), (p, m, h2)]) = xs @ [(p, m, h2)]"
    if "\<forall>e \<in> set xs. \<not> entry_is p m e" for xs
    using that by (induction xs) (auto simp: entry_is_def)
  have "entry_is p m (p, m, h1)" "entry_is p m (p, m, h2)"
    by (simp_all add: entry_is_def)
  then show ?thesis
    using assms(1) path erase [OF none]
    by (simp add: assms(3-5) httpd_dispatch_def httpd_register_uri_handler_def httpd_unregister_uri_handler_def
        find_append_None Let_def)
qed

theorem httpd_first_registered_wins_witness:
  "httpd_dispatch (\<lambda>h rq. (h, rq)) M_GET ''/a'' [] request_new
    (snd (httpd_unregister_uri_handler ''/a'' M_GET (snd (httpd_register_uri_handler (''/a'', M_GET, 2)
      (snd (httpd_register_uri_handler (''/a'', M_GET, 1) httpd_init)))))) = (2, request_new\<lparr>rqUri := ''/a''\<rparr>)"
  using httpd_first_registered_wins [of "''/a''" M_GET httpd_init _ 1 _ 2 _ "\<lambda>h rq. (h, rq)" "[]" request_new,
      OF _ _ refl refl refl]
  by (simp add: httpd_init_def request_new_def)

text \<open>
  The query of a request. It is found when the buffer is longer than it, and its length is what
  the length function says; a body read twice gives the same bytes twice, so that a handler that
  reads until the end of a body longer than nothing never comes to it.
\<close>

theorem httpd_query_and_body:
  assumes "CHR ''?'' \<notin> set p" "rqUri rq = p @ ''?'' @ q" "length q < n"
    and "rqBody rq \<noteq> []" "length (rqBody rq) < 2 ^ 31" "0 < k"
  shows "httpd_req_get_url_query_str rq n = (ESP_OK, Some q) \<and> httpd_req_get_url_query_len rq = length q \<and>
    fst (httpd_req_recv rq k) = int (min k (length (rqBody rq))) \<and> fst (httpd_req_recv rq k) > 0"
proof -
  have f: "find_sub ''?'' (rqUri rq) = Some (length p)"
    using assms(1) by (simp add: assms(2) find_sub_char)
  have "sint (word_of_nat (min k (length (rqBody rq))) :: u32) = int (min k (length (rqBody rq)))"
    using assms(5) by (simp add: signed_of_nat signed_take_bit_int_eq_self min_def)
  then show ?thesis
    using f assms(3,4,6) by (simp add: httpd_req_get_url_query_str_def httpd_req_get_url_query_len_def
        httpd_req_recv_def Let_def assms(2))
qed

theorem httpd_query_and_body_witness:
  "httpd_req_get_url_query_str (request_new\<lparr>rqUri := ''/a?b=1'', rqBody := ''x''\<rparr>) 9 = (ESP_OK, Some ''b=1'')"
  using httpd_query_and_body [of "''/a''" "request_new\<lparr>rqUri := ''/a?b=1'', rqBody := ''x''\<rparr>" "''b=1''" 9 1]
  by simp

end
