(* ===== verification/Hw_Timer.thy ===== *)
theory Hw_Timer
  imports Interfaces
begin

text \<open>
  The hardware timers of \<open>src/include/driver/timer.h\<close>: a map from group and index to a counter that
  is computed from the host clock when it is read or paused. Times are nanoseconds of that clock, an
  argument of the operations. The lemmas relate the counter to the time a timer ran, bound what
  pausing loses, and say what starting a running timer does.
\<close>

section \<open>State\<close>

abbreviation (input) "TIMER_COUNT_UP \<equiv> (0 :: int)"
abbreviation (input) "TIMER_ALARM_EN \<equiv> (1 :: int)"

record hw_timer_config =
  hcAlarmEn :: int
  hcDir :: int
  hcIntrType :: bool
  hcAutoReload :: int
  hcDivider :: u32

record hw_timer =
  htConfig :: hw_timer_config
  htRunning :: bool
  htCounter :: u64
  htAlarmValue :: u64
  htAlarmEnabled :: bool
  htStart :: nat
  htDivider :: u32
  htIsr :: "nat option"
  htArg :: nat

type_synonym hw_timers = "int \<times> int \<rightharpoonup> hw_timer"

definition hw_timer_default :: hw_timer where
  "hw_timer_default =
    \<lparr>htConfig = \<lparr>hcAlarmEn = 0, hcDir = 0, hcIntrType = False, hcAutoReload = 0, hcDivider = 0\<rparr>,
     htRunning = False, htCounter = 0, htAlarmValue = 0, htAlarmEnabled = False, htStart = 0,
     htDivider = 80, htIsr = None, htArg = 0\<rparr>"

text \<open>The map's \<open>operator[]\<close>: a timer that is not there is created. \<open>on_timer\<close> updates one in place.\<close>

definition hw_get :: "hw_timers \<Rightarrow> int \<Rightarrow> int \<Rightarrow> hw_timer" where
  "hw_get ts g i = (case ts (g, i) of None \<Rightarrow> hw_timer_default | Some t \<Rightarrow> t)"

definition on_timer :: "(hw_timer \<Rightarrow> hw_timer) \<Rightarrow> hw_timers \<Rightarrow> int \<Rightarrow> int \<Rightarrow> hw_timers" where
  "on_timer f ts g i = ts((g, i) \<mapsto> f (hw_get ts g i))"

section \<open>Operations\<close>

definition timer_init :: "hw_timers \<Rightarrow> int \<Rightarrow> int \<Rightarrow> hw_timer_config option \<Rightarrow> esp_err \<times> hw_timers" where
  "timer_init ts g i config =
    (case config of
       None \<Rightarrow> (ESP_ERR_INVALID_ARG, ts)
     | Some c \<Rightarrow>
         (ESP_OK, on_timer (\<lambda>t. t\<lparr>htConfig := c, htDivider := hcDivider c,
                                 htAlarmEnabled := (hcAlarmEn c = TIMER_ALARM_EN)\<rparr>) ts g i))"

definition timer_set_counter_value :: "hw_timers \<Rightarrow> int \<Rightarrow> int \<Rightarrow> u64 \<Rightarrow> esp_err \<times> hw_timers" where
  "timer_set_counter_value ts g i v = (ESP_OK, on_timer (\<lambda>t. t\<lparr>htCounter := v\<rparr>) ts g i)"

definition timer_start :: "nat \<Rightarrow> hw_timers \<Rightarrow> int \<Rightarrow> int \<Rightarrow> esp_err \<times> hw_timers" where
  "timer_start now ts g i = (ESP_OK, on_timer (\<lambda>t. t\<lparr>htRunning := True, htStart := now\<rparr>) ts g i)"

text \<open>
  The ticks since the start, in 64 bit arithmetic; \<open>None\<close> is the division by a divider of zero.
\<close>

definition elapsed_ticks :: "nat \<Rightarrow> hw_timer \<Rightarrow> u64 option" where
  "elapsed_ticks now t =
    (let us = word_of_nat ((now - htStart t) div 1000) :: u64; divider = ucast (htDivider t) :: u64
     in if divider = 0 then None else Some (us * (80000000 div divider) div 1000000))"

definition advance :: "nat \<Rightarrow> hw_timer \<Rightarrow> u64 option" where
  "advance now t =
    map_option (\<lambda>ticks.
        if hcDir (htConfig t) = TIMER_COUNT_UP then htCounter t + ticks
        else if htCounter t > ticks then htCounter t - ticks else 0)
      (elapsed_ticks now t)"

definition timer_pause :: "nat \<Rightarrow> hw_timers \<Rightarrow> int \<Rightarrow> int \<Rightarrow> (esp_err \<times> hw_timers) option" where
  "timer_pause now ts g i =
    (let t = hw_get ts g i
     in if htRunning t
        then map_option (\<lambda>v. (ESP_OK, on_timer (\<lambda>t. t\<lparr>htCounter := v, htRunning := False\<rparr>) ts g i))
               (advance now t)
        else Some (ESP_OK, on_timer id ts g i))"

definition timer_get_counter_value ::
  "nat \<Rightarrow> hw_timers \<Rightarrow> int \<Rightarrow> int \<Rightarrow> (esp_err \<times> u64 \<times> hw_timers) option" where
  "timer_get_counter_value now ts g i =
    (let t = hw_get ts g i
     in map_option (\<lambda>v. (ESP_OK, v, on_timer id ts g i))
          (if htRunning t then advance now t else Some (htCounter t)))"

definition timer_set_alarm_value :: "hw_timers \<Rightarrow> int \<Rightarrow> int \<Rightarrow> u64 \<Rightarrow> esp_err \<times> hw_timers" where
  "timer_set_alarm_value ts g i v = (ESP_OK, on_timer (\<lambda>t. t\<lparr>htAlarmValue := v\<rparr>) ts g i)"

definition timer_set_alarm :: "hw_timers \<Rightarrow> int \<Rightarrow> int \<Rightarrow> int \<Rightarrow> esp_err \<times> hw_timers" where
  "timer_set_alarm ts g i en =
    (ESP_OK, on_timer (\<lambda>t. t\<lparr>htAlarmEnabled := (en = TIMER_ALARM_EN)\<rparr>) ts g i)"

definition timer_isr_register ::
  "hw_timers \<Rightarrow> int \<Rightarrow> int \<Rightarrow> nat option \<Rightarrow> nat \<Rightarrow> esp_err \<times> hw_timers" where
  "timer_isr_register ts g i fn arg = (ESP_OK, on_timer (\<lambda>t. t\<lparr>htIsr := fn, htArg := arg\<rparr>) ts g i)"

definition timer_enable_intr :: "hw_timers \<Rightarrow> int \<Rightarrow> int \<Rightarrow> esp_err \<times> hw_timers" where
  "timer_enable_intr ts g i = (ESP_OK, ts)"

definition timer_disable_intr :: "hw_timers \<Rightarrow> int \<Rightarrow> int \<Rightarrow> esp_err \<times> hw_timers" where
  "timer_disable_intr ts g i = (ESP_OK, ts)"

section \<open>What the counter counts\<close>

lemma hw_get_on_timer [simp]:
  "hw_get (on_timer f ts g i) g' i' = (if g' = g \<and> i' = i then f (hw_get ts g i) else hw_get ts g' i')"
  by (auto simp: hw_get_def on_timer_def)

text \<open>Ticks per second, and the ticks of a time as a natural number.\<close>

definition tick_rate :: "hw_timer \<Rightarrow> nat" where
  "tick_rate t = 80000000 div unat (htDivider t)"

definition ticks_of :: "hw_timer \<Rightarrow> nat \<Rightarrow> nat" where
  "ticks_of t ns = (ns div 1000) * tick_rate t div 1000000"

text \<open>The bound under which nothing wraps: 2.6 days at the highest rate.\<close>

definition short_run :: "nat \<Rightarrow> bool" where
  "short_run ns \<longleftrightarrow> ns div 1000 * 80000000 < 2 ^ 64"

lemma elapsed_ticks_nat:
  assumes "htDivider t \<noteq> 0" "short_run (now - htStart t)"
  shows "\<exists>k. elapsed_ticks now t = Some k \<and> unat k = ticks_of t (now - htStart t)"
proof -
  let ?us = "(now - htStart t) div 1000"
  have d: "unat (ucast (htDivider t) :: u64) = unat (htDivider t)"
    by simp
  have nz: "(ucast (htDivider t) :: u64) \<noteq> 0" "unat (htDivider t) \<noteq> 0"
    using assms(1) by (simp_all add: word_unat_eq_iff)
  have us: "?us < 2 ^ 64"
    using assms(2) by (simp add: short_run_def)
  define q where "q = (80000000 :: u64) div ucast (htDivider t)"
  have rate: "unat q = tick_rate t"
    by (simp add: q_def unat_div d tick_rate_def)
  have "?us * tick_rate t \<le> ?us * 80000000"
    by (intro mult_le_mono) (simp_all add: tick_rate_def)
  also have "\<dots> < 2 ^ 64"
    using assms(2) by (simp only: short_run_def)
  finally have "?us * tick_rate t < 2 ^ 64" .
  then have "unat ((word_of_nat ?us :: u64) * q) = ?us * tick_rate t"
    using us by (simp add: unat_word_ariths rate unat_of_nat)
  then have "unat ((word_of_nat ?us :: u64) * q div 1000000) = ticks_of t (now - htStart t)"
    by (simp add: unat_div ticks_of_def)
  then show ?thesis
    using nz by (simp add: elapsed_ticks_def Let_def q_def)
qed

lemma advance_nat:
  assumes "htDivider t \<noteq> 0" "short_run (now - htStart t)"
  shows "\<exists>v. advance now t = Some v \<and>
    (hcDir (htConfig t) = TIMER_COUNT_UP \<longrightarrow>
      unat (htCounter t) + ticks_of t (now - htStart t) < 2 ^ 64 \<longrightarrow>
      unat v = unat (htCounter t) + ticks_of t (now - htStart t)) \<and>
    (hcDir (htConfig t) \<noteq> TIMER_COUNT_UP \<longrightarrow>
      unat v = unat (htCounter t) - ticks_of t (now - htStart t))"
proof -
  obtain k where k: "elapsed_ticks now t = Some k" "unat k = ticks_of t (now - htStart t)"
    using elapsed_ticks_nat [OF assms] by blast
  then show ?thesis
    by (auto simp: advance_def word_less_nat_alt unat_sub word_le_nat_alt intro: unat_add_no_wrap
        simp flip: k(2))
qed

text \<open>
  Reading a timer. A running timer reads its counter plus the ticks since it was started when
  it counts up, and minus them, down to zero, when it counts down; a paused one reads its counter.
  Pausing at a time freezes what would have been read at that time.
\<close>

theorem hw_timer_reading:
  assumes "htRunning (hw_get ts g i)" "htDivider (hw_get ts g i) \<noteq> 0"
    and "short_run (now - htStart (hw_get ts g i))"
    and "hcDir (htConfig (hw_get ts g i)) = TIMER_COUNT_UP \<Longrightarrow>
      unat (htCounter (hw_get ts g i)) + ticks_of (hw_get ts g i) (now - htStart (hw_get ts g i)) < 2 ^ 64"
  shows "\<exists>v ts' ts''. timer_get_counter_value now ts g i = Some (ESP_OK, v, ts') \<and>
    unat v = (if hcDir (htConfig (hw_get ts g i)) = TIMER_COUNT_UP
      then unat (htCounter (hw_get ts g i)) + ticks_of (hw_get ts g i) (now - htStart (hw_get ts g i))
      else unat (htCounter (hw_get ts g i)) - ticks_of (hw_get ts g i) (now - htStart (hw_get ts g i))) \<and>
    timer_pause now ts g i = Some (ESP_OK, ts'') \<and>
    (\<forall>later. map_option (fst \<circ> snd) (timer_get_counter_value later ts'' g i) = Some v)"
  using advance_nat [OF assms(2,3)] assms(1,4)
  by (auto simp: timer_get_counter_value_def timer_pause_def Let_def)

text \<open>
  Starting a timer that runs loses the time it ran. The start time moves and the counter stays,
  so a reading at that moment is what the counter was at the previous start.
\<close>

theorem hw_timer_restart_loses:
  assumes "htDivider (hw_get ts g i) \<noteq> 0"
  shows "map_option (fst \<circ> snd) (timer_get_counter_value now (snd (timer_start now ts g i)) g i) =
    Some (htCounter (hw_get ts g i))"
proof -
  let ?t = "(hw_get ts g i)\<lparr>htRunning := True, htStart := now\<rparr>"
  have "(ucast (htDivider (hw_get ts g i)) :: u64) \<noteq> 0"
    using assms by (simp add: word_unat_eq_iff)
  then have "advance now ?t = Some (htCounter (hw_get ts g i))"
    by (simp add: advance_def elapsed_ticks_def Let_def word_greater_zero_iff)
  then show ?thesis
    by (simp add: timer_get_counter_value_def timer_start_def Let_def)
qed

section \<open>Running in intervals\<close>

text \<open>A timer that is started at \<open>a\<close> and paused at \<open>b\<close>, for a list of intervals.\<close>

fun run_intervals :: "int \<Rightarrow> int \<Rightarrow> (nat \<times> nat) list \<Rightarrow> hw_timers \<Rightarrow> hw_timers option" where
  "run_intervals g i [] ts = Some ts"
| "run_intervals g i ((a, b) # rs) ts =
    (case timer_pause b (snd (timer_start a ts g i)) g i of
       None \<Rightarrow> None
     | Some (_, ts') \<Rightarrow> run_intervals g i rs ts')"

lemma div_add_le: "(x + y) div m \<le> x div m + y div m + (1 :: nat)"
proof (cases "m = 0")
  case False
  then have "x mod m + y mod m < 2 * m"
    by (simp add: mult_2 add_strict_mono)
  then have "(x mod m + y mod m) div m < 2"
    by (rule less_mult_imp_div_less)
  then show ?thesis
    using div_add1_eq [of x y m] by linarith
qed simp

lemma div_add_ge: "x div m + y div m \<le> (x + y) div (m :: nat)"
  using div_add1_eq [of x y m] by linarith

lemma ticks_of_add:
  "ticks_of t x + ticks_of t y \<le> ticks_of t (x + y)"
  "ticks_of t (x + y) \<le> ticks_of t x + ticks_of t y + (tick_rate t div 1000000 + 2)"
proof -
  define r where "r = tick_rate t"
  define a b c where "a = x div 1000" and "b = y div 1000" and "c = (x + y) div 1000"
  have c: "a + b \<le> c" "c \<le> a + b + 1"
    using div_add_le [of x y 1000] div_add_ge [of x 1000 y] by (simp_all add: a_def b_def c_def)
  have "a * r div 1000000 + b * r div 1000000 \<le> (a * r + b * r) div 1000000"
    by (rule div_add_ge)
  also have "\<dots> = (a + b) * r div 1000000"
    by (simp add: algebra_simps)
  also have "\<dots> \<le> c * r div 1000000"
    using c(1) by (intro div_le_mono mult_le_mono1)
  finally show "ticks_of t x + ticks_of t y \<le> ticks_of t (x + y)"
    by (simp add: ticks_of_def r_def a_def b_def c_def)
  have "c * r div 1000000 \<le> (a + b + 1) * r div 1000000"
    using c(2) by (intro div_le_mono mult_le_mono1)
  also have "\<dots> = (a * r + b * r + r) div 1000000"
    by (simp add: algebra_simps)
  also have "\<dots> \<le> a * r div 1000000 + b * r div 1000000 + (r div 1000000 + 2)"
    using div_add_le [of "a * r + b * r" r 1000000] div_add_le [of "a * r" "b * r" 1000000] by simp
  finally show "ticks_of t (x + y) \<le> ticks_of t x + ticks_of t y + (tick_rate t div 1000000 + 2)"
    by (simp add: ticks_of_def r_def a_def b_def c_def)
qed

text \<open>The settings that decide how a timer counts are the same before and after.\<close>

definition same_rate :: "hw_timer \<Rightarrow> hw_timer \<Rightarrow> bool" where
  "same_rate t t' \<longleftrightarrow> htDivider t' = htDivider t \<and> htConfig t' = htConfig t"

lemma same_rate_ticks: "same_rate t t' \<Longrightarrow> ticks_of t' ns = ticks_of t ns"
  by (simp add: same_rate_def ticks_of_def tick_rate_def)

lemma run_intervals_sum:
  assumes "htDivider (hw_get ts g i) \<noteq> 0" "hcDir (htConfig (hw_get ts g i)) = TIMER_COUNT_UP"
    and "\<forall>(a, b) \<in> set rs. short_run (b - a)"
    and "unat (htCounter (hw_get ts g i)) + (\<Sum>(a, b)\<leftarrow>rs. ticks_of (hw_get ts g i) (b - a)) < 2 ^ 64"
  shows "\<exists>ts'. run_intervals g i rs ts = Some ts' \<and>
    unat (htCounter (hw_get ts' g i)) =
      unat (htCounter (hw_get ts g i)) + (\<Sum>(a, b)\<leftarrow>rs. ticks_of (hw_get ts g i) (b - a))"
  using assms
proof (induction rs arbitrary: ts)
  case (Cons ab rs)
  obtain a b where ab: "ab = (a, b)" by (cases ab)
  let ?t = "hw_get ts g i"
  let ?t1 = "?t\<lparr>htRunning := True, htStart := a\<rparr>"
  have ticks: "ticks_of ?t1 = ticks_of ?t"
    using same_rate_ticks [of ?t ?t1] by (simp add: same_rate_def fun_eq_iff)
  obtain v where v: "advance b ?t1 = Some v" "unat v = unat (htCounter ?t) + ticks_of ?t (b - a)"
    using advance_nat [of ?t1 b] Cons.prems ab ticks by auto
  let ?ts = "on_timer (\<lambda>t. t\<lparr>htCounter := v, htRunning := False\<rparr>) (snd (timer_start a ts g i)) g i"
  have step: "timer_pause b (snd (timer_start a ts g i)) g i = Some (ESP_OK, ?ts)"
    using v(1) by (simp add: timer_pause_def timer_start_def Let_def)
  have get: "hw_get ?ts g i = ?t1\<lparr>htCounter := v, htRunning := False\<rparr>"
    by (simp add: timer_start_def)
  then have "ticks_of (hw_get ?ts g i) = ticks_of ?t"
    using same_rate_ticks [of ?t "hw_get ?ts g i"] by (simp add: same_rate_def fun_eq_iff)
  then show ?case
    using Cons.IH [of ?ts] Cons.prems step get v(2) ab by (simp add: timer_start_def add.assoc)
qed simp

text \<open>
  Pausing loses at most a bounded number of ticks. A timer that counts up and runs in \<open>n\<close>
  intervals counts at most the ticks of the total time, and less than that by no more than
  \<open>n\<close> times two ticks and the ticks of a microsecond.
\<close>

theorem hw_timer_drift:
  assumes "htDivider (hw_get ts g i) \<noteq> 0" "hcDir (htConfig (hw_get ts g i)) = TIMER_COUNT_UP"
    and "htCounter (hw_get ts g i) = 0" "\<forall>(a, b) \<in> set rs. short_run (b - a)"
    and "ticks_of (hw_get ts g i) (\<Sum>(a, b)\<leftarrow>rs. b - a) < 2 ^ 64"
  shows "\<exists>ts'. run_intervals g i rs ts = Some ts' \<and>
    unat (htCounter (hw_get ts' g i)) \<le> ticks_of (hw_get ts g i) (\<Sum>(a, b)\<leftarrow>rs. b - a) \<and>
    ticks_of (hw_get ts g i) (\<Sum>(a, b)\<leftarrow>rs. b - a) \<le>
      unat (htCounter (hw_get ts' g i)) + length rs * (tick_rate (hw_get ts g i) div 1000000 + 2)"
proof -
  let ?t = "hw_get ts g i"
  let ?s = "\<Sum>(a, b)\<leftarrow>rs. ticks_of ?t (b - a)" and ?n = "\<Sum>(a, b)\<leftarrow>rs. b - a"
  have "?s \<le> ticks_of ?t ?n \<and> ticks_of ?t ?n \<le> ?s + length rs * (tick_rate ?t div 1000000 + 2)"
  proof (induction rs)
    case Nil
    then show ?case by (simp add: ticks_of_def)
  next
    case (Cons ab rs)
    then show ?case
      using ticks_of_add [of ?t "snd ab - fst ab" "\<Sum>(a, b)\<leftarrow>rs. b - a"]
      by (cases ab) simp
  qed
  moreover from this have "unat (htCounter ?t) + ?s < 2 ^ 64"
    using assms(3,5) by simp
  from run_intervals_sum [OF assms(1,2,4) this] obtain ts' where
    "run_intervals g i rs ts = Some ts'" "unat (htCounter (hw_get ts' g i)) = ?s"
    using assms(3) by auto
  ultimately show ?thesis by auto
qed

section \<open>Instances\<close>

definition demo_timers :: hw_timers where
  "demo_timers = snd (timer_init Map.empty 0 1
     (Some \<lparr>hcAlarmEn = 0, hcDir = 0, hcIntrType = False, hcAutoReload = 0, hcDivider = 80\<rparr>))"

lemma demo_timer:
  "htDivider (hw_get demo_timers 0 1) = 80" "hcDir (htConfig (hw_get demo_timers 0 1)) = 0"
  "htCounter (hw_get demo_timers 0 1) = 0" "tick_rate (hw_get demo_timers 0 1) = 1000000"
  by (simp_all add: demo_timers_def timer_init_def hw_get_def on_timer_def hw_timer_default_def tick_rate_def)

theorem hw_timer_reading_witness:
  "\<exists>v ts'. timer_get_counter_value 5000000 (snd (timer_start 2000000 demo_timers 0 1)) 0 1 =
    Some (ESP_OK, v, ts') \<and> unat v = 3000"
proof -
  let ?ts = "snd (timer_start 2000000 demo_timers 0 1)"
  have "hw_get ?ts 0 1 = (hw_get demo_timers 0 1)\<lparr>htRunning := True, htStart := 2000000\<rparr>"
    by (simp add: timer_start_def)
  then show ?thesis
    using hw_timer_reading [of ?ts 0 1 5000000] demo_timer
    by (auto simp: short_run_def ticks_of_def tick_rate_def)
qed

theorem hw_timer_restart_loses_witness:
  "map_option (fst \<circ> snd) (timer_get_counter_value 9000
     (snd (timer_start 9000 (snd (timer_start 1000 demo_timers 0 1)) 0 1)) 0 1) = Some 0"
  using hw_timer_restart_loses [of "snd (timer_start 1000 demo_timers 0 1)" 0 1 9000] demo_timer
  by (simp add: timer_start_def)

theorem hw_timer_drift_witness:
  "\<exists>ts'. run_intervals 0 1 [(0, 1999), (5000, 6999)] demo_timers = Some ts' \<and>
    unat (htCounter (hw_get ts' 0 1)) \<le> 3"
  using hw_timer_drift [of demo_timers 0 1 "[(0, 1999), (5000, 6999)]"] demo_timer
  by (auto simp: short_run_def ticks_of_def)

end
