(* ===== verification/I2c_Driver.thy ===== *)
theory I2c_Driver
  imports Interfaces
begin

text \<open>
  The I2C master of \<open>src/include/driver/i2c.h\<close>: a link of commands is built first and executed
  later, against slaves that are callbacks. Buffers are caller memory, so the model has a memory
  and addresses, and a write buffer is read when the link runs. The lemmas give what a slave sees in
  the usual transactions.
\<close>

unbundle bit_operations_syntax

section \<open>State\<close>

datatype i2c_cmd =
    CStart
  | CStop
  | CWriteByte byte
  | CWriteBuffer nat nat
  | CReadBuffer nat nat

text \<open>
  A slave is a function of the address, the data written and the state \<open>'w\<close> of the world that the
  callbacks share; \<open>calls\<close> records the invocations.
\<close>

type_synonym 'w slave = "byte \<Rightarrow> byte list \<Rightarrow> 'w \<Rightarrow> byte list \<times> 'w"

record i2c_config =
  i2cMode :: int
  sdaIo :: int
  sclIo :: int

record 'w i2c_state =
  portInstalled :: "int \<Rightarrow> bool"
  portConfig :: "int \<rightharpoonup> i2c_config"
  slaves :: "byte \<rightharpoonup> 'w slave"
  world :: 'w
  calls :: "(byte \<times> byte list) list"
  memory :: "byte list"

definition registerSlave :: "'w i2c_state \<Rightarrow> byte \<Rightarrow> 'w slave \<Rightarrow> 'w i2c_state" where
  "registerSlave s addr cb = s\<lparr>slaves := (slaves s)(addr \<mapsto> cb)\<rparr>"

definition clearSlaves :: "'w i2c_state \<Rightarrow> 'w i2c_state" where
  "clearSlaves s = s\<lparr>slaves := Map.empty\<rparr>"

section \<open>Operations\<close>

definition i2c_param_config :: "'w i2c_state \<Rightarrow> int \<Rightarrow> i2c_config option \<Rightarrow> esp_err \<times> 'w i2c_state" where
  "i2c_param_config s port config =
    (case config of
       None \<Rightarrow> (ESP_ERR_INVALID_ARG, s)
     | Some c \<Rightarrow> (ESP_OK, s\<lparr>portConfig := (portConfig s)(port \<mapsto> c)\<rparr>))"

definition i2c_driver_install :: "'w i2c_state \<Rightarrow> int \<Rightarrow> esp_err \<times> 'w i2c_state" where
  "i2c_driver_install s port = (ESP_OK, s\<lparr>portInstalled := (portInstalled s)(port := True)\<rparr>)"

definition i2c_driver_delete :: "'w i2c_state \<Rightarrow> int \<Rightarrow> esp_err \<times> 'w i2c_state" where
  "i2c_driver_delete s port = (ESP_OK, s\<lparr>portInstalled := (portInstalled s)(port := False)\<rparr>)"

definition i2c_cmd_link_create :: "i2c_cmd list" where
  "i2c_cmd_link_create = []"

definition i2c_master_start :: "i2c_cmd list \<Rightarrow> esp_err \<times> i2c_cmd list" where
  "i2c_master_start link = (ESP_OK, link @ [CStart])"

definition i2c_master_stop :: "i2c_cmd list \<Rightarrow> esp_err \<times> i2c_cmd list" where
  "i2c_master_stop link = (ESP_OK, link @ [CStop])"

definition i2c_master_write_byte :: "i2c_cmd list \<Rightarrow> byte \<Rightarrow> esp_err \<times> i2c_cmd list" where
  "i2c_master_write_byte link data = (ESP_OK, link @ [CWriteByte data])"

definition i2c_master_write :: "i2c_cmd list \<Rightarrow> nat \<Rightarrow> nat \<Rightarrow> esp_err \<times> i2c_cmd list" where
  "i2c_master_write link data data_len = (ESP_OK, link @ [CWriteBuffer data data_len])"

definition i2c_master_read :: "i2c_cmd list \<Rightarrow> nat \<Rightarrow> nat \<Rightarrow> esp_err \<times> i2c_cmd list" where
  "i2c_master_read link data data_len = (ESP_OK, link @ [CReadBuffer data data_len])"

definition i2c_master_read_byte :: "i2c_cmd list \<Rightarrow> nat \<Rightarrow> esp_err \<times> i2c_cmd list" where
  "i2c_master_read_byte link data = i2c_master_read link data 1"

text \<open>Calling a slave.\<close>

definition call_slave :: "'w i2c_state \<Rightarrow> 'w slave \<Rightarrow> byte \<Rightarrow> byte list \<Rightarrow> byte list \<times> 'w i2c_state" where
  "call_slave s cb addr wdata =
    (let (resp, w) = cb addr wdata (world s)
     in (resp, s\<lparr>world := w, calls := calls s @ [(addr, wdata)]\<rparr>))"

text \<open>The local variables of the execution: \<open>addr\<close>, \<open>isRead\<close> and \<open>writeData\<close>.\<close>

record i2c_exec =
  exAddr :: byte
  exIsRead :: bool
  exWrite :: "byte list"

text \<open>One command; an access outside the memory is \<open>None\<close>.\<close>

fun exec_cmd :: "i2c_cmd \<Rightarrow> i2c_exec \<times> 'w i2c_state \<Rightarrow> (i2c_exec \<times> 'w i2c_state) option" where
  "exec_cmd CStart (x, s) = Some (x, s)"
| "exec_cmd (CWriteByte b) (x, s) =
    (if exAddr x = 0 then Some (x\<lparr>exAddr := drop_bit 1 b, exIsRead := (b AND 1 \<noteq> 0)\<rparr>, s)
     else Some (x\<lparr>exWrite := exWrite x @ [b]\<rparr>, s))"
| "exec_cmd (CWriteBuffer p n) (x, s) =
    (if p + n \<le> length (memory s)
     then Some (x\<lparr>exWrite := exWrite x @ chunk (memory s) p n\<rparr>, s) else None)"
| "exec_cmd (CReadBuffer p n) (x, s) =
    (if length (memory s) < p + n then None
     else case slaves s (exAddr x) of
            Some cb \<Rightarrow>
              let (resp, s') = call_slave s cb (exAddr x) (exWrite x)
              in Some (x, s'\<lparr>memory := blit (memory s') p (take n resp)\<rparr>)
          | None \<Rightarrow> Some (x, s\<lparr>memory := blit (memory s) p (replicate n 0xFF)\<rparr>))"
| "exec_cmd CStop (x, s) =
    (if \<not> exIsRead x \<and> exAddr x \<noteq> 0 then
       (case slaves s (exAddr x) of
          Some cb \<Rightarrow> Some (x, snd (call_slave s cb (exAddr x) (exWrite x)))
        | None \<Rightarrow> Some (x, s))
     else Some (x, s))"

fun exec_cmds :: "i2c_cmd list \<Rightarrow> i2c_exec \<times> 'w i2c_state \<Rightarrow> (i2c_exec \<times> 'w i2c_state) option" where
  "exec_cmds [] xs = Some xs"
| "exec_cmds (c # cs) xs = (case exec_cmd c xs of None \<Rightarrow> None | Some xs' \<Rightarrow> exec_cmds cs xs')"

definition i2c_master_cmd_begin ::
  "'w i2c_state \<Rightarrow> int \<Rightarrow> i2c_cmd list \<Rightarrow> (esp_err \<times> 'w i2c_state) option" where
  "i2c_master_cmd_begin s port link =
    (if \<not> portInstalled s port then Some (ESP_FAIL, s)
     else map_option (\<lambda>(x, s'). (ESP_OK, s'))
       (exec_cmds link (\<lparr>exAddr = 0, exIsRead = False, exWrite = []\<rparr>, s)))"

section \<open>Transactions\<close>

lemma address_byte:
  fixes a :: byte
  assumes "a < 128"
  shows "drop_bit 1 (push_bit 1 a) = a" "drop_bit 1 (push_bit 1 a OR 1) = a"
    "push_bit 1 a AND 1 = 0" "(push_bit 1 a OR 1) AND 1 = (1 :: byte)"
proof -
  have "unat a < 2 ^ 7"
    using assms by (simp add: word_less_nat_alt)
  then have "\<not> bit (unat a) 7"
    by (metis bit_take_bit_iff less_irrefl take_bit_nat_eq_self)
  then have top: "\<not> bit a 7"
    by (simp add: bit_unsigned_iff)
  have "bit a n \<Longrightarrow> n < 7" for n
    using top bit_imp_le_length [of a n] by (cases "n = 7") auto
  then show "drop_bit 1 (push_bit 1 a) = a" "drop_bit 1 (push_bit 1 a OR 1) = a"
    by (auto intro!: bit_word_eqI simp: bit_simps simp del: push_bit_Suc)
  show "push_bit 1 a AND 1 = 0" "(push_bit 1 a OR 1) AND 1 = (1 :: byte)"
    by (auto intro!: bit_word_eqI simp: bit_simps simp del: push_bit_Suc)
qed

text \<open>The address bytes of a write and of a read.\<close>

definition addr_w :: "byte \<Rightarrow> byte" where
  "addr_w a = push_bit 1 a"

definition addr_r :: "byte \<Rightarrow> byte" where
  "addr_r a = push_bit 1 a OR 1"

lemma addr_bytes:
  "a < 128 \<Longrightarrow> drop_bit 1 (addr_w a) = a" "a < 128 \<Longrightarrow> drop_bit 1 (addr_r a) = a"
  "a < 128 \<Longrightarrow> addr_w a AND 1 = 0" "a < 128 \<Longrightarrow> addr_r a AND 1 = 1"
  using address_byte [of a] by (simp_all only: addr_w_def addr_r_def)

section \<open>Properties\<close>

text \<open>
  The two plain transactions. On an installed port, a write transaction to a slave calls it
  exactly once, with the bytes its buffer holds when the link is executed; a read transaction calls
  it once without data and copies as much of its answer as was asked for into the buffer, touching
  no other byte.
\<close>

theorem i2c_plain_transactions:
  assumes "portInstalled s port" "slaves s a = Some cb" "a \<noteq> 0" "a < 128" "p + n \<le> length (memory s)"
  shows "i2c_master_cmd_begin s port [CStart, CWriteByte (addr_w a), CWriteBuffer p n, CStop] =
      Some (ESP_OK, s\<lparr>world := snd (cb a (chunk (memory s) p n) (world s)),
        calls := calls s @ [(a, chunk (memory s) p n)]\<rparr>) \<and>
    i2c_master_cmd_begin s port [CStart, CWriteByte (addr_r a), CReadBuffer p n, CStop] =
      Some (ESP_OK, s\<lparr>world := snd (cb a [] (world s)), calls := calls s @ [(a, [])],
        memory := blit (memory s) p (take n (fst (cb a [] (world s))))\<rparr>)"
  using assms
  by (simp add: i2c_master_cmd_begin_def addr_bytes [unfolded One_nat_def] call_slave_def split_beta Let_def
      del: drop_bit_Suc)

theorem i2c_plain_transactions_witness:
  "i2c_master_cmd_begin \<lparr>portInstalled = (\<lambda>_. True), portConfig = Map.empty,
      slaves = [0x48 \<mapsto> (\<lambda>a d w. ([1, 2, 3], w + length d))], world = 0, calls = [],
      memory = [7, 8, 9, 10]\<rparr> 0 [CStart, CWriteByte (addr_w 0x48), CWriteBuffer 1 2, CStop] =
    Some (ESP_OK, \<lparr>portInstalled = (\<lambda>_. True), portConfig = Map.empty,
      slaves = [0x48 \<mapsto> (\<lambda>a d w. ([1, 2, 3], w + length d))], world = 2, calls = [(0x48, [8, 9])],
      memory = [7, 8, 9, 10]\<rparr>)"
  using i2c_plain_transactions [of "\<lparr>portInstalled = (\<lambda>_. True), portConfig = Map.empty,
      slaves = [0x48 \<mapsto> (\<lambda>a d w. ([1, 2, 3], w + length d))], world = 0 :: nat, calls = [],
      memory = [7, 8, 9, 10]\<rparr>" 0 "0x48" "\<lambda>a d w. ([1, 2, 3], w + length d)" 1 2]
  by (simp add: chunk_def)

text \<open>
  A repeated start is not recognised. In the usual register read (write the register number,
  start again with the read address, read, stop) the second address byte is taken for data, and as
  the direction stays "write" the stop calls the slave again: it is called twice, both times with the
  register number followed by the address byte.
\<close>

theorem i2c_repeated_start_pollutes:
  assumes "portInstalled s port" "slaves s a = Some cb" "a \<noteq> 0" "a < 128" "p + n \<le> length (memory s)"
  shows "\<exists>s'. i2c_master_cmd_begin s port
      [CStart, CWriteByte (addr_w a), CWriteByte reg, CStart, CWriteByte (addr_r a), CReadBuffer p n, CStop] =
      Some (ESP_OK, s') \<and> calls s' = calls s @ [(a, [reg, addr_r a]), (a, [reg, addr_r a])]"
  using assms
  by (simp add: i2c_master_cmd_begin_def addr_bytes [unfolded One_nat_def] call_slave_def split_beta Let_def
      del: drop_bit_Suc)

theorem i2c_repeated_start_pollutes_witness:
  "\<exists>s'. i2c_master_cmd_begin \<lparr>portInstalled = (\<lambda>_. True), portConfig = Map.empty,
      slaves = [0x48 \<mapsto> (\<lambda>a d w. ([1, 2, 3], w))], world = (), calls = [], memory = [7, 8, 9, 10]\<rparr> 0
      [CStart, CWriteByte (addr_w 0x48), CWriteByte 5, CStart, CWriteByte (addr_r 0x48), CReadBuffer 1 2, CStop] =
      Some (ESP_OK, s') \<and> calls s' = [(0x48, [5, addr_r 0x48]), (0x48, [5, addr_r 0x48])]"
  using i2c_repeated_start_pollutes [of "\<lparr>portInstalled = (\<lambda>_. True), portConfig = Map.empty,
      slaves = [0x48 \<mapsto> (\<lambda>a d w. ([1, 2, 3], w))], world = (), calls = [], memory = [7, 8, 9, 10]\<rparr>"
      0 "0x48" "\<lambda>a d w. ([1, 2, 3], w)" 1 2 5]
  by (simp del: exec_cmds.simps)

end
