(* ===== verification/I2s_Audio.thy ===== *)
theory I2s_Audio
  imports Interfaces
begin

text \<open>
  Audio streams: the two legacy forms of the I2S driver (\<open>src/include/I2S.h\<close>,
  \<open>src/include/driver/i2s.h\<close>), the one with channels (\<open>src/include/driver/i2s_std.h\<close>) and the continuous
  converter output (\<open>src/include/driver/dac_continuous.h\<close>). The three I2S forms are ends of byte pipes; the
  contract \<open>audio_pipe\<close> is proved for each. A null pointer is \<open>None\<close>; an output argument that is not written is
  \<open>None\<close> in the result.
\<close>

section \<open>The contract of a byte pipe\<close>

datatype pipe_op = Play "byte list" | Record nat | Inject "byte list"

text \<open>The bytes handed to the reader along a sequence of calls, with the state after them.\<close>

fun pipe_run :: "(byte list \<Rightarrow> 's \<Rightarrow> 's) \<Rightarrow> (nat \<Rightarrow> 's \<Rightarrow> byte list \<times> 's) \<Rightarrow> (byte list \<Rightarrow> 's \<Rightarrow> 's) \<Rightarrow> pipe_op list \<Rightarrow> 's \<Rightarrow> byte list \<times> 's" where
  "pipe_run wr rd feed [] s = ([], s)"
| "pipe_run wr rd feed (Play d # ops) s = pipe_run wr rd feed ops (wr d s)"
| "pipe_run wr rd feed (Record n # ops) s =
    (let (d, s) = rd n s; (ds, s) = pipe_run wr rd feed ops s in (d @ ds, s))"
| "pipe_run wr rd feed (Inject d # ops) s = pipe_run wr rd feed ops (feed d s)"

fun played :: "pipe_op list \<Rightarrow> byte list" where
  "played [] = []"
| "played (Play d # ops) = d @ played ops"
| "played (_ # ops) = played ops"

fun injected :: "pipe_op list \<Rightarrow> byte list" where
  "injected [] = []"
| "injected (Inject d # ops) = d @ injected ops"
| "injected (_ # ops) = injected ops"

locale audio_pipe =
  fixes ok :: "'s \<Rightarrow> bool"
    and sent :: "'s \<Rightarrow> byte list"
    and pending :: "'s \<Rightarrow> byte list"
    and wr :: "byte list \<Rightarrow> 's \<Rightarrow> 's"
    and rd :: "nat \<Rightarrow> 's \<Rightarrow> byte list \<times> 's"
    and feed :: "byte list \<Rightarrow> 's \<Rightarrow> 's"
  assumes wr_pipe: "ok s \<Longrightarrow> ok (wr d s) \<and> sent (wr d s) = sent s @ d \<and> pending (wr d s) = pending s"
    and rd_pipe: "ok s \<Longrightarrow> fst (rd n s) = take n (pending s) \<and> pending (snd (rd n s)) = drop n (pending s) \<and>
      sent (snd (rd n s)) = sent s \<and> ok (snd (rd n s))"
    and feed_pipe: "ok s \<Longrightarrow> ok (feed d s) \<and> pending (feed d s) = pending s @ d \<and> sent (feed d s) = sent s"
begin

text \<open>Nothing is lost, doubled or reordered in either direction, and the directions do not disturb each other.\<close>

lemma pipe_conserves:
  assumes "ok s" "pipe_run wr rd feed ops s = (got, t)"
  shows "ok t \<and> sent t = sent s @ played ops \<and> got @ pending t = pending s @ injected ops"
  using assms
proof (induction ops arbitrary: s got)
  case (Cons a ops)
  show ?case
  proof (cases a)
    case (Play d)
    then show ?thesis
      using Cons.IH [of "wr d s" got] Cons.prems wr_pipe [of s d] by simp
  next
    case (Record n)
    obtain ds where r: "pipe_run wr rd feed ops (snd (rd n s)) = (ds, t)" "got = fst (rd n s) @ ds"
      using Cons.prems(2) by (simp add: Record split: prod.splits)
    note rd = rd_pipe [OF Cons.prems(1), of n]
    have "ok t \<and> sent t = sent s @ played ops \<and> ds @ pending t = drop n (pending s) @ injected ops"
      using Cons.IH [OF _ r(1)] rd by simp
    moreover from this rd r(2) have "got @ pending t = take n (pending s) @ drop n (pending s) @ injected ops"
      by (simp only: append_assoc)
    ultimately show ?thesis
      by (simp only: Record played.simps injected.simps append_assoc [symmetric] append_take_drop_id simp_thms)
  next
    case (Inject d)
    then show ?thesis
      using Cons.IH [of "feed d s" got] Cons.prems feed_pipe [of s d] by simp
  qed
qed simp

text \<open>Reading in pieces gives what one read of the whole size gives.\<close>

lemma read_pieces:
  assumes "ok s"
  shows "fst (pipe_run wr rd feed (map Record ns) s) = fst (rd (sum_list ns) s)"
  using assms
proof (induction ns arbitrary: s)
  case (Cons n ns)
  show ?case
    using Cons.IH [of "snd (rd n s)"] Cons.prems rd_pipe [OF Cons.prems, of n] rd_pipe [of "snd (rd n s)" "sum_list ns"]
      rd_pipe [OF Cons.prems, of "n + sum_list ns"]
    by (simp add: case_prod_unfold take_add)
qed (use rd_pipe in simp)

end

section \<open>Ports in a table (\<open>I2S.h\<close>)\<close>

record i2s_config =
  icMode :: int
  icRate :: int
  icBits :: int
  icChannelFormat :: int
  icCommFormat :: int
  icDmaCount :: int
  icDmaLen :: int
  icIntrFlags :: int

definition i2s_config_default :: i2s_config where
  "i2s_config_default =
    \<lparr>icMode = 0x01, icRate = 44100, icBits = 16, icChannelFormat = 0, icCommFormat = 1, icDmaCount = 8,
     icDmaLen = 64, icIntrFlags = 0\<rparr>"

record i2s_pins =
  ipBck :: int
  ipWs :: int
  ipOut :: int
  ipIn :: int

definition i2s_pins_default :: i2s_pins where
  "i2s_pins_default = \<lparr>ipBck = - 1, ipWs = - 1, ipOut = - 1, ipIn = - 1\<rparr>"

record i2s_port =
  poConfig :: i2s_config
  poPins :: i2s_pins
  poTx :: "byte list"
  poRx :: "byte list"
  poRunning :: bool

type_synonym i2s_ports = "int \<rightharpoonup> i2s_port"

definition ctl_install :: "int \<Rightarrow> i2s_config \<Rightarrow> i2s_ports \<Rightarrow> int \<times> i2s_ports" where
  "ctl_install port cfg s =
    (0, s(port \<mapsto> \<lparr>poConfig = cfg, poPins = i2s_pins_default, poTx = [], poRx = [], poRunning = True\<rparr>))"

text \<open>A call on a port that was not installed changes nothing and still returns 0.\<close>

definition on_port :: "int \<Rightarrow> (i2s_port \<Rightarrow> i2s_port) \<Rightarrow> i2s_ports \<Rightarrow> i2s_ports" where
  "on_port port f s = (case s port of Some p \<Rightarrow> s(port \<mapsto> f p) | None \<Rightarrow> s)"

definition ctl_setPins :: "int \<Rightarrow> i2s_pins \<Rightarrow> i2s_ports \<Rightarrow> int \<times> i2s_ports" where
  "ctl_setPins port pins s = (0, on_port port (\<lambda>p. p\<lparr>poPins := pins\<rparr>) s)"

definition ctl_start :: "int \<Rightarrow> i2s_ports \<Rightarrow> int \<times> i2s_ports" where
  "ctl_start port s = (0, on_port port (\<lambda>p. p\<lparr>poRunning := True\<rparr>) s)"

definition ctl_stop :: "int \<Rightarrow> i2s_ports \<Rightarrow> int \<times> i2s_ports" where
  "ctl_stop port s = (0, on_port port (\<lambda>p. p\<lparr>poRunning := False\<rparr>) s)"

definition ctl_uninstall :: "int \<Rightarrow> i2s_ports \<Rightarrow> int \<times> i2s_ports" where
  "ctl_uninstall port s = (0, s(port := None))"

definition ctl_isRunning :: "int \<Rightarrow> i2s_ports \<Rightarrow> bool" where
  "ctl_isRunning port s = (case s port of Some p \<Rightarrow> poRunning p | None \<Rightarrow> False)"

text \<open>The result, the number of bytes and the data (for a read).\<close>

definition ctl_write :: "int \<Rightarrow> byte list \<Rightarrow> i2s_ports \<Rightarrow> int \<times> nat \<times> i2s_ports" where
  "ctl_write port data s =
    (case s port of
      None \<Rightarrow> (- 1, 0, s)
    | Some p \<Rightarrow> if \<not> poRunning p then (- 1, 0, s)
        else (0, length data, s(port \<mapsto> p\<lparr>poTx := poTx p @ data\<rparr>)))"

definition ctl_read :: "int \<Rightarrow> nat \<Rightarrow> i2s_ports \<Rightarrow> int \<times> nat \<times> byte list \<times> i2s_ports" where
  "ctl_read port sz s =
    (case s port of
      None \<Rightarrow> (- 1, 0, [], s)
    | Some p \<Rightarrow> if \<not> poRunning p then (- 1, 0, [], s)
        else (let n = min sz (length (poRx p))
              in (0, n, take n (poRx p), s(port \<mapsto> p\<lparr>poRx := drop n (poRx p)\<rparr>))))"

definition ctl_injectRxData :: "int \<Rightarrow> byte list \<Rightarrow> i2s_ports \<Rightarrow> i2s_ports" where
  "ctl_injectRxData port data s = on_port port (\<lambda>p. p\<lparr>poRx := poRx p @ data\<rparr>) s"

definition ctl_getTxData :: "int \<Rightarrow> i2s_ports \<Rightarrow> byte list" where
  "ctl_getTxData port s = (case s port of Some p \<Rightarrow> poTx p | None \<Rightarrow> [])"

definition ctl_getTxSize :: "int \<Rightarrow> i2s_ports \<Rightarrow> nat" where
  "ctl_getTxSize port s = (case s port of Some p \<Rightarrow> length (poTx p) | None \<Rightarrow> 0)"

definition ctl_getConfig :: "int \<Rightarrow> i2s_ports \<Rightarrow> i2s_config" where
  "ctl_getConfig port s = (case s port of Some p \<Rightarrow> poConfig p | None \<Rightarrow> i2s_config_default)"

definition ctl_reset :: "i2s_ports \<Rightarrow> i2s_ports" where
  "ctl_reset s = (\<lambda>_. None)"

definition ctl_pending :: "int \<Rightarrow> i2s_ports \<Rightarrow> byte list" where
  "ctl_pending port s = (case s port of Some p \<Rightarrow> poRx p | None \<Rightarrow> [])"

lemmas ctl_defs = ctl_install_def on_port_def ctl_setPins_def ctl_start_def ctl_stop_def ctl_uninstall_def ctl_isRunning_def
  ctl_write_def ctl_read_def ctl_injectRxData_def ctl_getTxData_def ctl_getTxSize_def ctl_pending_def

interpretation ctl: audio_pipe "ctl_isRunning port" "ctl_getTxData port" "ctl_pending port"
  "\<lambda>d s. snd (snd (ctl_write port d s))" "\<lambda>n s. snd (snd (ctl_read port n s))" "ctl_injectRxData port"
  by unfold_locales (auto simp: ctl_defs Let_def min_def split: option.splits)

section \<open>Two ports with a cursor (\<open>driver/i2s.h\<close>)\<close>

record idf_i2s_config =
  xcMode :: int
  xcRate :: u32
  xcBits :: u32
  xcChannelFormat :: u32
  xcCommFormat :: int
  xcIntrFlags :: int
  xcDmaCount :: int
  xcDmaLen :: int
  xcApll :: bool
  xcAutoClear :: bool
  xcFixedMclk :: int

record idf_i2s_port =
  xpInstalled :: bool
  xpConfig :: idf_i2s_config
  xpPins :: i2s_pins
  xpTx :: "byte list"
  xpRx :: "byte list"
  xpPos :: nat

definition i2s_clear_unlocked :: "idf_i2s_port \<Rightarrow> idf_i2s_port" where
  "i2s_clear_unlocked p =
    \<lparr>xpInstalled = False,
     xpConfig = \<lparr>xcMode = 0, xcRate = 0, xcBits = 0, xcChannelFormat = 0, xcCommFormat = 0, xcIntrFlags = 0, xcDmaCount = 0,
       xcDmaLen = 0, xcApll = False, xcAutoClear = False, xcFixedMclk = 0\<rparr>,
     xpPins = \<lparr>ipBck = 0, ipWs = 0, ipOut = 0, ipIn = 0\<rparr>, xpTx = [], xpRx = [], xpPos = 0\<rparr>"

text \<open>The table of ports; \<open>no_i2s\<close> is the check of the number.\<close>

type_synonym idf_i2s = "int \<Rightarrow> idf_i2s_port"

abbreviation (input) no_i2s :: "int \<Rightarrow> bool" where
  "no_i2s num \<equiv> num < 0 \<or> num \<ge> 2"

definition idf_i2s_reset :: "idf_i2s \<Rightarrow> idf_i2s" where
  "idf_i2s_reset s = (\<lambda>num. if no_i2s num then s num else i2s_clear_unlocked (s num))"

definition idf_i2s_install :: "int \<Rightarrow> idf_i2s_config option \<Rightarrow> idf_i2s \<Rightarrow> int \<times> idf_i2s" where
  "idf_i2s_install num config s =
    (case config of
      None \<Rightarrow> (ESP_FAIL, s)
    | Some c \<Rightarrow> if no_i2s num then (ESP_FAIL, s) else (ESP_OK, s(num := (s num)\<lparr>xpInstalled := True, xpConfig := c\<rparr>)))"

definition idf_i2s_uninstall :: "int \<Rightarrow> idf_i2s \<Rightarrow> int \<times> idf_i2s" where
  "idf_i2s_uninstall num s = (if no_i2s num then (ESP_FAIL, s) else (ESP_OK, s(num := i2s_clear_unlocked (s num))))"

definition idf_i2s_set_pin :: "int \<Rightarrow> i2s_pins option \<Rightarrow> idf_i2s \<Rightarrow> int \<times> idf_i2s" where
  "idf_i2s_set_pin num pin s =
    (if no_i2s num then (ESP_FAIL, s)
     else (ESP_OK, case pin of Some p \<Rightarrow> s(num := (s num)\<lparr>xpPins := p\<rparr>) | None \<Rightarrow> s))"

definition idf_i2s_set_sample_rates :: "int \<Rightarrow> u32 \<Rightarrow> idf_i2s \<Rightarrow> int \<times> idf_i2s" where
  "idf_i2s_set_sample_rates num rate s =
    (if no_i2s num then (ESP_FAIL, s)
     else (ESP_OK, s(num := (s num)\<lparr>xpConfig := (xpConfig (s num))\<lparr>xcRate := rate\<rparr>\<rparr>)))"

definition idf_i2s_write :: "int \<Rightarrow> byte list option \<Rightarrow> idf_i2s \<Rightarrow> int \<times> nat option \<times> idf_i2s" where
  "idf_i2s_write num src s =
    (case src of
      None \<Rightarrow> (ESP_FAIL, None, s)
    | Some d \<Rightarrow> if no_i2s num then (ESP_FAIL, None, s)
        else (ESP_OK, Some (length d), s(num := (s num)\<lparr>xpTx := xpTx (s num) @ d\<rparr>)))"

text \<open>\<open>dest\<close> tells whether there is a destination; the bytes are what is copied to it.\<close>

definition idf_i2s_read :: "int \<Rightarrow> bool \<Rightarrow> nat \<Rightarrow> idf_i2s \<Rightarrow> int \<times> nat option \<times> byte list \<times> idf_i2s" where
  "idf_i2s_read num dest sz s =
    (if no_i2s num \<or> \<not> dest then (ESP_FAIL, None, [], s)
     else
       let p = s num; avail = length (xpRx p) - xpPos p; n = (if sz < avail then sz else avail)
       in (ESP_OK, Some n, chunk (xpRx p) (xpPos p) n, s(num := p\<lparr>xpPos := xpPos p + n\<rparr>)))"

text \<open>Starting, stopping and clearing the buffers check the number and do nothing.\<close>

definition idf_i2s_start :: "int \<Rightarrow> idf_i2s \<Rightarrow> int \<times> idf_i2s" where
  "idf_i2s_start num s = (if no_i2s num then (ESP_FAIL, s) else (ESP_OK, s))"

definition idf_i2s_stop :: "int \<Rightarrow> idf_i2s \<Rightarrow> int \<times> idf_i2s" where
  "idf_i2s_stop num s = (if no_i2s num then (ESP_FAIL, s) else (ESP_OK, s))"

definition idf_i2s_zero_dma_buffer :: "int \<Rightarrow> idf_i2s \<Rightarrow> int \<times> idf_i2s" where
  "idf_i2s_zero_dma_buffer num s = (if no_i2s num then (ESP_FAIL, s) else (ESP_OK, s))"

text \<open>Tests append to the received bytes of a port directly.\<close>

definition idf_i2s_inject :: "int \<Rightarrow> byte list \<Rightarrow> idf_i2s \<Rightarrow> idf_i2s" where
  "idf_i2s_inject num d s = s(num := (s num)\<lparr>xpRx := xpRx (s num) @ d\<rparr>)"

text \<open>The cursor stays within the received bytes; what is pending is behind it.\<close>

definition idf_i2s_ok :: "int \<Rightarrow> idf_i2s \<Rightarrow> bool" where
  "idf_i2s_ok num s \<longleftrightarrow> \<not> no_i2s num \<and> xpPos (s num) \<le> length (xpRx (s num))"

definition idf_i2s_pending :: "int \<Rightarrow> idf_i2s \<Rightarrow> byte list" where
  "idf_i2s_pending num s = drop (xpPos (s num)) (xpRx (s num))"

interpretation idf_i2s: audio_pipe "idf_i2s_ok num" "\<lambda>s. xpTx (s num)" "idf_i2s_pending num"
  "\<lambda>d s. snd (snd (idf_i2s_write num (Some d) s))" "\<lambda>n s. snd (snd (idf_i2s_read num True n s))" "idf_i2s_inject num"
  by unfold_locales
    (auto simp: idf_i2s_ok_def idf_i2s_pending_def idf_i2s_write_def idf_i2s_read_def idf_i2s_inject_def chunk_def Let_def
      drop_drop add.commute)

section \<open>Channels (\<open>driver/i2s_std.h\<close>)\<close>

record i2s_channel =
  chId :: int
  chDirRx :: bool
  chEnabled :: bool
  chConfigured :: bool
  chRate :: u32
  chBits :: u32
  chSlots :: u32
  chTx :: "byte list"
  chRx :: "byte list"

record i2s_std =
  isTx :: i2s_channel
  isRx :: i2s_channel
  isAllocated :: bool

definition i2s_channel_init :: "bool \<Rightarrow> i2s_channel" where
  "i2s_channel_init rx =
    \<lparr>chId = 0, chDirRx = rx, chEnabled = False, chConfigured = False, chRate = 44100, chBits = 16, chSlots = 2,
     chTx = [], chRx = []\<rparr>"

definition i2s_std_reset :: i2s_std where
  "i2s_std_reset = \<lparr>isTx = i2s_channel_init False, isRx = i2s_channel_init True, isAllocated = False\<rparr>"

text \<open>A handle is null or points to one of the two channels there are.\<close>

datatype i2s_handle = Null | Tx | Rx

fun i2s_chan :: "i2s_handle \<Rightarrow> i2s_std \<Rightarrow> i2s_channel option" where
  "i2s_chan Null s = None"
| "i2s_chan Tx s = Some (isTx s)"
| "i2s_chan Rx s = Some (isRx s)"

fun i2s_set_chan :: "i2s_handle \<Rightarrow> i2s_channel \<Rightarrow> i2s_std \<Rightarrow> i2s_std" where
  "i2s_set_chan Null c s = s"
| "i2s_set_chan Tx c s = s\<lparr>isTx := c\<rparr>"
| "i2s_set_chan Rx c s = s\<lparr>isRx := c\<rparr>"

text \<open>The configuration is its port number, if there is one; the handles are returned where they are asked for.\<close>

definition i2s_new_channel :: "int option \<Rightarrow> bool \<Rightarrow> bool \<Rightarrow> i2s_std \<Rightarrow> i2s_handle option \<times> i2s_handle option \<times> i2s_std" where
  "i2s_new_channel cfg tx rx s =
    (let n = (case cfg of Some n \<Rightarrow> n | None \<Rightarrow> 0)
     in (if tx then Some Tx else None, if rx then Some Rx else None,
         s\<lparr>isAllocated := True, isTx := (isTx s)\<lparr>chId := n\<rparr>, isRx := (isRx s)\<lparr>chId := n\<rparr>\<rparr>))"

text \<open>The clock part of the configuration: rate, width and slot mode.\<close>

definition i2s_channel_init_std_mode :: "i2s_handle \<Rightarrow> (u32 \<times> u32 \<times> u32) option \<Rightarrow> i2s_std \<Rightarrow> int \<times> i2s_std" where
  "i2s_channel_init_std_mode h cfg s =
    (case (i2s_chan h s, cfg) of
      (Some ch, Some (rate, bits, slots)) \<Rightarrow>
        (ESP_OK, i2s_set_chan h (ch\<lparr>chRate := rate, chBits := bits, chSlots := slots, chConfigured := True\<rparr>) s)
    | _ \<Rightarrow> (ESP_ERR_INVALID_ARG, s))"

definition i2s_channel_enable :: "i2s_handle \<Rightarrow> i2s_std \<Rightarrow> int \<times> i2s_std" where
  "i2s_channel_enable h s =
    (case i2s_chan h s of None \<Rightarrow> (ESP_ERR_INVALID_ARG, s) | Some ch \<Rightarrow> (ESP_OK, i2s_set_chan h (ch\<lparr>chEnabled := True\<rparr>) s))"

definition i2s_channel_disable :: "i2s_handle \<Rightarrow> i2s_std \<Rightarrow> int \<times> i2s_std" where
  "i2s_channel_disable h s =
    (case i2s_chan h s of None \<Rightarrow> (ESP_ERR_INVALID_ARG, s) | Some ch \<Rightarrow> (ESP_OK, i2s_set_chan h (ch\<lparr>chEnabled := False\<rparr>) s))"

definition i2s_channel_write :: "i2s_handle \<Rightarrow> byte list option \<Rightarrow> i2s_std \<Rightarrow> int \<times> nat option \<times> i2s_std" where
  "i2s_channel_write h src s =
    (case (i2s_chan h s, src) of
      (Some ch, Some d) \<Rightarrow> (ESP_OK, Some (length d), i2s_set_chan h (ch\<lparr>chTx := chTx ch @ d\<rparr>) s)
    | _ \<Rightarrow> (ESP_ERR_INVALID_ARG, None, s))"

definition i2s_channel_read :: "i2s_handle \<Rightarrow> bool \<Rightarrow> nat \<Rightarrow> i2s_std \<Rightarrow> int \<times> nat option \<times> byte list \<times> i2s_std" where
  "i2s_channel_read h dest sz s =
    (case i2s_chan h s of
      None \<Rightarrow> (ESP_ERR_INVALID_ARG, None, [], s)
    | Some ch \<Rightarrow>
        if \<not> dest then (ESP_ERR_INVALID_ARG, None, [], s)
        else let n = min sz (length (chRx ch))
             in (ESP_OK, Some n, take n (chRx ch), i2s_set_chan h (ch\<lparr>chRx := drop n (chRx ch)\<rparr>) s))"

definition i2s_del_channel :: "i2s_handle \<Rightarrow> i2s_std \<Rightarrow> i2s_std" where
  "i2s_del_channel h s =
    (case i2s_chan h s of None \<Rightarrow> s | Some ch \<Rightarrow> i2s_set_chan h (ch\<lparr>chEnabled := False, chConfigured := False\<rparr>) s)"

definition i2s_getTxBuffer :: "i2s_std \<Rightarrow> byte list" where
  "i2s_getTxBuffer s = chTx (isTx s)"

definition i2s_injectRxData :: "byte list \<Rightarrow> i2s_std \<Rightarrow> i2s_std" where
  "i2s_injectRxData d s = s\<lparr>isRx := (isRx s)\<lparr>chRx := chRx (isRx s) @ d\<rparr>\<rparr>"

definition i2s_isTxEnabled :: "i2s_std \<Rightarrow> bool" where
  "i2s_isTxEnabled s = chEnabled (isTx s)"

definition i2s_isRxEnabled :: "i2s_std \<Rightarrow> bool" where
  "i2s_isRxEnabled s = chEnabled (isRx s)"

definition i2s_getSampleRate :: "i2s_std \<Rightarrow> u32" where
  "i2s_getSampleRate s = chRate (isTx s)"

interpretation i2s_std: audio_pipe "\<lambda>_. True" i2s_getTxBuffer "\<lambda>s. chRx (isRx s)"
  "\<lambda>d s. snd (snd (i2s_channel_write Tx (Some d) s))" "\<lambda>n s. snd (snd (i2s_channel_read Rx True n s))" i2s_injectRxData
  by unfold_locales (auto simp: i2s_channel_write_def i2s_channel_read_def i2s_injectRxData_def i2s_getTxBuffer_def Let_def min_def)

section \<open>Continuous converter output (\<open>driver/dac_continuous.h\<close>)\<close>

record dac_config =
  dcMask :: u32
  dcDescNum :: u32
  dcBufSize :: u64
  dcFreq :: u32
  dcOffset :: int
  dcClk :: u32
  dcMode :: bool

record dac_cont =
  dcoInitialized :: bool
  dcoEnabled :: bool
  dcoConfig :: dac_config
  dcoLast :: "byte list"
  dcoTotal :: u64
  dcoCyclic :: bool

text \<open>Handles are null or not: there is one device.\<close>

definition dac_new_channels :: "dac_config option \<Rightarrow> bool \<Rightarrow> dac_cont \<Rightarrow> int \<times> dac_cont" where
  "dac_new_channels cfg out s =
    (case cfg of
      None \<Rightarrow> (- 1, s)
    | Some c \<Rightarrow> if \<not> out then (- 1, s) else (0, s\<lparr>dcoConfig := c, dcoInitialized := True, dcoEnabled := False\<rparr>))"

definition dac_enable :: "bool \<Rightarrow> dac_cont \<Rightarrow> int \<times> dac_cont" where
  "dac_enable h s = (if \<not> h then (- 1, s) else (0, s\<lparr>dcoEnabled := True\<rparr>))"

definition dac_disable :: "bool \<Rightarrow> dac_cont \<Rightarrow> int \<times> dac_cont" where
  "dac_disable h s = (if \<not> h then (- 1, s) else (0, s\<lparr>dcoEnabled := False\<rparr>))"

definition dac_del_channels :: "bool \<Rightarrow> dac_cont \<Rightarrow> int \<times> dac_cont" where
  "dac_del_channels h s =
    (if \<not> h then (- 1, s)
     else (0, s\<lparr>dcoInitialized := False, dcoEnabled := False, dcoLast := [], dcoTotal := 0\<rparr>))"

definition dac_write :: "bool \<Rightarrow> byte list option \<Rightarrow> dac_cont \<Rightarrow> int \<times> nat option \<times> dac_cont" where
  "dac_write h buf s =
    (case buf of
      None \<Rightarrow> (- 1, None, s)
    | Some d \<Rightarrow> if \<not> h then (- 1, None, s)
        else (0, Some (length d), s\<lparr>dcoLast := d, dcoTotal := dcoTotal s + word_of_nat (length d)\<rparr>))"

definition dac_write_cyclically :: "bool \<Rightarrow> byte list option \<Rightarrow> dac_cont \<Rightarrow> int \<times> nat option \<times> dac_cont" where
  "dac_write_cyclically h buf s =
    (case buf of
      None \<Rightarrow> (- 1, None, s)
    | Some d \<Rightarrow> if \<not> h then (- 1, None, s)
        else (0, Some (length d), s\<lparr>dcoLast := d, dcoTotal := dcoTotal s + word_of_nat (length d), dcoCyclic := True\<rparr>))"

section \<open>Properties\<close>

text \<open>
  A running port of \<open>I2S.h\<close> is a pipe. Whatever writes, reads and injections are interleaved, what was
  written is played in order, and what was injected is what was read followed by what is still pending;
  stopping, starting and setting pins keep both.
\<close>

theorem i2s_port_conserves:
  assumes "ctl_isRunning port s"
    "pipe_run (\<lambda>d s. snd (snd (ctl_write port d s))) (\<lambda>n s. snd (snd (ctl_read port n s))) (ctl_injectRxData port) ops s = (got, t)"
  shows "ctl_getTxData port t = ctl_getTxData port s @ played ops \<and>
    got @ ctl_pending port t = ctl_pending port s @ injected ops \<and>
    (\<forall>u \<in> {snd (ctl_stop port t), snd (ctl_start port (snd (ctl_stop port t))), snd (ctl_setPins port p t)}.
       ctl_getTxData port u = ctl_getTxData port t \<and> ctl_pending port u = ctl_pending port t)"
  using ctl.pipe_conserves [OF assms] by (auto simp: ctl_defs split: option.splits)

theorem i2s_port_conserves_witness:
  "ctl_getTxData 0 (snd (pipe_run (\<lambda>d s. snd (snd (ctl_write 0 d s))) (\<lambda>n s. snd (snd (ctl_read 0 n s))) (ctl_injectRxData 0)
     [Play [1], Inject [7, 8, 9], Record 2, Play [2], Record 5] (snd (ctl_install 0 i2s_config_default (\<lambda>_. None))))) = [1, 2]"
  using i2s_port_conserves [of 0 "snd (ctl_install 0 i2s_config_default (\<lambda>_. None))"
      "[Play [1], Inject [7, 8, 9], Record 2, Play [2], Record 5]", OF _ prod.collapse [symmetric], of i2s_pins_default]
  by (simp add: ctl_install_def ctl_isRunning_def ctl_getTxData_def)

text \<open>
  The cursor form. On a port of \<open>driver/i2s.h\<close> reads of any sizes hand out the injected bytes in order
  without a gap or a repetition, and reading in pieces gives what one read of the whole size gives, whether or
  not the driver is installed or started.
\<close>

theorem idf_i2s_reads:
  assumes "\<not> no_i2s num" "xpPos (s num) = 0" "xpRx (s num) = []"
    "pipe_run (\<lambda>d s. snd (snd (idf_i2s_write num (Some d) s))) (\<lambda>n s. snd (snd (idf_i2s_read num True n s)))
       (idf_i2s_inject num) ops s = (got, t)"
  shows "got @ idf_i2s_pending num t = injected ops \<and> xpTx (t num) = xpTx (s num) @ played ops \<and>
    fst (pipe_run (\<lambda>d s. snd (snd (idf_i2s_write num (Some d) s))) (\<lambda>n s. snd (snd (idf_i2s_read num True n s)))
       (idf_i2s_inject num) (map Record ns) t) = take (sum_list ns) (idf_i2s_pending num t)"
proof -
  have ok: "idf_i2s_ok num s" "idf_i2s_pending num s = []"
    using assms(1-3) by (simp_all add: idf_i2s_ok_def idf_i2s_pending_def)
  note c = idf_i2s.pipe_conserves [OF ok(1) assms(4)]
  then show ?thesis
    using idf_i2s.read_pieces [of num t ns] idf_i2s.rd_pipe [of num t "sum_list ns"] ok(2) by simp
qed

theorem idf_i2s_reads_witness:
  "fst (pipe_run (\<lambda>d s. snd (snd (idf_i2s_write 1 (Some d) s))) (\<lambda>n s. snd (snd (idf_i2s_read 1 True n s)))
     (idf_i2s_inject 1) [Inject [7, 8, 9], Record 2, Play [5]] (\<lambda>_. i2s_clear_unlocked undefined)) @
   idf_i2s_pending 1 (snd (pipe_run (\<lambda>d s. snd (snd (idf_i2s_write 1 (Some d) s))) (\<lambda>n s. snd (snd (idf_i2s_read 1 True n s)))
     (idf_i2s_inject 1) [Inject [7, 8, 9], Record 2, Play [5]] (\<lambda>_. i2s_clear_unlocked undefined))) = [7, 8, 9]"
  using idf_i2s_reads [of 1 "\<lambda>_. i2s_clear_unlocked undefined" "[Inject [7, 8, 9], Record 2, Play [5]]", OF _ _ _ prod.collapse [symmetric], of "[]"]
  by (simp add: i2s_clear_unlocked_def)

text \<open>
  Channels keep what they had. Deleting both channels and creating them anew neither empties the
  buffer of played bytes nor the received ones, and reading and writing do not ask whether a channel is enabled or
  configured: the first read of the new channel returns bytes of the old one.
\<close>

theorem i2s_std_delete_keeps:
  assumes "t = snd (snd (i2s_new_channel cfg True True (i2s_del_channel Rx (i2s_del_channel Tx s))))"
  shows "i2s_getTxBuffer t = i2s_getTxBuffer s \<and> \<not> i2s_isTxEnabled t \<and> \<not> i2s_isRxEnabled t \<and>
    fst (i2s_channel_write Tx (Some d) t) = ESP_OK \<and>
    i2s_getTxBuffer (snd (snd (i2s_channel_write Tx (Some d) t))) = i2s_getTxBuffer s @ d \<and>
    fst (snd (snd (i2s_channel_read Rx True n t))) = take n (chRx (isRx s))"
  using assms
  by (simp add: i2s_new_channel_def i2s_del_channel_def i2s_getTxBuffer_def i2s_isTxEnabled_def i2s_isRxEnabled_def
      i2s_channel_write_def i2s_channel_read_def Let_def min_def)

theorem i2s_std_delete_keeps_witness:
  "fst (snd (snd (i2s_channel_read Rx True 4 (snd (snd (i2s_new_channel None True True
     (i2s_del_channel Rx (i2s_del_channel Tx (i2s_injectRxData [1, 2] i2s_std_reset))))))))) = [1, 2]"
  using i2s_std_delete_keeps [of _ None "i2s_injectRxData [1, 2] i2s_std_reset" "[]" 4, OF refl]
  by (simp add: i2s_injectRxData_def i2s_std_reset_def i2s_channel_init_def)

definition dac_step :: "bool \<times> byte list \<Rightarrow> dac_cont \<Rightarrow> dac_cont" where
  "dac_step w s = snd (snd ((if fst w then dac_write_cyclically else dac_write) True (Some (snd w)) s))"

lemma dac_step_simps [simp]:
  "dcoTotal (dac_step w s) = dcoTotal s + word_of_nat (length (snd w))" "dcoLast (dac_step w s) = snd w"
  "dcoCyclic (dac_step w s) = (dcoCyclic s \<or> fst w)"
  by (simp_all add: dac_step_def dac_write_def dac_write_cyclically_def)

text \<open>
  The converter. After any sequence of writes, cyclic or not, the buffer holds the last one and the
  counter is the sum of their lengths at 64 bits; once a cyclic write happened the cyclic flag stays set,
  also through plain writes and through deletion.
\<close>

theorem dac_total:
  "dcoTotal (fold dac_step ws s) = dcoTotal s + word_of_nat (sum_list (map (length \<circ> snd) ws)) \<and>
   dcoLast (fold dac_step ws s) = (if ws = [] then dcoLast s else snd (last ws)) \<and>
   dcoCyclic (snd (dac_del_channels True (fold dac_step ws s))) = (dcoCyclic s \<or> list_ex fst ws)"
  by (induction ws rule: rev_induct) (simp_all add: dac_del_channels_def add.assoc disj_assoc)

end
