(* ===== verification/Idf_Buses.thy ===== *)
theory Idf_Buses
  imports Prelude "HOL-Library.Sublist"
begin

text \<open>
  The bus drivers of ESP-IDF: the I2C master of \<open>src/include/driver/i2c_master.h\<close>, the SPI master of
  \<open>src/include/driver/spi_master.h\<close> and the SPI slave of \<open>src/include/driver/spi_slave.h\<close>. Devices live in a
  heap, their handles are its addresses; using a device that was removed is undefined, \<open>None\<close>. The lemmas
  show what a device is sent and answers, what padding and truncation do, and when an address is found.
\<close>

section \<open>The I2C master\<close>

text \<open>
  A bus has the responses and the bytes written for each address (\<open>std::map\<close>, whose index operator makes an
  empty entry); its pins are only kept. The buses' devices are in one heap.
\<close>

record i2c_dev =
  idAddress :: u16
  idSpeed :: u32
  idRxPos :: nat

record i2c_bus =
  ibPort :: int
  ibSda :: int
  ibScl :: int
  ibHeap :: "nat \<rightharpoonup> i2c_dev"
  ibNext :: nat
  ibDevices :: "nat list"
  ibResponses :: "u16 \<rightharpoonup> byte list"
  ibWritten :: "u16 \<rightharpoonup> byte list"

definition i2c_new_master_bus :: "int \<Rightarrow> int \<Rightarrow> int \<Rightarrow> esp_err \<times> i2c_bus" where
  "i2c_new_master_bus port sda scl =
    (ESP_OK, \<lparr>ibPort = port, ibSda = sda, ibScl = scl, ibHeap = Map.empty, ibNext = 0, ibDevices = [],
              ibResponses = Map.empty, ibWritten = Map.empty\<rparr>)"

definition i2c_set_response :: "u16 \<Rightarrow> byte list \<Rightarrow> i2c_bus \<Rightarrow> i2c_bus" where
  "i2c_set_response a d b = b\<lparr>ibResponses := (ibResponses b)(a \<mapsto> d)\<rparr>"

definition entry :: "(u16 \<rightharpoonup> byte list) \<Rightarrow> u16 \<Rightarrow> byte list" where
  "entry m a = (case m a of Some d \<Rightarrow> d | None \<Rightarrow> [])"

definition i2c_get_written :: "u16 \<Rightarrow> i2c_bus \<Rightarrow> byte list \<times> i2c_bus" where
  "i2c_get_written a b = (let w = entry (ibWritten b) a in (w, b\<lparr>ibWritten := (ibWritten b)(a \<mapsto> w)\<rparr>))"

definition i2c_add_device :: "u16 \<Rightarrow> u32 \<Rightarrow> i2c_bus \<Rightarrow> (esp_err \<times> nat) \<times> i2c_bus" where
  "i2c_add_device a speed b =
    ((ESP_OK, ibNext b),
     b\<lparr>ibHeap := (ibHeap b)(ibNext b \<mapsto> \<lparr>idAddress = a, idSpeed = speed, idRxPos = 0\<rparr>),
       ibDevices := ibDevices b @ [ibNext b], ibNext := ibNext b + 1\<rparr>)"

definition i2c_transmit :: "nat \<Rightarrow> byte list \<Rightarrow> i2c_bus \<Rightarrow> (esp_err \<times> i2c_bus) option" where
  "i2c_transmit h d b =
    (case ibHeap b h of
      None \<Rightarrow> None
    | Some v \<Rightarrow>
        let a = idAddress v
        in Some (ESP_OK, b\<lparr>ibWritten := (ibWritten b)(a \<mapsto> entry (ibWritten b) a @ d)\<rparr>))"

text \<open>The loop of \<open>i2c_master_receive\<close>: the bytes read and the new position.\<close>

fun receive_loop :: "byte list \<Rightarrow> nat \<Rightarrow> nat \<Rightarrow> byte list \<times> nat" where
  "receive_loop resp 0 pos = ([], pos)"
| "receive_loop resp (Suc n) pos =
    (if pos < length resp
     then let (bs, p) = receive_loop resp n (pos + 1) in (resp ! pos # bs, p)
     else let (bs, p) = receive_loop resp n pos in (0xFF # bs, p))"

definition i2c_receive :: "nat \<Rightarrow> nat \<Rightarrow> i2c_bus \<Rightarrow> ((esp_err \<times> byte list) \<times> i2c_bus) option" where
  "i2c_receive h n b =
    (case ibHeap b h of
      None \<Rightarrow> None
    | Some v \<Rightarrow>
        let a = idAddress v; resp = entry (ibResponses b) a; (bs, p) = receive_loop resp n (idRxPos v)
        in Some ((ESP_OK, bs), b\<lparr>ibResponses := (ibResponses b)(a \<mapsto> resp), ibHeap := (ibHeap b)(h \<mapsto> v\<lparr>idRxPos := p\<rparr>)\<rparr>))"

definition i2c_transmit_receive :: "nat \<Rightarrow> byte list \<Rightarrow> nat \<Rightarrow> i2c_bus \<Rightarrow> ((esp_err \<times> byte list) \<times> i2c_bus) option" where
  "i2c_transmit_receive h d n b =
    (case i2c_transmit h d b of
      None \<Rightarrow> None
    | Some (_, b) \<Rightarrow>
        (case ibHeap b h of
          None \<Rightarrow> None
        | Some v \<Rightarrow> i2c_receive h n (b\<lparr>ibHeap := (ibHeap b)(h \<mapsto> v\<lparr>idRxPos := 0\<rparr>)\<rparr>)))"

definition i2c_rm_device :: "nat \<Rightarrow> i2c_bus \<Rightarrow> (esp_err \<times> i2c_bus) option" where
  "i2c_rm_device h b =
    (case ibHeap b h of
      None \<Rightarrow> None
    | Some _ \<Rightarrow> Some (ESP_OK, b\<lparr>ibDevices := remove1 h (ibDevices b), ibHeap := (ibHeap b)(h := None)\<rparr>))"

text \<open>The loop of deletions: a handle whose object is gone makes it undefined.\<close>

fun i2c_free :: "nat list \<Rightarrow> (nat \<rightharpoonup> i2c_dev) \<Rightarrow> (nat \<rightharpoonup> i2c_dev) option" where
  "i2c_free [] hp = Some hp"
| "i2c_free (d # ds) hp = (case hp d of None \<Rightarrow> None | Some _ \<Rightarrow> i2c_free ds (hp(d := None)))"

definition i2c_del_bus :: "i2c_bus \<Rightarrow> (esp_err \<times> (nat \<rightharpoonup> i2c_dev)) option" where
  "i2c_del_bus b = map_option (Pair ESP_OK) (i2c_free (ibDevices b) (ibHeap b))"

definition i2c_probe :: "u16 \<Rightarrow> i2c_bus \<Rightarrow> esp_err" where
  "i2c_probe a b = (if ibResponses b a \<noteq> None then ESP_OK else ESP_ERR_NOT_FOUND)"

lemma receive_loop_eq:
  "receive_loop resp n pos = (take n (drop pos resp) @ replicate (n - (length resp - pos)) 0xFF, min (pos + n) (max pos (length resp)))"
proof (induction n arbitrary: pos)
  case (Suc n)
  show ?case
  proof (cases "pos < length resp")
    case True
    then have "drop pos resp = resp ! pos # drop (Suc pos) resp"
      by (simp add: Cons_nth_drop_Suc)
    moreover have "Suc n - (length resp - pos) = n - (length resp - Suc pos)"
      using True by simp
    ultimately show ?thesis
      using True by (simp add: Suc.IH)
  next
    case False
    then show ?thesis
      by (simp add: Suc.IH)
  qed
qed simp

section \<open>The SPI master\<close>

text \<open>
  What a device answers is a function of the bytes sent. Of a transaction the buffers are lists: reading or
  writing more than a buffer has is undefined. A null buffer is \<open>None\<close>.
\<close>

record spi_trans =
  stTxData :: bool
  stRxData :: bool
  stLength :: nat
  stRxLength :: nat
  stTx :: "byte list option"
  stRx :: "byte list option"
  stTx4 :: "byte list"
  stRx4 :: "byte list"

type_synonym spi_responder = "byte list \<Rightarrow> byte list"

record spi_dev =
  sdId :: int
  sdResponder :: "spi_responder option"

record spi_master =
  smHeap :: "nat \<rightharpoonup> spi_dev"
  smNext :: nat
  smDevices :: "nat list"
  smNextId :: int

definition spi_new :: spi_master where
  "spi_new = \<lparr>smHeap = Map.empty, smNext = 0, smDevices = [], smNextId = 1\<rparr>"

definition spi_add_device :: "spi_master \<Rightarrow> (esp_err \<times> nat) \<times> spi_master" where
  "spi_add_device s =
    ((ESP_OK, smNext s),
     s\<lparr>smHeap := (smHeap s)(smNext s \<mapsto> \<lparr>sdId = smNextId s, sdResponder = None\<rparr>), smNext := smNext s + 1,
       smDevices := smDevices s @ [smNext s], smNextId := smNextId s + 1\<rparr>)"

definition spi_remove_device :: "nat \<Rightarrow> spi_master \<Rightarrow> (esp_err \<times> spi_master) option" where
  "spi_remove_device h s =
    (case smHeap s h of
      None \<Rightarrow> None
    | Some _ \<Rightarrow> Some (ESP_OK, s\<lparr>smDevices := remove1 h (smDevices s), smHeap := (smHeap s)(h := None)\<rparr>))"

definition spi_setResponder :: "nat \<Rightarrow> spi_responder \<Rightarrow> spi_master \<Rightarrow> spi_master option" where
  "spi_setResponder h f s =
    map_option (\<lambda>d. s\<lparr>smHeap := (smHeap s)(h \<mapsto> d\<lparr>sdResponder := Some f\<rparr>)\<rparr>) (smHeap s h)"

text \<open>Bytes copied over the beginning of a buffer.\<close>

definition copy_over :: "byte list \<Rightarrow> byte list \<Rightarrow> byte list option" where
  "copy_over src dst = (if length src \<le> length dst then Some (src @ drop (length src) dst) else None)"

definition spi_transmit :: "nat \<Rightarrow> spi_trans \<Rightarrow> spi_master \<Rightarrow> (esp_err \<times> spi_trans) option" where
  "spi_transmit h t s =
    (case smHeap s h of
      None \<Rightarrow> None
    | Some dev \<Rightarrow>
        let byteLen = (stLength t + 7) div 8; tx = (if stTxData t then Some (stTx4 t) else stTx t)
        in case (sdResponder dev, tx) of
          (Some f, Some d) \<Rightarrow>
            if length d < byteLen then None
            else
              let rx = f (take byteLen d);
                  rxLen = (if stRxLength t > 0 then (stRxLength t + 7) div 8 else byteLen);
                  copyLen = min (length rx) rxLen
              in if stRxData t
                 then map_option (\<lambda>x. (ESP_OK, t\<lparr>stRx4 := x\<rparr>)) (copy_over (take (min copyLen 4) rx) (stRx4 t))
                 else (case stRx t of
                   Some x \<Rightarrow> map_option (\<lambda>x. (ESP_OK, t\<lparr>stRx := Some x\<rparr>)) (copy_over (take copyLen rx) x)
                 | None \<Rightarrow> Some (ESP_OK, t))
        | _ \<Rightarrow> Some (ESP_OK, t))"

section \<open>The SPI slave\<close>

text \<open>
  A transaction's length and its receive buffer. The list of queued transactions keeps their addresses, here
  numbers; nothing reads through them.
\<close>

record spi_slave =
  ssInitialized :: bool
  ssHost :: int
  ssQueued :: "nat list"
  ssInject :: "byte list"

definition slave_new :: spi_slave where
  "slave_new = \<lparr>ssInitialized = False, ssHost = 1, ssQueued = [], ssInject = []\<rparr>"

definition slave_reset :: "spi_slave \<Rightarrow> spi_slave" where
  "slave_reset s = s\<lparr>ssInitialized := False, ssQueued := [], ssInject := []\<rparr>"

definition slave_initialize :: "int \<Rightarrow> spi_slave \<Rightarrow> esp_err \<times> spi_slave" where
  "slave_initialize host s = (ESP_OK, s\<lparr>ssHost := host, ssInitialized := True\<rparr>)"

definition slave_free :: "spi_slave \<Rightarrow> esp_err \<times> spi_slave" where
  "slave_free s = (ESP_OK, slave_reset s)"

text \<open>The result: the error, the receive buffer and the transferred length in bits.\<close>

definition slave_transmit ::
  "nat \<Rightarrow> nat \<Rightarrow> byte list option \<Rightarrow> spi_slave \<Rightarrow> ((esp_err \<times> byte list option \<times> nat option) \<times> spi_slave) option" where
  "slave_transmit tid len rx s =
    (if \<not> ssInitialized s then Some ((ESP_ERR_INVALID_ARG, rx, None), s)
     else
       let bytes = len div 8
       in case rx of
         Some x \<Rightarrow>
           if ssInject s \<noteq> [] then
             (let n = (if bytes < length (ssInject s) then bytes else length (ssInject s))
              in map_option (\<lambda>x. ((ESP_OK, Some x, Some len), s\<lparr>ssInject := drop n (ssInject s), ssQueued := ssQueued s @ [tid]\<rparr>))
                   (copy_over (take n (ssInject s)) x))
           else Some ((ESP_OK, rx, Some len), s\<lparr>ssQueued := ssQueued s @ [tid]\<rparr>)
       | None \<Rightarrow> Some ((ESP_OK, rx, Some len), s\<lparr>ssQueued := ssQueued s @ [tid]\<rparr>))"

definition slave_queue :: "nat \<Rightarrow> spi_slave \<Rightarrow> esp_err \<times> spi_slave" where
  "slave_queue tid s =
    (if \<not> ssInitialized s then (ESP_ERR_INVALID_ARG, s) else (ESP_OK, s\<lparr>ssQueued := ssQueued s @ [tid]\<rparr>))"

definition slave_inject :: "byte list \<Rightarrow> spi_slave \<Rightarrow> spi_slave" where
  "slave_inject d s = s\<lparr>ssInject := ssInject s @ d\<rparr>"

section \<open>Properties\<close>

text \<open>
  Reading a register. Writing the register's number and reading answers with the device's response from
  its beginning, whatever was read before, filled up with \<open>0xFF\<close>; a following read goes on behind it.
\<close>

theorem i2c_register_read:
  assumes "ibHeap b h = Some v" "ibResponses b (idAddress v) = Some resp"
  shows "\<exists>b'. i2c_transmit_receive h d n b = Some ((ESP_OK, take n resp @ replicate (n - length resp) 0xFF), b') \<and>
    (\<exists>b''. i2c_receive h k b' = Some ((ESP_OK, take k (drop n resp) @ replicate (k - (length resp - n)) 0xFF), b'')) \<and>
    fst (i2c_get_written (idAddress v) b') = entry (ibWritten b) (idAddress v) @ d"
proof -
  have "min n (max 0 (length resp)) = min n (length resp)"
    by simp
  moreover have "drop (min n (length resp)) resp = drop n resp" "length resp - min n (length resp) = length resp - n"
    by (simp_all add: min_def)
  ultimately show ?thesis
    using assms
    by (simp add: i2c_transmit_receive_def i2c_transmit_def i2c_receive_def i2c_get_written_def receive_loop_eq entry_def Let_def)
qed

theorem i2c_register_read_witness:
  "\<exists>b'. i2c_transmit_receive 0 [0x75] 3 (i2c_set_response 0x68 [1, 2] (snd (i2c_add_device 0x68 400000 (snd (i2c_new_master_bus 0 21 22))))) =
    Some ((ESP_OK, [1, 2, 0xFF]), b')"
  using i2c_register_read [of "i2c_set_response 0x68 [1, 2] (snd (i2c_add_device 0x68 400000 (snd (i2c_new_master_bus 0 21 22))))" 0
      "\<lparr>idAddress = 0x68, idSpeed = 400000, idRxPos = 0\<rparr>" "[1, 2]" "[0x75]" 3 0]
  by (auto simp: i2c_set_response_def i2c_add_device_def i2c_new_master_bus_def)

text \<open>
  Reading makes an address answer. A device that is not on the bus is not found; after one attempt to read
  from it, which succeeds and gives only \<open>0xFF\<close>, it is found.
\<close>

theorem i2c_read_creates_device:
  assumes "ibHeap b h = Some v" "ibResponses b (idAddress v) = None"
  shows "i2c_probe (idAddress v) b = ESP_ERR_NOT_FOUND \<and>
    (\<exists>b'. i2c_receive h n b = Some ((ESP_OK, replicate n 0xFF), b') \<and> i2c_probe (idAddress v) b' = ESP_OK)"
  using assms by (simp add: i2c_probe_def i2c_receive_def entry_def receive_loop_eq Let_def)

theorem i2c_read_creates_device_witness:
  "i2c_probe 0x42 (snd (i2c_add_device 0x42 100000 (snd (i2c_new_master_bus 0 21 22)))) = ESP_ERR_NOT_FOUND"
  using i2c_read_creates_device [of "snd (i2c_add_device 0x42 100000 (snd (i2c_new_master_bus 0 21 22)))" 0
      "\<lparr>idAddress = 0x42, idSpeed = 100000, idRxPos = 0\<rparr>"]
  by (simp add: i2c_add_device_def i2c_new_master_bus_def)

datatype bus_op = Add_Device u16 u32 | Rm_Device nat

definition bus_step :: "bus_op \<Rightarrow> i2c_bus \<Rightarrow> i2c_bus" where
  "bus_step a b =
    (case a of
      Add_Device d sp \<Rightarrow> snd (i2c_add_device d sp b)
    | Rm_Device h \<Rightarrow> (case i2c_rm_device h b of Some (_, b) \<Rightarrow> b | None \<Rightarrow> b))"

definition bus_ok :: "i2c_bus \<Rightarrow> bool" where
  "bus_ok b \<longleftrightarrow> set (ibDevices b) = dom (ibHeap b) \<and> distinct (ibDevices b) \<and> (\<forall>h \<in> dom (ibHeap b). h < ibNext b)"

lemma bus_step_ok:
  assumes "bus_ok b"
  shows "bus_ok (bus_step a b)"
proof (cases a)
  case (Add_Device d sp)
  have "ibNext b \<notin> dom (ibHeap b)"
    using assms unfolding bus_ok_def by blast
  then show ?thesis
    using assms by (simp add: Add_Device bus_step_def bus_ok_def i2c_add_device_def less_Suc_eq)
next
  case (Rm_Device h)
  show ?thesis
  proof (cases "ibHeap b h")
    case None
    then show ?thesis
      using assms by (simp add: Rm_Device bus_step_def i2c_rm_device_def)
  next
    case (Some v)
    then show ?thesis
      using assms by (simp add: Rm_Device bus_step_def bus_ok_def i2c_rm_device_def set_remove1_eq)
  qed
qed

lemma i2c_free_all:
  "distinct ds \<Longrightarrow> set ds \<subseteq> dom hp \<Longrightarrow> i2c_free ds hp = Some (hp |` (- set ds))"
proof (induction ds arbitrary: hp)
  case (Cons d ds)
  then obtain v where v: "hp d = Some v" by auto
  have "i2c_free ds (hp(d := None)) = Some ((hp(d := None)) |` (- set ds))"
    using Cons.prems by (intro Cons.IH) auto
  moreover have "(hp(d := None)) |` (- set ds) = hp |` (- set (d # ds))"
    by (auto simp: restrict_map_def fun_eq_iff)
  ultimately show ?case
    using v by simp
qed (simp add: restrict_map_def fun_eq_iff)

text \<open>
  C38: handles are safe. Along any sequence of additions and of removals of live devices the list of a bus has just
  the devices in the heap, each once, so removing the bus frees each device once, and leaves none.
\<close>

theorem i2c_devices_freed_once:
  "bus_ok (fold bus_step ops (snd (i2c_new_master_bus p sda scl))) \<and>
   i2c_del_bus (fold bus_step ops (snd (i2c_new_master_bus p sda scl))) = Some (ESP_OK, Map.empty)"
proof -
  have "bus_ok (fold bus_step ops b)" if "bus_ok b" for b
    using that by (induction ops arbitrary: b) (simp_all add: bus_step_ok)
  moreover have "bus_ok (snd (i2c_new_master_bus p sda scl))"
    by (simp add: bus_ok_def i2c_new_master_bus_def)
  ultimately have ok: "bus_ok (fold bus_step ops (snd (i2c_new_master_bus p sda scl)))" (is "bus_ok ?b")
    by blast
  then have "i2c_free (ibDevices ?b) (ibHeap ?b) = Some (ibHeap ?b |` (- set (ibDevices ?b)))"
    by (intro i2c_free_all) (auto simp: bus_ok_def)
  moreover have "ibHeap ?b |` (- set (ibDevices ?b)) = Map.empty"
    using ok by (auto simp: bus_ok_def restrict_map_def fun_eq_iff)
  ultimately show ?thesis
    using ok by (simp add: i2c_del_bus_def)
qed

text \<open>
  A full duplex transfer. A device that answers as many bytes as it is sent fills the receive buffer with
  them, whatever the length in bits is rounded up to; without a responder the buffer keeps what it had.
\<close>

theorem spi_full_duplex:
  assumes "smHeap s h = Some dev" "stTx t = Some d" "stRx t = Some x" "\<not> stTxData t" "\<not> stRxData t" "stRxLength t = 0"
    and "length d = (stLength t + 7) div 8" "length x = length d" "\<And>y. length (f y) = length y"
  shows "spi_transmit h t (s\<lparr>smHeap := (smHeap s)(h \<mapsto> dev\<lparr>sdResponder := Some f\<rparr>)\<rparr>) = Some (ESP_OK, t\<lparr>stRx := Some (f d)\<rparr>) \<and>
    spi_transmit h t (s\<lparr>smHeap := (smHeap s)(h \<mapsto> dev\<lparr>sdResponder := None\<rparr>)\<rparr>) = Some (ESP_OK, t)"
  using assms by (simp add: spi_transmit_def copy_over_def Let_def)

theorem spi_full_duplex_witness:
  "spi_transmit 0 \<lparr>stTxData = False, stRxData = False, stLength = 12, stRxLength = 0, stTx = Some [1, 2], stRx = Some [0, 0], stTx4 = [], stRx4 = []\<rparr>
     ((snd (spi_add_device spi_new))\<lparr>smHeap := [0 \<mapsto> \<lparr>sdId = 1, sdResponder = Some rev\<rparr>]\<rparr>) =
   Some (ESP_OK, \<lparr>stTxData = False, stRxData = False, stLength = 12, stRxLength = 0, stTx = Some [1, 2], stRx = Some [2, 1], stTx4 = [], stRx4 = []\<rparr>)"
  using spi_full_duplex [of "snd (spi_add_device spi_new)" 0 "\<lparr>sdId = 1, sdResponder = None\<rparr>"
      "\<lparr>stTxData = False, stRxData = False, stLength = 12, stRxLength = 0, stTx = Some [1, 2], stRx = Some [0, 0], stTx4 = [], stRx4 = []\<rparr>"
      "[1, 2]" "[0, 0]" rev]
  by (simp add: spi_add_device_def spi_new_def)

text \<open>
  What a slave receives. Transfers of whole bytes with buffers large enough take the injected bytes in
  order, none lost and none repeated; but the length reported is the one asked for, also when fewer bytes came.
\<close>

theorem spi_slave_stream:
  assumes "ssInitialized s" "ssInject s \<noteq> []" "length x = n"
  shows "\<exists>x' s'. slave_transmit tid (8 * n) (Some x) s = Some ((ESP_OK, Some x', Some (8 * n)), s') \<and>
    take n (ssInject s) @ ssInject s' = ssInject s \<and> length x' = n \<and> prefix (take n (ssInject s)) x' \<and> ssQueued s' = ssQueued s @ [tid]"
proof -
  have "(if n < length (ssInject s) then n else length (ssInject s)) = min n (length (ssInject s))"
    by auto
  then show ?thesis
    using assms by (auto simp: slave_transmit_def copy_over_def Let_def min_def)
qed

theorem spi_slave_stream_witness:
  "\<exists>x' s'. slave_transmit 7 16 (Some [0, 0]) (slave_inject [1, 2, 3] (snd (slave_initialize 1 slave_new))) =
    Some ((ESP_OK, Some x', Some 16), s') \<and> prefix [1, 2] x'"
  using spi_slave_stream [of "slave_inject [1, 2, 3] (snd (slave_initialize 1 slave_new))" "[0, 0]" 2 7]
  by (auto simp: slave_inject_def slave_initialize_def slave_new_def)

end
