(* ===== verification/Idf_Signals.thy ===== *)
theory Idf_Signals
  imports Interfaces
begin

unbundle bit_operations_syntax

text \<open>
  The signal drivers of ESP-IDF: LED control (PWM) of \<open>src/include/driver/ledc.h\<close>, the remote control
  transceiver of \<open>src/include/driver/rmt.h\<close> and the touch pads of \<open>src/include/driver/touch_pad.h\<close>. The channels
  of each are cells of a store. The lemmas show that channels do not disturb each other, what the
  transceiver logs, how its items are packed, and when a touch fires the interrupt.
\<close>

section \<open>LED control\<close>

text \<open>
  Modes, timers and channels are numbers of C enumerations (\<open>unsigned int\<close>); the tables are indexed by mode and
  number. A configuration that is a null pointer is \<open>None\<close>.
\<close>

record ledc_timer =
  ltFreq :: u32
  ltResolution :: u32
  ltConfigured :: bool

record ledc_channel =
  lcGpio :: int
  lcTimer :: u32
  lcDuty :: u32
  lcConfigured :: bool

record ledc =
  leTimers :: "u32 \<times> u32 \<Rightarrow> ledc_timer"
  leChannels :: "u32 \<times> u32 \<Rightarrow> ledc_channel"
  leFade :: bool

definition ledc_reset :: ledc where
  "ledc_reset =
    \<lparr>leTimers = (\<lambda>_. \<lparr>ltFreq = 0, ltResolution = 13, ltConfigured = False\<rparr>),
     leChannels = (\<lambda>_. \<lparr>lcGpio = - 1, lcTimer = 0, lcDuty = 0, lcConfigured = False\<rparr>), leFade = False\<rparr>"

definition ledc_timer_config :: "(u32 \<times> u32 \<times> u32 \<times> u32) option \<Rightarrow> ledc \<Rightarrow> esp_err \<times> ledc" where
  "ledc_timer_config cfg s =
    (case cfg of
      None \<Rightarrow> (ESP_ERR_INVALID_ARG, s)
    | Some (mode, resolution, timer, freq) \<Rightarrow>
        if mode \<ge> 2 \<or> timer \<ge> 4 then (ESP_ERR_INVALID_ARG, s)
        else (ESP_OK, s\<lparr>leTimers := (leTimers s)((mode, timer) := \<lparr>ltFreq = freq, ltResolution = resolution, ltConfigured = True\<rparr>)\<rparr>))"

definition ledc_channel_config :: "(int \<times> u32 \<times> u32 \<times> u32 \<times> u32) option \<Rightarrow> ledc \<Rightarrow> esp_err \<times> ledc" where
  "ledc_channel_config cfg s =
    (case cfg of
      None \<Rightarrow> (ESP_ERR_INVALID_ARG, s)
    | Some (gpio, mode, channel, timer, duty) \<Rightarrow>
        if mode \<ge> 2 \<or> channel \<ge> 8 then (ESP_ERR_INVALID_ARG, s)
        else (ESP_OK, s\<lparr>leChannels := (leChannels s)((mode, channel) :=
                \<lparr>lcGpio = gpio, lcTimer = timer, lcDuty = duty, lcConfigured = True\<rparr>)\<rparr>))"

definition ledc_set_duty :: "u32 \<Rightarrow> u32 \<Rightarrow> u32 \<Rightarrow> ledc \<Rightarrow> esp_err \<times> ledc" where
  "ledc_set_duty mode ch duty s =
    (if mode \<ge> 2 \<or> ch \<ge> 8 then (ESP_ERR_INVALID_ARG, s)
     else (ESP_OK, s\<lparr>leChannels := (leChannels s)((mode, ch) := (leChannels s (mode, ch))\<lparr>lcDuty := duty\<rparr>)\<rparr>))"

definition ledc_update_duty :: "u32 \<Rightarrow> u32 \<Rightarrow> ledc \<Rightarrow> esp_err \<times> ledc" where
  "ledc_update_duty mode ch s = (if mode \<ge> 2 \<or> ch \<ge> 8 then (ESP_ERR_INVALID_ARG, s) else (ESP_OK, s))"

definition ledc_get_duty :: "u32 \<Rightarrow> u32 \<Rightarrow> ledc \<Rightarrow> u32" where
  "ledc_get_duty mode ch s = (if mode \<ge> 2 \<or> ch \<ge> 8 then 0 else lcDuty (leChannels s (mode, ch)))"

definition ledc_set_freq :: "u32 \<Rightarrow> u32 \<Rightarrow> u32 \<Rightarrow> ledc \<Rightarrow> esp_err \<times> ledc" where
  "ledc_set_freq mode timer freq s =
    (if mode \<ge> 2 \<or> timer \<ge> 4 then (ESP_ERR_INVALID_ARG, s)
     else (ESP_OK, s\<lparr>leTimers := (leTimers s)((mode, timer) := (leTimers s (mode, timer))\<lparr>ltFreq := freq\<rparr>)\<rparr>))"

definition ledc_get_freq :: "u32 \<Rightarrow> u32 \<Rightarrow> ledc \<Rightarrow> u32" where
  "ledc_get_freq mode timer s = (if mode \<ge> 2 \<or> timer \<ge> 4 then 0 else ltFreq (leTimers s (mode, timer)))"

definition ledc_fade_func_install :: "ledc \<Rightarrow> esp_err \<times> ledc" where
  "ledc_fade_func_install s = (ESP_OK, s\<lparr>leFade := True\<rparr>)"

definition ledc_set_fade_with_time :: "u32 \<Rightarrow> u32 \<Rightarrow> u32 \<Rightarrow> ledc \<Rightarrow> esp_err \<times> ledc" where
  "ledc_set_fade_with_time mode ch target s =
    (if mode \<ge> 2 \<or> ch \<ge> 8 then (ESP_ERR_INVALID_ARG, s)
     else (ESP_OK, s\<lparr>leChannels := (leChannels s)((mode, ch) := (leChannels s (mode, ch))\<lparr>lcDuty := target\<rparr>)\<rparr>))"

definition ledc_fade_start :: "u32 \<Rightarrow> u32 \<Rightarrow> ledc \<Rightarrow> esp_err \<times> ledc" where
  "ledc_fade_start mode ch s = (if mode \<ge> 2 \<or> ch \<ge> 8 then (ESP_ERR_INVALID_ARG, s) else (ESP_OK, s))"

definition ledc_stop :: "u32 \<Rightarrow> u32 \<Rightarrow> u32 \<Rightarrow> ledc \<Rightarrow> esp_err \<times> ledc" where
  "ledc_stop mode ch idle s =
    (if mode \<ge> 2 \<or> ch \<ge> 8 then (ESP_ERR_INVALID_ARG, s)
     else (ESP_OK, s\<lparr>leChannels := (leChannels s)((mode, ch) := (leChannels s (mode, ch))\<lparr>lcDuty := idle\<rparr>)\<rparr>))"

text \<open>The duties are a store over modes and channels, the frequencies one over modes and timers.\<close>

interpretation duty: cell_store "\<lambda>_. True" "\<lambda>_ (m, c). m < 2 \<and> c < 8" "\<lambda>(m, c) d s. snd (ledc_set_duty m c d s)"
    "\<lambda>s (m, c). ledc_get_duty m c s" "\<lambda>d. d"
  by unfold_locales (auto simp: ledc_set_duty_def ledc_get_duty_def not_le split: if_splits)

interpretation freq: cell_store "\<lambda>_. True" "\<lambda>_ (m, t). m < 2 \<and> t < 4" "\<lambda>(m, t) f s. snd (ledc_set_freq m t f s)"
    "\<lambda>s (m, t). ledc_get_freq m t s" "\<lambda>f. f"
  by unfold_locales (auto simp: ledc_set_freq_def ledc_get_freq_def not_le split: if_splits)

section \<open>The remote control transceiver\<close>

text \<open>An item packs two durations of 15 bits with a level each, the first in the low half.\<close>

record rmt_item =
  rmDuration0 :: u16
  rmLevel0 :: bool
  rmDuration1 :: u16
  rmLevel1 :: bool

definition item_val :: "rmt_item \<Rightarrow> u32" where
  "item_val i =
    take_bit 15 (ucast (rmDuration0 i)) OR push_bit 15 (of_bool (rmLevel0 i)) OR
    push_bit 16 (take_bit 15 (ucast (rmDuration1 i))) OR push_bit 31 (of_bool (rmLevel1 i))"

definition val_item :: "u32 \<Rightarrow> rmt_item" where
  "val_item v =
    \<lparr>rmDuration0 = ucast (take_bit 15 v), rmLevel0 = bit v 15, rmDuration1 = ucast (take_bit 15 (drop_bit 16 v)),
     rmLevel1 = bit v 31\<rparr>"

text \<open>The channel's configuration is kept as a value of any type.\<close>

record 'c rmt_channel =
  rcConfigured :: bool
  rcInstalled :: bool
  rcConfig :: "'c option"
  rcTxLog :: "u32 list"
  rcRx :: "u32 list"
  rcTxCount :: int

type_synonym 'c rmt = "u32 \<Rightarrow> 'c rmt_channel"

definition rmt_channel_new :: "'c rmt_channel" where
  "rmt_channel_new = \<lparr>rcConfigured = False, rcInstalled = False, rcConfig = None, rcTxLog = [], rcRx = [], rcTxCount = 0\<rparr>"

definition rmt_config :: "(u32 \<times> 'c) option \<Rightarrow> 'c rmt \<Rightarrow> esp_err \<times> 'c rmt" where
  "rmt_config cfg s =
    (case cfg of
      None \<Rightarrow> (ESP_ERR_INVALID_ARG, s)
    | Some (ch, c) \<Rightarrow>
        if ch \<ge> 8 then (ESP_ERR_INVALID_ARG, s)
        else (ESP_OK, s(ch := (s ch)\<lparr>rcConfig := Some c, rcConfigured := True\<rparr>)))"

definition rmt_driver_install :: "u32 \<Rightarrow> 'c rmt \<Rightarrow> esp_err \<times> 'c rmt" where
  "rmt_driver_install ch s =
    (if ch \<ge> 8 then (ESP_ERR_INVALID_ARG, s)
     else if \<not> rcConfigured (s ch) then (ESP_ERR_INVALID_STATE, s)
     else if rcInstalled (s ch) then (ESP_ERR_INVALID_STATE, s)
     else (ESP_OK, s(ch := (s ch)\<lparr>rcInstalled := True\<rparr>)))"

definition rmt_driver_uninstall :: "u32 \<Rightarrow> 'c rmt \<Rightarrow> esp_err \<times> 'c rmt" where
  "rmt_driver_uninstall ch s =
    (if ch \<ge> 8 then (ESP_ERR_INVALID_ARG, s)
     else if \<not> rcInstalled (s ch) then (ESP_ERR_INVALID_STATE, s)
     else (ESP_OK, s(ch := (s ch)\<lparr>rcInstalled := False\<rparr>)))"

text \<open>The items are those in memory from their address on; reading more than there are is undefined, \<open>None\<close>.\<close>

definition rmt_write_items :: "u32 \<Rightarrow> u32 list option \<Rightarrow> int \<Rightarrow> 'c rmt \<Rightarrow> (esp_err \<times> 'c rmt) option" where
  "rmt_write_items ch items num s =
    (if ch \<ge> 8 \<or> items = None then Some (ESP_ERR_INVALID_ARG, s)
     else if \<not> rcInstalled (s ch) then Some (ESP_ERR_INVALID_STATE, s)
     else if nat num > length (the items) then None
     else Some (ESP_OK, s(ch := (s ch)\<lparr>rcTxLog := rcTxLog (s ch) @ take (nat num) (the items), rcTxCount := rcTxCount (s ch) + 1\<rparr>)))"

definition rmt_wait_tx_done :: "u32 \<Rightarrow> 'c rmt \<Rightarrow> esp_err" where
  "rmt_wait_tx_done ch s =
    (if ch \<ge> 8 then ESP_ERR_INVALID_ARG else if \<not> rcInstalled (s ch) then ESP_ERR_INVALID_STATE else ESP_OK)"

definition rmt_reset :: "'c rmt" where
  "rmt_reset = (\<lambda>_. rmt_channel_new)"

definition rmt_injectRxItems :: "u32 \<Rightarrow> u32 list \<Rightarrow> 'c rmt \<Rightarrow> 'c rmt" where
  "rmt_injectRxItems ch items s = s(ch := (s ch)\<lparr>rcRx := items\<rparr>)"

section \<open>The touch pads\<close>

text \<open>Pads are numbers of type \<open>int\<close>; the callback is a number with its argument.\<close>

record touch_cell =
  tpConfigured :: bool
  tpRaw :: u16
  tpThreshold :: u16
  tpIntr :: bool

record touch =
  tdInitialized :: bool
  tdFsmMode :: int
  tdAbove :: bool
  tdIsr :: "nat option"
  tdIsrArg :: nat
  tdPads :: "int \<Rightarrow> touch_cell"

definition touch_reset :: touch where
  "touch_reset =
    \<lparr>tdInitialized = False, tdFsmMode = 0, tdAbove = False, tdIsr = None, tdIsrArg = 0,
     tdPads = (\<lambda>_. \<lparr>tpConfigured = False, tpRaw = 1000, tpThreshold = 0, tpIntr = False\<rparr>)\<rparr>"

definition touch_pad_init :: "touch \<Rightarrow> esp_err \<times> touch" where
  "touch_pad_init s = (ESP_OK, touch_reset\<lparr>tdInitialized := True\<rparr>)"

definition touch_pad_deinit :: "touch \<Rightarrow> esp_err \<times> touch" where
  "touch_pad_deinit s = (ESP_OK, touch_reset)"

definition no_pad :: "int \<Rightarrow> bool" where
  "no_pad p \<longleftrightarrow> p < 0 \<or> p \<ge> 10"

definition touch_pad_config :: "int \<Rightarrow> touch \<Rightarrow> esp_err \<times> touch" where
  "touch_pad_config p s =
    (if no_pad p then (ESP_ERR_INVALID_ARG, s)
     else (ESP_OK, s\<lparr>tdPads := (tdPads s)(p := (tdPads s p)\<lparr>tpConfigured := True\<rparr>)\<rparr>))"

definition touch_pad_read :: "int \<Rightarrow> touch \<Rightarrow> esp_err \<times> u16 option" where
  "touch_pad_read p s = (if no_pad p then (ESP_ERR_INVALID_ARG, None) else (ESP_OK, Some (tpRaw (tdPads s p))))"

definition touch_pad_set_thresh :: "int \<Rightarrow> u16 \<Rightarrow> touch \<Rightarrow> esp_err \<times> touch" where
  "touch_pad_set_thresh p t s =
    (if no_pad p then (ESP_ERR_INVALID_ARG, s)
     else (ESP_OK, s\<lparr>tdPads := (tdPads s)(p := (tdPads s p)\<lparr>tpThreshold := t\<rparr>)\<rparr>))"

definition touch_pad_get_thresh :: "int \<Rightarrow> touch \<Rightarrow> esp_err \<times> u16 option" where
  "touch_pad_get_thresh p s = (if no_pad p then (ESP_ERR_INVALID_ARG, None) else (ESP_OK, Some (tpThreshold (tdPads s p))))"

definition touch_pad_set_trigger_mode :: "bool \<Rightarrow> touch \<Rightarrow> esp_err \<times> touch" where
  "touch_pad_set_trigger_mode over s = (ESP_OK, s\<lparr>tdAbove := over\<rparr>)"

definition touch_pad_set_fsm_mode :: "int \<Rightarrow> touch \<Rightarrow> esp_err \<times> touch" where
  "touch_pad_set_fsm_mode m s = (ESP_OK, s\<lparr>tdFsmMode := m\<rparr>)"

definition touch_pad_isr_register :: "nat option \<Rightarrow> nat \<Rightarrow> touch \<Rightarrow> esp_err \<times> touch" where
  "touch_pad_isr_register fn arg s = (ESP_OK, s\<lparr>tdIsr := fn, tdIsrArg := arg\<rparr>)"

definition touch_pad_isr_deregister :: "touch \<Rightarrow> esp_err \<times> touch" where
  "touch_pad_isr_deregister s = (ESP_OK, s\<lparr>tdIsr := None, tdIsrArg := 0\<rparr>)"

definition set_all_intr :: "bool \<Rightarrow> touch \<Rightarrow> touch" where
  "set_all_intr b s = s\<lparr>tdPads := fold (\<lambda>i f. f(i := (f i)\<lparr>tpIntr := b\<rparr>)) (map int [0..<10]) (tdPads s)\<rparr>"

definition touch_pad_intr_enable :: "touch \<Rightarrow> esp_err \<times> touch" where
  "touch_pad_intr_enable s = (ESP_OK, set_all_intr True s)"

definition touch_pad_intr_disable :: "touch \<Rightarrow> esp_err \<times> touch" where
  "touch_pad_intr_disable s = (ESP_OK, set_all_intr False s)"

text \<open>The state, and the callback that is called with its argument.\<close>

definition inject_value :: "int \<Rightarrow> u16 \<Rightarrow> touch \<Rightarrow> touch \<times> (nat \<times> nat) option" where
  "inject_value p v s =
    (if no_pad p then (s, None)
     else
       let c = tdPads s p; old = tpRaw c; c = c\<lparr>tpRaw := v\<rparr>; s = s\<lparr>tdPads := (tdPads s)(p := c)\<rparr>
       in case tdIsr s of
         Some fn \<Rightarrow>
           if tpIntr c \<and> tpThreshold c > 0 then
             (let fire = (if \<not> tdAbove s then old \<ge> tpThreshold c \<and> v < tpThreshold c
                          else old \<le> tpThreshold c \<and> v > tpThreshold c)
              in (s, if fire then Some (fn, tdIsrArg s) else None))
           else (s, None)
       | None \<Rightarrow> (s, None))"

section \<open>Properties\<close>

text \<open>
  The duties. After any sequence of settings a channel has the duty set to it last, at once and without
  \<open>ledc_update_duty\<close>; settings of modes or channels that do not exist change nothing.
\<close>

theorem ledc_duties:
  assumes "m < 2" "c < 8"
  shows "ledc_get_duty m c (fold (\<lambda>((m, c), d) s. snd (ledc_set_duty m c d s)) ws s) =
    (case map_of (rev ws) (m, c) of Some d \<Rightarrow> d | None \<Rightarrow> ledc_get_duty m c s)"
  using duty.writes_get [where s = s and kvs = ws and k' = "(m, c)"] assms by (simp split: option.splits)

theorem ledc_duties_witness:
  "ledc_get_duty 0 1 (fold (\<lambda>((m, c), d) s. snd (ledc_set_duty m c d s)) [((0, 1), 5), ((0, 2), 6), ((0, 1), 7)] ledc_reset) = 7"
  using ledc_duties [of 0 1 "[((0, 1), 5), ((0, 2), 6), ((0, 1), 7)]" ledc_reset] by simp

lemma item_val_bit:
  assumes "n < 32"
  shows "bit (item_val i) n \<longleftrightarrow>
    (if n < 15 then bit (rmDuration0 i) n else if n = 15 then rmLevel0 i
     else if n < 31 then bit (rmDuration1 i) (n - 16) else rmLevel1 i)"
  using assms unfolding item_val_def
  by (cases "n < 15"; cases "n = 15"; cases "n < 31") (auto simp: bit_simps)

lemma short_duration:
  fixes w :: u16
  assumes "w < 2 ^ 15"
  shows "take_bit 15 w = w"
proof -
  have "unat w < 2 ^ 15"
    using assms by (simp add: word_less_nat_alt)
  then have "unat (take_bit 15 w) = unat w"
    by (simp add: unsigned_take_bit_eq take_bit_nat_eq_self)
  then show ?thesis
    by (simp only: word_unat_eq_iff)
qed

text \<open>
  Items. Packing an item into 32 bits and unpacking gives it back when its durations fit into 15 bits, and
  every 32 bit value is the packing of the item it unpacks to.
\<close>

theorem rmt_item_roundtrip:
  "(rmDuration0 i < 2 ^ 15 \<and> rmDuration1 i < 2 ^ 15 \<longrightarrow> val_item (item_val i) = i) \<and> item_val (val_item v) = v"
proof (intro conjI impI)
  assume d: "rmDuration0 i < 2 ^ 15 \<and> rmDuration1 i < 2 ^ 15"
  have hi: "\<not> bit (w :: u16) n" if "w < 2 ^ 15" "15 \<le> n" for w n
    using short_duration [OF that(1)] that(2) by (metis bit_take_bit_iff not_le)
  have "ucast (take_bit 15 (item_val i)) = rmDuration0 i"
    by (rule bit_word_eqI) (use d hi [of "rmDuration0 i"] in \<open>auto simp: bit_simps item_val_bit not_less\<close>)
  moreover have "ucast (take_bit 15 (drop_bit 16 (item_val i))) = rmDuration1 i"
    by (rule bit_word_eqI) (use d hi [of "rmDuration1 i"] in \<open>auto simp: bit_simps item_val_bit not_less\<close>)
  ultimately show "val_item (item_val i) = i"
    by (simp add: val_item_def item_val_bit)
next
  show "item_val (val_item v) = v"
  proof (rule bit_word_eqI)
    fix n
    assume "n < LENGTH(32)"
    then have n: "n < 32"
      by simp
    consider "n < 15" | "n = 15" | "16 \<le> n \<and> n < 31" | "n = 31"
      using n by linarith
    then show "bit (item_val (val_item v)) n \<longleftrightarrow> bit v n"
      by cases (auto simp: item_val_bit val_item_def bit_simps)
  qed
qed

theorem rmt_item_roundtrip_witness:
  "val_item (item_val \<lparr>rmDuration0 = 9000, rmLevel0 = True, rmDuration1 = 4500, rmLevel1 = False\<rparr>) =
    \<lparr>rmDuration0 = 9000, rmLevel0 = True, rmDuration1 = 4500, rmLevel1 = False\<rparr>"
  using rmt_item_roundtrip [of "\<lparr>rmDuration0 = 9000, rmLevel0 = True, rmDuration1 = 4500, rmLevel1 = False\<rparr>" 0] by simp

definition rmt_send :: "u32 \<times> u32 list \<Rightarrow> 'c rmt \<Rightarrow> 'c rmt" where
  "rmt_send = (\<lambda>(ch, items) s.
    case rmt_write_items ch (Some items) (int (length items)) s of Some (_, t) \<Rightarrow> t | None \<Rightarrow> s)"

text \<open>
  The log of a channel. While the driver is not installed nothing is sent; while it is, each call appends its
  items whole and in order and counts one; the other channels, and what was sent before, stay.
\<close>

theorem rmt_log:
  assumes "ch < 8"
  shows "rcTxLog (fold rmt_send ws s ch) =
      rcTxLog (s ch) @ (if rcInstalled (s ch) then concat (map snd (filter (\<lambda>w. fst w = ch) ws)) else []) \<and>
    rcInstalled (fold rmt_send ws s ch) = rcInstalled (s ch)"
proof (induction ws arbitrary: s)
  case (Cons w ws)
  have "rcInstalled (rmt_send w s ch) = rcInstalled (s ch)"
    "rcTxLog (rmt_send w s ch) = rcTxLog (s ch) @ (if rcInstalled (s ch) \<and> fst w = ch then snd w else [])"
    using assms by (cases w; auto simp: rmt_send_def rmt_write_items_def split: if_splits)+
  then show ?case
    by (simp add: Cons.IH)
qed simp

theorem rmt_log_witness:
  "rcTxLog (fold rmt_send [(0, [5, 6]), (1, [7]), (0, [8])]
     (snd (rmt_driver_install 0 (snd (rmt_config (Some (0, ())) rmt_reset)))) 0) = [5, 6, 8]"
  using rmt_log [of 0 "[(0, [5, 6]), (1, [7]), (0, [8])]" "snd (rmt_driver_install 0 (snd (rmt_config (Some (0, ())) rmt_reset)))"]
  by (simp add: rmt_driver_install_def rmt_config_def rmt_reset_def rmt_channel_new_def)

datatype rmt_op = Config u32 | Install u32 | Uninstall u32 | Send u32 "u32 list"

definition rmt_step :: "rmt_op \<Rightarrow> unit rmt \<Rightarrow> unit rmt" where
  "rmt_step a s =
    (case a of
      Config ch \<Rightarrow> snd (rmt_config (Some (ch, ())) s)
    | Install ch \<Rightarrow> snd (rmt_driver_install ch s)
    | Uninstall ch \<Rightarrow> snd (rmt_driver_uninstall ch s)
    | Send ch items \<Rightarrow> rmt_send (ch, items) s)"

interpretation rmt_life: step_system "\<lambda>s. s = rmt_reset" "\<lambda>_. True" rmt_step "\<lambda>s. \<forall>ch. rcInstalled (s ch) \<longrightarrow> rcConfigured (s ch) \<and> ch < 8"
proof unfold_locales
  fix s :: "unit rmt" and a
  assume inv: "\<forall>ch. rcInstalled (s ch) \<longrightarrow> rcConfigured (s ch) \<and> ch < 8"
  show "\<forall>ch. rcInstalled (rmt_step a s ch) \<longrightarrow> rcConfigured (rmt_step a s ch) \<and> ch < 8"
    using inv by (cases a) (auto simp: rmt_step_def rmt_config_def rmt_driver_install_def rmt_driver_uninstall_def
        rmt_send_def rmt_write_items_def not_le split: if_splits)
qed (simp add: rmt_reset_def rmt_channel_new_def)

text \<open>
  Installing. Along any calls a driver is installed only on a configured channel, so installing fails before
  the configuration and a second time, and uninstalling fails unless it was installed.
\<close>

theorem rmt_installed_configured:
  assumes "s = fold rmt_step ops rmt_reset" "rcInstalled (s ch)"
  shows "ch < 8 \<and> rcConfigured (s ch) \<and> fst (rmt_driver_install ch s) = ESP_ERR_INVALID_STATE \<and> fst (rmt_driver_uninstall ch s) = ESP_OK"
proof -
  have "ch < 8 \<and> rcConfigured (s ch)"
    using rmt_life.inv_run [of rmt_reset ops] assms by (simp add: list_all_iff)
  then show ?thesis
    using assms(2) by (simp add: rmt_driver_install_def rmt_driver_uninstall_def not_le)
qed

theorem rmt_installed_configured_witness:
  "fst (rmt_driver_install 2 (fold rmt_step [Config 2, Install 2] rmt_reset)) = ESP_ERR_INVALID_STATE"
  using rmt_installed_configured [of "fold rmt_step [Config 2, Install 2] rmt_reset" "[Config 2, Install 2]" 2]
  by (simp add: rmt_step_def rmt_config_def rmt_driver_install_def rmt_reset_def rmt_channel_new_def)

fun crossings :: "bool \<Rightarrow> u16 \<Rightarrow> u16 \<Rightarrow> u16 list \<Rightarrow> nat" where
  "crossings over t old [] = 0"
| "crossings over t old (v # vs) =
    (if (if over then old \<le> t \<and> v > t else old \<ge> t \<and> v < t) then 1 else 0) + crossings over t v vs"

fun inject_all :: "int \<Rightarrow> u16 list \<Rightarrow> touch \<Rightarrow> touch \<times> (nat \<times> nat) list" where
  "inject_all p [] s = (s, [])"
| "inject_all p (v # vs) s =
    (let (s, c) = inject_value p v s; (s, cs) = inject_all p vs s in (s, (case c of Some x \<Rightarrow> [x] | None \<Rightarrow> []) @ cs))"

text \<open>
  Touches. With the interrupt enabled and a threshold set, the callback is called once for each time the value
  crosses the threshold in the chosen direction, and not for values that stay on one side.
\<close>

theorem touch_isr_per_crossing:
  assumes "\<not> no_pad p" "tdIsr s = Some fn" "tpIntr (tdPads s p)" "tpThreshold (tdPads s p) = t" "0 < t"
  shows "snd (inject_all p vs s) = replicate (crossings (tdAbove s) t (tpRaw (tdPads s p)) vs) (fn, tdIsrArg s)"
  using assms(2-4)
proof (induction vs arbitrary: s)
  case (Cons v vs)
  obtain s' c where i: "inject_value p v s = (s', c)"
    by fastforce
  have s': "tdIsr s' = Some fn" "tpIntr (tdPads s' p)" "tpThreshold (tdPads s' p) = t" "tpRaw (tdPads s' p) = v"
    "tdAbove s' = tdAbove s" "tdIsrArg s' = tdIsrArg s"
    "c = (if (if tdAbove s then tpRaw (tdPads s p) \<le> t \<and> v > t else tpRaw (tdPads s p) \<ge> t \<and> v < t)
       then Some (fn, tdIsrArg s) else None)"
    using i assms(1,5) Cons.prems by (auto simp: inject_value_def Let_def)
  show ?case
    using Cons.IH [OF s'(1-3)] s' by (simp add: i case_prod_unfold)
qed simp

lemma replicate_two_calls: "replicate 2 x = [x, x]"
  by (simp add: numeral_2_eq_2)

theorem touch_isr_per_crossing_witness:
  "snd (inject_all 3 [400, 300, 900, 200]
     (snd (touch_pad_isr_register (Some 7) 9 (snd (touch_pad_intr_enable (snd (touch_pad_set_thresh 3 500 touch_reset))))))) = [(7, 9), (7, 9)]"
proof -
  have "map int [0..<10] = [0, 1, 2, 3, 4, 5, 6, 7, 8, 9]"
    by code_simp
  then show ?thesis
    using touch_isr_per_crossing [of 3 "snd (touch_pad_isr_register (Some 7) 9 (snd (touch_pad_intr_enable (snd (touch_pad_set_thresh 3 500 touch_reset)))))"
        7 500 "[400, 300, 900, 200]"]
    by (simp add: touch_pad_isr_register_def touch_pad_intr_enable_def set_all_intr_def touch_pad_set_thresh_def touch_reset_def no_pad_def replicate_two_calls)
qed

end
