(* ===== verification/Idf_Wifi.thy ===== *)
theory Idf_Wifi
  imports Interfaces Http_Text
begin

text \<open>
  The Wi-Fi interface of ESP-IDF, \<open>src/include/esp_wifi.h\<close>: its flags, the two configurations and the
  results of a scan. The lemmas give the order in which the calls are accepted, what keeps the flags
  consistent and what does not, and what a scan returns.
\<close>

section \<open>State\<close>

text \<open>A configuration is a value of any type \<open>'c\<close>; the address of the station is a constant that nothing reads.\<close>

record ap_record =
  apSsid :: "char list"
  apPrimary :: byte
  apRssi :: "8 word"
  apAuth :: int

record 'c wifi =
  wfInitialized :: bool
  wfStarted :: bool
  wfConnected :: bool
  wfMode :: int
  wfSta :: 'c
  wfAp :: 'c
  wfScan :: "ap_record list"

definition wifi_state_reset :: "'c \<Rightarrow> 'c wifi" where
  "wifi_state_reset zero =
    \<lparr>wfInitialized = False, wfStarted = False, wfConnected = False, wfMode = 0, wfSta = zero, wfAp = zero, wfScan = []\<rparr>"

text \<open>\<open>strncpy\<close> of at most \<open>n\<close> characters over a field: the text to its first zero, filled up with zeros.\<close>

definition strncpy :: "char list \<Rightarrow> char list \<Rightarrow> nat \<Rightarrow> char list" where
  "strncpy dst src n =
    (let s = take n (c_str src) in s @ replicate (n - length s) (CHR 0x00) @ drop n dst)"

definition addScanResult :: "char list \<Rightarrow> 8 word \<Rightarrow> int \<Rightarrow> 'c wifi \<Rightarrow> 'c wifi" where
  "addScanResult ssid rssi auth s =
    s\<lparr>wfScan := wfScan s @ [\<lparr>apSsid = strncpy (replicate 33 (CHR 0x00)) ssid 32, apPrimary = 6, apRssi = rssi, apAuth = auth\<rparr>]\<rparr>"

section \<open>The calls\<close>

abbreviation (input) "ESP_ERR_WIFI_NOT_INIT \<equiv> (0x3001 :: esp_err)"
abbreviation (input) "ESP_ERR_WIFI_NOT_STARTED \<equiv> (0x3002 :: esp_err)"

definition esp_wifi_init :: "'c wifi \<Rightarrow> esp_err \<times> 'c wifi" where
  "esp_wifi_init s = (if wfInitialized s then (ESP_OK, s) else (ESP_OK, s\<lparr>wfInitialized := True\<rparr>))"

definition esp_wifi_deinit :: "'c wifi \<Rightarrow> esp_err \<times> 'c wifi" where
  "esp_wifi_deinit s = (ESP_OK, s\<lparr>wfInitialized := False, wfStarted := False\<rparr>)"

definition esp_wifi_set_mode :: "int \<Rightarrow> 'c wifi \<Rightarrow> esp_err \<times> 'c wifi" where
  "esp_wifi_set_mode m s = (if \<not> wfInitialized s then (ESP_ERR_WIFI_NOT_INIT, s) else (ESP_OK, s\<lparr>wfMode := m\<rparr>))"

definition esp_wifi_get_mode :: "'c wifi \<Rightarrow> esp_err \<times> int" where
  "esp_wifi_get_mode s = (ESP_OK, wfMode s)"

definition esp_wifi_set_config :: "int \<Rightarrow> 'c \<Rightarrow> 'c wifi \<Rightarrow> esp_err \<times> 'c wifi" where
  "esp_wifi_set_config iface conf s = (ESP_OK, if iface = 0 then s\<lparr>wfSta := conf\<rparr> else s\<lparr>wfAp := conf\<rparr>)"

definition esp_wifi_get_config :: "int \<Rightarrow> 'c wifi \<Rightarrow> esp_err \<times> 'c" where
  "esp_wifi_get_config iface s = (ESP_OK, if iface = 0 then wfSta s else wfAp s)"

definition esp_wifi_start :: "'c wifi \<Rightarrow> esp_err \<times> 'c wifi" where
  "esp_wifi_start s = (if \<not> wfInitialized s then (ESP_ERR_WIFI_NOT_INIT, s) else (ESP_OK, s\<lparr>wfStarted := True\<rparr>))"

definition esp_wifi_stop :: "'c wifi \<Rightarrow> esp_err \<times> 'c wifi" where
  "esp_wifi_stop s = (ESP_OK, s\<lparr>wfStarted := False, wfConnected := False\<rparr>)"

definition esp_wifi_connect :: "'c wifi \<Rightarrow> esp_err \<times> 'c wifi" where
  "esp_wifi_connect s = (if \<not> wfStarted s then (ESP_ERR_WIFI_NOT_STARTED, s) else (ESP_OK, s\<lparr>wfConnected := True\<rparr>))"

definition esp_wifi_disconnect :: "'c wifi \<Rightarrow> esp_err \<times> 'c wifi" where
  "esp_wifi_disconnect s = (ESP_OK, s\<lparr>wfConnected := False\<rparr>)"

definition esp_wifi_scan_start :: "'c wifi \<Rightarrow> esp_err" where
  "esp_wifi_scan_start s = ESP_OK"

definition esp_wifi_scan_get_ap_num :: "'c wifi \<Rightarrow> esp_err \<times> u16" where
  "esp_wifi_scan_get_ap_num s = (ESP_OK, word_of_nat (length (wfScan s)))"

text \<open>The loop counts in 16 bits up to a number of 16 bits, so it ends; the records fill the caller's array.\<close>

definition esp_wifi_scan_get_ap_records :: "u16 \<Rightarrow> 'c wifi \<Rightarrow> esp_err \<times> u16 \<times> ap_record list" where
  "esp_wifi_scan_get_ap_records number s =
    (let n = word_of_nat (length (wfScan s)); count = (if number < n then number else n)
     in (ESP_OK, count, map (\<lambda>i. wfScan s ! i) [0..<unat count]))"

section \<open>Properties\<close>

datatype wifi_op = Init | Deinit | Set_Mode int | Start | Stop | Connect | Disconnect

definition wifi_step :: "wifi_op \<Rightarrow> 'c wifi \<Rightarrow> 'c wifi" where
  "wifi_step a s =
    (case a of
      Init \<Rightarrow> snd (esp_wifi_init s)
    | Deinit \<Rightarrow> snd (esp_wifi_deinit s)
    | Set_Mode m \<Rightarrow> snd (esp_wifi_set_mode m s)
    | Start \<Rightarrow> snd (esp_wifi_start s)
    | Stop \<Rightarrow> snd (esp_wifi_stop s)
    | Connect \<Rightarrow> snd (esp_wifi_connect s)
    | Disconnect \<Rightarrow> snd (esp_wifi_disconnect s))"

lemmas wifi_defs =
  esp_wifi_init_def esp_wifi_deinit_def esp_wifi_set_mode_def esp_wifi_start_def esp_wifi_stop_def
  esp_wifi_connect_def esp_wifi_disconnect_def

interpretation wifi_flags: step_system "\<lambda>s. \<exists>z. s = wifi_state_reset z" "\<lambda>_. True" wifi_step "\<lambda>s. wfStarted s \<longrightarrow> wfInitialized s"
  by unfold_locales (auto simp: wifi_state_reset_def wifi_step_def wifi_defs split: wifi_op.splits if_splits)

interpretation wifi_conn: step_system "\<lambda>s. \<exists>z. s = wifi_state_reset z" "\<lambda>a. a \<noteq> Deinit" wifi_step
    "\<lambda>s. (wfStarted s \<longrightarrow> wfInitialized s) \<and> (wfConnected s \<longrightarrow> wfStarted s)"
  by unfold_locales (auto simp: wifi_state_reset_def wifi_step_def wifi_defs split: wifi_op.splits if_splits)

text \<open>
  The flags. Along any calls a started interface is initialized, and as long as it is never deinitialized a
  connected one is started; so connecting before the start, and starting before the initialization, fail.
\<close>

theorem wifi_order:
  assumes "s = fold wifi_step ops (wifi_state_reset z)"
  shows "(wfStarted s \<longrightarrow> wfInitialized s) \<and> (Deinit \<notin> set ops \<longrightarrow> wfConnected s \<longrightarrow> wfStarted s) \<and>
    (\<not> wfInitialized s \<longrightarrow> fst (esp_wifi_start s) = ESP_ERR_WIFI_NOT_INIT \<and> fst (esp_wifi_connect s) = ESP_ERR_WIFI_NOT_STARTED)"
proof -
  have "wfStarted s \<longrightarrow> wfInitialized s"
    using wifi_flags.inv_run [of "wifi_state_reset z" ops] assms by (auto simp: list_all_iff)
  moreover have "wfConnected s \<longrightarrow> wfStarted s" if "Deinit \<notin> set ops"
    using wifi_conn.inv_run [of "wifi_state_reset z" ops] assms that by (auto simp: list_all_iff)
  ultimately show ?thesis
    by (auto simp: esp_wifi_start_def esp_wifi_connect_def)
qed

theorem wifi_order_witness:
  "wfStarted (fold wifi_step [Init, Start, Connect] (wifi_state_reset ())) \<and>
   wfInitialized (fold wifi_step [Init, Start, Connect] (wifi_state_reset ()))"
proof -
  have "wfStarted (fold wifi_step [Init, Start, Connect] (wifi_state_reset ()))"
    by (simp add: wifi_step_def wifi_defs wifi_state_reset_def)
  then show ?thesis
    using wifi_order [of "fold wifi_step [Init, Start, Connect] (wifi_state_reset ())" "[Init, Start, Connect]" "()"] by blast
qed

text \<open>
  Deinitializing a connected interface. It stays connected although it is neither initialized nor started,
  and only \<open>stop\<close> or \<open>disconnect\<close> change that.
\<close>

theorem wifi_deinit_stays_connected:
  assumes "wfConnected s" "list_all (\<lambda>a. a \<notin> {Stop, Disconnect}) ops"
  shows "wfConnected (fold wifi_step ops (snd (esp_wifi_deinit s))) \<and>
    \<not> wfStarted (snd (esp_wifi_deinit s)) \<and> \<not> wfInitialized (snd (esp_wifi_deinit s))"
proof -
  have "wfConnected t \<Longrightarrow> wfConnected (fold wifi_step ops t)" for t :: "'a wifi"
    using assms(2)
    by (induction ops arbitrary: t) (auto simp: wifi_step_def wifi_defs split: wifi_op.splits if_splits)
  then show ?thesis
    using assms(1) by (simp add: esp_wifi_deinit_def)
qed

theorem wifi_deinit_stays_connected_witness:
  "wfConnected (fold wifi_step [Init] (snd (esp_wifi_deinit (fold wifi_step [Init, Start, Connect] (wifi_state_reset ())))))"
  using wifi_deinit_stays_connected [of "fold wifi_step [Init, Start, Connect] (wifi_state_reset ())" "[Init]"]
  by (simp add: wifi_step_def wifi_defs wifi_state_reset_def)

text \<open>
  A scan. With fewer than 65536 results the number of them is right, and a caller with room for some gets
  that many of the first ones in their order, or all of them.
\<close>

theorem wifi_scan_records:
  assumes "length (wfScan s) < 2 ^ 16"
  shows "esp_wifi_scan_get_ap_num s = (ESP_OK, word_of_nat (length (wfScan s))) \<and>
    unat (snd (esp_wifi_scan_get_ap_num s)) = length (wfScan s) \<and>
    snd (snd (esp_wifi_scan_get_ap_records k s)) = take (unat k) (wfScan s) \<and>
    unat (fst (snd (esp_wifi_scan_get_ap_records k s))) = min (unat k) (length (wfScan s))"
proof -
  have n: "unat (word_of_nat (length (wfScan s)) :: u16) = length (wfScan s)"
    using assms by (simp add: unat_of_nat take_bit_nat_eq_self)
  let ?c = "if k < word_of_nat (length (wfScan s)) then k else word_of_nat (length (wfScan s))"
  have c: "unat ?c = min (unat k) (length (wfScan s))"
    using n by (simp add: word_less_nat_alt)
  have "map (\<lambda>i. wfScan s ! i) [0..<unat ?c] = take (unat k) (wfScan s)"
    unfolding c by (rule nth_equalityI) simp_all
  then show ?thesis
    using n c by (simp add: esp_wifi_scan_get_ap_num_def esp_wifi_scan_get_ap_records_def Let_def)
qed

theorem wifi_scan_records_witness:
  "map apRssi (snd (snd (esp_wifi_scan_get_ap_records 1 (addScanResult ''b'' 5 3 (addScanResult ''a'' 7 3 (wifi_state_reset ())))))) = [7]"
  using wifi_scan_records [of "addScanResult ''b'' 5 3 (addScanResult ''a'' 7 3 (wifi_state_reset ()))" 1]
  by (simp add: addScanResult_def wifi_state_reset_def)

text \<open>A network's name is read back from its record, cut to 32 characters, and is always terminated.\<close>

theorem wifi_ssid_roundtrip:
  "let r = last (wfScan (addScanResult ssid rssi auth s))
   in c_str (apSsid r) = take 32 (c_str ssid) \<and> length (apSsid r) = 33 \<and> last (apSsid r) = CHR 0x00"
proof -
  have nul: "CHR 0x00 \<notin> set (take 32 (c_str ssid))"
    by (auto simp: c_str_def dest!: in_set_takeD set_takeWhileD)
  let ?t = "take 32 (c_str ssid)"
  have l: "length ?t \<le> 32"
    by simp
  have f: "strncpy (replicate 33 (CHR 0x00)) ssid 32 = ?t @ replicate (Suc (32 - length ?t)) (CHR 0x00)"
    by (simp add: strncpy_def Let_def drop_replicate replicate_append_same)
  have c: "c_str (?t @ replicate (Suc k) (CHR 0x00)) = ?t" for k
    by (subst c_str_def, subst takeWhile_append2) (use nul in auto)
  have "length (?t @ replicate (Suc (32 - length ?t)) (CHR 0x00)) = 33"
    using l by simp
  then show ?thesis
    unfolding Let_def addScanResult_def using f c [of "32 - length ?t"] by simp
qed

end
