(* ===== verification/Json_Text.thy ===== *)
theory Json_Text
  imports CJson Http_Text "HOL-Library.Char_ord" "HOL-Library.List_Lexorder"
begin

text \<open>
  The JSON documents of \<open>src/include/ArduinoJson.h\<close>: values, the serializer and the parser with its
  limit on the depth. A text is a list of characters, its end the terminating zero. Floating-point
  numbers are of any type \<open>'f\<close>: how \<open>operator<<\<close> prints and \<open>std::stod\<close> reads them are arguments.
  The lemmas give the round trip, the invariant of every document that is read, the end of the
  parser on every text and its three abnormal outcomes.
\<close>

section \<open>Values\<close>

text \<open>
  A node by its type; the members of an object are the entries of a \<open>std::map\<close> in the order of
  iteration, which is that of the keys.
\<close>

datatype 'f jdoc =
    JNull
  | JBool bool
  | JInt int
  | JFloat 'f
  | JString string
  | JArray "'f jdoc list"
  | JObject "(string \<times> 'f jdoc) list"

datatype deserialization_error = DeOk | EmptyInput | InvalidInput | NoMemory | TooDeep

text \<open>\<open>obj[key] = val\<close> on a map.\<close>

fun map_put :: "string \<Rightarrow> 'v \<Rightarrow> (string \<times> 'v) list \<Rightarrow> (string \<times> 'v) list" where
  "map_put k v [] = [(k, v)]"
| "map_put k v ((k', v') # ms) =
    (if k = k' then (k, v) # ms
     else if k < k' then (k, v) # (k', v') # ms
     else (k', v') # map_put k v ms)"

section \<open>The serializer\<close>

fun escaped :: "char \<Rightarrow> string" where
  "escaped c =
    (if c = CHR 0x22 then [CHR 0x5C, CHR 0x22]
     else if c = CHR 0x5C then [CHR 0x5C, CHR 0x5C]
     else if c = CHR 0x0A then [CHR 0x5C, CHR ''n'']
     else [c])"

fun serializeNode :: "('f \<Rightarrow> string) \<Rightarrow> 'f jdoc \<Rightarrow> string"
  and serialize_elems :: "('f \<Rightarrow> string) \<Rightarrow> bool \<Rightarrow> 'f jdoc list \<Rightarrow> string"
  and serialize_members :: "('f \<Rightarrow> string) \<Rightarrow> bool \<Rightarrow> (string \<times> 'f jdoc) list \<Rightarrow> string" where
  "serializeNode ff JNull = ''null''"
| "serializeNode ff (JBool b) = (if b then ''true'' else ''false'')"
| "serializeNode ff (JInt i) = to_string i"
| "serializeNode ff (JFloat x) = ff x"
| "serializeNode ff (JString s) = CHR 0x22 # concat (map escaped s) @ [CHR 0x22]"
| "serializeNode ff (JArray vs) = CHR ''['' # serialize_elems ff True vs @ '']''"
| "serializeNode ff (JObject ms) = CHR ''{'' # serialize_members ff True ms @ ''}''"
| "serialize_elems ff first [] = ''''"
| "serialize_elems ff first (v # vs) =
    (if first then '''' else '','') @ serializeNode ff v @ serialize_elems ff False vs"
| "serialize_members ff first [] = ''''"
| "serialize_members ff first ((k, v) # ms) =
    (if first then '''' else '','') @ CHR 0x22 # k @ CHR 0x22 # CHR '':'' # serializeNode ff v @
    serialize_members ff False ms"

text \<open>
  The two forms of \<open>serializeJson\<close>: into a string, and into a buffer of \<open>len\<close> bytes, whose length
  must not be 0 (\<open>len - 1\<close> wraps and nothing bounds the copy then).
\<close>

definition serializeJson :: "('f \<Rightarrow> string) \<Rightarrow> 'f jdoc \<Rightarrow> nat \<times> string" where
  "serializeJson ff doc = (let s = serializeNode ff doc in (length s, s))"

definition serializeJson_buf :: "('f \<Rightarrow> string) \<Rightarrow> 'f jdoc \<Rightarrow> string \<Rightarrow> (nat \<times> string) option" where
  "serializeJson_buf ff doc buf =
    (let s = snd (serializeJson ff doc);
         n = (if buf = [] then length s else min (length s) (length buf - 1))
     in if n + 1 > length buf then None
        else Some (n, blit buf 0 (take n s @ [CHR 0x00])))"

section \<open>The parser\<close>

text \<open>
  What a parsing function does: return a value, return the null pointer, throw (the conversions of
  the standard library do), step past the terminating zero of the text, or, in the bounded
  recursion of the model, run out of fuel.
\<close>

datatype 'a jresult = Parsed 'a | Null | Threw | Past | Starved

fun jbind :: "'a jresult \<Rightarrow> ('a \<Rightarrow> 'b jresult) \<Rightarrow> 'b jresult" where
  "jbind (Parsed x) f = f x"
| "jbind Null f = Null"
| "jbind Threw f = Threw"
| "jbind Past f = Past"
| "jbind Starved f = Starved"

definition skipWs :: "string \<Rightarrow> string" where
  "skipWs p = skip_ws p"

definition jescape :: "char \<Rightarrow> char" where
  "jescape c = (if c = CHR ''n'' then CHR 0x0A else if c = CHR ''t'' then CHR 0x09 else c)"

fun string_chars :: "string \<Rightarrow> string \<Rightarrow> (string \<times> string) jresult" where
  "string_chars s [] = Parsed (s, [])"
| "string_chars s (c # p) =
    (if c = CHR 0x22 then Parsed (s, p)
     else if c = CHR 0x5C then
       (case p of [] \<Rightarrow> Past | e # p' \<Rightarrow> string_chars (s @ [jescape e]) p')
     else string_chars (s @ [c]) p)"

definition parseString :: "string \<Rightarrow> (string \<times> string) jresult" where
  "parseString p =
    (case next_is (CHR 0x22) p of None \<Rightarrow> Null | Some q \<Rightarrow> string_chars [] q)"

text \<open>
  \<open>std::stol\<close> on a text made of an optional minus and digits: \<open>None\<close> when it throws, because there
  are no digits or the number is not a \<open>long\<close> of 64 bits.
\<close>

definition stol :: "string \<Rightarrow> int option" where
  "stol s =
    (let (neg, ds) = (case next_is (CHR ''-'') s of Some q \<Rightarrow> (True, q) | None \<Rightarrow> (False, s));
         v = (if neg then - digits_value 10 ds else digits_value 10 ds)
     in if ds = [] \<or> v < - (2 ^ 63) \<or> 2 ^ 63 \<le> v then None else Some v)"

text \<open>\<open>eat cs p\<close>: the text after an optional character of \<open>cs\<close>.\<close>

definition eat :: "string \<Rightarrow> string \<Rightarrow> string" where
  "eat cs p = (case p of [] \<Rightarrow> [] | c # q \<Rightarrow> if c \<in> set cs then q else p)"

text \<open>The scan of a number: whether it has a fraction or an exponent, and what follows it.\<close>

definition after_point :: "string \<Rightarrow> bool \<times> string" where
  "after_point p =
    (case next_is (CHR ''.'') p of Some q \<Rightarrow> (True, dropWhile is_digit q) | None \<Rightarrow> (False, p))"

definition after_exponent :: "string \<Rightarrow> bool \<times> string" where
  "after_exponent p =
    (if eat ''eE'' p = p then (False, p) else (True, dropWhile is_digit (eat ''+-'' (eat ''eE'' p))))"

definition number_end :: "string \<Rightarrow> bool \<times> string" where
  "number_end p =
    (let (dot, p3) = after_point (dropWhile is_digit (eat ''-'' p)); (ex, p4) = after_exponent p3
     in (dot \<or> ex, p4))"

definition parseNumber :: "(string \<Rightarrow> 'f option) \<Rightarrow> string \<Rightarrow> ('f jdoc \<times> string) jresult" where
  "parseNumber stod p =
    (let (isFloat, q) = number_end p; num = take (length p - length q) p
     in if isFloat
        then (case stod num of None \<Rightarrow> Threw | Some x \<Rightarrow> Parsed (JFloat x, q))
        else (case stol num of None \<Rightarrow> Threw | Some i \<Rightarrow> Parsed (JInt i, q)))"

function (sequential) parseValue :: "(string \<Rightarrow> 'f option) \<Rightarrow> nat \<Rightarrow> nat \<Rightarrow> string \<Rightarrow> ('f jdoc \<times> string) jresult"
  and parseElems ::
    "(string \<Rightarrow> 'f option) \<Rightarrow> nat \<Rightarrow> nat \<Rightarrow> 'f jdoc list \<Rightarrow> string \<Rightarrow> ('f jdoc \<times> string) jresult"
  and parseMembers ::
    "(string \<Rightarrow> 'f option) \<Rightarrow> nat \<Rightarrow> nat \<Rightarrow> (string \<times> 'f jdoc) list \<Rightarrow> string \<Rightarrow> ('f jdoc \<times> string) jresult" where
  "parseValue stod 0 depth p = Starved"
| "parseValue stod (Suc f) depth p =
    (if depth > 32 then Null
     else case skipWs p of
       [] \<Rightarrow> Null
     | c # cs \<Rightarrow>
         if c = CHR 0x22 then jbind (parseString (c # cs)) (\<lambda>(s, q). Parsed (JString s, q))
         else if c = CHR ''{'' then
           (case next_is (CHR ''}'') (skipWs cs) of
              Some q \<Rightarrow> Parsed (JObject [], q)
            | None \<Rightarrow> parseMembers stod f depth [] (skipWs cs))
         else if c = CHR ''['' then
           (case next_is (CHR '']'') (skipWs cs) of
              Some q \<Rightarrow> Parsed (JArray [], q)
            | None \<Rightarrow> parseElems stod f depth [] (skipWs cs))
         else if take 4 (c # cs) = ''true'' then Parsed (JBool True, drop 4 (c # cs))
         else if take 5 (c # cs) = ''false'' then Parsed (JBool False, drop 5 (c # cs))
         else if take 4 (c # cs) = ''null'' then Parsed (JNull, drop 4 (c # cs))
         else if c = CHR ''-'' \<or> is_digit c then parseNumber stod (c # cs)
         else Null)"
| "parseElems stod 0 depth arr p = Starved"
| "parseElems stod (Suc f) depth arr p =
    jbind (parseValue stod f (depth + 1) p) (\<lambda>(v, p1).
      case next_is (CHR '','') (skipWs p1) of
        Some p2 \<Rightarrow> parseElems stod f depth (arr @ [v]) p2
      | None \<Rightarrow>
          (case next_is (CHR '']'') (skipWs p1) of
             Some p2 \<Rightarrow> Parsed (JArray (arr @ [v]), p2)
           | None \<Rightarrow> Null))"
| "parseMembers stod 0 depth ob p = Starved"
| "parseMembers stod (Suc f) depth ob p =
    jbind (parseString (skipWs p)) (\<lambda>(key, p1).
      case next_is (CHR '':'') (skipWs p1) of
        None \<Rightarrow> Null
      | Some p2 \<Rightarrow>
          jbind (parseValue stod f (depth + 1) p2) (\<lambda>(v, p3).
            case next_is (CHR '','') (skipWs p3) of
              Some p4 \<Rightarrow> parseMembers stod f depth (map_put key v ob) p4
            | None \<Rightarrow>
                (case next_is (CHR ''}'') (skipWs p3) of
                   Some p4 \<Rightarrow> Parsed (JObject (map_put key v ob), p4)
                 | None \<Rightarrow> Null)))"
  by pat_completeness auto
termination
  by (relation "measure (case_sum (\<lambda>x. fst (snd x)) (case_sum (\<lambda>x. fst (snd x)) (\<lambda>x. fst (snd x))))") auto

declare parseValue.simps [simp del] parseElems.simps [simp del] parseMembers.simps [simp del]

text \<open>The fuel that is always enough: every nested value starts at least one character further on.\<close>

definition parse_doc :: "(string \<Rightarrow> 'f option) \<Rightarrow> string \<Rightarrow> ('f jdoc \<times> string) jresult" where
  "parse_doc stod p = parseValue stod (2 * length p + 1) 0 p"

text \<open>\<open>Parsed (e, doc')\<close>: the call returns the code \<open>e\<close> and leaves the document \<open>doc'\<close>.\<close>

definition deserializeJson ::
  "(string \<Rightarrow> 'f option) \<Rightarrow> 'f jdoc \<Rightarrow> string option \<Rightarrow> (deserialization_error \<times> 'f jdoc) jresult" where
  "deserializeJson stod doc json =
    (case json of
       None \<Rightarrow> Parsed (EmptyInput, doc)
     | Some p \<Rightarrow>
         if p = [] then Parsed (EmptyInput, doc)
         else (case parse_doc stod p of
                 Parsed (v, _) \<Rightarrow> Parsed (DeOk, v)
               | Null \<Rightarrow> Parsed (InvalidInput, doc)
               | Threw \<Rightarrow> Threw
               | Past \<Rightarrow> Past
               | Starved \<Rightarrow> Starved))"

definition deserializeJson_string ::
  "(string \<Rightarrow> 'f option) \<Rightarrow> 'f jdoc \<Rightarrow> string \<Rightarrow> (deserialization_error \<times> 'f jdoc) jresult" where
  "deserializeJson_string stod doc s = deserializeJson stod doc (Some (c_str s))"

section \<open>The parser ends\<close>

declare skipWs_def [simp]

lemma parseValue_at:
  "depth > 32 \<Longrightarrow> parseValue stod (Suc f) depth p = Null"
  "skipWs p = [] \<Longrightarrow> parseValue stod (Suc f) depth p = Null"
  "depth \<le> 32 \<Longrightarrow> skipWs p = CHR 0x22 # cs \<Longrightarrow> parseValue stod (Suc f) depth p =
     jbind (string_chars [] cs) (\<lambda>(s, q). Parsed (JString s, q))"
  "depth \<le> 32 \<Longrightarrow> skipWs p = CHR ''{'' # cs \<Longrightarrow> parseValue stod (Suc f) depth p =
     (case next_is (CHR ''}'') (skipWs cs) of
        Some q \<Rightarrow> Parsed (JObject [], q)
      | None \<Rightarrow> parseMembers stod f depth [] (skipWs cs))"
  "depth \<le> 32 \<Longrightarrow> skipWs p = CHR ''['' # cs \<Longrightarrow> parseValue stod (Suc f) depth p =
     (case next_is (CHR '']'') (skipWs cs) of
        Some q \<Rightarrow> Parsed (JArray [], q)
      | None \<Rightarrow> parseElems stod f depth [] (skipWs cs))"
  by (simp_all add: parseValue.simps parseString_def next_is_def)

text \<open>What stands elsewhere than in a string, object or array.\<close>

definition parse_word :: "(string \<Rightarrow> 'f option) \<Rightarrow> string \<Rightarrow> ('f jdoc \<times> string) jresult" where
  "parse_word stod p =
    (if take 4 p = ''true'' then Parsed (JBool True, drop 4 p)
     else if take 5 p = ''false'' then Parsed (JBool False, drop 5 p)
     else if take 4 p = ''null'' then Parsed (JNull, drop 4 p)
     else if hd p = CHR ''-'' \<or> is_digit (hd p) then parseNumber stod p
     else Null)"

lemma parseValue_word:
  "depth \<le> 32 \<Longrightarrow> skipWs p = c # cs \<Longrightarrow> c \<noteq> CHR 0x22 \<Longrightarrow> c \<noteq> CHR ''{'' \<Longrightarrow> c \<noteq> CHR ''['' \<Longrightarrow>
   parseValue stod (Suc f) depth p = parse_word stod (c # cs)"
  unfolding parse_word_def by (simp only: parseValue.simps) simp

lemma jbind_mono:
  "jbind r f \<noteq> Starved \<Longrightarrow> (r \<noteq> Starved \<Longrightarrow> r' = r) \<Longrightarrow>
   (\<And>v q. r = Parsed (v, q) \<Longrightarrow> f (v, q) \<noteq> Starved \<Longrightarrow> f' (v, q) = f (v, q)) \<Longrightarrow> jbind r' f' = jbind r f"
  by (cases r) auto

text \<open>More fuel changes nothing once there is enough.\<close>

lemma parse_mono:
  "(parseValue stod f d p \<noteq> Starved \<longrightarrow> parseValue stod (Suc f) d p = parseValue stod f d p) \<and>
   (parseElems stod f d arr p \<noteq> Starved \<longrightarrow> parseElems stod (Suc f) d arr p = parseElems stod f d arr p) \<and>
   (parseMembers stod f d ob p \<noteq> Starved \<longrightarrow> parseMembers stod (Suc f) d ob p = parseMembers stod f d ob p)"
proof (induction f arbitrary: d p arr ob)
  case 0
  then show ?case
    by (simp add: parseValue.simps parseElems.simps parseMembers.simps)
next
  case (Suc f)
  note val = Suc.IH [THEN conjunct1, rule_format]
  note elems = Suc.IH [THEN conjunct2, THEN conjunct1, rule_format]
  note members = Suc.IH [THEN conjunct2, THEN conjunct2, rule_format]
  have "parseValue stod (Suc (Suc f)) d p = parseValue stod (Suc f) d p"
    if "parseValue stod (Suc f) d p \<noteq> Starved"
    using that unfolding parseValue.simps(2)
    by (auto simp: elems members split: if_splits list.splits option.splits)
  moreover have "parseElems stod (Suc (Suc f)) d arr p = parseElems stod (Suc f) d arr p"
    if "parseElems stod (Suc f) d arr p \<noteq> Starved"
    using that unfolding parseElems.simps(2) [of stod "Suc f" d arr p] parseElems.simps(2) [of stod f d arr p]
    by (rule jbind_mono) (auto split: option.splits intro!: val elems)
  moreover have "parseMembers stod (Suc (Suc f)) d ob p = parseMembers stod (Suc f) d ob p"
    if "parseMembers stod (Suc f) d ob p \<noteq> Starved"
    using that
    unfolding parseMembers.simps(2) [of stod "Suc f" d ob p] parseMembers.simps(2) [of stod f d ob p]
    by (rule jbind_mono) (auto split: option.splits intro!: jbind_mono val members)
  ultimately show ?case by blast
qed

lemma parseValue_mono:
  assumes "parseValue stod f d p = r" "r \<noteq> Starved" "f \<le> g"
  shows "parseValue stod g d p = r"
  using assms(3)
proof (induction g rule: dec_induct)
  case (step g)
  then show ?case
    using parse_mono [of stod g d p, THEN conjunct1] assms(2) by simp
qed (rule assms(1))

lemma parseElems_mono:
  assumes "parseElems stod f d arr p = r" "r \<noteq> Starved" "f \<le> g"
  shows "parseElems stod g d arr p = r"
  using assms(3)
proof (induction g rule: dec_induct)
  case (step g)
  then show ?case
    using parse_mono [of stod g d p arr, THEN conjunct2, THEN conjunct1] assms(2) by simp
qed (rule assms(1))

lemma parseMembers_mono:
  assumes "parseMembers stod f d ob p = r" "r \<noteq> Starved" "f \<le> g"
  shows "parseMembers stod g d ob p = r"
  using assms(3)
proof (induction g rule: dec_induct)
  case (step g)
  then show ?case
    using parse_mono [of stod g d p _ ob, THEN conjunct2, THEN conjunct2] assms(2) by simp
qed (rule assms(1))

text \<open>
  \<open>jends p r\<close>: the outcome \<open>r\<close> of reading \<open>p\<close> is not a lack of fuel, what is left is a suffix of
  \<open>p\<close>, and stepping past its end happens only when it ends in a backslash.
\<close>

definition jends :: "string \<Rightarrow> ('a \<times> string) jresult \<Rightarrow> bool" where
  "jends p r \<longleftrightarrow> r \<noteq> Starved \<and> (\<forall>v q. r = Parsed (v, q) \<longrightarrow> suffix q p) \<and>
    (r = Past \<longrightarrow> p \<noteq> [] \<and> last p = CHR 0x5C)"

lemma jends_simps [simp]: "jends p (Parsed x) \<longleftrightarrow> suffix (snd x) p" "jends p Null" "jends p Threw"
  by (cases x) (simp_all add: jends_def)

lemma jends_mono: "jends q r \<Longrightarrow> suffix q p \<Longrightarrow> jends p r"
  by (auto simp: jends_def suffix_def)

lemma jends_jbind:
  "jends p r \<Longrightarrow> (\<And>v q. suffix q p \<Longrightarrow> jends p (f (v, q))) \<Longrightarrow> jends p (jbind r f)"
  by (cases r) (auto simp: jends_def)

lemma jends_string_chars: "jends p (string_chars s p)"
proof (induction s p rule: string_chars.induct)
  case (2 s c p)
  show ?case
  proof (cases "c \<noteq> CHR 0x22 \<and> c = CHR 0x5C")
    case True
    with "2.IH"(1) show ?thesis
      by (cases p) (auto simp: jends_def intro: jends_mono [unfolded jends_def] suffix_ConsI)
  next
    case False
    with "2.IH"(2) show ?thesis
      by (auto intro: jends_mono suffix_ConsI)
  qed
qed simp

lemma jends_parseString: "jends p (parseString p)"
  by (auto simp: parseString_def next_is_def split: list.split
      intro: jends_mono [OF jends_string_chars] suffix_ConsI)

lemma suffix_eat: "suffix (eat cs p) p"
  by (auto simp: eat_def split: list.split intro: suffix_ConsI)

lemma suffix_after_point: "suffix (snd (after_point p)) p"
  by (auto simp: after_point_def next_is_def suffix_dropWhile split: list.split intro: suffix_ConsI)

lemma suffix_after_exponent: "suffix (snd (after_exponent p)) p"
proof -
  have "suffix (dropWhile is_digit (eat ''+-'' q)) q" for q
    by (rule suffix_order.trans [OF suffix_dropWhile suffix_eat])
  then have "suffix (dropWhile is_digit (eat ''+-'' (eat ''eE'' p))) p"
    by (rule suffix_order.trans) (rule suffix_eat)
  then show ?thesis by (simp add: after_exponent_def)
qed

lemma suffix_number_end: "suffix (snd (number_end p)) p"
  unfolding number_end_def
  by (auto split: prod.split)
     (metis snd_conv suffix_after_exponent suffix_after_point suffix_dropWhile suffix_eat suffix_order.trans)

lemma jends_parse_word: "jends p (parse_word stod p)"
  using suffix_number_end [of p]
  by (auto simp: parse_word_def parseNumber_def suffix_drop Let_def split: prod.split option.split)

lemma parse_ends_doc:
  fixes stod :: "string \<Rightarrow> 'f option"
  shows "(2 * length p + 1 \<le> f \<longrightarrow> jends p (parseValue stod f d p)) \<and>
   (2 * length p + 2 \<le> f \<longrightarrow> jends p (parseElems stod f d arr p)) \<and>
   (2 * length p + 2 \<le> f \<longrightarrow> jends p (parseMembers stod f d ob p))"
proof (induction f arbitrary: d p arr ob)
  case 0
  then show ?case by simp
next
  case (Suc f)
  have value_ends: "jends p (parseValue stod f e q)" if "suffix q p" "2 * length p + 1 \<le> f" for q p e
    by (rule jends_mono [OF _ that(1)]) (use Suc.IH [of q] that suffix_length_le [OF that(1)] in auto)
  have elems_ends: "jends p (parseElems stod f e a q)"
    if "suffix q p \<and> length q < length p" "2 * length p \<le> f" for a q p e
    by (rule jends_mono [of q]) (use Suc.IH [of q e a] that in auto)
  have members_ends: "jends p (parseMembers stod f e b q)"
    if "suffix q p \<and> length q < length p" "2 * length p \<le> f" for b q p e
    by (rule jends_mono [of q]) (use Suc.IH [of q e _ b] that in auto)
  have "jends p (parseValue stod (Suc f) d p)" if fuel: "2 * length p + 1 \<le> Suc f"
  proof (cases "d > 32 \<or> skipWs p = []")
    case True
    then show ?thesis by (auto simp: parseValue_at)
  next
    case False
    then obtain c cs where d: "d \<le> 32" and p: "skipWs p = c # cs"
      by (cases "skipWs p") auto
    then have all: "suffix (c # cs) p"
      using skip_ws_suffix [of p p] by simp
    then have cs: "suffix cs p" "length cs < length p"
      using suffix_length_le [OF all] by (auto dest: suffix_ConsD)
    have inner: "suffix (skip_ws cs) p \<and> length (skip_ws cs) < length p"
      using cs length_skip_ws [of cs] by auto
    have str: "jends p (jbind (string_chars [] cs) (\<lambda>(s, q). Parsed (JString s, q)))"
      by (rule jends_jbind [OF jends_mono [OF jends_string_chars cs(1)]]) simp
    have word: "jends p (parse_word stod (c # cs))"
      by (rule jends_mono [OF jends_parse_word all])
    have brk: "suffix q p" if "next_is b (skip_ws cs) = Some q" for b q
      using next_is_suffix [OF that cs(1)] by simp
    have fuel': "2 * length p \<le> f"
      using fuel by simp
    consider "c = CHR 0x22" | "c = CHR ''{''" | "c = CHR ''[''"
      | "c \<noteq> CHR 0x22" "c \<noteq> CHR ''{''" "c \<noteq> CHR ''[''"
      by blast
    then show ?thesis
    proof cases
      case 4
      show ?thesis
        unfolding parseValue_word [OF d p 4] by (rule word)
    qed (use d p str brk elems_ends [OF inner fuel'] members_ends [OF inner fuel'] in
        \<open>simp_all add: parseValue_at split: option.split\<close>)
  qed
  moreover have "jends p (parseElems stod (Suc f) d arr p)" if fuel: "2 * length p + 2 \<le> Suc f"
    unfolding parseElems.simps
  proof (rule jends_jbind)
    show "jends p (parseValue stod f (d + 1) p)"
      using fuel by (intro value_ends) auto
  qed (use fuel in \<open>auto split: option.split intro!: elems_ends dest: next_is_suffix\<close>)
  moreover have "jends p (parseMembers stod (Suc f) d ob p)" if fuel: "2 * length p + 2 \<le> Suc f"
    unfolding parseMembers.simps
  proof (rule jends_jbind)
    show "jends p (parseString (skipWs p))"
      by (rule jends_mono [OF jends_parseString]) (simp add: skip_ws_suffix)
  next
    fix key p1
    assume p1: "suffix p1 p"
    have val: "jends p (parseValue stod f (Suc d) p2)"
      if "next_is (CHR '':'') (skip_ws p1) = Some p2" for p2
      using next_is_suffix [OF that p1] fuel by (intro value_ends) auto
    show "jends p (case (key, p1) of (key, p1) \<Rightarrow>
        case next_is (CHR '':'') (skipWs p1) of
          None \<Rightarrow> Null
        | Some p2 \<Rightarrow>
            jbind (parseValue stod f (d + 1) p2) (\<lambda>(v, p3).
              case next_is (CHR '','') (skipWs p3) of
                Some p4 \<Rightarrow> parseMembers stod f d (map_put key v ob) p4
              | None \<Rightarrow>
                  (case next_is (CHR ''}'') (skipWs p3) of
                     Some p4 \<Rightarrow> Parsed (JObject (map_put key v ob), p4)
                   | None \<Rightarrow> Null)))"
      using fuel
      by (auto split: option.split intro!: jends_jbind [OF val] members_ends dest: next_is_suffix)
  qed
  ultimately show ?case by blast
qed

lemma parse_doc_ends: "jends p (parse_doc stod p)"
  using parse_ends_doc [of p "2 * length p + 1" stod 0] by (simp add: parse_doc_def)

lemma parse_docI:
  assumes "parseValue stod f 0 p = r" "r \<noteq> Starved"
  shows "parse_doc stod p = r"
proof -
  have "parse_doc stod p \<noteq> Starved"
    using parse_doc_ends [of p stod] by (simp add: jends_def)
  then show ?thesis
    using parseValue_mono [OF assms, of "max f (2 * length p + 1)"]
      parseValue_mono [of stod "2 * length p + 1" 0 p "parse_doc stod p" "max f (2 * length p + 1)"]
    by (simp add: parse_doc_def)
qed

section \<open>What a document satisfies\<close>

text \<open>
  The keys of every object are in order and without repetition, integers are in the range of
  \<open>long\<close>, and a value at depth \<open>d\<close> is not nested deeper than the limit allows.
\<close>

fun jdoc_ok :: "nat \<Rightarrow> 'f jdoc \<Rightarrow> bool" where
  "jdoc_ok d (JInt i) \<longleftrightarrow> d \<le> 32 \<and> - (2 ^ 63) \<le> i \<and> i < 2 ^ 63"
| "jdoc_ok d (JArray vs) \<longleftrightarrow> d \<le> 32 \<and> (\<forall>v\<in>set vs. jdoc_ok (d + 1) v)"
| "jdoc_ok d (JObject ms) \<longleftrightarrow> d \<le> 32 \<and> sorted_wrt (<) (map fst ms) \<and> (\<forall>m\<in>set ms. jdoc_ok (d + 1) (snd m))"
| "jdoc_ok d _ \<longleftrightarrow> d \<le> 32"

lemma set_map_put: "set (map_put k v ms) \<subseteq> insert (k, v) (set ms)"
  by (induction k v ms rule: map_put.induct) auto

lemma fst_set_map_put: "fst ` set (map_put k v ms) = insert k (fst ` set ms)"
  by (induction k v ms rule: map_put.induct) auto

lemma sorted_map_put: "sorted_wrt (<) (map fst ms) \<Longrightarrow> sorted_wrt (<) (map fst (map_put k v ms))"
proof (induction k v ms rule: map_put.induct)
  case (2 k v k' v' ms)
  then show ?case
    using fst_set_map_put [of k v ms] by (auto simp: image_iff) 
qed simp

lemma map_of_map_put:
  "sorted_wrt (<) (map fst ms) \<Longrightarrow> map_of (map_put k v ms) = (map_of ms)(k \<mapsto> v)"
proof (induction k v ms rule: map_put.induct)
  case (2 k v k' v' ms)
  then show ?case by (auto simp: fun_upd_def fun_eq_iff)
qed auto

lemma stol_range: "stol s = Some i \<Longrightarrow> - (2 ^ 63) \<le> i \<and> i < 2 ^ 63"
  by (auto simp: stol_def Let_def split: if_splits option.splits)

lemma parse_word_ok: "parse_word stod p = Parsed (v, q) \<Longrightarrow> d \<le> 32 \<Longrightarrow> jdoc_ok d v"
  by (auto simp: parse_word_def parseNumber_def Let_def dest: stol_range
      split: if_splits prod.splits option.splits)

lemma parse_ok:
  "(parseValue stod f d p = Parsed (v, q) \<longrightarrow> jdoc_ok d v) \<and>
   (parseElems stod f d arr p = Parsed (v, q) \<longrightarrow> d \<le> 32 \<longrightarrow> (\<forall>a\<in>set arr. jdoc_ok (d + 1) a) \<longrightarrow> jdoc_ok d v) \<and>
   (parseMembers stod f d ob p = Parsed (v, q) \<longrightarrow> d \<le> 32 \<longrightarrow> jdoc_ok d (JObject ob) \<longrightarrow> jdoc_ok d v)"
proof (induction f arbitrary: d p arr ob v q)
  case 0
  then show ?case
    by (simp add: parseValue.simps parseElems.simps parseMembers.simps)
next
  case (Suc f)
  note val = Suc.IH [THEN conjunct1, rule_format]
  note elems = Suc.IH [THEN conjunct2, THEN conjunct1, rule_format]
  note members = Suc.IH [THEN conjunct2, THEN conjunct2, rule_format]
  have "jdoc_ok d v" if r: "parseValue stod (Suc f) d p = Parsed (v, q)"
  proof (cases "d > 32 \<or> skipWs p = []")
    case True
    with r show ?thesis by (auto simp: parseValue_at)
  next
    case False
    then obtain c cs where d: "d \<le> 32" and p: "skipWs p = c # cs"
      by (cases "skipWs p") auto
    consider "c = CHR 0x22" | "c = CHR ''{''" | "c = CHR ''[''"
      | "c \<noteq> CHR 0x22" "c \<noteq> CHR ''{''" "c \<noteq> CHR ''[''"
      by blast
    then show ?thesis
    proof cases
      case 1
      with r d p show ?thesis
        by (cases "string_chars [] cs") (auto simp: parseValue_at)
    next
      case 4
      show ?thesis
        using r d unfolding parseValue_word [OF d p 4] by (rule parse_word_ok)
    qed (use r d p in \<open>auto simp: parseValue_at split: option.splits intro: elems members\<close>)
  qed
  moreover have "jdoc_ok d v"
    if "parseElems stod (Suc f) d arr p = Parsed (v, q)" "d \<le> 32" "\<forall>a\<in>set arr. jdoc_ok (d + 1) a"
  proof -
    from that(1) obtain w p1 where w: "parseValue stod f (d + 1) p = Parsed (w, p1)"
      by (cases "parseValue stod f (d + 1) p") (auto simp: parseElems.simps)
    have ok: "\<forall>a\<in>set (arr @ [w]). jdoc_ok (d + 1) a"
      using that(3) val [OF w] by simp
    from that(1) w consider p2 where "parseElems stod f d (arr @ [w]) p2 = Parsed (v, q)"
      | "v = JArray (arr @ [w])"
      by (auto simp: parseElems.simps split: option.splits)
    then show ?thesis
    proof cases
      case 1
      show ?thesis by (rule elems [OF 1 that(2)]) (use ok in auto)
    qed (use ok that(2) in auto)
  qed
  moreover have "jdoc_ok d v"
    if r: "parseMembers stod (Suc f) d ob p = Parsed (v, q)" and d: "d \<le> 32" and ob: "jdoc_ok d (JObject ob)"
  proof -
    have put: "jdoc_ok d (JObject (map_put key w ob))" if "jdoc_ok (d + 1) w" for key w
      using ob that set_map_put [of key w ob] by (auto simp: sorted_map_put)
    from r obtain key p1 p2 where key: "parseString (skipWs p) = Parsed (key, p1)"
      "next_is (CHR '':'') (skipWs p1) = Some p2"
      by (cases "parseString (skipWs p)") (auto simp: parseMembers.simps split: option.splits)
    with r obtain w p3 where w: "parseValue stod f (d + 1) p2 = Parsed (w, p3)"
      by (cases "parseValue stod f (d + 1) p2") (auto simp: parseMembers.simps)
    note ok = put [OF val [OF w], of key]
    from r key w consider p4 where "parseMembers stod f d (map_put key w ob) p4 = Parsed (v, q)"
      | "v = JObject (map_put key w ob)"
      by (auto simp: parseMembers.simps split: option.splits)
    then show ?thesis
      by cases (use members [OF _ d ok] ok in auto)
  qed
  ultimately show ?case by blast
qed

section \<open>What is written is read back\<close>

lemma string_chars_escaped:
  "string_chars s (concat (map escaped t) @ CHR 0x22 # r) = Parsed (s @ t, r)"
  by (induction t arbitrary: s) (simp_all add: jescape_def)

lemma string_chars_plain: "plain t \<Longrightarrow> string_chars s (t @ CHR 0x22 # r) = Parsed (s @ t, r)"
  by (induction t arbitrary: s) (auto simp: plain_def)

lemma eat_append:
  assumes "delimited rest" "set cs \<inter> {CHR '','', CHR '']'', CHR ''}'', CHR 0x0A} = {}"
  shows "eat cs (t @ rest) = eat cs t @ rest"
  using assms by (cases t; cases rest) (auto simp: eat_def delimited_def)

lemma dropWhile_digits_append: "delimited rest \<Longrightarrow> dropWhile is_digit (t @ rest) = dropWhile is_digit t @ rest"
proof -
  assume "delimited rest"
  then have "dropWhile is_digit rest = rest"
    by (cases rest) (auto simp: delimited_def is_digit_def)
  then show ?thesis
    by (cases "\<forall>c\<in>set t. is_digit c") (auto simp: dropWhile_append dropWhile_eq_Nil_conv [THEN iffD2])
qed

lemma after_point_append:
  "delimited rest \<Longrightarrow> after_point (t @ rest) = (fst (after_point t), snd (after_point t) @ rest)"
  by (cases t; cases rest) (auto simp: after_point_def delimited_def dropWhile_digits_append)

lemma after_exponent_append:
  assumes "delimited rest"
  shows "after_exponent (t @ rest) = (fst (after_exponent t), snd (after_exponent t) @ rest)"
  using eat_append [OF assms, of "''eE''"] eat_append [OF assms, of "''+-''"]
  by (simp add: after_exponent_def dropWhile_digits_append assms)

lemma number_end_append:
  assumes "delimited rest" "number_end t = (b, [])"
  shows "number_end (t @ rest) = (b, rest)"
  using assms eat_append [OF assms(1), of "''-''" t]
  by (auto simp: number_end_def dropWhile_digits_append after_point_append after_exponent_append
      split: prod.splits)

lemma is_digit_digit_char: "k < 10 \<Longrightarrow> is_digit (digit_char k)"
proof -
  assume k: "k < 10"
  then have "ord (digit_char k) \<in> {48, 49, 50, 51, 52, 53, 54, 55, 56, 57}"
    by (auto simp: ord_def digit_char_def)
  then have "ord (digit_char k) \<in> ord ` set ''0123456789''"
    by (simp add: ord_def)
  then show ?thesis
    by (auto simp: is_digit_def)
qed

lemma digits_all: "\<forall>c\<in>set (digits_of 10 n). is_digit c"
  using digits_of_facts [of 10 n] is_digit_digit_char by auto

lemma number_end_digits: "\<forall>c\<in>set ds. is_digit c \<Longrightarrow> number_end ds = (False, []) \<and> number_end (CHR ''-'' # ds) = (False, [])"
  by (cases ds)
    (auto simp: number_end_def eat_def after_point_def after_exponent_def is_digit_def
      dropWhile_eq_Nil_conv [THEN iffD2])

lemma number_end_int: "number_end (to_string i) = (False, [])"
  using number_end_digits [OF digits_all] by (simp add: to_string_def)

lemma digits_not_minus: "next_is (CHR ''-'') (digits_of 10 n) = None" "digits_of 10 n \<noteq> []"
proof -
  obtain k cs where "digits_of 10 n = digit_char k # cs" "k < 10"
    using digits_of_head [of 10 n] by auto
  moreover from this have "digit_char k \<noteq> CHR ''-''"
    using is_digit_digit_char [of k] by (auto simp: is_digit_def)
  ultimately show "next_is (CHR ''-'') (digits_of 10 n) = None" "digits_of 10 n \<noteq> []"
    by simp_all
qed

lemma stol_to_string: "- (2 ^ 63) \<le> i \<Longrightarrow> i < 2 ^ 63 \<Longrightarrow> stol (to_string i) = Some i"
  using digits_of_facts [of 10 "nat i", THEN conjunct1] digits_of_facts [of 10 "nat (- i)", THEN conjunct1]
  by (simp add: stol_def to_string_def Let_def digits_not_minus)

text \<open>
  What is read back at depth \<open>d\<close>: strings have no zero character, keys neither quotes nor
  backslashes, which the serializer does not escape, and what \<open>ok\<close> says of floats: that
  they print as a number (\<open>float_text\<close>), as all but infinities and NaN do, which is read back.
\<close>

definition float_text :: "('f \<Rightarrow> string) \<Rightarrow> 'f \<Rightarrow> bool" where
  "float_text ff x \<longleftrightarrow> ff x \<noteq> [] \<and> (hd (ff x) = CHR ''-'' \<or> is_digit (hd (ff x))) \<and>
    CHR 0x00 \<notin> set (ff x) \<and> snd (number_end (ff x)) = []"

text \<open>
  The stream's \<open>operator<<\<close> prints six significant digits and drops a zero fraction, so the value
  read back need not be the one written: \<open>float_reread\<close> is what the parser makes of a float's text,
  \<open>None\<close> where it throws, and \<open>float_back\<close> the floats that are read back as themselves.
\<close>

definition float_reread :: "('f \<Rightarrow> string) \<Rightarrow> (string \<Rightarrow> 'f option) \<Rightarrow> 'f \<Rightarrow> 'f jdoc option" where
  "float_reread ff stod x =
    (if fst (number_end (ff x)) then map_option JFloat (stod (ff x)) else map_option JInt (stol (ff x)))"

definition float_reads :: "('f \<Rightarrow> string) \<Rightarrow> (string \<Rightarrow> 'f option) \<Rightarrow> 'f \<Rightarrow> bool" where
  "float_reads ff stod x \<longleftrightarrow> float_text ff x \<and> float_reread ff stod x \<noteq> None"

definition float_back :: "('f \<Rightarrow> string) \<Rightarrow> (string \<Rightarrow> 'f option) \<Rightarrow> 'f \<Rightarrow> bool" where
  "float_back ff stod x \<longleftrightarrow> float_text ff x \<and> float_reread ff stod x = Some (JFloat x)"

text \<open>A document with every float replaced by what is read back of it.\<close>

fun jreread :: "('f \<Rightarrow> string) \<Rightarrow> (string \<Rightarrow> 'f option) \<Rightarrow> 'f jdoc \<Rightarrow> 'f jdoc" where
  "jreread ff stod (JFloat x) = (case float_reread ff stod x of None \<Rightarrow> JFloat x | Some v \<Rightarrow> v)"
| "jreread ff stod (JArray vs) = JArray (map (\<lambda>v. jreread ff stod v) vs)"
| "jreread ff stod (JObject ms) = JObject (map (\<lambda>m. (fst m, jreread ff stod (snd m))) ms)"
| "jreread ff stod v = v"

fun jprintable :: "('f \<Rightarrow> bool) \<Rightarrow> nat \<Rightarrow> 'f jdoc \<Rightarrow> bool" where
  "jprintable ok d (JInt i) \<longleftrightarrow> d \<le> 32 \<and> - (2 ^ 63) \<le> i \<and> i < 2 ^ 63"
| "jprintable ok d (JFloat x) \<longleftrightarrow> d \<le> 32 \<and> ok x"
| "jprintable ok d (JString s) \<longleftrightarrow> d \<le> 32 \<and> CHR 0x00 \<notin> set s"
| "jprintable ok d (JArray vs) \<longleftrightarrow> d \<le> 32 \<and> (\<forall>v\<in>set vs. jprintable ok (d + 1) v)"
| "jprintable ok d (JObject ms) \<longleftrightarrow> d \<le> 32 \<and> sorted_wrt (<) (map fst ms) \<and>
     (\<forall>m\<in>set ms. plain (fst m) \<and> CHR 0x00 \<notin> set (fst m) \<and> jprintable ok (d + 1) (snd m))"
| "jprintable ok d _ \<longleftrightarrow> d \<le> 32"

lemma jprintable_depth: "jprintable ok d v \<Longrightarrow> d \<le> 32"
  by (cases v) auto

lemma no_minus_start:
  "c = CHR ''-'' \<or> is_digit c \<Longrightarrow>
   \<not> is_ws c \<and> c \<noteq> CHR 0x22 \<and> c \<noteq> CHR ''{'' \<and> c \<noteq> CHR ''['' \<and> c \<noteq> CHR '']'' \<and> c \<noteq> CHR ''}'' \<and>
   c \<noteq> CHR ''t'' \<and> c \<noteq> CHR ''f'' \<and> c \<noteq> CHR ''n''"
  by (auto simp: is_ws_def is_digit_def)

lemma to_string_start: "\<exists>c cs. to_string i = c # cs \<and> (c = CHR ''-'' \<or> is_digit c)"
  using digits_all [of "nat i"] digits_of_head [of 10 "nat i"] by (auto simp: to_string_def)

lemma serialize_start:
  assumes "jprintable (float_reads ff stod) d v"
  shows "\<exists>c cs. serializeNode ff v = c # cs \<and> \<not> is_ws c \<and> c \<noteq> CHR '']'' \<and> c \<noteq> CHR ''}''"
proof (cases v)
  case (JInt i)
  then show ?thesis
    using to_string_start [of i] no_minus_start by fastforce
next
  case (JFloat x)
  then show ?thesis
    using assms no_minus_start [of "hd (ff x)"] by (cases "ff x") (auto simp: float_reads_def float_text_def)
qed (auto simp: is_ws_def)

lemma skip_ws_serialized:
  "jprintable (float_reads ff stod) d v \<Longrightarrow> skip_ws (serializeNode ff v @ p) = serializeNode ff v @ p"
  using serialize_start [of ff stod d v] by auto

lemma parse_number_text:
  assumes "t = c # cs" "c = CHR ''-'' \<or> is_digit c" "number_end t = (b, [])" "delimited rest" "d \<le> 32"
  shows "parseValue stod (Suc f) d (t @ rest) =
    (if b then (case stod t of None \<Rightarrow> Threw | Some x \<Rightarrow> Parsed (JFloat x, rest))
     else (case stol t of None \<Rightarrow> Threw | Some i \<Rightarrow> Parsed (JInt i, rest)))"
proof -
  have ws: "skipWs (t @ rest) = c # cs @ rest"
    using no_minus_start [OF assms(2)] by (simp add: assms(1))
  have "parseValue stod (Suc f) d (t @ rest) = parse_word stod (t @ rest)"
    by (subst parseValue_word [OF assms(5) ws]) (use no_minus_start [OF assms(2)] assms(1) in auto)
  also have "\<dots> = parseNumber stod (t @ rest)"
    using no_minus_start [OF assms(2)] assms(1,2) by (auto simp: parse_word_def)
  finally show ?thesis
    using number_end_append [OF assms(4,3)] by (simp add: parseNumber_def)
qed

text \<open>\<open>comes_back v\<close>: the text of \<open>v\<close> is read back as \<open>jreread ff stod v\<close>, at any
  depth that holds it.\<close>

definition comes_back :: "('f \<Rightarrow> string) \<Rightarrow> (string \<Rightarrow> 'f option) \<Rightarrow> 'f jdoc \<Rightarrow> bool" where
  "comes_back ff stod v \<longleftrightarrow> (\<forall>d rest. jprintable (float_reads ff stod) d v \<longrightarrow> delimited rest \<longrightarrow>
     (\<exists>f. parseValue stod f d (serializeNode ff v @ rest) = Parsed (jreread ff stod v, rest)))"

lemma comes_backE:
  assumes "comes_back ff stod v" "jprintable (float_reads ff stod) d v" "delimited rest"
  obtains f where "parseValue stod f d (serializeNode ff v @ rest) = Parsed (jreread ff stod v, rest)"
  using assms by (auto simp: comes_back_def)

lemma jelems_back:
  assumes "\<forall>a\<in>set (v # vs). comes_back ff stod a \<and> jprintable (float_reads ff stod) (d + 1) a"
  shows "\<exists>f. parseElems stod f d arr (serializeNode ff v @ serialize_elems ff False vs @ CHR '']'' # rest) =
    Parsed (JArray (arr @ map (jreread ff stod) (v # vs)), rest)"
  using assms
proof (induction vs arbitrary: v arr)
  case Nil
  obtain f where "parseValue stod f (d + 1) (serializeNode ff v @ CHR '']'' # rest) = Parsed (jreread ff stod v, CHR '']'' # rest)"
    by (rule comes_backE [of ff stod _ "d + 1"]) (use Nil.prems in auto)
  then have "parseElems stod (Suc f) d arr (serializeNode ff v @ CHR '']'' # rest) = Parsed (JArray (arr @ [jreread ff stod v]), rest)"
    by (simp add: parseElems.simps no_ws_start)
  then show ?case by auto
next
  case (Cons w vs)
  let ?q = "serializeNode ff w @ serialize_elems ff False vs @ CHR '']'' # rest"
  obtain f where f: "parseValue stod f (d + 1) (serializeNode ff v @ CHR '','' # ?q) = Parsed (jreread ff stod v, CHR '','' # ?q)"
    by (rule comes_backE [of ff stod _ "d + 1"]) (use Cons.prems in auto)
  obtain g where g: "parseElems stod g d (arr @ [jreread ff stod v]) ?q =
      Parsed (JArray ((arr @ [jreread ff stod v]) @ map (jreread ff stod) (w # vs)), rest)"
    using Cons.IH [of w "arr @ [jreread ff stod v]"] Cons.prems by auto
  have "parseElems stod (Suc (max f g)) d arr (serializeNode ff v @ CHR '','' # ?q) =
      Parsed (JArray (arr @ map (jreread ff stod) (v # w # vs)), rest)"
    using parseValue_mono [OF f, of "max f g"] parseElems_mono [OF g, of "max f g"]
    by (simp add: parseElems.simps no_ws_start)
  then show ?case by auto
qed

lemma map_put_last: "sorted_wrt (<) (map fst ob @ [k]) \<Longrightarrow> map_put k v ob = ob @ [(k, v)]"
  by (induction ob) (auto simp: sorted_wrt_append)

abbreviation (input) jmember :: "('f \<Rightarrow> string) \<Rightarrow> string \<times> 'f jdoc \<Rightarrow> string" where
  "jmember ff m \<equiv> CHR 0x22 # fst m @ CHR 0x22 # CHR '':'' # serializeNode ff (snd m)"

lemma jmembers_back:
  assumes "\<forall>m\<in>set (m # ms). comes_back ff stod (snd m) \<and> jprintable (float_reads ff stod) (d + 1) (snd m) \<and> plain (fst m)"
    and "sorted_wrt (<) (map fst (ob @ m # ms))"
  shows "\<exists>f. parseMembers stod f d ob (jmember ff m @ serialize_members ff False ms @ CHR ''}'' # rest) =
    Parsed (JObject (ob @ map (\<lambda>m. (fst m, jreread ff stod (snd m))) (m # ms)), rest)"
  using assms
proof (induction ms arbitrary: m ob)
  case Nil
  obtain f where "parseValue stod f (d + 1) (serializeNode ff (snd m) @ CHR ''}'' # rest) = Parsed (jreread ff stod (snd m), CHR ''}'' # rest)"
    by (rule comes_backE [of ff stod _ "d + 1"]) (use Nil.prems in auto)
  then have "parseMembers stod (Suc f) d ob (jmember ff m @ CHR ''}'' # rest) = Parsed (JObject (ob @ [(fst m, jreread ff stod (snd m))]), rest)"
    using Nil.prems map_put_last [of ob "fst m" "jreread ff stod (snd m)"]
    by (simp add: parseMembers.simps parseString_def string_chars_plain no_ws_start)
  then show ?case by auto
next
  case (Cons n ms)
  let ?m = "(fst m, jreread ff stod (snd m))"
  let ?q = "jmember ff n @ serialize_members ff False ms @ CHR ''}'' # rest"
  obtain f where f: "parseValue stod f (d + 1) (serializeNode ff (snd m) @ CHR '','' # ?q) = Parsed (jreread ff stod (snd m), CHR '','' # ?q)"
    by (rule comes_backE [of ff stod _ "d + 1"]) (use Cons.prems in auto)
  have m: "map_put (fst m) (jreread ff stod (snd m)) ob = ob @ [?m]" "plain (fst m)"
    using Cons.prems map_put_last [of ob "fst m" "jreread ff stod (snd m)"] by (auto simp: sorted_wrt_append)
  obtain g where g: "parseMembers stod g d (ob @ [?m]) ?q =
      Parsed (JObject ((ob @ [?m]) @ map (\<lambda>m. (fst m, jreread ff stod (snd m))) (n # ms)), rest)"
    using Cons.IH [of n "ob @ [?m]"] Cons.prems by auto
  have "parseMembers stod (Suc (max f g)) d ob (jmember ff m @ CHR '','' # ?q) =
      Parsed (JObject (ob @ map (\<lambda>m. (fst m, jreread ff stod (snd m))) (m # n # ms)), rest)"
    using parseValue_mono [OF f, of "max f g"] parseMembers_mono [OF g, of "max f g"]
    by (simp add: parseMembers.simps parseString_def string_chars_plain m no_ws_start)
  then show ?case by (cases n) auto
qed

lemma printable_comes_back: "comes_back ff stod v"
proof (induction v)
  case (JInt i)
  show ?case
  proof (unfold comes_back_def, intro allI impI)
    fix d rest assume *: "jprintable (float_reads ff stod) d (JInt i)" "delimited rest"
    obtain c cs where c: "to_string i = c # cs" "c = CHR ''-'' \<or> is_digit c"
      using to_string_start by blast
    show "\<exists>f. parseValue stod f d (serializeNode ff (JInt i) @ rest) = Parsed (jreread ff stod (JInt i), rest)"
      using parse_number_text [OF c number_end_int *(2), of d stod] *(1) stol_to_string [of i] by auto
  qed
next
  case (JFloat x)
  show ?case
  proof (unfold comes_back_def, intro allI impI)
    fix d rest assume *: "jprintable (float_reads ff stod) d (JFloat x)" "delimited rest"
    then obtain c cs b v where c: "ff x = c # cs" "c = CHR ''-'' \<or> is_digit c" "number_end (ff x) = (b, [])"
      "float_reread ff stod x = Some v"
      by (cases "ff x"; cases "number_end (ff x)") (auto simp: float_reads_def float_text_def)
    have "parseValue stod (Suc 0) d (serializeNode ff (JFloat x) @ rest) =
        Parsed (jreread ff stod (JFloat x), rest)"
      using parse_number_text [OF c(1-3) *(2), of d stod 0] *(1) c(3,4)
      by (auto simp: float_reread_def split: if_splits)
    then show "\<exists>f. parseValue stod f d (serializeNode ff (JFloat x) @ rest) =
        Parsed (jreread ff stod (JFloat x), rest)" ..
  qed
next
  case (JString s)
  have "parseValue stod (Suc 0) d (serializeNode ff (JString s) @ rest) = Parsed (JString s, rest)"
    if "d \<le> 32" for d rest
    using string_chars_escaped [of "[]" s rest] that by (simp add: parseValue_at no_ws_start)
  then show ?case
    unfolding comes_back_def by auto
next
  case (JArray vs)
  show ?case
  proof (cases vs)
    case Nil
    have "parseValue stod (Suc 0) d (serializeNode ff (JArray vs) @ rest) = Parsed (jreread ff stod (JArray vs), rest)"
      if "d \<le> 32" for d rest
      using that by (simp add: Nil parseValue_at no_ws_start)
    then show ?thesis
      unfolding comes_back_def by auto
  next
    case (Cons v ws)
    show ?thesis
    proof (unfold comes_back_def, intro allI impI)
      fix d rest assume *: "jprintable (float_reads ff stod) d (JArray vs)" "delimited rest"
      let ?q = "serializeNode ff v @ serialize_elems ff False ws @ CHR '']'' # rest"
      have "\<exists>f. parseElems stod f d [] ?q = Parsed (JArray ([] @ map (jreread ff stod) (v # ws)), rest)"
        by (rule jelems_back) (use JArray * Cons in auto)
      then obtain f where f: "parseElems stod f d [] ?q = Parsed (jreread ff stod (JArray vs), rest)"
        by (auto simp: Cons)
      have v: "jprintable (float_reads ff stod) (d + 1) v"
        using *(1) Cons by auto
      obtain c cs where "serializeNode ff v = c # cs" "\<not> is_ws c" "c \<noteq> CHR '']''"
        using serialize_start [OF v] by blast
      then have "parseValue stod (Suc f) d (serializeNode ff (JArray vs) @ rest) = Parsed (jreread ff stod (JArray vs), rest)"
        using f *(1) by (simp add: Cons parseValue_at no_ws_start)
      then show "\<exists>f. parseValue stod f d (serializeNode ff (JArray vs) @ rest) = Parsed (jreread ff stod (JArray vs), rest)" ..
    qed
  qed
next
  case (JObject ms)
  show ?case
  proof (cases ms)
    case Nil
    have "parseValue stod (Suc 0) d (serializeNode ff (JObject ms) @ rest) = Parsed (jreread ff stod (JObject ms), rest)"
      if "d \<le> 32" for d rest
      using that by (simp add: Nil parseValue_at no_ws_start)
    then show ?thesis
      unfolding comes_back_def by auto
  next
    case (Cons m ns)
    show ?thesis
    proof (unfold comes_back_def, intro allI impI)
      fix d rest assume *: "jprintable (float_reads ff stod) d (JObject ms)" "delimited rest"
      let ?q = "jmember ff m @ serialize_members ff False ns @ CHR ''}'' # rest"
      have each: "comes_back ff stod (snd a)" if "a \<in> set ms" for a
        using JObject that by (cases a) (auto intro: snds.intros)
      have "\<exists>f. parseMembers stod f d [] ?q = Parsed (JObject ([] @ map (\<lambda>m. (fst m, jreread ff stod (snd m))) (m # ns)), rest)"
        by (rule jmembers_back) (use each * Cons in auto)
      then obtain f where f: "parseMembers stod f d [] ?q = Parsed (jreread ff stod (JObject ms), rest)"
        by (auto simp: Cons)
      have "parseValue stod (Suc f) d (serializeNode ff (JObject ms) @ rest) = Parsed (jreread ff stod (JObject ms), rest)"
        using f *(1) by (cases m) (simp add: Cons parseValue_at no_ws_start)
      then show "\<exists>f. parseValue stod f d (serializeNode ff (JObject ms) @ rest) = Parsed (jreread ff stod (JObject ms), rest)" ..
    qed
  qed
qed (auto simp: comes_back_def parseValue.simps no_ws_start is_digit_def intro!: exI [of _ "Suc 0"])

lemma parse_doc_serialized:
  assumes "jprintable (float_reads ff stod) 0 v"
  shows "parse_doc stod (serializeNode ff v) = Parsed (jreread ff stod v, [])"
proof -
  obtain f where "parseValue stod f 0 (serializeNode ff v @ []) = Parsed (jreread ff stod v, [])"
    by (rule comes_backE [OF printable_comes_back assms, of "[]"]) auto
  then show ?thesis
    by (intro parse_docI) auto
qed

lemma no_zero_number: "CHR 0x00 \<notin> set (to_string i)"
proof -
  have "\<not> is_digit CHR 0x00"
    by (simp add: is_digit_def)
  then have "CHR 0x00 \<notin> set (digits_of 10 n)" for n
    using digits_all [of n] by blast
  then show ?thesis
    by (simp add: to_string_def)
qed

lemma no_zero_escaped: "CHR 0x00 \<notin> set s \<Longrightarrow> CHR 0x00 \<notin> set (concat (map escaped s))"
  by (induction s) auto

lemma no_zero_serialized:
  "jprintable (float_reads ff stod) d v \<Longrightarrow> CHR 0x00 \<notin> set (serializeNode ff v)"
  "(\<forall>v\<in>set vs. jprintable (float_reads ff stod) d v) \<Longrightarrow> CHR 0x00 \<notin> set (serialize_elems ff first vs)"
  "(\<forall>m\<in>set ms. CHR 0x00 \<notin> set (fst m) \<and> jprintable (float_reads ff stod) d (snd m)) \<Longrightarrow>
     CHR 0x00 \<notin> set (serialize_members ff first ms)"
proof (induction ff v and ff first vs and ff first ms arbitrary: d and d and d
    rule: serializeNode_serialize_elems_serialize_members.induct)
  case (5 ff s)
  then show ?case
    using no_zero_escaped [of s] by simp
next
  case (6 ff vs)
  then show ?case
    using "6.IH" [of "d + 1"] by simp
next
  case (7 ff ms)
  then show ?case
    using "7.IH" [of "d + 1"] by auto
qed (auto simp: no_zero_number float_reads_def float_text_def)

text \<open>Where every float comes back as itself, so does the document.\<close>

lemma jreread_same: "jprintable (float_back ff stod) d v \<Longrightarrow> jreread ff stod v = v"
proof (induction v arbitrary: d)
  case (JArray vs)
  then have "jreread ff stod a = a" if "a \<in> set vs" for a
    using that by auto
  then show ?case by (simp add: map_idI)
next
  case (JObject ms)
  then have "jreread ff stod (snd m) = snd m" if "m \<in> set ms" for m
    using that by (cases m) (auto intro: snds.intros)
  then show ?case by (simp add: map_idI)
qed (auto simp: float_back_def)

lemma jprintable_back_reads:
  "jprintable (float_back ff stod) d v \<Longrightarrow> jprintable (float_reads ff stod) d v"
proof (induction v arbitrary: d)
  case (JObject ms)
  then have "jprintable (float_reads ff stod) (d + 1) (snd m)" if "m \<in> set ms" for m
    using that by (cases m) (auto intro: snds.intros)
  with JObject.prems show ?case by auto
qed (auto simp: float_back_def float_reads_def)

section \<open>Properties\<close>

text \<open>
  C9: what is serialized is read back. Take a document whose strings and keys have no zero
  characters and whose keys have neither quotes nor backslashes, whose objects' keys are in order
  (the order of the \<open>std::map\<close> they are kept in), with integers in the range of \<open>long\<close>, no more
  than 33 levels, and floats whose text is a number that the parser accepts. Deserializing the
  serialized text returns Ok and leaves the same document with every float replaced by what is
  read back of its text (an integer where the text has neither point nor exponent), and strings
  with their quotes and backslashes. Where \<open>stod\<close> reads the text of every float, with a point or an
  exponent, back as that very float, the document is the same; six digits are printed, so
  3.14159265 is not such a float.
\<close>

theorem ajson_roundtrip:
  assumes "jprintable (float_reads ff stod) 0 v"
  shows "deserializeJson_string stod doc (snd (serializeJson ff v)) = Parsed (DeOk, jreread ff stod v) \<and>
    (jprintable (float_back ff stod) 0 v \<longrightarrow>
     deserializeJson_string stod doc (snd (serializeJson ff v)) = Parsed (DeOk, v))"
proof -
  obtain c cs where "serializeNode ff v = c # cs"
    using serialize_start [OF assms] by blast
  moreover have "CHR 0x00 \<notin> set (serializeNode ff v)"
    using assms by (rule no_zero_serialized)
  ultimately show ?thesis
    using parse_doc_serialized [OF assms] jreread_same [of ff stod 0 v]
    by (simp add: deserializeJson_string_def deserializeJson_def serializeJson_def Let_def c_str_id)
qed

text \<open>
  The witness has three floats in hundredths: 0.5, which comes back, 3.0, which is printed and
  read as an integer, and 0.25, which the printer rounds to 0.2.
\<close>

definition witness_print :: "nat \<Rightarrow> string" where
  "witness_print n = (if n = 300 then ''3'' else if n = 50 then ''0.5'' else ''0.2'')"

definition witness_stod :: "string \<Rightarrow> nat option" where
  "witness_stod s = (if s = ''0.5'' then Some 50 else if s = ''0.2'' then Some 20 else None)"

lemma stol_three: "stol ''3'' = Some 3"
  by code_simp

lemmas witness_floats =
  float_reads_def float_back_def float_text_def float_reread_def witness_print_def witness_stod_def
  number_end_def eat_def after_point_def after_exponent_def is_digit_def plain_def less_char_def
  stol_three

theorem ajson_roundtrip_witness:
  "deserializeJson_string witness_stod JNull (snd (serializeJson witness_print
     (JObject [(''a'', JArray [JInt (- 12), JFloat 50, JFloat 300, JFloat 25]), (''b'', JString [CHR 0x22, CHR 0x5C])]))) =
   Parsed (DeOk, JObject [(''a'', JArray [JInt (- 12), JFloat 50, JInt 3, JFloat 20]), (''b'', JString [CHR 0x22, CHR 0x5C])]) \<and>
   deserializeJson_string witness_stod JNull (snd (serializeJson witness_print (JArray [JNull, JFloat 50]))) =
   Parsed (DeOk, JArray [JNull, JFloat 50])"
proof
  show "deserializeJson_string witness_stod JNull (snd (serializeJson witness_print
     (JObject [(''a'', JArray [JInt (- 12), JFloat 50, JFloat 300, JFloat 25]), (''b'', JString [CHR 0x22, CHR 0x5C])]))) =
   Parsed (DeOk, JObject [(''a'', JArray [JInt (- 12), JFloat 50, JInt 3, JFloat 20]), (''b'', JString [CHR 0x22, CHR 0x5C])])"
    using ajson_roundtrip [THEN conjunct1, of witness_print witness_stod
      "JObject [(''a'', JArray [JInt (- 12), JFloat 50, JFloat 300, JFloat 25]), (''b'', JString [CHR 0x22, CHR 0x5C])]" JNull]
    by (simp add: witness_floats)
  show "deserializeJson_string witness_stod JNull (snd (serializeJson witness_print (JArray [JNull, JFloat 50]))) =
   Parsed (DeOk, JArray [JNull, JFloat 50])"
    using ajson_roundtrip [THEN conjunct2, of witness_print witness_stod "JArray [JNull, JFloat 50]" JNull]
    by (simp add: witness_floats)
qed

text \<open>
  C10: deserializing ends, and leaves a well-formed document. On every text whatever the call
  returns Ok with a document whose objects have distinct keys in order, whose integers are in the
  range of \<open>long\<close> and which has no more than 33 levels, or EmptyInput for the empty text and only
  for it, or InvalidInput, both with the document unchanged, or it throws; the fuel of the model
  never runs out. Only for a text that ends in a backslash there is one more outcome: the parser
  steps over the terminating zero.
\<close>

theorem ajson_parse_result:
  "case deserializeJson stod doc (Some p) of
     Parsed (e, v) \<Rightarrow>
       (if p = [] then e = EmptyInput \<and> v = doc
        else e = DeOk \<and> jdoc_ok 0 v \<or> e = InvalidInput \<and> v = doc)
   | Null \<Rightarrow> False
   | Threw \<Rightarrow> p \<noteq> []
   | Past \<Rightarrow> p \<noteq> [] \<and> last p = CHR 0x5C
   | Starved \<Rightarrow> False"
proof (cases "parse_doc stod p")
  case (Parsed r)
  then show ?thesis
    using parse_ok [of stod "2 * length p + 1" 0 p "fst r" "snd r"]
    by (cases r) (auto simp: deserializeJson_def parse_doc_def)
qed (use parse_doc_ends [of p stod] in \<open>auto simp: deserializeJson_def jends_def\<close>)

text \<open>Arrays nested \<open>n\<close> deep, and their text.\<close>

fun nest :: "nat \<Rightarrow> 'f jdoc" where
  "nest 0 = JArray []"
| "nest (Suc n) = JArray [nest n]"

fun brackets :: "nat \<Rightarrow> string" where
  "brackets 0 = ''[]''"
| "brackets (Suc n) = CHR ''['' # brackets n @ '']''"

lemma brackets_parse:
  "\<exists>f. parseValue stod f d (brackets n @ rest) = (if d + n \<le> 32 then Parsed (nest n, rest) else Null)"
proof (induction n arbitrary: d rest)
  case 0
  have "parseValue stod (Suc 0) d (brackets 0 @ rest) = (if d + 0 \<le> 32 then Parsed (nest 0, rest) else Null)"
    by (simp add: parseValue_at no_ws_start)
  then show ?case ..
next
  case (Suc n)
  obtain c cs where b: "brackets n = CHR ''['' # cs"
    by (cases n) auto
  obtain f where f: "parseValue stod f (d + 1) (brackets n @ CHR '']'' # rest) =
      (if d + 1 + n \<le> 32 then Parsed (nest n, CHR '']'' # rest) else Null)"
    using Suc.IH [of "d + 1" "CHR '']'' # rest"] by auto
  have "parseElems stod (Suc f) d [] (brackets n @ CHR '']'' # rest) =
      (if d + 1 + n \<le> 32 then Parsed (JArray [nest n], rest) else Null)"
    using f by (simp add: parseElems.simps no_ws_start)
  then have "parseValue stod (Suc (Suc f)) d (brackets (Suc n) @ rest) =
      (if d + Suc n \<le> 32 then Parsed (nest (Suc n), rest) else Null)"
    by (cases "d \<le> 32") (simp_all add: parseValue_at b no_ws_start)
  then show ?case ..
qed

text \<open>
  The limit on the depth is exact. The text of arrays nested in each other is accepted up to 33
  levels; a deeper one is rejected, with the code InvalidInput, not TooDeep, and the document unchanged.
\<close>

theorem ajson_depth_limit:
  "deserializeJson stod doc (Some (brackets n)) =
    (if n \<le> 32 then Parsed (DeOk, nest n) else Parsed (InvalidInput, doc))"
proof -
  obtain f where "parseValue stod f 0 (brackets n @ []) = (if 0 + n \<le> 32 then Parsed (nest n, []) else Null)"
    using brackets_parse by blast
  then have "parse_doc stod (brackets n) = (if n \<le> 32 then Parsed (nest n, []) else Null)"
    by (intro parse_docI) auto
  moreover have "brackets n \<noteq> []"
    by (cases n) auto
  ultimately show ?thesis
    by (simp add: deserializeJson_def)
qed

text \<open>
  Numbers can throw. The digits of an integer that does not fit into \<open>long\<close> make
  \<open>deserializeJson\<close> throw out of its caller, as does a minus without digits.
\<close>

theorem ajson_number_throws:
  assumes "2 ^ 63 \<le> n"
  shows "deserializeJson stod doc (Some (digits_of 10 n)) = Threw \<and>
    deserializeJson stod doc (Some ''-'') = Threw"
proof -
  obtain c cs where c: "digits_of 10 n = c # cs" "is_digit c"
    using digits_all [of n] digits_not_minus(2) [of n] by (cases "digits_of 10 n") auto
  have "int n \<ge> int (2 ^ 63)"
    using assms by (simp only: of_nat_le_iff)
  then have "stol (digits_of 10 n) = None" "stol ''-'' = None"
    using digits_of_facts [of 10 n, THEN conjunct1]
    by (simp_all add: stol_def digits_not_minus Let_def)
  then have "parse_doc stod (digits_of 10 n) = Threw" "parse_doc stod ''-'' = Threw"
    using parse_number_text [of "digits_of 10 n" c cs False "[]" 0 stod 0]
      parse_number_text [of "''-''" "CHR ''-''" "[]" False "[]" 0 stod 0]
      number_end_digits [OF digits_all, of n] number_end_digits [of "[]"] c
    by (auto intro!: parse_docI)
  then show ?thesis
    by (simp add: deserializeJson_def c(1))
qed

theorem ajson_number_throws_witness:
  "deserializeJson (\<lambda>_. None :: nat option) JNull (Some (digits_of 10 (2 ^ 64))) = Threw"
  by (rule ajson_number_throws [THEN conjunct1]) simp

text \<open>
  Keys are not escaped. An object with one member whose key has a quote followed by a character
  that is neither white space nor a colon is serialized as a text that deserializing rejects.
\<close>

theorem ajson_quote_in_key:
  assumes "plain a" "\<not> is_ws c" "c \<noteq> CHR '':''" 
  shows "deserializeJson stod doc (Some (snd (serializeJson ff (JObject [(a @ CHR 0x22 # c # b, v)])))) =
    Parsed (InvalidInput, doc)"
proof -
  let ?q = "c # b @ CHR 0x22 # CHR '':'' # serializeNode ff v @ ''}''"
  have "parseString (CHR 0x22 # a @ CHR 0x22 # ?q) = Parsed (a, ?q)"
    using string_chars_plain [OF assms(1), of "[]" ?q] by (simp add: parseString_def)
  then have "parseMembers stod (Suc 0) 0 [] (CHR 0x22 # a @ CHR 0x22 # ?q) = Null"
    using assms(2,3) by (simp add: parseMembers.simps no_ws_start)
  then have "parseValue stod (Suc (Suc 0)) 0 (serializeNode ff (JObject [(a @ CHR 0x22 # c # b, v)])) = Null"
    by (simp add: parseValue_at no_ws_start)
  from parse_docI [OF this] show ?thesis
    by (simp add: deserializeJson_def serializeJson_def Let_def)
qed

theorem ajson_quote_in_key_witness:
  "deserializeJson (\<lambda>_. None :: nat option) JNull (Some (snd (serializeJson (\<lambda>_. ''0'')
     (JObject [(''a'' @ CHR 0x22 # CHR ''b'' # [], JInt 1)])))) = Parsed (InvalidInput, JNull)"
  by (rule ajson_quote_in_key) (simp_all add: plain_def is_ws_def)

text \<open>A float that prints without a fraction, as \<open>operator<<\<close> does for 1.0, comes back as an integer.\<close>

lemma ajson_integral_float:
  assumes "ff x = to_string i" "- (2 ^ 63) \<le> i" "i < 2 ^ 63"
  shows "deserializeJson stod doc (Some (snd (serializeJson ff (JFloat x)))) = Parsed (DeOk, JInt i)"
proof -
  obtain c cs where c: "to_string i = c # cs" "c = CHR ''-'' \<or> is_digit c"
    using to_string_start by blast
  have "parse_doc stod (to_string i) = Parsed (JInt i, [])"
    using parse_number_text [OF c number_end_int, of "[]" 0 stod 0] stol_to_string [OF assms(2,3)]
    by (intro parse_docI [of stod "Suc 0"]) auto
  then show ?thesis
    by (simp add: deserializeJson_def serializeJson_def Let_def assms(1) c(1))
qed

text \<open>The copy into a buffer keeps within it and is a prefix of the text, closed by a zero.\<close>

lemma serializeJson_buf_fits:
  assumes "buf \<noteq> []"
  obtains n buf' where "serializeJson_buf ff doc buf = Some (n, buf')" "length buf' = length buf"
    "n = min (length (serializeNode ff doc)) (length buf - 1)"
    "take n buf' = take n (serializeNode ff doc)" "buf' ! n = CHR 0x00"
proof
  let ?s = "serializeNode ff doc" and ?n = "min (length (serializeNode ff doc)) (length buf - 1)"
  have n: "?n + 1 \<le> length buf" "length (take ?n ?s) = ?n"
    using assms by (cases buf) auto
  show "serializeJson_buf ff doc buf = Some (?n, blit buf 0 (take ?n ?s @ [CHR 0x00]))"
    using assms n(1) by (simp add: serializeJson_buf_def serializeJson_def Let_def not_less)
  show "length (blit buf 0 (take ?n ?s @ [CHR 0x00])) = length buf"
    using n by (simp del: length_take)
  show "take ?n (blit buf 0 (take ?n ?s @ [CHR 0x00])) = take ?n ?s"
    "blit buf 0 (take ?n ?s @ [CHR 0x00]) ! ?n = CHR 0x00"
    using n by (simp_all add: blit_def nth_append del: length_take)
qed simp

lemma serializeJson_buf_empty: "serializeJson_buf ff doc [] = None"
  by (simp add: serializeJson_buf_def serializeJson_def Let_def)

end
