(* ===== verification/Json_Document.thy ===== *)
theory Json_Document
  imports Json_Text
begin

text \<open>
  The handles of \<open>src/include/ArduinoJson.h\<close>: a \<open>JsonVariant\<close>, \<open>JsonObject\<close> or \<open>JsonArray\<close> holds a shared
  pointer to a node, and several handles to parts of one document are alive at the same time. Nodes
  are in a store, a pointer is the index of a node. The lemmas relate the store to a document, a
  tree of nodes: every operation through any handle is the corresponding change of the tree, at the
  place of the handle and nowhere else.
\<close>

section \<open>Nodes and handles\<close>

datatype jtype = TNull | TBool | TInt | TFloat | TString | TArray | TObject

text \<open>A node keeps the value of every type; \<open>jfType\<close> says which one counts. \<open>iVal\<close> is a \<open>long\<close>.\<close>

record 'f jfields =
  jfType :: jtype
  jfBool :: bool
  jfInt :: "64 word"
  jfFloat :: 'f
  jfString :: string

record 'f jnode =
  jnFields :: "'f jfields"
  jnArr :: "nat list"
  jnObj :: "(string \<times> nat) list"

type_synonym 'f jstore = "'f jnode list"

definition fields_of_type :: "jtype \<Rightarrow> 'f::zero jfields" where
  "fields_of_type ty = \<lparr>jfType = ty, jfBool = False, jfInt = 0, jfFloat = 0, jfString = ''''\<rparr>"

definition make_node :: "jtype \<Rightarrow> 'f::zero jstore \<Rightarrow> nat \<times> 'f jstore" where
  "make_node ty s = (length s, s @ [\<lparr>jnFields = fields_of_type ty, jnArr = [], jnObj = []\<rparr>])"

definition with_type :: "jtype \<Rightarrow> 'f jnode \<Rightarrow> 'f jnode" where
  "with_type ty n = n\<lparr>jnFields := (jnFields n)\<lparr>jfType := ty\<rparr>\<rparr>"

section \<open>Operations on a variant\<close>

definition variant_new :: "'f::zero jstore \<Rightarrow> nat \<times> 'f jstore" where
  "variant_new s = make_node TNull s"

definition isNull :: "nat \<Rightarrow> 'f jstore \<Rightarrow> bool" where
  "isNull a s \<longleftrightarrow> jfType (jnFields (s ! a)) = TNull"

text \<open>What can be assigned, by the overloads of the assignment operator.\<close>

datatype 'f jscalar =
    ABool bool
  | AInt "32 word"
  | ALong "64 word"
  | AUInt "32 word"
  | AULong "64 word"
  | ADouble 'f
  | AText "string option"

fun set_scalar :: "'f jscalar \<Rightarrow> 'f jfields \<Rightarrow> 'f jfields" where
  "set_scalar (ABool v) n = n\<lparr>jfType := TBool, jfBool := v\<rparr>"
| "set_scalar (AInt v) n = n\<lparr>jfType := TInt, jfInt := scast v\<rparr>"
| "set_scalar (ALong v) n = n\<lparr>jfType := TInt, jfInt := v\<rparr>"
| "set_scalar (AUInt v) n = n\<lparr>jfType := TInt, jfInt := ucast v\<rparr>"
| "set_scalar (AULong v) n = n\<lparr>jfType := TInt, jfInt := v\<rparr>"
| "set_scalar (ADouble v) n = n\<lparr>jfType := TFloat, jfFloat := v\<rparr>"
| "set_scalar (AText v) n = n\<lparr>jfType := TString, jfString := (case v of None \<Rightarrow> '''' | Some t \<Rightarrow> t)\<rparr>"

definition assign :: "nat \<Rightarrow> 'f jscalar \<Rightarrow> 'f jstore \<Rightarrow> 'f jstore" where
  "assign a x s = s[a := (s ! a)\<lparr>jnFields := set_scalar x (jnFields (s ! a))\<rparr>]"

text \<open>
  Assigning a variant to the result of \<open>[]\<close> is the copy assignment of the class: it changes which
  node the temporary on the left refers to, and no node.
\<close>

definition assign_variant :: "nat \<Rightarrow> nat \<Rightarrow> 'f jstore \<Rightarrow> nat \<times> 'f jstore" where
  "assign_variant a b s = (b, s)"

definition at_key :: "nat \<Rightarrow> string \<Rightarrow> 'f::zero jstore \<Rightarrow> nat \<times> 'f jstore" where
  "at_key a key s =
    (let n = with_type TObject (s ! a); s1 = s[a := n]
     in case map_of (jnObj n) key of
          Some h \<Rightarrow> (h, s1)
        | None \<Rightarrow>
            let (h, s2) = make_node TNull s1
            in (h, s2[a := n\<lparr>jnObj := map_put key h (jnObj n)\<rparr>]))"

definition at_index :: "nat \<Rightarrow> int \<Rightarrow> 'f::zero jstore \<Rightarrow> nat \<times> 'f jstore" where
  "at_index a idx s =
    (let n = s ! a
     in if jfType (jnFields n) \<noteq> TArray \<or> idx < 0 \<or> int (length (jnArr n)) \<le> idx then variant_new s
        else (jnArr n ! nat idx, s))"

definition add_elem :: "jtype \<Rightarrow> nat \<Rightarrow> 'f::zero jstore \<Rightarrow> nat \<times> 'f jstore" where
  "add_elem ty a s =
    (let n = with_type TArray (s ! a); (h, s1) = make_node ty s
     in (h, s1[a := n\<lparr>jnArr := jnArr n @ [h]\<rparr>]))"

definition put_member :: "jtype \<Rightarrow> nat \<Rightarrow> string \<Rightarrow> 'f::zero jstore \<Rightarrow> nat \<times> 'f jstore" where
  "put_member ty a key s =
    (let n = with_type TObject (s ! a); (h, s1) = make_node ty s
     in (h, s1[a := n\<lparr>jnObj := map_put key h (jnObj n)\<rparr>]))"

definition variant_add :: "nat \<Rightarrow> 'f::zero jstore \<Rightarrow> nat \<times> 'f jstore" where
  "variant_add a s = add_elem TNull a s"

definition createNestedObject :: "nat \<Rightarrow> string option \<Rightarrow> 'f::zero jstore \<Rightarrow> nat \<times> 'f jstore" where
  "createNestedObject a key s =
    (case key of Some k \<Rightarrow> put_member TObject a k s | None \<Rightarrow> add_elem TObject a s)"

definition createNestedArray :: "nat \<Rightarrow> string option \<Rightarrow> 'f::zero jstore \<Rightarrow> nat \<times> 'f jstore" where
  "createNestedArray a key s =
    (case key of Some k \<Rightarrow> put_member TArray a k s | None \<Rightarrow> add_elem TArray a s)"

text \<open>\<open>JsonArray::add(val)\<close>: a new element, then the assignment.\<close>

definition array_add :: "nat \<Rightarrow> 'f jscalar \<Rightarrow> 'f::zero jstore \<Rightarrow> 'f jstore" where
  "array_add a x s = (let (h, s1) = variant_add a s in assign h x s1)"

definition containsKey :: "nat \<Rightarrow> string \<Rightarrow> 'f jstore \<Rightarrow> bool" where
  "containsKey a key s \<longleftrightarrow>
    jfType (jnFields (s ! a)) = TObject \<and> map_of (jnObj (s ! a)) key \<noteq> None"

definition variant_size :: "nat \<Rightarrow> 'f jstore \<Rightarrow> nat" where
  "variant_size a s =
    (let n = s ! a
     in if jfType (jnFields n) = TArray then length (jnArr n)
        else if jfType (jnFields n) = TObject then length (jnObj n) else 0)"

text \<open>Conversions; \<open>f2i\<close> is the conversion of a \<open>double\<close> to \<open>int\<close>, \<open>i2f\<close> that of a \<open>long\<close> to \<open>double\<close>.\<close>

definition as_int :: "('f \<Rightarrow> 32 word) \<Rightarrow> nat \<Rightarrow> 'f jstore \<Rightarrow> 32 word" where
  "as_int f2i a s =
    (let n = jnFields (s ! a)
     in if jfType n = TInt then ucast (jfInt n)
        else if jfType n = TFloat then f2i (jfFloat n)
        else if jfType n = TBool then (if jfBool n then 1 else 0) else 0)"

definition as_long :: "('f \<Rightarrow> 32 word) \<Rightarrow> nat \<Rightarrow> 'f jstore \<Rightarrow> 64 word" where
  "as_long f2i a s = scast (as_int f2i a s)"

definition as_double :: "(64 word \<Rightarrow> 'f) \<Rightarrow> nat \<Rightarrow> 'f::zero jstore \<Rightarrow> 'f" where
  "as_double i2f a s =
    (let n = jnFields (s ! a)
     in if jfType n = TFloat then jfFloat n
        else if jfType n = TInt then i2f (jfInt n) else 0)"

definition as_bool :: "nat \<Rightarrow> 'f jstore \<Rightarrow> bool" where
  "as_bool a s =
    (let n = jnFields (s ! a)
     in if jfType n = TBool then jfBool n
        else if jfType n = TInt then jfInt n \<noteq> 0 else False)"

definition as_text :: "nat \<Rightarrow> 'f jstore \<Rightarrow> string option" where
  "as_text a s =
    (if jfType (jnFields (s ! a)) = TString then Some (jfString (jnFields (s ! a))) else None)"

text \<open>
  The document itself: \<open>to()\<close> makes its root an empty object, \<open>as()\<close> makes it an object, and
  \<open>clear()\<close> gives it a new root.
\<close>

definition doc_to :: "nat \<Rightarrow> 'f jstore \<Rightarrow> 'f jstore" where
  "doc_to a s = s[a := (with_type TObject (s ! a))\<lparr>jnObj := []\<rparr>]"

definition doc_as :: "nat \<Rightarrow> 'f jstore \<Rightarrow> 'f jstore" where
  "doc_as a s = s[a := with_type TObject (s ! a)]"

definition doc_clear :: "'f::zero jstore \<Rightarrow> nat \<times> 'f jstore" where
  "doc_clear s = make_node TNull s"

section \<open>Documents as trees\<close>

text \<open>A tree of nodes with the index of each, and the nodes it puts into the store.\<close>

datatype 'f jtree =
  JTree (taddr: nat) (tfields: "'f jfields") (tarr: "'f jtree list") (tobj: "(string \<times> 'f jtree) list")

fun troot :: "'f jtree \<Rightarrow> nat \<times> 'f jnode" where
  "troot (JTree a n ks ms) =
    (a, \<lparr>jnFields = n, jnArr = map taddr ks, jnObj = map (\<lambda>(k, t). (k, taddr t)) ms\<rparr>)"

fun tnodes :: "'f jtree \<Rightarrow> (nat \<times> 'f jnode) list" where
  "tnodes (JTree a n ks ms) =
    troot (JTree a n ks ms) # concat (map tnodes ks) @ concat (map (\<lambda>m. tnodes (snd m)) ms)"

definition taddrs :: "'f jtree \<Rightarrow> nat list" where
  "taddrs t = map fst (tnodes t)"

text \<open>The store holds the tree, each node once; every \<open>std::map\<close> of it has its keys in order.\<close>

fun tsorted :: "'f jtree \<Rightarrow> bool" where
  "tsorted (JTree a n ks ms) \<longleftrightarrow> sorted_wrt (<) (map fst ms) \<and>
    (\<forall>k\<in>set ks. tsorted k) \<and> (\<forall>m\<in>set ms. tsorted (snd m))"

definition holds :: "'f jstore \<Rightarrow> 'f jtree \<Rightarrow> bool" where
  "holds s t \<longleftrightarrow> distinct (taddrs t) \<and> tsorted t \<and> (\<forall>(a, n)\<in>set (tnodes t). a < length s \<and> s ! a = n)"

text \<open>The document that a tree shows: of each node the value of its type.\<close>

fun shown :: "'f jtree \<Rightarrow> 'f jdoc" where
  "shown (JTree a n ks ms) =
    (case jfType n of
       TNull \<Rightarrow> JNull
     | TBool \<Rightarrow> JBool (jfBool n)
     | TInt \<Rightarrow> JInt (sint (jfInt n))
     | TFloat \<Rightarrow> JFloat (jfFloat n)
     | TString \<Rightarrow> JString (jfString n)
     | TArray \<Rightarrow> JArray (map shown ks)
     | TObject \<Rightarrow> JObject (map (\<lambda>m. (fst m, shown (snd m))) ms))"

text \<open>Changing the subtree at an index.\<close>

fun tupd :: "nat \<Rightarrow> ('f jtree \<Rightarrow> 'f jtree) \<Rightarrow> 'f jtree \<Rightarrow> 'f jtree" where
  "tupd a g (JTree b n ks ms) =
    (if a = b then g (JTree b n ks ms)
     else JTree b n (map (tupd a g) ks) (map (\<lambda>m. (fst m, tupd a g (snd m))) ms))"

fun tsubs :: "'f jtree \<Rightarrow> 'f jtree list" where
  "tsubs (JTree a n ks ms) = JTree a n ks ms # concat (map tsubs ks) @ concat (map (\<lambda>m. tsubs (snd m)) ms)"

section \<open>Changing one node of a tree\<close>

definition tkids :: "'f jtree list \<Rightarrow> (string \<times> 'f jtree) list \<Rightarrow> (nat \<times> 'f jnode) list" where
  "tkids ks ms = concat (map tnodes ks) @ concat (map (\<lambda>m. tnodes (snd m)) ms)"

lemma tnodes_JTree: "tnodes (JTree a n ks ms) = troot (JTree a n ks ms) # tkids ks ms"
  by (simp add: tkids_def)

declare tnodes.simps [simp del] tsubs.simps [simp del]

lemma map_fst_tkids: "map fst (tkids ks ms) = concat (map taddrs ks) @ concat (map (\<lambda>m. taddrs (snd m)) ms)"
  by (simp add: tkids_def taddrs_def [abs_def] map_concat comp_def)

lemma snd_in_snds [simp]: "snd m \<in> Basic_BNFs.snds m"
  by (cases m) (simp add: prod_set_simps)

lemma taddrs_JTree:
  "taddrs (JTree a n ks ms) = a # concat (map taddrs ks) @ concat (map (\<lambda>m. taddrs (snd m)) ms)"
  using map_fst_tkids [of ks ms] by (simp add: taddrs_def tnodes_JTree)

lemma taddr_in_taddrs: "taddr t \<in> set (taddrs t)"
  by (cases t) (simp add: taddrs_JTree)

lemma tkids_append:
  "tkids (k1 @ k2) ms = concat (map tnodes k1) @ tkids k2 ms"
  "tkids ks (m1 @ m2) = tkids ks m1 @ concat (map (\<lambda>m. tnodes (snd m)) m2)"
  by (simp_all add: tkids_def)

lemma tupd_id: "a \<notin> set (taddrs t) \<Longrightarrow> tupd a g t = t"
proof (induction t)
  case (JTree b n ks ms)
  have "tupd a g k = k" if "k \<in> set ks" for k
    using JTree.IH(1) [OF that] JTree.prems that by (auto simp: taddrs_JTree)
  moreover have "tupd a g (snd m) = snd m" if "m \<in> set ms" for m
    using JTree.IH(2) [OF that, of "snd m"] JTree.prems that
    by (cases m) (auto simp: taddrs_JTree)
  ultimately show ?case
    using JTree.prems by (simp add: taddrs_JTree map_idI)
qed

text \<open>
  The nodes of the tree before and after a change of its subtree at \<open>a\<close>: only those of the subtree
  differ, since the pointers to it stay the same.
\<close>

lemma tupd_split:
  assumes "distinct (taddrs t)" "a \<in> set (taddrs t)"
  shows "\<exists>u xs ys. u \<in> set (tsubs t) \<and> taddr u = a \<and> tnodes t = xs @ tnodes u @ ys \<and>
    (\<forall>g. taddr (g u) = a \<longrightarrow> taddr (tupd a g t) = taddr t \<and> tnodes (tupd a g t) = xs @ tnodes (g u) @ ys)"
  using assms
proof (induction t)
  case (JTree b n ks ms)
  let ?t = "JTree b n ks ms"
  show ?case
  proof (cases "a = b")
    case True
    then show ?thesis
      by (intro exI [of _ ?t] exI [of _ "[]"]) (simp add: tsubs.simps)
  next
    case False
    with JTree.prems(2) consider k where "k \<in> set ks" "a \<in> set (taddrs k)"
      | m where "m \<in> set ms" "a \<in> set (taddrs (snd m))"
      by (auto simp: taddrs_JTree)
    then show ?thesis
    proof cases
      case (1 k)
      then obtain k1 k2 where ks: "ks = k1 @ k # k2"
        by (meson split_list)
      have dist: "distinct (taddrs k)" "\<forall>x\<in>set k1 \<union> set k2. a \<notin> set (taddrs x)"
        "\<forall>m\<in>set ms. a \<notin> set (taddrs (snd m))"
        using JTree.prems(1) 1(2) by (auto simp: taddrs_JTree ks)
      obtain u xs ys where u: "u \<in> set (tsubs k)" "taddr u = a" "tnodes k = xs @ tnodes u @ ys"
        "\<And>g. taddr (g u) = a \<Longrightarrow> taddr (tupd a g k) = taddr k \<and> tnodes (tupd a g k) = xs @ tnodes (g u) @ ys"
        using JTree.IH(1) [OF 1(1) dist(1) 1(2)] by blast
      let ?xs = "troot ?t # concat (map tnodes k1) @ xs" and ?ys = "ys @ concat (map tnodes k2) @ concat (map (\<lambda>m. tnodes (snd m)) ms)"
      have same: "tupd a g ?t = JTree b n (k1 @ tupd a g k # k2) ms" for g
        using False dist(2,3) by (simp add: ks tupd_id map_idI)
      have "u \<in> set (tsubs ?t)" "tnodes ?t = ?xs @ tnodes u @ ?ys"
        using u(1,3) by (auto simp: tsubs.simps ks tnodes_JTree tkids_def)
      moreover have "tnodes (tupd a g ?t) = ?xs @ tnodes (g u) @ ?ys" if "taddr (g u) = a" for g
        using u(4) [of g] that unfolding same by (simp add: tnodes_JTree tkids_def ks)
      moreover have "taddr (tupd a g ?t) = taddr ?t" for g
        using False by simp
      ultimately show ?thesis
        using u(2) by blast
    next
      case (2 m)
      then obtain m1 m2 where ms: "ms = m1 @ m # m2"
        by (meson split_list)
      obtain k c where m: "m = (k, c)" by fastforce
      have dist: "distinct (taddrs c)" "\<forall>x\<in>set m1 \<union> set m2. a \<notin> set (taddrs (snd x))"
        "\<forall>x\<in>set ks. a \<notin> set (taddrs x)"
        using JTree.prems(1) 2(2) by (auto simp: taddrs_JTree ms m)
      have c: "c \<in> Basic_BNFs.snds m" "a \<in> set (taddrs c)"
        using 2(2) snd_in_snds [of m] by (auto simp: m)
      obtain u xs ys where u: "u \<in> set (tsubs c)" "taddr u = a" "tnodes c = xs @ tnodes u @ ys"
        "\<And>g. taddr (g u) = a \<Longrightarrow> taddr (tupd a g c) = taddr c \<and> tnodes (tupd a g c) = xs @ tnodes (g u) @ ys"
        using JTree.IH(2) [OF 2(1) c(1) dist(1) c(2)] by blast
      let ?xs = "troot ?t # concat (map tnodes ks) @ concat (map (\<lambda>m. tnodes (snd m)) m1) @ xs"
      let ?ys = "ys @ concat (map (\<lambda>m. tnodes (snd m)) m2)"
      have same: "tupd a g ?t = JTree b n ks (m1 @ (k, tupd a g c) # m2)" for g
        using False dist(2,3) by (simp add: ms m tupd_id map_idI)
      have "u \<in> set (tsubs ?t)" "tnodes ?t = ?xs @ tnodes u @ ?ys"
        using u(1,3) by (auto simp: tsubs.simps ms m tnodes_JTree tkids_def)
      moreover have "tnodes (tupd a g ?t) = ?xs @ tnodes (g u) @ ?ys" if "taddr (g u) = a" for g
        using u(4) [of g] that unfolding same by (simp add: tnodes_JTree tkids_def ms m)
      moreover have "taddr (tupd a g ?t) = taddr ?t" for g
        using False by simp
      ultimately show ?thesis
        using u(2) by blast
    qed
  qed
qed

lemma tsorted_subs: "tsorted t \<Longrightarrow> u \<in> set (tsubs t) \<Longrightarrow> tsorted u"
proof (induction t)
  case (JTree a n ks ms)
  show ?case
  proof (cases "u = JTree a n ks ms")
    case False
    with JTree.prems(2) consider k where "k \<in> set ks" "u \<in> set (tsubs k)"
      | m where "m \<in> set ms" "u \<in> set (tsubs (snd m))"
      by (auto simp: tsubs.simps)
    then show ?thesis
    proof cases
      case 1
      then show ?thesis using JTree.IH(1) JTree.prems(1) by auto
    next
      case (2 m)
      then have "tsorted (snd m)"
        using JTree.prems(1) by auto
      then show ?thesis
        using JTree.IH(2) [OF 2(1), of "snd m"] 2(2) by auto
    qed
  qed (use JTree.prems in simp)
qed

lemma tsorted_tupd: "tsorted t \<Longrightarrow> (\<And>u. tsorted u \<Longrightarrow> tsorted (g u)) \<Longrightarrow> tsorted (tupd a g t)"
proof (induction t)
  case (JTree b n ks ms)
  have "tsorted (tupd a g k)" if "k \<in> set ks" for k
    using that JTree.prems by (intro JTree.IH(1)) auto
  moreover have "tsorted (tupd a g (snd m))" if "m \<in> set ms" for m
    using that JTree.prems by (auto intro!: JTree.IH(2) [OF that])
  ultimately show ?case
    using JTree.prems(1) JTree.prems(2) [of "JTree b n ks ms"] by (auto simp: comp_def)
qed

lemma holds_tupd:
  assumes "holds s t" "a \<in> set (taddrs t)"
    and step: "\<And>u. taddr u = a \<Longrightarrow> holds s u \<Longrightarrow>
      taddr (g u) = a \<and> holds s' (g u) \<and> (\<forall>b\<in>set (taddrs (g u)). b \<in> set (taddrs u) \<or> length s \<le> b)"
    and sorted: "\<And>u. tsorted u \<Longrightarrow> tsorted (g u)"
    and frame: "length s \<le> length s'" "\<And>b. b < length s \<Longrightarrow> b \<noteq> a \<Longrightarrow> s' ! b = s ! b"
  shows "holds s' (tupd a g t) \<and> taddr (tupd a g t) = taddr t"
proof -
  obtain u xs ys where u: "u \<in> set (tsubs t)" "taddr u = a" "tnodes t = xs @ tnodes u @ ys"
    "\<And>g. taddr (g u) = a \<Longrightarrow> taddr (tupd a g t) = taddr t \<and> tnodes (tupd a g t) = xs @ tnodes (g u) @ ys"
    using tupd_split [of t a] assms(1,2) by (auto simp: holds_def)
  have hu: "holds s u"
    using assms(1) u(3) tsorted_subs [OF _ u(1)] by (auto simp: holds_def taddrs_def)
  note g = step [OF u(2) hu]
  then have n: "taddr (tupd a g t) = taddr t" "tnodes (tupd a g t) = xs @ tnodes (g u) @ ys"
    using u(4) by auto
  have all: "\<forall>x\<in>set xs \<union> set ys. fst x < length s \<and> s ! fst x = snd x"
    using assms(1) by (auto simp: holds_def u(3) split_beta)
  have apart: "fst ` (set xs \<union> set ys) \<inter> set (taddrs u) = {}" "distinct (map fst xs @ map fst ys)"
    using assms(1) by (auto simp: holds_def taddrs_def u(3))
  have others: "b < length s \<and> b \<notin> set (taddrs u) \<and> s ! b = m" if bm: "(b, m) \<in> set xs \<union> set ys" for b m
  proof -
    have "b \<in> fst ` (set xs \<union> set ys)"
      using bm by (rule rev_image_eqI) simp
    with apart(1) have "b \<notin> set (taddrs u)"
      by blast
    moreover have "b < length s \<and> s ! b = m"
      using bspec [OF all bm] by simp
    ultimately show ?thesis by blast
  qed
  then have "b < length s' \<and> s' ! b = m" if "(b, m) \<in> set xs \<union> set ys" for b m
    using frame that u(2) taddr_in_taddrs [of u] by (metis less_le_trans)
  moreover have "distinct (taddrs (tupd a g t))"
  proof -
    have "b \<notin> set (taddrs (g u))" if "b \<in> fst ` (set xs \<union> set ys)" for b
      using that others g by fastforce
    then show ?thesis
      using g apart(2) by (auto simp: holds_def taddrs_def n(2))
  qed
  ultimately show ?thesis
    using n g tsorted_tupd [OF _ sorted] assms(1) by (auto simp: holds_def)
qed

section \<open>The operations on trees\<close>

definition leaf :: "jtype \<Rightarrow> nat \<Rightarrow> 'f::zero jtree" where
  "leaf ty h = JTree h (fields_of_type ty) [] []"

fun t_assign :: "'f jscalar \<Rightarrow> 'f jtree \<Rightarrow> 'f jtree" where
  "t_assign x (JTree a n ks ms) = JTree a (set_scalar x n) ks ms"

fun t_at_key :: "nat \<Rightarrow> string \<Rightarrow> 'f::zero jtree \<Rightarrow> 'f jtree" where
  "t_at_key h k (JTree a n ks ms) =
    JTree a (n\<lparr>jfType := TObject\<rparr>) ks (if map_of ms k = None then map_put k (leaf TNull h) ms else ms)"

fun t_add :: "jtype \<Rightarrow> nat \<Rightarrow> 'f::zero jtree \<Rightarrow> 'f jtree" where
  "t_add ty h (JTree a n ks ms) = JTree a (n\<lparr>jfType := TArray\<rparr>) (ks @ [leaf ty h]) ms"

fun t_put :: "jtype \<Rightarrow> nat \<Rightarrow> string \<Rightarrow> 'f::zero jtree \<Rightarrow> 'f jtree" where
  "t_put ty h k (JTree a n ks ms) = JTree a (n\<lparr>jfType := TObject\<rparr>) ks (map_put k (leaf ty h) ms)"

lemma map_put_map: "map (\<lambda>(k, t). (k, f t)) (map_put k v ms) = map_put k (f v) (map (\<lambda>(k, t). (k, f t)) ms)"
  by (induction k v ms rule: map_put.induct) auto

lemma map_put_split: "\<exists>p q r. ms = p @ q @ r \<and> map_put k v ms = p @ (k, v) # r"
proof (induction k v ms rule: map_put.induct)
  case (2 k v k' v' ms)
  consider "k = k'" | "k \<noteq> k'" "k < k'" | "k \<noteq> k'" "\<not> k < k'"
    by blast
  then show ?case
  proof cases
    case 1
    then have "(k', v') # ms = [] @ [(k', v')] @ ms \<and> map_put k v ((k', v') # ms) = [] @ (k, v) # ms"
      by simp
    then show ?thesis by blast
  next
    case 2
    then have "(k', v') # ms = [] @ [] @ (k', v') # ms \<and> map_put k v ((k', v') # ms) = [] @ (k, v) # (k', v') # ms"
      by simp
    then show ?thesis by blast
  next
    case 3
    then obtain p q r where "ms = p @ q @ r" "map_put k v ms = p @ (k, v) # r"
      using "2.IH" by blast
    with 3 show ?thesis
      by (intro exI [of _ "(k', v') # p"] exI [of _ q] exI [of _ r]) simp
  qed
qed simp

lemma map_of_map_snd: "map_of (map (\<lambda>(k, t). (k, f t)) ms) k = map_option f (map_of ms k)"
  by (induction ms) auto

text \<open>A tree is held when its root is and its children are, each at its own place.\<close>

definition kids_at :: "'f jstore \<Rightarrow> nat \<Rightarrow> (nat \<times> 'f jnode) list \<Rightarrow> bool" where
  "kids_at s a xs \<longleftrightarrow> distinct (a # map fst xs) \<and> (\<forall>x\<in>set xs. fst x < length s \<and> s ! fst x = snd x)"

lemma holds_JTree:
  "holds s (JTree a n ks ms) \<longleftrightarrow> a < length s \<and> s ! a = snd (troot (JTree a n ks ms)) \<and>
    kids_at s a (tkids ks ms) \<and> tsorted (JTree a n ks ms)"
  by (auto simp: holds_def kids_at_def taddrs_def tnodes_JTree split_beta)

lemma kids_at_root: "kids_at s a xs \<Longrightarrow> kids_at (s[a := n]) a xs"
proof -
  assume k: "kids_at s a xs"
  have "fst x < length s \<and> s[a := n] ! fst x = snd x" if "x \<in> set xs" for x
  proof -
    have "fst x \<noteq> a"
      using k that by (auto simp: kids_at_def rev_image_eqI)
    then show ?thesis
      using k that by (simp add: kids_at_def)
  qed
  then show ?thesis
    using k by (simp add: kids_at_def)
qed

lemma kids_at_grow:
  assumes "kids_at s a (p @ q @ r)" "a < length s"
  shows "kids_at (s @ [n]) a (p @ (length s, n) # r)"
proof -
  have old: "\<forall>x\<in>set p \<union> set r. fst x < length s \<and> (s @ [n]) ! fst x = snd x"
    using assms(1) by (auto simp: kids_at_def nth_append)
  have fresh: "length s \<notin> fst ` (set p \<union> set r)"
  proof
    assume "length s \<in> fst ` (set p \<union> set r)"
    then obtain x where "x \<in> set p \<union> set r" "fst x = length s"
      by (metis imageE)
    with bspec [OF old this(1)] show False by simp
  qed
  have "distinct (a # map fst p @ map fst r)"
    using assms(1) by (auto simp: kids_at_def)
  with fresh assms(2) have "distinct (a # map fst (p @ (length s, n) # r))"
    by auto
  moreover have "fst x < length (s @ [n]) \<and> (s @ [n]) ! fst x = snd x"
    if "x \<in> set (p @ (length s, n) # r)" for x
  proof (cases "x = (length s, n)")
    case False
    with that have "x \<in> set p \<union> set r" by auto
    from bspec [OF old this] show ?thesis by auto
  qed simp
  ultimately show ?thesis
    by (simp only: kids_at_def) blast
qed

lemma tnodes_leaf: "tnodes (leaf ty h) = [(h, \<lparr>jnFields = fields_of_type ty, jnArr = [], jnObj = []\<rparr>)]"
  by (simp add: leaf_def tnodes_JTree tkids_def)

lemma kids_at_elem:
  "kids_at s a (tkids ks ms) \<Longrightarrow> a < length s \<Longrightarrow>
   kids_at (snd (make_node ty s)) a (tkids (ks @ [leaf ty (length s)]) ms)"
  using kids_at_grow [of s a "concat (map tnodes ks)" "[]"]
  by (simp add: tkids_def make_node_def tnodes_leaf)

lemma kids_at_member:
  assumes "kids_at s a (tkids ks ms)" "a < length s"
  shows "kids_at (snd (make_node ty s)) a (tkids ks (map_put k (leaf ty (length s)) ms))"
proof -
  let ?f = "\<lambda>ms. concat (map (\<lambda>m. tnodes (snd m)) ms)"
  obtain p q r where ms: "ms = p @ q @ r" "map_put k (leaf ty (length s)) ms = p @ (k, leaf ty (length s)) # r"
    using map_put_split [of ms k "leaf ty (length s)"] by blast
  have "kids_at s a ((concat (map tnodes ks) @ ?f p) @ ?f q @ ?f r)"
    using assms(1) by (simp add: tkids_def ms(1))
  from kids_at_grow [OF this assms(2)] show ?thesis
    unfolding ms(2) by (simp add: tkids_def make_node_def tnodes_leaf)
qed

lemma tsorted_leaf [simp]: "tsorted (leaf ty h)" "taddr (leaf ty h) = h"
  by (simp_all add: leaf_def)

lemma tsorted_map_put:
  "\<forall>m\<in>set ms. tsorted (snd m) \<Longrightarrow> \<forall>m\<in>set (map_put k (leaf ty h) ms). tsorted (snd m)"
  using set_map_put [of k "leaf ty h" ms] by fastforce

lemma assign_keeps: "tsorted (t_assign x u) = tsorted u" "taddrs (t_assign x u) = taddrs u"
  by (cases u; simp add: taddrs_JTree)+

lemma tsorted_ops:
  "tsorted u \<Longrightarrow> tsorted (t_at_key h k u)"
  "tsorted u \<Longrightarrow> tsorted (t_add ty h u)" "tsorted u \<Longrightarrow> tsorted (t_put ty h k u)"
proof -
  obtain a n ks ms where u: "u = JTree a n ks ms"
    by (cases u)
  have put: "\<forall>m\<in>set (map_put k (leaf ty h) ms). tsorted (snd m)" if "tsorted u" for ty
    by (rule tsorted_map_put) (use that u in simp)
  show "tsorted u \<Longrightarrow> tsorted (t_add ty h u)"
    by (auto simp: u)
  show "tsorted u \<Longrightarrow> tsorted (t_at_key h k u)"
    using put [of TNull] by (simp add: u sorted_map_put)
  show "tsorted u \<Longrightarrow> tsorted (t_put ty h k u)"
    using put [of ty] by (simp add: u sorted_map_put)
qed

lemma taddrs_map_put:
  "(\<Union>m\<in>set (map_put k (leaf ty h) ms). set (taddrs (snd m))) \<subseteq> insert h (\<Union>m\<in>set ms. set (taddrs (snd m)))"
  by (rule order_trans [OF UN_mono [OF set_map_put subset_refl]]) (simp add: leaf_def taddrs_JTree)

lemma taddrs_ops:
  "set (taddrs (t_at_key h k u)) \<subseteq> insert h (set (taddrs u))"
  "set (taddrs (t_add ty h u)) \<subseteq> insert h (set (taddrs u))"
  "set (taddrs (t_put ty h k u)) \<subseteq> insert h (set (taddrs u))"
  using taddrs_map_put [of k TNull h "tobj u"] taddrs_map_put [of k ty h "tobj u"]
  by (cases u; auto simp: taddrs_JTree leaf_def)+

section \<open>Operations on the store are operations on the tree\<close>

text \<open>
  \<open>stays s a s'\<close>: \<open>s'\<close> is a later store, in which of the nodes of \<open>s\<close> only \<open>a\<close> may have changed. A
  node outside the tree can be changed without an effect on it.
\<close>

definition stays :: "'f jstore \<Rightarrow> nat \<Rightarrow> 'f jstore \<Rightarrow> bool" where
  "stays s a s' \<longleftrightarrow> length s \<le> length s' \<and> (\<forall>b<length s. b \<noteq> a \<longrightarrow> s' ! b = s ! b)"

lemma holds_stays: "holds s t \<Longrightarrow> stays s a s' \<Longrightarrow> a \<notin> set (taddrs t) \<Longrightarrow> holds s' t"
proof -
  assume *: "holds s t" "stays s a s'" "a \<notin> set (taddrs t)"
  have "fst x < length s' \<and> s' ! fst x = snd x" if x: "x \<in> set (tnodes t)" for x
  proof -
    have "fst x \<noteq> a"
      using *(3) x by (auto simp: taddrs_def rev_image_eqI)
    moreover have "fst x < length s" "s ! fst x = snd x"
      using *(1) x by (auto simp: holds_def)
    ultimately show ?thesis
      using *(2) by (auto simp: stays_def)
  qed
  then show ?thesis
    using *(1) by (auto simp: holds_def)
qed

lemma holds_change:
  assumes "holds s t" "stays s a s'"
    and "\<And>n ks ms. holds s (JTree a n ks ms) \<Longrightarrow> holds s' (g (JTree a n ks ms)) \<and> taddr (g (JTree a n ks ms)) = a"
    and "\<And>u. tsorted u \<Longrightarrow> tsorted (g u)" "\<And>u. set (taddrs (g u)) \<subseteq> insert (length s) (set (taddrs u))"
  shows "holds s' (tupd a g t) \<and> taddr (tupd a g t) = taddr t"
proof (cases "a \<in> set (taddrs t)")
  case True
  show ?thesis
  proof (rule holds_tupd [OF assms(1) True])
    fix u assume "taddr u = a" "holds s u"
    then show "taddr (g u) = a \<and> holds s' (g u) \<and> (\<forall>b\<in>set (taddrs (g u)). b \<in> set (taddrs u) \<or> length s \<le> b)"
      using assms(3) [of "tfields u" "tarr u" "tobj u"] assms(5) [of u] by (cases u) auto
  qed (use assms(2,4) in \<open>auto simp: stays_def\<close>)
qed (use tupd_id holds_stays assms(1,2) in metis)

lemma stays_assign: "stays s a (assign a x s)"
  by (simp add: stays_def assign_def)

lemma holds_assign:
  assumes "holds s t"
  shows "holds (assign a x s) (tupd a (t_assign x) t) \<and> taddr (tupd a (t_assign x) t) = taddr t"
proof (rule holds_change [OF assms stays_assign])
  fix n ks ms assume "holds s (JTree a n ks ms)"
  then show "holds (assign a x s) (t_assign x (JTree a n ks ms)) \<and> taddr (t_assign x (JTree a n ks ms)) = a"
    by (simp add: holds_JTree assign_def kids_at_root)
qed (auto simp: assign_keeps)

lemma stays_add_elem: "stays s a (snd (add_elem ty a s))"
  by (auto simp: stays_def add_elem_def make_node_def Let_def nth_append nth_list_update)

lemma holds_add_elem:
  assumes "holds s t" "a < length s"
  shows "holds (snd (add_elem ty a s)) (tupd a (t_add ty (length s)) t) \<and>
    taddr (tupd a (t_add ty (length s)) t) = taddr t"
proof (rule holds_change [OF assms(1) stays_add_elem])
  fix n ks ms assume *: "holds s (JTree a n ks ms)"
  then have "kids_at (snd (make_node ty s)) a (tkids (ks @ [leaf ty (length s)]) ms)"
    by (intro kids_at_elem) (simp_all add: holds_JTree)
  from kids_at_root [OF this] * show "holds (snd (add_elem ty a s)) (t_add ty (length s) (JTree a n ks ms)) \<and>
      taddr (t_add ty (length s) (JTree a n ks ms)) = a"
    by (simp add: holds_JTree add_elem_def make_node_def Let_def with_type_def)
qed (rule tsorted_ops(2) taddrs_ops(2); assumption?)+

lemma stays_put_member: "stays s a (snd (put_member ty a k s))"
  by (auto simp: stays_def put_member_def make_node_def Let_def nth_append nth_list_update)

lemma holds_put_member:
  assumes "holds s t" "a < length s"
  shows "holds (snd (put_member ty a k s)) (tupd a (t_put ty (length s) k) t) \<and>
    taddr (tupd a (t_put ty (length s) k) t) = taddr t"
proof (rule holds_change [OF assms(1) stays_put_member])
  fix n ks ms assume *: "holds s (JTree a n ks ms)"
  then have "kids_at (snd (make_node ty s)) a (tkids ks (map_put k (leaf ty (length s)) ms))"
    by (intro kids_at_member) (simp_all add: holds_JTree)
  from kids_at_root [OF this] * tsorted_ops(3) [of "JTree a n ks ms" ty "length s" k]
  show "holds (snd (put_member ty a k s)) (t_put ty (length s) k (JTree a n ks ms)) \<and>
      taddr (t_put ty (length s) k (JTree a n ks ms)) = a"
    by (simp add: holds_JTree put_member_def make_node_def Let_def with_type_def
        map_put_map [of taddr k "leaf ty (length s)" ms, simplified])
qed (rule tsorted_ops(3) taddrs_ops(3); assumption?)+

lemma stays_at_key: "stays s a (snd (at_key a k s))"
  by (auto simp: stays_def at_key_def make_node_def Let_def nth_append nth_list_update split: option.split)

lemma holds_at_key:
  assumes "holds s t" "a < length s"
  shows "holds (snd (at_key a k s)) (tupd a (t_at_key (length s) k) t) \<and>
    taddr (tupd a (t_at_key (length s) k) t) = taddr t"
proof (rule holds_change [OF assms(1) stays_at_key])
  fix n ks ms assume *: "holds s (JTree a n ks ms)"
  let ?r = "t_at_key (length s) k (JTree a n ks ms)"
  have r: "s ! a = \<lparr>jnFields = n, jnArr = map taddr ks, jnObj = map (\<lambda>(k, t). (k, taddr t)) ms\<rparr>"
    "kids_at s a (tkids ks ms)" "tsorted (JTree a n ks ms)"
    using * by (simp_all add: holds_JTree)
  show "holds (snd (at_key a k s)) ?r \<and> taddr ?r = a"
  proof (cases "map_of ms k")
    case None
    have "kids_at (snd (make_node TNull s)) a (tkids ks (map_put k (leaf TNull (length s)) ms))"
      by (rule kids_at_member [OF r(2) assms(2)])
    from kids_at_root [OF this] show ?thesis
      using None r assms(2) tsorted_ops(1) [OF r(3), of "length s" k]
      by (simp add: holds_JTree at_key_def make_node_def Let_def with_type_def map_of_map_snd
          map_put_map [of taddr k "leaf TNull (length s)" ms, simplified] list_update_append1 nth_append)
  next
    case (Some c)
    then show ?thesis
      using r assms(2) kids_at_root [OF r(2)]
      by (simp add: holds_JTree at_key_def Let_def with_type_def map_of_map_snd)
  qed
qed (rule tsorted_ops(1) taddrs_ops(1); assumption?)+

fun t_as :: "'f jtree \<Rightarrow> 'f jtree" where
  "t_as (JTree a n ks ms) = JTree a (n\<lparr>jfType := TObject\<rparr>) ks ms"

fun t_to :: "'f jtree \<Rightarrow> 'f jtree" where
  "t_to (JTree a n ks ms) = JTree a (n\<lparr>jfType := TObject\<rparr>) ks []"

lemma holds_doc_as:
  assumes "holds s t"
  shows "holds (doc_as a s) (tupd a t_as t) \<and> taddr (tupd a t_as t) = taddr t"
proof (rule holds_change [OF assms, of a])
  show "stays s a (doc_as a s)"
    by (simp add: stays_def doc_as_def)
next
  fix n ks ms assume "holds s (JTree a n ks ms)"
  then show "holds (doc_as a s) (t_as (JTree a n ks ms)) \<and> taddr (t_as (JTree a n ks ms)) = a"
    by (simp add: holds_JTree doc_as_def with_type_def kids_at_root)
next
  fix u :: "'a jtree"
  show "tsorted u \<Longrightarrow> tsorted (t_as u)" "set (taddrs (t_as u)) \<subseteq> insert (length s) (set (taddrs u))"
    by (cases u; auto simp: taddrs_JTree)+
qed

lemma holds_doc_to:
  assumes "holds s t"
  shows "holds (doc_to a s) (tupd a t_to t) \<and> taddr (tupd a t_to t) = taddr t"
proof (rule holds_change [OF assms, of a])
  show "stays s a (doc_to a s)"
    by (simp add: stays_def doc_to_def)
next
  fix n ks ms assume *: "holds s (JTree a n ks ms)"
  then have "kids_at s a (tkids ks [])"
    by (auto simp: holds_JTree kids_at_def tkids_def)
  from kids_at_root [OF this] * show "holds (doc_to a s) (t_to (JTree a n ks ms)) \<and> taddr (t_to (JTree a n ks ms)) = a"
    by (simp add: holds_JTree doc_to_def with_type_def)
next
  fix u :: "'a jtree"
  show "tsorted u \<Longrightarrow> tsorted (t_to u)" "set (taddrs (t_to u)) \<subseteq> insert (length s) (set (taddrs u))"
    by (cases u; auto simp: taddrs_JTree)+
qed

text \<open>The calls that change a document, each on one handle, and their effect on a tree.\<close>

datatype 'f jop =
    OpAssign nat "'f jscalar"
  | OpKey nat string
  | OpIndex nat int
  | OpAdd nat
  | OpNestedObject nat "string option"
  | OpNestedArray nat "string option"
  | OpTo nat
  | OpAs nat

fun op_handle :: "'f jop \<Rightarrow> nat" where
  "op_handle (OpAssign a x) = a"
| "op_handle (OpKey a k) = a"
| "op_handle (OpIndex a i) = a"
| "op_handle (OpAdd a) = a"
| "op_handle (OpNestedObject a k) = a"
| "op_handle (OpNestedArray a k) = a"
| "op_handle (OpTo a) = a"
| "op_handle (OpAs a) = a"

fun jstep :: "'f jop \<Rightarrow> 'f::zero jstore \<Rightarrow> nat \<times> 'f jstore" where
  "jstep (OpAssign a x) s = (a, assign a x s)"
| "jstep (OpKey a k) s = at_key a k s"
| "jstep (OpIndex a i) s = at_index a i s"
| "jstep (OpAdd a) s = variant_add a s"
| "jstep (OpNestedObject a k) s = createNestedObject a k s"
| "jstep (OpNestedArray a k) s = createNestedArray a k s"
| "jstep (OpTo a) s = (a, doc_to a s)"
| "jstep (OpAs a) s = (a, doc_as a s)"

text \<open>The effect on the node at the handle; \<open>h\<close> is the index a new node gets.\<close>

fun tstep :: "nat \<Rightarrow> 'f::zero jop \<Rightarrow> 'f jtree \<Rightarrow> 'f jtree" where
  "tstep h (OpAssign a x) = t_assign x"
| "tstep h (OpKey a k) = t_at_key h k"
| "tstep h (OpIndex a i) = id"
| "tstep h (OpAdd a) = t_add TNull h"
| "tstep h (OpNestedObject a k) = (case k of Some k \<Rightarrow> t_put TObject h k | None \<Rightarrow> t_add TObject h)"
| "tstep h (OpNestedArray a k) = (case k of Some k \<Rightarrow> t_put TArray h k | None \<Rightarrow> t_add TArray h)"
| "tstep h (OpTo a) = t_to"
| "tstep h (OpAs a) = t_as"

lemma tupd_ident: "tupd a id t = t"
proof (induction t)
  case (JTree b n ks ms)
  have ks: "map (tupd a id) ks = ks"
    using JTree.IH(1) by (intro map_idI) blast
  have ms: "map (\<lambda>m. (fst m, tupd a id (snd m))) ms = ms"
  proof (rule map_idI)
    fix m assume "m \<in> set ms"
    then show "(fst m, tupd a id (snd m)) = m"
      by (simp add: JTree.IH(2) [OF _ snd_in_snds])
  qed
  show ?case
    unfolding tupd.simps ks ms by simp
qed

lemma holds_longer: "holds s t \<Longrightarrow> holds (s @ xs) t"
  by (rule holds_stays [where a = "length s"]) (auto simp: stays_def nth_append holds_def taddrs_def)

lemma jstep_holds:
  assumes "holds s t" "op_handle op < length s"
  shows "holds (snd (jstep op s)) (tupd (op_handle op) (tstep (length s) op) t) \<and>
    taddr (tupd (op_handle op) (tstep (length s) op) t) = taddr t"
proof (cases op)
  case (OpIndex a i)
  then show ?thesis
    using assms(1) by (auto simp: tupd_ident at_index_def variant_new_def make_node_def Let_def holds_longer)
next
  case (OpAdd a)
  then show ?thesis
    using assms by (simp add: variant_add_def holds_add_elem)
next
  case (OpNestedObject a k)
  then show ?thesis
    using assms by (simp add: createNestedObject_def holds_add_elem holds_put_member split: option.split)
next
  case (OpNestedArray a k)
  then show ?thesis
    using assms by (simp add: createNestedArray_def holds_add_elem holds_put_member split: option.split)
qed (use assms in \<open>simp_all add: holds_assign holds_at_key holds_doc_to holds_doc_as\<close>)

text \<open>Every pointer in the store is that of a node.\<close>

definition pointers :: "'f jnode \<Rightarrow> nat set" where
  "pointers n = set (jnArr n) \<union> snd ` set (jnObj n)"

definition store_ok :: "'f jstore \<Rightarrow> bool" where
  "store_ok s \<longleftrightarrow> (\<forall>n\<in>set s. pointers n \<subseteq> {..<length s})"

lemma store_ok_node: "store_ok s \<Longrightarrow> a < length s \<Longrightarrow> pointers (s ! a) \<subseteq> {..<length s}"
  by (simp add: store_ok_def)

lemma store_ok_upd: "store_ok s \<Longrightarrow> pointers n \<subseteq> {..<length s} \<Longrightarrow> store_ok (s[a := n])"
  using set_update_subset_insert [of s a n] by (fastforce simp: store_ok_def)

lemma store_ok_make: "store_ok s \<Longrightarrow> store_ok (snd (make_node ty s))"
  by (fastforce simp: store_ok_def make_node_def pointers_def)

lemma length_make: "length (snd (make_node ty s)) = Suc (length s)" "fst (make_node ty s) = length s"
  by (simp_all add: make_node_def)

lemma pointers_with [simp]:
  "pointers (with_type ty n) = pointers n" "pointers (n\<lparr>jnFields := f\<rparr>) = pointers n"
  "pointers (n\<lparr>jnArr := jnArr n @ [h]\<rparr>) = insert h (pointers n)"
  "pointers (n\<lparr>jnObj := []\<rparr>) \<subseteq> pointers n"
  by (auto simp: pointers_def with_type_def)

lemma pointers_put: "pointers ((n :: 'f jnode)\<lparr>jnObj := map_put k h (jnObj n)\<rparr>) \<subseteq> insert h (pointers n)"
  using set_map_put [of k h "jnObj n"] by (fastforce simp: pointers_def)

lemma less_Suc_subset: "A \<subseteq> {..<n} \<Longrightarrow> insert n A \<subseteq> {..<Suc n}"
  by auto

lemma store_ok_grow:
  assumes "store_ok s" "pointers n \<subseteq> insert (length s) (pointers (s ! a))" "a < length s"
  shows "store_ok ((snd (make_node ty s))[a := n])"
proof (rule store_ok_upd [OF store_ok_make [OF assms(1)]])
  show "pointers n \<subseteq> {..<length (snd (make_node ty s))}"
    unfolding length_make
    by (rule order_trans [OF assms(2) less_Suc_subset [OF store_ok_node [OF assms(1,3)]]])
qed

lemma store_ok_add_elem:
  "store_ok s \<Longrightarrow> a < length s \<Longrightarrow> store_ok (snd (add_elem ty a s)) \<and> fst (add_elem ty a s) < length (snd (add_elem ty a s))"
  using store_ok_grow [of s "(with_type TArray (s ! a))\<lparr>jnArr := jnArr (with_type TArray (s ! a)) @ [length s]\<rparr>" a ty]
  by (simp add: add_elem_def Let_def split_beta length_make)

lemma store_ok_put_member:
  "store_ok s \<Longrightarrow> a < length s \<Longrightarrow>
   store_ok (snd (put_member ty a k s)) \<and> fst (put_member ty a k s) < length (snd (put_member ty a k s))"
  using store_ok_grow [of s "(with_type TObject (s ! a))\<lparr>jnObj := map_put k (length s) (jnObj (with_type TObject (s ! a)))\<rparr>" a ty]
    pointers_put [where n = "with_type TObject (s ! a)" and k = k and h = "length s"]
  by (simp add: put_member_def Let_def split_beta length_make)

lemma store_ok_at_key:
  assumes "store_ok s" "a < length s"
  shows "store_ok (snd (at_key a k s)) \<and> fst (at_key a k s) < length (snd (at_key a k s))"
proof -
  let ?n = "with_type TObject (s ! a)" and ?s1 = "s[a := with_type TObject (s ! a)]"
  have s1: "store_ok ?s1"
    using store_ok_node [OF assms] by (intro store_ok_upd [OF assms(1)]) simp
  show ?thesis
  proof (cases "map_of (jnObj ?n) k")
    case None
    have "store_ok ((snd (make_node TNull ?s1))[a := ?n\<lparr>jnObj := map_put k (length s) (jnObj ?n)\<rparr>])"
      by (rule store_ok_grow [OF s1]) (use pointers_put [where n = ?n and k = k and h = "length s"] assms(2) in simp_all)
    then show ?thesis
      using None by (simp add: at_key_def Let_def split_beta length_make)
  next
    case (Some h)
    then have "h \<in> pointers ?n"
      by (force simp: pointers_def dest: map_of_SomeD)
    then have "h < length s"
      using store_ok_node [OF assms] by auto
    then show ?thesis
      using Some s1 by (simp add: at_key_def)
  qed
qed

lemma store_ok_at_index:
  assumes "store_ok s" "a < length s"
  shows "store_ok (snd (at_index a i s)) \<and> fst (at_index a i s) < length (snd (at_index a i s))"
proof (cases "jfType (jnFields (s ! a)) \<noteq> TArray \<or> i < 0 \<or> int (length (jnArr (s ! a))) \<le> i")
  case True
  then show ?thesis
    using store_ok_make [OF assms(1)] by (auto simp: at_index_def variant_new_def Let_def length_make)
next
  case False
  then have "jnArr (s ! a) ! nat i \<in> set (jnArr (s ! a))"
    by (intro nth_mem) auto
  then have "jnArr (s ! a) ! nat i \<in> pointers (s ! a)"
    by (simp add: pointers_def)
  with store_ok_node [OF assms] False assms(1) show ?thesis
    by (auto simp: at_index_def Let_def)
qed

lemma jstep_store_ok:
  assumes "store_ok s" "op_handle op < length s"
  shows "store_ok (snd (jstep op s)) \<and> fst (jstep op s) < length (snd (jstep op s))"
proof -
  let ?a = "op_handle op"
  note old = store_ok_node [OF assms]
  have upd: "store_ok (s[?a := n])" if "pointers n \<subseteq> pointers (s ! ?a)" for n
    using old that by (intro store_ok_upd [OF assms(1)]) auto
  have "pointers ((with_type TObject (s ! ?a))\<lparr>jnObj := []\<rparr>) \<subseteq> pointers (s ! ?a)"
    using pointers_with(4) [of "with_type TObject (s ! ?a)"] by simp
  then show ?thesis
    using assms upd
    by (cases op) (simp_all add: assign_def doc_to_def doc_as_def variant_add_def createNestedObject_def
        createNestedArray_def store_ok_at_key store_ok_at_index store_ok_add_elem store_ok_put_member
        split: option.split)
qed

section \<open>Paths of keys\<close>

text \<open>\<open>doc[k1][k2]...[kn]\<close> and the assignment to it.\<close>

fun walk :: "nat \<Rightarrow> string list \<Rightarrow> 'f::zero jstore \<Rightarrow> nat \<times> 'f jstore" where
  "walk a [] s = (a, s)"
| "walk a (k # ks) s = (let (h, s1) = at_key a k s in walk h ks s1)"

definition path_set :: "nat \<Rightarrow> string list \<Rightarrow> 'f jscalar \<Rightarrow> 'f::zero jstore \<Rightarrow> 'f jstore" where
  "path_set a ks x s = (let (h, s1) = walk a ks s in assign h x s1)"

definition path_fields :: "nat \<Rightarrow> string list \<Rightarrow> 'f::zero jstore \<Rightarrow> 'f jfields" where
  "path_fields a ks s = (let (h, s1) = walk a ks s in jnFields (s1 ! h))"

fun tsub :: "string list \<Rightarrow> 'f jtree \<Rightarrow> 'f jtree option" where
  "tsub [] t = Some t"
| "tsub (k # ks) t = (case map_of (tobj t) k of None \<Rightarrow> None | Some c \<Rightarrow> tsub ks c)"

text \<open>What stands at a path; a node that is not there yet would be made as null.\<close>

definition tlook :: "string list \<Rightarrow> 'f::zero jtree \<Rightarrow> 'f jfields" where
  "tlook ks t = (case tsub ks t of Some c \<Rightarrow> tfields c | None \<Rightarrow> fields_of_type TNull)"

lemma tsub_append: "tsub (p @ r) t = Option.bind (tsub p t) (tsub r)"
  by (induction p t rule: tsub.induct) (auto split: option.split)

lemma taddrs_child: "map_of ms k = Some c \<Longrightarrow> set (taddrs c) \<subseteq> set (taddrs (JTree a n ks ms))"
  by (force simp: taddrs_JTree dest: map_of_SomeD)

lemma tsub_taddrs: "tsub p t = Some u \<Longrightarrow> set (taddrs u) \<subseteq> set (taddrs t)"
proof (induction p t rule: tsub.induct)
  case (2 k ks t)
  then obtain c where c: "map_of (tobj t) k = Some c" "tsub ks c = Some u"
    by (auto split: option.splits)
  then show ?case
    using "2.IH" taddrs_child [of "tobj t" k c "taddr t" "tfields t" "tarr t"] by auto
qed simp

lemma tsub_tnodes: "tsub p t = Some u \<Longrightarrow> set (tnodes u) \<subseteq> set (tnodes t)"
proof (induction p t rule: tsub.induct)
  case (2 k ks t)
  then obtain c where c: "map_of (tobj t) k = Some c" "tsub ks c = Some u"
    by (auto split: option.splits)
  have "set (tnodes c) \<subseteq> set (tnodes t)"
    using map_of_SomeD [OF c(1)] by (cases t) (force simp: tnodes_JTree tkids_def)
  then show ?case
    using "2.IH" [OF c] by blast
qed simp

text \<open>Different members have different nodes.\<close>

lemma concat_apart:
  "distinct (concat (map f xs)) \<Longrightarrow> x \<in> set xs \<Longrightarrow> y \<in> set xs \<Longrightarrow> x \<noteq> y \<Longrightarrow> set (f x) \<inter> set (f y) = {}"
  by (induction xs) auto

lemma members_apart:
  assumes "distinct (taddrs (JTree b n ks ms))" "map_of ms k = Some c" "map_of ms k' = Some c'" "k \<noteq> k'"
  shows "set (taddrs c) \<inter> set (taddrs c') = {}"
  using concat_apart [of "\<lambda>m. taddrs (snd m)" ms "(k, c)" "(k', c')"] assms
  by (auto simp: taddrs_JTree dest: map_of_SomeD)

lemma child_distinct:
  assumes "distinct (taddrs (JTree b n ks ms))" "map_of ms k = Some c"
  shows "distinct (taddrs c) \<and> b \<notin> set (taddrs c)"
proof -
  have d: "distinct (b # concat (map taddrs ks) @ concat (map (\<lambda>m. taddrs (snd m)) ms))"
    using assms(1) by (simp add: taddrs_JTree)
  have c: "(k, c) \<in> set ms"
    using assms(2) by (rule map_of_SomeD)
  have "distinct (concat (map f xs)) \<Longrightarrow> x \<in> set xs \<Longrightarrow> distinct (f x)" for f :: "string \<times> 'a jtree \<Rightarrow> nat list" and xs x
    by (induction xs) auto
  from this [of "\<lambda>m. taddrs (snd m)" ms, OF _ c] d have "distinct (taddrs c)"
    by simp
  moreover have "b \<notin> set (taddrs c)"
    using d c by auto
  ultimately show ?thesis ..
qed

lemma map_of_map_members: "map_of (map (\<lambda>m. (fst m, f (snd m))) ms) k = map_option f (map_of ms k)"
  by (induction ms) auto

lemma tsub_tupd:
  assumes "distinct (taddrs t)" "tsub p t = Some u" "taddr u = a"
  shows "tsub (p @ r) (tupd a g t) = tsub r (g u)"
  using assms
proof (induction p arbitrary: t)
  case Nil
  then show ?case by (cases t) auto
next
  case (Cons k p)
  obtain b n ks ms where t: "t = JTree b n ks ms" by (cases t)
  with Cons.prems obtain c where c: "map_of ms k = Some c" "tsub p c = Some u"
    by (auto split: option.splits)
  have d: "distinct (taddrs c)" "b \<notin> set (taddrs c)"
    using child_distinct [of b n ks ms k c] Cons.prems(1) c(1) t by auto
  have "a \<in> set (taddrs c)"
    using tsub_taddrs [OF c(2)] taddr_in_taddrs [of u] Cons.prems(3) by auto
  with d(2) have "a \<noteq> b" by auto
  then show ?case
    using Cons.IH [OF d(1) c(2) Cons.prems(3)] c(1) by (simp add: t map_of_map_members)
qed

lemma tsub_tupd_other:
  assumes "distinct (taddrs t)" "tsub p t = Some u" "taddr u = a" "\<not> prefix p r"
  shows "map_option tfields (tsub r (tupd a g t)) = map_option tfields (tsub r t)"
  using assms
proof (induction p arbitrary: t r)
  case Nil
  then show ?case by simp
next
  case (Cons k p)
  obtain b n ks ms where t: "t = JTree b n ks ms" by (cases t)
  with Cons.prems obtain c where c: "map_of ms k = Some c" "tsub p c = Some u"
    by (auto split: option.splits)
  have d: "distinct (taddrs c)" "b \<notin> set (taddrs c)"
    using child_distinct [of b n ks ms k c] Cons.prems(1) c(1) t by auto
  have a: "a \<in> set (taddrs c)"
    using tsub_taddrs [OF c(2)] taddr_in_taddrs [of u] Cons.prems(3) by auto
  with d(2) have ab: "a \<noteq> b" by auto
  show ?case
  proof (cases r)
    case Nil
    then show ?thesis using ab by (simp add: t)
  next
    case (Cons k' r')
    show ?thesis
    proof (cases "k' = k")
      case True
      then have "\<not> prefix p r'"
        using Cons.prems(4) Cons by simp
      then show ?thesis
        using Cons.IH [OF d(1) c(2) Cons.prems(3), of r'] c(1) ab True Cons by (simp add: t map_of_map_members)
    next
      case False
      have "tupd a g c' = c'" if "map_of ms k' = Some c'" for c'
        using members_apart [of b n ks ms k c k' c'] Cons.prems(1) c(1) that False a t
        by (intro tupd_id) auto
      then show ?thesis
        using ab Cons by (simp add: t map_of_map_members split: option.split)
    qed
  qed
qed

lemma map_of_at_key:
  "sorted_wrt (<) (map fst ms) \<Longrightarrow>
   map_of (if map_of ms k = None then map_put k v ms else ms) k' =
   (if k' = k \<and> map_of ms k = None then Some v else map_of ms k')"
  by (auto simp: map_of_map_put)

text \<open>One step of \<open>walk\<close>.\<close>

lemma at_key_path:
  fixes s :: "'f::zero jstore"
  assumes "holds s t" "tsub q t = Some u" "at_key (taddr u) k s = (h, s1)"
  shows "\<exists>t1. holds s1 t1 \<and> taddr t1 = taddr t \<and> (\<exists>c. tsub (q @ [k]) t1 = Some c \<and> taddr c = h) \<and>
    (\<forall>r. tlook r t1 = (if r = q then (tlook r t)\<lparr>jfType := TObject\<rparr> else tlook r t))"
proof -
  obtain a n ks ms where u: "u = JTree a n ks ms" by (cases u)
  let ?g = "t_at_key (length s) k"
  let ?t1 = "tupd a ?g t"
  have dist: "distinct (taddrs t)"
    using assms(1) by (simp add: holds_def)
  have "(a, snd (troot u)) \<in> set (tnodes t)"
    using tsub_tnodes [OF assms(2)] by (auto simp: u tnodes_JTree)
  then have a: "a < length s" "s ! a = snd (troot u)"
    using assms(1) by (auto simp: holds_def)
  have "u \<in> set (tsubs t)"
    using assms(2)
  proof (induction q t rule: tsub.induct)
    case (1 t)
    then show ?case by (cases u) (auto simp: tsubs.simps)
  next
    case (2 k ks t)
    then obtain c where "map_of (tobj t) k = Some c" "u \<in> set (tsubs c)"
      by (auto split: option.splits)
    then show ?case
      by (cases t) (force simp: tsubs.simps dest: map_of_SomeD)
  qed
  then have sorted: "sorted_wrt (<) (map fst ms)"
    using tsorted_subs [of t u] assms(1) by (simp add: holds_def u)
  have s1: "s1 = snd (at_key a k s)" "h = fst (at_key a k s)"
    using assms(3) by (simp_all add: u)
  have h1: "holds s1 ?t1 \<and> taddr ?t1 = taddr t"
    unfolding s1 by (rule holds_at_key [OF assms(1) a(1)])
  have below: "tsub (q @ r) ?t1 = tsub r (?g u)" for r
    by (rule tsub_tupd [OF dist assms(2)]) (simp add: u)
  have "\<exists>c. tsub (q @ [k]) ?t1 = Some c \<and> taddr c = h"
    using below [of "[k]"] a
    by (cases "map_of ms k")
      (auto simp: u s1 map_of_at_key [OF sorted] map_of_map_put [OF sorted] at_key_def with_type_def Let_def
        make_node_def map_of_map_snd)
  moreover have "tlook r ?t1 = (if r = q then (tlook r t)\<lparr>jfType := TObject\<rparr> else tlook r t)" for r
  proof (cases "prefix q r")
    case True
    then obtain w where r: "r = q @ w" by (auto simp: prefix_def)
    show ?thesis
    proof (cases w)
      case Nil
      then show ?thesis
        using below [of "[]"] assms(2) by (simp add: tlook_def r u)
    next
      case (Cons k' w')
      have leaf: "tlook w' (leaf TNull (length s) :: 'f jtree) = fields_of_type TNull"
        by (cases w') (simp_all add: tlook_def leaf_def)
      show ?thesis
        using below [of w] assms(2) leaf
        by (auto simp: tlook_def tsub_append r u Cons map_of_at_key [OF sorted] map_of_map_put [OF sorted]
            split: option.splits)
    qed
  next
    case False
    then have "r \<noteq> q" by auto
    moreover have "map_option tfields (tsub r ?t1) = map_option tfields (tsub r t)"
      by (rule tsub_tupd_other [OF dist assms(2) _ False]) (simp add: u)
    ultimately show ?thesis
      by (auto simp: tlook_def split: option.splits)
  qed
  ultimately show ?thesis
    using h1 by blast
qed

lemma walk_path:
  assumes "holds s t" "tsub q t = Some u" "walk (taddr u) ks s = (h, s1)"
  shows "\<exists>t1. holds s1 t1 \<and> taddr t1 = taddr t \<and> (\<exists>c. tsub (q @ ks) t1 = Some c \<and> taddr c = h) \<and>
    (\<forall>r. tlook r t1 = (if prefix q r \<and> strict_prefix r (q @ ks) then (tlook r t)\<lparr>jfType := TObject\<rparr> else tlook r t))"
  using assms
proof (induction ks arbitrary: q u s t)
  case Nil
  then show ?case
    by (intro exI [of _ t]) (auto simp: strict_prefix_def prefix_order.antisym)
next
  case (Cons k ks)
  obtain h0 s0 where s0: "at_key (taddr u) k s = (h0, s0)" by fastforce
  obtain t0 c0 where t0: "holds s0 t0" "taddr t0 = taddr t" "tsub (q @ [k]) t0 = Some c0" "taddr c0 = h0"
    "\<And>r. tlook r t0 = (if r = q then (tlook r t)\<lparr>jfType := TObject\<rparr> else tlook r t)"
    using at_key_path [OF Cons.prems(1,2) s0] by blast
  have w: "walk (taddr c0) ks s0 = (h, s1)"
    using Cons.prems(3) s0 by (simp add: t0(4))
  obtain t1 c where t1: "holds s1 t1" "taddr t1 = taddr t0" "tsub ((q @ [k]) @ ks) t1 = Some c" "taddr c = h"
    "\<And>r. tlook r t1 = (if prefix (q @ [k]) r \<and> strict_prefix r ((q @ [k]) @ ks)
      then (tlook r t0)\<lparr>jfType := TObject\<rparr> else tlook r t0)"
    using Cons.IH [OF t0(1,3) w] by blast
  have "(prefix q r \<and> strict_prefix r (q @ k # ks)) \<longleftrightarrow>
      r = q \<or> (prefix (q @ [k]) r \<and> strict_prefix r ((q @ [k]) @ ks))" for r
  proof (cases "prefix q r")
    case True
    then obtain w where "r = q @ w" by (auto simp: prefix_def)
    then show ?thesis
      by (cases w) (auto simp: strict_prefix_def)
  qed (auto dest: append_prefixD)
  then have "tlook r t1 = (if prefix q r \<and> strict_prefix r (q @ k # ks) then (tlook r t)\<lparr>jfType := TObject\<rparr>
      else tlook r t)" for r
    unfolding t1(5) t0(5) by (auto simp: strict_prefix_def)
  with t0(2) t1(1-4) show ?case
    by (intro exI [of _ t1]) auto
qed

lemma path_fields_tlook:
  assumes "holds s t"
  shows "path_fields (taddr t) ks s = tlook ks t"
proof -
  obtain h s1 where w: "walk (taddr t) ks s = (h, s1)" by fastforce
  obtain t1 c where t1: "holds s1 t1" "tsub ks t1 = Some c" "taddr c = h" "tlook ks t1 = tlook ks t"
    using walk_path [OF assms, of "[]" t ks h s1] w by (auto simp: strict_prefix_def)
  have "(h, snd (troot c)) \<in> set (tnodes t1)"
    using tsub_tnodes [OF t1(2)] t1(3) by (cases c) (auto simp: tnodes_JTree)
  then have "s1 ! h = snd (troot c)"
    using t1(1) by (auto simp: holds_def)
  then show ?thesis
    using t1(2,4) by (cases c) (simp add: path_fields_def w tlook_def)
qed

lemma path_set_tlook:
  assumes "holds s t"
  shows "\<exists>t'. holds (path_set (taddr t) ks x s) t' \<and> taddr t' = taddr t \<and>
    (\<forall>r. tlook r t' = (if r = ks then set_scalar x (tlook r t)
      else if strict_prefix r ks then (tlook r t)\<lparr>jfType := TObject\<rparr> else tlook r t))"
proof -
  obtain h s1 where w: "walk (taddr t) ks s = (h, s1)" by fastforce
  obtain t1 c where t1: "holds s1 t1" "taddr t1 = taddr t" "tsub ks t1 = Some c" "taddr c = h"
    "\<And>r. tlook r t1 = (if strict_prefix r ks then (tlook r t)\<lparr>jfType := TObject\<rparr> else tlook r t)"
    using walk_path [OF assms, of "[]" t ks h s1] w by auto
  let ?t = "tupd h (t_assign x) t1"
  have dist: "distinct (taddrs t1)"
    using t1(1) by (simp add: holds_def)
  have "tlook r ?t = (if r = ks then set_scalar x (tlook r t1) else tlook r t1)" for r
  proof (cases "prefix ks r")
    case True
    then obtain w where r: "r = ks @ w" by (auto simp: prefix_def)
    then show ?thesis
      using tsub_tupd [OF dist t1(3,4), of w "t_assign x"] t1(3)
      by (cases c; cases w) (auto simp: tlook_def tsub_append split: option.splits)
  next
    case False
    then have "r \<noteq> ks" by auto
    then show ?thesis
      using tsub_tupd_other [OF dist t1(3,4) False, of "t_assign x"]
      by (auto simp: tlook_def split: option.splits)
  qed
  moreover have "holds (assign h x s1) ?t \<and> taddr ?t = taddr t"
    using holds_assign [OF t1(1)] t1(2) by auto
  ultimately show ?thesis
    using t1(5) by (intro exI [of _ ?t]) (auto simp: path_set_def w strict_prefix_def)
qed

lemma holds_new: "holds (snd (variant_new [])) (leaf TNull 0)"
  by (simp add: holds_JTree leaf_def variant_new_def make_node_def kids_at_def tkids_def)

section \<open>Properties\<close>

text \<open>
  C8: handles alias, and only where they should. When the store holds a document, a call through a
  handle to any node, inside the document or not, leaves a store that holds the document changed at
  that node and nowhere else: assignment, access by key and index, new elements and nested
  containers, \<open>to()\<close> and \<open>as()\<close>. All pointers stay valid, the one returned included.
\<close>

theorem ajson_handles_refine:
  assumes "holds s t" "store_ok s" "op_handle op < length s" "jstep op s = (h, s')"
  shows "holds s' (tupd (op_handle op) (tstep (length s) op) t) \<and>
    taddr (tupd (op_handle op) (tstep (length s) op) t) = taddr t \<and> store_ok s' \<and> h < length s'"
  using jstep_holds [OF assms(1,3)] jstep_store_ok [OF assms(2,3)] assms(4) by simp

theorem ajson_handles_refine_witness:
  "holds (snd (jstep (OpKey 0 ''k'') (snd (variant_new []))))
     (tupd 0 (t_at_key 1 ''k'') (leaf TNull 0 :: nat jtree))"
proof -
  have "store_ok (snd (variant_new []) :: nat jstore)"
    by (simp add: variant_new_def make_node_def store_ok_def pointers_def)
  from ajson_handles_refine [OF holds_new this _ prod.collapse [symmetric], of "OpKey 0 ''k''"] show ?thesis
    by (simp add: variant_new_def make_node_def)
qed

text \<open>
  C22: assigning along a path of keys. After \<open>doc[k1]...[kn] = x\<close> the value at the path is \<open>x\<close>, each
  node on the way to it is an object, and every other path reads as before, also one that was not
  there.
\<close>

theorem ajson_path_assign:
  assumes "holds s t" "taddr t = a"
  shows "path_fields a r (path_set a ks x s) =
    (if r = ks then set_scalar x (path_fields a r s)
     else if strict_prefix r ks then (path_fields a r s)\<lparr>jfType := TObject\<rparr>
     else path_fields a r s)"
proof -
  obtain t' where t': "holds (path_set (taddr t) ks x s) t'" "taddr t' = taddr t"
    "\<And>r. tlook r t' = (if r = ks then set_scalar x (tlook r t)
      else if strict_prefix r ks then (tlook r t)\<lparr>jfType := TObject\<rparr> else tlook r t)"
    using path_set_tlook [OF assms(1), of ks x] by blast
  then have "path_fields a r (path_set a ks x s) = tlook r t'"
    using path_fields_tlook [OF t'(1)] assms(2) by simp
  then show ?thesis
    using t'(3) path_fields_tlook [OF assms(1)] assms(2) by simp
qed

theorem ajson_path_assign_witness:
  "path_fields 0 [''a'', ''b''] (path_set 0 [''a'', ''b''] (AInt 7) (snd (variant_new [] :: nat \<times> nat jstore))) =
     set_scalar (AInt 7) (path_fields 0 [''a'', ''b''] (snd (variant_new [])))"
  using ajson_path_assign [OF holds_new, of 0 "[''a'', ''b'']" "[''a'', ''b'']" "AInt 7 :: nat jscalar"] by simp

text \<open>
  A scalar does not replace an object. Assigning a scalar to a node that is an object keeps its
  members; they are there again when the node is next accessed by a key.
\<close>

theorem ajson_members_return:
  assumes "holds s t" "taddr t = a" "k \<noteq> k'"
  shows "path_fields a (p @ [k]) (path_set a (p @ [k']) y (path_set a p x s)) = path_fields a (p @ [k]) s"
proof -
  obtain t' where t': "holds (path_set (taddr t) p x s) t'" "taddr t' = taddr t"
    "\<And>r. tlook r t' = (if r = p then set_scalar x (tlook r t)
      else if strict_prefix r p then (tlook r t)\<lparr>jfType := TObject\<rparr> else tlook r t)"
    using path_set_tlook [OF assms(1), of p x] by blast
  obtain t2 where t2: "holds (path_set (taddr t') (p @ [k']) y (path_set (taddr t) p x s)) t2" "taddr t2 = taddr t'"
    "\<And>r. tlook r t2 = (if r = p @ [k'] then set_scalar y (tlook r t')
      else if strict_prefix r (p @ [k']) then (tlook r t')\<lparr>jfType := TObject\<rparr> else tlook r t')"
    using path_set_tlook [OF t'(1), of "p @ [k']" y] by blast
  have "tlook (p @ [k]) t2 = tlook (p @ [k]) t"
    using assms(3) unfolding t2(3) t'(3) by (auto simp: strict_prefix_def prefix_def)
  then show ?thesis
    using path_fields_tlook [OF t2(1), of "p @ [k]"] path_fields_tlook [OF assms(1), of "p @ [k]"] t2(2) t'(2) assms(2)
    by simp
qed

theorem ajson_members_return_witness:
  "path_fields 0 [''a'', ''x''] (path_set 0 [''a'', ''y''] (AInt 2) (path_set 0 [''a''] (AInt 5)
     (snd (variant_new [] :: nat \<times> nat jstore)))) = path_fields 0 [''a'', ''x''] (snd (variant_new []))"
  using ajson_members_return [OF holds_new, of 0 "''x''" "''y''" "[''a'']" "AInt 2 :: nat jscalar" "AInt 5"] by simp

text \<open>
  Assigning a variant is lost. \<open>doc["k"] = v\<close> with a variant, object or array \<open>v\<close> on the right
  makes the member \<open>k\<close> if it was not there, null, and copies nothing into it.
\<close>

theorem ajson_variant_assignment_lost:
  assumes "holds s t" "taddr t = a" "at_key a k s = (h, s1)" "assign_variant h b s1 = (h', s2)"
  shows "path_fields a [k] s2 = path_fields a [k] s"
proof -
  obtain t1 where t1: "holds s1 t1" "taddr t1 = taddr t"
    "\<And>r. tlook r t1 = (if r = [] then (tlook r t)\<lparr>jfType := TObject\<rparr> else tlook r t)"
    using at_key_path [OF assms(1), of "[]" t k h s1] assms(2,3) by auto
  moreover have "s2 = s1"
    using assms(4) by (simp add: assign_variant_def)
  ultimately show ?thesis
    using path_fields_tlook [OF t1(1), of "[k]"] path_fields_tlook [OF assms(1), of "[k]"] assms(2) by simp
qed

theorem ajson_variant_assignment_lost_witness:
  "path_fields 0 [''k''] (snd (assign_variant (fst (at_key 0 ''k'' (snd (variant_new [] :: nat \<times> nat jstore)))) 5
     (snd (at_key 0 ''k'' (snd (variant_new [])))))) = path_fields 0 [''k''] (snd (variant_new []))"
  by (rule ajson_variant_assignment_lost [OF holds_new]) (simp_all add: prod_eq_iff assign_variant_def)

text \<open>\<open>as<long>()\<close> goes through \<open>int\<close>: it gives back a \<open>long\<close> only when it fits into 32 bits.\<close>

lemma as_long_truncates:
  "a < length s \<Longrightarrow> as_long f2i a (assign a (ALong v) s) = scast (ucast v :: 32 word)"
  by (simp add: as_long_def as_int_def assign_def)

lemma as_long_of_int:
  assumes "a < length s"
  shows "as_long f2i a (assign a (AInt w) s) = scast w"
proof -
  have "ucast (scast w :: 64 word) = w"
    by (auto intro!: bit_word_eqI simp: bit_ucast_iff bit_word_scast_iff)
  with assms show ?thesis
    by (simp add: as_long_def as_int_def assign_def)
qed

end
