(* ===== verification/Mcp23017.thy ===== *)
theory Mcp23017
  imports Interfaces
begin

text \<open>
  The 16 bit port expander of \<open>src/include/MCP23017.h\<close>: registers of one bit per pin. The lemmas
  relate the registers to functions from pins to levels, and the two 8 bit ports to the 16 bit one.
\<close>

unbundle bit_operations_syntax

section \<open>State\<close>

record mcp23017 =
  mcpAddr :: byte
  mcpInitialized :: bool
  iodir :: u16
  mcpGpio :: u16
  pullup :: u16
  gpinten :: u16
  ipol :: u16

definition mcp_reset :: mcp23017 where
  "mcp_reset = \<lparr>mcpAddr = 0x20, mcpInitialized = False, iodir = 0xFFFF, mcpGpio = 0, pullup = 0,
     gpinten = 0, ipol = 0\<rparr>"

section \<open>Operations\<close>

definition mcp_begin :: "mcp23017 \<Rightarrow> byte \<Rightarrow> bool \<times> mcp23017" where
  "mcp_begin m addr = (True, m\<lparr>mcpAddr := addr, mcpInitialized := True\<rparr>)"

text \<open>\<open>r |= (1 << pin)\<close> and \<open>r &= ~(1 << pin)\<close>.\<close>

definition put_bit :: "u16 \<Rightarrow> byte \<Rightarrow> bool \<Rightarrow> u16" where
  "put_bit r pin v =
    (if v then r OR push_bit (unat pin) 1 else r AND NOT (push_bit (unat pin) 1))"

definition mcp_pinMode :: "mcp23017 \<Rightarrow> byte \<Rightarrow> byte \<Rightarrow> mcp23017" where
  "mcp_pinMode m pin mode = (if pin > 15 then m else m\<lparr>iodir := put_bit (iodir m) pin (mode = 1)\<rparr>)"

definition mcp_digitalWrite :: "mcp23017 \<Rightarrow> byte \<Rightarrow> byte \<Rightarrow> mcp23017" where
  "mcp_digitalWrite m pin val =
    (if pin > 15 then m else m\<lparr>mcpGpio := put_bit (mcpGpio m) pin (val \<noteq> 0)\<rparr>)"

definition mcp_digitalRead :: "mcp23017 \<Rightarrow> byte \<Rightarrow> byte" where
  "mcp_digitalRead m pin =
    (if pin > 15 then 0 else ucast (drop_bit (unat pin) (mcpGpio m) AND 1))"

definition mcp_writeGPIOAB :: "mcp23017 \<Rightarrow> u16 \<Rightarrow> mcp23017" where
  "mcp_writeGPIOAB m val = m\<lparr>mcpGpio := val\<rparr>"

definition mcp_readGPIOAB :: "mcp23017 \<Rightarrow> u16" where
  "mcp_readGPIOAB m = mcpGpio m"

definition mcp_writeGPIOA :: "mcp23017 \<Rightarrow> byte \<Rightarrow> mcp23017" where
  "mcp_writeGPIOA m val = m\<lparr>mcpGpio := (mcpGpio m AND 0xFF00) OR ucast val\<rparr>"

definition mcp_writeGPIOB :: "mcp23017 \<Rightarrow> byte \<Rightarrow> mcp23017" where
  "mcp_writeGPIOB m val = m\<lparr>mcpGpio := (mcpGpio m AND 0x00FF) OR push_bit 8 (ucast val)\<rparr>"

definition mcp_readGPIOA :: "mcp23017 \<Rightarrow> byte" where
  "mcp_readGPIOA m = ucast (mcpGpio m AND 0xFF)"

definition mcp_readGPIOB :: "mcp23017 \<Rightarrow> byte" where
  "mcp_readGPIOB m = ucast (drop_bit 8 (mcpGpio m) AND 0xFF)"

definition mcp_setPullup :: "mcp23017 \<Rightarrow> byte \<Rightarrow> bool \<Rightarrow> mcp23017" where
  "mcp_setPullup m pin enabled = (if pin > 15 then m else m\<lparr>pullup := put_bit (pullup m) pin enabled\<rparr>)"

definition mcp_setPullupAB :: "mcp23017 \<Rightarrow> u16 \<Rightarrow> mcp23017" where
  "mcp_setPullupAB m val = m\<lparr>pullup := val\<rparr>"

definition mcp_setInterrupt :: "mcp23017 \<Rightarrow> byte \<Rightarrow> bool \<Rightarrow> mcp23017" where
  "mcp_setInterrupt m pin enabled = (if pin > 15 then m else m\<lparr>gpinten := put_bit (gpinten m) pin enabled\<rparr>)"

definition mcp_setPolarity :: "mcp23017 \<Rightarrow> byte \<Rightarrow> bool \<Rightarrow> mcp23017" where
  "mcp_setPolarity m pin inverted = (if pin > 15 then m else m\<lparr>ipol := put_bit (ipol m) pin inverted\<rparr>)"

definition mcp_test_setPin :: "mcp23017 \<Rightarrow> byte \<Rightarrow> bool \<Rightarrow> mcp23017" where
  "mcp_test_setPin m pin val = (if pin > 15 then m else m\<lparr>mcpGpio := put_bit (mcpGpio m) pin val\<rparr>)"

section \<open>Pins as functions\<close>

lemma bit_put_bit:
  "unat pin < 16 \<Longrightarrow> bit (put_bit r pin v) i = (if i = unat pin then v else bit r i)"
  by (auto simp: put_bit_def bit_simps dest: bit_imp_le_length)

text \<open>The level of each pin, as the readings report it.\<close>

definition level :: "mcp23017 \<Rightarrow> nat \<Rightarrow> bool" where
  "level m i \<longleftrightarrow> bit (mcpGpio m) i"

lemma pin_range: "(pin :: byte) > 15 \<longleftrightarrow> \<not> unat pin < 16"
  by (auto simp: word_less_nat_alt)

lemma read_level: "mcp_digitalRead m pin = (if unat pin < 16 \<and> level m (unat pin) then 1 else 0)"
proof -
  have "ucast (drop_bit (unat pin) (mcpGpio m) AND 1 :: u16) = (if level m (unat pin) then 1 else 0 :: byte)"
    by (auto simp: level_def bit_simps intro!: bit_word_eqI)
  then show ?thesis
    by (simp add: mcp_digitalRead_def pin_range)
qed

lemma mask_FF00: "bit (0xFF00 :: u16) i \<longleftrightarrow> 8 \<le> i \<and> i < 16"
proof -
  have "(0xFF00 :: u16) = push_bit 8 (mask 8)"
    by (simp add: mask_eq_exp_minus_1 push_bit_eq_mult)
  then show ?thesis
    by (simp only: bit_push_bit_iff bit_mask_iff) auto
qed

lemma mask_00FF: "bit (0x00FF :: u16) i \<longleftrightarrow> i < 8"
proof -
  have "(0x00FF :: u16) = mask 8"
    by (simp add: mask_eq_exp_minus_1)
  then show ?thesis
    by (simp only: bit_mask_iff) auto
qed

lemma byte_bit_range: "bit (v :: byte) n \<Longrightarrow> n < 8"
  using bit_imp_le_length [of v n] by simp

lemma u16_bit_range: "bit (w :: u16) n \<Longrightarrow> n < 16"
  using bit_imp_le_length [of w n] by simp

lemma level_ops:
  "level (mcp_writeGPIOA m v) i = (if i < 8 then bit v i else level m i)"
  "level (mcp_writeGPIOB m v) i = (if i < 8 then level m i else bit v (i - 8))"
  "level (mcp_writeGPIOAB m w) i = bit w i"
  "level (mcp_digitalWrite m pin x) i = (if unat pin < 16 \<and> i = unat pin then x \<noteq> 0 else level m i)"
proof -
  have "bit ((mcpGpio m AND 0xFF00) OR ucast v) i = (if i < 8 then bit v i else bit (mcpGpio m) i)"
    by (simp only: bit_or_iff bit_and_iff mask_FF00 bit_unsigned_iff)
      (auto dest: byte_bit_range u16_bit_range)
  then show "level (mcp_writeGPIOA m v) i = (if i < 8 then bit v i else level m i)"
    by (simp add: level_def mcp_writeGPIOA_def)
  have "bit ((mcpGpio m AND 0x00FF) OR push_bit 8 (ucast v)) i = (if i < 8 then bit (mcpGpio m) i else bit v (i - 8))"
    by (simp only: bit_or_iff bit_and_iff mask_00FF bit_push_bit_iff bit_unsigned_iff)
      (auto dest: byte_bit_range u16_bit_range)
  then show "level (mcp_writeGPIOB m v) i = (if i < 8 then level m i else bit v (i - 8))"
    by (simp add: level_def mcp_writeGPIOB_def)
qed (simp_all add: level_def mcp_writeGPIOAB_def mcp_digitalWrite_def pin_range bit_put_bit)

lemma read_ports:
  "bit (mcp_readGPIOA m) i \<longleftrightarrow> i < 8 \<and> level m i"
  "bit (mcp_readGPIOB m) i \<longleftrightarrow> i < 8 \<and> level m (i + 8)"
proof -
  have "bit (ucast (mcpGpio m AND 0xFF) :: byte) i \<longleftrightarrow> i < 8 \<and> bit (mcpGpio m) i"
    by (simp only: bit_unsigned_iff bit_and_iff mask_00FF) auto
  then show "bit (mcp_readGPIOA m) i \<longleftrightarrow> i < 8 \<and> level m i"
    by (simp only: level_def mcp_readGPIOA_def)
  have "bit (ucast (drop_bit 8 (mcpGpio m) AND 0xFF) :: byte) i \<longleftrightarrow> i < 8 \<and> bit (mcpGpio m) (i + 8)"
    by (simp only: bit_unsigned_iff bit_and_iff mask_00FF bit_drop_bit_eq o_def) (auto simp: add.commute)
  then show "bit (mcp_readGPIOB m) i \<longleftrightarrow> i < 8 \<and> level m (i + 8)"
    by (simp only: level_def mcp_readGPIOB_def)
qed

section \<open>Properties\<close>

text \<open>
  The ports are views of one register. After a write of the two ports in either order, or of
  the 16 bits at once, or of a single pin, every reading (pin, port, register) is that of the
  levels written, and every pin not written keeps its level. Pins past 15 are ignored and read 0.
\<close>

theorem mcp_ports_are_views:
  "mcp_readGPIOA (mcp_writeGPIOB (mcp_writeGPIOA m a) b) = a \<and>
   mcp_readGPIOB (mcp_writeGPIOB (mcp_writeGPIOA m a) b) = b \<and>
   mcp_writeGPIOA (mcp_writeGPIOB m b) a = mcp_writeGPIOB (mcp_writeGPIOA m a) b \<and>
   mcp_readGPIOB (mcp_writeGPIOA m a) = mcp_readGPIOB m \<and>
   mcp_readGPIOA (mcp_writeGPIOB m b) = mcp_readGPIOA m \<and>
   mcp_readGPIOAB (mcp_writeGPIOAB m w) = w \<and>
   mcp_digitalRead (mcp_digitalWrite m p x) q =
     (if unat p < 16 \<and> q = p then (if x \<noteq> 0 then 1 else 0) else mcp_digitalRead m q)"
proof -
  have byte: "v = w" if "\<And>i. i < 8 \<Longrightarrow> bit v i = bit w i" for v w :: byte
    using that by (intro bit_word_eqI) simp
  have "mcpGpio (mcp_writeGPIOA (mcp_writeGPIOB m b) a) = mcpGpio (mcp_writeGPIOB (mcp_writeGPIOA m a) b)"
    using level_ops(1,2) unfolding level_def by (intro bit_word_eqI) simp
  then have "mcp_writeGPIOA (mcp_writeGPIOB m b) a = mcp_writeGPIOB (mcp_writeGPIOA m a) b"
    by (simp add: mcp_writeGPIOA_def mcp_writeGPIOB_def)
  moreover have "mcp_digitalRead (mcp_digitalWrite m p x) q =
     (if unat p < 16 \<and> q = p then (if x \<noteq> 0 then 1 else 0) else mcp_digitalRead m q)"
    by (auto simp: read_level level_ops word_unat_eq_iff)
  ultimately show ?thesis
    by (intro conjI byte) (simp_all add: read_ports level_ops mcp_readGPIOAB_def mcp_writeGPIOAB_def)
qed

text \<open>
  Direction and polarity are stored and never used. Writing a pin configured as an input changes
  what it reads, and inverting a pin's polarity does not.
\<close>

theorem mcp_direction_polarity_ignored:
  assumes "unat p < 16"
  shows "mcp_digitalRead (mcp_digitalWrite (mcp_pinMode m p 1) p 1) p = 1 \<and>
    mcp_digitalRead (mcp_setPolarity m p True) q = mcp_digitalRead m q"
  using assms by (simp add: read_level level_ops) (simp add: level_def mcp_setPolarity_def)

theorem mcp_direction_polarity_ignored_witness:
  "mcp_digitalRead (mcp_digitalWrite (mcp_pinMode mcp_reset 3 1) 3 1) 3 = 1"
  using mcp_direction_polarity_ignored [of 3 mcp_reset] by simp

end
