(* ===== verification/Mailbox.thy ===== *)
theory Mailbox
  imports Prelude
begin

text \<open>
  The contract of the mocks that take messages from a test and hand them to the sketch one at a time: what is
  injected is queued behind what waits, and fetching removes the oldest message.
\<close>

section \<open>Interface\<close>

text \<open>A sequence of injections (\<open>Some\<close>) and fetches (\<open>None\<close>) with the messages fetched.\<close>

fun exchange :: "('m \<Rightarrow> 's \<Rightarrow> 's) \<Rightarrow> ('s \<Rightarrow> 'm option \<times> 's) \<Rightarrow> 'm option list \<Rightarrow> 's \<Rightarrow> 'm list \<times> 's" where
  "exchange inject fetch [] s = ([], s)"
| "exchange inject fetch (Some m # ops) s = exchange inject fetch ops (inject m s)"
| "exchange inject fetch (None # ops) s =
    (let (v, t) = fetch s; (vs, u) = exchange inject fetch ops t in (case v of None \<Rightarrow> vs | Some m \<Rightarrow> m # vs, u))"

locale mailbox =
  fixes ready :: "'s \<Rightarrow> bool"
    and pending :: "'s \<Rightarrow> 'm list"
    and inject :: "'m \<Rightarrow> 's \<Rightarrow> 's"
    and fetch :: "'s \<Rightarrow> 'm option \<times> 's"
  assumes inject_pending: "ready s \<Longrightarrow> pending (inject m s) = pending s @ [m]"
    and inject_ready: "ready s \<Longrightarrow> ready (inject m s)"
    and fetch_first: "ready s \<Longrightarrow> pending s = m # ms \<Longrightarrow> \<exists>t. fetch s = (Some m, t) \<and> pending t = ms \<and> ready t"
    and fetch_none: "ready s \<Longrightarrow> pending s = [] \<Longrightarrow> fetch s = (None, s)"
begin

lemma inject_all: "ready s \<Longrightarrow> pending (fold inject ms s) = pending s @ ms \<and> ready (fold inject ms s)"
  by (induction ms arbitrary: s) (simp_all add: inject_pending inject_ready)

text \<open>Nothing is lost, doubled or reordered.\<close>

lemma exchange_conserves:
  assumes "ready s" "exchange inject fetch ops s = (got, t)"
  shows "got @ pending t = pending s @ List.map_filter (\<lambda>op. op) ops" "ready t"
proof -
  have "got @ pending t = pending s @ List.map_filter (\<lambda>op. op) ops \<and> ready t"
    using assms
  proof (induction ops arbitrary: s got)
    case Nil
    then show ?case
      by (simp add: List.map_filter_simps)
  next
    case (Cons op ops)
    show ?case
    proof (cases op)
      case (Some m)
      then show ?thesis
        using Cons.IH [of "inject m s" got] Cons.prems by (simp add: inject_pending inject_ready List.map_filter_simps)
    next
      case None
      show ?thesis
      proof (cases "pending s")
        case Nil
        then show ?thesis
          using Cons.IH [of s got] Cons.prems None by (auto simp: fetch_none List.map_filter_simps split: prod.splits)
      next
        case (Cons m ms)
        then obtain u where u: "fetch s = (Some m, u)" "pending u = ms" "ready u"
          using fetch_first Cons.prems(1) by blast
        obtain vs where "exchange inject fetch ops u = (vs, t)" "got = m # vs"
          using Cons.prems(2) None u(1) by (auto split: prod.splits)
        then show ?thesis
          using Cons.IH [of u vs] u None Cons by (simp add: List.map_filter_simps)
      qed
    qed
  qed
  then show "got @ pending t = pending s @ List.map_filter (\<lambda>op. op) ops" "ready t"
    by simp_all
qed

text \<open>As many fetches as there are messages return all of them.\<close>

lemma exchange_drain:
  assumes "ready s"
  shows "\<exists>t. exchange inject fetch (replicate (length (pending s)) None) s = (pending s, t) \<and> pending t = []"
  using assms
proof (induction "pending s" arbitrary: s)
  case Nil
  then show ?case
    by simp
next
  case (Cons m ms)
  then obtain t where t: "fetch s = (Some m, t)" "pending t = ms" "ready t"
    using fetch_first by metis
  then show ?case
    using Cons(1) [of t] Cons(2) [symmetric] by auto
qed

end

end
