(* ===== verification/Message_Io.thy ===== *)
theory Message_Io
  imports Mailbox Interfaces
begin

unbundle bit_operations_syntax

text \<open>
  Messages in and out: \<open>src/include/MIDI.h\<close>, \<open>IRremote.h\<close>, \<open>MCP2515.h\<close>, the older CAN driver
  \<open>driver_twai.h\<close>, \<open>esp_dmx.h\<close> and \<open>esp_adc_continuous.h\<close>. The receivers keep the contract of
  \<open>Mailbox\<close>; the lemmas further show which handlers of a MIDI interface are called, which
  states the CAN driver can be in, what a DMX packet changes and which samples the converter delivers.
\<close>

section \<open>\<open>MIDI.h\<close>\<close>

datatype midi_type = NoteOff | NoteOn | AfterTouchPoly | ControlChange | ProgramChange | AfterTouchChannel | PitchBend
  | SystemExclusive | Clock | Start | Continue | Stop | ActiveSensing | SystemReset

record midi_msg =
  mmType :: midi_type
  mmChannel :: byte
  mmData1 :: byte
  mmData2 :: byte

text \<open>A handler is a code number; it is called after the interface has changed its state.\<close>

record midi =
  miChannel :: byte
  miBegun :: bool
  miLast :: "midi_msg option"
  miRx :: "midi_msg list"
  miSent :: "midi_msg list"
  miOnNoteOn :: "nat option"
  miOnNoteOff :: "nat option"
  miOnCC :: "nat option"
  miOnPC :: "nat option"
  miOnPitchBend :: "nat option"

definition midi_new :: midi where
  "midi_new = \<lparr>miChannel = 1, miBegun = False, miLast = None, miRx = [], miSent = [], miOnNoteOn = None, miOnNoteOff = None,
    miOnCC = None, miOnPC = None, miOnPitchBend = None\<rparr>"

definition midi_begin :: "byte \<Rightarrow> midi \<Rightarrow> midi" where
  "midi_begin channel s = s\<lparr>miChannel := channel, miBegun := True\<rparr>"

definition midi_send :: "midi_type \<Rightarrow> byte \<Rightarrow> byte \<Rightarrow> byte \<Rightarrow> midi \<Rightarrow> midi" where
  "midi_send t channel d1 d2 s = s\<lparr>miSent := miSent s @ [\<lparr>mmType = t, mmChannel = channel, mmData1 = d1, mmData2 = d2\<rparr>]\<rparr>"

definition sendNoteOn :: "byte \<Rightarrow> byte \<Rightarrow> byte \<Rightarrow> midi \<Rightarrow> midi" where
  "sendNoteOn note velocity channel = midi_send NoteOn channel note velocity"

definition sendNoteOff :: "byte \<Rightarrow> byte \<Rightarrow> byte \<Rightarrow> midi \<Rightarrow> midi" where
  "sendNoteOff note velocity channel = midi_send NoteOff channel note velocity"

definition sendControlChange :: "byte \<Rightarrow> byte \<Rightarrow> byte \<Rightarrow> midi \<Rightarrow> midi" where
  "sendControlChange number v channel = midi_send ControlChange channel number v"

definition sendProgramChange :: "byte \<Rightarrow> byte \<Rightarrow> midi \<Rightarrow> midi" where
  "sendProgramChange number channel = midi_send ProgramChange channel number 0"

definition sendPitchBend :: "int \<Rightarrow> byte \<Rightarrow> midi \<Rightarrow> midi" where
  "sendPitchBend v channel =
    midi_send PitchBend channel (word_of_int (v AND 0x7F)) (word_of_int (drop_bit 7 v AND 0x7F))"

definition midi_call :: "midi \<Rightarrow> midi_msg \<Rightarrow> (nat \<times> byte list) option" where
  "midi_call s m =
    (case mmType m of
       NoteOn \<Rightarrow> map_option (\<lambda>h. (h, [mmChannel m, mmData1 m, mmData2 m])) (miOnNoteOn s)
     | NoteOff \<Rightarrow> map_option (\<lambda>h. (h, [mmChannel m, mmData1 m, mmData2 m])) (miOnNoteOff s)
     | ControlChange \<Rightarrow> map_option (\<lambda>h. (h, [mmChannel m, mmData1 m, mmData2 m])) (miOnCC s)
     | ProgramChange \<Rightarrow> map_option (\<lambda>h. (h, [mmChannel m, mmData1 m])) (miOnPC s)
     | _ \<Rightarrow> None)"

definition midi_read :: "midi \<Rightarrow> bool \<times> (nat \<times> byte list) option \<times> midi" where
  "midi_read s =
    (case miRx s of
       [] \<Rightarrow> (False, None, s)
     | m # ms \<Rightarrow> (True, midi_call s m, s\<lparr>miLast := Some m, miRx := ms\<rparr>))"

definition setHandleNoteOn :: "nat option \<Rightarrow> midi \<Rightarrow> midi" where
  "setHandleNoteOn cb s = s\<lparr>miOnNoteOn := cb\<rparr>"

definition setHandleNoteOff :: "nat option \<Rightarrow> midi \<Rightarrow> midi" where
  "setHandleNoteOff cb s = s\<lparr>miOnNoteOff := cb\<rparr>"

definition setHandleControlChange :: "nat option \<Rightarrow> midi \<Rightarrow> midi" where
  "setHandleControlChange cb s = s\<lparr>miOnCC := cb\<rparr>"

definition setHandleProgramChange :: "nat option \<Rightarrow> midi \<Rightarrow> midi" where
  "setHandleProgramChange cb s = s\<lparr>miOnPC := cb\<rparr>"

definition setHandlePitchBend :: "nat option \<Rightarrow> midi \<Rightarrow> midi" where
  "setHandlePitchBend cb s = s\<lparr>miOnPitchBend := cb\<rparr>"

definition midi_injectMessage :: "midi_msg \<Rightarrow> midi \<Rightarrow> midi" where
  "midi_injectMessage m s = s\<lparr>miRx := miRx s @ [m]\<rparr>"

definition midi_clearSent :: "midi \<Rightarrow> midi" where
  "midi_clearSent s = s\<lparr>miSent := []\<rparr>"

section \<open>\<open>IRremote.h\<close>\<close>

datatype ir_type = UNKNOWN | NEC | SONY | RC5 | RC6 | SAMSUNG | LG | JVC | PANASONIC

record ir_code =
  icType :: ir_type
  icValue :: u32
  icBits :: int

record irrecv =
  irEnabled :: bool
  irQueue :: "ir_code list"

record irsend =
  irActive :: bool
  irLog :: "ir_code list"
  irRaw :: nat

definition irrecv_new :: irrecv where
  "irrecv_new = \<lparr>irEnabled = False, irQueue = []\<rparr>"

definition enableIRIn :: "irrecv \<Rightarrow> irrecv" where
  "enableIRIn s = s\<lparr>irEnabled := True\<rparr>"

text \<open>The result is left as it was when nothing is received.\<close>

definition ir_decode :: "irrecv \<Rightarrow> int \<times> ir_code option \<times> irrecv" where
  "ir_decode s =
    (if \<not> irEnabled s \<or> irQueue s = [] then (0, None, s) else (1, Some (hd (irQueue s)), s\<lparr>irQueue := tl (irQueue s)\<rparr>))"

definition injectCode :: "ir_code \<Rightarrow> irrecv \<Rightarrow> irrecv" where
  "injectCode c s = s\<lparr>irQueue := irQueue s @ [c]\<rparr>"

definition irsend_new :: irsend where
  "irsend_new = \<lparr>irActive = False, irLog = [], irRaw = 0\<rparr>"

definition irsend_begin :: "irsend \<Rightarrow> irsend" where
  "irsend_begin s = s\<lparr>irActive := True\<rparr>"

definition ir_send :: "ir_type \<Rightarrow> u32 \<Rightarrow> int \<Rightarrow> irsend \<Rightarrow> irsend" where
  "ir_send t d nbits s = s\<lparr>irLog := irLog s @ [\<lparr>icType = t, icValue = d, icBits = nbits\<rparr>]\<rparr>"

definition sendRaw :: "irsend \<Rightarrow> irsend" where
  "sendRaw s = s\<lparr>irRaw := irRaw s + 1\<rparr>"

definition ir_clearLog :: "irsend \<Rightarrow> irsend" where
  "ir_clearLog s = s\<lparr>irLog := [], irRaw := 0\<rparr>"

section \<open>\<open>MCP2515.h\<close>\<close>

record can_frame =
  cfId :: u32
  cfDlc :: byte
  cfData :: "byte list"

record mcp2515 =
  mcInitialized :: bool
  mcMode :: int
  mcSpeed :: nat
  mcClock :: nat
  mcTxCount :: int
  mcRxErr :: byte
  mcTxErr :: byte
  mcRx :: "can_frame list"

definition mcp_new :: mcp2515 where
  "mcp_new = \<lparr>mcInitialized = False, mcMode = 0, mcSpeed = 2, mcClock = 0, mcTxCount = 0, mcRxErr = 0, mcTxErr = 0, mcRx = []\<rparr>"

definition mcp_reset :: "mcp2515 \<Rightarrow> int \<times> mcp2515" where
  "mcp_reset s = (0, s\<lparr>mcInitialized := True\<rparr>)"

definition mcp_setBitrate :: "nat \<Rightarrow> nat \<Rightarrow> mcp2515 \<Rightarrow> int \<times> mcp2515" where
  "mcp_setBitrate speed clock s = (0, s\<lparr>mcSpeed := speed, mcClock := clock\<rparr>)"

definition mcp_setMode :: "int \<Rightarrow> mcp2515 \<Rightarrow> int \<times> mcp2515" where
  "mcp_setMode m s = (0, s\<lparr>mcMode := m\<rparr>)"

definition mcp_sendMessage :: "can_frame option \<Rightarrow> mcp2515 \<Rightarrow> int \<times> mcp2515" where
  "mcp_sendMessage frame s =
    (case frame of
       None \<Rightarrow> (1, s)
     | Some f \<Rightarrow>
         if \<not> mcInitialized s then (1, s)
         else
           let s = s\<lparr>mcTxCount := mcTxCount s + 1\<rparr>
           in (0, if mcMode s = 1 then s\<lparr>mcRx := mcRx s @ [f]\<rparr> else s))"

definition mcp_readMessage :: "bool \<Rightarrow> mcp2515 \<Rightarrow> int \<times> can_frame option \<times> mcp2515" where
  "mcp_readMessage given s =
    (if \<not> given \<or> mcRx s = [] then (3, None, s) else (0, Some (hd (mcRx s)), s\<lparr>mcRx := tl (mcRx s)\<rparr>))"

definition mcp_checkReceive :: "mcp2515 \<Rightarrow> bool" where
  "mcp_checkReceive s \<longleftrightarrow> mcRx s \<noteq> []"

definition mcp_getStatus :: "mcp2515 \<Rightarrow> byte" where
  "mcp_getStatus s = (if mcRx s = [] then 0 else 0x01)"

definition mcp_injectFrame :: "can_frame \<Rightarrow> mcp2515 \<Rightarrow> mcp2515" where
  "mcp_injectFrame f s = s\<lparr>mcRx := mcRx s @ [f]\<rparr>"

definition mcp_setErrors :: "byte \<Rightarrow> byte \<Rightarrow> mcp2515 \<Rightarrow> mcp2515" where
  "mcp_setErrors rx tx s = s\<lparr>mcRxErr := rx, mcTxErr := tx\<rparr>"

section \<open>\<open>driver_twai.h\<close>\<close>

datatype can_state = STOPPED | RUNNING | BUS_OFF | RECOVERING

record can_message =
  cmId :: u32
  cmDlc :: byte
  cmData :: "byte list"
  cmFlags :: u32

text \<open>The three configurations are kept as they were given; no operation reads them.\<close>

record 'c can_driver =
  cdState :: can_state
  cdConfig :: 'c
  cdTx :: "can_message list"
  cdRx :: "can_message list"
  cdTxCount :: u32
  cdRxCount :: u32

type_synonym 'c can_result = "esp_err \<times> 'c can_driver"

definition can_new :: "'c \<Rightarrow> 'c can_driver" where
  "can_new c = \<lparr>cdState = STOPPED, cdConfig = c, cdTx = [], cdRx = [], cdTxCount = 0, cdRxCount = 0\<rparr>"

definition can_injectRx :: "can_message \<Rightarrow> 'c can_driver \<Rightarrow> 'c can_driver" where
  "can_injectRx m s = s\<lparr>cdRx := cdRx s @ [m]\<rparr>"

definition can_reset :: "'c can_driver \<Rightarrow> 'c can_driver" where
  "can_reset s = s\<lparr>cdState := STOPPED, cdTx := [], cdRx := [], cdTxCount := 0, cdRxCount := 0\<rparr>"

definition can_install :: "'c \<Rightarrow> 'c can_driver \<Rightarrow> 'c can_result" where
  "can_install c s =
    (if cdState s \<noteq> STOPPED then (ESP_ERR_INVALID_STATE, s)
     else (ESP_OK, s\<lparr>cdConfig := c\<rparr>))"

definition can_uninstall :: "'c can_driver \<Rightarrow> 'c can_result" where
  "can_uninstall s = (if cdState s = RUNNING then (ESP_ERR_INVALID_STATE, s) else (ESP_OK, s\<lparr>cdState := STOPPED\<rparr>))"

definition can_start :: "'c can_driver \<Rightarrow> 'c can_result" where
  "can_start s = (if cdState s = RUNNING then (ESP_ERR_INVALID_STATE, s) else (ESP_OK, s\<lparr>cdState := RUNNING\<rparr>))"

definition can_stop :: "'c can_driver \<Rightarrow> 'c can_result" where
  "can_stop s = (if cdState s \<noteq> RUNNING then (ESP_ERR_INVALID_STATE, s) else (ESP_OK, s\<lparr>cdState := STOPPED\<rparr>))"

definition can_transmit :: "can_message \<Rightarrow> 'c can_driver \<Rightarrow> 'c can_result" where
  "can_transmit m s =
    (if cdState s \<noteq> RUNNING then (ESP_ERR_INVALID_STATE, s)
     else (ESP_OK, s\<lparr>cdTx := cdTx s @ [m], cdTxCount := cdTxCount s + 1\<rparr>))"

definition can_receive :: "'c can_driver \<Rightarrow> esp_err \<times> can_message option \<times> 'c can_driver" where
  "can_receive s =
    (if cdState s \<noteq> RUNNING then (ESP_ERR_INVALID_STATE, None, s)
     else
       case cdRx s of
         [] \<Rightarrow> (ESP_ERR_TIMEOUT, None, s)
       | m # ms \<Rightarrow> (ESP_OK, Some m, s\<lparr>cdRx := ms, cdRxCount := cdRxCount s + 1\<rparr>))"

text \<open>The status has the state and the lengths of the two queues; the error counters are constantly zero.\<close>

definition can_get_status_info :: "'c can_driver \<Rightarrow> esp_err \<times> can_state \<times> u32 \<times> u32" where
  "can_get_status_info s = (ESP_OK, cdState s, of_nat (length (cdTx s)), of_nat (length (cdRx s)))"

definition can_initiate_recovery :: "'c can_driver \<Rightarrow> 'c can_result" where
  "can_initiate_recovery s =
    (if cdState s \<noteq> BUS_OFF then (ESP_ERR_INVALID_STATE, s) else (ESP_OK, s\<lparr>cdState := RECOVERING\<rparr>))"

section \<open>\<open>esp_dmx.h\<close>\<close>

record dmx =
  dxConfig :: "int \<times> int \<times> int \<times> int \<times> int"
  dxInstalled :: bool
  dxIncoming :: bool
  dxData :: "byte list"
  dxSent :: u32

definition dmx_new :: dmx where
  "dmx_new = \<lparr>dxConfig = (1, 17, 16, 21, 0), dxInstalled = False, dxIncoming = False, dxData = replicate 513 0, dxSent = 0\<rparr>"

definition dmx_install :: "int \<times> int \<times> int \<times> int \<times> int \<Rightarrow> dmx \<Rightarrow> int \<times> dmx" where
  "dmx_install cfg s = (0, s\<lparr>dxConfig := cfg, dxInstalled := True\<rparr>)"

definition dmx_uninstall :: "dmx \<Rightarrow> int \<times> dmx" where
  "dmx_uninstall s = (0, s\<lparr>dxInstalled := False\<rparr>)"

definition dmx_write :: "u16 \<Rightarrow> byte \<Rightarrow> dmx \<Rightarrow> dmx" where
  "dmx_write channel v s = (if channel \<ge> 1 \<and> channel \<le> 512 then s\<lparr>dxData := (dxData s)[unat channel := v]\<rparr> else s)"

definition dmx_read :: "u16 \<Rightarrow> dmx \<Rightarrow> byte" where
  "dmx_read channel s = (if channel \<ge> 1 \<and> channel \<le> 512 then dxData s ! unat channel else 0)"

definition dmx_writeAll :: "byte list \<Rightarrow> dmx \<Rightarrow> dmx" where
  "dmx_writeAll d s = (let n = (if length d < 513 then length d else 513) in s\<lparr>dxData := blit (dxData s) 0 (take n d)\<rparr>)"

definition dmx_readAll :: "nat \<Rightarrow> dmx \<Rightarrow> byte list" where
  "dmx_readAll len s = (let n = (if len < 513 then len else 513) in take n (dxData s))"

definition dmx_send :: "dmx \<Rightarrow> int \<times> dmx" where
  "dmx_send s = (if \<not> dxInstalled s then (2, s) else (0, s\<lparr>dxSent := dxSent s + 1\<rparr>))"

definition dmx_receive :: "dmx \<Rightarrow> int \<times> dmx" where
  "dmx_receive s = (if \<not> dxInstalled s then (2, s) else if dxIncoming s then (0, s\<lparr>dxIncoming := False\<rparr>) else (1, s))"

definition dmx_setStartCode :: "byte \<Rightarrow> dmx \<Rightarrow> dmx" where
  "dmx_setStartCode code s = s\<lparr>dxData := (dxData s)[0 := code]\<rparr>"

definition dmx_setChannelData :: "u16 \<Rightarrow> byte \<Rightarrow> dmx \<Rightarrow> dmx" where
  "dmx_setChannelData channel v s = (if channel \<ge> 1 \<and> channel \<le> 512 then s\<lparr>dxData := (dxData s)[unat channel := v]\<rparr> else s)"

definition dmx_injectPacket :: "byte list \<Rightarrow> dmx \<Rightarrow> dmx" where
  "dmx_injectPacket d s =
    (let n = (if length d < 513 then length d else 513) in s\<lparr>dxData := blit (dxData s) 0 (take n d), dxIncoming := True\<rparr>)"

section \<open>\<open>esp_adc_continuous.h\<close>\<close>

record adc_pattern =
  apAtten :: byte
  apChannel :: byte
  apUnit :: byte
  apWidth :: byte

record adc_sample =
  asVal :: u16
  asChannel :: "4 word"
  asUnit :: "1 word"

record adc_cont =
  acInitialized :: bool
  acStarted :: bool
  acFreq :: u32
  acFrame :: u32
  acStore :: u32
  acPatterns :: "adc_pattern list"
  acInjected :: "byte list"

definition adc_reset :: adc_cont where
  "adc_reset = \<lparr>acInitialized = False, acStarted = False, acFreq = 0, acFrame = 0, acStore = 0, acPatterns = [], acInjected = []\<rparr>"

definition adc_new_handle :: "u32 \<Rightarrow> u32 \<Rightarrow> adc_cont \<Rightarrow> esp_err \<times> adc_cont" where
  "adc_new_handle store frame s = (ESP_OK, s\<lparr>acInitialized := True, acFrame := frame, acStore := store\<rparr>)"

definition adc_config :: "u32 \<Rightarrow> adc_pattern list \<Rightarrow> adc_cont \<Rightarrow> esp_err \<times> adc_cont" where
  "adc_config freq ps s = (ESP_OK, s\<lparr>acFreq := freq, acPatterns := ps\<rparr>)"

definition adc_start :: "adc_cont \<Rightarrow> esp_err \<times> adc_cont" where
  "adc_start s = (ESP_OK, s\<lparr>acStarted := True\<rparr>)"

definition adc_stop :: "adc_cont \<Rightarrow> esp_err \<times> adc_cont" where
  "adc_stop s = (ESP_OK, s\<lparr>acStarted := False\<rparr>)"

definition mid_scale :: "adc_pattern \<Rightarrow> adc_sample" where
  "mid_scale p = \<lparr>asVal = 2048, asChannel = ucast (apChannel p), asUnit = ucast (apUnit p)\<rparr>"

text \<open>
  A sample takes four bytes. The samples are kept as records and not as bytes, of which some bits are padding.
  One round over the patterns stops when the next sample does not fit; rounds go on as long as one fits.
\<close>

fun adc_round :: "adc_pattern list \<Rightarrow> nat \<Rightarrow> nat \<Rightarrow> adc_sample list \<Rightarrow> nat \<times> adc_sample list" where
  "adc_round [] to_fill written buf = (written, buf)"
| "adc_round (p # ps) to_fill written buf =
    (if written + 4 > to_fill then (written, buf) else adc_round ps to_fill (written + 4) (buf @ [mid_scale p]))"

partial_function (option) adc_fill :: "adc_pattern list \<Rightarrow> nat \<Rightarrow> nat \<Rightarrow> adc_sample list \<Rightarrow> (nat \<times> adc_sample list) option" where
  "adc_fill ps to_fill written buf =
    (if written + 4 \<le> to_fill \<and> ps \<noteq> [] then let (written, buf) = adc_round ps to_fill written buf in adc_fill ps to_fill written buf
     else Some (written, buf))"

datatype adc_data = Unchanged | Samples "adc_sample list" | Bytes "byte list"

definition adc_read :: "u32 \<Rightarrow> adc_cont \<Rightarrow> (esp_err \<times> adc_data \<times> u32 \<times> adc_cont) option" where
  "adc_read length_max s =
    (if \<not> acStarted s then Some (ESP_ERR_INVALID_STATE, Unchanged, 0, s)
     else if acInjected s = [] then
       map_option (\<lambda>(written, buf). (ESP_OK, Samples buf, of_nat written, s)) (adc_fill (acPatterns s) (unat length_max) 0 [])
     else
       let n = min (unat length_max) (length (acInjected s))
       in Some (ESP_OK, Bytes (take n (acInjected s)), of_nat n, s\<lparr>acInjected := drop n (acInjected s)\<rparr>))"

definition adc_deinit :: "adc_cont \<Rightarrow> esp_err \<times> adc_cont" where
  "adc_deinit s = (ESP_OK, adc_reset)"

definition adc_inject :: "byte list \<Rightarrow> adc_cont \<Rightarrow> adc_cont" where
  "adc_inject d s = s\<lparr>acInjected := acInjected s @ d\<rparr>"

section \<open>Receivers\<close>

definition midi_fetch :: "midi \<Rightarrow> midi_msg option \<times> midi" where
  "midi_fetch s = (let (b, _, t) = midi_read s in (if b then miLast t else None, t))"

definition ir_fetch :: "irrecv \<Rightarrow> ir_code option \<times> irrecv" where
  "ir_fetch s = snd (ir_decode s)"

definition mcp_fetch :: "mcp2515 \<Rightarrow> can_frame option \<times> mcp2515" where
  "mcp_fetch s = snd (mcp_readMessage True s)"

definition can_fetch :: "'c can_driver \<Rightarrow> can_message option \<times> 'c can_driver" where
  "can_fetch s = snd (can_receive s)"

lemmas fetch_defs = midi_fetch_def midi_read_def ir_fetch_def ir_decode_def mcp_fetch_def mcp_readMessage_def can_fetch_def can_receive_def

interpretation midi_in: mailbox "\<lambda>_. True" miRx midi_injectMessage midi_fetch
  by unfold_locales (auto simp: fetch_defs midi_injectMessage_def)

interpretation ir_in: mailbox irEnabled irQueue injectCode ir_fetch
  by unfold_locales (auto simp: fetch_defs injectCode_def)

interpretation mcp_in: mailbox "\<lambda>_. True" mcRx mcp_injectFrame mcp_fetch
  by unfold_locales (auto simp: fetch_defs mcp_injectFrame_def)

text \<open>In loopback mode sending is receiving.\<close>

interpretation mcp_loop: mailbox "\<lambda>s. mcInitialized s \<and> mcMode s = 1" mcRx "\<lambda>f s. snd (mcp_sendMessage (Some f) s)" mcp_fetch
  by unfold_locales (auto simp: fetch_defs mcp_sendMessage_def)

interpretation can_in: mailbox "\<lambda>s. cdState s = RUNNING" cdRx can_injectRx can_fetch
  by unfold_locales (auto simp: fetch_defs can_injectRx_def)

definition on_dmx :: "u16 \<Rightarrow> bool" where
  "on_dmx c \<longleftrightarrow> 1 \<le> c \<and> c \<le> 512"

interpretation dmx_channels: cell_store "\<lambda>s. length (dxData s) = 513" "\<lambda>_. on_dmx" dmx_write "\<lambda>s c. dmx_read c s" "\<lambda>v. v"
  by unfold_locales (auto simp: on_dmx_def dmx_write_def dmx_read_def word_le_nat_alt nth_list_update word_unat_eq_iff)

section \<open>The older CAN driver as a state machine\<close>

datatype can_op = CanInstall | CanUninstall | CanStart | CanStop | CanTransmit can_message | CanReceive | CanRecover
  | CanInject can_message | CanReset

type_synonym 'c can_run = "'c can_driver \<times> can_message list \<times> can_message list"

text \<open>The driver with the messages that arrived and those that were handed out since the last reset.\<close>

fun can_step :: "can_op \<Rightarrow> 'c can_run \<Rightarrow> 'c can_run" where
  "can_step CanInstall (s, ins, outs) = (snd (can_install (cdConfig s) s), ins, outs)"
| "can_step CanUninstall (s, ins, outs) = (snd (can_uninstall s), ins, outs)"
| "can_step CanStart (s, ins, outs) = (snd (can_start s), ins, outs)"
| "can_step CanStop (s, ins, outs) = (snd (can_stop s), ins, outs)"
| "can_step (CanTransmit m) (s, ins, outs) = (snd (can_transmit m s), ins, outs)"
| "can_step CanReceive (s, ins, outs) =
    (let (e, v, t) = can_receive s in (t, ins, case v of None \<Rightarrow> outs | Some m \<Rightarrow> outs @ [m]))"
| "can_step CanRecover (s, ins, outs) = (snd (can_initiate_recovery s), ins, outs)"
| "can_step (CanInject m) (s, ins, outs) = (can_injectRx m s, ins @ [m], outs)"
| "can_step CanReset (s, ins, outs) = (can_reset s, [], [])"

definition can_inv :: "'c can_run \<Rightarrow> bool" where
  "can_inv r = (case r of (s, ins, outs) \<Rightarrow> (cdState s = STOPPED \<or> cdState s = RUNNING) \<and> outs @ cdRx s = ins \<and>
    cdRxCount s = of_nat (length outs) \<and> cdTxCount s = of_nat (length (cdTx s)))"

lemma can_inv_step: "can_inv r \<Longrightarrow> can_inv (can_step op r)"
  by (cases r; cases op) (auto simp: can_inv_def can_install_def can_uninstall_def can_start_def can_stop_def can_transmit_def
      can_receive_def can_initiate_recovery_def can_injectRx_def can_reset_def Let_def split: list.splits)

interpretation can_hist: step_system "\<lambda>r. \<exists>c. r = (can_new c, [], [])" "\<lambda>_. True" can_step can_inv
proof unfold_locales
  fix r :: "'c can_run"
  show "\<exists>c. r = (can_new c, [], []) \<Longrightarrow> can_inv r"
    by (auto simp: can_inv_def can_new_def)
qed (rule can_inv_step)

section \<open>Continuous conversion\<close>

lemma adc_round_result:
  assumes "w \<le> to_fill"
  shows "adc_round ps to_fill w buf =
    (w + 4 * min (length ps) ((to_fill - w) div 4), buf @ map mid_scale (take ((to_fill - w) div 4) ps))"
  using assms
proof (induction ps arbitrary: w buf)
  case (Cons p ps)
  show ?case
  proof (cases "w + 4 \<le> to_fill")
    case True
    then have "(to_fill - w) div 4 = Suc ((to_fill - (w + 4)) div 4)"
      by (simp add: le_div_geq)
    then show ?thesis
      using True Cons.IH [of "w + 4"] by simp
  next
    case False
    then have "(to_fill - w) div 4 = 0"
      by simp
    then show ?thesis
      using False by simp
  qed
qed simp

text \<open>The samples go round the patterns.\<close>

definition round_robin :: "'a list \<Rightarrow> nat \<Rightarrow> 'a list" where
  "round_robin ps n = map (\<lambda>i. ps ! (i mod length ps)) [0..<n]"

lemma round_robin_more:
  assumes "ps \<noteq> []" "length ps \<le> n"
  shows "round_robin ps n = ps @ round_robin ps (n - length ps)"
proof (rule nth_equalityI)
  show "length (round_robin ps n) = length (ps @ round_robin ps (n - length ps))"
    using assms(2) by (simp add: round_robin_def)
  fix i
  assume "i < length (round_robin ps n)"
  then show "round_robin ps n ! i = (ps @ round_robin ps (n - length ps)) ! i"
    using assms by (auto simp: round_robin_def nth_append mod_if)
qed

lemma round_robin_short: "n \<le> length ps \<Longrightarrow> round_robin ps n = take n ps"
  by (rule nth_equalityI) (auto simp: round_robin_def)

lemma adc_fill_result:
  assumes "w \<le> to_fill" "ps \<noteq> []"
  shows "adc_fill ps to_fill w buf =
    Some (w + 4 * ((to_fill - w) div 4), buf @ map mid_scale (round_robin ps ((to_fill - w) div 4)))"
  using assms(1)
proof (induction "to_fill - w" arbitrary: w buf rule: less_induct)
  case less
  let ?n = "(to_fill - w) div 4"
  show ?case
  proof (cases "w + 4 \<le> to_fill")
    case False
    then show ?thesis
      by (subst adc_fill.simps) (simp add: round_robin_def)
  next
    case True
    let ?w = "w + 4 * min (length ps) ?n"
    have step: "adc_fill ps to_fill w buf = adc_fill ps to_fill ?w (buf @ map mid_scale (take ?n ps))"
      by (subst adc_fill.simps) (simp add: True assms(2) adc_round_result [OF less.prems])
    have n: "0 < ?n" "4 * ?n \<le> to_fill - w"
      using True by (simp_all add: div_greater_zero_iff)
    have w: "?w \<le> to_fill" "to_fill - ?w < to_fill - w"
    proof -
      define m where "m = min (length ps) ?n"
      have "0 < m" "4 * m \<le> to_fill - w"
        using n assms(2) by (simp_all add: m_def)
      then show "?w \<le> to_fill" "to_fill - ?w < to_fill - w"
        using less.prems unfolding m_def [symmetric] by linarith+
    qed
    have rest: "(to_fill - ?w) div 4 = ?n - min (length ps) ?n"
    proof -
      have less: "(a - 4 * m) div 4 = a div 4 - m" if "4 * m \<le> a" for a m :: nat
      proof -
        have "a = (a - 4 * m) + m * 4"
          using that by simp
        then have "a div 4 = m + (a - 4 * m) div 4"
          by (metis div_mult_self1 zero_neq_numeral)
        then show ?thesis
          by simp
      qed
      have "4 * min (length ps) ?n \<le> to_fill - w"
        using n(2) by (metis min.cobounded2 mult_le_mono2 order_trans)
      from less [OF this] show ?thesis
        by simp
    qed
    show ?thesis
    proof (cases "length ps \<le> ?n")
      case True
      then show ?thesis
        using less.hyps [OF w(2) w(1)] round_robin_more [OF assms(2) True] step rest by (simp add: min_def algebra_simps)
    next
      case False
      then show ?thesis
        using less.hyps [OF w(2) w(1)] round_robin_short [of ?n ps] step rest by (simp add: min_def round_robin_def [of ps 0])
    qed
  qed
qed

section \<open>Properties\<close>

text \<open>
  Nothing is lost. Whatever the order in which messages arrive and are read, those read followed by those that wait
  are the ones that waited before followed by the ones that arrived: for a MIDI interface, an infrared
  receiver that is enabled, an MCP2515, the same in loopback mode with sending in place of arriving, and a
  CAN driver that is running.
\<close>

theorem receivers_conserve:
  assumes "irEnabled r" "mcInitialized l" "mcMode l = 1" "cdState d = RUNNING"
  shows "(let (got, t) = exchange midi_injectMessage midi_fetch ms m in got @ miRx t = miRx m @ List.map_filter (\<lambda>x. x) ms) \<and>
    (let (got, t) = exchange injectCode ir_fetch rs r in got @ irQueue t = irQueue r @ List.map_filter (\<lambda>x. x) rs) \<and>
    (let (got, t) = exchange mcp_injectFrame mcp_fetch fs c in got @ mcRx t = mcRx c @ List.map_filter (\<lambda>x. x) fs) \<and>
    (let (got, t) = exchange (\<lambda>f s. snd (mcp_sendMessage (Some f) s)) mcp_fetch ls l
     in got @ mcRx t = mcRx l @ List.map_filter (\<lambda>x. x) ls) \<and>
    (let (got, t) = exchange can_injectRx can_fetch ds d in got @ cdRx t = cdRx d @ List.map_filter (\<lambda>x. x) ds)"
  using midi_in.exchange_conserves(1) [OF TrueI, of ms m] ir_in.exchange_conserves(1) [OF assms(1), of rs]
    mcp_in.exchange_conserves(1) [OF TrueI, of fs c] mcp_loop.exchange_conserves(1) [OF conjI [OF assms(2,3)], of ls]
    can_in.exchange_conserves(1) [OF assms(4), of ds]
  by (auto split: prod.splits)

theorem receivers_conserve_witness:
  "let (got, t) = exchange (\<lambda>f s. snd (mcp_sendMessage (Some f) s)) mcp_fetch
      [Some \<lparr>cfId = 1, cfDlc = 0, cfData = []\<rparr>, None, None, Some \<lparr>cfId = 2, cfDlc = 0, cfData = []\<rparr>]
      (snd (mcp_setMode 1 (snd (mcp_reset mcp_new))))
   in got @ mcRx t = [\<lparr>cfId = 1, cfDlc = 0, cfData = []\<rparr>, \<lparr>cfId = 2, cfDlc = 0, cfData = []\<rparr>]"
proof -
  let ?l = "snd (mcp_setMode 1 (snd (mcp_reset mcp_new)))"
  let ?d = "snd (can_start (can_new ()))"
  have h: "irEnabled (enableIRIn irrecv_new)" "mcInitialized ?l" "mcMode ?l = 1" "cdState ?d = RUNNING" "mcRx ?l = []"
    by (simp_all add: enableIRIn_def mcp_setMode_def mcp_reset_def mcp_new_def can_start_def can_new_def)
  show ?thesis
    using receivers_conserve [OF h(1-4), of "[]" midi_new "[]" "[]" mcp_new
      "[Some \<lparr>cfId = 1, cfDlc = 0, cfData = []\<rparr>, None, None, Some \<lparr>cfId = 2, cfDlc = 0, cfData = []\<rparr>]" "[]"] h(5)
    by (simp add: List.map_filter_simps)
qed

fun midi_reads :: "nat \<Rightarrow> midi \<Rightarrow> (nat \<times> byte list) list \<times> midi" where
  "midi_reads 0 s = ([], s)"
| "midi_reads (Suc n) s =
    (let (_, call, t) = midi_read s; (calls, u) = midi_reads n t in (case call of None \<Rightarrow> calls | Some c \<Rightarrow> c # calls, u))"

lemma midi_call_fields [simp]:
  "midi_call (s\<lparr>miLast := l, miRx := ms\<rparr>) = midi_call s" "midi_call (s\<lparr>miOnPitchBend := h\<rparr>) = midi_call s"
  "midi_call (s\<lparr>miChannel := ch, miBegun := b\<rparr>) = midi_call s"
  by (auto simp: midi_call_def fun_eq_iff split: midi_type.splits)

lemma midi_reads_calls:
  "fst (midi_reads (length (miRx s)) s) = List.map_filter (midi_call s) (miRx s) \<and>
    miRx (snd (midi_reads (length (miRx s)) s)) = []"
proof (induction "miRx s" arbitrary: s)
  case Nil
  then show ?case
    by (simp add: List.map_filter_simps)
next
  case (Cons m ms)
  then show ?case
    using Cons(1) [of "s\<lparr>miLast := Some m, miRx := ms\<rparr>"] Cons(2) [symmetric]
    by (auto simp: midi_read_def List.map_filter_simps split: prod.splits option.splits)
qed

text \<open>
  The handlers of a MIDI interface. Reading until nothing is left calls, for each message that waited and in their order,
  the handler set for its kind with channel and data. The handler set for pitch bends has no
  effect, and the channel given to \<open>begin\<close> does not select messages.
\<close>

theorem midi_handlers:
  "fst (midi_reads (length ms) (fold midi_injectMessage ms
      (setHandlePitchBend b (midi_begin ch (setHandleProgramChange p (setHandleControlChange c
        (setHandleNoteOff f (setHandleNoteOn n midi_new)))))))) =
    List.map_filter (\<lambda>m. case mmType m of
       NoteOn \<Rightarrow> map_option (\<lambda>h. (h, [mmChannel m, mmData1 m, mmData2 m])) n
     | NoteOff \<Rightarrow> map_option (\<lambda>h. (h, [mmChannel m, mmData1 m, mmData2 m])) f
     | ControlChange \<Rightarrow> map_option (\<lambda>h. (h, [mmChannel m, mmData1 m, mmData2 m])) c
     | ProgramChange \<Rightarrow> map_option (\<lambda>h. (h, [mmChannel m, mmData1 m])) p
     | _ \<Rightarrow> None) ms"
proof -
  let ?s = "setHandlePitchBend b (midi_begin ch (setHandleProgramChange p (setHandleControlChange c
        (setHandleNoteOff f (setHandleNoteOn n midi_new)))))"
  have inj: "miRx (fold midi_injectMessage ms s) = miRx s @ ms \<and> midi_call (fold midi_injectMessage ms s) = midi_call s" for s
  proof (induction ms arbitrary: s)
    case (Cons m ms)
    have "midi_call (midi_injectMessage m s) = midi_call s"
      by (auto simp: midi_injectMessage_def midi_call_def fun_eq_iff split: midi_type.splits)
    then show ?case
      using Cons.IH [of "midi_injectMessage m s"] by (simp add: midi_injectMessage_def)
  qed simp
  have "miRx ?s = []"
    by (simp add: setHandlePitchBend_def midi_begin_def setHandleProgramChange_def setHandleControlChange_def
        setHandleNoteOff_def setHandleNoteOn_def midi_new_def)
  then have rx: "miRx (fold midi_injectMessage ms ?s) = ms"
    using inj [of ?s] by simp
  show ?thesis
    using midi_reads_calls [of "fold midi_injectMessage ms ?s"] unfolding rx inj [THEN conjunct2]
    by (simp add: midi_call_def [abs_def] setHandlePitchBend_def midi_begin_def setHandleProgramChange_def
        setHandleControlChange_def setHandleNoteOff_def setHandleNoteOn_def midi_new_def cong: midi_type.case_cong)
qed

text \<open>
  Pitch bends. The two data bytes of a pitch bend are seven bits each and hold the value modulo \<open>2 ^ 14\<close>, low part
  first, for negative values too.
\<close>

theorem midi_bend_roundtrip:
  "\<exists>d1 d2. miSent (sendPitchBend v ch s) = miSent s @ [\<lparr>mmType = PitchBend, mmChannel = ch, mmData1 = d1, mmData2 = d2\<rparr>] \<and>
    d1 < 128 \<and> d2 < 128 \<and> uint d1 + 128 * uint d2 = v mod 16384"
proof -
  have m: "x AND 0x7F = x mod 128" for x :: int
    using take_bit_eq_mask [of 7 x] by (simp add: take_bit_eq_mod mask_eq_exp_minus_1)
  have u: "uint (word_of_int (x mod 128) :: byte) = x mod 128" for x
    using pos_mod_sign [of 128 x] pos_mod_bound [of 128 x] by (simp add: uint_word_of_int)
  have "v mod 128 + 128 * (v div 128 mod 128) = v mod 16384"
    using mod_mult2_eq' [of v 128 128] by simp
  then show ?thesis
    using u pos_mod_bound [of 128]
    by (intro exI [of _ "word_of_int (v mod 128)"] exI [of _ "word_of_int (v div 128 mod 128)"])
      (simp add: sendPitchBend_def midi_send_def m drop_bit_eq_div word_less_def)
qed

text \<open>
  The older CAN driver. Whatever is called, it is stopped or running and never off the bus, so that recovery is always
  refused; since the last reset the messages handed out and those that wait are the ones that arrived, and
  the counters count them. Messages that arrive while it is stopped wait, across an uninstall too.
\<close>

theorem can_driver_states:
  "let (s, ins, outs) = fold can_step ops (can_new c, [], []) in
    (cdState s = STOPPED \<or> cdState s = RUNNING) \<and> fst (can_initiate_recovery s) = ESP_ERR_INVALID_STATE \<and>
    outs @ cdRx s = ins \<and> cdRxCount s = of_nat (length outs) \<and> cdTxCount s = of_nat (length (cdTx s)) \<and>
    cdRx (snd (can_uninstall (can_injectRx m s))) = cdRx s @ [m]"
proof -
  have "can_inv (fold can_step ops (can_new c, [], []))"
    by (rule can_hist.inv_run) (auto simp: list_all_iff)
  then show ?thesis
    by (auto simp: can_inv_def can_initiate_recovery_def can_uninstall_def can_injectRx_def)
qed

text \<open>
  DMX packets. A packet of any length sets the start code and the channels it has, at most 512, keeps the
  others and is announced once to an installed driver; writing channels afterwards changes those channels
  only.
\<close>

theorem dmx_packet:
  assumes "length (dxData s) = 513" "dxInstalled s"
  shows "dmx_read c (fold (\<lambda>(c, v). dmx_write c v) ws (dmx_injectPacket p s)) =
      (if 1 \<le> c \<and> c \<le> 512 then
         case map_of (rev ws) c of Some v \<Rightarrow> v | None \<Rightarrow> if unat c < length p then p ! unat c else dmx_read c s
       else 0) \<and>
    (let (e, t) = dmx_receive (dmx_injectPacket p s); (e', t') = dmx_receive t in e = 0 \<and> e' = 1)"
proof -
  have l: "length (dxData (dmx_injectPacket p s)) = 513"
    using assms(1) by (simp add: dmx_injectPacket_def Let_def length_blit)
  have r: "dmx_read c (dmx_injectPacket p s) = (if unat c < length p then p ! unat c else dmx_read c s)" if "on_dmx c"
  proof -
    have "unat c < 513"
      using that by (simp add: on_dmx_def word_le_nat_alt)
    then show ?thesis
      using that assms(1) by (auto simp: on_dmx_def dmx_read_def dmx_injectPacket_def Let_def blit_def nth_append)
  qed
  have out: "dmx_read c s = 0" if "\<not> on_dmx c" for c s
    using that by (auto simp: dmx_read_def on_dmx_def)
  show ?thesis
    using dmx_channels.writes_get [OF l, where kvs = ws and k' = c] r out [of c] assms(2)
    by (auto simp: on_dmx_def dmx_receive_def dmx_injectPacket_def Let_def split: option.splits)
qed

theorem dmx_packet_witness:
  "dmx_read 2 (fold (\<lambda>(c, v). dmx_write c v) [(1, 9)] (dmx_injectPacket [0, 7, 8] (snd (dmx_install (2, 1, 3, 4, 1) dmx_new)))) = 8"
  using dmx_packet [where s = "snd (dmx_install (2, 1, 3, 4, 1) dmx_new)" and c = 2 and ws = "[(1, 9)]" and p = "[0, 7, 8]"]
  by (simp add: dmx_install_def dmx_new_def)

text \<open>
  Continuous conversion. With no injected bytes a read of a started converter ends and delivers as many
  mid-scale samples as fit into the length, the channels going round the configured patterns;
  without patterns it delivers none.
\<close>

theorem adc_samples:
  assumes "acStarted s" "acInjected s = []"
  shows "adc_read n s =
    (let k = (if acPatterns s = [] then 0 else unat n div 4)
     in Some (ESP_OK, Samples (map (\<lambda>i. mid_scale (acPatterns s ! (i mod length (acPatterns s)))) [0..<k]), of_nat (4 * k), s))"
proof (cases "acPatterns s = []")
  case True
  then show ?thesis
    using assms by (simp add: adc_read_def adc_fill.simps)
next
  case False
  then show ?thesis
    using assms adc_fill_result [of 0 "unat n" "acPatterns s" "[]"] by (simp add: adc_read_def round_robin_def comp_def Let_def)
qed

theorem adc_samples_witness:
  "adc_read 13 (adc_reset\<lparr>acStarted := True, acPatterns := [\<lparr>apAtten = 0, apChannel = 3, apUnit = 0, apWidth = 12\<rparr>,
      \<lparr>apAtten = 0, apChannel = 6, apUnit = 1, apWidth = 12\<rparr>]\<rparr>) =
    Some (ESP_OK, Samples [\<lparr>asVal = 2048, asChannel = 3, asUnit = 0\<rparr>, \<lparr>asVal = 2048, asChannel = 6, asUnit = 1\<rparr>,
      \<lparr>asVal = 2048, asChannel = 3, asUnit = 0\<rparr>], 12,
      adc_reset\<lparr>acStarted := True, acPatterns := [\<lparr>apAtten = 0, apChannel = 3, apUnit = 0, apWidth = 12\<rparr>,
      \<lparr>apAtten = 0, apChannel = 6, apUnit = 1, apWidth = 12\<rparr>]\<rparr>)"
  using adc_samples [of "adc_reset\<lparr>acStarted := True, acPatterns := [\<lparr>apAtten = 0, apChannel = 3, apUnit = 0, apWidth = 12\<rparr>,
      \<lparr>apAtten = 0, apChannel = 6, apUnit = 1, apWidth = 12\<rparr>]\<rparr>" 13]
  by (simp add: adc_reset_def upt_rec mid_scale_def)

fun adc_reads :: "u32 list \<Rightarrow> adc_cont \<Rightarrow> (byte list \<times> adc_cont) option" where
  "adc_reads [] s = Some ([], s)"
| "adc_reads (n # ns) s =
    (case adc_read n s of
       Some (_, Bytes d, _, t) \<Rightarrow> map_option (\<lambda>(ds, u). (d @ ds, u)) (adc_reads ns t)
     | Some (_, _, _, t) \<Rightarrow> adc_reads ns t
     | None \<Rightarrow> None)"

text \<open>
  Injected conversion results. Bytes that were injected are read in order and once, however the reads are cut, as
  long as some are left; a stopped converter refuses and keeps them.
\<close>

theorem adc_injected_once:
  "if acStarted s then \<exists>ds t. adc_reads ns s = Some (ds, t) \<and> ds @ acInjected t = acInjected s \<and>
      length ds = min (length (acInjected s)) (sum_list (map unat ns))
    else adc_reads ns s = Some ([], s)"
proof (cases "acStarted s")
  case False
  then have "adc_reads ns s = Some ([], s)"
    by (induction ns) (simp_all add: adc_read_def)
  then show ?thesis
    using False by simp
next
  case True
  then have "\<exists>ds t. adc_reads ns s = Some (ds, t) \<and> ds @ acInjected t = acInjected s \<and>
      length ds = min (length (acInjected s)) (sum_list (map unat ns))"
  proof (induction ns arbitrary: s)
    case (Cons n ns)
    show ?case
    proof (cases "acInjected s = []")
      case Nil: True
      obtain ds t where "adc_reads ns s = Some (ds, t)" "ds @ acInjected t = acInjected s" "length ds = 0"
        using Cons.IH [of s] Cons.prems Nil by auto
      then show ?thesis
        using Cons.prems Nil adc_samples [of s n] by (simp add: Let_def)
    next
      case False
      let ?m = "min (unat n) (length (acInjected s))"
      have r: "adc_read n s = Some (ESP_OK, Bytes (take ?m (acInjected s)), of_nat ?m, s\<lparr>acInjected := drop ?m (acInjected s)\<rparr>)"
        using Cons.prems False by (simp add: adc_read_def Let_def)
      obtain ds t where i: "adc_reads ns (s\<lparr>acInjected := drop ?m (acInjected s)\<rparr>) = Some (ds, t)"
        "ds @ acInjected t = drop ?m (acInjected s)"
        "length ds = min (length (acInjected s) - ?m) (sum_list (map unat ns))"
        using Cons.IH [of "s\<lparr>acInjected := drop ?m (acInjected s)\<rparr>"] Cons.prems by auto
      have "take ?m (acInjected s) @ ds @ acInjected t = acInjected s"
        unfolding i(2) by (rule append_take_drop_id)
      then show ?thesis
        using i(3) by (auto simp: r i(1))
    qed
  qed simp
  then show ?thesis
    using True by simp
qed

end
