(* ===== verification/Modbus.thy ===== *)
theory Modbus
  imports Interfaces
begin

text \<open>
  The Modbus master of \<open>src/include/ModbusMaster.h\<close>: 16 bit registers and coils behind the
  requests, a transmit buffer of 64 registers, and a response window that the getters read through.
  The lemmas relate block writes to what is read back, with the wrap of register addresses, and say
  what an injected failure does.
\<close>

section \<open>State\<close>

abbreviation (input) "MBSuccess \<equiv> (0x00 :: byte)"
abbreviation (input) "MBResponseTimedOut \<equiv> (0xE2 :: byte)"

record modbus =
  slaveId :: byte
  registers :: "u16 \<rightharpoonup> u16"
  coils :: "u16 \<rightharpoonup> byte"
  txBuffer :: "u16 list"
  responseAddr :: u16
  responseQty :: u16
  failNext :: bool

definition modbus_init :: modbus where
  "modbus_init = \<lparr>slaveId = 1, registers = Map.empty, coils = Map.empty, txBuffer = replicate 64 0,
     responseAddr = 0, responseQty = 0, failNext = False\<rparr>"

section \<open>Requests\<close>

definition mb_begin :: "modbus \<Rightarrow> byte \<Rightarrow> modbus" where
  "mb_begin m sid = m\<lparr>slaveId := sid\<rparr>"

text \<open>How every request ends: a failure asked for is reported once. The transmission callbacks
  around it have no effect on the master.\<close>

definition mb_finish :: "modbus \<Rightarrow> byte \<times> modbus" where
  "mb_finish m = (if failNext m then (MBResponseTimedOut, m\<lparr>failNext := False\<rparr>) else (MBSuccess, m))"

definition readHoldingRegisters :: "modbus \<Rightarrow> u16 \<Rightarrow> u16 \<Rightarrow> byte \<times> modbus" where
  "readHoldingRegisters m addr qty = mb_finish (m\<lparr>responseQty := qty, responseAddr := addr\<rparr>)"

definition readInputRegisters :: "modbus \<Rightarrow> u16 \<Rightarrow> u16 \<Rightarrow> byte \<times> modbus" where
  "readInputRegisters m addr qty = mb_finish (m\<lparr>responseQty := qty, responseAddr := addr\<rparr>)"

definition readCoils :: "modbus \<Rightarrow> u16 \<Rightarrow> u16 \<Rightarrow> byte \<times> modbus" where
  "readCoils m addr qty = mb_finish (m\<lparr>responseQty := qty, responseAddr := addr\<rparr>)"

definition writeSingleRegister :: "modbus \<Rightarrow> u16 \<Rightarrow> u16 \<Rightarrow> byte \<times> modbus" where
  "writeSingleRegister m addr val = mb_finish (m\<lparr>registers := (registers m)(addr \<mapsto> val)\<rparr>)"

definition writeSingleCoil :: "modbus \<Rightarrow> u16 \<Rightarrow> byte \<Rightarrow> byte \<times> modbus" where
  "writeSingleCoil m addr val = mb_finish (m\<lparr>coils := (coils m)(addr \<mapsto> val)\<rparr>)"

text \<open>The loop \<open>for (i = 0; i < qty && i < 64; i++)\<close>; \<open>addr + i\<close> is cut to 16 bits as a key.\<close>

definition store_block :: "(u16 \<rightharpoonup> u16) \<Rightarrow> u16 \<Rightarrow> u16 list \<Rightarrow> (u16 \<rightharpoonup> u16)" where
  "store_block regs addr vs =
    fold (\<lambda>i r. r(addr + word_of_nat i \<mapsto> vs ! i)) [0..<length vs] regs"

definition writeMultipleRegisters :: "modbus \<Rightarrow> u16 \<Rightarrow> u16 \<Rightarrow> byte \<times> modbus" where
  "writeMultipleRegisters m addr qty =
    mb_finish (m\<lparr>registers := store_block (registers m) addr (take (min (unat qty) 64) (txBuffer m))\<rparr>)"

section \<open>Buffers\<close>

definition mb_register :: "modbus \<Rightarrow> u16 \<Rightarrow> u16" where
  "mb_register m addr = (case registers m addr of Some v \<Rightarrow> v | None \<Rightarrow> 0)"

definition getResponseBuffer :: "modbus \<Rightarrow> byte \<Rightarrow> u16" where
  "getResponseBuffer m index = mb_register m (responseAddr m + ucast index)"

definition setTransmitBuffer :: "modbus \<Rightarrow> byte \<Rightarrow> u16 \<Rightarrow> modbus" where
  "setTransmitBuffer m index value =
    (if index < 64 then m\<lparr>txBuffer := (txBuffer m)[unat index := value]\<rparr> else m)"

definition clearTransmitBuffer :: "modbus \<Rightarrow> modbus" where
  "clearTransmitBuffer m = m\<lparr>txBuffer := replicate 64 0\<rparr>"

definition emu_setRegister :: "modbus \<Rightarrow> u16 \<Rightarrow> u16 \<Rightarrow> modbus" where
  "emu_setRegister m addr val = m\<lparr>registers := (registers m)(addr \<mapsto> val)\<rparr>"

definition emu_getRegister :: "modbus \<Rightarrow> u16 \<Rightarrow> u16" where
  "emu_getRegister m addr = mb_register m addr"

definition emu_setCoil :: "modbus \<Rightarrow> u16 \<Rightarrow> byte \<Rightarrow> modbus" where
  "emu_setCoil m addr val = m\<lparr>coils := (coils m)(addr \<mapsto> val)\<rparr>"

definition emu_getCoil :: "modbus \<Rightarrow> u16 \<Rightarrow> byte" where
  "emu_getCoil m addr = (case coils m addr of Some v \<Rightarrow> v | None \<Rightarrow> 0)"

definition emu_setFailNext :: "modbus \<Rightarrow> bool \<Rightarrow> modbus" where
  "emu_setFailNext m f = m\<lparr>failNext := f\<rparr>"

section \<open>Blocks of registers\<close>

lemma store_block_snoc:
  "store_block regs addr (vs @ [v]) = (store_block regs addr vs)(addr + word_of_nat (length vs) \<mapsto> v)"
proof -
  have "fold (\<lambda>i r. r(addr + word_of_nat i \<mapsto> (vs @ [v]) ! i)) [0..<length vs] regs =
      fold (\<lambda>i r. r(addr + word_of_nat i \<mapsto> vs ! i)) [0..<length vs] regs"
    by (rule fold_cong) (simp_all add: nth_append)
  then show ?thesis
    by (simp add: store_block_def)
qed

lemma u16_offset_inject:
  "i < 2 ^ 16 \<Longrightarrow> j < 2 ^ 16 \<Longrightarrow> (a + word_of_nat i :: u16) = a + word_of_nat j \<longleftrightarrow> i = j"
  by (simp add: word_of_nat_eq_iff take_bit_nat_eq_self)

lemma store_block_get:
  "length vs \<le> 2 ^ 16 \<Longrightarrow>
   store_block regs addr vs k =
     (if unat (k - addr) < length vs then Some (vs ! unat (k - addr)) else regs k)"
proof (induction vs rule: rev_induct)
  case Nil
  then show ?case by (simp add: store_block_def)
next
  case (snoc v vs)
  then have len: "length vs < 2 ^ 16"
    by simp
  have "k = addr + word_of_nat (length vs) \<longleftrightarrow> unat (k - addr) = length vs"
  proof
    assume "k = addr + word_of_nat (length vs)"
    then show "unat (k - addr) = length vs"
      using len by (simp add: unat_of_nat take_bit_nat_eq_self)
  next
    assume "unat (k - addr) = length vs"
    then have "k - addr = word_of_nat (length vs)"
      by (simp flip: \<open>unat (k - addr) = length vs\<close>)
    then show "k = addr + word_of_nat (length vs)"
      by (simp add: algebra_simps)
  qed
  with snoc show ?case
    by (auto simp: store_block_snoc nth_append)
qed

section \<open>Properties\<close>

text \<open>
  Block writes are read back. After a block write of \<open>qty\<close> registers and a read at the same
  address, the response window shows the transmit buffer for the first \<open>min qty 64\<close> positions, also
  where the addresses wrap past 65535, and every register outside the block keeps its value.
\<close>

theorem modbus_block_roundtrip:
  assumes "length (txBuffer m) = 64" "\<not> failNext m" "writeMultipleRegisters m addr qty = (r1, m1)"
    and "readHoldingRegisters m1 addr qty = (r2, m2)"
  shows "r1 = MBSuccess \<and> r2 = MBSuccess \<and>
    (unat i < min (unat qty) 64 \<longrightarrow> getResponseBuffer m2 i = txBuffer m ! unat i) \<and>
    (min (unat qty) 64 \<le> unat (k - addr) \<longrightarrow> emu_getRegister m2 k = emu_getRegister m k)"
proof -
  let ?vs = "take (min (unat qty) 64) (txBuffer m)"
  have m1: "m1 = m\<lparr>registers := store_block (registers m) addr ?vs\<rparr>" "r1 = MBSuccess"
    using assms(2,3) by (auto simp: writeMultipleRegisters_def mb_finish_def split: if_splits)
  then have m2: "m2 = m1\<lparr>responseQty := qty, responseAddr := addr\<rparr>" "r2 = MBSuccess"
    using assms(2,4) by (auto simp: readHoldingRegisters_def mb_finish_def split: if_splits)
  have "unat (ucast i :: u16) = unat i"
    by transfer (simp add: take_bit_take_bit)
  then show ?thesis
    using assms(1)
    by (auto simp: m1 m2 getResponseBuffer_def emu_getRegister_def mb_register_def store_block_get)
qed

theorem modbus_block_roundtrip_witness:
  "getResponseBuffer (snd (readHoldingRegisters (snd (writeMultipleRegisters
     (setTransmitBuffer modbus_init 1 77) 0xFFFF 2)) 0xFFFF 2)) 1 = 77"
  using modbus_block_roundtrip [of "setTransmitBuffer modbus_init 1 77" "0xFFFF" 2 _ _ _ _ 1 0,
      OF _ _ surjective_pairing surjective_pairing]
  by (simp add: setTransmitBuffer_def modbus_init_def)

text \<open>
  A failed write has happened. With a failure injected, a register write reports a timeout, the
  register nevertheless holds the new value, and the next request succeeds.
\<close>

theorem modbus_failed_write_applied:
  "\<exists>m'. writeSingleRegister (emu_setFailNext m True) addr v = (MBResponseTimedOut, m') \<and>
    emu_getRegister m' addr = v \<and> fst (readHoldingRegisters m' addr 1) = MBSuccess"
  by (simp add: writeSingleRegister_def mb_finish_def emu_setFailNext_def emu_getRegister_def
      mb_register_def readHoldingRegisters_def)

end
