(* ===== verification/Mqtt.thy ===== *)
theory Mqtt
  imports Http_Text
begin

text \<open>
  The MQTT client of \<open>src/include/PubSubClient.h\<close>, whose broker is the client itself: what is
  published is delivered to the client's own subscriptions. The topic matcher is compared with the
  matching of the MQTT standard on topic levels; the lemmas say what it accepts, what it misses and
  in which order messages are delivered.
\<close>

section \<open>State\<close>

text \<open>The callback is a name; what it is called with is kept as a log of calls.\<close>

record mqtt =
  mqServer :: string
  mqPort :: u16
  mqClientId :: string
  mqConnected :: bool
  mqBufSize :: u16
  mqCallback :: "nat option"
  mqSubs :: "string list"
  mqPublished :: "(string \<times> byte list) list"

definition mqtt_init :: mqtt where
  "mqtt_init = \<lparr>mqServer = ''localhost'', mqPort = 1883, mqClientId = [], mqConnected = False,
     mqBufSize = 256, mqCallback = None, mqSubs = [], mqPublished = []\<rparr>"

section \<open>Operations\<close>

definition mqtt_setServer :: "string \<Rightarrow> u16 \<Rightarrow> mqtt \<Rightarrow> mqtt" where
  "mqtt_setServer host p c = c\<lparr>mqServer := host, mqPort := p\<rparr>"

definition mqtt_setCallback :: "nat option \<Rightarrow> mqtt \<Rightarrow> mqtt" where
  "mqtt_setCallback cb c = c\<lparr>mqCallback := cb\<rparr>"

definition mqtt_setBufferSize :: "u16 \<Rightarrow> mqtt \<Rightarrow> mqtt" where
  "mqtt_setBufferSize sz c = c\<lparr>mqBufSize := sz\<rparr>"

definition mqtt_connect :: "string option \<Rightarrow> mqtt \<Rightarrow> bool \<times> mqtt" where
  "mqtt_connect cid c =
    (True, c\<lparr>mqClientId := (case cid of Some s \<Rightarrow> s | None \<Rightarrow> ''esp32emu''), mqConnected := True\<rparr>)"

definition mqtt_disconnect :: "mqtt \<Rightarrow> mqtt" where
  "mqtt_disconnect c = c\<lparr>mqConnected := False, mqSubs := []\<rparr>"

definition mqtt_state :: "mqtt \<Rightarrow> int" where
  "mqtt_state c = (if mqConnected c then 0 else - 1)"

text \<open>\<open>strncmp(topic, filter.c_str(), filter.size() - 1) == 0\<close>: the topic starts with the filter
  without its \<open>#\<close>.\<close>

definition topicMatch :: "string \<Rightarrow> string \<Rightarrow> bool" where
  "topicMatch f t \<longleftrightarrow>
    f = ''#'' \<or> f = t \<or>
    length f > 1 \<and> last f = CHR ''#'' \<and> f ! (length f - 2) = CHR ''/'' \<and> prefix (butlast f) t"

definition mqtt_publish :: "string \<Rightarrow> byte list \<Rightarrow> mqtt \<Rightarrow> (bool \<times> (nat \<times> string \<times> byte list) list) \<times> mqtt" where
  "mqtt_publish topic payload c =
    (if \<not> mqConnected c then ((False, []), c)
     else
       ((True, case mqCallback c of
                 None \<Rightarrow> []
               | Some cb \<Rightarrow> map (\<lambda>_. (cb, topic, payload)) (filter (\<lambda>f. topicMatch f topic) (mqSubs c))),
        c\<lparr>mqPublished := mqPublished c @ [(topic, payload)]\<rparr>))"

definition mqtt_subscribe :: "string \<Rightarrow> mqtt \<Rightarrow> bool \<times> mqtt" where
  "mqtt_subscribe topic c =
    (if \<not> mqConnected c then (False, c) else (True, c\<lparr>mqSubs := mqSubs c @ [topic]\<rparr>))"

definition mqtt_unsubscribe :: "string \<Rightarrow> mqtt \<Rightarrow> bool \<times> mqtt" where
  "mqtt_unsubscribe topic c =
    (if \<not> mqConnected c then (False, c) else (True, c\<lparr>mqSubs := filter (\<lambda>t. t \<noteq> topic) (mqSubs c)\<rparr>))"

definition mqtt_inject :: "string \<Rightarrow> byte list \<Rightarrow> mqtt \<Rightarrow> (nat \<times> string \<times> byte list) list" where
  "mqtt_inject topic payload c = (case mqCallback c of None \<Rightarrow> [] | Some cb \<Rightarrow> [(cb, topic, payload)])"

section \<open>The matching of the standard\<close>

text \<open>The levels of a topic, empty ones included, and the wildcards \<open>+\<close> and \<open>#\<close>.\<close>

fun levels :: "string \<Rightarrow> string list" where
  "levels [] = [[]]"
| "levels (c # s) = (if c = CHR ''/'' then [] # levels s else (c # hd (levels s)) # tl (levels s))"

fun level_match :: "string list \<Rightarrow> string list \<Rightarrow> bool" where
  "level_match [] ts = (ts = [])"
| "level_match (f # fs) ts =
    (f = ''#'' \<and> fs = [] \<or>
     (case ts of [] \<Rightarrow> False | t # ts' \<Rightarrow> (f = ''+'' \<or> f = t) \<and> level_match fs ts'))"

definition standard_match :: "string \<Rightarrow> string \<Rightarrow> bool" where
  "standard_match f t \<longleftrightarrow> level_match (levels f) (levels t)"

lemma levels_not_Nil [simp]: "levels s \<noteq> []"
  by (induction s) auto

lemma levels_append_slash: "levels (p @ ''/'' @ s) = levels p @ levels s"
proof (induction p)
  case (Cons c p)
  then show ?case
    by (cases "levels p") auto
qed simp

lemma level_match_refl: "level_match ls ls"
  by (induction ls) auto

lemma level_match_hash: "level_match (ls @ [''#'']) (ls @ ts)"
  by (induction ls) auto

lemma levels_hash: "levels ''#'' = [''#'']"
  by simp

lemma topicMatch_shape:
  assumes "length f > 1" "last f = CHR ''#''" "f ! (length f - 2) = CHR ''/''" "prefix (butlast f) t"
  shows "\<exists>p s. f = p @ ''/#'' \<and> t = p @ ''/'' @ s"
proof -
  have f: "f = butlast f @ ''#''"
    using assms(1,2) append_butlast_last_id [of f] by (cases "f = []") simp_all
  have len: "length (butlast f) = length f - 1"
    by simp
  then have ne: "butlast f \<noteq> []"
    using assms(1) by (cases "butlast f") auto
  have "last (butlast f) = butlast f ! (length f - 2)"
    using ne len by (simp add: last_conv_nth numeral_2_eq_2)
  also have "\<dots> = f ! (length f - 2)"
    using assms(1) by (intro nth_butlast) simp
  finally have "butlast f \<noteq> []" "last (butlast f) = CHR ''/''"
    using ne assms(3) by simp_all
  then obtain p where p: "butlast f = p @ ''/''"
    by (metis append_butlast_last_id)
  obtain s where "t = butlast f @ s"
    using assms(4) by (auto elim: prefixE)
  then show ?thesis
    using f p by auto
qed

lemma topicMatch_sound: "topicMatch f t \<Longrightarrow> standard_match f t"
proof -
  assume "topicMatch f t"
  then consider "f = ''#''" | "f = t" | p s where "f = p @ ''/#''" "t = p @ ''/'' @ s"
    unfolding topicMatch_def using topicMatch_shape by blast
  then show ?thesis
  proof cases
    case 3
    have "levels f = levels p @ [''#'']" "levels t = levels p @ levels s"
      using levels_append_slash [of p "''#''"] levels_append_slash [of p s] 3 by simp_all
    then show ?thesis
      by (simp add: standard_match_def level_match_hash)
  qed (simp_all add: standard_match_def level_match_refl)
qed

section \<open>Properties\<close>

text \<open>
  No message goes astray. Publishing on a connected client stores the message and calls the
  callback once for each matching subscription, and every subscription the matcher accepts also
  matches by the standard; on a client that is not connected nothing is delivered or stored.
\<close>

theorem mqtt_publish_delivers:
  "(mqConnected c \<longrightarrow> mqCallback c = Some cb \<longrightarrow>
     fst (mqtt_publish topic payload c) =
       (True, replicate (length (filter (\<lambda>f. topicMatch f topic) (mqSubs c))) (cb, topic, payload)) \<and>
     mqPublished (snd (mqtt_publish topic payload c)) = mqPublished c @ [(topic, payload)] \<and>
     (\<forall>f \<in> set (mqSubs c). topicMatch f topic \<longrightarrow> standard_match f topic)) \<and>
   (\<not> mqConnected c \<longrightarrow> mqtt_publish topic payload c = ((False, []), c))"
  using topicMatch_sound by (simp add: mqtt_publish_def map_replicate_const)

theorem mqtt_publish_delivers_witness:
  "fst (mqtt_publish ''a/b'' [1]
      (mqtt_init\<lparr>mqConnected := True, mqCallback := Some 7, mqSubs := [''a/#'', ''a/+'', ''#'']\<rparr>)) =
    (True, [(7, ''a/b'', [1]), (7, ''a/b'', [1])])"
  using mqtt_publish_delivers [of "mqtt_init\<lparr>mqConnected := True, mqCallback := Some 7,
      mqSubs := [''a/#'', ''a/+'', ''#'']\<rparr>" 7 "''a/b''" "[1]"]
  by (simp add: topicMatch_def numeral_2_eq_2)

text \<open>
  What the matcher misses. A filter with a \<open>+\<close> for a level matches no topic that has something
  else at that level, and \<open>a/#\<close> does not match its parent \<open>a\<close>, though both match by the standard.
\<close>

theorem mqtt_wildcards_missed:
  assumes "CHR ''/'' \<notin> set l" "l \<noteq> ''+''" "l \<noteq> ''#''"
  shows "standard_match (p @ ''/+'') (p @ ''/'' @ l) \<and> \<not> topicMatch (p @ ''/+'') (p @ ''/'' @ l) \<and>
    standard_match (p @ ''/#'') p \<and> \<not> topicMatch (p @ ''/#'') p"
proof -
  have one: "levels l = [l]"
    using assms(1) by (induction l) auto
  have "level_match (ls @ [''+'']) (ls @ [l])" for ls
    by (induction ls) auto
  moreover have "levels (p @ ''/+'') = levels p @ [''+'']" "levels (p @ ''/#'') = levels p @ [''#'']"
    "levels (p @ ''/'' @ l) = levels p @ [l]"
    using levels_append_slash [of p "''+''"] levels_append_slash [of p "''#''"] levels_append_slash [of p l] one
    by simp_all
  ultimately have "standard_match (p @ ''/+'') (p @ ''/'' @ l) \<and> standard_match (p @ ''/#'') p"
    using level_match_hash [of "levels p" "[]"] unfolding standard_match_def by simp
  moreover have "\<not> prefix (p @ ''/'') p"
    using prefix_length_le [of "p @ ''/''" p] by auto
  then have "\<not> topicMatch (p @ ''/+'') (p @ ''/'' @ l) \<and> \<not> topicMatch (p @ ''/#'') p"
    using assms(2) by (cases p) (auto simp: topicMatch_def butlast_append)
  ultimately show ?thesis
    by blast
qed

theorem mqtt_wildcards_missed_witness:
  "standard_match ''home/+'' ''home/temp'' \<and> \<not> topicMatch ''home/+'' ''home/temp''"
  using mqtt_wildcards_missed [of "''temp''" "''home''"] by simp

end
