(* ===== verification/Mqtt_Client.thy ===== *)
theory Mqtt_Client
  imports Interfaces
begin

text \<open>
  The ESP-IDF MQTT client of \<open>src/include/mqtt_client.h\<close>: connection flags, subscriptions, the log of
  published messages, and events that are delivered to a user handler while the client's mutex is
  held. The handler is a number, its behaviour an argument \<open>run\<close>; \<open>None\<close> is a call that blocks for
  ever. The lemmas give the message numbers and the log, and show which calls a handler cannot make.
\<close>

section \<open>State\<close>

datatype mqtt_event_id =
    MQTT_EVENT_ANY | MQTT_EVENT_ERROR | MQTT_EVENT_CONNECTED | MQTT_EVENT_DISCONNECTED
  | MQTT_EVENT_SUBSCRIBED | MQTT_EVENT_UNSUBSCRIBED | MQTT_EVENT_PUBLISHED | MQTT_EVENT_DATA
  | MQTT_EVENT_BEFORE_CONNECT | MQTT_EVENT_DELETED

record mqtt_event =
  meId :: mqtt_event_id
  meTopic :: "string option"
  meData :: "string option"
  meMsgId :: int

record mqtt_published =
  mpTopic :: string
  mpData :: string
  mpQos :: int
  mpRetain :: int
  mpMsgId :: int

record mqtt_client =
  mcUri :: string
  mcClientId :: string
  mcConnected :: bool
  mcStarted :: bool
  mcNextId :: int
  mcSubs :: "(string \<times> int) list"
  mcPublished :: "mqtt_published list"
  mcHandler :: "nat option"
  mcContext :: nat
  mcLocked :: bool

record mqtt_client_config =
  mfUri :: "string option"
  mfClientId :: "string option"
  mfHandler :: "nat option"
  mfContext :: nat

type_synonym handler_run = "nat \<Rightarrow> nat \<Rightarrow> mqtt_event \<Rightarrow> mqtt_client \<Rightarrow> mqtt_client option"

section \<open>Events\<close>

text \<open>
  Data in memory is the characters from its address on, zeros included; \<open>ctext\<close> is what is before
  the first zero. Topics are texts without zeros.
\<close>

definition ctext :: "string \<Rightarrow> string" where
  "ctext d = takeWhile (\<lambda>c. c \<noteq> CHR 0x00) d"

definition sized_text :: "string \<Rightarrow> int \<Rightarrow> string" where
  "sized_text d len = (if len > 0 then take (nat len) d else ctext d)"

definition fire_event ::
  "handler_run \<Rightarrow> mqtt_event_id \<Rightarrow> string option \<Rightarrow> string option \<Rightarrow> int \<Rightarrow> int \<Rightarrow> mqtt_client \<Rightarrow> mqtt_client option" where
  "fire_event run eid topic data data_len msg_id c =
    (case mcHandler c of
       None \<Rightarrow> Some c
     | Some h \<Rightarrow>
         run h (mcContext c)
           \<lparr>meId = eid, meTopic = topic,
            meData = map_option (\<lambda>d. sized_text d data_len) data, meMsgId = msg_id\<rparr> c)"

text \<open>A \<open>std::lock_guard\<close> on a mutex that is not recursive.\<close>

definition under_lock :: "(mqtt_client \<Rightarrow> ('r \<times> mqtt_client) option) \<Rightarrow> mqtt_client \<Rightarrow> ('r \<times> mqtt_client) option" where
  "under_lock f c =
    (if mcLocked c then None
     else map_option (\<lambda>(r, c'). (r, c'\<lparr>mcLocked := False\<rparr>)) (f (c\<lparr>mcLocked := True\<rparr>)))"

section \<open>The interface\<close>

definition esp_mqtt_client_init :: "mqtt_client_config option \<Rightarrow> mqtt_client" where
  "esp_mqtt_client_init config =
    (let c = \<lparr>mcUri = '''', mcClientId = '''', mcConnected = False, mcStarted = False, mcNextId = 1,
              mcSubs = [], mcPublished = [], mcHandler = None, mcContext = 0, mcLocked = False\<rparr>
     in case config of
          None \<Rightarrow> c
        | Some f \<Rightarrow>
            c\<lparr>mcUri := (case mfUri f of Some u \<Rightarrow> u | None \<Rightarrow> ''''),
              mcClientId := (case mfClientId f of Some i \<Rightarrow> i | None \<Rightarrow> ''''),
              mcHandler := mfHandler f, mcContext := mfContext f\<rparr>)"

text \<open>A null client is \<open>None\<close>; the first component of a result is what the call returns.\<close>

definition on_client ::
  "(mqtt_client \<Rightarrow> (int \<times> mqtt_client) option) \<Rightarrow> mqtt_client option \<Rightarrow> (int \<times> mqtt_client option) option" where
  "on_client f c =
    (case c of
       None \<Rightarrow> Some (- 1, None)
     | Some c \<Rightarrow> map_option (\<lambda>(r, c'). (r, Some c')) (under_lock f c))"

definition esp_mqtt_client_start ::
  "handler_run \<Rightarrow> mqtt_client option \<Rightarrow> (int \<times> mqtt_client option) option" where
  "esp_mqtt_client_start run =
    on_client (\<lambda>c. map_option (Pair 0)
      (fire_event run MQTT_EVENT_CONNECTED None None 0 0 (c\<lparr>mcStarted := True, mcConnected := True\<rparr>)))"

definition esp_mqtt_client_stop ::
  "handler_run \<Rightarrow> mqtt_client option \<Rightarrow> (int \<times> mqtt_client option) option" where
  "esp_mqtt_client_stop run =
    on_client (\<lambda>c. map_option (\<lambda>c'. (0, c'\<lparr>mcStarted := False\<rparr>))
      (if mcConnected c
       then fire_event run MQTT_EVENT_DISCONNECTED None None 0 0 (c\<lparr>mcConnected := False\<rparr>)
       else Some c))"

definition esp_mqtt_client_subscribe ::
  "handler_run \<Rightarrow> mqtt_client option \<Rightarrow> string option \<Rightarrow> int \<Rightarrow> (int \<times> mqtt_client option) option" where
  "esp_mqtt_client_subscribe run client topic qos =
    (case topic of
       None \<Rightarrow> Some (- 1, client)
     | Some t \<Rightarrow>
         on_client (\<lambda>c.
           let msg_id = mcNextId c;
               c1 = c\<lparr>mcNextId := msg_id + 1, mcSubs := mcSubs c @ [(t, qos)]\<rparr>
           in map_option (Pair msg_id) (fire_event run MQTT_EVENT_SUBSCRIBED None None 0 msg_id c1)) client)"

definition esp_mqtt_client_unsubscribe ::
  "handler_run \<Rightarrow> mqtt_client option \<Rightarrow> string option \<Rightarrow> (int \<times> mqtt_client option) option" where
  "esp_mqtt_client_unsubscribe run client topic =
    (case topic of
       None \<Rightarrow> Some (- 1, client)
     | Some t \<Rightarrow>
         on_client (\<lambda>c.
           let msg_id = mcNextId c;
               c1 = c\<lparr>mcNextId := msg_id + 1, mcSubs := filter (\<lambda>s. fst s \<noteq> t) (mcSubs c)\<rparr>
           in map_option (Pair msg_id) (fire_event run MQTT_EVENT_UNSUBSCRIBED None None 0 msg_id c1)) client)"

definition esp_mqtt_client_publish ::
  "handler_run \<Rightarrow> mqtt_client option \<Rightarrow> string option \<Rightarrow> string option \<Rightarrow> int \<Rightarrow> int \<Rightarrow> int \<Rightarrow>
   (int \<times> mqtt_client option) option" where
  "esp_mqtt_client_publish run client topic data len qos retain =
    (case topic of
       None \<Rightarrow> Some (- 1, client)
     | Some t \<Rightarrow>
         on_client (\<lambda>c.
           let msg_id = mcNextId c;
               payload = (case data of Some d \<Rightarrow> sized_text d len | None \<Rightarrow> '''');
               c1 = c\<lparr>mcNextId := msg_id + 1,
                      mcPublished := mcPublished c @
                        [\<lparr>mpTopic = t, mpData = payload, mpQos = qos, mpRetain = retain, mpMsgId = msg_id\<rparr>]\<rparr>
           in map_option (Pair msg_id) (fire_event run MQTT_EVENT_PUBLISHED None None 0 msg_id c1)) client)"

definition esp_mqtt_client_enqueue ::
  "handler_run \<Rightarrow> mqtt_client option \<Rightarrow> string option \<Rightarrow> string option \<Rightarrow> int \<Rightarrow> int \<Rightarrow> int \<Rightarrow> bool \<Rightarrow>
   (int \<times> mqtt_client option) option" where
  "esp_mqtt_client_enqueue run client topic data len qos retain store =
    esp_mqtt_client_publish run client topic data len qos retain"

text \<open>Destroying frees the client: nothing is left of it.\<close>

definition esp_mqtt_client_destroy :: "mqtt_client option \<Rightarrow> int \<times> mqtt_client option" where
  "esp_mqtt_client_destroy client = (case client of None \<Rightarrow> (- 1, None) | Some c \<Rightarrow> (0, None))"

text \<open>The functions for tests fire events without the mutex; on a null client they do nothing.\<close>

definition mqtt_inject_message ::
  "handler_run \<Rightarrow> mqtt_client option \<Rightarrow> string option \<Rightarrow> string option \<Rightarrow> int \<Rightarrow> mqtt_client option option" where
  "mqtt_inject_message run client topic data data_len =
    (case client of
       None \<Rightarrow> Some None
     | Some c \<Rightarrow>
         let len = (if data_len > 0 then data_len
                    else (case data of Some d \<Rightarrow> int (length (ctext d)) | None \<Rightarrow> 0))
         in map_option Some (fire_event run MQTT_EVENT_DATA topic data len 0 c))"

definition mqtt_clear_published :: "mqtt_client \<Rightarrow> mqtt_client option" where
  "mqtt_clear_published c = map_option snd (under_lock (\<lambda>c. Some ((), c\<lparr>mcPublished := []\<rparr>)) c)"

definition mqtt_simulate_disconnect :: "handler_run \<Rightarrow> mqtt_client option \<Rightarrow> mqtt_client option option" where
  "mqtt_simulate_disconnect run client =
    (case client of
       None \<Rightarrow> Some None
     | Some c \<Rightarrow> map_option Some (fire_event run MQTT_EVENT_DISCONNECTED None None 0 0 (c\<lparr>mcConnected := False\<rparr>)))"

definition mqtt_simulate_reconnect :: "handler_run \<Rightarrow> mqtt_client option \<Rightarrow> mqtt_client option option" where
  "mqtt_simulate_reconnect run client =
    (case client of
       None \<Rightarrow> Some None
     | Some c \<Rightarrow> map_option Some (fire_event run MQTT_EVENT_CONNECTED None None 0 0 (c\<lparr>mcConnected := True\<rparr>)))"

section \<open>Numbers and the log\<close>

datatype mqtt_call = Sub string int | Unsub string | Pub string "string option" int int int

fun mqtt_do ::
  "handler_run \<Rightarrow> mqtt_call \<Rightarrow> mqtt_client option \<Rightarrow> (int \<times> mqtt_client option) option" where
  "mqtt_do run (Sub t q) c = esp_mqtt_client_subscribe run c (Some t) q"
| "mqtt_do run (Unsub t) c = esp_mqtt_client_unsubscribe run c (Some t)"
| "mqtt_do run (Pub t d len q r) c = esp_mqtt_client_publish run c (Some t) d len q r"

fun mqtt_calls ::
  "handler_run \<Rightarrow> mqtt_call list \<Rightarrow> mqtt_client option \<Rightarrow> (int list \<times> mqtt_client option) option" where
  "mqtt_calls run [] c = Some ([], c)"
| "mqtt_calls run (op # ops) c =
    (case mqtt_do run op c of
       None \<Rightarrow> None
     | Some (r, c') \<Rightarrow> map_option (\<lambda>(rs, c''). (r # rs, c'')) (mqtt_calls run ops c'))"

text \<open>What the calls log, numbered from \<open>n\<close>, and the subscriptions they leave.\<close>

fun log_of :: "int \<Rightarrow> mqtt_call list \<Rightarrow> mqtt_published list" where
  "log_of n [] = []"
| "log_of n (Pub t d len q r # ops) =
    \<lparr>mpTopic = t, mpData = (case d of Some d \<Rightarrow> sized_text d len | None \<Rightarrow> ''''), mpQos = q, mpRetain = r,
     mpMsgId = n\<rparr> # log_of (n + 1) ops"
| "log_of n (op # ops) = log_of (n + 1) ops"

fun subs_of :: "(string \<times> int) list \<Rightarrow> mqtt_call list \<Rightarrow> (string \<times> int) list" where
  "subs_of ss [] = ss"
| "subs_of ss (Sub t q # ops) = subs_of (ss @ [(t, q)]) ops"
| "subs_of ss (Unsub t # ops) = subs_of (filter (\<lambda>s. fst s \<noteq> t) ss) ops"
| "subs_of ss (op # ops) = subs_of ss ops"

definition quiet :: "handler_run \<Rightarrow> bool" where
  "quiet run \<longleftrightarrow> (\<forall>h ctx ev c. run h ctx ev c = Some c)"

lemma fire_quiet: "quiet run \<Longrightarrow> fire_event run eid topic data len msg_id c = Some c"
  by (simp add: fire_event_def quiet_def split: option.split)

lemma mqtt_do_quiet:
  assumes "quiet run" "\<not> mcLocked c"
  shows "\<exists>c'. mqtt_do run op (Some c) = Some (mcNextId c, Some c') \<and> \<not> mcLocked c' \<and>
    mcNextId c' = mcNextId c + 1 \<and> mcPublished c' = mcPublished c @ log_of (mcNextId c) [op] \<and>
    mcSubs c' = subs_of (mcSubs c) [op]"
  using assms
  by (cases op) (simp_all add: esp_mqtt_client_subscribe_def esp_mqtt_client_unsubscribe_def
      esp_mqtt_client_publish_def on_client_def under_lock_def Let_def fire_quiet split: option.split)

lemma log_of_Cons: "log_of n (op # ops) = log_of n [op] @ log_of (n + 1) ops"
  by (cases op) simp_all

lemma subs_of_Cons: "subs_of ss (op # ops) = subs_of (subs_of ss [op]) ops"
  by (cases op) simp_all

text \<open>
  Calls are numbered and logged in order. With a handler that leaves the client alone, any
  sequence of subscribe, unsubscribe and publish calls returns consecutive message numbers, appends
  what was published, with its number, to the log, and leaves the subscriptions that were not
  taken back.
\<close>

theorem mqttc_calls_numbered:
  assumes "quiet run" "\<not> mcLocked c"
  shows "\<exists>c'. mqtt_calls run ops (Some c) =
      Some (map (\<lambda>i. mcNextId c + int i) [0..<length ops], Some c') \<and>
    mcPublished c' = mcPublished c @ log_of (mcNextId c) ops \<and> mcSubs c' = subs_of (mcSubs c) ops"
  using assms(2)
proof (induction ops arbitrary: c)
  case (Cons op ops)
  obtain c1 where c1: "mqtt_do run op (Some c) = Some (mcNextId c, Some c1)" "\<not> mcLocked c1"
    "mcNextId c1 = mcNextId c + 1" "mcPublished c1 = mcPublished c @ log_of (mcNextId c) [op]"
    "mcSubs c1 = subs_of (mcSubs c) [op]"
    using mqtt_do_quiet [OF assms(1) Cons.prems] by blast
  have ids: "map (\<lambda>i. mcNextId c + int i) [0..<Suc (length ops)] =
      mcNextId c # map (\<lambda>i. mcNextId c + 1 + int i) [0..<length ops]"
    by (simp add: upt_conv_Cons map_Suc_upt [symmetric] ac_simps del: upt_Suc)
  from Cons.IH [OF c1(2)] c1 show ?case
    unfolding list.size(4) add_0_right add_Suc_right ids
    by (auto simp: log_of_Cons [of _ op ops] subs_of_Cons [of _ op ops])
qed simp

theorem mqttc_calls_numbered_witness:
  "\<exists>c'. mqtt_calls (\<lambda>h ctx ev c. Some c) [Sub ''a'' 0, Pub ''a'' (Some ''x'') 0 0 0, Unsub ''a'']
      (Some (esp_mqtt_client_init None)) = Some ([1, 2, 3], Some c') \<and>
    mcSubs c' = [] \<and> map mpMsgId (mcPublished c') = [2]"
  using mqttc_calls_numbered [of "\<lambda>h ctx ev c. Some c" "esp_mqtt_client_init None"
      "[Sub ''a'' 0, Pub ''a'' (Some ''x'') 0 0 0, Unsub ''a'']"]
  by (auto simp: quiet_def esp_mqtt_client_init_def upt_rec)

text \<open>
  A handler cannot call the client back. Subscribing when the connection is up, from inside
  the handler, is the usual way to use this interface; the handler runs while the client's mutex is
  held, so the call waits for itself and \<open>esp_mqtt_client_start\<close> does not return.
\<close>

theorem mqttc_subscribe_on_connect_blocks:
  assumes "mcHandler c = Some h"
    and "\<And>ctx ev c. meId ev = MQTT_EVENT_CONNECTED \<Longrightarrow>
      run h ctx ev c = Option.bind (esp_mqtt_client_subscribe run' (Some c) (Some t) q) snd"
  shows "esp_mqtt_client_start run (Some c) = None"
  using assms
  by (simp add: esp_mqtt_client_start_def on_client_def under_lock_def fire_event_def
      esp_mqtt_client_subscribe_def)

theorem mqttc_subscribe_on_connect_blocks_witness:
  "esp_mqtt_client_start
     (\<lambda>h ctx ev c. Option.bind (esp_mqtt_client_subscribe (\<lambda>h ctx ev c. Some c) (Some c) (Some ''t'') 0) snd)
     (Some (esp_mqtt_client_init (Some \<lparr>mfUri = None, mfClientId = None, mfHandler = Some 1, mfContext = 0\<rparr>))) = None"
  by (rule mqttc_subscribe_on_connect_blocks [where h = 1 and run' = "\<lambda>h ctx ev c. Some c" and t = "''t''" and q = 0])
     (simp_all add: esp_mqtt_client_init_def)

end
