(* ===== verification/Net_Services.thy ===== *)
theory Net_Services
  imports Http_Text
begin

unbundle bit_operations_syntax

text \<open>
  The network services a sketch sees behind the sockets: addresses and the station (\<open>src/include/WiFi.h\<close>), the provisioning portal
  (\<open>WiFiManager.h\<close>), the wired interface (\<open>Ethernet.h\<close>), \<open>AsyncTCP.h\<close> and \<open>AsyncUDP.h\<close>, the interface objects of
  \<open>esp_netif.h\<close>, names (\<open>ESPmDNS.h\<close>, \<open>DNSServer.h\<close>), time (\<open>esp_sntp.h\<close>) and updates over the air (\<open>ArduinoOTA.h\<close>).
  The lemmas show that the text of an address determines it and that numbers and texts of addresses agree, when the status of the
  station is the result of \<open>begin\<close>, that what is received is read in order, where a formatted reply reads behind its buffer, which
  service a text record goes to, and which names of time servers are kept.
\<close>

section \<open>Addresses\<close>

type_synonym octets = "byte \<times> byte \<times> byte \<times> byte"

fun ip_u32 :: "octets \<Rightarrow> u32" where
  "ip_u32 (a, b, c, d) = ucast a OR push_bit 8 (ucast b) OR push_bit 16 (ucast c) OR push_bit 24 (ucast d)"

definition dotted :: "int \<Rightarrow> int \<Rightarrow> int \<Rightarrow> int \<Rightarrow> string" where
  "dotted a b c d = to_string a @ ''.'' @ to_string b @ ''.'' @ to_string c @ ''.'' @ to_string d"

text \<open>\<open>snprintf\<close> into a buffer of \<open>len\<close> characters keeps one for the end.\<close>

definition snprintf :: "nat \<Rightarrow> string \<Rightarrow> string" where
  "snprintf len s = take (len - 1) s"

fun ip_text :: "octets \<Rightarrow> string" where
  "ip_text (a, b, c, d) = snprintf 20 (dotted (uint a) (uint b) (uint c) (uint d))"

fun eth_u32 :: "octets \<Rightarrow> u32" where
  "eth_u32 (a, b, c, d) = push_bit 24 (ucast d) OR push_bit 16 (ucast c) OR push_bit 8 (ucast b) OR ucast a"

fun eth_text :: "octets \<Rightarrow> string" where
  "eth_text (a, b, c, d) = snprintf 16 (dotted (uint a) (uint b) (uint c) (uint d))"

lemma to_string_byte: "to_string (uint (b :: byte)) = digits_of 10 (unat b)"
  by (simp add: to_string_def not_less)

lemma length_digits_byte:
  assumes "n < 256"
  shows "length (digits_of 10 n) \<le> 3"
proof -
  have 1: "digits_of 10 k = [digit_char k]" if "k < 10" for k
    using that by (simp add: digits_of.simps)
  have 2: "length (digits_of 10 k) \<le> 2" if "k < 100" for k
    using that 1 [of "k div 10"] 1 [of k] by (cases "k < 10") (simp_all add: digits_of.simps [of 10 k])
  show ?thesis
    using assms 2 [of "n div 10"] 1 [of n] by (cases "n < 10") (simp_all add: digits_of.simps [of 10 n])
qed

lemma unat_byte: "unat (x :: byte) < 256"
  using unat_bound [of x] by simp

lemma length_dotted: "length (dotted (uint (a :: byte)) (uint (b :: byte)) (uint (c :: byte)) (uint (d :: byte))) \<le> 15"
proof -
  have "length (digits_of 10 (unat x)) \<le> 3" for x :: byte
    using length_digits_byte [of "unat x"] unat_byte [of x] by simp
  from this [of a] this [of b] this [of c] this [of d] show ?thesis
    by (simp add: dotted_def to_string_byte)
qed

lemma digits_dot:
  assumes "digits_of 10 m @ CHR ''.'' # r = digits_of 10 n @ CHR ''.'' # s" "m < 256" "n < 256"
  shows "m = n \<and> r = s"
proof -
  have dot: "CHR ''.'' # t = [] \<or> \<not> is_digit_in 10 (hd (CHR ''.'' # t))" for t
    by (simp add: is_digit_in_def hex_value_def ord_def)
  have big: "k < 2 ^ 63" if "k < 256" for k :: nat
    using that by simp
  have "Some (int m, CHR ''.'' # r) = Some (int n, CHR ''.'' # s)"
    unfolding strtol10_numeral(1) [OF dot big [OF assms(2)], symmetric] strtol10_numeral(1) [OF dot big [OF assms(3)], symmetric]
    by (simp only: assms(1))
  then show ?thesis
    by simp
qed

lemma digits_end:
  assumes "digits_of 10 m = digits_of 10 n" "m < 256" "n < 256"
  shows "m = n"
  using digits_dot [of m "[]" n "[]"] assms by simp

lemma dotted_inject:
  fixes a b c d a' b' c' d' :: byte
  assumes "dotted (uint a) (uint b) (uint c) (uint d) = dotted (uint a') (uint b') (uint c') (uint d')"
  shows "(a, b, c, d) = (a', b', c', d')"
proof -
  have u: "unat x < 256" for x :: byte
    by (rule unat_byte)
  have e: "digits_of 10 (unat a) @ CHR ''.'' # digits_of 10 (unat b) @ CHR ''.'' # digits_of 10 (unat c) @ CHR ''.'' # digits_of 10 (unat d) =
    digits_of 10 (unat a') @ CHR ''.'' # digits_of 10 (unat b') @ CHR ''.'' # digits_of 10 (unat c') @ CHR ''.'' # digits_of 10 (unat d')"
    using assms by (simp add: dotted_def to_string_byte)
  note 1 = digits_dot [OF e u u]
  note 2 = digits_dot [OF conjunct2 [OF 1] u u]
  note 3 = digits_dot [OF conjunct2 [OF 2] u u]
  note 4 = digits_end [OF conjunct2 [OF 3] u u]
  show ?thesis
    using 1 2 3 4 by (simp add: word_unat_eq_iff)
qed

text \<open>
  No buffer cuts the text of an address, and the text determines the address; the two classes of addresses give the same
  number and the same text.
\<close>

theorem ip_text_complete:
  "ip_text (a, b, c, d) = dotted (uint a) (uint b) (uint c) (uint d) \<and> eth_text (a, b, c, d) = ip_text (a, b, c, d) \<and>
   eth_u32 (a, b, c, d) = ip_u32 (a, b, c, d) \<and> (ip_text (a, b, c, d) = ip_text (a', b', c', d') \<longleftrightarrow> (a, b, c, d) = (a', b', c', d'))"
proof -
  have t: "ip_text (a, b, c, d) = dotted (uint a) (uint b) (uint c) (uint d)" for a b c d
    using length_dotted [of a b c d] by (simp add: snprintf_def)
  have e: "eth_text (a, b, c, d) = dotted (uint a) (uint b) (uint c) (uint d)"
    using length_dotted [of a b c d] by (simp add: snprintf_def)
  show ?thesis
    using t [of a b c d] t [of a' b' c' d'] e dotted_inject [of a b c d a' b' c' d'] by (auto simp: ac_simps)
qed

section \<open>The station, \<open>WiFi.h\<close>\<close>

abbreviation (input) "WL_CONNECTED \<equiv> (3 :: int)"
abbreviation (input) "WL_DISCONNECTED \<equiv> (6 :: int)"

record wifi =
  wiConnected :: bool
  wiMode :: int
  wiSsid :: string
  wiHost :: string
  wiScan :: "(string \<times> int) list"

definition wifi_new :: wifi where
  "wifi_new = \<lparr>wiConnected = False, wiMode = 1, wiSsid = [], wiHost = ''esp32emu'', wiScan = []\<rparr>"

definition wifi_mode :: "int \<Rightarrow> wifi \<Rightarrow> wifi" where
  "wifi_mode m s = s\<lparr>wiMode := m\<rparr>"

text \<open>\<open>chk\<close> is what the callback of the board says of its radio.\<close>

definition wifi_begin :: "bool \<Rightarrow> string option \<Rightarrow> wifi \<Rightarrow> int \<times> wifi" where
  "wifi_begin chk ssid s =
    (if \<not> chk then (WL_DISCONNECTED, s)
     else (WL_CONNECTED, s\<lparr>wiSsid := (case ssid of Some n \<Rightarrow> c_str n | None \<Rightarrow> []), wiConnected := True\<rparr>))"

definition wifi_disconnect :: "wifi \<Rightarrow> wifi" where
  "wifi_disconnect s = s\<lparr>wiConnected := False\<rparr>"

definition wifi_status :: "wifi \<Rightarrow> int" where
  "wifi_status s = (if wiConnected s then WL_CONNECTED else WL_DISCONNECTED)"

definition wifi_scanNetworks :: "bool \<Rightarrow> wifi \<Rightarrow> nat \<times> wifi" where
  "wifi_scanNetworks chk s = (if \<not> chk then (0, s\<lparr>wiScan := []\<rparr>) else (length (wiScan s), s))"

definition wifi_SSID :: "byte \<Rightarrow> wifi \<Rightarrow> string" where
  "wifi_SSID i s = (if unat i < length (wiScan s) then c_str (fst (wiScan s ! unat i)) else [])"

definition wifi_RSSI :: "byte \<Rightarrow> wifi \<Rightarrow> int" where
  "wifi_RSSI i s = (if unat i < length (wiScan s) then snd (wiScan s ! unat i) else 0)"

definition wifi_setScanResults :: "(string \<times> int) list \<Rightarrow> wifi \<Rightarrow> wifi" where
  "wifi_setScanResults rs s = s\<lparr>wiScan := rs\<rparr>"

definition wifi_setHostname :: "string option \<Rightarrow> wifi \<Rightarrow> wifi" where
  "wifi_setHostname n s = s\<lparr>wiHost := (case n of Some h \<Rightarrow> c_str h | None \<Rightarrow> [])\<rparr>"

text \<open>
  The result of \<open>begin\<close> is the status afterwards, unless the board has no radio any more and the station was connected: then \<open>begin\<close>
  reports a failure and the status stays connected.
\<close>

theorem wifi_begin_status:
  "(let (r, t) = wifi_begin chk ssid s in r = wifi_status t) \<longleftrightarrow> chk \<or> \<not> wiConnected s"
  by (auto simp: wifi_begin_def wifi_status_def)

text \<open>
  A scan reports the networks that were set; each has its name and its strength. Networks from the 256th on cannot be asked for: the
  index is a byte.
\<close>

theorem wifi_scan:
  "let (n, t) = wifi_scanNetworks chk (wifi_setScanResults rs s)
   in n = (if chk then length rs else 0) \<and>
      map (\<lambda>i. (wifi_SSID (of_nat i) t, wifi_RSSI (of_nat i) t)) [0..<min n 256] =
        map (\<lambda>(ssid, rssi). (c_str ssid, rssi)) (take (min n 256) rs)"
proof -
  have u: "unat (of_nat i :: byte) = i" if "i < 256" for i
    using that by (simp add: unat_of_nat take_bit_nat_eq_self)
  show ?thesis
    by (auto simp: wifi_scanNetworks_def wifi_setScanResults_def wifi_SSID_def wifi_RSSI_def Let_def u
        intro!: nth_equalityI split: prod.splits)
qed

section \<open>The provisioning portal, \<open>WiFiManager.h\<close>\<close>

record wm_param =
  wpId :: string
  wpLabel :: string
  wpValue :: string
  wpHtml :: string
  wpLen :: int

definition wm_param_new :: "string option \<Rightarrow> string option \<Rightarrow> string option \<Rightarrow> int \<Rightarrow> wm_param" where
  "wm_param_new i l d n =
    (let str = (\<lambda>p. case p of Some s \<Rightarrow> c_str s | None \<Rightarrow> []) in \<lparr>wpId = str i, wpLabel = str l, wpValue = str d, wpHtml = [], wpLen = n\<rparr>)"

definition wm_param_html :: "string option \<Rightarrow> wm_param" where
  "wm_param_html h = \<lparr>wpId = [], wpLabel = [], wpValue = [], wpHtml = (case h of Some s \<Rightarrow> c_str s | None \<Rightarrow> []), wpLen = 0\<rparr>"

definition wm_param_set :: "string option \<Rightarrow> wm_param \<Rightarrow> wm_param" where
  "wm_param_set v p = p\<lparr>wpValue := (case v of Some s \<Rightarrow> c_str s | None \<Rightarrow> [])\<rparr>"

text \<open>
  A parameter in the list is the sketch's own, known by its number. A callback is what it does to the manager.
\<close>

record wifi_manager =
  wmApName :: string
  wmApPass :: string
  wmSsid :: string
  wmPass :: string
  wmConnected :: bool
  wmPortal :: bool
  wmForce :: bool
  wmFail :: bool
  wmParams :: "nat list"

definition wm_new :: wifi_manager where
  "wm_new =
    \<lparr>wmApName = [], wmApPass = [], wmSsid = [], wmPass = [], wmConnected = False, wmPortal = False, wmForce = False, wmFail = False, wmParams = []\<rparr>"

definition wm_call :: "(wifi_manager \<Rightarrow> wifi_manager) option \<Rightarrow> wifi_manager \<Rightarrow> wifi_manager" where
  "wm_call cb s = (case cb of Some f \<Rightarrow> f s | None \<Rightarrow> s)"

definition wm_named :: "string option \<Rightarrow> string option \<Rightarrow> wifi_manager \<Rightarrow> wifi_manager" where
  "wm_named name pass s =
    (let s = s\<lparr>wmApName := (case name of Some n \<Rightarrow> c_str n | None \<Rightarrow> [])\<rparr>
     in case pass of Some p \<Rightarrow> s\<lparr>wmApPass := c_str p\<rparr> | None \<Rightarrow> s)"

definition wm_autoConnect ::
  "(wifi_manager \<Rightarrow> wifi_manager) option \<Rightarrow> (wifi_manager \<Rightarrow> wifi_manager) option \<Rightarrow> (wifi_manager \<Rightarrow> wifi_manager) option \<Rightarrow>
   string option \<Rightarrow> string option \<Rightarrow> wifi_manager \<Rightarrow> bool \<times> wifi_manager" where
  "wm_autoConnect ap save fail name pass s =
    (let s = wm_named name pass s;
         s = (if wmForce s then
                let s = wm_call ap s; s = s\<lparr>wmPortal := True\<rparr>; s = wm_call save s in s\<lparr>wmPortal := False\<rparr>
              else s);
         s = s\<lparr>wmConnected := \<not> wmFail s\<rparr>;
         s = (if wmConnected s then s else wm_call fail s)
     in (wmConnected s, s))"

definition wm_startConfigPortal ::
  "(wifi_manager \<Rightarrow> wifi_manager) option \<Rightarrow> (wifi_manager \<Rightarrow> wifi_manager) option \<Rightarrow> string option \<Rightarrow> string option \<Rightarrow>
   wifi_manager \<Rightarrow> bool \<times> wifi_manager" where
  "wm_startConfigPortal ap save name pass s =
    (let s = wm_named name pass s; s = s\<lparr>wmPortal := True\<rparr>; s = wm_call ap s; s = wm_call save s; s = s\<lparr>wmPortal := False\<rparr>;
         s = s\<lparr>wmConnected := \<not> wmFail s\<rparr>
     in (wmConnected s, s))"

definition wm_resetSettings :: "wifi_manager \<Rightarrow> wifi_manager" where
  "wm_resetSettings s = s\<lparr>wmSsid := [], wmPass := [], wmConnected := False\<rparr>"

definition wm_addParameter :: "nat option \<Rightarrow> wifi_manager \<Rightarrow> wifi_manager" where
  "wm_addParameter p s = (case p of Some i \<Rightarrow> s\<lparr>wmParams := wmParams s @ [i]\<rparr> | None \<Rightarrow> s)"

definition wm_getParameters :: "wifi_manager \<Rightarrow> nat list option" where
  "wm_getParameters s = (if wmParams s = [] then None else Some (wmParams s))"

definition wm_setFail :: "bool \<Rightarrow> wifi_manager \<Rightarrow> wifi_manager" where
  "wm_setFail b s = s\<lparr>wmFail := b\<rparr>"

definition wm_setForce :: "bool \<Rightarrow> wifi_manager \<Rightarrow> wifi_manager" where
  "wm_setForce b s = s\<lparr>wmForce := b\<rparr>"

definition wm_setSSID :: "string option \<Rightarrow> wifi_manager \<Rightarrow> wifi_manager" where
  "wm_setSSID n s = s\<lparr>wmSsid := (case n of Some h \<Rightarrow> c_str h | None \<Rightarrow> [])\<rparr>"

definition wm_setPassword :: "string option \<Rightarrow> wifi_manager \<Rightarrow> wifi_manager" where
  "wm_setPassword n s = s\<lparr>wmPass := (case n of Some h \<Rightarrow> c_str h | None \<Rightarrow> [])\<rparr>"

text \<open>
  The two ways into the portal agree on the result and leave the portal closed, whatever the callbacks do; but only in one of them is the
  portal open when the callback for the access point is called.
\<close>

definition probe :: "wifi_manager \<Rightarrow> wifi_manager" where
  "probe s = s\<lparr>wmSsid := (if wmPortal s then ''open'' else ''closed'')\<rparr>"

theorem wifi_manager_portal:
  assumes "wmForce s" "\<not> wmPortal s"
  shows "wmSsid (snd (wm_autoConnect (Some probe) None None name pass s)) = ''closed''"
    "wmSsid (snd (wm_startConfigPortal (Some probe) None name pass s)) = ''open''"
    "(let (r, t) = wm_autoConnect ap save None name pass s in wmPortal t = False \<and> r = (\<not> wmFail t))"
    "(let (r, t) = wm_startConfigPortal ap save name pass s in wmPortal t = False \<and> r = (\<not> wmFail t))"
  using assms
  by (auto simp: wm_autoConnect_def wm_startConfigPortal_def wm_call_def wm_named_def probe_def Let_def split: option.splits)

section \<open>Interface objects, \<open>esp_netif.h\<close>\<close>

record netif_obj =
  niIp :: octets
  niGw :: octets
  niMask :: octets
  niSta :: bool

datatype netif = NetifSta | NetifAp

record netif_state =
  niInit :: bool
  niStaObj :: netif_obj
  niApObj :: netif_obj

definition netif_reset :: netif_state where
  "netif_reset =
    \<lparr>niInit = False,
     niStaObj = \<lparr>niIp = (192, 168, 4, 100), niGw = (192, 168, 4, 1), niMask = (255, 255, 255, 0), niSta = True\<rparr>,
     niApObj = \<lparr>niIp = (192, 168, 4, 1), niGw = (192, 168, 4, 1), niMask = (255, 255, 255, 0), niSta = False\<rparr>\<rparr>"

definition netif_setStaIp :: "byte \<Rightarrow> byte \<Rightarrow> byte \<Rightarrow> byte \<Rightarrow> netif_state \<Rightarrow> netif_state" where
  "netif_setStaIp a b c d s = s\<lparr>niStaObj := (niStaObj s)\<lparr>niIp := (a, b, c, d)\<rparr>\<rparr>"

definition netif_init :: "netif_state \<Rightarrow> esp_err \<times> netif_state" where
  "netif_init s = (ESP_OK, s\<lparr>niInit := True\<rparr>)"

definition netif_deinit :: "netif_state \<Rightarrow> esp_err \<times> netif_state" where
  "netif_deinit s = (ESP_OK, s\<lparr>niInit := False\<rparr>)"

definition netif_of :: "netif \<Rightarrow> netif_state \<Rightarrow> netif_obj" where
  "netif_of n s = (case n of NetifSta \<Rightarrow> niStaObj s | NetifAp \<Rightarrow> niApObj s)"

text \<open>The information is written where the caller has room for it; without an interface or room the call fails.\<close>

definition netif_get_ip_info :: "netif option \<Rightarrow> bool \<Rightarrow> netif_state \<Rightarrow> esp_err \<times> (u32 \<times> u32 \<times> u32) option" where
  "netif_get_ip_info n room s =
    (case n of
       None \<Rightarrow> (ESP_FAIL, None)
     | Some n \<Rightarrow>
         if \<not> room then (ESP_FAIL, None)
         else let obj = netif_of n s in (ESP_OK, Some (ip_u32 (niIp obj), ip_u32 (niGw obj), ip_u32 (niMask obj))))"

definition netif_get_ifkey :: "netif \<Rightarrow> netif_state \<Rightarrow> string" where
  "netif_get_ifkey n s = (if niSta (netif_of n s) then ''WIFI_STA_DEF'' else ''WIFI_AP_DEF'')"

definition netif_ip_to_str :: "u32 \<Rightarrow> nat \<Rightarrow> string" where
  "netif_ip_to_str addr len =
    snprintf len (dotted (uint (addr AND 0xFF)) (uint (drop_bit 8 addr AND 0xFF)) (uint (drop_bit 16 addr AND 0xFF))
      (uint (drop_bit 24 addr AND 0xFF)))"

lemma and_0xFF: "w AND 0xFF = (take_bit 8 w :: u32)"
  using take_bit_eq_mask [of 8 w] by (simp add: mask_eq_exp_minus_1)

lemma ip_u32_octet:
  "ip_u32 (a, b, c, d) AND 0xFF = ucast a" "drop_bit 8 (ip_u32 (a, b, c, d)) AND 0xFF = ucast b"
  "drop_bit 16 (ip_u32 (a, b, c, d)) AND 0xFF = ucast c" "drop_bit 24 (ip_u32 (a, b, c, d)) AND 0xFF = ucast d"
  unfolding and_0xFF
  by (rule bit_word_eqI; auto simp: bit_simps dest: bit_imp_le_length)+

lemma netif_text: "netif_ip_to_str (ip_u32 (a, b, c, d)) len = take (len - 1) (ip_text (a, b, c, d))"
proof -
  have u: "uint (ucast x :: u32) = uint x" for x :: byte
    by (rule bit_eqI) (auto simp: bit_simps dest: bit_imp_le_length)
  have "dotted (uint (ip_u32 (a, b, c, d) AND 0xFF)) (uint (drop_bit 8 (ip_u32 (a, b, c, d)) AND 0xFF))
      (uint (drop_bit 16 (ip_u32 (a, b, c, d)) AND 0xFF)) (uint (drop_bit 24 (ip_u32 (a, b, c, d)) AND 0xFF)) =
    dotted (uint a) (uint b) (uint c) (uint d)"
    unfolding ip_u32_octet u ..
  then show ?thesis
    using length_dotted [of a b c d] by (simp add: netif_ip_to_str_def snprintf_def del: ip_u32.simps)
qed

text \<open>
  A sketch that asks for the address of the station and prints it into a buffer of 16 characters gets the address that was set, as
  \<open>IPAddress::toString\<close> prints it, whether or not the layer was started; a smaller buffer gets a front part of it.
\<close>

theorem netif_address_printed:
  "\<exists>ip gw mask. netif_get_ip_info (Some NetifSta) True (netif_setStaIp a b c d s) = (ESP_OK, Some (ip, gw, mask)) \<and>
    (16 \<le> len \<longrightarrow> netif_ip_to_str ip len = ip_text (a, b, c, d)) \<and>
    prefix (netif_ip_to_str ip len) (ip_text (a, b, c, d)) \<and>
    netif_get_ip_info (Some NetifAp) True (netif_setStaIp a b c d s) = netif_get_ip_info (Some NetifAp) True s"
proof -
  have "length (ip_text (a, b, c, d)) \<le> 15"
    using length_dotted [of a b c d] by (simp add: snprintf_def)
  moreover have "prefix (take (len - 1) (ip_text (a, b, c, d))) (ip_text (a, b, c, d))"
    by (rule take_is_prefix)
  ultimately show ?thesis
    by (simp add: netif_get_ip_info_def netif_setStaIp_def netif_of_def netif_text del: ip_u32.simps ip_text.simps)
qed

section \<open>Wired clients and servers, \<open>Ethernet.h\<close>\<close>

record eth_client =
  ecConnected :: bool
  ecHost :: string
  ecPort :: u16
  ecTx :: "byte list"
  ecRx :: "byte list"
  ecPos :: nat

definition ec_new :: eth_client where
  "ec_new = \<lparr>ecConnected = False, ecHost = [], ecPort = 0, ecTx = [], ecRx = [], ecPos = 0\<rparr>"

definition ec_connect :: "string \<Rightarrow> u16 \<Rightarrow> eth_client \<Rightarrow> int \<times> eth_client" where
  "ec_connect host port c = (1, c\<lparr>ecHost := host, ecPort := port, ecConnected := True\<rparr>)"

definition ec_connect_ip :: "octets \<Rightarrow> u16 \<Rightarrow> eth_client \<Rightarrow> int \<times> eth_client" where
  "ec_connect_ip ip port c = ec_connect (eth_text ip) port c"

definition ec_stop :: "eth_client \<Rightarrow> eth_client" where
  "ec_stop c = c\<lparr>ecConnected := False\<rparr>"

definition ec_write :: "byte \<Rightarrow> eth_client \<Rightarrow> nat \<times> eth_client" where
  "ec_write b c = (1, c\<lparr>ecTx := ecTx c @ [b]\<rparr>)"

definition ec_write_buf :: "byte list \<Rightarrow> eth_client \<Rightarrow> nat \<times> eth_client" where
  "ec_write_buf bs c = (length bs, c\<lparr>ecTx := ecTx c @ bs\<rparr>)"

definition text_bytes :: "string \<Rightarrow> byte list" where
  "text_bytes s = map of_char (c_str s)"

definition ec_print :: "string \<Rightarrow> eth_client \<Rightarrow> nat \<times> eth_client" where
  "ec_print s c = ec_write_buf (text_bytes s) c"

definition ec_println :: "string \<Rightarrow> eth_client \<Rightarrow> nat \<times> eth_client" where
  "ec_println s c = (let (n, c) = ec_print s c; (k, c) = ec_write 13 c; (l, c) = ec_write 10 c in (n + k + l, c))"

definition ec_available :: "eth_client \<Rightarrow> nat" where
  "ec_available c = length (ecRx c) - ecPos c"

definition ec_read :: "eth_client \<Rightarrow> int \<times> eth_client" where
  "ec_read c = (if ecPos c \<ge> length (ecRx c) then (- 1, c) else (uint (ecRx c ! ecPos c), c\<lparr>ecPos := ecPos c + 1\<rparr>))"

fun ec_read_buf :: "nat \<Rightarrow> eth_client \<Rightarrow> byte list \<times> eth_client" where
  "ec_read_buf 0 c = ([], c)"
| "ec_read_buf (Suc len) c =
    (if ecPos c < length (ecRx c) then
       let (bs, d) = ec_read_buf len (c\<lparr>ecPos := ecPos c + 1\<rparr>) in (ecRx c ! ecPos c # bs, d)
     else ([], c))"

definition ec_peek :: "eth_client \<Rightarrow> int" where
  "ec_peek c = (if ecPos c \<ge> length (ecRx c) then - 1 else uint (ecRx c ! ecPos c))"

definition ec_flush :: "eth_client \<Rightarrow> eth_client" where
  "ec_flush c = c\<lparr>ecTx := []\<rparr>"

definition ec_injectRx :: "byte list \<Rightarrow> eth_client \<Rightarrow> eth_client" where
  "ec_injectRx bs c = c\<lparr>ecRx := ecRx c @ bs\<rparr>"

record eth_server =
  esPort :: u16
  esRunning :: bool
  esPending :: "eth_client list"

definition es_begin :: "eth_server \<Rightarrow> eth_server" where
  "es_begin s = s\<lparr>esRunning := True\<rparr>"

definition es_available :: "eth_server \<Rightarrow> eth_client \<times> eth_server" where
  "es_available s = (case esPending s of c # cs \<Rightarrow> (c, s\<lparr>esPending := cs\<rparr>) | [] \<Rightarrow> (ec_new, s))"

definition es_injectClient :: "eth_client \<Rightarrow> eth_server \<Rightarrow> eth_server" where
  "es_injectClient c s = s\<lparr>esPending := esPending s @ [c]\<rparr>"

record eth =
  etUp :: bool
  etMac :: "byte list"
  etIp :: octets

text \<open>A MAC address is the six bytes at the caller's pointer.\<close>

definition eth_begin_dhcp :: "byte list \<Rightarrow> eth \<Rightarrow> (int \<times> eth) option" where
  "eth_begin_dhcp mac s =
    (if length mac < 6 then None else Some (1, s\<lparr>etMac := take 6 mac, etUp := True, etIp := (192, 168, 1, 100)\<rparr>))"

definition eth_begin_static :: "byte list \<Rightarrow> octets \<Rightarrow> eth \<Rightarrow> eth option" where
  "eth_begin_static mac ip s = (if length mac < 6 then None else Some (s\<lparr>etMac := take 6 mac, etIp := ip, etUp := True\<rparr>))"

definition eth_linkStatus :: "eth \<Rightarrow> int" where
  "eth_linkStatus s = (if etUp s then 1 else 0)"

text \<open>What is left to read.\<close>

definition ec_rest :: "eth_client \<Rightarrow> byte list" where
  "ec_rest c = drop (ecPos c) (ecRx c)"

fun ec_reads :: "nat list \<Rightarrow> eth_client \<Rightarrow> byte list \<times> eth_client" where
  "ec_reads [] c = ([], c)"
| "ec_reads (n # ns) c = (let (bs, c) = ec_read_buf n c; (cs, c) = ec_reads ns c in (bs @ cs, c))"

lemma ec_read_buf_rest:
  "fst (ec_read_buf n c) = take n (ec_rest c) \<and> ec_rest (snd (ec_read_buf n c)) = drop n (ec_rest c)"
proof (induction n arbitrary: c)
  case (Suc n)
  show ?case
  proof (cases "ecPos c < length (ecRx c)")
    case True
    define d where "d = c\<lparr>ecPos := Suc (ecPos c)\<rparr>"
    have "ec_rest c = ecRx c ! ecPos c # ec_rest d"
      using Cons_nth_drop_Suc [OF True] by (simp add: ec_rest_def d_def)
    then show ?thesis
      using True Suc.IH [of d] by (simp add: d_def [symmetric] case_prod_unfold Let_def)
  next
    case False
    then show ?thesis
      by (simp add: ec_rest_def)
  qed
qed simp

text \<open>
  What arrives is read once and in order, whatever the sizes of the reads; a single read and a look ahead give the next byte or -1; and
  what \<open>available\<close> says can be read.
\<close>

theorem ethernet_reads_in_order:
  "fst (ec_reads ns c) = take (sum_list ns) (ec_rest c) \<and> ec_rest (snd (ec_reads ns c)) = drop (sum_list ns) (ec_rest c) \<and>
   ec_rest (ec_injectRx bs c) = (if ecPos c \<le> length (ecRx c) then ec_rest c @ bs else drop (ecPos c - length (ecRx c)) bs) \<and>
   fst (ec_read c) = (case ec_rest c of [] \<Rightarrow> - 1 | b # _ \<Rightarrow> uint b) \<and> ec_peek c = fst (ec_read c) \<and>
   ec_rest (snd (ec_read c)) = tl (ec_rest c) \<and> ec_available c = length (ec_rest c)"
proof -
  have "fst (ec_reads ns c) = take (sum_list ns) (ec_rest c) \<and> ec_rest (snd (ec_reads ns c)) = drop (sum_list ns) (ec_rest c)"
  proof (induction ns arbitrary: c)
    case (Cons n ns)
    then show ?case
      using ec_read_buf_rest [of n c] Cons.IH [of "snd (ec_read_buf n c)"]
      by (simp add: case_prod_unfold Let_def take_add add.commute)
  qed simp
  moreover have "fst (ec_read c) = (case ec_rest c of [] \<Rightarrow> - 1 | b # _ \<Rightarrow> uint b) \<and> ec_peek c = fst (ec_read c) \<and>
     ec_rest (snd (ec_read c)) = tl (ec_rest c)"
    using Cons_nth_drop_Suc [of "ecPos c" "ecRx c", symmetric]
    by (cases "ecPos c < length (ecRx c)") (simp_all add: ec_read_def ec_peek_def ec_rest_def)
  ultimately show ?thesis
    by (simp add: ec_rest_def ec_available_def ec_injectRx_def)
qed

text \<open>Clients are handed out once, in the order they arrived; with none waiting the answer is a client that is not connected.\<close>

theorem ethernet_server_order:
  "es_available (fold es_injectClient (c # cs) (s\<lparr>esPending := []\<rparr>)) = (c, fold es_injectClient cs (s\<lparr>esPending := []\<rparr>)) \<and>
   es_available (s\<lparr>esPending := []\<rparr>) = (ec_new, s\<lparr>esPending := []\<rparr>)"
proof -
  have "esPending (fold es_injectClient cs s) = esPending s @ cs \<and>
    esPending_update (\<lambda>_. x) (fold es_injectClient cs s) = s\<lparr>esPending := x\<rparr>" for s x
    by (induction cs arbitrary: s) (simp_all add: es_injectClient_def)
  then have p: "fold es_injectClient cs s = s\<lparr>esPending := esPending s @ cs\<rparr>" for s cs
    by (induction cs arbitrary: s) (simp_all add: es_injectClient_def)
  show ?thesis
    by (simp add: p es_available_def es_injectClient_def)
qed

section \<open>\<open>AsyncTCP.h\<close>\<close>

text \<open>A handler is set under the name of its event; the calls are listed.\<close>

datatype at_event = AtConnected | AtDisconnected | AtData "byte list" | AtClient nat

record async_client =
  atHost :: string
  atPort :: u16
  atConnected :: bool
  atNoDelay :: bool
  atFail :: bool
  atRxTimeout :: u32
  atAckTimeout :: u32
  atTx :: string
  atHandlers :: "string set"

definition at_new :: async_client where
  "at_new =
    \<lparr>atHost = [], atPort = 0, atConnected = False, atNoDelay = False, atFail = False, atRxTimeout = 0, atAckTimeout = 0, atTx = [],
     atHandlers = {}\<rparr>"

definition at_on :: "string \<Rightarrow> async_client \<Rightarrow> async_client" where
  "at_on e c = c\<lparr>atHandlers := insert e (atHandlers c)\<rparr>"

definition at_call :: "string \<Rightarrow> at_event \<Rightarrow> async_client \<Rightarrow> at_event list" where
  "at_call e k c = (if e \<in> atHandlers c then [k] else [])"

definition at_connect :: "string option \<Rightarrow> u16 \<Rightarrow> async_client \<Rightarrow> bool \<times> at_event list \<times> async_client" where
  "at_connect host port c =
    (let c = c\<lparr>atHost := (case host of Some h \<Rightarrow> c_str h | None \<Rightarrow> []), atPort := port, atConnected := \<not> atFail c\<rparr>
     in (atConnected c, if atConnected c then at_call ''connect'' AtConnected c else [], c))"

definition at_close :: "async_client \<Rightarrow> at_event list \<times> async_client" where
  "at_close c = (let c = c\<lparr>atConnected := False\<rparr> in (at_call ''disconnect'' AtDisconnected c, c))"

definition at_write :: "string \<Rightarrow> async_client \<Rightarrow> nat \<times> async_client" where
  "at_write d c = (if \<not> atConnected c then (0, c) else (length d, c\<lparr>atTx := atTx c @ d\<rparr>))"

definition at_write_str :: "string option \<Rightarrow> async_client \<Rightarrow> nat \<times> async_client" where
  "at_write_str d c = (case d of Some s \<Rightarrow> at_write (c_str s) c | None \<Rightarrow> (0, c))"

definition at_setRxTimeout :: "u32 \<Rightarrow> async_client \<Rightarrow> async_client" where
  "at_setRxTimeout t c = c\<lparr>atRxTimeout := t\<rparr>"

definition at_setAckTimeout :: "u32 \<Rightarrow> async_client \<Rightarrow> async_client" where
  "at_setAckTimeout t c = c\<lparr>atAckTimeout := t\<rparr>"

definition at_setNoDelay :: "bool \<Rightarrow> async_client \<Rightarrow> async_client" where
  "at_setNoDelay b c = c\<lparr>atNoDelay := b\<rparr>"

definition at_remoteIP :: u32 where
  "at_remoteIP = 0x7F000001"

definition at_injectData :: "byte list \<Rightarrow> async_client \<Rightarrow> at_event list" where
  "at_injectData d c = at_call ''data'' (AtData d) c"

record async_server =
  asPort :: u16
  asRunning :: bool
  asHandler :: bool

definition as_begin :: "async_server \<Rightarrow> async_server" where
  "as_begin s = s\<lparr>asRunning := True\<rparr>"

definition as_end :: "async_server \<Rightarrow> async_server" where
  "as_end s = s\<lparr>asRunning := False\<rparr>"

definition as_onClient :: "async_server \<Rightarrow> async_server" where
  "as_onClient s = s\<lparr>asHandler := True\<rparr>"

definition as_injectClient :: "nat \<Rightarrow> async_server \<Rightarrow> at_event list" where
  "as_injectClient c s = (if asHandler s then [AtClient c] else [])"

text \<open>
  A connection attempt decides whether what is written next is taken, all of it or nothing; closing tells the handler even if nothing
  was connected. The address of the peer is the loopback address with its bytes in the other order than \<open>WiFi.h\<close> numbers them.
\<close>

theorem async_tcp_writes:
  "let (r, calls, d) = at_connect host port c; (n, e) = at_write s d
   in r = (\<not> atFail c) \<and> (r \<longrightarrow> n = length s \<and> atTx e = atTx c @ s) \<and> (\<not> r \<longrightarrow> n = 0 \<and> e = d \<and> atTx e = atTx c \<and> calls = [])"
    "''disconnect'' \<in> atHandlers c \<Longrightarrow> fst (at_close c) = [AtDisconnected]"
    "at_remoteIP \<noteq> ip_u32 (127, 0, 0, 1) \<and> at_remoteIP = ip_u32 (1, 0, 0, 127)"
  by (auto simp: at_connect_def at_write_def at_close_def at_call_def at_remoteIP_def Let_def)

section \<open>\<open>AsyncUDP.h\<close>\<close>

record udp_packet =
  upData :: "byte list"
  upRemoteIp :: string
  upRemotePort :: u16
  upLocalPort :: u16
  upReply :: "byte list"

record async_udp =
  auPort :: u16
  auRemotePort :: u16
  auListening :: bool
  auConnected :: bool
  auMulticast :: bool
  auTotal :: u64
  auSent :: "byte list"
  auHandler :: bool

definition au_new :: async_udp where
  "au_new =
    \<lparr>auPort = 0, auRemotePort = 0, auListening = False, auConnected = False, auMulticast = False, auTotal = 0, auSent = [], auHandler = False\<rparr>"

definition packet_write :: "byte list \<Rightarrow> udp_packet \<Rightarrow> nat \<times> udp_packet" where
  "packet_write bs p = (length bs, p\<lparr>upReply := bs\<rparr>)"

text \<open>
  \<open>vsnprintf\<close> fills a buffer of 256 bytes with what fits of the text and the zero behind it, and returns the length of the whole text;
  that many bytes are then read from the buffer. \<open>None\<close> stands for a read behind its end. The text has no zeros.
\<close>

definition packet_printf :: "byte list \<Rightarrow> udp_packet \<Rightarrow> (nat \<times> udp_packet) option" where
  "packet_printf out p =
    (let buf = blit (replicate 256 0) 0 (take 255 out); n = length out
     in if n > 0 then if n \<le> length buf then Some (n, snd (packet_write (take n buf) p)) else None else Some (0, p))"

definition au_listen :: "u16 \<Rightarrow> async_udp \<Rightarrow> bool \<times> async_udp" where
  "au_listen port s = (True, s\<lparr>auPort := port, auListening := True\<rparr>)"

definition au_listenMulticast :: "u16 \<Rightarrow> async_udp \<Rightarrow> bool \<times> async_udp" where
  "au_listenMulticast port s = au_listen port (s\<lparr>auMulticast := True\<rparr>)"

definition au_close :: "async_udp \<Rightarrow> async_udp" where
  "au_close s = s\<lparr>auListening := False, auConnected := False\<rparr>"

definition au_connect :: "u16 \<Rightarrow> async_udp \<Rightarrow> bool \<times> async_udp" where
  "au_connect port s = (True, s\<lparr>auRemotePort := port, auConnected := True\<rparr>)"

definition au_write :: "byte list \<Rightarrow> async_udp \<Rightarrow> nat \<times> async_udp" where
  "au_write bs s = (length bs, s\<lparr>auSent := bs, auTotal := auTotal s + of_nat (length bs)\<rparr>)"

definition au_writeTo :: "byte list \<Rightarrow> octets \<Rightarrow> u16 \<Rightarrow> async_udp \<Rightarrow> nat \<times> async_udp" where
  "au_writeTo bs ip port s = au_write bs s"

definition au_broadcastTo :: "byte list \<Rightarrow> u16 \<Rightarrow> async_udp \<Rightarrow> nat \<times> async_udp" where
  "au_broadcastTo bs port s = au_write bs s"

definition au_onPacket :: "async_udp \<Rightarrow> async_udp" where
  "au_onPacket s = s\<lparr>auHandler := True\<rparr>"

text \<open>The packet the handler is called with, if there is one.\<close>

definition au_injectPacket :: "byte list \<Rightarrow> string \<Rightarrow> u16 \<Rightarrow> async_udp \<Rightarrow> udp_packet option" where
  "au_injectPacket bs ip port s =
    (if auHandler s then Some \<lparr>upData = bs, upRemoteIp = ip, upRemotePort = port, upLocalPort = auPort s, upReply = []\<rparr> else None)"

text \<open>
  A formatted reply of at most 255 bytes is the reply of the packet; one of 256 has a zero in place of its last byte; a longer one
  makes the program read behind its buffer.
\<close>

theorem udp_printf:
  shows "length out \<le> 255 \<Longrightarrow> out \<noteq> [] \<Longrightarrow> packet_printf out p = Some (length out, p\<lparr>upReply := out\<rparr>)"
    "length out = 256 \<Longrightarrow> packet_printf out p = Some (256, p\<lparr>upReply := butlast out @ [0]\<rparr>)"
    "256 < length out \<Longrightarrow> packet_printf out p = None"
proof -
  have buf: "blit (replicate 256 0) 0 (take 255 out) = take 255 out @ replicate (256 - min 255 (length out)) 0"
    by (simp add: blit_def min_def)
  show "length out \<le> 255 \<Longrightarrow> out \<noteq> [] \<Longrightarrow> packet_printf out p = Some (length out, p\<lparr>upReply := out\<rparr>)"
    "length out = 256 \<Longrightarrow> packet_printf out p = Some (256, p\<lparr>upReply := butlast out @ [0]\<rparr>)"
    "256 < length out \<Longrightarrow> packet_printf out p = None"
    unfolding packet_printf_def buf by (auto simp: packet_write_def butlast_conv_take Let_def)
qed

text \<open>A packet comes in with its data and the port listened on, also when nothing listens any more; the last datagram sent is kept and the bytes counted.\<close>

theorem udp_packets:
  "auHandler s \<Longrightarrow> \<exists>p. au_injectPacket bs ip port (au_close (snd (au_listen lp s))) = Some p \<and> upData p = bs \<and> upLocalPort p = lp"
  "auSent (fold (\<lambda>bs s. snd (au_write bs s)) (bss @ [bs]) s) = bs"
  "auTotal (fold (\<lambda>bs s. snd (au_write bs s)) bss s) = auTotal s + of_nat (length (concat bss))"
proof -
  show "auTotal (fold (\<lambda>bs s. snd (au_write bs s)) bss s) = auTotal s + of_nat (length (concat bss))"
    by (induction bss arbitrary: s) (simp_all add: au_write_def)
qed (simp_all add: au_injectPacket_def au_close_def au_listen_def au_write_def)

section \<open>Names: \<open>ESPmDNS.h\<close> and \<open>DNSServer.h\<close>\<close>

record mdns_service =
  msName :: string
  msProto :: string
  msPort :: u16
  msTxt :: "string \<rightharpoonup> string"

record mdns_result =
  mrHost :: string
  mrIp :: u32
  mrPort :: u16
  mrTxt :: "string \<rightharpoonup> string"

record mdns =
  mdHost :: string
  mdStarted :: bool
  mdServices :: "mdns_service list"
  mdResults :: "mdns_result list"
  mdQuery :: "string \<times> string"

definition mdns_new :: mdns where
  "mdns_new = \<lparr>mdHost = [], mdStarted = False, mdServices = [], mdResults = [], mdQuery = ([], [])\<rparr>"

definition mdns_begin :: "string \<Rightarrow> mdns \<Rightarrow> bool \<times> mdns" where
  "mdns_begin h s = (True, s\<lparr>mdHost := h, mdStarted := True\<rparr>)"

definition mdns_end :: "mdns \<Rightarrow> mdns" where
  "mdns_end s = s\<lparr>mdStarted := False, mdServices := [], mdHost := []\<rparr>"

definition addService :: "string \<Rightarrow> string \<Rightarrow> u16 \<Rightarrow> mdns \<Rightarrow> mdns" where
  "addService n p port s = s\<lparr>mdServices := mdServices s @ [\<lparr>msName = n, msProto = p, msPort = port, msTxt = Map.empty\<rparr>]\<rparr>"

fun first_txt :: "string \<Rightarrow> string \<Rightarrow> string \<Rightarrow> string \<Rightarrow> mdns_service list \<Rightarrow> mdns_service list" where
  "first_txt n p k v [] = []"
| "first_txt n p k v (m # ms) =
    (if msName m = n \<and> msProto m = p then m\<lparr>msTxt := (msTxt m)(k \<mapsto> v)\<rparr> # ms else m # first_txt n p k v ms)"

definition addServiceTxt :: "string \<Rightarrow> string \<Rightarrow> string \<Rightarrow> string \<Rightarrow> mdns \<Rightarrow> mdns" where
  "addServiceTxt n p k v s = s\<lparr>mdServices := first_txt n p k v (mdServices s)\<rparr>"

definition queryService :: "string \<Rightarrow> string \<Rightarrow> mdns \<Rightarrow> nat \<times> mdns" where
  "queryService n p s = (length (mdResults s), s\<lparr>mdQuery := (n, p)\<rparr>)"

definition mdns_result :: "int \<Rightarrow> mdns \<Rightarrow> mdns_result option" where
  "mdns_result i s = (if i < 0 \<or> i \<ge> int (length (mdResults s)) then None else Some (mdResults s ! nat i))"

definition mdns_hostname :: "int \<Rightarrow> mdns \<Rightarrow> string" where
  "mdns_hostname i s = (case mdns_result i s of Some r \<Rightarrow> c_str (mrHost r) | None \<Rightarrow> [])"

definition mdns_IP :: "int \<Rightarrow> mdns \<Rightarrow> u32" where
  "mdns_IP i s = (case mdns_result i s of Some r \<Rightarrow> mrIp r | None \<Rightarrow> 0)"

definition mdns_port :: "int \<Rightarrow> mdns \<Rightarrow> u16" where
  "mdns_port i s = (case mdns_result i s of Some r \<Rightarrow> mrPort r | None \<Rightarrow> 0)"

definition mdns_txt :: "int \<Rightarrow> string \<Rightarrow> mdns \<Rightarrow> string" where
  "mdns_txt i k s =
    (case mdns_result i s of
       Some r \<Rightarrow> (case mrTxt r k of Some v \<Rightarrow> c_str v | None \<Rightarrow> [])
     | None \<Rightarrow> [])"

definition addQueryResult :: "mdns_result \<Rightarrow> mdns \<Rightarrow> mdns" where
  "addQueryResult r s = s\<lparr>mdResults := mdResults s @ [r]\<rparr>"

definition clearQueryResults :: "mdns \<Rightarrow> mdns" where
  "clearQueryResults s = s\<lparr>mdResults := []\<rparr>"

definition mdns_reset :: "mdns \<Rightarrow> mdns" where
  "mdns_reset s = s\<lparr>mdStarted := False, mdHost := [], mdServices := [], mdResults := []\<rparr>"

text \<open>
  A text record goes to the first service of its name and protocol. Of two services of the same name the second never gets any; a
  record for a service that was not added is dropped.
\<close>

theorem mdns_text_records:
  assumes "mdServices s = ms @ m # rest" "\<forall>x\<in>set ms. (msName x, msProto x) \<noteq> (n, p)" "(msName m, msProto m) = (n, p)"
  shows "mdServices (fold (\<lambda>(k, v). addServiceTxt n p k v) kvs s) =
    ms @ m\<lparr>msTxt := \<lambda>k. case map_of (rev kvs) k of Some v \<Rightarrow> Some v | None \<Rightarrow> msTxt m k\<rparr> # rest"
  using assms
proof (induction kvs arbitrary: s m)
  case (Cons kv kvs)
  obtain k v where kv: "kv = (k, v)"
    by fastforce
  define m' where "m' = m\<lparr>msTxt := (msTxt m)(k \<mapsto> v)\<rparr>"
  have "first_txt n p k v (ms @ m # rest) = ms @ m' # rest"
    using Cons.prems(2,3) by (induction ms) (auto simp: m'_def)
  then have "mdServices (addServiceTxt n p k v s) = ms @ m' # rest"
    using Cons.prems(1) by (simp add: addServiceTxt_def)
  moreover have "(msName m', msProto m') = (n, p)"
    using Cons.prems(3) by (simp add: m'_def)
  ultimately have "mdServices (fold (\<lambda>(k, v). addServiceTxt n p k v) kvs (addServiceTxt n p k v s)) =
    ms @ m'\<lparr>msTxt := \<lambda>k. case map_of (rev kvs) k of Some v \<Rightarrow> Some v | None \<Rightarrow> msTxt m' k\<rparr> # rest"
    using Cons.IH Cons.prems(2) by blast
  moreover have "(\<lambda>l. case map_of (rev kvs) l of Some v \<Rightarrow> Some v | None \<Rightarrow> msTxt m' l) =
    (\<lambda>l. case map_of (rev (kv # kvs)) l of Some v \<Rightarrow> Some v | None \<Rightarrow> msTxt m l)"
    by (rule ext) (simp add: kv m'_def map_add_def split: option.splits)
  ultimately show ?case
    by (simp add: kv m'_def)
qed simp

text \<open>Every query has the same results, those that were added, in their order.\<close>

theorem mdns_queries:
  "let t = fold addQueryResult rs (clearQueryResults s); (k, u) = queryService n p t
   in k = length rs \<and> map (\<lambda>i. mdns_result (int i) u) [0..<k] = map Some rs \<and> mdns_result (int k) u = None \<and> mdns_result (- 1) u = None"
proof -
  have "mdResults (fold addQueryResult rs s) = mdResults s @ rs" for s
    by (induction rs arbitrary: s) (simp_all add: addQueryResult_def)
  then show ?thesis
    by (auto simp: queryService_def mdns_result_def clearQueryResults_def Let_def intro: nth_equalityI)
qed

record dns_server =
  dnPort :: u16
  dnDomain :: string
  dnIp :: u32
  dnRunning :: bool
  dnError :: int
  dnTtl :: u32
  dnCount :: int

definition dns_new :: dns_server where
  "dns_new = \<lparr>dnPort = 53, dnDomain = ''*'', dnIp = 0, dnRunning = False, dnError = 0, dnTtl = 60, dnCount = 0\<rparr>"

definition dns_start :: "u16 \<Rightarrow> string \<Rightarrow> u32 \<Rightarrow> dns_server \<Rightarrow> dns_server" where
  "dns_start port d ip s = s\<lparr>dnPort := port, dnDomain := d, dnIp := ip, dnRunning := True\<rparr>"

definition dns_stop :: "dns_server \<Rightarrow> dns_server" where
  "dns_stop s = s\<lparr>dnRunning := False\<rparr>"

definition dns_process :: "dns_server \<Rightarrow> dns_server" where
  "dns_process s = s\<lparr>dnCount := dnCount s + 1\<rparr>"

definition dns_setErrorReplyCode :: "int \<Rightarrow> dns_server \<Rightarrow> dns_server" where
  "dns_setErrorReplyCode c s = s\<lparr>dnError := c\<rparr>"

definition dns_setTTL :: "u32 \<Rightarrow> dns_server \<Rightarrow> dns_server" where
  "dns_setTTL t s = s\<lparr>dnTtl := t\<rparr>"

definition dns_resolve :: "string \<Rightarrow> dns_server \<Rightarrow> u32" where
  "dns_resolve h s = (if dnDomain s = ''*'' \<or> h = dnDomain s then dnIp s else 0)"

text \<open>The server answers for its domain, or for every name, with its address; also after it was stopped.\<close>

theorem dns_answers:
  "dns_resolve h (dns_start port d ip s) = (if d = ''*'' \<or> h = d then ip else 0) \<and> dns_resolve h (dns_stop s) = dns_resolve h s \<and>
   dns_resolve h (dns_process s) = dns_resolve h s"
  by (simp add: dns_resolve_def dns_start_def dns_stop_def dns_process_def)

section \<open>Time, \<open>esp_sntp.h\<close>\<close>

datatype sntp_status = SNTP_RESET | SNTP_COMPLETED | SNTP_IN_PROGRESS

record sntp =
  snInit :: bool
  snPoll :: bool
  snSmooth :: bool
  snStatus :: sntp_status
  snServers :: "string list"
  snCount :: int
  snCallback :: bool
  snOffset :: int

definition sntp_reset :: sntp where
  "sntp_reset =
    \<lparr>snInit = False, snPoll = True, snSmooth = False, snStatus = SNTP_RESET, snServers = replicate 4 [], snCount = 0, snCallback = False,
     snOffset = 0\<rparr>"

definition sntp_setoperatingmode :: "bool \<Rightarrow> sntp \<Rightarrow> sntp" where
  "sntp_setoperatingmode poll s = s\<lparr>snPoll := poll\<rparr>"

definition sntp_setservername :: "int \<Rightarrow> string \<Rightarrow> sntp \<Rightarrow> sntp" where
  "sntp_setservername i h s =
    (if 0 \<le> i \<and> i < 4 then
       let s = s\<lparr>snServers := (snServers s)[nat i := h]\<rparr> in if i \<ge> snCount s then s\<lparr>snCount := i + 1\<rparr> else s
     else s)"

definition sntp_getservername :: "int \<Rightarrow> sntp \<Rightarrow> string" where
  "sntp_getservername i s = (if 0 \<le> i \<and> i < 4 then c_str (snServers s ! nat i) else [])"

text \<open>Whether the callback is called, with the time of the host.\<close>

definition sntp_init :: "sntp \<Rightarrow> bool \<times> sntp" where
  "sntp_init s = (snCallback s, s\<lparr>snInit := True, snStatus := SNTP_COMPLETED\<rparr>)"

definition sntp_stop :: "sntp \<Rightarrow> sntp" where
  "sntp_stop s = s\<lparr>snInit := False, snStatus := SNTP_RESET\<rparr>"

definition sntp_set_sync_mode :: "bool \<Rightarrow> sntp \<Rightarrow> sntp" where
  "sntp_set_sync_mode smooth s = s\<lparr>snSmooth := smooth\<rparr>"

definition sntp_set_callback :: "bool \<Rightarrow> sntp \<Rightarrow> sntp" where
  "sntp_set_callback b s = s\<lparr>snCallback := b\<rparr>"

definition sntp_set_offset :: "int \<Rightarrow> sntp \<Rightarrow> sntp" where
  "sntp_set_offset d s = s\<lparr>snOffset := d\<rparr>"

definition sntp_ok :: "sntp \<Rightarrow> bool" where
  "sntp_ok s \<longleftrightarrow> length (snServers s) = 4 \<and> 0 \<le> snCount s \<and> snCount s \<le> 4 \<and>
    (\<forall>i < 4. int i \<ge> snCount s \<longrightarrow> snServers s ! i = []) \<and> (snInit s \<longleftrightarrow> snStatus s = SNTP_COMPLETED)"

lemma sntp_setservername_ok:
  assumes "sntp_ok s"
  shows "sntp_ok (sntp_setservername i h s)"
  using assms by (auto simp: sntp_ok_def sntp_setservername_def Let_def nth_list_update)

interpretation sntp_servers: cell_store sntp_ok "\<lambda>_ i. 0 \<le> i \<and> i < 4" "sntp_setservername" "\<lambda>s i. sntp_getservername i s" c_str
proof unfold_locales
  fix s :: sntp and k :: int and v k'
  assume ok: "sntp_ok s"
  show "sntp_ok (sntp_setservername k v s)"
    by (rule sntp_setservername_ok [OF ok])
  show "sntp_getservername k' (sntp_setservername k v s) = (if k' = k \<and> 0 \<le> k \<and> k < 4 then c_str v else sntp_getservername k' s)"
    using ok by (auto simp: sntp_setservername_def sntp_getservername_def sntp_ok_def Let_def nth_list_update nat_eq_iff2)
qed simp

text \<open>
  Of the names set for the four time servers each has its last; a server without one has the empty name; and the layer is synchronised exactly
  while it is started.
\<close>

theorem sntp_server_names:
  fixes hs :: "(int \<times> string) list"
  defines "t \<equiv> fold (\<lambda>(i, h). sntp_setservername i h) hs sntp_reset"
  shows "sntp_getservername i t = (if 0 \<le> i \<and> i < 4 then (case map_of (rev hs) i of Some h \<Rightarrow> c_str h | None \<Rightarrow> []) else [])"
    "sntp_ok t" "sntp_ok (snd (sntp_init t))" "sntp_ok (sntp_stop t)"
proof -
  have ok: "sntp_ok sntp_reset"
    by (simp add: sntp_ok_def sntp_reset_def)
  have "sntp_getservername i sntp_reset = []"
  proof (cases "0 \<le> i \<and> i < 4")
    case True
    then have "nat i < 4"
      by (simp add: nat_less_iff)
    then show ?thesis
      by (simp add: sntp_getservername_def sntp_reset_def c_str_def)
  qed (auto simp: sntp_getservername_def)
  then show "sntp_getservername i t = (if 0 \<le> i \<and> i < 4 then (case map_of (rev hs) i of Some h \<Rightarrow> c_str h | None \<Rightarrow> []) else [])"
    unfolding t_def using sntp_servers.writes_get [OF ok, where kvs = hs and k' = i] by (auto split: option.splits)
  show t: "sntp_ok t"
    unfolding t_def using sntp_servers.writes_ok [OF ok, of hs 0] by blast
  show "sntp_ok (snd (sntp_init t))" "sntp_ok (sntp_stop t)"
    using t by (simp_all add: sntp_ok_def sntp_init_def sntp_stop_def)
qed

section \<open>Updates over the air, \<open>ArduinoOTA.h\<close>\<close>

datatype ao_event = AoStart | AoProgress u32 u32 | AoEnd | AoError int

record arduino_ota =
  aoHost :: string
  aoPass :: string
  aoPort :: u16
  aoStarted :: bool
  aoReboot :: bool
  aoHandlers :: "string set"

definition ao_new :: arduino_ota where
  "ao_new = \<lparr>aoHost = ''esp32-emu'', aoPass = [], aoPort = 3232, aoStarted = False, aoReboot = True, aoHandlers = {}\<rparr>"

definition ao_setHostname :: "string option \<Rightarrow> arduino_ota \<Rightarrow> arduino_ota" where
  "ao_setHostname n s = s\<lparr>aoHost := (case n of Some h \<Rightarrow> c_str h | None \<Rightarrow> [])\<rparr>"

definition ao_setPassword :: "string option \<Rightarrow> arduino_ota \<Rightarrow> arduino_ota" where
  "ao_setPassword n s = s\<lparr>aoPass := (case n of Some h \<Rightarrow> c_str h | None \<Rightarrow> [])\<rparr>"

definition ao_setPort :: "u16 \<Rightarrow> arduino_ota \<Rightarrow> arduino_ota" where
  "ao_setPort p s = s\<lparr>aoPort := p\<rparr>"

definition ao_setReboot :: "bool \<Rightarrow> arduino_ota \<Rightarrow> arduino_ota" where
  "ao_setReboot b s = s\<lparr>aoReboot := b\<rparr>"

definition ao_on :: "string \<Rightarrow> arduino_ota \<Rightarrow> arduino_ota" where
  "ao_on e s = s\<lparr>aoHandlers := insert e (aoHandlers s)\<rparr>"

definition ao_begin :: "arduino_ota \<Rightarrow> arduino_ota" where
  "ao_begin s = s\<lparr>aoStarted := True\<rparr>"

definition ao_call :: "string \<Rightarrow> ao_event \<Rightarrow> arduino_ota \<Rightarrow> ao_event list" where
  "ao_call e k s = (if e \<in> aoHandlers s then [k] else [])"

text \<open>The loop over the bytes received, of 100000 in all.\<close>

function ao_progress :: "u32 \<Rightarrow> arduino_ota \<Rightarrow> ao_event list" where
  "ao_progress i s =
    (if i \<le> 100000 then ao_call ''progress'' (AoProgress i 100000) s @ ao_progress (i + 25000) s else [])"
  by auto
termination
proof (relation "measure (\<lambda>(i, _). 125000 - unat i)", simp_all)
  fix i :: u32
  assume "i \<le> 100000"
  then have i: "unat i \<le> 100000"
    by (simp add: word_le_nat_alt)
  then have "unat (i + 25000) = unat i + 25000"
    using unat_add_no_wrap [of i 25000] by simp
  then show "125000 - unat (i + 25000) < 125000 - unat i"
    using i by simp
qed

declare ao_progress.simps [simp del]

definition ao_simulate :: "bool \<Rightarrow> arduino_ota \<Rightarrow> ao_event list" where
  "ao_simulate success s =
    (if \<not> aoStarted s then []
     else ao_call ''start'' AoStart s @
       (if success then ao_progress 0 s @ ao_call ''end'' AoEnd s else ao_call ''error'' (AoError 3) s))"

text \<open>
  With all handlers set a successful update starts, reports the progress in four equal steps up to its end, and ends; a failing one only
  ever reports an error while receiving. The password is not asked for.
\<close>

theorem arduino_ota_cycle:
  assumes "aoHandlers s = {''start'', ''progress'', ''end'', ''error''}"
  shows "ao_simulate True (ao_begin s) =
      [AoStart, AoProgress 0 100000, AoProgress 25000 100000, AoProgress 50000 100000, AoProgress 75000 100000, AoProgress 100000 100000, AoEnd]"
    "ao_simulate False (ao_begin s) = [AoStart, AoError 3]"
    "ao_simulate ok (s\<lparr>aoStarted := False\<rparr>) = []"
    "ao_simulate ok (ao_setPassword pw (ao_begin s)) = ao_simulate ok (ao_begin s)"
proof -
  have h: "ao_call e k (ao_begin s) = (if e \<in> {''start'', ''progress'', ''end'', ''error''} then [k] else [])" for e k
    using assms by (simp add: ao_call_def ao_begin_def)
  have p: "ao_progress i (ao_setPassword pw s) = ao_progress i s" for i s
    by (induction i s rule: ao_progress.induct) (subst (1 2) ao_progress.simps, simp add: ao_call_def ao_setPassword_def)
  show "ao_simulate True (ao_begin s) =
      [AoStart, AoProgress 0 100000, AoProgress 25000 100000, AoProgress 50000 100000, AoProgress 75000 100000, AoProgress 100000 100000, AoEnd]"
    by (simp add: ao_simulate_def ao_progress.simps h) (simp add: ao_begin_def)
  show "ao_simulate False (ao_begin s) = [AoStart, AoError 3]"
    by (simp add: ao_simulate_def h) (simp add: ao_begin_def)
  show "ao_simulate ok (s\<lparr>aoStarted := False\<rparr>) = []"
    by (simp add: ao_simulate_def)
  show "ao_simulate ok (ao_setPassword pw (ao_begin s)) = ao_simulate ok (ao_begin s)"
    by (simp add: ao_simulate_def p) (simp add: ao_call_def ao_setPassword_def)
qed

end
