(* ===== verification/Nvs.thy ===== *)
theory Nvs
  imports Interfaces
begin

text \<open>
  Non-volatile storage, \<open>src/include/nvs_flash.h\<close>: namespaces of key/value pairs, each value
  the raw bytes of an integer, a string or a blob, behind handles that carry a namespace and an
  open mode. The store of one handle is a \<open>blob_store\<close>; the lemmas give the round trips of
  the typed accessors, the freshness of handles and what the read-only mode protects.
\<close>

section \<open>State\<close>

datatype nvs_open_mode = NVS_READONLY | NVS_READWRITE

abbreviation (input) "ESP_ERR_NVS_NOT_FOUND \<equiv> (0x1102 :: esp_err)"
abbreviation (input) "ESP_ERR_NVS_INVALID_HANDLE \<equiv> (0x1109 :: esp_err)"
abbreviation (input) "ESP_ERR_NVS_INVALID_NAME \<equiv> (0x110B :: esp_err)"

record nvs_store =
  nvsData :: "string \<rightharpoonup> (string \<rightharpoonup> byte list)"
  nextHandle :: u32
  nvsHandles :: "u32 \<rightharpoonup> string \<times> nvs_open_mode"
  nvsInitialized :: bool

definition nvs_store_init :: nvs_store where
  "nvs_store_init = \<lparr>nvsData = Map.empty, nextHandle = 1, nvsHandles = Map.empty,
     nvsInitialized = False\<rparr>"

text \<open>\<open>s.data[ns]\<close>: the namespace, an empty one being created when there is none.\<close>

definition ns_data :: "nvs_store \<Rightarrow> string \<Rightarrow> (string \<rightharpoonup> byte list)" where
  "ns_data s ns = (case nvsData s ns of None \<Rightarrow> Map.empty | Some m \<Rightarrow> m)"

definition ns_touch :: "nvs_store \<Rightarrow> string \<Rightarrow> nvs_store" where
  "ns_touch s ns = s\<lparr>nvsData := (nvsData s)(ns \<mapsto> ns_data s ns)\<rparr>"

definition ns_put :: "nvs_store \<Rightarrow> string \<Rightarrow> string \<Rightarrow> byte list \<Rightarrow> nvs_store" where
  "ns_put s ns key blob = s\<lparr>nvsData := (nvsData s)(ns \<mapsto> (ns_data s ns)(key \<mapsto> blob))\<rparr>"

section \<open>Operations\<close>

definition nvs_clear :: "nvs_store \<Rightarrow> nvs_store" where
  "nvs_clear s = s\<lparr>nvsData := Map.empty, nvsHandles := Map.empty, nextHandle := 1,
     nvsInitialized := False\<rparr>"

definition nvs_flash_init :: "nvs_store \<Rightarrow> esp_err \<times> nvs_store" where
  "nvs_flash_init s = (ESP_OK, s\<lparr>nvsInitialized := True\<rparr>)"

definition nvs_flash_erase :: "nvs_store \<Rightarrow> esp_err \<times> nvs_store" where
  "nvs_flash_erase s = (ESP_OK, s\<lparr>nvsData := Map.empty\<rparr>)"

text \<open>\<open>out_given\<close> is whether the caller passed a place for the handle.\<close>

definition nvs_open ::
  "nvs_store \<Rightarrow> string option \<Rightarrow> nvs_open_mode \<Rightarrow> bool \<Rightarrow> (esp_err \<times> u32 option) \<times> nvs_store" where
  "nvs_open s ns mode out_given =
    (case ns of
       None \<Rightarrow> ((ESP_ERR_NVS_INVALID_NAME, None), s)
     | Some name \<Rightarrow>
         if \<not> out_given then ((ESP_ERR_NVS_INVALID_NAME, None), s)
         else ((ESP_OK, Some (nextHandle s)),
               s\<lparr>nextHandle := nextHandle s + 1,
                 nvsHandles := (nvsHandles s)(nextHandle s \<mapsto> (name, mode))\<rparr>))"

definition nvs_close :: "nvs_store \<Rightarrow> u32 \<Rightarrow> esp_err \<times> nvs_store" where
  "nvs_close s h = (ESP_OK, s\<lparr>nvsHandles := (nvsHandles s)(h := None)\<rparr>)"

text \<open>The guards every setter starts with.\<close>

definition nvs_write :: "nvs_store \<Rightarrow> u32 \<Rightarrow> string \<Rightarrow> byte list \<Rightarrow> esp_err \<times> nvs_store" where
  "nvs_write s h key blob =
    (case nvsHandles s h of
       None \<Rightarrow> (ESP_ERR_NVS_INVALID_HANDLE, s)
     | Some (ns, mode) \<Rightarrow>
         if mode \<noteq> NVS_READWRITE then (ESP_FAIL, s)
         else (ESP_OK, ns_put s ns key blob))"

text \<open>
  The integer accessors: \<open>NVS_TYPED_SET\<close> and \<open>NVS_TYPED_GET\<close>, one pair for every width.
  The second component of a read is what was copied to \<open>out\<close>, if anything was.
\<close>

definition nvs_set_typed :: "nvs_store \<Rightarrow> u32 \<Rightarrow> string \<Rightarrow> 'a::len word \<Rightarrow> esp_err \<times> nvs_store" where
  "nvs_set_typed s h key value = nvs_write s h key (word_bytes value)"

definition nvs_get_typed ::
  "nvs_store \<Rightarrow> u32 \<Rightarrow> string \<Rightarrow> (esp_err \<times> 'a::len word option) \<times> nvs_store" where
  "nvs_get_typed s h key =
    (case nvsHandles s h of
       None \<Rightarrow> ((ESP_ERR_NVS_INVALID_HANDLE, None), s)
     | Some (ns, _) \<Rightarrow>
         (case ns_data s ns key of
            None \<Rightarrow> ((ESP_ERR_NVS_NOT_FOUND, None), ns_touch s ns)
          | Some b \<Rightarrow>
              if length b \<noteq> sizeof TYPE('a word) then ((ESP_FAIL, None), ns_touch s ns)
              else ((ESP_OK, Some (bytes_word b)), ns_touch s ns)))"

definition nvs_set_i32 :: "nvs_store \<Rightarrow> u32 \<Rightarrow> string \<Rightarrow> 32 word \<Rightarrow> esp_err \<times> nvs_store" where
  "nvs_set_i32 s h key value = nvs_set_typed s h key value"

definition nvs_get_i32 :: "nvs_store \<Rightarrow> u32 \<Rightarrow> string \<Rightarrow> (esp_err \<times> 32 word option) \<times> nvs_store" where
  "nvs_get_i32 s h key = nvs_get_typed s h key"

definition nvs_set_u32 :: "nvs_store \<Rightarrow> u32 \<Rightarrow> string \<Rightarrow> u32 \<Rightarrow> esp_err \<times> nvs_store" where
  "nvs_set_u32 s h key value = nvs_set_typed s h key value"

definition nvs_get_u32 :: "nvs_store \<Rightarrow> u32 \<Rightarrow> string \<Rightarrow> (esp_err \<times> u32 option) \<times> nvs_store" where
  "nvs_get_u32 s h key = nvs_get_typed s h key"

definition nvs_set_blob :: "nvs_store \<Rightarrow> u32 \<Rightarrow> string \<Rightarrow> byte list \<Rightarrow> esp_err \<times> nvs_store" where
  "nvs_set_blob s h key data = nvs_write s h key data"

text \<open>
  A read into a buffer: \<open>room\<close> is \<open>None\<close> for a null \<open>out\<close>, which asks for the size only, and
  else the value of \<open>*len\<close>. The result is the code, the bytes copied and the new \<open>*len\<close>.
\<close>

definition nvs_get_blob ::
  "nvs_store \<Rightarrow> u32 \<Rightarrow> string \<Rightarrow> nat option \<Rightarrow> (esp_err \<times> byte list option \<times> nat option) \<times> nvs_store" where
  "nvs_get_blob s h key room =
    (case nvsHandles s h of
       None \<Rightarrow> ((ESP_ERR_NVS_INVALID_HANDLE, None, room), s)
     | Some (ns, _) \<Rightarrow>
         (case ns_data s ns key of
            None \<Rightarrow> ((ESP_ERR_NVS_NOT_FOUND, None, room), ns_touch s ns)
          | Some b \<Rightarrow>
              (case room of
                 None \<Rightarrow> ((ESP_OK, None, Some (length b)), ns_touch s ns)
               | Some len \<Rightarrow>
                   if len < length b then ((ESP_FAIL, None, room), ns_touch s ns)
                   else ((ESP_OK, Some b, Some (length b)), ns_touch s ns))))"

text \<open>A C string value is given by its characters before the terminating zero.\<close>

definition nvs_set_str :: "nvs_store \<Rightarrow> u32 \<Rightarrow> string \<Rightarrow> byte list \<Rightarrow> esp_err \<times> nvs_store" where
  "nvs_set_str s h key value = nvs_write s h key value"

definition nvs_get_str ::
  "nvs_store \<Rightarrow> u32 \<Rightarrow> string \<Rightarrow> nat option \<Rightarrow> (esp_err \<times> byte list option \<times> nat option) \<times> nvs_store" where
  "nvs_get_str s h key room =
    (case nvsHandles s h of
       None \<Rightarrow> ((ESP_ERR_NVS_INVALID_HANDLE, None, room), s)
     | Some (ns, _) \<Rightarrow>
         (case ns_data s ns key of
            None \<Rightarrow> ((ESP_ERR_NVS_NOT_FOUND, None, room), ns_touch s ns)
          | Some b \<Rightarrow>
              let needed = length b + 1
              in case room of
                   None \<Rightarrow> ((ESP_OK, None, Some needed), ns_touch s ns)
                 | Some len \<Rightarrow>
                     if len < needed then ((ESP_FAIL, None, room), ns_touch s ns)
                     else ((ESP_OK, Some (b @ [0]), Some needed), ns_touch s ns)))"

definition nvs_erase_key :: "nvs_store \<Rightarrow> u32 \<Rightarrow> string \<Rightarrow> esp_err \<times> nvs_store" where
  "nvs_erase_key s h key =
    (case nvsHandles s h of
       None \<Rightarrow> (ESP_ERR_NVS_INVALID_HANDLE, s)
     | Some (ns, _) \<Rightarrow> (ESP_OK, s\<lparr>nvsData := (nvsData s)(ns \<mapsto> (ns_data s ns)(key := None))\<rparr>))"

definition nvs_erase_all :: "nvs_store \<Rightarrow> u32 \<Rightarrow> esp_err \<times> nvs_store" where
  "nvs_erase_all s h =
    (case nvsHandles s h of
       None \<Rightarrow> (ESP_ERR_NVS_INVALID_HANDLE, s)
     | Some (ns, _) \<Rightarrow> (ESP_OK, s\<lparr>nvsData := (nvsData s)(ns \<mapsto> Map.empty)\<rparr>))"

definition nvs_commit :: "nvs_store \<Rightarrow> u32 \<Rightarrow> esp_err \<times> nvs_store" where
  "nvs_commit s h = (ESP_OK, s)"

section \<open>One handle as a key/value store\<close>

lemma ns_data_simps [simp]:
  "ns_data (ns_put s ns key b) ns' = (if ns' = ns then (ns_data s ns)(key \<mapsto> b) else ns_data s ns')"
  "ns_data (ns_touch s ns) ns' = ns_data s ns'"
  "nvsHandles (ns_put s ns key b) = nvsHandles s"
  "nvsHandles (ns_touch s ns) = nvsHandles s"
  by (auto simp: ns_data_def ns_put_def ns_touch_def)

definition nvs_writable :: "string \<Rightarrow> u32 \<Rightarrow> nvs_store \<Rightarrow> bool" where
  "nvs_writable ns h s \<longleftrightarrow> nvsHandles s h = Some (ns, NVS_READWRITE)"

definition nvs_put :: "u32 \<Rightarrow> nvs_store \<Rightarrow> string \<Rightarrow> byte list \<Rightarrow> nvs_store" where
  "nvs_put h s key blob = snd (nvs_write s h key blob)"

interpretation nvs: blob_store "nvs_writable ns h" "nvs_put h" "\<lambda>s. ns_data s ns"
  for ns h
  by unfold_locales (simp_all add: nvs_writable_def nvs_put_def nvs_write_def)

lemma nvs_write_ok: "nvs_writable ns h s \<Longrightarrow> nvs_write s h key b = (ESP_OK, nvs_put h s key b)"
  by (simp add: nvs_put_def nvs_writable_def nvs_write_def)

lemma nvs_put_handles [simp]: "nvsHandles (nvs_put h s key b) = nvsHandles s"
  by (simp add: nvs_put_def nvs_write_def split: option.split)

lemma ns_data_put_other:
  "nvs_writable ns h s \<Longrightarrow> ns' \<noteq> ns \<Longrightarrow> ns_data (nvs_put h s key b) ns' = ns_data s ns'"
  by (simp add: nvs_writable_def nvs_put_def nvs_write_def)

lemma nvs_get_typed_found:
  "nvsHandles s h = Some (ns, m) \<Longrightarrow> ns_data s ns key = Some b \<Longrightarrow>
   fst (nvs_get_typed s h key :: (esp_err \<times> 'a::len word option) \<times> nvs_store) =
     (if length b = sizeof TYPE('a word) then (ESP_OK, Some (bytes_word b)) else (ESP_FAIL, None))"
  by (simp add: nvs_get_typed_def)

section \<open>Handles\<close>

datatype nvs_op =
    NvsOpen "string option" nvs_open_mode bool
  | NvsClose u32
  | NvsSet u32 string "byte list"
  | NvsGet u32 string "nat option"
  | NvsEraseKey u32 string
  | NvsEraseAll u32
  | NvsFlashErase

fun nvs_step :: "nvs_op \<Rightarrow> nvs_store \<Rightarrow> nvs_store" where
  "nvs_step (NvsOpen ns m out) s = snd (nvs_open s ns m out)"
| "nvs_step (NvsClose h) s = snd (nvs_close s h)"
| "nvs_step (NvsSet h k b) s = snd (nvs_set_blob s h k b)"
| "nvs_step (NvsGet h k room) s = snd (nvs_get_blob s h k room)"
| "nvs_step (NvsEraseKey h k) s = snd (nvs_erase_key s h k)"
| "nvs_step (NvsEraseAll h) s = snd (nvs_erase_all s h)"
| "nvs_step NvsFlashErase s = snd (nvs_flash_erase s)"

text \<open>\<open>n\<close> bounds the handles given out so far, which the counter has not yet wrapped over.\<close>

definition handles_inv :: "nat \<Rightarrow> nvs_store \<Rightarrow> bool" where
  "handles_inv n s \<longleftrightarrow> unat (nextHandle s) = n + 1 \<and>
    (\<forall>h. nvsHandles s h \<noteq> None \<longrightarrow> 0 < unat h \<and> unat h \<le> n)"

fun opens :: "nvs_op list \<Rightarrow> nat" where
  "opens [] = 0"
| "opens (NvsOpen (Some ns) m True # ops) = opens ops + 1"
| "opens (_ # ops) = opens ops"

lemma nvs_step_handles:
  "(\<forall>ns m. op \<noteq> NvsOpen (Some ns) m True) \<Longrightarrow>
   nextHandle (nvs_step op s) = nextHandle s \<and>
   (nvsHandles (nvs_step op s) h = None \<or> nvsHandles (nvs_step op s) h = nvsHandles s h)"
  by (cases op)
    (auto simp: nvs_open_def nvs_close_def nvs_set_blob_def nvs_write_def nvs_get_blob_def
      nvs_erase_key_def nvs_erase_all_def nvs_flash_erase_def ns_put_def ns_touch_def
      split: option.splits if_splits)

lemma handles_inv_other:
  "(\<forall>ns m. op \<noteq> NvsOpen (Some ns) m True) \<Longrightarrow> handles_inv n s \<Longrightarrow> handles_inv n (nvs_step op s)"
  using nvs_step_handles [of op s] unfolding handles_inv_def by metis

lemma handles_inv_open:
  "handles_inv n s \<Longrightarrow> n + 2 < 2 ^ 32 \<Longrightarrow> handles_inv (n + 1) (nvs_step (NvsOpen (Some ns) m True) s)"
  by (auto simp: handles_inv_def nvs_open_def unat_add_no_wrap le_Suc_eq)

lemma handles_inv_fold:
  "handles_inv n s \<Longrightarrow> n + opens ops + 1 < 2 ^ 32 \<Longrightarrow>
   handles_inv (n + opens ops) (fold nvs_step ops s)"
proof (induction ops arbitrary: n s rule: opens.induct)
  case (2 ns m ops)
  then show ?case
    using handles_inv_open [of n s ns m] 2(1) [of "n + 1"] by (simp add: add.commute add.left_commute)
qed (simp_all add: handles_inv_other del: nvs_step.simps)

section \<open>Properties\<close>

text \<open>
  C18: the integer round trip. A value stored through a read-write handle is read back, in the same
  width, through any open handle of the namespace, every other key of the namespace and every other
  namespace keep their value, and a read in another width fails without touching its result.
\<close>

theorem nvs_typed_roundtrip:
  fixes v :: "'a::len word"
  assumes "nvsHandles s h = Some (ns, NVS_READWRITE)" "nvsHandles s h' = Some (ns, m)"
    and "LENGTH('a) mod 8 = 0" "nvs_set_typed s h key v = (r, s')"
  shows "r = ESP_OK \<and> fst (nvs_get_typed s' h' key) = (ESP_OK, Some v) \<and>
    (\<forall>ns' key'. (ns', key') \<noteq> (ns, key) \<longrightarrow> ns_data s' ns' key' = ns_data s ns' key') \<and>
    (sizeof TYPE('b::len word) \<noteq> sizeof TYPE('a word) \<longrightarrow>
      fst (nvs_get_typed s' h' key) = (ESP_FAIL, None :: 'b word option))"
proof -
  have w: "nvs_writable ns h s"
    using assms(1) by (simp add: nvs_writable_def)
  have s': "s' = nvs_put h s key (word_bytes v)" and r: "r = ESP_OK"
    using assms(4) by (simp_all add: nvs_set_typed_def nvs_write_ok [OF w])
  have h': "nvsHandles s' h' = Some (ns, m)"
    using assms(2) by (simp add: s')
  have b: "ns_data s' ns key = Some (word_bytes v)"
    using nvs.get_put_same [OF w] by (simp add: s')
  have frame: "ns_data s' ns' key' = ns_data s ns' key'" if "(ns', key') \<noteq> (ns, key)" for ns' key'
    using that ns_data_put_other [OF w] nvs.get_put_other [OF w] by (cases "ns' = ns") (auto simp: s')
  show ?thesis
    using assms(3) frame by (simp add: r nvs_get_typed_found [OF h' b])
qed

theorem nvs_typed_roundtrip_witness:
  "let s = snd (nvs_open nvs_store_init (Some ''cfg'') NVS_READWRITE True);
       s' = snd (nvs_set_typed s 1 ''boots'' (0xDEADBEEF :: u32))
   in fst (nvs_get_typed s' 1 ''boots'') = (ESP_OK, Some (0xDEADBEEF :: u32)) \<and>
      fst (nvs_get_typed s' 1 ''boots'') = (ESP_FAIL, None :: u16 option)"
proof -
  let ?s = "snd (nvs_open nvs_store_init (Some ''cfg'') NVS_READWRITE True)"
  have h: "nvsHandles ?s 1 = Some (''cfg'', NVS_READWRITE)"
    by (simp add: nvs_open_def nvs_store_init_def)
  show ?thesis
    using nvs_typed_roundtrip [where 'b = "16" and key = "''boots''" and v = "0xDEADBEEF :: u32",
        OF h h _ surjective_pairing]
    by (simp add: sizeof_def Let_def)
qed

text \<open>
  Fresh handles. Until \<open>2\<^sup>3\<^sup>2\<close> handles have been given out, \<open>nvs_open\<close> returns a nonzero
  handle that no open handle equals, bound to the requested namespace and mode, and every handle
  already open keeps its meaning.
\<close>

theorem nvs_open_fresh:
  assumes "opens ops + 1 < 2 ^ 32"
    and "nvs_open (fold nvs_step ops nvs_store_init) (Some ns) m True = ((r, out), s')"
  shows "\<exists>h. r = ESP_OK \<and> out = Some h \<and> h \<noteq> 0 \<and>
    h \<notin> dom (nvsHandles (fold nvs_step ops nvs_store_init)) \<and>
    nvsHandles s' = (nvsHandles (fold nvs_step ops nvs_store_init))(h \<mapsto> (ns, m))"
proof -
  let ?s = "fold nvs_step ops nvs_store_init"
  have "handles_inv 0 nvs_store_init"
    by (simp add: handles_inv_def nvs_store_init_def)
  then have I: "handles_inv (opens ops) ?s"
    using handles_inv_fold [of 0] assms(1) by simp
  then have "nextHandle ?s \<noteq> 0" "nvsHandles ?s (nextHandle ?s) = None"
    unfolding handles_inv_def by (fastforce, metis Suc_eq_plus1 not_less_eq_eq order_refl)
  then show ?thesis
    using assms(2) by (auto simp: nvs_open_def)
qed

theorem nvs_open_fresh_witness:
  "\<exists>h. h \<noteq> 0 \<and> h \<notin> dom (nvsHandles (fold nvs_step [NvsOpen (Some ''a'') NVS_READONLY True] nvs_store_init))"
  using nvs_open_fresh [OF _ nested_parts3, of "[NvsOpen (Some ''a'') NVS_READONLY True]" "''b''" NVS_READWRITE]
  by (simp del: nvs_step.simps) blast

text \<open>
  What read-only protects. Through a read-only handle every setter fails and changes nothing;
  \<open>nvs_erase_all\<close> succeeds all the same and leaves the namespace without any key.
\<close>

theorem nvs_readonly_not_enforced_on_erase:
  assumes "nvsHandles s h = Some (ns, NVS_READONLY)"
  shows "nvs_set_blob s h key b = (ESP_FAIL, s) \<and> nvs_set_str s h key b = (ESP_FAIL, s) \<and>
    nvs_set_typed s h key (v :: 'a::len word) = (ESP_FAIL, s) \<and>
    fst (nvs_erase_all s h) = ESP_OK \<and> ns_data (snd (nvs_erase_all s h)) ns = Map.empty \<and>
    fst (nvs_erase_key s h key) = ESP_OK \<and> ns_data (snd (nvs_erase_key s h key)) ns key = None"
  using assms
  by (simp add: nvs_set_blob_def nvs_set_str_def nvs_set_typed_def nvs_write_def nvs_erase_all_def
      nvs_erase_key_def ns_data_def)

theorem nvs_readonly_not_enforced_on_erase_witness:
  "let s = snd (nvs_open nvs_store_init (Some ''cfg'') NVS_READONLY True)
   in fst (nvs_erase_all s 1) = ESP_OK \<and> nvs_set_blob s 1 ''k'' [1] = (ESP_FAIL, s)"
  using nvs_readonly_not_enforced_on_erase
    [of "snd (nvs_open nvs_store_init (Some ''cfg'') NVS_READONLY True)" 1 "''cfg''" "''k''" "[1]" "0 :: u32"]
  by (simp add: nvs_open_def nvs_store_init_def Let_def)

text \<open>
  The two-step read of strings and blobs. Asking with a null buffer for the size and reading
  into a buffer of that size succeeds and returns the stored bytes, a string with its terminating
  zero; one byte less fails and copies nothing.
\<close>

theorem nvs_two_step_read:
  assumes "nvsHandles s h = Some (ns, NVS_READWRITE)"
    and "nvs_set_str s h key v = (r1, s1)" "nvs_get_str s1 h key None = ((r2, out2, len2), s2)"
  shows "r1 = ESP_OK \<and> r2 = ESP_OK \<and> out2 = None \<and> len2 = Some (length v + 1) \<and>
    fst (nvs_get_str s2 h key len2) = (ESP_OK, Some (v @ [0]), len2) \<and>
    fst (nvs_get_str s2 h key (Some (length v))) = (ESP_FAIL, None, Some (length v)) \<and>
    fst (nvs_get_blob s2 h key (Some (length v))) = (ESP_OK, Some v, Some (length v))"
  using assms
  by (auto simp: nvs_set_str_def nvs_write_def nvs_get_str_def nvs_get_blob_def Let_def)

theorem nvs_two_step_read_witness:
  "let s = snd (nvs_open nvs_store_init (Some ''cfg'') NVS_READWRITE True);
       s1 = snd (nvs_set_str s 1 ''ssid'' [104, 105]);
       ((r2, out2, len2), s2) = nvs_get_str s1 1 ''ssid'' None
   in fst (nvs_get_str s2 1 ''ssid'' len2) = (ESP_OK, Some [104, 105, 0], len2)"
proof -
  let ?s = "snd (nvs_open nvs_store_init (Some ''cfg'') NVS_READWRITE True)"
  have h: "nvsHandles ?s 1 = Some (''cfg'', NVS_READWRITE)"
    by (simp add: nvs_open_def nvs_store_init_def)
  show ?thesis
    using nvs_two_step_read [OF h surjective_pairing nested_parts4, of "''ssid''" "[104, 105]"]
    by (auto simp: Let_def split_beta)
qed

end
