(* ===== verification/One_Wire.thy ===== *)
theory One_Wire
  imports Interfaces
begin

text \<open>
  The one-wire bus of \<open>src/include/OneWire.h\<close> and the temperature sensors on it,
  \<open>src/include/DallasTemperature.h\<close>: the enumeration of the devices, the check byte of their
  addresses, and the driver's table of the devices it found. The lemmas show that the check byte is
  the division by the polynomial of the Dallas standard, which errors it detects, and what the
  driver's table holds after one scan and after two. Temperatures are of any type.
\<close>

unbundle bit_operations_syntax

section \<open>The bus\<close>

type_synonym ow_addr = "byte list"

record one_wire =
  owPin :: byte
  owDevices :: "ow_addr list"
  owSearch :: nat
  owReadBuf :: "byte list"

definition ow_new :: "byte \<Rightarrow> one_wire" where
  "ow_new pin = \<lparr>owPin = pin, owDevices = [], owSearch = 0, owReadBuf = []\<rparr>"

definition ow_begin :: "one_wire \<Rightarrow> byte \<Rightarrow> one_wire" where
  "ow_begin w pin = w\<lparr>owPin := pin\<rparr>"

definition ow_reset_search :: "one_wire \<Rightarrow> one_wire" where
  "ow_reset_search w = w\<lparr>owSearch := 0\<rparr>"

text \<open>What is written to \<open>addr\<close> is the second component, \<open>None\<close> where it is left untouched.\<close>

definition ow_search :: "one_wire \<Rightarrow> bool \<times> ow_addr option \<times> one_wire" where
  "ow_search w =
    (if owSearch w \<ge> length (owDevices w) then (False, None, w)
     else (True, Some (owDevices w ! owSearch w), w\<lparr>owSearch := owSearch w + 1\<rparr>))"

definition ow_reset :: "one_wire \<Rightarrow> byte" where
  "ow_reset w = (if owDevices w = [] then 0 else 1)"

definition ow_read :: "one_wire \<Rightarrow> byte \<times> one_wire" where
  "ow_read w =
    (if owReadBuf w = [] then (0xFF, w) else (hd (owReadBuf w), w\<lparr>owReadBuf := tl (owReadBuf w)\<rparr>))"

fun ow_read_bytes :: "one_wire \<Rightarrow> nat \<Rightarrow> byte list \<times> one_wire" where
  "ow_read_bytes w 0 = ([], w)"
| "ow_read_bytes w (Suc n) =
    (case ow_read w of (b, w1) \<Rightarrow> case ow_read_bytes w1 n of (bs, w2) \<Rightarrow> (b # bs, w2))"

definition ow_addDevice :: "one_wire \<Rightarrow> ow_addr \<Rightarrow> one_wire" where
  "ow_addDevice w a = w\<lparr>owDevices := owDevices w @ [a]\<rparr>"

definition ow_injectReadData :: "one_wire \<Rightarrow> byte list \<Rightarrow> one_wire" where
  "ow_injectReadData w d = w\<lparr>owReadBuf := owReadBuf w @ d\<rparr>"

section \<open>The check byte\<close>

definition crc8_step :: "byte \<Rightarrow> byte \<Rightarrow> byte" where
  "crc8_step crc b =
    (let mix = b XOR crc;
         c = 0;
         c = (if mix AND 0x01 \<noteq> 0 then c XOR 0x5E else c);
         c = (if mix AND 0x02 \<noteq> 0 then c XOR 0xBC else c);
         c = (if mix AND 0x04 \<noteq> 0 then c XOR 0x61 else c);
         c = (if mix AND 0x08 \<noteq> 0 then c XOR 0xC2 else c);
         c = (if mix AND 0x10 \<noteq> 0 then c XOR 0x9D else c);
         c = (if mix AND 0x20 \<noteq> 0 then c XOR 0x23 else c);
         c = (if mix AND 0x40 \<noteq> 0 then c XOR 0x46 else c);
         c = (if mix AND 0x80 \<noteq> 0 then c XOR 0x8C else c)
     in c)"

text \<open>\<open>crc8 addr len\<close> reads the first \<open>len\<close> bytes, an 8 bit number.\<close>

definition crc8 :: "byte list \<Rightarrow> byte \<Rightarrow> byte" where
  "crc8 addr len = foldl crc8_step 0 (take (unat len) addr)"

section \<open>The sensors\<close>

record 't dallas =
  dsDevices :: "ow_addr list"
  dsTemps :: "u64 \<rightharpoonup> 't"
  dsCount :: byte
  dsResolution :: byte
  dsWait :: bool
  dsRequested :: bool

definition dallas_new :: "'t dallas" where
  "dallas_new = \<lparr>dsDevices = [], dsTemps = Map.empty, dsCount = 0, dsResolution = 12, dsWait = True,
    dsRequested = False\<rparr>"

text \<open>The loop of \<open>begin\<close>: it ends with the first failing search, after as many steps as devices are left.\<close>

function dallas_scan :: "'t dallas \<Rightarrow> one_wire \<Rightarrow> 't dallas \<times> one_wire" where
  "dallas_scan d w =
    (case ow_search w of
       (True, Some a, w1) \<Rightarrow>
         dallas_scan
           (if a \<noteq> [] \<and> hd a = 0x28 then d\<lparr>dsDevices := dsDevices d @ [a], dsCount := dsCount d + 1\<rparr> else d) w1
     | (_, _, w1) \<Rightarrow> (d, w1))"
  by pat_completeness auto
termination
  by (relation "measure (\<lambda>(d, w). length (owDevices w) - owSearch w)")
     (auto simp: ow_search_def split: if_splits)

definition dallas_begin :: "'t dallas \<Rightarrow> one_wire option \<Rightarrow> 't dallas \<times> one_wire option" where
  "dallas_begin d wire =
    (let d0 = d\<lparr>dsCount := 0\<rparr>
     in case wire of
          None \<Rightarrow> (d0, None)
        | Some w \<Rightarrow> map_prod id Some (dallas_scan d0 (ow_reset_search w)))"

definition dallas_getDeviceCount :: "'t dallas \<Rightarrow> byte" where
  "dallas_getDeviceCount d = dsCount d"

definition dallas_getAddress :: "'t dallas \<Rightarrow> byte \<Rightarrow> bool \<times> ow_addr option" where
  "dallas_getAddress d index =
    (if index \<ge> dsCount d then (False, None) else (True, Some (dsDevices d ! unat index)))"

definition dallas_request :: "'t dallas \<Rightarrow> 't dallas" where
  "dallas_request d = d\<lparr>dsRequested := True\<rparr>"

definition dallas_setResolution :: "'t dallas \<Rightarrow> byte \<Rightarrow> 't dallas" where
  "dallas_setResolution d res = d\<lparr>dsResolution := res\<rparr>"

definition dallas_setWait :: "'t dallas \<Rightarrow> bool \<Rightarrow> 't dallas" where
  "dallas_setWait d b = d\<lparr>dsWait := b\<rparr>"

definition addrKey :: "ow_addr \<Rightarrow> u64" where
  "addrKey a = bytes_word (take 8 a)"

text \<open>\<open>dflt\<close> is the temperature of a sensor nobody has set (22.5), \<open>bad\<close> that of a sensor that is not there (-127).\<close>

definition dallas_getTempC :: "'t \<Rightarrow> 't dallas \<Rightarrow> ow_addr \<Rightarrow> 't" where
  "dallas_getTempC dflt d a = (case dsTemps d (addrKey a) of Some t \<Rightarrow> t | None \<Rightarrow> dflt)"

definition dallas_getTempCByIndex :: "'t \<Rightarrow> 't \<Rightarrow> 't dallas \<Rightarrow> byte \<Rightarrow> 't" where
  "dallas_getTempCByIndex dflt bad d index =
    (if index \<ge> dsCount d then bad
     else case dsTemps d (addrKey (dsDevices d ! unat index)) of Some t \<Rightarrow> t | None \<Rightarrow> dflt)"

definition dallas_setTemperature :: "'t dallas \<Rightarrow> ow_addr \<Rightarrow> 't \<Rightarrow> 't dallas" where
  "dallas_setTemperature d a t = d\<lparr>dsTemps := (dsTemps d)(addrKey a \<mapsto> t)\<rparr>"

definition dallas_setTemperatureByIndex :: "'t dallas \<Rightarrow> byte \<Rightarrow> 't \<Rightarrow> 't dallas" where
  "dallas_setTemperatureByIndex d index t =
    (if index < dsCount d
     then d\<lparr>dsTemps := (dsTemps d)(addrKey (dsDevices d ! unat index) \<mapsto> t)\<rparr> else d)"

section \<open>The check byte is a polynomial division\<close>

text \<open>
  The reference: the bits of the message, low bits first, through a shift register with the taps of
  \<open>x\<^sup>8 + x\<^sup>5 + x\<^sup>4 + 1\<close> (reflected, \<open>0x8C\<close>).
\<close>

definition lfsr_shift :: "byte \<Rightarrow> byte" where
  "lfsr_shift c = (if c AND 1 \<noteq> 0 then drop_bit 1 c XOR 0x8C else drop_bit 1 c)"

definition lfsr_byte :: "byte \<Rightarrow> byte" where
  "lfsr_byte c = (lfsr_shift ^^ 8) c"

definition crc8_reference :: "byte list \<Rightarrow> byte" where
  "crc8_reference = foldl (\<lambda>c b. lfsr_byte (c XOR b)) 0"

lemma lfsr_xor: "lfsr_shift (a XOR b) = lfsr_shift a XOR lfsr_shift b"
proof -
  have "(a XOR b) AND 1 \<noteq> 0 \<longleftrightarrow> (a AND 1 \<noteq> 0) \<noteq> (b AND 1 \<noteq> 0)"
    by (simp add: and_one_eq odd_iff_mod_2_eq_one [symmetric] even_xor_iff)
  moreover have "drop_bit 1 (a XOR b) = drop_bit 1 a XOR drop_bit 1 b"
    by (rule drop_bit_xor)
  ultimately show ?thesis
    by (auto simp: lfsr_shift_def ac_simps)
qed

lemma lfsr8_xor: "(lfsr_shift ^^ n) (a XOR b) = (lfsr_shift ^^ n) a XOR (lfsr_shift ^^ n) b"
  by (induction n) (simp_all add: lfsr_xor)

lemma byte_bits:
  "(m :: byte) = (m AND 0x01) XOR (m AND 0x02) XOR (m AND 0x04) XOR (m AND 0x08) XOR
     (m AND 0x10) XOR (m AND 0x20) XOR (m AND 0x40) XOR (m AND 0x80)"
proof -
  have "(0x01 :: byte) XOR 0x02 XOR 0x04 XOR 0x08 XOR 0x10 XOR 0x20 XOR 0x40 XOR 0x80 = 255"
    "(255 :: byte) = - 1"
    by simp_all
  then have "m = m AND (0x01 XOR 0x02 XOR 0x04 XOR 0x08 XOR 0x10 XOR 0x20 XOR 0x40 XOR 0x80)"
    by (simp only: bit.conj_one_right)
  also have "\<dots> = (m AND 0x01) XOR (m AND 0x02) XOR (m AND 0x04) XOR (m AND 0x08) XOR
     (m AND 0x10) XOR (m AND 0x20) XOR (m AND 0x40) XOR (m AND 0x80)"
    by (simp only: bit.conj_xor_distrib)
  finally show ?thesis .
qed

lemma and_single_bit: "(m :: byte) AND 2 ^ n = (if m AND 2 ^ n \<noteq> 0 then 2 ^ n else 0)"
  by (auto intro!: bit_word_eqI simp: bit_simps)

lemma lfsr8_single:
  "(lfsr_shift ^^ 8) 0x01 = 0x5E" "(lfsr_shift ^^ 8) 0x02 = 0xBC" "(lfsr_shift ^^ 8) 0x04 = 0x61"
  "(lfsr_shift ^^ 8) 0x08 = 0xC2" "(lfsr_shift ^^ 8) 0x10 = 0x9D" "(lfsr_shift ^^ 8) 0x20 = 0x23"
  "(lfsr_shift ^^ 8) 0x40 = 0x46" "(lfsr_shift ^^ 8) 0x80 = 0x8C" "(lfsr_shift ^^ 8) 0 = 0"
  by code_simp+

lemma and_bit_cases: "(m :: byte) AND 2 ^ n = 0 \<or> m AND 2 ^ n = 2 ^ n"
  using and_single_bit [of m n] by metis

lemma lfsr8_and_exp:
  "(lfsr_shift ^^ 8) (m AND 2 ^ n) = (if m AND 2 ^ n \<noteq> 0 then (lfsr_shift ^^ 8) (2 ^ n) else 0)"
proof (cases "m AND 2 ^ n = 0")
  case True
  then show ?thesis by (simp only: lfsr8_single) simp
next
  case False
  with and_bit_cases [of m n] have "m AND 2 ^ n = 2 ^ n" by blast
  with False show ?thesis by (simp only: if_True not_False_eq_True simp_thms)
qed

lemma byte_exps:
  "(2 :: byte) ^ 0 = 0x01" "(2 :: byte) ^ 1 = 0x02" "(2 :: byte) ^ 2 = 0x04" "(2 :: byte) ^ 3 = 0x08"
  "(2 :: byte) ^ 4 = 0x10" "(2 :: byte) ^ 5 = 0x20" "(2 :: byte) ^ 6 = 0x40" "(2 :: byte) ^ 7 = 0x80"
  by simp_all

lemmas lfsr8_and = lfsr8_and_exp [of _ 0] lfsr8_and_exp [of _ 1] lfsr8_and_exp [of _ 2]
  lfsr8_and_exp [of _ 3] lfsr8_and_exp [of _ 4] lfsr8_and_exp [of _ 5] lfsr8_and_exp [of _ 6]
  lfsr8_and_exp [of _ 7]

lemma xor_if: "(if b then c XOR k else c) = c XOR (if b then k else (0 :: byte))"
  by simp

lemma crc8_step_lfsr: "crc8_step c b = lfsr_byte (c XOR b)"
proof -
  let ?m = "b XOR c"
  have "lfsr_byte ?m = (lfsr_shift ^^ 8) ((?m AND 0x01) XOR (?m AND 0x02) XOR (?m AND 0x04) XOR
      (?m AND 0x08) XOR (?m AND 0x10) XOR (?m AND 0x20) XOR (?m AND 0x40) XOR (?m AND 0x80))"
    using byte_bits [of ?m] by (simp add: lfsr_byte_def)
  also have "\<dots> = crc8_step c b"
    unfolding crc8_step_def Let_def xor_if lfsr8_xor lfsr8_and [unfolded byte_exps] lfsr8_single
    by (simp only: xor.left_neutral xor.assoc)
  finally show ?thesis by (simp only: xor.commute)
qed

lemma crc8_is_reference: "crc8 addr len = crc8_reference (take (unat len) addr)"
proof -
  have "crc8_step = (\<lambda>c b. lfsr_byte (c XOR b))"
    by (intro ext) (rule crc8_step_lfsr)
  then show ?thesis by (simp add: crc8_def crc8_reference_def)
qed

text \<open>
  The check byte is the one of the Dallas standard. The table-driven loop computes, for every
  address and every length, the remainder that the bitwise shift register leaves.
\<close>

theorem onewire_crc8_polynomial:
  "crc8 addr len = crc8_reference (take (unat len) addr)"
  by (rule crc8_is_reference)

lemma xor_cancel:
  assumes "a XOR b = a XOR c"
  shows "b = (c :: byte)"
proof -
  have "a XOR (a XOR b) = a XOR (a XOR c)"
    using assms by simp
  then show ?thesis
    by (simp only: xor.assoc [symmetric] xor_self_eq xor.left_neutral)
qed

lemma xor_zero: "a XOR b = 0 \<Longrightarrow> a = (b :: byte)"
  using xor_cancel [of b a b] by (simp add: xor.commute)

lemma lfsr_zero: "lfsr_shift x = 0 \<Longrightarrow> x = 0"
proof -
  assume z: "lfsr_shift x = 0"
  have e: "x AND 1 = 0"
  proof (rule ccontr)
    assume "x AND 1 \<noteq> 0"
    with z have "drop_bit 1 x XOR 0x8C = 0"
      by (simp add: lfsr_shift_def)
    then have "drop_bit 1 x = 0x8C" by (rule xor_zero)
    then have "bit (drop_bit 1 x) 7 = bit (0x8C :: byte) 7" by simp
    moreover have "bit (0x8C :: byte) 7" by (simp add: bit_numeral_rec)
    moreover have "\<not> bit (drop_bit 1 x) 7"
      by (simp add: bit_drop_bit_eq) (simp add: bit_word.rep_eq)
    ultimately show False by simp
  qed
  with z have "drop_bit 1 x = 0"
    by (simp add: lfsr_shift_def)
  have "bit x n = False" for n
  proof (cases n)
    case 0
    then show ?thesis
      using e by (simp add: bit_0 and_one_eq odd_iff_mod_2_eq_one)
  next
    case (Suc k)
    have "bit (drop_bit 1 x) k = False"
      using \<open>drop_bit 1 x = 0\<close> by simp
    then show ?thesis
      using Suc by (simp add: bit_drop_bit_eq)
  qed
  then show "x = 0"
    by (intro bit_word_eqI) simp
qed

lemma lfsr_pow_inject: "(lfsr_shift ^^ n) a = (lfsr_shift ^^ n) b \<Longrightarrow> a = b"
proof (induction n)
  case (Suc n)
  then have "lfsr_shift ((lfsr_shift ^^ n) a XOR (lfsr_shift ^^ n) b) = 0"
    by (simp add: lfsr_xor)
  then have "(lfsr_shift ^^ n) a XOR (lfsr_shift ^^ n) b = 0"
    by (rule lfsr_zero)
  then have "(lfsr_shift ^^ n) a = (lfsr_shift ^^ n) b"
    by (rule xor_zero)
  then show ?case by (rule Suc.IH)
qed simp

lemma lfsr_byte_inject: "lfsr_byte a = lfsr_byte b \<Longrightarrow> a = b"
  unfolding lfsr_byte_def by (rule lfsr_pow_inject)

lemma lfsr_byte_0: "lfsr_byte 0 = 0"
  unfolding lfsr_byte_def by (rule lfsr8_single)

definition crc_fold :: "byte \<Rightarrow> byte list \<Rightarrow> byte" where
  "crc_fold = foldl (\<lambda>c b. lfsr_byte (c XOR b))"

lemma crc_fold_simps [simp]:
  "crc_fold c [] = c" "crc_fold c (b # bs) = crc_fold (lfsr_byte (c XOR b)) bs"
  "crc_fold c (bs @ cs) = crc_fold (crc_fold c bs) cs"
  by (simp_all add: crc_fold_def)

lemma crc_fold_inject: "crc_fold c bs = crc_fold c' bs \<Longrightarrow> c = c'"
proof (induction bs arbitrary: c c')
  case (Cons b bs)
  then have "lfsr_byte (c XOR b) = lfsr_byte (c' XOR b)"
    by auto
  then have "c XOR b = c' XOR b" by (rule lfsr_byte_inject)
  then have "b XOR c = b XOR c'" by (simp only: xor.commute)
  then show ?case by (rule xor_cancel)
qed simp

lemma crc8_fold: "length d \<le> 255 \<Longrightarrow> crc8 d (word_of_nat (length d)) = crc_fold 0 d"
  by (simp add: crc8_is_reference crc8_reference_def crc_fold_def unat_of_nat)

text \<open>
  C33: the check byte detects every error in one byte. Data followed by its check byte has the
  remainder 0, and no longer has it when any one byte, the check byte included, is replaced by
  another.
\<close>

theorem onewire_crc8_detects:
  assumes "length d < 255" "c = crc8 d (word_of_nat (length d))" "i \<le> length d" "b \<noteq> (d @ [c]) ! i"
  shows "crc8 (d @ [c]) (word_of_nat (length d + 1)) = 0 \<and>
    crc8 ((d @ [c])[i := b]) (word_of_nat (length d + 1)) \<noteq> 0"
proof -
  let ?m = "d @ [c]"
  have len: "length ?m \<le> 255" "length (?m[i := b]) \<le> 255"
    using assms(1) by simp_all
  have zero: "crc_fold 0 ?m = 0"
    using assms(1,2) by (simp add: crc8_fold lfsr_byte_0)
  have split: "?m = take i ?m @ ?m ! i # drop (Suc i) ?m" "?m[i := b] = take i ?m @ b # drop (Suc i) ?m"
    using assms(3) by (simp_all only: id_take_nth_drop upd_conv_take_nth_drop length_append list.size le_imp_less_Suc add_Suc_right add_0_right)
  have "crc_fold 0 (?m[i := b]) \<noteq> 0"
  proof
    assume "crc_fold 0 (?m[i := b]) = 0"
    with zero have "crc_fold 0 (take i ?m @ b # drop (Suc i) ?m) =
        crc_fold 0 (take i ?m @ ?m ! i # drop (Suc i) ?m)"
      using split by metis
    then have "lfsr_byte (crc_fold 0 (take i ?m) XOR b) =
        lfsr_byte (crc_fold 0 (take i ?m) XOR ?m ! i)"
      unfolding crc_fold_simps by (rule crc_fold_inject)
    then have "crc_fold 0 (take i ?m) XOR b = crc_fold 0 (take i ?m) XOR ?m ! i"
      by (rule lfsr_byte_inject)
    then show False
      using assms(4) xor_cancel by blast
  qed
  then show ?thesis
    using zero crc8_fold [OF len(1)] crc8_fold [OF len(2)] by simp
qed

theorem onewire_crc8_detects_witness:
  "crc8 [0x28, 1, 0xE9] 3 = 0 \<and> crc8 [0x28, 3, 0xE9] 3 \<noteq> 0"
proof -
  have "crc8 [0x28, 1] (word_of_nat (length [0x28 :: byte, 1])) = 0xE9"
    by code_simp
  with onewire_crc8_detects [of "[0x28, 1]" "0xE9" 1 3] show ?thesis
    by simp
qed

section \<open>The bus enumerates its devices\<close>

definition is_sensor :: "ow_addr \<Rightarrow> bool" where
  "is_sensor a \<longleftrightarrow> a \<noteq> [] \<and> hd a = 0x28"

declare dallas_scan.simps [simp del]

lemma dallas_scan_rest:
  "owSearch w \<le> length (owDevices w) \<Longrightarrow>
   dallas_scan d w =
     (let found = filter is_sensor (drop (owSearch w) (owDevices w))
      in (d\<lparr>dsDevices := dsDevices d @ found, dsCount := dsCount d + word_of_nat (length found)\<rparr>,
          w\<lparr>owSearch := length (owDevices w)\<rparr>))"
proof (induction d w rule: dallas_scan.induct)
  case (1 d w)
  show ?case
  proof (cases "owSearch w < length (owDevices w)")
    case False
    then show ?thesis
      using 1(2) by (subst dallas_scan.simps) (simp add: ow_search_def)
  next
    case True
    let ?a = "owDevices w ! owSearch w"
    let ?w = "w\<lparr>owSearch := owSearch w + 1\<rparr>"
    let ?d = "if ?a \<noteq> [] \<and> hd ?a = 0x28
      then d\<lparr>dsDevices := dsDevices d @ [?a], dsCount := dsCount d + 1\<rparr> else d"
    have s: "ow_search w = (True, Some ?a, ?w)"
      using True by (simp add: ow_search_def)
    have "dallas_scan d w = dallas_scan ?d ?w"
      by (subst dallas_scan.simps) (simp add: s)
    also have "\<dots> = (let found = filter is_sensor (drop (owSearch ?w) (owDevices ?w))
      in (?d\<lparr>dsDevices := dsDevices ?d @ found, dsCount := dsCount ?d + word_of_nat (length found)\<rparr>,
          ?w\<lparr>owSearch := length (owDevices ?w)\<rparr>))"
      using 1(1) [of True "(Some ?a, ?w)" "Some ?a" ?w ?a] s True by simp
    finally have "dallas_scan d w = \<dots>" .
    moreover have "(?a \<noteq> [] \<and> hd ?a = 0x28) = is_sensor ?a"
      by (simp add: is_sensor_def)
    ultimately show ?thesis
      using True Cons_nth_drop_Suc [OF True, symmetric]
      by (cases "is_sensor ?a") (simp_all add: Let_def add.assoc)
  qed
qed

text \<open>
  A scan finds the sensors on the bus, in order. \<open>begin\<close> appends to the table the address of
  every device of the sensors' family and counts them modulo 256, so after the first scan of at
  most 255 sensors the indices below the count give exactly the sensors on the bus.
\<close>

theorem dallas_scan_finds:
  assumes "dsDevices d = []" "length (filter is_sensor (owDevices w)) < 256"
  shows "\<exists>d' w'. dallas_begin d (Some w) = (d', Some w') \<and>
    unat (dallas_getDeviceCount d') = length (filter is_sensor (owDevices w)) \<and>
    (\<forall>i. dallas_getAddress d' i =
      (if unat i < length (filter is_sensor (owDevices w))
       then (True, Some (filter is_sensor (owDevices w) ! unat i)) else (False, None)))"
proof -
  have "unat (word_of_nat (length (filter is_sensor (owDevices w))) :: byte) =
      length (filter is_sensor (owDevices w))"
    using assms(2) by (simp add: unat_of_nat)
  then show ?thesis
    using assms(1) dallas_scan_rest [of "ow_reset_search w" "d\<lparr>dsCount := 0\<rparr>"]
    by (auto simp: dallas_begin_def ow_reset_search_def dallas_getDeviceCount_def dallas_getAddress_def
        word_le_nat_alt Let_def)
qed

text \<open>
  A second scan does not start afresh. The table keeps what an earlier scan put there while the
  count starts from zero, so after a second scan of a bus with at most as many sensors, the
  indices give the sensors of the first scan.
\<close>

theorem dallas_second_scan_stale:
  assumes "length (filter is_sensor (owDevices w)) \<le> length (dsDevices d)"
    and "unat i < length (filter is_sensor (owDevices w))" "length (filter is_sensor (owDevices w)) < 256"
  shows "\<exists>d' w'. dallas_begin d (Some w) = (d', Some w') \<and>
    dallas_getAddress d' i = (True, Some (dsDevices d ! unat i))"
proof -
  have "unat (word_of_nat (length (filter is_sensor (owDevices w))) :: byte) =
      length (filter is_sensor (owDevices w))"
    using assms(3) by (simp add: unat_of_nat)
  then show ?thesis
    using assms dallas_scan_rest [of "ow_reset_search w" "d\<lparr>dsCount := 0\<rparr>"]
    by (auto simp: dallas_begin_def ow_reset_search_def dallas_getAddress_def word_le_nat_alt nth_append Let_def)
qed

definition demo_bus :: "ow_addr list \<Rightarrow> one_wire" where
  "demo_bus devs = fold (\<lambda>a w. ow_addDevice w a) devs (ow_new 4)"

theorem dallas_scan_finds_witness:
  "\<exists>d' w'. dallas_begin (dallas_new :: int dallas) (Some (demo_bus [[0x28, 1], [0x10, 2], [0x28, 3]])) =
      (d', Some w') \<and> dallas_getAddress d' 1 = (True, Some [0x28, 3])"
proof -
  have "filter is_sensor (owDevices (demo_bus [[0x28, 1], [0x10, 2], [0x28, 3]])) = [[0x28, 1], [0x28, 3]]"
    by (simp add: demo_bus_def ow_addDevice_def ow_new_def is_sensor_def)
  then show ?thesis
    using dallas_scan_finds [of "dallas_new :: int dallas" "demo_bus [[0x28, 1], [0x10, 2], [0x28, 3]]"]
    by (auto simp: dallas_new_def)
qed

theorem dallas_second_scan_stale_witness:
  "\<exists>d' w'. dallas_begin ((dallas_new :: int dallas)\<lparr>dsDevices := [[0x28, 9]]\<rparr>) (Some (demo_bus [[0x28, 1]])) =
      (d', Some w') \<and> dallas_getAddress d' 0 = (True, Some [0x28, 9])"
proof -
  have "filter is_sensor (owDevices (demo_bus [[0x28, 1]])) = [[0x28, 1]]"
    by (simp add: demo_bus_def ow_addDevice_def ow_new_def is_sensor_def)
  then show ?thesis
    using dallas_second_scan_stale [of "demo_bus [[0x28, 1]]" "(dallas_new :: int dallas)\<lparr>dsDevices := [[0x28, 9]]\<rparr>" 0]
    by simp
qed

lemma addrKey_inject:
  assumes "length a = 8" "length b = 8" "addrKey a = addrKey b"
  shows "a = b"
proof -
  have bound: "le_nat a < 2 ^ 64" "le_nat b < 2 ^ 64"
    using le_nat_bound [of a] le_nat_bound [of b] assms(1,2) by simp_all
  have "unat (word_of_nat (le_nat a) :: u64) = unat (word_of_nat (le_nat b) :: u64)"
    using assms by (simp add: addrKey_def bytes_word_def)
  then have "le_nat a = le_nat b"
    using bound by (simp add: unat_of_nat)
  then show ?thesis
    using le_bytes_le_nat [OF assms(1)] le_bytes_le_nat [OF assms(2)] by metis
qed

text \<open>
  Temperatures are kept per address. Setting the temperature of a sensor, by address or by its
  index, changes what is read for that address and for no other.
\<close>

theorem dallas_temperature_roundtrip:
  assumes "length a = 8" "length b = 8" "index < dsCount d" "dsDevices d ! unat index = a"
  shows "dallas_getTempC dflt (dallas_setTemperature d a t) b =
      (if b = a then t else dallas_getTempC dflt d b) \<and>
    dallas_setTemperatureByIndex d index t = dallas_setTemperature d a t \<and>
    dallas_getTempCByIndex dflt bad d index = dallas_getTempC dflt d a"
proof (intro conjI)
  have "addrKey b = addrKey a \<longleftrightarrow> b = a"
    using addrKey_inject [OF assms(2,1)] by blast
  then show "dallas_getTempC dflt (dallas_setTemperature d a t) b =
      (if b = a then t else dallas_getTempC dflt d b)"
    by (simp add: dallas_getTempC_def dallas_setTemperature_def)
  show "dallas_setTemperatureByIndex d index t = dallas_setTemperature d a t"
    using assms(3) by (simp add: dallas_setTemperatureByIndex_def dallas_setTemperature_def assms(4))
  show "dallas_getTempCByIndex dflt bad d index = dallas_getTempC dflt d a"
    using assms(3) by (simp add: dallas_getTempCByIndex_def dallas_getTempC_def assms(4) not_le [symmetric])
qed

definition demo_sensors :: "int dallas" where
  "demo_sensors = dallas_new\<lparr>dsDevices := [[0x28, 1, 0, 0, 0, 0, 0, 5]], dsCount := 1\<rparr>"

theorem dallas_temperature_roundtrip_witness:
  "dallas_getTempC 0 (dallas_setTemperature demo_sensors [0x28, 1, 0, 0, 0, 0, 0, 5] 30)
     [0x28, 2, 0, 0, 0, 0, 0, 5] = 0"
proof -
  have ne: "[0x28, 2, 0, 0, 0, 0, 0, 5] \<noteq> [0x28 :: byte, 1, 0, 0, 0, 0, 0, 5]"
    by simp
  have "dallas_getTempC 0 demo_sensors [0x28, 2, 0, 0, 0, 0, 0, 5] = 0"
    by (simp add: dallas_getTempC_def demo_sensors_def dallas_new_def)
  moreover have "0 < dsCount demo_sensors" "dsDevices demo_sensors ! unat (0 :: byte) = [0x28, 1, 0, 0, 0, 0, 0, 5]"
    by (simp_all add: demo_sensors_def)
  from conjunct1 [OF dallas_temperature_roundtrip [OF _ _ this, of "[0x28, 2, 0, 0, 0, 0, 0, 5]" 0 30 0]]
  have "dallas_getTempC 0 (dallas_setTemperature demo_sensors [0x28, 1, 0, 0, 0, 0, 0, 5] 30)
      [0x28, 2, 0, 0, 0, 0, 0, 5] = dallas_getTempC 0 demo_sensors [0x28, 2, 0, 0, 0, 0, 0, 5]"
    using ne by simp
  ultimately show ?thesis by simp
qed

end
