(* ===== verification/Flash.thy ===== *)
theory Flash
  imports Interfaces
begin

text \<open>
  Emulated non-volatile memory: the partition table of \<open>src/include/esp_partition.h\<close>, the wear
  levelling volumes of \<open>src/include/esp_wear_levelling.h\<close> and the byte array of
  \<open>src/include/EEPROM.h\<close>. A partition and a volume are \<open>byte_region\<close>s. Offsets and sizes are
  \<open>size_t\<close>, so the sum in their bounds check wraps; the lemmas say exactly when an access leaves
  the backing vector, which is undefined behaviour and \<open>None\<close> here.
\<close>

section \<open>Raw copies\<close>

text \<open>\<open>memcpy\<close> and \<open>memset\<close> on the backing vector of a region.\<close>

definition mem_load :: "byte list \<Rightarrow> u64 \<Rightarrow> u64 \<Rightarrow> byte list option" where
  "mem_load xs off n =
    (if unat off + unat n \<le> length xs then Some (chunk xs (unat off) (unat n)) else None)"

definition mem_store :: "byte list \<Rightarrow> u64 \<Rightarrow> byte list \<Rightarrow> byte list option" where
  "mem_store xs off src =
    (if unat off + length src \<le> length xs then Some (blit xs (unat off) src) else None)"

text \<open>The bounds check \<open>off + n > sz\<close>, in \<open>size_t\<close>.\<close>

definition out_of_range :: "u64 \<Rightarrow> u64 \<Rightarrow> u64 \<Rightarrow> bool" where
  "out_of_range off n sz \<longleftrightarrow> off + n > sz"

lemma in_range_no_wrap:
  "unat off + unat n < 2 ^ 64 \<Longrightarrow> \<not> out_of_range off n sz \<longleftrightarrow> unat off + unat n \<le> unat sz"
  by (simp add: out_of_range_def not_less word_le_nat_alt unat_add_no_wrap)

section \<open>Wear levelling\<close>

record wl_partition =
  wlData :: "byte list"
  wlSectorSize :: u64
  wlSize :: u64

record wl_state =
  wlPartitions :: "int \<rightharpoonup> wl_partition"
  wlNext :: int

definition wl_init :: wl_state where
  "wl_init = \<lparr>wlPartitions = Map.empty, wlNext = 0\<rparr>"

definition wl_mount ::
  "wl_state \<Rightarrow> bool \<Rightarrow> u64 \<Rightarrow> u64 \<Rightarrow> (esp_err \<times> int option) \<times> wl_state" where
  "wl_mount s out_given sz sector_size =
    (if \<not> out_given then ((ESP_ERR_INVALID_ARG, None), s)
     else ((ESP_OK, Some (wlNext s)),
       s\<lparr>wlNext := wlNext s + 1,
         wlPartitions := (wlPartitions s)(wlNext s \<mapsto>
           \<lparr>wlData = replicate (unat sz) 0xFF, wlSectorSize = sector_size, wlSize = sz\<rparr>)\<rparr>))"

definition wl_unmount :: "wl_state \<Rightarrow> int \<Rightarrow> esp_err \<times> wl_state" where
  "wl_unmount s h = (ESP_OK, s\<lparr>wlPartitions := (wlPartitions s)(h := None)\<rparr>)"

definition wl_read :: "wl_state \<Rightarrow> int \<Rightarrow> u64 \<Rightarrow> u64 \<Rightarrow> (esp_err \<times> byte list) option" where
  "wl_read s h a sz =
    (case wlPartitions s h of
       None \<Rightarrow> Some (ESP_FAIL, [])
     | Some p \<Rightarrow>
         if out_of_range a sz (wlSize p) then Some (ESP_ERR_INVALID_ARG, [])
         else map_option (Pair ESP_OK) (mem_load (wlData p) a sz))"

definition wl_update :: "wl_state \<Rightarrow> int \<Rightarrow> u64 \<Rightarrow> byte list \<Rightarrow> (esp_err \<times> wl_state) option" where
  "wl_update s h a src =
    (case wlPartitions s h of
       None \<Rightarrow> Some (ESP_FAIL, s)
     | Some p \<Rightarrow>
         if out_of_range a (word_of_nat (length src)) (wlSize p) then Some (ESP_ERR_INVALID_ARG, s)
         else map_option (\<lambda>d. (ESP_OK,
                s\<lparr>wlPartitions := (wlPartitions s)(h \<mapsto> p\<lparr>wlData := d\<rparr>)\<rparr>))
              (mem_store (wlData p) a src))"

definition wl_write :: "wl_state \<Rightarrow> int \<Rightarrow> u64 \<Rightarrow> byte list \<Rightarrow> (esp_err \<times> wl_state) option" where
  "wl_write s h a src = wl_update s h a src"

definition wl_erase_range :: "wl_state \<Rightarrow> int \<Rightarrow> u64 \<Rightarrow> u64 \<Rightarrow> (esp_err \<times> wl_state) option" where
  "wl_erase_range s h a sz = wl_update s h a (replicate (unat sz) 0xFF)"

definition wl_size :: "wl_state \<Rightarrow> int \<Rightarrow> u64" where
  "wl_size s h = (case wlPartitions s h of None \<Rightarrow> 0 | Some p \<Rightarrow> wlSize p)"

definition wl_sector_size :: "wl_state \<Rightarrow> int \<Rightarrow> u64" where
  "wl_sector_size s h = (case wlPartitions s h of None \<Rightarrow> 0 | Some p \<Rightarrow> wlSectorSize p)"

section \<open>Partitions\<close>

abbreviation (input) "ESP_PARTITION_TYPE_APP \<equiv> (0x00 :: u32)"
abbreviation (input) "ESP_PARTITION_TYPE_DATA \<equiv> (0x01 :: u32)"
abbreviation (input) "ESP_PARTITION_SUBTYPE_APP_FACTORY \<equiv> (0x00 :: u32)"
abbreviation (input) "ESP_PARTITION_SUBTYPE_APP_OTA_0 \<equiv> (0x10 :: u32)"
abbreviation (input) "ESP_PARTITION_SUBTYPE_APP_OTA_1 \<equiv> (0x11 :: u32)"
abbreviation (input) "ESP_PARTITION_SUBTYPE_DATA_NVS \<equiv> (0x02 :: u32)"
abbreviation (input) "ESP_PARTITION_SUBTYPE_DATA_OTA \<equiv> (0x00 :: u32)"
abbreviation (input) "ESP_PARTITION_SUBTYPE_DATA_SPIFFS \<equiv> (0x82 :: u32)"
abbreviation (input) "ESP_PARTITION_SUBTYPE_ANY \<equiv> (0xFF :: u32)"

record esp_partition =
  ptType :: u32
  ptSubtype :: u32
  ptAddress :: u32
  ptSize :: u32
  ptLabel :: string
  ptEncrypted :: bool

text \<open>The table and, entry by entry, the backing storage.\<close>

record partition_store =
  partitions :: "esp_partition list"
  ptData :: "byte list list"

definition partition_add ::
  "partition_store \<Rightarrow> string \<Rightarrow> u32 \<Rightarrow> u32 \<Rightarrow> u32 \<Rightarrow> u32 \<Rightarrow> partition_store" where
  "partition_add s label ty subtype addr sz =
    s\<lparr>partitions := partitions s @ [\<lparr>ptType = ty, ptSubtype = subtype, ptAddress = addr,
         ptSize = sz, ptLabel = take 16 label, ptEncrypted = False\<rparr>],
      ptData := ptData s @ [replicate (unat sz) 0xFF]\<rparr>"

definition partition_reset :: partition_store where
  "partition_reset =
    (let s = \<lparr>partitions = [], ptData = []\<rparr>;
         s = partition_add s ''factory'' ESP_PARTITION_TYPE_APP ESP_PARTITION_SUBTYPE_APP_FACTORY 0x10000 0x100000;
         s = partition_add s ''ota_0'' ESP_PARTITION_TYPE_APP ESP_PARTITION_SUBTYPE_APP_OTA_0 0x110000 0x100000;
         s = partition_add s ''ota_1'' ESP_PARTITION_TYPE_APP ESP_PARTITION_SUBTYPE_APP_OTA_1 0x210000 0x100000;
         s = partition_add s ''nvs'' ESP_PARTITION_TYPE_DATA ESP_PARTITION_SUBTYPE_DATA_NVS 0x9000 0x5000;
         s = partition_add s ''otadata'' ESP_PARTITION_TYPE_DATA ESP_PARTITION_SUBTYPE_DATA_OTA 0xE000 0x2000
     in partition_add s ''spiffs'' ESP_PARTITION_TYPE_DATA ESP_PARTITION_SUBTYPE_DATA_SPIFFS 0x310000 0xF0000)"

text \<open>
  A \<open>const esp_partition_t*\<close> is null (\<open>None\<close>), or an index; an index past the table is a pointer
  that no entry has.
\<close>

definition partition_matches :: "u32 \<Rightarrow> u32 \<Rightarrow> string option \<Rightarrow> esp_partition \<Rightarrow> bool" where
  "partition_matches ty subtype label p \<longleftrightarrow>
    ptType p = ty \<and> (subtype = ESP_PARTITION_SUBTYPE_ANY \<or> ptSubtype p = subtype) \<and>
    (case label of None \<Rightarrow> True | Some l \<Rightarrow> ptLabel p = l)"

fun find_index :: "('a \<Rightarrow> bool) \<Rightarrow> 'a list \<Rightarrow> nat option" where
  "find_index P [] = None"
| "find_index P (x # xs) = (if P x then Some 0 else map_option Suc (find_index P xs))"

definition esp_partition_find_first ::
  "partition_store \<Rightarrow> u32 \<Rightarrow> u32 \<Rightarrow> string option \<Rightarrow> nat option" where
  "esp_partition_find_first s ty subtype label =
    find_index (partition_matches ty subtype label) (partitions s)"

definition esp_partition_read ::
  "partition_store \<Rightarrow> nat option \<Rightarrow> u64 \<Rightarrow> bool \<Rightarrow> u64 \<Rightarrow> (esp_err \<times> byte list) option" where
  "esp_partition_read s part src_offset dst_given sz =
    (case part of
       None \<Rightarrow> Some (ESP_FAIL, [])
     | Some i \<Rightarrow>
         if \<not> dst_given then Some (ESP_FAIL, [])
         else if i < length (partitions s) then
           if out_of_range src_offset sz (ucast (ptSize (partitions s ! i)))
           then Some (ESP_ERR_INVALID_SIZE, [])
           else map_option (Pair ESP_OK) (mem_load (ptData s ! i) src_offset sz)
         else Some (ESP_ERR_NOT_FOUND, []))"

definition partition_update ::
  "partition_store \<Rightarrow> nat \<Rightarrow> u64 \<Rightarrow> byte list \<Rightarrow> (esp_err \<times> partition_store) option" where
  "partition_update s i offset src =
    (if i < length (partitions s) then
       if out_of_range offset (word_of_nat (length src)) (ucast (ptSize (partitions s ! i)))
       then Some (ESP_ERR_INVALID_SIZE, s)
       else map_option (\<lambda>d. (ESP_OK, s\<lparr>ptData := (ptData s)[i := d]\<rparr>))
              (mem_store (ptData s ! i) offset src)
     else Some (ESP_ERR_NOT_FOUND, s))"

definition esp_partition_write ::
  "partition_store \<Rightarrow> nat option \<Rightarrow> u64 \<Rightarrow> byte list option \<Rightarrow> (esp_err \<times> partition_store) option" where
  "esp_partition_write s part dst_offset src =
    (case (part, src) of
       (Some i, Some d) \<Rightarrow> partition_update s i dst_offset d
     | _ \<Rightarrow> Some (ESP_FAIL, s))"

definition esp_partition_erase_range ::
  "partition_store \<Rightarrow> nat option \<Rightarrow> u64 \<Rightarrow> u64 \<Rightarrow> (esp_err \<times> partition_store) option" where
  "esp_partition_erase_range s part offset sz =
    (case part of
       None \<Rightarrow> Some (ESP_FAIL, s)
     | Some i \<Rightarrow> partition_update s i offset (replicate (unat sz) 0xFF))"

section \<open>EEPROM\<close>

text \<open>
  \<open>(int)data_.size()\<close> is the length as a 32-bit signed value; \<open>addr + (int)sizeof(T)\<close> overflows,
  which is undefined, past \<open>INT_MAX\<close>.
\<close>

definition int_size :: "byte list \<Rightarrow> int" where
  "int_size d = sint (word_of_nat (length d) :: 32 word)"

definition eeprom_begin :: "byte list \<Rightarrow> nat \<Rightarrow> byte list" where
  "eeprom_begin d sz = take sz d @ replicate (sz - length d) 0"

definition eeprom_read :: "byte list \<Rightarrow> int \<Rightarrow> byte" where
  "eeprom_read d a = (if a < 0 \<or> a \<ge> int_size d then 0 else d ! nat a)"

definition eeprom_write :: "byte list \<Rightarrow> int \<Rightarrow> byte \<Rightarrow> byte list" where
  "eeprom_write d a val = (if a \<ge> 0 \<and> a < int_size d then d[nat a := val] else d)"

definition eeprom_get :: "byte list \<Rightarrow> int \<Rightarrow> 'a::len word \<Rightarrow> 'a word option" where
  "eeprom_get d a t =
    (if a < 0 then Some t
     else if a + int (sizeof TYPE('a word)) > 0x7FFFFFFF then None
     else if a + int (sizeof TYPE('a word)) \<le> int_size d
     then Some (bytes_word (chunk d (nat a) (sizeof TYPE('a word))))
     else Some t)"

definition eeprom_put :: "byte list \<Rightarrow> int \<Rightarrow> 'a::len word \<Rightarrow> byte list option" where
  "eeprom_put d a t =
    (if a < 0 then Some d
     else if a + int (sizeof TYPE('a word)) > 0x7FFFFFFF then None
     else if a + int (sizeof TYPE('a word)) \<le> int_size d
     then Some (blit d (nat a) (word_bytes t))
     else Some d)"

definition eeprom_commit :: "byte list \<Rightarrow> bool" where
  "eeprom_commit d = True"

definition eeprom_length :: "byte list \<Rightarrow> nat" where
  "eeprom_length d = length d"

section \<open>Volumes and partitions as byte regions\<close>

definition wl_ok :: "int \<Rightarrow> wl_state \<Rightarrow> bool" where
  "wl_ok h s \<longleftrightarrow> (\<exists>p. wlPartitions s h = Some p \<and> length (wlData p) = unat (wlSize p))"

definition wl_bytes :: "int \<Rightarrow> wl_state \<Rightarrow> byte list" where
  "wl_bytes h s = (case wlPartitions s h of None \<Rightarrow> [] | Some p \<Rightarrow> wlData p)"

definition ok_result :: "(esp_err \<times> 'a) option \<Rightarrow> 'a option" where
  "ok_result r = (case r of Some (e, x) \<Rightarrow> if e = ESP_OK then Some x else None | None \<Rightarrow> None)"

lemma unat_of_nat_u64: "n < 2 ^ 64 \<Longrightarrow> unat (word_of_nat n :: u64) = n"
  by (simp add: unat_of_nat take_bit_nat_eq_self)

lemma region_in_range:
  assumes "off + n \<le> unat (sz :: u64)"
  shows "\<not> out_of_range (word_of_nat off) (word_of_nat n) sz"
    "unat (word_of_nat off :: u64) = off" "unat (word_of_nat n :: u64) = n"
proof -
  have "unat sz < 2 ^ 64"
    using unat_bound [of sz] by simp
  with assms show u: "unat (word_of_nat off :: u64) = off" "unat (word_of_nat n :: u64) = n"
    by (simp_all add: unat_of_nat_u64)
  with assms \<open>unat sz < 2 ^ 64\<close> show "\<not> out_of_range (word_of_nat off) (word_of_nat n) sz"
    by (subst in_range_no_wrap) simp_all
qed

interpretation wl: byte_region "wl_ok h" "wl_bytes h"
  "\<lambda>s off d. ok_result (wl_write s h (word_of_nat off) d)"
  "\<lambda>s off n. ok_result (wl_read s h (word_of_nat off) (word_of_nat n))"
  for h
proof unfold_locales
  fix s off and d :: "byte list"
  assume "wl_ok h s" "off + length d \<le> length (wl_bytes h s)"
  then obtain p where p: "wlPartitions s h = Some p" "length (wlData p) = unat (wlSize p)"
      "off + length d \<le> unat (wlSize p)"
    by (auto simp: wl_ok_def wl_bytes_def)
  then show "\<exists>s'. ok_result (wl_write s h (word_of_nat off) d) = Some s' \<and>
      wl_bytes h s' = blit (wl_bytes h s) off d \<and> wl_ok h s'"
    using region_in_range [OF p(3)]
    by (simp add: wl_write_def wl_update_def mem_store_def ok_result_def wl_bytes_def wl_ok_def)
next
  fix s off n
  assume "wl_ok h s" "off + n \<le> length (wl_bytes h s)"
  then obtain p where p: "wlPartitions s h = Some p" "length (wlData p) = unat (wlSize p)"
      "off + n \<le> unat (wlSize p)"
    by (auto simp: wl_ok_def wl_bytes_def)
  then show "ok_result (wl_read s h (word_of_nat off) (word_of_nat n)) =
      Some (chunk (wl_bytes h s) off n)"
    using region_in_range [OF p(3)]
    by (simp add: wl_read_def mem_load_def ok_result_def wl_bytes_def)
qed

definition part_ok :: "nat \<Rightarrow> partition_store \<Rightarrow> bool" where
  "part_ok i s \<longleftrightarrow> i < length (partitions s) \<and> length (ptData s) = length (partitions s) \<and>
    length (ptData s ! i) = unat (ptSize (partitions s ! i))"

interpretation part: byte_region "part_ok i" "\<lambda>s. ptData s ! i"
  "\<lambda>s off d. ok_result (esp_partition_write s (Some i) (word_of_nat off) (Some d))"
  "\<lambda>s off n. ok_result (esp_partition_read s (Some i) (word_of_nat off) True (word_of_nat n))"
  for i
proof unfold_locales
  fix s off and d :: "byte list"
  assume s: "part_ok i s" "off + length d \<le> length (ptData s ! i)"
  then have "off + length d \<le> unat (ucast (ptSize (partitions s ! i)) :: u64)"
    by (simp add: part_ok_def)
  from region_in_range [OF this] s
  show "\<exists>s'. ok_result (esp_partition_write s (Some i) (word_of_nat off) (Some d)) = Some s' \<and>
      ptData s' ! i = blit (ptData s ! i) off d \<and> part_ok i s'"
    by (simp add: esp_partition_write_def partition_update_def mem_store_def ok_result_def part_ok_def)
next
  fix s off n
  assume s: "part_ok i s" "off + n \<le> length (ptData s ! i)"
  then have "off + n \<le> unat (ucast (ptSize (partitions s ! i)) :: u64)"
    by (simp add: part_ok_def)
  from region_in_range [OF this] s
  show "ok_result (esp_partition_read s (Some i) (word_of_nat off) True (word_of_nat n)) =
      Some (chunk (ptData s ! i) off n)"
    by (simp add: esp_partition_read_def mem_load_def ok_result_def part_ok_def)
qed

section \<open>The store as a state machine\<close>

datatype part_op =
    PartWrite "nat option" u64 "byte list option"
  | PartErase "nat option" u64 u64
  | PartReset

text \<open>A request that traps ends the program; here it leaves the store as it was.\<close>

fun part_step :: "part_op \<Rightarrow> partition_store \<Rightarrow> partition_store" where
  "part_step (PartWrite p off d) s =
    (case esp_partition_write s p off d of None \<Rightarrow> s | Some (_, s') \<Rightarrow> s')"
| "part_step (PartErase p off n) s =
    (case esp_partition_erase_range s p off n of None \<Rightarrow> s | Some (_, s') \<Rightarrow> s')"
| "part_step PartReset s = partition_reset"

text \<open>Every partition has backing storage of its size, and the table is the default one.\<close>

definition part_inv :: "partition_store \<Rightarrow> bool" where
  "part_inv s \<longleftrightarrow> partitions s = partitions partition_reset \<and>
    map length (ptData s) = map (\<lambda>p. unat (ptSize p)) (partitions s)"

lemma part_inv_ok: "part_inv s \<Longrightarrow> i < length (partitions s) \<Longrightarrow> part_ok i s"
  unfolding part_inv_def part_ok_def by (metis length_map nth_map)

lemma partition_update_inv:
  assumes "part_inv s" "partition_update s i off d = Some (e, s')"
  shows "part_inv s'"
proof -
  have "partitions s' = partitions s \<and> map length (ptData s') = map length (ptData s)"
    using assms(2)
    by (auto simp: partition_update_def mem_store_def map_update list_update_id split: if_splits)
      (metis length_blit length_map list_update_id map_update nth_map list_update_beyond linorder_not_less)
  with assms(1) show ?thesis
    by (simp add: part_inv_def)
qed

lemma part_inv_reset: "part_inv partition_reset"
  by (simp add: part_inv_def partition_reset_def partition_add_def Let_def)

interpretation part_hist: step_system "\<lambda>s. s = partition_reset" "\<lambda>_. True" part_step part_inv
proof
  fix s op
  assume "part_inv s"
  then show "part_inv (part_step op s)"
    by (cases op)
      (auto simp: part_inv_reset esp_partition_write_def esp_partition_erase_range_def
        dest: partition_update_inv split: option.splits)
qed (simp add: part_inv_reset)

lemma part_hist_ok:
  "i < length (partitions (fold part_step ops partition_reset)) \<Longrightarrow>
   part_ok i (fold part_step ops partition_reset)"
  by (rule part_inv_ok, rule part_hist.inv_run) (simp_all add: list_all_iff)

lemma ok_result_eq_Some [simp]: "ok_result r = Some x \<longleftrightarrow> r = Some (ESP_OK, x)"
  by (auto simp: ok_result_def split: option.splits)

section \<open>Properties\<close>

text \<open>
  Flash contents. After any history of writes, erases and resets, a write inside a partition
  succeeds, is read back, and leaves every disjoint range of the partition as it was; two writes to
  disjoint ranges give the same contents in either order.
\<close>

theorem partition_write_read:
  assumes "i < length (partitions s)" "s = fold part_step ops partition_reset"
    and "off + length d \<le> length (ptData s ! i)" "p + length b \<le> length (ptData s ! i)"
    and "p + length b \<le> off \<or> off + length d \<le> p"
  shows "(\<exists>s1. esp_partition_write s (Some i) (word_of_nat off) (Some d) = Some (ESP_OK, s1) \<and>
      esp_partition_read s1 (Some i) (word_of_nat off) True (word_of_nat (length d)) = Some (ESP_OK, d) \<and>
      ok_result (esp_partition_read s1 (Some i) (word_of_nat p) True (word_of_nat (length b))) =
        ok_result (esp_partition_read s (Some i) (word_of_nat p) True (word_of_nat (length b)))) \<and>
    (\<exists>s1 s2 t1 t2.
      esp_partition_write s (Some i) (word_of_nat off) (Some d) = Some (ESP_OK, s1) \<and>
      esp_partition_write s1 (Some i) (word_of_nat p) (Some b) = Some (ESP_OK, s2) \<and>
      esp_partition_write s (Some i) (word_of_nat p) (Some b) = Some (ESP_OK, t1) \<and>
      esp_partition_write t1 (Some i) (word_of_nat off) (Some d) = Some (ESP_OK, t2) \<and>
      ptData s2 ! i = ptData t2 ! i)"
proof -
  have ok: "part_ok i s"
    using assms(1,2) part_hist_ok by blast
  have "off + length d \<le> p \<or> p + length b \<le> off"
    using assms(5) by blast
  then show ?thesis
    using part.rd_wr_same [OF ok assms(3)] part.rd_wr_disjoint [OF ok assms(3,4,5)]
      part.wr_wr_commute [OF ok assms(3,4)]
    by (intro conjI) auto
qed

theorem partition_write_read_witness:
  "\<exists>s1. esp_partition_write partition_reset (Some 3) 16 (Some [1, 2, 3]) = Some (ESP_OK, s1) \<and>
     esp_partition_read s1 (Some 3) 16 True 3 = Some (ESP_OK, [1, 2, 3])"
proof -
  have "3 < length (partitions partition_reset)" and "length (ptData partition_reset ! 3) = 0x5000"
    by (simp_all add: partition_reset_def partition_add_def Let_def)
  then show ?thesis
    using partition_write_read [of 3 partition_reset "[]" 16 "[1, 2, 3]" 0 "[]"] by auto
qed

text \<open>
  C19: the bounds check and its hole. For a partition in its table entry's state the outcome of
  a write is one of three. It is done when offset plus length stay within the partition. When they
  end past it the write is rejected with \<open>ESP_ERR_INVALID_SIZE\<close> and nothing changes, unless the sum
  wraps around in \<open>size_t\<close> to a value within the partition: then, and only then, the check passes
  and the copy leaves the backing vector. (A sum that wraps to a value beyond it is rejected.)
\<close>

theorem partition_write_traps_iff_wraps:
  assumes "part_ok i s" "length d < 2 ^ 64"
  defines "n \<equiv> length (ptData s ! i)"
  shows "esp_partition_write s (Some i) off (Some d) =
    (if unat off + length d \<le> n
     then Some (ESP_OK, s\<lparr>ptData := (ptData s)[i := blit (ptData s ! i) (unat off) d]\<rparr>)
     else if unat off + length d \<ge> 2 ^ 64 \<and> unat off + length d - 2 ^ 64 \<le> n then None
     else Some (ESP_ERR_INVALID_SIZE, s))"
proof -
  let ?sz = "ucast (ptSize (partitions s ! i)) :: u64"
  have n: "n = unat ?sz" "i < length (partitions s)"
    using assms(1) by (simp_all add: part_ok_def n_def)
  have d: "unat (word_of_nat (length d) :: u64) = length d"
    using assms(2) by (rule unat_of_nat_u64)
  have n32: "n < 2 ^ 32"
    using unat_bound [of "ptSize (partitions s ! i)"] n by simp
  have range: "out_of_range off (word_of_nat (length d)) ?sz \<longleftrightarrow>
      n < (unat off + length d) mod 2 ^ 64"
    using d by (simp add: out_of_range_def word_less_nat_alt n unat_word_ariths)
  have off: "unat off < 2 ^ 64"
    using unat_bound [of off] by simp
  have wrap: "(unat off + length d) mod 2 ^ 64 =
      (if unat off + length d < 2 ^ 64 then unat off + length d else unat off + length d - 2 ^ 64)"
    using off assms(2) by (auto simp: le_mod_geq)
  show ?thesis
    using n(2) range wrap n32
    by (auto simp: esp_partition_write_def partition_update_def mem_store_def n_def [symmetric])
qed

theorem partition_write_traps_iff_wraps_witness:
  "esp_partition_write partition_reset (Some 3) (- 2) (Some [1, 2, 3]) = None \<and>
   esp_partition_write partition_reset (Some 3) 0x4FFF (Some [1, 2]) = Some (ESP_ERR_INVALID_SIZE, partition_reset)"
proof -
  have "part_ok 3 partition_reset"
    by (rule part_inv_ok [OF part_inv_reset]) (simp add: partition_reset_def partition_add_def Let_def)
  moreover have "length (ptData partition_reset ! 3) = 0x5000"
    by (simp add: partition_reset_def partition_add_def Let_def)
  ultimately show ?thesis
    using partition_write_traps_iff_wraps [of 3 partition_reset "[1, 2, 3]" "- 2"]
      partition_write_traps_iff_wraps [of 3 partition_reset "[1, 2]" "0x4FFF"] by simp
qed

end
