(* ===== verification/Ota.thy ===== *)
theory Ota
  imports Flash
begin

text \<open>
  Firmware updates: the ESP-IDF calls of \<open>src/include/esp_ota_ops.h\<close> and the Arduino updater of
  \<open>src/include/Update.h\<close>. Both collect the image in a buffer and keep a small protocol state. The
  lemmas relate the buffer to the writes made since the last begin and say when an update counts
  as finished.
\<close>

section \<open>ESP-IDF updates\<close>

text \<open>Partitions are indices into the table of \<open>Flash\<close>; a null pointer is \<open>None\<close>.\<close>

record ota_state =
  inProgress :: bool
  otaTarget :: "nat option"
  writtenData :: "byte list"
  handleCounter :: u32
  bootPartition :: "nat option"
  runningPartition :: "nat option"
  setBootCalled :: bool
  appVersion :: string

definition ota_reset :: ota_state where
  "ota_reset = \<lparr>inProgress = False, otaTarget = None, writtenData = [], handleCounter = 1,
     bootPartition = None, runningPartition = None, setBootCalled = False, appVersion = ''1.0.0''\<rparr>"

definition esp_ota_begin ::
  "ota_state \<Rightarrow> nat option \<Rightarrow> u64 \<Rightarrow> bool \<Rightarrow> (esp_err \<times> u32 option) \<times> ota_state" where
  "esp_ota_begin s prt image_size out_given =
    (if prt = None \<or> \<not> out_given then ((ESP_FAIL, None), s)
     else ((ESP_OK, Some (handleCounter s)),
       s\<lparr>inProgress := True, otaTarget := prt, writtenData := [],
         handleCounter := handleCounter s + 1\<rparr>))"

definition esp_ota_write :: "ota_state \<Rightarrow> u32 \<Rightarrow> byte list \<Rightarrow> esp_err \<times> ota_state" where
  "esp_ota_write s handle data =
    (if \<not> inProgress s then (ESP_FAIL, s)
     else (ESP_OK, s\<lparr>writtenData := writtenData s @ data\<rparr>))"

definition esp_ota_end :: "ota_state \<Rightarrow> u32 \<Rightarrow> esp_err \<times> ota_state" where
  "esp_ota_end s handle =
    (if \<not> inProgress s then (ESP_FAIL, s) else (ESP_OK, s\<lparr>inProgress := False\<rparr>))"

definition esp_ota_set_boot_partition :: "ota_state \<Rightarrow> nat option \<Rightarrow> esp_err \<times> ota_state" where
  "esp_ota_set_boot_partition s prt =
    (if prt = None then (ESP_FAIL, s)
     else (ESP_OK, s\<lparr>bootPartition := prt, setBootCalled := True\<rparr>))"

definition factory_partition :: "partition_store \<Rightarrow> nat option" where
  "factory_partition ps =
    esp_partition_find_first ps ESP_PARTITION_TYPE_APP ESP_PARTITION_SUBTYPE_APP_FACTORY None"

definition esp_ota_get_boot_partition :: "ota_state \<Rightarrow> partition_store \<Rightarrow> nat option" where
  "esp_ota_get_boot_partition s ps =
    (if bootPartition s \<noteq> None then bootPartition s else factory_partition ps)"

definition esp_ota_get_running_partition :: "ota_state \<Rightarrow> partition_store \<Rightarrow> nat option" where
  "esp_ota_get_running_partition s ps =
    (if runningPartition s \<noteq> None then runningPartition s else factory_partition ps)"

definition esp_ota_get_next_update_partition ::
  "ota_state \<Rightarrow> partition_store \<Rightarrow> nat option \<Rightarrow> nat option" where
  "esp_ota_get_next_update_partition s ps start =
    (let p = esp_partition_find_first ps ESP_PARTITION_TYPE_APP ESP_PARTITION_SUBTYPE_APP_OTA_0 None
     in if p \<noteq> None then p
        else esp_partition_find_first ps ESP_PARTITION_TYPE_APP ESP_PARTITION_SUBTYPE_APP_OTA_1 None)"

definition esp_ota_get_partition_description ::
  "ota_state \<Rightarrow> nat option \<Rightarrow> bool \<Rightarrow> esp_err \<times> string option" where
  "esp_ota_get_partition_description s prt desc_given =
    (if \<not> desc_given then (ESP_FAIL, None) else (ESP_OK, Some (appVersion s)))"

lemma ota_writes:
  "inProgress s \<Longrightarrow>
   fold (\<lambda>d s. snd (esp_ota_write s h d)) ds s = s\<lparr>writtenData := writtenData s @ concat ds\<rparr>"
  by (induction ds arbitrary: s) (auto simp: esp_ota_write_def)

section \<open>The Arduino updater\<close>

abbreviation (input) "UPDATE_ERROR_OK \<equiv> (0 :: nat)"
abbreviation (input) "UPDATE_ERROR_WRITE \<equiv> (1 :: nat)"
abbreviation (input) "UPDATE_ERROR_ERASE \<equiv> (2 :: nat)"
abbreviation (input) "UPDATE_ERROR_SIZE \<equiv> (5 :: nat)"
abbreviation (input) "UPDATE_ERROR_MD5 \<equiv> (7 :: nat)"
abbreviation (input) "UPDATE_ERROR_ABORT \<equiv> (12 :: nat)"
abbreviation (input) "UPDATE_SIZE_UNKNOWN \<equiv> (0xFFFFFFFF :: u64)"
abbreviation (input) "U_FLASH \<equiv> (0 :: int)"

record updater =
  upSize :: u64
  upWritten :: u64
  upCommand :: int
  upError :: nat
  upRunning :: bool
  upFinished :: bool
  upMd5 :: string
  upBuffer :: "byte list"
  upProgress :: bool

definition updater_init :: updater where
  "updater_init = \<lparr>upSize = 0, upWritten = 0, upCommand = U_FLASH, upError = UPDATE_ERROR_OK,
     upRunning = False, upFinished = False, upMd5 = '''', upBuffer = [], upProgress = False\<rparr>"

definition upd_begin :: "updater \<Rightarrow> u64 \<Rightarrow> int \<Rightarrow> bool \<times> updater" where
  "upd_begin u sz command =
    (True, u\<lparr>upCommand := command, upSize := sz, upWritten := 0, upBuffer := [],
       upError := UPDATE_ERROR_OK, upRunning := True, upFinished := False, upMd5 := ''''\<rparr>)"

text \<open>Beside the count, a write yields the arguments of the progress callback, if one is set.\<close>

definition upd_report :: "updater \<Rightarrow> (u64 \<times> u64) option" where
  "upd_report u = (if upProgress u then Some (upWritten u, upSize u) else None)"

definition upd_write :: "updater \<Rightarrow> byte list \<Rightarrow> (nat \<times> (u64 \<times> u64) option) \<times> updater" where
  "upd_write u data =
    (if \<not> upRunning u then ((0, None), u\<lparr>upError := UPDATE_ERROR_WRITE\<rparr>)
     else let u' = u\<lparr>upBuffer := upBuffer u @ data,
                     upWritten := upWritten u + word_of_nat (length data)\<rparr>
          in ((length data, upd_report u'), u'))"

definition upd_writeStream :: "updater \<Rightarrow> (nat \<times> (u64 \<times> u64) option) \<times> updater" where
  "upd_writeStream u =
    (let u' = u\<lparr>upWritten := upWritten u + 1024\<rparr> in ((1024, upd_report u'), u'))"

definition upd_md5String :: string where
  "upd_md5String = ''d41d8cd98f00b204e9800998ecf8427e''"

definition upd_end :: "updater \<Rightarrow> bool \<Rightarrow> bool \<times> updater" where
  "upd_end u evenIfRemaining =
    (if \<not> upRunning u then (False, u)
     else if \<not> evenIfRemaining \<and> upSize u \<noteq> UPDATE_SIZE_UNKNOWN \<and> upWritten u \<noteq> upSize u
     then (False, u\<lparr>upError := UPDATE_ERROR_SIZE, upRunning := False\<rparr>)
     else if upMd5 u \<noteq> '''' \<and> upMd5 u \<noteq> upd_md5String
     then (False, u\<lparr>upError := UPDATE_ERROR_MD5, upRunning := False\<rparr>)
     else (True, u\<lparr>upRunning := False, upFinished := True\<rparr>))"

definition upd_abort :: "updater \<Rightarrow> updater" where
  "upd_abort u = u\<lparr>upError := UPDATE_ERROR_ABORT, upRunning := False, upFinished := False,
     upBuffer := []\<rparr>"

definition upd_hasError :: "updater \<Rightarrow> bool" where
  "upd_hasError u \<longleftrightarrow> upError u \<noteq> UPDATE_ERROR_OK"

definition upd_getErrorString :: "updater \<Rightarrow> string" where
  "upd_getErrorString u =
    (if upError u = UPDATE_ERROR_OK then ''No Error''
     else if upError u = UPDATE_ERROR_WRITE then ''Write Failed''
     else if upError u = UPDATE_ERROR_ERASE then ''Erase Failed''
     else if upError u = UPDATE_ERROR_SIZE then ''Size Mismatch''
     else if upError u = UPDATE_ERROR_MD5 then ''MD5 Mismatch''
     else if upError u = UPDATE_ERROR_ABORT then ''Aborted''
     else ''Unknown Error'')"

definition upd_clearError :: "updater \<Rightarrow> updater" where
  "upd_clearError u = u\<lparr>upError := UPDATE_ERROR_OK\<rparr>"

definition upd_remaining :: "updater \<Rightarrow> u64" where
  "upd_remaining u =
    (if upSize u = UPDATE_SIZE_UNKNOWN then 0
     else if upSize u > upWritten u then upSize u - upWritten u else 0)"

definition upd_setMD5 :: "updater \<Rightarrow> string option \<Rightarrow> updater" where
  "upd_setMD5 u md5 = u\<lparr>upMd5 := (case md5 of None \<Rightarrow> '''' | Some m \<Rightarrow> m)\<rparr>"

definition upd_canRollBack :: "updater \<Rightarrow> bool" where
  "upd_canRollBack u = upFinished u"

definition upd_rollBack :: "updater \<Rightarrow> bool \<times> updater" where
  "upd_rollBack u = (True, u\<lparr>upFinished := False\<rparr>)"

definition upd_onProgress :: "updater \<Rightarrow> bool \<Rightarrow> updater" where
  "upd_onProgress u fn = u\<lparr>upProgress := fn\<rparr>"

definition upd_reset :: "updater \<Rightarrow> updater" where
  "upd_reset u = u\<lparr>upBuffer := [], upWritten := 0, upSize := 0, upError := UPDATE_ERROR_OK,
     upRunning := False, upFinished := False\<rparr>"

section \<open>The updater as a state machine\<close>

datatype upd_op =
    UpBegin u64 int
  | UpWrite "byte list"
  | UpWriteStream
  | UpEnd bool
  | UpAbort
  | UpSetMD5 "string option"
  | UpRollBack
  | UpOnProgress bool
  | UpClearError
  | UpReset

fun upd_step :: "upd_op \<Rightarrow> updater \<Rightarrow> updater" where
  "upd_step (UpBegin sz c) u = snd (upd_begin u sz c)"
| "upd_step (UpWrite d) u = snd (upd_write u d)"
| "upd_step UpWriteStream u = snd (upd_writeStream u)"
| "upd_step (UpEnd e) u = snd (upd_end u e)"
| "upd_step UpAbort u = upd_abort u"
| "upd_step (UpSetMD5 m) u = upd_setMD5 u m"
| "upd_step UpRollBack u = snd (upd_rollBack u)"
| "upd_step (UpOnProgress f) u = upd_onProgress u f"
| "upd_step UpClearError u = upd_clearError u"
| "upd_step UpReset u = upd_reset u"

text \<open>
  Histories without \<open>writeStream\<close> and without an end that tolerates missing data.
\<close>

fun upd_strict :: "upd_op \<Rightarrow> bool" where
  "upd_strict UpWriteStream \<longleftrightarrow> False"
| "upd_strict (UpEnd e) \<longleftrightarrow> \<not> e"
| "upd_strict _ \<longleftrightarrow> True"

definition upd_inv :: "updater \<Rightarrow> bool" where
  "upd_inv u \<longleftrightarrow> \<not> (upRunning u \<and> upFinished u) \<and>
    (upRunning u \<or> upFinished u \<longrightarrow> upWritten u = word_of_nat (length (upBuffer u))) \<and>
    (upFinished u \<longrightarrow> upSize u = UPDATE_SIZE_UNKNOWN \<or> upWritten u = upSize u)"

interpretation upd_hist: step_system "\<lambda>u. u = updater_init" upd_strict upd_step upd_inv
proof
  fix u op
  assume "upd_inv u" "upd_strict op"
  then show "upd_inv (upd_step op u)"
    by (cases op)
      (auto simp: upd_inv_def upd_begin_def upd_write_def upd_end_def upd_abort_def upd_setMD5_def
        upd_rollBack_def upd_onProgress_def upd_clearError_def upd_reset_def Let_def)
qed (simp add: upd_inv_def updater_init_def)

section \<open>Properties\<close>

text \<open>
  The image of an ESP-IDF update. After a begin, the writes up to the end leave exactly
  their concatenation in the buffer, however often the update was begun before; after the end, or
  without a begin, a write fails and changes nothing.
\<close>

theorem ota_image_complete:
  assumes "esp_ota_begin s (Some p) sz True = ((r, out), s1)"
    and "s2 = fold (\<lambda>d s. snd (esp_ota_write s h d)) ds s1" "esp_ota_end s2 h = (e, s3)"
  shows "r = ESP_OK \<and> out = Some (handleCounter s) \<and> e = ESP_OK \<and>
    writtenData s3 = concat ds \<and> otaTarget s3 = Some p \<and>
    esp_ota_write s3 h d = (ESP_FAIL, s3) \<and> esp_ota_end s3 h = (ESP_FAIL, s3)"
proof -
  have s1: "inProgress s1" "writtenData s1 = []" "otaTarget s1 = Some p"
    and r: "r = ESP_OK" "out = Some (handleCounter s)"
    using assms(1) by (auto simp: esp_ota_begin_def)
  have "s2 = s1\<lparr>writtenData := concat ds\<rparr>"
    using assms(2) ota_writes [OF s1(1)] s1(2) by simp
  then show ?thesis
    using assms(3) s1 r by (auto simp: esp_ota_end_def esp_ota_write_def)
qed

theorem ota_image_complete_witness:
  "writtenData (snd (esp_ota_end (fold (\<lambda>d s. snd (esp_ota_write s 1 d)) [[1, 2], [3]]
     (snd (esp_ota_begin ota_reset (Some 1) 3 True))) 1)) = [1, 2, 3]"
  using ota_image_complete [OF nested_parts3 refl surjective_pairing,
      of ota_reset 1 3 1 "[[1, 2], [3]]" "[]"]
  by simp

text \<open>
  C21: a finished update is complete. In any history of the updater without \<open>writeStream\<close> and
  without \<open>end(true)\<close>, a finished update is not running, the number of bytes in the buffer is
  the progress it reports (as a \<open>size_t\<close>), and the announced size if one was announced.
\<close>

theorem update_finished_complete:
  assumes "list_all upd_strict ops" "upFinished (fold upd_step ops updater_init)"
  defines "u \<equiv> fold upd_step ops updater_init"
  shows "\<not> upRunning u \<and> upd_canRollBack u \<and> upWritten u = word_of_nat (length (upBuffer u)) \<and>
    (upSize u \<noteq> UPDATE_SIZE_UNKNOWN \<longrightarrow> upSize u = word_of_nat (length (upBuffer u)))"
proof -
  have "upd_inv u"
    unfolding u_def by (rule upd_hist.inv_run) (simp_all add: assms(1))
  with assms(2) show ?thesis
    by (auto simp: upd_inv_def u_def upd_canRollBack_def)
qed

theorem update_finished_complete_witness:
  "\<not> upRunning (fold upd_step [UpBegin 3 0, UpWrite [7, 8, 9], UpEnd False] updater_init)"
  using update_finished_complete [of "[UpBegin 3 0, UpWrite [7, 8, 9], UpEnd False]"]
  by (simp add: upd_begin_def upd_write_def upd_end_def updater_init_def Let_def)

text \<open>
  \<open>writeStream\<close> counts without storing. An update of \<open>1024 k\<close> bytes fed by \<open>k\<close> calls of
  \<open>writeStream\<close> ends successfully, at full progress, with an empty buffer.
\<close>

theorem update_stream_stores_nothing:
  fixes k :: nat and u0 :: updater and c :: int
  defines "u \<equiv> fold (\<lambda>_ u. snd (upd_writeStream u)) [0..<k] (snd (upd_begin u0 (1024 * word_of_nat k) c))"
  shows "\<exists>u'. upd_end u False = (True, u') \<and> upFinished u' \<and> upBuffer u' = [] \<and>
    upd_remaining u' = 0 \<and> upWritten u' = 1024 * word_of_nat k"
proof -
  have "fold (\<lambda>_ u. snd (upd_writeStream u)) [0..<k] v = v\<lparr>upWritten := upWritten v + 1024 * word_of_nat k\<rparr>"
    for v by (induction k arbitrary: v) (auto simp: upd_writeStream_def Let_def algebra_simps)
  then show ?thesis
    by (simp add: u_def upd_begin_def upd_end_def upd_remaining_def)
qed

end
