(* ===== verification/Pcnt.thy ===== *)
theory Pcnt
  imports Interfaces
begin

text \<open>
  The pulse counters of \<open>src/include/driver/pcnt.h\<close>: four units with a 16 bit signed count and two
  limits at which it restarts. The lemmas give the count after any number of pulses.
\<close>

section \<open>State\<close>

datatype pcnt_count_mode = PCNT_COUNT_DIS | PCNT_COUNT_INC | PCNT_COUNT_DEC

type_synonym i16 = "16 word"

record pcnt_unit =
  pcConfigured :: bool
  pcFilterEnabled :: bool
  pcFilterValue :: u16
  pcCount :: i16
  pcHLim :: i16
  pcLLim :: i16
  pcPosMode :: pcnt_count_mode
  pcNegMode :: pcnt_count_mode

record pcnt_config =
  cfgPosMode :: pcnt_count_mode
  cfgNegMode :: pcnt_count_mode
  cfgUnit :: nat
  cfgHLim :: i16
  cfgLLim :: i16

abbreviation (input) "PCNT_UNIT_MAX \<equiv> (4 :: nat)"

definition pcnt_units_init :: "pcnt_unit list" where
  "pcnt_units_init = replicate PCNT_UNIT_MAX
    \<lparr>pcConfigured = False, pcFilterEnabled = False, pcFilterValue = 0, pcCount = 0, pcHLim = 0,
     pcLLim = 0, pcPosMode = PCNT_COUNT_DIS, pcNegMode = PCNT_COUNT_DIS\<rparr>"

section \<open>Operations\<close>

text \<open>One pulse: the arithmetic is on \<open>int\<close> and stored back in 16 bits, the limits compare signed.\<close>

definition pulse :: "pcnt_unit \<Rightarrow> pcnt_unit" where
  "pulse u =
    (let c1 = (case pcPosMode u of
                 PCNT_COUNT_INC \<Rightarrow> pcCount u + 1
               | PCNT_COUNT_DEC \<Rightarrow> pcCount u - 1
               | PCNT_COUNT_DIS \<Rightarrow> pcCount u);
         c2 = (if pcHLim u \<noteq> 0 \<and> sint c1 \<ge> sint (pcHLim u) then 0 else c1);
         c3 = (if pcLLim u \<noteq> 0 \<and> sint c2 \<le> sint (pcLLim u) then 0 else c2)
     in u\<lparr>pcCount := c3\<rparr>)"

text \<open>
  \<open>getUnit\<close> indexes an array of four without a check: a unit past it is \<open>None\<close> in the operations
  that do not check the number first.
\<close>

definition injectPulses :: "pcnt_unit list \<Rightarrow> nat \<Rightarrow> int \<Rightarrow> pcnt_unit list option" where
  "injectPulses us unit count =
    (if unit < length us then Some (us[unit := (pulse ^^ nat count) (us ! unit)]) else None)"

definition pcnt_unit_config ::
  "pcnt_unit list \<Rightarrow> pcnt_config option \<Rightarrow> (esp_err \<times> pcnt_unit list) option" where
  "pcnt_unit_config us config =
    (case config of
       None \<Rightarrow> Some (ESP_FAIL, us)
     | Some c \<Rightarrow>
         if cfgUnit c < length us then
           Some (ESP_OK, us[cfgUnit c := (us ! cfgUnit c)
             \<lparr>pcConfigured := True, pcPosMode := cfgPosMode c, pcNegMode := cfgNegMode c,
              pcHLim := cfgHLim c, pcLLim := cfgLLim c, pcCount := 0\<rparr>])
         else None)"

definition pcnt_get_counter_value ::
  "pcnt_unit list \<Rightarrow> nat \<Rightarrow> bool \<Rightarrow> esp_err \<times> i16 option" where
  "pcnt_get_counter_value us unit out_given =
    (if \<not> out_given \<or> unit \<ge> PCNT_UNIT_MAX then (ESP_FAIL, None)
     else (ESP_OK, Some (pcCount (us ! unit))))"

definition pcnt_checked ::
  "(pcnt_unit \<Rightarrow> pcnt_unit) \<Rightarrow> pcnt_unit list \<Rightarrow> nat \<Rightarrow> esp_err \<times> pcnt_unit list" where
  "pcnt_checked f us unit =
    (if unit \<ge> PCNT_UNIT_MAX then (ESP_FAIL, us) else (ESP_OK, us[unit := f (us ! unit)]))"

definition pcnt_counter_pause :: "pcnt_unit list \<Rightarrow> nat \<Rightarrow> esp_err \<times> pcnt_unit list" where
  "pcnt_counter_pause us unit = pcnt_checked id us unit"

definition pcnt_counter_resume :: "pcnt_unit list \<Rightarrow> nat \<Rightarrow> esp_err \<times> pcnt_unit list" where
  "pcnt_counter_resume us unit = pcnt_checked id us unit"

definition pcnt_counter_clear :: "pcnt_unit list \<Rightarrow> nat \<Rightarrow> esp_err \<times> pcnt_unit list" where
  "pcnt_counter_clear us unit = pcnt_checked (pcCount_update (\<lambda>_. 0)) us unit"

definition pcnt_set_filter_value :: "pcnt_unit list \<Rightarrow> nat \<Rightarrow> u16 \<Rightarrow> esp_err \<times> pcnt_unit list" where
  "pcnt_set_filter_value us unit v = pcnt_checked (pcFilterValue_update (\<lambda>_. v)) us unit"

definition pcnt_filter_enable :: "pcnt_unit list \<Rightarrow> nat \<Rightarrow> esp_err \<times> pcnt_unit list" where
  "pcnt_filter_enable us unit = pcnt_checked (pcFilterEnabled_update (\<lambda>_. True)) us unit"

definition pcnt_filter_disable :: "pcnt_unit list \<Rightarrow> nat \<Rightarrow> esp_err \<times> pcnt_unit list" where
  "pcnt_filter_disable us unit = pcnt_checked (pcFilterEnabled_update (\<lambda>_. False)) us unit"

section \<open>Counting\<close>

lemma pulse_frame [simp]:
  "pcPosMode (pulse u) = pcPosMode u" "pcHLim (pulse u) = pcHLim u" "pcLLim (pulse u) = pcLLim u"
  by (simp_all add: pulse_def Let_def)

lemma pulses_frame [simp]:
  "pcPosMode ((pulse ^^ n) u) = pcPosMode u" "pcHLim ((pulse ^^ n) u) = pcHLim u"
  "pcLLim ((pulse ^^ n) u) = pcLLim u"
  by (induction n) simp_all

lemma sint_step:
  fixes c :: i16
  assumes "- 32768 \<le> sint c + sint d" "sint c + sint d < 32768"
  shows "sint (c + d) = sint c + sint d"
  using assms by (simp add: sint_word_ariths signed_take_bit_int_eq_self)

lemma sint_0_iff: "sint (c :: i16) = 0 \<longleftrightarrow> c = 0"
  by (metis signed_0 signed_word_eqI)

lemma pulse_inc:
  assumes "pcPosMode u = PCNT_COUNT_INC" "0 < sint (pcHLim u)" "sint (pcLLim u) \<le> 0"
    and "0 \<le> sint (pcCount u)" "sint (pcCount u) < sint (pcHLim u)"
  shows "sint (pcCount (pulse u)) = (sint (pcCount u) + 1) mod sint (pcHLim u)"
proof -
  have h: "sint (pcHLim u) < 32768"
    using sint_less [of "pcHLim u"] by simp
  then have c: "sint (pcCount u + 1) = sint (pcCount u) + 1"
    using assms(4,5) by (subst sint_step) simp_all
  have "sint (pcCount u) + 1 = sint (pcHLim u) \<or> sint (pcCount u) + 1 < sint (pcHLim u)"
    using assms(5) by linarith
  then show ?thesis
    using assms c by (auto simp: pulse_def Let_def sint_0_iff [symmetric])
qed

lemma pulse_dec:
  assumes "pcPosMode u = PCNT_COUNT_DEC" "sint (pcLLim u) < 0" "0 \<le> sint (pcHLim u)"
    and "sint (pcCount u) \<le> 0" "sint (pcLLim u) < sint (pcCount u)"
  shows "- sint (pcCount (pulse u)) = (- sint (pcCount u) + 1) mod (- sint (pcLLim u))"
proof -
  have l: "- 32768 \<le> sint (pcLLim u)"
    using sint_ge [of "pcLLim u"] by simp
  have "sint (pcCount u + - 1) = sint (pcCount u) + sint (- 1 :: i16)"
    using assms(4,5) l by (intro sint_step) simp_all
  then have c: "sint (pcCount u - 1) = sint (pcCount u) - 1"
    by simp
  have "1 - sint (pcCount u) = - sint (pcLLim u) \<or> sint (pcLLim u) < sint (pcCount u) - 1"
    using assms(5) by linarith
  then show ?thesis
    using assms c by (auto simp: pulse_def Let_def sint_0_iff [symmetric])
qed

lemma pulses_inc:
  assumes "pcPosMode u = PCNT_COUNT_INC" "0 < sint (pcHLim u)" "sint (pcLLim u) \<le> 0" "pcCount u = 0"
  shows "sint (pcCount ((pulse ^^ n) u)) = int n mod sint (pcHLim u)"
proof (induction n)
  case 0
  then show ?case using assms(4) by simp
next
  case (Suc n)
  have "sint (pcCount ((pulse ^^ Suc n) u)) = (int n mod sint (pcHLim u) + 1) mod sint (pcHLim u)"
    using pulse_inc [of "(pulse ^^ n) u"] assms(1-3) by (simp add: Suc)
  also have "\<dots> = (int n + 1) mod sint (pcHLim u)"
    by (rule mod_add_left_eq)
  finally show ?case
    by (simp add: add.commute)
qed

lemma pulses_dec:
  assumes "pcPosMode u = PCNT_COUNT_DEC" "sint (pcLLim u) < 0" "0 \<le> sint (pcHLim u)" "pcCount u = 0"
  shows "- sint (pcCount ((pulse ^^ n) u)) = int n mod (- sint (pcLLim u))"
proof (induction n)
  case 0
  then show ?case using assms(4) by simp
next
  case (Suc n)
  have "0 \<le> int n mod (- sint (pcLLim u))" "int n mod (- sint (pcLLim u)) < - sint (pcLLim u)"
    using assms(2) by simp_all
  then have "- sint (pcCount ((pulse ^^ Suc n) u)) =
      (int n mod (- sint (pcLLim u)) + 1) mod (- sint (pcLLim u))"
    using pulse_dec [of "(pulse ^^ n) u"] assms(1-3) by (simp add: Suc [symmetric])
  also have "\<dots> = (int n + 1) mod (- sint (pcLLim u))"
    by (rule mod_add_left_eq)
  finally show ?case
    by (simp add: add.commute)
qed

section \<open>Properties\<close>

text \<open>
  The count in closed form. A unit configured to count up to a positive limit, with no
  positive lower limit, holds the number of pulses modulo the limit, whatever it held before; one
  configured to count down to a negative limit holds its negation. The other units are unchanged.
\<close>

theorem pcnt_closed_form:
  assumes "cfgUnit c < length us" "pcnt_unit_config us (Some c) = Some (r, us1)"
    and "injectPulses us1 (cfgUnit c) n = Some us2"
    and "cfgPosMode c = PCNT_COUNT_INC \<and> 0 < sint (cfgHLim c) \<and> sint (cfgLLim c) \<le> 0 \<or>
      cfgPosMode c = PCNT_COUNT_DEC \<and> sint (cfgLLim c) < 0 \<and> 0 \<le> sint (cfgHLim c)"
  shows "r = ESP_OK \<and> length us2 = length us \<and>
    sint (pcCount (us2 ! cfgUnit c)) =
      (if cfgPosMode c = PCNT_COUNT_INC then int (nat n) mod sint (cfgHLim c)
       else - (int (nat n) mod (- sint (cfgLLim c)))) \<and>
    (\<forall>i. i \<noteq> cfgUnit c \<longrightarrow> us2 ! i = us ! i)"
proof -
  define u where "u = (us ! cfgUnit c)\<lparr>pcConfigured := True, pcPosMode := cfgPosMode c,
    pcNegMode := cfgNegMode c, pcHLim := cfgHLim c, pcLLim := cfgLLim c, pcCount := 0\<rparr>"
  have us2: "us2 = us[cfgUnit c := (pulse ^^ nat n) u]" and r: "r = ESP_OK"
    using assms(1-3) by (auto simp: pcnt_unit_config_def injectPulses_def u_def)
  have u: "pcPosMode u = cfgPosMode c" "pcHLim u = cfgHLim c" "pcLLim u = cfgLLim c" "pcCount u = 0"
    by (simp_all add: u_def)
  have "sint (pcCount ((pulse ^^ nat n) u)) =
      (if cfgPosMode c = PCNT_COUNT_INC then int (nat n) mod sint (cfgHLim c)
       else - (int (nat n) mod (- sint (cfgLLim c))))"
    using assms(4) pulses_inc [of u "nat n"] pulses_dec [of u "nat n"] u by auto
  then show ?thesis
    using assms(1) r by (simp add: us2)
qed

theorem pcnt_closed_form_witness:
  "\<exists>us1 us2. pcnt_unit_config pcnt_units_init (Some \<lparr>cfgPosMode = PCNT_COUNT_INC,
      cfgNegMode = PCNT_COUNT_DIS, cfgUnit = 2, cfgHLim = 100, cfgLLim = - 100\<rparr>) = Some (ESP_OK, us1) \<and>
    injectPulses us1 2 250 = Some us2 \<and> sint (pcCount (us2 ! 2)) = 50"
proof -
  let ?c = "\<lparr>cfgPosMode = PCNT_COUNT_INC, cfgNegMode = PCNT_COUNT_DIS, cfgUnit = 2, cfgHLim = 100,
    cfgLLim = - 100\<rparr> :: pcnt_config"
  obtain us1 us2 where "pcnt_unit_config pcnt_units_init (Some ?c) = Some (ESP_OK, us1)"
      "injectPulses us1 2 250 = Some us2"
    by (simp add: pcnt_unit_config_def injectPulses_def pcnt_units_init_def)
  then show ?thesis
    using pcnt_closed_form [of ?c pcnt_units_init ESP_OK us1 250 us2]
    by (simp add: pcnt_units_init_def)
qed

end
