(* ===== verification/Preferences.thy ===== *)
theory Preferences
  imports Interfaces
begin

text \<open>
  The Arduino key/value storage, \<open>src/include/Preferences.h\<close>. All instances share one map, whose
  keys are the namespace, a slash and the key. The lemmas give the round trips of the accessors,
  the isolation of slash-free namespaces, and the collisions that a slash makes.
\<close>

section \<open>State\<close>

record prefs =
  prNs :: string
  prReadOnly :: bool

type_synonym pref_store = "string \<rightharpoonup> byte list"

definition prefs_init :: prefs where
  "prefs_init = \<lparr>prNs = '''', prReadOnly = False\<rparr>"

definition fqn :: "prefs \<Rightarrow> string \<Rightarrow> string" where
  "fqn p key = prNs p @ CHR ''/'' # key"

section \<open>Operations\<close>

definition prefs_begin :: "prefs \<Rightarrow> string option \<Rightarrow> bool \<Rightarrow> bool \<times> prefs" where
  "prefs_begin p name readOnly =
    (True, p\<lparr>prNs := (case name of None \<Rightarrow> '''' | Some n \<Rightarrow> n), prReadOnly := readOnly\<rparr>)"

definition prefs_end :: "prefs \<Rightarrow> prefs" where
  "prefs_end p = p\<lparr>prNs := ''''\<rparr>"

text \<open>\<open>it->first.rfind(ns_ + "/", 0) == 0\<close>: the stored key starts with the namespace and a slash.\<close>

definition has_prefix :: "string \<Rightarrow> string \<Rightarrow> bool" where
  "has_prefix pre k \<longleftrightarrow> take (length pre) k = pre"

definition prefs_clear :: "prefs \<Rightarrow> pref_store \<Rightarrow> bool \<times> pref_store" where
  "prefs_clear p st =
    (if prReadOnly p then (False, st)
     else (True, \<lambda>k. if has_prefix (prNs p @ ''/'') k then None else st k))"

definition prefs_remove :: "prefs \<Rightarrow> pref_store \<Rightarrow> string \<Rightarrow> bool \<times> pref_store" where
  "prefs_remove p st key =
    (if prReadOnly p then (False, st)
     else (st (fqn p key) \<noteq> None, st(fqn p key := None)))"

text \<open>\<open>putT\<close> and \<open>getT\<close>, the templates behind the accessors of every number type.\<close>

definition putT :: "prefs \<Rightarrow> pref_store \<Rightarrow> string \<Rightarrow> 'a::len word \<Rightarrow> nat \<times> pref_store" where
  "putT p st key val =
    (if prReadOnly p then (0, st)
     else (sizeof TYPE('a word), st(fqn p key \<mapsto> word_bytes val)))"

definition getT :: "prefs \<Rightarrow> pref_store \<Rightarrow> string \<Rightarrow> 'a::len word \<Rightarrow> 'a word" where
  "getT p st key d =
    (case st (fqn p key) of
       None \<Rightarrow> d
     | Some b \<Rightarrow> if length b \<noteq> sizeof TYPE('a word) then d else bytes_word b)"

definition putString :: "prefs \<Rightarrow> pref_store \<Rightarrow> string \<Rightarrow> byte list option \<Rightarrow> nat \<times> pref_store" where
  "putString p st key val =
    (let v = (case val of None \<Rightarrow> [] | Some v \<Rightarrow> v)
     in if prReadOnly p then (0, st) else (length v, st(fqn p key \<mapsto> v)))"

definition putBytes :: "prefs \<Rightarrow> pref_store \<Rightarrow> string \<Rightarrow> byte list \<Rightarrow> nat \<times> pref_store" where
  "putBytes p st key buf =
    (if prReadOnly p then (0, st) else (length buf, st(fqn p key \<mapsto> buf)))"

definition getString :: "prefs \<Rightarrow> pref_store \<Rightarrow> string \<Rightarrow> byte list option \<Rightarrow> byte list" where
  "getString p st key d =
    (case st (fqn p key) of
       None \<Rightarrow> (case d of None \<Rightarrow> [] | Some v \<Rightarrow> v)
     | Some b \<Rightarrow> b)"

text \<open>The count and the bytes copied to the caller's buffer of \<open>maxLen\<close> bytes.\<close>

definition getBytes :: "prefs \<Rightarrow> pref_store \<Rightarrow> string \<Rightarrow> nat \<Rightarrow> nat \<times> byte list" where
  "getBytes p st key maxLen =
    (case st (fqn p key) of
       None \<Rightarrow> (0, [])
     | Some b \<Rightarrow> let n = min maxLen (length b) in (n, take n b))"

definition isKey :: "prefs \<Rightarrow> pref_store \<Rightarrow> string \<Rightarrow> bool" where
  "isKey p st key \<longleftrightarrow> st (fqn p key) \<noteq> None"

definition freeEntries :: nat where
  "freeEntries = 999"

section \<open>An instance as a key/value store\<close>

interpretation prefs: blob_store "\<lambda>_. \<not> prReadOnly p" "\<lambda>st k b. snd (putBytes p st k b)" "\<lambda>st k. st (fqn p k)"
  for p
  by unfold_locales (auto simp: putBytes_def fqn_def)

lemma putT_eq_putBytes: "snd (putT p st key v) = snd (putBytes p st key (word_bytes v))"
  by (simp add: putT_def putBytes_def)

lemma getT_found:
  "st (fqn p key) = Some b \<Longrightarrow>
   getT p st key (d :: 'a::len word) = (if length b = sizeof TYPE('a word) then bytes_word b else d)"
  by (simp add: getT_def)

section \<open>Namespaces\<close>

lemma has_prefix_fqn:
  "CHR ''/'' \<notin> set (prNs p) \<Longrightarrow> CHR ''/'' \<notin> set ns \<Longrightarrow>
   has_prefix (ns @ ''/'') (fqn p key) \<longleftrightarrow> prNs p = ns"
proof (induction ns arbitrary: p)
  case Nil
  then show ?case
    by (cases "prNs p") (auto simp: has_prefix_def fqn_def)
next
  case (Cons c ns)
  show ?case
  proof (cases "prNs p")
    case Nil
    with Cons.prems show ?thesis
      by (auto simp: has_prefix_def fqn_def)
  next
    case (Cons d ms)
    with Cons.IH [of "p\<lparr>prNs := ms\<rparr>"] Cons.prems show ?thesis
      by (auto simp: has_prefix_def fqn_def)
  qed
qed

lemma fqn_inject:
  assumes "CHR ''/'' \<notin> set (prNs p)" "CHR ''/'' \<notin> set (prNs q)"
  shows "fqn p k = fqn q l \<longleftrightarrow> prNs p = prNs q \<and> k = l"
proof
  assume eq: "fqn p k = fqn q l"
  have "has_prefix (prNs q @ ''/'') (fqn q l)"
    by (simp add: has_prefix_def fqn_def)
  then have "has_prefix (prNs q @ ''/'') (fqn p k)"
    by (simp add: eq)
  with assms have "prNs p = prNs q"
    by (simp add: has_prefix_fqn)
  with eq show "prNs p = prNs q \<and> k = l"
    by (simp add: fqn_def)
qed (simp add: fqn_def)

section \<open>Properties\<close>

text \<open>
  The round trip and the isolation of namespaces. In namespaces without a slash, a value put
  through a writable instance is read back by every instance of the namespace, whatever default it
  gives, every other key of every such namespace keeps what it held, and clearing one namespace
  removes its keys and no key of another.
\<close>

theorem prefs_roundtrip_isolated:
  fixes v :: "'a::len word"
  assumes "\<not> prReadOnly p" "CHR ''/'' \<notin> set (prNs p)" "CHR ''/'' \<notin> set (prNs q)"
    and "LENGTH('a) mod 8 = 0" "putT p st key v = (n, st')" "prefs_clear p st' = (c, st'')"
  shows "n = sizeof TYPE('a word) \<and> c \<and>
    (prNs q = prNs p \<longrightarrow> getT q st' key d = v \<and> \<not> isKey q st'' key') \<and>
    ((prNs q, key') \<noteq> (prNs p, key) \<longrightarrow> st' (fqn q key') = st (fqn q key')) \<and>
    (prNs q \<noteq> prNs p \<longrightarrow> st'' (fqn q key') = st (fqn q key'))"
proof -
  have st': "st' = snd (putBytes p st key (word_bytes v))"
    using assms(5) putT_eq_putBytes [of p st key v] by simp
  have n: "n = sizeof TYPE('a word)"
    using assms(1,5) by (auto simp: putT_def)
  have same: "st' (fqn p key) = Some (word_bytes v)"
    unfolding st' using assms(1) by (rule prefs.get_put_same)
  have other: "st' (fqn q key') = st (fqn q key')" if "(prNs q, key') \<noteq> (prNs p, key)"
    using that assms(1,2,3) by (auto simp: st' putBytes_def fqn_inject)
  have st'': "st'' = (\<lambda>k. if has_prefix (prNs p @ ''/'') k then None else st' k)" and c: c
    using assms(1,6) by (auto simp: prefs_clear_def)
  have gone: "st'' (fqn q key') = (if prNs q = prNs p then None else st' (fqn q key'))"
    using assms(2,3) by (simp add: st'' has_prefix_fqn)
  have q: "fqn q key = fqn p key" if "prNs q = prNs p"
    using that by (simp add: fqn_def)
  show ?thesis
    using other gone same q assms(4) by (auto simp: n c isKey_def getT_found)
qed

theorem prefs_roundtrip_isolated_witness:
  "getT \<lparr>prNs = ''net'', prReadOnly = True\<rparr>
     (snd (putT \<lparr>prNs = ''net'', prReadOnly = False\<rparr> Map.empty ''port'' (8080 :: u16))) ''port'' 0 = (8080 :: u16)"
  using prefs_roundtrip_isolated [OF _ _ _ _ surjective_pairing surjective_pairing,
      of "\<lparr>prNs = ''net'', prReadOnly = False\<rparr>" "\<lparr>prNs = ''net'', prReadOnly = True\<rparr>"
      Map.empty "''port''" "8080 :: u16" 0 "''x''"]
  by simp

text \<open>
  A slash makes namespaces collide. The key \<open>k1/k2\<close> of a namespace is the key \<open>k2\<close> of the
  namespace extended by \<open>/k1\<close>: what one instance puts the other reads, and clearing the shorter
  namespace removes every key of the longer one.
\<close>

theorem prefs_namespace_collision:
  fixes v :: "'a::len word"
  assumes "\<not> prReadOnly p" "prNs q = prNs p @ CHR ''/'' # k1" "LENGTH('a) mod 8 = 0"
  shows "getT q (snd (putT p st (k1 @ CHR ''/'' # k2) v)) k2 d = v \<and>
    fst (prefs_clear p st) \<and> \<not> isKey q (snd (prefs_clear p st)) key"
  using assms
  by (simp add: getT_def putT_def fqn_def isKey_def prefs_clear_def has_prefix_def)

theorem prefs_namespace_collision_witness:
  "getT \<lparr>prNs = ''a/b'', prReadOnly = True\<rparr>
     (snd (putT \<lparr>prNs = ''a'', prReadOnly = False\<rparr> Map.empty ''b/c'' (7 :: u32))) ''c'' 0 = (7 :: u32)"
  using prefs_namespace_collision [of "\<lparr>prNs = ''a'', prReadOnly = False\<rparr>"
      "\<lparr>prNs = ''a/b'', prReadOnly = True\<rparr>" "''b''" Map.empty "''c''" "7 :: u32" 0 "''x''"]
  by simp

end
