(* ===== verification/Radio_Lib.thy ===== *)
theory Radio_Lib
  imports Mailbox
begin

unbundle bit_operations_syntax

text \<open>
  The radios of \<open>src/include/RadioLib.h\<close>: the modules SX1276 (and SX1278) and SX1262. The lemmas show that the
  packets received come out in the order they were heard, what a buffer that is too small means for the two
  ways of reading, that the setters keep the parameters of the first module legal where its \<open>begin\<close> does not,
  and where the two modules differ.
\<close>

section \<open>SX1276\<close>

text \<open>
  \<open>float\<close> is any ordered ring. The actions on the pins DIO0 and DIO1 are kept and never called. A buffer of the caller is
  its size; a copy of more than its size is undefined.
\<close>

abbreviation (input) "RADIOLIB_ERR_NONE \<equiv> (0 :: int)"
abbreviation (input) "RADIOLIB_ERR_PACKET_TOO_LONG \<equiv> (- 2 :: int)"
abbreviation (input) "RADIOLIB_ERR_RX_TIMEOUT \<equiv> (- 4 :: int)"
abbreviation (input) "RADIOLIB_ERR_INVALID_FREQUENCY \<equiv> (- 6 :: int)"
abbreviation (input) "RADIOLIB_ERR_INVALID_SPREADING_FACTOR \<equiv> (- 8 :: int)"
abbreviation (input) "RADIOLIB_ERR_INVALID_CODING_RATE \<equiv> (- 9 :: int)"
abbreviation (input) "RADIOLIB_ERR_INVALID_OUTPUT_POWER \<equiv> (- 10 :: int)"
abbreviation (input) "RADIOLIB_ERR_CHIP_NOT_FOUND \<equiv> (- 13 :: int)"

record 'f sx1276 =
  sxInited :: bool
  sxMode :: int
  sxFreq :: 'f
  sxBw :: 'f
  sxSf :: byte
  sxCr :: byte
  sxSync :: byte
  sxPower :: byte
  sxPreamble :: u16
  sxLastTx :: "byte list"
  sxTxCount :: u32
  sxRx :: "byte list list"
  sxRssi :: 'f
  sxSnr :: 'f

definition sx_new :: "'f::linordered_idom sx1276" where
  "sx_new =
    \<lparr>sxInited = False, sxMode = 0, sxFreq = 434, sxBw = 125, sxSf = 9, sxCr = 7, sxSync = 0x12, sxPower = 10, sxPreamble = 8,
     sxLastTx = [], sxTxCount = 0, sxRx = [], sxRssi = - 60, sxSnr = 10\<rparr>"

definition sx_begin :: "'f \<Rightarrow> 'f \<Rightarrow> byte \<Rightarrow> byte \<Rightarrow> byte \<Rightarrow> byte \<Rightarrow> u16 \<Rightarrow> 'f sx1276 \<Rightarrow> int \<times> 'f sx1276" where
  "sx_begin freq bw sf cr sync pw preamble s =
    (RADIOLIB_ERR_NONE, s\<lparr>sxFreq := freq, sxBw := bw, sxSf := sf, sxCr := cr, sxSync := sync, sxPower := pw,
       sxPreamble := preamble, sxInited := True\<rparr>)"

definition sx_transmit :: "byte list \<Rightarrow> 'f sx1276 \<Rightarrow> int \<times> 'f sx1276" where
  "sx_transmit data s =
    (if \<not> sxInited s then (RADIOLIB_ERR_CHIP_NOT_FOUND, s)
     else if length data > 255 then (RADIOLIB_ERR_PACKET_TOO_LONG, s)
     else (RADIOLIB_ERR_NONE, s\<lparr>sxLastTx := data, sxTxCount := sxTxCount s + 1\<rparr>))"

text \<open>The packet copied into a buffer of \<open>cap\<close> bytes, and the length reported.\<close>

definition sx_receive :: "nat \<Rightarrow> 'f sx1276 \<Rightarrow> (int \<times> byte list \<times> 'f sx1276) option" where
  "sx_receive cap s =
    (if \<not> sxInited s then Some (RADIOLIB_ERR_CHIP_NOT_FOUND, [], s)
     else case sxRx s of
            [] \<Rightarrow> Some (RADIOLIB_ERR_RX_TIMEOUT, [], s)
          | p # ps \<Rightarrow> if length p \<le> cap then Some (RADIOLIB_ERR_NONE, p, s\<lparr>sxRx := ps\<rparr>) else None)"

definition sx_readData :: "nat \<Rightarrow> 'f sx1276 \<Rightarrow> int \<times> byte list \<times> 'f sx1276" where
  "sx_readData len s =
    (case sxRx s of
       [] \<Rightarrow> (RADIOLIB_ERR_RX_TIMEOUT, [], s)
     | p # ps \<Rightarrow> (RADIOLIB_ERR_NONE, take len p, s\<lparr>sxRx := ps\<rparr>))"

definition sx_standby :: "'f sx1276 \<Rightarrow> int \<times> 'f sx1276" where
  "sx_standby s = (RADIOLIB_ERR_NONE, s\<lparr>sxMode := 1\<rparr>)"

definition sx_sleep :: "'f sx1276 \<Rightarrow> int \<times> 'f sx1276" where
  "sx_sleep s = (RADIOLIB_ERR_NONE, s\<lparr>sxMode := 2\<rparr>)"

definition sx_startReceive :: "'f sx1276 \<Rightarrow> int \<times> 'f sx1276" where
  "sx_startReceive s = (RADIOLIB_ERR_NONE, s\<lparr>sxMode := 3\<rparr>)"

definition sx_setFrequency :: "'f::linordered_idom \<Rightarrow> 'f sx1276 \<Rightarrow> int \<times> 'f sx1276" where
  "sx_setFrequency freq s =
    (if freq < 137 \<or> freq > 1020 then (RADIOLIB_ERR_INVALID_FREQUENCY, s) else (RADIOLIB_ERR_NONE, s\<lparr>sxFreq := freq\<rparr>))"

definition sx_setBandwidth :: "'f \<Rightarrow> 'f sx1276 \<Rightarrow> int \<times> 'f sx1276" where
  "sx_setBandwidth bw s = (RADIOLIB_ERR_NONE, s\<lparr>sxBw := bw\<rparr>)"

definition sx_setSpreadingFactor :: "byte \<Rightarrow> 'f sx1276 \<Rightarrow> int \<times> 'f sx1276" where
  "sx_setSpreadingFactor sf s =
    (if sf < 6 \<or> sf > 12 then (RADIOLIB_ERR_INVALID_SPREADING_FACTOR, s) else (RADIOLIB_ERR_NONE, s\<lparr>sxSf := sf\<rparr>))"

definition sx_setCodingRate :: "byte \<Rightarrow> 'f sx1276 \<Rightarrow> int \<times> 'f sx1276" where
  "sx_setCodingRate cr s =
    (if cr < 5 \<or> cr > 8 then (RADIOLIB_ERR_INVALID_CODING_RATE, s) else (RADIOLIB_ERR_NONE, s\<lparr>sxCr := cr\<rparr>))"

definition sx_setOutputPower :: "byte \<Rightarrow> 'f sx1276 \<Rightarrow> int \<times> 'f sx1276" where
  "sx_setOutputPower pw s =
    (if sint pw < - 4 \<or> sint pw > 15 then (RADIOLIB_ERR_INVALID_OUTPUT_POWER, s)
     else (RADIOLIB_ERR_NONE, s\<lparr>sxPower := pw\<rparr>))"

definition sx_setSyncWord :: "byte \<Rightarrow> 'f sx1276 \<Rightarrow> int \<times> 'f sx1276" where
  "sx_setSyncWord sw s = (RADIOLIB_ERR_NONE, s\<lparr>sxSync := sw\<rparr>)"

definition sx_setPreambleLength :: "u16 \<Rightarrow> 'f sx1276 \<Rightarrow> int \<times> 'f sx1276" where
  "sx_setPreambleLength len s = (RADIOLIB_ERR_NONE, s\<lparr>sxPreamble := len\<rparr>)"

definition sx_getPacketLength :: "'f sx1276 \<Rightarrow> nat" where
  "sx_getPacketLength s = length (sxLastTx s)"

definition sx_injectRx :: "byte list \<Rightarrow> 'f sx1276 \<Rightarrow> 'f sx1276" where
  "sx_injectRx data s = s\<lparr>sxRx := sxRx s @ [data]\<rparr>"

definition sx_setRSSI :: "'f \<Rightarrow> 'f sx1276 \<Rightarrow> 'f sx1276" where
  "sx_setRSSI rssi s = s\<lparr>sxRssi := rssi\<rparr>"

definition sx_setSNR :: "'f \<Rightarrow> 'f sx1276 \<Rightarrow> 'f sx1276" where
  "sx_setSNR snr s = s\<lparr>sxSnr := snr\<rparr>"

section \<open>SX1262\<close>

text \<open>Its parameters have no checks; it has no mode and no preamble.\<close>

record 'f sx1262 =
  syInited :: bool
  syFreq :: 'f
  syBw :: 'f
  sySf :: byte
  syCr :: byte
  sySync :: byte
  syPower :: byte
  syLastTx :: "byte list"
  syTxCount :: u32
  syRx :: "byte list list"
  syRssi :: 'f
  sySnr :: 'f

definition sy_new :: "'f::linordered_idom sx1262" where
  "sy_new =
    \<lparr>syInited = False, syFreq = 434, syBw = 125, sySf = 9, syCr = 7, sySync = 0x34, syPower = 10, syLastTx = [],
     syTxCount = 0, syRx = [], syRssi = - 60, sySnr = 10\<rparr>"

definition sy_begin :: "'f \<Rightarrow> 'f \<Rightarrow> byte \<Rightarrow> byte \<Rightarrow> byte \<Rightarrow> byte \<Rightarrow> 'f sx1262 \<Rightarrow> int \<times> 'f sx1262" where
  "sy_begin freq bw sf cr sync pw s =
    (RADIOLIB_ERR_NONE, s\<lparr>syFreq := freq, syBw := bw, sySf := sf, syCr := cr, sySync := sync, syPower := pw, syInited := True\<rparr>)"

definition sy_transmit :: "byte list \<Rightarrow> 'f sx1262 \<Rightarrow> int \<times> 'f sx1262" where
  "sy_transmit data s =
    (if \<not> syInited s then (RADIOLIB_ERR_CHIP_NOT_FOUND, s)
     else if length data > 255 then (RADIOLIB_ERR_PACKET_TOO_LONG, s)
     else (RADIOLIB_ERR_NONE, s\<lparr>syLastTx := data, syTxCount := syTxCount s + 1\<rparr>))"

definition sy_receive :: "nat \<Rightarrow> 'f sx1262 \<Rightarrow> (int \<times> byte list \<times> 'f sx1262) option" where
  "sy_receive cap s =
    (case syRx s of
       [] \<Rightarrow> Some (RADIOLIB_ERR_RX_TIMEOUT, [], s)
     | p # ps \<Rightarrow> if length p \<le> cap then Some (RADIOLIB_ERR_NONE, p, s\<lparr>syRx := ps\<rparr>) else None)"

definition sy_standby :: "'f sx1262 \<Rightarrow> int \<times> 'f sx1262" where
  "sy_standby s = (RADIOLIB_ERR_NONE, s)"

definition sy_sleep :: "'f sx1262 \<Rightarrow> int \<times> 'f sx1262" where
  "sy_sleep s = (RADIOLIB_ERR_NONE, s)"

definition sy_setFrequency :: "'f \<Rightarrow> 'f sx1262 \<Rightarrow> int \<times> 'f sx1262" where
  "sy_setFrequency freq s = (RADIOLIB_ERR_NONE, s\<lparr>syFreq := freq\<rparr>)"

definition sy_setBandwidth :: "'f \<Rightarrow> 'f sx1262 \<Rightarrow> int \<times> 'f sx1262" where
  "sy_setBandwidth bw s = (RADIOLIB_ERR_NONE, s\<lparr>syBw := bw\<rparr>)"

definition sy_setSpreadingFactor :: "byte \<Rightarrow> 'f sx1262 \<Rightarrow> int \<times> 'f sx1262" where
  "sy_setSpreadingFactor sf s = (RADIOLIB_ERR_NONE, s\<lparr>sySf := sf\<rparr>)"

definition sy_setOutputPower :: "byte \<Rightarrow> 'f sx1262 \<Rightarrow> int \<times> 'f sx1262" where
  "sy_setOutputPower pw s = (RADIOLIB_ERR_NONE, s\<lparr>syPower := pw\<rparr>)"

definition sy_injectRx :: "byte list \<Rightarrow> 'f sx1262 \<Rightarrow> 'f sx1262" where
  "sy_injectRx data s = s\<lparr>syRx := syRx s @ [data]\<rparr>"

definition sy_setRSSI :: "'f \<Rightarrow> 'f sx1262 \<Rightarrow> 'f sx1262" where
  "sy_setRSSI rssi s = s\<lparr>syRssi := rssi\<rparr>"

definition sy_setSNR :: "'f \<Rightarrow> 'f sx1262 \<Rightarrow> 'f sx1262" where
  "sy_setSNR snr s = s\<lparr>sySnr := snr\<rparr>"

section \<open>Reception\<close>

text \<open>
  Receiving as the fetch of a mailbox, into a buffer that has room for the packet that comes. A packet that would not fit is
  kept.
\<close>

definition fetched :: "(int \<times> 'm \<times> 's) option \<Rightarrow> 's \<Rightarrow> 'm option \<times> 's" where
  "fetched r s = (case r of Some (e, p, t) \<Rightarrow> (if e = RADIOLIB_ERR_NONE then Some p else None, t) | None \<Rightarrow> (None, s))"

definition front_size :: "byte list list \<Rightarrow> nat" where
  "front_size ps = (case ps of [] \<Rightarrow> 0 | p # _ \<Rightarrow> length p)"

interpretation sx_in: mailbox sxInited sxRx sx_injectRx "\<lambda>s. fetched (sx_receive (front_size (sxRx s)) s) s"
  by unfold_locales (auto simp: sx_injectRx_def sx_receive_def fetched_def front_size_def)

interpretation sy_in: mailbox "\<lambda>_. True" syRx sy_injectRx "\<lambda>s. fetched (sy_receive (front_size (syRx s)) s) s"
  by unfold_locales (auto simp: sy_injectRx_def sy_receive_def fetched_def front_size_def)

text \<open>However reception and reading alternate, no packet of either radio is lost, doubled or reordered.\<close>

theorem radio_packets:
  assumes "sxInited s"
  shows "(let (got, t) = exchange sx_injectRx (\<lambda>s. fetched (sx_receive (front_size (sxRx s)) s) s) xs s
      in got @ sxRx t = sxRx s @ List.map_filter (\<lambda>p. p) xs) \<and>
    (let (got, t) = exchange sy_injectRx (\<lambda>s. fetched (sy_receive (front_size (syRx s)) s) s) ys u
      in got @ syRx t = syRx u @ List.map_filter (\<lambda>p. p) ys)"
  using sx_in.exchange_conserves(1) [OF assms, of xs] sy_in.exchange_conserves(1) [OF TrueI, of ys u]
  by (auto split: prod.splits)

theorem radio_packets_witness:
  "let (got, t) = exchange sx_injectRx (\<lambda>s. fetched (sx_receive (front_size (sxRx s)) s) s) [Some [1], Some [2, 3], None]
      (snd (sx_begin (434 :: int) 125 9 7 0x12 10 8 sx_new))
   in got @ sxRx t = [[1], [2, 3]]"
  using radio_packets [of "snd (sx_begin (434 :: int) 125 9 7 0x12 10 8 sx_new)" "[Some [1], Some [2, 3], None]" "[]" sy_new]
  by (simp add: sx_begin_def sx_new_def List.map_filter_simps)

text \<open>
  A buffer shorter than the packet: \<open>receive\<close> writes behind its end, \<open>readData\<close> fills it and drops the rest of the packet.
\<close>

theorem radio_short_buffer:
  assumes "sxInited s" "sxRx s = p # ps" "n < length p"
  shows "sx_receive n s = None \<and> sx_readData n s = (RADIOLIB_ERR_NONE, take n p, s\<lparr>sxRx := ps\<rparr>)"
  using assms by (simp add: sx_receive_def sx_readData_def)

section \<open>Parameters\<close>

definition sx_legal :: "'f::linordered_idom sx1276 \<Rightarrow> bool" where
  "sx_legal s \<longleftrightarrow> 137 \<le> sxFreq s \<and> sxFreq s \<le> 1020 \<and> 6 \<le> sxSf s \<and> sxSf s \<le> 12 \<and> 5 \<le> sxCr s \<and> sxCr s \<le> 8 \<and>
     - 4 \<le> sint (sxPower s) \<and> sint (sxPower s) \<le> 15"

datatype 'f sx_op = SxFreq 'f | SxBw 'f | SxSf byte | SxCr byte | SxPower byte | SxSync byte | SxPreamble u16
  | SxTransmit "byte list" | SxReceive nat | SxRead nat | SxInject "byte list" | SxSleep | SxStandby | SxListen

fun sx_step :: "'f::linordered_idom sx_op \<Rightarrow> 'f sx1276 \<Rightarrow> 'f sx1276" where
  "sx_step (SxFreq f) s = snd (sx_setFrequency f s)"
| "sx_step (SxBw b) s = snd (sx_setBandwidth b s)"
| "sx_step (SxSf n) s = snd (sx_setSpreadingFactor n s)"
| "sx_step (SxCr n) s = snd (sx_setCodingRate n s)"
| "sx_step (SxPower n) s = snd (sx_setOutputPower n s)"
| "sx_step (SxSync n) s = snd (sx_setSyncWord n s)"
| "sx_step (SxPreamble n) s = snd (sx_setPreambleLength n s)"
| "sx_step (SxTransmit d) s = snd (sx_transmit d s)"
| "sx_step (SxReceive n) s = (case sx_receive n s of Some (_, _, t) \<Rightarrow> t | None \<Rightarrow> s)"
| "sx_step (SxRead n) s = snd (snd (sx_readData n s))"
| "sx_step (SxInject d) s = sx_injectRx d s"
| "sx_step SxSleep s = snd (sx_sleep s)"
| "sx_step SxStandby s = snd (sx_standby s)"
| "sx_step SxListen s = snd (sx_startReceive s)"

lemmas sx_setters = sx_setFrequency_def sx_setBandwidth_def sx_setSpreadingFactor_def sx_setCodingRate_def sx_setOutputPower_def
  sx_setSyncWord_def sx_setPreambleLength_def

lemma sx_step_legal: "sx_legal s \<Longrightarrow> sx_legal (sx_step op s)"
  by (cases op) (auto simp: sx_legal_def sx_setters sx_transmit_def sx_receive_def sx_readData_def sx_injectRx_def sx_sleep_def
      sx_standby_def sx_startReceive_def not_less split: list.splits)

text \<open>
  From legal parameters every sequence of operations but \<open>begin\<close> keeps them legal: a setter that is given another
  value changes nothing and returns its error. \<open>begin\<close> takes any value and reports success.
\<close>

theorem radio_parameters:
  assumes "sx_legal s"
  shows "sx_legal (fold sx_step ops s) \<and>
    (sf < 6 \<or> 12 < sf \<longrightarrow> sx_setSpreadingFactor sf s = (RADIOLIB_ERR_INVALID_SPREADING_FACTOR, s) \<and>
      fst (sx_begin freq bw sf cr sync pw pre s) = RADIOLIB_ERR_NONE \<and>
      \<not> sx_legal (snd (sx_begin freq bw sf cr sync pw pre s)))"
proof -
  have "sx_legal (fold sx_step ops s)"
    using assms by (induction ops arbitrary: s) (simp_all add: sx_step_legal)
  moreover have "\<not> sx_legal (snd (sx_begin freq bw sf cr sync pw pre s))" if "sf < 6 \<or> 12 < sf"
    using that by (auto simp: sx_legal_def sx_begin_def)
  ultimately show ?thesis
    by (auto simp: sx_setters sx_begin_def)
qed

theorem radio_parameters_witness:
  "sx_legal (fold sx_step [SxSf 5, SxPower 200, SxFreq 868] (sx_new :: int sx1276))"
  by (rule radio_parameters [THEN conjunct1]) (simp add: sx_legal_def sx_new_def)

text \<open>
  Transmission needs \<open>begin\<close> and a packet of at most 255 bytes; anything else leaves the radio as it was. The mode does not
  matter: a sleeping radio sends. A radio that was not started receives only if it is an SX1262.
\<close>

theorem radio_differences:
  assumes "sxRx s = [p]" "syRx u = [p]" "length p \<le> n" "\<not> sxInited s"
  shows "sx_receive n s = Some (RADIOLIB_ERR_CHIP_NOT_FOUND, [], s) \<and> sy_receive n u = Some (RADIOLIB_ERR_NONE, p, u\<lparr>syRx := []\<rparr>) \<and>
    sx_transmit d s = (RADIOLIB_ERR_CHIP_NOT_FOUND, s) \<and>
    (length d \<le> 255 \<longrightarrow> fst (sx_transmit d (snd (sx_sleep (snd (sx_begin f bw sf cr sync pw pre s))))) = RADIOLIB_ERR_NONE) \<and>
    (255 < length d \<longrightarrow> snd (sx_transmit d (snd (sx_begin f bw sf cr sync pw pre s))) = snd (sx_begin f bw sf cr sync pw pre s))"
  using assms by (simp add: sx_receive_def sy_receive_def sx_transmit_def sx_sleep_def sx_begin_def)

end
