(* ===== verification/Callbacks.thy ===== *)
theory Callbacks
  imports Prelude
begin

text \<open>
  What the components share that call a user's function while they hold a mutex: a
  \<open>std::lock_guard\<close> on a mutex that is not recursive, and a loop that calls for each element of a list.
  \<open>None\<close> is a call that blocks for ever.
\<close>

text \<open>\<open>locked\<close> reads the flag of the mutex in the state and \<open>mark\<close> sets it.\<close>

definition with_mutex ::
  "('s \<Rightarrow> bool) \<Rightarrow> (bool \<Rightarrow> 's \<Rightarrow> 's) \<Rightarrow> ('s \<Rightarrow> ('r \<times> 's) option) \<Rightarrow> 's \<Rightarrow> ('r \<times> 's) option" where
  "with_mutex locked mark f s =
    (if locked s then None else map_option (\<lambda>(r, t). (r, mark False t)) (f (mark True s)))"

lemma with_mutex_blocks [simp]: "locked s \<Longrightarrow> with_mutex locked mark f s = None"
  by (simp add: with_mutex_def)

lemma with_mutex_free [simp]: "\<not> locked s \<Longrightarrow> f (mark True s) = Some (r, t) \<Longrightarrow> with_mutex locked mark f s = Some (r, mark False t)"
  by (simp add: with_mutex_def)

fun each_call :: "('a \<Rightarrow> 's \<Rightarrow> 's option) \<Rightarrow> 'a list \<Rightarrow> 's \<Rightarrow> 's option" where
  "each_call f [] s = Some s"
| "each_call f (x # xs) s = (case f x s of Some t \<Rightarrow> each_call f xs t | None \<Rightarrow> None)"

text \<open>When every call returns, the loop is a fold; when the first does not, neither does the loop.\<close>

lemma each_call_fold: "(\<And>x s. x \<in> set xs \<Longrightarrow> P s \<Longrightarrow> f x s = Some (g x s) \<and> P (g x s)) \<Longrightarrow> P s \<Longrightarrow>
    each_call f xs s = Some (fold g xs s) \<and> P (fold g xs s)"
  by (induction xs arbitrary: s) auto

lemma each_call_blocks: "f x s = None \<Longrightarrow> each_call f (x # xs) s = None"
  by simp

end
