(* ===== verification/Radio_Peers.thy ===== *)
theory Radio_Peers
  imports Callbacks
begin

text \<open>
  Two radio libraries that talk to peers: ESP-NOW of \<open>src/include/esp_now.h\<close>, with its table of peers, its
  log of what was sent and its callbacks, and the mesh of \<open>src/include/painlessMesh.h\<close>. A callback is a
  number, its behaviour an argument \<open>run\<close>; \<open>None\<close> is a call that does not return.
\<close>

section \<open>ESP-NOW\<close>

text \<open>Addresses are lists of six bytes. Of a peer the role, which nothing reads, is left out.\<close>

type_synonym mac = "byte list"

record now_peer =
  npAddr :: mac
  npLmk :: "byte list"
  npChannel :: byte
  npEncrypt :: bool

record esp_now =
  nwInitialized :: bool
  nwSendCb :: "nat option"
  nwRecvCb :: "nat option"
  nwPeers :: "now_peer list"
  nwSent :: "(mac \<times> byte list) list"
  nwLocked :: bool

type_synonym now_send_run = "nat \<Rightarrow> mac option \<Rightarrow> esp_now \<Rightarrow> esp_now option"

definition now_new :: esp_now where
  "now_new = \<lparr>nwInitialized = False, nwSendCb = None, nwRecvCb = None, nwPeers = [], nwSent = [], nwLocked = False\<rparr>"

definition now_mutex :: "(esp_now \<Rightarrow> ('r \<times> esp_now) option) \<Rightarrow> esp_now \<Rightarrow> ('r \<times> esp_now) option" where
  "now_mutex = with_mutex nwLocked (\<lambda>b s. s\<lparr>nwLocked := b\<rparr>)"

definition now_init :: "esp_now \<Rightarrow> int \<times> esp_now" where
  "now_init s = (0, s\<lparr>nwInitialized := True\<rparr>)"

definition now_deinit :: "esp_now \<Rightarrow> int \<times> esp_now" where
  "now_deinit s = (0, s\<lparr>nwInitialized := False, nwPeers := [], nwSendCb := None, nwRecvCb := None, nwSent := []\<rparr>)"

definition now_registerSendCb :: "nat option \<Rightarrow> esp_now \<Rightarrow> int \<times> esp_now" where
  "now_registerSendCb cb s = (0, s\<lparr>nwSendCb := cb\<rparr>)"

definition now_registerRecvCb :: "nat option \<Rightarrow> esp_now \<Rightarrow> int \<times> esp_now" where
  "now_registerRecvCb cb s = (0, s\<lparr>nwRecvCb := cb\<rparr>)"

definition addPeer :: "now_peer \<Rightarrow> esp_now \<Rightarrow> (int \<times> esp_now) option" where
  "addPeer p = now_mutex (\<lambda>s. Some (0, s\<lparr>nwPeers := nwPeers s @ [p]\<rparr>))"

definition delPeer :: "mac \<Rightarrow> esp_now \<Rightarrow> (int \<times> esp_now) option" where
  "delPeer m = now_mutex (\<lambda>s. Some (0, s\<lparr>nwPeers := filter (\<lambda>p. npAddr p \<noteq> m) (nwPeers s)\<rparr>))"

definition isPeerExist :: "mac \<Rightarrow> esp_now \<Rightarrow> (bool \<times> esp_now) option" where
  "isPeerExist m = now_mutex (\<lambda>s. Some (list_ex (\<lambda>p. npAddr p = m) (nwPeers s), s))"

definition now_send :: "now_send_run \<Rightarrow> mac option \<Rightarrow> byte list \<Rightarrow> esp_now \<Rightarrow> (int \<times> esp_now) option" where
  "now_send run peer d s =
    (if \<not> nwInitialized s then Some (- 1, s)
     else now_mutex (\<lambda>s.
       let m = (case peer of Some m \<Rightarrow> m | None \<Rightarrow> replicate 6 0xFF);
           s = s\<lparr>nwSent := nwSent s @ [(m, d)]\<rparr>
       in case nwSendCb s of
            Some cb \<Rightarrow> map_option (Pair 0) (run cb peer s)
          | None \<Rightarrow> Some (0, s)) s)"

definition now_injectRecv :: "(nat \<Rightarrow> mac \<Rightarrow> byte list \<Rightarrow> esp_now \<Rightarrow> esp_now option) \<Rightarrow> mac \<Rightarrow> byte list \<Rightarrow> esp_now \<Rightarrow> esp_now option" where
  "now_injectRecv run m d s = (case nwRecvCb s of Some cb \<Rightarrow> run cb m d s | None \<Rightarrow> Some s)"

definition getSentLog :: "esp_now \<Rightarrow> ((mac \<times> byte list) list \<times> esp_now) option" where
  "getSentLog = now_mutex (\<lambda>s. Some (nwSent s, s))"

definition clearSentLog :: "esp_now \<Rightarrow> (unit \<times> esp_now) option" where
  "clearSentLog = now_mutex (\<lambda>s. Some ((), s\<lparr>nwSent := []\<rparr>))"

definition peerCount :: "esp_now \<Rightarrow> (nat \<times> esp_now) option" where
  "peerCount = now_mutex (\<lambda>s. Some (length (nwPeers s), s))"

definition now_reset :: "esp_now \<Rightarrow> (unit \<times> esp_now) option" where
  "now_reset = now_mutex (\<lambda>s. Some ((), s\<lparr>nwInitialized := False, nwPeers := [], nwSendCb := None, nwRecvCb := None, nwSent := []\<rparr>))"

section \<open>The mesh\<close>

text \<open>The calls of the callbacks, in their order. A callback that sets another callback is not modelled.\<close>

datatype mesh_call = Receive u32 "char list" | New_Connection u32 | Dropped_Connection u32 | Changed_Connections | Time_Adjusted "32 word"

record mesh =
  msPrefix :: "char list"
  msRoot :: bool
  msContainsRoot :: bool
  msPort :: u16
  msNodeId :: u32
  msNodeTime :: u32
  msUpdates :: u32
  msBroadcasts :: u32
  msSingles :: u32
  msLastBroadcast :: "char list"
  msLastSingle :: "char list"
  msLastDest :: u32
  msNodes :: "u32 list"
  msOnReceive :: bool
  msOnNew :: bool
  msOnDropped :: bool
  msOnChanged :: bool
  msOnTime :: bool

definition mesh_new :: mesh where
  "mesh_new =
    \<lparr>msPrefix = [], msRoot = False, msContainsRoot = False, msPort = 5555, msNodeId = 12345678, msNodeTime = 0, msUpdates = 0, msBroadcasts = 0, msSingles = 0,
     msLastBroadcast = [], msLastSingle = [], msLastDest = 0, msNodes = [],
     msOnReceive = False, msOnNew = False, msOnDropped = False, msOnChanged = False, msOnTime = False\<rparr>"

definition mesh_init :: "char list \<Rightarrow> u16 \<Rightarrow> mesh \<Rightarrow> mesh" where
  "mesh_init prefix port m = m\<lparr>msPrefix := prefix, msPort := port\<rparr>"

definition mesh_setRoot :: "bool \<Rightarrow> mesh \<Rightarrow> mesh" where
  "mesh_setRoot b m = m\<lparr>msRoot := b\<rparr>"

definition mesh_setContainsRoot :: "bool \<Rightarrow> mesh \<Rightarrow> mesh" where
  "mesh_setContainsRoot b m = m\<lparr>msContainsRoot := b\<rparr>"

definition mesh_update :: "mesh \<Rightarrow> mesh" where
  "mesh_update m = m\<lparr>msUpdates := msUpdates m + 1\<rparr>"

definition getNodeList :: "bool \<Rightarrow> mesh \<Rightarrow> u32 list" where
  "getNodeList this m = (if this then msNodeId m # msNodes m else msNodes m)"

definition sendBroadcast :: "char list \<Rightarrow> mesh \<Rightarrow> bool \<times> mesh" where
  "sendBroadcast msg m = (True, m\<lparr>msLastBroadcast := msg, msBroadcasts := msBroadcasts m + 1\<rparr>)"

definition sendSingle :: "u32 \<Rightarrow> char list \<Rightarrow> mesh \<Rightarrow> bool \<times> mesh" where
  "sendSingle dest msg m = (True, m\<lparr>msLastDest := dest, msLastSingle := msg, msSingles := msSingles m + 1\<rparr>)"

definition calls :: "(bool \<times> mesh_call) list \<Rightarrow> mesh_call list" where
  "calls cs = map snd (filter fst cs)"

definition mesh_receive :: "u32 \<Rightarrow> char list \<Rightarrow> mesh \<Rightarrow> mesh_call list" where
  "mesh_receive n msg m = calls [(msOnReceive m, Receive n msg)]"

definition mesh_connect :: "u32 \<Rightarrow> mesh \<Rightarrow> mesh_call list \<times> mesh" where
  "mesh_connect n m =
    (calls [(msOnNew m, New_Connection n), (msOnChanged m, Changed_Connections)], m\<lparr>msNodes := msNodes m @ [n]\<rparr>)"

definition mesh_drop :: "u32 \<Rightarrow> mesh \<Rightarrow> mesh_call list \<times> mesh" where
  "mesh_drop n m =
    (calls [(msOnDropped m, Dropped_Connection n), (msOnChanged m, Changed_Connections)],
     m\<lparr>msNodes := filter (\<lambda>k. k \<noteq> n) (msNodes m)\<rparr>)"

definition mesh_time :: "32 word \<Rightarrow> mesh \<Rightarrow> mesh_call list" where
  "mesh_time d m = calls [(msOnTime m, Time_Adjusted d)]"

section \<open>Properties\<close>

lemma now_mutex_free [simp]: "\<not> nwLocked s \<Longrightarrow> now_mutex (\<lambda>s. Some (f s, g s)) s = Some (f (s\<lparr>nwLocked := True\<rparr>), (g (s\<lparr>nwLocked := True\<rparr>))\<lparr>nwLocked := False\<rparr>)"
  by (simp add: now_mutex_def with_mutex_def)

text \<open>A sequence of additions and removals of peers, the removals by address.\<close>

datatype peer_op = Add now_peer | Del mac

definition peer_step :: "peer_op \<Rightarrow> esp_now \<Rightarrow> esp_now option" where
  "peer_step a s = map_option snd (case a of Add p \<Rightarrow> addPeer p s | Del m \<Rightarrow> delPeer m s)"

text \<open>What an address's presence depends on: the last operation on it.\<close>

fun present :: "peer_op list \<Rightarrow> mac \<Rightarrow> bool \<Rightarrow> bool" where
  "present [] m b = b"
| "present (Add p # as) m b = present as m (b \<or> npAddr p = m)"
| "present (Del k # as) m b = present as m (b \<and> k \<noteq> m)"

text \<open>
  The table of peers behaves as a set of addresses. After any sequence of additions and removals an
  address is present when its last operation was an addition, and no operation blocks.
\<close>

theorem espnow_peer_set:
  assumes "\<not> nwLocked s"
  shows "\<exists>t. each_call peer_step as s = Some t \<and>
    isPeerExist m t = Some (present as m (\<exists>p \<in> set (nwPeers s). npAddr p = m), t)"
  using assms
proof (induction as arbitrary: s)
  case Nil
  then show ?case
    by (simp add: isPeerExist_def list_ex_iff)
next
  case (Cons a as)
  then obtain t where t: "peer_step a s = Some t" "\<not> nwLocked t"
    "nwPeers t = (case a of Add p \<Rightarrow> nwPeers s @ [p] | Del k \<Rightarrow> filter (\<lambda>p. npAddr p \<noteq> k) (nwPeers s))"
    by (cases a) (auto simp: peer_step_def addPeer_def delPeer_def)
  have p: "present as m (\<exists>p \<in> set (nwPeers t). npAddr p = m) = present (a # as) m (\<exists>p \<in> set (nwPeers s). npAddr p = m)"
    unfolding t(3) by (cases a) (auto intro!: arg_cong [where f = "present as m"])
  show ?case
    using Cons.IH [OF t(2)] unfolding p by (simp add: t(1))
qed

theorem espnow_peer_set_witness:
  "\<exists>t. each_call peer_step [Add \<lparr>npAddr = [1], npLmk = [], npChannel = 0, npEncrypt = False\<rparr>, Del [1]] now_new = Some t \<and>
    isPeerExist [1] t = Some (False, t)"
  using espnow_peer_set [of now_new "[Add \<lparr>npAddr = [1], npLmk = [], npChannel = 0, npEncrypt = False\<rparr>, Del [1]]" "[1]"]
  by (simp add: now_new_def)

text \<open>
  Removing an address removes every peer with it, however often it was added, and no other; adding never
  notices that the address is there.
\<close>

theorem espnow_delete_all_duplicates:
  assumes "\<not> nwLocked s"
  shows "map_option (\<lambda>(_, t). nwPeers t) (delPeer m s) = Some (filter (\<lambda>p. npAddr p \<noteq> m) (nwPeers s)) \<and>
    map_option (\<lambda>(r, t). (r, length (nwPeers t))) (addPeer p s) = Some (0, length (nwPeers s) + 1)"
  using assms by (simp add: delPeer_def addPeer_def)

theorem espnow_delete_all_duplicates_witness:
  "map_option (\<lambda>(_, t). nwPeers t)
     (delPeer [7] (now_new\<lparr>nwPeers := [\<lparr>npAddr = [7], npLmk = [], npChannel = 0, npEncrypt = False\<rparr>, \<lparr>npAddr = [7], npLmk = [1], npChannel = 1, npEncrypt = True\<rparr>]\<rparr>)) = Some []"
  using espnow_delete_all_duplicates [of "now_new\<lparr>nwPeers := [\<lparr>npAddr = [7], npLmk = [], npChannel = 0, npEncrypt = False\<rparr>, \<lparr>npAddr = [7], npLmk = [1], npChannel = 1, npEncrypt = True\<rparr>]\<rparr>" "[7]"]
  by (simp add: now_new_def)

text \<open>
  Sending. Before the initialisation it is refused; afterwards it succeeds and is logged for any address,
  a peer or not, and for data of any length; without an address the message is a broadcast.
\<close>

theorem espnow_send:
  assumes "\<not> nwLocked s" "nwSendCb s = None"
  shows "now_send run peer d s =
    (if nwInitialized s then Some (0, s\<lparr>nwSent := nwSent s @ [(case peer of Some m \<Rightarrow> m | None \<Rightarrow> replicate 6 0xFF, d)]\<rparr>)
     else Some (- 1, s))"
  using assms by (simp add: now_send_def now_mutex_def with_mutex_def)

theorem espnow_send_witness:
  "now_send (\<lambda>_ _. Some) None [1, 2] (snd (now_init now_new)) =
    Some (0, (snd (now_init now_new))\<lparr>nwSent := [(replicate 6 0xFF, [1, 2])]\<rparr>)"
  using espnow_send [of "snd (now_init now_new)" "\<lambda>_ _. Some" None "[1, 2]"] by (simp add: now_init_def now_new_def)

text \<open>
  Sending from the callback for what was sent blocks: the callback runs under the mutex, which every
  operation on the log and the peers takes, so a callback that starts with one of them never returns.
\<close>

theorem espnow_callback_blocks:
  assumes "nwInitialized s" "nwSendCb s = Some cb"
    and "\<And>p t. run cb p t = (case first_call t of Some (_, u) \<Rightarrow> and_then u | None \<Rightarrow> None)"
    and "first_call \<in> {addPeer q, delPeer m} \<union> {\<lambda>t. map_option (\<lambda>(_, u). (0, u)) (isPeerExist m t)}
      \<union> {now_send run' peer' d' | run' peer' d'. True}"
  shows "now_send run peer d s = None"
proof (cases "nwLocked s")
  case True
  then show ?thesis
    using assms(1) by (simp add: now_send_def now_mutex_def)
next
  case False
  have "first_call t = None" if "nwLocked t" "nwInitialized t" for t
    using assms(4) that by (auto simp: addPeer_def delPeer_def isPeerExist_def now_send_def now_mutex_def)
  then show ?thesis
    using assms(1-3) False by (simp add: now_send_def now_mutex_def with_mutex_def)
qed

theorem espnow_callback_blocks_witness:
  "now_send (\<lambda>_ _ t. case delPeer [1] t of Some (_, u) \<Rightarrow> Some u | None \<Rightarrow> None) None []
     (now_new\<lparr>nwInitialized := True, nwSendCb := Some 0\<rparr>) = None"
  by (rule espnow_callback_blocks [where cb = 0 and first_call = "delPeer [1]" and and_then = Some and m = "[1]"])
    (simp_all add: now_new_def)

text \<open>
  The nodes of a mesh. A node that joined twice is listed twice, and leaving takes it out at once; the
  callbacks are the one for the node, then the one for any change, each when it is set.
\<close>

theorem mesh_nodes:
  "msNodes (snd (mesh_connect n m)) = msNodes m @ [n] \<and>
   msNodes (snd (mesh_drop n (snd (mesh_connect n m)))) = filter (\<lambda>k. k \<noteq> n) (msNodes m) \<and>
   getNodeList True m = msNodeId m # getNodeList False m \<and>
   fst (mesh_connect n (m\<lparr>msOnNew := True, msOnChanged := True\<rparr>)) = [New_Connection n, Changed_Connections] \<and>
   fst (mesh_drop n (m\<lparr>msOnDropped := False, msOnChanged := True\<rparr>)) = [Changed_Connections]"
  by (simp add: mesh_connect_def mesh_drop_def getNodeList_def calls_def)

end
