(* ===== verification/Gpio.thy ===== *)
theory Gpio
  imports Interfaces
begin

text \<open>
  The pin controller of \<open>src/include/esp32emu_gpio.h\<close>: modes, digital and analog levels, and the
  edge-triggered callbacks, which run inside the write that causes them, under the controller's
  mutex. The lemmas say which writes call a callback.
\<close>

section \<open>State\<close>

abbreviation (input) "ISR_RISING \<equiv> (1 :: int)"
abbreviation (input) "ISR_FALLING \<equiv> (2 :: int)"
abbreviation (input) "ISR_CHANGE \<equiv> (3 :: int)"

record pin_state =
  pinModeOf :: byte
  pinDigital :: int
  pinAnalog :: int

text \<open>A callback is a code number; an empty \<open>std::function\<close> is \<open>None\<close>.\<close>

record isr_entry =
  isrFn :: "nat option"
  isrMode :: int

record gpio =
  pins :: "byte \<rightharpoonup> pin_state"
  isrs :: "byte \<rightharpoonup> isr_entry"

definition gpio_init :: gpio where
  "gpio_init = \<lparr>pins = Map.empty, isrs = Map.empty\<rparr>"

definition pin_default :: pin_state where
  "pin_default = \<lparr>pinModeOf = 0, pinDigital = 0, pinAnalog = 0\<rparr>"

text \<open>\<open>pins_[pin]\<close>: an absent pin is created with the default state.\<close>

definition pin_of :: "gpio \<Rightarrow> byte \<Rightarrow> pin_state" where
  "pin_of g pin = (case pins g pin of None \<Rightarrow> pin_default | Some p \<Rightarrow> p)"

definition set_pin :: "gpio \<Rightarrow> byte \<Rightarrow> pin_state \<Rightarrow> gpio" where
  "set_pin g pin p = g\<lparr>pins := (pins g)(pin \<mapsto> p)\<rparr>"

section \<open>Operations\<close>

definition pinMode :: "gpio \<Rightarrow> byte \<Rightarrow> byte \<Rightarrow> gpio" where
  "pinMode g pin mode = set_pin g pin (pin_of g pin\<lparr>pinModeOf := mode\<rparr>)"

text \<open>The callback to run, if any.\<close>

definition fireISR :: "gpio \<Rightarrow> byte \<Rightarrow> int \<Rightarrow> int \<Rightarrow> nat option" where
  "fireISR g pin old_val new_val =
    (case isrs g pin of
       None \<Rightarrow> None
     | Some e \<Rightarrow>
         let fire = (isrMode e = ISR_RISING \<and> old_val = 0 \<and> new_val = 1) \<or>
                    (isrMode e = ISR_FALLING \<and> old_val = 1 \<and> new_val = 0) \<or>
                    isrMode e = ISR_CHANGE
         in if fire then isrFn e else None)"

text \<open>
  \<open>reenters fn\<close> says that the callback itself calls the controller; the mutex is not recursive and
  is held, so such a call never returns (\<open>None\<close>). Otherwise the result is the callback run, if
  one was, and the new state.
\<close>

definition digitalWrite ::
  "(nat \<Rightarrow> bool) \<Rightarrow> gpio \<Rightarrow> byte \<Rightarrow> byte \<Rightarrow> (nat option \<times> gpio) option" where
  "digitalWrite reenters g pin val =
    (let old = pinDigital (pin_of g pin);
         g' = set_pin g pin (pin_of g pin\<lparr>pinDigital := uint val\<rparr>);
         fired = (if old \<noteq> uint val then fireISR g' pin old (uint val) else None)
     in case fired of
          None \<Rightarrow> Some (None, g')
        | Some fn \<Rightarrow> if reenters fn then None else Some (Some fn, g'))"

definition digitalRead :: "gpio \<Rightarrow> byte \<Rightarrow> int \<times> gpio" where
  "digitalRead g pin = (pinDigital (pin_of g pin), set_pin g pin (pin_of g pin))"

definition analogRead :: "gpio \<Rightarrow> byte \<Rightarrow> int \<times> gpio" where
  "analogRead g pin = (pinAnalog (pin_of g pin), set_pin g pin (pin_of g pin))"

definition analogWrite :: "gpio \<Rightarrow> byte \<Rightarrow> int \<Rightarrow> gpio" where
  "analogWrite g pin val =
    set_pin g pin (pin_of g pin\<lparr>pinAnalog := val, pinDigital := (if val > 0 then 1 else 0)\<rparr>)"

definition setAnalogInput :: "gpio \<Rightarrow> byte \<Rightarrow> int \<Rightarrow> gpio" where
  "setAnalogInput g pin val = set_pin g pin (pin_of g pin\<lparr>pinAnalog := val\<rparr>)"

definition attachInterrupt :: "gpio \<Rightarrow> byte \<Rightarrow> nat option \<Rightarrow> int \<Rightarrow> gpio" where
  "attachInterrupt g pin fn mode = g\<lparr>isrs := (isrs g)(pin \<mapsto> \<lparr>isrFn = fn, isrMode = mode\<rparr>)\<rparr>"

definition detachInterrupt :: "gpio \<Rightarrow> byte \<Rightarrow> gpio" where
  "detachInterrupt g pin = g\<lparr>isrs := (isrs g)(pin := None)\<rparr>"

definition getPin :: "gpio \<Rightarrow> byte \<Rightarrow> pin_state \<times> gpio" where
  "getPin g pin = (pin_of g pin, set_pin g pin (pin_of g pin))"

definition allPins :: "gpio \<Rightarrow> (byte \<rightharpoonup> pin_state)" where
  "allPins g = pins g"

definition gpio_reset :: "gpio \<Rightarrow> gpio" where
  "gpio_reset g = g\<lparr>pins := Map.empty, isrs := Map.empty\<rparr>"

section \<open>Edges\<close>

lemma pin_of_set_pin [simp]: "pin_of (set_pin g pin p) q = (if q = pin then p else pin_of g q)"
  by (simp add: pin_of_def set_pin_def)

lemma isrs_set_pin [simp]: "isrs (set_pin g pin p) = isrs g"
  by (simp add: set_pin_def)

lemma fireISR_set_pin [simp]: "fireISR (set_pin g pin p) = fireISR g"
  by (simp add: fireISR_def fun_eq_iff)

text \<open>A run of writes to one pin: the callbacks that ran, and the state.\<close>

fun write_all :: "(nat \<Rightarrow> bool) \<Rightarrow> byte \<Rightarrow> byte list \<Rightarrow> gpio \<Rightarrow> (nat list \<times> gpio) option" where
  "write_all reenters pin [] g = Some ([], g)"
| "write_all reenters pin (v # vs) g =
    (case digitalWrite reenters g pin v of
       None \<Rightarrow> None
     | Some (fired, g') \<Rightarrow>
         map_option (\<lambda>(fs, g''). (case fired of None \<Rightarrow> fs | Some f \<Rightarrow> f # fs, g''))
           (write_all reenters pin vs g'))"

text \<open>The edges an interrupt mode asks for, in a sequence of levels.\<close>

fun edges :: "int \<Rightarrow> int \<Rightarrow> int list \<Rightarrow> nat" where
  "edges mode lvl [] = 0"
| "edges mode lvl (v # vs) =
    (if (mode = ISR_RISING \<and> lvl = 0 \<and> v = 1) \<or> (mode = ISR_FALLING \<and> lvl = 1 \<and> v = 0) \<or>
        (mode = ISR_CHANGE \<and> lvl \<noteq> v)
     then 1 else 0) + edges mode v vs"

lemma write_all_edges:
  "isrs g pin = Some \<lparr>isrFn = Some f, isrMode = mode\<rparr> \<Longrightarrow> \<not> reenters f \<Longrightarrow>
   \<exists>g'. write_all reenters pin vs g =
       Some (replicate (edges mode (pinDigital (pin_of g pin)) (map uint vs)) f, g') \<and>
     pinDigital (pin_of g' pin) = last (pinDigital (pin_of g pin) # map uint vs) \<and>
     isrs g' = isrs g \<and> (\<forall>q. q \<noteq> pin \<longrightarrow> pin_of g' q = pin_of g q)"
proof (induction vs arbitrary: g)
  case Nil
  then show ?case by simp
next
  case (Cons v vs)
  define g1 where "g1 = set_pin g pin (pin_of g pin\<lparr>pinDigital := uint v\<rparr>)"
  have "isrs g1 pin = Some \<lparr>isrFn = Some f, isrMode = mode\<rparr>"
    using Cons.prems by (simp add: g1_def)
  from Cons.IH [OF this Cons.prems(2)] show ?case
    using Cons.prems
    by (auto simp: digitalWrite_def fireISR_def Let_def g1_def)
qed

section \<open>Properties\<close>

text \<open>
  Interrupts follow the edges. While a callback that leaves the controller alone is attached
  to a pin, any sequence of writes to the pin runs it exactly once for each edge of its mode in the
  sequence of levels, leaves the last level on the pin and changes no other pin. A PWM write changes
  the level without running it.
\<close>

theorem gpio_isr_per_edge:
  fixes g :: gpio and pin :: byte and mode :: int
  assumes "\<not> reenters f"
  defines "g1 \<equiv> attachInterrupt g pin (Some f) mode"
  shows "(\<exists>g'. write_all reenters pin vs g1 =
      Some (replicate (edges mode (fst (digitalRead g pin)) (map uint vs)) f, g') \<and>
      fst (digitalRead g' pin) = last (fst (digitalRead g pin) # map uint vs) \<and>
      (\<forall>q. q \<noteq> pin \<longrightarrow> fst (getPin g' q) = fst (getPin g q))) \<and>
    fst (digitalRead (analogWrite g1 pin 255) pin) = 1"
proof -
  have 1: "isrs g1 pin = Some \<lparr>isrFn = Some f, isrMode = mode\<rparr>" "\<And>q. pin_of g1 q = pin_of g q"
    by (simp_all add: g1_def attachInterrupt_def pin_of_def)
  show ?thesis
    using write_all_edges [of g1 pin f mode reenters vs, OF 1(1) assms(1)] 1(2)
    by (auto simp: digitalRead_def getPin_def analogWrite_def)
qed

theorem gpio_isr_per_edge_witness:
  "\<exists>g'. write_all (\<lambda>_. False) 4 [1, 1, 0, 1, 2] (attachInterrupt gpio_init 4 (Some 9) ISR_RISING) =
     Some ([9, 9], g') \<and> fst (digitalRead g' 4) = 2"
  using gpio_isr_per_edge [of "\<lambda>_. False" 9 4 "[1, 1, 0, 1, 2]" gpio_init ISR_RISING]
  by (auto simp: digitalRead_def pin_of_def gpio_init_def pin_default_def simp del: write_all.simps)

end
