(* ===== verification/Rates.thy ===== *)
theory Rates
  imports Gpio
begin

unbundle bit_operations_syntax

text \<open>
  Things that run at a rate: the controller \<open>src/include/PID_v1.h\<close>, the periodic callback \<open>Ticker.h\<close>
  and the PWM channels \<open>esp32emu_ledc.h\<close>. The lemmas show that the controller and the callback
  never run closer together than their interval (one contract, \<open>spaced\<close>), that the controller stays within its limits
  and takes over without a bump, what its gains read back as, and which pins a channel drives.
\<close>

section \<open>The contract of a rate\<close>

text \<open>The times of a list at which \<open>step\<close> did something.\<close>

fun fired :: "(int \<Rightarrow> 's \<Rightarrow> bool \<times> 's) \<Rightarrow> int list \<Rightarrow> 's \<Rightarrow> int list" where
  "fired step [] s = []"
| "fired step (t # ts) s = (let (b, s) = step t s in if b then t # fired step ts s else fired step ts s)"

lemma fired_subset: "set (fired step ts s) \<subseteq> set ts"
  by (induction ts arbitrary: s) (auto split: prod.splits)

text \<open>\<open>ok t\<close> holds of a state all of whose past is not after \<open>t\<close>; \<open>due\<close> is the next time something may happen.\<close>

locale spaced =
  fixes ok :: "int \<Rightarrow> 's \<Rightarrow> bool"
    and due :: "'s \<Rightarrow> int"
    and gap :: "'s \<Rightarrow> int"
    and step :: "int \<Rightarrow> 's \<Rightarrow> bool \<times> 's"
  assumes ok_later: "ok t s \<Longrightarrow> t \<le> u \<Longrightarrow> u < 2 ^ 62 \<Longrightarrow> ok u s"
    and step_ok: "ok t s \<Longrightarrow> ok t (snd (step t s)) \<and> gap (snd (step t s)) = gap s"
    and step_fires: "ok t s \<Longrightarrow> fst (step t s) \<Longrightarrow> due s \<le> t \<and> due (snd (step t s)) = t + gap s"
    and step_idle: "ok t s \<Longrightarrow> \<not> fst (step t s) \<Longrightarrow> t < due s \<and> due (snd (step t s)) = due s"
begin

lemma fired_spaced:
  assumes "ok t0 s" "sorted (t0 # ts)" "\<forall>t\<in>set ts. t < 2 ^ 62"
  shows "sorted_wrt (\<lambda>a b. a + gap s \<le> b) (fired step ts s) \<and> (\<forall>t\<in>set (fired step ts s). due s \<le> t)"
  using assms
proof (induction ts arbitrary: s t0)
  case (Cons t ts)
  obtain b u where bu: "step t s = (b, u)"
    by fastforce
  have ok: "ok t s"
    using Cons.prems ok_later by auto
  then have u: "ok t u" "gap u = gap s"
    using step_ok [of t s] bu by auto
  have IH: "sorted_wrt (\<lambda>a b. a + gap s \<le> b) (fired step ts u)" "\<forall>t\<in>set (fired step ts u). due u \<le> t"
    using Cons.IH [OF u(1)] Cons.prems u(2) by auto
  show ?case
  proof (cases b)
    case True
    then have d: "due s \<le> t" "due u = t + gap s"
      using step_fires [OF ok] bu by auto
    have "\<forall>x\<in>set (fired step ts u). t \<le> x"
      using fired_subset [of step ts u] Cons.prems by auto
    then show ?thesis
      using True bu IH d by force
  next
    case False
    then have "due u = due s"
      using step_idle [OF ok] bu by auto
    then show ?thesis
      using False bu IH by auto
  qed
qed simp

text \<open>A poll at or after the due time is not missed.\<close>

lemma fires_when_due: "ok t s \<Longrightarrow> due s \<le> t \<Longrightarrow> fst (step t s)"
  using step_idle by force

end

section \<open>\<open>PID_v1.h\<close>\<close>

text \<open>
  The arithmetic of \<open>double\<close> is an argument: the operations, the comparisons and the numbers of the program. A NaN is a
  value that is not even below itself; \<open>ieee\<close> is what IEEE 754 says of comparisons (the numbers, infinities included,
  are in a total preorder in which the two zeros are alike, and any comparison with a NaN is false). \<open>exact\<close> is the
  arithmetic and order of a linearly ordered field, which has no NaN. The three variables the controller points to are distinct and
  are fields of its state; \<open>now\<close> is \<open>millis()\<close>.
\<close>

record 'f arith =
  fAdd :: "'f \<Rightarrow> 'f \<Rightarrow> 'f"
  fSub :: "'f \<Rightarrow> 'f \<Rightarrow> 'f"
  fMul :: "'f \<Rightarrow> 'f \<Rightarrow> 'f"
  fDiv :: "'f \<Rightarrow> 'f \<Rightarrow> 'f"
  fNeg :: "'f \<Rightarrow> 'f"
  fNum :: "int \<Rightarrow> 'f"
  fLt :: "'f \<Rightarrow> 'f \<Rightarrow> bool"
  fLe :: "'f \<Rightarrow> 'f \<Rightarrow> bool"

definition is_num :: "'f arith \<Rightarrow> 'f \<Rightarrow> bool" where
  "is_num A x \<longleftrightarrow> fLe A x x"

definition ieee :: "'f arith \<Rightarrow> bool" where
  "ieee A \<longleftrightarrow> (\<forall>x y. fLe A x y \<longrightarrow> is_num A x \<and> is_num A y) \<and>
    (\<forall>x y. is_num A x \<and> is_num A y \<longrightarrow> fLe A x y \<or> fLe A y x) \<and>
    (\<forall>x y z. fLe A x y \<and> fLe A y z \<longrightarrow> fLe A x z) \<and>
    (\<forall>x y. fLt A x y \<longleftrightarrow> fLe A x y \<and> \<not> fLe A y x)"

definition exact :: "'f::linordered_field arith" where
  "exact = \<lparr>fAdd = (+), fSub = (-), fMul = (*), fDiv = (/), fNeg = uminus, fNum = of_int,
     fLt = (<), fLe = (\<le>)\<rparr>"

record 'f pid =
  pdIn :: 'f
  pdOut :: 'f
  pdSet :: 'f
  pdKp :: 'f
  pdKi :: 'f
  pdKd :: 'f
  pdPOn :: int
  pdDir :: int
  pdMode :: int
  pdMin :: 'f
  pdMax :: 'f
  pdSample :: int
  pdSum :: 'f
  pdLastIn :: 'f
  pdLast :: u64
  pdCount :: u32

abbreviation (input) "AUTOMATIC \<equiv> (1 :: int)"
abbreviation (input) "MANUAL \<equiv> (0 :: int)"
abbreviation (input) "DIRECT \<equiv> (0 :: int)"
abbreviation (input) "REVERSE \<equiv> (1 :: int)"
abbreviation (input) "P_ON_M \<equiv> (0 :: int)"
abbreviation (input) "P_ON_E \<equiv> (1 :: int)"

text \<open>The two comparisons that clamp; a NaN passes both.\<close>

definition limit :: "'f arith \<Rightarrow> 'f \<Rightarrow> 'f \<Rightarrow> 'f \<Rightarrow> 'f" where
  "limit A lo hi x = (if fLt A hi x then hi else if fLt A x lo then lo else x)"

definition pid_reverse :: "'f arith \<Rightarrow> 'f pid \<Rightarrow> 'f pid" where
  "pid_reverse A s = (if pdDir s = REVERSE then s\<lparr>pdKp := fNeg A (pdKp s), pdKi := fNeg A (pdKi s), pdKd := fNeg A (pdKd s)\<rparr> else s)"

definition pid_new :: "'f arith \<Rightarrow> int \<Rightarrow> 'f \<Rightarrow> 'f \<Rightarrow> 'f \<Rightarrow> 'f \<Rightarrow> 'f \<Rightarrow> 'f \<Rightarrow> int \<Rightarrow> int \<Rightarrow> 'f pid" where
  "pid_new A now inp out setp kp ki kd pOn direction =
    pid_reverse A
      \<lparr>pdIn = inp, pdOut = out, pdSet = setp, pdKp = kp, pdKi = ki, pdKd = kd, pdPOn = pOn, pdDir = direction, pdMode = MANUAL,
       pdMin = fNum A 0, pdMax = fNum A 255, pdSample = 100, pdSum = fNum A 0, pdLastIn = inp,
       pdLast = of_int now - of_int 100, pdCount = 0\<rparr>"

definition pid_compute :: "'f arith \<Rightarrow> int \<Rightarrow> 'f pid \<Rightarrow> bool \<times> 'f pid" where
  "pid_compute A now s =
    (if pdMode s = MANUAL then (False, s)
     else if of_int now - pdLast s < of_int (pdSample s) then (False, s)
     else
       let input = pdIn s;
           err = fSub A (pdSet s) input;
           dInput = fSub A input (pdLastIn s);
           s = s\<lparr>pdSum := fAdd A (pdSum s) (fMul A (pdKi s) err)\<rparr>;
           s = (if pdPOn s = P_ON_M then s\<lparr>pdSum := fSub A (pdSum s) (fMul A (pdKp s) dInput)\<rparr> else s);
           s = s\<lparr>pdSum := limit A (pdMin s) (pdMax s) (pdSum s)\<rparr>;
           output = (if pdPOn s = P_ON_E then fMul A (pdKp s) err else fNum A 0);
           output = fAdd A output (fSub A (pdSum s) (fMul A (pdKd s) dInput));
           output = limit A (pdMin s) (pdMax s) output
       in (True, s\<lparr>pdOut := output, pdLastIn := input, pdLast := of_int now, pdCount := pdCount s + 1\<rparr>))"

definition SetMode :: "'f arith \<Rightarrow> int \<Rightarrow> 'f pid \<Rightarrow> 'f pid" where
  "SetMode A mode s =
    (let s = (if mode = AUTOMATIC \<and> pdMode s = MANUAL
              then s\<lparr>pdSum := limit A (pdMin s) (pdMax s) (pdOut s), pdLastIn := pdIn s\<rparr> else s)
     in s\<lparr>pdMode := mode\<rparr>)"

definition SetOutputLimits :: "'f arith \<Rightarrow> 'f \<Rightarrow> 'f \<Rightarrow> 'f pid \<Rightarrow> 'f pid" where
  "SetOutputLimits A mn mx s =
    (if fLe A mx mn then s
     else s\<lparr>pdMin := mn, pdMax := mx, pdOut := limit A mn mx (pdOut s), pdSum := limit A mn mx (pdSum s)\<rparr>)"

definition SetTunings :: "'f arith \<Rightarrow> 'f \<Rightarrow> 'f \<Rightarrow> 'f \<Rightarrow> int \<Rightarrow> 'f pid \<Rightarrow> 'f pid" where
  "SetTunings A kp ki kd pOn s =
    (if fLt A kp (fNum A 0) \<or> fLt A ki (fNum A 0) \<or> fLt A kd (fNum A 0) then s
     else
       let sampleSec = fDiv A (fNum A (pdSample s)) (fNum A 1000)
       in pid_reverse A (s\<lparr>pdPOn := pOn, pdKp := kp, pdKi := fMul A ki sampleSec, pdKd := fDiv A kd sampleSec\<rparr>))"

definition SetSampleTime :: "'f arith \<Rightarrow> int \<Rightarrow> 'f pid \<Rightarrow> 'f pid" where
  "SetSampleTime A ms s =
    (if ms \<le> 0 then s
     else
       let ratio = fDiv A (fNum A ms) (fNum A (pdSample s))
       in s\<lparr>pdKi := fMul A (pdKi s) ratio, pdKd := fDiv A (pdKd s) ratio, pdSample := ms\<rparr>)"

definition SetControllerDirection :: "int \<Rightarrow> 'f pid \<Rightarrow> 'f pid" where
  "SetControllerDirection direction s = s\<lparr>pdDir := direction\<rparr>"

definition GetKp :: "'f arith \<Rightarrow> 'f pid \<Rightarrow> 'f" where
  "GetKp A s = (if pdDir s = DIRECT then pdKp s else fNeg A (pdKp s))"

definition GetKi :: "'f arith \<Rightarrow> 'f pid \<Rightarrow> 'f" where
  "GetKi A s =
    (let ki = (if pdDir s = DIRECT then pdKi s else fNeg A (pdKi s)) in fDiv A ki (fDiv A (fNum A (pdSample s)) (fNum A 1000)))"

definition GetKd :: "'f arith \<Rightarrow> 'f pid \<Rightarrow> 'f" where
  "GetKd A s =
    (let kd = (if pdDir s = DIRECT then pdKd s else fNeg A (pdKd s)) in fMul A kd (fDiv A (fNum A (pdSample s)) (fNum A 1000)))"

text \<open>What a sketch does with a controller: it also writes the three variables.\<close>

datatype 'f pid_op =
  PInput 'f | POutput 'f | PSetpoint 'f | PCompute int | PMode int | PLimits 'f 'f | PTunings 'f 'f 'f int | PSample int | PDirection int

fun pid_do :: "'f arith \<Rightarrow> 'f pid_op \<Rightarrow> 'f pid \<Rightarrow> 'f pid" where
  "pid_do A (PInput x) s = s\<lparr>pdIn := x\<rparr>"
| "pid_do A (POutput x) s = s\<lparr>pdOut := x\<rparr>"
| "pid_do A (PSetpoint x) s = s\<lparr>pdSet := x\<rparr>"
| "pid_do A (PCompute now) s = snd (pid_compute A now s)"
| "pid_do A (PMode m) s = SetMode A m s"
| "pid_do A (PLimits mn mx) s = SetOutputLimits A mn mx s"
| "pid_do A (PTunings kp ki kd pOn) s = SetTunings A kp ki kd pOn s"
| "pid_do A (PSample ms) s = SetSampleTime A ms s"
| "pid_do A (PDirection d) s = SetControllerDirection d s"

section \<open>\<open>Ticker.h\<close>\<close>

text \<open>
  The ticker and its thread. \<open>tkWake\<close> is when the sleeping thread wakes up; \<open>None\<close> when there is none. A callback is
  a code number; one that works on its own ticker would join its own thread and end the program, so none does. The
  interval is an \<open>int\<close>: a negative one does not sleep. \<open>detach\<close> waits for the thread, which sees \<open>running_\<close>
  cleared and ends; \<open>now\<close> is the time after that.
\<close>

record ticker =
  tkCallback :: "nat option"
  tkRunning :: bool
  tkOnce :: bool
  tkCount :: u32
  tkInterval :: int
  tkWake :: "int option"

definition ticker_new :: ticker where
  "ticker_new = \<lparr>tkCallback = None, tkRunning = False, tkOnce = False, tkCount = 0, tkInterval = 1000, tkWake = None\<rparr>"

definition ticker_detach :: "ticker \<Rightarrow> ticker" where
  "ticker_detach s = s\<lparr>tkRunning := False, tkWake := None, tkOnce := False, tkCount := 0\<rparr>"

definition ticker_start :: "int \<Rightarrow> ticker \<Rightarrow> ticker" where
  "ticker_start now s = s\<lparr>tkWake := Some (now + max 0 (tkInterval s))\<rparr>"

definition attach_ms :: "int \<Rightarrow> u32 \<Rightarrow> nat option \<Rightarrow> ticker \<Rightarrow> ticker" where
  "attach_ms now ms cb s =
    (let s = ticker_detach s; s = s\<lparr>tkRunning := True\<rparr>; s = s\<lparr>tkInterval := sint ms\<rparr>; s = s\<lparr>tkCallback := cb\<rparr>
     in ticker_start now s)"

definition once_ms :: "int \<Rightarrow> u32 \<Rightarrow> nat option \<Rightarrow> ticker \<Rightarrow> ticker" where
  "once_ms now ms cb s =
    (let s = ticker_detach s; s = s\<lparr>tkRunning := True\<rparr>; s = s\<lparr>tkInterval := sint ms\<rparr>; s = s\<lparr>tkCallback := cb\<rparr>;
         s = s\<lparr>tkOnce := True\<rparr>
     in ticker_start now s)"

definition ticker_active :: "ticker \<Rightarrow> bool" where
  "ticker_active s = tkRunning s"

text \<open>What the thread does at \<open>now\<close>: whether an iteration of the loop ran to its end, and the new state.\<close>

definition ticker_loop :: "int \<Rightarrow> ticker \<Rightarrow> bool \<times> ticker" where
  "ticker_loop now s =
    (case tkWake s of
       None \<Rightarrow> (False, s)
     | Some w \<Rightarrow>
         if now < w then (False, s)
         else if \<not> tkRunning s then (False, s\<lparr>tkWake := None\<rparr>)
         else
           let s = s\<lparr>tkCount := tkCount s + 1\<rparr>
           in (True, if tkOnce s then s\<lparr>tkRunning := False, tkWake := None\<rparr> else ticker_start now s))"

fun ticker_runs :: "int list \<Rightarrow> ticker \<Rightarrow> ticker" where
  "ticker_runs [] s = s"
| "ticker_runs (t # ts) s = ticker_runs ts (snd (ticker_loop t s))"

section \<open>\<open>esp32emu_ledc.h\<close>\<close>

text \<open>
  Sixteen channels, and the pins of \<open>Gpio\<close> they drive. Frequencies are of any linear order with a zero. The attached pin
  is an 8-bit signed number. Shifting an \<open>int\<close> by 32 bits or more is undefined (\<open>None\<close>).
\<close>

record 'f ledc =
  leConfigured :: bool
  leFreq :: 'f
  leBits :: byte
  leDuty :: u32
  lePin :: byte
  leTone :: 'f

definition ledc_new :: "'f::zero ledc" where
  "ledc_new = \<lparr>leConfigured = False, leFreq = 0, leBits = 0, leDuty = 0, lePin = - 1, leTone = 0\<rparr>"

definition ledc_reset :: "'f::zero ledc list" where
  "ledc_reset = replicate 16 ledc_new"

definition ledc_setup :: "byte \<Rightarrow> 'f \<Rightarrow> byte \<Rightarrow> 'f::zero ledc list \<Rightarrow> 'f \<times> 'f ledc list" where
  "ledc_setup channel freq bits cs =
    (if channel \<ge> 16 then (0, cs)
     else (freq, cs[unat channel := (cs ! unat channel)\<lparr>leConfigured := True, leFreq := freq, leBits := bits, leDuty := 0\<rparr>]))"

definition ledc_attachPin :: "byte \<Rightarrow> byte \<Rightarrow> 'f ledc list \<Rightarrow> 'f ledc list" where
  "ledc_attachPin pin channel cs = (if channel \<ge> 16 then cs else cs[unat channel := (cs ! unat channel)\<lparr>lePin := pin\<rparr>])"

definition ledc_detachPin :: "byte \<Rightarrow> 'f ledc list \<Rightarrow> 'f ledc list" where
  "ledc_detachPin pin cs = map (\<lambda>c. if lePin c = pin then c\<lparr>lePin := - 1\<rparr> else c) cs"

definition ledc_write :: "byte \<Rightarrow> u32 \<Rightarrow> 'f ledc list \<times> gpio \<Rightarrow> 'f ledc list \<times> gpio" where
  "ledc_write channel duty = (\<lambda>(cs, g).
    if channel \<ge> 16 then (cs, g)
    else
      let cs = cs[unat channel := (cs ! unat channel)\<lparr>leDuty := duty\<rparr>];
          pin = lePin (cs ! unat channel)
      in (cs, if sint pin \<ge> 0 then analogWrite g pin (sint duty) else g))"

definition ledc_read :: "byte \<Rightarrow> 'f ledc list \<Rightarrow> u32" where
  "ledc_read channel cs = (if channel \<ge> 16 then 0 else leDuty (cs ! unat channel))"

definition ledc_readFreq :: "byte \<Rightarrow> 'f::zero ledc list \<Rightarrow> 'f" where
  "ledc_readFreq channel cs = (if channel \<ge> 16 then 0 else leFreq (cs ! unat channel))"

definition half_duty :: "byte \<Rightarrow> u32 option" where
  "half_duty bits =
    (if unat bits < 31 then Some (of_int (2 ^ unat bits div 2)) else if bits = 31 then Some (of_int (- (2 ^ 30))) else None)"

definition ledc_writeTone :: "byte \<Rightarrow> 'f \<Rightarrow> 'f::{zero, linorder} ledc list \<Rightarrow> 'f ledc list option" where
  "ledc_writeTone channel freq cs =
    (if channel \<ge> 16 then Some cs
     else
       let c = (cs ! unat channel)\<lparr>leTone := freq, leFreq := freq\<rparr>
       in case half_duty (leBits c) of
            None \<Rightarrow> None
          | Some d \<Rightarrow> Some (cs[unat channel := c\<lparr>leDuty := (if freq > 0 then d else 0)\<rparr>]))"

section \<open>Limits and rates of the controller\<close>

lemma ieeeD:
  assumes "ieee A"
  shows "fLe A x y \<Longrightarrow> is_num A x \<and> is_num A y" "is_num A x \<Longrightarrow> is_num A y \<Longrightarrow> fLe A x y \<or> fLe A y x"
    "fLe A x y \<Longrightarrow> fLe A y z \<Longrightarrow> fLe A x z" "fLt A x y \<longleftrightarrow> fLe A x y \<and> \<not> fLe A y x"
  using assms unfolding ieee_def by blast+

lemma ieee_exact: "ieee exact" "is_num exact x"
  by (auto simp: ieee_def is_num_def exact_def)

text \<open>A value is within its limits when it is a NaN or not beyond those of them that are numbers.\<close>

definition within :: "'f arith \<Rightarrow> 'f \<Rightarrow> 'f \<Rightarrow> 'f \<Rightarrow> bool" where
  "within A lo hi x \<longleftrightarrow> (is_num A x \<longrightarrow> (is_num A lo \<longrightarrow> fLe A lo x) \<and> (is_num A hi \<longrightarrow> fLe A x hi))"

lemma limit_within: "ieee A \<Longrightarrow> \<not> fLe A hi lo \<Longrightarrow> within A lo hi (limit A lo hi x)"
  using ieeeD(2) [of A lo hi] ieeeD(2) [of A lo x] ieeeD(2) [of A x hi]
  by (auto simp: within_def limit_def ieeeD(4) is_num_def)

lemma limit_id: "\<not> fLt A hi x \<Longrightarrow> \<not> fLt A x lo \<Longrightarrow> limit A lo hi x = x"
  by (simp add: limit_def)

definition pid_ok :: "'f arith \<Rightarrow> 'f pid \<Rightarrow> bool" where
  "pid_ok A s \<longleftrightarrow> \<not> fLe A (pdMax s) (pdMin s) \<and> within A (pdMin s) (pdMax s) (pdSum s)"

lemma pid_reverse_keeps [simp]:
  "pdMin (pid_reverse A s) = pdMin s" "pdMax (pid_reverse A s) = pdMax s" "pdSum (pid_reverse A s) = pdSum s"
  "pdSample (pid_reverse A s) = pdSample s" "pdDir (pid_reverse A s) = pdDir s" "pdLast (pid_reverse A s) = pdLast s"
  "pdMode (pid_reverse A s) = pdMode s" "pdOut (pid_reverse A s) = pdOut s"
  by (simp_all add: pid_reverse_def)

lemma pid_compute_keeps [simp]:
  "pdMin (snd (pid_compute A now s)) = pdMin s" "pdMax (snd (pid_compute A now s)) = pdMax s"
  "pdSample (snd (pid_compute A now s)) = pdSample s" "pdMode (snd (pid_compute A now s)) = pdMode s"
  by (simp_all add: pid_compute_def Let_def)

lemma pid_compute_sum:
  assumes "ieee A" "pid_ok A s"
  shows "within A (pdMin s) (pdMax s) (pdSum (snd (pid_compute A now s)))"
  using assms(2) limit_within [OF assms(1), of "pdMax s" "pdMin s"] by (simp add: pid_ok_def pid_compute_def Let_def)

lemma pid_compute_out:
  assumes "ieee A" "pid_ok A s" "fst (pid_compute A now s)"
  shows "within A (pdMin s) (pdMax s) (pdOut (snd (pid_compute A now s)))"
  using assms(2,3) limit_within [OF assms(1), of "pdMax s" "pdMin s"]
  by (simp add: pid_ok_def pid_compute_def Let_def split: if_splits)

lemma pid_do_ok:
  assumes "ieee A" "pid_ok A s"
  shows "pid_ok A (pid_do A op s)"
proof (cases op)
  case (PCompute now)
  then show ?thesis
    using assms(2) pid_compute_sum [OF assms, of now] by (simp add: pid_ok_def)
next
  case (PMode m)
  then show ?thesis
    using assms(2) limit_within [OF assms(1), of "pdMax s" "pdMin s"] by (simp add: pid_ok_def SetMode_def Let_def)
next
  case (PLimits mn mx)
  then show ?thesis
    using assms(2) limit_within [OF assms(1), of mx mn] by (simp add: pid_ok_def SetOutputLimits_def)
qed (use assms(2) in \<open>simp_all add: pid_ok_def SetTunings_def SetSampleTime_def SetControllerDirection_def Let_def\<close>)

lemma pid_new_ok: "ieee A \<Longrightarrow> fLt A (fNum A 0) (fNum A 255) \<Longrightarrow> pid_ok A (pid_new A now i out sp kp ki kd pOn d)"
  by (auto simp: pid_ok_def within_def pid_new_def is_num_def ieeeD(4))

text \<open>
  C23: Whatever the sketch does with the controller and its three variables, and whatever the arithmetic computes (of \<open>double\<close>
  only the comparisons of IEEE 754 are used): the accumulated sum and, after a run that computes, the output are NaN or
  within the limits (those that are numbers; \<open>SetOutputLimits\<close> takes a NaN for a limit), and the upper limit is not at or
  below the lower. So where no value is NaN both are within the limits. That a NaN does get through is
  \<open>pid_nan_sticks\<close>.
\<close>

theorem pid_bounded:
  assumes "ieee A" "fLt A (fNum A 0) (fNum A 255)"
  shows "let s = fold (pid_do A) ops (pid_new A t0 i out sp kp ki kd pOn d); c = pid_compute A now s
    in \<not> fLe A (pdMax s) (pdMin s) \<and> within A (pdMin s) (pdMax s) (pdSum s) \<and>
      within A (pdMin (snd c)) (pdMax (snd c)) (pdSum (snd c)) \<and>
      (fst c \<longrightarrow> within A (pdMin s) (pdMax s) (pdOut (snd c))) \<and>
      ((\<forall>x. is_num A x) \<longrightarrow> fLt A (pdMin s) (pdMax s) \<and> fLe A (pdMin s) (pdSum s) \<and> fLe A (pdSum s) (pdMax s) \<and>
        (fst c \<longrightarrow> fLe A (pdMin s) (pdOut (snd c)) \<and> fLe A (pdOut (snd c)) (pdMax s)))"
proof -
  define s where "s = fold (pid_do A) ops (pid_new A t0 i out sp kp ki kd pOn d)"
  have "pid_ok A (fold (pid_do A) ops s0)" if "pid_ok A s0" for s0
    using that by (induction ops arbitrary: s0) (simp_all add: pid_do_ok assms(1))
  then have s: "pid_ok A s"
    using pid_new_ok [OF assms] unfolding s_def by blast
  note facts = pid_compute_sum [OF assms(1) s, of now] pid_compute_out [OF assms(1) s, of now]
  show ?thesis
    unfolding s_def [symmetric] Let_def
    using s facts ieeeD(2,4) [OF assms(1), of "pdMin s" "pdMax s"] by (auto simp: pid_ok_def within_def)
qed

text \<open>The witnesses compute with integers, and \<open>None\<close> for NaN.\<close>

definition nan_lift :: "(int \<Rightarrow> int \<Rightarrow> int) \<Rightarrow> int option \<Rightarrow> int option \<Rightarrow> int option" where
  "nan_lift f x y = (case (x, y) of (Some a, Some b) \<Rightarrow> Some (f a b) | _ \<Rightarrow> None)"

definition demo_arith :: "int option arith" where
  "demo_arith = \<lparr>fAdd = nan_lift (+), fSub = nan_lift (-), fMul = nan_lift (*),
     fDiv = nan_lift (div), fNeg = map_option uminus, fNum = Some,
     fLt = (\<lambda>x y. case (x, y) of (Some a, Some b) \<Rightarrow> a < b | _ \<Rightarrow> False),
     fLe = (\<lambda>x y. case (x, y) of (Some a, Some b) \<Rightarrow> a \<le> b | _ \<Rightarrow> False)\<rparr>"

lemma ieee_demo: "ieee demo_arith" "is_num demo_arith x \<longleftrightarrow> x \<noteq> None"
  by (auto simp: ieee_def is_num_def demo_arith_def split: option.splits)

theorem pid_bounded_witness:
  "let s = fold (pid_do demo_arith) [PMode AUTOMATIC, PSetpoint (Some 900), PLimits (Some 10) (Some 100)]
      (pid_new demo_arith 1000 (Some 0) (Some 0) (Some 0) (Some 2) (Some 0) (Some 0) P_ON_E DIRECT);
      c = pid_compute demo_arith 2000 s
   in within demo_arith (pdMin s) (pdMax s) (pdSum s) \<and> (fst c \<longrightarrow> within demo_arith (pdMin s) (pdMax s) (pdOut (snd c)))"
  using pid_bounded [of demo_arith "[PMode AUTOMATIC, PSetpoint (Some 900), PLimits (Some 10) (Some 100)]" 1000 "Some 0" "Some 0"
      "Some 0" "Some 2" "Some 0" "Some 0" P_ON_E DIRECT 2000] ieee_demo(1)
  unfolding Let_def by (simp add: demo_arith_def)

text \<open>
  A NaN stays. In an arithmetic whose sums, differences and products with a NaN are NaN, the sum is NaN after a run that
  computes with a NaN input, and from then on whatever is read, set and computed, and every computed output is NaN, until
  the mode is switched off and on again.
\<close>

definition nan_spreads :: "'f arith \<Rightarrow> bool" where
  "nan_spreads A \<longleftrightarrow> (\<forall>x y. \<not> is_num A x \<or> \<not> is_num A y \<longrightarrow>
    \<not> is_num A (fAdd A x y) \<and> \<not> is_num A (fSub A x y) \<and> \<not> is_num A (fMul A x y))"

lemma nan_spreadsD:
  assumes "nan_spreads A" "\<not> is_num A x \<or> \<not> is_num A y"
  shows "\<not> is_num A (fAdd A x y)" "\<not> is_num A (fSub A x y)" "\<not> is_num A (fMul A x y)"
  using assms by (auto simp: nan_spreads_def)

lemma limit_nan: "ieee A \<Longrightarrow> \<not> is_num A x \<Longrightarrow> limit A lo hi x = x"
  by (auto simp: limit_def ieeeD(4) dest: ieeeD(1))

lemma pid_compute_nan:
  assumes "ieee A" "nan_spreads A" "fst (pid_compute A now s)" "\<not> is_num A (pdIn s) \<or> \<not> is_num A (pdSum s)"
  shows "\<not> is_num A (pdSum (snd (pid_compute A now s))) \<and> \<not> is_num A (pdOut (snd (pid_compute A now s)))"
proof -
  note nan = nan_spreadsD [OF assms(2)]
  define sm where "sm = fAdd A (pdSum s) (fMul A (pdKi s) (fSub A (pdSet s) (pdIn s)))"
  define sm' where "sm' = (if pdPOn s = P_ON_M then fSub A sm (fMul A (pdKp s) (fSub A (pdIn s) (pdLastIn s))) else sm)"
  have "\<not> is_num A sm"
    using assms(4) nan unfolding sm_def by metis
  then have sm': "\<not> is_num A sm'"
    using nan unfolding sm'_def by auto
  define out where "out = fAdd A (if pdPOn s = P_ON_E then fMul A (pdKp s) (fSub A (pdSet s) (pdIn s)) else fNum A 0)
      (fSub A sm' (fMul A (pdKd s) (fSub A (pdIn s) (pdLastIn s))))"
  have out: "\<not> is_num A out"
    using sm' nan unfolding out_def by metis
  have "pdSum (snd (pid_compute A now s)) = limit A (pdMin s) (pdMax s) sm'"
    "pdOut (snd (pid_compute A now s)) = limit A (pdMin s) (pdMax s)
       (fAdd A (if pdPOn s = P_ON_E then fMul A (pdKp s) (fSub A (pdSet s) (pdIn s)) else fNum A 0)
      (fSub A (limit A (pdMin s) (pdMax s) sm') (fMul A (pdKd s) (fSub A (pdIn s) (pdLastIn s)))))"
    using assms(3) by (simp_all add: pid_compute_def Let_def sm'_def sm_def split: if_splits)
  then show ?thesis
    using limit_nan [OF assms(1) sm'] limit_nan [OF assms(1) out] sm' out by (simp add: out_def)
qed

fun not_mode :: "'f pid_op \<Rightarrow> bool" where
  "not_mode (PMode m) = False"
| "not_mode _ = True"

lemma pid_do_nan:
  assumes "ieee A" "nan_spreads A" "\<not> is_num A (pdSum s)" "not_mode op"
  shows "\<not> is_num A (pdSum (pid_do A op s))"
proof (cases op)
  case (PCompute now)
  then show ?thesis
    using assms(3) pid_compute_nan [OF assms(1,2), of now s]
    by (cases "fst (pid_compute A now s)") (auto simp: pid_compute_def Let_def split: if_splits)
next
  case (PLimits mn mx)
  then show ?thesis
    using assms(3) limit_nan [OF assms(1,3)] by (simp add: SetOutputLimits_def)
qed (use assms(3,4) in \<open>simp_all add: SetTunings_def SetSampleTime_def SetControllerDirection_def Let_def\<close>)

theorem pid_nan_sticks:
  assumes "ieee A" "nan_spreads A" "fst (pid_compute A t s)" "\<not> is_num A (pdIn s)" "\<forall>op\<in>set ops. not_mode op"
  defines "u \<equiv> fold (pid_do A) ops (snd (pid_compute A t s))"
  shows "\<not> is_num A (pdSum u) \<and> (fst (pid_compute A now u) \<longrightarrow> \<not> is_num A (pdOut (snd (pid_compute A now u))))"
proof -
  have "\<not> is_num A (pdSum (fold (pid_do A) ops s0))" if "\<not> is_num A (pdSum s0)" for s0
    using that assms(5) by (induction ops arbitrary: s0) (simp_all add: pid_do_nan assms(1,2))
  then have "\<not> is_num A (pdSum u)"
    using pid_compute_nan [OF assms(1-3)] assms(4) unfolding u_def by blast
  then show ?thesis
    using pid_compute_nan [OF assms(1,2), of now u] by blast
qed

text \<open>The controller is a rate: its word arithmetic does not wrap while the clock is below \<open>2 ^ 62\<close>.\<close>

definition pid_timed :: "int \<Rightarrow> 'f pid \<Rightarrow> bool" where
  "pid_timed t s \<longleftrightarrow> pdMode s \<noteq> MANUAL \<and> 0 < pdSample s \<and> pdSample s < 2 ^ 31 \<and> sint (pdLast s) \<le> t \<and>
     - (2 ^ 32) \<le> sint (pdLast s) \<and> t < 2 ^ 62"

definition pid_due :: "'f pid \<Rightarrow> int" where
  "pid_due s = sint (pdLast s) + pdSample s"

lemma sint_u64: "- (2 ^ 63) \<le> x \<Longrightarrow> x < 2 ^ 63 \<Longrightarrow> sint (of_int x :: u64) = x"
  by (simp add: sint_sbintrunc' signed_take_bit_int_eq_self)

lemma uint_u64: "0 \<le> x \<Longrightarrow> x < 2 ^ 64 \<Longrightarrow> uint (of_int x :: u64) = x"
  by (simp add: uint_word_of_int_eq take_bit_int_eq_self)

lemma elapsed_cmp:
  assumes "pid_timed t s"
  shows "of_int t - pdLast s < of_int (pdSample s) \<longleftrightarrow> t < pid_due s"
proof -
  have "of_int t - pdLast s = (of_int (t - sint (pdLast s)) :: u64)"
    by simp
  moreover have "uint (of_int (t - sint (pdLast s)) :: u64) = t - sint (pdLast s)"
    using assms by (intro uint_u64) (simp_all add: pid_timed_def)
  moreover have "uint (of_int (pdSample s) :: u64) = pdSample s"
    using assms by (intro uint_u64) (simp_all add: pid_timed_def)
  ultimately show ?thesis
    by (simp only: word_less_def pid_due_def) linarith
qed

lemma pid_compute_fires: "pid_timed t s \<Longrightarrow> fst (pid_compute A t s) \<longleftrightarrow> pid_due s \<le> t"
  using elapsed_cmp [of t s] by (simp add: pid_compute_def Let_def pid_timed_def)

lemma pid_compute_last:
  "pdLast (snd (pid_compute A t s)) = (if fst (pid_compute A t s) then of_int t else pdLast s)"
  by (simp add: pid_compute_def Let_def)

interpretation pid_rate: spaced pid_timed pid_due pdSample "pid_compute A" for A :: "'a arith"
proof unfold_locales
  fix t and s :: "'a pid"
  assume t: "pid_timed t s"
  then have "- (2 ^ 63) \<le> t" "t < 2 ^ 63"
    by (simp_all add: pid_timed_def)
  then have sint: "sint (of_int t :: u64) = t"
    by (rule sint_u64)
  show "pid_timed t (snd (pid_compute A t s)) \<and> pdSample (snd (pid_compute A t s)) = pdSample s"
    using t sint by (auto simp: pid_timed_def pid_compute_last)
  show "pid_due s \<le> t \<and> pid_due (snd (pid_compute A t s)) = t + pdSample s" if "fst (pid_compute A t s)"
    using that t sint by (simp add: pid_compute_fires pid_due_def pid_compute_last)
  show "t < pid_due s \<and> pid_due (snd (pid_compute A t s)) = pid_due s" if "\<not> fst (pid_compute A t s)"
    using that pid_compute_fires [OF t, of A] by (simp add: pid_due_def pid_compute_last)
qed (auto simp: pid_timed_def)

text \<open>
  In automatic mode, polled at any times in order, the controller computes at times at least its sample time apart, and never
  misses a poll at which a sample time has passed.
\<close>

theorem pid_sample_time:
  assumes "pid_timed t0 s" "sorted (t0 # ts)" "\<forall>t\<in>set ts. t < 2 ^ 62"
  shows "sorted_wrt (\<lambda>a b. a + pdSample s \<le> b) (fired (pid_compute A) ts s) \<and>
      (pid_due s \<le> t0 \<longrightarrow> fst (pid_compute A t0 s))"
  using pid_rate.fired_spaced [OF assms, of A] pid_rate.fires_when_due [OF assms(1), of A] by blast

definition demo_pid :: "int option pid" where
  "demo_pid = SetMode demo_arith AUTOMATIC
     (pid_new demo_arith 1000 (Some 0) (Some 0) (Some 0) (Some 2) (Some 0) (Some 0) P_ON_E DIRECT)"

lemma demo_pid_timed: "pid_timed 1000 demo_pid" "pdSample demo_pid = 100" "pid_due demo_pid = 1000"
  by (simp_all add: pid_timed_def demo_pid_def pid_new_def pid_reverse_def SetMode_def Let_def pid_due_def)

text \<open>A reading of NaN, and a good one a second later: the output is NaN.\<close>

theorem pid_nan_sticks_witness:
  "\<not> is_num demo_arith (pdOut (snd (pid_compute demo_arith 2000
      (fold (pid_do demo_arith) [PInput (Some 5)] (snd (pid_compute demo_arith 1000 (demo_pid\<lparr>pdIn := None\<rparr>)))))))"
proof -
  have ops [simp]: "fAdd demo_arith = nan_lift (+)" "fSub demo_arith = nan_lift (-)" "fMul demo_arith = nan_lift (*)"
    by (simp_all add: demo_arith_def)
  have "nan_spreads demo_arith"
    by (auto simp: nan_spreads_def ieee_demo(2) nan_lift_def split: option.splits)
  moreover have "fst (pid_compute demo_arith 1000 (demo_pid\<lparr>pdIn := None\<rparr>))"
    "fst (pid_compute demo_arith 2000 (fold (pid_do demo_arith) [PInput (Some 5)]
      (snd (pid_compute demo_arith 1000 (demo_pid\<lparr>pdIn := None\<rparr>)))))"
    by (simp_all add: pid_compute_def demo_pid_def pid_new_def pid_reverse_def SetMode_def Let_def)
  ultimately have s: "nan_spreads demo_arith" "fst (pid_compute demo_arith 1000 (demo_pid\<lparr>pdIn := None\<rparr>))"
    "fst (pid_compute demo_arith 2000 (fold (pid_do demo_arith) [PInput (Some 5)]
      (snd (pid_compute demo_arith 1000 (demo_pid\<lparr>pdIn := None\<rparr>)))))"
    by blast+
  show ?thesis
    using pid_nan_sticks [OF ieee_demo(1) s(1,2), of "[PInput (Some 5)]" 2000] s(3) by (simp add: ieee_demo)
qed

theorem pid_sample_time_witness:
  "sorted_wrt (\<lambda>a b. a + pdSample demo_pid \<le> b) (fired (pid_compute demo_arith) [1000, 1050, 1120] demo_pid) \<and>
    (pid_due demo_pid \<le> 1000 \<longrightarrow> fst (pid_compute demo_arith 1000 demo_pid))"
  by (rule pid_sample_time) (simp_all add: demo_pid_timed)

section \<open>Gains\<close>

text \<open>
  With exact arithmetic \<open>GetKi\<close> and \<open>GetKd\<close> return what \<open>SetTunings\<close> was given in the direction of the controller; after
  construction, which does not scale the gains, ten times the integral gain and a tenth of the derivative one; and turning
  the direction changes the sign of all that is read back, though not of the gains in use.
\<close>

theorem pid_gains:
  fixes s :: "'f::linordered_field pid" and now i out sp pOn
  assumes "0 \<le> kp" "0 \<le> ki" "0 \<le> kd" "0 < pdSample s" "pdDir s \<in> {DIRECT, REVERSE}" "direction \<in> {DIRECT, REVERSE}"
  defines "t \<equiv> SetTunings exact kp ki kd pOn s" and "u \<equiv> pid_new exact now i out sp kp ki kd pOn direction"
  shows "GetKp exact t = kp \<and> GetKi exact t = ki \<and> GetKd exact t = kd \<and>
      GetKp exact u = kp \<and> GetKi exact u = 10 * ki \<and> GetKd exact u = kd / 10 \<and>
      GetKp exact (SetControllerDirection (1 - pdDir s) t) = - kp \<and> pdKp (SetControllerDirection (1 - pdDir s) t) = pdKp t"
proof -
  have [simp]: "fAdd exact = ((+) :: 'f \<Rightarrow> _)" "fSub exact = ((-) :: 'f \<Rightarrow> _)" "fMul exact = ((*) :: 'f \<Rightarrow> _)"
    "fDiv exact = ((/) :: 'f \<Rightarrow> _)" "fNeg exact = (uminus :: 'f \<Rightarrow> _)" "fNum exact = (of_int :: int \<Rightarrow> 'f)"
    "fLt exact = ((<) :: 'f \<Rightarrow> _)"
    by (simp_all add: exact_def)
  have p: "(of_int (pdSample s) :: 'f) \<noteq> 0"
    using assms(4) by simp
  show ?thesis
    using assms p
    by (auto simp: t_def u_def SetTunings_def pid_new_def pid_reverse_def GetKp_def GetKi_def GetKd_def SetControllerDirection_def Let_def)
qed

text \<open>
  Turned on while its output is within the limits and its input at the set point, the controller (proportional on the error,
  exact arithmetic) computes the output it found: it takes over without a bump.
\<close>

theorem pid_takes_over:
  fixes s :: "'f::linordered_field pid"
  assumes "pdMode s = MANUAL" "pdMin s \<le> pdOut s" "pdOut s \<le> pdMax s" "pdIn s = pdSet s"
    and "fst (pid_compute exact now (SetMode exact AUTOMATIC s))"
  shows "pdOut (snd (pid_compute exact now (SetMode exact AUTOMATIC s))) = pdOut s"
  using assms by (simp add: pid_compute_def SetMode_def Let_def limit_id exact_def split: if_splits)

section \<open>The ticker\<close>

definition ticker_timed :: "int \<Rightarrow> ticker \<Rightarrow> bool" where
  "ticker_timed t s \<longleftrightarrow> tkRunning s \<and> \<not> tkOnce s \<and> tkWake s \<noteq> None"

interpretation ticker_rate: spaced ticker_timed "\<lambda>s. the (tkWake s)" "\<lambda>s. max 0 (tkInterval s)" ticker_loop
  by unfold_locales (auto simp: ticker_timed_def ticker_loop_def ticker_start_def Let_def split: option.splits if_splits)

text \<open>
  The callback of a periodic ticker first runs an interval after it was attached, and its runs are at least an interval apart,
  whenever the thread is scheduled; it runs whenever the thread is scheduled an interval later.
\<close>

theorem ticker_period:
  fixes ms cb s0
  assumes "sorted (t0 # ts)" "\<forall>t\<in>set ts. t < 2 ^ 62"
  defines "s \<equiv> attach_ms t0 ms cb s0" and "iv \<equiv> max 0 (sint ms)"
  shows "sorted_wrt (\<lambda>a b. a + iv \<le> b) (fired ticker_loop ts s) \<and> (\<forall>t\<in>set (fired ticker_loop ts s). t0 + iv \<le> t) \<and>
      (\<forall>t. t0 + iv \<le> t \<longrightarrow> fst (ticker_loop t s))"
proof -
  have s: "ticker_timed t s" "max 0 (tkInterval s) = iv" "the (tkWake s) = t0 + iv" for t
    by (simp_all add: s_def iv_def attach_ms_def ticker_start_def ticker_detach_def ticker_timed_def Let_def)
  show ?thesis
    using ticker_rate.fired_spaced [OF s(1) assms(1,2)] ticker_rate.fires_when_due [OF s(1)] s by auto
qed

theorem ticker_period_witness:
  "sorted_wrt (\<lambda>a b. a + max 0 (sint (50 :: u32)) \<le> b) (fired ticker_loop [20, 60, 130] (attach_ms 0 50 None ticker_new)) \<and>
    (\<forall>t\<in>set (fired ticker_loop [20, 60, 130] (attach_ms 0 50 None ticker_new)). 0 + max 0 (sint (50 :: u32)) \<le> t) \<and>
    (\<forall>t. 0 + max 0 (sint (50 :: u32)) \<le> t \<longrightarrow> fst (ticker_loop t (attach_ms 0 50 None ticker_new)))"
  by (rule ticker_period) simp_all

text \<open>
  The callback of \<open>once_ms\<close> runs at the first time the thread is scheduled an interval later, never again, and the ticker is then
  inactive with a count of one.
\<close>

lemma ticker_quiet: "tkWake s = None \<Longrightarrow> fired ticker_loop ts s = [] \<and> ticker_runs ts s = s"
  by (induction ts) (simp_all add: ticker_loop_def)

theorem ticker_once:
  fixes t0 ms cb s0
  defines "w \<equiv> t0 + max 0 (sint ms)" and "s \<equiv> once_ms t0 ms cb s0"
  shows "fired ticker_loop ts s = take 1 (dropWhile (\<lambda>t. t < w) ts) \<and>
      (ticker_active (ticker_runs ts s) \<longleftrightarrow> (\<forall>t\<in>set ts. t < w)) \<and>
      tkCount (ticker_runs ts s) = of_nat (length (fired ticker_loop ts s))"
proof -
  have s: "tkWake s = Some w" "tkRunning s" "tkOnce s" "tkCount s = 0"
    by (simp_all add: w_def s_def once_ms_def ticker_start_def ticker_detach_def Let_def)
  show ?thesis
  proof (induction ts)
    case (Cons t ts)
    show ?case
    proof (cases "t < w")
      case True
      then show ?thesis
        using Cons s by (simp add: ticker_loop_def)
    next
      case False
      define u where "u = s\<lparr>tkCount := tkCount s + 1, tkRunning := False, tkWake := None\<rparr>"
      have "ticker_loop t s = (True, u)" "tkWake u = None"
        using False s by (simp_all add: ticker_loop_def u_def)
      then show ?thesis
        using False ticker_quiet [of u ts] s by (auto simp: u_def ticker_active_def)
    qed
  qed (simp add: s ticker_active_def)
qed

section \<open>PWM channels\<close>

lemma byte_sign: "0 \<le> sint (p :: byte) \<longleftrightarrow> p < 128"
proof -
  have "0 \<le> uint p" "uint p < 256"
    using uint_lt2p [of p] by simp_all
  then have "uint p div 128 = (if uint p < 128 then 0 else 1)"
    by (simp add: div_pos_pos_trivial) presburger
  then show ?thesis
    by (simp add: sint_uint word_less_def bit_iff_odd)
qed

text \<open>A duty written to a channel is read back, and reaches the pin attached to it when that has a number below 128.\<close>

theorem ledc_drives_pin:
  fixes duty pin g
  assumes "length cs = 16" "channel < 16"
  defines "r \<equiv> ledc_write channel duty (ledc_attachPin pin channel cs, g)"
  shows "ledc_read channel (fst r) = duty \<and>
      (pin < 128 \<longrightarrow> pinAnalog (pin_of (snd r) pin) = sint duty \<and> pinDigital (pin_of (snd r) pin) = (if 0 < sint duty then 1 else 0)) \<and>
      (128 \<le> pin \<longrightarrow> snd r = g)"
proof -
  have c: "unat channel < 16"
    using assms(2) by (simp add: word_less_nat_alt)
  have n: "\<not> 16 \<le> channel"
    using assms(2) by simp
  have r: "r = (cs[unat channel := (cs ! unat channel)\<lparr>lePin := pin, leDuty := duty\<rparr>],
      if pin < 128 then analogWrite g pin (sint duty) else g)"
    using assms(1) c n by (simp add: r_def ledc_write_def ledc_attachPin_def Let_def byte_sign)
  show ?thesis
    unfolding r by (cases "pin < 128") (use assms(1) c n in \<open>simp_all add: ledc_read_def analogWrite_def\<close>)
qed

text \<open>A tone sets the duty of its channel to a half and leaves the pins alone: nothing is heard on the attached pin.\<close>

theorem ledc_tone:
  assumes "length cs = 16" "channel < 16" "leBits (cs ! unat channel) < 31"
  shows "\<exists>cs'. ledc_writeTone channel freq cs = Some cs' \<and> ledc_readFreq channel cs' = freq \<and>
      ledc_read channel cs' = (if freq > 0 then of_int (2 ^ unat (leBits (cs ! unat channel)) div 2) else 0)"
proof -
  have c: "unat channel < 16" "unat (leBits (cs ! unat channel)) < 31"
    using assms(2,3) by (simp_all add: word_less_nat_alt)
  moreover have "\<not> 16 \<le> channel"
    using assms(2) by simp
  ultimately show ?thesis
    using assms(1) by (simp add: ledc_writeTone_def half_duty_def ledc_readFreq_def ledc_read_def Let_def)
qed

text \<open>A pin that was detached is driven by no channel, whatever is written afterwards.\<close>

theorem ledc_detached:
  assumes "length cs = 16" "pin < 128"
  shows "pin_of (snd (fold (\<lambda>(ch, d). ledc_write ch d) ws (ledc_detachPin pin cs, g))) pin = pin_of g pin"
proof -
  have pin: "pin \<noteq> - 1"
  proof
    assume "pin = - 1"
    moreover have "\<not> (- 1 :: byte) < 128"
      by simp
    ultimately show False
      using assms(2) by simp
  qed
  define off where "off c \<longleftrightarrow> lePin c \<noteq> pin" for c :: "'a ledc"
  have one: "length (fst (ledc_write ch d (cs, g))) = 16 \<and> list_all off (fst (ledc_write ch d (cs, g))) \<and>
      pin_of (snd (ledc_write ch d (cs, g))) pin = pin_of g pin"
    if "length cs = 16" "list_all off cs" for ch d cs g
  proof (cases "ch < 16")
    case True
    then have c: "unat ch < 16"
      by (simp add: word_less_nat_alt)
    then have off: "pin \<noteq> lePin (cs ! unat ch)"
      using that by (auto simp: list_all_length off_def)
    have "ledc_write ch d (cs, g) = (cs[unat ch := (cs ! unat ch)\<lparr>leDuty := d\<rparr>],
        if 0 \<le> sint (lePin (cs ! unat ch)) then analogWrite g (lePin (cs ! unat ch)) (sint d) else g)"
      using True c that by (simp add: ledc_write_def Let_def not_le [symmetric])
    then show ?thesis
      using c that off by (simp add: analogWrite_def off_def list_all_length nth_list_update)
  qed (use that in \<open>simp add: ledc_write_def not_less\<close>)
  have "pin_of (snd (fold (\<lambda>(ch, d). ledc_write ch d) ws (cs, g))) pin = pin_of g pin"
    if "length cs = 16" "list_all off cs" for cs g
    using that
  proof (induction ws arbitrary: cs g)
    case (Cons w ws)
    obtain ch d where w: "w = (ch, d)"
      by fastforce
    obtain cs' g' where r: "ledc_write ch d (cs, g) = (cs', g')"
      by fastforce
    show ?case
      using Cons.IH [of cs' g'] one [OF Cons.prems, of ch d g] r w by simp
  qed simp
  moreover have "list_all off (ledc_detachPin pin cs)"
    using pin by (auto simp: ledc_detachPin_def off_def list_all_length)
  ultimately show ?thesis
    using assms(1) by (simp add: ledc_detachPin_def)
qed

end
