(* ===== verification/Ring_Buffer.thy ===== *)
theory Ring_Buffer
  imports Interfaces
begin

text \<open>
  ESP-IDF ring buffers, \<open>src/include/freertos/ringbuf.h\<close>: a queue of items for the no-split
  and allow-split types, one byte stream for the byte-buffer type, and \<open>usedBytes\<close> (a
  \<open>size_t\<close>, here \<open>u64\<close>) that counts the payload in either. The lemmas show that the
  counter always equals the payload held, that it never passes \<open>maxSize\<close>, and that payload
  comes out in order, by items or as one block according to the type.
\<close>

section \<open>State and operations\<close>

datatype ringbuf_type = RINGBUF_TYPE_NOSPLIT | RINGBUF_TYPE_ALLOWSPLIT | RINGBUF_TYPE_BYTEBUF | RINGBUF_TYPE_MAX

record ringbuf =
  rbType :: ringbuf_type
  maxSize :: u64
  usedBytes :: u64
  rbItems :: "byte list list"
  byteStream :: "byte list"

definition xRingbufferCreate :: "u64 \<Rightarrow> ringbuf_type \<Rightarrow> ringbuf" where
  "xRingbufferCreate bufSize type =
    \<lparr>rbType = type, maxSize = bufSize, usedBytes = 0, rbItems = [], byteStream = []\<rparr>"

definition vRingbufferDelete :: "nat \<Rightarrow> (nat \<rightharpoonup> ringbuf) \<Rightarrow> (nat \<rightharpoonup> ringbuf)" where
  "vRingbufferDelete handle hp = hp(handle := None)"

text \<open>\<open>data\<close> is the caller's range \<open>[data, data + len)\<close>.\<close>

definition xRingbufferSend :: "ringbuf \<Rightarrow> byte list \<Rightarrow> int \<times> ringbuf" where
  "xRingbufferSend rb data =
    (let len = (word_of_nat (length data) :: u64) in
     if usedBytes rb + len > maxSize rb then (pdFALSE, rb)
     else let rb' = (if rbType rb = RINGBUF_TYPE_BYTEBUF
                     then rb\<lparr>byteStream := byteStream rb @ data\<rparr>
                     else rb\<lparr>rbItems := rbItems rb @ [data]\<rparr>)
          in (pdTRUE, rb'\<lparr>usedBytes := usedBytes rb' + len\<rparr>))"

text \<open>The block returned (\<open>None\<close> for \<open>nullptr\<close>); its length is what \<open>*itemSize\<close> gets.\<close>

definition xRingbufferReceive :: "ringbuf \<Rightarrow> byte list option \<times> ringbuf" where
  "xRingbufferReceive rb =
    (if rbType rb = RINGBUF_TYPE_BYTEBUF then
       if byteStream rb = [] then (None, rb)
       else let sz = (word_of_nat (length (byteStream rb)) :: u64)
            in (Some (byteStream rb), rb\<lparr>byteStream := [], usedBytes := usedBytes rb - sz\<rparr>)
     else (case rbItems rb of
             [] \<Rightarrow> (None, rb)
           | front # rest \<Rightarrow>
               let sz = (word_of_nat (length front) :: u64)
               in (Some front, rb\<lparr>rbItems := rest, usedBytes := usedBytes rb - sz\<rparr>)))"

definition xRingbufferGetCurFreeSize :: "ringbuf \<Rightarrow> u64" where
  "xRingbufferGetCurFreeSize rb = maxSize rb - usedBytes rb"

definition xRingbufferCreateStatic :: "u64 \<Rightarrow> ringbuf_type \<Rightarrow> ringbuf" where
  "xRingbufferCreateStatic bufSize type = xRingbufferCreate bufSize type"

section \<open>Invariant\<close>

definition rb_payload :: "ringbuf \<Rightarrow> byte list" where
  "rb_payload rb = (if rbType rb = RINGBUF_TYPE_BYTEBUF then byteStream rb else concat (rbItems rb))"

definition rb_inv :: "ringbuf \<Rightarrow> bool" where
  [inv_simps]: "rb_inv rb \<longleftrightarrow> unat (usedBytes rb) = length (rb_payload rb) \<and>
    usedBytes rb \<le> maxSize rb"

text \<open>A single transfer is far smaller than the address space, so \<open>usedBytes + len\<close> does not wrap.\<close>

definition rb_len_ok :: "ringbuf \<Rightarrow> byte list \<Rightarrow> bool" where
  "rb_len_ok rb d \<longleftrightarrow> unat (maxSize rb) + length d < 2 ^ 64"

lemma unat_add_len:
  assumes "unat (u :: u64) + n < 2 ^ 64"
  shows "unat (u + word_of_nat n) = unat u + n"
proof -
  have "unat (word_of_nat n :: u64) = n"
    using assms by (simp add: unat_of_nat take_bit_nat_eq_self)
  with assms show ?thesis by (subst unat_add_no_wrap) simp_all
qed

lemma unat_sub_len:
  assumes "unat (u :: u64) = n + k"
  shows "unat (u - word_of_nat n) = k"
proof -
  have lt: "n < 2 ^ 64"
    using assms unat_bound [of u] by simp
  then have n: "unat (word_of_nat n :: u64) = n"
    by (simp add: unat_of_nat take_bit_nat_eq_self)
  then have "(word_of_nat n :: u64) \<le> u"
    using assms by (simp add: word_le_nat_alt)
  then show ?thesis
    using n assms by (simp add: unat_sub)
qed

lemma rb_send_accepts:
  assumes "rb_inv rb" "rb_len_ok rb d"
  shows "xRingbufferSend rb d =
    (if length (rb_payload rb) + length d \<le> unat (maxSize rb)
     then (pdTRUE, if rbType rb = RINGBUF_TYPE_BYTEBUF
             then rb\<lparr>byteStream := byteStream rb @ d, usedBytes := usedBytes rb + word_of_nat (length d)\<rparr>
             else rb\<lparr>rbItems := rbItems rb @ [d], usedBytes := usedBytes rb + word_of_nat (length d)\<rparr>)
     else (pdFALSE, rb))"
proof -
  have "unat (usedBytes rb) \<le> unat (maxSize rb)"
    using assms(1) by (simp add: inv_simps word_le_nat_alt)
  with assms(2) have "unat (usedBytes rb + word_of_nat (length d)) = unat (usedBytes rb) + length d"
    by (intro unat_add_len) (simp add: rb_len_ok_def)
  then have "usedBytes rb + word_of_nat (length d) > maxSize rb \<longleftrightarrow>
      \<not> length (rb_payload rb) + length d \<le> unat (maxSize rb)"
    using assms(1) by (simp add: inv_simps word_less_nat_alt not_le)
  then show ?thesis by (simp add: xRingbufferSend_def Let_def)
qed

lemma rb_send_inv:
  assumes "rb_inv rb" "rb_len_ok rb d" "xRingbufferSend rb d = (r, rb')"
  shows "rb_inv rb' \<and> maxSize rb' = maxSize rb \<and> rbType rb' = rbType rb \<and>
    rb_payload rb' = rb_payload rb @ (if r = pdTRUE then d else [])"
proof (cases "length (rb_payload rb) + length d \<le> unat (maxSize rb)")
  case True
  have "unat (usedBytes rb + word_of_nat (length d)) = unat (usedBytes rb) + length d"
    using assms(1,2) True by (intro unat_add_len) (simp add: rb_len_ok_def inv_simps)
  with True assms rb_send_accepts [OF assms(1,2)] show ?thesis
    by (auto simp: inv_simps rb_payload_def word_le_nat_alt split: if_splits)
next
  case False
  with assms rb_send_accepts [OF assms(1,2)] show ?thesis by simp
qed

lemma rb_receive_inv:
  assumes "rb_inv rb" "xRingbufferReceive rb = (out, rb')"
  shows "rb_inv rb' \<and> maxSize rb' = maxSize rb \<and> rbType rb' = rbType rb \<and>
    rb_payload rb = (case out of None \<Rightarrow> [] | Some d \<Rightarrow> d) @ rb_payload rb'"
proof -
  have le: "unat (usedBytes rb) \<le> unat (maxSize rb)"
    using assms(1) by (simp add: inv_simps word_le_nat_alt)
  show ?thesis
  proof (cases "rbType rb = RINGBUF_TYPE_BYTEBUF")
    case True
    then have "unat (usedBytes rb) = length (byteStream rb) + 0"
      using assms(1) by (simp add: inv_simps rb_payload_def)
    note sub = unat_sub_len [OF this]
    with True assms show ?thesis
      by (auto simp: xRingbufferReceive_def inv_simps rb_payload_def word_le_nat_alt Let_def
               split: if_splits)
  next
    case False
    show ?thesis
    proof (cases "rbItems rb")
      case Nil
      with False assms show ?thesis
        by (auto simp: xRingbufferReceive_def rb_payload_def)
    next
      case (Cons front rest)
      then have "unat (usedBytes rb) = length front + length (concat rest)"
        using assms(1) False by (simp add: inv_simps rb_payload_def)
      note sub = unat_sub_len [OF this]
      with False Cons assms le show ?thesis
        by (auto simp: xRingbufferReceive_def inv_simps rb_payload_def word_le_nat_alt Let_def)
    qed
  qed
qed

section \<open>Runs\<close>

datatype ringbuf_op = RbSend "byte list" | RbReceive

fun ringbuf_log :: "ringbuf_op \<Rightarrow> ringbuf \<times> byte list \<times> byte list \<Rightarrow> ringbuf \<times> byte list \<times> byte list" where
  "ringbuf_log (RbSend d) (rb, acc, del) =
    (case xRingbufferSend rb d of
       (r, rb') \<Rightarrow> (rb', if r = pdTRUE then acc @ d else acc, del))"
| "ringbuf_log RbReceive (rb, acc, del) =
    (case xRingbufferReceive rb of
       (out, rb') \<Rightarrow> (rb', acc, del @ (case out of None \<Rightarrow> [] | Some d \<Rightarrow> d)))"

fun ringbuf_op_ok :: "u64 \<Rightarrow> ringbuf_op \<Rightarrow> bool" where
  "ringbuf_op_ok m (RbSend d) \<longleftrightarrow> unat m + length d < 2 ^ 64"
| "ringbuf_op_ok m RbReceive \<longleftrightarrow> True"

definition ringbuf_log_inv :: "u64 \<Rightarrow> ringbuf \<times> byte list \<times> byte list \<Rightarrow> bool" where
  "ringbuf_log_inv m h \<longleftrightarrow> (case h of (rb, acc, del) \<Rightarrow>
     rb_inv rb \<and> maxSize rb = m \<and> acc = del @ rb_payload rb)"

lemma ringbuf_log_step:
  assumes "ringbuf_log_inv m h" "ringbuf_op_ok m op"
  shows "ringbuf_log_inv m (ringbuf_log op h)"
proof (cases h)
  case (fields rb acc del)
  show ?thesis
  proof (cases op)
    case (RbSend d)
    obtain r rb' where r: "xRingbufferSend rb d = (r, rb')" by fastforce
    with assms RbSend fields rb_send_inv [of rb d r rb'] show ?thesis
      by (auto simp: ringbuf_log_inv_def rb_len_ok_def split: if_splits)
  next
    case RbReceive
    obtain out rb' where r: "xRingbufferReceive rb = (out, rb')" by fastforce
    with assms RbReceive fields rb_receive_inv [of rb out rb'] show ?thesis
      by (auto simp: ringbuf_log_inv_def split: option.splits)
  qed
qed

lemma ringbuf_log_start: "ringbuf_log_inv m (xRingbufferCreate m ty, [], [])"
  by (simp add: ringbuf_log_inv_def xRingbufferCreate_def inv_simps rb_payload_def)

interpretation ringbuf_hist: step_system
  "\<lambda>h. \<exists>ty. h = (xRingbufferCreate m ty, [], [])" "ringbuf_op_ok m" ringbuf_log "ringbuf_log_inv m"
  for m :: u64
  by unfold_locales (auto intro: ringbuf_log_start ringbuf_log_step)

section \<open>Properties\<close>

text \<open>
  C32: over any run of receives and of sends of items whose length and \<open>maxSize\<close> together stay below \<open>2 ^ 64\<close>,
  \<open>usedBytes\<close> is exactly the payload held and never passes \<open>maxSize\<close>, and the payload accepted is the
  payload delivered followed by the payload held, for every buffer type.
\<close>

theorem ringbuf_conserves_payload:
  assumes "list_all (ringbuf_op_ok m) ops"
    and "fold ringbuf_log ops (xRingbufferCreate m ty, [], []) = (rb, acc, del)"
  shows "unat (usedBytes rb) = length (rb_payload rb) \<and> usedBytes rb \<le> m \<and>
    acc = del @ rb_payload rb"
  using ringbuf_hist.inv_run [OF _ assms(1), of "(xRingbufferCreate m ty, [], [])"] assms(2)
  by (auto simp: ringbuf_log_inv_def inv_simps)

theorem ringbuf_conserves_payload_witness:
  "case fold ringbuf_log [RbSend [1, 2], RbSend [3], RbSend [4, 5], RbReceive]
     (xRingbufferCreate 4 RINGBUF_TYPE_NOSPLIT, [], []) of
     (rb, acc, del) \<Rightarrow> unat (usedBytes rb) = length (rb_payload rb) \<and> usedBytes rb \<le> 4 \<and>
       acc = del @ rb_payload rb"
  using ringbuf_conserves_payload
    [of 4 "[RbSend [1, 2], RbSend [3], RbSend [4, 5], RbReceive]" RINGBUF_TYPE_NOSPLIT]
  by (auto split: prod.split)

end
