(* ===== verification/Rtc_Lib.thy ===== *)
theory Rtc_Lib
  imports Http_Text "HOL-Library.Signed_Division"
begin

text \<open>
  Dates and times of \<open>src/include/RTClib.h\<close> and \<open>src/include/DS3231.h\<close>: the calendar of the C
  library (\<open>gmtime\<close>, \<open>mktime\<close>), the conversions of \<open>DateTime\<close> on it, \<open>TimeSpan\<close> and the clock chips.
  The zone of the host is a function of the local time: the number of seconds by which the standard
  time that \<open>mktime\<close> applies to a reading of the local clock is ahead of UTC, which in many zones
  has changed over the years. The lemmas show when the conversions are inverse to each other (where
  that number did not change within itself of the time), that the day of the week is right and what
  the exceptions are.
\<close>

section \<open>The calendar of the C library\<close>

definition leap :: "int \<Rightarrow> bool" where
  "leap y \<longleftrightarrow> y mod 4 = 0 \<and> (y mod 100 \<noteq> 0 \<or> y mod 400 = 0)"

definition leaps_to :: "int \<Rightarrow> int" where
  "leaps_to y = y div 4 - y div 100 + y div 400"

text \<open>The number of days before the first of January of a year, and before a month (from 0) in it.\<close>

definition year_start :: "int \<Rightarrow> int" where
  "year_start y = 365 * y + leaps_to (y - 1)"

definition year_length :: "int \<Rightarrow> int" where
  "year_length y = (if leap y then 366 else 365)"

definition month_starts :: "int list" where
  "month_starts = [0, 31, 59, 90, 120, 151, 181, 212, 243, 273, 304, 334, 365]"

definition month_start :: "int \<Rightarrow> nat \<Rightarrow> int" where
  "month_start y m = month_starts ! m + (if leap y \<and> 2 \<le> m then 1 else 0)"

record tm =
  tm_year :: int
  tm_mon :: int
  tm_mday :: int
  tm_hour :: int
  tm_min :: int
  tm_sec :: int

text \<open>
  Fields out of their range carry over, as \<open>mktime\<close> normalises them; \<open>timegm\<close> is the count of
  seconds since 1970 in UTC, and local time is ahead of it by the zone, which is given for each
  reading of the local clock (as seconds, as if it were UTC) and arbitrary: the rules of the host.
\<close>

definition tm_days :: "tm \<Rightarrow> int" where
  "tm_days t =
    (let y = tm_year t + 1900 + tm_mon t div 12
     in year_start y + month_start y (nat (tm_mon t mod 12)) + tm_mday t - 1)"

definition timegm :: "tm \<Rightarrow> int" where
  "timegm t = (tm_days t - year_start 1970) * 86400 + tm_hour t * 3600 + tm_min t * 60 + tm_sec t"

definition mktime :: "(int \<Rightarrow> int) \<Rightarrow> tm \<Rightarrow> int" where
  "mktime zone t = timegm t - zone (timegm t)"

text \<open>\<open>gmtime\<close> from 1970 on: years and months are counted off the days.\<close>

function find_year :: "int \<Rightarrow> int \<Rightarrow> int \<times> int" where
  "find_year y n = (if n < year_length y then (y, n) else find_year (y + 1) (n - year_length y))"
  by auto
termination
  by (relation "measure (\<lambda>(y, n). nat n)") (auto simp: year_length_def split: if_splits)

declare find_year.simps [simp del]

definition find_month :: "int \<Rightarrow> int \<Rightarrow> nat \<times> int" where
  "find_month y n =
    (let m = length (takeWhile (\<lambda>m. month_start y (Suc m) \<le> n) [0..<11]) in (m, n - month_start y m))"

definition gmtime :: "int \<Rightarrow> tm" where
  "gmtime t =
    (let (y, n) = find_year 1970 (t div 86400); (m, d) = find_month y n; s = t mod 86400
     in \<lparr>tm_year = y - 1900, tm_mon = int m, tm_mday = d + 1,
         tm_hour = s div 3600, tm_min = s mod 3600 div 60, tm_sec = s mod 60\<rparr>)"

section \<open>The calendar is a bijection\<close>

definition month_length :: "int \<Rightarrow> nat \<Rightarrow> int" where
  "month_length y m = month_start y (Suc m) - month_start y m"

text \<open>A broken-down time that names an instant from 1970 on, with no field out of range.\<close>

definition tm_ok :: "tm \<Rightarrow> bool" where
  "tm_ok t \<longleftrightarrow> 70 \<le> tm_year t \<and> 0 \<le> tm_mon t \<and> tm_mon t < 12 \<and> 1 \<le> tm_mday t \<and>
     tm_mday t \<le> month_length (tm_year t + 1900) (nat (tm_mon t)) \<and> 0 \<le> tm_hour t \<and> tm_hour t < 24 \<and>
     0 \<le> tm_min t \<and> tm_min t < 60 \<and> 0 \<le> tm_sec t \<and> tm_sec t < 60"

lemma tm_okI:
  "1970 \<le> y \<Longrightarrow> m < 12 \<Longrightarrow> 0 \<le> d \<Longrightarrow> d < month_length y m \<Longrightarrow> 0 \<le> h \<Longrightarrow> h < 24 \<Longrightarrow>
   0 \<le> i \<Longrightarrow> i < 60 \<Longrightarrow> 0 \<le> s \<Longrightarrow> s < 60 \<Longrightarrow>
   tm_ok \<lparr>tm_year = y - 1900, tm_mon = int m, tm_mday = d + 1, tm_hour = h, tm_min = i, tm_sec = s\<rparr>"
  by (simp add: tm_ok_def)

lemma div_step: "0 < k \<Longrightarrow> y div k = (y - 1) div k + (if y mod k = 0 then 1 else 0)" for y k :: int
proof -
  assume k: "0 < k"
  let ?q = "y div k" and ?r = "y mod k"
  have y: "y = ?q * k + ?r" "0 \<le> ?r" "?r < k"
    using k by simp_all
  show ?thesis
  proof (cases "?r = 0")
    case True
    then have "y - 1 = (k - 1) + (?q - 1) * k"
      using y(1) by (simp add: algebra_simps)
    then have "(y - 1) div k = (k - 1) div k + (?q - 1)"
      using k by (simp only: div_mult_self1)
    also have "(k - 1) div k = 0"
      using k by (intro div_pos_pos_trivial) simp_all
    finally show ?thesis
      using True by simp
  next
    case False
    then have "y - 1 = (?r - 1) + ?q * k"
      using y(1) by simp
    then have "(y - 1) div k = (?r - 1) div k + ?q"
      using k by (simp only: div_mult_self1)
    also have "(?r - 1) div k = 0"
      using y(2,3) False by (intro div_pos_pos_trivial) simp_all
    finally show ?thesis
      using False by simp
  qed
qed

lemma leaps_step: "leaps_to y = leaps_to (y - 1) + (if leap y then 1 else 0)"
proof -
  define A B C where "A \<longleftrightarrow> y mod 4 = 0" and "B \<longleftrightarrow> y mod 100 = 0" and "C \<longleftrightarrow> y mod 400 = 0"
  have "B \<Longrightarrow> A" "C \<Longrightarrow> B"
    using mod_mod_cancel [of 4 100 y] mod_mod_cancel [of 100 400 y] by (simp_all add: A_def B_def C_def)
  then have "(if A then 1 else 0) - (if B then 1 else 0) + (if C then 1 else 0) = (if leap y then 1 else (0 :: int))"
    unfolding leap_def A_def [symmetric] B_def [symmetric] C_def [symmetric] by (cases A; cases B; cases C) simp_all
  moreover have "y div 4 = (y - 1) div 4 + (if A then 1 else 0)" "y div 100 = (y - 1) div 100 + (if B then 1 else 0)"
    "y div 400 = (y - 1) div 400 + (if C then 1 else 0)"
    unfolding A_def B_def C_def by (rule div_step, simp)+
  ultimately show ?thesis
    unfolding leaps_to_def by linarith
qed

lemma year_start_step: "year_start (y + 1) = year_start y + year_length y"
  using leaps_step [of y] by (simp add: year_start_def year_length_def algebra_simps)

lemma year_length_bounds: "365 \<le> year_length y" "year_length y \<le> 366"
  by (simp_all add: year_length_def)

lemma year_start_mono: "y < z \<Longrightarrow> year_start y + year_length y \<le> year_start z"
proof (induction "nat (z - y)" arbitrary: z)
  case (Suc n)
  show ?case
  proof (cases "z = y + 1")
    case False
    then have "year_start y + year_length y \<le> year_start (z - 1)"
      using Suc by (intro Suc.hyps) simp_all
    then show ?thesis
      using year_start_step [of "z - 1"] year_length_bounds [of "z - 1"] by simp
  qed (simp add: year_start_step)
qed simp

lemma find_year_correct:
  "find_year y n = (y', r) \<Longrightarrow> 0 \<le> n \<Longrightarrow>
   year_start y' + r = year_start y + n \<and> 0 \<le> r \<and> r < year_length y' \<and> y \<le> y'"
proof (induction y n rule: find_year.induct)
  case (1 y n)
  show ?case
  proof (cases "n < year_length y")
    case True
    then show ?thesis using 1 by (simp add: find_year.simps)
  next
    case False
    then have "find_year (y + 1) (n - year_length y) = (y', r)"
      using 1(2) by (simp add: find_year.simps [of y n])
    from 1(1) [OF False this] show ?thesis
      using False by (simp add: year_start_step)
  qed
qed

lemma year_unique:
  assumes "year_start y + r = year_start y' + r'" "0 \<le> r" "r < year_length y" "0 \<le> r'" "r' < year_length y'"
  shows "y = y' \<and> r = r'"
  using assms year_start_mono [of y y'] year_start_mono [of y' y] by (cases y y' rule: linorder_cases) auto

lemma find_year_at:
  assumes "0 \<le> r" "r < year_length y" "1970 \<le> y"
  shows "find_year 1970 (year_start y + r - year_start 1970) = (y, r)"
proof -
  obtain y' r' where f: "find_year 1970 (year_start y + r - year_start 1970) = (y', r')"
    by fastforce
  have "year_start 1970 \<le> year_start y"
    using year_start_mono [of 1970 y] year_length_bounds [of 1970] assms(3) by (cases "y = 1970") auto
  with find_year_correct [OF f] assms(1)
  have "year_start y' + r' = year_start y + r" "0 \<le> r'" "r' < year_length y'"
    by simp_all
  from year_unique [OF this(1,2,3) assms(1,2)] f show ?thesis
    by blast
qed
lemma month_starts_nth:
  "month_start y 0 = 0" "month_start y 1 = 31" "month_start y 12 = year_length y"
  "\<not> leap y \<Longrightarrow> map (month_start y) [0..<13] = month_starts"
  "leap y \<Longrightarrow> map (month_start y) [0..<13] = [0, 31, 60, 91, 121, 152, 182, 213, 244, 274, 305, 335, 366]"
  by (simp_all add: month_start_def month_starts_def year_length_def upt_rec)

lemma month_start_step_le: "m < 12 \<Longrightarrow> month_start y m + 28 \<le> month_start y (Suc m)"
  unfolding month_start_def month_starts_def
  by (auto simp: less_Suc_eq numeral_eq_Suc)

lemma month_start_mono: "m < m' \<Longrightarrow> m' \<le> 12 \<Longrightarrow> month_start y m + 28 \<le> month_start y m'"
proof (induction m')
  case (Suc k)
  then show ?case
    using month_start_step_le [of k y] by (cases "m = k") auto
qed simp

lemma find_month_at:
  assumes "m < 12" "0 \<le> d" "d < month_length y m"
  shows "find_month y (month_start y m + d) = (m, d)"
proof -
  have split: "[0..<11] = [0..<m] @ [m..<11]" "m < 11 \<Longrightarrow> [m..<11] = m # [Suc m..<11]" if "m \<le> 11"
    using that upt_add_eq_append [of 0 m "11 - m"] by (simp_all add: upt_conv_Cons)
  have "takeWhile (\<lambda>k. month_start y (Suc k) \<le> month_start y m + d) [0..<11] = [0..<m]"
  proof -
    have before: "month_start y (Suc k) \<le> month_start y m + d" if "k < m" for k
      using that assms(1,2) month_start_mono [of "Suc k" m y] by (cases "Suc k = m") auto
    have "takeWhile (\<lambda>k. month_start y (Suc k) \<le> month_start y m + d) ([0..<m] @ [m..<11]) =
        [0..<m] @ takeWhile (\<lambda>k. month_start y (Suc k) \<le> month_start y m + d) [m..<11]"
      using before by (intro takeWhile_append2) simp
    also have "takeWhile (\<lambda>k. month_start y (Suc k) \<le> month_start y m + d) [m..<11] = []"
      using assms(3) split(2) assms(1) by (cases "m < 11") (simp_all add: month_length_def)
    finally show ?thesis
      using split(1) assms(1) by simp
  qed
  then show ?thesis
    by (simp add: find_month_def)
qed

lemma find_month_correct:
  assumes "find_month y n = (m, d)" "0 \<le> n" "n < year_length y"
  shows "m < 12 \<and> 0 \<le> d \<and> d < month_length y m \<and> month_start y m + d = n"
proof -
  have "(12 :: nat) = Suc 11"
    by simp
  then have n: "n < month_start y (Suc 11)"
    using assms(3) month_starts_nth(3) [of y] by metis
  define k where "k = (LEAST k. n < month_start y (Suc k))"
  have k: "n < month_start y (Suc k)" "k \<le> 11"
    unfolding k_def using n by (rule LeastI, rule Least_le)
  have low: "month_start y k \<le> n"
  proof (cases k)
    case 0
    then show ?thesis using assms(2) month_starts_nth(1) [of y] by simp
  next
    case (Suc j)
    then have "j < (LEAST k. n < month_start y (Suc k))"
      by (simp add: k_def)
    from not_less_Least [OF this] show ?thesis
      using Suc by simp
  qed
  have "find_month y (month_start y k + (n - month_start y k)) = (k, n - month_start y k)"
    using k low by (intro find_month_at) (simp_all add: month_length_def)
  then show ?thesis
    using k low assms(1) by (simp add: month_length_def)
qed

text \<open>\<open>timegm\<close> and \<open>gmtime\<close> are inverse to each other.\<close>

lemma clock_split: "(s :: int) div 3600 * 3600 + s mod 3600 div 60 * 60 + s mod 60 = s"
proof -
  have "s mod 3600 div 60 * 60 + s mod 60 = s mod 3600"
    using div_mult_mod_eq [of "s mod 3600" 60] by (simp add: mod_mod_cancel)
  then have "s div 3600 * 3600 + s mod 3600 div 60 * 60 + s mod 60 = s div 3600 * 3600 + s mod 3600"
    by linarith
  then show ?thesis
    by (simp only: div_mult_mod_eq)
qed

lemma timegm_gmtime:
  assumes "0 \<le> t"
  shows "timegm (gmtime t) = t" "tm_ok (gmtime t)"
proof -
  obtain y n where y: "find_year 1970 (t div 86400) = (y, n)"
    by fastforce
  obtain m d where m: "find_month y n = (m, d)"
    by fastforce
  have "0 \<le> t div 86400"
    using assms by (simp add: pos_imp_zdiv_nonneg_iff)
  from find_year_correct [OF y this] have yy: "year_start y + n = year_start 1970 + t div 86400" "0 \<le> n" "n < year_length y" "1970 \<le> y"
    by simp_all
  from find_month_correct [OF m yy(2,3)] have mm: "m < 12" "0 \<le> d" "d < month_length y m" "month_start y m + d = n"
    by simp_all
  let ?s = "t mod 86400"
  have s: "0 \<le> ?s" "?s < 86400"
    by simp_all
  have g: "gmtime t = \<lparr>tm_year = y - 1900, tm_mon = int m, tm_mday = d + 1,
      tm_hour = ?s div 3600, tm_min = ?s mod 3600 div 60, tm_sec = ?s mod 60\<rparr>"
    by (simp add: gmtime_def y m Let_def)
  have "tm_days (gmtime t) = year_start y + (month_start y m + d)"
    using mm(1) by (simp add: g tm_days_def Let_def)
  then have "tm_days (gmtime t) - year_start 1970 = t div 86400"
    using yy(1) mm(4) by linarith
  moreover have "tm_hour (gmtime t) = ?s div 3600" "tm_min (gmtime t) = ?s mod 3600 div 60" "tm_sec (gmtime t) = ?s mod 60"
    by (simp_all only: g tm.select_convs)
  ultimately have "timegm (gmtime t) = t div 86400 * 86400 + (?s div 3600 * 3600 + ?s mod 3600 div 60 * 60 + ?s mod 60)"
    by (simp only: timegm_def add.assoc)
  then show "timegm (gmtime t) = t"
    by (simp only: clock_split div_mult_mod_eq)
  have "?s div 3600 < 24" "0 \<le> ?s div 3600"
    using s by (simp_all add: div_less_iff_less_mult pos_imp_zdiv_nonneg_iff)
  moreover have "?s mod 3600 div 60 < 60" "0 \<le> ?s mod 3600 div 60"
    by (simp_all add: div_less_iff_less_mult pos_imp_zdiv_nonneg_iff)
  moreover have "0 \<le> ?s mod 60" "?s mod 60 < 60"
    by simp_all
  ultimately show "tm_ok (gmtime t)"
    unfolding g using yy(4) mm(1-3) by (intro tm_okI)
qed

lemma gmtime_timegm:
  assumes "tm_ok t"
  shows "gmtime (timegm t) = t" "0 \<le> timegm t"
proof -
  let ?y = "tm_year t + 1900" and ?m = "nat (tm_mon t)"
  let ?c = "tm_hour t * 3600 + tm_min t * 60 + tm_sec t"
  have ok: "70 \<le> tm_year t" "0 \<le> tm_mon t" "tm_mon t < 12" "1 \<le> tm_mday t" "tm_mday t - 1 < month_length ?y ?m"
    "0 \<le> tm_hour t" "tm_hour t < 24" "0 \<le> tm_min t" "tm_min t < 60" "0 \<le> tm_sec t" "tm_sec t < 60"
    using assms by (simp_all add: tm_ok_def)
  have c: "0 \<le> ?c" "?c < 86400"
    using ok by simp_all
  let ?n = "month_start ?y ?m + (tm_mday t - 1)"
  have m: "?m < 12"
    using ok(2,3) by simp
  have n: "0 \<le> ?n" "?n < year_length ?y"
  proof -
    show "0 \<le> ?n"
      using ok(4) month_start_mono [of 0 ?m ?y] month_starts_nth(1) [of ?y] m by (cases "?m = 0") auto
    have "?n < month_start ?y (Suc ?m)"
      using ok(5) by (simp add: month_length_def)
    also have "\<dots> \<le> month_start ?y 12"
      using month_start_mono [of "Suc ?m" 12 ?y] m by (cases "Suc ?m = 12") auto
    finally show "?n < year_length ?y"
      by (simp add: month_starts_nth)
  qed
  have d: "tm_days t = year_start ?y + ?n"
    using ok(2,3) by (simp add: tm_days_def Let_def)
  have g: "timegm t = ?c + (year_start ?y + ?n - year_start 1970) * 86400"
    by (simp add: timegm_def d)
  have q: "timegm t div 86400 = year_start ?y + ?n - year_start 1970" "timegm t mod 86400 = ?c"
    unfolding g using c by (simp_all only: div_mult_self1 mod_mult_self1 div_pos_pos_trivial mod_pos_pos_trivial)
  have y: "1970 \<le> ?y"
    using ok(1) by simp
  have clock: "?c div 3600 = tm_hour t" "?c mod 3600 = tm_min t * 60 + tm_sec t" "(tm_min t * 60 + tm_sec t) div 60 = tm_min t"
    "?c mod 60 = tm_sec t"
  proof -
    have e: "?c = (tm_min t * 60 + tm_sec t) + tm_hour t * 3600" "?c = tm_sec t + (tm_min t + tm_hour t * 60) * 60"
      by simp_all
    have "0 \<le> tm_min t * 60 + tm_sec t" "tm_min t * 60 + tm_sec t < 3600"
      using ok by simp_all
    then show "?c div 3600 = tm_hour t" "?c mod 3600 = tm_min t * 60 + tm_sec t"
      unfolding e(1) by simp_all
    show "?c mod 60 = tm_sec t"
      unfolding e(2) using ok by (simp del: distrib_right_numeral)
    show "(tm_min t * 60 + tm_sec t) div 60 = tm_min t"
      using ok by simp
  qed
  show "gmtime (timegm t) = t"
    unfolding gmtime_def q find_year_at [OF n y] using find_month_at [OF m, of "tm_mday t - 1" ?y] ok clock
    by (simp add: Let_def)
  have "year_start 1970 \<le> year_start ?y"
    using year_start_mono [of 1970 ?y] year_length_bounds [of 1970] y by (cases "?y = 1970") auto
  then show "0 \<le> timegm t"
    using c n by (simp add: g)
qed

section \<open>DateTime\<close>

record date_time =
  dtYoff :: byte
  dtMonth :: byte
  dtDay :: byte
  dtHour :: byte
  dtMinute :: byte
  dtSecond :: byte

definition DateTime_seconds :: "u32 \<Rightarrow> date_time" where
  "DateTime_seconds t =
    (if t = 0 then \<lparr>dtYoff = 25, dtMonth = 1, dtDay = 1, dtHour = 0, dtMinute = 0, dtSecond = 0\<rparr>
     else let g = gmtime (uint t + 946684800)
          in \<lparr>dtYoff = word_of_int (tm_year g - 100), dtMonth = word_of_int (tm_mon g + 1),
              dtDay = word_of_int (tm_mday g), dtHour = word_of_int (tm_hour g),
              dtMinute = word_of_int (tm_min g), dtSecond = word_of_int (tm_sec g)\<rparr>)"

definition DateTime_fields :: "u16 \<Rightarrow> byte \<Rightarrow> byte \<Rightarrow> byte \<Rightarrow> byte \<Rightarrow> byte \<Rightarrow> date_time" where
  "DateTime_fields year month day hour minute second =
    \<lparr>dtYoff = ucast (if year \<ge> 2000 then year - 2000 else year), dtMonth = month, dtDay = day,
     dtHour = hour, dtMinute = minute, dtSecond = second\<rparr>"

text \<open>
  From \<open>__DATE__\<close> and \<open>__TIME__\<close>: \<open>sscanf\<close> with \<open>"%3s %d %d"\<close> and \<open>"%d:%d:%d"\<close>. A number that is not
  found leaves its variable uninitialised: \<open>None\<close>.
\<close>

definition scan_word3 :: "string \<Rightarrow> (string \<times> string) option" where
  "scan_word3 s =
    (let s1 = dropWhile is_space s; w = take 3 (takeWhile (\<lambda>c. \<not> is_space c) s1)
     in if w = [] then None else Some (w, drop (length w) s1))"

definition scan_colon :: "string \<Rightarrow> string option" where
  "scan_colon s = (if s \<noteq> [] \<and> hd s = CHR '':'' then Some (tl s) else None)"

definition month_names :: string where
  "month_names = ''JanFebMarAprMayJunJulAugSepOctNovDec''"

definition DateTime_text :: "string \<Rightarrow> string \<Rightarrow> date_time option" where
  "DateTime_text date time =
    Option.bind (scan_word3 date) (\<lambda>(mon, d1).
    Option.bind (strtol10 d1) (\<lambda>(day, d2).
    Option.bind (strtol10 d2) (\<lambda>(year, _).
    Option.bind (strtol10 time) (\<lambda>(hour, t1).
    Option.bind (scan_colon t1) (\<lambda>t2.
    Option.bind (strtol10 t2) (\<lambda>(minute, t3).
    Option.bind (scan_colon t3) (\<lambda>t4.
    Option.bind (strtol10 t4) (\<lambda>(second, _).
      Some \<lparr>dtYoff = word_of_int (year - 2000),
            dtMonth = (case find_sub mon month_names of Some p \<Rightarrow> word_of_nat (p div 3 + 1) | None \<Rightarrow> 1),
            dtDay = word_of_int day, dtHour = word_of_int hour, dtMinute = word_of_int minute,
            dtSecond = word_of_int second\<rparr>))))))))"

definition dt_year :: "date_time \<Rightarrow> u16" where
  "dt_year d = ucast (dtYoff d) + 2000"

text \<open>Sakamoto's algorithm; the table is read out of its bounds for a month that is none.\<close>

definition sakamoto :: "int list" where
  "sakamoto = [0, 3, 2, 5, 0, 3, 5, 1, 4, 6, 2, 4]"

definition dayOfTheWeek :: "date_time \<Rightarrow> byte option" where
  "dayOfTheWeek d =
    (let m = uint (dtMonth d); y = uint (dt_year d) - (if m < 3 then 1 else 0)
     in if 1 \<le> m \<and> m \<le> 12
        then Some (word_of_int ((y + y div 4 - y div 100 + y div 400 + sakamoto ! nat (m - 1) + uint (dtDay d)) mod 7))
        else None)"

text \<open>The time is converted as a local one, and the shift is measured by converting it back.\<close>

definition dt_tm :: "date_time \<Rightarrow> tm" where
  "dt_tm d = \<lparr>tm_year = uint (dtYoff d) + 100, tm_mon = uint (dtMonth d) - 1, tm_mday = uint (dtDay d),
     tm_hour = uint (dtHour d), tm_min = uint (dtMinute d), tm_sec = uint (dtSecond d)\<rparr>"

definition unixtime :: "(int \<Rightarrow> int) \<Rightarrow> date_time \<Rightarrow> u32" where
  "unixtime zone d =
    (let epoch = mktime zone (dt_tm d); utc = mktime zone (gmtime epoch) in word_of_int (epoch + (epoch - utc)))"

definition secondstime :: "(int \<Rightarrow> int) \<Rightarrow> date_time \<Rightarrow> u32" where
  "secondstime zone d = unixtime zone d - 946684800"

definition dt_plus :: "(int \<Rightarrow> int) \<Rightarrow> date_time \<Rightarrow> u32 \<Rightarrow> date_time" where
  "dt_plus zone d seconds = DateTime_seconds (secondstime zone d + seconds)"

definition dt_less :: "(int \<Rightarrow> int) \<Rightarrow> date_time \<Rightarrow> date_time \<Rightarrow> bool" where
  "dt_less zone d e \<longleftrightarrow> unixtime zone d < unixtime zone e"

section \<open>TimeSpan\<close>

text \<open>The total is an \<open>int32_t\<close>; C divides towards zero.\<close>

type_synonym time_span = "32 word"

definition TimeSpan :: "16 word \<Rightarrow> byte \<Rightarrow> byte \<Rightarrow> byte \<Rightarrow> time_span" where
  "TimeSpan days hours minutes seconds =
    word_of_int (sint days * 86400 + sint hours * 3600 + sint minutes * 60 + sint seconds)"

definition span_days :: "time_span \<Rightarrow> 16 word" where
  "span_days t = word_of_int (sint t sdiv 86400)"

definition span_hours :: "time_span \<Rightarrow> byte" where
  "span_hours t = word_of_int ((sint t smod 86400) sdiv 3600)"

definition span_minutes :: "time_span \<Rightarrow> byte" where
  "span_minutes t = word_of_int ((sint t smod 3600) sdiv 60)"

definition span_seconds :: "time_span \<Rightarrow> byte" where
  "span_seconds t = word_of_int (sint t smod 60)"

section \<open>Clock chips\<close>

text \<open>Setting and reading the time is the same for all; the time stands still in between.\<close>

record rtc =
  rtcInitialized :: bool
  rtcNow :: date_time

definition rtc_init :: rtc where
  "rtc_init = \<lparr>rtcInitialized = False, rtcNow = DateTime_seconds 0\<rparr>"

definition rtc_begin :: "rtc \<Rightarrow> bool \<times> rtc" where
  "rtc_begin r = (True, r\<lparr>rtcInitialized := True\<rparr>)"

definition rtc_adjust :: "date_time \<Rightarrow> rtc \<Rightarrow> rtc" where
  "rtc_adjust d r = r\<lparr>rtcNow := d\<rparr>"

definition rtc_now :: "rtc \<Rightarrow> date_time" where
  "rtc_now r = rtcNow r"

text \<open>The memory of the DS1307.\<close>

type_synonym nvram = "byte list"

definition readnvram :: "nvram \<Rightarrow> byte \<Rightarrow> byte" where
  "readnvram v addr = (if addr < 56 then v ! unat addr else 0)"

definition writenvram :: "nvram \<Rightarrow> byte \<Rightarrow> byte \<Rightarrow> nvram" where
  "writenvram v addr val = (if addr < 56 then v[unat addr := val] else v)"

text \<open>The clock of \<open>DS3231.h\<close> has a class of its own for times, and two alarms with a flag each.\<close>

record ds_time =
  dsYear :: u16
  dsMonth :: byte
  dsDay :: byte
  dsHour :: byte
  dsMinute :: byte
  dsSecond :: byte

definition ds_unixtime :: "(int \<Rightarrow> int) \<Rightarrow> ds_time \<Rightarrow> u32" where
  "ds_unixtime zone d = word_of_int (mktime zone
    \<lparr>tm_year = uint (dsYear d) - 1900, tm_mon = uint (dsMonth d) - 1, tm_mday = uint (dsDay d),
     tm_hour = uint (dsHour d), tm_min = uint (dsMinute d), tm_sec = uint (dsSecond d)\<rparr>)"

record ds3231 =
  dsInitialized :: bool
  dsNow :: ds_time
  dsAlarm1 :: "ds_time \<times> byte"
  dsAlarm2 :: "ds_time \<times> byte"
  dsFired1 :: bool
  dsFired2 :: bool

definition ds_setAlarm1 :: "ds_time \<Rightarrow> byte \<Rightarrow> ds3231 \<Rightarrow> ds3231" where
  "ds_setAlarm1 d mode c = c\<lparr>dsAlarm1 := (d, mode)\<rparr>"

definition ds_setAlarm2 :: "ds_time \<Rightarrow> byte \<Rightarrow> ds3231 \<Rightarrow> ds3231" where
  "ds_setAlarm2 d mode c = c\<lparr>dsAlarm2 := (d, mode)\<rparr>"

definition alarmFired :: "byte \<Rightarrow> ds3231 \<Rightarrow> bool \<times> ds3231" where
  "alarmFired alarm c =
    (if alarm = 1 then (dsFired1 c, c\<lparr>dsFired1 := False\<rparr>)
     else if alarm = 2 then (dsFired2 c, c\<lparr>dsFired2 := False\<rparr>)
     else (False, c))"

definition clearAlarm :: "byte \<Rightarrow> ds3231 \<Rightarrow> ds3231" where
  "clearAlarm alarm c =
    (let c = (if alarm = 1 then c\<lparr>dsFired1 := False\<rparr> else c) in if alarm = 2 then c\<lparr>dsFired2 := False\<rparr> else c)"

definition fireAlarm :: "byte \<Rightarrow> ds3231 \<Rightarrow> ds3231" where
  "fireAlarm n c =
    (let c = (if n = 1 then c\<lparr>dsFired1 := True\<rparr> else c) in if n = 2 then c\<lparr>dsFired2 := True\<rparr> else c)"

section \<open>Conversions\<close>

definition dt_ok :: "date_time \<Rightarrow> bool" where
  "dt_ok d \<longleftrightarrow> tm_ok (dt_tm d)"

text \<open>The seconds since 2000, unbounded.\<close>

definition dt_seconds :: "date_time \<Rightarrow> int" where
  "dt_seconds d = timegm (dt_tm d) - 946684800"

lemma year_starts: "year_start 2000 = year_start 1970 + 10957" "year_start 2256 = year_start 1970 + 104459"
  by (simp_all add: year_start_def leaps_to_def)

lemma year_start_le: "y \<le> z \<Longrightarrow> year_start y \<le> year_start z"
  using year_start_mono [of y z] year_length_bounds [of y] by (cases "y = z") auto

lemma timegm_bounds:
  assumes "tm_ok t"
  shows "(year_start (tm_year t + 1900) - year_start 1970) * 86400 \<le> timegm t"
    and "timegm t < (year_start (tm_year t + 1901) - year_start 1970) * 86400"
proof -
  have ok: "0 \<le> tm_mon t" "tm_mon t < 12" "1 \<le> tm_mday t"
    "tm_mday t - 1 < month_length (tm_year t + 1900) (nat (tm_mon t))"
    "0 \<le> tm_hour t" "tm_hour t < 24" "0 \<le> tm_min t" "tm_min t < 60" "0 \<le> tm_sec t" "tm_sec t < 60"
    using assms by (simp_all add: tm_ok_def)
  let ?y = "tm_year t + 1900" and ?m = "nat (tm_mon t)"
  have m: "?m < 12"
    using ok by simp
  have "0 \<le> month_start ?y ?m"
    using month_start_mono [of 0 ?m ?y] month_starts_nth(1) [of ?y] m by (cases "?m = 0") auto
  moreover have "month_start ?y (Suc ?m) \<le> year_length ?y"
    using month_start_mono [of "Suc ?m" 12 ?y] month_starts_nth(3) [of ?y] m by (cases "Suc ?m = 12") auto
  moreover have "tm_days t = year_start ?y + month_start ?y ?m + tm_mday t - 1"
    using ok(1,2) by (simp add: tm_days_def Let_def)
  ultimately have "year_start ?y \<le> tm_days t" "tm_days t + 1 \<le> year_start (?y + 1)"
    using ok(3,4) year_start_step [of ?y] by (simp_all add: month_length_def)
  then show "(year_start ?y - year_start 1970) * 86400 \<le> timegm t"
    "timegm t < (year_start (tm_year t + 1901) - year_start 1970) * 86400"
    using ok(5-10) by (simp_all add: timegm_def algebra_simps)
qed

lemma dt_seconds_nonneg:
  assumes "dt_ok d"
  shows "0 \<le> dt_seconds d"
proof -
  have "year_start 2000 \<le> year_start (tm_year (dt_tm d) + 1900)"
    by (rule year_start_le) (simp add: dt_tm_def)
  then show ?thesis
    using timegm_bounds(1) [of "dt_tm d"] assms year_starts(1) by (simp add: dt_ok_def dt_seconds_def)
qed

text \<open>No zone is a day or more ahead or behind.\<close>

definition zone_ok :: "(int \<Rightarrow> int) \<Rightarrow> bool" where
  "zone_ok zone \<longleftrightarrow> (\<forall>u. \<bar>zone u\<bar> \<le> 86400)"

text \<open>
  The shift is measured not at the date but at the local clock's reading of its UTC time:
  \<open>zone_error\<close> is the difference, and \<open>zone_steady\<close> that there is none, because standard time did
  not change in between.
\<close>

definition zone_error :: "(int \<Rightarrow> int) \<Rightarrow> date_time \<Rightarrow> int" where
  "zone_error zone d = (let u = timegm (dt_tm d) in zone (u - zone u) - zone u)"

definition zone_steady :: "(int \<Rightarrow> int) \<Rightarrow> date_time \<Rightarrow> bool" where
  "zone_steady zone d \<longleftrightarrow> zone_error zone d = 0"

lemma zone_steady_const [simp]: "zone_steady (\<lambda>_. k) d"
  by (simp add: zone_steady_def zone_error_def)

lemma zone_ok_const [simp]: "zone_ok (\<lambda>_. k) \<longleftrightarrow> \<bar>k\<bar> \<le> 86400"
  by (simp add: zone_ok_def)

lemma zone_error_small: "zone_ok zone \<Longrightarrow> \<bar>zone_error zone d\<bar> \<le> 172800"
proof -
  assume z: "zone_ok zone"
  let ?u = "timegm (dt_tm d)"
  have "\<bar>zone (?u - zone ?u)\<bar> \<le> 86400" "\<bar>zone ?u\<bar> \<le> 86400"
    using z unfolding zone_ok_def by blast+
  then show ?thesis
    unfolding zone_error_def Let_def by linarith
qed

lemma unixtime_error:
  assumes "dt_ok d" "zone_ok zone"
  shows "unixtime zone d = word_of_int (timegm (dt_tm d) + zone_error zone d)"
    "secondstime zone d = word_of_int (dt_seconds d + zone_error zone d)"
proof -
  have "zone (timegm (dt_tm d)) \<le> 86400"
    using assms(2) abs_le_D1 unfolding zone_ok_def by blast
  then have "0 \<le> mktime zone (dt_tm d)"
    using dt_seconds_nonneg [OF assms(1)] by (simp add: dt_seconds_def mktime_def)
  then show u: "unixtime zone d = word_of_int (timegm (dt_tm d) + zone_error zone d)"
    unfolding unixtime_def Let_def mktime_def zone_error_def by (simp add: timegm_gmtime)
  show "secondstime zone d = word_of_int (dt_seconds d + zone_error zone d)"
    unfolding secondstime_def u dt_seconds_def by simp
qed

lemma unixtime_timegm:
  assumes "dt_ok d" "zone_ok zone" "zone_steady zone d"
  shows "unixtime zone d = word_of_int (timegm (dt_tm d))" "secondstime zone d = word_of_int (dt_seconds d)"
  using unixtime_error [OF assms(1,2)] assms(3) by (simp_all add: zone_steady_def)

text \<open>An error of less than the width of the counter changes it.\<close>

lemma word_error_zero:
  assumes "\<bar>e\<bar> < 2 ^ 32"
  shows "(word_of_int (x + e) :: u32) = word_of_int x \<longleftrightarrow> e = 0"
proof
  assume "(word_of_int (x + e) :: u32) = word_of_int x"
  then have "(word_of_int e :: u32) = 0"
    by simp
  then have "e mod 2 ^ 32 = 0"
    using uint_word_of_int [where 'a = 32, of e] by simp
  then have "2 ^ 32 dvd e"
    by (simp add: dvd_eq_mod_eq_0)
  then show "e = 0"
    using assms zdvd_not_zless [of "\<bar>e\<bar>" "2 ^ 32"] by fastforce
qed simp

text \<open>A broken-down time of the years from 2000 to 2255 fits the fields of \<open>DateTime\<close>.\<close>

lemma month_length_le: "m < 12 \<Longrightarrow> month_length y m \<le> 31"
  unfolding month_length_def month_start_def month_starts_def by (auto simp: less_Suc_eq numeral_eq_Suc)

definition tm_dt :: "tm \<Rightarrow> date_time" where
  "tm_dt g = \<lparr>dtYoff = word_of_int (tm_year g - 100), dtMonth = word_of_int (tm_mon g + 1),
     dtDay = word_of_int (tm_mday g), dtHour = word_of_int (tm_hour g),
     dtMinute = word_of_int (tm_min g), dtSecond = word_of_int (tm_sec g)\<rparr>"

lemma byte_of_int: "0 \<le> i \<Longrightarrow> i < 256 \<Longrightarrow> uint (word_of_int i :: byte) = i"
  by (simp add: uint_word_of_int)

lemma dt_tm_dt:
  assumes "tm_ok g" "100 \<le> tm_year g" "tm_year g < 356"
  shows "dt_tm (tm_dt g) = g"
proof -
  have "tm_mday g \<le> 31"
    using assms(1) month_length_le [of "nat (tm_mon g)" "tm_year g + 1900"] unfolding tm_ok_def by linarith
  then have "uint (word_of_int (tm_year g - 100) :: byte) = tm_year g - 100"
    "uint (word_of_int (tm_mon g + 1) :: byte) = tm_mon g + 1" "uint (word_of_int (tm_mday g) :: byte) = tm_mday g"
    "uint (word_of_int (tm_hour g) :: byte) = tm_hour g" "uint (word_of_int (tm_min g) :: byte) = tm_min g"
    "uint (word_of_int (tm_sec g) :: byte) = tm_sec g"
    using assms by (intro byte_of_int; simp add: tm_ok_def)+
  then show ?thesis
    unfolding dt_tm_def tm_dt_def date_time.select_convs by simp
qed

lemma tm_dt_tm [simp]: "tm_dt (dt_tm d) = d"
  by (simp add: dt_tm_def tm_dt_def)

lemma DateTime_seconds_tm: "t \<noteq> 0 \<Longrightarrow> DateTime_seconds t = tm_dt (gmtime (uint t + 946684800))"
  by (simp add: DateTime_seconds_def tm_dt_def Let_def)

lemma DateTime_seconds_ok:
  assumes "t \<noteq> 0"
  shows "dt_ok (DateTime_seconds t)" "dt_seconds (DateTime_seconds t) = uint t"
proof -
  let ?g = "gmtime (uint t + 946684800)"
  have b: "0 \<le> uint t" "uint t < 4294967296"
    using uint_bounded [of t] by simp_all
  then have g: "timegm ?g = uint t + 946684800" "tm_ok ?g"
    using timegm_gmtime [of "uint t + 946684800"] by simp_all
  have "2000 \<le> tm_year ?g + 1900"
  proof (rule ccontr)
    assume "\<not> 2000 \<le> tm_year ?g + 1900"
    then have "year_start (tm_year ?g + 1901) \<le> year_start 2000"
      by (intro year_start_le) simp
    with timegm_bounds(2) [OF g(2)] show False
      using g(1) b year_starts(1) by simp
  qed
  moreover have "tm_year ?g + 1900 < 2256"
  proof (rule ccontr)
    assume "\<not> tm_year ?g + 1900 < 2256"
    then have "year_start 2256 \<le> year_start (tm_year ?g + 1900)"
      by (intro year_start_le) simp
    with timegm_bounds(1) [OF g(2)] show False
      using g(1) b year_starts(2) by simp
  qed
  ultimately have "dt_tm (DateTime_seconds t) = ?g"
    unfolding DateTime_seconds_tm [OF assms] by (intro dt_tm_dt g(2)) simp_all
  then show "dt_ok (DateTime_seconds t)" "dt_seconds (DateTime_seconds t) = uint t"
    using g by (simp_all add: dt_ok_def dt_seconds_def)
qed

lemma seconds_determine:
  assumes "dt_ok d" "dt_ok e" "dt_seconds d = dt_seconds e"
  shows "d = e"
proof -
  have "gmtime (timegm (dt_tm d)) = gmtime (timegm (dt_tm e))"
    using assms(3) by (simp add: dt_seconds_def)
  then have "dt_tm d = dt_tm e"
    using assms(1,2) gmtime_timegm(1) by (simp add: dt_ok_def)
  then show ?thesis
    by (metis tm_dt_tm)
qed


section \<open>Properties\<close>

text \<open>
  C35: when the conversion to seconds and the one from seconds are inverse, for the valid dates of
  the \<open>2 ^ 32\<close> seconds from 2000 on, apart from the first of them. Whatever the zone of the host
  (with offsets of up to a day, which may change over time), a date comes back from its seconds, and
  seconds come back from their date, if and only if the host's standard time did not change between
  the date and the reading of the local clock that equals its UTC time. So both always come back
  where it never changes, and not in the hours next to a change.
\<close>

theorem rtc_seconds_roundtrip:
  assumes "dt_ok d" "zone_ok zone" "0 < dt_seconds d" "dt_seconds d < 2 ^ 32" "t \<noteq> 0"
  shows "(DateTime_seconds (secondstime zone d) = d \<longleftrightarrow> zone_steady zone d) \<and>
    (secondstime zone (DateTime_seconds t) = t \<longleftrightarrow> zone_steady zone (DateTime_seconds t))"
proof
  have small: "\<bar>zone_error zone x\<bar> < 2 ^ 32" for x
    using zone_error_small [OF assms(2), of x] by simp
  define w where "w = secondstime zone d"
  have w: "w = word_of_int (dt_seconds d) \<longleftrightarrow> zone_steady zone d"
    unfolding w_def unixtime_error(2) [OF assms(1,2)] word_error_zero [OF small] zone_steady_def ..
  have u: "uint (word_of_int (dt_seconds d) :: u32) = dt_seconds d"
    using assms(3,4) by (simp add: uint_word_of_int)
  have "DateTime_seconds w = d \<longleftrightarrow> w = word_of_int (dt_seconds d)"
  proof
    assume same: "DateTime_seconds w = d"
    show "w = word_of_int (dt_seconds d)"
    proof (cases "w = 0")
      case True
      have "dt_seconds (DateTime_seconds 0) = 789004800"
        by (simp add: DateTime_seconds_def dt_seconds_def dt_tm_def timegm_def tm_days_def year_start_def leaps_to_def
            month_start_def month_starts_def Let_def)
      then have "dt_seconds d = 789004800"
        using same True by simp
      then have "dt_seconds d + zone_error zone d \<noteq> 0" "0 \<le> dt_seconds d + zone_error zone d"
          "dt_seconds d + zone_error zone d < 4294967296"
        using zone_error_small [OF assms(2), of d] by linarith+
      moreover have "uint (word_of_int k :: u32) = k" if "0 \<le> k" "k < 4294967296" for k
        using that by (simp add: uint_word_of_int)
      ultimately have "uint w \<noteq> 0"
        unfolding w_def unixtime_error(2) [OF assms(1,2)] by metis
      with True show ?thesis by simp
    next
      case False
      then show ?thesis
        using DateTime_seconds_ok(2) [OF False] same by (metis word_of_int_uint)
    qed
  next
    assume same: "w = word_of_int (dt_seconds d)"
    then have "w \<noteq> 0"
      using u assms(3) by auto
    from DateTime_seconds_ok [OF this] u same show "DateTime_seconds w = d"
      using seconds_determine [OF _ assms(1)] by simp
  qed
  with w show "DateTime_seconds (secondstime zone d) = d \<longleftrightarrow> zone_steady zone d"
    by (simp only: w_def)
  show "secondstime zone (DateTime_seconds t) = t \<longleftrightarrow> zone_steady zone (DateTime_seconds t)"
    using unixtime_error(2) [OF DateTime_seconds_ok(1) [OF assms(5)] assms(2)] DateTime_seconds_ok(2) [OF assms(5)]
      word_error_zero [OF small, of "uint t"] by (simp add: zone_steady_def del: word_of_int_eq_0_iff of_int_add)
qed

text \<open>A date of the tests: the 29th of February 2024, a Thursday, 762523199 seconds after 2000.\<close>

definition leap_day :: date_time where
  "leap_day = \<lparr>dtYoff = 24, dtMonth = 2, dtDay = 29, dtHour = 23, dtMinute = 59, dtSecond = 59\<rparr>"

lemma leap_day_facts: "dt_ok leap_day" "dt_seconds leap_day = 762566399"
  by (simp_all add: leap_day_def dt_ok_def tm_ok_def dt_tm_def month_length_def month_start_def month_starts_def leap_def
      dt_seconds_def timegm_def tm_days_def year_start_def leaps_to_def Let_def)

text \<open>Moscow on the 27th of March 2011, when standard time went from three to four hours ahead.\<close>

definition moscow :: "int \<Rightarrow> int" where
  "moscow u = (if u < 1301191200 then 10800 else 14400)"

definition moscow_night :: date_time where
  "moscow_night = \<lparr>dtYoff = 11, dtMonth = 3, dtDay = 27, dtHour = 3, dtMinute = 30, dtSecond = 0\<rparr>"

lemma moscow_facts: "dt_ok moscow_night" "dt_seconds moscow_night = 354511800" "zone_ok moscow"
  "\<not> zone_steady moscow moscow_night" "zone_steady moscow leap_day"
  by (simp_all add: moscow_night_def leap_day_def dt_ok_def tm_ok_def dt_tm_def month_length_def month_start_def month_starts_def
      leap_def dt_seconds_def timegm_def tm_days_def year_start_def leaps_to_def Let_def zone_ok_def moscow_def
      zone_steady_def zone_error_def)

theorem rtc_seconds_roundtrip_witness:
  "DateTime_seconds (secondstime moscow leap_day) = leap_day \<and>
   DateTime_seconds (secondstime moscow moscow_night) \<noteq> moscow_night \<and>
   secondstime (\<lambda>_. 3600) (DateTime_seconds 1) = 1"
  using rtc_seconds_roundtrip [of leap_day moscow 1] rtc_seconds_roundtrip [of moscow_night moscow 1]
    rtc_seconds_roundtrip [of leap_day "\<lambda>_. 3600" 1]
  by (simp add: leap_day_facts moscow_facts)

text \<open>
  The day of the week. For every valid date of the years that fit, Sakamoto's formula gives the
  number of days since Sunday, the 4th of January 1970, modulo 7.
\<close>

theorem rtc_day_of_week:
  assumes "dt_ok d"
  shows "dayOfTheWeek d = Some (word_of_int ((tm_days (dt_tm d) - (year_start 1970 + 3)) mod 7))"
proof -
  define y where "y = uint (dtYoff d) + 2000"
  define m where "m = uint (dtMonth d) - 1"
  have m: "0 \<le> m" "m < 12"
    using assms by (simp_all add: dt_ok_def tm_ok_def dt_tm_def m_def)
  have md: "uint (dtMonth d) = m + 1"
    by (simp add: m_def)
  have year: "uint (dt_year d) = y"
  proof -
    have "uint (dtYoff d) < 256"
      using uint_bounded [of "dtYoff d"] by simp
    then show ?thesis
      unfolding dt_year_def y_def by (simp add: uint_add_lem [THEN iffD1] unsigned_ucast_eq take_bit_int_eq_self)
  qed
  have days: "tm_days (dt_tm d) = year_start y + month_start y (nat m) + uint (dtDay d) - 1"
    using m by (simp add: tm_days_def dt_tm_def Let_def y_def m_def add.commute)
  define z where "z = (if m < 2 then y - 1 else y)"
  define c where "c = month_starts ! nat m - 1 + (if m < 2 then 365 else 0)"
  have z: "year_start y + month_start y (nat m) - 1 = 365 * z + leaps_to z + c"
    using leaps_step [of y] m by (auto simp: year_start_def month_start_def z_def c_def)
  have "m \<in> {0, 1, 2, 3, 4, 5, 6, 7, 8, 9, 10, 11}"
    unfolding insert_iff empty_iff using m by arith
  then have "(c - sakamoto ! nat m) mod 7 = 0"
    unfolding insert_iff empty_iff by (elim disjE) (simp_all add: c_def month_starts_def sakamoto_def)
  then obtain k where k: "c = sakamoto ! nat m + k * 7"
    by (metis add.commute add.right_neutral diff_add_cancel div_mult_mod_eq)
  have "tm_days (dt_tm d) - (year_start 1970 + 3) =
      (z + leaps_to z + sakamoto ! nat m + uint (dtDay d)) + (52 * z + k - 102790) * 7"
  proof -
    have "year_start 1970 + 3 = 719530"
      by (simp add: year_start_def leaps_to_def)
    moreover have "t = M + u - 1 \<Longrightarrow> M - 1 = 365 * z + l + e \<Longrightarrow> e = s + k * 7 \<Longrightarrow> i = 719530 \<Longrightarrow>
        t - i = z + l + s + u + (52 * z + k - 102790) * 7" for t M u z l e s k i :: int
      by simp
    ultimately show ?thesis
      using days z k by blast
  qed
  then have "(tm_days (dt_tm d) - (year_start 1970 + 3)) mod 7 = (z + leaps_to z + sakamoto ! nat m + uint (dtDay d)) mod 7"
    by (simp only: mod_mult_self1)
  moreover have "dayOfTheWeek d = Some (word_of_int ((z + leaps_to z + sakamoto ! nat m + uint (dtDay d)) mod 7))"
    using m by (simp add: dayOfTheWeek_def year Let_def md z_def leaps_to_def add.assoc [symmetric] add_diff_eq)
  ultimately show ?thesis
    by simp
qed


theorem rtc_day_of_week_witness: "dayOfTheWeek leap_day = Some 4"
  unfolding rtc_day_of_week [OF leap_day_facts(1)]
  by (simp add: leap_day_def dt_tm_def tm_days_def Let_def year_start_def leaps_to_def month_start_def month_starts_def leap_def)

text \<open>
  Adding seconds. The date after adding is valid, and its seconds are the sum, modulo the width of
  the counter, unless the sum is 0 there.
\<close>

theorem rtc_add_seconds:
  assumes "dt_ok d" "zone_ok zone" "zone_steady zone d" "secondstime zone d + s \<noteq> 0"
  shows "dt_ok (dt_plus zone d s) \<and> dt_seconds (dt_plus zone d s) = (dt_seconds d + uint s) mod 2 ^ 32"
  using DateTime_seconds_ok [OF assms(4)] unixtime_timegm(2) [OF assms(1-3)]
  by (simp add: dt_plus_def uint_word_ariths uint_word_of_int mod_simps)

theorem rtc_add_seconds_witness:
  "dt_ok (dt_plus (\<lambda>_. - 3600) leap_day 1) \<and> dt_seconds (dt_plus (\<lambda>_. - 3600) leap_day 1) = 762566400"
  using rtc_add_seconds [OF leap_day_facts(1), of "\<lambda>_. - 3600" 1] unixtime_timegm(2) [OF leap_day_facts(1), of "\<lambda>_. - 3600"]
  by (simp add: leap_day_facts(2) zone_ok_def)

text \<open>
  The first second is lost. Midnight of the 1st of January 2000 is a valid date with no seconds, and
  reading it back from its seconds (or adding nothing to it) gives the year 2025.
\<close>

theorem rtc_zero_is_2025:
  assumes "zone_ok zone" "zone_steady zone (DateTime_fields 2000 1 1 0 0 0)"
  shows "dt_ok (DateTime_fields 2000 1 1 0 0 0) \<and> secondstime zone (DateTime_fields 2000 1 1 0 0 0) = 0 \<and>
    dt_plus zone (DateTime_fields 2000 1 1 0 0 0) 0 = DateTime_fields 2025 1 1 0 0 0"
proof -
  let ?d = "DateTime_fields 2000 1 1 0 0 0"
  have ok: "dt_ok ?d" "dt_seconds ?d = 0"
    by (simp_all add: DateTime_fields_def dt_ok_def tm_ok_def dt_tm_def month_length_def month_start_def month_starts_def
        leap_def dt_seconds_def timegm_def tm_days_def year_start_def leaps_to_def Let_def)
  then have "secondstime zone ?d = 0"
    using unixtime_timegm(2) [OF ok(1) assms] by simp
  then show ?thesis
    using ok by (simp add: dt_plus_def DateTime_seconds_def DateTime_fields_def)
qed

theorem rtc_zero_is_2025_witness: "dt_plus (\<lambda>_. 0) (DateTime_fields 2000 1 1 0 0 0) 0 = DateTime_fields 2025 1 1 0 0 0"
  using rtc_zero_is_2025 [of "\<lambda>_. 0"] by (simp add: zone_ok_def)

text \<open>The order of dates is the order of their seconds, up to the end of the 32-bit count in 2106.\<close>

theorem rtc_order:
  assumes "dt_ok d" "dt_ok e" "zone_ok zone" "zone_steady zone d" "zone_steady zone e" "dt_seconds d < 2 ^ 32 - 946684800" "dt_seconds e < 2 ^ 32 - 946684800"
  shows "dt_less zone d e \<longleftrightarrow> dt_seconds d < dt_seconds e"
proof -
  have "uint (unixtime zone x) = dt_seconds x + 946684800" if "dt_ok x" "zone_steady zone x" "dt_seconds x < 2 ^ 32 - 946684800" for x
    using unixtime_timegm(1) [OF that(1) assms(3) that(2)] dt_seconds_nonneg [OF that(1)] that(3)
    by (simp add: dt_seconds_def uint_word_of_int)
  then show ?thesis
    using assms by (simp add: dt_less_def word_less_def)
qed

theorem rtc_order_witness: "\<not> dt_less (\<lambda>_. 0) leap_day leap_day"
  using rtc_order [of leap_day leap_day "\<lambda>_. 0"] by (simp add: leap_day_facts zone_ok_def)

text \<open>Signed division of a number with a given sign.\<close>

lemma signed_parts:
  fixes s a c :: int
  assumes "s = 1 \<or> s = - 1" "0 \<le> a" "0 < c"
  shows "(s * a) sdiv c = s * (a div c)" "(s * a) smod c = s * (a mod c)"
  using assms by (auto simp: signed_divide_int_def signed_modulo_int_def sgn_if)

lemma small_signed:
  "\<bar>i\<bar> < 128 \<Longrightarrow> sint (word_of_int i :: byte) = i" "\<bar>i\<bar> < 32768 \<Longrightarrow> sint (word_of_int i :: 16 word) = i"
  by (simp_all add: signed_of_int signed_take_bit_int_eq_self)

text \<open>
  The parts of a time span make up its total, for each of its values, and no part is as large as
  the unit above it.
\<close>

theorem timespan_parts:
  "sint (span_days t) * 86400 + sint (span_hours t) * 3600 + sint (span_minutes t) * 60 + sint (span_seconds t) = sint t \<and>
   \<bar>sint (span_hours t)\<bar> < 24 \<and> \<bar>sint (span_minutes t)\<bar> < 60 \<and> \<bar>sint (span_seconds t)\<bar> < 60"
proof -
  define s a where "s = (if 0 \<le> sint t then 1 else - 1 :: int)" and "a = \<bar>sint t\<bar>"
  then have t: "sint t = s * a" "s = 1 \<or> s = - 1" "0 \<le> a"
    by simp_all
  have "- (2 ^ 31) \<le> sint t" "sint t < 2 ^ 31"
    using sint_range_size [of t] by (simp_all add: size_word.rep_eq)
  then have a: "a \<le> 2147483648"
    using t by auto
  define d h m c where "d = a div 86400" and "h = a mod 86400 div 3600" and "m = a mod 3600 div 60" and "c = a mod 60"
  have bounds: "0 \<le> d" "d < 32768" "0 \<le> h" "h < 24" "0 \<le> m" "m < 60" "0 \<le> c" "c < 60"
    using t(3) a unfolding d_def h_def m_def c_def
    by (simp_all add: div_less_iff_less_mult pos_imp_zdiv_nonneg_iff)
  have "sint t sdiv 86400 = s * d" "(sint t smod 86400) sdiv 3600 = s * h" "(sint t smod 3600) sdiv 60 = s * m"
    "sint t smod 60 = s * c"
    using t(2,3) by (simp_all add: t(1) signed_parts d_def h_def m_def c_def)
  moreover have "\<bar>s * d\<bar> < 32768" "\<bar>s * h\<bar> < 24" "\<bar>s * m\<bar> < 60" "\<bar>s * c\<bar> < 60"
    using t(2) bounds by auto
  ultimately have parts: "sint (span_days t) = s * d" "sint (span_hours t) = s * h" "sint (span_minutes t) = s * m"
      "sint (span_seconds t) = s * c"
    unfolding span_days_def span_hours_def span_minutes_def span_seconds_def
    by (simp_all only:) (rule small_signed; linarith)+
  have "d * 86400 + (h * 3600 + m * 60 + c) = a"
    using clock_split [of "a mod 86400"] div_mult_mod_eq [of a 86400]
    by (simp add: d_def h_def m_def c_def mod_mod_cancel)
  then have "s * d * 86400 + s * h * 3600 + s * m * 60 + s * c = s * a"
    by (metis (no_types, opaque_lifting) add.assoc distrib_left mult.assoc)
  then show ?thesis
    using \<open>\<bar>s * h\<bar> < 24\<close> \<open>\<bar>s * m\<bar> < 60\<close> \<open>\<bar>s * c\<bar> < 60\<close> by (simp add: parts t(1))
qed

theorem timespan_parts_witness:
  "sint (span_hours (- 3661)) = - 1 \<and> sint (span_minutes (- 3661)) = - 1 \<and> sint (span_seconds (- 3661)) = - 1"
  by (simp add: span_hours_def span_minutes_def span_seconds_def signed_divide_int_def signed_modulo_int_def small_signed)

text \<open>What the compiler puts for \<open>__DATE__\<close> and \<open>__TIME__\<close> at a given time.\<close>

definition date_macro :: "date_time \<Rightarrow> string" where
  "date_macro d =
    take 3 (drop (3 * (unat (dtMonth d) - 1)) month_names) @ CHR '' '' #
    (if unat (dtDay d) < 10 then '' '' else '''') @ digits_of 10 (unat (dtDay d)) @ CHR '' '' #
    digits_of 10 (unat (dt_year d))"

definition time_macro :: "date_time \<Rightarrow> string" where
  "time_macro d = two (unat (dtHour d)) @ CHR '':'' # two (unat (dtMinute d)) @ CHR '':'' # two (unat (dtSecond d))"

lemma strtol10_space: "strtol10 (CHR '' '' # s) = strtol10 s"
  by (simp add: strtol10_def is_space_def ord_def)

lemma month_names_scan:
  assumes "k < 12"
  shows "scan_word3 (take 3 (drop (3 * k) month_names) @ CHR '' '' # r) = Some (take 3 (drop (3 * k) month_names), CHR '' '' # r)"
    and "find_sub (take 3 (drop (3 * k) month_names)) month_names = Some (3 * k)"
proof -
  have "k \<in> {0, 1, 2, 3, 4, 5, 6, 7, 8, 9, 10, 11}"
    unfolding insert_iff empty_iff using assms by arith
  then show "scan_word3 (take 3 (drop (3 * k) month_names) @ CHR '' '' # r) = Some (take 3 (drop (3 * k) month_names), CHR '' '' # r)"
    and "find_sub (take 3 (drop (3 * k) month_names)) month_names = Some (3 * k)"
    unfolding insert_iff empty_iff
    by (elim disjE; simp add: month_names_def scan_word3_def is_space_def ord_def Let_def)+
qed

text \<open>
  A clock that is set from the macros of the compiler shows that time: reading the date and the time
  of any valid \<open>DateTime\<close> in the format of \<open>__DATE__\<close> and \<open>__TIME__\<close> gives it back.
\<close>

theorem rtc_macro_roundtrip:
  assumes "dt_ok d"
  shows "DateTime_text (date_macro d) (time_macro d) = Some d"
proof -
  have ok: "0 < uint (dtMonth d)" "uint (dtMonth d) \<le> 12" "uint (dtHour d) < 24" "uint (dtMinute d) < 60" "uint (dtSecond d) < 60"
    using assms by (simp_all add: dt_ok_def tm_ok_def dt_tm_def)
  then have n: "0 < unat (dtMonth d)" "unat (dtMonth d) \<le> 12" "unat (dtHour d) < 100" "unat (dtMinute d) < 100" "unat (dtSecond d) < 100"
    using uint_nat [of "dtMonth d"] uint_nat [of "dtHour d"] uint_nat [of "dtMinute d"] uint_nat [of "dtSecond d"]
    by linarith+
  have y: "unat (dt_year d) = unat (dtYoff d) + 2000"
  proof -
    have "unat (dtYoff d) < 256"
      using unat_bound [of "dtYoff d"] by simp
    then show ?thesis
      unfolding dt_year_def by (simp add: unat_add_lem [THEN iffD1] unsigned_ucast_eq take_bit_nat_eq_self)
  qed
  define k where "k = unat (dtMonth d) - 1"
  have k: "k < 12" "3 * k div 3 + 1 = unat (dtMonth d)"
    using n by (simp_all add: k_def)
  have sp: "\<not> is_digit_in 10 CHR '' ''" "\<not> is_digit_in 10 CHR '':''"
    by (simp_all add: is_digit_in_def hex_value_def ord_def)
  define r where "r = (if unat (dtDay d) < 10 then '' '' else '''') @ digits_of 10 (unat (dtDay d)) @ CHR '' '' # digits_of 10 (unat (dt_year d))"
  have day: "strtol10 (CHR '' '' # r) = Some (int (unat (dtDay d)), CHR '' '' # digits_of 10 (unat (dt_year d)))"
    using sp unat_bound [of "dtDay d"] strtol10_numeral(1) [of "CHR '' '' # digits_of 10 (unat (dt_year d))" "unat (dtDay d)"]
    by (simp add: r_def strtol10_space)
  have year: "strtol10 (CHR '' '' # digits_of 10 (unat (dt_year d))) = Some (int (unat (dt_year d)), [])"
    using unat_bound [of "dt_year d"] strtol10_numeral(1) [of "[]" "unat (dt_year d)"] by (simp add: strtol10_space)
  have date: "date_macro d = take 3 (drop (3 * k) month_names) @ CHR '' '' # r"
    by (simp add: date_macro_def k_def r_def)
  have time: "strtol10 (time_macro d) = Some (int (unat (dtHour d)), CHR '':'' # two (unat (dtMinute d)) @ CHR '':'' # two (unat (dtSecond d)))"
    "strtol10 (two (unat (dtMinute d)) @ CHR '':'' # two (unat (dtSecond d))) = Some (int (unat (dtMinute d)), CHR '':'' # two (unat (dtSecond d)))"
    "strtol10 (two (unat (dtSecond d))) = Some (int (unat (dtSecond d)), [])"
    using n sp strtol10_two [of "unat (dtSecond d)" "[]"] by (simp_all add: time_macro_def strtol10_two)
  have "(word_of_int (int (unat (dt_year d)) - 2000) :: byte) = dtYoff d"
    by (simp add: y)
  moreover have "(1 + word_of_nat k :: byte) = dtMonth d"
  proof -
    have "unat (dtMonth d) = Suc k"
      using n(1) by (simp add: k_def)
    then have "(word_of_nat (Suc k) :: byte) = dtMonth d"
      by (metis of_nat_unat ucast_id)
    then show ?thesis
      by simp
  qed
  moreover define mon where "mon = take 3 (drop (3 * k) month_names)"
  moreover have "scan_word3 (date_macro d) = Some (mon, CHR '' '' # r)" "find_sub mon month_names = Some (3 * k)"
    using month_names_scan [OF k(1)] by (simp_all add: date mon_def)
  ultimately show ?thesis
    by (simp add: DateTime_text_def day year time scan_colon_def)
qed

theorem rtc_macro_roundtrip_witness: "DateTime_text (date_macro leap_day) (time_macro leap_day) = Some leap_day"
  by (rule rtc_macro_roundtrip [OF leap_day_facts(1)])

text \<open>The memory of the DS1307: an address below 56 keeps what is written to it, others keep nothing.\<close>

lemma nvram_read_write:
  assumes "length v = 56"
  shows "readnvram (writenvram v a x) b = (if a = b \<and> a < 56 then x else readnvram v b)"
  using assms by (auto simp: readnvram_def writenvram_def nth_list_update word_less_nat_alt simp flip: word_unat_eq_iff)

text \<open>
  An alarm of the DS3231 is reported once: after it fires, the first query of it returns true and
  clears it, the queries after that return false, and the other alarm is untouched.
\<close>

theorem ds_alarm_once:
  assumes "n = 1 \<or> n = 2"
  shows "fst (alarmFired n (fireAlarm n c)) \<and> \<not> fst (alarmFired n (snd (alarmFired n (fireAlarm n c)))) \<and>
    (\<forall>k. k \<noteq> n \<longrightarrow> fst (alarmFired k (snd (alarmFired n (fireAlarm n c)))) = fst (alarmFired k c))"
  using assms by (auto simp: alarmFired_def fireAlarm_def Let_def)

theorem ds_alarm_once_witness:
  "fst (alarmFired 2 (fireAlarm 2 c)) \<and> \<not> fst (alarmFired 2 (snd (alarmFired 2 (fireAlarm 2 c))))"
  using ds_alarm_once [of 2 c] by blast

text \<open>
  The count of seconds of \<open>DS3231.h\<close> is in the host's local time: where standard time is steady it
  is off by the zone from the count that \<open>RTClib.h\<close> gives for the same fields.
\<close>

theorem ds_unixtime_local:
  assumes "dt_ok d" "zone_ok zone" "zone_steady zone d"
  shows "ds_unixtime zone \<lparr>dsYear = dt_year d, dsMonth = dtMonth d, dsDay = dtDay d, dsHour = dtHour d, dsMinute = dtMinute d,
      dsSecond = dtSecond d\<rparr> = unixtime zone d - word_of_int (zone (timegm (dt_tm d)))"
proof -
  have "uint (dtYoff d) < 256"
    using uint_bounded [of "dtYoff d"] by simp
  then have "uint (dt_year d) = uint (dtYoff d) + 2000"
    unfolding dt_year_def by (simp add: uint_add_lem [THEN iffD1] unsigned_ucast_eq take_bit_int_eq_self)
  then show ?thesis
    using unixtime_timegm(1) [OF assms] by (simp add: ds_unixtime_def mktime_def dt_tm_def add.commute)
qed

theorem ds_unixtime_local_witness:
  "ds_unixtime (\<lambda>_. 3600) \<lparr>dsYear = 2024, dsMonth = 2, dsDay = 29, dsHour = 23, dsMinute = 59, dsSecond = 59\<rparr> =
    unixtime (\<lambda>_. 3600) leap_day - 3600"
  using ds_unixtime_local [OF leap_day_facts(1), of "\<lambda>_. 3600"] by (simp add: leap_day_def dt_year_def zone_ok_def)

end
