(* ===== verification/Rtos_Queue.thy ===== *)
theory Rtos_Queue
  imports Interfaces
begin

text \<open>
  FreeRTOS queues, \<open>src/include/freertos/queue.h\<close>: a bounded deque of fixed-size items
  behind a mutex and two condition variables. Every operation is one critical section; where it
  blocks, \<open>wait_for\<close> lets the other threads act, by operations of this interface. The
  lemmas show that the bound and the item size are kept by every operation and so by whatever
  the other threads do, that items come out in the order they went in, and the result of every
  branch.
\<close>

section \<open>State\<close>

record queue =
  itemSize :: nat
  maxLength :: nat
  items :: "byte list list"

definition queue_inv :: "queue \<Rightarrow> bool" where
  [inv_simps]: "queue_inv q \<longleftrightarrow>
    length (items q) \<le> maxLength q \<and> (\<forall>x \<in> set (items q). length x = itemSize q)"

section \<open>Operations\<close>

definition xQueueCreate :: "u32 \<Rightarrow> u32 \<Rightarrow> queue" where
  "xQueueCreate uxQueueLength uxItemSize =
    \<lparr>itemSize = unat uxItemSize, maxLength = unat uxQueueLength, items = []\<rparr>"

definition queue_timeout :: "u32 \<Rightarrow> nat" where
  "queue_timeout ticks = (if ticks = portMAX_DELAY then 60000 else unat ticks)"

definition queue_has_room :: "queue \<Rightarrow> bool" where
  "queue_has_room q \<longleftrightarrow> length (items q) < maxLength q"

text \<open>
  \<open>pvItemToQueue\<close> is the caller's memory from the pointer on; the operation copies its
  first \<open>itemSize\<close> bytes.
\<close>

definition xQueueSend ::
  "(nat \<Rightarrow> queue \<Rightarrow> queue) \<Rightarrow> queue \<Rightarrow> byte list \<Rightarrow> u32 \<Rightarrow> int \<times> queue" where
  "xQueueSend env q pvItemToQueue xTicksToWait =
    (if length (items q) \<ge> maxLength q then
       if xTicksToWait = 0 then (pdFAIL, q)
       else (case wait_for queue_has_room env (queue_timeout xTicksToWait) q of
               (ready, q') \<Rightarrow>
                 if \<not> ready then (pdFAIL, q')
                 else (pdPASS, q'\<lparr>items := items q' @ [take (itemSize q') pvItemToQueue]\<rparr>))
     else (pdPASS, q\<lparr>items := items q @ [take (itemSize q) pvItemToQueue]\<rparr>))"

definition xQueueSendToBack ::
  "(nat \<Rightarrow> queue \<Rightarrow> queue) \<Rightarrow> queue \<Rightarrow> byte list \<Rightarrow> u32 \<Rightarrow> int \<times> queue" where
  "xQueueSendToBack env q pvItemToQueue xTicksToWait = xQueueSend env q pvItemToQueue xTicksToWait"

definition xQueueSendToFront ::
  "(nat \<Rightarrow> queue \<Rightarrow> queue) \<Rightarrow> queue \<Rightarrow> byte list \<Rightarrow> u32 \<Rightarrow> int \<times> queue" where
  "xQueueSendToFront env q pvItemToQueue xTicksToWait =
    (if length (items q) \<ge> maxLength q then
       if xTicksToWait = 0 then (pdFAIL, q)
       else (case wait_for queue_has_room env (queue_timeout xTicksToWait) q of
               (ready, q') \<Rightarrow>
                 if \<not> ready then (pdFAIL, q')
                 else (pdPASS, q'\<lparr>items := take (itemSize q') pvItemToQueue # items q'\<rparr>))
     else (pdPASS, q\<lparr>items := take (itemSize q) pvItemToQueue # items q\<rparr>))"

definition queue_not_empty :: "queue \<Rightarrow> bool" where
  "queue_not_empty q \<longleftrightarrow> items q \<noteq> []"

text \<open>The bytes written to \<open>pvBuffer\<close> are the second component, \<open>None\<close> where it is
  left untouched.\<close>

definition xQueueReceive ::
  "(nat \<Rightarrow> queue \<Rightarrow> queue) \<Rightarrow> queue \<Rightarrow> u32 \<Rightarrow> int \<times> byte list option \<times> queue" where
  "xQueueReceive env q xTicksToWait =
    (if items q = [] then
       if xTicksToWait = 0 then (pdFAIL, None, q)
       else (case wait_for queue_not_empty env (queue_timeout xTicksToWait) q of
               (ready, q') \<Rightarrow>
                 if \<not> ready then (pdFAIL, None, q')
                 else (pdPASS, Some (take (itemSize q') (hd (items q'))),
                       q'\<lparr>items := tl (items q')\<rparr>))
     else (pdPASS, Some (take (itemSize q) (hd (items q))), q\<lparr>items := tl (items q)\<rparr>))"

definition xQueuePeek ::
  "(nat \<Rightarrow> queue \<Rightarrow> queue) \<Rightarrow> queue \<Rightarrow> u32 \<Rightarrow> int \<times> byte list option \<times> queue" where
  "xQueuePeek env q xTicksToWait =
    (if items q = [] then
       if xTicksToWait = 0 then (pdFAIL, None, q)
       else (case wait_for queue_not_empty env (queue_timeout xTicksToWait) q of
               (ready, q') \<Rightarrow>
                 if \<not> ready then (pdFAIL, None, q')
                 else (pdPASS, Some (take (itemSize q') (hd (items q'))), q'))
     else (pdPASS, Some (take (itemSize q) (hd (items q))), q))"

definition uxQueueMessagesWaiting :: "queue \<Rightarrow> u32" where
  "uxQueueMessagesWaiting q = word_of_nat (length (items q))"

definition uxQueueSpacesAvailable :: "queue \<Rightarrow> u32" where
  "uxQueueSpacesAvailable q = word_of_int (int (maxLength q) - int (length (items q)))"

definition xQueueReset :: "queue \<Rightarrow> int \<times> queue" where
  "xQueueReset q = (pdPASS, q\<lparr>items := []\<rparr>)"

text \<open>Handles are addresses of live objects; deleting one ends its lifetime.\<close>

definition vQueueDelete :: "nat \<Rightarrow> (nat \<rightharpoonup> queue) \<Rightarrow> (nat \<rightharpoonup> queue)" where
  "vQueueDelete xQueue hp = hp(xQueue := None)"

text \<open>The ISR variants write \<open>pdFALSE\<close> through the task-woken pointer when there is one.\<close>

definition xQueueSendFromISR ::
  "(nat \<Rightarrow> queue \<Rightarrow> queue) \<Rightarrow> queue \<Rightarrow> byte list \<Rightarrow> bool \<Rightarrow> int \<times> int option \<times> queue" where
  "xQueueSendFromISR env q pvItemToQueue hasWoken =
    (case xQueueSend env q pvItemToQueue 0 of
       (r, q') \<Rightarrow> (r, if hasWoken then Some pdFALSE else None, q'))"

definition xQueueReceiveFromISR ::
  "(nat \<Rightarrow> queue \<Rightarrow> queue) \<Rightarrow> queue \<Rightarrow> bool \<Rightarrow> int \<times> int option \<times> byte list option \<times> queue" where
  "xQueueReceiveFromISR env q hasWoken =
    (case xQueueReceive env q 0 of
       (r, out, q') \<Rightarrow> (r, if hasWoken then Some pdFALSE else None, out, q'))"

lemmas queue_op_defs =
  xQueueSend_def xQueueSendToBack_def xQueueSendToFront_def xQueueReceive_def xQueuePeek_def
  xQueueReset_def xQueueSendFromISR_def xQueueReceiveFromISR_def

section \<open>The machine of all operations\<close>

datatype queue_op =
    SendToBack "byte list" u32
  | SendToFront "byte list" u32
  | Receive u32
  | Peek u32
  | SendFromISR "byte list"
  | ReceiveFromISR
  | Reset

text \<open>The caller owns at least \<open>itemSize\<close> bytes behind the pointer it passes.\<close>

fun queue_op_ok :: "nat \<Rightarrow> queue_op \<Rightarrow> bool" where
  "queue_op_ok n (SendToBack x t) \<longleftrightarrow> n \<le> length x"
| "queue_op_ok n (SendToFront x t) \<longleftrightarrow> n \<le> length x"
| "queue_op_ok n (SendFromISR x) \<longleftrightarrow> n \<le> length x"
| "queue_op_ok n _ \<longleftrightarrow> True"

fun queue_step :: "(nat \<Rightarrow> queue \<Rightarrow> queue) \<Rightarrow> queue_op \<Rightarrow> queue \<Rightarrow> queue" where
  "queue_step env (SendToBack x t) q = snd (xQueueSendToBack env q x t)"
| "queue_step env (SendToFront x t) q = snd (xQueueSendToFront env q x t)"
| "queue_step env (Receive t) q = snd (snd (xQueueReceive env q t))"
| "queue_step env (Peek t) q = snd (snd (xQueuePeek env q t))"
| "queue_step env (SendFromISR x) q = snd (snd (xQueueSendFromISR env q x True))"
| "queue_step env ReceiveFromISR q = snd (snd (snd (xQueueReceiveFromISR env q True)))"
| "queue_step env Reset q = snd (xQueueReset q)"

definition queue_shaped :: "nat \<Rightarrow> nat \<Rightarrow> queue \<Rightarrow> bool" where
  [inv_simps]: "queue_shaped n m q \<longleftrightarrow> queue_inv q \<and> itemSize q = n \<and> maxLength q = m"

lemma queue_inv_create [simp]: "queue_inv (xQueueCreate l s)"
  by (simp add: xQueueCreate_def inv_simps)

section \<open>What each operation does\<close>

text \<open>
  The state an operation acts on is the one it found or, when it had to wait, the one the
  other threads left: \<open>queue_after_wait\<close>.
\<close>

definition queue_after_wait :: "(nat \<Rightarrow> queue \<Rightarrow> queue) \<Rightarrow> u32 \<Rightarrow> queue \<Rightarrow> queue \<Rightarrow> bool" where
  "queue_after_wait env t q w \<longleftrightarrow> w = q \<or> (t \<noteq> 0 \<and> w = env (queue_timeout t) q)"

lemma after_wait_shaped:
  "queue_after_wait env t q w \<Longrightarrow> env_keeps I env \<Longrightarrow> I q \<Longrightarrow> I w"
  by (auto simp: queue_after_wait_def env_keeps_def)

lemma xQueueSend_cases:
  assumes "xQueueSend env q x t = (r, q')"
  obtains (Full) w where "queue_after_wait env t q w" "r = pdFAIL" "q' = w"
      "\<not> queue_has_room w"
    | (Sent) w where "queue_after_wait env t q w" "r = pdPASS" "queue_has_room w"
      "q' = w\<lparr>items := items w @ [take (itemSize w) x]\<rparr>"
  using assms that(1) that(2) [of q] that(2) [of "env (queue_timeout t) q"]
  by (auto simp: xQueueSend_def wait_for_def queue_after_wait_def queue_has_room_def
           split: if_splits)

lemma xQueueSendToFront_cases:
  assumes "xQueueSendToFront env q x t = (r, q')"
  obtains (Full) w where "queue_after_wait env t q w" "r = pdFAIL" "q' = w"
      "\<not> queue_has_room w"
    | (Sent) w where "queue_after_wait env t q w" "r = pdPASS" "queue_has_room w"
      "q' = w\<lparr>items := take (itemSize w) x # items w\<rparr>"
  using assms that(1) that(2) [of q] that(2) [of "env (queue_timeout t) q"]
  by (auto simp: xQueueSendToFront_def wait_for_def queue_after_wait_def queue_has_room_def
           split: if_splits)

lemma xQueueReceive_cases:
  assumes "xQueueReceive env q t = (r, out, q')"
  obtains (Empty) w where "queue_after_wait env t q w" "r = pdFAIL" "out = None" "q' = w"
      "items w = []"
    | (Taken) w where "queue_after_wait env t q w" "r = pdPASS" "items w \<noteq> []"
      "out = Some (take (itemSize w) (hd (items w)))" "q' = w\<lparr>items := tl (items w)\<rparr>"
  using assms
  by (auto simp: xQueueReceive_def wait_for_def queue_after_wait_def queue_not_empty_def
           split: if_splits)

lemma xQueuePeek_cases:
  assumes "xQueuePeek env q t = (r, out, q')"
  obtains (Empty) w where "queue_after_wait env t q w" "r = pdFAIL" "out = None" "q' = w"
      "items w = []"
    | (Seen) w where "queue_after_wait env t q w" "r = pdPASS" "items w \<noteq> []"
      "out = Some (take (itemSize w) (hd (items w)))" "q' = w"
  using assms
  by (auto simp: xQueuePeek_def wait_for_def queue_after_wait_def queue_not_empty_def
           split: if_splits)

section \<open>Invariant\<close>

lemma shaped_push_back:
  "queue_shaped n m w \<Longrightarrow> queue_has_room w \<Longrightarrow> n \<le> length x \<Longrightarrow>
   queue_shaped n m (w\<lparr>items := items w @ [take (itemSize w) x]\<rparr>)"
  by (auto simp: inv_simps queue_has_room_def)

lemma shaped_push_front:
  "queue_shaped n m w \<Longrightarrow> queue_has_room w \<Longrightarrow> n \<le> length x \<Longrightarrow>
   queue_shaped n m (w\<lparr>items := take (itemSize w) x # items w\<rparr>)"
  by (auto simp: inv_simps queue_has_room_def)

lemma shaped_pop:
  "queue_shaped n m w \<Longrightarrow> queue_shaped n m (w\<lparr>items := tl (items w)\<rparr>)"
  by (cases "items w") (auto simp: inv_simps)

lemma shaped_clear: "queue_shaped n m w \<Longrightarrow> queue_shaped n m (w\<lparr>items := []\<rparr>)"
  by (auto simp: inv_simps)

lemma xQueueSend_shaped:
  "env_keeps (queue_shaped n m) env \<Longrightarrow> queue_shaped n m q \<Longrightarrow> n \<le> length x \<Longrightarrow> xQueueSend env q x t = (r, q') \<Longrightarrow>
   queue_shaped n m q'"
  by (erule xQueueSend_cases) (auto intro: shaped_push_back after_wait_shaped)

lemma xQueueSendToFront_shaped:
  "env_keeps (queue_shaped n m) env \<Longrightarrow> queue_shaped n m q \<Longrightarrow> n \<le> length x \<Longrightarrow> xQueueSendToFront env q x t = (r, q') \<Longrightarrow>
   queue_shaped n m q'"
  by (erule xQueueSendToFront_cases) (auto intro: shaped_push_front after_wait_shaped)

lemma xQueueReceive_shaped:
  "env_keeps (queue_shaped n m) env \<Longrightarrow> queue_shaped n m q \<Longrightarrow> xQueueReceive env q t = (r, out, q') \<Longrightarrow> queue_shaped n m q'"
  by (erule xQueueReceive_cases) (auto intro: shaped_pop after_wait_shaped)

lemma xQueuePeek_shaped:
  "env_keeps (queue_shaped n m) env \<Longrightarrow> queue_shaped n m q \<Longrightarrow> xQueuePeek env q t = (r, out, q') \<Longrightarrow> queue_shaped n m q'"
  by (erule xQueuePeek_cases) (auto intro: after_wait_shaped)

lemma queue_step_shaped:
  assumes "queue_shaped n m q" "queue_op_ok n op" "env_keeps (queue_shaped n m) env"
  shows "queue_shaped n m (queue_step env op q)"
  using assms
  by (cases op)
     (auto simp: xQueueSendToBack_def xQueueSendFromISR_def xQueueReceiveFromISR_def
                 xQueueReset_def snd_def shaped_clear
           split: prod.splits
           intro: xQueueSend_shaped xQueueSendToFront_shaped xQueueReceive_shaped
                  xQueuePeek_shaped)


section \<open>The other threads\<close>

text \<open>
  What the other threads can do to the queue while one of them is blocked in
  \<open>cv.wait_for\<close> (the mutex is released there): any schedule of operations of this
  interface, chosen freely from the timeout and the state, each of which may itself block and
  be overtaken by further threads. \<open>queue_others n\<close> holds of exactly the interferences that
  arise in this way, with \<open>n\<close> the bytes every sender owns behind its pointer; it says nothing
  about the bound.
\<close>

definition queue_sched ::
  "(nat \<Rightarrow> queue \<Rightarrow> ((nat \<Rightarrow> queue \<Rightarrow> queue) \<times> queue_op) list) \<Rightarrow> nat \<Rightarrow> queue \<Rightarrow> queue" where
  "queue_sched sched ms q = fold (\<lambda>eo. queue_step (fst eo) (snd eo)) (sched ms q) q"

inductive queue_others :: "nat \<Rightarrow> (nat \<Rightarrow> queue \<Rightarrow> queue) \<Rightarrow> bool" for n where
  idle: "queue_others n env_idle"
| acts: "(\<And>ms q e op. (e, op) \<in> set (sched ms q) \<Longrightarrow> queue_others n e) \<Longrightarrow>
    (\<And>ms q e op. (e, op) \<in> set (sched ms q) \<Longrightarrow> queue_op_ok n op) \<Longrightarrow>
    queue_others n (queue_sched sched)"

lemma queue_fold_shaped:
  "queue_shaped n m q \<Longrightarrow>
   (\<And>e op. (e, op) \<in> set tr \<Longrightarrow> env_keeps (queue_shaped n m) e \<and> queue_op_ok n op) \<Longrightarrow>
   queue_shaped n m (fold (\<lambda>eo. queue_step (fst eo) (snd eo)) tr q)"
proof (induction tr arbitrary: q)
  case (Cons eo tr)
  then show ?case by (cases eo) (auto intro!: Cons.IH queue_step_shaped)
qed simp

text \<open>That they keep the bound is a consequence of the operations they are made of.\<close>

lemma queue_others_keep: "queue_others n e \<Longrightarrow> env_keeps (queue_shaped n m) e"
proof (induction rule: queue_others.induct)
  case (acts sched)
  then show ?case by (auto simp: env_keeps_def queue_sched_def intro!: queue_fold_shaped)
qed simp

text \<open>
  Schedules lose nothing by consisting of whole operations. An operation that had to wait has,
  once the others have acted, exactly the effect and the result of the same operation begun
  then with a timeout of zero: of an operation that is overtaken, the part after the wait
  appears in the schedule of the overtaker as such an operation of its own.
\<close>

fun queue_op_now :: "queue_op \<Rightarrow> queue_op" where
  "queue_op_now (SendToBack x t) = SendToBack x 0"
| "queue_op_now (SendToFront x t) = SendToFront x 0"
| "queue_op_now (Receive t) = Receive 0"
| "queue_op_now (Peek t) = Peek 0"
| "queue_op_now op = op"

definition queue_resumed :: "(nat \<Rightarrow> queue \<Rightarrow> queue) \<Rightarrow> u32 \<Rightarrow> bool \<Rightarrow> queue \<Rightarrow> queue" where
  "queue_resumed env t blocked q = (if blocked \<and> t \<noteq> 0 then env (queue_timeout t) q else q)"

lemma queue_resumed_after_wait: "queue_after_wait env t q (queue_resumed env t b q)"
  by (simp add: queue_resumed_def queue_after_wait_def)

lemma send_resumes:
  "xQueueSend env q x t = xQueueSend env_idle (queue_resumed env t (\<not> queue_has_room q) q) x 0"
  by (simp add: queue_resumed_def xQueueSend_def wait_for_def queue_has_room_def)

lemma send_front_resumes:
  "xQueueSendToFront env q x t =
   xQueueSendToFront env_idle (queue_resumed env t (\<not> queue_has_room q) q) x 0"
  by (simp add: queue_resumed_def xQueueSendToFront_def wait_for_def queue_has_room_def)

lemma receive_resumes:
  "xQueueReceive env q t = xQueueReceive env_idle (queue_resumed env t (items q = []) q) 0"
  by (simp add: queue_resumed_def xQueueReceive_def wait_for_def queue_not_empty_def)

lemma peek_resumes:
  "xQueuePeek env q t = xQueuePeek env_idle (queue_resumed env t (items q = []) q) 0"
  by (simp add: queue_resumed_def xQueuePeek_def wait_for_def queue_not_empty_def)

lemma queue_step_resumes:
  "\<exists>t b. queue_step env op q = queue_step env_idle (queue_op_now op) (queue_resumed env t b q)"
proof (cases op)
  case (SendToBack x t)
  then have "queue_step env op q = queue_step env_idle (queue_op_now op)
      (queue_resumed env t (\<not> queue_has_room q) q)"
    using send_resumes [of env q x t] by (simp add: xQueueSendToBack_def)
  then show ?thesis by blast
next
  case (SendToFront x t)
  then have "queue_step env op q = queue_step env_idle (queue_op_now op)
      (queue_resumed env t (\<not> queue_has_room q) q)"
    using send_front_resumes [of env q x t] by simp
  then show ?thesis by blast
next
  case (Receive t)
  then have "queue_step env op q = queue_step env_idle (queue_op_now op)
      (queue_resumed env t (items q = []) q)"
    using receive_resumes [of env q t] by simp
  then show ?thesis by blast
next
  case (Peek t)
  then have "queue_step env op q = queue_step env_idle (queue_op_now op)
      (queue_resumed env t (items q = []) q)"
    using peek_resumes [of env q t] by simp
  then show ?thesis by blast
qed (auto simp: queue_resumed_def xQueueSendFromISR_def xQueueReceiveFromISR_def
       xQueueSend_def xQueueReceive_def intro!: exI [of _ 0])

definition queue_admissible :: "u32 \<Rightarrow> (nat \<Rightarrow> queue \<Rightarrow> queue) \<times> queue_op \<Rightarrow> bool" where
  "queue_admissible s eo \<longleftrightarrow> queue_op_ok (unat s) (snd eo) \<and> queue_others (unat s) (fst eo)"

interpretation queue_sys: step_system
  "\<lambda>q. q = xQueueCreate l s" "queue_admissible s"
  "\<lambda>eo. queue_step (fst eo) (snd eo)" "queue_shaped (unat s) (unat l)"
  for l s :: u32
proof unfold_locales
  fix q assume "q = xQueueCreate l s"
  then show "queue_shaped (unat s) (unat l) q"
    by (simp add: queue_shaped_def xQueueCreate_def queue_inv_def)
next
  fix q and eo :: "(nat \<Rightarrow> queue \<Rightarrow> queue) \<times> queue_op"
  assume "queue_shaped (unat s) (unat l) q" "queue_admissible s eo"
  then show "queue_shaped (unat s) (unat l) (queue_step (fst eo) (snd eo) q)"
    by (auto simp: queue_admissible_def intro: queue_step_shaped queue_others_keep)
qed

section \<open>Order of delivery\<close>

text \<open>
  The history of a run: what the senders were told was accepted and what the receivers were
  given, in the order of the critical sections.
\<close>

fun queue_log :: "queue_op \<Rightarrow> queue \<times> byte list list \<times> byte list list \<Rightarrow>
    queue \<times> byte list list \<times> byte list list" where
  "queue_log (SendToBack x t) (q, acc, del) =
    (case xQueueSendToBack env_idle q x t of
       (r, q') \<Rightarrow> (q', if r = pdPASS then acc @ [take (itemSize q) x] else acc, del))"
| "queue_log (SendFromISR x) (q, acc, del) =
    (case xQueueSendFromISR env_idle q x True of
       (r, _, q') \<Rightarrow> (q', if r = pdPASS then acc @ [take (itemSize q) x] else acc, del))"
| "queue_log (Receive t) (q, acc, del) =
    (case xQueueReceive env_idle q t of
       (r, out, q') \<Rightarrow> (q', acc, del @ (case out of None \<Rightarrow> [] | Some x \<Rightarrow> [x])))"
| "queue_log ReceiveFromISR (q, acc, del) =
    (case xQueueReceiveFromISR env_idle q True of
       (r, _, out, q') \<Rightarrow> (q', acc, del @ (case out of None \<Rightarrow> [] | Some x \<Rightarrow> [x])))"
| "queue_log op (q, acc, del) = (queue_step env_idle op q, acc, del)"

fun fifo_op :: "queue_op \<Rightarrow> bool" where
  "fifo_op (SendToFront x t) = False"
| "fifo_op Reset = False"
| "fifo_op _ = True"

definition queue_fifo_inv :: "nat \<Rightarrow> nat \<Rightarrow> queue \<times> byte list list \<times> byte list list \<Rightarrow> bool" where
  "queue_fifo_inv n m h \<longleftrightarrow>
    (case h of (q, acc, del) \<Rightarrow> queue_shaped n m q \<and> acc = del @ items q)"

lemma idle_wait [simp]: "queue_after_wait env_idle t q w \<longleftrightarrow> w = q"
  by (auto simp: queue_after_wait_def env_idle_def)

lemma queue_log_send:
  assumes "queue_fifo_inv n m (q, acc, del)" "n \<le> length x"
    "xQueueSend env_idle q x t = (r, q')"
  shows "queue_fifo_inv n m (q', if r = pdPASS then acc @ [take (itemSize q) x] else acc, del)"
  using assms(3)
proof (cases rule: xQueueSend_cases)
  case (Full w)
  then show ?thesis using assms(1) by simp
next
  case (Sent w)
  then show ?thesis using assms(1,2) shaped_push_back [of n m q x]
    by (simp add: queue_fifo_inv_def)
qed

lemma queue_log_receive:
  assumes "queue_fifo_inv n m (q, acc, del)" "xQueueReceive env_idle q t = (r, out, q')"
  shows "queue_fifo_inv n m (q', acc, del @ (case out of None \<Rightarrow> [] | Some x \<Rightarrow> [x]))"
  using assms(2)
proof (cases rule: xQueueReceive_cases)
  case (Empty w)
  then show ?thesis using assms(1) by simp
next
  case (Taken w)
  moreover from Taken assms(1) have "take (itemSize q) (hd (items q)) = hd (items q)"
    by (cases "items q") (auto simp: queue_fifo_inv_def inv_simps)
  ultimately show ?thesis using assms(1) shaped_pop [of n m q]
    by (simp add: queue_fifo_inv_def)
qed

lemma queue_log_peek:
  assumes "queue_fifo_inv n m (q, acc, del)" "xQueuePeek env_idle q t = (r, out, q')"
  shows "queue_fifo_inv n m (q', acc, del)"
  using assms(2) by (cases rule: xQueuePeek_cases) (use assms(1) in auto)

lemmas queue_log_rules =
  queue_log_receive [rotated 1] queue_log_peek [rotated 1]

lemma queue_log_inv:
  assumes "queue_fifo_inv n m h" "queue_op_ok n op" "fifo_op op"
  shows "queue_fifo_inv n m (queue_log op h)"
proof (cases h)
  case (fields q acc del)
  with assms show ?thesis
    by (cases op)
       (auto simp: xQueueSendToBack_def xQueueSendFromISR_def xQueueReceiveFromISR_def
                   snd_def
             split: prod.splits intro: queue_log_rules dest: queue_log_send)
qed

lemma queue_fifo_inv_start:
  "queue_fifo_inv (unat s) (unat l) (xQueueCreate l s, [], [])"
  by (simp add: queue_fifo_inv_def queue_shaped_def queue_inv_def xQueueCreate_def)

interpretation queue_hist: step_system
  "\<lambda>h. h = (xQueueCreate l s, [], [])" "\<lambda>op. queue_op_ok (unat s) op \<and> fifo_op op"
  queue_log "queue_fifo_inv (unat s) (unat l)"
  for l s :: u32
  by unfold_locales (auto simp: queue_fifo_inv_start intro: queue_log_inv)

section \<open>Properties\<close>

text \<open>
  C5: whatever sequence of queue operations all the threads perform on a fresh queue, and
  whatever operations of this interface the other threads perform while one of them is blocked
  (to any depth: those may block and be overtaken in turn), the queue never holds more than
  \<open>uxQueueLength\<close> items and every item has exactly \<open>uxItemSize\<close> bytes; the callers own
  \<open>uxItemSize\<close> bytes behind the pointers they send from.
\<close>

theorem queue_bounded_under_interference:
  assumes "list_all (queue_admissible s) tr"
  shows "queue_shaped (unat s) (unat l)
    (fold (\<lambda>eo. queue_step (fst eo) (snd eo)) tr (xQueueCreate l s))"
  using assms by (intro queue_sys.inv_run) simp_all

text \<open>
  A full queue of one item: the second sender blocks, another thread receives the first item
  and sends twice, the second time in vain, and a third one receives again.
\<close>

definition queue_rival :: "nat \<Rightarrow> queue \<Rightarrow> queue" where
  "queue_rival = queue_sched (\<lambda>ms q. [(env_idle, Receive 0), (env_idle, SendToBack [5] 0),
     (queue_sched (\<lambda>ms q. [(env_idle, Receive 0)]), SendToBack [6] 1),
     (env_idle, Receive 0)])"

lemma queue_rival_others: "queue_others 1 queue_rival"
  unfolding queue_rival_def
  by (rule queue_others.acts) (auto intro!: queue_others.idle queue_others.acts)

theorem queue_bounded_under_interference_witness:
  "queue_shaped 1 1
    (fold (\<lambda>eo. queue_step (fst eo) (snd eo))
      [(env_idle, SendToBack [7] 0), (queue_rival, SendToBack [8] portMAX_DELAY)]
      (xQueueCreate 1 1)) \<and>
   fold (\<lambda>eo. queue_step (fst eo) (snd eo))
      [(env_idle, SendToBack [7] 0), (queue_rival, SendToBack [8] portMAX_DELAY)]
      (xQueueCreate 1 1) = \<lparr>itemSize = 1, maxLength = 1, items = [[8]]\<rparr>"
proof
  show "queue_shaped 1 1
    (fold (\<lambda>eo. queue_step (fst eo) (snd eo))
      [(env_idle, SendToBack [7] 0), (queue_rival, SendToBack [8] portMAX_DELAY)]
      (xQueueCreate 1 1))"
    using queue_bounded_under_interference
      [of 1 "[(env_idle, SendToBack [7] 0), (queue_rival, SendToBack [8] portMAX_DELAY)]" 1]
      queue_rival_others
    by (simp add: queue_admissible_def queue_others.idle)
  show "fold (\<lambda>eo. queue_step (fst eo) (snd eo))
      [(env_idle, SendToBack [7] 0), (queue_rival, SendToBack [8] portMAX_DELAY)]
      (xQueueCreate 1 1) = \<lparr>itemSize = 1, maxLength = 1, items = [[8]]\<rparr>"
    by (simp add: queue_rival_def queue_sched_def queue_op_defs wait_for_def queue_has_room_def
                  xQueueCreate_def)
qed

text \<open>
  C4: first in, first out. In any run of back-sends, receives and peeks (ISR variants
  included) the items accepted so far are the items delivered so far followed by the items still
  queued, in order: nothing is lost, duplicated or overtaken.
\<close>

theorem queue_fifo:
  assumes "list_all (\<lambda>op. queue_op_ok (unat s) op \<and> fifo_op op) ops"
    and "fold queue_log ops (xQueueCreate l s, [], []) = (q, acc, del)"
  shows "acc = del @ items q"
  using queue_hist.inv_run [OF refl assms(1), of l] assms(2)
  by (simp add: queue_fifo_inv_def)

theorem queue_fifo_witness:
  "fold queue_log [SendToBack [1, 9] 0, SendToBack [2] 0, SendToBack [3] 0, Receive 0]
     (xQueueCreate 2 1, [], []) =
   (\<lparr>itemSize = 1, maxLength = 2, items = [[2]]\<rparr>, [[1], [2]], [[1]]) \<and>
   [[1], [2]] = [[1 :: byte]] @ [[2]]"
proof -
  let ?ops = "[SendToBack [1, 9] 0, SendToBack [2] 0, SendToBack [3] 0, Receive 0]"
  have run: "fold queue_log ?ops (xQueueCreate 2 1, [], []) =
      (\<lparr>itemSize = 1, maxLength = 2, items = [[2]]\<rparr>, [[1], [2]], [[1]])"
    by (simp add: xQueueCreate_def queue_op_defs)
  with queue_fifo [of 1 ?ops 2, OF _ run] show ?thesis by simp
qed

text \<open>
  A back-send succeeds exactly when there is room at once or, with a non-zero timeout,
  room when the wait ends; otherwise it returns \<open>pdFAIL\<close> and adds nothing.
\<close>

theorem queue_send_result:
  "xQueueSend env q x t =
    (let w = (if queue_has_room q \<or> t = 0 then q else env (queue_timeout t) q)
     in if queue_has_room w then (pdPASS, w\<lparr>items := items w @ [take (itemSize w) x]\<rparr>)
        else (pdFAIL, w))"
  by (auto simp: xQueueSend_def queue_has_room_def wait_for_def Let_def)

text \<open>An item sent to the front overtakes everything queued: the next receive returns it
  and leaves the queue as it was.\<close>

theorem queue_front_then_receive:
  assumes "xQueueSendToFront env q x t = (pdPASS, q')" "itemSize q = length x"
    and "queue_has_room q"
  shows "xQueueReceive env' q' t' = (pdPASS, Some x, q)"
  using assms by (auto simp: xQueueSendToFront_def xQueueReceive_def queue_has_room_def)

theorem queue_front_then_receive_witness:
  "xQueueReceive env_idle
     (snd (xQueueSendToFront env_idle \<lparr>itemSize = 1, maxLength = 2, items = [[5]]\<rparr> [6] 0)) 0 =
   (pdPASS, Some [6], \<lparr>itemSize = 1, maxLength = 2, items = [[5]]\<rparr>)"
  by (rule queue_front_then_receive [where env = env_idle and x = "[6]" and t = 0])
     (simp_all add: xQueueSendToFront_def queue_has_room_def)

end
