(* ===== verification/Rtos_Task.thy ===== *)
theory Rtos_Task
  imports Interfaces
begin

unbundle bit_operations_syntax

text \<open>
  The FreeRTOS kernel shim, \<open>src/include/freertos/FreeRTOS.h\<close>: the task list, the mutex
  behind \<open>SemaphoreHandle_t\<close>, and direct-to-task notifications (a 32 bit value and a pending
  flag per task). The lemmas give the notification value and flag after every action, and show
  that give/take is a counting semaphore modulo the 32 bit wrap.
\<close>

section \<open>State\<close>

record notification =
  nvalue :: u32
  npending :: bool

record task =
  tname :: string
  running :: bool
  notif :: notification

datatype notify_action =
    eNoAction | eSetBits | eIncrement | eSetValueWithOverwrite | eSetValueWithoutOverwrite

text \<open>Task records live on the heap; \<open>taskList\<close> holds the handles in creation order.\<close>

record rtos =
  taskObjs :: "nat \<rightharpoonup> task"
  taskList :: "nat list"
  nextObj :: nat

definition task_new :: "string option \<Rightarrow> task" where
  "task_new pcName =
    \<lparr>tname = (case pcName of None \<Rightarrow> ''task'' | Some n \<Rightarrow> n), running = True,
     notif = \<lparr>nvalue = 0, npending = False\<rparr>\<rparr>"

section \<open>Tasks\<close>

definition xTaskCreate :: "rtos \<Rightarrow> string option \<Rightarrow> int \<times> nat \<times> rtos" where
  "xTaskCreate k pcName =
    (let h = nextObj k
     in (pdPASS, h, k\<lparr>taskObjs := (taskObjs k)(h \<mapsto> task_new pcName),
                      taskList := taskList k @ [h], nextObj := Suc h\<rparr>))"

definition xTaskCreatePinnedToCore :: "rtos \<Rightarrow> string option \<Rightarrow> int \<Rightarrow> int \<times> nat \<times> rtos" where
  "xTaskCreatePinnedToCore k pcName coreId = xTaskCreate k pcName"

text \<open>\<open>NULL\<close> names the calling task, whose record is left alone; a dead handle is undefined
  behaviour (\<open>None\<close>).\<close>

definition vTaskDelete :: "rtos \<Rightarrow> nat option \<Rightarrow> rtos option" where
  "vTaskDelete k xTask =
    (case xTask of
       None \<Rightarrow> Some k
     | Some h \<Rightarrow> (case taskObjs k h of
         None \<Rightarrow> None
       | Some t \<Rightarrow> Some (k\<lparr>taskObjs := (taskObjs k)(h \<mapsto> t\<lparr>running := False\<rparr>)\<rparr>)))"

text \<open>Swap the list out, then stop, join and free each task.\<close>

definition cleanupTasks :: "rtos \<Rightarrow> rtos" where
  "cleanupTasks k =
    k\<lparr>taskObjs := fold (\<lambda>h objs. objs(h := None)) (taskList k) (taskObjs k), taskList := []\<rparr>"

definition uxTaskGetStackHighWaterMark :: "nat \<Rightarrow> u32" where
  "uxTaskGetStackHighWaterMark xTask = 4096"

definition rtos_inv :: "rtos \<Rightarrow> bool" where
  [inv_simps]: "rtos_inv k \<longleftrightarrow> distinct (taskList k) \<and> set (taskList k) = dom (taskObjs k) \<and>
    (\<forall>h \<in> dom (taskObjs k). h < nextObj k)"

lemma fold_free: "fold (\<lambda>h objs. objs(h := None)) hs objs = objs |` (- set hs)"
  by (induction hs arbitrary: objs) (auto simp: restrict_map_def fun_eq_iff)

lemma rtos_create_inv:
  "rtos_inv k \<Longrightarrow> xTaskCreate k n = (r, h, k') \<Longrightarrow> rtos_inv k' \<and> taskObjs k h = None"
  by (auto simp: xTaskCreate_def inv_simps Let_def intro!: less_SucI split: if_splits)

lemma rtos_delete_inv: "rtos_inv k \<Longrightarrow> vTaskDelete k x = Some k' \<Longrightarrow> rtos_inv k'"
  by (auto simp: vTaskDelete_def inv_simps split: option.splits if_splits)

lemma rtos_cleanup_inv: "rtos_inv k \<Longrightarrow> rtos_inv (cleanupTasks k)"
  by (auto simp: cleanupTasks_def inv_simps fold_free)

section \<open>Mutexes\<close>

record semaphore =
  locked :: bool

definition xSemaphoreCreateMutex :: semaphore where
  "xSemaphoreCreateMutex = \<lparr>locked = False\<rparr>"

text \<open>\<open>xTicksToWait\<close> is ignored: the call is \<open>mtx->lock()\<close>, which returns only once it
  owns the mutex (\<open>None\<close> is a caller blocked for good).\<close>

definition xSemaphoreTake ::
  "(semaphore \<Rightarrow> semaphore) \<Rightarrow> semaphore \<Rightarrow> u32 \<Rightarrow> (int \<times> semaphore) option" where
  "xSemaphoreTake env s xTicksToWait =
    map_option (\<lambda>s. (pdTRUE, s\<lparr>locked := True\<rparr>)) (wait_forever (\<lambda>s. \<not> locked s) env s)"

definition xSemaphoreGive :: "semaphore \<Rightarrow> (int \<times> semaphore) option" where
  "xSemaphoreGive s = (if locked s then Some (pdTRUE, s\<lparr>locked := False\<rparr>) else None)"

definition vSemaphoreDelete :: "nat \<Rightarrow> (nat \<rightharpoonup> semaphore) \<Rightarrow> (nat \<rightharpoonup> semaphore)" where
  "vSemaphoreDelete h hp = hp(h := None)"

section \<open>Notifications\<close>

definition xTaskNotify :: "task \<Rightarrow> u32 \<Rightarrow> notify_action \<Rightarrow> int \<times> task" where
  "xTaskNotify t ulValue eAction =
    (let n = notif t;
         done = (\<lambda>n. (pdPASS, t\<lparr>notif := n\<lparr>npending := True\<rparr>\<rparr>))
     in case eAction of
          eSetBits \<Rightarrow> done (n\<lparr>nvalue := nvalue n OR ulValue\<rparr>)
        | eIncrement \<Rightarrow> done (n\<lparr>nvalue := nvalue n + 1\<rparr>)
        | eSetValueWithOverwrite \<Rightarrow> done (n\<lparr>nvalue := ulValue\<rparr>)
        | eSetValueWithoutOverwrite \<Rightarrow>
            if npending n then (pdFAIL, t) else done (n\<lparr>nvalue := ulValue\<rparr>)
        | eNoAction \<Rightarrow> done n)"

definition xTaskNotifyGive :: "task \<Rightarrow> int \<times> task" where
  "xTaskNotifyGive t = xTaskNotify t 0 eIncrement"

text \<open>The two waiting calls act on \<open>currentTask\<close>, \<open>None\<close> outside a task. \<open>env\<close> is what
  notifiers do to this task's record during the wait.\<close>

definition notify_wait :: "(nat \<Rightarrow> task \<Rightarrow> task) \<Rightarrow> task \<Rightarrow> u32 \<Rightarrow> task" where
  "notify_wait env t xTicksToWait =
    (if \<not> npending (notif t) \<and> xTicksToWait > 0
     then snd (wait_for (\<lambda>t. npending (notif t)) env (unat xTicksToWait) t) else t)"

definition ulTaskNotifyTake ::
  "(nat \<Rightarrow> task \<Rightarrow> task) \<Rightarrow> task option \<Rightarrow> bool \<Rightarrow> u32 \<Rightarrow> u32 \<times> task option" where
  "ulTaskNotifyTake env cur xClearCountOnExit xTicksToWait =
    (case cur of
       None \<Rightarrow> (0, None)
     | Some t0 \<Rightarrow>
         let t = notify_wait env t0 xTicksToWait; n = notif t in
         if \<not> npending n then (0, Some t)
         else let val = nvalue n;
                  v' = (if xClearCountOnExit then 0 else if val > 0 then val - 1 else val)
              in (val, Some (t\<lparr>notif := \<lparr>nvalue = v', npending = (v' > 0)\<rparr>\<rparr>)))"

text \<open>The value is written through the pointer when there is one (\<open>hasPtr\<close>).\<close>

definition xTaskNotifyWait ::
  "(nat \<Rightarrow> task \<Rightarrow> task) \<Rightarrow> task option \<Rightarrow> u32 \<Rightarrow> u32 \<Rightarrow> bool \<Rightarrow> u32 \<Rightarrow>
   int \<times> u32 option \<times> task option" where
  "xTaskNotifyWait env cur clearOnEntry clearOnExit hasPtr xTicksToWait =
    (case cur of
       None \<Rightarrow> (pdFAIL, None, None)
     | Some t0 \<Rightarrow>
         let t1 = t0\<lparr>notif := (notif t0)\<lparr>nvalue := nvalue (notif t0) AND NOT clearOnEntry\<rparr>\<rparr>;
             t = notify_wait env t1 xTicksToWait; n = notif t in
         if \<not> npending n then (pdFAIL, None, Some t)
         else (pdPASS, if hasPtr then Some (nvalue n) else None,
               Some (t\<lparr>notif := \<lparr>nvalue = nvalue n AND NOT clearOnExit, npending = False\<rparr>\<rparr>)))"

section \<open>Give and take as a counting semaphore\<close>

fun gives :: "nat \<Rightarrow> task \<Rightarrow> task" where
  "gives 0 t = t"
| "gives (Suc n) t = gives n (snd (xTaskNotifyGive t))"

fun takes :: "nat \<Rightarrow> task \<Rightarrow> u32 list \<times> task" where
  "takes 0 t = ([], t)"
| "takes (Suc n) t =
    (case ulTaskNotifyTake env_idle (Some t) False 0 of
       (v, Some t') \<Rightarrow> (case takes n t' of (vs, t'') \<Rightarrow> (v # vs, t''))
     | (v, None) \<Rightarrow> ([v], t))"

lemma give_simps [simp]:
  "snd (xTaskNotifyGive t) = t\<lparr>notif := \<lparr>nvalue = nvalue (notif t) + 1, npending = True\<rparr>\<rparr>"
  by (simp add: xTaskNotifyGive_def xTaskNotify_def Let_def)

lemma gives_state:
  "notif (gives n t) =
    (if n = 0 then notif t else \<lparr>nvalue = nvalue (notif t) + word_of_nat n, npending = True\<rparr>)"
  by (induction n arbitrary: t) (auto simp: gives.simps(2))

lemma take_pending:
  "npending (notif t) \<Longrightarrow> nvalue (notif t) > 0 \<Longrightarrow>
   ulTaskNotifyTake env_idle (Some t) False 0 =
     (nvalue (notif t),
      Some (t\<lparr>notif := \<lparr>nvalue = nvalue (notif t) - 1, npending = (nvalue (notif t) - 1 > 0)\<rparr>\<rparr>))"
  by (simp add: ulTaskNotifyTake_def notify_wait_def Let_def)

lemma take_not_pending:
  "\<not> npending (notif t) \<Longrightarrow> ulTaskNotifyTake env_idle (Some t) c 0 = (0, Some t)"
  by (simp add: ulTaskNotifyTake_def notify_wait_def Let_def)

lemma takes_Suc:
  "ulTaskNotifyTake env_idle (Some t) False 0 = (v, Some t') \<Longrightarrow>
   takes (Suc n) t = (v # fst (takes n t'), snd (takes n t'))"
  by (simp add: split_beta)

declare takes.simps(2) [simp del] gives.simps(2) [simp del]

lemma takes_drain:
  assumes "n < 2 ^ 32" "nvalue (notif t) = word_of_nat n" "npending (notif t) = (n > 0)"
  shows "fst (takes (Suc n) t) = rev (map word_of_nat [0..<Suc n]) \<and>
    notif (snd (takes (Suc n) t)) = \<lparr>nvalue = 0, npending = False\<rparr>"
  using assms
proof (induction n arbitrary: t)
  case 0
  then show ?case
    by (cases "notif t") (simp add: takes_Suc [OF take_not_pending])
next
  case (Suc n)
  let ?v = "word_of_nat (Suc n) :: u32"
  have u: "unat ?v = Suc n"
    using Suc.prems(1) by (simp only: unat_of_nat) simp
  then have pos: "?v > 0" by (metis unat_eq_zero word_gt_0 nat.distinct(1))
  have dec: "?v - 1 = word_of_nat n" by simp
  have "(word_of_nat n :: u32) > 0 \<longleftrightarrow> n > 0"
  proof -
    have "unat (word_of_nat n :: u32) = n"
      using Suc.prems(1) by (simp only: unat_of_nat) simp
    then show ?thesis by (metis unat_eq_zero word_gt_0 neq0_conv)
  qed
  then have "takes (Suc (Suc n)) t =
      (?v # fst (takes (Suc n) (t\<lparr>notif := \<lparr>nvalue = word_of_nat n, npending = (n > 0)\<rparr>\<rparr>)),
       snd (takes (Suc n) (t\<lparr>notif := \<lparr>nvalue = word_of_nat n, npending = (n > 0)\<rparr>\<rparr>)))"
    using take_pending [of t] Suc.prems pos dec by (intro takes_Suc) simp
  then show ?case
    using Suc.IH [of "t\<lparr>notif := \<lparr>nvalue = word_of_nat n, npending = (n > 0)\<rparr>\<rparr>"] Suc.prems(1)
    by simp
qed

section \<open>Properties\<close>

text \<open>
  C12: give and take form a counting semaphore. After \<open>n\<close> gives to a fresh task, successive
  takes without clearing return \<open>n\<close>, \<open>n - 1\<close>, down to 1, then 0, and leave nothing pending
  (for \<open>n\<close> below the 32 bit wrap).
\<close>

theorem notify_counting_semaphore:
  assumes "n < 2 ^ 32"
  shows "fst (takes (Suc n) (gives n (task_new name))) = rev (map word_of_nat [0..<Suc n]) \<and>
    notif (snd (takes (Suc n) (gives n (task_new name)))) = \<lparr>nvalue = 0, npending = False\<rparr>"
  using assms by (intro takes_drain) (auto simp: gives_state task_new_def)

theorem notify_counting_semaphore_witness:
  "(2::nat) < 2 ^ 32 \<and>
   fst (takes 3 (gives 2 (task_new None))) = rev (map word_of_nat [0..<3]) \<and>
   notif (snd (takes 3 (gives 2 (task_new None)))) = \<lparr>nvalue = 0, npending = False\<rparr>"
  using notify_counting_semaphore [of 2 None] by simp

text \<open>
  A notification that must not overwrite fails exactly when one is pending, and then changes
  nothing; every other action succeeds and leaves the task pending.
\<close>

theorem notify_result:
  "xTaskNotify t v a =
    (if a = eSetValueWithoutOverwrite \<and> npending (notif t) then (pdFAIL, t)
     else (pdPASS, t\<lparr>notif := \<lparr>nvalue =
       (case a of eSetBits \<Rightarrow> nvalue (notif t) OR v | eIncrement \<Rightarrow> nvalue (notif t) + 1
                | eNoAction \<Rightarrow> nvalue (notif t) | _ \<Rightarrow> v), npending = True\<rparr>\<rparr>))"
  by (cases a) (simp_all add: xTaskNotify_def Let_def)

text \<open>Taking a mutex that is held and never released does not return, whatever timeout the
  caller gives.\<close>

theorem semaphore_take_ignores_timeout:
  "xSemaphoreTake id (snd (the (xSemaphoreTake id xSemaphoreCreateMutex t))) t' = None"
  by (simp add: xSemaphoreTake_def wait_forever_def xSemaphoreCreateMutex_def)

text \<open>
  The task list always names exactly the live task records, each once: creating a task
  yields a fresh handle, deleting one keeps its record, and the clean-up frees every record.
\<close>

theorem task_list_consistent:
  assumes "rtos_inv k"
  shows "(xTaskCreate k n = (r, h, k') \<longrightarrow> rtos_inv k' \<and> taskObjs k h = None \<and> h \<in> set (taskList k')) \<and>
    (vTaskDelete k x = Some k'' \<longrightarrow> rtos_inv k'' \<and> taskList k'' = taskList k) \<and>
    rtos_inv (cleanupTasks k) \<and> taskObjs (cleanupTasks k) = Map.empty"
proof (intro conjI impI)
  assume c: "xTaskCreate k n = (r, h, k')"
  show "rtos_inv k'" "taskObjs k h = None"
    using rtos_create_inv [OF assms c] by simp_all
  show "h \<in> set (taskList k')"
    using c by (auto simp: xTaskCreate_def Let_def)
next
  assume d: "vTaskDelete k x = Some k''"
  show "rtos_inv k''" using rtos_delete_inv [OF assms d] .
  show "taskList k'' = taskList k"
    using d by (auto simp: vTaskDelete_def split: option.splits)
next
  show "rtos_inv (cleanupTasks k)" using rtos_cleanup_inv [OF assms] .
  show "taskObjs (cleanupTasks k) = Map.empty"
    using assms by (auto simp: cleanupTasks_def fold_free inv_simps restrict_map_def fun_eq_iff
        intro: domIff [THEN iffD1])
qed

theorem task_list_consistent_witness:
  "taskObjs (cleanupTasks (snd (snd (xTaskCreate \<lparr>taskObjs = Map.empty, taskList = [], nextObj = 0\<rparr>
     None)))) = Map.empty"
proof -
  have inv0: "rtos_inv \<lparr>taskObjs = Map.empty, taskList = [], nextObj = 0\<rparr>"
    by (simp add: inv_simps)
  obtain r h k' where c: "xTaskCreate \<lparr>taskObjs = Map.empty, taskList = [], nextObj = 0\<rparr> None = (r, h, k')"
    by (cases "xTaskCreate \<lparr>taskObjs = Map.empty, taskList = [], nextObj = 0\<rparr> None") auto
  with task_list_consistent [OF inv0] have "rtos_inv k'" by blast
  from task_list_consistent [OF this] c show ?thesis by simp
qed

end
