(* ===== verification/Packet_Radio.thy ===== *)
theory Packet_Radio
  imports Http_Text "HOL-Library.While_Combinator"
begin

text \<open>
  Receiving and sending bytes by packets and by stream: the LoRa radio of \<open>src/include/LoRa.h\<close>, the
  Bluetooth serial port of \<open>src/include/BluetoothSerial.h\<close> and the UDP socket of
  \<open>src/include/WiFiUDP.h\<close>. All three are read by the same calls, whose contract is the locale
  \<open>byte_reader\<close>: the loop a sketch reads with ends and gives the bytes in their order.
\<close>

section \<open>The contract of a reader\<close>

text \<open>The loop \<open>while (available() > 0) buf += read()\<close>; \<open>None\<close> when it does not end.\<close>

definition read_all :: "('s \<Rightarrow> int) \<Rightarrow> ('s \<Rightarrow> int \<times> 's) \<Rightarrow> 's \<Rightarrow> ('s \<times> int list) option" where
  "read_all avail read1 s =
    while_option (\<lambda>(s, _). avail s > 0) (\<lambda>(s, xs). (snd (read1 s), xs @ [fst (read1 s)])) (s, [])"

text \<open>\<open>rest\<close> is what can still be read; the result of reading is a byte or -1.\<close>

locale byte_reader =
  fixes ok :: "'s \<Rightarrow> bool"
    and rest :: "'s \<Rightarrow> byte list"
    and avail :: "'s \<Rightarrow> int"
    and read1 :: "'s \<Rightarrow> int \<times> 's"
  assumes avail_rest: "ok s \<Longrightarrow> avail s = int (length (rest s))"
    and read_none: "ok s \<Longrightarrow> rest s = [] \<Longrightarrow> read1 s = (- 1, s)"
    and read_one: "ok s \<Longrightarrow> rest s = b # bs \<Longrightarrow> fst (read1 s) = uint b \<and> rest (snd (read1 s)) = bs \<and> ok (snd (read1 s))"
begin

lemma read_value: "ok s \<Longrightarrow> fst (read1 s) = (case rest s of [] \<Rightarrow> - 1 | b # _ \<Rightarrow> uint b)"
  using read_none read_one by (auto split: list.splits)

lemma read_ok: "ok s \<Longrightarrow> ok (snd (read1 s)) \<and> rest (snd (read1 s)) = tl (rest s)"
  using read_none read_one by (cases "rest s") auto

lemma drain_from:
  assumes "ok s" "P s" "\<And>s. ok s \<Longrightarrow> P s \<Longrightarrow> P (snd (read1 s))"
  shows "\<exists>t. while_option (\<lambda>(s, _). avail s > 0) (\<lambda>(s, xs). (snd (read1 s), xs @ [fst (read1 s)])) (s, acc) =
      Some (t, acc @ map uint (rest s)) \<and> rest t = [] \<and> ok t \<and> P t"
  using assms(1,2)
proof (induction "rest s" arbitrary: s acc)
  case Nil
  then show ?case
    using avail_rest by (subst while_option_unfold) auto
next
  case (Cons b bs)
  then have b: "fst (read1 s) = uint b" "rest (snd (read1 s)) = bs" "ok (snd (read1 s))"
    using read_one by metis+
  have "avail s > 0"
    using Cons avail_rest by (metis length_greater_0_conv list.distinct(1) of_nat_0_less_iff)
  then show ?case
    using Cons.hyps(1) [OF b(2) [symmetric] b(3) assms(3) [OF Cons.prems], of "acc @ [uint b]"] Cons.hyps(2) [symmetric] b
    by (subst while_option_unfold) simp
qed

text \<open>Reading ends, gives everything and keeps whatever a single call of \<open>read\<close> keeps.\<close>

lemma drain:
  assumes "ok s" "P s" "\<And>s. ok s \<Longrightarrow> P s \<Longrightarrow> P (snd (read1 s))"
  shows "\<exists>t. read_all avail read1 s = Some (t, map uint (rest s)) \<and> rest t = [] \<and> ok t \<and> P t"
  using drain_from [where P = P, OF assms, of "[]"] by (simp add: read_all_def)

end

section \<open>LoRa\<close>

text \<open>The signal to noise ratio is a value of any type \<open>'f\<close>; the callbacks are not modelled.\<close>

record 'f lora =
  loInitialized :: bool
  loFrequency :: int
  loInTx :: bool
  loTxBuf :: "byte list"
  loLastTx :: "byte list"
  loTxCount :: u32
  loRxQueue :: "byte list list"
  loRxBuf :: "byte list"
  loRxPos :: nat
  loRxRssi :: int
  loRxSnr :: 'f
  loRssi :: int
  loSnr :: 'f
  loReceiving :: bool
  loSleeping :: bool

definition lora_new :: "'f \<Rightarrow> 'f \<Rightarrow> 'f lora" where
  "lora_new nine zero =
    \<lparr>loInitialized = False, loFrequency = 0, loInTx = False, loTxBuf = [], loLastTx = [], loTxCount = 0, loRxQueue = [],
     loRxBuf = [], loRxPos = 0, loRxRssi = - 50, loRxSnr = nine, loRssi = 0, loSnr = zero, loReceiving = False,
     loSleeping = False\<rparr>"

definition lora_begin :: "int \<Rightarrow> 'f lora \<Rightarrow> int \<times> 'f lora" where
  "lora_begin f s = (1, s\<lparr>loFrequency := f, loInitialized := True\<rparr>)"

definition lora_end :: "'f lora \<Rightarrow> 'f lora" where
  "lora_end s = s\<lparr>loInitialized := False\<rparr>"

definition lora_beginPacket :: "'f lora \<Rightarrow> int \<times> 'f lora" where
  "lora_beginPacket s = (1, s\<lparr>loTxBuf := [], loInTx := True\<rparr>)"

definition lora_endPacket :: "'f lora \<Rightarrow> int \<times> 'f lora" where
  "lora_endPacket s = (1, s\<lparr>loInTx := False, loLastTx := loTxBuf s, loTxCount := loTxCount s + 1\<rparr>)"

definition lora_write :: "byte \<Rightarrow> 'f lora \<Rightarrow> nat \<times> 'f lora" where
  "lora_write b s = (1, if loInTx s then s\<lparr>loTxBuf := loTxBuf s @ [b]\<rparr> else s)"

definition lora_write_buf :: "byte list \<Rightarrow> 'f lora \<Rightarrow> nat \<times> 'f lora" where
  "lora_write_buf bs s = (length bs, fold (\<lambda>b. snd \<circ> lora_write b) bs s)"

definition lora_parsePacket :: "'f lora \<Rightarrow> int \<times> 'f lora" where
  "lora_parsePacket s =
    (case loRxQueue s of
      [] \<Rightarrow> (0, s)
    | p # ps \<Rightarrow> (int (length p), s\<lparr>loRxBuf := p, loRxQueue := ps, loRxPos := 0, loRssi := loRxRssi s, loSnr := loRxSnr s\<rparr>))"

definition lora_available :: "'f lora \<Rightarrow> int" where
  "lora_available s = int (length (loRxBuf s)) - int (loRxPos s)"

definition lora_read :: "'f lora \<Rightarrow> int \<times> 'f lora" where
  "lora_read s =
    (if loRxPos s \<ge> length (loRxBuf s) then (- 1, s)
     else (uint (loRxBuf s ! loRxPos s), s\<lparr>loRxPos := loRxPos s + 1\<rparr>))"

definition lora_peek :: "'f lora \<Rightarrow> int" where
  "lora_peek s = (if loRxPos s \<ge> length (loRxBuf s) then - 1 else uint (loRxBuf s ! loRxPos s))"

definition lora_receive :: "'f lora \<Rightarrow> 'f lora" where
  "lora_receive s = s\<lparr>loReceiving := True\<rparr>"

definition lora_idle :: "'f lora \<Rightarrow> 'f lora" where
  "lora_idle s = s\<lparr>loReceiving := False\<rparr>"

definition lora_sleep :: "'f lora \<Rightarrow> 'f lora" where
  "lora_sleep s = s\<lparr>loReceiving := False, loSleeping := True\<rparr>"

definition lora_injectPacket :: "byte list \<Rightarrow> int \<Rightarrow> 'f \<Rightarrow> 'f lora \<Rightarrow> 'f lora" where
  "lora_injectPacket d rssi snr s = s\<lparr>loRxQueue := loRxQueue s @ [d], loRxRssi := rssi, loRxSnr := snr\<rparr>"

definition lora_rest :: "'f lora \<Rightarrow> byte list" where
  "lora_rest s = drop (loRxPos s) (loRxBuf s)"

lemma drop_read:
  assumes "drop i xs = b # bs"
  shows "i < length xs \<and> xs ! i = b \<and> drop (Suc i) xs = bs"
  using assms by (metis drop_all list.distinct(1) list.sel(3) not_le nth_via_drop tl_drop drop_Suc)

interpretation lora: byte_reader "\<lambda>s. loRxPos s \<le> length (loRxBuf s)" lora_rest lora_available lora_read
  by unfold_locales (auto simp: lora_available_def lora_rest_def lora_read_def dest: drop_read)

section \<open>The Bluetooth serial port\<close>

text \<open>The mutex of each call is free when it is taken: no callback runs under it. The data callback is never called.\<close>

record bt_serial =
  btName :: string
  btStarted :: bool
  btConnected :: bool
  btRx :: "byte list"
  btTx :: "byte list"

definition bt_new :: bt_serial where
  "bt_new = \<lparr>btName = ''ESP32'', btStarted = False, btConnected = False, btRx = [], btTx = []\<rparr>"

definition bt_begin :: "string option \<Rightarrow> bt_serial \<Rightarrow> bool \<times> bt_serial" where
  "bt_begin name s = (True, s\<lparr>btName := (case name of Some n \<Rightarrow> n | None \<Rightarrow> ''ESP32''), btStarted := True\<rparr>)"

definition bt_end :: "bt_serial \<Rightarrow> bt_serial" where
  "bt_end s = s\<lparr>btStarted := False, btRx := []\<rparr>"

definition bt_available :: "bt_serial \<Rightarrow> int" where
  "bt_available s = int (length (btRx s))"

definition bt_read :: "bt_serial \<Rightarrow> int \<times> bt_serial" where
  "bt_read s = (case btRx s of [] \<Rightarrow> (- 1, s) | c # cs \<Rightarrow> (uint c, s\<lparr>btRx := cs\<rparr>))"

definition bt_readBytes :: "nat \<Rightarrow> bt_serial \<Rightarrow> byte list \<times> bt_serial" where
  "bt_readBytes len s = (let n = min len (length (btRx s)) in (take n (btRx s), s\<lparr>btRx := drop n (btRx s)\<rparr>))"

definition bt_readString :: "bt_serial \<Rightarrow> byte list \<times> bt_serial" where
  "bt_readString s = (btRx s, s\<lparr>btRx := []\<rparr>)"

fun take_until :: "byte \<Rightarrow> byte list \<Rightarrow> byte list \<times> byte list" where
  "take_until t [] = ([], [])"
| "take_until t (c # cs) = (if c = t then ([], cs) else let (a, b) = take_until t cs in (c # a, b))"

definition bt_readStringUntil :: "byte \<Rightarrow> bt_serial \<Rightarrow> byte list \<times> bt_serial" where
  "bt_readStringUntil t s = (let (a, b) = take_until t (btRx s) in (a, s\<lparr>btRx := b\<rparr>))"

definition bt_write :: "byte list \<Rightarrow> bt_serial \<Rightarrow> nat \<times> bt_serial" where
  "bt_write d s = (length d, s\<lparr>btTx := btTx s @ d\<rparr>)"

definition bt_println :: "byte list \<Rightarrow> bt_serial \<Rightarrow> nat \<times> bt_serial" where
  "bt_println d s = (let (n, s) = bt_write d s; (k, s) = bt_write [13, 10] s in (n + k, s))"

definition bt_connect :: "bool \<Rightarrow> bt_serial \<Rightarrow> bool \<times> bt_serial" where
  "bt_connect b s = (True, s\<lparr>btConnected := b\<rparr>)"

definition bt_injectRx :: "byte list \<Rightarrow> bt_serial \<Rightarrow> bt_serial" where
  "bt_injectRx d s = s\<lparr>btRx := btRx s @ d\<rparr>"

definition bt_clearTx :: "bt_serial \<Rightarrow> bt_serial" where
  "bt_clearTx s = s\<lparr>btTx := []\<rparr>"

interpretation bt: byte_reader "\<lambda>_. True" btRx bt_available bt_read
  by unfold_locales (auto simp: bt_available_def bt_read_def)

lemma take_until_append: "t \<notin> set a \<Longrightarrow> take_until t (a @ t # b) = (a, b)"
  by (induction a) auto

lemma take_until_none: "t \<notin> set a \<Longrightarrow> take_until t a = (a, [])"
  by (induction a) auto

section \<open>The UDP socket\<close>

text \<open>
  What the host answers is an argument: the descriptor of \<open>socket\<close>, whether \<open>bind\<close> succeeds, how many bytes
  \<open>sendto\<close> took, and the datagram that waits in the socket (\<open>None\<close> when none does). The address a datagram came
  from and goes to is not modelled.
\<close>

record udp =
  udFd :: int
  udPort :: u16
  udTxBuf :: "byte list"
  udRxBuf :: "byte list"
  udRxPos :: nat

definition udp_new :: udp where
  "udp_new = \<lparr>udFd = - 1, udPort = 0, udTxBuf = [], udRxBuf = [], udRxPos = 0\<rparr>"

definition udp_stop :: "udp \<Rightarrow> udp" where
  "udp_stop s = s\<lparr>udFd := (if udFd s \<ge> 0 then - 1 else udFd s), udPort := 0\<rparr>"

definition udp_begin :: "int \<Rightarrow> bool \<Rightarrow> u16 \<Rightarrow> udp \<Rightarrow> byte \<times> udp" where
  "udp_begin fd bound port s =
    (let s = (udp_stop s)\<lparr>udFd := fd\<rparr>
     in if fd < 0 then (0, s)
        else if \<not> bound then (0, s\<lparr>udFd := - 1\<rparr>)
        else (1, s\<lparr>udPort := port\<rparr>))"

definition udp_beginPacket :: "udp \<Rightarrow> int \<times> udp" where
  "udp_beginPacket s = (1, s\<lparr>udTxBuf := []\<rparr>)"

definition udp_write :: "byte list \<Rightarrow> udp \<Rightarrow> nat \<times> udp" where
  "udp_write d s = (length d, s\<lparr>udTxBuf := udTxBuf s @ d\<rparr>)"

text \<open>The result, and the datagram handed to the socket.\<close>

definition udp_endPacket :: "int \<Rightarrow> udp \<Rightarrow> (int \<times> byte list option) \<times> udp" where
  "udp_endPacket sent s =
    (if udFd s < 0 then ((0, None), s)
     else ((if sent > 0 then 1 else 0, Some (udTxBuf s)), s\<lparr>udTxBuf := []\<rparr>))"

definition udp_parsePacket :: "byte list option \<Rightarrow> udp \<Rightarrow> int \<times> udp" where
  "udp_parsePacket dgram s =
    (if udFd s < 0 then (0, s)
     else (case dgram of
       None \<Rightarrow> (0, s\<lparr>udRxBuf := [], udRxPos := 0\<rparr>)
     | Some d \<Rightarrow>
         let n = min 1500 (length d)
         in if n = 0 then (0, s\<lparr>udRxBuf := [], udRxPos := 0\<rparr>)
            else (int n, s\<lparr>udRxBuf := take n d, udRxPos := 0\<rparr>)))"

definition udp_available :: "udp \<Rightarrow> int" where
  "udp_available s = int (length (udRxBuf s)) - int (udRxPos s)"

definition udp_read :: "udp \<Rightarrow> int \<times> udp" where
  "udp_read s =
    (if udRxPos s \<ge> length (udRxBuf s) then (- 1, s)
     else (uint (udRxBuf s ! udRxPos s), s\<lparr>udRxPos := udRxPos s + 1\<rparr>))"

definition udp_read_buf :: "nat \<Rightarrow> udp \<Rightarrow> byte list \<times> udp" where
  "udp_read_buf len s =
    (let n = min len (length (udRxBuf s) - udRxPos s)
     in (take n (drop (udRxPos s) (udRxBuf s)), s\<lparr>udRxPos := udRxPos s + n\<rparr>))"

definition udp_peek :: "udp \<Rightarrow> int" where
  "udp_peek s = (if udRxPos s \<ge> length (udRxBuf s) then - 1 else uint (udRxBuf s ! udRxPos s))"

definition udp_rest :: "udp \<Rightarrow> byte list" where
  "udp_rest s = drop (udRxPos s) (udRxBuf s)"

interpretation udp: byte_reader "\<lambda>s. udRxPos s \<le> length (udRxBuf s)" udp_rest udp_available udp_read
  by unfold_locales (auto simp: udp_available_def udp_rest_def udp_read_def dest: drop_read)

section \<open>Properties\<close>

text \<open>
  Receiving. \<open>parsePacket\<close> gives the length of the oldest packet, the loop reads exactly its bytes and
  ends, and the packets behind it wait as before.
\<close>

theorem lora_receive_packet:
  assumes "loRxQueue s = p # ps"
  shows "\<exists>t. fst (lora_parsePacket s) = int (length p) \<and>
    read_all lora_available lora_read (snd (lora_parsePacket s)) = Some (t, map uint p) \<and>
    loRxQueue t = ps \<and> lora_available t = 0"
proof -
  let ?s = "snd (lora_parsePacket s)"
  have p: "loRxPos ?s \<le> length (loRxBuf ?s)" "loRxQueue ?s = ps" "lora_rest ?s = p" "fst (lora_parsePacket s) = int (length p)"
    using assms by (simp_all add: lora_parsePacket_def lora_rest_def)
  have "\<exists>t. read_all lora_available lora_read ?s = Some (t, map uint (lora_rest ?s)) \<and> lora_rest t = [] \<and>
      loRxPos t \<le> length (loRxBuf t) \<and> loRxQueue t = ps"
    by (rule lora.drain) (simp_all add: p lora_read_def)
  then show ?thesis
    using p(3,4) lora.avail_rest by fastforce
qed

theorem lora_receive_packet_witness:
  "\<exists>t. read_all lora_available lora_read (snd (lora_parsePacket (lora_injectPacket [1, 2] (- 40) () (lora_new () ())))) = Some (t, [1, 2])"
  using lora_receive_packet [of "lora_injectPacket [1, 2] (- 40) () (lora_new () ())" "[1, 2]" "[]"]
  by (auto simp: lora_injectPacket_def lora_new_def)

text \<open>
  The signal strength. When two packets have arrived before the first is parsed, the strength reported for
  the first is that of the second.
\<close>

theorem lora_rssi_of_last:
  assumes "loRxQueue s = []"
  shows "loRssi (snd (lora_parsePacket (lora_injectPacket q r2 n2 (lora_injectPacket p r1 n1 s)))) = r2 \<and>
    loRssi (snd (lora_parsePacket (lora_injectPacket p r1 n1 s))) = r1"
  using assms by (simp add: lora_parsePacket_def lora_injectPacket_def)

theorem lora_rssi_of_last_witness:
  "loRssi (snd (lora_parsePacket (lora_injectPacket [2] (- 90) () (lora_injectPacket [1] (- 40) () (lora_new () ()))))) = - 90"
  using lora_rssi_of_last [of "lora_new () ()" "[2]" "- 90" "()" "[1]" "- 40" "()"] by (simp add: lora_new_def)

lemma lora_write_fold:
  "snd (lora_write_buf d s) = (if loInTx s then s\<lparr>loTxBuf := loTxBuf s @ d\<rparr> else s)"
  by (induction d arbitrary: s) (simp_all add: lora_write_buf_def lora_write_def)

text \<open>
  Sending. What is written between \<open>beginPacket\<close> and \<open>endPacket\<close>, in however many pieces, is the packet; what
  is written outside reports success and is dropped; and a second \<open>endPacket\<close> sends the same packet again.
\<close>

theorem lora_send_packet:
  "let s1 = fold (\<lambda>d. snd \<circ> lora_write_buf d) ds (snd (lora_beginPacket s)); s2 = snd (lora_endPacket s1);
       s3 = snd (lora_write_buf late s2); s4 = snd (lora_endPacket s3)
   in loLastTx s2 = concat ds \<and> fst (lora_write_buf late s2) = length late \<and> s3 = s2 \<and>
      loLastTx s4 = concat ds \<and> loTxCount s4 = loTxCount s + 2"
proof -
  have "fold (\<lambda>d. snd \<circ> lora_write_buf d) ds t = (if loInTx t then t\<lparr>loTxBuf := loTxBuf t @ concat ds\<rparr> else t)" for t :: "'a lora"
    by (induction ds arbitrary: t) (simp_all add: lora_write_fold)
  then show ?thesis
    by (simp add: Let_def lora_beginPacket_def lora_endPacket_def lora_write_fold) (simp add: lora_write_buf_def)
qed

text \<open>
  A line over Bluetooth. What one side prints as a line, the other reads up to the line feed with the
  carriage return still at its end; what follows the line stays to be read.
\<close>

theorem bluetooth_line:
  assumes "10 \<notin> set d" "btTx a = []" "btRx b = []"
  shows "bt_readStringUntil 10 (bt_injectRx (btTx (snd (bt_println d a)) @ later) b) = (d @ [13], b\<lparr>btRx := later\<rparr>)"
proof -
  have "take_until 10 ((d @ [13]) @ 10 # later) = (d @ [13], later)"
    using assms(1) by (intro take_until_append) simp
  then show ?thesis
    using assms(2,3) by (simp add: bt_println_def bt_write_def bt_injectRx_def bt_readStringUntil_def)
qed

theorem bluetooth_line_witness:
  "bt_readStringUntil 10 (bt_injectRx (btTx (snd (bt_println [72, 105] bt_new)) @ [33]) bt_new) = ([72, 105, 13], bt_new\<lparr>btRx := [33]\<rparr>)"
  using bluetooth_line [of "[72, 105]" bt_new bt_new "[33]"] by (simp add: bt_new_def)

text \<open>
  A datagram. The pieces written since \<open>beginPacket\<close> go out as one datagram; the receiver gets its first 1500
  bytes, in order, and an empty datagram looks like none.
\<close>

theorem udp_datagram:
  assumes "udFd a \<ge> 0" "udFd b \<ge> 0"
  shows "snd (fst (udp_endPacket sent (fold (\<lambda>d. snd \<circ> udp_write d) ds (snd (udp_beginPacket a))))) = Some (concat ds) \<and>
    (\<exists>t. fst (udp_parsePacket (Some (concat ds)) b) = int (min 1500 (length (concat ds))) \<and>
      read_all udp_available udp_read (snd (udp_parsePacket (Some (concat ds)) b)) = Some (t, map uint (take 1500 (concat ds)))) \<and>
    udp_parsePacket (Some []) b = udp_parsePacket None b"
proof -
  have w: "udFd (fold (\<lambda>d. snd \<circ> udp_write d) ds s) = udFd s \<and>
      udTxBuf (fold (\<lambda>d. snd \<circ> udp_write d) ds s) = udTxBuf s @ concat ds" for s
    by (induction ds arbitrary: s) (simp_all add: udp_write_def)
  have "snd (fst (udp_endPacket sent (fold (\<lambda>d. snd \<circ> udp_write d) ds (snd (udp_beginPacket a))))) = Some (concat ds)"
    using assms(1) w by (simp add: udp_endPacket_def udp_beginPacket_def)
  moreover let ?b = "snd (udp_parsePacket (Some (concat ds)) b)"
  have "udRxPos ?b \<le> length (udRxBuf ?b)" "udp_rest ?b = take 1500 (concat ds)"
    "fst (udp_parsePacket (Some (concat ds)) b) = int (min 1500 (length (concat ds)))"
    using assms(2) by (auto simp: udp_parsePacket_def udp_rest_def Let_def min_def)
  then have "\<exists>t. fst (udp_parsePacket (Some (concat ds)) b) = int (min 1500 (length (concat ds))) \<and>
      read_all udp_available udp_read ?b = Some (t, map uint (take 1500 (concat ds)))"
    using udp.drain [where P = "\<lambda>_. True", of ?b] by auto
  moreover have "udp_parsePacket (Some []) b = udp_parsePacket None b"
    by (simp add: udp_parsePacket_def)
  ultimately show ?thesis
    by blast
qed

theorem udp_datagram_witness:
  "snd (fst (udp_endPacket 3 (fold (\<lambda>d. snd \<circ> udp_write d) [[1], [2, 3]] (snd (udp_beginPacket (snd (udp_begin 4 True 80 udp_new))))))) = Some [1, 2, 3]"
  using udp_datagram [of "snd (udp_begin 4 True 80 udp_new)" "snd (udp_begin 4 True 80 udp_new)" 3 "[[1], [2, 3]]"]
  by (simp add: udp_begin_def udp_new_def udp_stop_def Let_def)

text \<open>The Bluetooth port is read to its end by the loop, and then has nothing more.\<close>

theorem bluetooth_read_all:
  "\<exists>t. read_all bt_available bt_read s = Some (t, map uint (btRx s)) \<and> bt_read t = (- 1, t) \<and> btTx t = btTx s"
proof -
  have "\<exists>t. read_all bt_available bt_read s = Some (t, map uint (btRx s)) \<and> btRx t = [] \<and> True \<and> btTx t = btTx s"
    by (rule bt.drain) (auto simp: bt_read_def split: list.splits)
  then show ?thesis
    using bt.read_none by blast
qed

end
