(* ===== verification/Sd_Mmc.thy ===== *)
theory Sd_Mmc
  imports Json_Text Packet_Radio
begin

text \<open>
  The file system in memory of \<open>src/include/SD_MMC.h\<close>: one map from paths to entries and file objects with
  a position each, which look their entry up by its path at every call. The lemmas show the round
  trip of writing and reading, what writing does at any position, that listing a directory gives its
  children once each in order, and where the behaviour is not that of a file system.
\<close>

section \<open>Entries and files\<close>

record file_entry =
  feData :: "byte list"
  feDir :: bool

definition file_entry_new :: file_entry where
  "file_entry_new = \<lparr>feData = [], feDir = False\<rparr>"

text \<open>\<open>std::map\<close> keeps its keys in order; \<open>map_put\<close> is the assignment to a key.\<close>

type_synonym storage = "(string \<times> file_entry) list"

definition map_erase :: "string \<Rightarrow> (string \<times> 'v) list \<Rightarrow> (string \<times> 'v) list" where
  "map_erase k ms = filter (\<lambda>m. fst m \<noteq> k) ms"

text \<open>\<open>while (s.size() > 1 && s.back() == '/') s.pop_back()\<close>.\<close>

function strip_slashes :: "string \<Rightarrow> string" where
  "strip_slashes s = (if length s > 1 \<and> last s = CHR ''/'' then strip_slashes (butlast s) else s)"
  by auto
termination
  by (relation "measure length") auto

declare strip_slashes.simps [simp del]

definition normPath :: "string \<Rightarrow> string" where
  "normPath p = strip_slashes (if p = [] \<or> hd p \<noteq> CHR ''/'' then CHR ''/'' # p else p)"

record sd_file =
  fiPath :: string
  fiValid :: bool
  fiWrite :: bool
  fiDir :: bool
  fiPos :: nat
  fiIdx :: nat

definition sd_file_none :: sd_file where
  "sd_file_none = \<lparr>fiPath = [], fiValid = False, fiWrite = False, fiDir = False, fiPos = 0, fiIdx = 0\<rparr>"

definition sd_file_open :: "string \<Rightarrow> bool \<Rightarrow> bool \<Rightarrow> storage \<Rightarrow> sd_file \<times> storage" where
  "sd_file_open path write app st =
    (let f = sd_file_none\<lparr>fiPath := path, fiValid := True, fiWrite := write\<rparr>
     in if write then
          let e = (case map_of st path of None \<Rightarrow> file_entry_new | Some e \<Rightarrow> e);
              e = (if app then e else e\<lparr>feData := []\<rparr>)
          in (f\<lparr>fiPos := if app then length (feData e) else 0\<rparr>, map_put path e st)
        else
          (case map_of st path of
            None \<Rightarrow> (f\<lparr>fiValid := False\<rparr>, st)
          | Some e \<Rightarrow> (f\<lparr>fiDir := feDir e\<rparr>, st)))"

definition sd_size :: "sd_file \<Rightarrow> storage \<Rightarrow> nat" where
  "sd_size f st = (case map_of st (fiPath f) of Some e \<Rightarrow> length (feData e) | None \<Rightarrow> 0)"

text \<open>The two conversions to \<open>int\<close> cut the values to 32 bits.\<close>

definition sd_available :: "sd_file \<Rightarrow> storage \<Rightarrow> int" where
  "sd_available f st = sint (word_of_nat (sd_size f st) :: u32) - sint (word_of_nat (fiPos f) :: u32)"

definition sd_read :: "sd_file \<Rightarrow> storage \<Rightarrow> int \<times> sd_file" where
  "sd_read f st =
    (case map_of st (fiPath f) of
      None \<Rightarrow> (- 1, f)
    | Some e \<Rightarrow> if fiPos f \<ge> length (feData e) then (- 1, f)
        else (uint (feData e ! fiPos f), f\<lparr>fiPos := fiPos f + 1\<rparr>))"

text \<open>
  Behind the end of the data the difference \<open>size - pos\<close> wraps around, nothing bounds the copy and it
  reads outside the vector.
\<close>

definition sd_read_buf :: "nat \<Rightarrow> sd_file \<Rightarrow> storage \<Rightarrow> (byte list \<times> sd_file) option" where
  "sd_read_buf len f st =
    (case map_of st (fiPath f) of
      None \<Rightarrow> Some ([], f)
    | Some e \<Rightarrow>
        if fiPos f > length (feData e) then (if len = 0 then Some ([], f) else None)
        else let n = min len (length (feData e) - fiPos f)
             in Some (chunk (feData e) (fiPos f) n, f\<lparr>fiPos := fiPos f + n\<rparr>))"

definition sd_write :: "byte list \<Rightarrow> sd_file \<Rightarrow> storage \<Rightarrow> nat \<times> sd_file \<times> storage" where
  "sd_write buf f st =
    (if \<not> fiWrite f then (0, f, st)
     else
       let e = (case map_of st (fiPath f) of None \<Rightarrow> file_entry_new | Some e \<Rightarrow> e);
           d = feData e; len = length buf;
           d = (if fiPos f < length d then
                  let n = min len (length d - fiPos f); d = blit d (fiPos f) (take n buf)
                  in if len > n then d @ drop n buf else d
                else d @ buf)
       in (len, f\<lparr>fiPos := fiPos f + len\<rparr>, map_put (fiPath f) (e\<lparr>feData := d\<rparr>) st))"

definition sd_write_byte :: "byte \<Rightarrow> sd_file \<Rightarrow> storage \<Rightarrow> nat \<times> sd_file \<times> storage" where
  "sd_write_byte b = sd_write [b]"

definition text_bytes :: "string \<Rightarrow> byte list" where
  "text_bytes s = map (\<lambda>c. word_of_nat (of_char c)) s"

definition sd_print :: "string \<Rightarrow> sd_file \<Rightarrow> storage \<Rightarrow> nat \<times> sd_file \<times> storage" where
  "sd_print s = sd_write (text_bytes s)"

definition sd_println :: "string \<Rightarrow> sd_file \<Rightarrow> storage \<Rightarrow> nat \<times> sd_file \<times> storage" where
  "sd_println s f st =
    (let (n, f, st) = sd_print s f st; (m, f, st) = sd_print [CHR 0x0A] f st in (n + m, f, st))"

definition sd_seek :: "nat \<Rightarrow> sd_file \<Rightarrow> bool \<times> sd_file" where
  "sd_seek pos f = (True, f\<lparr>fiPos := pos\<rparr>)"

definition sd_close :: "sd_file \<Rightarrow> sd_file" where
  "sd_close f = f\<lparr>fiValid := False\<rparr>"

text \<open>
  The iteration over a directory: the keys that start with the path and a slash, with no further
  slash in the rest; the one whose number among them is the index of the file object is opened.
\<close>

definition dir_prefix :: "string \<Rightarrow> string" where
  "dir_prefix path = (if path = ''/'' then ''/'' else path @ ''/'')"

definition direct_child :: "string \<Rightarrow> string \<Rightarrow> bool" where
  "direct_child path k \<longleftrightarrow>
    take (length (dir_prefix path)) k = dir_prefix path \<and> k \<noteq> path \<and> CHR ''/'' \<notin> set (drop (length (dir_prefix path)) k)"

fun nth_child :: "string \<Rightarrow> nat \<Rightarrow> nat \<Rightarrow> storage \<Rightarrow> string option" where
  "nth_child path want idx [] = None"
| "nth_child path want idx ((k, v) # ms) =
    (if direct_child path k then (if idx = want then Some k else nth_child path want (idx + 1) ms)
     else nth_child path want idx ms)"

definition sd_openNextFile :: "sd_file \<Rightarrow> storage \<Rightarrow> sd_file \<times> sd_file" where
  "sd_openNextFile f st =
    (if \<not> fiDir f then (sd_file_none, f)
     else
       case nth_child (fiPath f) (fiIdx f) 0 st of
         Some k \<Rightarrow> (fst (sd_file_open k False False st), f\<lparr>fiIdx := fiIdx f + 1\<rparr>)
       | None \<Rightarrow> (sd_file_none, f))"

section \<open>The card\<close>

record sd_card =
  sdMounted :: bool
  sdStorage :: storage

definition sd_begin :: "sd_card \<Rightarrow> bool \<times> sd_card" where
  "sd_begin s = (True, s\<lparr>sdMounted := True\<rparr>)"

definition sd_end :: "sd_card \<Rightarrow> sd_card" where
  "sd_end s = s\<lparr>sdMounted := False, sdStorage := []\<rparr>"

definition sd_open :: "string \<Rightarrow> string \<Rightarrow> sd_card \<Rightarrow> sd_file \<times> sd_card" where
  "sd_open path mode s =
    (let p = normPath path; write = (CHR ''w'' \<in> set mode); app = (CHR ''a'' \<in> set mode);
         (f, st) = sd_file_open p (write \<or> app) app (sdStorage s)
     in (f, s\<lparr>sdStorage := st\<rparr>))"

definition sd_exists :: "string \<Rightarrow> sd_card \<Rightarrow> bool" where
  "sd_exists path s = (map_of (sdStorage s) (normPath path) \<noteq> None)"

definition sd_mkdir :: "string \<Rightarrow> sd_card \<Rightarrow> bool \<times> sd_card" where
  "sd_mkdir path s =
    (let p = normPath path; e = (case map_of (sdStorage s) p of None \<Rightarrow> file_entry_new | Some e \<Rightarrow> e)
     in (True, s\<lparr>sdStorage := map_put p (e\<lparr>feDir := True\<rparr>) (sdStorage s)\<rparr>))"

definition sd_remove :: "string \<Rightarrow> sd_card \<Rightarrow> bool \<times> sd_card" where
  "sd_remove path s = (sd_exists path s, s\<lparr>sdStorage := map_erase (normPath path) (sdStorage s)\<rparr>)"

definition sd_rmdir :: "string \<Rightarrow> sd_card \<Rightarrow> bool \<times> sd_card" where
  "sd_rmdir = sd_remove"

text \<open>The entry is moved to the new key first and the old key erased then, also when they are equal.\<close>

definition sd_rename :: "string \<Rightarrow> string \<Rightarrow> sd_card \<Rightarrow> bool \<times> sd_card" where
  "sd_rename from to s =
    (let pf = normPath from; pt = normPath to
     in case map_of (sdStorage s) pf of
          None \<Rightarrow> (False, s)
        | Some e \<Rightarrow> (True, s\<lparr>sdStorage := map_erase pf (map_put pt e (sdStorage s))\<rparr>))"

definition sd_usedBytes :: "sd_card \<Rightarrow> u64" where
  "sd_usedBytes s = fold (\<lambda>m total. total + word_of_nat (length (feData (snd m)))) (sdStorage s) 0"

section \<open>Maps and paths\<close>

definition storage_ok :: "storage \<Rightarrow> bool" where
  "storage_ok st \<longleftrightarrow> sorted_wrt (<) (map fst st)"

lemma map_of_erase: "map_of (map_erase k ms) = (map_of ms)(k := None)"
  by (induction ms) (auto simp: map_erase_def fun_eq_iff)

lemma storage_ok_put [simp]: "storage_ok st \<Longrightarrow> storage_ok (map_put k v st)"
  by (simp add: storage_ok_def sorted_map_put)

lemma map_of_put [simp]: "storage_ok st \<Longrightarrow> map_of (map_put k v st) = (map_of st)(k \<mapsto> v)"
  by (simp add: storage_ok_def map_of_map_put)

lemma storage_ok_erase [simp]: "storage_ok st \<Longrightarrow> storage_ok (map_erase k st)"
  unfolding storage_ok_def map_erase_def by (induction st) auto

lemma storage_ok_distinct: "storage_ok st \<Longrightarrow> distinct (map fst st)"
  by (simp add: storage_ok_def strict_sorted_iff)

definition path_ok :: "string \<Rightarrow> bool" where
  "path_ok p \<longleftrightarrow> p \<noteq> [] \<and> hd p = CHR ''/'' \<and> (length p > 1 \<longrightarrow> last p \<noteq> CHR ''/'')"

lemma strip_slashes_ok: "p \<noteq> [] \<Longrightarrow> hd p = CHR ''/'' \<Longrightarrow> path_ok (strip_slashes p)"
proof (induction p rule: strip_slashes.induct)
  case (1 s)
  show ?case
  proof (cases "length s > 1 \<and> last s = CHR ''/''")
    case True
    then have "butlast s \<noteq> []" "hd (butlast s) = hd s"
      by (cases s; cases "tl s"; simp)+
    then show ?thesis
      using 1 True by (subst strip_slashes.simps) simp
  next
    case False
    then show ?thesis
      using 1(2,3) by (subst strip_slashes.simps, subst if_not_P [OF False]) (auto simp: path_ok_def)
  qed
qed

lemma normPath_ok: "path_ok (normPath p)"
  by (simp add: normPath_def strip_slashes_ok)

lemma normPath_id: "path_ok p \<Longrightarrow> normPath p = p"
  by (subst normPath_def, subst strip_slashes.simps) (auto simp: path_ok_def)

section \<open>Reading and writing\<close>

text \<open>A write at or before the end replaces what is there; one behind the end is appended at the end.\<close>

definition written :: "nat \<Rightarrow> byte list \<Rightarrow> byte list \<Rightarrow> byte list" where
  "written pos buf d = (if pos < length d then take pos d @ buf @ drop (pos + length buf) d else d @ buf)"

definition entry_of :: "string \<Rightarrow> storage \<Rightarrow> file_entry" where
  "entry_of p st = (case map_of st p of None \<Rightarrow> file_entry_new | Some e \<Rightarrow> e)"

lemma sd_write_eq:
  assumes "fiWrite f"
  shows "sd_write buf f st =
    (length buf, f\<lparr>fiPos := fiPos f + length buf\<rparr>,
     map_put (fiPath f) ((entry_of (fiPath f) st)\<lparr>feData := written (fiPos f) buf (feData (entry_of (fiPath f) st))\<rparr>) st)"
  using assms by (auto simp: sd_write_def entry_of_def Let_def written_def blit_def min_def not_less)

lemma map_of_write:
  assumes "fiWrite f" "storage_ok st" "sd_write buf f st = (n, g, st')"
  shows "map_of st' = (map_of st)(fiPath f \<mapsto> (entry_of (fiPath f) st)\<lparr>feData := written (fiPos f) buf (feData (entry_of (fiPath f) st))\<rparr>)"
    "g = f\<lparr>fiPos := fiPos f + length buf\<rparr>" "n = length buf" "storage_ok st'"
  using assms by (auto simp: sd_write_eq)

definition sd_writes :: "byte list list \<Rightarrow> sd_file \<Rightarrow> storage \<Rightarrow> sd_file \<times> storage" where
  "sd_writes ds f st = fold (\<lambda>d (f, st). snd (sd_write d f st)) ds (f, st)"

text \<open>Writing at the end, piece by piece.\<close>

lemma sd_writes_end:
  assumes "fiWrite f" "storage_ok st" "map_of st (fiPath f) = Some e" "fiPos f = length (feData e)" "sd_writes ds f st = (g, st')"
  shows "storage_ok st' \<and> map_of st' = (map_of st)(fiPath f \<mapsto> e\<lparr>feData := feData e @ concat ds\<rparr>)"
  using assms
proof (induction ds arbitrary: f st e)
  case (Cons d ds)
  obtain n f' st1 where w: "sd_write d f st = (n, f', st1)"
    by (cases "sd_write d f st")
  note m = map_of_write [OF Cons.prems(1,2) w]
  let ?e = "e\<lparr>feData := feData e @ d\<rparr>"
  have st1: "map_of st1 = (map_of st)(fiPath f \<mapsto> ?e)"
    using m(1) Cons.prems(3,4) by (simp add: entry_of_def written_def)
  have "sd_writes ds f' st1 = (g, st')"
    using Cons.prems(5) w by (simp add: sd_writes_def)
  then show ?case
    using Cons.IH [of f' st1 ?e] m(2,4) st1 Cons.prems(1,4) by (auto simp: fun_eq_iff)
qed (simp add: sd_writes_def fun_upd_idem)

definition sd_rest :: "sd_file \<times> storage \<Rightarrow> byte list" where
  "sd_rest s = drop (fiPos (fst s)) (feData (entry_of (fiPath (fst s)) (snd s)))"

text \<open>A position within a file whose size fits in an \<open>int\<close>.\<close>

definition sd_readable :: "sd_file \<times> storage \<Rightarrow> bool" where
  "sd_readable s \<longleftrightarrow> (\<exists>e. map_of (snd s) (fiPath (fst s)) = Some e \<and> fiPos (fst s) \<le> length (feData e) \<and> length (feData e) < 2 ^ 31)"

lemma sint_small_nat: "n < 2 ^ 31 \<Longrightarrow> sint (word_of_nat n :: u32) = int n"
  by (simp add: signed_of_nat signed_take_bit_int_eq_self)

interpretation sd_bytes: byte_reader sd_readable sd_rest "\<lambda>s. sd_available (fst s) (snd s)"
  "\<lambda>s. let (v, f) = sd_read (fst s) (snd s) in (v, f, snd s)"
proof unfold_locales
  fix s
  assume "sd_readable s"
  then obtain e where e: "map_of (snd s) (fiPath (fst s)) = Some e" "fiPos (fst s) \<le> length (feData e)" "length (feData e) < 2 ^ 31"
    unfolding sd_readable_def by blast
  then show "sd_available (fst s) (snd s) = int (length (sd_rest s))"
    by (simp add: sd_available_def sd_size_def sd_rest_def entry_of_def sint_small_nat of_nat_diff)
  show "(let (v, f) = sd_read (fst s) (snd s) in (v, f, snd s)) = (- 1, s)" if "sd_rest s = []"
    using that e by (simp add: sd_read_def sd_rest_def entry_of_def)
  show "fst (let (v, f) = sd_read (fst s) (snd s) in (v, f, snd s)) = uint b \<and>
      sd_rest (snd (let (v, f) = sd_read (fst s) (snd s) in (v, f, snd s))) = bs \<and>
      sd_readable (snd (let (v, f) = sd_read (fst s) (snd s) in (v, f, snd s)))" if "sd_rest s = b # bs" for b bs
  proof -
    have "fiPos (fst s) < length (feData e)" "feData e ! fiPos (fst s) = b" "drop (Suc (fiPos (fst s))) (feData e) = bs"
      using that e drop_read [of "fiPos (fst s)" "feData e"] by (auto simp: sd_rest_def entry_of_def)
    then show ?thesis
      using e by (simp add: sd_read_def sd_rest_def sd_readable_def entry_of_def)
  qed
qed

section \<open>The invariant\<close>

text \<open>
  A card and the file objects of a program: keys are in order and normalised, and a file object that can write
  has a normalised path.
\<close>

record sd_world =
  swCard :: sd_card
  swFiles :: "sd_file list"

definition sd_inv :: "sd_world \<Rightarrow> bool" where
  "sd_inv w \<longleftrightarrow> storage_ok (sdStorage (swCard w)) \<and> list_all (\<lambda>m. path_ok (fst m)) (sdStorage (swCard w)) \<and>
     list_all (\<lambda>f. fiWrite f \<longrightarrow> path_ok (fiPath f)) (swFiles w)"

datatype sd_op = Begin | End | Open string string | Mkdir string | Remove string | Rename string string
  | Write nat "byte list" | Read nat | Seek nat nat | Close nat | Next nat

fun sd_step :: "sd_op \<Rightarrow> sd_world \<Rightarrow> sd_world" where
  "sd_step Begin w = w\<lparr>swCard := snd (sd_begin (swCard w))\<rparr>"
| "sd_step End w = w\<lparr>swCard := sd_end (swCard w)\<rparr>"
| "sd_step (Open p m) w = (let (f, c) = sd_open p m (swCard w) in w\<lparr>swCard := c, swFiles := swFiles w @ [f]\<rparr>)"
| "sd_step (Mkdir p) w = w\<lparr>swCard := snd (sd_mkdir p (swCard w))\<rparr>"
| "sd_step (Remove p) w = w\<lparr>swCard := snd (sd_remove p (swCard w))\<rparr>"
| "sd_step (Rename p q) w = w\<lparr>swCard := snd (sd_rename p q (swCard w))\<rparr>"
| "sd_step (Write i d) w =
    (if i < length (swFiles w) then
       let (_, f, st) = sd_write d (swFiles w ! i) (sdStorage (swCard w))
       in w\<lparr>swCard := (swCard w)\<lparr>sdStorage := st\<rparr>, swFiles := (swFiles w)[i := f]\<rparr>
     else w)"
| "sd_step (Read i) w =
    (if i < length (swFiles w) then w\<lparr>swFiles := (swFiles w)[i := snd (sd_read (swFiles w ! i) (sdStorage (swCard w)))]\<rparr> else w)"
| "sd_step (Seek i n) w = (if i < length (swFiles w) then w\<lparr>swFiles := (swFiles w)[i := snd (sd_seek n (swFiles w ! i))]\<rparr> else w)"
| "sd_step (Close i) w = (if i < length (swFiles w) then w\<lparr>swFiles := (swFiles w)[i := sd_close (swFiles w ! i)]\<rparr> else w)"
| "sd_step (Next i) w =
    (if i < length (swFiles w) then
       let (c, f) = sd_openNextFile (swFiles w ! i) (sdStorage (swCard w)) in w\<lparr>swFiles := (swFiles w)[i := f] @ [c]\<rparr>
     else w)"

lemma keys_put: "list_all (\<lambda>m. path_ok (fst m)) st \<Longrightarrow> path_ok k \<Longrightarrow> list_all (\<lambda>m. path_ok (fst m)) (map_put k v st)"
  using set_map_put [of k v st] by (auto simp: list_all_iff)

lemma keys_erase: "list_all (\<lambda>m. path_ok (fst m)) st \<Longrightarrow> list_all (\<lambda>m. path_ok (fst m)) (map_erase k st)"
  by (auto simp: list_all_iff map_erase_def)

lemma list_all_update: "list_all P xs \<Longrightarrow> P y \<Longrightarrow> list_all P (xs[i := y])"
  using set_update_subset_insert [of xs i y] by (auto simp: list_all_iff)

lemma sd_file_open_inv:
  assumes "sd_file_open p write app st = (f, st')" "storage_ok st" "list_all (\<lambda>m. path_ok (fst m)) st" "path_ok p"
  shows "storage_ok st' \<and> list_all (\<lambda>m. path_ok (fst m)) st' \<and> (fiWrite f \<longrightarrow> path_ok (fiPath f))"
  using assms by (auto simp: sd_file_open_def Let_def keys_put sd_file_none_def split: if_splits option.splits)

lemma sd_step_inv:
  assumes "sd_inv w"
  shows "sd_inv (sd_step a w)"
proof -
  note i = assms [unfolded sd_inv_def]
  have nth: "fiWrite (swFiles w ! n) \<longrightarrow> path_ok (fiPath (swFiles w ! n))" if "n < length (swFiles w)" for n
    using i that by (simp add: list_all_iff)
  show ?thesis
  proof (cases a)
    case (Open p m)
    then show ?thesis
      using i sd_file_open_inv [OF _ _ _ normPath_ok, of p "CHR ''w'' \<in> set m \<or> CHR ''a'' \<in> set m" "CHR ''a'' \<in> set m" "sdStorage (swCard w)"]
      by (auto simp: sd_open_def sd_inv_def Let_def split: prod.splits)
  next
    case (Write n d)
    show ?thesis
    proof (cases "n < length (swFiles w) \<and> fiWrite (swFiles w ! n)")
      case True
      then show ?thesis
        using i nth [of n] Write by (auto simp: sd_write_eq sd_inv_def intro!: keys_put list_all_update)
    next
      case False
      then show ?thesis
        using i Write by (auto simp: sd_write_def sd_inv_def)
    qed
  next
    case (Read n)
    then show ?thesis
      using i nth [of n] by (auto simp: sd_inv_def sd_read_def intro!: list_all_update split: option.splits)
  next
    case (Next n)
    have "\<not> fiWrite (fst (sd_file_open k False False st))" for k st
      by (simp add: sd_file_open_def sd_file_none_def Let_def split: option.splits)
    then show ?thesis
      using Next i nth [of n]
      by (auto simp: sd_inv_def sd_openNextFile_def sd_file_none_def intro!: list_all_update split: option.splits)
  next
    case (Rename p q)
    then show ?thesis
      using i by (auto simp: sd_inv_def sd_rename_def Let_def normPath_ok intro!: keys_put keys_erase split: option.splits)
  qed (use i nth in \<open>auto simp: sd_inv_def sd_begin_def sd_end_def sd_mkdir_def sd_remove_def sd_seek_def sd_close_def Let_def
      storage_ok_def [of "[]"] normPath_ok intro!: keys_put keys_erase list_all_update\<close>)
qed

interpretation sd_life: step_system
  "\<lambda>w. w = \<lparr>swCard = \<lparr>sdMounted = False, sdStorage = []\<rparr>, swFiles = []\<rparr>" "\<lambda>_. True" sd_step sd_inv
proof unfold_locales
  show "sd_inv w" if "w = \<lparr>swCard = \<lparr>sdMounted = False, sdStorage = []\<rparr>, swFiles = []\<rparr>" for w
    using that by (simp add: sd_inv_def storage_ok_def)
qed (rule sd_step_inv)

section \<open>Operations that leave a file alone\<close>

text \<open>
  What the program may do between writing a file and reading it: anything but unmounting, opening
  the file for writing anew, removing it, renaming it or something else over it, and writing through
  a file object of its path.
\<close>

fun sd_spares :: "string \<Rightarrow> sd_world \<Rightarrow> sd_op \<Rightarrow> bool" where
  "sd_spares p w End = False"
| "sd_spares p w (Open q m) = (normPath q \<noteq> p \<or> CHR ''w'' \<notin> set m \<or> CHR ''a'' \<in> set m)"
| "sd_spares p w (Remove q) = (normPath q \<noteq> p)"
| "sd_spares p w (Rename q r) = (normPath q \<noteq> p \<and> normPath r \<noteq> p)"
| "sd_spares p w (Write i d) = (i < length (swFiles w) \<longrightarrow> \<not> fiWrite (swFiles w ! i) \<or> fiPath (swFiles w ! i) \<noteq> p)"
| "sd_spares p w _ = True"

fun sd_spare_run :: "string \<Rightarrow> sd_world \<Rightarrow> sd_op list \<Rightarrow> bool" where
  "sd_spare_run p w [] = True"
| "sd_spare_run p w (op # ops) = (sd_spares p w op \<and> sd_spare_run p (sd_step op w) ops)"

definition holds_data :: "string \<Rightarrow> byte list \<Rightarrow> storage \<Rightarrow> bool" where
  "holds_data p d st \<longleftrightarrow> storage_ok st \<and> map_option feData (map_of st p) = Some d"

lemma holds_data_put:
  assumes "holds_data p d st" "q = p \<longrightarrow> feData e = d"
  shows "holds_data p d (map_put q e st)"
  using assms by (auto simp: holds_data_def)

lemma holds_data_erase: "holds_data p d st \<Longrightarrow> q \<noteq> p \<Longrightarrow> holds_data p d (map_erase q st)"
  by (simp add: holds_data_def map_of_erase)

lemma holds_data_open:
  assumes "holds_data p d st" "q \<noteq> p \<or> \<not> write \<or> app" "sd_file_open q write app st = (f, st')"
  shows "holds_data p d st'"
  using assms by (auto simp: sd_file_open_def Let_def holds_data_def split: if_splits option.splits)

lemma sd_spares_step:
  assumes "holds_data p d (sdStorage (swCard w))" "sd_spares p w op"
  shows "holds_data p d (sdStorage (swCard (sd_step op w)))"
proof (cases op)
  case (Open q m)
  then show ?thesis
    using assms holds_data_open [OF assms(1), of "normPath q" "CHR ''w'' \<in> set m \<or> CHR ''a'' \<in> set m" "CHR ''a'' \<in> set m"]
    by (auto simp: sd_open_def Let_def split: prod.splits)
next
  case (Mkdir q)
  have "feData (case map_of (sdStorage (swCard w)) p of None \<Rightarrow> file_entry_new | Some e \<Rightarrow> e) = d"
    using assms(1) by (auto simp: holds_data_def)
  then show ?thesis
    using assms(1) Mkdir by (auto simp: sd_mkdir_def Let_def intro!: holds_data_put)
next
  case (Rename q r)
  then show ?thesis
    using assms by (auto simp: sd_rename_def Let_def intro!: holds_data_put holds_data_erase split: option.split)
next
  case (Write n b)
  show ?thesis
  proof (cases "n < length (swFiles w) \<and> fiWrite (swFiles w ! n)")
    case True
    then show ?thesis
      using assms Write by (auto simp: sd_write_eq intro!: holds_data_put)
  next
    case False
    then show ?thesis
      using assms Write by (auto simp: sd_write_def)
  qed
qed (use assms in \<open>auto simp: sd_begin_def sd_remove_def Let_def holds_data_erase split: prod.split\<close>)

lemma sd_spare_run_data:
  "holds_data p d (sdStorage (swCard w)) \<Longrightarrow> sd_spare_run p w ops \<Longrightarrow>
   holds_data p d (sdStorage (swCard (fold sd_step ops w)))"
  by (induction ops arbitrary: w) (auto simp: sd_spares_step)

section \<open>Properties\<close>

text \<open>
  C30: the round trip. A file is opened for writing or appending and written in pieces, one after the
  other; in all it stays below \<open>2 ^ 31\<close> bytes (\<open>available\<close> converts the size to \<open>int\<close>). Then the program
  does anything that leaves this file alone: it opens, writes, makes, removes and renames others,
  reads and seeks. An object opened for reading after that reads, in the loop that reads while bytes
  are available, the concatenation of the pieces, after what was there when the file was opened for
  appending; and the writing changed no other entry.
\<close>

theorem sd_file_roundtrip:
  assumes "storage_ok (sdStorage s)" "sd_open p mode s = (f, s1)" "sd_writes ds f (sdStorage s1) = (g, st)"
    "mode = ''w'' \<or> mode = ''a''" "old = (if mode = ''w'' then [] else feData (entry_of (normPath p) (sdStorage s)))"
    "length (old @ concat ds) < 2 ^ 31" "swCard w = s\<lparr>sdStorage := st\<rparr>" "sd_spare_run (normPath p) w ops"
    "sd_open p ''r'' (swCard (fold sd_step ops w)) = (r, s2)"
  shows "\<exists>t. read_all (\<lambda>s. sd_available (fst s) (snd s)) (\<lambda>s. let (v, f) = sd_read (fst s) (snd s) in (v, f, snd s))
      (r, sdStorage s2) = Some (t, map uint (old @ concat ds)) \<and>
    (\<forall>q. normPath q \<noteq> normPath p \<longrightarrow> map_of st (normPath q) = map_of (sdStorage s) (normPath q))"
proof -
  let ?p = "normPath p"
  define e where "e = (entry_of ?p (sdStorage s))\<lparr>feData := old\<rparr>"
  have f: "f = sd_file_none\<lparr>fiPath := ?p, fiValid := True, fiWrite := True, fiPos := length old\<rparr>"
    and s1: "sdStorage s1 = map_put ?p e (sdStorage s)"
    using assms(2,4,5) by (auto simp: sd_open_def sd_file_open_def Let_def e_def entry_of_def split: option.splits)
  have m1: "map_of (sdStorage s1) = (map_of (sdStorage s))(?p \<mapsto> e)" "storage_ok (sdStorage s1)"
    using assms(1) by (simp_all add: s1)
  have "storage_ok st \<and> map_of st = (map_of (sdStorage s1))(?p \<mapsto> e\<lparr>feData := feData e @ concat ds\<rparr>)"
    using sd_writes_end [of f "sdStorage s1" e ds g st] m1 assms(3) by (simp add: f e_def)
  then have st: "storage_ok st" "map_of st = (map_of (sdStorage s))(?p \<mapsto> e\<lparr>feData := old @ concat ds\<rparr>)"
    using m1 by (auto simp: e_def fun_eq_iff)
  define st' where "st' = sdStorage (swCard (fold sd_step ops w))"
  have "holds_data ?p (old @ concat ds) (sdStorage (swCard w))"
    using st by (simp add: holds_data_def assms(7))
  then have "holds_data ?p (old @ concat ds) st'"
    unfolding st'_def by (rule sd_spare_run_data) (rule assms(8))
  then obtain e' where e': "map_of st' ?p = Some e'" "feData e' = old @ concat ds"
    by (auto simp: holds_data_def)
  then have r: "r = sd_file_none\<lparr>fiPath := ?p, fiValid := True, fiDir := feDir e'\<rparr>" "sdStorage s2 = st'"
    using assms(9) by (auto simp: sd_open_def sd_file_open_def Let_def sd_file_none_def st'_def)
  have "sd_readable (r, st')" "sd_rest (r, st') = old @ concat ds"
    using e' assms(6) by (simp_all add: sd_readable_def sd_rest_def entry_of_def r sd_file_none_def)
  then show ?thesis
    using sd_bytes.drain [of "(r, st')" "\<lambda>_. True"] st r(2) by auto
qed

text \<open>A log that is appended to, and another file written and removed before it is read.\<close>

theorem sd_file_roundtrip_witness:
  "let (f, s1) = sd_open ''log'' ''a'' \<lparr>sdMounted = True, sdStorage = [(''/log'', \<lparr>feData = [9], feDir = False\<rparr>)]\<rparr>;
       (g, st) = sd_writes [[1, 2], [3]] f (sdStorage s1);
       w = fold sd_step [Open ''tmp'' ''w'', Write 1 [5], Remove ''tmp'']
         \<lparr>swCard = \<lparr>sdMounted = True, sdStorage = st\<rparr>, swFiles = [g]\<rparr>;
       (r, s2) = sd_open ''log'' ''r'' (swCard w)
   in \<exists>t. read_all (\<lambda>s. sd_available (fst s) (snd s)) (\<lambda>s. let (v, f) = sd_read (fst s) (snd s) in (v, f, snd s))
     (r, sdStorage s2) = Some (t, [9, 1, 2, 3])"
proof -
  let ?s = "\<lparr>sdMounted = True, sdStorage = [(''/log'', \<lparr>feData = [9], feDir = False\<rparr>)]\<rparr>"
  have n: "normPath ''log'' = ''/log''" "normPath ''tmp'' = ''/tmp''"
    by (simp_all add: normPath_def strip_slashes.simps)
  obtain f s1 where f: "sd_open ''log'' ''a'' ?s = (f, s1)"
    by fastforce
  obtain g st where g: "sd_writes [[1, 2], [3]] f (sdStorage s1) = (g, st)"
    by fastforce
  let ?w = "\<lparr>swCard = ?s\<lparr>sdStorage := st\<rparr>, swFiles = [g]\<rparr>"
  let ?ops = "[Open ''tmp'' ''w'', Write 1 [5], Remove ''tmp'']"
  obtain r s2 where r: "sd_open ''log'' ''r'' (swCard (fold sd_step ?ops ?w)) = (r, s2)"
    by fastforce
  have spare: "sd_spare_run (normPath ''log'') ?w ?ops"
    by (simp add: n sd_open_def sd_file_open_def Let_def sd_file_none_def)
  have "storage_ok (sdStorage ?s)"
    by (simp add: storage_ok_def)
  from sd_file_roundtrip [OF this f g _ refl _ _ spare r] f g r n show ?thesis
    by (simp add: entry_of_def)
qed

text \<open>
  Writing at a position. At or before the end the bytes replace those from the position on and extend the file as
  far as they reach; behind the end they are appended at the end instead of at the position, while
  the position moves as if they had been written there, so that what was written cannot be read from
  where it was meant to be.
\<close>

theorem sd_write_at:
  assumes "fiWrite f" "storage_ok st" "map_of st (fiPath f) = Some e" "sd_write buf (snd (sd_seek pos f)) st = (n, g, st')"
  shows "n = length buf \<and> fiPos g = pos + length buf \<and>
    map_of st' (fiPath f) = Some (e\<lparr>feData := (if pos \<le> length (feData e)
      then take pos (feData e) @ buf @ drop (pos + length buf) (feData e) else feData e @ buf)\<rparr>) \<and>
    (pos > length (feData e) \<longrightarrow> buf \<noteq> [] \<longrightarrow> sd_read (snd (sd_seek (pos + length buf - 1) g)) st' = (- 1, snd (sd_seek (pos + length buf - 1) g)))"
proof -
  have w: "fiWrite (snd (sd_seek pos f))" "fiPath (snd (sd_seek pos f)) = fiPath f" "fiPos (snd (sd_seek pos f)) = pos"
    using assms(1) by (simp_all add: sd_seek_def)
  note m = map_of_write [OF w(1) assms(2,4)]
  have "map_of st' (fiPath f) = Some (e\<lparr>feData := written pos buf (feData e)\<rparr>)"
    using m(1) assms(3) w by (simp add: entry_of_def)
  moreover have "g = (snd (sd_seek pos f))\<lparr>fiPos := pos + length buf\<rparr>" "n = length buf"
    using m(2,3) w by simp_all
  ultimately show ?thesis
    by (auto simp: written_def sd_read_def sd_seek_def not_less)
qed

theorem sd_write_at_witness:
  "map_of (snd (snd (sd_write [7, 8] (snd (sd_seek 1 \<lparr>fiPath = ''/a'', fiValid = True, fiWrite = True, fiDir = False, fiPos = 0, fiIdx = 0\<rparr>))
     [(''/a'', \<lparr>feData = [1, 2, 3, 4], feDir = False\<rparr>)]))) ''/a'' = Some \<lparr>feData = [1, 7, 8, 4], feDir = False\<rparr>"
  using sd_write_at [of "\<lparr>fiPath = ''/a'', fiValid = True, fiWrite = True, fiDir = False, fiPos = 0, fiIdx = 0\<rparr>"
      "[(''/a'', \<lparr>feData = [1, 2, 3, 4], feDir = False\<rparr>)]" _ "[7, 8]" 1, OF _ _ _ pair_parts3]
  by (simp add: storage_ok_def)

fun sd_list :: "nat \<Rightarrow> sd_file \<Rightarrow> storage \<Rightarrow> string list" where
  "sd_list 0 f st = []"
| "sd_list (Suc n) f st =
    (let (c, f) = sd_openNextFile f st in if fiValid c then fiPath c # sd_list n f st else [])"

lemma nth_child_filter:
  "nth_child p want idx st =
    (let ks = filter (direct_child p) (map fst st)
     in if idx \<le> want \<and> want < idx + length ks then Some (ks ! (want - idx)) else None)"
proof (induction p want idx st rule: nth_child.induct)
  case (2 p want idx k v ms)
  show ?case
  proof (cases "direct_child p k \<and> idx \<noteq> want")
    case True
    then show ?thesis
      using 2 by (auto simp: Let_def nth_Cons' Suc_diff_le)
  next
    case False
    then show ?thesis
      using 2 by (auto simp: Let_def)
  qed
qed simp

lemma sd_list_from:
  assumes "storage_ok st" "fiDir f"
  shows "sd_list n f st = take n (drop (fiIdx f) (filter (direct_child (fiPath f)) (map fst st)))"
  using assms(2)
proof (induction n arbitrary: f)
  case (Suc n)
  define ks where "ks = filter (direct_child (fiPath f)) (map fst st)"
  show ?case
  proof (cases "fiIdx f < length ks")
    case True
    then have c: "nth_child (fiPath f) (fiIdx f) 0 st = Some (ks ! fiIdx f)"
      by (simp add: nth_child_filter ks_def Let_def)
    have "ks ! fiIdx f \<in> fst ` set st"
      using True nth_mem [of "fiIdx f" ks] by (auto simp: ks_def)
    then have "map_of st (ks ! fiIdx f) \<noteq> None"
      by (simp add: map_of_eq_None_iff)
    then have "fiValid (fst (sd_file_open (ks ! fiIdx f) False False st))" "fiPath (fst (sd_file_open (ks ! fiIdx f) False False st)) = ks ! fiIdx f"
      by (auto simp: sd_file_open_def sd_file_none_def Let_def)
    then have "sd_list (Suc n) f st = ks ! fiIdx f # sd_list n (f\<lparr>fiIdx := fiIdx f + 1\<rparr>) st"
      using c Suc.prems by (simp add: sd_openNextFile_def)
    then show ?thesis
      using Suc.IH [of "f\<lparr>fiIdx := fiIdx f + 1\<rparr>"] Suc.prems True
      by (simp add: ks_def [symmetric] Cons_nth_drop_Suc [symmetric])
  next
    case False
    then have "nth_child (fiPath f) (fiIdx f) 0 st = None"
      by (simp add: nth_child_filter ks_def Let_def)
    then show ?thesis
      using Suc.prems False by (simp add: sd_openNextFile_def sd_file_none_def ks_def [symmetric])
  qed
qed simp

text \<open>
  Listing. Calling \<open>openNextFile\<close> on a directory that was just opened gives its direct children and no other
  entry, each once and in the order of their names, and an invalid object from then on.
\<close>

theorem sd_list_children:
  assumes "storage_ok (sdStorage s)" "sd_open p ''r'' s = (f, s')" "fiDir f" "list_all (\<lambda>m. path_ok (fst m)) (sdStorage s)"
  shows "sd_list n f (sdStorage s') = take n (filter (direct_child (normPath p)) (map fst (sdStorage s))) \<and>
    sorted_wrt (<) (sd_list n f (sdStorage s')) \<and>
    (n \<ge> length (sdStorage s) \<longrightarrow> set (sd_list n f (sdStorage s')) = {k. sd_exists k s \<and> path_ok k \<and> direct_child (normPath p) k})"
proof -
  let ?ks = "filter (direct_child (normPath p)) (map fst (sdStorage s))"
  have f: "s' = s" "fiPath f = normPath p" "fiIdx f = 0"
    using assms(2,3) by (auto simp: sd_open_def sd_file_open_def sd_file_none_def Let_def split: option.splits)
  have l: "sd_list n f (sdStorage s') = take n ?ks"
    using sd_list_from [OF assms(1,3)] f by simp
  have "sorted_wrt (<) ?ks"
    using assms(1) by (auto simp: storage_ok_def intro: sorted_wrt_filter)
  then have "sorted_wrt (<) (take n ?ks)"
    by (rule sorted_wrt_take)
  moreover have "set (take n ?ks) = {k. sd_exists k s \<and> path_ok k \<and> direct_child (normPath p) k}"
    if n: "n \<ge> length (sdStorage s)"
  proof -
    have "length ?ks \<le> n"
      using n length_filter_le [of "direct_child (normPath p)" "map fst (sdStorage s)"] by (simp only: length_map)
    moreover have "k \<in> fst ` set (sdStorage s) \<longleftrightarrow> sd_exists k s \<and> path_ok k" for k
    proof
      assume k: "k \<in> fst ` set (sdStorage s)"
      then have "path_ok k"
        using assms(4) by (auto simp: list_all_iff)
      then show "sd_exists k s \<and> path_ok k"
        using k by (auto simp: sd_exists_def normPath_id map_of_eq_None_iff)
    qed (force simp: sd_exists_def normPath_id map_of_eq_None_iff)
    ultimately show ?thesis
      by (auto simp: take_all)
  qed
  ultimately show ?thesis
    unfolding l by blast
qed

theorem sd_list_children_witness:
  "sd_list 9 (fst (sd_open ''/d'' ''r'' \<lparr>sdMounted = True, sdStorage =
      [(''/d'', \<lparr>feData = [], feDir = True\<rparr>), (''/d/a'', file_entry_new), (''/d/a/x'', file_entry_new), (''/d/b'', file_entry_new), (''/da'', file_entry_new)]\<rparr>))
     [(''/d'', \<lparr>feData = [], feDir = True\<rparr>), (''/d/a'', file_entry_new), (''/d/a/x'', file_entry_new), (''/d/b'', file_entry_new), (''/da'', file_entry_new)]
     = [''/d/a'', ''/d/b'']"
proof -
  let ?s = "\<lparr>sdMounted = True, sdStorage =
      [(''/d'', \<lparr>feData = [], feDir = True\<rparr>), (''/d/a'', file_entry_new), (''/d/a/x'', file_entry_new), (''/d/b'', file_entry_new), (''/da'', file_entry_new)]\<rparr>"
  have n: "normPath ''/d'' = ''/d''"
    by (simp add: normPath_def strip_slashes.simps)
  have o: "sd_open ''/d'' ''r'' ?s = (sd_file_none\<lparr>fiPath := ''/d'', fiValid := True, fiDir := True\<rparr>, ?s)"
    by (simp add: sd_open_def sd_file_open_def n Let_def sd_file_none_def)
  have "storage_ok (sdStorage ?s)"
    by (simp add: storage_ok_def)
  from sd_list_children [OF this o, of 9] show ?thesis
    by (simp add: path_ok_def o n direct_child_def dir_prefix_def)
qed

text \<open>
  Renaming moves the entry of a path and no other one: the children of a renamed directory stay where they
  were, and what was at the new path is lost. Renaming a path to itself reports success and
  removes the entry.
\<close>

theorem sd_rename_moves:
  assumes "storage_ok (sdStorage s)" "map_of (sdStorage s) (normPath p) = Some e"
  shows "fst (sd_rename p q s) \<and>
    map_of (sdStorage (snd (sd_rename p q s))) =
      (if normPath q = normPath p then (map_of (sdStorage s))(normPath p := None)
       else (map_of (sdStorage s))(normPath p := None, normPath q \<mapsto> e)) \<and>
    \<not> sd_exists p (snd (sd_rename p q s))"
  using assms by (auto simp: sd_rename_def Let_def map_of_erase sd_exists_def fun_eq_iff)

theorem sd_rename_moves_witness:
  "\<not> sd_exists ''/a'' (snd (sd_rename ''a'' ''/a/'' \<lparr>sdMounted = True, sdStorage = [(''/a'', file_entry_new)]\<rparr>))"
proof -
  have "normPath ''a'' = ''/a''" "normPath ''/a/'' = ''/a''" "normPath ''/a'' = ''/a''"
    by (simp_all add: normPath_def strip_slashes.simps)
  then show ?thesis
    using sd_rename_moves [of "\<lparr>sdMounted = True, sdStorage = [(''/a'', file_entry_new)]\<rparr>" "''a''" file_entry_new "''/a/''"]
    by (simp add: storage_ok_def sd_exists_def)
qed

text \<open>
  Behind the end. A position behind the end of a file (\<open>seek\<close> accepts every position) makes reading a block
  undefined, while reading a byte reports the end and the number of available bytes is negative.
\<close>

theorem sd_read_behind_end:
  assumes "map_of st (fiPath f) = Some e" "length (feData e) < pos" "pos < 2 ^ 31" "0 < len"
  shows "fst (sd_seek pos f) \<and> sd_read_buf len (snd (sd_seek pos f)) st = None \<and>
    fst (sd_read (snd (sd_seek pos f)) st) = - 1 \<and> sd_available (snd (sd_seek pos f)) st < 0"
  using assms by (simp add: sd_seek_def sd_read_buf_def sd_read_def sd_available_def sd_size_def sint_small_nat)

theorem sd_read_behind_end_witness:
  "sd_read_buf 1 (snd (sd_seek 5 (sd_file_none\<lparr>fiPath := ''/a''\<rparr>))) [(''/a'', \<lparr>feData = [1, 2], feDir = False\<rparr>)] = None"
  using sd_read_behind_end [of "[(''/a'', \<lparr>feData = [1, 2], feDir = False\<rparr>)]" "sd_file_none\<lparr>fiPath := ''/a''\<rparr>"
      "\<lparr>feData = [1, 2], feDir = False\<rparr>" 5 1] by (simp add: sd_file_none_def)

text \<open>
  The invariant. Along any calls on a new card and on the file objects opened from it, the keys of the storage
  are in order, each once, and normalised: they start with a slash and do not end with one.
\<close>

theorem sd_paths_normal:
  "storage_ok (sdStorage (swCard (fold sd_step ops \<lparr>swCard = \<lparr>sdMounted = False, sdStorage = []\<rparr>, swFiles = []\<rparr>))) \<and>
   list_all (\<lambda>m. path_ok (fst m)) (sdStorage (swCard (fold sd_step ops \<lparr>swCard = \<lparr>sdMounted = False, sdStorage = []\<rparr>, swFiles = []\<rparr>)))"
  using sd_life.inv_run [OF refl, of ops] by (simp add: sd_inv_def list_all_iff)

end
