(* ===== verification/Soft_Timer.thy ===== *)
theory Soft_Timer
  imports Interfaces
begin

text \<open>
  FreeRTOS software timers, \<open>src/include/freertos/timers.h\<close>. Each started timer has a worker
  thread that polls the clock, fires the callback at its deadline and either ends (one-shot) or
  computes the next deadline (auto-reload). The model keeps the control state of the timer and of
  its worker; the worker's steps take the clock value they read. The lemmas bound how often a timer
  fires, show that a stopped timer is silent, and record what starting and stopping from inside
  the callback does.
\<close>

section \<open>State\<close>

text \<open>
  \<open>worker\<close> is the \<open>std::thread\<close>: absent, at the head of its loop, polling towards a
  deadline, or returned but not yet joined.
\<close>

datatype worker_state = NoThread | LoopHead | Polling nat | Returned

record soft_timer =
  stName :: string
  periodTicks :: u32
  autoReload :: bool
  timerId :: nat
  stRunning :: bool
  stDeleted :: bool
  fireCount :: u32
  worker :: worker_state

definition joinable :: "soft_timer \<Rightarrow> bool" where
  "joinable t \<longleftrightarrow> worker t \<noteq> NoThread"

definition xTimerCreate :: "string option \<Rightarrow> u32 \<Rightarrow> int \<Rightarrow> nat \<Rightarrow> soft_timer" where
  "xTimerCreate pcTimerName xTimerPeriodInTicks uxAutoReload pvTimerID =
    \<lparr>stName = (case pcTimerName of None \<Rightarrow> ''timer'' | Some n \<Rightarrow> n),
     periodTicks = xTimerPeriodInTicks, autoReload = (uxAutoReload = pdTRUE),
     timerId = pvTimerID, stRunning = False, stDeleted = False, fireCount = 0,
     worker = NoThread\<rparr>"

section \<open>Operations\<close>

text \<open>
  \<open>start\<close> does nothing on a running timer; otherwise it joins the previous worker (which
  ends, as \<open>running\<close> is false) and spawns a new one. \<open>stop\<close> clears \<open>running\<close> and
  joins. \<open>on_worker\<close> says that the caller is the callback: a thread that joins itself gets an
  exception from \<open>std::thread::join\<close> (\<open>None\<close>).
\<close>

definition st_start :: "bool \<Rightarrow> soft_timer \<Rightarrow> soft_timer option" where
  "st_start on_worker t =
    (if stRunning t then Some t
     else if joinable t \<and> on_worker then None
     else Some (t\<lparr>stRunning := True, worker := LoopHead\<rparr>))"

definition st_stop :: "bool \<Rightarrow> soft_timer \<Rightarrow> soft_timer option" where
  "st_stop on_worker t =
    (let t' = t\<lparr>stRunning := False\<rparr>
     in if joinable t' then if on_worker then None else Some (t'\<lparr>worker := NoThread\<rparr>)
        else Some t')"

definition st_destroy :: "bool \<Rightarrow> soft_timer \<Rightarrow> soft_timer option" where
  "st_destroy on_worker t = st_stop on_worker (t\<lparr>stDeleted := True\<rparr>)"

definition xTimerStart :: "bool \<Rightarrow> soft_timer \<Rightarrow> u32 \<Rightarrow> (int \<times> soft_timer) option" where
  "xTimerStart on_worker t xTicksToWait = map_option (Pair pdPASS) (st_start on_worker t)"

definition xTimerStop :: "bool \<Rightarrow> soft_timer \<Rightarrow> u32 \<Rightarrow> (int \<times> soft_timer) option" where
  "xTimerStop on_worker t xTicksToWait = map_option (Pair pdPASS) (st_stop on_worker t)"

definition xTimerReset :: "bool \<Rightarrow> soft_timer \<Rightarrow> u32 \<Rightarrow> (int \<times> soft_timer) option" where
  "xTimerReset on_worker t xTicksToWait =
    Option.bind (st_stop on_worker t) (\<lambda>t. xTimerStart on_worker t xTicksToWait)"

definition xTimerChangePeriod ::
  "bool \<Rightarrow> soft_timer \<Rightarrow> u32 \<Rightarrow> u32 \<Rightarrow> (int \<times> soft_timer) option" where
  "xTimerChangePeriod on_worker t xNewPeriod xTicksToWait =
    (let wasRunning = stRunning t
     in case (if wasRunning then st_stop on_worker t else Some t) of
          None \<Rightarrow> None
        | Some t1 \<Rightarrow>
            let t2 = t1\<lparr>periodTicks := xNewPeriod\<rparr>
            in if wasRunning then xTimerStart on_worker t2 xTicksToWait else Some (pdPASS, t2))"

text \<open>Deleting destroys and frees: the result is the return code only.\<close>

definition xTimerDelete :: "bool \<Rightarrow> soft_timer \<Rightarrow> u32 \<Rightarrow> int option" where
  "xTimerDelete on_worker t xTicksToWait = map_option (\<lambda>_. pdPASS) (st_destroy on_worker t)"

definition pvTimerGetTimerID :: "soft_timer \<Rightarrow> nat" where
  "pvTimerGetTimerID t = timerId t"

definition pcTimerGetName :: "soft_timer \<Rightarrow> string" where
  "pcTimerGetName t = stName t"

definition xTimerIsTimerActive :: "soft_timer \<Rightarrow> int" where
  "xTimerIsTimerActive t = (if stRunning t then pdTRUE else pdFALSE)"

text \<open>The variants for interrupt handlers also clear the woken flag, if they are given one.\<close>

definition xTimerStartFromISR ::
  "bool \<Rightarrow> soft_timer \<Rightarrow> int option \<Rightarrow> ((int \<times> soft_timer) \<times> int option) option" where
  "xTimerStartFromISR on_worker t woken =
    map_option (\<lambda>r. (r, map_option (\<lambda>_. pdFALSE) woken)) (xTimerStart on_worker t 0)"

definition xTimerStopFromISR ::
  "bool \<Rightarrow> soft_timer \<Rightarrow> int option \<Rightarrow> ((int \<times> soft_timer) \<times> int option) option" where
  "xTimerStopFromISR on_worker t woken =
    map_option (\<lambda>r. (r, map_option (\<lambda>_. pdFALSE) woken)) (xTimerStop on_worker t 0)"

definition xTimerResetFromISR ::
  "bool \<Rightarrow> soft_timer \<Rightarrow> int option \<Rightarrow> ((int \<times> soft_timer) \<times> int option) option" where
  "xTimerResetFromISR on_worker t woken =
    map_option (\<lambda>r. (r, map_option (\<lambda>_. pdFALSE) woken)) (xTimerReset on_worker t 0)"

definition timer_getFireCount :: "soft_timer \<Rightarrow> u32" where
  "timer_getFireCount t = fireCount t"

definition timer_resetFireCount :: "soft_timer \<Rightarrow> soft_timer" where
  "timer_resetFireCount t = t\<lparr>fireCount := 0\<rparr>"

section \<open>The worker\<close>

text \<open>
  One step of the worker at clock \<open>now\<close>: at the head of the loop it tests the flags and
  computes the deadline; while polling it tests the clock, then the flags. \<open>callback\<close> is the
  user's code, a function of the timer (it may call the operations above, \<open>None\<close> when it
  throws). A one-shot clears \<open>running\<close> and returns, an auto-reload timer goes to the loop head.
\<close>

definition worker_poll ::
  "(soft_timer \<Rightarrow> soft_timer option) \<Rightarrow> nat \<Rightarrow> soft_timer \<Rightarrow> soft_timer option" where
  "worker_poll callback now t =
    (case worker t of
       LoopHead \<Rightarrow>
         if stRunning t \<and> \<not> stDeleted t
         then Some (t\<lparr>worker := Polling (now + unat (periodTicks t))\<rparr>)
         else Some (t\<lparr>worker := Returned\<rparr>)
     | Polling deadline \<Rightarrow>
         if \<not> stRunning t \<or> stDeleted t then Some (t\<lparr>worker := Returned\<rparr>)
         else if now < deadline then Some t
         else map_option (\<lambda>t1.
                if \<not> autoReload t1 then t1\<lparr>stRunning := False, worker := Returned\<rparr>
                else t1\<lparr>worker := LoopHead\<rparr>)
              (callback (t\<lparr>fireCount := fireCount t + 1\<rparr>))
     | _ \<Rightarrow> Some t)"

text \<open>A run of polls at the given clock values, with a callback that leaves the timer alone.\<close>

fun worker_run :: "nat list \<Rightarrow> soft_timer \<Rightarrow> soft_timer" where
  "worker_run [] t = t"
| "worker_run (now # cs) t = worker_run cs (the (worker_poll Some now t))"

section \<open>Bounds on firing\<close>

text \<open>
  \<open>fires_inv start p n clock\<close>: \<open>n\<close> callbacks in the time since \<open>start\<close> are at
  least a period \<open>p\<close> apart, and the deadline ahead leaves room for the next one.
\<close>

definition fires_inv :: "nat \<Rightarrow> nat \<Rightarrow> soft_timer \<Rightarrow> bool" where
  "fires_inv start clock t \<longleftrightarrow>
    start + unat (fireCount t) * unat (periodTicks t) \<le> clock \<and>
    (case worker t of
       Polling d \<Rightarrow> start + (unat (fireCount t) + 1) * unat (periodTicks t) \<le> d
     | _ \<Rightarrow> True)"

lemma worker_poll_frame [simp]:
  "periodTicks (the (worker_poll Some now t)) = periodTicks t"
  "autoReload (the (worker_poll Some now t)) = autoReload t"
  by (simp_all add: worker_poll_def split: worker_state.splits)

lemma fire_count_step: "unat (c + 1 :: u32) \<le> unat c + 1"
  by (simp add: unat_word_ariths)

lemma fires_inv_poll:
  assumes "fires_inv start clock t" "clock \<le> now"
  shows "fires_inv start now (the (worker_poll Some now t))"
proof -
  have k: "unat (fireCount t + 1) * unat (periodTicks t)
      \<le> (unat (fireCount t) + 1) * unat (periodTicks t)"
    by (rule mult_le_mono1 [OF fire_count_step])
  show ?thesis
  proof (cases "worker t")
    case (Polling d)
    with assms have d: "start + (unat (fireCount t) + 1) * unat (periodTicks t) \<le> d"
      by (simp add: fires_inv_def)
    then have "d \<le> now \<Longrightarrow> start + unat (fireCount t + 1) * unat (periodTicks t) \<le> now"
      using k by linarith
    with Polling d assms show ?thesis
      by (auto simp: worker_poll_def fires_inv_def)
  qed (use assms in \<open>auto simp: worker_poll_def fires_inv_def\<close>)
qed

lemma fires_inv_run:
  "fires_inv start clock t \<Longrightarrow> sorted (clock # cs) \<Longrightarrow>
   fires_inv start (last (clock # cs)) (worker_run cs t)"
proof (induction cs arbitrary: clock t)
  case Nil
  then show ?case by simp
next
  case (Cons now cs)
  then have "fires_inv start now (the (worker_poll Some now t))"
    by (intro fires_inv_poll) auto
  with Cons.IH [of now] Cons.prems show ?case by simp
qed

lemma worker_run_frame [simp]: "periodTicks (worker_run cs t) = periodTicks t"
  by (induction cs t rule: worker_run.induct) auto

lemma worker_run_done:
  "worker t = Returned \<or> worker t = NoThread \<Longrightarrow> worker_run cs t = t"
  by (induction cs) (auto simp: worker_poll_def)

lemma one_shot_polling:
  "worker t = Polling d \<Longrightarrow> stRunning t \<Longrightarrow> \<not> stDeleted t \<Longrightarrow> \<not> autoReload t \<Longrightarrow>
   worker_run cs t =
     (if \<exists>c\<in>set cs. d \<le> c
      then t\<lparr>fireCount := fireCount t + 1, stRunning := False, worker := Returned\<rparr> else t)"
  by (induction cs) (auto simp: worker_poll_def worker_run_done)

section \<open>Properties\<close>

text \<open>
  C15: a timer never fires early. Started at clock \<open>now\<close> and polled at any later
  clock values, the number of callbacks times the period is at most the time elapsed.
\<close>

theorem timer_never_early:
  assumes "\<not> stRunning t" "fireCount t = 0" "sorted (now # cs)"
    and "xTimerStart False t w = Some (r, t')"
  shows "unat (fireCount (worker_run cs t')) * unat (periodTicks t) \<le> last (now # cs) - now"
proof -
  have t': "t' = t\<lparr>stRunning := True, worker := LoopHead\<rparr>"
    using assms(1,4) by (simp add: xTimerStart_def st_start_def)
  have "fires_inv now now t'"
    using assms(2) by (simp add: t' fires_inv_def)
  then have "fires_inv now (last (now # cs)) (worker_run cs t')"
    using assms(3) by (rule fires_inv_run)
  then have "now + unat (fireCount (worker_run cs t')) * unat (periodTicks t) \<le> last (now # cs)"
    by (simp add: fires_inv_def t' del: last.simps)
  then show ?thesis
    by linarith
qed

theorem timer_never_early_witness:
  "unat (fireCount (worker_run [0, 5, 10, 11, 30]
     (xTimerCreate None 10 pdTRUE 0\<lparr>stRunning := True, worker := LoopHead\<rparr>))) * 10 \<le> 30"
  using timer_never_early [of "xTimerCreate None 10 pdTRUE 0" 0 "[0, 5, 10, 11, 30]" 0 pdPASS
      "xTimerCreate None 10 pdTRUE 0\<lparr>stRunning := True, worker := LoopHead\<rparr>"]
  by (simp add: xTimerCreate_def xTimerStart_def st_start_def)

text \<open>
  C16: a started one-shot whose worker computes its deadline at clock \<open>c0\<close> fires exactly once,
  at its first poll at or after \<open>c0\<close> plus the period, and is inactive from then on; until
  then it has not fired and stays active.
\<close>

theorem one_shot_fires_once:
  fixes cs :: "nat list" and c0 :: nat
  assumes "\<not> autoReload t" "\<not> stRunning t" "\<not> stDeleted t" "xTimerStart False t w = Some (r, t')"
  defines "t'' \<equiv> worker_run (c0 # cs) t'"
    and "fired \<equiv> (\<exists>c\<in>set cs. c0 + unat (periodTicks t) \<le> c)"
  shows "fireCount t'' = fireCount t + (if fired then 1 else 0) \<and>
    xTimerIsTimerActive t'' = (if fired then pdFALSE else pdTRUE)"
proof -
  have t': "t' = t\<lparr>stRunning := True, worker := LoopHead\<rparr>"
    using assms(2,4) by (simp add: xTimerStart_def st_start_def)
  then show ?thesis
    using assms(1,3) unfolding t''_def fired_def
    by (simp add: worker_poll_def one_shot_polling xTimerIsTimerActive_def)
qed

theorem one_shot_fires_once_witness:
  "fireCount (worker_run [3, 9, 12, 13, 40]
     (xTimerCreate None 10 pdFALSE 0\<lparr>stRunning := True, worker := LoopHead\<rparr>)) = 1"
  using one_shot_fires_once [of "xTimerCreate None 10 pdFALSE 0" 0 pdPASS
      "xTimerCreate None 10 pdFALSE 0\<lparr>stRunning := True, worker := LoopHead\<rparr>" 3 "[9, 12, 13, 40]"]
  by (simp add: xTimerCreate_def xTimerStart_def st_start_def)

text \<open>
  After \<open>xTimerStop\<close> from another thread the timer is inactive and silent, whatever its
  state was: no later poll changes it or calls the callback.
\<close>

theorem stopped_timer_silent:
  assumes "xTimerStop False t w = Some (r, t')"
  shows "r = pdPASS \<and> xTimerIsTimerActive t' = pdFALSE \<and> worker_run cs t' = t'"
proof -
  have "worker t' = NoThread" "\<not> stRunning t'" "r = pdPASS"
    using assms by (auto simp: xTimerStop_def st_stop_def joinable_def Let_def split: if_splits)
  then show ?thesis
    by (simp add: worker_run_done xTimerIsTimerActive_def)
qed

theorem stopped_timer_silent_witness:
  "let t = xTimerCreate None 10 pdTRUE 7\<lparr>stRunning := True, worker := Polling 10\<rparr>
   in worker_run [10, 20] (t\<lparr>stRunning := False, worker := NoThread\<rparr>)
      = t\<lparr>stRunning := False, worker := NoThread\<rparr>"
  using stopped_timer_silent [of "xTimerCreate None 10 pdTRUE 7\<lparr>stRunning := True, worker := Polling 10\<rparr>"
      0 pdPASS "xTimerCreate None 10 pdTRUE 7\<lparr>stRunning := False, worker := NoThread\<rparr>" "[10, 20]"]
  by (simp add: xTimerCreate_def xTimerStop_def st_stop_def joinable_def)

text \<open>
  A one-shot cannot restart itself. While its callback runs, \<open>running\<close> is still set, so
  \<open>xTimerStart\<close> in the callback returns \<open>pdPASS\<close> without effect, and the worker then clears
  \<open>running\<close>: the poll is the one of a callback that did nothing.
\<close>

theorem restart_in_callback_lost:
  "worker_poll (\<lambda>t. map_option snd (xTimerStart True t w)) now t = worker_poll Some now t"
  by (simp add: worker_poll_def xTimerStart_def st_start_def split: worker_state.splits)

end
