(* ===== verification/Stream_Buffer.thy ===== *)
theory Stream_Buffer
  imports Interfaces
begin

text \<open>
  FreeRTOS stream and message buffers, \<open>src/include/freertos/stream_buffer.h\<close>: a byte ring
  (\<open>buf\<close>, \<open>head\<close>, \<open>count\<close>) behind a mutex, and on top of it length-prefixed
  messages. The ring is shown to be a bounded byte stream (the abstraction function
  \<open>sb_contents\<close> reads the ring from \<open>head\<close> on), and the message layer to deliver
  whole messages in order as long as the reader's buffer is large enough.
\<close>

section \<open>The ring\<close>

record stream_buffer =
  buf :: "byte list"
  capacity :: nat
  head :: nat
  count :: nat

definition sb_new :: "nat \<Rightarrow> stream_buffer" where
  "sb_new cap = \<lparr>buf = replicate cap 0, capacity = cap, head = 0, count = 0\<rparr>"

definition sb_spacesAvailable :: "stream_buffer \<Rightarrow> nat" where
  "sb_spacesAvailable sb = capacity sb - count sb"

definition sb_bytesAvailable :: "stream_buffer \<Rightarrow> nat" where
  "sb_bytesAvailable sb = count sb"

definition sb_isEmpty :: "stream_buffer \<Rightarrow> bool" where
  "sb_isEmpty sb \<longleftrightarrow> count sb = 0"

definition sb_isFull :: "stream_buffer \<Rightarrow> bool" where
  "sb_isFull sb \<longleftrightarrow> count sb = capacity sb"

definition sb_reset :: "stream_buffer \<Rightarrow> stream_buffer" where
  "sb_reset sb = sb\<lparr>head := 0, count := 0\<rparr>"

text \<open>The copy loop of \<open>send\<close> runs zero times on a zero-capacity ring, so it never divides
  by zero; \<open>receive\<close> computes \<open>head\<close> modulo the capacity even then, and traps.\<close>

definition sb_copy_in :: "nat \<Rightarrow> nat \<Rightarrow> byte list \<Rightarrow> nat \<Rightarrow> byte list \<Rightarrow> byte list" where
  "sb_copy_in base cap src n b =
    fold (\<lambda>i b. b[(base + i) mod cap := src ! i]) [0..<n] b"

definition sb_send :: "stream_buffer \<Rightarrow> byte list \<Rightarrow> nat \<times> stream_buffer" where
  "sb_send sb data =
    (let avail = capacity sb - count sb;
         toWrite = (if length data < avail then length data else avail)
     in (toWrite,
         sb\<lparr>buf := sb_copy_in (head sb + count sb) (capacity sb) data toWrite (buf sb),
            count := count sb + toWrite\<rparr>))"

definition sb_receive :: "stream_buffer \<Rightarrow> nat \<Rightarrow> (byte list \<times> stream_buffer) option" where
  "sb_receive sb len =
    (let toRead = (if len < count sb then len else count sb);
         dst = map (\<lambda>i. buf sb ! ((head sb + i) mod capacity sb)) [0..<toRead]
     in if capacity sb = 0 then None
        else Some (dst, sb\<lparr>head := (head sb + toRead) mod capacity sb,
                           count := count sb - toRead\<rparr>))"

section \<open>The C interface\<close>

definition xStreamBufferCreate :: "nat \<Rightarrow> stream_buffer" where
  "xStreamBufferCreate xBufferSizeBytes = sb_new xBufferSizeBytes"

definition vStreamBufferDelete :: "nat \<Rightarrow> (nat \<rightharpoonup> stream_buffer) \<Rightarrow> (nat \<rightharpoonup> stream_buffer)" where
  "vStreamBufferDelete h hp = hp(h := None)"

definition xStreamBufferSend :: "stream_buffer \<Rightarrow> byte list \<Rightarrow> nat \<times> stream_buffer" where
  "xStreamBufferSend sb pvTxData = sb_send sb pvTxData"

definition xStreamBufferReceive :: "stream_buffer \<Rightarrow> nat \<Rightarrow> (byte list \<times> stream_buffer) option" where
  "xStreamBufferReceive sb len = sb_receive sb len"

definition xStreamBufferBytesAvailable :: "stream_buffer \<Rightarrow> nat" where
  "xStreamBufferBytesAvailable sb = sb_bytesAvailable sb"

definition xStreamBufferSpacesAvailable :: "stream_buffer \<Rightarrow> nat" where
  "xStreamBufferSpacesAvailable sb = sb_spacesAvailable sb"

definition xStreamBufferIsEmpty :: "stream_buffer \<Rightarrow> int" where
  "xStreamBufferIsEmpty sb = (if sb_isEmpty sb then 1 else 0)"

definition xStreamBufferIsFull :: "stream_buffer \<Rightarrow> int" where
  "xStreamBufferIsFull sb = (if sb_isFull sb then 1 else 0)"

definition xStreamBufferReset :: "stream_buffer \<Rightarrow> int \<times> stream_buffer" where
  "xStreamBufferReset sb = (1, sb_reset sb)"

definition xStreamBufferSendFromISR :: "stream_buffer \<Rightarrow> byte list \<Rightarrow> nat \<times> stream_buffer" where
  "xStreamBufferSendFromISR sb pvTxData = sb_send sb pvTxData"

definition xStreamBufferReceiveFromISR ::
  "stream_buffer \<Rightarrow> nat \<Rightarrow> (byte list \<times> stream_buffer) option" where
  "xStreamBufferReceiveFromISR sb len = sb_receive sb len"

section \<open>Message buffers\<close>

definition xMessageBufferCreate :: "nat \<Rightarrow> stream_buffer" where
  "xMessageBufferCreate xBufferSizeBytes = xStreamBufferCreate xBufferSizeBytes"

definition vMessageBufferDelete :: "nat \<Rightarrow> (nat \<rightharpoonup> stream_buffer) \<Rightarrow> (nat \<rightharpoonup> stream_buffer)" where
  "vMessageBufferDelete h hp = vStreamBufferDelete h hp"

text \<open>
  \<open>pvTxData\<close> is the caller's memory from the pointer on, and the length a \<open>size_t\<close> of its own: the
  sum with \<open>sizeof(uint32_t)\<close> wraps, so a length of \<open>SIZE_MAX\<close> (a \<open>-1\<close> passed on) needs room for 3
  bytes. \<open>send\<close> reads no more than it has room for; \<open>None\<close> is a read outside that memory.
\<close>

definition xMessageBufferSend :: "stream_buffer \<Rightarrow> byte list \<Rightarrow> u64 \<Rightarrow> (u64 \<times> stream_buffer) option" where
  "xMessageBufferSend sb pvTxData xDataLengthBytes =
    (if sb_spacesAvailable sb < unat (xDataLengthBytes + 4) then Some (0, sb)
     else let len = (ucast xDataLengthBytes :: u32);
              sb1 = snd (sb_send sb (word_bytes len));
              n = min (unat xDataLengthBytes) (sb_spacesAvailable sb1)
          in if length pvTxData < n then None
             else Some (xDataLengthBytes, snd (sb_send sb1 (take n pvTxData))))"

text \<open>The result: the value returned, the bytes written to \<open>pvRxData\<close>, the buffer.\<close>

definition xMessageBufferReceive ::
  "stream_buffer \<Rightarrow> nat \<Rightarrow> (nat \<times> byte list \<times> stream_buffer) option" where
  "xMessageBufferReceive sb xBufferLengthBytes =
    (if sb_bytesAvailable sb < 4 then Some (0, [], sb)
     else (case sb_receive sb 4 of
        None \<Rightarrow> None
      | Some (hdr, sb1) \<Rightarrow>
          let len = (bytes_word hdr :: u32) in
          if unat len > xBufferLengthBytes then Some (0, [], sb1)
          else (case sb_receive sb1 (unat len) of
                  None \<Rightarrow> None
                | Some (d, sb2) \<Rightarrow> Some (length d, d, sb2))))"

section \<open>The ring is a bounded byte stream\<close>

definition sb_inv :: "stream_buffer \<Rightarrow> bool" where
  [inv_simps]: "sb_inv sb \<longleftrightarrow> 0 < capacity sb \<and> length (buf sb) = capacity sb \<and>
    head sb < capacity sb \<and> count sb \<le> capacity sb"

definition sb_contents :: "stream_buffer \<Rightarrow> byte list" where
  "sb_contents sb = map (\<lambda>i. buf sb ! ((head sb + i) mod capacity sb)) [0..<count sb]"

lemma mod_add_inj:
  assumes "i < (c::nat)" "j < c" "(h + i) mod c = (h + j) mod c"
  shows "i = j"
proof -
  have "c dvd (h + max i j) - (h + min i j)"
    using assms(3) by (subst mod_eq_dvd_iff_nat [symmetric]) (auto simp: max_def min_def)
  then have "c dvd max i j - min i j"
    by simp
  with assms(1,2) show ?thesis
    by (auto simp: max_def min_def dest!: dvd_imp_le split: if_splits)
qed

lemma length_sb_copy_in [simp]: "length (sb_copy_in base cap src n b) = length b"
  by (induction n) (auto simp: sb_copy_in_def)

text \<open>The copy loop writes exactly the \<open>n\<close> cells after the stored bytes.\<close>

lemma nth_sb_copy_in:
  assumes "0 < cap" "length b = cap" "j < cap" "k + n \<le> cap"
  shows "sb_copy_in (h + k) cap src n b ! ((h + j) mod cap) =
    (if k \<le> j \<and> j < k + n then src ! (j - k) else b ! ((h + j) mod cap))"
  using assms(4)
proof (induction n)
  case 0
  then show ?case by (auto simp: sb_copy_in_def)
next
  case (Suc n)
  let ?b = "sb_copy_in (h + k) cap src n b"
  have step: "sb_copy_in (h + k) cap src (Suc n) b = ?b[(h + (k + n)) mod cap := src ! n]"
    by (simp add: sb_copy_in_def add.assoc)
  have IH: "?b ! ((h + j) mod cap) =
      (if k \<le> j \<and> j < k + n then src ! (j - k) else b ! ((h + j) mod cap))"
    using Suc by simp
  have hit: "(h + (k + n)) mod cap = (h + j) mod cap \<longleftrightarrow> j = k + n"
    using mod_add_inj [of "k + n" cap j h] Suc.prems assms(3) by auto
  have "(h + j) mod cap < length ?b" "(h + (k + n)) mod cap < length ?b"
    using assms(1,2) by simp_all
  then show ?case
    using step IH hit by (auto simp: nth_list_update)
qed

lemma sb_send_spec:
  assumes "sb_inv sb" "sb_send sb d = (n, sb')"
  shows "n = min (length d) (capacity sb - count sb) \<and>
    sb_contents sb' = sb_contents sb @ take n d \<and> capacity sb' = capacity sb \<and> sb_inv sb'"
proof -
  have n: "n = min (length d) (capacity sb - count sb)"
    and sb': "sb' = sb\<lparr>buf := sb_copy_in (head sb + count sb) (capacity sb) d n (buf sb),
                     count := count sb + n\<rparr>"
    using assms(2) by (auto simp: sb_send_def Let_def)
  have "sb_contents sb' = sb_contents sb @ take n d"
  proof (rule nth_equalityI)
    show "length (sb_contents sb') = length (sb_contents sb @ take n d)"
      using n by (simp add: sb_contents_def sb')
  next
    fix j assume "j < length (sb_contents sb')"
    then have j: "j < count sb + n" by (simp add: sb_contents_def sb')
    have "sb_contents sb' ! j =
        sb_copy_in (head sb + count sb) (capacity sb) d n (buf sb) ! ((head sb + j) mod capacity sb)"
      using j by (simp add: sb_contents_def sb')
    also have "\<dots> = (if count sb \<le> j \<and> j < count sb + n then d ! (j - count sb)
        else buf sb ! ((head sb + j) mod capacity sb))"
      using assms(1) j n by (intro nth_sb_copy_in) (auto simp: inv_simps)
    also have "\<dots> = (sb_contents sb @ take n d) ! j"
      using j by (auto simp: sb_contents_def nth_append intro!: nth_take [symmetric])
    finally show "sb_contents sb' ! j = (sb_contents sb @ take n d) ! j" .
  qed
  then show ?thesis using assms(1) n sb' by (auto simp: inv_simps)
qed

lemma sb_receive_spec:
  assumes "sb_inv sb"
  shows "\<exists>sb'. sb_receive sb n = Some (take n (sb_contents sb), sb') \<and>
    sb_contents sb' = drop n (sb_contents sb) \<and> capacity sb' = capacity sb \<and> sb_inv sb'"
proof -
  let ?k = "min n (count sb)"
  let ?sb = "sb\<lparr>head := (head sb + ?k) mod capacity sb, count := count sb - ?k\<rparr>"
  have "sb_receive sb n = Some (take n (sb_contents sb), ?sb)"
    using assms by (auto simp: sb_receive_def sb_contents_def inv_simps Let_def take_map min_def)
  moreover have "sb_contents ?sb = drop n (sb_contents sb)"
  proof (rule nth_equalityI)
    show "length (sb_contents ?sb) = length (drop n (sb_contents sb))"
      by (simp add: sb_contents_def)
  next
    fix j assume "j < length (sb_contents ?sb)"
    then have j: "j < count sb - ?k" by (simp add: sb_contents_def)
    then have k: "?k = n" by auto
    have "((head sb + n) mod capacity sb + j) mod capacity sb = (head sb + (n + j)) mod capacity sb"
      by (simp add: mod_add_left_eq add.assoc)
    then show "sb_contents ?sb ! j = drop n (sb_contents sb) ! j"
      using j k by (simp add: sb_contents_def)
  qed
  moreover have "sb_inv ?sb" using assms by (auto simp: inv_simps)
  ultimately show ?thesis by auto
qed

lemma length_sb_contents [simp]: "length (sb_contents sb) = count sb"
  by (simp add: sb_contents_def)

lemma sb_new_inv: "0 < cap \<Longrightarrow> sb_inv (sb_new cap)"
  by (simp add: sb_new_def inv_simps)

lemma sb_new_contents [simp]: "sb_contents (sb_new cap) = []" "capacity (sb_new cap) = cap"
    "count (sb_new cap) = 0"
  by (simp_all add: sb_new_def sb_contents_def)

interpretation sbs: byte_stream sb_inv sb_contents capacity
  "\<lambda>sb d. Some (sb_send sb d)" sb_receive
proof unfold_locales
  fix q assume "sb_inv q"
  then show "length (sb_contents q) \<le> capacity q" by (simp add: inv_simps)
next
  fix q and d :: "byte list" assume "sb_inv q"
  then show "\<exists>n q'. Some (sb_send q d) = Some (n, q') \<and>
      n = min (length d) (capacity q - length (sb_contents q)) \<and>
      sb_contents q' = sb_contents q @ take n d \<and> capacity q' = capacity q \<and> sb_inv q'"
    using sb_send_spec [of q d] by (cases "sb_send q d") auto
next
  fix q n assume "sb_inv q"
  then show "\<exists>q'. sb_receive q n = Some (take n (sb_contents q), q') \<and>
      sb_contents q' = drop n (sb_contents q) \<and> capacity q' = capacity q \<and> sb_inv q'"
    by (rule sb_receive_spec)
qed

section \<open>Runs of stream operations\<close>

datatype stream_op = StreamSend "byte list" | StreamReceive nat

text \<open>The history of a run: the bytes accepted, the bytes delivered; \<open>None\<close> after a trap.\<close>

fun stream_log :: "stream_op \<Rightarrow> (stream_buffer \<times> byte list \<times> byte list) option \<Rightarrow>
    (stream_buffer \<times> byte list \<times> byte list) option" where
  "stream_log op None = None"
| "stream_log (StreamSend d) (Some (sb, acc, del)) =
    (case xStreamBufferSend sb d of (n, sb') \<Rightarrow> Some (sb', acc @ take n d, del))"
| "stream_log (StreamReceive n) (Some (sb, acc, del)) =
    (case xStreamBufferReceive sb n of
       None \<Rightarrow> None
     | Some (d, sb') \<Rightarrow> Some (sb', acc, del @ d))"

definition stream_log_inv :: "nat \<Rightarrow> (stream_buffer \<times> byte list \<times> byte list) option \<Rightarrow> bool" where
  "stream_log_inv cap h \<longleftrightarrow> (case h of None \<Rightarrow> False
     | Some (sb, acc, del) \<Rightarrow> sb_inv sb \<and> capacity sb = cap \<and> acc = del @ sb_contents sb)"

lemma stream_log_send:
  assumes "stream_log_inv cap (Some (sb, acc, del))"
  shows "stream_log_inv cap (stream_log (StreamSend d) (Some (sb, acc, del)))"
  using assms sb_send_spec [of sb d]
  by (cases "sb_send sb d") (auto simp: stream_log_inv_def xStreamBufferSend_def)

lemma stream_log_receive:
  assumes "stream_log_inv cap (Some (sb, acc, del))"
  shows "stream_log_inv cap (stream_log (StreamReceive n) (Some (sb, acc, del)))"
  using assms sb_receive_spec [of sb n]
  by (auto simp: stream_log_inv_def xStreamBufferReceive_def)

lemma stream_log_step:
  assumes "stream_log_inv cap h"
  shows "stream_log_inv cap (stream_log op h)"
proof (cases h)
  case None
  with assms show ?thesis by (simp add: stream_log_inv_def)
next
  case (Some t)
  then obtain sb acc del where "h = Some (sb, acc, del)" by (cases t) auto
  with assms show ?thesis
    by (cases op) (auto simp del: stream_log.simps intro: stream_log_send stream_log_receive)
qed

lemma stream_log_start: "0 < cap \<Longrightarrow> stream_log_inv cap (Some (xStreamBufferCreate cap, [], []))"
  by (simp add: stream_log_inv_def xStreamBufferCreate_def sb_new_inv)

interpretation stream_hist: step_system
  "\<lambda>h. 0 < cap \<and> h = Some (xStreamBufferCreate cap, [], [])" "\<lambda>_. True"
  stream_log "stream_log_inv cap"
  for cap
  by unfold_locales (auto intro: stream_log_start stream_log_step)

section \<open>The message layer\<close>

lemma size_plus_four:
  "unat (len + 4 :: u64) = (if unat len + 4 < 2 ^ 64 then unat len + 4 else unat len + 4 - 2 ^ 64)"
proof (cases "unat len + 4 < 2 ^ 64")
  case True
  then have "unat (len + 4) = unat len + unat (4 :: u64)"
    by (intro unat_add_lem [THEN iffD1]) simp
  with True show ?thesis by simp
next
  case False
  have "unat len < 2 ^ 64" using unat_bound [of len] by simp
  then have "(unat len + 4) mod 2 ^ 64 = unat len + 4 - 2 ^ 64"
    using False by (simp add: mod_if)
  with False show ?thesis by (simp add: unat_word_ariths)
qed

lemma msg_header: "(word_of_nat (unat (len :: u64)) :: u32) = ucast len"
  by simp

text \<open>A message that fits: its length, in the caller's memory, does not wrap.\<close>

lemma msg_send_fits:
  assumes "sb_inv sb" "sb_contents sb = msg_frames ms"
    "length (msg_frames ms) + unat len + 4 \<le> capacity sb" "unat len + 4 < 2 ^ 64" "unat len \<le> length mem"
  shows "\<exists>sb'. xMessageBufferSend sb mem len = Some (len, sb') \<and>
    sb_contents sb' = msg_frames (ms @ [take (unat len) mem]) \<and> capacity sb' = capacity sb \<and> sb_inv sb'"
proof -
  let ?m = "take (unat len) mem"
  have m: "length ?m = unat len"
    using assms(5) by simp
  obtain q1 q2 where q: "sb_send sb (word_bytes (ucast len :: u32)) = (4, q1)"
      "sb_send q1 ?m = (unat len, q2)"
      "sb_contents q2 = msg_frames (ms @ [?m])" "capacity q2 = capacity sb" "sb_inv q2"
    using sbs.xmit_frame [OF assms(1,2), of ?m] assms(3) unfolding m msg_header by auto
  have c: "count sb = length (msg_frames ms)"
    using assms(2) length_sb_contents [of sb] by simp
  have "count q1 = count sb + 4" "capacity q1 = capacity sb"
    using q(1) by (auto simp: sb_send_def Let_def split: if_splits)
  then have "min (unat len) (sb_spacesAvailable q1) = unat len"
    using assms(3) c by (simp add: sb_spacesAvailable_def)
  moreover have "\<not> sb_spacesAvailable sb < unat (len + 4)"
    using assms(3,4) c by (simp add: size_plus_four sb_spacesAvailable_def)
  ultimately show ?thesis
    using q assms(5) by (simp add: xMessageBufferSend_def Let_def)
qed

text \<open>
  A length whose sum wraps, on a ring with room for the wrapped sum: the ring is filled with the
  low 32 bits of the length and as much of the caller's memory as there is room for.
\<close>

lemma msg_send_wraps:
  assumes "sb_inv sb" "capacity sb < 2 ^ 63" "2 ^ 64 \<le> unat len + 4"
    "unat len + 4 - 2 ^ 64 \<le> capacity sb - count sb" "capacity sb - count sb - 4 \<le> length mem"
  shows "\<exists>sb'. xMessageBufferSend sb mem len = Some (len, sb') \<and> sb_inv sb' \<and>
    sb_contents sb' = take (capacity sb) (sb_contents sb @ word_bytes (ucast len :: u32) @ mem) \<and>
    count sb' = capacity sb"
proof -
  let ?h = "word_bytes (ucast len :: u32)" and ?free = "capacity sb - count sb"
  obtain n1 q1 where q1: "sb_send sb ?h = (n1, q1)" by fastforce
  have h: "length ?h = 4" by (simp add: sizeof_def)
  have s1: "n1 = min 4 ?free" "sb_contents q1 = sb_contents sb @ take n1 ?h" "capacity q1 = capacity sb" "sb_inv q1"
    using sb_send_spec [OF assms(1) q1] by (auto simp: h [simplified])
  have c1: "count q1 = count sb + n1"
    using arg_cong [OF s1(2), of length] h s1(1) by simp
  let ?n = "?free - 4"
  have n: "min (unat len) (sb_spacesAvailable q1) = ?n"
    using c1 s1(1,3) assms(2,3) by (simp add: sb_spacesAvailable_def)
  obtain n2 q2 where q2: "sb_send q1 (take ?n mem) = (n2, q2)" by fastforce
  have s2: "n2 = ?n" "sb_contents q2 = sb_contents q1 @ take n2 (take ?n mem)" "sb_inv q2"
    using sb_send_spec [OF s1(4) q2] assms(5) c1 s1(1,3) by auto
  have full: "sb_contents q2 = take (capacity sb) (sb_contents sb @ ?h @ mem)"
    using s1(1,2) s2(1,2) h assms(1) by (auto simp: min_def inv_simps)
  have "count q2 = capacity sb"
    using arg_cong [OF full, of length] h assms(1,5) by (simp add: inv_simps min_def)
  moreover have "\<not> sb_spacesAvailable sb < unat (len + 4)"
    using assms(3,4) by (simp add: size_plus_four sb_spacesAvailable_def)
  moreover have "\<not> length mem < min (unat len) (sb_spacesAvailable q1)"
    unfolding n using assms(5) by simp
  ultimately have "xMessageBufferSend sb mem len = Some (len, q2)"
    using q1 q2 unfolding xMessageBufferSend_def Let_def by (simp only: n if_False snd_conv)
  with full s2(3) \<open>count q2 = capacity sb\<close> show ?thesis by blast
qed

lemma msg_send_wraps_outside:
  assumes "sb_inv sb" "capacity sb < 2 ^ 63" "2 ^ 64 \<le> unat len + 4"
    "unat len + 4 - 2 ^ 64 \<le> capacity sb - count sb" "length mem < capacity sb - count sb - 4"
  shows "xMessageBufferSend sb mem len = None"
proof -
  let ?h = "word_bytes (ucast len :: u32)" and ?free = "capacity sb - count sb"
  obtain n1 q1 where q1: "sb_send sb ?h = (n1, q1)" by fastforce
  have h: "length ?h = 4" by (simp add: sizeof_def)
  have s1: "n1 = min 4 ?free" "sb_contents q1 = sb_contents sb @ take n1 ?h" "capacity q1 = capacity sb"
    using sb_send_spec [OF assms(1) q1] by (auto simp: h [simplified])
  have c1: "count q1 = count sb + n1"
    using arg_cong [OF s1(2), of length] h s1(1) by simp
  have "length mem < min (unat len) (sb_spacesAvailable q1)"
    using c1 s1(1,3) assms(2,3,5) by (simp add: sb_spacesAvailable_def)
  moreover have "\<not> sb_spacesAvailable sb < unat (len + 4)"
    using assms(3,4) by (simp add: size_plus_four sb_spacesAvailable_def)
  ultimately show ?thesis
    using q1 by (simp add: xMessageBufferSend_def Let_def)
qed

lemma msg_receive_parts:
  assumes "sb_inv sb" "sb_contents sb = msg_frame m @ rest" "length m < 2 ^ 32"
  obtains hdr q1 q2 where "\<not> sb_bytesAvailable sb < 4" "sb_receive sb 4 = Some (hdr, q1)"
    "unat (bytes_word hdr :: u32) = length m" "sb_contents q1 = m @ rest" "sb_inv q1"
    "sb_receive q1 (length m) = Some (m, q2)" "sb_contents q2 = rest" "sb_inv q2"
proof -
  have "count sb = length (msg_frame m @ rest)"
    using assms(2) length_sb_contents [of sb] by simp
  then have "\<not> sb_bytesAvailable sb < 4" by (simp add: sb_bytesAvailable_def)
  then show ?thesis using sbs.recv_frame [OF assms] that by blast
qed

section \<open>Properties\<close>

text \<open>
  C3: a stream buffer of non-zero capacity is a bounded byte pipe. In any run of sends and
  receives no operation traps, the bytes accepted are the bytes delivered followed by the bytes
  still in the ring, and the ring never holds more than its capacity.
\<close>

theorem stream_buffer_pipe:
  assumes "0 < cap"
  shows "\<exists>sb acc del. fold stream_log ops (Some (xStreamBufferCreate cap, [], [])) = Some (sb, acc, del) \<and>
    acc = del @ sb_contents sb \<and> length (sb_contents sb) \<le> cap"
proof -
  have "stream_log_inv cap (fold stream_log ops (Some (xStreamBufferCreate cap, [], [])))"
    using assms by (intro stream_hist.inv_run) (simp_all add: list_all_iff)
  then show ?thesis
    by (auto simp: stream_log_inv_def inv_simps split: option.splits prod.splits)
qed

theorem stream_buffer_pipe_witness:
  "(0::nat) < 3 \<and>
   (\<exists>sb acc del. fold stream_log [StreamSend [1, 2], StreamReceive 1, StreamSend [3, 4, 5]]
     (Some (xStreamBufferCreate 3, [], [])) = Some (sb, acc, del) \<and>
    acc = del @ sb_contents sb \<and> length (sb_contents sb) \<le> 3)"
  using stream_buffer_pipe [of 3 "[StreamSend [1, 2], StreamReceive 1, StreamSend [3, 4, 5]]"]
  by simp

text \<open>
  C17: messages keep their boundaries, up to lengths that wrap. Take a buffer that holds the
  messages \<open>ms\<close>. A send of a length up to \<open>SIZE_MAX - 4\<close> is accepted whole when the four byte length
  and the payload fit, and refused with nothing written when they do not. For the last four
  lengths the sum in \<open>size_t\<close> wraps to 0 to 3: a ring with that much room accepts the send, returns
  the length as sent and fills up with the low half of the length and what follows in the caller's
  memory, so the framing is lost (the read is \<open>None\<close>, outside of that memory, where it is too short).
\<close>

theorem message_send_atomic:
  assumes "sb_inv sb" "sb_contents sb = msg_frames ms" "capacity sb < 2 ^ 63"
    and "unat len \<le> length mem \<or> 2 ^ 64 \<le> unat len + 4"
  shows "if unat len + 4 < 2 ^ 64
    then (if count sb + unat len + 4 \<le> capacity sb
          then \<exists>sb'. xMessageBufferSend sb mem len = Some (len, sb') \<and>
                 sb_contents sb' = msg_frames (ms @ [take (unat len) mem]) \<and> sb_inv sb'
          else xMessageBufferSend sb mem len = Some (0, sb))
    else (if capacity sb - count sb < unat len + 4 - 2 ^ 64 then xMessageBufferSend sb mem len = Some (0, sb)
          else if length mem < capacity sb - count sb - 4 then xMessageBufferSend sb mem len = None
          else \<exists>sb'. xMessageBufferSend sb mem len = Some (len, sb') \<and> sb_inv sb' \<and>
                 sb_contents sb' = take (capacity sb) (msg_frames ms @ word_bytes (ucast len :: u32) @ mem) \<and>
                 count sb' = capacity sb)"
proof -
  have c: "count sb = length (msg_frames ms)"
    using assms(2) length_sb_contents [of sb] by simp
  show ?thesis
  proof (cases "unat len + 4 < 2 ^ 64")
    case True
    then show ?thesis
      using msg_send_fits [OF assms(1,2), of len mem] c assms(1,4)
      by (auto simp: xMessageBufferSend_def sb_spacesAvailable_def inv_simps size_plus_four)
  next
    case False
    then show ?thesis
      using msg_send_wraps [OF assms(1,3), of len mem] msg_send_wraps_outside [OF assms(1,3), of len mem] assms(2)
      by (auto simp: xMessageBufferSend_def sb_spacesAvailable_def size_plus_four)
  qed
qed

lemma message_create_facts:
  "sb_inv (xMessageBufferCreate 8)" "sb_contents (xMessageBufferCreate 8) = msg_frames []"
  "capacity (xMessageBufferCreate 8) = 8" "count (xMessageBufferCreate 8) = 0"
  by (simp_all add: xMessageBufferCreate_def xStreamBufferCreate_def sb_new_inv)

theorem message_send_atomic_witness:
  "(\<exists>sb'. xMessageBufferSend (xMessageBufferCreate 8) [1, 2] 2 = Some (2, sb') \<and>
     sb_contents sb' = msg_frames [[1, 2]] \<and> sb_inv sb') \<and>
   (\<exists>sb'. xMessageBufferSend (xMessageBufferCreate 8) [7, 7, 7, 7] (- 1) = Some (- 1, sb') \<and> sb_inv sb' \<and>
     sb_contents sb' = [255, 255, 255, 255, 7, 7, 7, 7])"
proof
  show "\<exists>sb'. xMessageBufferSend (xMessageBufferCreate 8) [1, 2] 2 = Some (2, sb') \<and>
     sb_contents sb' = msg_frames [[1, 2]] \<and> sb_inv sb'"
  proof -
    have n: "unat (2 :: u64) = 2" and small: "(2 :: nat) + 4 < 2 ^ 64" "(0 :: nat) + 2 + 4 \<le> 8"
        "(8 :: nat) < 2 ^ 63" "2 \<le> length [1, 2 :: byte]" and m: "[] @ [take 2 [1, 2]] = [[1, 2 :: byte]]"
      by simp_all
    show ?thesis
      using message_send_atomic [OF message_create_facts(1,2), of 2 "[1, 2]",
          unfolded n message_create_facts m, OF small(3) disjI1 [OF small(4)]]
      unfolding if_P [OF small(1)] if_P [OF small(2)] .
  qed
  have n: "unat (- 1 :: u64) = 2 ^ 64 - 1"
    by (simp add: unsigned_minus_1_eq_mask mask_eq_exp_minus_1)
  have "LENGTH(32) div 8 = Suc (Suc (Suc (Suc 0)))"
    by simp
  moreover have "unat (ucast (- 1 :: u64) :: u32) = 4294967295"
    by (simp add: unsigned_minus_1_eq_mask mask_eq_exp_minus_1)
  ultimately have bytes: "word_bytes (ucast (- 1 :: u64) :: u32) = [255, 255, 255, 255 :: byte]"
    unfolding word_bytes_def by (simp only: le_bytes.simps) simp
  show "\<exists>sb'. xMessageBufferSend (xMessageBufferCreate 8) [7, 7, 7, 7] (- 1) = Some (- 1, sb') \<and> sb_inv sb' \<and>
     sb_contents sb' = [255, 255, 255, 255, 7, 7, 7, 7]"
    using message_send_atomic [OF message_create_facts(1,2), of "- 1" "[7, 7, 7, 7]"]
    unfolding bytes message_create_facts n by auto
qed

text \<open>
  A receive with a large enough buffer returns exactly the oldest message and leaves the
  later ones intact.
\<close>

theorem message_receive_oldest:
  assumes "sb_inv sb" "sb_contents sb = msg_frames (m # ms)"
    and "length m \<le> n" "length m < 2 ^ 32"
  shows "\<exists>sb'. xMessageBufferReceive sb n = Some (length m, m, sb') \<and>
    sb_contents sb' = msg_frames ms \<and> sb_inv sb'"
proof -
  have "sb_contents sb = msg_frame m @ msg_frames ms"
    using assms(2) by simp
  from assms(1) this assms(4) show ?thesis
    by (rule msg_receive_parts) (use assms(3) in \<open>auto simp: xMessageBufferReceive_def\<close>)
qed

theorem message_receive_oldest_witness:
  "\<exists>sb'. xMessageBufferReceive (snd (the (xMessageBufferSend (xMessageBufferCreate 8) [1, 2] 2))) 4 =
     Some (2, [1, 2], sb') \<and> sb_contents sb' = msg_frames [] \<and> sb_inv sb'"
proof -
  obtain sb where sb: "xMessageBufferSend (xMessageBufferCreate 8) [1, 2] 2 = Some (2, sb)"
      "sb_contents sb = msg_frames [[1, 2]]" "sb_inv sb"
    using msg_send_fits [of "sb_new 8" "[]" 2 "[1, 2]"]
    by (auto simp: xMessageBufferCreate_def xStreamBufferCreate_def sb_new_inv)
  have fits: "length [1, 2 :: byte] \<le> 4" "length [1, 2 :: byte] < 2 ^ 32"
    by simp_all
  show ?thesis
    using message_receive_oldest [OF sb(3,2) fits] sb(1) by (simp add: numeral_2_eq_2)
qed

text \<open>
  C40: a receive whose buffer is too small for the oldest message destroys the framing: the
  length is consumed and 0 returned, but the payload stays in the ring, where the next receive
  reads it as a length. (FreeRTOS leaves the whole message in place.)
\<close>

theorem message_receive_too_small_desyncs:
  assumes "sb_inv sb" "sb_contents sb = msg_frames (m # ms)"
    and "n < length m" "length m < 2 ^ 32"
  shows "\<exists>sb'. xMessageBufferReceive sb n = Some (0, [], sb') \<and>
    sb_contents sb' = m @ msg_frames ms"
proof -
  have "sb_contents sb = msg_frame m @ msg_frames ms"
    using assms(2) by simp
  from assms(1) this assms(4) show ?thesis
    by (rule msg_receive_parts) (use assms(3) in \<open>auto simp: xMessageBufferReceive_def\<close>)
qed

theorem message_receive_too_small_desyncs_witness:
  "\<exists>sb sb'. sb_contents sb = msg_frames [[1, 2], [3]] \<and>
     xMessageBufferReceive sb 1 = Some (0, [], sb') \<and> sb_contents sb' = [1, 2] @ msg_frames [[3]]"
proof -
  obtain sb where sb: "sb_contents sb = msg_frames [[1, 2]]" "sb_inv sb" "capacity sb = 16"
    using msg_send_fits [of "sb_new 16" "[]" 2 "[1, 2]"] by (auto simp: sb_new_inv)
  then obtain sb2 where sb2: "sb_contents sb2 = msg_frames [[1, 2], [3]]" "sb_inv sb2"
    using msg_send_fits [of sb "[[1, 2]]" 1 "[3]"] by auto
  show ?thesis
    using message_receive_too_small_desyncs [OF sb2(2,1), of 1] sb2(1) by auto
qed

text \<open>A stream buffer created with size 0 makes every receive divide by zero.\<close>

theorem stream_receive_zero_capacity_traps:
  "xStreamBufferReceive (xStreamBufferCreate 0) n = None"
  by (simp add: xStreamBufferReceive_def xStreamBufferCreate_def sb_receive_def)

end
