(* ===== verification/Tag_Readers.thy ===== *)
theory Tag_Readers
  imports Mailbox Interfaces
begin

text \<open>
  Readers of tags and fingers, \<open>src/include/MFRC522.h\<close>, \<open>Adafruit_PN532.h\<close> and
  \<open>Adafruit_Fingerprint.h\<close>. The lemmas show that the blocks of a card are a store and which role
  authentication plays, that tags are announced in order, and how the number of stored fingers relates to the
  slots in use.
\<close>

section \<open>\<open>MFRC522.h\<close>\<close>

datatype mf_status = STATUS_OK | STATUS_ERROR | STATUS_COLLISION | STATUS_TIMEOUT | STATUS_NO_ROOM | STATUS_INTERNAL_ERROR
  | STATUS_INVALID | STATUS_CRC_WRONG | STATUS_MIFARE_NACK

datatype picc_type = PICC_UNKNOWN | PICC_ISO_14443_4 | PICC_ISO_18092 | PICC_MIFARE_MINI | PICC_MIFARE_1K | PICC_MIFARE_4K
  | PICC_MIFARE_UL | PICC_MIFARE_PLUS | PICC_MIFARE_DESFIRE | PICC_TNP3XXX | PICC_NOT_COMPLETE

record mf_uid =
  muSize :: nat
  muBytes :: "byte list"
  muSak :: byte

record mfrc522 =
  mfUid :: mf_uid
  mfInitialized :: bool
  mfPresent :: bool
  mfMock :: mf_uid
  mfAuth :: mf_status
  mfBlocks :: "byte list list"

definition mf_new :: mfrc522 where
  "mf_new = \<lparr>mfUid = \<lparr>muSize = 0, muBytes = replicate 10 0, muSak = 0\<rparr>, mfInitialized = False, mfPresent = False,
    mfMock = \<lparr>muSize = 4, muBytes = [0xDE, 0xAD, 0xBE, 0xEF] @ replicate 6 0, muSak = 0x08\<rparr>, mfAuth = STATUS_OK, mfBlocks = []\<rparr>"

definition PCD_Init :: "mfrc522 \<Rightarrow> mfrc522" where
  "PCD_Init s = s\<lparr>mfInitialized := True\<rparr>"

definition PCD_PerformSelfTest :: "mfrc522 \<Rightarrow> bool" where
  "PCD_PerformSelfTest s = mfInitialized s"

definition PICC_IsNewCardPresent :: "mfrc522 \<Rightarrow> bool" where
  "PICC_IsNewCardPresent s = (if \<not> mfInitialized s \<or> \<not> mfPresent s then False else True)"

definition PICC_ReadCardSerial :: "mfrc522 \<Rightarrow> bool \<times> mfrc522" where
  "PICC_ReadCardSerial s =
    (if \<not> mfPresent s then (False, s)
     else
       let n = muSize (mfMock s)
       in (True, s\<lparr>mfUid := \<lparr>muSize = n, muBytes = blit (muBytes (mfUid s)) 0 (take n (muBytes (mfMock s))), muSak = muSak (mfMock s)\<rparr>\<rparr>))"

definition PICC_GetType :: "byte \<Rightarrow> picc_type" where
  "PICC_GetType sak =
    (if sak = 0x08 then PICC_MIFARE_1K else if sak = 0x18 then PICC_MIFARE_4K else if sak = 0x00 then PICC_MIFARE_UL
     else PICC_UNKNOWN)"

definition PCD_Authenticate :: "mfrc522 \<Rightarrow> mf_status" where
  "PCD_Authenticate s = mfAuth s"

text \<open>The caller's buffer has the size that is passed with it; the status, the buffer and the new size are returned.\<close>

definition MIFARE_Read :: "byte \<Rightarrow> byte list \<Rightarrow> byte \<Rightarrow> mfrc522 \<Rightarrow> mf_status \<times> byte list \<times> byte" where
  "MIFARE_Read blockAddr buffer bufferSize s =
    (if blockAddr \<ge> 64 \<or> bufferSize < 18 then (STATUS_ERROR, buffer, bufferSize)
     else
       let buffer = blit buffer 0 (replicate 18 0);
           a = unat blockAddr;
           buffer = (if a < length (mfBlocks s) \<and> mfBlocks s ! a \<noteq> [] then blit buffer 0 (take 16 (mfBlocks s ! a)) else buffer)
       in (STATUS_OK, buffer, 18))"

definition grow :: "nat \<Rightarrow> byte list list \<Rightarrow> byte list list" where
  "grow n bs = (if n \<ge> length bs then bs @ replicate (n + 1 - length bs) [] else bs)"

definition MIFARE_Write :: "byte \<Rightarrow> byte list \<Rightarrow> byte \<Rightarrow> mfrc522 \<Rightarrow> mf_status \<times> mfrc522" where
  "MIFARE_Write blockAddr buffer bufferSize s =
    (if blockAddr \<ge> 64 \<or> bufferSize \<noteq> 16 then (STATUS_ERROR, s)
     else (STATUS_OK, s\<lparr>mfBlocks := (grow (unat blockAddr) (mfBlocks s))[unat blockAddr := take 16 buffer]\<rparr>))"

definition PICC_HaltA :: "mfrc522 \<Rightarrow> mfrc522" where
  "PICC_HaltA s = s\<lparr>mfPresent := False\<rparr>"

definition mf_setCardPresent :: "bool \<Rightarrow> mfrc522 \<Rightarrow> mfrc522" where
  "mf_setCardPresent p s = s\<lparr>mfPresent := p\<rparr>"

text \<open>More than ten bytes do not fit.\<close>

definition mf_setUid :: "byte list \<Rightarrow> byte \<Rightarrow> mfrc522 \<Rightarrow> mfrc522 option" where
  "mf_setUid u sak s =
    (if length u \<le> 10 then Some (s\<lparr>mfMock := \<lparr>muSize = length u, muBytes = blit (muBytes (mfMock s)) 0 u, muSak = sak\<rparr>\<rparr>) else None)"

definition mf_setAuthResult :: "mf_status \<Rightarrow> mfrc522 \<Rightarrow> mfrc522" where
  "mf_setAuthResult r s = s\<lparr>mfAuth := r\<rparr>"

definition mf_setBlockData :: "byte \<Rightarrow> byte list \<Rightarrow> mfrc522 \<Rightarrow> mfrc522" where
  "mf_setBlockData block d s = s\<lparr>mfBlocks := (grow (unat block) (mfBlocks s))[unat block := d]\<rparr>"

section \<open>\<open>Adafruit_PN532.h\<close>\<close>

record pn532 =
  pnBegun :: bool
  pnSam :: bool
  pnAuthenticated :: bool
  pnPowerDown :: bool
  pnGpio :: byte
  pnUri :: string
  pnLast :: "byte list"
  pnQueue :: "byte list list"
  pnPages :: "byte \<Rightarrow> byte list option"
  pnBlocks :: "byte \<Rightarrow> byte list option"

definition pn_new :: pn532 where
  "pn_new = \<lparr>pnBegun = False, pnSam = False, pnAuthenticated = False, pnPowerDown = False, pnGpio = 0, pnUri = [], pnLast = [],
    pnQueue = [], pnPages = (\<lambda>_. None), pnBlocks = (\<lambda>_. None)\<rparr>"

definition pn_begin :: "pn532 \<Rightarrow> pn532" where
  "pn_begin s = s\<lparr>pnBegun := True\<rparr>"

definition pn_getFirmwareVersion :: "pn532 \<Rightarrow> u32" where
  "pn_getFirmwareVersion s = (if \<not> pnBegun s then 0 else 0x01060700)"

definition pn_SAMConfig :: "pn532 \<Rightarrow> bool \<times> pn532" where
  "pn_SAMConfig s = (True, s\<lparr>pnSam := True\<rparr>)"

text \<open>The tag that was read, which the caller's buffer has room for.\<close>

definition readPassiveTargetID :: "pn532 \<Rightarrow> byte list option \<times> pn532" where
  "readPassiveTargetID s =
    (case pnQueue s of [] \<Rightarrow> (None, s) | tag # tags \<Rightarrow> (Some tag, s\<lparr>pnQueue := tags, pnLast := tag\<rparr>))"

definition ntag_ReadPage :: "byte \<Rightarrow> pn532 \<Rightarrow> bool \<times> byte list" where
  "ntag_ReadPage page s = (True, case pnPages s page of Some d \<Rightarrow> d | None \<Rightarrow> replicate 4 0)"

definition ntag_WritePage :: "byte \<Rightarrow> byte list \<Rightarrow> pn532 \<Rightarrow> bool \<times> pn532" where
  "ntag_WritePage page d s = (True, s\<lparr>pnPages := (pnPages s)(page \<mapsto> take 4 d)\<rparr>)"

definition pn_AuthenticateBlock :: "pn532 \<Rightarrow> bool \<times> pn532" where
  "pn_AuthenticateBlock s = (True, s\<lparr>pnAuthenticated := True\<rparr>)"

definition pn_ReadDataBlock :: "byte \<Rightarrow> pn532 \<Rightarrow> bool \<times> byte list" where
  "pn_ReadDataBlock b s = (pnAuthenticated s, case pnBlocks s b of Some d \<Rightarrow> d | None \<Rightarrow> replicate 16 0)"

definition pn_WriteDataBlock :: "byte \<Rightarrow> byte list \<Rightarrow> pn532 \<Rightarrow> bool \<times> pn532" where
  "pn_WriteDataBlock b d s =
    (if \<not> pnAuthenticated s then (False, s) else (True, s\<lparr>pnBlocks := (pnBlocks s)(b \<mapsto> take 16 d)\<rparr>))"

definition pn_FormatNDEF :: "pn532 \<Rightarrow> bool \<times> pn532" where
  "pn_FormatNDEF s = (True, s\<lparr>pnAuthenticated := True\<rparr>)"

definition pn_WriteNDEFURI :: "string option \<Rightarrow> pn532 \<Rightarrow> bool \<times> pn532" where
  "pn_WriteNDEFURI url s = (True, s\<lparr>pnUri := (case url of None \<Rightarrow> [] | Some u \<Rightarrow> u)\<rparr>)"

definition pn_writeGPIO :: "byte \<Rightarrow> pn532 \<Rightarrow> bool \<times> pn532" where
  "pn_writeGPIO pinstate s = (True, s\<lparr>pnGpio := pinstate\<rparr>)"

definition pn_powerDownMode :: "pn532 \<Rightarrow> bool \<times> pn532" where
  "pn_powerDownMode s = (True, s\<lparr>pnPowerDown := True\<rparr>)"

definition pn_wakeup :: "pn532 \<Rightarrow> bool \<times> pn532" where
  "pn_wakeup s = (pnBegun s, s\<lparr>pnPowerDown := False\<rparr>)"

definition inListPassiveTarget :: "pn532 \<Rightarrow> bool" where
  "inListPassiveTarget s \<longleftrightarrow> pnQueue s \<noteq> []"

definition pn_injectUID :: "byte list \<Rightarrow> pn532 \<Rightarrow> pn532" where
  "pn_injectUID u s = s\<lparr>pnQueue := pnQueue s @ [u]\<rparr>"

section \<open>\<open>Adafruit_Fingerprint.h\<close>\<close>

record fingerprint =
  fpFingerID :: u16
  fpConfidence :: u16
  fpTemplateCount :: u16
  fpCapacity :: u16
  fpSecurity :: byte
  fpInitialized :: bool
  fpPresent :: bool
  fpMatchId :: int
  fpMatchConfidence :: u16
  fpCount :: u16
  fpStored :: "bool list"

definition fp_new :: fingerprint where
  "fp_new = \<lparr>fpFingerID = 0, fpConfidence = 0, fpTemplateCount = 0, fpCapacity = 200, fpSecurity = 3, fpInitialized = False,
    fpPresent = False, fpMatchId = - 1, fpMatchConfidence = 0, fpCount = 0, fpStored = replicate 200 False\<rparr>"

text \<open>Results are \<open>FINGERPRINT_OK\<close> 0, \<open>PACKETRECIEVEERR\<close> 1, \<open>NOFINGER\<close> 2, \<open>NOTFOUND\<close> 9 and \<open>BADLOCATION\<close> 11.\<close>

definition fp_begin :: "fingerprint \<Rightarrow> bool \<times> fingerprint" where
  "fp_begin s = (True, s\<lparr>fpInitialized := True\<rparr>)"

definition fp_verifyPassword :: "fingerprint \<Rightarrow> bool" where
  "fp_verifyPassword s = fpInitialized s"

definition fp_getImage :: "fingerprint \<Rightarrow> byte" where
  "fp_getImage s = (if \<not> fpInitialized s then 1 else if \<not> fpPresent s then 2 else 0)"

definition fp_image2Tz :: "fingerprint \<Rightarrow> byte" where
  "fp_image2Tz s = (if \<not> fpInitialized s then 1 else 0)"

definition fp_fingerSearch :: "fingerprint \<Rightarrow> byte \<times> fingerprint" where
  "fp_fingerSearch s =
    (if \<not> fpInitialized s then (1, s)
     else if fpMatchId s \<ge> 0 then (0, s\<lparr>fpFingerID := word_of_int (fpMatchId s), fpConfidence := fpMatchConfidence s\<rparr>)
     else (9, s))"

definition fp_createModel :: "fingerprint \<Rightarrow> byte" where
  "fp_createModel s = (if \<not> fpInitialized s then 1 else 0)"

text \<open>
  \<open>capacity\<close> is a field that a sketch can change; there are 200 slots.
\<close>

definition fp_storeModel :: "u16 \<Rightarrow> fingerprint \<Rightarrow> (byte \<times> fingerprint) option" where
  "fp_storeModel i s =
    (if \<not> fpInitialized s then Some (1, s)
     else if i \<ge> fpCapacity s then Some (11, s)
     else if unat i < 200 then Some (0, s\<lparr>fpStored := (fpStored s)[unat i := True], fpCount := fpCount s + 1\<rparr>)
     else None)"

definition fp_loadModel :: "u16 \<Rightarrow> fingerprint \<Rightarrow> byte option" where
  "fp_loadModel i s =
    (if \<not> fpInitialized s then Some 1
     else if i \<ge> fpCapacity s then Some 11
     else if unat i < 200 then Some (if \<not> fpStored s ! unat i then 11 else 0)
     else None)"

definition fp_deleteModel :: "u16 \<Rightarrow> fingerprint \<Rightarrow> (byte \<times> fingerprint) option" where
  "fp_deleteModel i s =
    (if \<not> fpInitialized s then Some (1, s)
     else if i \<ge> fpCapacity s then Some (11, s)
     else if unat i < 200 then
       Some (0, if fpStored s ! unat i then s\<lparr>fpStored := (fpStored s)[unat i := False], fpCount := fpCount s - 1\<rparr> else s)
     else None)"

definition fp_emptyDatabase :: "fingerprint \<Rightarrow> byte \<times> fingerprint" where
  "fp_emptyDatabase s = (if \<not> fpInitialized s then (1, s) else (0, s\<lparr>fpStored := replicate 200 False, fpCount := 0\<rparr>))"

definition fp_getTemplateCount :: "fingerprint \<Rightarrow> byte \<times> fingerprint" where
  "fp_getTemplateCount s = (if \<not> fpInitialized s then (1, s) else (0, s\<lparr>fpTemplateCount := fpCount s\<rparr>))"

definition fp_setSecurityLevel :: "byte \<Rightarrow> fingerprint \<Rightarrow> byte \<times> fingerprint" where
  "fp_setSecurityLevel level s = (0, s\<lparr>fpSecurity := level\<rparr>)"

definition fp_set_finger_present :: "bool \<Rightarrow> fingerprint \<Rightarrow> fingerprint" where
  "fp_set_finger_present p s = s\<lparr>fpPresent := p\<rparr>"

definition fp_set_match :: "int \<Rightarrow> u16 \<Rightarrow> fingerprint \<Rightarrow> fingerprint" where
  "fp_set_match i conf s = s\<lparr>fpMatchId := i, fpMatchConfidence := conf\<rparr>"

definition fp_clear_match :: "fingerprint \<Rightarrow> fingerprint" where
  "fp_clear_match s = s\<lparr>fpMatchId := - 1, fpMatchConfidence := 0\<rparr>"

definition fp_is_stored :: "u16 \<Rightarrow> fingerprint \<Rightarrow> bool" where
  "fp_is_stored i s = (if i < 200 then fpStored s ! unat i else False)"

section \<open>Blocks of a card\<close>

definition padded :: "byte list \<Rightarrow> byte list" where
  "padded d = take 16 (d @ replicate 16 0)"

definition mf_block :: "mfrc522 \<Rightarrow> byte \<Rightarrow> byte list" where
  "mf_block s b = take 16 (fst (snd (MIFARE_Read b (replicate 18 0) 18 s)))"

lemma length_padded [simp]: "length (padded d) = 16"
  by (simp add: padded_def)

lemma padded_blit:
  assumes "length buf = 18"
  shows "blit (blit buf 0 (replicate 18 0)) 0 (take 16 d) = padded d @ [0, 0]"
proof -
  have e: "blit buf 0 (replicate 18 0) = replicate 18 0"
    using assms by (simp add: blit_def)
  have n: "18 - min (length d) 16 = (16 - min (length d) 16) + 2" "replicate 2 (0 :: byte) = [0, 0]"
    by (simp_all add: numeral_2_eq_2)
  have "replicate (18 - min (length d) 16) 0 = replicate (16 - min (length d) 16) (0 :: byte) @ [0, 0]"
    unfolding n(1) replicate_add n(2) ..
  then show ?thesis
    unfolding e by (auto simp: blit_def padded_def min_def)
qed

lemma padded_take: "padded (take 16 d) = padded d"
  by (auto simp: padded_def)

lemma MIFARE_Read_block:
  assumes "b < 64" "length buf = 18"
  shows "MIFARE_Read b buf 18 s =
    (STATUS_OK, padded (if unat b < length (mfBlocks s) then mfBlocks s ! unat b else []) @ [0, 0], 18)"
proof -
  have z: "blit buf 0 (replicate 18 0) = padded [] @ [0, 0]"
    using padded_blit [OF assms(2), of "[]"] by (simp add: blit_def)
  show ?thesis
    using assms padded_blit [OF assms(2)] by (auto simp: MIFARE_Read_def Let_def z)
qed

lemma grow_nth:
  "i < length (grow n bs) \<and> grow n bs ! i \<noteq> [] \<longleftrightarrow> i < length bs \<and> bs ! i \<noteq> []"
  "n < length (grow n bs)" "(if i < length (grow n bs) then grow n bs ! i else []) = (if i < length bs then bs ! i else [])"
  by (auto simp: grow_def nth_append)

interpretation mf: cell_store "\<lambda>_. True" "\<lambda>_ b. b < 64" "\<lambda>b d s. snd (MIFARE_Write b d 16 s)" mf_block padded
proof unfold_locales
  fix s b d b'
  show "mf_block (snd (MIFARE_Write b d 16 s)) b' = (if b' = b \<and> b < 64 then padded d else mf_block s b')"
  proof (cases "b < 64 \<and> b' < 64")
    case True
    let ?g = "grow (unat b) (mfBlocks s)"
    have "(if unat b' < length ?g then ?g[unat b := take 16 d] ! unat b' else []) =
        (if b' = b then take 16 d else if unat b' < length (mfBlocks s) then mfBlocks s ! unat b' else [])"
      using grow_nth(2) [where n = "unat b" and bs = "mfBlocks s"]
          grow_nth(3) [where n = "unat b" and bs = "mfBlocks s" and i = "unat b'"] by (auto simp: nth_list_update word_unat_eq_iff)
    then show ?thesis
      using True by (auto simp: mf_block_def MIFARE_Read_block MIFARE_Write_def padded_take)
  qed (auto simp: mf_block_def MIFARE_Read_def MIFARE_Write_def Let_def)
qed simp_all

section \<open>Tags\<close>

interpretation pn_in: mailbox "\<lambda>_. True" pnQueue pn_injectUID readPassiveTargetID
  by unfold_locales (auto simp: readPassiveTargetID_def pn_injectUID_def)

lemma pn_injectUID_last: "pnLast (pn_injectUID u s) = pnLast s"
  by (simp add: pn_injectUID_def)

section \<open>Fingers\<close>

datatype fp_op = FpBegin | FpStore u16 | FpDelete u16 | FpEmpty | FpSearch | FpMatch int u16 | FpPresent bool

text \<open>The reader with the number of times a used slot was stored to since the database was emptied.\<close>

fun fp_step :: "fp_op \<Rightarrow> fingerprint \<times> nat \<Rightarrow> fingerprint \<times> nat" where
  "fp_step FpBegin (s, n) = (snd (fp_begin s), n)"
| "fp_step (FpStore i) (s, n) =
    (case fp_storeModel i s of
       Some (e, t) \<Rightarrow> (t, if e = 0 \<and> fp_is_stored i s then n + 1 else n)
     | None \<Rightarrow> (s, n))"
| "fp_step (FpDelete i) (s, n) = (case fp_deleteModel i s of Some (_, t) \<Rightarrow> (t, n) | None \<Rightarrow> (s, n))"
| "fp_step FpEmpty (s, n) = (let (e, t) = fp_emptyDatabase s in (t, if e = 0 then 0 else n))"
| "fp_step FpSearch (s, n) = (snd (fp_fingerSearch s), n)"
| "fp_step (FpMatch i c) (s, n) = (fp_set_match i c s, n)"
| "fp_step (FpPresent p) (s, n) = (fp_set_finger_present p s, n)"

definition used :: "bool list \<Rightarrow> nat" where
  "used bs = length (filter (\<lambda>b. b) bs)"

lemma used_update:
  assumes "i < length bs"
  shows "used (bs[i := b]) + (if bs ! i then 1 else 0) = used bs + (if b then 1 else 0)"
  using assms
proof (induction bs arbitrary: i)
  case (Cons c bs)
  show ?case
  proof (cases i)
    case (Suc j)
    then have "used (bs[j := b]) + (if bs ! j then 1 else 0) = used bs + (if b then 1 else 0)"
      using Cons.IH [of j] Cons.prems by simp
    then show ?thesis
      using Suc by (cases b; cases "bs ! j") (simp_all add: used_def)
  qed (simp add: used_def)
qed simp

definition fp_inv :: "fingerprint \<times> nat \<Rightarrow> bool" where
  "fp_inv r = (case r of (s, n) \<Rightarrow> fpCapacity s = 200 \<and> length (fpStored s) = 200 \<and> fpCount s = of_nat (used (fpStored s) + n))"

lemma fp_inv_step:
  assumes "fp_inv r"
  shows "fp_inv (fp_step op r)"
proof -
  obtain s n where r: "r = (s, n)"
    by fastforce
  have s: "fpCapacity s = 200" "length (fpStored s) = 200" "fpCount s = of_nat (used (fpStored s) + n)"
    using assms by (simp_all add: r fp_inv_def)
  have small: "i < 200 \<longleftrightarrow> unat i < 200" for i :: u16
    by (simp add: word_less_nat_alt)
  show ?thesis
  proof (cases op)
    case (FpStore i)
    show ?thesis
    proof (cases "fpInitialized s \<and> unat i < 200")
      case True
      let ?b = "(fpStored s)[unat i := True]"
      have "used ?b + (if fpStored s ! unat i then 1 else 0) = used (fpStored s) + 1"
        using used_update [of "unat i" "fpStored s" True] True s(2) by simp
      then have "used ?b + (if fpStored s ! unat i then n + 1 else n) = used (fpStored s) + n + 1"
        by (simp split: if_splits)
      then have "fpCount s + 1 = of_nat (used ?b + (if fpStored s ! unat i then n + 1 else n))"
        unfolding s(3) by (simp only: of_nat_add of_nat_1)
      then show ?thesis
        using True s small by (auto simp: r FpStore fp_inv_def fp_storeModel_def fp_is_stored_def not_le)
    qed (use s small in \<open>auto simp: r FpStore fp_inv_def fp_storeModel_def not_le\<close>)
  next
    case (FpDelete i)
    show ?thesis
    proof (cases "fpInitialized s \<and> unat i < 200 \<and> fpStored s ! unat i")
      case True
      let ?b = "(fpStored s)[unat i := False]"
      have "used ?b + 1 = used (fpStored s)"
        using used_update [of "unat i" "fpStored s" False] True s(2) by simp
      then have "used (fpStored s) + n = used ?b + n + 1"
        by simp
      then have "fpCount s - 1 = of_nat (used ?b + n)"
        unfolding s(3) by (simp only: of_nat_add of_nat_1 add_diff_cancel_right')
      then show ?thesis
        using True s small by (auto simp: r FpDelete fp_inv_def fp_deleteModel_def not_le)
    qed (use s small in \<open>auto simp: r FpDelete fp_inv_def fp_deleteModel_def not_le\<close>)
  qed (use s in \<open>auto simp: r fp_inv_def fp_begin_def fp_emptyDatabase_def fp_fingerSearch_def fp_set_match_def
      fp_set_finger_present_def used_def Let_def\<close>)
qed

interpretation fp_hist: step_system "\<lambda>r. r = (fp_new, 0)" "\<lambda>_. True" fp_step fp_inv
proof unfold_locales
  fix r :: "fingerprint \<times> nat"
  show "r = (fp_new, 0) \<Longrightarrow> fp_inv r"
    by (simp add: fp_inv_def fp_new_def used_def)
qed (rule fp_inv_step)

section \<open>Properties\<close>

text \<open>
  The card of an MFRC522. A block below 64 is read back as the sixteen bytes written to it last, or as it was before
  the writes, followed by two zeros for the checksum. The result of an authentication plays no role: the card can
  be read and written when it fails.
\<close>

theorem mf_blocks:
  assumes "b < 64" "length buf = 18"
  shows "MIFARE_Read b buf 18 (fold (\<lambda>(b, d) s. snd (MIFARE_Write b d 16 s)) ws (mf_setAuthResult r s)) =
    (STATUS_OK, (case map_of (rev ws) b of Some d \<Rightarrow> padded d | None \<Rightarrow> mf_block s b) @ [0, 0], 18)"
proof -
  have r: "MIFARE_Read b buf 18 s = (STATUS_OK, mf_block s b @ [0, 0], 18)" for s
    using MIFARE_Read_block [OF assms(1), of buf s] MIFARE_Read_block [OF assms(1), of "replicate 18 0" s] assms(2)
    by (simp add: mf_block_def)
  have "mf_block (mf_setAuthResult r s) b = mf_block s b"
    by (simp add: mf_block_def MIFARE_Read_def mf_setAuthResult_def Let_def)
  then show ?thesis
    unfolding r using mf.writes_get [OF TrueI, where kvs = ws and k' = b and s = "mf_setAuthResult r s"] assms(1)
    by (simp split: option.splits)
qed

theorem mf_blocks_witness:
  "MIFARE_Read 4 (replicate 18 9) 18 (fold (\<lambda>(b, d) s. snd (MIFARE_Write b d 16 s)) [(4, replicate 16 7), (5, replicate 16 1)]
      (mf_setAuthResult STATUS_ERROR mf_new)) = (STATUS_OK, replicate 16 7 @ [0, 0], 18)"
  using mf_blocks [of 4 "replicate 18 9" "[(4, replicate 16 7), (5, replicate 16 1)]" STATUS_ERROR mf_new]
  by (simp add: padded_def)

text \<open>
  Tags in front of a PN532. Tags are read in the order in which they were held in front of the reader, each once,
  and the last one read is remembered.
\<close>

theorem pn_tags_in_order:
  "let (got, t) = exchange pn_injectUID readPassiveTargetID ops s
   in got @ pnQueue t = pnQueue s @ List.map_filter (\<lambda>u. u) ops \<and> pnLast t = (if got = [] then pnLast s else last got)"
proof -
  have "pnLast (snd (exchange pn_injectUID readPassiveTargetID ops s)) =
      (if fst (exchange pn_injectUID readPassiveTargetID ops s) = [] then pnLast s
       else last (fst (exchange pn_injectUID readPassiveTargetID ops s)))"
  proof (induction ops arbitrary: s)
    case step: (Cons op ops)
    show ?case
    proof (cases op)
      case None
      show ?thesis
      proof (cases "pnQueue s")
        case Nil
        then have "readPassiveTargetID s = (None, s)"
          by (simp add: readPassiveTargetID_def)
        then show ?thesis
          using step.IH [of s] None by (auto split: prod.splits)
      next
        case (Cons u us)
        then have "readPassiveTargetID s = (Some u, s\<lparr>pnQueue := us, pnLast := u\<rparr>)"
          by (simp add: readPassiveTargetID_def)
        then show ?thesis
          using step.IH [of "s\<lparr>pnQueue := us, pnLast := u\<rparr>"] None by (auto split: prod.splits if_splits)
      qed
    next
      case (Some u)
      then show ?thesis
        using step.IH [of "pn_injectUID u s"] pn_injectUID_last [of u s] by simp
    qed
  qed simp
  then show ?thesis
    using pn_in.exchange_conserves(1) [OF TrueI, of ops s] by (auto split: prod.splits)
qed

fun pn_op :: "nat \<times> byte \<times> byte list \<Rightarrow> pn532 \<Rightarrow> pn532" where
  "pn_op (k, b, d) s =
    (if k = 0 then snd (pn_WriteDataBlock b d s) else if k = 1 then snd (ntag_WritePage b d s)
     else if k = 2 then snd (pn_powerDownMode s) else if k = 3 then snd (pn_wakeup s) else snd (readPassiveTargetID s))"

text \<open>
  Authentication of a PN532. A write before any authentication is refused; one authentication opens every block for
  good, whatever else is called, and a block then holds what was written last. Reading a block hands out its
  contents in any case: before authentication only the result says no.
\<close>

theorem pn_authentication:
  "pn_WriteDataBlock b d pn_new = (False, pn_new) \<and>
   (let s = fold pn_op ops (snd (pn_AuthenticateBlock s0))
    in pn_ReadDataBlock b (snd (pn_WriteDataBlock b d s)) = (True, take 16 d)) \<and>
   snd (pn_ReadDataBlock b s0) = snd (pn_ReadDataBlock b (snd (pn_AuthenticateBlock s0))) \<and>
   (fst (pn_ReadDataBlock b s0) \<longleftrightarrow> pnAuthenticated s0)"
proof -
  have "pnAuthenticated (fold pn_op ops s)" if "pnAuthenticated s" for s
    using that
  proof (induction ops arbitrary: s)
    case (Cons op ops)
    have "pnAuthenticated (pn_op op s)"
      using Cons.prems by (cases op) (auto simp: pn_WriteDataBlock_def ntag_WritePage_def pn_powerDownMode_def pn_wakeup_def
          readPassiveTargetID_def split: list.splits)
    then show ?case
      using Cons.IH by simp
  qed simp
  then have "pnAuthenticated (fold pn_op ops (snd (pn_AuthenticateBlock s0)))"
    by (simp add: pn_AuthenticateBlock_def)
  then show ?thesis
    by (simp add: pn_WriteDataBlock_def pn_ReadDataBlock_def pn_AuthenticateBlock_def pn_new_def Let_def)
qed

text \<open>
  The number of fingers. After any calls on a new reader the number of templates is the number of slots in use plus
  the number of times a slot already in use was stored to, modulo \<open>2 ^ 16\<close>: it is right exactly as long
  as no finger was enrolled over another one.
\<close>

theorem fingerprint_count:
  "let (s, n) = fold fp_step ops (fp_new, 0)
   in fpCount s = of_nat (card {i. i < 200 \<and> fpStored s ! i} + n) \<and>
     fp_getTemplateCount s = (if fpInitialized s then (0, s\<lparr>fpTemplateCount := fpCount s\<rparr>) else (1, s))"
proof -
  obtain s n where f: "fold fp_step ops (fp_new, 0) = (s, n)"
    by fastforce
  have "fp_inv (fold fp_step ops (fp_new, 0))"
    by (rule fp_hist.inv_run) (auto simp: list_all_iff)
  then have s: "length (fpStored s) = 200" "fpCount s = of_nat (used (fpStored s) + n)"
    by (simp_all add: f fp_inv_def)
  have "used (fpStored s) = card {i. i < 200 \<and> fpStored s ! i}"
    unfolding used_def length_filter_conv_card s(1) ..
  then show ?thesis
    using s(2) by (simp add: f fp_getTemplateCount_def)
qed

end
