(* ===== verification/Task_Scheduler.thy ===== *)
theory Task_Scheduler
  imports Interfaces
begin

text \<open>
  The cooperative scheduler of \<open>src/include/TaskScheduler.h\<close>: tasks with an iteration budget, and a
  pass that executes every enabled one. The lemmas count the callbacks a task makes and say what
  the result of a pass means.
\<close>

section \<open>Tasks\<close>

text \<open>
  Callbacks are code numbers, \<open>None\<close> an empty \<open>std::function\<close>; the events record which ran.
  \<open>taskId\<close> stands for the address of the object.
\<close>

datatype task_event = Ran nat | Enabled nat | Disabled nat

abbreviation (input) "TASK_FOREVER \<equiv> (- 1 :: int)"

record stask =
  taskId :: nat
  interval :: nat
  iterations :: int
  maxIterations :: int
  runCount :: int
  taskEnabled :: bool
  taskCallback :: "nat option"
  onEnable :: "nat option"
  onDisable :: "nat option"

definition task_default :: "nat \<Rightarrow> stask" where
  "task_default a = \<lparr>taskId = a, interval = 0, iterations = - 1, maxIterations = - 1, runCount = 0,
     taskEnabled = False, taskCallback = None, onEnable = None, onDisable = None\<rparr>"

definition task_set :: "stask \<Rightarrow> nat \<Rightarrow> int \<Rightarrow> nat option \<Rightarrow> stask" where
  "task_set t ms n cb = t\<lparr>interval := ms, iterations := n, maxIterations := n, taskCallback := cb\<rparr>"

definition task_setInterval :: "stask \<Rightarrow> nat \<Rightarrow> stask" where
  "task_setInterval t ms = t\<lparr>interval := ms\<rparr>"

definition task_setIterations :: "stask \<Rightarrow> int \<Rightarrow> stask" where
  "task_setIterations t n = t\<lparr>iterations := n, maxIterations := n\<rparr>"

definition ev_opt :: "(nat \<Rightarrow> task_event) \<Rightarrow> nat option \<Rightarrow> task_event list" where
  "ev_opt e cb = (case cb of None \<Rightarrow> [] | Some c \<Rightarrow> [e c])"

definition task_enable :: "stask \<Rightarrow> task_event list \<times> stask" where
  "task_enable t =
    (ev_opt Enabled (onEnable t),
     t\<lparr>taskEnabled := True, runCount := 0, iterations := maxIterations t\<rparr>)"

definition task_disable :: "stask \<Rightarrow> task_event list \<times> stask" where
  "task_disable t = (ev_opt Disabled (onDisable t), t\<lparr>taskEnabled := False\<rparr>)"

definition task_restart :: "stask \<Rightarrow> task_event list \<times> stask" where
  "task_restart t = task_enable t"

definition task_enableDelayed :: "stask \<Rightarrow> nat \<Rightarrow> task_event list \<times> stask" where
  "task_enableDelayed t ms = task_enable t"

definition task_new ::
  "nat \<Rightarrow> nat \<Rightarrow> int \<Rightarrow> nat option \<Rightarrow> bool \<Rightarrow> nat option \<Rightarrow> nat option \<Rightarrow> task_event list \<times> stask" where
  "task_new a ms n cb enabled on_en on_dis =
    (let t = (task_default a)\<lparr>interval := ms, iterations := n, maxIterations := n,
               taskCallback := cb, onEnable := on_en, onDisable := on_dis\<rparr>
     in if enabled then task_enable t else ([], t))"

definition isFirstIteration :: "stask \<Rightarrow> bool" where
  "isFirstIteration t \<longleftrightarrow> runCount t = 1"

definition isLastIteration :: "stask \<Rightarrow> bool" where
  "isLastIteration t \<longleftrightarrow> iterations t = 0"

text \<open>
  \<open>cb_effect c\<close> is what callback \<open>c\<close> does to its own task (it may disable or restart it).
\<close>

definition task_execute ::
  "(nat \<Rightarrow> stask \<Rightarrow> stask) \<Rightarrow> stask \<Rightarrow> bool \<times> task_event list \<times> stask" where
  "task_execute cb_effect t =
    (case taskCallback t of
       None \<Rightarrow> (False, [], t)
     | Some c \<Rightarrow>
         if \<not> taskEnabled t then (False, [], t)
         else if iterations t = 0 then (let (es, t') = task_disable t in (False, es, t'))
         else
           let t1 = cb_effect c (t\<lparr>runCount := runCount t + 1\<rparr>);
               t2 = (if iterations t1 > 0 then t1\<lparr>iterations := iterations t1 - 1\<rparr> else t1)
           in if iterations t2 = 0
              then (let (es, t3) = task_disable t2 in (False, Ran c # es, t3))
              else (True, [Ran c], t2))"

section \<open>The scheduler\<close>

definition addTask :: "stask list \<Rightarrow> stask \<Rightarrow> stask list" where
  "addTask ts t = ts @ [t]"

definition deleteTask :: "stask list \<Rightarrow> nat \<Rightarrow> stask list" where
  "deleteTask ts a = filter (\<lambda>t. taskId t \<noteq> a) ts"

text \<open>One pass: the flag, the events in order, and the tasks.\<close>

fun sched_execute ::
  "(nat \<Rightarrow> stask \<Rightarrow> stask) \<Rightarrow> stask list \<Rightarrow> bool \<times> task_event list \<times> stask list" where
  "sched_execute cb_effect [] = (False, [], [])"
| "sched_execute cb_effect (t # ts) =
    (let (ran, es, t') = (if taskEnabled t then task_execute cb_effect t else (False, [], t));
         (any, es', ts') = sched_execute cb_effect ts
     in (ran \<or> any, es @ es', t' # ts'))"

fun sched_passes ::
  "(nat \<Rightarrow> stask \<Rightarrow> stask) \<Rightarrow> nat \<Rightarrow> stask list \<Rightarrow> task_event list \<times> stask list" where
  "sched_passes cb_effect 0 ts = ([], ts)"
| "sched_passes cb_effect (Suc n) ts =
    (let (_, es, ts') = sched_execute cb_effect ts;
         (es', ts'') = sched_passes cb_effect n ts'
     in (es @ es', ts''))"

section \<open>Counting callbacks\<close>

lemma sched_execute_set:
  "snd (snd (sched_execute e ts)) = map (\<lambda>t. snd (snd (if taskEnabled t then task_execute e t else (False, [], t)))) ts"
  by (induction ts) (simp_all add: split_beta Let_def)

lemma sched_execute_events:
  "fst (snd (sched_execute e ts)) = concat (map (\<lambda>t. fst (snd (if taskEnabled t then task_execute e t else (False, [], t)))) ts)"
  by (induction ts) (simp_all add: split_beta Let_def)

abbreviation runs :: "nat \<Rightarrow> task_event list \<Rightarrow> nat" where
  "runs c es \<equiv> length (filter (\<lambda>e. e = Ran c) es)"

text \<open>A single task in the scheduler, with a callback that leaves it alone.\<close>

lemma passes_disabled: "\<not> taskEnabled t \<Longrightarrow> sched_passes e n [t] = ([], [t])"
  by (induction n) simp_all

lemma runs_ev_disabled [simp]: "runs c (ev_opt Disabled d) = 0"
  by (simp add: ev_opt_def split: option.split)

lemma passes_budget:
  "taskEnabled t \<Longrightarrow> taskCallback t = Some c \<Longrightarrow> 0 < iterations t \<Longrightarrow>
   runs c (fst (sched_passes (\<lambda>_ t. t) n [t])) = min n (nat (iterations t)) \<and>
   (\<exists>t'. snd (sched_passes (\<lambda>_ t. t) n [t]) = [t'] \<and>
     taskEnabled t' = (n < nat (iterations t)) \<and>
     runCount t' = runCount t + int (min n (nat (iterations t))))"
proof (induction n arbitrary: t)
  case 0
  then show ?case by simp
next
  case (Suc n)
  show ?case
  proof (cases "iterations t = 1")
    case True
    with Suc.prems show ?thesis
      by (simp add: task_execute_def task_disable_def Let_def passes_disabled)
  next
    case False
    with Suc.prems Suc.IH [of "t\<lparr>runCount := runCount t + 1, iterations := iterations t - 1\<rparr>"] show ?thesis
      by (auto simp: task_execute_def Let_def split_beta nat_diff_distrib)
  qed
qed

lemma passes_forever:
  "taskEnabled t \<Longrightarrow> taskCallback t = Some c \<Longrightarrow> iterations t < 0 \<Longrightarrow>
   runs c (fst (sched_passes (\<lambda>_ t. t) n [t])) = n \<and>
   (\<exists>t'. snd (sched_passes (\<lambda>_ t. t) n [t]) = [t'] \<and> taskEnabled t' \<and>
     runCount t' = runCount t + int n)"
proof (induction n arbitrary: t)
  case 0
  then show ?case by simp
next
  case (Suc n)
  from Suc.prems Suc.IH [of "t\<lparr>runCount := runCount t + 1\<rparr>"] show ?case
    by (auto simp: task_execute_def Let_def split_beta)
qed

section \<open>Properties\<close>

text \<open>
  The iteration budget. After \<open>enable\<close>, \<open>n\<close> passes run the callback of a task with a budget of
  \<open>k > 0\<close> iterations exactly \<open>min n k\<close> times and leave it enabled just as long as \<open>n < k\<close>; a
  task with a negative budget runs on every pass and stays enabled. The run counter is the number of
  callbacks made.
\<close>

theorem scheduler_iteration_budget:
  assumes "taskCallback t = Some c" "maxIterations t \<noteq> 0"
    and "sched_passes (\<lambda>_ t. t) n [snd (task_enable t)] = (es, ts)"
  defines "k \<equiv> (if maxIterations t < 0 then n else min n (nat (maxIterations t)))"
  shows "runs c es = k \<and> (\<exists>t'. ts = [t'] \<and> runCount t' = int k \<and>
    (taskEnabled t' \<longleftrightarrow> maxIterations t < 0 \<or> n < nat (maxIterations t)))"
proof -
  let ?t = "snd (task_enable t)"
  have "taskEnabled ?t" "taskCallback ?t = Some c" "iterations ?t = maxIterations t" "runCount ?t = 0"
    using assms(1) by (simp_all add: task_enable_def)
  then show ?thesis
    using assms(2,3) passes_budget [of ?t c n] passes_forever [of ?t c n]
    by (cases "maxIterations t < 0") (auto simp: k_def)
qed

theorem scheduler_iteration_budget_witness:
  "runs 7 (fst (sched_passes (\<lambda>_ t. t) 10 [snd (task_enable (task_set (task_default 0) 100 3 (Some 7)))])) = 3"
  using scheduler_iteration_budget [OF _ _ surjective_pairing,
      of "task_set (task_default 0) 100 3 (Some 7)" 7 10]
  by (simp add: task_set_def del: sched_passes.simps)

text \<open>
  The result of a pass misses the last iteration. A task that uses up its budget in a pass runs
  its callback in it, yet the pass reports that nothing ran.
\<close>

theorem scheduler_last_iteration_unreported:
  assumes "taskEnabled t" "taskCallback t = Some c" "iterations t = 1"
  shows "fst (sched_execute (\<lambda>_ t. t) [t]) = False \<and> Ran c \<in> set (fst (snd (sched_execute (\<lambda>_ t. t) [t])))"
  using assms by (simp add: task_execute_def task_disable_def Let_def)

theorem scheduler_last_iteration_unreported_witness:
  "fst (sched_execute (\<lambda>_ t. t) [snd (task_enable (task_set (task_default 0) 100 1 (Some 7)))]) = False"
  using scheduler_last_iteration_unreported
    [of "snd (task_enable (task_set (task_default 0) 100 1 (Some 7)))" 7]
  by (simp add: task_set_def task_enable_def)

end
