(* ===== verification/Tcp_Client.thy ===== *)
theory Tcp_Client
  imports Interfaces Http_Text "HOL-Library.Multiset"
begin

text \<open>
  TCP clients and the listener: \<open>src/src/wificlient.cpp\<close>, \<open>src/include/WiFiClient.h\<close> and
  \<open>src/include/WiFiServer.h\<close>. Part one is the life of the descriptors: which are open, which object
  owns them, and what connecting, moving, accepting and stopping do to them; the host gives the lowest
  free number, as POSIX asks. Part two is the data: what the host's \<open>recv\<close> and \<open>send\<close> hand over in
  pieces and what the loops make of it.
\<close>

section \<open>Descriptors\<close>

text \<open>The host: the open descriptors, and how often a descriptor was closed that was not open.\<close>

record host =
  hOpen :: "nat list"
  hBad :: nat

definition lowest_free :: "nat list \<Rightarrow> nat" where
  "lowest_free xs = hd (filter (\<lambda>n. n \<notin> set xs) [0..<Suc (length xs)])"

definition host_open :: "host \<Rightarrow> nat \<times> host" where
  "host_open h = (let n = lowest_free (hOpen h) in (n, h\<lparr>hOpen := n # hOpen h\<rparr>))"

definition host_close :: "nat \<Rightarrow> host \<Rightarrow> host" where
  "host_close n h = (if n \<in> set (hOpen h) then h\<lparr>hOpen := remove1 n (hOpen h)\<rparr> else h\<lparr>hBad := hBad h + 1\<rparr>)"

text \<open>\<open>fd_\<close> is \<open>-1\<close> or a descriptor.\<close>

record wifi_client =
  wcFd :: "nat option"
  wcTimeout :: int

definition wifi_client_init :: wifi_client where
  "wifi_client_init = \<lparr>wcFd = None, wcTimeout = 5000\<rparr>"

text \<open>What the host answers while a client connects.\<close>

datatype connect_result = Connected | InProgress | Refused

record connect_answers =
  caResolved :: bool
  caSocket :: bool
  caConnect :: connect_result
  caPoll :: int
  caError :: int

definition tcp_stop :: "wifi_client \<Rightarrow> host \<Rightarrow> wifi_client \<times> host" where
  "tcp_stop c h = (case wcFd c of None \<Rightarrow> (c, h) | Some n \<Rightarrow> (c\<lparr>wcFd := None\<rparr>, host_close n h))"

definition tcp_connect :: "connect_answers \<Rightarrow> int \<Rightarrow> wifi_client \<Rightarrow> host \<Rightarrow> int \<times> wifi_client \<times> host" where
  "tcp_connect a timeout c h =
    (if \<not> caResolved a then (0, c, h)
     else if \<not> caSocket a then (0, c\<lparr>wcFd := None\<rparr>, h)
     else
       let (n, h) = host_open h;
           failed = (if timeout > 0 then
               (case caConnect a of InProgress \<Rightarrow> caPoll a \<le> 0 \<or> caError a \<noteq> 0 | Refused \<Rightarrow> True | Connected \<Rightarrow> False)
             else caConnect a \<noteq> Connected)
       in if failed then (0, c\<lparr>wcFd := None\<rparr>, host_close n h) else (1, c\<lparr>wcFd := Some n\<rparr>, h))"

text \<open>Without a timeout argument the one of the client is used.\<close>

definition tcp_connect_default :: "connect_answers \<Rightarrow> wifi_client \<Rightarrow> host \<Rightarrow> int \<times> wifi_client \<times> host" where
  "tcp_connect_default a c h = tcp_connect a (wcTimeout c) c h"

definition tcp_setTimeout :: "int \<Rightarrow> wifi_client \<Rightarrow> wifi_client" where
  "tcp_setTimeout ms c = c\<lparr>wcTimeout := ms\<rparr>"

definition tcp_connected :: "wifi_client \<Rightarrow> bool" where
  "tcp_connected c \<longleftrightarrow> wcFd c \<noteq> None"

record wifi_server =
  wsFd :: "nat option"
  wsListening :: bool

definition wifi_server_init :: wifi_server where
  "wifi_server_init = \<lparr>wsFd = None, wsListening = False\<rparr>"

text \<open>\<open>begin\<close>: what \<open>socket\<close>, \<open>bind\<close> and \<open>listen\<close> answer.\<close>

definition srv_begin :: "bool \<Rightarrow> bool \<Rightarrow> bool \<Rightarrow> wifi_server \<Rightarrow> host \<Rightarrow> wifi_server \<times> host" where
  "srv_begin sock bound listens s h =
    (if \<not> sock then (s\<lparr>wsFd := None\<rparr>, h)
     else let (n, h) = host_open h
          in if \<not> bound \<or> \<not> listens then (s\<lparr>wsFd := None\<rparr>, host_close n h)
             else (s\<lparr>wsFd := Some n, wsListening := True\<rparr>, h))"

definition srv_stop :: "wifi_server \<Rightarrow> host \<Rightarrow> wifi_server \<times> host" where
  "srv_stop s h = (case wsFd s of None \<Rightarrow> (s, h) | Some n \<Rightarrow> (s\<lparr>wsFd := None, wsListening := False\<rparr>, host_close n h))"

text \<open>\<open>available\<close>: a client for a connection that waits, or one without.\<close>

definition srv_available :: "bool \<Rightarrow> wifi_server \<Rightarrow> host \<Rightarrow> wifi_client \<times> host" where
  "srv_available pending s h =
    (if wsFd s = None \<or> \<not> pending then (wifi_client_init, h)
     else let (n, h) = host_open h in (wifi_client_init\<lparr>wcFd := Some n\<rparr>, h))"

text \<open>A program with client objects and a server object, and what it can do with them.\<close>

record tcp_world =
  twHost :: host
  twClients :: "wifi_client list"
  twServer :: wifi_server

definition tcp_world_init :: tcp_world where
  "tcp_world_init = \<lparr>twHost = \<lparr>hOpen = [0, 1, 2], hBad = 0\<rparr>, twClients = [], twServer = wifi_server_init\<rparr>"

datatype tcp_op =
    NewClient
  | Connect nat connect_answers int
  | StopClient nat
  | MoveConstruct nat
  | MoveAssign nat nat
  | Destroy nat
  | Accept bool
  | Begin bool bool bool
  | StopServer

definition with_client :: "nat \<Rightarrow> (wifi_client \<Rightarrow> host \<Rightarrow> wifi_client \<times> host) \<Rightarrow> tcp_world \<Rightarrow> tcp_world" where
  "with_client i f w =
    (let (c, h) = f (twClients w ! i) (twHost w) in w\<lparr>twHost := h, twClients := (twClients w)[i := c]\<rparr>)"

text \<open>The move constructor and the move assignment, whose guard is \<open>this != &other\<close>.\<close>

definition move_construct :: "nat \<Rightarrow> tcp_world \<Rightarrow> tcp_world" where
  "move_construct i w =
    w\<lparr>twClients := (twClients w)[i := (twClients w ! i)\<lparr>wcFd := None\<rparr>] @ [twClients w ! i]\<rparr>"

definition move_assign :: "nat \<Rightarrow> nat \<Rightarrow> tcp_world \<Rightarrow> tcp_world" where
  "move_assign i j w =
    (if i = j then w
     else let w = with_client i tcp_stop w; other = twClients w ! j
          in w\<lparr>twClients := (twClients w)[i := (twClients w ! i)\<lparr>wcFd := wcFd other, wcTimeout := wcTimeout other\<rparr>,
                                       j := other\<lparr>wcFd := None\<rparr>]\<rparr>)"

definition destroy :: "nat \<Rightarrow> tcp_world \<Rightarrow> tcp_world" where
  "destroy i w = (let w = with_client i tcp_stop w in w\<lparr>twClients := take i (twClients w) @ drop (Suc i) (twClients w)\<rparr>)"

fun tcp_step :: "tcp_op \<Rightarrow> tcp_world \<Rightarrow> tcp_world" where
  "tcp_step NewClient w = w\<lparr>twClients := twClients w @ [wifi_client_init]\<rparr>"
| "tcp_step (Connect i a t) w = (if i < length (twClients w) then with_client i (\<lambda>c h. snd (tcp_connect a t c h)) w else w)"
| "tcp_step (StopClient i) w = (if i < length (twClients w) then with_client i tcp_stop w else w)"
| "tcp_step (MoveConstruct i) w = (if i < length (twClients w) then move_construct i w else w)"
| "tcp_step (MoveAssign i j) w = (if i < length (twClients w) \<and> j < length (twClients w) then move_assign i j w else w)"
| "tcp_step (Destroy i) w = (if i < length (twClients w) then destroy i w else w)"
| "tcp_step (Accept p) w =
    (let (c, h) = srv_available p (twServer w) (twHost w) in w\<lparr>twHost := h, twClients := twClients w @ [c]\<rparr>)"
| "tcp_step (Begin s b l) w = (let (v, h) = srv_begin s b l (twServer w) (twHost w) in w\<lparr>twServer := v, twHost := h\<rparr>)"
| "tcp_step StopServer w = (let (v, h) = srv_stop (twServer w) (twHost w) in w\<lparr>twServer := v, twHost := h\<rparr>)"

section \<open>Ownership\<close>

text \<open>The descriptors of the program's objects.\<close>

definition fd_of :: "nat option \<Rightarrow> nat multiset" where
  "fd_of f = (case f of None \<Rightarrow> {#} | Some n \<Rightarrow> {#n#})"

definition owned :: "tcp_world \<Rightarrow> nat multiset" where
  "owned w = (\<Sum>c\<in>#mset (twClients w). fd_of (wcFd c)) + fd_of (wsFd (twServer w))"

definition std_fds :: "nat multiset" where
  "std_fds = {#0, 1, 2#}"

text \<open>
  The account: no descriptor was closed that was not open, and the open ones are those of the process
  itself, the owned ones and \<open>lost\<close> ones, no two of them the same.
\<close>

definition tcp_acc :: "nat multiset \<Rightarrow> tcp_world \<Rightarrow> bool" where
  "tcp_acc lost w \<longleftrightarrow> distinct (hOpen (twHost w)) \<and> hBad (twHost w) = 0 \<and>
     mset (hOpen (twHost w)) = std_fds + owned w + lost"

text \<open>What an operation loses: connecting overwrites the descriptor of the client, beginning that of the server.\<close>

fun loses :: "tcp_op \<Rightarrow> tcp_world \<Rightarrow> nat multiset" where
  "loses (Connect i a t) w = (if i < length (twClients w) \<and> caResolved a then fd_of (wcFd (twClients w ! i)) else {#})"
| "loses (Begin s b l) w = fd_of (wsFd (twServer w))"
| "loses _ w = {#}"

lemma fd_of_simps [simp]: "fd_of None = {#}" "fd_of (Some n) = {#n#}"
  by (simp_all add: fd_of_def)

lemma lowest_free_fresh: "lowest_free xs \<notin> set xs"
proof -
  have "\<not> set [0..<Suc (length xs)] \<subseteq> set xs"
  proof
    assume "set [0..<Suc (length xs)] \<subseteq> set xs"
    then have "card (set [0..<Suc (length xs)]) \<le> card (set xs)"
      by (intro card_mono) simp_all
    then show False
      using card_length [of xs] by simp
  qed
  then have "filter (\<lambda>n. n \<notin> set xs) [0..<Suc (length xs)] \<noteq> []"
    by (auto simp only: filter_empty_conv)
  from hd_in_set [OF this] show ?thesis
    unfolding lowest_free_def by (simp only: set_filter mem_Collect_eq not_False_eq_True)
qed

text \<open>What an operation on one descriptor does to the host.\<close>

definition host_ok :: "host \<Rightarrow> bool" where
  "host_ok h \<longleftrightarrow> distinct (hOpen h) \<and> hBad h = 0"

lemma host_open_ok:
  assumes "host_ok h" "host_open h = (n, h')"
  shows "host_ok h'" "mset (hOpen h') = add_mset n (mset (hOpen h))"
  using assms lowest_free_fresh [of "hOpen h"] by (auto simp: host_open_def host_ok_def Let_def)

lemma host_close_ok:
  assumes "host_ok h" "n \<in># mset (hOpen h)"
  shows "host_ok (host_close n h)" "add_mset n (mset (hOpen (host_close n h))) = mset (hOpen h)"
  using assms by (auto simp: host_close_def host_ok_def)

definition client_law :: "(wifi_client \<Rightarrow> nat multiset) \<Rightarrow> (wifi_client \<Rightarrow> host \<Rightarrow> wifi_client \<times> host) \<Rightarrow> bool" where
  "client_law lost f \<longleftrightarrow> (\<forall>c h. host_ok h \<longrightarrow> fd_of (wcFd c) \<subseteq># mset (hOpen h) \<longrightarrow>
     host_ok (snd (f c h)) \<and>
     mset (hOpen (snd (f c h))) + fd_of (wcFd c) = mset (hOpen h) + fd_of (wcFd (fst (f c h))) + lost c)"

lemma tcp_stop_law: "client_law (\<lambda>_. {#}) tcp_stop"
  by (auto simp: client_law_def tcp_stop_def host_close_ok split: option.splits)

lemma tcp_connect_law:
  "client_law (\<lambda>c. if caResolved a then fd_of (wcFd c) else {#}) (\<lambda>c h. snd (tcp_connect a t c h))"
  unfolding client_law_def
proof (intro allI impI)
  fix c :: wifi_client and h
  assume h: "host_ok h"
  obtain n h1 where o: "host_open h = (n, h1)"
    by fastforce
  note h1 = host_open_ok [OF h o]
  have close: "host_ok (host_close n h1)" "mset (hOpen (host_close n h1)) = mset (hOpen h)"
    using host_close_ok [OF h1(1), of n] h1(2) by auto
  show "host_ok (snd (snd (tcp_connect a t c h))) \<and>
      mset (hOpen (snd (snd (tcp_connect a t c h)))) + fd_of (wcFd c) =
      mset (hOpen h) + fd_of (wcFd (fst (snd (tcp_connect a t c h)))) + (if caResolved a then fd_of (wcFd c) else {#})"
    using h h1 close by (auto simp: tcp_connect_def o Let_def)
qed

text \<open>The clients' descriptors when one client changes.\<close>

definition client_fds :: "wifi_client list \<Rightarrow> nat multiset" where
  "client_fds cs = (\<Sum>c\<in>#mset cs. fd_of (wcFd c))"

lemma client_fds_simps [simp]:
  "client_fds [] = {#}" "client_fds (c # cs) = fd_of (wcFd c) + client_fds cs" "client_fds (cs @ ds) = client_fds cs + client_fds ds"
  by (simp_all add: client_fds_def)

lemma owned_fds: "owned w = client_fds (twClients w) + fd_of (wsFd (twServer w))"
  by (simp add: owned_def client_fds_def)

lemma client_fds_update:
  "i < length cs \<Longrightarrow> client_fds (cs[i := c]) + fd_of (wcFd (cs ! i)) = client_fds cs + fd_of (wcFd c)"
  by (induction cs arbitrary: i) (auto simp: nth_Cons ac_simps split: nat.splits)

lemma client_fds_nth: "i < length cs \<Longrightarrow> fd_of (wcFd (cs ! i)) \<subseteq># client_fds cs"
  by (induction cs arbitrary: i) (auto simp: nth_Cons subset_mset.add_increasing split: nat.splits)

lemma acc_with_client:
  assumes "tcp_acc e w" "i < length (twClients w)" "client_law lost f"
  shows "tcp_acc (e + lost (twClients w ! i)) (with_client i f w)" "length (twClients (with_client i f w)) = length (twClients w)"
    "j \<noteq> i \<Longrightarrow> twClients (with_client i f w) ! j = twClients w ! j"
    "twClients (with_client i f w) ! i = fst (f (twClients w ! i) (twHost w))" "twServer (with_client i f w) = twServer w"
proof -
  let ?c = "twClients w ! i" and ?h = "twHost w"
  have h: "host_ok ?h" "mset (hOpen ?h) = std_fds + owned w + e"
    using assms(1) by (auto simp: tcp_acc_def host_ok_def)
  have "fd_of (wcFd ?c) \<subseteq># mset (hOpen ?h)"
    unfolding h(2) owned_fds using client_fds_nth [OF assms(2)]
    by (metis add.assoc add.commute subset_mset.add_increasing2 subset_mset.zero_le)
  with h(1) assms(3) have r: "host_ok (snd (f ?c ?h))"
    "mset (hOpen (snd (f ?c ?h))) + fd_of (wcFd ?c) = mset (hOpen ?h) + fd_of (wcFd (fst (f ?c ?h))) + lost ?c"
    by (auto simp: client_law_def)
  let ?w = "with_client i f w"
  have w: "twHost ?w = snd (f ?c ?h)" "twClients ?w = (twClients w)[i := fst (f ?c ?h)]" "twServer ?w = twServer w"
    by (simp_all add: with_client_def split_beta)
  then show "length (twClients ?w) = length (twClients w)" "j \<noteq> i \<Longrightarrow> twClients ?w ! j = twClients w ! j"
    "twClients ?w ! i = fst (f ?c ?h)" "twServer ?w = twServer w"
    using assms(2) by simp_all
  have "client_fds (twClients ?w) + fd_of (wcFd ?c) = client_fds (twClients w) + fd_of (wcFd (fst (f ?c ?h)))"
    unfolding w by (rule client_fds_update [OF assms(2)])
  then have "mset (hOpen (twHost ?w)) + fd_of (wcFd ?c) = std_fds + owned ?w + (e + lost ?c) + fd_of (wcFd ?c)"
    using r(2) unfolding h(2) owned_fds w by (simp add: ac_simps)
  then show "tcp_acc (e + lost ?c) ?w"
    using r(1) by (simp add: tcp_acc_def host_ok_def w)
qed

text \<open>Moving a descriptor from one client to another that has none.\<close>

lemma acc_move:
  assumes "tcp_acc e w" "i < length (twClients w)" "j < length (twClients w)" "i \<noteq> j" "wcFd (twClients w ! i) = None"
  shows "tcp_acc e (w\<lparr>twClients := (twClients w)[i := c\<lparr>wcFd := wcFd (twClients w ! j), wcTimeout := t\<rparr>, j := d\<lparr>wcFd := None\<rparr>]\<rparr>)"
proof -
  let ?cs = "(twClients w)[i := c\<lparr>wcFd := wcFd (twClients w ! j), wcTimeout := t\<rparr>]"
  have "client_fds ?cs = client_fds (twClients w) + fd_of (wcFd (twClients w ! j))"
    using client_fds_update [OF assms(2), of "c\<lparr>wcFd := wcFd (twClients w ! j), wcTimeout := t\<rparr>"] assms(5) by simp
  moreover have "client_fds (?cs[j := d\<lparr>wcFd := None\<rparr>]) + fd_of (wcFd (?cs ! j)) = client_fds ?cs"
    using client_fds_update [of j ?cs "d\<lparr>wcFd := None\<rparr>"] assms(3) by simp
  moreover have "?cs ! j = twClients w ! j"
    using assms(4) by simp
  ultimately have "client_fds (?cs[j := d\<lparr>wcFd := None\<rparr>]) = client_fds (twClients w)"
    by simp
  then show ?thesis
    using assms(1) by (simp add: tcp_acc_def owned_fds)
qed

lemma srv_stop_acc:
  assumes "tcp_acc e w" "srv_stop (twServer w) (twHost w) = (v, h)"
  shows "tcp_acc e (w\<lparr>twServer := v, twHost := h\<rparr>)"
proof (cases "wsFd (twServer w)")
  case (Some n)
  then show ?thesis
    using assms host_close_ok [of "twHost w" n] by (auto simp: tcp_acc_def srv_stop_def owned_fds host_ok_def)
qed (use assms in \<open>auto simp: srv_stop_def\<close>)

lemma srv_begin_acc:
  assumes "tcp_acc e w" "srv_begin s b l (twServer w) (twHost w) = (v, h)"
  shows "tcp_acc (e + fd_of (wsFd (twServer w))) (w\<lparr>twServer := v, twHost := h\<rparr>)"
proof -
  obtain n h1 where o: "host_open (twHost w) = (n, h1)"
    by fastforce
  have "host_ok (twHost w)"
    using assms(1) by (simp add: tcp_acc_def host_ok_def)
  note h1 = host_open_ok [OF this o]
  have close: "host_ok (host_close n h1)" "mset (hOpen (host_close n h1)) = mset (hOpen (twHost w))"
    using host_close_ok [OF h1(1), of n] h1(2) by auto
  show ?thesis
    using assms h1 close by (auto simp: tcp_acc_def host_ok_def srv_begin_def o owned_fds Let_def ac_simps split: if_splits)
qed

lemma srv_available_acc:
  assumes "tcp_acc e w" "srv_available p (twServer w) (twHost w) = (c, h)"
  shows "tcp_acc e (w\<lparr>twHost := h, twClients := twClients w @ [c]\<rparr>)"
proof -
  obtain n h1 where o: "host_open (twHost w) = (n, h1)"
    by fastforce
  have "host_ok (twHost w)"
    using assms(1) by (simp add: tcp_acc_def host_ok_def)
  note h1 = host_open_ok [OF this o]
  show ?thesis
    using assms h1
    by (auto simp: tcp_acc_def host_ok_def srv_available_def o owned_fds wifi_client_init_def Let_def ac_simps split: if_splits)
qed

lemma stop_acc:
  assumes "tcp_acc e w" "i < length (twClients w)"
  shows "tcp_acc e (with_client i tcp_stop w)" "wcFd (twClients (with_client i tcp_stop w) ! i) = None"
  using acc_with_client(1,4) [OF assms tcp_stop_law] by (simp_all add: tcp_stop_def split: option.splits)

lemma move_construct_acc:
  assumes "tcp_acc e w" "i < length (twClients w)"
  shows "tcp_acc e (move_construct i w)"
proof -
  have "client_fds ((twClients w)[i := (twClients w ! i)\<lparr>wcFd := None\<rparr>]) + fd_of (wcFd (twClients w ! i)) = client_fds (twClients w)"
    using client_fds_update [OF assms(2), of "(twClients w ! i)\<lparr>wcFd := None\<rparr>"] by simp
  then show ?thesis
    using assms(1) by (simp add: tcp_acc_def move_construct_def owned_fds)
qed

lemma move_assign_acc:
  assumes "tcp_acc e w" "i < length (twClients w)" "j < length (twClients w)"
  shows "tcp_acc e (move_assign i j w)"
proof (cases "i = j")
  case False
  let ?w = "with_client i tcp_stop w"
  have "length (twClients ?w) = length (twClients w)"
    by (rule acc_with_client(2) [OF assms(1,2) tcp_stop_law])
  with False assms(2,3) stop_acc [OF assms(1,2)] show ?thesis
    by (simp add: move_assign_def Let_def acc_move)
qed (use assms in \<open>simp add: move_assign_def\<close>)

lemma destroy_acc:
  assumes "tcp_acc e w" "i < length (twClients w)"
  shows "tcp_acc e (destroy i w)"
proof -
  let ?w = "with_client i tcp_stop w"
  let ?cs = "twClients ?w"
  have i: "i < length ?cs"
    using acc_with_client(2) [OF assms tcp_stop_law] assms(2) by simp
  have "client_fds ?cs = client_fds (take i ?cs @ ?cs ! i # drop (Suc i) ?cs)"
    using id_take_nth_drop [OF i] by simp
  then have "client_fds ?cs = client_fds (take i ?cs @ drop (Suc i) ?cs)"
    using stop_acc(2) [OF assms] by simp
  then show ?thesis
    using stop_acc(1) [OF assms] by (simp add: destroy_def Let_def tcp_acc_def owned_fds)
qed

lemma tcp_step_acc: "tcp_acc e w \<Longrightarrow> tcp_acc (e + loses op w) (tcp_step op w)"
proof (cases op)
  case NewClient
  assume "tcp_acc e w"
  then show ?thesis
    by (simp add: NewClient tcp_acc_def owned_fds wifi_client_init_def)
next
  case (Connect i a t)
  assume "tcp_acc e w"
  then show ?thesis
    using acc_with_client(1) [OF _ _ tcp_connect_law [of a t], of e w i] by (auto simp: Connect split: if_splits)
qed (auto simp: stop_acc move_construct_acc move_assign_acc destroy_acc srv_stop_acc srv_begin_acc srv_available_acc
      split: prod.splits)

fun lost_run :: "tcp_op list \<Rightarrow> tcp_world \<Rightarrow> nat multiset" where
  "lost_run [] w = {#}"
| "lost_run (op # ops) w = loses op w + lost_run ops (tcp_step op w)"

lemma tcp_run_acc: "tcp_acc e w \<Longrightarrow> tcp_acc (e + lost_run ops w) (fold tcp_step ops w)"
  by (induction ops arbitrary: e w) (use tcp_step_acc in \<open>fastforce simp: ac_simps\<close>)+

lemma tcp_acc_init: "tcp_acc {#} tcp_world_init"
  by (simp add: tcp_acc_def tcp_world_init_def owned_fds wifi_server_init_def std_fds_def)

text \<open>A program that stops a client before it connects it again, and the server before it begins again.\<close>

definition careful_step :: "tcp_op \<Rightarrow> tcp_world \<Rightarrow> tcp_world" where
  "careful_step op w = (if loses op w = {#} then tcp_step op w else w)"

interpretation careful: step_system "\<lambda>w. w = tcp_world_init" "\<lambda>_. True" careful_step "tcp_acc {#}"
proof
  show "w = tcp_world_init \<Longrightarrow> tcp_acc {#} w" for w
    by (simp add: tcp_acc_init)
  show "tcp_acc {#} w \<Longrightarrow> True \<Longrightarrow> tcp_acc {#} (careful_step op w)" for w op
    using tcp_step_acc [of "{#}" w op] by (cases "loses op w = {#}") (simp_all add: careful_step_def)
qed

section \<open>Data\<close>

text \<open>
  What arrives on a connection: pieces of text, and the empty piece where \<open>recv\<close> returns nothing (end
  of the stream, timeout, error). A call takes at most as much as it asks for from the first piece.
  \<open>None\<close>: the call waits for ever.
\<close>

fun sock_recv :: "nat \<Rightarrow> string list \<Rightarrow> (string \<times> string list) option" where
  "sock_recv n [] = None"
| "sock_recv n (c # cs) = Some (take n c, if length c \<le> n then cs else drop n c # cs)"

definition tcp_write :: "send_result list \<Rightarrow> wifi_client \<Rightarrow> string \<Rightarrow> (nat \<times> string \<times> send_result list) option" where
  "tcp_write rs c buf =
    (if wcFd c = None then Some (0, [], rs)
     else map_option (\<lambda>(taken, rs'). (length taken, taken, rs')) (send_loop rs buf))"

definition tcp_print :: "send_result list \<Rightarrow> wifi_client \<Rightarrow> string \<Rightarrow> (nat \<times> string \<times> send_result list) option" where
  "tcp_print rs c s = tcp_write rs c (c_str s)"

definition tcp_println :: "send_result list \<Rightarrow> wifi_client \<Rightarrow> string \<Rightarrow> (nat \<times> string \<times> send_result list) option" where
  "tcp_println rs c s =
    Option.bind (tcp_print rs c s) (\<lambda>(n, t, rs).
    Option.bind (tcp_write rs c crlf) (\<lambda>(m, u, rs). Some (n + m, t @ u, rs)))"

text \<open>\<open>MSG_PEEK\<close> leaves the byte in the queue.\<close>

definition tcp_available :: "wifi_client \<Rightarrow> string list \<Rightarrow> (int \<times> string list) option" where
  "tcp_available c inbox =
    (if wcFd c = None then Some (0, inbox)
     else case sock_recv 1 inbox of
       None \<Rightarrow> None
     | Some (t, rest) \<Rightarrow> Some (if t \<noteq> [] then (1, inbox) else (0, rest)))"

definition tcp_read :: "wifi_client \<Rightarrow> string list \<Rightarrow> (int \<times> string list) option" where
  "tcp_read c inbox =
    (if wcFd c = None then Some (- 1, inbox)
     else map_option (\<lambda>(t, rest). (if t \<noteq> [] then int (ord (hd t)) else - 1, rest)) (sock_recv 1 inbox))"

text \<open>The result of the buffer form is what \<open>recv\<close> returns; for nothing it is 0 at the end of the stream.\<close>

definition tcp_read_buf :: "wifi_client \<Rightarrow> nat \<Rightarrow> string list \<Rightarrow> (string option \<times> string list) option" where
  "tcp_read_buf c n inbox =
    (if wcFd c = None then Some (None, inbox) else map_option (\<lambda>(t, rest). (Some t, rest)) (sock_recv n inbox))"

function recv_all :: "string list \<Rightarrow> (string \<times> string list) option" where
  "recv_all inbox =
    (case sock_recv 1024 inbox of
       None \<Rightarrow> None
     | Some (t, rest) \<Rightarrow> if t = [] then Some ([], rest) else map_option (\<lambda>(u, r). (t @ u, r)) (recv_all rest))"
  by auto

lemma sock_recv_less:
  assumes "sock_recv n inbox = Some (t, rest)" "t \<noteq> []"
  shows "length (concat rest) < length (concat inbox)"
  using assms by (cases inbox) (auto split: if_splits)

termination recv_all
  by (relation "measure (\<lambda>inbox. length (concat inbox))") (auto dest: sock_recv_less)

declare recv_all.simps [simp del]

definition tcp_readString :: "wifi_client \<Rightarrow> string list \<Rightarrow> (string \<times> string list) option" where
  "tcp_readString c inbox =
    (if wcFd c = None then Some ([], inbox) else map_option (\<lambda>(t, r). (c_str t, r)) (recv_all inbox))"

function recv_until :: "char \<Rightarrow> string list \<Rightarrow> (string \<times> string list) option" where
  "recv_until z inbox =
    (case sock_recv 1 inbox of
       None \<Rightarrow> None
     | Some (t, rest) \<Rightarrow>
         if t = [] \<or> hd t = z then Some ([], rest)
         else map_option (\<lambda>(u, r). (hd t # u, r)) (recv_until z rest))"
  by auto
termination
  by (relation "measure (\<lambda>(z, inbox). length (concat inbox))") (auto dest: sock_recv_less)

declare recv_until.simps [simp del]

definition tcp_readStringUntil :: "wifi_client \<Rightarrow> char \<Rightarrow> string list \<Rightarrow> (string \<times> string list) option" where
  "tcp_readStringUntil c z inbox =
    (if wcFd c = None then Some ([], inbox) else map_option (\<lambda>(t, r). (c_str t, r)) (recv_until z inbox))"

text \<open>The loops over pieces that hold something do not depend on how the text is cut.\<close>

lemma sock_recv_1:
  "c \<noteq> [] \<Longrightarrow> \<exists>rest. sock_recv 1 (c # cs) = Some ([hd c], rest) \<and> concat rest = tl c @ concat cs \<and>
     ([] \<notin> set cs \<longrightarrow> [] \<notin> set rest)"
  by (cases c) (auto simp: Suc_le_eq)

lemma recv_until_text:
  assumes "[] \<notin> set inbox" "concat inbox = s @ z # r" "z \<notin> set s"
  shows "\<exists>rest. recv_until z inbox = Some (s, rest) \<and> concat rest = r \<and> [] \<notin> set rest"
  using assms
proof (induction s arbitrary: inbox)
  case Nil
  then obtain c cs where i: "inbox = c # cs" "c \<noteq> []"
    by (cases inbox) auto
  obtain rest where "sock_recv 1 inbox = Some ([hd c], rest)" "concat rest = tl c @ concat cs" "[] \<notin> set rest"
    using sock_recv_1 [OF i(2), of cs] Nil.prems(1) i(1) by auto
  moreover have "hd c = z" "tl c @ concat cs = r"
    using Nil.prems(2) i by (cases c; simp)+
  ultimately show ?case
    by (simp add: recv_until.simps [of z inbox])
next
  case (Cons x s)
  then obtain c cs where i: "inbox = c # cs" "c \<noteq> []"
    by (cases inbox) auto
  obtain rest where r: "sock_recv 1 inbox = Some ([hd c], rest)" "concat rest = tl c @ concat cs" "[] \<notin> set rest"
    using sock_recv_1 [OF i(2), of cs] Cons.prems(1) i(1) by auto
  have x: "hd c = x" "tl c @ concat cs = s @ z # r"
    using Cons.prems(2) i by (cases c; simp)+
  obtain rest' where "recv_until z rest = Some (s, rest')" "concat rest' = r" "[] \<notin> set rest'"
    using Cons.IH [of rest] Cons.prems(3) r x(2) by auto
  then show ?case
    using r x Cons.prems(3) by (auto simp: recv_until.simps [of z inbox])
qed

lemma recv_all_text:
  assumes "[] \<notin> set inbox"
  shows "recv_all (inbox @ [] # r) = Some (concat inbox, r)"
  using assms
proof (induction "length (concat inbox)" arbitrary: inbox rule: less_induct)
  case less
  show ?case
  proof (cases inbox)
    case Nil
    then show ?thesis by (simp add: recv_all.simps)
  next
    case (Cons c cs)
    then have c: "c \<noteq> []" "[] \<notin> set cs"
      using less.prems by auto
    let ?rest = "if length c \<le> 1024 then cs else drop 1024 c # cs"
    have "length (concat ?rest) < length (concat inbox)" "[] \<notin> set ?rest"
      using Cons c by auto
    note IH = less.hyps [OF this]
    have "take 1024 c @ concat ?rest = concat inbox"
      using Cons by (auto simp del: append_take_drop_id) (metis append.assoc append_take_drop_id)
    moreover have "sock_recv 1024 (inbox @ [] # r) = Some (take 1024 c, ?rest @ [] # r)"
      using Cons by simp
    ultimately show ?thesis
      using IH c(1) by (simp add: recv_all.simps [of "inbox @ [] # r"] del: sock_recv.simps)
  qed
qed

section \<open>Properties\<close>

text \<open>
  C39: the account of descriptors. Whatever a program does with its clients and its server (connecting,
  moving, accepting, stopping, destroying, in any order and however the host answers), no descriptor
  is closed that is not open, no two objects own the same one, and the open descriptors are the three
  of the process, the owned ones and those that were overwritten by a connect or a begin.
\<close>

theorem tcp_descriptor_account:
  "tcp_acc (lost_run ops tcp_world_init) (fold tcp_step ops tcp_world_init)"
  using tcp_run_acc [OF tcp_acc_init, of ops] by simp

text \<open>
  No leak. When every client is stopped before it is connected again, and the server before it begins
  again, then after any sequence of operations the open descriptors are those of the process and the
  owned ones, each owned once.
\<close>

theorem tcp_no_leak:
  assumes "w = fold careful_step ops tcp_world_init"
  shows "mset (hOpen (twHost w)) = std_fds + owned w \<and> distinct (hOpen (twHost w)) \<and> hBad (twHost w) = 0"
proof -
  have "tcp_acc {#} w"
    unfolding assms by (rule careful.inv_run) (simp_all add: list_all_iff)
  then show ?thesis
    by (simp add: tcp_acc_def)
qed

theorem tcp_no_leak_witness:
  "mset (hOpen (twHost (fold careful_step [NewClient, Connect 0 \<lparr>caResolved = True, caSocket = True, caConnect = Connected,
      caPoll = 1, caError = 0\<rparr> 100, MoveConstruct 0, Destroy 0] tcp_world_init))) = {#0, 1, 2, 3#}"
proof -
  let ?w = "fold careful_step [NewClient, Connect 0 \<lparr>caResolved = True, caSocket = True, caConnect = Connected,
      caPoll = 1, caError = 0\<rparr> 100, MoveConstruct 0, Destroy 0] tcp_world_init"
  have "owned ?w = {#3#}"
    by (simp add: careful_step_def tcp_world_init_def with_client_def tcp_connect_def host_open_def lowest_free_def
        wifi_client_init_def move_construct_def destroy_def tcp_stop_def owned_fds wifi_server_init_def Let_def upt_rec)
  then show ?thesis
    using tcp_no_leak [OF refl, of "[NewClient, Connect 0 \<lparr>caResolved = True, caSocket = True, caConnect = Connected,
      caPoll = 1, caError = 0\<rparr> 100, MoveConstruct 0, Destroy 0]"] by (simp only: std_fds_def) simp
qed

text \<open>
  Connecting again leaks. A client that owns a descriptor and connects anew, with whatever outcome,
  leaves the old descriptor open and without an owner.
\<close>

theorem tcp_reconnect_leaks:
  assumes "tcp_acc e w" "i < length (twClients w)" "wcFd (twClients w ! i) = Some n" "caResolved a"
  shows "n \<in> set (hOpen (twHost (tcp_step (Connect i a t) w))) \<and> n \<notin># owned (tcp_step (Connect i a t) w)"
proof -
  let ?w = "tcp_step (Connect i a t) w"
  have "tcp_acc (e + {#n#}) ?w"
    using tcp_step_acc [OF assms(1), of "Connect i a t"] assms(2-4) by simp
  then have d: "distinct (hOpen (twHost ?w))" "mset (hOpen (twHost ?w)) = std_fds + owned ?w + (e + {#n#})"
    by (auto simp: tcp_acc_def)
  have "count (mset (hOpen (twHost ?w))) n \<le> 1"
    using d(1) by (simp add: distinct_count_atmost_1)
  then have "count (owned ?w) n = 0"
    unfolding d(2) by simp
  moreover have "n \<in># mset (hOpen (twHost ?w))"
    unfolding d(2) by simp
  ultimately show ?thesis
    by (simp add: not_in_iff)
qed

theorem tcp_reconnect_leaks_witness:
  "\<exists>w. 3 \<in> set (hOpen (twHost w)) \<and> 3 \<notin># owned w \<and> hBad (twHost w) = 0"
proof -
  let ?w = "\<lparr>twHost = \<lparr>hOpen = [3, 0, 1, 2], hBad = 0\<rparr>, twClients = [wifi_client_init\<lparr>wcFd := Some 3\<rparr>], twServer = wifi_server_init\<rparr>"
  let ?a = "\<lparr>caResolved = True, caSocket = False, caConnect = Refused, caPoll = 0, caError = 0\<rparr>"
  have acc: "tcp_acc {#} ?w"
    by (simp add: tcp_acc_def std_fds_def owned_fds wifi_server_init_def)
  have "3 \<in> set (hOpen (twHost (tcp_step (Connect 0 ?a 0) ?w))) \<and> 3 \<notin># owned (tcp_step (Connect 0 ?a 0) ?w)"
    by (rule tcp_reconnect_leaks [OF acc]) simp_all
  moreover have "hBad (twHost (tcp_step (Connect 0 ?a 0) ?w)) = 0"
    using tcp_step_acc [OF acc, of "Connect 0 ?a 0"] by (simp add: tcp_acc_def del: tcp_step.simps)
  ultimately show ?thesis
    by blast
qed

text \<open>
  A line arrives. When \<open>println\<close> reports that it wrote everything, the peer's \<open>readStringUntil\<close> of the
  line feed returns the text and its carriage return, however the network cuts what was sent and what
  follows it, and what follows stays to be read.
\<close>

theorem tcp_line_roundtrip:
  assumes "tcp_println rs c s = Some (length s + 2, sent, rs')" "CHR 0x00 \<notin> set s" "nl \<notin> set s"
    and "concat inbox = sent @ later" "[] \<notin> set inbox" "wcFd p \<noteq> None"
  shows "\<exists>rest. tcp_readStringUntil p nl inbox = Some (s @ [cr], rest) \<and> concat rest = later"
proof -
  obtain n t rs1 m u where w: "tcp_print rs c s = Some (n, t, rs1)" "tcp_write rs1 c crlf = Some (m, u, rs')"
    "n + m = length s + 2" "sent = t @ u"
    using assms(1) by (auto simp: tcp_println_def bind_eq_Some_conv)
  have t: "prefix t s" "n = length t"
    using w(1) assms(2) send_loop_prefix [of rs s] by (auto simp: tcp_print_def tcp_write_def c_str_id split: if_splits)
  have u: "prefix u crlf" "m = length u"
    using w(2) send_loop_prefix [of rs1 crlf] by (auto simp: tcp_write_def split: if_splits)
  have "length t \<le> length s" "length u \<le> 2"
    using t(1) u(1) prefix_length_le [of t s] prefix_length_le [of u crlf] by (simp_all add: crlf_def)
  then have "length t = length s" "length u = length crlf"
    using w(3) t(2) u(2) by (simp_all add: crlf_def)
  then have "t = s" "u = crlf"
    using t(1) u(1) by (metis append_Nil2 append_eq_append_conv prefixE)+
  then have "concat inbox = (s @ [cr]) @ nl # later"
    using assms(4) w(4) by (simp add: crlf_def)
  from recv_until_text [OF assms(5) this] assms(3) obtain rest where
    "recv_until nl inbox = Some (s @ [cr], rest)" "concat rest = later"
    by auto
  moreover have "c_str (s @ [cr]) = s @ [cr]"
    using assms(2) by (intro c_str_id) (auto simp: cr_def)
  ultimately show ?thesis
    using assms(6) by (simp add: tcp_readStringUntil_def)
qed

theorem tcp_line_roundtrip_witness:
  "\<exists>rest. tcp_readStringUntil (wifi_client_init\<lparr>wcFd := Some 5\<rparr>) nl [''h'', ''i'' @ [cr], [nl] @ ''more''] = Some (''hi'' @ [cr], rest) \<and>
     concat rest = ''more''"
proof (rule tcp_line_roundtrip)
  show "tcp_println [Took 1, Interrupted, Took 1, Took 2] (wifi_client_init\<lparr>wcFd := Some 4\<rparr>) ''hi'' = Some (length ''hi'' + 2, ''hi'' @ crlf, [])"
    by (simp add: tcp_println_def tcp_print_def tcp_write_def c_str_def crlf_def)
qed (simp_all add: crlf_def nl_def cr_def)

text \<open>
  A print that breaks off is continued. When the connection takes a part of the text and then fails
  once, \<open>println\<close> still writes the end of the line behind the part, and reports one number for both.
\<close>

theorem tcp_println_after_failure:
  assumes "wcFd c \<noteq> None" "0 < n" "n < length s" "CHR 0x00 \<notin> set s" "2 \<le> k"
  shows "tcp_println [Took n, Broken, Took k] c s = Some (n + 2, take n s @ crlf, [])"
proof -
  obtain x xs where s: "s = x # xs"
    using assms(3) by (cases s) auto
  have "drop n s \<noteq> []"
    using assms(3) by simp
  then obtain y ys where d: "drop n s = y # ys"
    by (cases "drop n s") auto
  have "send_loop [Took n, Broken, Took k] s = Some (take n s, [Took k])"
    using assms(2) d by (simp add: s)
  moreover have "send_loop [Took k] crlf = Some (crlf, [])"
    using assms(5) by (simp add: crlf_def numeral_2_eq_2 Suc_le_eq)
  ultimately show ?thesis
    using assms(1,3,4) by (simp add: tcp_println_def tcp_print_def tcp_write_def c_str_id crlf_def)
qed

theorem tcp_println_after_failure_witness:
  "tcp_println [Took 1, Broken, Took 2] (wifi_client_init\<lparr>wcFd := Some 4\<rparr>) ''abc'' = Some (3, ''a'' @ crlf, [])"
  using tcp_println_after_failure [of "wifi_client_init\<lparr>wcFd := Some 4\<rparr>" 1 "''abc''" 2] by simp

text \<open>
  Reading everything. Up to the first \<open>recv\<close> that returns nothing, \<open>readString\<close> takes all that arrives,
  however it is cut, and returns it up to its first zero byte.
\<close>

theorem tcp_read_string_all:
  assumes "[] \<notin> set inbox" "wcFd c \<noteq> None"
  shows "tcp_readString c (inbox @ [] # r) = Some (c_str (concat inbox), r)"
  using assms by (simp add: tcp_readString_def recv_all_text)

theorem tcp_read_string_all_witness:
  "tcp_readString (wifi_client_init\<lparr>wcFd := Some 4\<rparr>) ([''ab'', ''c'' @ [CHR 0x00], ''d''] @ [] # [''e'']) = Some (''abc'', [''e''])"
  by (subst tcp_read_string_all) (simp_all add: c_str_def)

end
