(* ===== verification/Tiny_Gps.thy ===== *)
theory Tiny_Gps
  imports Http_Text
begin

text \<open>
  The NMEA parser of \<open>src/include/TinyGPSPlus.h\<close>: characters are collected into a sentence between a
  dollar sign and the end of the line, a sentence is split into fields, and the fields of the two
  sentences it knows are stored. Doubles are of any type \<open>'f\<close>; the operations on them are an
  argument. The lemmas give the framing of sentences, the round trip of times and dates and that the
  checksum has no effect.
\<close>

section \<open>State\<close>

record gps_loc = glValid :: bool
  glAge :: u32

record gps_value = gvValid :: bool
  gvValue :: u32
  gvAge :: u32

record 'f gps_real = grValid :: bool
  grValue :: 'f
  grAge :: u32

text \<open>
  \<open>sentence_\<close> is the characters collected so far, at most 127. The zeros the parser writes over the
  star and the commas are not kept: nothing reads the text again before the next dollar sign. The
  32 bits of \<open>hdop\<close> are signed in the code.
\<close>

record 'f gps =
  gpLocation :: gps_loc
  gpLat :: 'f
  gpLng :: 'f
  gpDate :: gps_value
  gpTime :: gps_value
  gpSpeed :: "'f gps_real"
  gpCourse :: "'f gps_real"
  gpAltitude :: "'f gps_real"
  gpSatellites :: gps_value
  gpHdop :: gps_value
  gpChars :: u32
  gpFix :: u32
  gpFailed :: u32
  gpSentence :: string
  gpInSentence :: bool

text \<open>The operations on doubles that the code uses.\<close>

record 'f doubles =
  dAtof :: "string \<Rightarrow> 'f"
  dInt :: "int \<Rightarrow> 'f"
  dTrunc :: "'f \<Rightarrow> int"
  dAdd :: "'f \<Rightarrow> 'f \<Rightarrow> 'f"
  dSub :: "'f \<Rightarrow> 'f \<Rightarrow> 'f"
  dMul :: "'f \<Rightarrow> 'f \<Rightarrow> 'f"
  dDiv :: "'f \<Rightarrow> 'f \<Rightarrow> 'f"
  dNeg :: "'f \<Rightarrow> 'f"

definition gps_init :: "'f doubles \<Rightarrow> 'f gps" where
  "gps_init d =
    (let v = \<lparr>gvValid = False, gvValue = 0, gvAge = 0xFFFFFFFF\<rparr>;
         r = \<lparr>grValid = False, grValue = dInt d 0, grAge = 0xFFFFFFFF\<rparr>
     in \<lparr>gpLocation = \<lparr>glValid = False, glAge = 0xFFFFFFFF\<rparr>, gpLat = dInt d 0, gpLng = dInt d 0,
         gpDate = v, gpTime = v, gpSpeed = r, gpCourse = r, gpAltitude = r, gpSatellites = v, gpHdop = v,
         gpChars = 0, gpFix = 0, gpFailed = 0, gpSentence = [], gpInSentence = False\<rparr>)"

section \<open>Reading values\<close>

text \<open>
  \<open>%2d\<close> of \<open>sscanf\<close>: white space is skipped, a sign counts as one of the two characters, and at least
  one digit is needed.
\<close>

definition scan_2d :: "string \<Rightarrow> (int \<times> string) option" where
  "scan_2d s =
    (let s1 = dropWhile is_space s; (neg, s2) = sign_of s1;
         width = 2 - (length s1 - length s2);
         ds = take width (takeWhile (is_digit_in 10) s2)
     in if ds = [] then None
        else Some (if neg then - digits_value 10 ds else digits_value 10 ds, drop (length ds) s2))"

text \<open>\<open>sscanf\<close> stops at the first item that does not match; what it did not reach stays 0.\<close>

fun scan_2ds :: "nat \<Rightarrow> string \<Rightarrow> int list \<times> string" where
  "scan_2ds 0 s = ([], s)"
| "scan_2ds (Suc n) s =
    (case scan_2d s of
       None \<Rightarrow> (replicate (Suc n) 0, '''')
     | Some (v, r) \<Rightarrow> let (vs, r') = scan_2ds n r in (v # vs, r'))"

definition parseTime :: "string \<Rightarrow> u32" where
  "parseTime raw =
    (if raw = [] then 0
     else let (vs, r) = scan_2ds 3 raw;
              cs = (if r \<noteq> [] \<and> hd r = CHR ''.'' then (case scan_2d (tl r) of Some (v, _) \<Rightarrow> v | None \<Rightarrow> 0) else 0)
          in word_of_int (vs ! 0 * 1000000 + vs ! 1 * 10000 + vs ! 2 * 100 + cs))"

definition parseDate :: "string \<Rightarrow> u32" where
  "parseDate raw =
    (if raw = [] then 0
     else let (vs, r) = scan_2ds 3 raw in word_of_int (vs ! 0 * 10000 + vs ! 1 * 100 + vs ! 2))"

definition parseCoord :: "'f doubles \<Rightarrow> string \<Rightarrow> string \<Rightarrow> 'f" where
  "parseCoord d raw dir =
    (if raw = [] then dInt d 0
     else let val = dAtof d raw;
              deg = dTrunc d (dDiv d val (dInt d 100));
              mins = dSub d val (dInt d (deg * 100));
              result = dAdd d (dInt d deg) (dDiv d mins (dInt d 60))
          in if dir \<noteq> [] \<and> (hd dir = CHR ''S'' \<or> hd dir = CHR ''W'') then dNeg d result else result)"

definition atoi :: "string \<Rightarrow> u32" where
  "atoi s = (case strtol10 s of Some (v, _) \<Rightarrow> word_of_int v | None \<Rightarrow> 0)"

section \<open>Sentences\<close>

text \<open>
  The fields are pointers into the sentence, whose commas are overwritten by zeros up to the
  twentieth field; that one keeps the rest, commas included.
\<close>

fun split_fields :: "nat \<Rightarrow> string \<Rightarrow> string \<Rightarrow> string list" where
  "split_fields n acc [] = [acc]"
| "split_fields n acc (c # s) =
    (if n = 0 then [acc @ c # s]
     else if c = CHR '','' then acc # split_fields (n - 1) [] s
     else split_fields n (acc @ [c]) s)"

definition gps_fields :: "string \<Rightarrow> string list" where
  "gps_fields sentence = split_fields 19 [] (c_str (takeWhile (\<lambda>c. c \<noteq> CHR ''*'') sentence))"

definition set_value :: "u32 \<Rightarrow> gps_value" where
  "set_value v = \<lparr>gvValid = True, gvValue = v, gvAge = 0\<rparr>"

definition set_real :: "'f \<Rightarrow> 'f gps_real" where
  "set_real v = \<lparr>grValid = True, grValue = v, grAge = 0\<rparr>"

definition set_location :: "'f \<Rightarrow> 'f \<Rightarrow> 'f gps \<Rightarrow> 'f gps" where
  "set_location lat lng g = g\<lparr>gpLocation := \<lparr>glValid = True, glAge = 0\<rparr>, gpLat := lat, gpLng := lng\<rparr>"

definition parseGGA :: "'f doubles \<Rightarrow> string list \<Rightarrow> 'f gps \<Rightarrow> 'f gps" where
  "parseGGA d f g =
    (let g = (if f ! 1 \<noteq> [] then g\<lparr>gpTime := set_value (parseTime (f ! 1))\<rparr> else g);
         g = (if f ! 2 \<noteq> [] then set_location (parseCoord d (f ! 2) (f ! 3)) (parseCoord d (f ! 4) (f ! 5)) g else g);
         g = (if f ! 7 \<noteq> [] then g\<lparr>gpSatellites := set_value (atoi (f ! 7))\<rparr> else g);
         g = (if f ! 8 \<noteq> [] then g\<lparr>gpHdop := set_value (word_of_int (dTrunc d (dMul d (dAtof d (f ! 8)) (dInt d 100))))\<rparr> else g);
         g = (if f ! 9 \<noteq> [] then g\<lparr>gpAltitude := set_real (dAtof d (f ! 9))\<rparr> else g)
     in g\<lparr>gpFix := gpFix g + 1\<rparr>)"

definition parseRMC :: "'f doubles \<Rightarrow> string list \<Rightarrow> 'f gps \<Rightarrow> 'f gps" where
  "parseRMC d f g =
    (let g = (if f ! 1 \<noteq> [] then g\<lparr>gpTime := set_value (parseTime (f ! 1))\<rparr> else g);
         g = (if f ! 3 \<noteq> [] then set_location (parseCoord d (f ! 3) (f ! 4)) (parseCoord d (f ! 5) (f ! 6)) g else g);
         g = (if f ! 7 \<noteq> [] then g\<lparr>gpSpeed := set_real (dAtof d (f ! 7))\<rparr> else g);
         g = (if f ! 8 \<noteq> [] then g\<lparr>gpCourse := set_real (dAtof d (f ! 8))\<rparr> else g);
         g = (if f ! 9 \<noteq> [] then g\<lparr>gpDate := set_value (parseDate (f ! 9))\<rparr> else g)
     in g\<lparr>gpFix := gpFix g + 1\<rparr>)"

definition parseSentence :: "'f doubles \<Rightarrow> 'f gps \<Rightarrow> bool \<times> 'f gps" where
  "parseSentence d g =
    (let f = gps_fields (gpSentence g)
     in if find_sub ''GGA'' (f ! 0) \<noteq> None \<and> 15 \<le> length f then (True, parseGGA d f g)
        else if find_sub ''RMC'' (f ! 0) \<noteq> None \<and> 12 \<le> length f then (True, parseRMC d f g)
        else (False, g))"

definition gps_encode :: "'f doubles \<Rightarrow> char \<Rightarrow> 'f gps \<Rightarrow> bool \<times> 'f gps" where
  "gps_encode d c g0 =
    (let g = g0\<lparr>gpChars := gpChars g0 + 1\<rparr>
     in if c = CHR ''$'' then (False, g\<lparr>gpSentence := [], gpInSentence := True\<rparr>)
        else if \<not> gpInSentence g then (False, g)
        else if c = CHR 0x0D \<or> c = CHR 0x0A then
          (if gpSentence g \<noteq> [] then parseSentence d (g\<lparr>gpInSentence := False\<rparr>) else (False, g))
        else if length (gpSentence g) < 127 then (False, g\<lparr>gpSentence := gpSentence g @ [c]\<rparr>)
        else (False, g))"

text \<open>The getters that take a time or a date apart; a \<open>uint8_t\<close> result is cut to 8 bits.\<close>

definition gps_hour :: "gps_value \<Rightarrow> byte" where "gps_hour t = ucast (gvValue t div 1000000)"
definition gps_minute :: "gps_value \<Rightarrow> byte" where "gps_minute t = ucast (gvValue t div 10000 mod 100)"
definition gps_second :: "gps_value \<Rightarrow> byte" where "gps_second t = ucast (gvValue t div 100 mod 100)"
definition gps_centisecond :: "gps_value \<Rightarrow> byte" where "gps_centisecond t = ucast (gvValue t mod 100)"
definition gps_day :: "gps_value \<Rightarrow> byte" where "gps_day t = ucast (gvValue t div 10000)"
definition gps_month :: "gps_value \<Rightarrow> byte" where "gps_month t = ucast (gvValue t div 100 mod 100)"
definition gps_year :: "gps_value \<Rightarrow> u16" where "gps_year t = ucast (2000 + gvValue t mod 100)"

definition gps_setLocation :: "'f \<Rightarrow> 'f \<Rightarrow> u32 \<Rightarrow> 'f gps \<Rightarrow> 'f gps" where
  "gps_setLocation lat lng age g =
    g\<lparr>gpLocation := \<lparr>glValid = True, glAge = age\<rparr>, gpLat := lat, gpLng := lng\<rparr>"

definition gps_setDateTime :: "u32 \<Rightarrow> u32 \<Rightarrow> u32 \<Rightarrow> 'f gps \<Rightarrow> 'f gps" where
  "gps_setDateTime dv tv age g =
    g\<lparr>gpDate := \<lparr>gvValid = True, gvValue = dv, gvAge = age\<rparr>,
      gpTime := \<lparr>gvValid = True, gvValue = tv, gvAge = age\<rparr>\<rparr>"

definition gps_setSpeed :: "'f \<Rightarrow> u32 \<Rightarrow> 'f gps \<Rightarrow> 'f gps" where
  "gps_setSpeed knots age g = g\<lparr>gpSpeed := \<lparr>grValid = True, grValue = knots, grAge = age\<rparr>\<rparr>"

definition gps_setAltitude :: "'f \<Rightarrow> u32 \<Rightarrow> 'f gps \<Rightarrow> 'f gps" where
  "gps_setAltitude meters age g = g\<lparr>gpAltitude := \<lparr>grValid = True, grValue = meters, grAge = age\<rparr>\<rparr>"

definition gps_setSatellites :: "u32 \<Rightarrow> u32 \<Rightarrow> 'f gps \<Rightarrow> 'f gps" where
  "gps_setSatellites n age g = g\<lparr>gpSatellites := \<lparr>gvValid = True, gvValue = n, gvAge = age\<rparr>\<rparr>"

section \<open>Framing\<close>

text \<open>A stream of characters: whether each call reported a sentence, and the state after them.\<close>

fun gps_feed :: "'f doubles \<Rightarrow> string \<Rightarrow> 'f gps \<Rightarrow> bool list \<times> 'f gps" where
  "gps_feed d [] g = ([], g)"
| "gps_feed d (c # cs) g =
    (let (b, g1) = gps_encode d c g; (bs, g2) = gps_feed d cs g1 in (b # bs, g2))"

lemma gps_feed_append:
  "gps_feed d (xs @ ys) g =
    (let (bs, g1) = gps_feed d xs g; (cs, g2) = gps_feed d ys g1 in (bs @ cs, g2))"
  by (induction xs arbitrary: g) (simp_all add: split_beta Let_def)

definition no_eol :: "string \<Rightarrow> bool" where
  "no_eol s \<longleftrightarrow> CHR 0x0D \<notin> set s \<and> CHR 0x0A \<notin> set s"

text \<open>Without an end of line nothing is parsed, whatever was or was not begun.\<close>

lemma gps_encode_no_eol:
  assumes "c \<noteq> CHR 0x0D" "c \<noteq> CHR 0x0A"
  shows "gps_encode d c g = (False, g\<lparr>gpChars := gpChars g + 1,
    gpSentence := (if c = CHR ''$'' then [] else if gpInSentence g \<and> length (gpSentence g) < 127
      then gpSentence g @ [c] else gpSentence g),
    gpInSentence := (c = CHR ''$'' \<or> gpInSentence g)\<rparr>)"
  using assms by (simp add: gps_encode_def Let_def)

lemma gps_feed_noise:
  assumes "no_eol s"
  shows "\<exists>x i. gps_feed d s g =
    (replicate (length s) False, g\<lparr>gpChars := gpChars g + of_nat (length s), gpSentence := x, gpInSentence := i\<rparr>)"
  using assms
proof (induction s arbitrary: g)
  case Nil
  then show ?case
    by (intro exI [of _ "gpSentence g"] exI [of _ "gpInSentence g"]) simp
next
  case (Cons c s)
  obtain y j where "gps_encode d c g = (False, g\<lparr>gpChars := gpChars g + 1, gpSentence := y, gpInSentence := j\<rparr>)"
    using Cons.prems gps_encode_no_eol [of c d g] by (auto simp: no_eol_def)
  moreover have "no_eol s"
    using Cons.prems by (simp add: no_eol_def)
  moreover obtain x i where "gps_feed d s (g\<lparr>gpChars := gpChars g + 1, gpSentence := y, gpInSentence := j\<rparr>) =
      (replicate (length s) False, g\<lparr>gpChars := gpChars g + 1 + of_nat (length s), gpSentence := x, gpInSentence := i\<rparr>)"
    using Cons.IH [OF calculation(2), of "g\<lparr>gpChars := gpChars g + 1, gpSentence := y, gpInSentence := j\<rparr>"] by auto
  ultimately show ?case
    by (intro exI [of _ x] exI [of _ i]) (simp add: ac_simps)
qed

lemma gps_feed_body:
  assumes "no_eol s" "CHR ''$'' \<notin> set s" "gpInSentence g" "length (gpSentence g) \<le> 127"
  shows "gps_feed d s g = (replicate (length s) False,
    g\<lparr>gpChars := gpChars g + of_nat (length s), gpSentence := take 127 (gpSentence g @ s)\<rparr>)"
  using assms
proof (induction s arbitrary: g)
  case (Cons c s)
  let ?g = "g\<lparr>gpChars := gpChars g + 1, gpSentence := take 127 (gpSentence g @ [c])\<rparr>"
  have "gps_encode d c g = (False, ?g)"
    using Cons.prems by (auto simp: gps_encode_no_eol no_eol_def)
  moreover have "gps_feed d s ?g = (replicate (length s) False,
      ?g\<lparr>gpChars := gpChars ?g + of_nat (length s), gpSentence := take 127 (gpSentence ?g @ s)\<rparr>)"
    using Cons.prems by (intro Cons.IH) (simp_all add: no_eol_def)
  moreover have "take 127 (take 127 (gpSentence g @ [c]) @ s) = take 127 (gpSentence g @ c # s)"
    using Cons.prems(4) by (cases "length (gpSentence g) = 127") simp_all
  ultimately show ?case
    by (simp add: ac_simps)
qed simp

text \<open>What a line that is fed to the parser amounts to.\<close>

definition gps_line :: "nat \<Rightarrow> string \<Rightarrow> 'f gps \<Rightarrow> 'f gps" where
  "gps_line n s g = g\<lparr>gpChars := gpChars g + of_nat n, gpSentence := take 127 s, gpInSentence := False\<rparr>"

lemma gps_feed_sentence:
  assumes "no_eol noise" "no_eol s" "CHR ''$'' \<notin> set s" "s \<noteq> []" "e = CHR 0x0D \<or> e = CHR 0x0A"
    and r: "parseSentence d (gps_line (length noise + length s + 2) s g) = (b, g')"
  shows "gps_feed d (noise @ CHR ''$'' # s @ [e]) g = (replicate (length noise + length s + 1) False @ [b], g')"
proof -
  obtain x i where noise: "gps_feed d noise g = (replicate (length noise) False,
      g\<lparr>gpChars := gpChars g + of_nat (length noise), gpSentence := x, gpInSentence := i\<rparr>)"
    using gps_feed_noise [OF assms(1)] by blast
  define g1 where "g1 = g\<lparr>gpChars := gpChars g + of_nat (length noise), gpSentence := x, gpInSentence := i\<rparr>"
  define g2 where "g2 = g1\<lparr>gpChars := gpChars g1 + 1, gpSentence := [], gpInSentence := True\<rparr>"
  define g3 where "g3 = g2\<lparr>gpChars := gpChars g2 + of_nat (length s), gpSentence := take 127 s\<rparr>"
  have start: "gps_encode d CHR ''$'' g1 = (False, g2)"
    by (simp add: gps_encode_no_eol g2_def)
  have body: "gps_feed d s g2 = (replicate (length s) False, g3)"
    using gps_feed_body [OF assms(2,3), of g2 d] by (simp add: g2_def g3_def)
  have "gps_encode d e g3 = parseSentence d (g3\<lparr>gpChars := gpChars g3 + 1, gpInSentence := False\<rparr>)"
    using assms(4,5) by (auto simp: gps_encode_def Let_def g3_def g2_def)
  also have "g3\<lparr>gpChars := gpChars g3 + 1, gpInSentence := False\<rparr> = gps_line (length noise + length s + 2) s g"
    by (simp add: g3_def g2_def g1_def gps_line_def)
  finally have "gps_encode d e g3 = (b, g')"
    unfolding r .
  then show ?thesis
    using noise by (simp add: gps_feed_append start body g1_def [symmetric] replicate_add replicate_append_same)
qed

section \<open>Fields\<close>

text \<open>A sentence of given fields: the fields with commas between them.\<close>

fun join_fields :: "string list \<Rightarrow> string" where
  "join_fields [] = []"
| "join_fields [f] = f"
| "join_fields (f # fs) = f @ CHR '','' # join_fields fs"

definition clean_field :: "string \<Rightarrow> bool" where
  "clean_field f \<longleftrightarrow> (\<forall>c\<in>set f. c \<noteq> CHR '','' \<and> c \<noteq> CHR ''*'' \<and> c \<noteq> CHR 0x00 \<and> c \<noteq> CHR ''$'' \<and>
     c \<noteq> CHR 0x0D \<and> c \<noteq> CHR 0x0A)"

lemma split_fields_field:
  "clean_field f \<Longrightarrow> split_fields (Suc n) acc (f @ CHR '','' # s) = (acc @ f) # split_fields n [] s"
  "clean_field f \<Longrightarrow> split_fields n acc f = [acc @ f]"
  by (induction f arbitrary: acc) (auto simp: clean_field_def)

lemma split_join:
  "fs \<noteq> [] \<Longrightarrow> \<forall>f\<in>set fs. clean_field f \<Longrightarrow> length fs \<le> Suc n \<Longrightarrow> split_fields n [] (join_fields fs) = fs"
proof (induction fs arbitrary: n rule: join_fields.induct)
  case (3 f g fs)
  then obtain m where "n = Suc m" by (cases n) auto
  with 3 show ?case by (simp add: split_fields_field)
qed (simp_all add: split_fields_field)

lemma join_fields_clean:
  "\<forall>f\<in>set fs. clean_field f \<Longrightarrow> c \<in> set (join_fields fs) \<Longrightarrow>
   c \<noteq> CHR ''*'' \<and> c \<noteq> CHR 0x00 \<and> c \<noteq> CHR ''$'' \<and> c \<noteq> CHR 0x0D \<and> c \<noteq> CHR 0x0A"
  by (induction fs rule: join_fields.induct) (auto simp: clean_field_def)

lemma gps_fields_join:
  assumes "fs \<noteq> []" "\<forall>f\<in>set fs. clean_field f" "length fs \<le> 20"
  shows "gps_fields (join_fields fs @ CHR ''*'' # csum) = fs"
proof -
  have "takeWhile (\<lambda>c. c \<noteq> CHR ''*'') (join_fields fs @ CHR ''*'' # csum) = join_fields fs"
    using join_fields_clean [OF assms(2)] by (subst takeWhile_append2) auto
  moreover have "c_str (join_fields fs) = join_fields fs"
    using join_fields_clean [OF assms(2)] by (intro c_str_id) blast
  ultimately show ?thesis
    using split_join [OF assms(1,2), of 19] assms(3) by (simp add: gps_fields_def)
qed

section \<open>Times and dates\<close>

lemma scan_two:
  assumes "n < 100"
  shows "scan_2d (two n @ s) = Some (int n, s)"
proof -
  have k: "n div 10 < 10" "n mod 10 < 10"
    using assms by auto
  show ?thesis
    using digits_value_two [OF assms] digit_char_10 [OF k(1)] digit_char_10 [OF k(2)]
    by (simp add: scan_2d_def two_def Let_def numeral_2_eq_2)
qed

lemma parseTime_two:
  assumes "h < 100" "m < 100" "s < 100" "c < 100"
  shows "parseTime (two h @ two m @ two s @ CHR ''.'' # two c) =
    word_of_int (int h * 1000000 + int m * 10000 + int s * 100 + int c)"
  using scan_two [OF assms(4), of "[]"]
  by (simp add: parseTime_def numeral_3_eq_3 scan_two assms)

lemma parseDate_two:
  assumes "d < 100" "m < 100" "y < 100"
  shows "parseDate (two d @ two m @ two y) = word_of_int (int d * 10000 + int m * 100 + int y)"
  using scan_two [OF assms(3), of "[]"]
  by (simp add: parseDate_def numeral_3_eq_3 scan_two assms) (simp add: two_def)

lemma gps_time_getters:
  assumes "h < 100" "m < 100" "s < 100" "c < 100"
    and "gvValue t = word_of_int (int h * 1000000 + int m * 10000 + int s * 100 + int c)"
  shows "unat (gps_hour t) = h \<and> unat (gps_minute t) = m \<and> unat (gps_second t) = s \<and> unat (gps_centisecond t) = c"
proof -
  let ?v = "h * 1000000 + m * 10000 + s * 100 + c"
  have "gvValue t = word_of_nat ?v"
    using assms(5) by simp
  then have v: "unat (gvValue t) = ?v"
    using assms(1-4) by (simp add: unat_of_nat del: of_nat_add of_nat_mult)
  have b: "(x + 100 * k) div 100 = k" "(x + 100 * k) mod 100 = x" if "x < 100" for x k :: nat
    using that by simp_all
  have e: "?v = c + 100 * (s + 100 * (m + 100 * h))"
    by simp
  have d: "?v div 100 = s + 100 * (m + 100 * h)" "?v mod 100 = c"
    unfolding e by (simp_all only: b [OF assms(4)])
  have "?v div 10000 = ?v div 100 div 100" "?v div 1000000 = ?v div 100 div 100 div 100"
    by (simp_all only: div_mult2_eq [symmetric]) simp_all
  then have "?v div 1000000 = h" "?v div 10000 mod 100 = m" "?v div 100 mod 100 = s" "?v mod 100 = c"
    unfolding d by (simp_all only: b [OF assms(3)] b [OF assms(2)])
  then show ?thesis
    using v assms(1-4)
    by (simp add: gps_hour_def gps_minute_def gps_second_def gps_centisecond_def unsigned_ucast_eq
        unat_div unat_mod_distrib take_bit_eq_mod)
qed

lemma gps_date_getters:
  assumes "d < 100" "m < 100" "y < 100"
    and "gvValue t = word_of_int (int d * 10000 + int m * 100 + int y)"
  shows "unat (gps_day t) = d \<and> unat (gps_month t) = m \<and> unat (gps_year t) = 2000 + y"
proof -
  let ?v = "d * 10000 + m * 100 + y"
  have "gvValue t = word_of_nat ?v"
    using assms(4) by simp
  then have v: "unat (gvValue t) = ?v"
    using assms(1-3) by (simp add: unat_of_nat del: of_nat_add of_nat_mult)
  have b: "(x + 100 * k) div 100 = k" "(x + 100 * k) mod 100 = x" if "x < 100" for x k :: nat
    using that by simp_all
  have e: "?v = y + 100 * (m + 100 * d)"
    by simp
  have dd: "?v div 100 = m + 100 * d" "?v mod 100 = y"
    unfolding e by (simp_all only: b [OF assms(3)])
  have "?v div 10000 = ?v div 100 div 100"
    by (simp only: div_mult2_eq [symmetric]) simp
  then have q: "?v div 10000 = d" "?v div 100 mod 100 = m" "?v mod 100 = y"
    unfolding dd by (simp_all only: b [OF assms(2)])
  have "unat (gvValue t mod 100) = y"
    using v q(3) by (simp add: unat_mod_distrib)
  moreover from this have "unat (2000 + gvValue t mod 100) = 2000 + y"
    using assms(3) by (simp add: unat_add_lem [THEN iffD1])
  ultimately show ?thesis
    using v q assms(1-3)
    by (simp add: gps_day_def gps_month_def gps_year_def unsigned_ucast_eq unat_div unat_mod_distrib take_bit_eq_mod)
qed

text \<open>A character of a time or date is not one that ends or splits a sentence.\<close>

lemma digit_char_clean: "k < 10 \<Longrightarrow> clean_field [digit_char k]"
proof -
  assume k: "k < 10"
  have "ord (digit_char k) = 48 + k"
    using k by (simp add: ord_def digit_char_def)
  moreover have "ord CHR '','' = 44" "ord CHR ''*'' = 42" "ord CHR 0x00 = 0" "ord CHR ''$'' = 36"
    "ord CHR 0x0D = 13" "ord CHR 0x0A = 10"
    by (simp_all add: ord_def)
  ultimately show ?thesis
    using k by (auto simp: clean_field_def)
qed

lemma clean_two: "n < 100 \<Longrightarrow> clean_field (two n)"
  using digit_char_clean [of "n div 10"] digit_char_clean [of "n mod 10"] by (simp add: clean_field_def two_def)

lemma clean_append: "clean_field (f @ g) \<longleftrightarrow> clean_field f \<and> clean_field g"
  by (auto simp: clean_field_def)

section \<open>Properties\<close>

text \<open>
  Sentences are framed by their own characters. Whatever state the parser is in and whatever was
  fed before, sentences broken off included, as long as no line ended: a dollar sign, a text and the
  end of a line make it parse the first 127 characters of the text, report the result at the last
  character and none before.
\<close>

theorem gps_sentence_framed:
  assumes "no_eol noise" "no_eol s" "CHR ''$'' \<notin> set s" "s \<noteq> []" "e = CHR 0x0D \<or> e = CHR 0x0A"
  shows "gps_feed d (noise @ CHR ''$'' # s @ [e]) g =
    (let (b, g') = parseSentence d (g\<lparr>gpChars := gpChars g + of_nat (length noise + length s + 2),
                                   gpSentence := take 127 s, gpInSentence := False\<rparr>)
     in (replicate (length noise + length s + 1) False @ [b], g'))"
proof -
  obtain b g' where r: "parseSentence d (gps_line (length noise + length s + 2) s g) = (b, g')"
    by fastforce
  show ?thesis
    using gps_feed_sentence [OF assms r] r by (simp add: gps_line_def)
qed

text \<open>Integers stand for doubles in the witnesses.\<close>

definition int_doubles :: "int doubles" where
  "int_doubles = \<lparr>dAtof = \<lambda>_. 0, dInt = id, dTrunc = id, dAdd = (+), dSub = (-), dMul = (*), dDiv = (div), dNeg = uminus\<rparr>"

lemma gps_short_sentence: "gpSentence g = ''GPXXX,1'' \<Longrightarrow> fst (parseSentence d g) = False"
  by (simp add: parseSentence_def gps_fields_def c_str_def)

theorem gps_sentence_framed_witness:
  "fst (gps_feed int_doubles (''$GPG'' @ CHR ''$'' # ''GPXXX,1'' @ [CHR 0x0A]) (gps_init int_doubles)) = replicate 13 False"
proof -
  have "no_eol ''$GPG''" "no_eol ''GPXXX,1''" "CHR ''$'' \<notin> set ''GPXXX,1''"
    by (simp_all add: no_eol_def)
  then show ?thesis
    by (subst gps_sentence_framed) (simp_all add: split_beta gps_short_sentence numeral_eq_Suc)
qed

text \<open>
  The time and the date of a sentence are what was sent. After an RMC sentence whose second field
  is a time and whose tenth is a date, hour, minute, second, hundredth, day, month and year are those
  numbers, whatever the other fields, the checksum and the bytes before the sentence are.
\<close>

theorem gps_rmc_time_date:
  assumes "h < 100" "m < 100" "s < 100" "c < 100" "dd < 100" "mm < 100" "yy < 100"
    and "length rest \<in> {2..10}" "\<forall>f\<in>set ([lat, ns, lng, ew, v, knots, deg] @ rest). clean_field f"
    and "no_eol noise" "no_eol csum" "CHR ''$'' \<notin> set csum"
    and sentence: "line = join_fields ([''GPRMC'', two h @ two m @ two s @ CHR ''.'' # two c, v, lat, ns, lng, ew,
      knots, deg, two dd @ two mm @ two yy] @ rest) @ CHR ''*'' # csum" "length line \<le> 127"
    and feed: "gps_feed d (noise @ CHR ''$'' # line @ [CHR 0x0D]) g = (rs, g')"
  shows "last rs \<and> unat (gps_hour (gpTime g')) = h \<and> unat (gps_minute (gpTime g')) = m \<and>
    unat (gps_second (gpTime g')) = s \<and> unat (gps_centisecond (gpTime g')) = c \<and>
    unat (gps_day (gpDate g')) = dd \<and> unat (gps_month (gpDate g')) = mm \<and> unat (gps_year (gpDate g')) = 2000 + yy"
proof -
  let ?t = "two h @ two m @ two s @ CHR ''.'' # two c" and ?d = "two dd @ two mm @ two yy"
  let ?fs = "[''GPRMC'', ?t, v, lat, ns, lng, ew, knots, deg, ?d] @ rest"
  let ?g = "gps_line (length noise + length line + 2) line g"
  have "clean_field ''GPRMC''" "clean_field ?t" "clean_field ?d"
    using clean_two [OF assms(1)] clean_two [OF assms(2)] clean_two [OF assms(3)] clean_two [OF assms(4)]
      clean_two [OF assms(5)] clean_two [OF assms(6)] clean_two [OF assms(7)]
    by (simp_all add: clean_field_def ball_Un)
  then have clean: "\<forall>f\<in>set ?fs. clean_field f"
    using assms(9) by simp
  have fields: "gps_fields (take 127 line) = ?fs"
    using gps_fields_join [OF _ clean] assms(8,14) by (simp add: sentence(1))
  have line: "no_eol line" "CHR ''$'' \<notin> set line" "line \<noteq> []"
    using join_fields_clean [OF clean] join_fields_clean [OF clean, of "CHR ''$''"]
      join_fields_clean [OF clean, of "CHR 0x0D"] join_fields_clean [OF clean, of "CHR 0x0A"] assms(11,12)
    unfolding sentence(1) no_eol_def set_append list.set Un_iff insert_iff by blast+
  have rmc: "parseSentence d ?g = (True, parseRMC d ?fs ?g)"
    using assms(8) by (simp add: parseSentence_def gps_line_def fields Let_def)
  have "(rs, g') = (replicate (length noise + length line + 1) False @ [True], parseRMC d ?fs ?g)"
    using gps_feed_sentence [OF assms(10) line _ rmc, of "CHR 0x0D"] feed by simp
  then have g': "g' = parseRMC d ?fs ?g" "last rs"
    by auto
  have nonempty: "?t \<noteq> []" "?d \<noteq> []"
    by (simp_all add: two_def)
  have "gpTime g' = set_value (parseTime ?t)" "gpDate g' = set_value (parseDate ?d)"
    using nonempty unfolding g' parseRMC_def Let_def by (simp_all add: set_location_def)
  then show ?thesis
    using g'(2) gps_time_getters [OF assms(1-4), of "gpTime g'"] gps_date_getters [OF assms(5-7), of "gpDate g'"]
      parseTime_two [OF assms(1-4)] parseDate_two [OF assms(5-7)]
    by (simp add: set_value_def)
qed

theorem gps_rmc_time_date_witness:
  "(let g = snd (gps_feed int_doubles (''noise'' @ CHR ''$'' # (join_fields [''GPRMC'', ''092751.25'', ''A'', ''5321.6802'', ''N'',
       ''00630.3372'', ''W'', ''0.06'', ''31.66'', ''280511'', '''', '''', ''A''] @ CHR ''*'' # ''43'') @ [CHR 0x0D]) (gps_init int_doubles))
    in unat (gps_hour (gpTime g)) = 9 \<and> unat (gps_second (gpTime g)) = 51 \<and> unat (gps_month (gpDate g)) = 5 \<and>
       unat (gps_year (gpDate g)) = 2011)"
proof -
  let ?rest = "['''', '''', ''A'']"
  let ?line = "join_fields ([''GPRMC'', two 9 @ two 27 @ two 51 @ CHR ''.'' # two 25, ''A'', ''5321.6802'', ''N'', ''00630.3372'', ''W'',
    ''0.06'', ''31.66'', two 28 @ two 5 @ two 11] @ ?rest) @ CHR ''*'' # ''43''"
  let ?gf = "gps_feed int_doubles (''noise'' @ CHR ''$'' # ?line @ [CHR 0x0D]) (gps_init int_doubles)"
  have clean: "\<forall>f\<in>set ([''5321.6802'', ''N'', ''00630.3372'', ''W'', ''A'', ''0.06'', ''31.66''] @ ?rest). clean_field f"
    by (simp add: clean_field_def)
  have fmt: "two 9 = ''09''" "two 27 = ''27''" "two 51 = ''51''" "two 25 = ''25''" "two 28 = ''28''" "two 5 = ''05''" "two 11 = ''11''"
    by (simp_all add: two_def digit_char_def char_of_def bit_iff_odd)
  have clear: "no_eol ''noise''" "no_eol ''43''" "CHR ''$'' \<notin> set ''43''"
    by (simp_all add: no_eol_def)
  have line: "length ?line \<le> 127"
    by (simp add: fmt)
  have "last (fst ?gf) \<and> unat (gps_hour (gpTime (snd ?gf))) = 9 \<and> unat (gps_minute (gpTime (snd ?gf))) = 27 \<and>
    unat (gps_second (gpTime (snd ?gf))) = 51 \<and> unat (gps_centisecond (gpTime (snd ?gf))) = 25 \<and>
    unat (gps_day (gpDate (snd ?gf))) = 28 \<and> unat (gps_month (gpDate (snd ?gf))) = 5 \<and> unat (gps_year (gpDate (snd ?gf))) = 2000 + 11"
    by (rule gps_rmc_time_date [OF _ _ _ _ _ _ _ _ clean clear refl line]) simp_all
  then show ?thesis
    unfolding Let_def fmt append.simps by simp
qed

text \<open>Nothing that is parsed reads or writes the kept sentence or the count of failures.\<close>

lemma gps_parsers_keep:
  "gpFailed (parseGGA d f g) = gpFailed g" "gpFailed (parseRMC d f g) = gpFailed g"
  "parseGGA d f (g\<lparr>gpSentence := x\<rparr>) = (parseGGA d f g)\<lparr>gpSentence := x\<rparr>"
  "parseRMC d f (g\<lparr>gpSentence := x\<rparr>) = (parseRMC d f g)\<lparr>gpSentence := x\<rparr>"
  unfolding parseGGA_def parseRMC_def set_location_def Let_def by simp_all

lemma parseSentence_keeps:
  "gpFailed (snd (parseSentence d g)) = gpFailed g"
  by (simp add: parseSentence_def Let_def gps_parsers_keep)

lemma parseSentence_fields:
  "gps_fields x = gps_fields (gpSentence g) \<Longrightarrow>
   parseSentence d (g\<lparr>gpSentence := x\<rparr>) = (let (b, r) = parseSentence d g in (b, r\<lparr>gpSentence := x\<rparr>))"
  by (simp add: parseSentence_def Let_def gps_parsers_keep)

text \<open>
  The checksum has no effect. Two sentences that differ only in what follows the star are parsed
  alike: the same calls report the same, and apart from the sentence that is kept the states after
  them are the same. The number of failed checksums stays what it was.
\<close>

theorem gps_checksum_ignored:
  assumes "no_eol noise" "no_eol (s @ c1 @ c2)" "CHR ''$'' \<notin> set (s @ c1 @ c2)" "CHR ''*'' \<notin> set s" "length c2 = length c1"
    and "gps_feed d (noise @ CHR ''$'' # (s @ CHR ''*'' # c1) @ [CHR 0x0D]) g = (rs, g1)"
  shows "\<exists>g2. gps_feed d (noise @ CHR ''$'' # (s @ CHR ''*'' # c2) @ [CHR 0x0D]) g = (rs, g2) \<and>
    g2 = g1\<lparr>gpSentence := gpSentence g2\<rparr> \<and> gpFailed g1 = gpFailed g"
proof -
  let ?n = "length noise + length (s @ CHR ''*'' # c1) + 2"
  let ?l1 = "gps_line ?n (s @ CHR ''*'' # c1) g" and ?l2 = "gps_line ?n (s @ CHR ''*'' # c2) g"
  have cut: "takeWhile (\<lambda>c. c \<noteq> CHR ''*'') (take n (s @ CHR ''*'' # c)) = take n s" for n c
  proof (cases "n \<le> length s")
    case True
    moreover have "takeWhile (\<lambda>c. c \<noteq> CHR ''*'') (take n s) = take n s"
      using assms(4) in_set_takeD by (fastforce simp: takeWhile_eq_all_conv)
    ultimately show ?thesis by simp
  next
    case False
    then obtain m where "n = length s + Suc m"
      by (metis add_Suc_right less_iff_Suc_add not_le)
    then have "takeWhile (\<lambda>c. c \<noteq> CHR ''*'') (take n (s @ CHR ''*'' # c)) = takeWhile (\<lambda>c. c \<noteq> CHR ''*'') (s @ CHR ''*'' # take m c)"
      by simp
    also have "\<dots> = s"
      using assms(4) by (subst takeWhile_append2) auto
    finally show ?thesis
      using False by simp
  qed
  obtain b r where p1: "parseSentence d ?l1 = (b, r)"
    by fastforce
  have "?l2 = ?l1\<lparr>gpSentence := gpSentence ?l2\<rparr>"
    by (simp add: gps_line_def)
  moreover have "gps_fields (gpSentence ?l2) = gps_fields (gpSentence ?l1)"
    using cut [of 127] by (simp add: gps_fields_def gps_line_def del: take_append takeWhile_append)
  ultimately have p2: "parseSentence d ?l2 = (b, r\<lparr>gpSentence := gpSentence ?l2\<rparr>)"
    using parseSentence_fields [of "gpSentence ?l2" ?l1 d] p1 by simp
  have r: "gpFailed r = gpFailed g"
    using parseSentence_keeps [of d ?l1] p1 by (simp add: gps_line_def)
  have ok: "no_eol (s @ CHR ''*'' # c1)" "no_eol (s @ CHR ''*'' # c2)"
    "CHR ''$'' \<notin> set (s @ CHR ''*'' # c1)" "CHR ''$'' \<notin> set (s @ CHR ''*'' # c2)"
    using assms(2,3) by (simp_all add: no_eol_def)
  have "gps_feed d (noise @ CHR ''$'' # (s @ CHR ''*'' # c1) @ [CHR 0x0D]) g = (replicate (?n - 1) False @ [b], r)"
    using gps_feed_sentence [OF assms(1) ok(1,3) _ _ p1] by simp
  moreover have "gps_feed d (noise @ CHR ''$'' # (s @ CHR ''*'' # c2) @ [CHR 0x0D]) g =
      (replicate (?n - 1) False @ [b], r\<lparr>gpSentence := gpSentence ?l2\<rparr>)"
    using gps_feed_sentence [OF assms(1) ok(2,4), where g = g and d = d and e = "CHR 0x0D"] p2 assms(5) by simp
  ultimately show ?thesis
    using assms(6) r by simp
qed

theorem gps_checksum_ignored_witness:
  "\<exists>rs g1 g2. gps_feed int_doubles (''x'' @ CHR ''$'' # (''GPGGA,1'' @ CHR ''*'' # ''43'') @ [CHR 0x0D]) (gps_init int_doubles) = (rs, g1) \<and>
     gps_feed int_doubles (''x'' @ CHR ''$'' # (''GPGGA,1'' @ CHR ''*'' # ''zz'') @ [CHR 0x0D]) (gps_init int_doubles) = (rs, g2) \<and>
     gpFailed g1 = 0"
proof -
  obtain rs g1 where run: "gps_feed int_doubles (''x'' @ CHR ''$'' # (''GPGGA,1'' @ CHR ''*'' # ''43'') @ [CHR 0x0D]) (gps_init int_doubles) = (rs, g1)"
    by (metis surj_pair)
  have clear: "no_eol ''x''" "no_eol (''GPGGA,1'' @ ''43'' @ ''zz'')" "CHR ''$'' \<notin> set (''GPGGA,1'' @ ''43'' @ ''zz'')"
    "CHR ''*'' \<notin> set ''GPGGA,1''" "length ''zz'' = length ''43''"
    by (simp_all add: no_eol_def)
  have "gpFailed (gps_init int_doubles) = 0"
    by (simp add: gps_init_def Let_def)
  then show ?thesis
    using gps_checksum_ignored [OF clear run] run by metis
qed

end
