(* ===== verification/Twai.thy ===== *)
theory Twai
  imports Interfaces
begin

text \<open>
  The CAN controller of \<open>src/include/driver/twai.h\<close>: the install/start/stop/uninstall protocol, the
  log of transmitted messages and the queue of received ones. The lemmas give the order and the
  completeness of reception and the states in which the calls succeed.
\<close>

section \<open>State\<close>

abbreviation (input) "TWAI_ERR_INVALID_STATE \<equiv> (- 2 :: esp_err)"
abbreviation (input) "TWAI_ERR_TIMEOUT \<equiv> (- 3 :: esp_err)"

datatype twai_mode = TWAI_MODE_NORMAL | TWAI_MODE_NO_ACK | TWAI_MODE_LISTEN_ONLY

record twai_message =
  msgId :: u32
  dlc :: byte
  msgData :: "byte list"
  extd :: bool

record twai_config =
  gcMode :: twai_mode
  gcTxIo :: int
  gcRxIo :: int

record twai =
  twInstalled :: bool
  twStarted :: bool
  twMode :: twai_mode
  txPin :: int
  rxPin :: int
  txLog :: "twai_message list"
  rxQueue :: "twai_message list"
  txCount :: u32
  rxCount :: u32

definition twai_init :: twai where
  "twai_init = \<lparr>twInstalled = False, twStarted = False, twMode = TWAI_MODE_NORMAL, txPin = - 1,
     rxPin = - 1, txLog = [], rxQueue = [], txCount = 0, rxCount = 0\<rparr>"

section \<open>Operations\<close>

definition twai_driver_install :: "twai \<Rightarrow> twai_config \<Rightarrow> esp_err \<times> twai" where
  "twai_driver_install s g =
    (if twInstalled s then (TWAI_ERR_INVALID_STATE, s)
     else (ESP_OK, s\<lparr>twInstalled := True, twMode := gcMode g, txPin := gcTxIo g, rxPin := gcRxIo g\<rparr>))"

definition twai_driver_uninstall :: "twai \<Rightarrow> esp_err \<times> twai" where
  "twai_driver_uninstall s =
    (if \<not> twInstalled s then (TWAI_ERR_INVALID_STATE, s)
     else (ESP_OK, s\<lparr>twInstalled := False, twStarted := False, txLog := [], rxQueue := [],
            txCount := 0, rxCount := 0\<rparr>))"

definition twai_start :: "twai \<Rightarrow> esp_err \<times> twai" where
  "twai_start s =
    (if \<not> twInstalled s \<or> twStarted s then (TWAI_ERR_INVALID_STATE, s)
     else (ESP_OK, s\<lparr>twStarted := True\<rparr>))"

definition twai_stop :: "twai \<Rightarrow> esp_err \<times> twai" where
  "twai_stop s =
    (if \<not> twStarted s then (TWAI_ERR_INVALID_STATE, s) else (ESP_OK, s\<lparr>twStarted := False\<rparr>))"

definition twai_transmit :: "twai \<Rightarrow> twai_message \<Rightarrow> esp_err \<times> twai" where
  "twai_transmit s msg =
    (if \<not> twStarted s then (TWAI_ERR_INVALID_STATE, s)
     else (ESP_OK, s\<lparr>txLog := txLog s @ [msg], txCount := txCount s + 1\<rparr>))"

definition twai_receive :: "twai \<Rightarrow> (esp_err \<times> twai_message option) \<times> twai" where
  "twai_receive s =
    (if \<not> twStarted s then ((TWAI_ERR_INVALID_STATE, None), s)
     else case rxQueue s of
            [] \<Rightarrow> ((TWAI_ERR_TIMEOUT, None), s)
          | m # q \<Rightarrow> ((ESP_OK, Some m), s\<lparr>rxQueue := q, rxCount := rxCount s + 1\<rparr>))"

text \<open>The status structure is cleared but for the state and the number of messages waiting.\<close>

definition twai_get_status_info :: "twai \<Rightarrow> esp_err \<times> u32 \<times> u32" where
  "twai_get_status_info s =
    (ESP_OK, if twStarted s then 1 else 0, word_of_nat (length (rxQueue s)))"

text \<open>At most eight bytes of \<open>data\<close> are copied, whatever length is announced.\<close>

definition injectRxMessage :: "twai \<Rightarrow> u32 \<Rightarrow> byte list option \<Rightarrow> byte \<Rightarrow> bool \<Rightarrow> twai" where
  "injectRxMessage s i data len ext =
    (let d = (case data of None \<Rightarrow> [] | Some d \<Rightarrow> take (min (unat len) 8) d)
     in s\<lparr>rxQueue := rxQueue s @
            [\<lparr>msgId = i, dlc = len, msgData = d @ replicate (8 - length d) 0, extd = ext\<rparr>]\<rparr>)"

definition twai_reset :: "twai \<Rightarrow> twai" where
  "twai_reset s = snd (twai_driver_uninstall s)"

section \<open>The driver as a state machine\<close>

datatype twai_op =
    TwInstall twai_config
  | TwStart
  | TwStop
  | TwTransmit twai_message
  | TwReceive
  | TwInject u32 "byte list option" byte bool

text \<open>
  A run of the installed driver: the state, and the messages that arrived and that were handed out
  so far.
\<close>

type_synonym twai_run = "twai \<times> twai_message list \<times> twai_message list"

fun twai_step :: "twai_op \<Rightarrow> twai_run \<Rightarrow> twai_run" where
  "twai_step (TwInstall g) (s, ins, outs) = (snd (twai_driver_install s g), ins, outs)"
| "twai_step TwStart (s, ins, outs) = (snd (twai_start s), ins, outs)"
| "twai_step TwStop (s, ins, outs) = (snd (twai_stop s), ins, outs)"
| "twai_step (TwTransmit m) (s, ins, outs) = (snd (twai_transmit s m), ins, outs)"
| "twai_step TwReceive (s, ins, outs) =
    (case twai_receive s of
       ((e, Some m), s') \<Rightarrow> (s', ins, outs @ [m])
     | ((e, None), s') \<Rightarrow> (s', ins, outs))"
| "twai_step (TwInject i d l x) (s, ins, outs) =
    (let s' = injectRxMessage s i d l x in (s', ins @ [last (rxQueue s')], outs))"

definition twai_run_inv :: "twai_run \<Rightarrow> bool" where
  "twai_run_inv r \<longleftrightarrow> (case r of (s, ins, outs) \<Rightarrow>
    outs @ rxQueue s = ins \<and> rxCount s = word_of_nat (length outs) \<and>
    txCount s = word_of_nat (length (txLog s)) \<and> (twStarted s \<longrightarrow> twInstalled s) \<and>
    (\<forall>m\<in>set ins. length (msgData m) = 8))"

lemma inject_last:
  "rxQueue (injectRxMessage s i d l x) = rxQueue s @ [last (rxQueue (injectRxMessage s i d l x))]"
  "length (msgData (last (rxQueue (injectRxMessage s i d l x)))) = 8"
  by (simp_all add: injectRxMessage_def Let_def split: option.split)

lemma inject_frame [simp]:
  "rxCount (injectRxMessage s i d l x) = rxCount s" "txCount (injectRxMessage s i d l x) = txCount s"
  "txLog (injectRxMessage s i d l x) = txLog s" "twStarted (injectRxMessage s i d l x) = twStarted s"
  "twInstalled (injectRxMessage s i d l x) = twInstalled s"
  by (simp_all add: injectRxMessage_def Let_def)

lemma twai_run_inv_step: "twai_run_inv r \<Longrightarrow> twai_run_inv (twai_step op r)"
proof -
  assume inv: "twai_run_inv r"
  obtain s ins outs where r: "r = (s, ins, outs)"
    by (cases r)
  show ?thesis
  proof (cases op)
    case (TwInject i d l x)
    with inv show ?thesis
      using inject_last [of s i d l x] by (auto simp: r twai_run_inv_def Let_def)
  qed (use inv in \<open>auto simp: r twai_run_inv_def twai_driver_install_def twai_start_def twai_stop_def
      twai_transmit_def twai_receive_def Let_def add.commute split: list.splits\<close>)
qed

interpretation twai_hist: step_system "\<lambda>r. r = (twai_init, [], [])" "\<lambda>_. True" twai_step twai_run_inv
proof unfold_locales
  fix r :: twai_run
  show "r = (twai_init, [], []) \<Longrightarrow> twai_run_inv r"
    by (simp add: twai_run_inv_def twai_init_def)
qed (rule twai_run_inv_step)

section \<open>Properties\<close>

text \<open>
  Reception is a lossless queue. Until the driver is uninstalled, whatever calls are made, the
  messages handed out followed by those still waiting are all that arrived, in order, each with
  eight data bytes; the status reports their number, and a receive on a started driver with
  something waiting returns the oldest. A driver that is started is installed.
\<close>

theorem twai_reception_fifo:
  assumes "fold twai_step ops (twai_init, [], []) = (s, ins, outs)"
  shows "outs @ rxQueue s = ins \<and> rxCount s = word_of_nat (length outs) \<and>
    (twStarted s \<longrightarrow> twInstalled s) \<and>
    snd (snd (twai_get_status_info s)) = word_of_nat (length ins - length outs) \<and>
    (twStarted s \<and> length outs < length ins \<longrightarrow>
      fst (twai_receive s) = (ESP_OK, Some (ins ! length outs)) \<and> length (msgData (ins ! length outs)) = 8)"
proof -
  have "twai_run_inv (fold twai_step ops (twai_init, [], []))"
    by (rule twai_hist.inv_run) (simp_all add: list_all_iff)
  with assms have I: "twai_run_inv (s, ins, outs)"
    by simp
  then have ins: "ins = outs @ rxQueue s"
    by (simp add: twai_run_inv_def)
  show ?thesis
    using I by (auto simp: ins twai_run_inv_def twai_get_status_info_def twai_receive_def
        nth_append split: list.split)
qed

theorem twai_reception_fifo_witness:
  "\<exists>s. fold twai_step [TwInstall \<lparr>gcMode = TWAI_MODE_NORMAL, gcTxIo = 5, gcRxIo = 4\<rparr>, TwStart,
      TwInject 0x123 (Some [1, 2]) 2 False, TwReceive] (twai_init, [], []) =
      (s, [\<lparr>msgId = 0x123, dlc = 2, msgData = [1, 2, 0, 0, 0, 0, 0, 0], extd = False\<rparr>],
          [\<lparr>msgId = 0x123, dlc = 2, msgData = [1, 2, 0, 0, 0, 0, 0, 0], extd = False\<rparr>]) \<and>
     rxQueue s = []"
proof -
  obtain s ins outs where run: "fold twai_step [TwInstall \<lparr>gcMode = TWAI_MODE_NORMAL, gcTxIo = 5, gcRxIo = 4\<rparr>,
      TwStart, TwInject 0x123 (Some [1, 2]) 2 False, TwReceive] (twai_init, [], []) = (s, ins, outs)"
    by (metis prod_cases3)
  have six: "replicate 6 (0 :: byte) = [0, 0, 0, 0, 0, 0]"
    by (simp add: numeral_eq_Suc)
  from run have "ins = [\<lparr>msgId = 0x123, dlc = 2, msgData = [1, 2, 0, 0, 0, 0, 0, 0], extd = False\<rparr>]"
    "outs = ins"
    by (auto simp: twai_driver_install_def twai_start_def twai_receive_def injectRxMessage_def
        twai_init_def Let_def six)
  with twai_reception_fifo [OF run] run show ?thesis
    by auto
qed

end
