(* ===== verification/Mono_Screens.thy ===== *)
theory Mono_Screens
  imports Raster
begin

unbundle bit_operations_syntax

text \<open>
  Screens with one bit per pixel, \<open>src/include/Adafruit_SSD1306.h\<close> (eight rows to a byte) and
  \<open>GxEPD2.h\<close> (eight columns to a byte), and the drawing base class and canvas of \<open>Adafruit_GFX.h\<close>. The lemmas
  show that the pixels of the first are cells of a store, for which widths those of the second are,
  and for which sizes the canvas stays within its buffer after a rotation.
\<close>

section \<open>Bits of a byte\<close>

text \<open>Setting, clearing and toggling one bit of one byte of a buffer.\<close>

lemma bit_of_buffer:
  fixes buf :: "byte list"
  assumes "i < length buf" "n < 8"
  shows "bit (buf[i := buf ! i OR push_bit n 1] ! j) m = (if j = i \<and> m = n then True else bit (buf ! j) m)"
    "bit (buf[i := buf ! i AND NOT (push_bit n 1)] ! j) m = (if j = i \<and> m = n then False else bit (buf ! j) m)"
    "bit (buf[i := buf ! i XOR push_bit n 1] ! j) m = (if j = i \<and> m = n then \<not> bit (buf ! i) n else bit (buf ! j) m)"
  using assms by (auto simp: nth_list_update bit_simps dest: bit_imp_le_length)

section \<open>\<open>Adafruit_SSD1306.h\<close>\<close>

record ssd =
  ssWidth :: int
  ssHeight :: int
  ssCursorX :: int
  ssCursorY :: int
  ssTextSize :: byte
  ssTextColor :: u16
  ssBegun :: bool
  ssInverted :: bool
  ssDimmed :: bool
  ssDisplays :: int
  ssDraws :: int
  ssBuf :: "byte list"
  ssLines :: "string list"
  ssLine :: string

text \<open>\<open>(w * h) / 8\<close> rounds towards zero; a negative size is an exception of \<open>resize\<close>.\<close>

definition ssd_new :: "int \<Rightarrow> int \<Rightarrow> ssd option" where
  "ssd_new w h =
    (if w * h \<le> - 8 then None
     else Some \<lparr>ssWidth = w, ssHeight = h, ssCursorX = 0, ssCursorY = 0, ssTextSize = 1, ssTextColor = 1,
       ssBegun = False, ssInverted = False, ssDimmed = False, ssDisplays = 0, ssDraws = 0,
       ssBuf = replicate (nat (w * h) div 8) 0, ssLines = [], ssLine = []\<rparr>)"

definition ssd_clearDisplay :: "ssd \<Rightarrow> ssd" where
  "ssd_clearDisplay s = s\<lparr>ssBuf := replicate (length (ssBuf s)) 0, ssLines := [], ssLine := []\<rparr>"

definition ssd_begin :: "ssd \<Rightarrow> bool \<times> ssd" where
  "ssd_begin s = (True, ssd_clearDisplay (s\<lparr>ssBegun := True\<rparr>))"

definition ssd_display :: "ssd \<Rightarrow> ssd" where
  "ssd_display s =
    (let s = (if ssLine s \<noteq> [] then s\<lparr>ssLines := ssLines s @ [ssLine s], ssLine := []\<rparr> else s)
     in s\<lparr>ssDisplays := ssDisplays s + 1\<rparr>)"

definition ssd_index :: "int \<Rightarrow> int \<Rightarrow> ssd \<Rightarrow> nat \<times> nat" where
  "ssd_index x y s = (nat (x + y div 8 * ssWidth s), nat (y mod 8))"

definition ssd_drawPixel :: "int \<Rightarrow> int \<Rightarrow> u16 \<Rightarrow> ssd \<Rightarrow> ssd" where
  "ssd_drawPixel x y color s =
    (if x < 0 \<or> x \<ge> ssWidth s \<or> y < 0 \<or> y \<ge> ssHeight s then s
     else
       let (idx, n) = ssd_index x y s; b = push_bit n 1
       in if idx \<ge> length (ssBuf s) then s
          else s\<lparr>ssBuf := (ssBuf s)[idx :=
            (if color = 1 then ssBuf s ! idx OR b else if color = 0 then ssBuf s ! idx AND NOT b else ssBuf s ! idx XOR b)]\<rparr>)"

definition ssd_getPixel :: "int \<Rightarrow> int \<Rightarrow> ssd \<Rightarrow> bool" where
  "ssd_getPixel x y s =
    (if x < 0 \<or> x \<ge> ssWidth s \<or> y < 0 \<or> y \<ge> ssHeight s then False
     else let (idx, n) = ssd_index x y s in if idx \<ge> length (ssBuf s) then False else bit (ssBuf s ! idx) n)"

text \<open>Lines, rectangles, circles and bitmaps are counted and not drawn.\<close>

definition ssd_drawLine :: "ssd \<Rightarrow> ssd" where
  "ssd_drawLine s = s\<lparr>ssDraws := ssDraws s + 1\<rparr>"

definition ssd_drawRect :: "ssd \<Rightarrow> ssd" where
  "ssd_drawRect s = s\<lparr>ssDraws := ssDraws s + 1\<rparr>"

definition ssd_drawCircle :: "ssd \<Rightarrow> ssd" where
  "ssd_drawCircle s = s\<lparr>ssDraws := ssDraws s + 1\<rparr>"

definition ssd_fillCircle :: "ssd \<Rightarrow> ssd" where
  "ssd_fillCircle s = s\<lparr>ssDraws := ssDraws s + 1\<rparr>"

definition ssd_fillRect :: "ssd \<Rightarrow> ssd" where
  "ssd_fillRect s = s\<lparr>ssDraws := ssDraws s + 1\<rparr>"

definition ssd_drawBitmap :: "ssd \<Rightarrow> ssd" where
  "ssd_drawBitmap s = s\<lparr>ssDraws := ssDraws s + 1\<rparr>"

definition ssd_setCursor :: "int \<Rightarrow> int \<Rightarrow> ssd \<Rightarrow> ssd" where
  "ssd_setCursor x y s = s\<lparr>ssCursorX := x, ssCursorY := y\<rparr>"

definition ssd_setTextSize :: "byte \<Rightarrow> ssd \<Rightarrow> ssd" where
  "ssd_setTextSize n s = s\<lparr>ssTextSize := n\<rparr>"

definition ssd_setTextColor :: "u16 \<Rightarrow> ssd \<Rightarrow> ssd" where
  "ssd_setTextColor c s = s\<lparr>ssTextColor := c\<rparr>"

definition ssd_print :: "string \<Rightarrow> ssd \<Rightarrow> ssd" where
  "ssd_print str s = s\<lparr>ssLine := ssLine s @ str\<rparr>"

definition ssd_println :: "string \<Rightarrow> ssd \<Rightarrow> ssd" where
  "ssd_println str s = s\<lparr>ssLines := ssLines s @ [ssLine s @ str], ssLine := []\<rparr>"

definition ssd_invertDisplay :: "bool \<Rightarrow> ssd \<Rightarrow> ssd" where
  "ssd_invertDisplay i s = s\<lparr>ssInverted := i\<rparr>"

definition ssd_dim :: "bool \<Rightarrow> ssd \<Rightarrow> ssd" where
  "ssd_dim d s = s\<lparr>ssDimmed := d\<rparr>"

definition on_ssd :: "ssd \<Rightarrow> int \<times> int \<Rightarrow> bool" where
  "on_ssd s p \<longleftrightarrow> 0 \<le> fst p \<and> fst p < ssWidth s \<and> 0 \<le> snd p \<and> snd p < ssHeight s \<and>
     fst (ssd_index (fst p) (snd p) s) < length (ssBuf s)"

lemma ssd_index_inject:
  assumes "ssd_index x y s = ssd_index x' y' s" "0 \<le> x" "x < ssWidth s" "0 \<le> x'" "x' < ssWidth s" "0 \<le> y" "0 \<le> y'"
  shows "x = x' \<and> y = y'"
proof -
  let ?w = "ssWidth s"
  have e: "nat (x + y div 8 * ?w) = nat (x' + y' div 8 * ?w)" "nat (y mod 8) = nat (y' mod 8)"
    using assms(1) by (simp_all only: ssd_index_def prod.inject)
  have "0 \<le> ?w"
    using assms(2,3) by linarith
  then have "0 \<le> y div 8 * ?w" "0 \<le> y' div 8 * ?w"
    using assms(6,7) by (simp_all add: pos_imp_zdiv_nonneg_iff)
  then have "y div 8 * ?w + x = y' div 8 * ?w + x'"
    using e(1) assms(2,4) by linarith
  from row_major_inject [OF this assms(2-5)] have "x = x'" "y div 8 = y' div 8"
    by simp_all
  moreover have "y mod 8 = y' mod 8"
    using e(2) pos_mod_sign [of 8 y] pos_mod_sign [of 8 y'] by linarith
  ultimately show ?thesis
    by (metis div_mult_mod_eq)
qed

lemma ssd_index_bit: "snd (ssd_index x y s) < 8"
  using pos_mod_bound [of 8 y] unfolding ssd_index_def snd_conv by linarith

lemma ssd_drawPixel_sel [simp]: "ssWidth (ssd_drawPixel x y c s) = ssWidth s" "ssHeight (ssd_drawPixel x y c s) = ssHeight s"
    "length (ssBuf (ssd_drawPixel x y c s)) = length (ssBuf s)"
    "ssd_index x' y' (ssd_drawPixel x y c s) = ssd_index x' y' s"
proof -
  show "ssWidth (ssd_drawPixel x y c s) = ssWidth s" "ssHeight (ssd_drawPixel x y c s) = ssHeight s"
    "length (ssBuf (ssd_drawPixel x y c s)) = length (ssBuf s)"
    unfolding ssd_drawPixel_def Let_def by (cases "ssd_index x y s"; simp)+
  then show "ssd_index x' y' (ssd_drawPixel x y c s) = ssd_index x' y' s"
    by (simp only: ssd_index_def)
qed

lemma ssd_drawPixel_get:
  "ssd_getPixel x' y' (ssd_drawPixel x y c s) =
    (if x' = x \<and> y' = y \<and> on_ssd s (x, y) then (if c = 1 then True else if c = 0 then False else \<not> ssd_getPixel x y s)
     else ssd_getPixel x' y' s)"
proof -
  obtain i n j m where i: "ssd_index x y s = (i, n)" "ssd_index x' y' s = (j, m)"
    by fastforce
  have n: "n < 8" "m < 8"
    using ssd_index_bit [of x y s] ssd_index_bit [of x' y' s] i by simp_all
  have o: "on_ssd s (x, y) \<longleftrightarrow> 0 \<le> x \<and> x < ssWidth s \<and> 0 \<le> y \<and> y < ssHeight s \<and> i < length (ssBuf s)"
    by (simp add: on_ssd_def i)
  show ?thesis
  proof (cases "on_ssd s (x, y)")
    case False
    then show ?thesis
      by (simp add: ssd_drawPixel_def i on_ssd_def not_less) (auto simp: not_less)
  next
    case True
    then have d: "ssd_drawPixel x y c s = s\<lparr>ssBuf := (ssBuf s)[i := (if c = 1 then ssBuf s ! i OR push_bit n 1
        else if c = 0 then ssBuf s ! i AND NOT (push_bit n 1) else ssBuf s ! i XOR push_bit n 1)]\<rparr>"
      by (simp add: ssd_drawPixel_def i o)
    have same: "x' = x \<and> y' = y \<longleftrightarrow> j = i \<and> m = n" if "0 \<le> x'" "x' < ssWidth s" "0 \<le> y'"
      using ssd_index_inject [of x y s x' y'] i that True o by auto
    have get: "ssd_getPixel x' y' (ssd_drawPixel x y c s) =
        (0 \<le> x' \<and> x' < ssWidth s \<and> 0 \<le> y' \<and> y' < ssHeight s \<and> j < length (ssBuf s) \<and> bit (ssBuf (ssd_drawPixel x y c s) ! j) m)"
      unfolding ssd_getPixel_def ssd_drawPixel_sel i by auto
    have old: "ssd_getPixel x' y' s =
        (0 \<le> x' \<and> x' < ssWidth s \<and> 0 \<le> y' \<and> y' < ssHeight s \<and> j < length (ssBuf s) \<and> bit (ssBuf s ! j) m)"
      "ssd_getPixel x y s = bit (ssBuf s ! i) n"
      unfolding ssd_getPixel_def i using True o by auto
    have "bit (ssBuf (ssd_drawPixel x y c s) ! j) m =
        (if j = i \<and> m = n then (if c = 1 then True else if c = 0 then False else \<not> bit (ssBuf s ! i) n) else bit (ssBuf s ! j) m)"
      unfolding d using n(1) True o by (simp add: bit_of_buffer [simplified] del: nth_list_update_eq)
    then show ?thesis
      unfolding get old using same True o by auto
  qed
qed

interpretation ssd: cell_store "\<lambda>_. True" on_ssd "\<lambda>p b. ssd_drawPixel (fst p) (snd p) (if b then 1 else 0)"
  "\<lambda>s p. ssd_getPixel (fst p) (snd p) s" "\<lambda>b. b"
  by unfold_locales (auto simp: on_ssd_def ssd_drawPixel_get prod_eq_iff)

section \<open>\<open>GxEPD2.h\<close>\<close>

record gxe =
  gxWidth :: int
  gxHeight :: int
  gxRotation :: byte
  gxInitialized :: bool
  gxBuf :: "byte list"
  gxPartial :: int
  gxFull :: int
  gxCursorX :: int
  gxCursorY :: int
  gxTextColor :: u16
  gxTextSize :: byte
  gxPaging :: bool
  gxHibernating :: bool

text \<open>The sizes of the display classes are positive.\<close>

definition gxe_new :: "int \<Rightarrow> int \<Rightarrow> gxe" where
  "gxe_new w h =
    \<lparr>gxWidth = w, gxHeight = h, gxRotation = 0, gxInitialized = False, gxBuf = replicate (nat (w * h div 8 + 1)) 0,
     gxPartial = 0, gxFull = 0, gxCursorX = 0, gxCursorY = 0, gxTextColor = 0, gxTextSize = 1, gxPaging = False, gxHibernating = False\<rparr>"

definition gxe_154 :: gxe where
  "gxe_154 = gxe_new 200 200"

definition gxe_213 :: gxe where
  "gxe_213 = gxe_new 250 122"

definition gxe_290 :: gxe where
  "gxe_290 = gxe_new 296 128"

definition gxe_init :: "gxe \<Rightarrow> gxe" where
  "gxe_init s = s\<lparr>gxInitialized := True\<rparr>"

definition gxe_setRotation :: "byte \<Rightarrow> gxe \<Rightarrow> gxe" where
  "gxe_setRotation r s = s\<lparr>gxRotation := r mod 4\<rparr>"

definition gxe_width :: "gxe \<Rightarrow> int" where
  "gxe_width s = (if gxRotation s AND 1 \<noteq> 0 then gxHeight s else gxWidth s)"

definition gxe_height :: "gxe \<Rightarrow> int" where
  "gxe_height s = (if gxRotation s AND 1 \<noteq> 0 then gxWidth s else gxHeight s)"

definition gxe_fillScreen :: "u16 \<Rightarrow> gxe \<Rightarrow> gxe" where
  "gxe_fillScreen color s = s\<lparr>gxBuf := replicate (length (gxBuf s)) (if color = 0 then 0 else 0xFF)\<rparr>"

definition gxe_index :: "int \<Rightarrow> int \<Rightarrow> gxe \<Rightarrow> nat \<times> nat" where
  "gxe_index x y s = (nat ((y * gxe_width s + x) div 8), nat (7 - x mod 8))"

definition gxe_drawPixel :: "int \<Rightarrow> int \<Rightarrow> u16 \<Rightarrow> gxe \<Rightarrow> gxe" where
  "gxe_drawPixel x y color s =
    (if x < 0 \<or> x \<ge> gxe_width s \<or> y < 0 \<or> y \<ge> gxe_height s then s
     else
       let (idx, n) = gxe_index x y s
       in if idx < length (gxBuf s)
          then s\<lparr>gxBuf := (gxBuf s)[idx :=
                 (if color = 0 then gxBuf s ! idx AND NOT (push_bit n 1) else gxBuf s ! idx OR push_bit n 1)]\<rparr>
          else s)"

definition gxe_getPixel :: "int \<Rightarrow> int \<Rightarrow> gxe \<Rightarrow> bool" where
  "gxe_getPixel x y s =
    (if x < 0 \<or> x \<ge> gxe_width s \<or> y < 0 \<or> y \<ge> gxe_height s then False
     else let (idx, n) = gxe_index x y s in if idx < length (gxBuf s) then bit (gxBuf s ! idx) n else False)"

definition gxe_drawRect :: "int \<Rightarrow> int \<Rightarrow> int \<Rightarrow> int \<Rightarrow> u16 \<Rightarrow> gxe \<Rightarrow> gxe option" where
  "gxe_drawRect x y w h color s =
    Option.bind (for_i16 (\<lambda>i s. Some (gxe_drawPixel i (i16 (y + h - 1)) color (gxe_drawPixel i y color s))) x (x + w) s)
      (for_i16 (\<lambda>j s. Some (gxe_drawPixel (i16 (x + w - 1)) j color (gxe_drawPixel x j color s))) y (y + h))"

definition gxe_fillRect :: "int \<Rightarrow> int \<Rightarrow> int \<Rightarrow> int \<Rightarrow> u16 \<Rightarrow> gxe \<Rightarrow> gxe option" where
  "gxe_fillRect x y w h color = gfx_fill_rect (\<lambda>i j. gxe_drawPixel i j color) x y w h"

definition gxe_setCursor :: "int \<Rightarrow> int \<Rightarrow> gxe \<Rightarrow> gxe" where
  "gxe_setCursor x y s = s\<lparr>gxCursorX := x, gxCursorY := y\<rparr>"

definition gxe_setTextSize :: "byte \<Rightarrow> gxe \<Rightarrow> gxe" where
  "gxe_setTextSize n s = s\<lparr>gxTextSize := (if n > 0 then n else 1)\<rparr>"

definition gxe_println :: "gxe \<Rightarrow> gxe" where
  "gxe_println s = s\<lparr>gxCursorY := i16 (gxCursorY s + 8 * uint (gxTextSize s))\<rparr>"

definition gxe_display :: "bool \<Rightarrow> gxe \<Rightarrow> gxe" where
  "gxe_display partial s = (if partial then s\<lparr>gxPartial := gxPartial s + 1\<rparr> else s\<lparr>gxFull := gxFull s + 1\<rparr>)"

definition gxe_firstPage :: "gxe \<Rightarrow> gxe" where
  "gxe_firstPage s = s\<lparr>gxPaging := True\<rparr>"

definition gxe_nextPage :: "gxe \<Rightarrow> bool \<times> gxe" where
  "gxe_nextPage s = (False, gxe_display False (s\<lparr>gxPaging := False\<rparr>))"

definition gxe_hibernate :: "gxe \<Rightarrow> gxe" where
  "gxe_hibernate s = s\<lparr>gxHibernating := True\<rparr>"

definition on_gxe :: "gxe \<Rightarrow> int \<times> int \<Rightarrow> bool" where
  "on_gxe s p \<longleftrightarrow> 0 \<le> fst p \<and> fst p < gxe_width s \<and> 0 \<le> snd p \<and> snd p < gxe_height s \<and>
     fst (gxe_index (fst p) (snd p) s) < length (gxBuf s)"

text \<open>A pixel changes exactly with those that have the same byte and bit.\<close>

lemma gxe_index_bit: "snd (gxe_index x y s) < 8"
  using pos_mod_sign [of 8 x] unfolding gxe_index_def snd_conv by linarith

lemma gxe_drawPixel_sel [simp]:
  "gxWidth (gxe_drawPixel x y c s) = gxWidth s" "gxHeight (gxe_drawPixel x y c s) = gxHeight s"
  "gxRotation (gxe_drawPixel x y c s) = gxRotation s" "length (gxBuf (gxe_drawPixel x y c s)) = length (gxBuf s)"
  unfolding gxe_drawPixel_def Let_def by (cases "gxe_index x y s"; simp)+

lemma gxe_drawPixel_get:
  "gxe_getPixel x' y' (gxe_drawPixel x y c s) =
    (if on_gxe s (x, y) \<and> on_gxe s (x', y') \<and> gxe_index x' y' s = gxe_index x y s then c \<noteq> 0 else gxe_getPixel x' y' s)"
proof -
  have w: "gxe_width (gxe_drawPixel x y c s) = gxe_width s" "gxe_height (gxe_drawPixel x y c s) = gxe_height s"
    "length (gxBuf (gxe_drawPixel x y c s)) = length (gxBuf s)"
    "gxe_index x' y' (gxe_drawPixel x y c s) = gxe_index x' y' s"
    by (simp_all only: gxe_width_def gxe_height_def gxe_index_def gxe_drawPixel_sel)
  obtain i n j m where i: "gxe_index x y s = (i, n)" "gxe_index x' y' s = (j, m)"
    by fastforce
  have n: "n < 8" "m < 8"
    using gxe_index_bit [of x y s] gxe_index_bit [of x' y' s] i by simp_all
  have o: "on_gxe s (x, y) \<longleftrightarrow> 0 \<le> x \<and> x < gxe_width s \<and> 0 \<le> y \<and> y < gxe_height s \<and> i < length (gxBuf s)"
    "on_gxe s (x', y') \<longleftrightarrow> 0 \<le> x' \<and> x' < gxe_width s \<and> 0 \<le> y' \<and> y' < gxe_height s \<and> j < length (gxBuf s)"
    by (simp_all add: on_gxe_def i)
  show ?thesis
  proof (cases "on_gxe s (x, y)")
    case False
    then have "gxe_drawPixel x y c s = s"
      using i by (auto simp: gxe_drawPixel_def on_gxe_def)
    then show ?thesis
      using False by simp
  next
    case True
    then have d: "gxe_drawPixel x y c s = s\<lparr>gxBuf := (gxBuf s)[i := (if c = 0 then gxBuf s ! i AND NOT (push_bit n 1) else gxBuf s ! i OR push_bit n 1)]\<rparr>"
      by (simp add: gxe_drawPixel_def i o)
    have get: "gxe_getPixel x' y' (gxe_drawPixel x y c s) = (on_gxe s (x', y') \<and> bit (gxBuf (gxe_drawPixel x y c s) ! j) m)"
      unfolding gxe_getPixel_def w o i by auto
    have old: "gxe_getPixel x' y' s = (on_gxe s (x', y') \<and> bit (gxBuf s ! j) m)"
      unfolding gxe_getPixel_def o i by auto
    have "bit (gxBuf (gxe_drawPixel x y c s) ! j) m = (if j = i \<and> m = n then c \<noteq> 0 else bit (gxBuf s ! j) m)"
      unfolding d using n(1) True o by (simp add: bit_of_buffer [simplified] del: nth_list_update_eq)
    then show ?thesis
      unfolding get old i using True by auto
  qed
qed

section \<open>\<open>Adafruit_GFX.h\<close>\<close>

record gfx =
  gfWIDTH :: int
  gfHEIGHT :: int
  gfWidth :: int
  gfHeight :: int
  gfRotation :: byte
  gfCursorX :: int
  gfCursorY :: int
  gfSizeX :: byte
  gfSizeY :: byte
  gfTextColor :: u16
  gfTextBg :: u16
  gfWrap :: bool
  gfCp437 :: bool
  gfPrinted :: string
  gfPixels :: u32
  gfFills :: u32
  gfLines :: u32
  gfCircles :: u32
  gfLast :: "int \<times> int \<times> u16"

record canvas = gfx +
  cvBuf :: "u16 list"

definition gfx_drawPixel :: "int \<Rightarrow> int \<Rightarrow> u16 \<Rightarrow> 'a gfx_scheme \<Rightarrow> 'a gfx_scheme" where
  "gfx_drawPixel x y color s = s\<lparr>gfPixels := gfPixels s + 1, gfLast := (x, y, color)\<rparr>"

text \<open>The primitives of the base class count their calls; shapes made of lines count their lines.\<close>

definition gfx_drawLine :: "'a gfx_scheme \<Rightarrow> 'a gfx_scheme" where
  "gfx_drawLine s = s\<lparr>gfLines := gfLines s + 1\<rparr>"

definition gfx_drawRect :: "'a gfx_scheme \<Rightarrow> 'a gfx_scheme" where
  "gfx_drawRect s = gfx_drawLine (gfx_drawLine (gfx_drawLine (gfx_drawLine s)))"

definition gfx_fillRect :: "'a gfx_scheme \<Rightarrow> 'a gfx_scheme" where
  "gfx_fillRect s = s\<lparr>gfFills := gfFills s + 1\<rparr>"

definition gfx_fillScreen :: "'a gfx_scheme \<Rightarrow> 'a gfx_scheme" where
  "gfx_fillScreen = gfx_fillRect"

definition gfx_drawCircle :: "'a gfx_scheme \<Rightarrow> 'a gfx_scheme" where
  "gfx_drawCircle s = s\<lparr>gfCircles := gfCircles s + 1\<rparr>"

definition gfx_fillCircle :: "'a gfx_scheme \<Rightarrow> 'a gfx_scheme" where
  "gfx_fillCircle s = s\<lparr>gfCircles := gfCircles s + 1\<rparr>"

definition gfx_drawTriangle :: "'a gfx_scheme \<Rightarrow> 'a gfx_scheme" where
  "gfx_drawTriangle s = gfx_drawLine (gfx_drawLine (gfx_drawLine s))"

definition gfx_setCursor :: "int \<Rightarrow> int \<Rightarrow> 'a gfx_scheme \<Rightarrow> 'a gfx_scheme" where
  "gfx_setCursor x y s = s\<lparr>gfCursorX := x, gfCursorY := y\<rparr>"

definition gfx_setTextColor :: "u16 \<Rightarrow> 'a gfx_scheme \<Rightarrow> 'a gfx_scheme" where
  "gfx_setTextColor c s = s\<lparr>gfTextColor := c, gfTextBg := c\<rparr>"

definition gfx_setTextColor_bg :: "u16 \<Rightarrow> u16 \<Rightarrow> 'a gfx_scheme \<Rightarrow> 'a gfx_scheme" where
  "gfx_setTextColor_bg c bg s = s\<lparr>gfTextColor := c, gfTextBg := bg\<rparr>"

definition gfx_setTextSize :: "byte \<Rightarrow> 'a gfx_scheme \<Rightarrow> 'a gfx_scheme" where
  "gfx_setTextSize n s = s\<lparr>gfSizeX := n, gfSizeY := n\<rparr>"

definition gfx_setTextSize_xy :: "byte \<Rightarrow> byte \<Rightarrow> 'a gfx_scheme \<Rightarrow> 'a gfx_scheme" where
  "gfx_setTextSize_xy sx sy s = s\<lparr>gfSizeX := sx, gfSizeY := sy\<rparr>"

definition gfx_write :: "char \<Rightarrow> 'a gfx_scheme \<Rightarrow> nat \<times> 'a gfx_scheme" where
  "gfx_write c s = (1, s\<lparr>gfPrinted := gfPrinted s @ [c], gfCursorX := i16 (gfCursorX s + uint (gfSizeX s) * 6)\<rparr>)"

fun gfx_print :: "string \<Rightarrow> 'a gfx_scheme \<Rightarrow> nat \<times> 'a gfx_scheme" where
  "gfx_print [] s = (0, s)"
| "gfx_print (c # cs) s = (let (_, s) = gfx_write c s; (n, s) = gfx_print cs s in (Suc n, s))"

definition gfx_println :: "string \<Rightarrow> 'a gfx_scheme \<Rightarrow> nat \<times> 'a gfx_scheme" where
  "gfx_println str s = (let (n, s) = gfx_print str s; (_, s) = gfx_write (CHR 0x0A) s in (n + 1, s))"

definition gfx_setRotation :: "byte \<Rightarrow> 'a gfx_scheme \<Rightarrow> 'a gfx_scheme" where
  "gfx_setRotation r s =
    (let s = s\<lparr>gfRotation := r AND 3\<rparr>
     in if gfRotation s AND 1 \<noteq> 0 then s\<lparr>gfWidth := gfHEIGHT s, gfHeight := gfWIDTH s\<rparr>
        else s\<lparr>gfWidth := gfWIDTH s, gfHeight := gfHEIGHT s\<rparr>)"

definition gfx_getTextBounds :: "string \<Rightarrow> int \<Rightarrow> int \<Rightarrow> 'a gfx_scheme \<Rightarrow> int \<times> int \<times> u16 \<times> u16" where
  "gfx_getTextBounds str x y s = (x, y, word_of_int (int (length str) * 6 * uint (gfSizeX s)), word_of_int (8 * uint (gfSizeY s)))"

text \<open>
  The canvas is created with 16-bit sizes, of which the base class keeps the conversion to \<open>int16_t\<close>. Its
  memory is taken to be granted.
\<close>

definition canvas_new :: "u16 \<Rightarrow> u16 \<Rightarrow> canvas" where
  "canvas_new w h =
    \<lparr>gfWIDTH = i16 (uint w), gfHEIGHT = i16 (uint h), gfWidth = i16 (uint w), gfHeight = i16 (uint h), gfRotation = 0,
     gfCursorX = 0, gfCursorY = 0, gfSizeX = 1, gfSizeY = 1, gfTextColor = 0xFFFF, gfTextBg = 0, gfWrap = True, gfCp437 = False,
     gfPrinted = [], gfPixels = 0, gfFills = 0, gfLines = 0, gfCircles = 0, gfLast = (0, 0, 0),
     cvBuf = replicate (nat (uint w * uint h)) 0\<rparr>"

text \<open>Rows have the width before the rotation; an index outside the buffer is undefined.\<close>

definition canvas_index :: "int \<Rightarrow> int \<Rightarrow> canvas \<Rightarrow> nat" where
  "canvas_index x y s = nat (y * gfWIDTH s + x)"

definition canvas_inside :: "int \<Rightarrow> int \<Rightarrow> canvas \<Rightarrow> bool" where
  "canvas_inside x y s \<longleftrightarrow> x \<ge> 0 \<and> x < gfWidth s \<and> y \<ge> 0 \<and> y < gfHeight s"

definition canvas_drawPixel :: "int \<Rightarrow> int \<Rightarrow> u16 \<Rightarrow> canvas \<Rightarrow> canvas option" where
  "canvas_drawPixel x y color s =
    (if canvas_inside x y s then
       if canvas_index x y s < length (cvBuf s)
       then Some (gfx_drawPixel x y color (s\<lparr>cvBuf := (cvBuf s)[canvas_index x y s := color]\<rparr>)) else None
     else Some (gfx_drawPixel x y color s))"

definition canvas_getPixel :: "int \<Rightarrow> int \<Rightarrow> canvas \<Rightarrow> u16 option" where
  "canvas_getPixel x y s =
    (if canvas_inside x y s then
       if canvas_index x y s < length (cvBuf s) then Some (cvBuf s ! canvas_index x y s) else None
     else Some 0)"

section \<open>Properties\<close>

text \<open>
  The pages of the SSD1306. After any sequence of pixels drawn in black or white on a new display, a pixel
  shows what was drawn there last; for a height that is a multiple of eight every pixel of the
  screen has its own bit, otherwise those of the last incomplete page cannot be set.
\<close>

theorem ssd_pixels:
  assumes "ssd_new w h = Some s" "0 \<le> w" "0 \<le> h"
  shows "(\<forall>x y. ssd_getPixel x y (fold (\<lambda>(p, b). ssd_drawPixel (fst p) (snd p) (if b then 1 else 0)) ps s) =
      (case map_of (rev ps) (x, y) of Some b \<Rightarrow> on_ssd s (x, y) \<and> b | None \<Rightarrow> False)) \<and>
    (h mod 8 = 0 \<longrightarrow> (\<forall>x y. on_ssd s (x, y) \<longleftrightarrow> 0 \<le> x \<and> x < w \<and> 0 \<le> y \<and> y < h)) \<and>
    (h mod 8 \<noteq> 0 \<longrightarrow> 0 < w \<longrightarrow> \<not> on_ssd s (w - 1, h - 1))"
proof -
  have s: "ssWidth s = w" "ssHeight s = h" "ssBuf s = replicate (nat (w * h) div 8) 0"
    using assms(1) by (auto simp: ssd_new_def split: if_splits)
  have zero: "\<not> ssd_getPixel x y s" for x y
    by (cases "ssd_index x y s") (simp add: ssd_getPixel_def s)
  have len: "int (length (ssBuf s)) = w * h div 8"
    using assms(2,3) by (simp add: s zdiv_int)
  have at: "on_ssd s (x, y) \<longleftrightarrow> 0 \<le> x \<and> x < w \<and> 0 \<le> y \<and> y < h \<and> x + y div 8 * w < w * h div 8" for x y
  proof -
    have "0 \<le> y div 8 * w" if "0 \<le> y"
      using assms(2) that by (simp add: pos_imp_zdiv_nonneg_iff)
    then show ?thesis
      unfolding on_ssd_def fst_conv snd_conv s(1,2) ssd_index_def len [symmetric] by (auto simp: nat_less_iff)
  qed
  have full: "x + y div 8 * w < w * h div 8" if "h mod 8 = 0" "0 \<le> x" "x < w" "0 \<le> y" "y < h" for x y
  proof -
    obtain k where k: "h = 8 * k"
      using \<open>h mod 8 = 0\<close> by (metis mod_0_imp_dvd dvdE)
    then have "y div 8 < k"
      using that(5) by (simp add: div_less_iff_less_mult mult.commute)
    from row_major_bounds [OF that(2,3) _ this] that(4) show ?thesis
      by (simp add: k pos_imp_zdiv_nonneg_iff add.commute)
  qed
  moreover have "\<not> on_ssd s (w - 1, h - 1)" if "h mod 8 \<noteq> 0" "0 < w"
  proof -
    define q where "q = h div 8"
    have h: "h = 8 * q + h mod 8" "h mod 8 < 8" "0 < h mod 8"
      using that(1) pos_mod_sign [of 8 h] pos_mod_bound [of 8 h] by (auto simp: q_def)
    have e: "(h - 1) div 8 = q"
      using h by (intro int_div_pos_eq [of "h - 1" 8 q "h mod 8 - 1"]) linarith+
    have "w * h = w * (h mod 8) + w * q * 8"
      by (subst h(1)) (simp add: algebra_simps)
    then have "w * h div 8 = w * (h mod 8) div 8 + w * q"
      by simp
    moreover have "w * (h mod 8) < w * 8"
      using h(2) that(2) by simp
    then have "w * (h mod 8) div 8 < w"
      by (simp add: div_less_iff_less_mult)
    ultimately show ?thesis
      unfolding at e by (simp add: mult.commute)
  qed
  moreover have "ssd_getPixel x y (fold (\<lambda>(p, b). ssd_drawPixel (fst p) (snd p) (if b then 1 else 0)) ps s) =
      (case map_of (rev ps) (x, y) of Some b \<Rightarrow> on_ssd s (x, y) \<and> b | None \<Rightarrow> False)" for x y
    using ssd.writes_get [where s = s and kvs = ps and k' = "(x, y)"] zero [of x y] by (auto split: option.splits)
  moreover have "on_ssd s (x, y) \<longleftrightarrow> 0 \<le> x \<and> x < w \<and> 0 \<le> y \<and> y < h" if "h mod 8 = 0" for x y
    unfolding at using full [OF that, of x y] by satx
  ultimately show ?thesis
    by simp
qed

theorem ssd_pixels_witness:
  "ssd_getPixel 3 9 (fold (\<lambda>(p, b). ssd_drawPixel (fst p) (snd p) (if b then 1 else 0)) [((3, 9), False), ((3, 9), True)] (the (ssd_new 16 16)))"
proof -
  have n: "ssd_new 16 16 = Some (the (ssd_new 16 16))"
    by (simp add: ssd_new_def)
  show ?thesis
    using ssd_pixels [OF n, of "[((3, 9), False), ((3, 9), True)]"] by simp
qed

lemma gxe_room:
  assumes "s = gxe_setRotation r (gxe_new w h)" "0 < w" "0 < h"
  shows "on_gxe s (x, y) \<longleftrightarrow> 0 \<le> x \<and> x < gxe_width s \<and> 0 \<le> y \<and> y < gxe_height s"
proof -
  have wh: "gxe_width s * gxe_height s = w * h" "length (gxBuf s) = nat (w * h div 8 + 1)"
    by (auto simp: assms(1) gxe_setRotation_def gxe_new_def gxe_width_def gxe_height_def)
  have "nat ((y * gxe_width s + x) div 8) < length (gxBuf s)" if "0 \<le> x" "x < gxe_width s" "0 \<le> y" "y < gxe_height s"
  proof -
    have b: "0 \<le> y * gxe_width s + x" "y * gxe_width s + x < w * h"
      using row_major_bounds [OF that] wh(1) by simp_all
    then have "(y * gxe_width s + x) div 8 \<le> w * h div 8"
      by (intro zdiv_mono1) simp_all
    moreover have "0 \<le> (y * gxe_width s + x) div 8"
      using b(1) by (simp add: pos_imp_zdiv_nonneg_iff)
    ultimately show ?thesis
      unfolding gxe_index_def wh(2) by simp
  qed
  then show ?thesis
    by (auto simp: on_gxe_def gxe_index_def)
qed

text \<open>
  The columns of e-paper. When the width is a multiple of eight, drawing a pixel changes no other one. Otherwise the
  byte is counted along the whole screen and the bit along its row, and rows share bits: the first pixel of
  the second row is the one that starts the last, incomplete byte of the first row. The 250 by 122 display is
  of this kind.
\<close>

theorem gxe_pixels:
  assumes "s = gxe_setRotation r (gxe_new w h)" "0 < w" "0 < h" "0 \<le> x" "x < gxe_width s" "0 \<le> y" "y < gxe_height s"
  shows "gxe_getPixel x y (gxe_drawPixel x y c s) = (c \<noteq> 0) \<and>
    (gxe_width s mod 8 = 0 \<longrightarrow> (x', y') \<noteq> (x, y) \<longrightarrow> gxe_getPixel x' y' (gxe_drawPixel x y c s) = gxe_getPixel x' y' s) \<and>
    (gxe_width s mod 8 \<noteq> 0 \<longrightarrow> 1 < gxe_height s \<longrightarrow>
       gxe_getPixel (gxe_width s div 8 * 8) 0 (gxe_drawPixel 0 1 c s) = (c \<noteq> 0))"
proof -
  let ?W = "gxe_width s"
  note on = gxe_room [OF assms(1-3)]
  have "x = x' \<and> y = y'" if m: "?W mod 8 = 0" and i: "gxe_index x' y' s = gxe_index x y s" and o: "on_gxe s (x', y')"
  proof -
    obtain k where k: "?W = 8 * k"
      using m by (metis mod_0_imp_dvd dvdE)
    have o': "0 \<le> x'" "x' < 8 * k" "0 \<le> y'" and b: "0 \<le> x" "x < 8 * k" "0 \<le> y"
      using o on k assms(4-7) by auto
    have d: "(v * (8 * k) + u) div 8 = v * k + u div 8" for u v
    proof -
      have "v * (8 * k) + u = u + v * k * 8"
        by simp
      then show ?thesis
        by simp
    qed
    have q: "0 \<le> u div 8" "u div 8 < k" if "0 \<le> u" "u < 8 * k" for u
      using that by (simp_all add: pos_imp_zdiv_nonneg_iff div_less_iff_less_mult mult.commute)
    have "0 \<le> k"
      using b(1,2) by linarith
    then have "0 \<le> y * k + x div 8" "0 \<le> y' * k + x' div 8"
      using b(3) o'(3) q(1) [OF b(1,2)] q(1) [OF o'(1,2)] by (simp_all only: mult_nonneg_nonneg add_nonneg_nonneg)
    moreover have n: "nat (y' * k + x' div 8) = nat (y * k + x div 8)" "nat (7 - x' mod 8) = nat (7 - x mod 8)"
      using i by (simp_all only: gxe_index_def k d prod.inject)
    ultimately have "y * k + x div 8 = y' * k + x' div 8"
      by (simp only: eq_nat_nat_iff)
    moreover have "0 \<le> 7 - x' mod 8" "0 \<le> 7 - x mod 8"
      using pos_mod_bound [of 8 x] pos_mod_bound [of 8 x'] by simp_all
    then have r: "x mod 8 = x' mod 8"
      using n(2) by (simp only: eq_nat_nat_iff)
    ultimately have "x div 8 = x' div 8" "y = y'"
      using row_major_inject [OF _ q [OF b(1,2)] q [OF o'(1,2)]] by blast+
    then show ?thesis
      using r by (metis div_mult_mod_eq)
  qed
  moreover have "gxe_index (?W div 8 * 8) 0 s = gxe_index 0 1 s"
    by (simp add: gxe_index_def)
  moreover have "on_gxe s (?W div 8 * 8, 0)" "on_gxe s (0, 1)" if "?W mod 8 \<noteq> 0" "1 < gxe_height s"
  proof -
    have "0 < ?W" "0 < ?W mod 8"
      using that(1) assms(4,5) pos_mod_sign [of 8 ?W] by linarith+
    then have "?W div 8 * 8 < ?W" "0 \<le> ?W div 8 * 8"
      using div_mult_mod_eq [of ?W 8] by (linarith, simp add: pos_imp_zdiv_nonneg_iff)
    then show "on_gxe s (?W div 8 * 8, 0)" "on_gxe s (0, 1)"
      unfolding on using that(2) \<open>0 < ?W\<close> by simp_all
  qed
  moreover have "on_gxe s (x, y)"
    using on assms(4-7) by simp
  ultimately show ?thesis
    unfolding gxe_drawPixel_get by auto
qed

theorem gxe_pixels_witness:
  "gxe_getPixel 248 0 (gxe_drawPixel 0 1 1 (gxe_setRotation 0 gxe_213)) \<and>
   gxe_getPixel 100 5 (gxe_drawPixel 0 1 1 (gxe_setRotation 0 gxe_154)) = gxe_getPixel 100 5 (gxe_setRotation 0 gxe_154)"
  using gxe_pixels [of "gxe_setRotation 0 gxe_213" 0 250 122 0 1 1 0 0] gxe_pixels [of "gxe_setRotation 0 gxe_154" 0 200 200 0 1 1 100 5]
  by (simp add: gxe_213_def gxe_154_def gxe_width_def gxe_height_def gxe_setRotation_def gxe_new_def)

text \<open>The canvas: a row begins every \<open>WIDTH\<close> cells, also when the screen is turned.\<close>

lemma canvas_sel:
  assumes "s = gfx_setRotation r (canvas_new w h)" "uint w \<le> 32767" "uint h \<le> 32767"
  shows "gfWIDTH s = uint w" "int (length (cvBuf s)) = uint w * uint h"
    "gfWidth s = (if r AND 1 = 0 then uint w else uint h)" "gfHeight s = (if r AND 1 = 0 then uint h else uint w)"
proof -
  have "i16 (uint w) = uint w" "i16 (uint h) = uint h"
    using assms(2,3) by (simp_all add: i16_id order_trans [OF _ uint_ge_0])
  moreover have "(r AND 3) AND 1 = r AND 1"
    by (simp add: and.assoc)
  ultimately show "gfWIDTH s = uint w" "int (length (cvBuf s)) = uint w * uint h"
    "gfWidth s = (if r AND 1 = 0 then uint w else uint h)" "gfHeight s = (if r AND 1 = 0 then uint h else uint w)"
    by (simp_all add: assms(1) gfx_setRotation_def canvas_new_def Let_def)
qed

lemma canvas_draw_get:
  assumes "canvas_drawPixel x y c s = Some s'" "canvas_inside x y s"
  shows "canvas_getPixel x' y' s' =
    (if canvas_inside x' y' s \<and> canvas_index x' y' s = canvas_index x y s then Some c else canvas_getPixel x' y' s)"
proof -
  have i: "canvas_index x y s < length (cvBuf s)"
    and s': "s' = gfx_drawPixel x y c (s\<lparr>cvBuf := (cvBuf s)[canvas_index x y s := c]\<rparr>)"
    using assms by (auto simp: canvas_drawPixel_def split: if_splits)
  have sel: "canvas_inside x' y' s' = canvas_inside x' y' s" "canvas_index x' y' s' = canvas_index x' y' s"
    "cvBuf s' = (cvBuf s)[canvas_index x y s := c]"
    by (simp_all add: s' gfx_drawPixel_def canvas_inside_def canvas_index_def)
  show ?thesis
    unfolding canvas_getPixel_def sel using i by (auto simp: nth_list_update)
qed

text \<open>
  The canvas and rotation. On a canvas that is not turned, or is square, every pixel inside can be drawn
  and drawing it changes no other one. A landscape canvas turned to portrait is written behind the end of its
  buffer; a portrait one turned to landscape shows pixels that share a cell, for instance the first
  of the second row and the one at \<open>x = WIDTH\<close> of the first.
\<close>

theorem canvas_pixels:
  assumes "s = gfx_setRotation r (canvas_new w h)" "uint w \<le> 32767" "uint h \<le> 32767"
  shows "(r AND 1 = 0 \<or> w = h \<longrightarrow> canvas_inside x y s \<longrightarrow>
      (\<exists>s'. canvas_drawPixel x y c s = Some s' \<and>
        canvas_getPixel x' y' s' = (if x' = x \<and> y' = y then Some c else canvas_getPixel x' y' s))) \<and>
    (r AND 1 \<noteq> 0 \<longrightarrow> 0 < h \<longrightarrow> h < w \<longrightarrow>
      canvas_inside 0 (uint w - 1) s \<and> canvas_drawPixel 0 (uint w - 1) c s = None) \<and>
    (r AND 1 \<noteq> 0 \<longrightarrow> 1 < w \<longrightarrow> w < h \<longrightarrow>
      (\<exists>s'. canvas_drawPixel 0 1 c s = Some s' \<and> canvas_inside (uint w) 0 s \<and> canvas_getPixel (uint w) 0 s' = Some c))"
proof (intro conjI impI)
  note sel = canvas_sel [OF assms]
  have box: "gfWidth s = gfWIDTH s \<and> int (length (cvBuf s)) = gfWIDTH s * gfHeight s" if "r AND 1 = 0 \<or> w = h"
    unfolding sel using that by auto
  {
    assume m: "r AND 1 = 0 \<or> w = h" and i: "canvas_inside x y s"
    have b: "0 \<le> x" "x < gfWIDTH s" "0 \<le> y" "y < gfHeight s"
      using i box [OF m] by (simp_all add: canvas_inside_def)
    have "canvas_index x y s < length (cvBuf s)"
      unfolding canvas_index_def using row_major_bounds [OF b] box [OF m] by linarith
    then obtain s' where s': "canvas_drawPixel x y c s = Some s'"
      using i by (simp add: canvas_drawPixel_def)
    have "x' = x \<and> y' = y" if o: "canvas_inside x' y' s" and e: "canvas_index x' y' s = canvas_index x y s"
    proof -
      have b': "0 \<le> x'" "x' < gfWIDTH s" "0 \<le> y'" "y' < gfHeight s"
        using o box [OF m] by (simp_all add: canvas_inside_def)
      have "y' * gfWIDTH s + x' = y * gfWIDTH s + x"
        using e row_major_bounds [OF b] row_major_bounds [OF b'] by (simp add: canvas_index_def eq_nat_nat_iff)
      from row_major_inject [OF this b'(1,2) b(1,2)] show ?thesis .
    qed
    then show "\<exists>s'. canvas_drawPixel x y c s = Some s' \<and>
        canvas_getPixel x' y' s' = (if x' = x \<and> y' = y then Some c else canvas_getPixel x' y' s)"
      using s' canvas_draw_get [OF s' i] i by auto
  next
    assume m: "r AND 1 \<noteq> 0" "0 < h" "h < w"
    then have "uint w * uint h \<le> (uint w - 1) * uint w"
      by (simp add: mult.commute word_less_def mult_left_mono)
    then have "length (cvBuf s) \<le> canvas_index 0 (uint w - 1) s"
      unfolding canvas_index_def sel(1) using sel(2) by linarith
    moreover show "canvas_inside 0 (uint w - 1) s"
      using m by (simp add: canvas_inside_def sel word_less_def)
    ultimately show "canvas_drawPixel 0 (uint w - 1) c s = None"
      by (simp add: canvas_drawPixel_def)
  next
    assume m: "r AND 1 \<noteq> 0" "1 < w" "w < h"
    have o: "canvas_inside 0 1 s" "canvas_inside (uint w) 0 s" "canvas_index (uint w) 0 s = canvas_index 0 1 s"
      using m by (simp_all add: canvas_inside_def canvas_index_def sel word_less_def)
    have "uint w * 1 < uint w * uint h"
      using m(2,3) by (intro mult_strict_left_mono) (simp_all add: word_less_def)
    then have "uint w < int (length (cvBuf s))"
      using sel(2) by linarith
    then have "canvas_index 0 1 s < length (cvBuf s)"
      unfolding canvas_index_def sel(1) by (subst nat_less_iff) simp_all
    then obtain s' where s': "canvas_drawPixel 0 1 c s = Some s'"
      using o(1) by (simp add: canvas_drawPixel_def)
    then show "\<exists>s'. canvas_drawPixel 0 1 c s = Some s' \<and> canvas_inside (uint w) 0 s \<and> canvas_getPixel (uint w) 0 s' = Some c"
      using canvas_draw_get [OF s' o(1), of "uint w" 0] o by simp
  }
qed

theorem canvas_pixels_witness:
  "canvas_drawPixel 0 7 5 (gfx_setRotation 1 (canvas_new 8 4)) = None \<and>
   (\<exists>s. canvas_drawPixel 0 1 5 (gfx_setRotation 1 (canvas_new 4 8)) = Some s \<and> canvas_getPixel 4 0 s = Some 5)"
  using canvas_pixels [of "gfx_setRotation 1 (canvas_new 8 4)" 1 8 4 0 0 5 0 0]
    canvas_pixels [of "gfx_setRotation 1 (canvas_new 4 8)" 1 4 8 0 0 5 0 0]
  by (auto simp: word_less_def)

end
