(* ===== verification/U8g2_Screen.thy ===== *)
theory U8g2_Screen
  imports Mono_Screens
begin

unbundle bit_operations_syntax

text \<open>
  The screen of \<open>src/include/U8g2lib.h\<close>: 128 by 64 pixels of one bit, rows one after another, eight pixels
  to a byte. The lemmas show that the pixels are cells of a store, what a box covers, that the page loop
  draws once, and that of all other shapes nothing reaches the pixels.
\<close>

section \<open>State and operations\<close>

text \<open>The size is the same for all display classes. \<open>None\<close> stands for a null string.\<close>

abbreviation (input) "u8_width \<equiv> (128 :: int)"
abbreviation (input) "u8_height \<equiv> (64 :: int)"

record u8g2 =
  ugFont :: byte
  ugFontMode :: byte
  ugColor :: byte
  ugCursorX :: int
  ugCursorY :: int
  ugRotation :: byte
  ugPower :: bool
  ugSent :: bool
  ugPage :: int
  ugContrast :: byte
  ugAddr :: byte
  ugXbm :: bool
  ugBuf :: "byte list"
  ugTexts :: "(int \<times> int \<times> string) list"
  ugBoxes :: "(int \<times> int \<times> int \<times> int) list"
  ugCircles :: "(int \<times> int \<times> int) list"
  ugLines :: "(int \<times> int \<times> int \<times> int) list"

definition u8_new :: u8g2 where
  "u8_new =
    \<lparr>ugFont = 0, ugFontMode = 0, ugColor = 1, ugCursorX = 0, ugCursorY = 0, ugRotation = 0, ugPower = True, ugSent = False,
     ugPage = 0, ugContrast = 128, ugAddr = 0x3C, ugXbm = False, ugBuf = replicate (nat ((u8_width * u8_height + 7) div 8)) 0,
     ugTexts = [], ugBoxes = [], ugCircles = [], ugLines = []\<rparr>"

definition u8_clearBuffer :: "u8g2 \<Rightarrow> u8g2" where
  "u8_clearBuffer s = s\<lparr>ugBuf := replicate (length (ugBuf s)) 0\<rparr>"

definition u8_begin :: "u8g2 \<Rightarrow> u8g2" where
  "u8_begin s = (u8_clearBuffer s)\<lparr>ugPower := True\<rparr>"

definition u8_sendBuffer :: "u8g2 \<Rightarrow> u8g2" where
  "u8_sendBuffer s = s\<lparr>ugSent := True\<rparr>"

definition u8_clearDisplay :: "u8g2 \<Rightarrow> u8g2" where
  "u8_clearDisplay s = u8_sendBuffer (u8_clearBuffer s)"

definition u8_firstPage :: "u8g2 \<Rightarrow> u8g2" where
  "u8_firstPage s = (u8_clearBuffer s)\<lparr>ugPage := 0\<rparr>"

definition u8_nextPage :: "u8g2 \<Rightarrow> bool \<times> u8g2" where
  "u8_nextPage s = (let s = s\<lparr>ugPage := ugPage s + 1\<rparr> in (ugPage s < 1, s))"

definition u8_setPixel :: "int \<Rightarrow> int \<Rightarrow> byte \<Rightarrow> u8g2 \<Rightarrow> u8g2" where
  "u8_setPixel x y color s =
    (if x < 0 \<or> x \<ge> u8_width \<or> y < 0 \<or> y \<ge> u8_height then s
     else
       let idx = y * u8_width + x; i = nat (idx div 8); b = push_bit (nat (idx mod 8)) 1
       in s\<lparr>ugBuf := (ugBuf s)[i := (if color \<noteq> 0 then ugBuf s ! i OR b else ugBuf s ! i AND NOT b)]\<rparr>)"

definition u8_getPixel :: "int \<Rightarrow> int \<Rightarrow> u8g2 \<Rightarrow> bool" where
  "u8_getPixel x y s =
    (if x < 0 \<or> x \<ge> u8_width \<or> y < 0 \<or> y \<ge> u8_height then False
     else let idx = y * u8_width + x in bit (ugBuf s ! nat (idx div 8)) (nat (idx mod 8)))"

definition u8_drawPixel :: "int \<Rightarrow> int \<Rightarrow> u8g2 \<Rightarrow> u8g2" where
  "u8_drawPixel x y s = u8_setPixel x y (ugColor s) s"

definition u8_drawLine :: "int \<Rightarrow> int \<Rightarrow> int \<Rightarrow> int \<Rightarrow> u8g2 \<Rightarrow> u8g2" where
  "u8_drawLine x0 y0 x1 y1 s = s\<lparr>ugLines := ugLines s @ [(x0, y0, x1, y1)]\<rparr>"

definition u8_drawHLine :: "int \<Rightarrow> int \<Rightarrow> int \<Rightarrow> u8g2 \<Rightarrow> u8g2" where
  "u8_drawHLine x y w s = u8_drawLine x y (x + w - 1) y s"

definition u8_drawVLine :: "int \<Rightarrow> int \<Rightarrow> int \<Rightarrow> u8g2 \<Rightarrow> u8g2" where
  "u8_drawVLine x y h s = u8_drawLine x y x (y + h - 1) s"

definition u8_drawFrame :: "int \<Rightarrow> int \<Rightarrow> int \<Rightarrow> int \<Rightarrow> u8g2 \<Rightarrow> u8g2" where
  "u8_drawFrame x y w h s =
    u8_drawVLine (x + w - 1) y h (u8_drawVLine x y h (u8_drawHLine x (y + h - 1) w (u8_drawHLine x y w s)))"

text \<open>The two loops of a box.\<close>

definition u8_drawBox :: "int \<Rightarrow> int \<Rightarrow> int \<Rightarrow> int \<Rightarrow> u8g2 \<Rightarrow> u8g2" where
  "u8_drawBox x y w h s =
    (let s = fold (\<lambda>j. fold (\<lambda>i s. u8_setPixel i j (ugColor s) s) [x..x + w - 1]) [y..y + h - 1] s
     in s\<lparr>ugBoxes := ugBoxes s @ [(x, y, w, h)]\<rparr>)"

definition u8_drawRFrame :: "int \<Rightarrow> int \<Rightarrow> int \<Rightarrow> int \<Rightarrow> u8g2 \<Rightarrow> u8g2" where
  "u8_drawRFrame x y w h s = u8_drawFrame x y w h s"

definition u8_drawRBox :: "int \<Rightarrow> int \<Rightarrow> int \<Rightarrow> int \<Rightarrow> u8g2 \<Rightarrow> u8g2" where
  "u8_drawRBox x y w h s = u8_drawBox x y w h s"

definition u8_drawCircle :: "int \<Rightarrow> int \<Rightarrow> int \<Rightarrow> u8g2 \<Rightarrow> u8g2" where
  "u8_drawCircle x y r s = s\<lparr>ugCircles := ugCircles s @ [(x, y, r)]\<rparr>"

definition u8_drawDisc :: "int \<Rightarrow> int \<Rightarrow> int \<Rightarrow> u8g2 \<Rightarrow> u8g2" where
  "u8_drawDisc x y r s = s\<lparr>ugCircles := ugCircles s @ [(x, y, r)]\<rparr>"

definition u8_drawTriangle :: "int \<Rightarrow> int \<Rightarrow> int \<Rightarrow> int \<Rightarrow> int \<Rightarrow> int \<Rightarrow> u8g2 \<Rightarrow> u8g2" where
  "u8_drawTriangle x0 y0 x1 y1 x2 y2 s = u8_drawLine x2 y2 x0 y0 (u8_drawLine x1 y1 x2 y2 (u8_drawLine x0 y0 x1 y1 s))"

definition u8_drawXBM :: "u8g2 \<Rightarrow> u8g2" where
  "u8_drawXBM s = s\<lparr>ugXbm := True\<rparr>"

definition u8_setFont :: "byte \<Rightarrow> u8g2 \<Rightarrow> u8g2" where
  "u8_setFont f s = s\<lparr>ugFont := f\<rparr>"

definition u8_setFontMode :: "byte \<Rightarrow> u8g2 \<Rightarrow> u8g2" where
  "u8_setFontMode m s = s\<lparr>ugFontMode := m\<rparr>"

definition u8_setDrawColor :: "byte \<Rightarrow> u8g2 \<Rightarrow> u8g2" where
  "u8_setDrawColor c s = s\<lparr>ugColor := c\<rparr>"

definition u8_getStrWidth :: "string option \<Rightarrow> int" where
  "u8_getStrWidth str = (case str of Some t \<Rightarrow> int (length t) * 6 | None \<Rightarrow> 0)"

definition u8_drawStr :: "int \<Rightarrow> int \<Rightarrow> string option \<Rightarrow> u8g2 \<Rightarrow> int \<times> u8g2" where
  "u8_drawStr x y str s =
    (u8_getStrWidth str, s\<lparr>ugTexts := ugTexts s @ [(x, y, case str of Some t \<Rightarrow> t | None \<Rightarrow> [])]\<rparr>)"

definition u8_setCursor :: "int \<Rightarrow> int \<Rightarrow> u8g2 \<Rightarrow> u8g2" where
  "u8_setCursor x y s = s\<lparr>ugCursorX := x, ugCursorY := y\<rparr>"

definition u8_print :: "string option \<Rightarrow> u8g2 \<Rightarrow> u8g2" where
  "u8_print str s =
    (let (_, s) = u8_drawStr (ugCursorX s) (ugCursorY s) str s in s\<lparr>ugCursorX := ugCursorX s + u8_getStrWidth str\<rparr>)"

definition u8_setPowerSave :: "byte \<Rightarrow> u8g2 \<Rightarrow> u8g2" where
  "u8_setPowerSave save s = s\<lparr>ugPower := (save = 0)\<rparr>"

definition u8_setContrast :: "byte \<Rightarrow> u8g2 \<Rightarrow> u8g2" where
  "u8_setContrast c s = s\<lparr>ugContrast := c\<rparr>"

definition u8_setFlipMode :: "byte \<Rightarrow> u8g2 \<Rightarrow> u8g2" where
  "u8_setFlipMode m s = s\<lparr>ugRotation := m\<rparr>"

definition u8_setI2CAddress :: "byte \<Rightarrow> u8g2 \<Rightarrow> u8g2" where
  "u8_setI2CAddress a s = s\<lparr>ugAddr := a\<rparr>"

section \<open>Pixels\<close>

definition u8_ok :: "u8g2 \<Rightarrow> bool" where
  "u8_ok s \<longleftrightarrow> length (ugBuf s) = 1024"

definition on_u8 :: "int \<times> int \<Rightarrow> bool" where
  "on_u8 p \<longleftrightarrow> 0 \<le> fst p \<and> fst p < u8_width \<and> 0 \<le> snd p \<and> snd p < u8_height"

lemma u8_index:
  assumes "on_u8 (x, y)" "on_u8 (x', y')"
  shows "nat ((y * 128 + x) div 8) < 1024" "nat ((y * 128 + x) mod 8) < 8"
    "nat ((y' * 128 + x') div 8) = nat ((y * 128 + x) div 8) \<and> nat ((y' * 128 + x') mod 8) = nat ((y * 128 + x) mod 8)
      \<longleftrightarrow> x' = x \<and> y' = y"
proof -
  define a b where "a = y * 128 + x" and "b = y' * 128 + x'"
  have ab: "0 \<le> a" "a < 8192" "0 \<le> b" "b < 8192"
    using assms unfolding a_def b_def on_u8_def by simp_all
  then have d: "a div 8 < 1024" "0 \<le> a div 8" "0 \<le> b div 8"
    by (simp_all add: div_less_iff_less_mult)
  then show "nat ((y * 128 + x) div 8) < 1024"
    by (simp add: a_def [symmetric] nat_less_iff)
  show "nat ((y * 128 + x) mod 8) < 8"
    using pos_mod_bound [of 8 a] by (simp add: a_def [symmetric] nat_less_iff)
  have "nat (b div 8) = nat (a div 8) \<and> nat (b mod 8) = nat (a mod 8) \<longleftrightarrow> b = a"
  proof
    assume "nat (b div 8) = nat (a div 8) \<and> nat (b mod 8) = nat (a mod 8)"
    then have "b div 8 = a div 8" "b mod 8 = a mod 8"
      using d(2,3) by (simp_all add: eq_nat_nat_iff)
    then show "b = a"
      by (metis div_mult_mod_eq)
  qed simp
  moreover have "b = a \<longleftrightarrow> x' = x \<and> y' = y"
    using row_major_inject [of y' 128 x' y x] assms unfolding a_def b_def on_u8_def by auto
  ultimately show "nat ((y' * 128 + x') div 8) = nat ((y * 128 + x) div 8) \<and>
      nat ((y' * 128 + x') mod 8) = nat ((y * 128 + x) mod 8) \<longleftrightarrow> x' = x \<and> y' = y"
    by (simp add: a_def b_def)
qed

lemma u8_off: "\<not> on_u8 (x, y) \<Longrightarrow> u8_setPixel x y c s = s \<and> \<not> u8_getPixel x y s"
  by (auto simp: on_u8_def u8_setPixel_def u8_getPixel_def)

lemma u8_setPixel_get:
  assumes "u8_ok s"
  shows "u8_getPixel x' y' (u8_setPixel x y c s) = (if x' = x \<and> y' = y \<and> on_u8 (x, y) then c \<noteq> 0 else u8_getPixel x' y' s)"
proof (cases "on_u8 (x, y) \<and> on_u8 (x', y')")
  case True
  define i n j m where "i = nat ((y * 128 + x) div 8)" and "n = nat ((y * 128 + x) mod 8)"
    and "j = nat ((y' * 128 + x') div 8)" and "m = nat ((y' * 128 + x') mod 8)"
  have idx: "i < length (ugBuf s)" "n < 8" "j = i \<and> m = n \<longleftrightarrow> x' = x \<and> y' = y"
    using u8_index [of x y x' y'] True assms by (simp_all add: i_def n_def j_def m_def u8_ok_def)
  have set: "u8_setPixel x y c s = s\<lparr>ugBuf := (ugBuf s)[i := (if c \<noteq> 0 then ugBuf s ! i OR push_bit n 1 else ugBuf s ! i AND NOT (push_bit n 1))]\<rparr>"
    using True by (simp add: u8_setPixel_def on_u8_def i_def n_def Let_def)
  have get: "u8_getPixel x' y' t = bit (ugBuf t ! j) m" for t
    using True by (simp add: u8_getPixel_def on_u8_def j_def m_def Let_def)
  have "bit (ugBuf (u8_setPixel x y c s) ! j) m = (if j = i \<and> m = n then c \<noteq> 0 else bit (ugBuf s ! j) m)"
    unfolding set using idx(1,2) by (simp add: bit_of_buffer [simplified] del: nth_list_update_eq)
  then show ?thesis
    unfolding get using idx(3) True by simp
next
  case False
  have "u8_getPixel x' y' (u8_setPixel x y c s) = u8_getPixel x' y' s" if "\<not> on_u8 (x, y)"
    using u8_off [OF that, of c s] by simp
  moreover have "\<not> u8_getPixel x' y' t" if "\<not> on_u8 (x', y')" for t
    using u8_off [OF that, of c t] by simp
  ultimately show ?thesis
    using False by auto
qed

interpretation u8: cell_store u8_ok "\<lambda>_. on_u8" "\<lambda>p c. u8_setPixel (fst p) (snd p) c" "\<lambda>s p. u8_getPixel (fst p) (snd p) s"
  "\<lambda>c. c \<noteq> 0"
proof unfold_locales
  fix s k v k'
  assume ok: "u8_ok s"
  show "u8_ok (u8_setPixel (fst k) (snd k) v s)"
    using ok by (simp add: u8_ok_def u8_setPixel_def Let_def)
  show "u8_getPixel (fst k') (snd k') (u8_setPixel (fst k) (snd k) v s) =
      (if k' = k \<and> on_u8 k then v \<noteq> 0 else u8_getPixel (fst k') (snd k') s)"
    unfolding u8_setPixel_get [OF ok] by (auto simp: prod_eq_iff)
qed simp

lemma u8_setPixel_color [simp]: "ugColor (u8_setPixel x y c s) = ugColor s"
  by (simp add: u8_setPixel_def Let_def)

lemma u8_fold_color [simp]: "ugColor (fold (\<lambda>p. u8_setPixel (fst p) (snd p) c) ps s) = ugColor s"
  by (induction ps arbitrary: s) simp_all

lemma u8_box_fold:
  assumes "ugColor s = c"
  shows "fold (\<lambda>j. fold (\<lambda>i s. u8_setPixel i j (ugColor s) s) xs) ys s =
      fold (\<lambda>p. u8_setPixel (fst p) (snd p) c) (concat (map (\<lambda>j. map (\<lambda>i. (i, j)) xs) ys)) s"
proof -
  have row: "fold (\<lambda>i s. u8_setPixel i j (ugColor s) s) xs t = fold (\<lambda>p. u8_setPixel (fst p) (snd p) c) (map (\<lambda>i. (i, j)) xs) t"
    if "ugColor t = c" for j t
    using that by (induction xs arbitrary: t) simp_all
  show ?thesis
    using assms row by (induction ys arbitrary: s) (simp_all add: row)
qed

text \<open>A box sets its pixels on the screen to the drawing colour, and no others, wherever it lies and whatever its size.\<close>

theorem u8_box:
  assumes "u8_ok s"
  shows "u8_getPixel a b (u8_drawBox x y w h s) =
    (if x \<le> a \<and> a < x + w \<and> y \<le> b \<and> b < y + h \<and> on_u8 (a, b) then ugColor s \<noteq> 0 else u8_getPixel a b s)"
proof -
  let ?ps = "concat (map (\<lambda>j. map (\<lambda>i. (i, j)) [x..x + w - 1]) [y..y + h - 1])"
  have "(a, b) \<in> set ?ps \<longleftrightarrow> x \<le> a \<and> a < x + w \<and> y \<le> b \<and> b < y + h"
    by (auto intro!: bexI [of _ b])
  moreover have "u8_getPixel a b (s\<lparr>ugBoxes := l\<rparr>) = u8_getPixel a b s" for l s
    by (simp add: u8_getPixel_def)
  ultimately show ?thesis
    using u8.fill_get(1) [OF assms, where v = "ugColor s" and ks = ?ps and k' = "(a, b)"]
    unfolding u8_drawBox_def Let_def u8_box_fold [OF refl] by (simp only: fst_conv snd_conv) auto
qed

theorem u8_box_witness: "u8_getPixel 127 0 (u8_drawBox 100 (- 5) 100 10 u8_new)"
  using u8_box [of u8_new 127 0 100 "- 5" 100 10] by (simp add: u8_ok_def u8_new_def on_u8_def)

text \<open>Lines, frames, circles, triangles, bitmaps and texts are noted and light no pixel.\<close>

theorem u8_shapes_unlit:
  "ugBuf (u8_drawLine x y z w s) = ugBuf s \<and> ugBuf (u8_drawFrame x y z w s) = ugBuf s \<and> ugBuf (u8_drawCircle x y z s) = ugBuf s \<and>
   ugBuf (u8_drawDisc x y z s) = ugBuf s \<and> ugBuf (u8_drawTriangle x y z w u v s) = ugBuf s \<and> ugBuf (u8_drawXBM s) = ugBuf s \<and>
   ugBuf (u8_print str s) = ugBuf s \<and> length (ugLines (u8_drawFrame x y z w s)) = length (ugLines s) + 4"
  by (simp add: u8_drawLine_def u8_drawFrame_def u8_drawHLine_def u8_drawVLine_def u8_drawCircle_def u8_drawDisc_def
      u8_drawTriangle_def u8_drawXBM_def u8_print_def u8_drawStr_def)

text \<open>The page loop \<open>firstPage(); do { draw } while (nextPage());\<close>: \<open>None\<close> when it does not end.\<close>

partial_function (option) u8_pages :: "(u8g2 \<Rightarrow> u8g2) \<Rightarrow> u8g2 \<Rightarrow> u8g2 option" where
  "u8_pages draw s = (let (b, t) = u8_nextPage (draw s) in if b then u8_pages draw t else Some t)"

theorem u8_page_loop:
  assumes "0 \<le> ugPage (draw (u8_firstPage s))"
  shows "u8_pages draw (u8_firstPage s) = Some ((draw (u8_firstPage s))\<lparr>ugPage := ugPage (draw (u8_firstPage s)) + 1\<rparr>)"
  using assms by (subst u8_pages.simps) (simp add: u8_nextPage_def Let_def)

text \<open>Printed texts stand one after another: each starts where the one before it ends.\<close>

lemma u8_print_step:
  "ugCursorX (u8_print (Some t) s) = ugCursorX s + 6 * int (length t)" "ugCursorY (u8_print (Some t) s) = ugCursorY s"
  "ugTexts (u8_print (Some t) s) = ugTexts s @ [(ugCursorX s, ugCursorY s, t)]"
  by (simp_all add: u8_print_def u8_drawStr_def u8_getStrWidth_def)

theorem u8_prints:
  "ugCursorX (fold (\<lambda>t. u8_print (Some t)) ts s) = ugCursorX s + 6 * int (length (concat ts)) \<and>
   ugTexts (fold (\<lambda>t. u8_print (Some t)) ts s) = ugTexts s @
     map (\<lambda>k. (ugCursorX s + 6 * int (length (concat (take k ts))), ugCursorY s, ts ! k)) [0..<length ts]"
proof (induction ts rule: rev_induct)
  case (snoc t ts)
  have y: "ugCursorY (fold (\<lambda>t. u8_print (Some t)) ts s) = ugCursorY s"
    by (induction ts arbitrary: s) (simp_all add: u8_print_step)
  have "map (\<lambda>k. (ugCursorX s + 6 * int (length (concat (take k (ts @ [t])))), ugCursorY s, (ts @ [t]) ! k)) [0..<length ts] =
      map (\<lambda>k. (ugCursorX s + 6 * int (length (concat (take k ts))), ugCursorY s, ts ! k)) [0..<length ts]"
    by (simp add: nth_append)
  then show ?case
    using snoc y u8_print_step [of t] by (simp add: algebra_simps)
qed simp

end
