(* ===== verification/Uart.thy ===== *)
theory Uart
  imports Interfaces
begin

text \<open>
  The serial ports of \<open>src/include/driver/uart.h\<close>: three ports with a receive and a transmit buffer
  each. The lemmas show that a port is a lossless queue towards the program, whatever happens on
  the other ports, and which port a number means.
\<close>

section \<open>State\<close>

record uart_config =
  baudRate :: int
  dataBits :: int
  parityMode :: int
  stopBits :: int
  flowCtrl :: int

record uart_port =
  uartConfig :: "uart_config option"
  rxBuf :: "byte list"
  txBuf :: "byte list"

definition uart_init :: "uart_port list" where
  "uart_init = replicate 3 \<lparr>uartConfig = None, rxBuf = [], txBuf = []\<rparr>"

text \<open>A number outside 0 to 2 means port 0.\<close>

definition port_index :: "int \<Rightarrow> nat" where
  "port_index num = (if num < 0 \<or> num > 2 then 0 else nat num)"

definition on_port :: "(uart_port \<Rightarrow> uart_port) \<Rightarrow> uart_port list \<Rightarrow> int \<Rightarrow> uart_port list" where
  "on_port f us num = us[port_index num := f (us ! port_index num)]"

section \<open>Operations\<close>

text \<open>The code's own \<open>ESP_ERR_INVALID_ARG\<close> is \<open>-2\<close> in this header.\<close>

definition uart_param_config :: "uart_port list \<Rightarrow> int \<Rightarrow> uart_config option \<Rightarrow> esp_err \<times> uart_port list" where
  "uart_param_config us num cfg =
    (case cfg of None \<Rightarrow> (- 2, us) | Some c \<Rightarrow> (ESP_OK, on_port (\<lambda>p. p\<lparr>uartConfig := Some c\<rparr>) us num))"

definition uart_inject :: "uart_port list \<Rightarrow> int \<Rightarrow> byte list \<Rightarrow> uart_port list" where
  "uart_inject us num d = on_port (\<lambda>p. p\<lparr>rxBuf := rxBuf p @ d\<rparr>) us num"

text \<open>The result is the count as an \<open>int\<close> and the bytes copied.\<close>

definition uart_read_bytes :: "uart_port list \<Rightarrow> int \<Rightarrow> nat \<Rightarrow> (int \<times> byte list) \<times> uart_port list" where
  "uart_read_bytes us num len =
    (let rx = rxBuf (us ! port_index num);
         n = min len (length rx)
     in ((sint (word_of_nat n :: u32), take n rx), on_port (\<lambda>p. p\<lparr>rxBuf := drop n (rxBuf p)\<rparr>) us num))"

definition uart_write_bytes :: "uart_port list \<Rightarrow> int \<Rightarrow> byte list \<Rightarrow> int \<times> uart_port list" where
  "uart_write_bytes us num d =
    (sint (word_of_nat (length d) :: u32), on_port (\<lambda>p. p\<lparr>txBuf := txBuf p @ d\<rparr>) us num)"

definition uart_getTxData :: "uart_port list \<Rightarrow> int \<Rightarrow> byte list \<times> uart_port list" where
  "uart_getTxData us num = (txBuf (us ! port_index num), on_port (\<lambda>p. p\<lparr>txBuf := []\<rparr>) us num)"

definition uart_flush :: "uart_port list \<Rightarrow> int \<Rightarrow> esp_err \<times> uart_port list" where
  "uart_flush us num = (ESP_OK, on_port (\<lambda>p. p\<lparr>txBuf := []\<rparr>) us num)"

definition uart_driver_delete :: "uart_port list \<Rightarrow> int \<Rightarrow> esp_err \<times> uart_port list" where
  "uart_driver_delete us num = (ESP_OK, on_port (\<lambda>p. p\<lparr>rxBuf := [], txBuf := []\<rparr>) us num)"

definition uart_get_buffered_data_len :: "uart_port list \<Rightarrow> int \<Rightarrow> bool \<Rightarrow> esp_err \<times> nat option" where
  "uart_get_buffered_data_len us num want =
    (if \<not> want then (- 2, None) else (ESP_OK, Some (length (rxBuf (us ! port_index num)))))"

section \<open>Runs\<close>

datatype uart_op =
    UInject int "byte list"
  | URead int nat
  | UWrite int "byte list"
  | UTake int
  | UFlush int
  | UConfig int "uart_config option"

text \<open>A run keeps, for one port, what was put on its line and what the program read from it.\<close>

record uart_run =
  uPorts :: "uart_port list"
  uLine :: "byte list"
  uRead :: "byte list"

fun uart_step :: "int \<Rightarrow> uart_op \<Rightarrow> uart_run \<Rightarrow> uart_run" where
  "uart_step k (UInject n d) r =
    r\<lparr>uPorts := uart_inject (uPorts r) n d,
      uLine := (if port_index n = port_index k then uLine r @ d else uLine r)\<rparr>"
| "uart_step k (URead n len) r =
    (let ((c, d), us) = uart_read_bytes (uPorts r) n len
     in r\<lparr>uPorts := us, uRead := (if port_index n = port_index k then uRead r @ d else uRead r)\<rparr>)"
| "uart_step k (UWrite n d) r = r\<lparr>uPorts := snd (uart_write_bytes (uPorts r) n d)\<rparr>"
| "uart_step k (UTake n) r = r\<lparr>uPorts := snd (uart_getTxData (uPorts r) n)\<rparr>"
| "uart_step k (UFlush n) r = r\<lparr>uPorts := snd (uart_flush (uPorts r) n)\<rparr>"
| "uart_step k (UConfig n c) r = r\<lparr>uPorts := snd (uart_param_config (uPorts r) n c)\<rparr>"

lemma port_index_less: "port_index n < 3"
  unfolding port_index_def by (simp split: if_split) linarith

lemma length_on_port [simp]: "length (on_port f us n) = length us"
  by (simp add: on_port_def)

lemma on_port_nth:
  "length us = 3 \<Longrightarrow> j < 3 \<Longrightarrow>
   on_port f us n ! j = (if j = port_index n then f (us ! j) else us ! j)"
  by (simp add: on_port_def nth_list_update)

definition uart_run_inv :: "int \<Rightarrow> uart_run \<Rightarrow> bool" where
  "uart_run_inv k r \<longleftrightarrow> length (uPorts r) = 3 \<and> uLine r = uRead r @ rxBuf (uPorts r ! port_index k)"

lemma uart_step_inv: "uart_run_inv k r \<Longrightarrow> uart_run_inv k (uart_step k op r)"
  by (cases op)
    (auto simp: uart_run_inv_def uart_inject_def uart_read_bytes_def uart_write_bytes_def uart_getTxData_def
      uart_flush_def uart_param_config_def on_port_nth port_index_less Let_def split: option.split)

definition uart_start :: uart_run where
  "uart_start = \<lparr>uPorts = uart_init, uLine = [], uRead = []\<rparr>"

interpretation uart_sys: step_system "\<lambda>r. r = uart_start" "\<lambda>op. True" "uart_step k" "uart_run_inv k" for k
proof
  show "r = uart_start \<Longrightarrow> uart_run_inv k r" for r
    using port_index_less [of k] by (simp add: uart_run_inv_def uart_start_def uart_init_def)
qed (rule uart_step_inv)

text \<open>
  A port is a lossless queue. In any history of traffic, configuration and flushes on the three
  ports, what the program has read from a port, followed by what waits in its buffer, is what was
  put on its line; nothing that happens on another port matters.
\<close>

theorem uart_line_fifo:
  "uLine (fold (uart_step k) ops uart_start) =
   uRead (fold (uart_step k) ops uart_start) @
   rxBuf (uPorts (fold (uart_step k) ops uart_start) ! port_index k)"
  using uart_sys.inv_run [of uart_start ops k] by (simp add: uart_run_inv_def list_all_iff)

text \<open>
  A port number that does not exist is port 0. Reading port 7 takes the bytes that arrived on
  port 0.
\<close>

theorem uart_unknown_port_is_zero:
  assumes "num < 0 \<or> num > 2"
  shows "uart_read_bytes us num len = uart_read_bytes us 0 len \<and> uart_write_bytes us num d = uart_write_bytes us 0 d"
  using assms by (simp add: uart_read_bytes_def uart_write_bytes_def on_port_def port_index_def)

theorem uart_unknown_port_is_zero_witness:
  "uart_read_bytes uart_init 7 1 = uart_read_bytes uart_init 0 1"
  using uart_unknown_port_is_zero [of 7 uart_init 1 "[]"] by simp

end
