(* ===== verification/Websocket_Client.thy ===== *)
theory Websocket_Client
  imports Callbacks Http_Text
begin

text \<open>
  The ESP-IDF WebSocket client of \<open>src/include/esp_websocket_client.h\<close>: its connection flags, the log of
  what was sent, the queue of what is received, and the events a user's handler gets. The handler is a
  number, its behaviour an argument \<open>run\<close>, which may call the client again; \<open>None\<close> is a call that does not
  return. Freeing the client from its own handler is not modelled.
\<close>

section \<open>State\<close>

datatype ws_event_id = WS_ERROR | WS_CONNECTED | WS_DISCONNECTED | WS_DATA | WS_CLOSED

record ws_event =
  weId :: ws_event_id
  weData :: "string option"
  weLen :: int
  weOp :: int

record ws_client =
  wsUri :: string
  wsConnected :: bool
  wsStarted :: bool
  wsHandler :: "nat option"
  wsArgs :: nat
  wsRx :: "(int \<times> string) list"
  wsLocked :: bool

text \<open>A client together with the log of sent messages, which all clients share.\<close>

record ws_world =
  wwClient :: ws_client
  wwSent :: "(string \<times> int) list"

type_synonym ws_run = "nat \<Rightarrow> nat \<Rightarrow> ws_event \<Rightarrow> ws_world \<Rightarrow> ws_world option"

definition on_ws :: "(ws_client \<Rightarrow> ws_client) \<Rightarrow> ws_world \<Rightarrow> ws_world" where
  "on_ws f w = w\<lparr>wwClient := f (wwClient w)\<rparr>"

definition ws_locked :: "ws_world \<Rightarrow> bool" where
  "ws_locked w = wsLocked (wwClient w)"

definition ws_mark :: "bool \<Rightarrow> ws_world \<Rightarrow> ws_world" where
  "ws_mark b = on_ws (\<lambda>c. c\<lparr>wsLocked := b\<rparr>)"

section \<open>Operations\<close>

definition inject_data :: "string \<Rightarrow> int \<Rightarrow> ws_world \<Rightarrow> (unit \<times> ws_world) option" where
  "inject_data d op = with_mutex ws_locked ws_mark (\<lambda>w. Some ((), on_ws (\<lambda>c. c\<lparr>wsRx := wsRx c @ [(op, d)]\<rparr>) w))"

definition ws_fire :: "ws_run \<Rightarrow> ws_event_id \<Rightarrow> string option \<Rightarrow> int \<Rightarrow> int \<Rightarrow> ws_world \<Rightarrow> ws_world option" where
  "ws_fire run i d len op w =
    (case wsHandler (wwClient w) of
      None \<Rightarrow> Some w
    | Some h \<Rightarrow> run h (wsArgs (wwClient w)) \<lparr>weId = i, weData = d, weLen = len, weOp = op\<rparr> w)"

definition ws_test_clear :: "ws_world \<Rightarrow> ws_world" where
  "ws_test_clear w = w\<lparr>wwSent := []\<rparr>"

definition ws_init :: "string option \<Rightarrow> ws_client" where
  "ws_init uri =
    \<lparr>wsUri = (case uri of Some u \<Rightarrow> u | None \<Rightarrow> []), wsConnected = False, wsStarted = False, wsHandler = None,
     wsArgs = 0, wsRx = [], wsLocked = False\<rparr>"

definition ws_register_events :: "nat option \<Rightarrow> nat \<Rightarrow> ws_world \<Rightarrow> int \<times> ws_world" where
  "ws_register_events h a w = (0, on_ws (\<lambda>c. c\<lparr>wsHandler := h, wsArgs := a\<rparr>) w)"

definition ws_start :: "ws_run \<Rightarrow> ws_world \<Rightarrow> (int \<times> ws_world) option" where
  "ws_start run w =
    map_option (Pair 0) (ws_fire run WS_CONNECTED None 0 1 (on_ws (\<lambda>c. c\<lparr>wsStarted := True, wsConnected := True\<rparr>) w))"

definition ws_stop :: "ws_run \<Rightarrow> ws_world \<Rightarrow> (int \<times> ws_world) option" where
  "ws_stop run w =
    map_option (\<lambda>w. (0, on_ws (\<lambda>c. c\<lparr>wsStarted := False\<rparr>) w))
      (if wsConnected (wwClient w)
       then ws_fire run WS_DISCONNECTED None 0 1 (on_ws (\<lambda>c. c\<lparr>wsConnected := False\<rparr>) w)
       else Some w)"

text \<open>The data is the characters from its address on. Reading behind them is undefined, \<open>None\<close>.\<close>

definition ws_send_text :: "string \<Rightarrow> int \<Rightarrow> ws_world \<Rightarrow> (int \<times> ws_world) option" where
  "ws_send_text d len w =
    (if \<not> wsConnected (wwClient w) then Some (- 1, w)
     else let n = (if len \<le> 0 then int (length (c_str d)) else len)
          in if nat n \<le> length d then Some (n, w\<lparr>wwSent := wwSent w @ [(take (nat n) d, 1)]\<rparr>) else None)"

text \<open>A negative length becomes a huge one, which \<open>std::string\<close> refuses by an exception.\<close>

definition ws_send_bin :: "string \<Rightarrow> int \<Rightarrow> ws_world \<Rightarrow> (int \<times> ws_world) option" where
  "ws_send_bin d len w =
    (if \<not> wsConnected (wwClient w) then Some (- 1, w)
     else if 0 \<le> len \<and> nat len \<le> length d then Some (len, w\<lparr>wwSent := wwSent w @ [(take (nat len) d, 2)]\<rparr>) else None)"

definition ws_deliver_one :: "ws_run \<Rightarrow> int \<times> string \<Rightarrow> ws_world \<Rightarrow> ws_world option" where
  "ws_deliver_one run = (\<lambda>(op, d). ws_fire run WS_DATA (Some d) (int (length d)) op)"

definition ws_test_deliver :: "ws_run \<Rightarrow> ws_world \<Rightarrow> (unit \<times> ws_world) option" where
  "ws_test_deliver run =
    with_mutex ws_locked ws_mark (\<lambda>w.
      map_option (\<lambda>w. ((), on_ws (\<lambda>c. c\<lparr>wsRx := []\<rparr>) w)) (each_call (ws_deliver_one run) (wsRx (wwClient w)) w))"

definition ws_close :: "ws_run \<Rightarrow> ws_world \<Rightarrow> (int \<times> ws_world) option" where
  "ws_close run w =
    map_option (Pair 0)
      (if wsConnected (wwClient w)
       then ws_fire run WS_CLOSED None 0 1 (on_ws (\<lambda>c. c\<lparr>wsConnected := False\<rparr>) w)
       else Some w)"

section \<open>Properties\<close>

lemma on_ws_simps [simp]:
  "wwClient (on_ws f w) = f (wwClient w)" "wwSent (on_ws f w) = wwSent w" "on_ws f (on_ws g w) = on_ws (f \<circ> g) w"
  by (simp_all add: on_ws_def)

lemma ws_mark_simps [simp]: "ws_locked (ws_mark b w) = b" "wwSent (ws_mark b w) = wwSent w"
  by (simp_all add: ws_mark_def ws_locked_def)

text \<open>A handler that sends back every message it gets.\<close>

definition echo_run :: ws_run where
  "echo_run h a e w =
    (case weData e of
      Some d \<Rightarrow> (case ws_send_text d (weLen e) w of Some (_, w) \<Rightarrow> Some w | None \<Rightarrow> None)
    | None \<Rightarrow> Some w)"

text \<open>
  An echo. Delivering with a handler that sends back what it gets puts every queued message on the log,
  once, in order and whole, whatever characters it has, empties the queue and frees the mutex.
\<close>

theorem websocket_echo:
  assumes "wsHandler c = Some h" "wsConnected c" "\<not> wsLocked c"
  shows "ws_test_deliver echo_run \<lparr>wwClient = c, wwSent = log\<rparr> =
    Some ((), \<lparr>wwClient = c\<lparr>wsRx := []\<rparr>, wwSent = log @ map (\<lambda>(op, d). (d, 1)) (wsRx c)\<rparr>)"
proof -
  let ?P = "\<lambda>w. wwClient w = c\<lparr>wsLocked := True\<rparr>"
  let ?g = "\<lambda>(op, d) w. w\<lparr>wwSent := wwSent w @ [(d, 1)]\<rparr>"
  have one: "ws_deliver_one echo_run x w = Some (?g x w) \<and> ?P (?g x w)" if "?P w" for x w
    using that assms by (cases x) (auto simp: ws_deliver_one_def ws_fire_def echo_run_def ws_send_text_def c_str_def Let_def)
  have log: "wwSent (fold ?g xs w) = wwSent w @ map (\<lambda>(op, d). (d, 1)) xs" "wwClient (fold ?g xs w) = wwClient w" for xs w
    by (induction xs arbitrary: w) auto
  let ?w = "\<lparr>wwClient = c\<lparr>wsLocked := True\<rparr>, wwSent = log\<rparr>"
  have "each_call (ws_deliver_one echo_run) (wsRx c) ?w = Some (fold ?g (wsRx c) ?w)"
    using each_call_fold [where P = ?P and f = "ws_deliver_one echo_run" and g = ?g and xs = "wsRx c" and s = ?w] one by simp
  moreover have "fold ?g (wsRx c) ?w = \<lparr>wwClient = c\<lparr>wsLocked := True\<rparr>, wwSent = log @ map (\<lambda>(op, d). (d, 1)) (wsRx c)\<rparr>"
    using log [of "wsRx c" ?w] by (intro ws_world.equality) simp_all
  ultimately show ?thesis
    using assms(3) by (simp add: ws_test_deliver_def with_mutex_def ws_locked_def ws_mark_def on_ws_def)
qed

theorem websocket_echo_witness:
  "ws_test_deliver echo_run
     \<lparr>wwClient = (ws_init None)\<lparr>wsHandler := Some 0, wsConnected := True, wsRx := [(1, ''a''), (2, '''')]\<rparr>, wwSent = []\<rparr> =
   Some ((), \<lparr>wwClient = (ws_init None)\<lparr>wsHandler := Some 0, wsConnected := True\<rparr>, wwSent = [(''a'', 1), ('''', 1)]\<rparr>)"
  using websocket_echo [of "(ws_init None)\<lparr>wsHandler := Some 0, wsConnected := True, wsRx := [(1, ''a''), (2, '''')]\<rparr>" 0 "[]"]
  by (simp add: ws_init_def)

text \<open>
  A handler cannot inject. Messages are delivered under the mutex that \<open>inject_data\<close> takes, so a handler
  that injects one, whatever it does else, never returns, and neither does the delivery.
\<close>

theorem websocket_inject_in_handler:
  assumes "wsHandler (wwClient w) = Some h" "wsRx (wwClient w) \<noteq> []"
    and "\<And>a e v. run h a e v = (case inject_data d op v of Some (_, v) \<Rightarrow> next_step v | None \<Rightarrow> None)"
  shows "ws_test_deliver run w = None"
proof (cases "ws_locked w")
  case False
  obtain x xs where x: "wsRx (wwClient w) = x # xs"
    using assms(2) by (cases "wsRx (wwClient w)") auto
  have "ws_locked (ws_mark True w)"
    by simp
  then have "inject_data d op (ws_mark True w) = None"
    by (simp add: inject_data_def)
  then have "ws_deliver_one run x (ws_mark True w) = None"
    using assms(1,3) by (cases x) (simp add: ws_deliver_one_def ws_fire_def ws_mark_def)
  moreover have "wsRx (wwClient (ws_mark True w)) = x # xs"
    using x by (simp add: ws_mark_def)
  ultimately show ?thesis
    using False by (simp add: ws_test_deliver_def with_mutex_def)
qed (simp add: ws_test_deliver_def)

theorem websocket_inject_in_handler_witness:
  "ws_test_deliver (\<lambda>h a e v. case inject_data ''x'' 1 v of Some (_, v) \<Rightarrow> Some v | None \<Rightarrow> None)
     \<lparr>wwClient = (ws_init None)\<lparr>wsHandler := Some 0, wsRx := [(1, ''a'')]\<rparr>, wwSent = []\<rparr> = None"
  by (rule websocket_inject_in_handler [where h = 0 and d = "''x''" and op = 1 and next_step = Some]) (simp_all add: ws_init_def)

definition restart_run :: ws_run where
  "restart_run h a e w =
    (if weId e = WS_DISCONNECTED then map_option snd (ws_start (\<lambda>_ _ _. Some) w) else Some w)"

text \<open>
  Reconnecting from the handler. When the handler for the lost connection starts the client again, \<open>stop\<close>
  leaves it connected but not started; with a handler that does nothing it leaves it neither.
\<close>

theorem websocket_restart_in_stop:
  assumes "wsHandler (wwClient w) = Some h" "wsConnected (wwClient w)"
  shows "(\<exists>v. ws_stop restart_run w = Some (0, v) \<and> wsConnected (wwClient v) \<and> \<not> wsStarted (wwClient v)) \<and>
    (\<exists>v. ws_stop (\<lambda>_ _ _. Some) w = Some (0, v) \<and> \<not> wsConnected (wwClient v) \<and> \<not> wsStarted (wwClient v))"
  using assms by (auto simp: ws_stop_def ws_start_def ws_fire_def restart_run_def)

theorem websocket_restart_in_stop_witness:
  "\<exists>v. ws_stop restart_run \<lparr>wwClient = (ws_init None)\<lparr>wsHandler := Some 0, wsConnected := True, wsStarted := True\<rparr>, wwSent = []\<rparr> = Some (0, v) \<and>
    wsConnected (wwClient v) \<and> \<not> wsStarted (wwClient v)"
  using websocket_restart_in_stop [of "\<lparr>wwClient = (ws_init None)\<lparr>wsHandler := Some 0, wsConnected := True, wsStarted := True\<rparr>, wwSent = []\<rparr>" 0]
  by (simp add: ws_init_def)

text \<open>
  Sending. Without a connection nothing is logged and the result is -1. With one, a text with length 0 or
  less is sent to its first zero, any other text and all binary data at the given length.
\<close>

theorem websocket_send:
  "(\<not> wsConnected (wwClient w) \<longrightarrow> ws_send_text d len w = Some (- 1, w) \<and> ws_send_bin d len w = Some (- 1, w)) \<and>
   (wsConnected (wwClient w) \<and> nat len \<le> length d \<longrightarrow>
     ws_send_text d len w =
       (let t = (if len \<le> 0 then c_str d else take (nat len) d) in Some (int (length t), w\<lparr>wwSent := wwSent w @ [(t, 1)]\<rparr>)) \<and>
     (0 \<le> len \<longrightarrow> ws_send_bin d len w = Some (len, w\<lparr>wwSent := wwSent w @ [(take (nat len) d, 2)]\<rparr>)))"
proof -
  have "length (c_str d) \<le> length d"
    by (simp add: c_str_def length_takeWhile_le)
  moreover have "take (length (c_str d)) d = c_str d"
    unfolding c_str_def by (rule takeWhile_eq_take [symmetric])
  ultimately show ?thesis
    by (auto simp: ws_send_text_def ws_send_bin_def Let_def)
qed

theorem websocket_send_witness:
  "ws_send_text [CHR ''a'', CHR 0x00, CHR ''b''] 0 \<lparr>wwClient = (ws_init None)\<lparr>wsConnected := True\<rparr>, wwSent = []\<rparr> =
    Some (1, \<lparr>wwClient = (ws_init None)\<lparr>wsConnected := True\<rparr>, wwSent = [(''a'', 1)]\<rparr>)"
  using websocket_send [of "\<lparr>wwClient = (ws_init None)\<lparr>wsConnected := True\<rparr>, wwSent = []\<rparr>" "[CHR ''a'', CHR 0x00, CHR ''b'']" 0]
  by (simp add: ws_init_def c_str_def)

end
