(* ===== verification/Wire_Flash.thy ===== *)
theory Wire_Flash
  imports Packet_Radio
begin

unbundle bit_operations_syntax

text \<open>
  The Arduino I2C bus \<open>src/include/Wire.h\<close>, the serial port \<open>SoftwareSerial.h\<close> and the raw flash
  chip \<open>esp_flash.h\<close>. The lemmas show what a device on the bus is given and what a sketch reads back, that the
  serial port is a queue, and that the chip behaves as NOR flash: erasing sets bits, writing clears them,
  nothing else changes; and where its bounds check lets an access outside the chip through.
\<close>

section \<open>\<open>Wire.h\<close>\<close>

text \<open>
  A device is known by its callback \<open>'d\<close>. The callback gets the bytes written and the number requested, may change
  the world \<open>'w\<close> outside the bus and returns the answer.
\<close>

record 'd wire =
  wiAddr :: byte
  wiTx :: "byte list"
  wiRx :: "byte list"
  wiPos :: nat
  wiDevices :: "byte \<Rightarrow> 'd option"

type_synonym ('d, 'w) device_run = "'d \<Rightarrow> byte list \<Rightarrow> byte \<Rightarrow> 'w \<Rightarrow> byte list \<times> 'w"

definition wire_new :: "'d wire" where
  "wire_new = \<lparr>wiAddr = 0, wiTx = [], wiRx = [], wiPos = 0, wiDevices = (\<lambda>_. None)\<rparr>"

definition beginTransmission :: "byte \<Rightarrow> 'd wire \<Rightarrow> 'd wire" where
  "beginTransmission addr s = s\<lparr>wiAddr := addr, wiTx := []\<rparr>"

definition wire_write :: "byte \<Rightarrow> 'd wire \<Rightarrow> nat \<times> 'd wire" where
  "wire_write v s = (1, s\<lparr>wiTx := wiTx s @ [v]\<rparr>)"

definition wire_write_buf :: "byte list \<Rightarrow> 'd wire \<Rightarrow> nat \<times> 'd wire" where
  "wire_write_buf buf s = (length buf, s\<lparr>wiTx := wiTx s @ buf\<rparr>)"

definition endTransmission :: "'d wire \<Rightarrow> byte \<times> 'd wire" where
  "endTransmission s = (0, s)"

definition requestFrom :: "('d, 'w) device_run \<Rightarrow> byte \<Rightarrow> byte \<Rightarrow> 'w \<Rightarrow> 'd wire \<Rightarrow> byte \<times> 'w \<times> 'd wire" where
  "requestFrom run addr qty w s =
    (let s = s\<lparr>wiRx := [], wiPos := 0\<rparr>
     in case wiDevices s addr of
          Some d \<Rightarrow> (let (rx, w) = run d (wiTx s) qty w in (of_nat (length rx), w, s\<lparr>wiRx := rx\<rparr>))
        | None \<Rightarrow> (of_nat (unat qty), w, s\<lparr>wiRx := replicate (unat qty) 0\<rparr>))"

definition wire_available :: "'d wire \<Rightarrow> int" where
  "wire_available s = int (length (wiRx s) - wiPos s)"

definition wire_read :: "'d wire \<Rightarrow> int \<times> 'd wire" where
  "wire_read s = (if wiPos s < length (wiRx s) then (uint (wiRx s ! wiPos s), s\<lparr>wiPos := wiPos s + 1\<rparr>) else (- 1, s))"

definition addDevice :: "byte \<Rightarrow> 'd \<Rightarrow> 'd wire \<Rightarrow> 'd wire" where
  "addDevice addr cb s = s\<lparr>wiDevices := (wiDevices s)(addr \<mapsto> cb)\<rparr>"

definition removeDevice :: "byte \<Rightarrow> 'd wire \<Rightarrow> 'd wire" where
  "removeDevice addr s = s\<lparr>wiDevices := (wiDevices s)(addr := None)\<rparr>"

section \<open>\<open>SoftwareSerial.h\<close>\<close>

text \<open>The port with the bytes it wrote to the standard output.\<close>

record soft_serial =
  swRx :: "byte list"
  swOut :: "byte list"

definition sw_new :: soft_serial where
  "sw_new = \<lparr>swRx = [], swOut = []\<rparr>"

definition sw_write :: "byte \<Rightarrow> soft_serial \<Rightarrow> nat \<times> soft_serial" where
  "sw_write c s = (1, s\<lparr>swOut := swOut s @ [c]\<rparr>)"

fun sw_write_buf :: "byte list \<Rightarrow> soft_serial \<Rightarrow> nat \<times> soft_serial" where
  "sw_write_buf [] s = (0, s)"
| "sw_write_buf (c # cs) s = (let (_, s) = sw_write c s; (n, s) = sw_write_buf cs s in (n + 1, s))"

definition sw_println :: "byte list \<Rightarrow> soft_serial \<Rightarrow> nat \<times> soft_serial" where
  "sw_println str s = (let (_, s) = sw_write_buf str s; (_, s) = sw_write 10 s in (length str + 1, s))"

definition sw_available :: "soft_serial \<Rightarrow> int" where
  "sw_available s = int (length (swRx s))"

definition sw_read :: "soft_serial \<Rightarrow> int \<times> soft_serial" where
  "sw_read s = (if swRx s = [] then (- 1, s) else (uint (hd (swRx s)), s\<lparr>swRx := tl (swRx s)\<rparr>))"

definition sw_peek :: "soft_serial \<Rightarrow> int" where
  "sw_peek s = (if swRx s = [] then - 1 else uint (hd (swRx s)))"

definition sw_injectByte :: "byte \<Rightarrow> soft_serial \<Rightarrow> soft_serial" where
  "sw_injectByte c s = s\<lparr>swRx := swRx s @ [c]\<rparr>"

section \<open>\<open>esp_flash.h\<close>\<close>

text \<open>
  The chip is its bytes. Addresses and lengths have 32 bits, and so has their sum in the bounds check; an access outside
  the vector is undefined.
\<close>

definition flash_bad :: "u32 \<Rightarrow> u32 \<Rightarrow> byte list \<Rightarrow> bool" where
  "flash_bad address len st \<longleftrightarrow> unat (address + len) > length st"

definition flash_at :: "u32 \<Rightarrow> u32 \<Rightarrow> byte list \<Rightarrow> bool" where
  "flash_at address len st \<longleftrightarrow> unat address + unat len \<le> length st"

definition flash_get_size :: "byte list \<Rightarrow> u32" where
  "flash_get_size st = of_nat (length st)"

definition flash_read :: "u32 \<Rightarrow> u32 \<Rightarrow> byte list \<Rightarrow> (esp_err \<times> byte list) option" where
  "flash_read address len st =
    (if flash_bad address len st then Some (ESP_ERR_INVALID_SIZE, [])
     else if flash_at address len st then Some (ESP_OK, chunk st (unat address) (unat len)) else None)"

definition flash_write :: "byte list \<Rightarrow> u32 \<Rightarrow> byte list \<Rightarrow> (esp_err \<times> byte list) option" where
  "flash_write src address st =
    (let len = of_nat (length src)
     in if flash_bad address len st then Some (ESP_ERR_INVALID_SIZE, st)
        else if flash_at address len st
        then Some (ESP_OK, blit st (unat address) (map2 (AND) (chunk st (unat address) (length src)) src)) else None)"

definition flash_erase_region :: "u32 \<Rightarrow> u32 \<Rightarrow> byte list \<Rightarrow> (esp_err \<times> byte list) option" where
  "flash_erase_region start len st =
    (if flash_bad start len st then Some (ESP_ERR_INVALID_SIZE, st)
     else if flash_at start len st then Some (ESP_OK, blit st (unat start) (replicate (unat len) 0xFF)) else None)"

definition flash_erase_chip :: "byte list \<Rightarrow> esp_err \<times> byte list" where
  "flash_erase_chip st = (ESP_OK, replicate (length st) 0xFF)"

definition flash_reset :: "byte list \<Rightarrow> byte list" where
  "flash_reset st = replicate (length st) 0xFF"

section \<open>Readers\<close>

interpretation wire_in: byte_reader "\<lambda>s. wiPos s \<le> length (wiRx s)" "\<lambda>s. drop (wiPos s) (wiRx s)" wire_available wire_read
proof unfold_locales
  fix s :: "'d wire" and b bs
  assume "drop (wiPos s) (wiRx s) = b # bs"
  then have "wiPos s < length (wiRx s)" "wiRx s ! wiPos s = b" "drop (wiPos s + 1) (wiRx s) = bs"
    by (metis drop_all list.distinct(1) not_le, metis nth_via_drop, metis add.commute drop_drop list.sel(3) tl_drop drop_Suc Suc_eq_plus1 plus_1_eq_Suc tl_drop)
  then show "fst (wire_read s) = uint b \<and> drop (wiPos (snd (wire_read s))) (wiRx (snd (wire_read s))) = bs \<and>
      wiPos (snd (wire_read s)) \<le> length (wiRx (snd (wire_read s)))"
    by (simp add: wire_read_def)
qed (auto simp: wire_available_def wire_read_def)

interpretation sw_in: byte_reader "\<lambda>_. True" swRx sw_available sw_read
  by unfold_locales (auto simp: sw_available_def sw_read_def)

section \<open>The bus\<close>

text \<open>
  A sketch that writes \<open>bs\<close> after \<open>beginTransmission(a)\<close> and then asks the device at \<open>a'\<close> for \<open>q\<close> bytes hands that
  device \<open>bs\<close>, whatever \<open>a\<close> is, and its reading loop gives the answer in order; a missing device answers with \<open>q\<close> zeros.
\<close>

theorem wire_transaction:
  fixes s a bs a' q w run
  defines "s1 \<equiv> snd (endTransmission (snd (wire_write_buf bs (beginTransmission a s))))"
  defines "ans \<equiv> (case wiDevices s a' of Some d \<Rightarrow> run d bs q w | None \<Rightarrow> (replicate (unat q) 0, w))"
  shows "\<exists>s2 t. requestFrom run a' q w s1 = (of_nat (length (fst ans)), snd ans, s2) \<and>
      read_all wire_available wire_read s2 = Some (t, map uint (fst ans)) \<and> wire_read t = (- 1, t)"
proof -
  define s2 where "s2 = snd (snd (requestFrom run a' q w s1))"
  have r: "requestFrom run a' q w s1 = (of_nat (length (fst ans)), snd ans, s2)"
    and rest: "wiPos s2 \<le> length (wiRx s2)" "drop (wiPos s2) (wiRx s2) = fst ans"
    by (auto simp: s2_def s1_def ans_def requestFrom_def endTransmission_def wire_write_buf_def beginTransmission_def Let_def
        split: option.splits prod.splits)
  obtain t where t: "read_all wire_available wire_read s2 = Some (t, map uint (drop (wiPos s2) (wiRx s2)))"
    "drop (wiPos t) (wiRx t) = []" "wiPos t \<le> length (wiRx t)"
    using wire_in.drain [of s2 "\<lambda>_. True"] rest by auto
  then have "wire_read t = (- 1, t)"
    using wire_in.read_none by blast
  then show ?thesis
    using r t rest by auto
qed

section \<open>The serial port\<close>

text \<open>What is injected is read in order after what was there; what is written goes to the output and is not read back.\<close>

lemma sw_write_buf_eq: "sw_write_buf bs s = (length bs, s\<lparr>swOut := swOut s @ bs\<rparr>)"
  by (induction bs arbitrary: s) (simp_all add: sw_write_def)

theorem software_serial:
  "\<exists>t. read_all sw_available sw_read (snd (sw_println line (fold sw_injectByte bs s))) = Some (t, map uint (swRx s @ bs)) \<and>
     sw_read t = (- 1, t) \<and> swOut t = swOut s @ line @ [10]"
proof -
  have inj: "fold sw_injectByte bs s = s\<lparr>swRx := swRx s @ bs\<rparr>" for s
    by (induction bs arbitrary: s) (simp_all add: sw_injectByte_def)
  define u where "u = snd (sw_println line (fold sw_injectByte bs s))"
  have u: "swRx u = swRx s @ bs" "swOut u = swOut s @ line @ [10]"
    by (simp_all add: u_def inj sw_println_def sw_write_buf_eq sw_write_def)
  have "\<exists>t. read_all sw_available sw_read u = Some (t, map uint (swRx u)) \<and> swRx t = [] \<and> True \<and> swOut t = swOut u"
    by (rule sw_in.drain) (auto simp: sw_read_def split: if_splits)
  then show ?thesis
    using sw_in.read_none u unfolding u_def by metis
qed

section \<open>The chip\<close>

lemma flash_in:
  assumes "unat a + unat len \<le> length st" "length st < 2 ^ 32"
  shows "\<not> flash_bad a len st" "flash_at a len st"
proof -
  have "unat (a + len) = unat a + unat len"
    using assms by (intro unat_add_no_wrap) simp
  then show "\<not> flash_bad a len st" "flash_at a len st"
    using assms by (simp_all add: flash_bad_def flash_at_def)
qed

lemma byte_ones: "(0xFF :: byte) AND b = b"
proof -
  have "(0xFF :: byte) = - 1"
    by simp
  then show ?thesis
    by (simp only: and.left_neutral)
qed

lemma and_all_ones: "map2 (AND) (replicate (length bs) (0xFF :: byte)) bs = bs"
  by (rule nth_equalityI) (simp_all add: byte_ones)

text \<open>
  Bytes written inside a region just erased are read back as they were written, and nothing outside the region changes.
\<close>

theorem flash_roundtrip:
  assumes "unat start + unat len \<le> length st" "length st < 2 ^ 32"
    and "unat start \<le> unat a" "unat a + length bs \<le> unat start + unat len"
  shows "\<exists>e w. flash_erase_region start len st = Some (ESP_OK, e) \<and> flash_write bs a e = Some (ESP_OK, w) \<and>
      flash_read a (of_nat (length bs)) w = Some (ESP_OK, bs) \<and> length w = length st \<and>
      (\<forall>i<length st. i < unat start \<or> unat start + unat len \<le> i \<longrightarrow> w ! i = st ! i)"
proof -
  define e where "e = blit st (unat start) (replicate (unat len) 0xFF)"
  define w where "w = blit e (unat a) bs"
  have n: "unat (of_nat (length bs) :: u32) = length bs"
    using assms by (simp add: unat_of_nat take_bit_nat_eq_self)
  have e: "flash_erase_region start len st = Some (ESP_OK, e)" "length e = length st"
    using assms flash_in [of start len st] by (simp_all add: flash_erase_region_def e_def)
  have ones: "chunk e (unat a) (length bs) = replicate (length bs) 0xFF"
    using assms unfolding e_def by (subst chunk_blit_inside) auto
  have w: "flash_write bs a e = Some (ESP_OK, w)" "length w = length st"
    using assms flash_in [of a "of_nat (length bs)" e] e n
    by (simp_all add: flash_write_def w_def ones and_all_ones Let_def)
  have "flash_read a (of_nat (length bs)) w = Some (ESP_OK, bs)"
    using assms flash_in [of a "of_nat (length bs)" w] w e n by (simp add: flash_read_def) (simp add: w_def)
  moreover have "w ! i = st ! i" if "i < length st" "i < unat start \<or> unat start + unat len \<le> i" for i
    using that assms e by (auto simp: w_def nth_blit e_def)
  ultimately show ?thesis
    using e w by blast
qed

theorem flash_roundtrip_witness:
  "\<exists>e w. flash_erase_region 0 8 (replicate 16 0) = Some (ESP_OK, e) \<and> flash_write [1, 2] 4 e = Some (ESP_OK, w) \<and>
      flash_read 4 (of_nat (length [1 :: byte, 2])) w = Some (ESP_OK, [1, 2]) \<and> length w = length (replicate 16 (0 :: byte)) \<and>
      (\<forall>i<length (replicate 16 (0 :: byte)). i < unat (0 :: u32) \<or> unat (0 :: u32) + unat (8 :: u32) \<le> i \<longrightarrow> w ! i = replicate 16 0 ! i)"
  by (rule flash_roundtrip) simp_all

text \<open>A write never sets a bit, whatever its result.\<close>

theorem flash_write_clears:
  assumes "flash_write src a st = Some (r, st')" "length src < 2 ^ 32"
  shows "length st' = length st \<and> (\<forall>i<length st. st' ! i AND st ! i = st' ! i)"
proof -
  have n: "unat (of_nat (length src) :: u32) = length src"
    using assms by (simp add: unat_of_nat take_bit_nat_eq_self)
  define len where "len = (of_nat (length src) :: u32)"
  have "(if flash_bad a len st then Some (ESP_ERR_INVALID_SIZE, st)
      else if flash_at a len st then Some (ESP_OK, blit st (unat a) (map2 (AND) (chunk st (unat a) (length src)) src))
      else None) = Some (r, st')"
    using assms(1) by (simp only: flash_write_def Let_def len_def)
  then have "st' = st \<or> flash_at a len st \<and> st' = blit st (unat a) (map2 (AND) (chunk st (unat a) (length src)) src)"
    by (simp split: if_splits)
  then consider "st' = st" | "unat a + length src \<le> length st"
      "st' = blit st (unat a) (map2 (AND) (chunk st (unat a) (length src)) src)"
    unfolding flash_at_def len_def n by blast
  then show ?thesis
  proof cases
    case 2
    then show ?thesis
      by (auto simp: nth_blit nth_chunk ac_simps)
  qed simp
qed

theorem flash_write_clears_witness:
  "length [0xF0 :: byte] = length [0xFF :: byte] \<and> (\<forall>i<length [0xFF :: byte]. [0xF0] ! i AND [0xFF] ! i = [0xF0 :: byte] ! i)"
  by (rule flash_write_clears [of "[0xF0]" 0 "[0xFF]" ESP_OK "[0xF0]"])
    (simp_all add: flash_write_def flash_bad_def flash_at_def chunk_def blit_def byte_ones)

text \<open>
  An access is let through although it leaves the chip exactly when address plus length wraps around 32 bits to a value inside
  it; any other access outside is refused.
\<close>

theorem flash_check_wraps:
  assumes "length st < 2 ^ 32"
  shows "flash_read a len st = None \<longleftrightarrow> 2 ^ 32 \<le> unat a + unat len \<and> unat a + unat len \<le> 2 ^ 32 + length st"
proof (cases "unat a + unat len < 2 ^ 32")
  case True
  then have "unat (a + len) = unat a + unat len"
    by (intro unat_add_no_wrap) simp
  then show ?thesis
    using True by (simp add: flash_read_def flash_bad_def flash_at_def)
next
  case False
  have "unat a < 2 ^ 32" "unat len < 2 ^ 32"
    using unat_bound [of a] unat_bound [of len] by simp_all
  then have "unat (a + len) = unat a + unat len - 2 ^ 32"
    using False by (simp add: unat_word_ariths mod_if)
  then show ?thesis
    using False assms by (auto simp: flash_read_def flash_bad_def flash_at_def)
qed

theorem flash_check_wraps_witness:
  "flash_read 0xFFFFFFFF 2 [0, 0] = None \<longleftrightarrow>
     2 ^ 32 \<le> unat (0xFFFFFFFF :: u32) + unat (2 :: u32) \<and>
     unat (0xFFFFFFFF :: u32) + unat (2 :: u32) \<le> 2 ^ 32 + length [0 :: byte, 0]"
  by (rule flash_check_wraps) simp

end
