(* ===== verification/Spec2Isabelle.thy ===== *)
theory Spec2Isabelle
  imports
    Aes Analog_Io Arduino_String Async_Web Base64 Ble_Gatt Board_Config Board_Services
    CJson_Heap Char_Displays Cloud_Clients Color_Pixels Controls Digest Esp_Console
    Esp_Http_Client Esp_Timer Event_Group Event_Loop Gpio_Driver Gptimer Http_Client
    Http_Server Hw_Timer I2c_Driver I2s_Audio Idf_Buses Idf_Signals Idf_Wifi Json_Document
    Mcp23017 Message_Io Modbus Mqtt Mqtt_Client Net_Services Nvs One_Wire Ota Pcnt
    Preferences Radio_Lib Radio_Peers Rates Ring_Buffer Rtc_Lib Rtos_Queue Rtos_Task Sd_Mmc
    Soft_Timer Stream_Buffer Tag_Readers Task_Scheduler Tcp_Client Tiny_Gps Twai U8g2_Screen
    Uart Websocket_Client Wire_Flash
begin

text \<open>
  A model of esp32emu, an emulator that lets sketches and ESP-IDF programs for the ESP32 run on a
  host: headers under \<open>src/include\<close> implement the interfaces of FreeRTOS, ESP-IDF and the
  Arduino libraries over host threads, sockets and memory, and three files under \<open>src/src\<close> hold
  the web server, the HTTP client and the TCP client.

  \<^bold>\<open>How the parts interact.\<close> A sketch calls the headers. The kernel objects (queues, stream
  buffers, event groups, task notifications, timers) are shared between host threads and
  protected by one mutex each; a blocking call releases its mutex while it waits, so each such
  operation takes an argument that says what the other threads do meanwhile. The storage headers
  keep byte vectors and maps for the life of the process. The peripherals call user code
  (interrupt handlers, alarm callbacks, slaves on a bus) from inside their operations. The web
  server and the HTTP client exchange texts over sockets.

  \<^bold>\<open>Theories\<close>, with the files under \<open>src/\<close> they model:
  \<^item> \<open>Prelude\<close>: machine types, error codes, \<open>memcpy\<close> on byte vectors (\<open>chunk\<close> reads, \<open>blit\<close> writes),
    little-endian images of integers. \<open>Interfaces\<close>: the contracts (locales) that components
    promise, with what clients conclude from them; every one is interpreted on the models.
  \<^item> Kernel: \<open>Rtos_Queue\<close> (include/freertos/queue.h), \<open>Stream_Buffer\<close> (stream_buffer.h), \<open>Ring_Buffer\<close>
    (ringbuf.h), \<open>Event_Group\<close> (event_groups.h), \<open>Rtos_Task\<close> (FreeRTOS.h), \<open>Soft_Timer\<close> (timers.h), \<open>Esp_Timer\<close> (include/esp_timer.h),
    \<open>Event_Loop\<close> (include/esp_event.h), \<open>Task_Scheduler\<close> (include/TaskScheduler.h).
  \<^item> Storage: \<open>Nvs\<close> (include/nvs_flash.h), \<open>Preferences\<close> (Preferences.h), \<open>Flash\<close> (esp_partition.h,
    esp_wear_levelling.h, EEPROM.h), \<open>Ota\<close> (esp_ota_ops.h, Update.h), \<open>Sd_Mmc\<close> (SD_MMC.h).
  \<^item> Data: \<open>Base64\<close>, \<open>Digest\<close>, \<open>Aes\<close> (include/mbedtls), \<open>CJson\<close> (include/cJSON.h), \<open>CJson_Heap\<close> (the
    same file, its nodes in memory), \<open>Json_Text\<close> and \<open>Json_Document\<close> (ArduinoJson.h: text and
    node store), \<open>Tiny_Gps\<close> (TinyGPSPlus.h), \<open>Esp_Console\<close> (include/esp_console.h),
    \<open>Arduino_String\<close> (esp32emu_string.h), \<open>Rtc_Lib\<close> (RTClib.h, DS3231.h), \<open>Board_Config\<close>
    (esp32emu_board.h and the arguments of src/esp32emu_main.cpp).
  \<^item> Peripherals: \<open>Gpio\<close> (include/esp32emu_gpio.h), \<open>Gpio_Driver\<close>, \<open>Pcnt\<close>, \<open>Twai\<close>, \<open>Gptimer\<close>,
    \<open>I2c_Driver\<close>, \<open>Uart\<close> (include/driver), \<open>Mcp23017\<close> (MCP23017.h), \<open>Modbus\<close> (ModbusMaster.h),
    \<open>One_Wire\<close> (OneWire.h, DallasTemperature.h), \<open>Hw_Timer\<close> (driver/timer.h),
    \<open>Idf_Buses\<close> (driver/i2c_master.h, spi_master.h, spi_slave.h), \<open>Idf_Signals\<close> (driver/ledc.h, rmt.h,
    touch_pad.h), \<open>Neo_Pixel\<close> (Adafruit_NeoPixel.h, Adafruit_NeoMatrix.h, NeoPixelBus.h),
    \<open>Raster\<close> (Adafruit_ILI9341.h, Adafruit_ST7735.h, Adafruit_ST7789.h), \<open>Mono_Screens\<close>
    (Adafruit_SSD1306.h, GxEPD2.h, Adafruit_GFX.h), \<open>Char_Displays\<close> (MAX7219.h,
    TM1637Display.h, LiquidCrystal.h, LiquidCrystal_I2C.h), \<open>I2s_Audio\<close> (I2S.h, driver/i2s.h,
    driver/i2s_std.h, driver/dac_continuous.h),
    \<open>Mailbox\<close> and \<open>Message_Io\<close> (MIDI.h, IRremote.h, MCP2515.h, driver_twai.h, esp_dmx.h, esp_adc_continuous.h),
    \<open>Tag_Readers\<close> (MFRC522.h, Adafruit_PN532.h, Adafruit_Fingerprint.h), \<open>Controls\<close> (AccelStepper.h, A4988.h,
    ezButton.h, ESP32Encoder.h, PCF8574.h, PCF8575.h, RunningMedian.h),
    \<open>Wire_Flash\<close> (Wire.h, SoftwareSerial.h, esp_flash.h), \<open>Rates\<close> (PID_v1.h, Ticker.h,
    esp32emu_ledc.h), \<open>Color_Pixels\<close> (Adafruit_DotStar.h, FastLED.h, esp_lcd.h),
    \<open>U8g2_Screen\<close> (U8g2lib.h), \<open>Analog_Io\<close> (driver/rtc_io.h, sigmadelta.h,
    mcpwm.h, dac_cosine.h, adc.h, adc_oneshot.h, temperature_sensor.h, esp_adc_oneshot.h), \<open>Board_Services\<close>
    (esp_task_wdt.h, esp_sleep.h, esp_heap_caps.h, esp_system.h, esp_efuse.h, esp_camera.h, esp_tls.h).
  \<^item> Network: \<open>Http_Text\<close> (the text functions of src/webserver.cpp, src/httpclient.cpp and
    include/esp32emu_socket.h), \<open>Web_Server\<close> (src/webserver.cpp, include/WebServer.h), \<open>Http_Client\<close>
    (src/httpclient.cpp, include/HTTPClient.h), \<open>Http_Server\<close> (include/esp_http_server.h), \<open>Mqtt\<close>
    (include/PubSubClient.h), \<open>Mqtt_Client\<close> (include/mqtt_client.h),
    \<open>Tcp_Client\<close> (src/wificlient.cpp, WiFiClient.h, WiFiServer.h), \<open>Async_Web\<close> (ESPAsyncWebServer.h),
    \<open>Esp_Http_Client\<close> (esp_http_client.h), \<open>Idf_Wifi\<close> (esp_wifi.h), \<open>Callbacks\<close> (user code under a mutex) and
    \<open>Websocket_Client\<close> (esp_websocket_client.h), \<open>Radio_Peers\<close> (esp_now.h, painlessMesh.h), \<open>Packet_Radio\<close>
    (LoRa.h, BluetoothSerial.h, WiFiUDP.h), \<open>Radio_Lib\<close> (RadioLib.h), \<open>Ble_Gatt\<close> (BLEDevice.h),
    \<open>Cloud_Clients\<close> (esp_https_ota.h, AsyncMqttClient.h, ThingSpeak.h), \<open>Net_Services\<close> (WiFi.h,
    WiFiManager.h, Ethernet.h, AsyncTCP.h, AsyncUDP.h, esp_netif.h, ESPmDNS.h, DNSServer.h, esp_sntp.h, ArduinoOTA.h).

  Records have the fields of the classes and structs under shortened names with a prefix per
  component; operations have the names of the C functions, or a prefix and the name of the method.

  \<^bold>\<open>What the lemmas show.\<close> For each component: the invariant of its state and that every operation
  keeps it; what each operation returns on each branch, errors included; and the contract of the
  whole. Queues, stream buffers and message buffers refine bounded first-in first-out
  sequences; storage returns what was stored; parsers return what printers print; streaming forms
  agree with one-shot forms; timers and alarms do not fire early and fire as often as they
  should; the two ends of an HTTP exchange understand each other however the network cuts the
  texts. Where the code does not keep its contract, the theorems state what it does.

  \<^bold>\<open>Conventions.\<close> An operation that can have undefined behaviour (an index outside a vector, a
  division by zero) returns an option and is \<open>None\<close> there. An operation that can block for ever
  returns \<open>None\<close>, or the theorem says that it stays blocked. Sizes of containers are
  natural numbers where the code cannot reach their wrap-around, and words of their width where
  a comparison or a sum wraps. What other threads, handlers, callbacks, slaves, \<open>send\<close>, \<open>recv\<close>,
  \<open>strtod\<close> and \<open>snprintf\<close> do are arguments of the definitions; what is needed of them is a
  hypothesis of the theorem. A host memory address is a number or a name, user code a code number.

  \<^bold>\<open>Bounds and fuel.\<close> Loops over data are structural or have a measure (the rest of the
  text, the rest of the input). The two JSON parsers are recursive through arrays and objects and
  take as fuel twice the length of the text and one; that it never runs out is part of the theorems
  about their results. The
  loops that wait take their number of polls from the timeout. The receive loop of the server is
  driven by the finite list of results of \<open>recv\<close>. The loops over the linked nodes of cJSON are
  partial functions with \<open>None\<close> for a loop that does not end; that they end on every well-formed
  list is part of the theorems about them.

  \<^bold>\<open>Not modelled.\<close> Logging (\<open>fprintf\<close> and \<open>printf\<close>); host threads, clocks, sockets and
  files themselves; floating-point arithmetic (sensors, motion and light libraries compute in
  \<open>float\<close>); mocks whose methods only record or return a field (most sensors); \<open>src/test\<close> and \<open>src/examples\<close>. Memory exhaustion is not modelled.
\<close>

end
